(* ===== verification/Prelude.thy ===== *)
theory Prelude
  imports Main "HOL-Library.Word"
begin

text \<open>
  Shared vocabulary of the development: the machine types of the kernel (\<open>uint8_t\<close>
  to \<open>uint64_t\<close> as words of their width, pointers as 64-bit words with 0 for
  \<open>nullptr\<close>), byte buffers as lists of bytes, reads and writes inside a buffer
  (\<open>buf_get\<close>, \<open>buf_put\<close>), the little-endian layout of packed struct fields, and
  the generic lemmas on lists and words that the component theories share.
\<close>

unbundle bit_operations_syntax

type_synonym u8 = "8 word"
type_synonym u16 = "16 word"
type_synonym u32 = "32 word"
type_synonym u64 = "64 word"

type_synonym bytes = "u8 list"

named_theorems buf_simps \<open>reads and writes of byte buffers\<close>
named_theorems le_simps \<open>little-endian encodings and decodings\<close>

section \<open>Byte buffers\<close>

text \<open>\<open>buf_get\<close> reads \<open>n\<close> bytes at an offset; \<open>buf_put\<close> is \<open>memcpy\<close> into a buffer.\<close>

definition buf_get :: "nat \<Rightarrow> nat \<Rightarrow> 'a list \<Rightarrow> 'a list" where
  "buf_get off n buf = take n (drop off buf)"

definition buf_put :: "nat \<Rightarrow> 'a list \<Rightarrow> 'a list \<Rightarrow> 'a list" where
  "buf_put off bs buf = take off buf @ bs @ drop (off + length bs) buf"

lemma length_buf_get [buf_simps]: "off + n \<le> length buf \<Longrightarrow> length (buf_get off n buf) = n"
  by (simp add: buf_get_def)

lemma length_buf_put [buf_simps]:
  "off + length bs \<le> length buf \<Longrightarrow> length (buf_put off bs buf) = length buf"
  by (simp add: buf_put_def)

lemma buf_get_put_same [buf_simps]:
  "off + length bs \<le> length buf \<Longrightarrow> n = length bs \<Longrightarrow> buf_get off n (buf_put off bs buf) = bs"
  by (simp add: buf_get_def buf_put_def)

lemma nth_buf_put:
  assumes "off + length bs \<le> length buf" and "i < length buf"
  shows "buf_put off bs buf ! i =
    (if off \<le> i \<and> i < off + length bs then bs ! (i - off) else buf ! i)"
  using assms by (auto simp: buf_put_def nth_append min_def)

lemma nth_buf_get: "i < n \<Longrightarrow> off + n \<le> length buf \<Longrightarrow> buf_get off n buf ! i = buf ! (off + i)"
  by (simp add: buf_get_def)

lemma buf_get_put_other [buf_simps]:
  assumes "off + length bs \<le> length buf" and "off' + n \<le> length buf"
    and "off' + n \<le> off \<or> off + length bs \<le> off'"
  shows "buf_get off' n (buf_put off bs buf) = buf_get off' n buf"
proof (rule nth_equalityI)
  show "length (buf_get off' n (buf_put off bs buf)) = length (buf_get off' n buf)"
    using assms by (simp add: buf_simps)
next
  fix i assume "i < length (buf_get off' n (buf_put off bs buf))"
  then have "i < n" using assms by (simp add: buf_simps)
  then show "buf_get off' n (buf_put off bs buf) ! i = buf_get off' n buf ! i"
    using assms by (auto simp: nth_buf_get nth_buf_put length_buf_put)
qed

lemma buf_put_append:
  "off + length xs + length ys \<le> length buf \<Longrightarrow> k = length xs \<Longrightarrow>
    buf_put (off + k) ys (buf_put off xs buf) = buf_put off (xs @ ys) buf"
  by (rule nth_equalityI) (auto simp: length_buf_put nth_buf_put nth_append)

lemma buf_put_inside:
  "o' + length ys \<le> length xs \<Longrightarrow> off + length xs \<le> length buf \<Longrightarrow>
    buf_put (off + o') ys (buf_put off xs buf) = buf_put off (buf_put o' ys xs) buf"
  by (rule nth_equalityI) (auto simp: length_buf_put nth_buf_put)

lemma buf_put_all [simp]: "length bs = length buf \<Longrightarrow> buf_put 0 bs buf = bs"
  by (simp add: buf_put_def)

lemma buf_get_all: "n = length buf \<Longrightarrow> buf_get 0 n buf = buf"
  by (simp add: buf_get_def)

lemma buf_get_append_left: "off + n \<le> length xs \<Longrightarrow> buf_get off n (xs @ ys) = buf_get off n xs"
  by (simp add: buf_get_def)

lemma buf_get_append_right:
  "length xs \<le> off \<Longrightarrow> buf_get off n (xs @ ys) = buf_get (off - length xs) n ys"
  by (simp add: buf_get_def)

lemma buf_get_get:
  "a + n \<le> m \<Longrightarrow> buf_get a n (buf_get off m buf) = buf_get (off + a) n buf"
  by (simp add: buf_get_def drop_take add.commute)

lemma buf_get_split: "k \<le> n \<Longrightarrow> buf_get off k buf @ buf_get (off + k) (n - k) buf = buf_get off n buf"
  by (metis add.commute buf_get_def drop_drop le_add_diff_inverse take_add)

lemma buf_get_replicate [buf_simps]: "off + n \<le> m \<Longrightarrow> buf_get off n (replicate m x) = replicate n x"
  by (simp add: buf_get_def min_def)

text \<open>A list of equal-sized chunks, as a multi-sector transfer moves it.\<close>

lemma length_concat_chunks:
  "(\<And>x. x \<in> set xs \<Longrightarrow> length (f x) = k) \<Longrightarrow> length (concat (map f xs)) = length xs * k"
  by (induction xs) auto

lemma buf_get_concat_chunks:
  assumes "\<And>i. i < n \<Longrightarrow> length (f i) = k" and "i < n"
  shows "buf_get (i * k) k (concat (map f [0..<n])) = f i"
proof -
  have split: "[0..<n] = [0..<i] @ i # [Suc i..<n]"
    using assms(2) upt_add_eq_append [of 0 i "n - i"] upt_conv_Cons [of i n] by simp
  have "length (concat (map f [0..<i])) = i * k"
    using assms by (subst length_concat_chunks [where k = k]) auto
  then show ?thesis
    using assms by (simp add: split buf_get_def)
qed

lemma concat_buf_gets:
  "length buf = n * k \<Longrightarrow> concat (map (\<lambda>i. buf_get (i * k) k buf) [0..<n]) = buf"
proof (induction n arbitrary: buf)
  case 0
  then show ?case by simp
next
  case (Suc n)
  have shift: "map (\<lambda>i. buf_get (i * k) k buf) [Suc 0..<Suc n] =
      map (\<lambda>i. buf_get (i * k) k (drop k buf)) [0..<n]"
    by (simp add: map_Suc_upt [symmetric] buf_get_def add.commute del: upt_Suc)
  have "length (drop k buf) = n * k"
    using Suc.prems by simp
  then have "concat (map (\<lambda>i. buf_get (i * k) k (drop k buf)) [0..<n]) = drop k buf"
    by (rule Suc.IH)
  then show ?case
    by (simp add: upt_conv_Cons shift del: upt_Suc) (simp add: buf_get_def)
qed

section \<open>Little-endian struct fields\<close>

text \<open>
  The kernel runs on x86-64: a packed struct overlaid on a buffer stores its multi-byte
  fields least significant byte first.
\<close>

definition le16_put :: "u16 \<Rightarrow> bytes" where
  "le16_put v = [ucast v, ucast (drop_bit 8 v)]"

definition le16_get :: "bytes \<Rightarrow> u16" where
  "le16_get bs = ucast (bs ! 0) OR push_bit 8 (ucast (bs ! 1))"

definition le32_put :: "u32 \<Rightarrow> bytes" where
  "le32_put v = [ucast v, ucast (drop_bit 8 v), ucast (drop_bit 16 v), ucast (drop_bit 24 v)]"

definition le32_get :: "bytes \<Rightarrow> u32" where
  "le32_get bs = ucast (bs ! 0) OR push_bit 8 (ucast (bs ! 1))
     OR push_bit 16 (ucast (bs ! 2)) OR push_bit 24 (ucast (bs ! 3))"

lemma length_le16_put [le_simps]: "length (le16_put v) = 2"
  by (simp add: le16_put_def)

lemma length_le32_put [le_simps]: "length (le32_put v) = 4"
  by (simp add: le32_put_def)

lemma le16_get_put [le_simps]: "le16_get (le16_put v) = v"
  by (rule bit_word_eqI) (auto simp: le16_get_def le16_put_def bit_simps)

lemma le32_get_put [le_simps]: "le32_get (le32_put v) = v"
proof (rule bit_word_eqI)
  fix n assume n: "n < LENGTH(32)"
  consider "n < 8" | "8 \<le> n" "n < 16" | "16 \<le> n" "n < 24" | "24 \<le> n"
    by linarith
  then show "bit (le32_get (le32_put v)) n = bit v n"
    using n by cases (auto simp: le32_get_def le32_put_def bit_simps numeral_2_eq_2 numeral_3_eq_3)
qed

definition le64_put :: "u64 \<Rightarrow> bytes" where
  "le64_put v = le32_put (ucast v) @ le32_put (ucast (drop_bit 32 v))"

definition le64_get :: "bytes \<Rightarrow> u64" where
  "le64_get bs = ucast (le32_get (take 4 bs)) OR push_bit 32 (ucast (le32_get (drop 4 bs)))"

lemma length_le64_put [le_simps]: "length (le64_put v) = 8"
  by (simp add: le64_put_def length_le32_put)

lemma le64_get_put [le_simps]: "le64_get (le64_put v) = v"
proof -
  have "ucast (ucast v :: u32) OR push_bit 32 (ucast (ucast (drop_bit 32 v) :: u32)) = v" (is "?l = v")
  proof (rule bit_word_eqI)
    fix n assume "n < LENGTH(64)"
    then show "bit ?l n = bit v n"
      by (cases "n < 32") (auto simp: bit_simps)
  qed
  then show ?thesis by (simp add: le64_get_def le64_put_def le_simps)
qed

lemma and_0xFFFF: "(v :: u32) AND 0xFFFF = take_bit 16 v"
  by (simp add: take_bit_eq_mask mask_eq_exp_minus_1)

text \<open>A cluster number split over two 16-bit directory fields and put together again.\<close>

lemma hi_lo_roundtrip [le_simps]:
  fixes v :: u32
  shows "push_bit 16 (ucast (ucast (drop_bit 16 v AND 0xFFFF) :: u16)) OR
    ucast (ucast (v AND 0xFFFF) :: u16) = v" (is "?l = v")
proof (rule bit_word_eqI)
  fix n assume "n < LENGTH(32)"
  then show "bit ?l n = bit v n"
    unfolding and_0xFFFF by (cases "n < 16") (auto simp: bit_simps)
qed

section \<open>Words as machine integers\<close>

lemma unat_add_no_wrap:
  fixes x y :: "'a::len word"
  shows "unat x + unat y < 2 ^ LENGTH('a) \<Longrightarrow> unat (x + y) = unat x + unat y"
  by (simp add: unat_word_ariths)

lemma word_of_nat_inj_less:
  "i < 2 ^ LENGTH('a) \<Longrightarrow> j < 2 ^ LENGTH('a) \<Longrightarrow>
    (of_nat i :: 'a::len word) = of_nat j \<Longrightarrow> i = j"
  by (metis of_nat_inverse)

lemma unat_u64_less: "unat (w :: u64) < 2 ^ 64"
proof -
  have "unat w < 2 ^ LENGTH(64)" by (rule unsigned_less)
  then show ?thesis by simp
qed

lemma unat_u8_less: "unat (b :: u8) < 256"
  using unsigned_less [of b] by simp

lemma unat_u16_less: "unat (w :: u16) < 65536"
  using unsigned_less [of w] by simp

lemma unat_u32_less: "unat (w :: u32) < 4294967296"
  using unsigned_less [of w] by simp

lemma unat_word_div: "unat (a div b) = unat a div unat (b :: 'a::len word)"
  by (simp add: unat_div_distrib)

lemma unat_word_mod: "unat (a mod b) = unat a mod unat (b :: 'a::len word)"
  by (simp add: unat_mod_distrib)

lemma unat_ucast_16_32 [simp]: "unat (ucast (w :: u16) :: u32) = unat w"
  using unat_u16_less [of w] by (simp add: unsigned_ucast_eq take_bit_nat_eq_self)

lemma unat_ucast_8_32 [simp]: "unat (ucast (w :: u8) :: u32) = unat w"
  using unat_u8_less [of w] by (simp add: unsigned_ucast_eq take_bit_nat_eq_self)

lemma unat_ucast_32_64 [simp]: "unat (ucast (w :: u32) :: u64) = unat w"
  using unat_u32_less [of w] by (simp add: unsigned_ucast_eq take_bit_nat_eq_self)

lemma sint_u32_small: "unat (w :: u32) < 2 ^ 31 \<Longrightarrow> sint w = int (unat w)"
proof -
  assume w: "unat w < 2 ^ 31"
  have "uint w = int (unat w)" by simp
  moreover have "uint w < 2 ^ 31" using w by (metis calculation of_nat_less_iff of_nat_numeral of_nat_power)
  moreover have "- (2 ^ 31) \<le> uint w" by (rule order_trans [of _ 0]) simp_all
  ultimately show ?thesis
    using signed_take_bit_int_eq_self [of 31 "uint w"] by (simp add: sint_uint)
qed

lemma sint_u32_large: "2 ^ 31 \<le> unat (w :: u32) \<Longrightarrow> sint w < 0"
proof -
  assume w: "2 ^ 31 \<le> unat w"
  have "unat w div 2 ^ 31 = 1" using w unat_u32_less [of w] by (intro div_nat_eqI) simp_all
  then have "bit (unat w) 31" by (simp add: bit_iff_odd)
  then have "bit (uint w) 31" by (simp add: bit_unsigned_iff)
  then show ?thesis by (simp add: sint_uint)
qed

text \<open>A comparison of a signed value with small constants reads its unsigned value.\<close>

lemma sint_u32_eq: "int k < 2 ^ 31 \<Longrightarrow> sint (w :: u32) = int k \<longleftrightarrow> unat w = k"
proof (cases "unat w < 2 ^ 31")
  case True
  show ?thesis unfolding sint_u32_small [OF True] of_nat_eq_iff ..
next
  case False
  moreover assume "int k < 2 ^ 31"
  ultimately show ?thesis using sint_u32_large [of w] by auto
qed

section \<open>Lists\<close>

lemma nth_eq_take_drop: "i < length xs \<Longrightarrow> xs = take i xs @ xs ! i # drop (Suc i) xs"
  by (rule id_take_nth_drop)

lemma distinct_not_in_neighbours:
  "distinct (xs @ t # ys) \<Longrightarrow> t \<notin> set xs \<and> t \<notin> set ys"
  by simp

lemma find_upt_Some:
  assumes "find P [a..<b] = Some c"
  shows "a \<le> c" "c < b" "P c" "\<And>d. a \<le> d \<Longrightarrow> d < c \<Longrightarrow> \<not> P d"
proof -
  from assms obtain i where i: "i < length [a..<b]" "P ([a..<b] ! i)" "c = [a..<b] ! i"
    "\<And>j. j < i \<Longrightarrow> \<not> P ([a..<b] ! j)"
    by (auto simp: find_Some_iff)
  then have c: "c = a + i" by simp
  then show "a \<le> c" "c < b" "P c" using i by auto
  show "\<not> P d" if "a \<le> d" "d < c" for d
    using i(1) i(4) [of "d - a"] that c by auto
qed

lemma find_upt_None: "find P [a..<b] = None \<longleftrightarrow> (\<forall>c. a \<le> c \<and> c < b \<longrightarrow> \<not> P c)"
  by (auto simp: find_None_iff)

lemma find_upt_cong: "(\<And>c. a \<le> c \<Longrightarrow> c < b \<Longrightarrow> P c = Q c) \<Longrightarrow> find P [a..<b] = find Q [a..<b]"
  by (rule find_cong) auto

lemma find_upt_SomeI:
  assumes "a \<le> c" "c < b" "P c" "\<And>d. a \<le> d \<Longrightarrow> d < c \<Longrightarrow> \<not> P d"
  shows "find P [a..<b] = Some c"
proof (cases "find P [a..<b]")
  case None
  then show ?thesis using assms(1-3) find_upt_None by blast
next
  case (Some d)
  note d = find_upt_Some [OF Some]
  have "\<not> d < c" using d(1,3) assms(4) by blast
  moreover have "\<not> c < d" using d(4) assms(1,3) by blast
  ultimately show ?thesis using Some by simp
qed

section \<open>Rings\<close>

text \<open>
  The elements in a ring of size \<open>n\<close>: \<open>k\<close> of them from the read position on, cyclically.
\<close>

definition ring_list :: "nat \<Rightarrow> 'a list \<Rightarrow> nat \<Rightarrow> nat \<Rightarrow> 'a list" where
  "ring_list n buf r k = map (\<lambda>i. buf ! ((r + i) mod n)) [0..<k]"

definition ring_ok :: "nat \<Rightarrow> 'a list \<Rightarrow> nat \<Rightarrow> nat \<Rightarrow> nat \<Rightarrow> bool" where
  "ring_ok n buf r w k \<longleftrightarrow> length buf = n \<and> r < n \<and> k \<le> n \<and> w = (r + k) mod n"

lemma length_ring_list [simp]: "length (ring_list n buf r k) = k"
  by (simp add: ring_list_def)

lemma ring_put:
  assumes "ring_ok n buf r w k" "k < n"
  shows "ring_ok n (buf[w := c]) r ((w + 1) mod n) (k + 1)"
    and "ring_list n (buf[w := c]) r (k + 1) = ring_list n buf r k @ [c]"
proof -
  have w: "w < n" "w = (r + k) mod n" "length buf = n" using assms by (auto simp: ring_ok_def)
  show "ring_ok n (buf[w := c]) r ((w + 1) mod n) (k + 1)"
    using assms by (simp add: ring_ok_def mod_Suc_eq)
  have "w \<noteq> (r + i) mod n" if "i < k" for i
  proof
    assume "w = (r + i) mod n"
    then have "(r + k) mod n = (r + i) mod n" using w(2) by simp
    then have "n dvd (r + k) - (r + i)" using that by (simp add: mod_eq_dvd_iff_nat)
    then have "n dvd k - i" by simp
    then show False using that assms(2) nat_dvd_not_less [of "k - i" n] by simp
  qed
  then show "ring_list n (buf[w := c]) r (k + 1) = ring_list n buf r k @ [c]"
    using w by (simp add: ring_list_def)
qed

lemma ring_get:
  assumes "ring_ok n buf r w k" "0 < k"
  shows "ring_ok n buf ((r + 1) mod n) w (k - 1)"
    and "buf ! r = hd (ring_list n buf r k)"
    and "ring_list n buf ((r + 1) mod n) (k - 1) = tl (ring_list n buf r k)"
proof -
  obtain j where k: "k = Suc j" using assms(2) by (cases k) auto
  have r: "r mod n = r" using assms(1) by (simp add: ring_ok_def)
  show "ring_ok n buf ((r + 1) mod n) w (k - 1)"
    using assms by (simp add: ring_ok_def k mod_add_left_eq)
  have l: "ring_list n buf r k = buf ! r # map (\<lambda>i. buf ! ((r + Suc i) mod n)) [0..<j]"
    by (simp add: ring_list_def k upt_conv_Cons r map_Suc_upt [symmetric] del: upt_Suc)
  then show "buf ! r = hd (ring_list n buf r k)" by simp
  show "ring_list n buf ((r + 1) mod n) (k - 1) = tl (ring_list n buf r k)"
    unfolding l by (simp add: ring_list_def k mod_add_left_eq [of "Suc r" n, simplified])
qed

lemma ring_empty [simp]: "ring_list n buf r 0 = []"
  by (simp add: ring_list_def)

text \<open>A full ring in which a new element takes the place of the oldest.\<close>

lemma ring_replace:
  assumes "ring_ok n buf w w n" "0 < n"
  shows "ring_ok n (buf[w := c]) ((w + 1) mod n) ((w + 1) mod n) n"
    and "ring_list n (buf[w := c]) ((w + 1) mod n) n = tl (ring_list n buf w n) @ [c]"
proof -
  note g = ring_get [OF assms(1,2)]
  have lt: "n - 1 < n" and n: "n - 1 + 1 = n" using assms(2) by simp_all
  show "ring_ok n (buf[w := c]) ((w + 1) mod n) ((w + 1) mod n) n"
    using ring_put(1) [OF g(1) lt, of c, unfolded n] .
  show "ring_list n (buf[w := c]) ((w + 1) mod n) n = tl (ring_list n buf w n) @ [c]"
    using ring_put(2) [OF g(1) lt, of c, unfolded n] g(3) by simp
qed

end
