(* ===== verification/MemoryMgr.thy ===== *)
theory MemoryMgr
  imports Prelude
begin

text \<open>
  The physical frame allocator: \<open>class Bitmap\<close> and \<open>class MemoryManager\<close> of
  \<open>kernel/memory/memory_manager.hpp\<close> and \<open>.cpp\<close>, and \<open>operator new/delete\<close> of
  \<open>kernel/new.cpp\<close>. A bitmap is its byte array and the size in bytes; frame numbers and
  bitmap sizes are below \<open>2 ^ 52\<close>, so they are natural numbers, while request sizes and
  addresses keep their 64 bits and wrap as \<open>size_t\<close> does. \<open>FindFreeFrame\<close> returns the
  source's \<open>long\<close>, with \<open>-1\<close> for a full map. A null pointer is the address 0.
\<close>

section \<open>Bitmap\<close>

record Bitmap =
  bm_buffer :: bytes
  bm_size :: nat

definition SetBuffer :: "bytes \<Rightarrow> nat \<Rightarrow> Bitmap" where
  "SetBuffer buf sz = \<lparr>bm_buffer = buf, bm_size = sz\<rparr>"

definition Bitmap_Get :: "Bitmap \<Rightarrow> nat \<Rightarrow> bool" where
  "Bitmap_Get bm index =
     (if index div 8 \<ge> bm_size bm then True
      else (bm_buffer bm ! (index div 8)) AND push_bit (index mod 8) 1 \<noteq> 0)"

definition Bitmap_Set :: "Bitmap \<Rightarrow> nat \<Rightarrow> bool \<Rightarrow> Bitmap" where
  "Bitmap_Set bm index allocated =
     (if index div 8 \<ge> bm_size bm then bm
      else
        let k = index div 8; b = bm_buffer bm ! k; m = push_bit (index mod 8) 1
        in bm\<lparr>bm_buffer := (bm_buffer bm)[k := if allocated then b OR m else b AND NOT m]\<rparr>)"

text \<open>The inner loop over the bits of one byte, then the loop over the bytes.\<close>

function FindFreeBit :: "u8 \<Rightarrow> nat \<Rightarrow> nat option" where
  "FindFreeBit b k =
     (if k < 8 then (if drop_bit k b AND 1 = 0 then Some k else FindFreeBit b (Suc k)) else None)"
  by pat_completeness auto
termination
  by (relation "measure (\<lambda>(b, k). 8 - k)") auto

function FindFreeByte :: "Bitmap \<Rightarrow> nat \<Rightarrow> int" where
  "FindFreeByte bm i =
     (if i < bm_size bm then
        (if bm_buffer bm ! i \<noteq> 0xFF then
           (case FindFreeBit (bm_buffer bm ! i) 0 of
              Some k \<Rightarrow> int (i * 8 + k)
            | None \<Rightarrow> FindFreeByte bm (Suc i))
         else FindFreeByte bm (Suc i))
      else -1)"
  by pat_completeness auto
termination
  by (relation "measure (\<lambda>(bm, i). bm_size bm - i)") auto

declare FindFreeBit.simps [simp del] FindFreeByte.simps [simp del]

definition FindFreeFrame :: "Bitmap \<Rightarrow> int" where
  "FindFreeFrame bm = FindFreeByte bm 0"

section \<open>MemoryManager\<close>

record MemoryManager =
  mm_bitmap :: Bitmap
  mm_range_end :: u64

record MemoryDescriptor =
  md_type :: u32
  physical_start :: u64
  number_of_pages :: u64

definition kFrameSize :: nat where
  "kFrameSize = 4096"

definition kEfiConventionalMemory :: u32 where
  "kEfiConventionalMemory = 7"

text \<open>\<open>(sz + kFrameSize - 1) / kFrameSize\<close> in \<open>size_t\<close> arithmetic.\<close>

definition frames_of :: "u64 \<Rightarrow> nat" where
  "frames_of sz = unat (sz + 4095) div kFrameSize"

definition total_frames :: "MemoryManager \<Rightarrow> nat" where
  "total_frames mm = unat (mm_range_end mm) div kFrameSize"

definition AllocateFrame :: "MemoryManager \<Rightarrow> u64 \<times> MemoryManager" where
  "AllocateFrame mm =
     (let frame = FindFreeFrame (mm_bitmap mm) in
      if frame < 0 then (0, mm)
      else (of_nat (nat frame * kFrameSize), mm\<lparr>mm_bitmap := Bitmap_Set (mm_bitmap mm) (nat frame) True\<rparr>))"

definition FreeFrame :: "MemoryManager \<Rightarrow> u64 \<Rightarrow> MemoryManager" where
  "FreeFrame mm ptr = mm\<lparr>mm_bitmap := Bitmap_Set (mm_bitmap mm) (unat ptr div kFrameSize) False\<rparr>"

text \<open>
  The search of \<open>Allocate\<close>: \<open>check_run\<close> is the inner loop, \<open>Some j\<close> when it stops at
  the first frame that is out of range or in use, and \<open>search_run\<close> the outer one, which
  skips the \<open>j\<close> frames already seen.
\<close>

function check_run :: "Bitmap \<Rightarrow> nat \<Rightarrow> nat \<Rightarrow> nat \<Rightarrow> nat \<Rightarrow> nat option" where
  "check_run bm tot num i j =
     (if j < num then
        (if i + j \<ge> tot \<or> Bitmap_Get bm (i + j) then Some j else check_run bm tot num i (Suc j))
      else None)"
  by pat_completeness auto
termination
  by (relation "measure (\<lambda>(bm, tot, num, i, j). num - j)") auto

function search_run :: "Bitmap \<Rightarrow> nat \<Rightarrow> nat \<Rightarrow> nat \<Rightarrow> nat option" where
  "search_run bm tot num i =
     (if i < tot then
        (case check_run bm tot num i 0 of
           None \<Rightarrow> Some i
         | Some j \<Rightarrow> search_run bm tot num (Suc (i + j)))
      else None)"
  by pat_completeness auto
termination
  by (relation "measure (\<lambda>(bm, tot, num, i). tot - i)") auto

declare check_run.simps [simp del] search_run.simps [simp del]

text \<open>The marking loops: \<open>n\<close> frames from \<open>i\<close> upwards.\<close>

primrec set_frames :: "Bitmap \<Rightarrow> nat \<Rightarrow> bool \<Rightarrow> nat \<Rightarrow> Bitmap" where
  "set_frames bm i v 0 = bm"
| "set_frames bm i v (Suc n) = Bitmap_Set (set_frames bm i v n) (i + n) v"

definition Allocate :: "MemoryManager \<Rightarrow> u64 \<Rightarrow> u64 \<times> MemoryManager" where
  "Allocate mm sz =
     (if sz = 0 then (0, mm)
      else
        let num_frames = frames_of sz in
        if num_frames = 1 then AllocateFrame mm
        else
          let start_search = FindFreeFrame (mm_bitmap mm) in
          if start_search < 0 then (0, mm)
          else
            (case search_run (mm_bitmap mm) (total_frames mm) num_frames (nat start_search) of
               None \<Rightarrow> (0, mm)
             | Some i \<Rightarrow>
                 (of_nat (i * kFrameSize),
                  mm\<lparr>mm_bitmap := set_frames (mm_bitmap mm) i True num_frames\<rparr>)))"

definition Free :: "MemoryManager \<Rightarrow> u64 \<Rightarrow> u64 \<Rightarrow> MemoryManager" where
  "Free mm ptr sz =
     mm\<lparr>mm_bitmap := set_frames (mm_bitmap mm) (unat ptr div kFrameSize) False (frames_of sz)\<rparr>"

section \<open>Initialisation from the UEFI memory map\<close>

primrec find_range_end :: "MemoryDescriptor list \<Rightarrow> u64 \<Rightarrow> u64" where
  "find_range_end [] acc = acc"
| "find_range_end (d # ds) acc =
     (let region_end = physical_start d + number_of_pages d * 4096
      in find_range_end ds (if region_end > acc then region_end else acc))"

primrec find_bitmap_base :: "MemoryDescriptor list \<Rightarrow> u64 \<Rightarrow> u64" where
  "find_bitmap_base [] bitmap_size = 0"
| "find_bitmap_base (d # ds) bitmap_size =
     (if md_type d = kEfiConventionalMemory \<and> number_of_pages d * 4096 \<ge> bitmap_size
      then physical_start d else find_bitmap_base ds bitmap_size)"

text \<open>A loop \<open>for (f = start; f < end; ++f) Set(f, v)\<close>.\<close>

definition set_range :: "Bitmap \<Rightarrow> nat \<Rightarrow> nat \<Rightarrow> bool \<Rightarrow> Bitmap" where
  "set_range bm a b v = set_frames bm a v (b - a)"

primrec free_regions :: "Bitmap \<Rightarrow> MemoryDescriptor list \<Rightarrow> Bitmap" where
  "free_regions bm [] = bm"
| "free_regions bm (d # ds) =
     free_regions
       (if md_type d = kEfiConventionalMemory
        then set_range bm (unat (physical_start d) div kFrameSize)
               (unat (physical_start d + number_of_pages d * 4096) div kFrameSize) False
        else bm) ds"

text \<open>
  \<open>None\<close> is the \<open>hlt\<close> loop of the source when no region can hold the bitmap. The memory
  map is the list of its descriptors; \<open>kernel_start\<close> and \<open>kernel_end\<close> are the linker
  symbols \<open>__kernel_start\<close> and \<open>__kernel_end\<close>; \<open>range_end\<close> is the value of the static
  \<open>range_end_\<close> at the call.
\<close>

definition Initialize_mm :: "u64 \<Rightarrow> u64 \<Rightarrow> u64 \<Rightarrow> MemoryDescriptor list \<Rightarrow> MemoryManager option"
where
  "Initialize_mm range_end kernel_start kernel_end memmap =
     (let re = find_range_end memmap range_end;
          tot = unat re div kFrameSize;
          bitmap_size = (tot + 7) div 8;
          bitmap_base = find_bitmap_base memmap (of_nat bitmap_size)
      in if bitmap_base = 0 then None
         else
           let bm0 = SetBuffer (replicate bitmap_size 0xFF) bitmap_size;
               bm1 = free_regions bm0 memmap;
               bm2 = set_range bm1 (unat bitmap_base div kFrameSize)
                       (unat (bitmap_base + of_nat bitmap_size + 4095) div kFrameSize) True;
               bm3 = set_range bm2 (unat kernel_start div kFrameSize)
                       (unat (kernel_end + 4095) div kFrameSize) True
           in Some \<lparr>mm_bitmap = Bitmap_Set bm3 0 True, mm_range_end = re\<rparr>)"

section \<open>operator new and delete\<close>

text \<open>
  \<open>operator new\<close> stores the total size in the first word of the block and hands out the
  address after its 16-byte header; the store is the memory at 64-bit cells.
\<close>

record kheap =
  kmm :: MemoryManager
  cells :: "u64 \<Rightarrow> u64"

definition kHeaderSize :: u64 where
  "kHeaderSize = 16"

definition operator_new :: "kheap \<Rightarrow> u64 \<Rightarrow> u64 \<times> kheap" where
  "operator_new h sz =
     (let total_size = sz + kHeaderSize;
          (ptr, mm) = Allocate (kmm h) total_size
      in if ptr = 0 then (0, h\<lparr>kmm := mm\<rparr>)
         else (ptr + kHeaderSize, \<lparr>kmm = mm, cells = (cells h)(ptr := total_size)\<rparr>))"

definition operator_delete :: "kheap \<Rightarrow> u64 \<Rightarrow> kheap" where
  "operator_delete h ptr =
     (if ptr = 0 then h
      else
        let real_ptr = ptr - kHeaderSize; total_size = cells h real_ptr
        in h\<lparr>kmm := Free (kmm h) real_ptr total_size\<rparr>)"

section \<open>Facts about the bitmap\<close>

definition bitmap_wf :: "Bitmap \<Rightarrow> bool" where
  "bitmap_wf bm \<longleftrightarrow> length (bm_buffer bm) = bm_size bm"

lemma Get_bit:
  "index div 8 < bm_size bm \<Longrightarrow> Bitmap_Get bm index = bit (bm_buffer bm ! (index div 8)) (index mod 8)"
  by (simp add: Bitmap_Get_def bit_iff_and_push_bit_not_eq_0)

lemma Get_beyond: "bm_size bm * 8 \<le> index \<Longrightarrow> Bitmap_Get bm index"
  by (simp add: Bitmap_Get_def div_le_mono less_eq_div_iff_mult_less_eq)

lemma Set_size [simp]: "bm_size (Bitmap_Set bm i v) = bm_size bm"
  by (simp add: Bitmap_Set_def Let_def)

lemma Set_wf [simp]: "bitmap_wf bm \<Longrightarrow> bitmap_wf (Bitmap_Set bm i v)"
  by (simp add: bitmap_wf_def Bitmap_Set_def Let_def)

lemma Get_Set:
  assumes "bitmap_wf bm"
  shows "Bitmap_Get (Bitmap_Set bm i v) j = (if i = j \<and> i < bm_size bm * 8 then v else Bitmap_Get bm j)"
proof (cases "i div 8 < bm_size bm \<and> j div 8 < bm_size bm")
  case False
  then show ?thesis
    by (auto simp: Bitmap_Get_def Bitmap_Set_def Let_def div_less_iff_less_mult)
next
  case True
  then have lt: "i div 8 < length (bm_buffer bm)"
    using assms by (simp add: bitmap_wf_def)
  have eq: "i = j \<longleftrightarrow> i div 8 = j div 8 \<and> i mod 8 = j mod 8"
    by (metis div_mult_mod_eq)
  have "Bitmap_Get (Bitmap_Set bm i v) j = bit (bm_buffer (Bitmap_Set bm i v) ! (j div 8)) (j mod 8)"
    using True by (simp add: Get_bit)
  also have "\<dots> = (if i = j then v else bit (bm_buffer bm ! (j div 8)) (j mod 8))"
    using True lt eq by (auto simp: Bitmap_Set_def Let_def nth_list_update bit_simps)
  finally show ?thesis
    using True by (simp add: Get_bit div_less_iff_less_mult)
qed

lemma set_frames_size [simp]: "bm_size (set_frames bm i v n) = bm_size bm"
  by (induction n) simp_all

lemma set_frames_wf [simp]: "bitmap_wf bm \<Longrightarrow> bitmap_wf (set_frames bm i v n)"
  by (induction n) simp_all

lemma Get_set_frames:
  "bitmap_wf bm \<Longrightarrow> Bitmap_Get (set_frames bm i v n) j =
     (if i \<le> j \<and> j < i + n \<and> j < bm_size bm * 8 then v else Bitmap_Get bm j)"
  by (induction n) (auto simp: Get_Set)

lemma drop_bit_and_1: "drop_bit k (b :: u8) AND 1 = 0 \<longleftrightarrow> \<not> bit b k"
  by (simp add: bit_iff_odd_drop_bit and_one_eq even_iff_mod_2_eq_zero)

lemma FindFreeBit_step:
  "k < 8 \<Longrightarrow> FindFreeBit b k = (if bit b k then FindFreeBit b (Suc k) else Some k)"
  by (simp add: FindFreeBit.simps [of b k] drop_bit_and_1)

lemma FindFreeBit_Some:
  "FindFreeBit b k = Some m \<Longrightarrow> k \<le> m \<and> m < 8 \<and> \<not> bit b m \<and> (\<forall>l. k \<le> l \<and> l < m \<longrightarrow> bit b l)"
proof (induction b k rule: FindFreeBit.induct)
  case (1 b k)
  have k: "k < 8"
    using "1.prems" by (simp add: FindFreeBit.simps [of b k] split: if_splits)
  show ?case
  proof (cases "bit b k")
    case True
    then have "Suc k \<le> m \<and> m < 8 \<and> \<not> bit b m \<and> (\<forall>l. Suc k \<le> l \<and> l < m \<longrightarrow> bit b l)"
      using 1 k by (simp add: drop_bit_and_1 FindFreeBit_step)
    with True show ?thesis
      by (metis Suc_leD le_eq_less_or_eq Suc_leI)
  next
    case False
    with 1 k show ?thesis by (auto simp: FindFreeBit_step)
  qed
qed

lemma FindFreeBit_None: "FindFreeBit b k = None \<Longrightarrow> k \<le> l \<Longrightarrow> l < 8 \<Longrightarrow> bit b l"
proof (induction b k rule: FindFreeBit.induct)
  case (1 b k)
  then have "bit b k" and "FindFreeBit b (Suc k) = None"
    by (auto simp: FindFreeBit_step split: if_splits)
  with 1 show ?case
    by (cases "k = l") (auto simp: drop_bit_and_1)
qed

lemma byte_full: "bit (0xFF :: u8) l \<longleftrightarrow> l < 8"
proof -
  have "(0xFF :: u8) = -1" by simp
  then show ?thesis by (simp only: bit_minus_1_iff) simp
qed

text \<open>The frames of byte \<open>i\<close> are numbered \<open>8 * i\<close> to \<open>8 * i + 7\<close>.\<close>

lemma frame_in_byte:
  "i * 8 \<le> j \<Longrightarrow> j < Suc i * 8 \<Longrightarrow> j div 8 = i \<and> j mod 8 = j - i * 8"
  by (metis add_diff_cancel_left' div_mult_mod_eq div_nat_eqI mult.commute)

lemma Get_in_byte:
  "i < bm_size bm \<Longrightarrow> k < 8 \<Longrightarrow> Bitmap_Get bm (i * 8 + k) = bit (bm_buffer bm ! i) k"
  using frame_in_byte [of i "i * 8 + k"] by (simp add: Get_bit)

definition first_free_from :: "Bitmap \<Rightarrow> nat \<Rightarrow> int \<Rightarrow> bool" where
  "first_free_from bm i r \<longleftrightarrow>
     (r = -1 \<and> (\<forall>j\<ge>i * 8. Bitmap_Get bm j)) \<or>
     (\<exists>f. r = int f \<and> f < bm_size bm * 8 \<and> i * 8 \<le> f \<and> \<not> Bitmap_Get bm f \<and>
        (\<forall>j. i * 8 \<le> j \<and> j < f \<longrightarrow> Bitmap_Get bm j))"

lemma first_free_skip:
  assumes "\<And>k. k < 8 \<Longrightarrow> Bitmap_Get bm (i * 8 + k)" and "first_free_from bm (Suc i) r"
  shows "first_free_from bm i r"
proof -
  have "Bitmap_Get bm j" if "i * 8 \<le> j" "j < Suc i * 8" for j
    using assms(1) [of "j - i * 8"] that by simp
  then show ?thesis
    using assms(2) unfolding first_free_from_def
    by (auto, (metis linorder_not_less mult_Suc add.commute)+)
qed

lemma FindFreeByte_spec: "first_free_from bm i (FindFreeByte bm i)"
proof (induction bm i rule: FindFreeByte.induct)
  case (1 bm i)
  show ?case
  proof (cases "i < bm_size bm")
    case False
    then show ?thesis
      by (auto simp: FindFreeByte.simps [of bm i] first_free_from_def
          intro!: Get_beyond intro: order_trans mult_le_mono1)
  next
    case True
    show ?thesis
    proof (cases "FindFreeBit (bm_buffer bm ! i) 0")
      case None
      then have "Bitmap_Get bm (i * 8 + k)" if "k < 8" for k
        using True that FindFreeBit_None [OF None] by (simp add: Get_in_byte)
      moreover have "first_free_from bm (Suc i) (FindFreeByte bm (Suc i))"
        using 1 True None by (cases "bm_buffer bm ! i = 0xFF") auto
      ultimately have "first_free_from bm i (FindFreeByte bm (Suc i))"
        by (rule first_free_skip)
      then show ?thesis
        using True None by (simp add: FindFreeByte.simps [of bm i])
    next
      case (Some m)
      note m = FindFreeBit_Some [OF Some]
      have "bm_buffer bm ! i \<noteq> 0xFF"
        using m by (metis byte_full)
      moreover have "\<not> Bitmap_Get bm (i * 8 + m)"
        using True m by (simp add: Get_in_byte)
      moreover have "Bitmap_Get bm j" if "i * 8 \<le> j" "j < i * 8 + m" for j
        using True m that Get_in_byte [of i bm "j - i * 8"] by auto
      moreover have "i * 8 + m < bm_size bm * 8"
        using True m by linarith
      ultimately show ?thesis
        using True Some unfolding first_free_from_def
        by (intro disjI2 exI [of _ "i * 8 + m"]) (auto simp: FindFreeByte.simps [of bm i])
    qed
  qed
qed

lemma FindFreeFrame_cases:
  obtains (full) "FindFreeFrame bm = -1" "\<And>j. Bitmap_Get bm j"
  | (free) f where "FindFreeFrame bm = int f" "f < bm_size bm * 8" "\<not> Bitmap_Get bm f"
      "\<And>j. j < f \<Longrightarrow> Bitmap_Get bm j"
  using FindFreeByte_spec [of bm 0] unfolding first_free_from_def FindFreeFrame_def by auto

section \<open>The contract of a frame allocator\<close>

text \<open>
  What the clients of the memory manager (the page tables, the task manager, the drivers
  and \<open>operator new\<close>) rely on. The block of a pointer and a size is the set of frames the
  request covers. An allocation that succeeds returns frames nobody holds, inside the managed
  range and never frame 0; a failed one changes nothing; freeing a block gives back exactly its
  frames. \<open>admissible\<close> sizes are the non-zero ones whose rounding does not wrap.
\<close>

definition block :: "u64 \<Rightarrow> u64 \<Rightarrow> nat set" where
  "block p sz = {unat p div kFrameSize ..< unat p div kFrameSize + frames_of sz}"

definition admissible :: "u64 \<Rightarrow> bool" where
  "admissible sz \<longleftrightarrow> sz \<noteq> 0 \<and> unat sz + 4095 < 2 ^ 64"

text \<open>The blocks in circulation: pairwise disjoint, in use, and inside the managed range.\<close>

fun live_ok :: "nat set \<Rightarrow> nat \<Rightarrow> (u64 \<times> u64) list \<Rightarrow> bool" where
  "live_ok used lim [] = True"
| "live_ok used lim ((p, sz) # bs) =
     (admissible sz \<and> block p sz \<subseteq> used \<and> block p sz \<subseteq> {1..<lim} \<and>
      (\<forall>(q, n) \<in> set bs. block p sz \<inter> block q n = {}) \<and> live_ok used lim bs)"

lemma live_ok_subset:
  "live_ok used lim bs \<Longrightarrow> (q, n) \<in> set bs \<Longrightarrow>
    admissible n \<and> block q n \<subseteq> used \<and> block q n \<subseteq> {1..<lim}"
  by (induction used lim bs rule: live_ok.induct) (simp, metis live_ok.simps(2) prod.inject set_ConsD)

lemma live_ok_mono: "live_ok used lim bs \<Longrightarrow> used \<subseteq> used' \<Longrightarrow> live_ok used' lim bs"
  by (induction bs) (simp, fastforce)

lemma live_ok_shrink:
  "live_ok used lim bs \<Longrightarrow> \<forall>(q, n) \<in> set bs. block q n \<inter> B = {} \<Longrightarrow> live_ok (used - B) lim bs"
  by (induction bs) (simp, fastforce)

lemma live_ok_nth_disjoint:
  "live_ok used lim bs \<Longrightarrow> i < j \<Longrightarrow> j < length bs \<Longrightarrow>
    block (fst (bs ! i)) (snd (bs ! i)) \<inter> block (fst (bs ! j)) (snd (bs ! j)) = {}"
proof (induction bs arbitrary: i j)
  case Nil
  then show ?case by simp
next
  case (Cons b bs)
  obtain p sz where b: "b = (p, sz)" by (cases b)
  show ?case
  proof (cases i)
    case 0
    then have "bs ! (j - 1) \<in> set bs"
      using Cons.prems by simp
    then have "block p sz \<inter> block (fst (bs ! (j - 1))) (snd (bs ! (j - 1))) = {}"
      using Cons.prems(1) by (simp add: b case_prod_beta)
    then show ?thesis
      using Cons.prems(2) by (simp add: b 0 nth_Cons')
  next
    case (Suc k)
    then show ?thesis
      using Cons.prems b Cons.IH [of k "j - 1"] by (simp add: nth_Cons')
  qed
qed

locale frame_allocator =
  fixes alloc :: "'s \<Rightarrow> u64 \<Rightarrow> u64 \<times> 's"
    and dealloc :: "'s \<Rightarrow> u64 \<Rightarrow> u64 \<Rightarrow> 's"
    and used :: "'s \<Rightarrow> nat set"
    and lim :: "'s \<Rightarrow> nat"
    and inv :: "'s \<Rightarrow> bool"
  assumes alloc_fresh: "inv s \<Longrightarrow> admissible sz \<Longrightarrow> alloc s sz = (p, s') \<Longrightarrow> p \<noteq> 0 \<Longrightarrow>
      block p sz \<inter> used s = {} \<and> block p sz \<subseteq> {1..<lim s}"
    and alloc_used: "inv s \<Longrightarrow> admissible sz \<Longrightarrow> alloc s sz = (p, s') \<Longrightarrow> p \<noteq> 0 \<Longrightarrow>
      used s' = used s \<union> block p sz \<and> lim s' = lim s \<and> inv s'"
    and alloc_null: "inv s \<Longrightarrow> admissible sz \<Longrightarrow> alloc s sz = (0, s') \<Longrightarrow> s' = s"
    and dealloc_used: "inv s \<Longrightarrow> admissible sz \<Longrightarrow> block p sz \<subseteq> {1..<lim s} \<Longrightarrow>
      used (dealloc s p sz) = used s - block p sz \<and> lim (dealloc s p sz) = lim s \<and>
      inv (dealloc s p sz)"
begin

lemma alloc_dealloc_used:
  assumes "inv s" "admissible sz" "alloc s sz = (p, s')" "p \<noteq> 0"
  shows "used (dealloc s' p sz) = used s"
proof -
  have "block p sz \<inter> used s = {}" "block p sz \<subseteq> {1..<lim s'}" "inv s'"
    and "used s' = used s \<union> block p sz"
    using alloc_fresh [OF assms] alloc_used [OF assms] by auto
  then show ?thesis
    using dealloc_used [of s' sz p] assms(2) by auto
qed

lemma live_alloc:
  assumes "inv s" "admissible sz" "alloc s sz = (p, s')" "p \<noteq> 0"
    and live: "live_ok (used s) (lim s) bs"
  shows "live_ok (used s') (lim s') ((p, sz) # bs)"
proof -
  note fresh = alloc_fresh [OF assms(1-4)] and upd = alloc_used [OF assms(1-4)]
  have "\<forall>(q, n) \<in> set bs. block p sz \<inter> block q n = {}"
    using fresh live_ok_subset [OF live] by blast
  moreover have "live_ok (used s') (lim s') bs"
    using live upd by (metis live_ok_mono sup_ge1)
  ultimately show ?thesis
    using fresh upd assms(2) by auto
qed

lemma live_dealloc:
  assumes "inv s" and live: "live_ok (used s) (lim s) ((p, sz) # bs)"
  shows "inv (dealloc s p sz) \<and> live_ok (used (dealloc s p sz)) (lim (dealloc s p sz)) bs"
proof -
  have "admissible sz" "block p sz \<subseteq> {1..<lim s}" and bs: "live_ok (used s) (lim s) bs"
    and "\<forall>(q, n) \<in> set bs. block q n \<inter> block p sz = {}"
    using live by auto
  then show ?thesis
    using dealloc_used [OF assms(1), of sz p] live_ok_shrink [OF bs] by metis
qed

end

section \<open>The memory manager keeps the contract\<close>

text \<open>
  The invariant: the bitmap covers the managed range, the padding bits of its last byte are
  set, and frame 0 is never free (so that no block has the address \<open>nullptr\<close>).
\<close>

definition mm_inv :: "MemoryManager \<Rightarrow> bool" where
  "mm_inv mm \<longleftrightarrow> bitmap_wf (mm_bitmap mm) \<and> total_frames mm \<le> bm_size (mm_bitmap mm) * 8 \<and>
     Bitmap_Get (mm_bitmap mm) 0 \<and> (\<forall>j\<ge>total_frames mm. Bitmap_Get (mm_bitmap mm) j)"

definition used_frames :: "MemoryManager \<Rightarrow> nat set" where
  "used_frames mm = {j. Bitmap_Get (mm_bitmap mm) j}"

lemma total_frames_less: "total_frames mm < 2 ^ 52"
  using unat_u64_less [of "mm_range_end mm"] by (simp add: total_frames_def kFrameSize_def)

lemma frame_address:
  "i < 2 ^ 52 \<Longrightarrow> unat (of_nat (i * kFrameSize) :: u64) = i * kFrameSize"
  by (rule of_nat_inverse) (simp_all add: kFrameSize_def)

lemma frame_of_address [simp]:
  "i < 2 ^ 52 \<Longrightarrow> unat (of_nat (i * kFrameSize) :: u64) div kFrameSize = i"
  by (simp only: frame_address) (simp add: kFrameSize_def)

lemma frames_of_pos: "admissible sz \<Longrightarrow> 0 < frames_of sz"
  using unat_gt_0 [of sz]
  by (simp add: admissible_def frames_of_def kFrameSize_def unat_word_ariths div_greater_zero_iff)

lemma frames_of_bound: "frames_of sz < 2 ^ 52"
  using unat_u64_less [of "sz + 4095"] by (simp add: frames_of_def kFrameSize_def)

text \<open>A run of \<open>n\<close> frames that are all free.\<close>

definition run_free :: "MemoryManager \<Rightarrow> nat \<Rightarrow> nat \<Rightarrow> bool" where
  "run_free mm n i \<longleftrightarrow> {i..<i + n} \<inter> used_frames mm = {}"

lemma check_run_None:
  "check_run bm tot n i j = None \<longleftrightarrow> (\<forall>k. j \<le> k \<and> k < n \<longrightarrow> i + k < tot \<and> \<not> Bitmap_Get bm (i + k))"
proof (induction bm tot n i j rule: check_run.induct)
  case (1 bm tot n i j)
  show ?case
  proof (cases "j < n \<and> i + j < tot \<and> \<not> Bitmap_Get bm (i + j)")
    case True
    then have "check_run bm tot n i j = None \<longleftrightarrow> check_run bm tot n i (Suc j) = None"
      by (simp add: check_run.simps [of bm tot n i j])
    then show ?thesis
      using 1 True by (metis Suc_leD Suc_leI le_eq_less_or_eq linorder_not_less)
  next
    case False
    then show ?thesis
      by (auto simp: check_run.simps [of bm tot n i j])
  qed
qed

lemma check_run_Some:
  "check_run bm tot n i j = Some m \<Longrightarrow> j \<le> m \<and> m < n \<and> (tot \<le> i + m \<or> Bitmap_Get bm (i + m))"
proof (induction bm tot n i j rule: check_run.induct)
  case (1 bm tot n i j)
  then show ?case
    by (cases "j < n"; cases "tot \<le> i + j \<or> Bitmap_Get bm (i + j)")
      (auto simp: check_run.simps [of bm tot n i j])
qed

lemma run_free_check:
  assumes "mm_inv mm"
  shows "run_free mm n i \<longleftrightarrow> check_run (mm_bitmap mm) (total_frames mm) n i 0 = None"
proof -
  have "run_free mm n i \<longleftrightarrow> (\<forall>k<n. \<not> Bitmap_Get (mm_bitmap mm) (i + k))"
    by (auto simp: run_free_def used_frames_def disjoint_iff le_iff_add)
  then show ?thesis
    using assms unfolding check_run_None mm_inv_def
    by (metis le0 linorder_not_less)
qed

lemma blocked_run:
  assumes "mm_inv mm" "check_run (mm_bitmap mm) (total_frames mm) n i 0 = Some m"
    and "i \<le> s" "s \<le> i + m"
  shows "\<not> run_free mm n s"
proof -
  have "m < n" "Bitmap_Get (mm_bitmap mm) (i + m)"
    using check_run_Some [OF assms(2)] assms(1) by (auto simp: mm_inv_def)
  then have "i + m \<in> {s..<s + n} \<inter> used_frames mm"
    using assms(3,4) by (simp add: used_frames_def)
  then show ?thesis
    by (auto simp: run_free_def)
qed

lemma search_run_spec:
  assumes "mm_inv mm"
  shows "case search_run (mm_bitmap mm) (total_frames mm) n i of
      None \<Rightarrow> \<forall>s. i \<le> s \<and> s < total_frames mm \<longrightarrow> \<not> run_free mm n s
    | Some r \<Rightarrow> i \<le> r \<and> r < total_frames mm \<and> run_free mm n r \<and> (\<forall>s. i \<le> s \<and> s < r \<longrightarrow> \<not> run_free mm n s)"
    (is "?P i")
proof (induction "total_frames mm - i" arbitrary: i rule: less_induct)
  case less
  note unfold = search_run.simps [of "mm_bitmap mm" "total_frames mm" n i]
  show ?case
  proof (cases "i < total_frames mm")
    case False
    then show ?thesis by (auto simp: unfold)
  next
    case True
    show ?thesis
    proof (cases "check_run (mm_bitmap mm) (total_frames mm) n i 0")
      case None
      then show ?thesis
        using True assms by (auto simp: unfold run_free_check)
    next
      case (Some m)
      have "?P (Suc (i + m))"
        using True by (intro less) simp
      moreover have "\<not> run_free mm n s" if "i \<le> s" "s < Suc (i + m)" for s
        using blocked_run [OF assms Some] that by simp
      ultimately show ?thesis
        using True Some
        by (auto simp: unfold split: option.splits) (metis Suc_leI linorder_not_less)+
    qed
  qed
qed

text \<open>
  What \<open>Allocate\<close> does, as one statement: the lowest run of free frames is taken, and
  a null result means there is no such run.
\<close>

definition alloc_result :: "MemoryManager \<Rightarrow> nat \<Rightarrow> u64 \<Rightarrow> MemoryManager \<Rightarrow> bool" where
  "alloc_result mm n p mm' \<longleftrightarrow>
     (if p = 0 then mm' = mm \<and> (\<forall>i. \<not> run_free mm n i)
      else \<exists>i. 0 < i \<and> i < total_frames mm \<and> p = of_nat (i * kFrameSize) \<and> run_free mm n i \<and>
        (\<forall>s<i. \<not> run_free mm n s) \<and> used_frames mm' = used_frames mm \<union> {i..<i + n} \<and>
        total_frames mm' = total_frames mm \<and> mm_inv mm')"

lemma run_free_in_range:
  "mm_inv mm \<Longrightarrow> 0 < n \<Longrightarrow> run_free mm n i \<Longrightarrow> 0 < i \<and> i + n \<le> total_frames mm"
proof -
  assume inv: "mm_inv mm" and n: "0 < n" and run: "run_free mm n i"
  have "0 \<notin> {i..<i + n}"
    using inv run by (auto simp: mm_inv_def run_free_def used_frames_def)
  moreover have "total_frames mm \<notin> {i..<i + n}" "i < total_frames mm"
    using inv run n by (auto simp: mm_inv_def run_free_def used_frames_def disjoint_iff) (metis le_add1 less_add_same_cancel1 linorder_not_less order_refl)
  ultimately show ?thesis
    using n by auto
qed

lemma mark_run:
  assumes "mm_inv mm" "run_free mm n i" "0 < n"
  defines "mm' \<equiv> mm\<lparr>mm_bitmap := set_frames (mm_bitmap mm) i True n\<rparr>"
  shows "used_frames mm' = used_frames mm \<union> {i..<i + n} \<and> total_frames mm' = total_frames mm \<and>
    mm_inv mm'"
proof -
  have "i + n \<le> bm_size (mm_bitmap mm) * 8"
    using run_free_in_range [OF assms(1,3,2)] assms(1) by (simp add: mm_inv_def)
  then show ?thesis
    using assms(1) by (auto simp: mm'_def used_frames_def mm_inv_def total_frames_def Get_set_frames)
qed

lemma alloc_result_run:
  assumes "mm_inv mm" "0 < n" "run_free mm n i" "\<And>s. s < i \<Longrightarrow> \<not> run_free mm n s"
  shows "alloc_result mm n (of_nat (i * kFrameSize))
    (mm\<lparr>mm_bitmap := set_frames (mm_bitmap mm) i True n\<rparr>)"
proof -
  have i: "0 < i" "i < total_frames mm"
    using run_free_in_range [OF assms(1-3)] assms(2) by auto
  then have "unat (of_nat (i * kFrameSize) :: u64) = i * kFrameSize"
    using total_frames_less [of mm] by (intro frame_address) simp
  then have "of_nat (i * kFrameSize) \<noteq> (0 :: u64)"
    using i by (auto simp: kFrameSize_def)
  then show ?thesis
    unfolding alloc_result_def using assms i mark_run [OF assms(1,3,2)] by auto
qed

lemma alloc_result_null:
  assumes "mm_inv mm" "0 < n" "\<And>s. s < total_frames mm \<Longrightarrow> \<not> run_free mm n s"
  shows "alloc_result mm n 0 mm"
  using assms run_free_in_range [OF assms(1,2)] by (auto simp: alloc_result_def) (metis add_leD1 le_eq_less_or_eq less_add_same_cancel1 order_less_le_trans)

lemma run_free_1: "run_free mm (Suc 0) i \<longleftrightarrow> \<not> Bitmap_Get (mm_bitmap mm) i"
  by (auto simp: run_free_def used_frames_def)

lemma not_run_free_used:
  "Bitmap_Get (mm_bitmap mm) s \<Longrightarrow> 0 < n \<Longrightarrow> \<not> run_free mm n s"
  by (auto simp: run_free_def used_frames_def disjoint_iff)

lemma AllocateFrame_result:
  assumes "mm_inv mm"
  shows "alloc_result mm 1 (fst (AllocateFrame mm)) (snd (AllocateFrame mm))"
proof (cases "mm_bitmap mm" rule: FindFreeFrame_cases)
  case full
  then show ?thesis
    using assms by (auto simp: AllocateFrame_def intro!: alloc_result_null dest: not_run_free_used)
next
  case (free f)
  then have "run_free mm 1 f" "\<And>s. s < f \<Longrightarrow> \<not> run_free mm 1 s"
    by (simp_all add: run_free_1)
  then show ?thesis
    using alloc_result_run [OF assms, of 1 f] free by (simp add: AllocateFrame_def)
qed

lemma Allocate_result:
  assumes inv: "mm_inv mm" and adm: "admissible sz"
  shows "alloc_result mm (frames_of sz) (fst (Allocate mm sz)) (snd (Allocate mm sz))"
proof (cases "frames_of sz = 1")
  case True
  then show ?thesis
    using AllocateFrame_result [OF inv] adm by (simp add: Allocate_def admissible_def)
next
  case False
  note pos = frames_of_pos [OF adm]
  have nz: "sz \<noteq> 0" using adm by (simp add: admissible_def)
  show ?thesis
  proof (cases "mm_bitmap mm" rule: FindFreeFrame_cases)
    case full
    then show ?thesis
      using inv False nz pos
      by (auto simp: Allocate_def intro!: alloc_result_null dest: not_run_free_used)
  next
    case (free f)
    have below: "\<not> run_free mm (frames_of sz) s" if "s < f" for s
      using free that pos by (intro not_run_free_used) auto
    note spec = search_run_spec [OF inv, where n = "frames_of sz" and i = f]
    show ?thesis
    proof (cases "search_run (mm_bitmap mm) (total_frames mm) (frames_of sz) f")
      case None
      then have "alloc_result mm (frames_of sz) 0 mm"
        using spec below by (intro alloc_result_null inv pos) (simp, metis linorder_not_less)
      then show ?thesis
        using None False nz free by (simp add: Allocate_def)
    next
      case (Some i)
      then have "run_free mm (frames_of sz) i" "\<And>s. s < i \<Longrightarrow> \<not> run_free mm (frames_of sz) s"
        using spec below by (simp_all, metis linorder_not_less)
      from alloc_result_run [OF inv pos this] show ?thesis
        using Some False nz free by (simp add: Allocate_def)
    qed
  qed
qed

lemma Free_used:
  assumes "mm_inv mm" "block p sz \<subseteq> {1..<total_frames mm}"
  shows "used_frames (Free mm p sz) = used_frames mm - block p sz \<and>
    total_frames (Free mm p sz) = total_frames mm \<and> mm_inv (Free mm p sz)"
proof -
  have lt: "j < bm_size (mm_bitmap mm) * 8" if "j \<in> block p sz" for j
    using that assms by (auto simp: mm_inv_def dest: subsetD)
  then show ?thesis
    using assms
    by (auto simp: Free_def used_frames_def mm_inv_def total_frames_def Get_set_frames block_def
        subset_iff)
qed

interpretation mmgr: frame_allocator Allocate Free used_frames total_frames mm_inv
proof
  fix mm sz p mm'
  assume inv: "mm_inv mm" and adm: "admissible sz" and eq: "Allocate mm sz = (p, mm')"
    and p: "p \<noteq> 0"
  obtain i where i: "i < total_frames mm" "p = of_nat (i * kFrameSize)"
      "run_free mm (frames_of sz) i"
      "used_frames mm' = used_frames mm \<union> {i..<i + frames_of sz}"
      "total_frames mm' = total_frames mm" "mm_inv mm'"
    using Allocate_result [OF inv adm] eq p by (auto simp: alloc_result_def)
  have blk: "block p sz = {i..<i + frames_of sz}"
    using i(1) total_frames_less [of mm] unfolding block_def i(2)
    by (subst (1 2) frame_of_address) simp_all
  show "block p sz \<inter> used_frames mm = {} \<and> block p sz \<subseteq> {1..<total_frames mm}"
    using run_free_in_range [OF inv frames_of_pos [OF adm] i(3)] i(3)
    by (auto simp: blk run_free_def)
  show "used_frames mm' = used_frames mm \<union> block p sz \<and> total_frames mm' = total_frames mm \<and> mm_inv mm'"
    using i blk by simp
next
  fix mm sz mm'
  assume "mm_inv mm" "admissible sz" "Allocate mm sz = (0, mm')"
  then show "mm' = mm"
    using Allocate_result [of mm sz] by (simp add: alloc_result_def)
next
  fix mm sz p
  assume "mm_inv mm" "admissible sz" "block p sz \<subseteq> {1..<total_frames mm}"
  then show "used_frames (Free mm p sz) = used_frames mm - block p sz \<and>
      total_frames (Free mm p sz) = total_frames mm \<and> mm_inv (Free mm p sz)"
    by (intro Free_used)
qed

section \<open>What initialisation establishes\<close>

definition region_end :: "MemoryDescriptor \<Rightarrow> u64" where
  "region_end d = physical_start d + number_of_pages d * 4096"

text \<open>The frames of the conventional regions of the memory map.\<close>

definition conventional_frames :: "MemoryDescriptor list \<Rightarrow> nat set" where
  "conventional_frames memmap =
     (\<Union>d \<in> {d \<in> set memmap. md_type d = kEfiConventionalMemory}.
        {unat (physical_start d) div kFrameSize ..< unat (region_end d) div kFrameSize})"

lemma set_range_size [simp]: "bm_size (set_range bm a b v) = bm_size bm"
  by (simp add: set_range_def)

lemma set_range_wf [simp]: "bitmap_wf bm \<Longrightarrow> bitmap_wf (set_range bm a b v)"
  by (simp add: set_range_def)

lemma Get_set_range:
  "bitmap_wf bm \<Longrightarrow> Bitmap_Get (set_range bm a b v) j =
     (if a \<le> j \<and> j < b \<and> j < bm_size bm * 8 then v else Bitmap_Get bm j)"
  by (auto simp: set_range_def Get_set_frames)

lemma free_regions_size [simp]: "bm_size (free_regions bm ds) = bm_size bm"
  by (induction ds arbitrary: bm) simp_all

lemma free_regions_wf [simp]: "bitmap_wf bm \<Longrightarrow> bitmap_wf (free_regions bm ds)"
  by (induction ds arbitrary: bm) simp_all

lemma Get_free_regions:
  "bitmap_wf bm \<Longrightarrow> Bitmap_Get (free_regions bm ds) j =
     (if j \<in> conventional_frames ds \<and> j < bm_size bm * 8 then False else Bitmap_Get bm j)"
proof (induction ds arbitrary: bm)
  case Nil
  then show ?case by (simp add: conventional_frames_def)
next
  case (Cons d ds)
  then show ?case
    by (auto simp: conventional_frames_def Get_set_range region_end_def)
qed

lemma Get_all_ones: "Bitmap_Get (SetBuffer (replicate n 0xFF) n) j"
proof (cases "j div 8 < n")
  case True
  then have "bit (replicate n (0xFF :: u8) ! (j div 8)) (j mod 8)"
    by (simp only: nth_replicate byte_full)
  with True show ?thesis
    by (simp add: Bitmap_Get_def bit_iff_and_push_bit_not_eq_0 SetBuffer_def del: nth_replicate)
next
  case False
  then show ?thesis by (simp add: Bitmap_Get_def SetBuffer_def)
qed

lemma find_range_end_ge:
  "acc \<le> find_range_end ds acc \<and> (\<forall>d \<in> set ds. region_end d \<le> find_range_end ds acc)"
proof (induction ds arbitrary: acc)
  case Nil
  then show ?case by simp
next
  case (Cons d ds)
  let ?acc = "if region_end d > acc then region_end d else acc"
  have "acc \<le> ?acc" "region_end d \<le> ?acc" by auto
  then show ?case
    using Cons [of ?acc] by (auto simp: region_end_def Let_def)
qed

lemma conventional_frames_less:
  assumes "j \<in> conventional_frames ds"
  shows "j < unat (find_range_end ds acc) div kFrameSize"
proof -
  obtain d where "d \<in> set ds" "j < unat (region_end d) div kFrameSize"
    using assms by (auto simp: conventional_frames_def)
  moreover have "unat (region_end d) \<le> unat (find_range_end ds acc)"
    using find_range_end_ge [of acc ds] \<open>d \<in> set ds\<close> by (simp add: word_le_nat_alt)
  ultimately show ?thesis
    by (meson div_le_mono order_less_le_trans)
qed

text \<open>The frames of the bitmap itself and of the kernel image.\<close>

definition bitmap_frames :: "u64 \<Rightarrow> MemoryDescriptor list \<Rightarrow> nat set" where
  "bitmap_frames range_end memmap =
     (let bitmap_size = (unat (find_range_end memmap range_end) div kFrameSize + 7) div 8;
          base = find_bitmap_base memmap (of_nat bitmap_size)
      in {unat base div kFrameSize ..< unat (base + of_nat bitmap_size + 4095) div kFrameSize})"

definition kernel_frames :: "u64 \<Rightarrow> u64 \<Rightarrow> nat set" where
  "kernel_frames kernel_start kernel_end =
     {unat kernel_start div kFrameSize ..< unat (kernel_end + 4095) div kFrameSize}"

lemma Initialize_mm_used:
  assumes "Initialize_mm range_end ks ke memmap = Some mm"
  shows "used_frames mm = UNIV - (conventional_frames memmap -
    bitmap_frames range_end memmap - kernel_frames ks ke - {0})"
    and "total_frames mm = unat (find_range_end memmap range_end) div kFrameSize"
    and "bitmap_wf (mm_bitmap mm)"
    and "bm_size (mm_bitmap mm) = (total_frames mm + 7) div 8"
proof -
  define tot where "tot = unat (find_range_end memmap range_end) div kFrameSize"
  define n where "n = (tot + 7) div 8"
  define bm0 where "bm0 = SetBuffer (replicate n 0xFF) n"
  define base where "base = find_bitmap_base memmap (of_nat n)"
  have bm0: "bitmap_wf bm0" "bm_size bm0 = n" "\<And>j. Bitmap_Get bm0 j"
    unfolding bm0_def by (simp_all only: Get_all_ones) (simp_all add: SetBuffer_def bitmap_wf_def)
  have lt: "j < n * 8" if "j \<in> conventional_frames memmap" for j
    using conventional_frames_less [OF that, of range_end] unfolding n_def tot_def by linarith
  have bm: "mm_bitmap mm = Bitmap_Set (set_range (set_range (free_regions bm0 memmap)
      (unat base div kFrameSize) (unat (base + of_nat n + 4095) div kFrameSize) True)
      (unat ks div kFrameSize) (unat (ke + 4095) div kFrameSize) True) 0 True"
    and re: "mm_range_end mm = find_range_end memmap range_end"
    using assms unfolding bm0_def base_def n_def tot_def
    by (auto simp: Initialize_mm_def Let_def split: if_splits)
  show tot: "total_frames mm = unat (find_range_end memmap range_end) div kFrameSize"
    by (simp add: total_frames_def re)
  show "bm_size (mm_bitmap mm) = (total_frames mm + 7) div 8"
    by (simp add: bm bm0 n_def tot_def tot)
  show "bitmap_wf (mm_bitmap mm)"
    by (simp add: bm bm0)
  have fr: "bitmap_frames range_end memmap =
      {unat base div kFrameSize ..< unat (base + of_nat n + 4095) div kFrameSize}"
    by (simp add: bitmap_frames_def Let_def base_def n_def tot_def)
  have "Bitmap_Get (mm_bitmap mm) j \<longleftrightarrow> j \<notin> conventional_frames memmap \<or>
      j \<in> bitmap_frames range_end memmap \<or> j \<in> kernel_frames ks ke \<or> j = 0" for j
    using lt [of j] bm0
    by (simp add: bm Get_Set Get_set_range Get_free_regions fr kernel_frames_def) auto
  then show "used_frames mm = UNIV - (conventional_frames memmap -
      bitmap_frames range_end memmap - kernel_frames ks ke - {0})"
    by (auto simp: used_frames_def)
qed

lemma Initialize_mm_inv: "Initialize_mm range_end ks ke memmap = Some mm \<Longrightarrow> mm_inv mm"
proof -
  assume init: "Initialize_mm range_end ks ke memmap = Some mm"
  note facts = Initialize_mm_used [OF init]
  have "Bitmap_Get (mm_bitmap mm) j" if "j = 0 \<or> total_frames mm \<le> j" for j
  proof -
    have "j \<in> used_frames mm"
      using that conventional_frames_less [of j memmap range_end] unfolding facts(1,2) by auto
    then show ?thesis by (simp add: used_frames_def)
  qed
  then show ?thesis
    using facts(3,4) by (auto simp: mm_inv_def)
qed

section \<open>Properties\<close>

text \<open>Two bitmaps of one size that agree on every frame are the same bytes.\<close>

lemma bitmap_eqI:
  assumes "bitmap_wf a" "bitmap_wf b" "bm_size a = bm_size b"
    and get: "\<And>j. j < bm_size a * 8 \<Longrightarrow> Bitmap_Get a j = Bitmap_Get b j"
  shows "a = b"
proof -
  have len: "length (bm_buffer a) = length (bm_buffer b)"
    using assms(1-3) by (simp add: bitmap_wf_def)
  have "bm_buffer a = bm_buffer b"
  proof (rule nth_equalityI [OF len])
    fix i assume "i < length (bm_buffer a)"
    then have i: "i < bm_size a" using assms(1) by (simp add: bitmap_wf_def)
    show "bm_buffer a ! i = bm_buffer b ! i"
    proof (rule bit_word_eqI)
      fix k assume "k < LENGTH(8)"
      then show "bit (bm_buffer a ! i) k = bit (bm_buffer b ! i) k"
        using get [of "i * 8 + k"] i assms(3) by (simp add: Get_in_byte)
    qed
  qed
  then show ?thesis using assms(3) by (cases a, cases b) simp
qed

lemma mm_eqI:
  assumes "mm_inv a" "mm_inv b" "mm_range_end a = mm_range_end b"
    and "bm_size (mm_bitmap a) = bm_size (mm_bitmap b)" and "used_frames a = used_frames b"
  shows "a = b"
proof -
  have "mm_bitmap a = mm_bitmap b"
    using assms by (intro bitmap_eqI) (auto simp: mm_inv_def used_frames_def set_eq_iff)
  then show ?thesis using assms(3) by (cases a, cases b) simp
qed

lemma AllocateFrame_range [simp]:
  "mm_range_end (snd (AllocateFrame mm)) = mm_range_end mm \<and>
   bm_size (mm_bitmap (snd (AllocateFrame mm))) = bm_size (mm_bitmap mm)"
  by (simp add: AllocateFrame_def Let_def)

lemma Allocate_range [simp]:
  "mm_range_end (snd (Allocate mm sz)) = mm_range_end mm \<and>
   bm_size (mm_bitmap (snd (Allocate mm sz))) = bm_size (mm_bitmap mm)"
  by (simp add: Allocate_def Let_def split: option.splits)

lemma Free_Allocate:
  assumes "mm_inv mm" "admissible sz" "Allocate mm sz = (p, mm')" "p \<noteq> 0"
  shows "Free mm' p sz = mm"
proof (rule mm_eqI)
  note fresh = mmgr.alloc_fresh [OF assms] and upd = mmgr.alloc_used [OF assms]
  show "used_frames (Free mm' p sz) = used_frames mm"
    by (rule mmgr.alloc_dealloc_used [OF assms])
  show "mm_inv (Free mm' p sz)"
    using Free_used [of mm' p sz] fresh upd by auto
  show "mm_range_end (Free mm' p sz) = mm_range_end mm"
    and "bm_size (mm_bitmap (Free mm' p sz)) = bm_size (mm_bitmap mm)"
    using Allocate_range [of mm sz] by (simp_all add: assms(3) Free_def)
qed (fact assms(1))

text \<open>
  Allocation traffic: any interleaving of successful allocations and of releases of blocks in
  circulation. The second component is the list of blocks handed out and not yet released.
\<close>

inductive mm_traffic :: "MemoryManager \<Rightarrow> MemoryManager \<times> (u64 \<times> u64) list \<Rightarrow> bool" for mm0 where
  start: "mm_traffic mm0 (mm0, [])"
| take: "mm_traffic mm0 (mm, bs) \<Longrightarrow> admissible sz \<Longrightarrow> Allocate mm sz = (p, mm') \<Longrightarrow> p \<noteq> 0 \<Longrightarrow>
    mm_traffic mm0 (mm', (p, sz) # bs)"
| give: "mm_traffic mm0 (mm, (p, sz) # bs) \<Longrightarrow> mm_traffic mm0 (Free mm p sz, bs)"
| rotate: "mm_traffic mm0 (mm, b # bs) \<Longrightarrow> mm_traffic mm0 (mm, bs @ [b])"

lemma live_ok_rotate: "live_ok used lim ((p, sz) # bs) \<Longrightarrow> live_ok used lim (bs @ [(p, sz)])"
proof -
  assume live: "live_ok used lim ((p, sz) # bs)"
  have "live_ok used lim (bs @ [(p, sz)])"
    if "live_ok used lim bs" "\<forall>(q, n) \<in> set bs. block p sz \<inter> block q n = {}" for bs
    using that live by (induction bs) auto
  then show ?thesis using live by auto
qed

lemma mm_traffic_live:
  assumes "mm_traffic mm0 st" "mm_inv mm0"
  shows "mm_inv (fst st) \<and> live_ok (used_frames (fst st)) (total_frames (fst st)) (snd st)"
  using assms
proof (induction rule: mm_traffic.induct)
  case start
  then show ?case by simp
next
  case (take mm bs sz p mm')
  then show ?case
    using mmgr.live_alloc [of mm sz p mm' bs] mmgr.alloc_used [of mm sz p mm'] by simp
next
  case (give mm p sz bs)
  then show ?case
    using mmgr.live_dealloc [of mm p sz bs] by simp
next
  case (rotate mm b bs)
  then show ?case
    by (cases b) (auto intro!: live_ok_rotate)
qed

lemma set_frames_numeral:
  "set_frames bm i v (numeral k) =
     Bitmap_Set (set_frames bm i v (pred_numeral k)) (i + pred_numeral k) v"
  by (simp add: numeral_eq_Suc)

lemmas bitmap_eval = Bitmap_Get_def Bitmap_Set_def FindFreeFrame_def FindFreeByte.simps
  FindFreeBit.simps set_frames_numeral kFrameSize_def

text \<open>A sample state for the witnesses: 16 frames, of which 4 to 11 are free.\<close>

definition sample_mm :: MemoryManager where
  "sample_mm = \<lparr>mm_bitmap = \<lparr>bm_buffer = [0x0F, 0xF0], bm_size = 2\<rparr>, mm_range_end = 0x10000\<rparr>"

lemma sample_mm_inv: "mm_inv sample_mm"
proof -
  have "Bitmap_Get (mm_bitmap sample_mm) j" if "16 \<le> j" for j
    using that by (intro Get_beyond) (simp add: sample_mm_def)
  moreover have "Bitmap_Get (mm_bitmap sample_mm) 0" "total_frames sample_mm = 16"
    by (simp_all add: sample_mm_def bitmap_eval total_frames_def)
  ultimately show ?thesis
    by (simp add: mm_inv_def bitmap_wf_def) (simp add: sample_mm_def)
qed

lemma sample_mm_alloc: "Allocate sample_mm 0x1800 =
    (0x4000, \<lparr>mm_bitmap = \<lparr>bm_buffer = [0x3F, 0xF0], bm_size = 2\<rparr>, mm_range_end = 0x10000\<rparr>)"
proof -
  have first: "FindFreeFrame (mm_bitmap sample_mm) = 4"
    by (simp add: sample_mm_def bitmap_eval)
  have "search_run (mm_bitmap sample_mm) (total_frames sample_mm) 2 4 = Some 4"
    by (simp add: sample_mm_def total_frames_def search_run.simps check_run.simps bitmap_eval)
  then show ?thesis
    by (simp add: Allocate_def frames_of_def kFrameSize_def first)
      (simp add: sample_mm_def bitmap_eval)
qed

lemma admissible_sample: "admissible 0x1800"
  by (simp add: admissible_def)

text \<open>
  C20: \<open>MemoryManager::Allocate\<close> is first fit. For any non-zero size whose rounding does not
  wrap, either the result is null, nothing changed and no run of enough free frames exists
  anywhere, or the result is the address of the lowest such run, exactly its frames become
  used, and the invariant (padding bits and frame 0 never free) is kept.
\<close>

theorem Allocate_first_fit:
  assumes "mm_inv mm" and "admissible sz" and "Allocate mm sz = (p, mm')"
  shows "(p = 0 \<and> mm' = mm \<and> (\<forall>i. \<not> run_free mm (frames_of sz) i)) \<or>
    (\<exists>i. p = of_nat (i * kFrameSize) \<and> p \<noteq> 0 \<and> run_free mm (frames_of sz) i \<and>
       (\<forall>s<i. \<not> run_free mm (frames_of sz) s) \<and>
       used_frames mm' = used_frames mm \<union> {i..<i + frames_of sz} \<and> mm_inv mm')"
  using Allocate_result [OF assms(1,2)] assms(3)
  by (cases "p = 0") (auto simp: alloc_result_def)

theorem Allocate_first_fit_witness:
  "(\<exists>i. (0x4000 :: u64) = of_nat (i * kFrameSize) \<and> run_free sample_mm 2 i \<and>
      (\<forall>s<i. \<not> run_free sample_mm 2 s))"
proof -
  have "frames_of 0x1800 = 2"
    by (simp add: frames_of_def kFrameSize_def)
  then show ?thesis
    using Allocate_first_fit [OF sample_mm_inv admissible_sample sample_mm_alloc]
    by (auto simp: sample_mm_def)
qed

text \<open>
  \<open>Free\<close> undoes \<open>Allocate\<close>: after a successful allocation, releasing the block with the
  same size restores the memory manager to the byte-identical state before the call.
\<close>

theorem Free_undoes_Allocate:
  assumes "mm_inv mm" and "admissible sz" and "Allocate mm sz = (p, mm')" and "p \<noteq> 0"
  shows "Free mm' p sz = mm"
  by (rule Free_Allocate [OF assms])

theorem Free_undoes_Allocate_witness: "Free (snd (Allocate sample_mm 0x1800)) 0x4000 0x1800 = sample_mm"
proof -
  have "(0x4000 :: u64) \<noteq> 0" by simp
  then show ?thesis
    using Free_undoes_Allocate [OF sample_mm_inv admissible_sample sample_mm_alloc]
    by (simp add: sample_mm_alloc)
qed

text \<open>
  C21: no frame is ever handed out twice. In every state reached from a valid one by any
  interleaving of allocations and releases, the frames of two blocks in circulation are
  disjoint, and every block is in use and inside the managed range above frame 0.
\<close>

theorem mm_traffic_disjoint:
  assumes "mm_inv mm0" and "mm_traffic mm0 (mm, bs)" and "i < j" and "j < length bs"
  shows "block (fst (bs ! i)) (snd (bs ! i)) \<inter> block (fst (bs ! j)) (snd (bs ! j)) = {} \<and>
    block (fst (bs ! j)) (snd (bs ! j)) \<subseteq> used_frames mm \<inter> {1..<total_frames mm}"
proof -
  have live: "live_ok (used_frames mm) (total_frames mm) bs"
    using mm_traffic_live [OF assms(2,1)] by simp
  have "bs ! j \<in> set bs" using assms(4) by simp
  then show ?thesis
    using live_ok_nth_disjoint [OF live assms(3,4)]
      live_ok_subset [OF live, of "fst (bs ! j)" "snd (bs ! j)"] by simp
qed

lemma sample_traffic:
  "mm_traffic sample_mm (snd (Allocate (snd (Allocate sample_mm 0x1800)) 0x1000),
     [(0x6000, 0x1000), (0x4000, 0x1800)])"
proof -
  have one: "mm_traffic sample_mm (snd (Allocate sample_mm 0x1800), [(0x4000, 0x1800)])"
    using mm_traffic.take [OF mm_traffic.start admissible_sample sample_mm_alloc]
    by (simp add: sample_mm_alloc)
  have "fst (Allocate (snd (Allocate sample_mm 0x1800)) 0x1000) = 0x6000"
    by (simp only: sample_mm_alloc snd_conv)
      (simp add: Allocate_def AllocateFrame_def frames_of_def bitmap_eval)
  moreover have "admissible 0x1000"
    by (simp add: admissible_def)
  ultimately show ?thesis
    by (intro mm_traffic.take [OF one]) (simp_all add: prod_eq_iff)
qed

theorem mm_traffic_disjoint_witness: "block 0x6000 0x1000 \<inter> block 0x4000 0x1800 = {}"
  using mm_traffic_disjoint [OF sample_mm_inv sample_traffic, of 0 1] by simp

text \<open>
  \<open>MemoryManager::Initialize\<close>. When it returns (it halts if no conventional region can
  hold the bitmap), the free frames are exactly those of the conventional regions of the UEFI
  map, less the frames of the bitmap itself, the kernel image and frame 0, and the allocator
  invariant holds.
\<close>

theorem Initialize_free_frames:
  assumes "Initialize_mm range_end ks ke memmap = Some mm"
  shows "- used_frames mm = conventional_frames memmap - bitmap_frames range_end memmap -
      kernel_frames ks ke - {0} \<and> mm_inv mm"
  using Initialize_mm_used(1) [OF assms] Initialize_mm_inv [OF assms] by auto

theorem Initialize_free_frames_witness:
  "- used_frames (the (Initialize_mm 0 0x3000 0x5800
        [\<lparr>md_type = 7, physical_start = 0x1000, number_of_pages = 15\<rparr>])) =
    conventional_frames [\<lparr>md_type = 7, physical_start = 0x1000, number_of_pages = 15\<rparr>] -
    bitmap_frames 0 [\<lparr>md_type = 7, physical_start = 0x1000, number_of_pages = 15\<rparr>] -
    kernel_frames 0x3000 0x5800 - {0}"
proof -
  let ?map = "[\<lparr>md_type = 7, physical_start = 0x1000, number_of_pages = 15\<rparr>] :: MemoryDescriptor list"
  have "Initialize_mm 0 0x3000 0x5800 ?map \<noteq> None"
    by (simp add: Initialize_mm_def Let_def kEfiConventionalMemory_def kFrameSize_def)
  then show ?thesis
    using Initialize_free_frames [where range_end = 0 and ks = "0x3000" and ke = "0x5800"] by auto
qed

text \<open>
  \<open>operator delete\<close> after \<open>operator new\<close>. A successful \<open>new\<close> returns an address
  16 bytes into its block with the total size stored in front, and deleting that address (the
  header not being overwritten) restores the frame allocator exactly.
\<close>

theorem operator_new_delete:
  assumes "mm_inv (kmm h)" and "admissible (sz + kHeaderSize)"
    and "operator_new h sz = (p, h')" and "p \<noteq> 0"
  shows "cells h' (p - kHeaderSize) = sz + kHeaderSize \<and> kmm (operator_delete h' p) = kmm h"
proof -
  obtain q mm where alloc: "Allocate (kmm h) (sz + kHeaderSize) = (q, mm)"
    by (cases "Allocate (kmm h) (sz + kHeaderSize)")
  have q: "q \<noteq> 0" "p = q + kHeaderSize"
      "h' = \<lparr>kmm = mm, cells = (cells h)(q := sz + kHeaderSize)\<rparr>"
    using assms(3,4) alloc by (auto simp: operator_new_def split: if_splits)
  then show ?thesis
    using Free_Allocate [OF assms(1,2) alloc] assms(4) by (simp add: operator_delete_def Let_def)
qed

theorem operator_new_delete_witness:
  "kmm (operator_delete (snd (operator_new \<lparr>kmm = sample_mm, cells = (\<lambda>_. 0)\<rparr> 0x17F0)) 0x4010) =
     sample_mm"
proof -
  let ?h = "\<lparr>kmm = sample_mm, cells = (\<lambda>_. 0 :: u64)\<rparr>"
  have hdr: "0x17F0 + kHeaderSize = (0x1800 :: u64)"
    by (simp add: kHeaderSize_def)
  have "operator_new ?h 0x17F0 = (0x4010, snd (operator_new ?h 0x17F0))"
    by (simp add: operator_new_def Let_def hdr sample_mm_alloc) (simp add: kHeaderSize_def)
  then show ?thesis
    using operator_new_delete [of ?h "0x17F0" "0x4010"] sample_mm_inv admissible_sample hdr by simp
qed

text \<open>
  the rounding of \<open>Allocate\<close> can wrap. For a size within 4095 of \<open>2 ^ 64\<close> the number
  of frames comes out as 0, and, as soon as some frame below the range end is free, the call
  returns the address of the first free frame without reserving anything.
\<close>

theorem Allocate_wraps:
  assumes "mm_inv mm" and "2 ^ 64 \<le> unat sz + 4095" and "\<not> Bitmap_Get (mm_bitmap mm) f"
    and "\<forall>j<f. Bitmap_Get (mm_bitmap mm) j"
  shows "Allocate mm sz = (of_nat (f * kFrameSize), mm) \<and> of_nat (f * kFrameSize) \<noteq> (0 :: u64)"
proof -
  have "unat (sz + 4095) = unat sz + 4095 - 2 ^ 64"
    using assms(2) unat_u64_less [of sz] by (simp add: unat_word_ariths mod_if)
  then have zero: "frames_of sz = 0" and nz: "sz \<noteq> 0"
    using unat_u64_less [of sz] assms(2) by (auto simp: frames_of_def kFrameSize_def)
  have f: "0 < f" "f < total_frames mm"
    using assms(1,3) unfolding mm_inv_def by (metis gr0I, metis linorder_not_less)
  have "FindFreeFrame (mm_bitmap mm) = int f"
    by (cases "mm_bitmap mm" rule: FindFreeFrame_cases) (use assms(3,4) nat_neq_iff in auto)
  moreover have "search_run (mm_bitmap mm) (total_frames mm) 0 f = Some f"
    using f by (simp add: search_run.simps check_run.simps)
  moreover have "unat (of_nat (f * kFrameSize) :: u64) = f * kFrameSize"
    using f total_frames_less [of mm] by (intro frame_address) simp
  moreover from this have "of_nat (f * kFrameSize) \<noteq> (0 :: u64)"
    using f by (auto simp: kFrameSize_def)
  ultimately show ?thesis
    using zero nz by (simp add: Allocate_def)
qed

theorem Allocate_wraps_witness: "Allocate sample_mm 0xFFFFFFFFFFFFFFFF = (0x4000, sample_mm)"
proof -
  have "j = 0 \<or> j = 1 \<or> j = 2 \<or> j = 3" if "j < 4" for j :: nat
    using that by arith
  moreover have "\<not> Bitmap_Get (mm_bitmap sample_mm) 4" "Bitmap_Get (mm_bitmap sample_mm) 0"
      "Bitmap_Get (mm_bitmap sample_mm) 1" "Bitmap_Get (mm_bitmap sample_mm) 2"
      "Bitmap_Get (mm_bitmap sample_mm) 3"
    by (simp_all add: sample_mm_def bitmap_eval)
  ultimately have "\<not> Bitmap_Get (mm_bitmap sample_mm) 4" and "\<forall>j<4. Bitmap_Get (mm_bitmap sample_mm) j"
    by blast+
  then show ?thesis
    using Allocate_wraps [OF sample_mm_inv, where sz = "0xFFFFFFFFFFFFFFFF" and f = 4]
    by (simp add: kFrameSize_def)
qed

end
