(* ===== verification/ReadyQueue.thy ===== *)
theory ReadyQueue
  imports Prelude
begin

text \<open>
  The task control blocks, the ready queue of \<open>kernel/task/task_manager.cpp\<close> and the
  scheduler of \<open>kernel/task/scheduler.cpp\<close>. The blocks live in a heap addressed by 64-bit
  pointers (0 is \<open>nullptr\<close>) and are linked through their \<open>next\<close> and \<open>prev\<close> fields as
  in the source, so that an update through one pointer is seen through every other. The
  registers that \<open>SwitchContext\<close> (\<open>kernel/task/context_switch.asm\<close>) saves and restores
  are part of the state. The abstraction \<open>queue\<close> relates the links to the list of tasks
  waiting for the processor; the lemmas show that the pointer operations implement the list
  operations and that scheduling is round robin over that list.
\<close>

section \<open>Task control blocks\<close>

datatype TaskState = READY | RUNNING | BLOCKED | TERMINATED

datatype gpr = R15 | R14 | R13 | R12 | R11 | R10 | R9 | R8 | RDI | RSI | RBP | RSP | RBX | RDX | RCX | RAX

record TaskContext =
  ctx_gpr :: "gpr \<Rightarrow> u64"
  ctx_cs :: u64
  ctx_ss :: u64
  ctx_ds :: u64
  ctx_es :: u64
  ctx_fs :: u64
  ctx_gs :: u64
  ctx_rip :: u64
  ctx_rflags :: u64
  ctx_cr3 :: u64

text \<open>
  The argument vector is the pointer to the array and, for the pointers it holds, their
  values with the strings they point to.
\<close>

record Task =
  task_id :: u64
  task_state :: TaskState
  task_context :: TaskContext
  kernel_stack :: u64
  kernel_stack_size :: u64
  task_next :: u64
  task_prev :: u64
  task_name :: bytes
  entry_point :: u64
  task_argc :: int
  argv_ptr :: u64
  argv_strs :: "(u64 \<times> bytes) list"
  is_app :: bool
  user_stack :: u64
  user_stack_size :: u64
  user_stack_top :: u64
  process_fds :: "u64 list"
  parent_task_id :: u64

record TaskManager =
  tasks :: "u64 \<Rightarrow> Task"
  current_task :: u64
  ready_queue_head :: u64
  ready_queue_tail :: u64
  next_task_id :: u64
  task_count :: u64

abbreviation upd_task :: "TaskManager \<Rightarrow> u64 \<Rightarrow> (Task \<Rightarrow> Task) \<Rightarrow> TaskManager" where
  "upd_task tm p f \<equiv> tm\<lparr>tasks := (tasks tm)(p := f (tasks tm p))\<rparr>"

section \<open>TaskManager: the ready queue\<close>

definition TaskManager_Initialize :: "TaskManager \<Rightarrow> TaskManager" where
  "TaskManager_Initialize tm = tm\<lparr>current_task := 0, ready_queue_head := 0,
     ready_queue_tail := 0, next_task_id := 0, task_count := 0\<rparr>"

definition GetNextTask :: "TaskManager \<Rightarrow> u64" where
  "GetNextTask tm = (if ready_queue_head tm = 0 then 0 else ready_queue_head tm)"

definition SetCurrentTask :: "TaskManager \<Rightarrow> u64 \<Rightarrow> TaskManager" where
  "SetCurrentTask tm t = tm\<lparr>current_task := t\<rparr>"

definition AddToReadyQueue :: "TaskManager \<Rightarrow> u64 \<Rightarrow> TaskManager" where
  "AddToReadyQueue tm t =
     (if t = 0 then tm
      else if task_next (tasks tm t) \<noteq> 0 \<or> task_prev (tasks tm t) \<noteq> 0 \<or> t = ready_queue_head tm
      then tm
      else
        let tm1 = upd_task tm t (\<lambda>k. k\<lparr>task_state := READY, task_next := 0,
                    task_prev := ready_queue_tail tm\<rparr>);
            tm2 = (if ready_queue_tail tm1 \<noteq> 0
                   then upd_task tm1 (ready_queue_tail tm1) (\<lambda>k. k\<lparr>task_next := t\<rparr>)
                   else tm1\<lparr>ready_queue_head := t\<rparr>)
        in tm2\<lparr>ready_queue_tail := t\<rparr>)"

definition RemoveFromReadyQueue :: "TaskManager \<Rightarrow> u64 \<Rightarrow> TaskManager" where
  "RemoveFromReadyQueue tm t =
     (if t = 0 then tm
      else
        let tm1 = (if t = ready_queue_head tm
                   then tm\<lparr>ready_queue_head := task_next (tasks tm t)\<rparr> else tm);
            tm2 = (if t = ready_queue_tail tm1
                   then tm1\<lparr>ready_queue_tail := task_prev (tasks tm1 t)\<rparr> else tm1);
            tm3 = (if task_prev (tasks tm2 t) \<noteq> 0
                   then upd_task tm2 (task_prev (tasks tm2 t))
                          (\<lambda>k. k\<lparr>task_next := task_next (tasks tm2 t)\<rparr>)
                   else tm2);
            tm4 = (if task_next (tasks tm3 t) \<noteq> 0
                   then upd_task tm3 (task_next (tasks tm3 t))
                          (\<lambda>k. k\<lparr>task_prev := task_prev (tasks tm3 t)\<rparr>)
                   else tm3)
        in upd_task tm4 t (\<lambda>k. k\<lparr>task_next := 0, task_prev := 0\<rparr>))"

definition BlockTask :: "TaskManager \<Rightarrow> u64 \<Rightarrow> TaskManager" where
  "BlockTask tm t =
     (if t = 0 then tm
      else upd_task (RemoveFromReadyQueue tm t) t (\<lambda>k. k\<lparr>task_state := BLOCKED\<rparr>))"

definition WakeTask :: "TaskManager \<Rightarrow> u64 \<Rightarrow> TaskManager" where
  "WakeTask tm t =
     (if t = 0 then tm
      else if task_state (tasks tm t) = BLOCKED then AddToReadyQueue tm t else tm)"

section \<open>Scheduler\<close>

text \<open>
  The scheduler's static members, the processor registers and the static
  \<open>dummy_context\<close> that receives them at the first switch.
\<close>

record Sched =
  sch_tm :: TaskManager
  sch_enabled :: bool
  schedule_count :: u32
  sch_cpu :: TaskContext
  dummy_context :: TaskContext

definition Scheduler_Initialize :: "Sched \<Rightarrow> Sched" where
  "Scheduler_Initialize s = s\<lparr>sch_enabled := False, schedule_count := 0\<rparr>"

definition Scheduler_Enable :: "Sched \<Rightarrow> Sched" where
  "Scheduler_Enable s = s\<lparr>sch_enabled := True\<rparr>"

definition Scheduler_Disable :: "Sched \<Rightarrow> Sched" where
  "Scheduler_Disable s = s\<lparr>sch_enabled := False\<rparr>"

text \<open>
  \<open>SwitchContext(old_ctx, new_ctx)\<close> stores the general registers, the flags and CR3 in the
  old context and loads them from the new one; the segment fields and \<open>rip\<close> of a context
  are not touched (the instruction pointer is on the stack that \<open>rsp\<close> selects).
\<close>

definition save_context :: "TaskContext \<Rightarrow> TaskContext \<Rightarrow> TaskContext" where
  "save_context cpu old = old\<lparr>ctx_gpr := ctx_gpr cpu, ctx_rflags := ctx_rflags cpu,
     ctx_cr3 := ctx_cr3 cpu\<rparr>"

definition restore_context :: "TaskContext \<Rightarrow> TaskContext \<Rightarrow> TaskContext" where
  "restore_context cpu new = cpu\<lparr>ctx_gpr := ctx_gpr new, ctx_rflags := ctx_rflags new,
     ctx_cr3 := ctx_cr3 new\<rparr>"

definition SwitchTo :: "Sched \<Rightarrow> u64 \<Rightarrow> u64 \<Rightarrow> Sched" where
  "SwitchTo s current nxt =
     (let new = task_context (tasks (sch_tm s) nxt);
          s1 = (if current \<noteq> 0
                then s\<lparr>sch_tm := upd_task (sch_tm s) current
                         (\<lambda>k. k\<lparr>task_context := save_context (sch_cpu s) (task_context k)\<rparr>)\<rparr>
                else s\<lparr>dummy_context := save_context (sch_cpu s) (dummy_context s)\<rparr>)
      in s1\<lparr>sch_cpu := restore_context (sch_cpu s) new\<rparr>)"

definition Schedule :: "Sched \<Rightarrow> bool \<Rightarrow> Sched" where
  "Schedule s voluntary =
     (if \<not> sch_enabled s then s
      else
        let current = current_task (sch_tm s); nxt = GetNextTask (sch_tm s) in
        if nxt = 0 then s
        else if current = nxt then s
        else if \<not> voluntary \<and> current \<noteq> 0 \<and> is_app (tasks (sch_tm s) current) \<and>
                task_state (tasks (sch_tm s) current) = RUNNING then s
        else
          let tm1 = (if current \<noteq> 0 \<and> task_state (tasks (sch_tm s) current) = RUNNING
                     then AddToReadyQueue
                            (upd_task (RemoveFromReadyQueue (sch_tm s) current) current
                               (\<lambda>k. k\<lparr>task_state := READY\<rparr>)) current
                     else sch_tm s);
              tm2 = RemoveFromReadyQueue tm1 nxt;
              tm3 = upd_task tm2 nxt (\<lambda>k. k\<lparr>task_state := RUNNING\<rparr>);
              tm4 = SetCurrentTask tm3 nxt
          in SwitchTo (s\<lparr>sch_tm := tm4, schedule_count := schedule_count s + 1\<rparr>) current nxt)"

text \<open>
  \<open>Yield\<close>: \<open>cli\<close>, the call of the scheduler, \<open>sti\<close>. When the scheduler switches, the last instruction is
  the one of the task that continues: a task that yielded resumes in front of its \<open>sti\<close>, one that the timer
  interrupted returns with the interrupt flag it was interrupted with, which is set, and a new task starts with
  the flag set. The flag is bit 9 of the flags.
\<close>

definition set_IF :: "bool \<Rightarrow> u64 \<Rightarrow> u64" where
  "set_IF b v = (if b then Bit_Operations.set_bit 9 v else Bit_Operations.unset_bit 9 v)"

definition cli :: "Sched \<Rightarrow> Sched" where
  "cli s = s\<lparr>sch_cpu := (sch_cpu s)\<lparr>ctx_rflags := set_IF False (ctx_rflags (sch_cpu s))\<rparr>\<rparr>"

definition sti :: "Sched \<Rightarrow> Sched" where
  "sti s = s\<lparr>sch_cpu := (sch_cpu s)\<lparr>ctx_rflags := set_IF True (ctx_rflags (sch_cpu s))\<rparr>\<rparr>"

definition Yield :: "Sched \<Rightarrow> Sched" where
  "Yield s = sti (Schedule (cli s) True)"

section \<open>The queue as a list\<close>

definition last0 :: "u64 \<Rightarrow> u64 list \<Rightarrow> u64" where
  "last0 p xs = (if xs = [] then p else last xs)"

definition hd0 :: "u64 list \<Rightarrow> u64 \<Rightarrow> u64" where
  "hd0 xs n = (case xs of [] \<Rightarrow> n | x # _ \<Rightarrow> x)"

text \<open>
  \<open>seg h p xs n\<close>: the blocks \<open>xs\<close> are chained in this order through \<open>next\<close> and
  \<open>prev\<close>; the first one's \<open>prev\<close> is \<open>p\<close> and the last one's \<open>next\<close> is \<open>n\<close>.
\<close>

fun seg :: "(u64 \<Rightarrow> Task) \<Rightarrow> u64 \<Rightarrow> u64 list \<Rightarrow> u64 \<Rightarrow> bool" where
  "seg h p [] n = True"
| "seg h p (x # xs) n = (task_prev (h x) = p \<and> task_next (h x) = hd0 xs n \<and> seg h x xs n)"

text \<open>Blocks outside the queue carry no links.\<close>

definition queue :: "TaskManager \<Rightarrow> u64 list \<Rightarrow> bool" where
  "queue tm xs \<longleftrightarrow> distinct xs \<and> 0 \<notin> set xs \<and> seg (tasks tm) 0 xs 0 \<and>
     ready_queue_head tm = hd0 xs 0 \<and> ready_queue_tail tm = last0 0 xs \<and>
     (\<forall>t. t \<noteq> 0 \<longrightarrow> t \<notin> set xs \<longrightarrow> task_next (tasks tm t) = 0 \<and> task_prev (tasks tm t) = 0)"

lemma hd0_simps [simp]: "hd0 [] n = n" "hd0 (x # xs) n = x" "hd0 (xs @ ys) n = hd0 xs (hd0 ys n)"
  by (simp_all add: hd0_def split: list.split)

lemma last0_simps [simp]:
  "last0 p [] = p" "last0 p (x # xs) = last0 x xs" "last0 p (xs @ ys) = last0 (last0 p xs) ys"
  by (simp_all add: last0_def)

lemma last0_in: "last0 p xs \<in> insert p (set xs)"
  by (simp add: last0_def)

lemma hd0_in: "hd0 xs n \<in> insert n (set xs)"
  by (cases xs) simp_all

lemma seg_cong:
  "(\<And>x. x \<in> set xs \<Longrightarrow> task_next (h' x) = task_next (h x) \<and> task_prev (h' x) = task_prev (h x)) \<Longrightarrow>
    seg h' p xs n = seg h p xs n"
  by (induction xs arbitrary: p) auto

lemma seg_append: "seg h p (xs @ ys) n \<longleftrightarrow> seg h p xs (hd0 ys n) \<and> seg h (last0 p xs) ys n"
  by (induction xs arbitrary: p) auto

text \<open>Redirecting the last \<open>next\<close> or the first \<open>prev\<close> of a segment.\<close>

lemma seg_set_next:
  assumes "seg h p (xs @ [z]) n" "z \<notin> set xs"
    and "\<And>x. x \<in> set xs \<Longrightarrow> task_next (h' x) = task_next (h x) \<and> task_prev (h' x) = task_prev (h x)"
    and "task_prev (h' z) = task_prev (h z)" "task_next (h' z) = m"
  shows "seg h' p (xs @ [z]) m"
  using assms seg_cong [of xs h' h p z] by (simp add: seg_append)

lemma seg_set_prev:
  assumes "seg h p (x # xs) n" "x \<notin> set xs"
    and "\<And>y. y \<in> set xs \<Longrightarrow> task_next (h' y) = task_next (h y) \<and> task_prev (h' y) = task_prev (h y)"
    and "task_next (h' x) = task_next (h x)" "task_prev (h' x) = q"
  shows "seg h' q (x # xs) n"
  using assms seg_cong [of xs h' h x n] by simp

lemma seg_first: "seg h p xs n \<Longrightarrow> xs \<noteq> [] \<Longrightarrow> task_prev (h (hd xs)) = p"
  by (cases xs) auto

lemma queue_linksD:
  assumes "queue tm xs" "t \<in> set xs"
  obtains as bs where "xs = as @ t # bs" "task_prev (tasks tm t) = last0 0 as"
    "task_next (tasks tm t) = hd0 bs 0"
proof -
  obtain as bs where "xs = as @ t # bs"
    using assms(2) by (auto simp: in_set_conv_decomp)
  with assms(1) that show ?thesis
    by (auto simp: queue_def seg_append)
qed

text \<open>The membership test of \<open>AddToReadyQueue\<close> is exact.\<close>

lemma queued_iff:
  assumes "queue tm xs" "t \<noteq> 0"
  shows "task_next (tasks tm t) \<noteq> 0 \<or> task_prev (tasks tm t) \<noteq> 0 \<or> t = ready_queue_head tm
    \<longleftrightarrow> t \<in> set xs"
proof (cases "t \<in> set xs")
  case True
  from assms(1) True obtain as bs where t: "xs = as @ t # bs"
    "task_prev (tasks tm t) = last0 0 as" "task_next (tasks tm t) = hd0 bs 0"
    by (rule queue_linksD)
  show ?thesis
  proof (cases as rule: rev_cases)
    case Nil
    then show ?thesis using t assms(1) by (simp add: queue_def)
  next
    case (snoc ys y)
    then have "y \<noteq> 0" using t assms(1) by (auto simp: queue_def)
    then show ?thesis using t snoc True by simp
  qed
next
  case False
  then have "ready_queue_head tm \<noteq> t"
    using assms hd0_in [of xs 0] by (auto simp: queue_def)
  then show ?thesis
    using False assms by (auto simp: queue_def)
qed

lemma Add_queued: "queue tm xs \<Longrightarrow> t \<in> set xs \<Longrightarrow> AddToReadyQueue tm t = tm"
  using queued_iff [of tm xs t] by (auto simp: AddToReadyQueue_def queue_def)

lemma queueI:
  assumes "distinct xs" "0 \<notin> set xs" "seg (tasks tm) 0 xs 0" "ready_queue_head tm = hd0 xs 0"
    "ready_queue_tail tm = last0 0 xs"
    "\<And>t. t \<noteq> 0 \<Longrightarrow> t \<notin> set xs \<Longrightarrow> task_next (tasks tm t) = 0 \<and> task_prev (tasks tm t) = 0"
  shows "queue tm xs"
  using assms by (simp add: queue_def)

lemma queue_unlinked: "queue tm xs \<Longrightarrow> t \<noteq> 0 \<Longrightarrow> t \<notin> set xs \<Longrightarrow>
    task_next (tasks tm t) = 0 \<and> task_prev (tasks tm t) = 0"
  by (simp add: queue_def)

lemma queue_not_0: "queue tm xs \<Longrightarrow> t \<in> set xs \<Longrightarrow> t \<noteq> 0"
  by (auto simp: queue_def)

text \<open>What adding an absent task does to every block and to the two ends.\<close>

lemma Add_effect:
  assumes "queue tm xs" "t \<noteq> 0" "t \<notin> set xs"
  defines "z \<equiv> last0 0 xs"
  shows "tasks (AddToReadyQueue tm t) x =
      (if x = t then (tasks tm t)\<lparr>task_state := READY, task_next := 0, task_prev := z\<rparr>
       else if x = z \<and> z \<noteq> 0 then (tasks tm z)\<lparr>task_next := t\<rparr> else tasks tm x)"
    and "ready_queue_head (AddToReadyQueue tm t) = hd0 xs t"
    and "ready_queue_tail (AddToReadyQueue tm t) = t"
    and "current_task (AddToReadyQueue tm t) = current_task tm"
    and "next_task_id (AddToReadyQueue tm t) = next_task_id tm"
    and "task_count (AddToReadyQueue tm t) = task_count tm"
proof -
  have tail: "ready_queue_tail tm = z" and head: "ready_queue_head tm = hd0 xs 0"
    using assms by (simp_all add: queue_def)
  have zt: "z \<noteq> t" using last0_in [of 0 xs] assms by auto
  have z0: "z = 0 \<longleftrightarrow> xs = []"
    using assms by (cases xs rule: rev_cases) (auto simp: queue_def)
  have hd: "xs \<noteq> [] \<Longrightarrow> hd0 xs 0 = hd0 xs t" by (cases xs) auto
  show "tasks (AddToReadyQueue tm t) x =
      (if x = t then (tasks tm t)\<lparr>task_state := READY, task_next := 0, task_prev := z\<rparr>
       else if x = z \<and> z \<noteq> 0 then (tasks tm z)\<lparr>task_next := t\<rparr> else tasks tm x)"
    using queued_iff [OF assms(1,2)] assms(2,3) zt by (simp add: AddToReadyQueue_def Let_def tail)
  show "ready_queue_head (AddToReadyQueue tm t) = hd0 xs t"
    using queued_iff [OF assms(1,2)] assms(2,3) z0 head hd
    by (auto simp: AddToReadyQueue_def Let_def tail)
qed (use queued_iff [OF assms(1,2)] assms(2,3) in \<open>simp_all add: AddToReadyQueue_def Let_def\<close>)

lemma Add_queue:
  assumes q: "queue tm xs" and t: "t \<noteq> 0" "t \<notin> set xs"
  shows "queue (AddToReadyQueue tm t) (xs @ [t])"
proof (rule queueI)
  note eff = Add_effect [OF q t]
  show "distinct (xs @ [t])" "0 \<notin> set (xs @ [t])"
    using q t by (auto simp: queue_def)
  show "ready_queue_head (AddToReadyQueue tm t) = hd0 (xs @ [t]) 0"
    "ready_queue_tail (AddToReadyQueue tm t) = last0 0 (xs @ [t])"
    by (simp_all add: eff)
  have "seg (tasks (AddToReadyQueue tm t)) 0 xs t"
  proof (cases xs rule: rev_cases)
    case (snoc ys z)
    have "seg (tasks tm) 0 (ys @ [z]) 0" "z \<notin> set ys" "z \<noteq> 0" "z \<noteq> t" "t \<notin> set ys"
      using q t snoc by (auto simp: queue_def)
    then show ?thesis
      unfolding snoc by (elim seg_set_next) (auto simp: eff snoc)
  qed simp
  then show "seg (tasks (AddToReadyQueue tm t)) 0 (xs @ [t]) 0"
    by (simp add: seg_append eff)
  fix x assume x: "x \<noteq> 0" "x \<notin> set (xs @ [t])"
  then have "x \<noteq> last0 0 xs" using last0_in [of 0 xs] by auto
  then show "task_next (tasks (AddToReadyQueue tm t) x) = 0 \<and>
      task_prev (tasks (AddToReadyQueue tm t) x) = 0"
    using x queue_unlinked [OF q x(1)] by (simp add: eff)
qed

lemma Remove_absent:
  assumes "queue tm xs" "t \<notin> set xs"
  shows "RemoveFromReadyQueue tm t = tm"
proof (cases "t = 0")
  case True
  then show ?thesis by (simp add: RemoveFromReadyQueue_def)
next
  case False
  have unl: "task_next (tasks tm t) = 0" "task_prev (tasks tm t) = 0"
    using queue_unlinked [OF assms(1) False assms(2)] by simp_all
  have ends: "t \<noteq> ready_queue_head tm" "t \<noteq> ready_queue_tail tm"
    using assms False hd0_in [of xs 0] last0_in [of 0 xs] by (auto simp: queue_def)
  have same: "(tasks tm t)\<lparr>task_next := 0, task_prev := 0\<rparr> = tasks tm t"
    using unl by (cases "tasks tm t") simp
  show ?thesis
    using False unl ends by (simp add: RemoveFromReadyQueue_def Let_def same del: Task.simps)
qed

lemma set_ends_simps:
  "tasks (if c then tm\<lparr>ready_queue_head := a\<rparr> else tm) = tasks tm"
  "tasks (if c then tm\<lparr>ready_queue_tail := a\<rparr> else tm) = tasks tm"
  "ready_queue_tail (if c then tm\<lparr>ready_queue_head := a\<rparr> else tm) = ready_queue_tail tm"
  "ready_queue_head (if c then tm\<lparr>ready_queue_tail := a\<rparr> else tm) = ready_queue_head tm"
  "current_task (if c then tm\<lparr>ready_queue_head := a\<rparr> else tm) = current_task tm"
  "current_task (if c then tm\<lparr>ready_queue_tail := a\<rparr> else tm) = current_task tm"
  by simp_all

lemma Remove_effect:
  assumes q: "queue tm (as @ t # bs)"
  defines "p \<equiv> last0 0 as" and "n \<equiv> hd0 bs 0"
  shows "tasks (RemoveFromReadyQueue tm t) x =
      (if x = t then (tasks tm t)\<lparr>task_next := 0, task_prev := 0\<rparr>
       else if x = p \<and> p \<noteq> 0 then (tasks tm p)\<lparr>task_next := n\<rparr>
       else if x = n \<and> n \<noteq> 0 then (tasks tm n)\<lparr>task_prev := p\<rparr> else tasks tm x)"
    and "ready_queue_head (RemoveFromReadyQueue tm t) = hd0 (as @ bs) 0"
    and "ready_queue_tail (RemoveFromReadyQueue tm t) = last0 0 (as @ bs)"
    and "current_task (RemoveFromReadyQueue tm t) = current_task tm"
    and "next_task_id (RemoveFromReadyQueue tm t) = next_task_id tm"
    and "task_count (RemoveFromReadyQueue tm t) = task_count tm"
proof -
  have links: "task_prev (tasks tm t) = p" "task_next (tasks tm t) = n"
    and t0: "t \<noteq> 0"
    and ends: "ready_queue_head tm = hd0 as t" "ready_queue_tail tm = last0 t bs"
    using q by (auto simp: queue_def seg_append p_def n_def)
  have pt: "p \<noteq> t" "n \<noteq> t" and pn: "p \<noteq> 0 \<Longrightarrow> p \<noteq> n"
    using q last0_in [of 0 as] hd0_in [of bs 0] by (auto simp: queue_def p_def n_def)
  have hd: "(t = hd0 as t) = (as = [])" "as \<noteq> [] \<Longrightarrow> hd0 as t = hd0 as (hd0 bs 0)"
    using q by (cases as; auto simp: queue_def)+
  have tl: "(t = last0 t bs) = (bs = [])" "bs \<noteq> [] \<Longrightarrow> last0 t bs = last0 (last0 0 as) bs"
    using q by (cases bs rule: rev_cases; auto simp: queue_def)+
  show "tasks (RemoveFromReadyQueue tm t) x =
      (if x = t then (tasks tm t)\<lparr>task_next := 0, task_prev := 0\<rparr>
       else if x = p \<and> p \<noteq> 0 then (tasks tm p)\<lparr>task_next := n\<rparr>
       else if x = n \<and> n \<noteq> 0 then (tasks tm n)\<lparr>task_prev := p\<rparr> else tasks tm x)"
    using t0 pt pn by (cases "p = 0"; cases "n = 0")
      (simp_all add: RemoveFromReadyQueue_def Let_def links set_ends_simps)
  show "ready_queue_head (RemoveFromReadyQueue tm t) = hd0 (as @ bs) 0"
    using t0 hd pt by (simp add: RemoveFromReadyQueue_def Let_def links ends n_def)
  show "ready_queue_tail (RemoveFromReadyQueue tm t) = last0 0 (as @ bs)"
    using t0 tl pt by (simp add: RemoveFromReadyQueue_def Let_def links ends p_def)
qed (simp_all add: RemoveFromReadyQueue_def Let_def)

lemma Remove_queue:
  assumes q: "queue tm (as @ t # bs)"
  shows "queue (RemoveFromReadyQueue tm t) (as @ bs)"
proof (rule queueI)
  note eff = Remove_effect [OF q]
  show "distinct (as @ bs)" "0 \<notin> set (as @ bs)"
    using q by (auto simp: queue_def)
  show "ready_queue_head (RemoveFromReadyQueue tm t) = hd0 (as @ bs) 0"
    "ready_queue_tail (RemoveFromReadyQueue tm t) = last0 0 (as @ bs)"
    by (simp_all add: eff)
  have sg: "seg (tasks tm) 0 as t" "seg (tasks tm) t bs 0"
    and dj: "distinct as" "distinct bs" "t \<notin> set as" "t \<notin> set bs" "set as \<inter> set bs = {}"
      "0 \<notin> set as" "0 \<notin> set bs"
    using q by (auto simp: queue_def seg_append)
  have "seg (tasks (RemoveFromReadyQueue tm t)) 0 as (hd0 bs 0)"
  proof (cases as rule: rev_cases)
    case (snoc ys y)
    have "x \<noteq> hd0 bs 0" if "x \<in> set ys" for x
      using that dj snoc hd0_in [of bs 0] by auto
    then show ?thesis
      using sg(1) dj unfolding snoc by (elim seg_set_next) (auto simp: eff snoc)
  qed simp
  moreover have "seg (tasks (RemoveFromReadyQueue tm t)) (last0 0 as) bs 0"
  proof (cases bs)
    case (Cons y ys)
    have "x \<noteq> last0 0 as" if "x \<in> set bs" for x
      using that dj last0_in [of 0 as] by auto
    then show ?thesis
      using sg(2) dj unfolding Cons by (elim seg_set_prev) (auto simp: eff Cons)
  qed simp
  ultimately show "seg (tasks (RemoveFromReadyQueue tm t)) 0 (as @ bs) 0"
    by (simp add: seg_append)
  fix x assume x: "x \<noteq> 0" "x \<notin> set (as @ bs)"
  then have "x \<noteq> last0 0 as" "x \<noteq> hd0 bs 0"
    using last0_in [of 0 as] hd0_in [of bs 0] by auto
  then show "task_next (tasks (RemoveFromReadyQueue tm t) x) = 0 \<and>
      task_prev (tasks (RemoveFromReadyQueue tm t) x) = 0"
    using x queue_unlinked [OF q x(1)] by (simp add: eff)
qed

lemma queue_cong:
  assumes "\<And>x. task_next (tasks tm' x) = task_next (tasks tm x)"
    "\<And>x. task_prev (tasks tm' x) = task_prev (tasks tm x)"
    "ready_queue_head tm' = ready_queue_head tm" "ready_queue_tail tm' = ready_queue_tail tm"
  shows "queue tm' xs = queue tm xs"
  using assms seg_cong [of xs "tasks tm'" "tasks tm" 0 0] by (simp add: queue_def)

lemma queue_unique: "queue tm xs \<Longrightarrow> queue tm ys \<Longrightarrow> xs = ys"
proof -
  have "seg h p xs 0 \<Longrightarrow> seg h q ys 0 \<Longrightarrow> 0 \<notin> set xs \<Longrightarrow> 0 \<notin> set ys \<Longrightarrow> hd0 xs 0 = hd0 ys 0 \<Longrightarrow> xs = ys"
    for h p q and xs ys :: "u64 list"
  proof (induction xs arbitrary: p q ys)
    case (Cons x xs)
    then show ?case by (cases ys) auto
  qed (metis hd0_simps(1,2) list.set_intros(1) list.exhaust)
  then show "queue tm xs \<Longrightarrow> queue tm ys \<Longrightarrow> xs = ys"
    by (auto simp: queue_def)
qed

lemma GetNext_queue: "queue tm xs \<Longrightarrow> GetNextTask tm = hd0 xs 0"
  by (simp add: GetNextTask_def queue_def)

subsection \<open>The contract of the queue\<close>

text \<open>
  What the scheduler relies on: the state represents a list without repetitions, adding an
  absent task appends it, adding a queued one changes nothing, removing a task deletes it,
  and the front is the head of the list.
\<close>

locale ready_list =
  fixes rep :: "'s \<Rightarrow> u64 list \<Rightarrow> bool"
    and add :: "'s \<Rightarrow> u64 \<Rightarrow> 's"
    and rem :: "'s \<Rightarrow> u64 \<Rightarrow> 's"
    and front :: "'s \<Rightarrow> u64"
  assumes add_new: "rep s xs \<Longrightarrow> t \<noteq> 0 \<Longrightarrow> t \<notin> set xs \<Longrightarrow> rep (add s t) (xs @ [t])"
    and add_old: "rep s xs \<Longrightarrow> t \<in> set xs \<Longrightarrow> add s t = s"
    and rem_in: "rep s (as @ t # bs) \<Longrightarrow> rep (rem s t) (as @ bs)"
    and rem_out: "rep s xs \<Longrightarrow> t \<notin> set xs \<Longrightarrow> rem s t = s"
    and front_rep: "rep s xs \<Longrightarrow> front s = (case xs of [] \<Rightarrow> 0 | x # _ \<Rightarrow> x)"
    and rep_distinct: "rep s xs \<Longrightarrow> distinct xs"
begin

lemma rem_remove1: "rep s xs \<Longrightarrow> rep (rem s t) (remove1 t xs)"
proof (cases "t \<in> set xs")
  case True
  assume r: "rep s xs"
  from True obtain as bs where "xs = as @ t # bs" "t \<notin> set as"
    by (meson split_list_first)
  then show ?thesis using rem_in [of s as t bs] r by (simp add: remove1_append)
qed (use rem_out remove1_idem in metis)

lemma add_insert: "rep s xs \<Longrightarrow> t \<noteq> 0 \<Longrightarrow> rep (add s t) (if t \<in> set xs then xs else xs @ [t])"
  using add_new [of s xs t] add_old [of s xs t] by simp

lemma rotate: "rep s (x # xs) \<Longrightarrow> c \<noteq> 0 \<Longrightarrow> c \<notin> set (x # xs) \<Longrightarrow> rep (rem (add s c) x) (xs @ [c])"
  using add_new [of s "x # xs" c] rem_in [of "add s c" "[]" x "xs @ [c]"] by simp

lemma pop_front: "rep s (x # xs) \<Longrightarrow> front s = x \<and> rep (rem s (front s)) xs"
  using rem_in [of s "[]" x xs] front_rep [of s "x # xs"] by simp

text \<open>Taking the front away repeatedly yields the tasks in the order they were added.\<close>

lemma drain_nth:
  "rep s xs \<Longrightarrow> k < length xs \<Longrightarrow> front (((\<lambda>s. rem s (front s)) ^^ k) s) = xs ! k"
proof (induction k arbitrary: s xs)
  case 0
  then show ?case using front_rep by (cases xs) auto
next
  case (Suc k)
  then obtain y ys where xs: "xs = y # ys" by (cases xs) auto
  with Suc.prems have "rep (rem s (front s)) ys" "k < length ys"
    using pop_front [of s y ys] by auto
  from Suc.IH [OF this] show ?case
    by (simp only: xs nth_Cons_Suc funpow_Suc_right comp_apply)
qed

end

interpretation tq: ready_list queue AddToReadyQueue RemoveFromReadyQueue GetNextTask
proof (unfold_locales, goal_cases)
  case (5 s xs) then show ?case by (simp add: GetNext_queue hd0_def)
next
  case (6 s xs) then show ?case by (simp add: queue_def)
qed (auto intro: Add_queue Add_queued Remove_queue Remove_absent)

section \<open>Scheduling is round robin\<close>

text \<open>
  The invariant of the scheduler: the queue is well formed, what it holds is \<open>READY\<close>, and
  no task but the current one is \<open>RUNNING\<close>. Hence a running current task is not queued.
\<close>

definition sched_inv :: "TaskManager \<Rightarrow> u64 list \<Rightarrow> bool" where
  "sched_inv tm xs \<longleftrightarrow> queue tm xs \<and> (\<forall>t \<in> set xs. task_state (tasks tm t) = READY) \<and>
     (\<forall>t. t \<noteq> 0 \<longrightarrow> task_state (tasks tm t) = RUNNING \<longrightarrow> t = current_task tm)"

text \<open>The specification: the head runs next and the interrupted task goes to the end.\<close>

fun round_robin :: "bool \<Rightarrow> u64 \<times> u64 list \<Rightarrow> u64 \<times> u64 list" where
  "round_robin requeue (c, []) = (c, [])"
| "round_robin requeue (c, x # xs) = (x, if requeue then xs @ [c] else xs)"

lemma Add_frame:
  "task_context (tasks (AddToReadyQueue tm t) x) = task_context (tasks tm x)"
  "is_app (tasks (AddToReadyQueue tm t) x) = is_app (tasks tm x)"
  "x \<noteq> t \<Longrightarrow> task_state (tasks (AddToReadyQueue tm t) x) = task_state (tasks tm x)"
  "current_task (AddToReadyQueue tm t) = current_task tm"
  by (simp_all add: AddToReadyQueue_def Let_def)

lemma Remove_frame:
  "task_context (tasks (RemoveFromReadyQueue tm t) x) = task_context (tasks tm x)"
  "is_app (tasks (RemoveFromReadyQueue tm t) x) = is_app (tasks tm x)"
  "task_state (tasks (RemoveFromReadyQueue tm t) x) = task_state (tasks tm x)"
  "current_task (RemoveFromReadyQueue tm t) = current_task tm"
  by (simp_all add: RemoveFromReadyQueue_def Let_def set_ends_simps)

lemma Add_state: "queue tm xs \<Longrightarrow> t \<noteq> 0 \<Longrightarrow> t \<notin> set xs \<Longrightarrow>
    task_state (tasks (AddToReadyQueue tm t) t) = READY"
  by (simp add: Add_effect)

lemma sched_inv_queue: "sched_inv tm xs \<Longrightarrow> queue tm xs"
  by (simp add: sched_inv_def)

lemma running_not_queued:
  "sched_inv tm xs \<Longrightarrow> task_state (tasks tm t) = RUNNING \<Longrightarrow> t \<notin> set xs"
  by (auto simp: sched_inv_def)

lemma running_current:
  "sched_inv tm xs \<Longrightarrow> t \<noteq> 0 \<Longrightarrow> task_state (tasks tm t) = RUNNING \<Longrightarrow> t = current_task tm"
  by (simp add: sched_inv_def)

text \<open>Putting the running task back at the end of the queue.\<close>

lemma requeue:
  assumes inv: "sched_inv tm xs" and c: "current_task tm = c" "c \<noteq> 0"
    "task_state (tasks tm c) = RUNNING"
  defines "tm' \<equiv> AddToReadyQueue (upd_task (RemoveFromReadyQueue tm c) c
      (\<lambda>k. k\<lparr>task_state := READY\<rparr>)) c"
  shows "sched_inv tm' (xs @ [c])"
    and "task_context (tasks tm' x) = task_context (tasks tm x)"
    and "task_state (tasks tm' x) = (if x = c then READY else task_state (tasks tm x))"
    and "is_app (tasks tm' x) = is_app (tasks tm x)"
proof -
  have cq: "c \<notin> set xs" using running_not_queued [OF inv c(3)] .
  define tm0 where "tm0 = upd_task tm c (\<lambda>k. k\<lparr>task_state := READY\<rparr>)"
  have tm': "tm' = AddToReadyQueue tm0 c"
    using Remove_absent [OF sched_inv_queue [OF inv] cq] by (simp add: tm'_def tm0_def)
  have q0: "queue tm0 xs"
    using sched_inv_queue [OF inv] queue_cong [of tm0 tm xs] by (simp add: tm0_def)
  show st: "task_state (tasks tm' x) = (if x = c then READY else task_state (tasks tm x))" for x
    using Add_state [OF q0 c(2) cq] by (simp add: tm' Add_frame tm0_def)
  show "task_context (tasks tm' x) = task_context (tasks tm x)"
    "is_app (tasks tm' x) = is_app (tasks tm x)"
    by (simp_all add: tm' Add_frame tm0_def)
  have "queue tm' (xs @ [c])" using Add_queue [OF q0 c(2) cq] by (simp only: tm')
  moreover have "task_state (tasks tm t) = RUNNING \<Longrightarrow> t \<noteq> 0 \<Longrightarrow> t = c" for t
    using inv unfolding sched_inv_def c(1) by blast
  moreover have "\<forall>t \<in> set xs. task_state (tasks tm t) = READY"
    using inv by (simp add: sched_inv_def)
  ultimately show "sched_inv tm' (xs @ [c])"
    unfolding sched_inv_def st by (metis TaskState.distinct(1) Un_iff empty_iff empty_set insert_iff list.simps(15) set_append)
qed

text \<open>Taking the head of the queue and making it the running task.\<close>

lemma dispatch:
  assumes inv: "sched_inv tm (x # xs)" and nr: "\<And>t. t \<noteq> 0 \<Longrightarrow> task_state (tasks tm t) \<noteq> RUNNING"
  defines "tm' \<equiv> SetCurrentTask (upd_task (RemoveFromReadyQueue tm x) x
      (\<lambda>k. k\<lparr>task_state := RUNNING\<rparr>)) x"
  shows "sched_inv tm' xs" and "current_task tm' = x"
    and "task_context (tasks tm' t) = task_context (tasks tm t)"
    and "task_state (tasks tm' t) = (if t = x then RUNNING else task_state (tasks tm t))"
    and "is_app (tasks tm' t) = is_app (tasks tm t)"
proof -
  show cur: "current_task tm' = x" by (simp add: tm'_def SetCurrentTask_def)
  show st: "task_state (tasks tm' t) = (if t = x then RUNNING else task_state (tasks tm t))" for t
    by (simp add: tm'_def SetCurrentTask_def Remove_frame)
  show "task_context (tasks tm' t) = task_context (tasks tm t)"
    "is_app (tasks tm' t) = is_app (tasks tm t)"
    by (simp_all add: tm'_def SetCurrentTask_def Remove_frame)
  have "queue (RemoveFromReadyQueue tm x) xs"
    using Remove_queue [of tm "[]" x xs] inv by (simp add: sched_inv_def)
  then have "queue tm' xs"
    using queue_cong [of tm' "RemoveFromReadyQueue tm x" xs]
    by (simp add: tm'_def SetCurrentTask_def)
  moreover have "x \<notin> set xs" using inv by (simp add: sched_inv_def queue_def)
  ultimately show "sched_inv tm' xs"
    using inv nr by (auto simp: sched_inv_def st cur)
qed

lemma SwitchTo_frame:
  "task_state (tasks (sch_tm (SwitchTo s c n)) t) = task_state (tasks (sch_tm s) t)"
  "task_next (tasks (sch_tm (SwitchTo s c n)) t) = task_next (tasks (sch_tm s) t)"
  "task_prev (tasks (sch_tm (SwitchTo s c n)) t) = task_prev (tasks (sch_tm s) t)"
  "is_app (tasks (sch_tm (SwitchTo s c n)) t) = is_app (tasks (sch_tm s) t)"
  "current_task (sch_tm (SwitchTo s c n)) = current_task (sch_tm s)"
  "ready_queue_head (sch_tm (SwitchTo s c n)) = ready_queue_head (sch_tm s)"
  "ready_queue_tail (sch_tm (SwitchTo s c n)) = ready_queue_tail (sch_tm s)"
  "sch_enabled (SwitchTo s c n) = sch_enabled s"
  "schedule_count (SwitchTo s c n) = schedule_count s"
  "sch_cpu (SwitchTo s c n) = restore_context (sch_cpu s) (task_context (tasks (sch_tm s) n))"
  by (simp_all add: SwitchTo_def Let_def)

lemma SwitchTo_inv: "sched_inv (sch_tm s) xs \<Longrightarrow> sched_inv (sch_tm (SwitchTo s c n)) xs"
  using queue_cong [of "sch_tm (SwitchTo s c n)" "sch_tm s" xs]
  by (simp add: sched_inv_def SwitchTo_frame)

lemma SwitchTo_context: "task_context (tasks (sch_tm (SwitchTo s c n)) t) =
    (if t = c \<and> c \<noteq> 0 then save_context (sch_cpu s) (task_context (tasks (sch_tm s) c))
     else task_context (tasks (sch_tm s) t))"
  by (simp add: SwitchTo_def Let_def)

definition requeues :: "Sched \<Rightarrow> bool" where
  "requeues s \<longleftrightarrow> current_task (sch_tm s) \<noteq> 0 \<and>
     task_state (tasks (sch_tm s) (current_task (sch_tm s))) = RUNNING"

lemma Schedule_switch:
  assumes inv: "sched_inv (sch_tm s) (x # xs)" and en: "sch_enabled s"
    and nx: "current_task (sch_tm s) \<noteq> x"
    and vol: "voluntary \<or> \<not> requeues s \<or> \<not> is_app (tasks (sch_tm s) (current_task (sch_tm s)))"
  defines "c \<equiv> current_task (sch_tm s)" and "s' \<equiv> Schedule s voluntary"
  shows "sched_inv (sch_tm s') (if requeues s then xs @ [c] else xs)"
    and "current_task (sch_tm s') = x"
    and "task_state (tasks (sch_tm s') t) =
      (if t = x then RUNNING else if t = c \<and> requeues s then READY else task_state (tasks (sch_tm s) t))"
    and "task_context (tasks (sch_tm s') t) =
      (if t = c \<and> c \<noteq> 0 then save_context (sch_cpu s) (task_context (tasks (sch_tm s) c))
       else task_context (tasks (sch_tm s) t))"
    and "sch_cpu s' = restore_context (sch_cpu s) (task_context (tasks (sch_tm s) x))"
    and "sch_enabled s'" and "schedule_count s' = schedule_count s + 1"
proof -
  have x0: "x \<noteq> 0" and nxt: "GetNextTask (sch_tm s) = x"
    using inv by (auto simp: sched_inv_def queue_def GetNextTask_def)
  define tm1 where "tm1 = (if requeues s then AddToReadyQueue (upd_task
      (RemoveFromReadyQueue (sch_tm s) c) c (\<lambda>k. k\<lparr>task_state := READY\<rparr>)) c else sch_tm s)"
  define tm4 where "tm4 = SetCurrentTask (upd_task (RemoveFromReadyQueue tm1 x) x
      (\<lambda>k. k\<lparr>task_state := RUNNING\<rparr>)) x"
  have s': "s' = SwitchTo (s\<lparr>sch_tm := tm4, schedule_count := schedule_count s + 1\<rparr>) c x"
    using en nx vol x0
    by (auto simp: s'_def Schedule_def nxt tm4_def tm1_def requeues_def c_def Let_def)
  have i1: "sched_inv tm1 (x # (if requeues s then xs @ [c] else xs))"
    using requeue(1) [OF inv refl] inv by (simp add: tm1_def requeues_def c_def)
  have c1: "task_context (tasks tm1 t) = task_context (tasks (sch_tm s) t)" for t
    using requeue(2) [OF inv refl] by (simp add: tm1_def requeues_def c_def)
  have t1: "task_state (tasks tm1 t) = (if t = c \<and> requeues s then READY
      else task_state (tasks (sch_tm s) t))" for t
    using requeue(3) [OF inv refl] by (simp add: tm1_def requeues_def c_def)
  have nr: "task_state (tasks tm1 t) \<noteq> RUNNING" if "t \<noteq> 0" for t
  proof
    assume "task_state (tasks tm1 t) = RUNNING"
    then have "task_state (tasks (sch_tm s) t) = RUNNING" "\<not> (t = c \<and> requeues s)"
      by (auto simp: t1 split: if_splits)
    with running_current [OF inv \<open>t \<noteq> 0\<close>] \<open>t \<noteq> 0\<close> show False
      by (simp add: requeues_def c_def)
  qed
  note d = dispatch [OF i1 nr, folded tm4_def]
  show "sched_inv (sch_tm s') (if requeues s then xs @ [c] else xs)"
    unfolding s' by (rule SwitchTo_inv) (simp add: d)
  show "task_state (tasks (sch_tm s') t) =
      (if t = x then RUNNING else if t = c \<and> requeues s then READY else task_state (tasks (sch_tm s) t))"
    "task_context (tasks (sch_tm s') t) =
      (if t = c \<and> c \<noteq> 0 then save_context (sch_cpu s) (task_context (tasks (sch_tm s) c))
       else task_context (tasks (sch_tm s) t))"
    "current_task (sch_tm s') = x"
    "sch_cpu s' = restore_context (sch_cpu s) (task_context (tasks (sch_tm s) x))"
    "sch_enabled s'" "schedule_count s' = schedule_count s + 1"
    using en by (simp_all add: s' SwitchTo_frame SwitchTo_context d c1 t1)
qed

lemma Schedule_idle:
  assumes "sched_inv (sch_tm s) xs"
    and "\<not> sch_enabled s \<or> xs = [] \<or> hd xs = current_task (sch_tm s) \<or>
      \<not> voluntary \<and> requeues s \<and> is_app (tasks (sch_tm s) (current_task (sch_tm s)))"
  shows "Schedule s voluntary = s"
  using assms(2) GetNext_queue [OF sched_inv_queue [OF assms(1)]]
  by (cases xs) (auto simp: Schedule_def requeues_def Let_def)

subsection \<open>Rings of running and ready tasks\<close>

text \<open>
  \<open>ring_ok s (c # xs)\<close>: the scheduler is enabled, \<open>c\<close> runs and \<open>xs\<close> wait. \<open>run_yields fs\<close>
  lets the running task execute (any change \<open>f\<close> of the registers) and then yield, once for
  each element of \<open>fs\<close>.
\<close>

definition ring_ok :: "Sched \<Rightarrow> u64 list \<Rightarrow> bool" where
  "ring_ok s ring \<longleftrightarrow> ring \<noteq> [] \<and> sch_enabled s \<and> sched_inv (sch_tm s) (tl ring) \<and>
     current_task (sch_tm s) = hd ring \<and> hd ring \<noteq> 0 \<and>
     task_state (tasks (sch_tm s) (hd ring)) = RUNNING"

fun run_yields :: "(TaskContext \<Rightarrow> TaskContext) list \<Rightarrow> Sched \<Rightarrow> Sched" where
  "run_yields [] s = s"
| "run_yields (f # fs) s = run_yields fs (Yield (s\<lparr>sch_cpu := f (sch_cpu s)\<rparr>))"

lemma ring_ok_cpu [simp]: "ring_ok (s\<lparr>sch_cpu := r\<rparr>) ring = ring_ok s ring"
  by (simp add: ring_ok_def)

lemma ring_distinct: "ring_ok s ring \<Longrightarrow> distinct ring"
  using running_not_queued [of "sch_tm s" "tl ring" "hd ring"]
  by (cases ring) (auto simp: ring_ok_def sched_inv_def queue_def)

lemma set_IF_simps [simp]: "set_IF True (set_IF b v) = set_IF True v"
  by (rule bit_word_eqI) (auto simp: set_IF_def bit_set_bit_iff bit_unset_bit_iff)

lemma cli_sti_simps [simp]:
  "sch_tm (cli s) = sch_tm s" "sch_tm (sti s) = sch_tm s" "ring_ok (cli s) ring = ring_ok s ring"
  "ring_ok (sti s) ring = ring_ok s ring" "sch_enabled (cli s) = sch_enabled s"
  by (simp_all add: cli_def sti_def)

lemma Yield_ring:
  assumes ring: "ring_ok s0 (c # x # xs)"
  defines "s \<equiv> cli s0"
  shows "ring_ok (Yield s0) (x # xs @ [c])"
    and "t \<noteq> c \<Longrightarrow> task_context (tasks (sch_tm (Yield s0)) t) = task_context (tasks (sch_tm s0) t)"
    and "task_context (tasks (sch_tm (Yield s0)) c) =
      save_context (sch_cpu (cli s0)) (task_context (tasks (sch_tm s0) c))"
    and "sch_cpu (Yield s0) = sch_cpu (sti (s0\<lparr>sch_cpu := restore_context (sch_cpu (cli s0)) (task_context (tasks (sch_tm s0) x))\<rparr>))"
proof -
  have assms: "ring_ok s (c # x # xs)" using ring by (simp add: s_def)
  have same: "sch_tm s = sch_tm s0" "Yield s0 = sti (Schedule s True)" by (simp_all add: s_def Yield_def)
  have r: "requeues s" "current_task (sch_tm s) = c" "c \<noteq> 0" "c \<noteq> x" "x \<noteq> 0"
    using assms ring_distinct [OF assms]
    by (auto simp: ring_ok_def requeues_def sched_inv_def queue_def)
  have inv: "sched_inv (sch_tm s) (x # xs)" "sch_enabled s"
    using assms by (simp_all add: ring_ok_def)
  note sw = Schedule_switch [OF inv, of True]
  have "ring_ok (Schedule s True) (x # xs @ [c])" using sw r by (simp add: ring_ok_def)
  then show "ring_ok (Yield s0) (x # xs @ [c])" by (simp add: same)
  show "t \<noteq> c \<Longrightarrow> task_context (tasks (sch_tm (Yield s0)) t) = task_context (tasks (sch_tm s0) t)"
    "task_context (tasks (sch_tm (Yield s0)) c) =
      save_context (sch_cpu (cli s0)) (task_context (tasks (sch_tm s0) c))"
    using sw r by (simp_all add: same) (simp add: s_def)
  have "sch_cpu (Schedule s True) = restore_context (sch_cpu (cli s0)) (task_context (tasks (sch_tm s0) x))"
    using sw r by (simp add: same) (simp add: s_def)
  then show "sch_cpu (Yield s0) = sch_cpu (sti (s0\<lparr>sch_cpu := restore_context (sch_cpu (cli s0)) (task_context (tasks (sch_tm s0) x))\<rparr>))"
    by (simp add: same sti_def)
qed

lemma Yield_rotate1: "ring_ok s ring \<Longrightarrow> ring_ok (Yield s) (rotate1 ring)"
proof (cases ring rule: remdups_adj.cases)
  case (2 c)
  assume "ring_ok s ring"
  with 2 show ?thesis
    using Schedule_idle [of "cli s" "[]" True] by (simp add: Yield_def) (simp add: ring_ok_def)
next
  case (3 c x xs)
  assume "ring_ok s ring"
  with 3 show ?thesis using Yield_ring(1) [of s c x xs] by simp
qed (simp add: ring_ok_def)

lemma run_yields_rotate: "ring_ok s ring \<Longrightarrow> ring_ok (run_yields fs s) (rotate (length fs) ring)"
proof (induction fs arbitrary: s ring)
  case (Cons f fs)
  from Cons.prems have "ring_ok (Yield (s\<lparr>sch_cpu := f (sch_cpu s)\<rparr>)) (rotate1 ring)"
    by (intro Yield_rotate1) simp
  from Cons.IH [OF this] show ?case by (simp add: rotate1_rotate_swap)
qed simp

lemma run_yields_resume:
  "ring_ok s (xs @ c # ys) \<Longrightarrow> xs \<noteq> [] \<Longrightarrow> length gs = length xs \<Longrightarrow>
    (\<exists>cpu. sch_cpu (run_yields gs s) =
       (restore_context cpu (task_context (tasks (sch_tm s) c)))\<lparr>ctx_rflags := set_IF True (ctx_rflags (task_context (tasks (sch_tm s) c)))\<rparr>)"
proof (induction gs arbitrary: s xs ys)
  case (Cons g gs)
  define s1 where "s1 = s\<lparr>sch_cpu := g (sch_cpu s)\<rparr>"
  obtain x xs' where xs: "xs = x # xs'" using Cons.prems by (cases xs) auto
  have ok: "ring_ok s1 (x # xs' @ c # ys)" using Cons.prems by (simp add: s1_def xs)
  then have ne: "x \<noteq> c" using ring_distinct by force
  show ?case
  proof (cases xs')
    case Nil
    then show ?thesis
      using ok Yield_ring(4) [of s1 x c ys] Cons.prems xs
      by (auto simp: s1_def [symmetric] sti_def restore_context_def) (auto simp: s1_def)
  next
    case (Cons y zs)
    have "ring_ok (Yield s1) (xs' @ c # (ys @ [x]))"
      and "task_context (tasks (sch_tm (Yield s1)) c) = task_context (tasks (sch_tm s1) c)"
      using ok Yield_ring(1,2) [of s1 x y "zs @ c # ys"] ne Cons by simp_all
    with Cons.IH [of "Yield s1" xs' "ys @ [x]"] Cons.prems xs Cons show ?thesis
      by (simp add: s1_def)
  qed
qed simp

text \<open>Blocking and waking keep the invariant.\<close>

lemma Block_Wake_inv:
  assumes "sched_inv tm xs" "t \<noteq> 0"
  shows "sched_inv (BlockTask tm t) (remove1 t xs)"
    and "task_state (tasks (BlockTask tm t) t) = BLOCKED"
    and "task_state (tasks tm t) = BLOCKED \<Longrightarrow> sched_inv (WakeTask tm t) (xs @ [t])"
proof -
  have q: "queue tm xs" and rd: "\<And>u. u \<in> set xs \<Longrightarrow> task_state (tasks tm u) = READY"
    using assms(1) by (simp_all add: sched_inv_def)
  define tb where "tb = BlockTask tm t"
  have tb: "tb = upd_task (RemoveFromReadyQueue tm t) t (\<lambda>k. k\<lparr>task_state := BLOCKED\<rparr>)"
    using assms(2) by (simp add: tb_def BlockTask_def)
  have stb: "task_state (tasks tb u) = (if u = t then BLOCKED else task_state (tasks tm u))"
    and cb: "current_task tb = current_task tm" for u
    by (simp_all add: tb Remove_frame)
  have qb: "queue tb (remove1 t xs)"
    using tq.rem_remove1 [OF q, of t] queue_cong [of tb "RemoveFromReadyQueue tm t"] by (simp add: tb)
  have "task_state (tasks tb u) = READY" if u: "u \<in> set (remove1 t xs)" for u
  proof -
    have "u \<in> set xs" using u set_remove1_subset by (rule subsetD [rotated])
    moreover have "u \<noteq> t" using u q by (auto simp: queue_def)
    ultimately show ?thesis using rd by (simp add: stb)
  qed
  then show "sched_inv (BlockTask tm t) (remove1 t xs)"
    using qb running_current [OF assms(1)] unfolding tb_def [symmetric] sched_inv_def stb cb
    by (auto split: if_splits)
  show "task_state (tasks (BlockTask tm t) t) = BLOCKED"
    using stb [of t] by (simp add: tb_def)
  show "sched_inv (WakeTask tm t) (xs @ [t])" if b: "task_state (tasks tm t) = BLOCKED"
  proof -
    have nq: "t \<notin> set xs" using rd b by force
    have w: "WakeTask tm t = AddToReadyQueue tm t" using assms(2) b by (simp add: WakeTask_def)
    have "task_state (tasks (AddToReadyQueue tm t) u) =
        (if u = t then READY else task_state (tasks tm u))" for u
      using Add_state [OF q assms(2) nq] by (simp add: Add_frame)
    then show ?thesis
      using Add_queue [OF q assms(2) nq] rd running_current [OF assms(1)]
      unfolding w sched_inv_def by (auto simp: Add_frame)
  qed
qed

section \<open>Properties\<close>

text \<open>
  The doubly linked ready queue implements a list of distinct tasks:
  \<open>GetNextTask\<close> returns its head (null when empty), \<open>AddToReadyQueue\<close> appends a task that
  is not queued and leaves the whole state alone when it is, \<open>RemoveFromReadyQueue\<close> deletes
  the task wherever it stands, and no other field of a block than the links (and, when
  adding, the state) changes.
\<close>

theorem ready_queue_refines_list:
  assumes "queue tm xs" "t \<noteq> 0"
  shows "GetNextTask tm = (case xs of [] \<Rightarrow> 0 | x # _ \<Rightarrow> x) \<and>
    queue (AddToReadyQueue tm t) (if t \<in> set xs then xs else xs @ [t]) \<and>
    (t \<in> set xs \<longrightarrow> AddToReadyQueue tm t = tm) \<and>
    queue (RemoveFromReadyQueue tm t) (remove1 t xs) \<and>
    (\<forall>k < length xs.
      GetNextTask (((\<lambda>tm. RemoveFromReadyQueue tm (GetNextTask tm)) ^^ k) tm) = xs ! k) \<and>
    (\<forall>u v. task_context (tasks (RemoveFromReadyQueue (AddToReadyQueue tm t) u) v) =
      task_context (tasks tm v))"
  using tq.front_rep [OF assms(1)] tq.add_insert [OF assms] tq.add_old [OF assms(1)]
    tq.rem_remove1 [OF assms(1)] tq.drain_nth [OF assms(1)]
  by (simp_all add: Add_frame Remove_frame)

text \<open>
  C28: When the scheduler is enabled, the head of the queue is another task than the current
  one, and the call is voluntary or the current task is not a running application,
  \<open>Schedule\<close> makes one round-robin step: the head becomes the current and only running
  task, a running current task goes to the end of the queue (a blocked one does not), the
  registers are saved in the context of the task left and loaded from that of the task
  entered, and no other context changes.
\<close>

theorem Schedule_round_robin:
  assumes "sched_inv (sch_tm s) (x # xs)" "sch_enabled s" "current_task (sch_tm s) = c" "c \<noteq> x"
    and "voluntary \<or> \<not> requeues s \<or> \<not> is_app (tasks (sch_tm s) c)"
  shows "\<exists>ys. (current_task (sch_tm (Schedule s voluntary)), ys) = round_robin (requeues s) (c, x # xs) \<and>
      sched_inv (sch_tm (Schedule s voluntary)) ys \<and>
      task_state (tasks (sch_tm (Schedule s voluntary)) x) = RUNNING \<and>
      sch_cpu (Schedule s voluntary) = restore_context (sch_cpu s) (task_context (tasks (sch_tm s) x)) \<and>
      (\<forall>t. task_context (tasks (sch_tm (Schedule s voluntary)) t) =
        (if t = c \<and> c \<noteq> 0 then save_context (sch_cpu s) (task_context (tasks (sch_tm s) c))
         else task_context (tasks (sch_tm s) t)))"
  using Schedule_switch [OF assms(1,2), of voluntary] assms(3-) by (cases "requeues s") simp_all

text \<open>
  C30: Fairness. From a state in which \<open>ring ! 0\<close> runs and the rest of \<open>ring\<close> waits, after
  \<open>n\<close> executions that each end in \<open>Yield\<close> the running task is \<open>ring ! (n mod length ring)\<close>
  and the others wait in the rotated order: every ready task gets the processor within
  \<open>length ring\<close> yields, whatever the tasks do to the registers.
\<close>

theorem Yield_fair:
  assumes "ring_ok s ring"
  shows "current_task (sch_tm (run_yields fs s)) = ring ! (length fs mod length ring) \<and>
    queue (sch_tm (run_yields fs s)) (tl (rotate (length fs) ring)) \<and>
    (\<forall>t \<in> set ring. \<exists>n < length ring. \<forall>fs. length fs = n \<longrightarrow>
        current_task (sch_tm (run_yields fs s)) = t)"
proof (intro conjI ballI)
  have ne: "ring \<noteq> []" using assms by (simp add: ring_ok_def)
  note ok = run_yields_rotate [OF assms]
  show cur: "current_task (sch_tm (run_yields fs s)) = ring ! (length fs mod length ring)" for fs
    using ok [of fs] ne by (simp add: ring_ok_def hd_rotate_conv_nth)
  show "queue (sch_tm (run_yields fs s)) (tl (rotate (length fs) ring))"
    using ok [of fs] by (simp add: ring_ok_def sched_inv_def)
  show "\<exists>n < length ring. \<forall>fs. length fs = n \<longrightarrow>
      current_task (sch_tm (run_yields fs s)) = t" if "t \<in> set ring" for t
    using that by (auto simp: in_set_conv_nth cur)
qed

text \<open>
  C32: Isolation of the registers. When the running task executes (\<open>f\<close>), yields, and every
  other task of the ring then executes and yields once, the first task runs again with
  exactly the general registers and the page table it had when it yielded, and with its flags
  except that interrupts are enabled, whether they were or not.
\<close>

theorem Yield_restores_registers:
  assumes "ring_ok s (c # xs)" "length gs = length xs"
    and "r = f (sch_cpu s)" "s' = run_yields (f # gs) s"
  shows "current_task (sch_tm s') = c \<and> ctx_gpr (sch_cpu s') = ctx_gpr r \<and>
    ctx_rflags (sch_cpu s') = Bit_Operations.set_bit 9 (ctx_rflags r) \<and> ctx_cr3 (sch_cpu s') = ctx_cr3 r"
proof (intro conjI)
  define s1 where "s1 = s\<lparr>sch_cpu := r\<rparr>"
  have ok: "ring_ok s1 (c # xs)" using assms(1) by (simp add: s1_def)
  have s': "s' = run_yields gs (Yield s1)" by (simp add: assms(3,4) s1_def)
  have "ring_ok s' (rotate (length (f # gs)) (c # xs))"
    unfolding assms(4) by (rule run_yields_rotate [OF assms(1)])
  moreover have "rotate (length (f # gs)) (c # xs) = c # xs"
    using assms(2) rotate_id [of "Suc (length xs)" "c # xs"] by simp
  ultimately show "current_task (sch_tm s') = c"
    by (simp add: ring_ok_def)
  define r0 where "r0 = sch_cpu (cli s1)"
  have r0: "ctx_gpr r0 = ctx_gpr r" "ctx_cr3 r0 = ctx_cr3 r" "set_IF True (ctx_rflags r0) = set_IF True (ctx_rflags r)"
    by (simp_all add: r0_def cli_def s1_def)
  have "\<exists>cpu ctx. sch_cpu s' = (restore_context cpu (save_context r0 ctx))\<lparr>ctx_rflags := set_IF True (ctx_rflags r0)\<rparr>"
  proof (cases xs)
    case Nil
    then have "Yield s1 = sti (cli s1)"
      using Schedule_idle [of "cli s1" "[]" True] ok by (simp add: Yield_def) (simp add: ring_ok_def)
    then have "sch_cpu s' = (restore_context r0 (save_context r0 r0))\<lparr>ctx_rflags := set_IF True (ctx_rflags r0)\<rparr>"
      using Nil assms(2) by (simp add: s' sti_def r0_def save_context_def restore_context_def)
    then show ?thesis by blast
  next
    case (Cons x ys)
    then have "ring_ok (Yield s1) (xs @ c # [])"
      "task_context (tasks (sch_tm (Yield s1)) c) =
        save_context r0 (task_context (tasks (sch_tm s1) c))"
      using ok Yield_ring(1,3) [of s1 c x ys] by (simp_all add: r0_def)
    with run_yields_resume [of "Yield s1" xs c "[]" gs] Cons assms(2) show ?thesis
      by (auto simp: s' save_context_def)
  qed
  then show "ctx_gpr (sch_cpu s') = ctx_gpr r" "ctx_rflags (sch_cpu s') = Bit_Operations.set_bit 9 (ctx_rflags r)"
    "ctx_cr3 (sch_cpu s') = ctx_cr3 r"
    using r0 by (auto simp: restore_context_def save_context_def) (simp add: set_IF_def)
qed

text \<open>
  A task that blocks leaves the queue and is not chosen again until it is woken; waking
  it appends it. Both keep the scheduler's invariant. Waking a task that is not blocked does
  nothing.
\<close>

theorem Block_Wake:
  assumes "sched_inv tm xs" "t \<noteq> 0"
  shows "sched_inv (BlockTask tm t) (remove1 t xs) \<and>
    task_state (tasks (BlockTask tm t) t) = BLOCKED \<and>
    (task_state (tasks tm t) = BLOCKED \<longrightarrow> sched_inv (WakeTask tm t) (xs @ [t])) \<and>
    (task_state (tasks tm t) \<noteq> BLOCKED \<longrightarrow> WakeTask tm t = tm)"
  using Block_Wake_inv [OF assms] by (simp add: WakeTask_def)

text \<open>
  A wake-up that comes between \<open>BlockTask\<close> of the current task and the switch away from
  it stops all scheduling: the current task becomes the head of the queue, every
  \<open>Schedule\<close> call, voluntary or not, returns at the test \<open>current == next\<close>, and a task
  \<open>b\<close> queued behind it never runs.
\<close>

theorem woken_current_starves:
  assumes "ring_ok s [c]" "b \<noteq> 0" "b \<noteq> c" "task_state (tasks (sch_tm s) b) \<noteq> RUNNING"
    and "s' = s\<lparr>sch_tm := AddToReadyQueue (WakeTask (BlockTask (sch_tm s) c) c) b\<rparr>"
  shows "queue (sch_tm s') [c, b] \<and> (\<forall>vs. foldl Schedule s' vs = s')"
proof
  have inv: "sched_inv (sch_tm s) []" and c: "c \<noteq> 0" "current_task (sch_tm s) = c"
    and en: "sch_enabled s"
    using assms(1) by (simp_all add: ring_ok_def)
  define tw where "tw = WakeTask (BlockTask (sch_tm s) c) c"
  note blk = Block_Wake_inv [OF inv c(1)]
  have "sched_inv tw [c]"
    using Block_Wake_inv(3) [OF blk(1) c(1) blk(2)] by (simp add: tw_def)
  then have q: "queue tw [c]" by (simp add: sched_inv_def)
  then show q': "queue (sch_tm s') [c, b]"
    using Add_queue [OF q assms(2)] assms(3,5) by (simp add: tw_def)
  have "current_task (sch_tm s') = c"
    using c assms(5) by (simp add: Add_frame Remove_frame BlockTask_def WakeTask_def)
  then have "Schedule s' v = s'" for v
    using GetNext_queue [OF q'] by (simp add: Schedule_def)
  then show "\<forall>vs. foldl Schedule s' vs = s'"
    by (intro allI) (induct_tac vs, simp_all)
qed

section \<open>A concrete run\<close>

definition idle_task :: Task where
  "idle_task = \<lparr>task_id = 0, task_state = TERMINATED, task_context = \<lparr>ctx_gpr = (\<lambda>_. 0), ctx_cs = 8,
     ctx_ss = 16, ctx_ds = 0, ctx_es = 0, ctx_fs = 0, ctx_gs = 0, ctx_rip = 0, ctx_rflags = 0x202,
     ctx_cr3 = 0\<rparr>, kernel_stack = 0, kernel_stack_size = 0, task_next = 0, task_prev = 0,
     task_name = [], entry_point = 0, task_argc = 0, argv_ptr = 0, argv_strs = [], is_app = False,
     user_stack = 0, user_stack_size = 0, user_stack_top = 0, process_fds = [], parent_task_id = 0\<rparr>"

definition sample_tm :: TaskManager where
  "sample_tm = \<lparr>tasks = (\<lambda>_. idle_task)(0x1000 := idle_task\<lparr>task_state := RUNNING, is_app := True\<rparr>),
     current_task = 0x1000, ready_queue_head = 0, ready_queue_tail = 0, next_task_id = 3,
     task_count = 3\<rparr>"

definition sample_sched :: Sched where
  "sample_sched = \<lparr>sch_tm = AddToReadyQueue (AddToReadyQueue sample_tm 0x2000) 0x3000,
     sch_enabled = True, schedule_count = 0, sch_cpu = task_context idle_task,
     dummy_context = task_context idle_task\<rparr>"

lemma sample_inv: "sched_inv sample_tm []" "sched_inv (AddToReadyQueue sample_tm 0x2000) [0x2000]"
  "sched_inv (sch_tm sample_sched) [0x2000, 0x3000]"
proof -
  have q: "queue sample_tm []" by (simp add: queue_def sample_tm_def idle_task_def)
  then show "sched_inv sample_tm []"
    by (simp add: sched_inv_def sample_tm_def idle_task_def)
  have q1: "queue (AddToReadyQueue sample_tm 0x2000) [0x2000]"
    using Add_queue [OF q, of "0x2000"] by simp
  have s1: "task_state (tasks (AddToReadyQueue sample_tm 0x2000) t) =
      (if t = 0x2000 then READY else task_state (tasks sample_tm t))" for t
    using Add_state [OF q, of "0x2000"] by (simp add: Add_frame)
  have base: "task_state (tasks sample_tm t) = RUNNING \<Longrightarrow> t = 0x1000" "current_task sample_tm = 0x1000" for t
    by (auto simp: sample_tm_def idle_task_def split: if_splits)
  show "sched_inv (AddToReadyQueue sample_tm 0x2000) [0x2000]"
    using q1 base by (auto simp: sched_inv_def s1 Add_frame split: if_splits)
  have q2: "queue (sch_tm sample_sched) [0x2000, 0x3000]"
    using Add_queue [OF q1, of "0x3000"] by (simp add: sample_sched_def)
  have "task_state (tasks (sch_tm sample_sched) t) =
      (if t = 0x3000 \<or> t = 0x2000 then READY else task_state (tasks sample_tm t))" for t
    using Add_state [OF q1, of "0x3000"] by (simp add: Add_frame sample_sched_def s1)
  moreover have "current_task (sch_tm sample_sched) = 0x1000"
    by (simp add: sample_sched_def Add_frame base)
  ultimately show "sched_inv (sch_tm sample_sched) [0x2000, 0x3000]"
    using q2 base(1) by (auto simp: sched_inv_def split: if_splits)
qed

lemma sample_fields: "current_task (sch_tm sample_sched) = 0x1000"
  "task_state (tasks (sch_tm sample_sched) 0x1000) = RUNNING"
  "is_app (tasks (sch_tm sample_sched) 0x1000)" "sch_enabled sample_sched"
  by (simp_all add: sample_sched_def Add_frame) (simp_all add: sample_tm_def)

lemma sample_ring: "ring_ok sample_sched [0x1000, 0x2000, 0x3000]"
  using sample_inv(3) sample_fields by (simp add: ring_ok_def)

lemma sample_alone: "ring_ok (sample_sched\<lparr>sch_tm := sample_tm\<rparr>) [0x1000]"
  using sample_inv(1) sample_fields(4) by (simp add: ring_ok_def) (simp add: sample_tm_def)

theorem ready_queue_refines_list_witness:
  "GetNextTask (sch_tm sample_sched) = 0x2000 \<and>
   queue (RemoveFromReadyQueue (sch_tm sample_sched) 0x2000) [0x3000] \<and>
   AddToReadyQueue (sch_tm sample_sched) 0x2000 = sch_tm sample_sched"
  using ready_queue_refines_list [OF sched_inv_queue [OF sample_inv(3)], of "0x2000"] by simp

theorem Schedule_round_robin_witness:
  "current_task (sch_tm (Schedule sample_sched True)) = 0x2000 \<and>
   sched_inv (sch_tm (Schedule sample_sched True)) [0x3000, 0x1000]"
  using Schedule_round_robin [OF sample_inv(3) sample_fields(4,1), of True] sample_fields
  by (simp add: requeues_def)

theorem Yield_fair_witness:
  "current_task (sch_tm (run_yields [id, id, id, id] sample_sched)) = 0x2000"
  using Yield_fair [OF sample_ring, of "[id, id, id, id]"] by simp

theorem Yield_restores_registers_witness:
  "ctx_cr3 (sch_cpu (run_yields [\<lambda>c. c\<lparr>ctx_cr3 := 7, ctx_rflags := 2\<rparr>, ctx_cr3_update (\<lambda>_. 8), id] sample_sched)) = 7 \<and>
   ctx_rflags (sch_cpu (run_yields [\<lambda>c. c\<lparr>ctx_cr3 := 7, ctx_rflags := 2\<rparr>, ctx_cr3_update (\<lambda>_. 8), id] sample_sched)) = 0x202"
proof -
  have "Bit_Operations.set_bit 9 (2 :: u64) = 0x202" by (simp add: set_bit_eq_or)
  then show ?thesis
    using Yield_restores_registers [OF sample_ring _ refl refl,
      of "[ctx_cr3_update (\<lambda>_. 8), id]" "\<lambda>c. c\<lparr>ctx_cr3 := 7, ctx_rflags := 2\<rparr>"] by simp
qed

theorem Block_Wake_witness:
  "sched_inv (BlockTask (sch_tm sample_sched) 0x2000) [0x3000] \<and>
   WakeTask (sch_tm sample_sched) 0x1000 = sch_tm sample_sched"
  using Block_Wake [OF sample_inv(3), of "0x2000"] Block_Wake [OF sample_inv(3), of "0x1000"]
    sample_fields by simp

theorem woken_current_starves_witness:
  "\<exists>s'. queue (sch_tm s') [0x1000, 0x2000] \<and> foldl Schedule s' [True, False, True] = s'"
proof -
  have "task_state (tasks (sch_tm (sample_sched\<lparr>sch_tm := sample_tm\<rparr>)) 0x2000) \<noteq> RUNNING"
    by (simp add: sample_tm_def idle_task_def)
  from woken_current_starves [OF sample_alone _ _ this refl] show ?thesis by fastforce
qed

end
