(* ===== verification/BlockDev.thy ===== *)
theory BlockDev
  imports Prelude
begin

text \<open>
  The abstract class \<open>BlockDevice\<close> of \<open>kernel/block_device.hpp\<close>: its virtual methods are
  the fields of a record (the object's method table), over a state type that each driver
  chooses. A read is given the contents of the destination buffer, since a failing read may
  leave them as they are. The locales state what the file system relies on: inside the
  medium a read delivers the sectors and a write replaces them, for transfers of at most
  255 sectors (a cluster size is a byte in the boot sector).
\<close>

record 'd BlockDevice =
  bd_Read :: "'d \<Rightarrow> u64 \<Rightarrow> bytes \<Rightarrow> u32 \<Rightarrow> bool \<times> bytes \<times> 'd"
  bd_Write :: "'d \<Rightarrow> u64 \<Rightarrow> bytes \<Rightarrow> u32 \<Rightarrow> bool \<times> 'd"
  bd_GetBlockSize :: "'d \<Rightarrow> u32"

type_synonym medium = "nat \<Rightarrow> bytes"

text \<open>The sectors \<open>a, \<dots>, a + n - 1\<close> of a medium, and their replacement.\<close>

definition sectors :: "medium \<Rightarrow> nat \<Rightarrow> nat \<Rightarrow> bytes" where
  "sectors m a n = concat (map (\<lambda>i. m (a + i)) [0..<n])"

definition set_sectors :: "medium \<Rightarrow> nat \<Rightarrow> nat \<Rightarrow> bytes \<Rightarrow> medium" where
  "set_sectors m a n bs = (\<lambda>l. if a \<le> l \<and> l < a + n then buf_get ((l - a) * 512) 512 bs else m l)"

definition medium_ok :: "medium \<Rightarrow> bool" where
  "medium_ok m \<longleftrightarrow> (\<forall>l. length (m l) = 512)"

lemma length_sectors [simp]: "medium_ok m \<Longrightarrow> length (sectors m a n) = n * 512"
  by (simp add: sectors_def medium_ok_def length_concat_chunks [where k = 512])

lemma sectors_1 [simp]: "sectors m a (Suc 0) = m a" "sectors m a 1 = m a"
  by (simp_all add: sectors_def)

lemma set_sectors_1:
  "length bs = 512 \<Longrightarrow> set_sectors m a 1 bs = m(a := bs)"
  "length bs = 512 \<Longrightarrow> set_sectors m a (Suc 0) bs = m(a := bs)"
  by (auto simp: set_sectors_def buf_get_def fun_eq_iff)

lemma medium_ok_set_sectors [simp]:
  "medium_ok m \<Longrightarrow> length bs = n * 512 \<Longrightarrow> medium_ok (set_sectors m a n bs)"
  unfolding medium_ok_def set_sectors_def
proof (intro allI)
  fix l assume m: "\<forall>l. length (m l) = 512" and bs: "length bs = n * 512"
  show "length (if a \<le> l \<and> l < a + n then buf_get ((l - a) * 512) 512 bs else m l) = 512"
  proof (cases "a \<le> l \<and> l < a + n")
    case True
    then have "(l - a) * 512 + 512 \<le> n * 512"
      by (metis add.commute add_less_cancel_left le_add_diff_inverse less_eq_Suc_le mult_Suc mult_le_mono1)
    with True bs show ?thesis by (simp add: length_buf_get)
  qed (use m in auto)
qed

lemma medium_ok_upd [simp]: "medium_ok m \<Longrightarrow> length bs = 512 \<Longrightarrow> medium_ok (m(a := bs))"
  by (simp add: medium_ok_def)

lemma sectors_set_same [simp]:
  assumes "length bs = n * 512" shows "sectors (set_sectors m a n bs) a n = bs"
proof -
  have "sectors (set_sectors m a n bs) a n = concat (map (\<lambda>i. buf_get (i * 512) 512 bs) [0..<n])"
    unfolding sectors_def set_sectors_def by (intro arg_cong [where f = concat] map_cong) auto
  then show ?thesis using concat_buf_gets [of bs n 512] assms by simp
qed

lemma set_sectors_other: "\<not> (a \<le> l \<and> l < a + n) \<Longrightarrow> set_sectors m a n bs l = m l"
  by (auto simp: set_sectors_def)

lemma sectors_cong: "(\<And>l. a \<le> l \<Longrightarrow> l < a + n \<Longrightarrow> m l = m' l) \<Longrightarrow> sectors m a n = sectors m' a n"
  unfolding sectors_def by (intro arg_cong [where f = concat] map_cong) auto

lemma sector_of_sectors:
  assumes "medium_ok m" "i < n"
  shows "buf_get (i * 512) 512 (sectors m a n) = m (a + i)"
  unfolding sectors_def using assms by (intro buf_get_concat_chunks) (auto simp: medium_ok_def)

section \<open>What a client relies on\<close>

locale block_reader =
  fixes ops :: "'d BlockDevice"
    and dinv :: "'d \<Rightarrow> bool"
    and media :: "'d \<Rightarrow> medium"
    and nsec :: nat
  assumes media_ok: "dinv d \<Longrightarrow> medium_ok (media d)"
    and read_ok: "dinv d \<Longrightarrow> 0 < n \<Longrightarrow> unat n \<le> 255 \<Longrightarrow> unat lba + unat n \<le> nsec \<Longrightarrow>
      length buf = unat n * 512 \<Longrightarrow>
      \<exists>d'. bd_Read ops d lba buf n = (True, sectors (media d) (unat lba) (unat n), d') \<and>
        dinv d' \<and> media d' = media d"

locale block_device = block_reader +
  assumes write_ok: "dinv d \<Longrightarrow> 0 < n \<Longrightarrow> unat n \<le> 255 \<Longrightarrow> unat lba + unat n \<le> nsec \<Longrightarrow>
      length buf = unat n * 512 \<Longrightarrow>
      \<exists>d'. bd_Write ops d lba buf n = (True, d') \<and> dinv d' \<and>
        media d' = set_sectors (media d) (unat lba) (unat n) buf"
begin

text \<open>Writing sectors and reading them back.\<close>

lemma write_read:
  assumes "dinv d" "0 < n" "unat n \<le> 255" "unat lba + unat n \<le> nsec" "length buf = unat n * 512"
    and "length buf' = unat n * 512"
  shows "\<exists>d' d''. bd_Write ops d lba buf n = (True, d') \<and> bd_Read ops d' lba buf' n = (True, buf, d'')"
  using write_ok [OF assms(1-5)] read_ok [OF _ assms(2-4,6)] assms(5)
  by (metis sectors_set_same)

end

end
