(* ===== verification/FatNames.thy ===== *)
theory FatNames
  imports Prelude
begin

text \<open>
  File names of the FAT32 driver (\<open>kernel/fs/fat32/fat32_driver.cpp\<close>): the comparison of a
  directory entry with a name typed by the user (\<open>IsNameEqual\<close>) and the conversion of such a
  name to the 11 bytes of an entry (\<open>To83Format\<close>). A \<open>const char *\<close> is the list of the bytes
  from the pointer on; a string ends at its first 0 byte or at the end of the list.
\<close>

section \<open>Characters\<close>

definition chr :: "char \<Rightarrow> u8" where
  "chr c = of_char c"

definition str :: "string \<Rightarrow> bytes" where
  "str s = map chr s"

definition cstr :: "bytes \<Rightarrow> bytes" where
  "cstr s = takeWhile (\<lambda>c. c \<noteq> 0) s"

abbreviation SPC :: u8 where "SPC \<equiv> 0x20"
abbreviation DOT :: u8 where "DOT \<equiv> 0x2E"
abbreviation SLASH :: u8 where "SLASH \<equiv> 0x2F"

definition upcase :: "u8 \<Rightarrow> u8" where
  "upcase c = (if 0x61 \<le> c \<and> c \<le> 0x7A then c - 32 else c)"

section \<open>IsNameEqual\<close>

text \<open>
  The two copy loops of the comparison: characters are consumed up to the terminator (or,
  for the base name, the dot) and stored, in upper case, as long as the index is below
  the limit.
\<close>

fun conv_loop :: "bool \<Rightarrow> nat \<Rightarrow> bytes \<Rightarrow> nat \<Rightarrow> bytes \<Rightarrow> bytes \<times> bytes" where
  "conv_loop stop lim [] j converted = ([], converted)"
| "conv_loop stop lim (c # cs) j converted =
     (if c = 0 \<or> stop \<and> c = DOT then (c # cs, converted)
      else if j < lim then conv_loop stop lim cs (j + 1) (converted[j := upcase c])
      else conv_loop stop lim cs j converted)"

definition convert_name :: "bytes \<Rightarrow> bytes" where
  "convert_name target =
     (let converted = replicate 11 SPC;
          len = length (cstr target)
      in if len = 11 \<and> DOT \<notin> set (take 11 target)
         then map upcase (take 11 target)
         else
           let (rest, conv1) = conv_loop True 8 target 0 converted
           in case rest of
                [] \<Rightarrow> conv1
              | c # cs \<Rightarrow> (if c = DOT then snd (conv_loop False 11 cs 8 conv1) else conv1))"

definition IsNameEqual :: "bytes \<Rightarrow> bytes \<Rightarrow> bool" where
  "IsNameEqual entry_name target \<longleftrightarrow> take 11 entry_name = convert_name target"

section \<open>To83Format\<close>

fun to83_base :: "bytes \<Rightarrow> nat \<Rightarrow> bytes \<Rightarrow> bytes \<times> bytes" where
  "to83_base [] j dst = ([], dst)"
| "to83_base (c # cs) j dst =
     (if c \<noteq> 0 \<and> c \<noteq> DOT \<and> j < 8 then to83_base cs (j + 1) (dst[j := upcase c]) else (c # cs, dst))"

fun to83_skip :: "bytes \<Rightarrow> bytes" where
  "to83_skip [] = []"
| "to83_skip (c # cs) = (if c \<noteq> 0 \<and> c \<noteq> DOT then to83_skip cs else c # cs)"

fun to83_ext :: "bytes \<Rightarrow> nat \<Rightarrow> bytes \<Rightarrow> bytes" where
  "to83_ext [] j dst = dst"
| "to83_ext (c # cs) j dst =
     (if c \<noteq> 0 \<and> j < 11 then to83_ext cs (j + 1) (dst[j := upcase c]) else dst)"

definition To83Format :: "bytes \<Rightarrow> bytes" where
  "To83Format src =
     (let (rest, dst) = to83_base src 0 (replicate 11 SPC)
      in case to83_skip rest of
           [] \<Rightarrow> dst
         | c # cs \<Rightarrow> (if c = DOT then to83_ext cs 8 dst else dst))"

section \<open>What the loops compute\<close>

abbreviation base_char :: "u8 \<Rightarrow> bool" where
  "base_char c \<equiv> c \<noteq> 0 \<and> c \<noteq> DOT"

lemma buf_put_Nil [simp]: "buf_put j [] conv = conv"
  by (simp add: buf_put_def)

lemma buf_put_Cons:
  "j < length conv \<Longrightarrow> buf_put (Suc j) xs (conv[j := u]) = buf_put j (u # xs) conv"
  by (simp add: buf_put_def take_Suc_conv_app_nth)

lemma conv_loop_rest:
  "fst (conv_loop stop lim cs j conv) = dropWhile (\<lambda>c. \<not> (c = 0 \<or> stop \<and> c = DOT)) cs"
  by (induction stop lim cs j conv rule: conv_loop.induct) auto

lemma conv_loop_full: "lim \<le> j \<Longrightarrow> snd (conv_loop stop lim cs j conv) = conv"
  by (induction stop lim cs j conv rule: conv_loop.induct) auto

lemma conv_loop_conv:
  "j \<le> lim \<Longrightarrow> lim \<le> length conv \<Longrightarrow> snd (conv_loop stop lim cs j conv) =
    buf_put j (map upcase (take (lim - j) (takeWhile (\<lambda>c. \<not> (c = 0 \<or> stop \<and> c = DOT)) cs))) conv"
proof (induction stop lim cs j conv rule: conv_loop.induct)
  case (2 stop lim c cs j conv)
  show ?case
  proof (cases "\<not> (c = 0 \<or> stop \<and> c = DOT) \<and> j < lim")
    case True
    then have "lim - j = Suc (lim - (j + 1))" by linarith
    then show ?thesis using 2 True by (auto simp: buf_put_Cons simp del: take_Suc)
  qed (use 2 in \<open>auto simp: conv_loop_full\<close>)
qed simp

lemma to83_skip_eq: "to83_skip cs = dropWhile base_char cs"
  by (induction cs) auto

lemma to83_base_skip: "dropWhile base_char (fst (to83_base cs j dst)) = dropWhile base_char cs"
  by (induction cs j dst rule: to83_base.induct) auto

lemma to83_base_dst:
  "j \<le> 8 \<Longrightarrow> 8 \<le> length dst \<Longrightarrow>
    snd (to83_base cs j dst) = buf_put j (map upcase (take (8 - j) (takeWhile base_char cs))) dst"
proof (induction cs j dst rule: to83_base.induct)
  case (2 c cs j dst)
  show ?case
  proof (cases "c \<noteq> 0 \<and> c \<noteq> DOT \<and> j < 8")
    case True
    then have "8 - j = Suc (8 - (j + 1))" by linarith
    then show ?thesis using 2 True by (simp add: buf_put_Cons del: take_Suc)
  qed (use 2 in auto)
qed simp

lemma to83_ext_dst:
  "j \<le> 11 \<Longrightarrow> 11 \<le> length dst \<Longrightarrow>
    to83_ext cs j dst = buf_put j (map upcase (take (11 - j) (takeWhile (\<lambda>c. c \<noteq> 0) cs))) dst"
proof (induction cs j dst rule: to83_ext.induct)
  case (2 c cs j dst)
  show ?case
  proof (cases "c \<noteq> 0 \<and> j < 11")
    case True
    then have "11 - j = Suc (11 - (j + 1))" by linarith
    then show ?thesis using 2 True by (simp add: buf_put_Cons del: take_Suc)
  qed (use 2 in auto)
qed simp

text \<open>Base name and extension of a dotted name, and the 11 bytes both routines build from them.\<close>

definition base_part :: "bytes \<Rightarrow> bytes" where
  "base_part n = takeWhile base_char n"

definition ext_part :: "bytes \<Rightarrow> bytes" where
  "ext_part n = (case dropWhile base_char n of [] \<Rightarrow> [] | c # cs \<Rightarrow> (if c = DOT then cstr cs else []))"

definition pad83 :: "bytes \<Rightarrow> bytes \<Rightarrow> bytes" where
  "pad83 b e = buf_put 8 (map upcase (take 3 e)) (buf_put 0 (map upcase (take 8 b)) (replicate 11 SPC))"

lemma length_pad83: "length (pad83 b e) = 11"
  by (simp add: pad83_def length_buf_put)

lemma To83Format_eq: "To83Format n = pad83 (base_part n) (ext_part n)"
proof -
  have dst: "snd (to83_base n 0 (replicate 11 SPC)) =
      buf_put 0 (map upcase (take 8 (base_part n))) (replicate 11 SPC)"
    by (simp add: to83_base_dst base_part_def)
  have skip: "to83_skip (fst (to83_base n 0 (replicate 11 SPC))) = dropWhile base_char n"
    by (simp add: to83_skip_eq to83_base_skip)
  show ?thesis
    by (cases "dropWhile base_char n")
      (simp_all add: To83Format_def case_prod_beta skip dst pad83_def ext_part_def
        to83_ext_dst length_buf_put cstr_def del: dropWhile_eq_Nil_conv)
qed

definition is_raw83 :: "bytes \<Rightarrow> bool" where
  "is_raw83 n \<longleftrightarrow> length (cstr n) = 11 \<and> DOT \<notin> set (cstr n)"

lemma take_cstr: "length (cstr n) = k \<Longrightarrow> take k n = cstr n"
  unfolding cstr_def by (metis takeWhile_eq_take)

lemma convert_name_raw: "is_raw83 n \<Longrightarrow> convert_name n = map upcase (cstr n)"
  using take_cstr [of n 11] by (simp add: convert_name_def is_raw83_def)

lemma convert_name_dotted:
  assumes "\<not> is_raw83 n" shows "convert_name n = pad83 (base_part n) (ext_part n)"
proof -
  have raw: "\<not> (length (cstr n) = 11 \<and> DOT \<notin> set (take 11 n))"
    using assms take_cstr [of n 11] by (auto simp: is_raw83_def)
  have rest: "fst (conv_loop True 8 n 0 (replicate 11 SPC)) = dropWhile base_char n"
    by (simp add: conv_loop_rest)
  have conv: "snd (conv_loop True 8 n 0 (replicate 11 SPC)) =
      buf_put 0 (map upcase (take 8 (base_part n))) (replicate 11 SPC)"
    by (simp add: conv_loop_conv base_part_def)
  have "convert_name n = (case dropWhile base_char n of [] \<Rightarrow> snd (conv_loop True 8 n 0 (replicate 11 SPC))
      | c # cs \<Rightarrow> if c = DOT then snd (conv_loop False 11 cs 8 (snd (conv_loop True 8 n 0 (replicate 11 SPC))))
                else snd (conv_loop True 8 n 0 (replicate 11 SPC)))"
    using raw unfolding convert_name_def Let_def case_prod_beta rest by (simp only: if_False)
  then show ?thesis
    by (cases "dropWhile base_char n")
      (simp_all add: conv pad83_def ext_part_def conv_loop_conv length_buf_put cstr_def
        del: dropWhile_eq_Nil_conv)
qed

lemma length_convert_name: "length (convert_name n) = 11"
  by (cases "is_raw83 n") (simp_all add: convert_name_raw convert_name_dotted length_pad83 is_raw83_def)

lemma no_dot_parts:
  "DOT \<notin> set (cstr n) \<Longrightarrow> base_part n = cstr n" "DOT \<notin> set (cstr n) \<Longrightarrow> ext_part n = []"
proof -
  have "takeWhile base_char n = cstr n \<and> dropWhile base_char n = dropWhile (\<lambda>c. c \<noteq> 0) n"
    if "DOT \<notin> set (cstr n)"
    using that by (induction n) (auto simp: cstr_def split: if_splits)
  moreover have "dropWhile (\<lambda>c. c \<noteq> 0) n \<noteq> DOT # cs" for cs
    using hd_dropWhile [of "\<lambda>c. c \<noteq> 0" n] by fastforce
  ultimately show "DOT \<notin> set (cstr n) \<Longrightarrow> base_part n = cstr n" "DOT \<notin> set (cstr n) \<Longrightarrow> ext_part n = []"
    by (simp_all add: base_part_def ext_part_def split: list.split)
qed

lemma upcase_eq_SPC: "upcase c = SPC \<longleftrightarrow> c = SPC"
proof -
  have "c = 0x40" if "c - 32 = SPC" using that by (simp add: diff_eq_eq)
  then show ?thesis by (auto simp: upcase_def)
qed

lemma upcase_eq_DOT: "upcase c = DOT \<longleftrightarrow> c = DOT"
proof -
  have "c = 0x4E" if "c - 32 = DOT" using that by (simp add: diff_eq_eq)
  then show ?thesis by (auto simp: upcase_def)
qed

lemma convert_name_first: "convert_name n ! 0 \<noteq> DOT"
proof (cases "is_raw83 n")
  case True
  then have "cstr n \<noteq> []" "DOT \<notin> set (cstr n)" by (auto simp: is_raw83_def)
  then show ?thesis using True by (cases "cstr n") (auto simp: convert_name_raw upcase_eq_DOT)
next
  case False
  have "base_part n ! 0 \<noteq> DOT" if "base_part n \<noteq> []"
    using that set_takeWhileD [of "base_part n ! 0" base_char n] by (simp add: base_part_def)
  then have "(buf_put 0 (map upcase (take 8 (base_part n))) (replicate 11 SPC)) ! 0 \<noteq> DOT"
    by (cases "base_part n") (auto simp: nth_buf_put upcase_eq_DOT)
  then show ?thesis
    using False by (simp add: convert_name_dotted pad83_def nth_buf_put length_buf_put)
qed

section \<open>Properties\<close>

text \<open>
  The two conversions agree: a directory entry whose name \<open>To83Format\<close> built from a
  user's name is found again under that name, and under no name with another 8.3 form,
  unless the name has exactly 11 characters and no dot (which \<open>IsNameEqual\<close> takes to be in
  8.3 form already).
\<close>

theorem name83_agree:
  assumes "\<not> (length (cstr n) = 11 \<and> DOT \<notin> set (cstr n))"
  shows "IsNameEqual e n \<longleftrightarrow> take 11 e = To83Format n"
  using assms convert_name_dotted [of n] by (simp add: IsNameEqual_def is_raw83_def To83Format_eq)

theorem name83_agree_witness:
  "IsNameEqual (str ''KERNEL  ELF'') (str ''kernel.elf'') \<longleftrightarrow>
    take 11 (str ''KERNEL  ELF'') = To83Format (str ''kernel.elf'')"
  by (rule name83_agree) (simp add: cstr_def str_def chr_def of_char_def)

text \<open>
  A name of 11 characters without a dot is not found again after it was converted:
  \<open>To83Format\<close> keeps 8 of its characters and fills the extension with spaces,
  \<open>IsNameEqual\<close> compares all 11. So \<open>EnsureDirectory\<close>, which looks a segment up with one
  and creates it with the other, creates a new directory at every call.
\<close>

theorem name83_disagree:
  assumes "length (cstr n) = 11" "DOT \<notin> set (cstr n)" "drop 8 (cstr n) \<noteq> [SPC, SPC, SPC]"
  shows "\<not> IsNameEqual (To83Format n) n"
proof
  have raw: "is_raw83 n" using assms by (simp add: is_raw83_def)
  assume "IsNameEqual (To83Format n) n"
  then have "pad83 (cstr n) [] = map upcase (cstr n)"
    using no_dot_parts [OF assms(2)] length_pad83
    by (simp add: IsNameEqual_def To83Format_eq convert_name_raw [OF raw])
  then have "drop 8 (pad83 (cstr n) []) = map upcase (drop 8 (cstr n))"
    by (simp add: drop_map)
  moreover have "drop 8 (pad83 (cstr n) []) = [SPC, SPC, SPC]"
    using assms(1) by (simp add: pad83_def buf_put_def numeral_eq_Suc)
  ultimately have "map upcase (drop 8 (cstr n)) = map id [SPC, SPC, SPC]" by simp
  then have "drop 8 (cstr n) = [SPC, SPC, SPC]"
    by (auto simp: map_eq_Cons_conv upcase_eq_SPC)
  then show False using assms(3) by simp
qed

theorem name83_disagree_witness:
  "\<not> IsNameEqual (To83Format (str ''screenshots'')) (str ''screenshots'')"
  by (rule name83_disagree) (simp_all add: cstr_def str_def chr_def of_char_def)

text \<open>
  No name matches an entry that starts with a dot, so the entries \<open>.\<close> and \<open>..\<close> that
  \<open>CreateDirectory\<close> writes are never found and a path with a \<open>..\<close> segment does not resolve.
\<close>

theorem dot_entries_unreachable: "\<not> IsNameEqual (DOT # bs) n"
proof
  assume "IsNameEqual (DOT # bs) n"
  then have "convert_name n ! 0 = DOT"
    by (metis IsNameEqual_def nth_Cons_0 nth_take zero_less_numeral)
  then show False using convert_name_first by blast
qed

end
