(* ===== verification/Fat32.thy ===== *)
theory Fat32
  imports BlockDev FatNames MemoryMgr "HOL-Library.Monad_Syntax"
begin

text \<open>
  The FAT32 driver of \<open>kernel/fs/fat32/fat32_driver.cpp\<close>, operation by operation, over any
  block device. The driver state is a record of the members of \<open>FAT32Driver\<close>; every device
  access goes through the device's method table and returns the new device state. Buffers
  that the code obtains from \<open>MemoryManager::Allocate\<close> and releases before it returns are
  byte lists; \<open>fresh n\<close> stands for what an \<open>n\<close>-byte allocation contains before it is
  filled, so that nothing is assumed about it when a device read fails.
  A loop that follows a cluster chain on the disk may run forever on a cyclic chain:
  such loops are partial functions into \<open>option\<close>, \<open>None\<close> meaning that the call does not
  return. Console messages are left out.
\<close>

section \<open>Driver state and on-disk records\<close>

record 'd FAT32Driver =
  dev_ops :: "'d BlockDevice"
  dev :: 'd
  part_lba :: u64
  sec_per_clus :: u32
  reserved_sectors :: u32
  num_fats :: u32
  fat_sz32 :: u32
  root_clus :: u32
  fat_start_lba :: u64
  data_start_lba :: u64
  fresh :: "nat \<Rightarrow> bytes"

definition dev_Read :: "'d FAT32Driver \<Rightarrow> u64 \<Rightarrow> bytes \<Rightarrow> u32 \<Rightarrow> bool \<times> bytes \<times> 'd FAT32Driver" where
  "dev_Read fs lba buf n =
     (let (ok, buf', d) = bd_Read (dev_ops fs) (dev fs) lba buf n in (ok, buf', fs\<lparr>dev := d\<rparr>))"

definition dev_Write :: "'d FAT32Driver \<Rightarrow> u64 \<Rightarrow> bytes \<Rightarrow> u32 \<Rightarrow> bool \<times> 'd FAT32Driver" where
  "dev_Write fs lba buf n =
     (let (ok, d) = bd_Write (dev_ops fs) (dev fs) lba buf n in (ok, fs\<lparr>dev := d\<rparr>))"

text \<open>The cluster size in bytes, \<open>sec_per_clus_ * 512\<close> in 32 bits.\<close>

definition cluster_bytes :: "'d FAT32Driver \<Rightarrow> u32" where
  "cluster_bytes fs = sec_per_clus fs * 512"

record DirectoryEntry =
  de_name :: bytes
  de_attr :: u8
  de_nt_res :: u8
  de_crt_time_tenth :: u8
  de_crt_time :: u16
  de_crt_date :: u16
  de_lst_acc_date :: u16
  de_fst_clus_hi :: u16
  de_wrt_time :: u16
  de_wrt_date :: u16
  de_fst_clus_lo :: u16
  de_file_size :: u32

definition get_dirent :: "bytes \<Rightarrow> nat \<Rightarrow> DirectoryEntry" where
  "get_dirent buf i = (let b = (\<lambda>off n. buf_get (32 * i + off) n buf) in
     \<lparr>de_name = b 0 11, de_attr = buf ! (32 * i + 11), de_nt_res = buf ! (32 * i + 12),
      de_crt_time_tenth = buf ! (32 * i + 13), de_crt_time = le16_get (b 14 2),
      de_crt_date = le16_get (b 16 2), de_lst_acc_date = le16_get (b 18 2),
      de_fst_clus_hi = le16_get (b 20 2), de_wrt_time = le16_get (b 22 2),
      de_wrt_date = le16_get (b 24 2), de_fst_clus_lo = le16_get (b 26 2),
      de_file_size = le32_get (b 28 4)\<rparr>)"

definition first_cluster_of :: "DirectoryEntry \<Rightarrow> u32" where
  "first_cluster_of e = push_bit 16 (ucast (de_fst_clus_hi e)) OR ucast (de_fst_clus_lo e)"

text \<open>The assignments to fields of an entry in a buffer.\<close>

definition put_name :: "nat \<Rightarrow> bytes \<Rightarrow> bytes \<Rightarrow> bytes" where
  "put_name i name buf = buf_put (32 * i) (take 11 name) buf"

definition put_attr :: "nat \<Rightarrow> u8 \<Rightarrow> bytes \<Rightarrow> bytes" where
  "put_attr i a buf = buf_put (32 * i + 11) [a] buf"

definition put_cluster :: "nat \<Rightarrow> u32 \<Rightarrow> bytes \<Rightarrow> bytes" where
  "put_cluster i c buf =
     buf_put (32 * i + 26) (le16_put (ucast (c AND 0xFFFF)))
       (buf_put (32 * i + 20) (le16_put (ucast (drop_bit 16 c AND 0xFFFF))) buf)"

definition put_size :: "nat \<Rightarrow> u32 \<Rightarrow> bytes \<Rightarrow> bytes" where
  "put_size i n buf = buf_put (32 * i + 28) (le32_put n) buf"

section \<open>The file allocation table\<close>

definition fat_entry :: "bytes \<Rightarrow> nat \<Rightarrow> u32" where
  "fat_entry buf i = le32_get (buf_get (4 * i) 4 buf)"

definition set_fat_entry :: "bytes \<Rightarrow> nat \<Rightarrow> u32 \<Rightarrow> bytes" where
  "set_fat_entry buf i v = buf_put (4 * i) (le32_put v) buf"

definition Fat_Initialize :: "'d FAT32Driver \<Rightarrow> 'd FAT32Driver" where
  "Fat_Initialize fs =
     (let (_, buf, fs) = dev_Read fs (part_lba fs) (fresh fs 512) 1;
          fs = fs\<lparr>sec_per_clus := ucast (buf ! 13),
                  reserved_sectors := ucast (le16_get (buf_get 14 2 buf)),
                  num_fats := ucast (buf ! 16),
                  fat_sz32 := le32_get (buf_get 36 4 buf),
                  root_clus := le32_get (buf_get 44 4 buf)\<rparr>;
          fs = fs\<lparr>fat_start_lba := part_lba fs + ucast (reserved_sectors fs)\<rparr>
      in fs\<lparr>data_start_lba := fat_start_lba fs + ucast (num_fats fs * fat_sz32 fs)\<rparr>)"

definition ClusterToLBA :: "'d FAT32Driver \<Rightarrow> u32 \<Rightarrow> u64" where
  "ClusterToLBA fs cluster = data_start_lba fs + ucast (cluster - 2) * ucast (sec_per_clus fs)"

definition AllocateCluster :: "'d FAT32Driver \<Rightarrow> u32 \<times> 'd FAT32Driver" where
  "AllocateCluster fs =
     (let (_, buf, fs) = dev_Read fs (fat_start_lba fs) (fresh fs 512) 1
      in case find (\<lambda>i. fat_entry buf i = 0) [2..<128] of
           None \<Rightarrow> (0, fs)
         | Some i \<Rightarrow>
             let buf = set_fat_entry buf i 0x0FFFFFFF;
                 (_, fs) = dev_Write fs (fat_start_lba fs) buf 1;
                 (_, fs) = dev_Write fs (fat_start_lba fs + ucast (fat_sz32 fs)) buf 1
             in (of_nat i, fs))"

definition LinkCluster :: "'d FAT32Driver \<Rightarrow> u32 \<Rightarrow> u32 \<Rightarrow> 'd FAT32Driver" where
  "LinkCluster fs current next =
     (let sector_offset = current div 128;
          entry_offset = current mod 128;
          target_lba = fat_start_lba fs + ucast sector_offset;
          (_, buf, fs) = dev_Read fs target_lba (fresh fs 512) 1;
          buf = set_fat_entry buf (unat entry_offset) next;
          (_, fs) = dev_Write fs target_lba buf 1;
          (_, fs) = dev_Write fs (target_lba + ucast (fat_sz32 fs)) buf 1
      in fs)"

definition GetNextCluster :: "'d FAT32Driver \<Rightarrow> u32 \<Rightarrow> u32 \<times> 'd FAT32Driver" where
  "GetNextCluster fs current =
     (let sector_offset = current div 128;
          entry_offset = current mod 128;
          target_lba = fat_start_lba fs + ucast sector_offset;
          (_, buf, fs) = dev_Read fs target_lba (fresh fs 512) 1
      in (fat_entry buf (unat entry_offset) AND 0x0FFFFFFF, fs))"

partial_function (option) FreeChain :: "'d FAT32Driver \<Rightarrow> u32 \<Rightarrow> 'd FAT32Driver option" where
  "FreeChain fs current =
     (if 2 \<le> current \<and> current < 0x0FFFFFF8
      then let (next, fs) = GetNextCluster fs current;
               fs = LinkCluster fs current 0
           in FreeChain fs next
      else Some fs)"

section \<open>Directories\<close>

definition add_entry :: "bytes \<Rightarrow> nat \<Rightarrow> bytes \<Rightarrow> u32 \<Rightarrow> u32 \<Rightarrow> u8 \<Rightarrow> bytes" where
  "add_entry buf i name start_cluster fsize attr =
     (let buf = buf_put (32 * i) (replicate 32 0) buf;
          buf = put_name i name buf;
          buf = put_attr i attr buf;
          buf = put_cluster i start_cluster buf
      in put_size i fsize buf)"

fun add_loop :: "'d FAT32Driver \<Rightarrow> u64 \<Rightarrow> bytes \<Rightarrow> nat list \<Rightarrow> bytes \<Rightarrow> u32 \<Rightarrow> u32 \<Rightarrow> u8 \<Rightarrow> 'd FAT32Driver" where
  "add_loop fs lba buf [] name start_cluster fsize attr = fs"
| "add_loop fs lba buf (s # ss) name start_cluster fsize attr =
     (let (_, buf, fs) = dev_Read fs (lba + of_nat s) buf 1
      in case find (\<lambda>i. buf ! (32 * i) = 0 \<or> buf ! (32 * i) = 0xE5) [0..<16] of
           Some i \<Rightarrow> snd (dev_Write fs (lba + of_nat s) (add_entry buf i name start_cluster fsize attr) 1)
         | None \<Rightarrow> add_loop fs lba buf ss name start_cluster fsize attr)"

definition AddDirectoryEntry ::
    "'d FAT32Driver \<Rightarrow> bytes \<Rightarrow> u32 \<Rightarrow> u32 \<Rightarrow> u8 \<Rightarrow> u32 \<Rightarrow> 'd FAT32Driver" where
  "AddDirectoryEntry fs name start_cluster fsize attr parent_cluster =
     (let target_cluster = (if parent_cluster = 0 then root_clus fs else parent_cluster);
          lba = ClusterToLBA fs target_cluster
      in add_loop fs lba (fresh fs 512) [0..<unat (sec_per_clus fs)] name start_cluster fsize attr)"

text \<open>
  The scan of the entries of one cluster that \<open>FindDirectoryEntry\<close>, \<open>DeleteFile\<close> and
  \<open>AppendFile\<close> share: it stops at the end mark, skips deleted entries and long-name
  entries, and stops at the first entry with the name.
\<close>

datatype scan = EndMark | Found nat | Exhausted

fun scan_entries :: "bytes \<Rightarrow> bytes \<Rightarrow> nat list \<Rightarrow> scan" where
  "scan_entries buf name [] = Exhausted"
| "scan_entries buf name (i # is) =
     (if buf ! (32 * i) = 0 then EndMark
      else if buf ! (32 * i) = 0xE5 then scan_entries buf name is
      else if de_attr (get_dirent buf i) = 0x0F then scan_entries buf name is
      else if IsNameEqual (de_name (get_dirent buf i)) name then Found i
      else scan_entries buf name is)"

definition scan_cluster :: "'d FAT32Driver \<Rightarrow> bytes \<Rightarrow> bytes \<Rightarrow> scan" where
  "scan_cluster fs buf name = scan_entries buf name [0..<unat (cluster_bytes fs div 32)]"

function find_loop :: "'d FAT32Driver \<Rightarrow> bytes \<Rightarrow> bytes \<Rightarrow> u32 \<Rightarrow> nat \<Rightarrow> DirectoryEntry option \<times> 'd FAT32Driver" where
  "find_loop fs name buf current_cluster loop_safety =
     (if current_cluster < 0x0FFFFFF8 \<and> 2 \<le> current_cluster
      then
        if loop_safety > 10000 then (None, fs)
        else
          let lba = ClusterToLBA fs current_cluster;
              (ok, buf, fs) = dev_Read fs lba buf (sec_per_clus fs)
          in if \<not> ok then (None, fs)
             else (case scan_cluster fs buf name of
                     EndMark \<Rightarrow> (None, fs)
                   | Found i \<Rightarrow> (Some (get_dirent buf i), fs)
                   | Exhausted \<Rightarrow>
                       let (next, fs) = GetNextCluster fs current_cluster
                       in find_loop fs name buf next (loop_safety + 1))
      else (None, fs))"
  by pat_completeness auto
termination
  by (relation "measure (\<lambda>(fs, name, buf, c, k). 10001 - k)") auto

definition FindDirectoryEntry :: "'d FAT32Driver \<Rightarrow> bytes \<Rightarrow> u32 \<Rightarrow> DirectoryEntry option \<times> 'd FAT32Driver" where
  "FindDirectoryEntry fs name parent_cluster =
     find_loop fs name (fresh fs (unat (cluster_bytes fs)))
       (if parent_cluster = 0 then root_clus fs else parent_cluster) 0"

text \<open>The first cluster of a new directory: the entries \<open>.\<close> and \<open>..\<close>, then zeros.\<close>

definition dot_entries :: "nat \<Rightarrow> u32 \<Rightarrow> u32 \<Rightarrow> bytes" where
  "dot_entries n new_cluster parent_cluster =
     (let buf = replicate n 0;
          buf = put_name 0 (str ''.          '') buf;
          buf = put_attr 0 0x10 buf;
          buf = put_cluster 0 new_cluster buf;
          buf = put_name 1 (str ''..         '') buf;
          buf = put_attr 1 0x10 buf
      in put_cluster 1 parent_cluster buf)"

definition CreateDirectory :: "'d FAT32Driver \<Rightarrow> bytes \<Rightarrow> u32 \<Rightarrow> u32 \<times> 'd FAT32Driver" where
  "CreateDirectory fs name parent_cluster =
     (let (new_cluster, fs) = AllocateCluster fs
      in if new_cluster = 0 then (0, fs)
         else
           let target_lba = ClusterToLBA fs new_cluster;
               buf = dot_entries (unat (cluster_bytes fs)) new_cluster parent_cluster;
               (_, fs) = dev_Write fs target_lba buf (sec_per_clus fs);
               fs = LinkCluster fs new_cluster 0x0FFFFFFF;
               fs = AddDirectoryEntry fs name new_cluster 0 0x10 parent_cluster
           in (new_cluster, fs))"

section \<open>Paths\<close>

text \<open>
  One segment of a path: at most 15 characters up to a slash or the terminator. The result
  is the segment and the rest of the path, the pointer \<open>p\<close> after the loop.
\<close>

fun next_segment :: "nat \<Rightarrow> bytes \<Rightarrow> bytes \<times> bytes" where
  "next_segment i [] = ([], [])"
| "next_segment i (c # p) =
     (if c \<noteq> 0 \<and> c \<noteq> SLASH \<and> i < 15
      then let (seg, rest) = next_segment (i + 1) p in (c # seg, rest)
      else ([], c # p))"

definition at_end :: "bytes \<Rightarrow> bool" where
  "at_end p \<longleftrightarrow> p = [] \<or> hd p = 0"

definition skip_slash :: "bytes \<Rightarrow> bytes" where
  "skip_slash p = (if p \<noteq> [] \<and> hd p = SLASH then tl p else p)"

lemma next_segment_append: "next_segment i p = (seg, rest) \<Longrightarrow> p = seg @ rest"
  by (induction i p arbitrary: seg rest rule: next_segment.induct)
    (auto split: if_splits prod.splits)

lemma next_segment_shorter:
  assumes "next_segment 0 p = (seg, rest)" "\<not> at_end p"
  shows "length (skip_slash rest) < length p"
proof (cases p)
  case (Cons c q)
  show ?thesis
  proof (cases seg)
    case Nil
    with assms Cons have "rest = p" "c = SLASH"
      by (auto simp: at_end_def split: if_splits prod.splits)
    then show ?thesis using Cons by (simp add: skip_slash_def)
  next
    case (Cons d ds)
    then show ?thesis
      using next_segment_append [OF assms(1)] by (cases rest) (simp_all add: skip_slash_def)
  qed
qed (use assms in \<open>simp add: at_end_def\<close>)

function ensure_loop :: "'d FAT32Driver \<Rightarrow> bytes \<Rightarrow> u32 \<Rightarrow> u32 \<times> 'd FAT32Driver" where
  "ensure_loop fs p current_cluster =
     (if at_end p then (current_cluster, fs)
      else
        let (segment, rest) = next_segment 0 p;
            rest = skip_slash rest
        in if segment = [] then (current_cluster, fs)
           else
             (case FindDirectoryEntry fs segment current_cluster of
                (Some entry, fs) \<Rightarrow>
                  if de_attr entry AND 0x10 \<noteq> 0
                  then ensure_loop fs rest (first_cluster_of entry)
                  else (0, fs)
              | (None, fs) \<Rightarrow>
                  let name83 = To83Format segment;
                      (new_cluster, fs) = CreateDirectory fs name83 current_cluster
                  in if new_cluster = 0 then (0, fs)
                     else ensure_loop fs rest new_cluster))"
  by pat_completeness auto
termination
  by (relation "measure (\<lambda>(fs, p, c). length p)") (auto dest: next_segment_shorter [OF sym])

definition EnsureDirectory :: "'d FAT32Driver \<Rightarrow> bytes \<Rightarrow> u32 \<times> 'd FAT32Driver" where
  "EnsureDirectory fs path = ensure_loop fs (skip_slash path) (root_clus fs)"

function entry_loop :: "'d FAT32Driver \<Rightarrow> bytes \<Rightarrow> u32 \<Rightarrow> DirectoryEntry option \<times> 'd FAT32Driver" where
  "entry_loop fs p current_cluster =
     (if at_end p then (None, fs)
      else
        let (name_buf, rest) = next_segment 0 p
        in case FindDirectoryEntry fs name_buf current_cluster of
             (None, fs) \<Rightarrow> (None, fs)
           | (Some entry, fs) \<Rightarrow>
               if at_end rest then (Some entry, fs)
               else if de_attr entry AND 0x10 = 0 then (None, fs)
               else
                 let c = first_cluster_of entry;
                     c = (if c = 0 then root_clus fs else c)
                 in entry_loop fs (skip_slash rest) c)"
  by pat_completeness auto
termination
  by (relation "measure (\<lambda>(fs, p, c). length p)") (auto dest: next_segment_shorter [OF sym])

definition GetFileEntry :: "'d FAT32Driver \<Rightarrow> bytes \<Rightarrow> u32 \<Rightarrow> DirectoryEntry option \<times> 'd FAT32Driver" where
  "GetFileEntry fs path base_cluster =
     (if path \<noteq> [] \<and> hd path = SLASH then entry_loop fs (tl path) (root_clus fs)
      else if base_cluster = 0 then entry_loop fs path (root_clus fs)
      else entry_loop fs path base_cluster)"

definition GetDirectoryCluster :: "'d FAT32Driver \<Rightarrow> bytes \<Rightarrow> u32 \<Rightarrow> u32 \<times> 'd FAT32Driver" where
  "GetDirectoryCluster fs path base_cluster =
     (if cstr path = [SLASH] then (root_clus fs, fs)
      else if at_end path \<or> cstr path = [DOT]
      then (if base_cluster = 0 then root_clus fs else base_cluster, fs)
      else case GetFileEntry fs path base_cluster of
             (Some entry, fs) \<Rightarrow>
               if de_attr entry AND 0x10 \<noteq> 0
               then let clus = first_cluster_of entry in (if clus = 0 then root_clus fs else clus, fs)
               else (0xFFFFFFFF, fs)
           | (None, fs) \<Rightarrow> (0xFFFFFFFF, fs))"

definition GetFileSize :: "'d FAT32Driver \<Rightarrow> bytes \<Rightarrow> u32 \<times> 'd FAT32Driver" where
  "GetFileSize fs path =
     (case GetFileEntry fs path 0 of
        (Some entry, fs) \<Rightarrow> (de_file_size entry, fs)
      | (None, fs) \<Rightarrow> (0, fs))"

declare find_loop.simps [simp del] ensure_loop.simps [simp del] entry_loop.simps [simp del]

section \<open>Listing\<close>

text \<open>The printed form of a name: the base, and for a file its extension after a dot.\<close>

definition list_name :: "DirectoryEntry \<Rightarrow> bytes" where
  "list_name e =
     filter (\<lambda>c. c \<noteq> SPC) (take 8 (de_name e)) @
     (if de_attr e AND 0x10 = 0 \<and> de_name e ! 8 \<noteq> SPC
      then DOT # filter (\<lambda>c. c \<noteq> SPC) (buf_get 8 3 (de_name e)) else [])"

text \<open>What is printed for an entry: whether it is a directory, its size and its name.\<close>

fun list_entries :: "bytes \<Rightarrow> nat list \<Rightarrow> (bool \<times> u32 \<times> bytes) list" where
  "list_entries buf [] = []"
| "list_entries buf (i # is) =
     (if buf ! (32 * i) = 0 then []
      else if buf ! (32 * i) = 0xE5 then list_entries buf is
      else let e = get_dirent buf i in
        if de_attr e = 0x0F then list_entries buf is
        else (de_attr e AND 0x10 \<noteq> 0, de_file_size e, list_name e) # list_entries buf is)"

partial_function (option) list_loop :: "'d FAT32Driver \<Rightarrow> bytes \<Rightarrow> u32 \<Rightarrow>
    ((bool \<times> u32 \<times> bytes) list \<times> 'd FAT32Driver) option" where
  "list_loop fs buf current_cluster =
     (if current_cluster < 0x0FFFFFF8
      then let (_, buf, fs) = dev_Read fs (ClusterToLBA fs current_cluster) buf (sec_per_clus fs);
               lines = list_entries buf [0..<unat (cluster_bytes fs div 32)];
               (next, fs) = GetNextCluster fs current_cluster
           in do { (more, fs) \<leftarrow> list_loop fs buf next; Some (lines @ more, fs) }
      else Some ([], fs))"

definition ListDirectory :: "'d FAT32Driver \<Rightarrow> u32 \<Rightarrow> ((bool \<times> u32 \<times> bytes) list \<times> 'd FAT32Driver) option" where
  "ListDirectory fs cluster =
     list_loop fs (fresh fs (unat (cluster_bytes fs))) (if cluster = 0 then root_clus fs else cluster)"

section \<open>Deleting\<close>

partial_function (option) delete_loop :: "'d FAT32Driver \<Rightarrow> bytes \<Rightarrow> bytes \<Rightarrow> u32 \<Rightarrow>
    (bool \<times> 'd FAT32Driver) option" where
  "delete_loop fs name buf current_cluster =
     (if current_cluster < 0x0FFFFFF8
      then
        let lba = ClusterToLBA fs current_cluster;
            (_, buf, fs) = dev_Read fs lba buf (sec_per_clus fs)
        in (case scan_cluster fs buf name of
              Found i \<Rightarrow>
                do { let fst_clus = first_cluster_of (get_dirent buf i);
                     fs \<leftarrow> (if fst_clus \<noteq> 0 then FreeChain fs fst_clus else Some fs);
                     let buf = buf[32 * i := 0xE5];
                     let sector_offset = i div 16;
                     let fs = snd (dev_Write fs (lba + of_nat sector_offset)
                                    (buf_get (sector_offset * 512) 512 buf) 1);
                     Some (True, fs) }
            | _ \<Rightarrow>
                let (next, fs) = GetNextCluster fs current_cluster
                in delete_loop fs name buf next)
      else Some (False, fs))"

definition DeleteFile :: "'d FAT32Driver \<Rightarrow> bytes \<Rightarrow> u32 \<Rightarrow> (bool \<times> 'd FAT32Driver) option" where
  "DeleteFile fs name parent_cluster =
     delete_loop fs name (fresh fs (unat (cluster_bytes fs)))
       (if parent_cluster = 0 then root_clus fs else parent_cluster)"

section \<open>Reading\<close>

partial_function (option) read_loop :: "'d FAT32Driver \<Rightarrow> bytes \<Rightarrow> bytes \<Rightarrow> u32 \<Rightarrow> u32 \<Rightarrow> u32 \<Rightarrow>
    (bytes \<times> 'd FAT32Driver) option" where
  "read_loop fs out temp_buf current_cluster bytes_remaining offset =
     (if 0 < bytes_remaining \<and> current_cluster < 0x0FFFFFF8
      then
        let lba = ClusterToLBA fs current_cluster;
            (_, temp_buf, fs) = dev_Read fs lba temp_buf (sec_per_clus fs);
            copy_len = (if bytes_remaining > cluster_bytes fs then cluster_bytes fs else bytes_remaining);
            out = buf_put (unat offset) (take (unat copy_len) temp_buf) out;
            (next, fs) = GetNextCluster fs current_cluster
        in read_loop fs out temp_buf next (bytes_remaining - copy_len) (offset + copy_len)
      else Some (out, fs))"

definition ReadFile :: "'d FAT32Driver \<Rightarrow> bytes \<Rightarrow> bytes \<Rightarrow> u32 \<Rightarrow> u32 \<Rightarrow>
    (u32 \<times> bytes \<times> 'd FAT32Driver) option" where
  "ReadFile fs name buffer buffer_size base_cluster =
     (case GetFileEntry fs name base_cluster of
        (None, fs) \<Rightarrow> Some (0, buffer, fs)
      | (Some entry, fs) \<Rightarrow>
          if de_file_size entry > buffer_size then Some (0, buffer, fs)
          else do {
            (out, fs) \<leftarrow> read_loop fs buffer (fresh fs (unat (cluster_bytes fs)))
                          (first_cluster_of entry) (de_file_size entry) 0;
            Some (de_file_size entry, out, fs) })"

section \<open>Writing\<close>

text \<open>A cluster buffer with the next piece of the data, zero padded, and its write.\<close>

definition write_piece :: "'d FAT32Driver \<Rightarrow> u32 \<Rightarrow> bytes \<Rightarrow> u32 \<Rightarrow> u32 \<Rightarrow> 'd FAT32Driver" where
  "write_piece fs cluster data offset write_len =
     (let buf = buf_put 0 (buf_get (unat offset) (unat write_len) data)
                  (replicate (unat (cluster_bytes fs)) 0)
      in snd (dev_Write fs (ClusterToLBA fs cluster) buf (sec_per_clus fs)))"

text \<open>
  The write loop; the result is the first and the last cluster, or \<open>None\<close> inside when the
  disk is full (the code then returns without creating an entry).
\<close>

partial_function (option) write_loop :: "'d FAT32Driver \<Rightarrow> bytes \<Rightarrow> u32 \<Rightarrow> u32 \<Rightarrow> u32 \<Rightarrow> u32 \<Rightarrow>
    ((u32 \<times> u32) option \<times> 'd FAT32Driver) option" where
  "write_loop fs data bytes_remaining current_offset first_cluster prev_cluster =
     (if 0 < bytes_remaining
      then
        let (current_cluster, fs) = AllocateCluster fs
        in if current_cluster = 0 then Some (None, fs)
           else
             let (first_cluster, fs) =
                   (if first_cluster = 0 then (current_cluster, fs)
                    else (first_cluster, LinkCluster fs prev_cluster current_cluster));
                 write_len = (if bytes_remaining > cluster_bytes fs then cluster_bytes fs
                              else bytes_remaining);
                 fs = write_piece fs current_cluster data current_offset write_len
             in write_loop fs data (bytes_remaining - write_len) (current_offset + write_len)
                  first_cluster current_cluster
      else Some (Some (first_cluster, prev_cluster), fs))"

definition WriteFile :: "'d FAT32Driver \<Rightarrow> bytes \<Rightarrow> bytes \<Rightarrow> u32 \<Rightarrow> u32 \<Rightarrow> 'd FAT32Driver option" where
  "WriteFile fs name data fsize parent_cluster =
     (if fsize = 0 then Some fs
      else do {
        (r, fs) \<leftarrow> write_loop fs data fsize 0 0 0;
        case r of
          None \<Rightarrow> Some fs
        | Some (first_cluster, current_cluster) \<Rightarrow>
            let fs = LinkCluster fs current_cluster 0x0FFFFFFF
            in Some (AddDirectoryEntry fs name first_cluster fsize 0x20 parent_cluster) })"

section \<open>Appending\<close>

partial_function (option) last_loop :: "'d FAT32Driver \<Rightarrow> u32 \<Rightarrow> (u32 \<times> 'd FAT32Driver) option" where
  "last_loop fs last_cluster =
     (let (next, fs) = GetNextCluster fs last_cluster
      in if next \<ge> 0x0FFFFFF8 then Some (last_cluster, fs) else last_loop fs next)"

partial_function (option) append_loop :: "'d FAT32Driver \<Rightarrow> bytes \<Rightarrow> u32 \<Rightarrow> u32 \<Rightarrow> u32 \<Rightarrow>
    (u32 \<times> 'd FAT32Driver) option" where
  "append_loop fs data bytes_remaining current_offset prev_cluster =
     (if 0 < bytes_remaining
      then
        let (new_cluster, fs) = AllocateCluster fs
        in if new_cluster = 0 then Some (prev_cluster, fs)
           else
             let fs = LinkCluster fs prev_cluster new_cluster;
                 write_len = (if bytes_remaining > cluster_bytes fs then cluster_bytes fs
                              else bytes_remaining);
                 fs = write_piece fs new_cluster data current_offset write_len
             in append_loop fs data (bytes_remaining - write_len) (current_offset + write_len) new_cluster
      else Some (prev_cluster, fs))"

partial_function (option) update_loop :: "'d FAT32Driver \<Rightarrow> bytes \<Rightarrow> bytes \<Rightarrow> u32 \<Rightarrow> u32 \<Rightarrow> u32 \<Rightarrow> u32 \<Rightarrow>
    'd FAT32Driver option" where
  "update_loop fs name buf current_cluster new_size old_size first_cluster =
     (if current_cluster < 0x0FFFFFF8
      then
        let lba = ClusterToLBA fs current_cluster;
            (_, buf, fs) = dev_Read fs lba buf (sec_per_clus fs)
        in (case scan_cluster fs buf name of
              Found i \<Rightarrow>
                let buf = put_size i new_size buf;
                    buf = (if old_size = 0 then put_cluster i first_cluster buf else buf);
                    sector_offset = i div 16
                in Some (snd (dev_Write fs (lba + of_nat sector_offset)
                                (buf_get (sector_offset * 512) 512 buf) 1))
            | _ \<Rightarrow>
                let (next, fs) = GetNextCluster fs current_cluster
                in update_loop fs name buf next new_size old_size first_cluster)
      else Some fs)"

text \<open>The free part of the last cluster is filled from the data.\<close>

definition fill_last :: "'d FAT32Driver \<Rightarrow> bytes \<Rightarrow> u32 \<Rightarrow> u32 \<Rightarrow> u32 \<Rightarrow> 'd FAT32Driver" where
  "fill_last fs data last_cluster used_in_last_cluster append_len =
     (let lba = ClusterToLBA fs last_cluster;
          (_, buf, fs) = dev_Read fs lba (fresh fs (unat (cluster_bytes fs))) (sec_per_clus fs);
          buf = buf_put (unat used_in_last_cluster) (take (unat append_len) data) buf
      in snd (dev_Write fs lba buf (sec_per_clus fs)))"

definition AppendFile :: "'d FAT32Driver \<Rightarrow> bytes \<Rightarrow> bytes \<Rightarrow> u32 \<Rightarrow> u32 \<Rightarrow> 'd FAT32Driver option" where
  "AppendFile fs name data fsize parent_cluster =
     (if fsize = 0 then Some fs
      else
        let target_dir = (if parent_cluster = 0 then root_clus fs else parent_cluster)
        in case FindDirectoryEntry fs name target_dir of
             (None, fs) \<Rightarrow> WriteFile fs name data fsize parent_cluster
           | (Some entry, fs) \<Rightarrow>
               let old_size = de_file_size entry;
                   first0 = first_cluster_of entry;
                   (first_cluster, fs) = (if first0 = 0 then AllocateCluster fs else (first0, fs))
               in if first_cluster = 0 then Some fs
                  else do {
                    (last_cluster, fs) \<leftarrow>
                      (if first0 = 0 then Some (first_cluster, fs) else last_loop fs first_cluster);
                    let csz = cluster_bytes fs;
                    let used = old_size mod csz;
                    let used = (if used = 0 \<and> 0 < old_size then csz else used);
                    let free_in_last = (if old_size = 0 then csz else csz - used);
                    let (fs, append_len) =
                      (if 0 < free_in_last \<and> 0 < old_size
                       then let append_len = (if fsize > free_in_last then free_in_last else fsize)
                            in (fill_last fs data last_cluster used append_len, append_len)
                       else (fs, 0));
                    (prev_cluster, fs) \<leftarrow>
                      append_loop fs data (fsize - append_len) append_len last_cluster;
                    let fs = LinkCluster fs prev_cluster 0x0FFFFFFF;
                    update_loop fs name (fresh fs (unat (cluster_bytes fs))) target_dir
                      (old_size + fsize) old_size first_cluster })"

section \<open>Copying between file systems\<close>

text \<open>The position of the last slash of a string.\<close>

definition last_slash :: "bytes \<Rightarrow> nat option" where
  "last_slash p = (let is = filter (\<lambda>i. p ! i = SLASH) [0..<length (cstr p)] in
     if is = [] then None else Some (last is))"

definition CopyFileFrom :: "MemoryManager \<Rightarrow> 'd FAT32Driver \<Rightarrow> 'e FAT32Driver \<Rightarrow> bytes \<Rightarrow> bytes \<Rightarrow>
    (bool \<times> MemoryManager \<times> 'd FAT32Driver \<times> 'e FAT32Driver) option" where
  "CopyFileFrom mm fs src_fs src_path dst_path =
     (let (fsize, src_fs) = GetFileSize src_fs src_path
      in if fsize = 0 then Some (False, mm, fs, src_fs)
         else
           let (p, mm) = Allocate mm (ucast fsize)
           in if p = 0 then Some (False, mm, fs, src_fs)
              else do {
                (n, buf, src_fs) \<leftarrow> ReadFile src_fs src_path (fresh src_fs (unat fsize)) fsize 0;
                if n \<noteq> fsize then Some (False, Free mm p (ucast fsize), fs, src_fs)
                else
                  let (parent_cluster, ok, filename_part, fs) =
                    (case last_slash dst_path of
                       None \<Rightarrow> (0, True, dst_path, fs)
                     | Some i \<Rightarrow>
                         let len = (if i > 63 then 63 else i);
                             dir_part = take len dst_path;
                             filename_part = drop (i + 1) dst_path
                         in if len > 0
                            then let (c, fs) = EnsureDirectory fs dir_part
                                 in (c, c \<noteq> 0, filename_part, fs)
                            else (0, True, filename_part, fs))
                  in if \<not> ok then Some (False, Free mm p (ucast fsize), fs, src_fs)
                     else do {
                       fs \<leftarrow> WriteFile fs (To83Format filename_part) buf fsize parent_cluster;
                       Some (True, Free mm p (ucast fsize), fs, src_fs) } })"

end
