(* ===== verification/FatDisk.thy ===== *)
theory FatDisk
  imports Fat32
begin

text \<open>
  The disk as the FAT32 driver sees it, without the driver: tables of cluster links and
  cluster contents over the sectors of a medium, with the laws by which updates of one
  leave the others alone. The driver's operations are shown to refine these functions.
\<close>

section \<open>Geometry\<close>

text \<open>
  The numbers the driver computes at initialisation, as natural numbers, and the number
  \<open>g_n\<close> of clusters of the volume. \<open>geom_ok\<close>: two copies of the table fit before the
  data area, the table describes all clusters, the data area lies on the medium, and the
  first table sector, where \<open>AllocateCluster\<close> searches, describes existing clusters only.
\<close>

record geom =
  g_spc :: nat
  g_fat0 :: nat
  g_fatsz :: nat
  g_data0 :: nat
  g_root :: u32
  g_n :: nat

definition geom_ok :: "nat \<Rightarrow> geom \<Rightarrow> bool" where
  "geom_ok nsec g \<longleftrightarrow> 0 < g_spc g \<and> g_spc g \<le> 255 \<and> g_fat0 g + 2 * g_fatsz g \<le> g_data0 g \<and>
     g_data0 g + g_n g * g_spc g \<le> nsec \<and> nsec < 2 ^ 64 \<and> g_n g + 2 \<le> g_fatsz g * 128 \<and>
     g_fatsz g < 2 ^ 32 \<and> g_n g + 2 \<le> 0x0FFFFFF8 \<and> 126 \<le> g_n g"

definition valid :: "geom \<Rightarrow> nat \<Rightarrow> bool" where
  "valid g c \<longleftrightarrow> 2 \<le> c \<and> c < g_n g + 2"

section \<open>Table entries and cluster contents\<close>

definition fat_get :: "geom \<Rightarrow> medium \<Rightarrow> nat \<Rightarrow> u32" where
  "fat_get g m c = fat_entry (m (g_fat0 g + c div 128)) (c mod 128)"

definition fat_set :: "geom \<Rightarrow> medium \<Rightarrow> nat \<Rightarrow> u32 \<Rightarrow> medium" where
  "fat_set g m c v =
     (let s = g_fat0 g + c div 128; b = set_fat_entry (m s) (c mod 128) v
      in m(s := b, s + g_fatsz g := b))"

definition clus_lba :: "geom \<Rightarrow> nat \<Rightarrow> nat" where
  "clus_lba g c = g_data0 g + (c - 2) * g_spc g"

definition clus_get :: "geom \<Rightarrow> medium \<Rightarrow> nat \<Rightarrow> bytes" where
  "clus_get g m c = sectors m (clus_lba g c) (g_spc g)"

definition clus_set :: "geom \<Rightarrow> medium \<Rightarrow> nat \<Rightarrow> bytes \<Rightarrow> medium" where
  "clus_set g m c bs = set_sectors m (clus_lba g c) (g_spc g) bs"

text \<open>One sector of a cluster, as the directory operations write it.\<close>

definition clus_sec_set :: "geom \<Rightarrow> medium \<Rightarrow> nat \<Rightarrow> nat \<Rightarrow> bytes \<Rightarrow> medium" where
  "clus_sec_set g m c s b = m(clus_lba g c + s := b)"

lemma length_set_fat_entry [simp]:
  "length buf = 512 \<Longrightarrow> i < 128 \<Longrightarrow> length (set_fat_entry buf i v) = 512"
  by (simp add: set_fat_entry_def length_buf_put le_simps)

lemma fat_entry_set:
  assumes "length buf = 512" "i < 128" "j < 128"
  shows "fat_entry (set_fat_entry buf i v) j = (if i = j then v else fat_entry buf j)"
proof (cases "i = j")
  case True
  then show ?thesis
    using assms by (simp add: fat_entry_def set_fat_entry_def buf_get_put_same le_simps)
next
  case False
  then have "4 * j + 4 \<le> 4 * i \<or> 4 * i + 4 \<le> 4 * j" by linarith
  then show ?thesis
    using assms False
    by (simp add: fat_entry_def set_fat_entry_def buf_get_put_other le_simps)
qed

lemma medium_ok_fat_set [simp]: "medium_ok m \<Longrightarrow> medium_ok (fat_set g m c v)"
  by (simp add: fat_set_def Let_def medium_ok_def)

lemma medium_ok_clus_set [simp]:
  "medium_ok m \<Longrightarrow> length bs = g_spc g * 512 \<Longrightarrow> medium_ok (clus_set g m c bs)"
  by (simp add: clus_set_def)

lemma medium_ok_clus_sec_set [simp]:
  "medium_ok m \<Longrightarrow> length b = 512 \<Longrightarrow> medium_ok (clus_sec_set g m c s b)"
  by (simp add: clus_sec_set_def)

lemma length_clus_get [simp]: "medium_ok m \<Longrightarrow> length (clus_get g m c) = g_spc g * 512"
  by (simp add: clus_get_def)

lemma fat_index: "c < g_fatsz g * 128 \<Longrightarrow> c div 128 < g_fatsz g"
  by (simp add: less_mult_imp_div_less)

lemma valid_fat: "geom_ok nsec g \<Longrightarrow> valid g c \<Longrightarrow> c < g_fatsz g * 128"
  by (auto simp: geom_ok_def valid_def)

lemma fat_get_set:
  assumes "medium_ok m" "c < g_fatsz g * 128" "d < g_fatsz g * 128"
  shows "fat_get g (fat_set g m c v) d = (if c = d then v else fat_get g m d)"
proof -
  have idx: "c div 128 < g_fatsz g" "d div 128 < g_fatsz g" using assms fat_index by blast+
  then have far: "g_fat0 g + d div 128 \<noteq> g_fat0 g + c div 128 + g_fatsz g" by linarith
  have "c = d \<longleftrightarrow> c div 128 = d div 128 \<and> c mod 128 = d mod 128"
    by (metis div_mult_mod_eq)
  then show ?thesis
    using assms(1) far
    by (auto simp: fat_get_def fat_set_def Let_def fat_entry_set medium_ok_def)
qed

lemma clus_range:
  assumes "geom_ok nsec g" "valid g c"
  shows "g_fat0 g + 2 * g_fatsz g \<le> clus_lba g c" "clus_lba g c + g_spc g \<le> nsec"
proof -
  have "Suc (c - 2) \<le> g_n g" using assms(2) unfolding valid_def by linarith
  then have "(c - 2) * g_spc g + g_spc g \<le> g_n g * g_spc g"
    by (metis add.commute mult_Suc mult_le_mono1)
  then show "g_fat0 g + 2 * g_fatsz g \<le> clus_lba g c" "clus_lba g c + g_spc g \<le> nsec"
    using assms(1) by (simp_all add: clus_lba_def geom_ok_def)
qed

lemma clus_disjoint:
  assumes "2 \<le> c" "2 \<le> d" "c \<noteq> d" "clus_lba g c \<le> l" "l < clus_lba g c + g_spc g"
  shows "\<not> (clus_lba g d \<le> l \<and> l < clus_lba g d + g_spc g)"
proof -
  have step: "(a - 2) * g_spc g + g_spc g \<le> (b - 2) * g_spc g" if "a < b" "2 \<le> a" for a b
  proof -
    have "Suc (a - 2) \<le> b - 2" using that by linarith
    then have "Suc (a - 2) * g_spc g \<le> (b - 2) * g_spc g" by (rule mult_le_mono1)
    then show ?thesis by simp
  qed
  show ?thesis
    using assms step [of c d] step [of d c] by (simp add: clus_lba_def) linarith
qed

lemma fat_sector_not_data:
  assumes "geom_ok nsec g" "valid g c" "d < g_fatsz g * 128"
  shows "g_fat0 g + d div 128 < clus_lba g c" "g_fat0 g + d div 128 + g_fatsz g < clus_lba g c"
  using clus_range(1) [OF assms(1,2)] fat_index [OF assms(3)] by linarith+

lemma clus_get_fat_set:
  assumes "geom_ok nsec g" "valid g c" "d < g_fatsz g * 128"
  shows "clus_get g (fat_set g m d v) c = clus_get g m c"
  unfolding clus_get_def fat_set_def Let_def
  using fat_sector_not_data [OF assms] by (intro sectors_cong) auto

lemma fat_get_clus_set:
  assumes "geom_ok nsec g" "valid g c" "d < g_fatsz g * 128"
  shows "fat_get g (clus_set g m c bs) d = fat_get g m d"
  using fat_sector_not_data [OF assms] by (simp add: fat_get_def clus_set_def set_sectors_other)

lemma clus_get_set:
  assumes "2 \<le> c" "2 \<le> d" "length bs = g_spc g * 512"
  shows "clus_get g (clus_set g m c bs) d = (if c = d then bs else clus_get g m d)"
proof (cases "c = d")
  case True
  then show ?thesis using assms by (simp add: clus_get_def clus_set_def)
next
  case False
  have "sectors (set_sectors m (clus_lba g c) (g_spc g) bs) (clus_lba g d) (g_spc g) =
      sectors m (clus_lba g d) (g_spc g)"
    using clus_disjoint [OF assms(2,1)] False
    by (intro sectors_cong set_sectors_other) auto
  then show ?thesis using False by (simp add: clus_get_def clus_set_def)
qed

lemma fat_get_sec_set:
  assumes "geom_ok nsec g" "valid g c" "d < g_fatsz g * 128"
  shows "fat_get g (clus_sec_set g m c s b) d = fat_get g m d"
  using fat_sector_not_data [OF assms] by (simp add: fat_get_def clus_sec_set_def)

lemma clus_get_sec_other:
  assumes "2 \<le> c" "2 \<le> d" "c \<noteq> d" "s < g_spc g"
  shows "clus_get g (clus_sec_set g m c s b) d = clus_get g m d"
  unfolding clus_get_def clus_sec_set_def
  using clus_disjoint [OF assms(1-3), where l = "clus_lba g c + s" and g = g] assms(4) by (intro sectors_cong) auto

lemma clus_get_sec_set:
  assumes "medium_ok m" "s < g_spc g" "length b = 512"
  shows "clus_get g (clus_sec_set g m c s b) c = buf_put (s * 512) b (clus_get g m c)"
proof -
  let ?a = "clus_lba g c" and ?n = "g_spc g"
  have split: "[0..<?n] = [0..<s] @ s # [Suc s..<?n]"
    using assms(2) upt_add_eq_append [of 0 s "?n - s"] upt_conv_Cons [of s ?n] by simp
  have len: "length (concat (map (\<lambda>i. m (?a + i)) [0..<s])) = s * 512"
    using assms(1) by (simp add: medium_ok_def length_concat_chunks [where k = 512])
  have upd: "map (\<lambda>i. if i = s then b else m (?a + i)) xs = map (\<lambda>i. m (?a + i)) xs" if "s \<notin> set xs" for xs
    using that by auto
  show ?thesis
    using assms len unfolding clus_get_def clus_sec_set_def sectors_def split
    by (simp add: buf_put_def medium_ok_def upd)
qed

lemmas disk_simps = fat_get_set clus_get_fat_set fat_get_clus_set clus_get_set fat_get_sec_set
  clus_get_sec_other

section \<open>Chains\<close>

abbreviation EOC :: u32 where "EOC \<equiv> 0x0FFFFFFF"

text \<open>
  \<open>chain g m cs\<close>: the clusters \<open>cs\<close> are linked in this order and the last one carries an
  end mark. As in the driver the upper four bits of an entry do not count.
\<close>

fun chain :: "geom \<Rightarrow> medium \<Rightarrow> nat list \<Rightarrow> bool" where
  "chain g m [] = True"
| "chain g m [c] = (valid g c \<and> 0x0FFFFFF8 \<le> fat_get g m c AND 0x0FFFFFFF)"
| "chain g m (c # d # cs) =
     (valid g c \<and> fat_get g m c AND 0x0FFFFFFF = of_nat d \<and> chain g m (d # cs))"

text \<open>Consecutive links, without the end mark.\<close>

fun linked :: "geom \<Rightarrow> medium \<Rightarrow> nat list \<Rightarrow> bool" where
  "linked g m (c # d # cs) = (fat_get g m c = of_nat d \<and> linked g m (d # cs))"
| "linked g m cs = True"

lemma chain_cong: "(\<And>c. c \<in> set cs \<Longrightarrow> fat_get g m' c = fat_get g m c) \<Longrightarrow> chain g m' cs = chain g m cs"
  by (induction g m cs rule: chain.induct) auto

lemma linked_cong: "(\<And>c. c \<in> set cs \<Longrightarrow> fat_get g m' c = fat_get g m c) \<Longrightarrow> linked g m' cs = linked g m cs"
  by (induction g m cs rule: linked.induct) auto

lemma chain_valid: "chain g m cs \<Longrightarrow> c \<in> set cs \<Longrightarrow> valid g c"
  by (induction g m cs rule: chain.induct) auto

lemma chain_tl: "chain g m (c # cs) \<Longrightarrow> chain g m cs"
  by (cases cs) auto

lemma valid_u32:
  assumes "geom_ok nsec g" "valid g c"
  shows "unat (of_nat c :: u32) = c" "(2 :: u32) \<le> of_nat c" "(of_nat c :: u32) < 0x0FFFFFF8"
    "(of_nat c :: u32) \<noteq> 0" "(of_nat c :: u32) AND 0x0FFFFFFF = of_nat c"
proof -
  have lt: "c < 0x0FFFFFF8" "2 \<le> c" using assms by (auto simp: geom_ok_def valid_def)
  then show u: "unat (of_nat c :: u32) = c" by (simp add: of_nat_inverse)
  show "(2 :: u32) \<le> of_nat c" "(of_nat c :: u32) < 0x0FFFFFF8"
    using lt by (simp_all add: word_le_nat_alt word_less_nat_alt u)
  show "(of_nat c :: u32) \<noteq> 0" using u lt by force
  have "(of_nat c :: u32) AND mask 28 = of_nat c"
    using lt u by (simp add: word_unat_eq_iff unsigned_take_bit_eq take_bit_nat_eq_self flip: take_bit_eq_mask)
  then show "(of_nat c :: u32) AND 0x0FFFFFFF = of_nat c"
    by (simp add: mask_eq_exp_minus_1)
qed

lemma linked_chain:
  assumes "geom_ok nsec g" "linked g m cs" "\<And>c. c \<in> set cs \<Longrightarrow> valid g c"
    "cs \<noteq> []" "fat_get g m (last cs) = EOC"
  shows "chain g m cs"
  using assms(2-5)
proof (induction cs rule: induct_list012)
  case (3 c d cs)
  then have "valid g d" "chain g m (d # cs)" by simp_all
  then show ?case using 3 valid_u32(5) [OF assms(1), of d] by simp
qed simp_all

section \<open>Free clusters\<close>

text \<open>The clusters that \<open>AllocateCluster\<close> can find: zero entries of the first table sector.\<close>

definition free_clusters :: "geom \<Rightarrow> medium \<Rightarrow> nat set" where
  "free_clusters g m = {c. 2 \<le> c \<and> c < 128 \<and> fat_get g m c = 0}"

definition first_free :: "geom \<Rightarrow> medium \<Rightarrow> nat option" where
  "first_free g m = find (\<lambda>c. fat_get g m c = 0) [2..<128]"

lemma first_free_None: "first_free g m = None \<longleftrightarrow> free_clusters g m = {}"
  unfolding first_free_def find_upt_None free_clusters_def by blast

lemma first_free_Some: "first_free g m = Some c \<Longrightarrow> c \<in> free_clusters g m"
  unfolding first_free_def free_clusters_def using find_upt_Some(1-3) by blast

lemma finite_free [simp]: "finite (free_clusters g m)"
  by (rule finite_subset [of _ "{..<128}"]) (auto simp: free_clusters_def)

lemma free_valid: "geom_ok nsec g \<Longrightarrow> c \<in> free_clusters g m \<Longrightarrow> valid g c"
  by (auto simp: free_clusters_def geom_ok_def valid_def)

section \<open>Extending a chain\<close>

text \<open>
  \<open>wrote g m m' p cs data\<close>: from \<open>m\<close> to \<open>m'\<close> the clusters \<open>cs\<close>, free before, were linked
  behind \<open>p\<close> in this order, end in an end mark and hold \<open>data\<close> padded with zeros; no
  other table entry and no other cluster changed.
\<close>

definition wrote :: "geom \<Rightarrow> medium \<Rightarrow> medium \<Rightarrow> nat \<Rightarrow> nat list \<Rightarrow> bytes \<Rightarrow> bool" where
  "wrote g m m' p cs data \<longleftrightarrow>
     distinct cs \<and> set cs \<subseteq> free_clusters g m \<and> p \<notin> set cs \<and> linked g m' (p # cs) \<and>
     (cs \<noteq> [] \<longrightarrow> fat_get g m' (last cs) = EOC) \<and> (cs = [] \<longrightarrow> fat_get g m' p = fat_get g m p) \<and>
     (\<forall>c < g_fatsz g * 128. c \<notin> set (p # cs) \<longrightarrow> fat_get g m' c = fat_get g m c) \<and>
     (\<forall>c. valid g c \<longrightarrow> c \<notin> set cs \<longrightarrow> clus_get g m' c = clus_get g m c) \<and>
     (\<exists>k. concat (map (clus_get g m') cs) = data @ replicate k 0)"

lemma wrote_Nil: "wrote g m m p [] []"
  by (simp add: wrote_def)

lemma wrote_step:
  assumes geo: "geom_ok nsec g" and mok: "medium_ok m" and p: "valid g p" "fat_get g m p \<noteq> 0"
    and c: "c \<in> free_clusters g m" and len: "length piece = g_spc g * 512"
    and m2: "m2 = fat_set g (fat_set g m c EOC) p (of_nat c)" and m3: "m3 = clus_set g m2 c piece"
  shows "d < g_fatsz g * 128 \<Longrightarrow> fat_get g m3 d =
      (if d = p then of_nat c else if d = c then EOC else fat_get g m d)"
    and "valid g d \<Longrightarrow> clus_get g m3 d = (if d = c then piece else clus_get g m d)"
    and "fat_get g m3 c \<noteq> 0"
    and "free_clusters g m3 = free_clusters g m - {c}"
proof -
  have vc: "valid g c" using free_valid [OF geo c] .
  have pc: "p \<noteq> c" using c p(2) by (auto simp: free_clusters_def)
  note lt = valid_fat [OF geo]
  show fg: "fat_get g m3 d = (if d = p then of_nat c else if d = c then EOC else fat_get g m d)"
    if "d < g_fatsz g * 128" for d
    using that lt p(1) vc mok by (simp add: m3 m2 fat_get_clus_set [OF geo vc] fat_get_set)
  show "clus_get g m3 d = (if d = c then piece else clus_get g m d)" if "valid g d"
    using that vc lt p(1) len by (auto simp: m3 m2 clus_get_set valid_def clus_get_fat_set [OF geo])
  show "fat_get g m3 c \<noteq> 0" using fg [OF lt [OF vc]] pc by simp
  have small: "d < g_fatsz g * 128" if "d < 128" for d
    using that geo by (auto simp: geom_ok_def)
  have "fat_get g m3 d = 0 \<longleftrightarrow> fat_get g m d = 0 \<and> d \<noteq> c" if "d < 128" for d
    using fg [OF small [OF that]] valid_u32(4) [OF geo vc] p(2) by auto
  then show "free_clusters g m3 = free_clusters g m - {c}"
    by (auto simp: free_clusters_def)
qed

lemma wrote_Cons:
  assumes geo: "geom_ok nsec g" and mok: "medium_ok m" and p: "valid g p" "fat_get g m p \<noteq> 0"
    and c: "c \<in> free_clusters g m" and len: "length piece = g_spc g * 512"
    and m2: "m2 = fat_set g (fat_set g m c EOC) p (of_nat c)" and m3: "m3 = clus_set g m2 c piece"
    and wr: "wrote g m3 m' c cs rest" and piece: "piece = front @ replicate j 0"
    and j: "j = 0 \<or> cs = [] \<and> rest = []"
  shows "wrote g m m' p (c # cs) (front @ rest)"
proof -
  note step = wrote_step [OF geo mok p c len m2 m3]
  have vc: "valid g c" using free_valid [OF geo c] .
  have pc: "p \<noteq> c" using c p(2) by (auto simp: free_clusters_def)
  have cs: "set cs \<subseteq> free_clusters g m - {c}" using wr step(4) by (simp add: wrote_def)
  have pcs: "p \<notin> set cs" using cs p(2) by (auto simp: free_clusters_def)
  note lt = valid_fat [OF geo]
  have "fat_get g m' p = of_nat c"
    using wr lt [OF p(1)] pc pcs step(1) [OF lt [OF p(1)]] by (simp add: wrote_def)
  then have lk: "linked g m' (p # c # cs)" using wr by (simp add: wrote_def)
  have lst: "fat_get g m' (last (c # cs)) = EOC"
    using wr step(1) [OF lt [OF vc]] pc by (cases "cs = []") (auto simp: wrote_def)
  have oth: "fat_get g m' d = fat_get g m d" if "d < g_fatsz g * 128" "d \<notin> set (p # c # cs)" for d
    using wr that step(1) [OF that(1)] by (simp add: wrote_def)
  have clo: "clus_get g m' d = clus_get g m d" if "valid g d" "d \<notin> set (c # cs)" for d
    using wr that step(2) [OF that(1)] by (simp add: wrote_def)
  have "clus_get g m' c = piece"
    using wr vc cs step(2) [OF vc] by (auto simp: wrote_def)
  moreover obtain k where "concat (map (clus_get g m') cs) = rest @ replicate k 0"
    using wr by (auto simp: wrote_def)
  ultimately have "\<exists>k. concat (map (clus_get g m') (c # cs)) = (front @ rest) @ replicate k 0"
    using j piece by (auto intro: exI [of _ j])
  then show ?thesis
    using wr cs pc pcs lk lst oth clo c by (auto simp: wrote_def)
qed

text \<open>A whole new chain, as \<open>WriteFile\<close> builds it.\<close>

definition stored :: "geom \<Rightarrow> medium \<Rightarrow> medium \<Rightarrow> nat list \<Rightarrow> bytes \<Rightarrow> bool" where
  "stored g m m' cs data \<longleftrightarrow>
     cs \<noteq> [] \<and> distinct cs \<and> set cs \<subseteq> free_clusters g m \<and> linked g m' cs \<and>
     fat_get g m' (last cs) = EOC \<and>
     (\<forall>c < g_fatsz g * 128. c \<notin> set cs \<longrightarrow> fat_get g m' c = fat_get g m c) \<and>
     (\<forall>c. valid g c \<longrightarrow> c \<notin> set cs \<longrightarrow> clus_get g m' c = clus_get g m c) \<and>
     (\<exists>k. concat (map (clus_get g m') cs) = data @ replicate k 0)"

lemma stored_start:
  assumes geo: "geom_ok nsec g" and mok: "medium_ok m"
    and c: "c \<in> free_clusters g m" and len: "length piece = g_spc g * 512"
    and m1: "m1 = clus_set g (fat_set g m c EOC) c piece"
    and wr: "wrote g m1 m' c cs rest" and piece: "piece = front @ replicate j 0"
    and j: "j = 0 \<or> cs = [] \<and> rest = []"
  shows "stored g m m' (c # cs) (front @ rest)"
proof -
  have vc: "valid g c" using free_valid [OF geo c] .
  note lt = valid_fat [OF geo]
  have f1: "fat_get g m1 d = (if d = c then EOC else fat_get g m d)" if "d < g_fatsz g * 128" for d
    using that lt vc mok by (simp add: m1 fat_get_clus_set [OF geo vc] fat_get_set)
  have g1: "clus_get g m1 d = (if d = c then piece else clus_get g m d)" if "valid g d" for d
    using that vc lt len by (auto simp: m1 clus_get_set valid_def clus_get_fat_set [OF geo])
  have small: "d < g_fatsz g * 128" if "d < 128" for d using that geo by (auto simp: geom_ok_def)
  have free1: "free_clusters g m1 = free_clusters g m - {c}"
    using f1 [OF small] by (auto simp: free_clusters_def split: if_splits)
  have lst: "fat_get g m' (last (c # cs)) = EOC"
    using wr f1 [OF lt [OF vc]] by (cases "cs = []") (auto simp: wrote_def)
  have "clus_get g m' c = piece" using wr vc g1 [OF vc] by (auto simp: wrote_def)
  moreover obtain k where "concat (map (clus_get g m') cs) = rest @ replicate k 0"
    using wr by (auto simp: wrote_def)
  ultimately have "\<exists>k. concat (map (clus_get g m') (c # cs)) = (front @ rest) @ replicate k 0"
    using j piece by (auto intro: exI [of _ j])
  then show ?thesis
    using wr lst f1 g1 free1 c by (auto simp: wrote_def stored_def)
qed

lemma stored_eoc:
  assumes geo: "geom_ok nsec g" and mok: "medium_ok m'" and s: "stored g m m' cs data"
  shows "stored g m (fat_set g m' (last cs) EOC) cs data"
proof -
  have v: "valid g c" if "c \<in> set cs" for c
    using that s free_valid [OF geo] by (auto simp: stored_def)
  note lt = valid_fat [OF geo]
  have vl: "valid g (last cs)" using s v by (simp add: stored_def)
  have f: "fat_get g (fat_set g m' (last cs) EOC) c = fat_get g m' c" if "c < g_fatsz g * 128" for c
    using that fat_get_set [OF mok lt [OF vl] that] s by (auto simp: stored_def)
  have k: "clus_get g (fat_set g m' (last cs) EOC) c = clus_get g m' c" if "valid g c" for c
    using clus_get_fat_set [OF geo that lt [OF vl]] .
  have "linked g (fat_set g m' (last cs) EOC) cs = linked g m' cs"
    using f lt v by (intro linked_cong) auto
  moreover have mp: "map (clus_get g (fat_set g m' (last cs) EOC)) cs = map (clus_get g m') cs"
    using k v by (intro map_cong) auto
  ultimately show ?thesis using s f k lt [OF vl] unfolding stored_def mp by simp
qed

lemma stored_chain: "geom_ok nsec g \<Longrightarrow> stored g m m' cs data \<Longrightarrow> chain g m' cs"
  using free_valid by (intro linked_chain) (auto simp: stored_def)

text \<open>Chains in use before keep their links and contents.\<close>

lemma stored_others:
  assumes geo: "geom_ok nsec g" and s: "stored g m m' cs data" and ch: "chain g m ds"
  shows "chain g m' ds \<and> map (clus_get g m') ds = map (clus_get g m) ds"
proof -
  have nz: "fat_get g m d \<noteq> 0" if "d \<in> set ds" for d
    using ch that
  proof (induction ds rule: induct_list012)
    case (3 c e ds)
    have "(of_nat e :: u32) \<noteq> 0"
      using chain_valid [OF 3(3), of e] valid_u32(4) [OF geo, of e] by simp
    then show ?case using 3 by auto
  qed auto
  have d: "d \<notin> set cs" "valid g d" if "d \<in> set ds" for d
    using nz [OF that] s chain_valid [OF ch that] by (auto simp: stored_def free_clusters_def)
  have "chain g m' ds = chain g m ds"
    using s d valid_fat [OF geo] by (intro chain_cong) (simp add: stored_def)
  moreover have "map (clus_get g m') ds = map (clus_get g m) ds"
    using s d by (intro map_cong) (simp_all add: stored_def)
  ultimately show ?thesis using ch by simp
qed

section \<open>Directory entries\<close>

text \<open>The 32 bytes that \<open>AddDirectoryEntry\<close> writes, and the entry they decode to.\<close>

definition dirent_bytes :: "bytes \<Rightarrow> u32 \<Rightarrow> u32 \<Rightarrow> u8 \<Rightarrow> bytes" where
  "dirent_bytes name start fsize attr =
     take 11 name @ [attr] @ replicate 8 0 @ le16_put (ucast (drop_bit 16 start AND 0xFFFF)) @
     replicate 4 0 @ le16_put (ucast (start AND 0xFFFF)) @ le32_put fsize"

lemma length_dirent_bytes [simp]: "11 \<le> length name \<Longrightarrow> length (dirent_bytes name start fsize attr) = 32"
  by (simp add: dirent_bytes_def le_simps)

lemma add_entry_eq:
  assumes "32 * i + 32 \<le> length buf" "11 \<le> length name"
  shows "add_entry buf i name start fsize attr = buf_put (32 * i) (dirent_bytes name start fsize attr) buf"
proof -
  define z where "z = (replicate 32 0 :: bytes)"
  have lz: "length z = 32" by (simp add: z_def)
  define e1 where "e1 = buf_put 0 (take 11 name) z"
  define e2 where "e2 = buf_put 11 [attr] e1"
  define e3 where "e3 = buf_put 20 (le16_put (ucast (drop_bit 16 start AND 0xFFFF))) e2"
  define e4 where "e4 = buf_put 26 (le16_put (ucast (start AND 0xFFFF))) e3"
  define e5 where "e5 = buf_put 28 (le32_put fsize) e4"
  have l: "length e1 = 32" "length e2 = 32" "length e3 = 32" "length e4 = 32"
    using assms(2) by (simp_all add: e1_def e2_def e3_def e4_def lz length_buf_put le_simps)
  have ins: "buf_put (32 * i + k) ys (buf_put (32 * i) e buf) = buf_put (32 * i) (buf_put k ys e) buf"
    if "k + length ys \<le> 32" "length e = 32" for k ys e
    using that assms(1) by (intro buf_put_inside) simp_all
  have s1: "put_name i name (buf_put (32 * i) z buf) = buf_put (32 * i) e1 buf"
    unfolding put_name_def e1_def using ins [of 0 "take 11 name" z] lz by simp
  have s2: "put_attr i attr (buf_put (32 * i) e1 buf) = buf_put (32 * i) e2 buf"
    unfolding put_attr_def e2_def using l by (intro ins) simp_all
  have s3: "put_cluster i start (buf_put (32 * i) e2 buf) = buf_put (32 * i) e4 buf"
    unfolding put_cluster_def e4_def e3_def using l
    by (subst ins, simp add: le_simps, simp) (intro ins, simp_all add: le_simps length_buf_put)
  have s4: "put_size i fsize (buf_put (32 * i) e4 buf) = buf_put (32 * i) e5 buf"
    unfolding put_size_def e5_def using l by (intro ins) (simp_all add: le_simps)
  have "add_entry buf i name start fsize attr = buf_put (32 * i) e5 buf"
    unfolding add_entry_def Let_def z_def [symmetric] s1 s2 s3 s4 ..
  moreover have "e5 = dirent_bytes name start fsize attr"
  proof -
    define nm h w f where "nm = take 11 name" and "h = le16_put (ucast (drop_bit 16 start AND 0xFFFF))"
      and "w = le16_put (ucast (start AND 0xFFFF))" and "f = le32_put fsize"
    have len: "length nm = 11" "length h = 2" "length w = 2" "length f = 4"
      using assms(2) by (simp_all add: nm_def h_def w_def f_def le_simps)
    have "e1 = nm @ replicate 21 0"
      using len by (simp add: e1_def z_def buf_put_def nm_def [symmetric])
    then have "e2 = nm @ [attr] @ replicate 20 0"
      using len by (simp add: e2_def buf_put_def)
    then have "e3 = nm @ [attr] @ replicate 8 0 @ h @ replicate 10 0"
      using len by (simp add: e3_def buf_put_def h_def [symmetric])
    then have "e4 = nm @ [attr] @ replicate 8 0 @ h @ replicate 4 0 @ w @ replicate 4 0"
      using len by (simp add: e4_def buf_put_def w_def [symmetric])
    then show ?thesis
      using len by (simp add: e5_def buf_put_def dirent_bytes_def f_def [symmetric] nm_def [symmetric]
          h_def [symmetric] w_def [symmetric])
  qed
  ultimately show ?thesis by simp
qed

lemma put_in_sector:
  assumes "o' + length xs \<le> 512" "s * 512 + 512 \<le> length buf"
  shows "buf_put (s * 512) (buf_put o' xs (buf_get (s * 512) 512 buf)) buf = buf_put (s * 512 + o') xs buf"
  using assms by (intro nth_equalityI) (auto simp: length_buf_put length_buf_get nth_buf_put nth_buf_get)

lemma get_dirent_put:
  assumes "32 * i + 32 \<le> length buf" "11 \<le> length name"
  shows "get_dirent (buf_put (32 * i) (dirent_bytes name start fsize attr) buf) i =
      \<lparr>de_name = take 11 name, de_attr = attr, de_nt_res = 0, de_crt_time_tenth = 0, de_crt_time = 0,
       de_crt_date = 0, de_lst_acc_date = 0, de_fst_clus_hi = ucast (drop_bit 16 start AND 0xFFFF),
       de_wrt_time = 0, de_wrt_date = 0, de_fst_clus_lo = ucast (start AND 0xFFFF), de_file_size = fsize\<rparr>"
proof -
  let ?e = "dirent_bytes name start fsize attr" and ?b = "buf_put (32 * i) (dirent_bytes name start fsize attr) buf"
  have le: "length ?e = 32" using assms(2) by simp
  have get: "buf_get (32 * i + k) n ?b = buf_get k n ?e" if "k + n \<le> 32" for k n
    using that assms(1) le
    by (intro nth_equalityI) (auto simp: length_buf_get length_buf_put nth_buf_get nth_buf_put)
  have nth: "?b ! (32 * i + k) = ?e ! k" if "k < 32" for k
    using that assms(1) le by (simp add: nth_buf_put)
  have z: "le16_get (replicate 2 0) = 0" by (simp add: le16_get_def numeral_2_eq_2)
  have f: "buf_get 0 11 ?e = take 11 name" "buf_get 14 2 ?e = replicate 2 0" "buf_get 16 2 ?e = replicate 2 0"
    "buf_get 18 2 ?e = replicate 2 0" "buf_get 22 2 ?e = replicate 2 0" "buf_get 24 2 ?e = replicate 2 0"
    "buf_get 20 2 ?e = le16_put (ucast (drop_bit 16 start AND 0xFFFF))"
    "buf_get 26 2 ?e = le16_put (ucast (start AND 0xFFFF))" "buf_get 28 4 ?e = le32_put fsize"
    using assms(2) by (simp_all add: dirent_bytes_def buf_get_def le_simps)
  have h: "?e ! 11 = attr" "?e ! 12 = 0" "?e ! 13 = 0"
    using assms(2) by (simp_all add: dirent_bytes_def nth_append)
  show ?thesis
    unfolding get_dirent_def Let_def using get [of 0 11]
    by (simp add: get nth f h z le_simps)
qed

lemma get_dirent_other:
  assumes "32 * i + 32 \<le> length buf" "32 * j + 32 \<le> length buf" "i \<noteq> j" "length e = 32"
  shows "get_dirent (buf_put (32 * i) e buf) j = get_dirent buf j"
    and "buf_put (32 * i) e buf ! (32 * j) = buf ! (32 * j)"
proof -
  have d: "32 * j + 32 \<le> 32 * i \<or> 32 * i + 32 \<le> 32 * j" using assms(3) by linarith
  have get: "buf_get (32 * j + k) n (buf_put (32 * i) e buf) = buf_get (32 * j + k) n buf" if "k + n \<le> 32" for k n
    using that assms d by (intro buf_get_put_other) auto
  have nth: "buf_put (32 * i) e buf ! (32 * j + k) = buf ! (32 * j + k)" if "k < 32" for k
    using that assms d by (auto simp: nth_buf_put)
  show "get_dirent (buf_put (32 * i) e buf) j = get_dirent buf j"
    unfolding get_dirent_def Let_def using get [of 0 11] by (simp add: get nth)
  show "buf_put (32 * i) e buf ! (32 * j) = buf ! (32 * j)" using nth [of 0] by simp
qed

end
