(* ===== verification/FatOps.thy ===== *)
theory FatOps
  imports FatDisk
begin

text \<open>
  The operations of the FAT32 driver refine the disk functions of \<open>FatDisk\<close>. \<open>fs_st\<close>
  relates a driver to the geometry and to the medium behind its device; each lemma says that
  an operation returns, what it returns and which medium it leaves. They are proved once,
  for every device that keeps the contract \<open>block_device\<close>.
\<close>

definition fs_st :: "'d BlockDevice \<Rightarrow> ('d \<Rightarrow> bool) \<Rightarrow> ('d \<Rightarrow> medium) \<Rightarrow> geom \<Rightarrow> 'd FAT32Driver \<Rightarrow> medium \<Rightarrow> bool" where
  "fs_st ops dinv media g fs m \<longleftrightarrow>
     dev_ops fs = ops \<and> dinv (dev fs) \<and> media (dev fs) = m \<and>
     unat (sec_per_clus fs) = g_spc g \<and> unat (fat_start_lba fs) = g_fat0 g \<and>
     unat (fat_sz32 fs) = g_fatsz g \<and> unat (data_start_lba fs) = g_data0 g \<and>
     root_clus fs = g_root g \<and> (\<forall>n. length (fresh fs n) = n)"

context block_device
begin

abbreviation st :: "geom \<Rightarrow> 'a FAT32Driver \<Rightarrow> medium \<Rightarrow> bool" where
  "st \<equiv> fs_st ops dinv media"

lemma st_medium: "st g fs m \<Longrightarrow> medium_ok m"
  using media_ok by (auto simp: fs_st_def)

lemma st_fresh [simp]: "st g fs m \<Longrightarrow> length (fresh fs n) = n"
  by (simp add: fs_st_def)

lemma st_read:
  assumes "st g fs m" "0 < unat n" "unat n \<le> 255" "unat lba + unat n \<le> nsec" "length buf = unat n * 512"
  shows "\<exists>fs'. dev_Read fs lba buf n = (True, sectors m (unat lba) (unat n), fs') \<and> st g fs' m"
proof -
  have d: "dinv (dev fs)" "media (dev fs) = m" "dev_ops fs = ops"
    using assms(1) by (simp_all add: fs_st_def)
  have "n \<noteq> 0" using assms(2) by auto
  then have "0 < n" by (simp add: word_gt_0)
  from read_ok [OF d(1) this assms(3-5)] obtain d' where
    "bd_Read ops (dev fs) lba buf n = (True, sectors m (unat lba) (unat n), d')" "dinv d'" "media d' = m"
    using d(2) by auto
  then show ?thesis using assms(1) d(3) by (simp add: dev_Read_def fs_st_def)
qed

lemma st_write:
  assumes "st g fs m" "0 < unat n" "unat n \<le> 255" "unat lba + unat n \<le> nsec" "length buf = unat n * 512"
  shows "\<exists>fs'. dev_Write fs lba buf n = (True, fs') \<and> st g fs' (set_sectors m (unat lba) (unat n) buf)"
proof -
  have d: "dinv (dev fs)" "media (dev fs) = m" "dev_ops fs = ops"
    using assms(1) by (simp_all add: fs_st_def)
  have "n \<noteq> 0" using assms(2) by auto
  then have "0 < n" by (simp add: word_gt_0)
  from write_ok [OF d(1) this assms(3-5)] obtain d' where
    "bd_Write ops (dev fs) lba buf n = (True, d')" "dinv d'"
    "media d' = set_sectors m (unat lba) (unat n) buf"
    using d(2) by auto
  then show ?thesis using assms(1) d(3) by (simp add: dev_Write_def fs_st_def)
qed

lemma st_read1:
  "st g fs m \<Longrightarrow> unat lba < nsec \<Longrightarrow> length buf = 512 \<Longrightarrow>
    \<exists>fs'. dev_Read fs lba buf 1 = (True, m (unat lba), fs') \<and> st g fs' m"
  using st_read [of g fs m 1 lba buf] by simp

lemma st_write1:
  "st g fs m \<Longrightarrow> unat lba < nsec \<Longrightarrow> length buf = 512 \<Longrightarrow>
    \<exists>fs'. dev_Write fs lba buf 1 = (True, fs') \<and> st g fs' (m(unat lba := buf))"
  using st_write [of g fs m 1 lba buf] by (simp add: set_sectors_1)

section \<open>Addresses\<close>

lemma spc_st:
  "st g fs m \<Longrightarrow> geom_ok nsec g \<Longrightarrow> unat (sec_per_clus fs) = g_spc g \<and> 0 < g_spc g \<and> g_spc g \<le> 255"
  by (simp add: fs_st_def geom_ok_def)

lemma cluster_bytes_st:
  assumes "st g fs m" "geom_ok nsec g"
  shows "unat (cluster_bytes fs) = g_spc g * 512"
proof -
  have "unat (sec_per_clus fs) * 512 < 2 ^ LENGTH(32)"
    using assms by (simp add: fs_st_def geom_ok_def)
  then show ?thesis using assms(1) by (simp add: cluster_bytes_def unat_word_ariths fs_st_def)
qed

lemma fat_lba_st:
  fixes c :: u32
  assumes "st g fs m" "geom_ok nsec g" "unat c < g_fatsz g * 128"
  shows "unat (fat_start_lba fs + ucast (c div 128)) = g_fat0 g + unat c div 128"
    and "unat (fat_start_lba fs + ucast (c div 128) + ucast (fat_sz32 fs)) =
      g_fat0 g + unat c div 128 + g_fatsz g"
    and "g_fat0 g + unat c div 128 + g_fatsz g < nsec"
proof -
  have ix: "unat c div 128 < g_fatsz g" using fat_index [OF assms(3)] .
  then show lt: "g_fat0 g + unat c div 128 + g_fatsz g < nsec"
    using assms(2) by (simp add: geom_ok_def)
  then have "g_fat0 g + unat c div 128 + g_fatsz g < 2 ^ 64"
    using assms(2) by (simp add: geom_ok_def)
  moreover from this have "unat (fat_start_lba fs + ucast (c div 128)) = g_fat0 g + unat c div 128"
    using assms(1) by (subst unat_add_no_wrap) (auto simp: unat_word_div fs_st_def)
  ultimately show "unat (fat_start_lba fs + ucast (c div 128)) = g_fat0 g + unat c div 128"
    and "unat (fat_start_lba fs + ucast (c div 128) + ucast (fat_sz32 fs)) =
      g_fat0 g + unat c div 128 + g_fatsz g"
    using assms(1) by (simp_all add: unat_add_no_wrap fs_st_def)
qed

lemma ClusterToLBA_st:
  assumes "st g fs m" "geom_ok nsec g" "valid g (unat c)"
  shows "unat (ClusterToLBA fs c) = clus_lba g (unat c)"
proof -
  have sub: "unat (c - 2) = unat c - 2"
    using assms(3) by (simp add: valid_def unat_sub word_le_nat_alt)
  have le: "clus_lba g (unat c) + g_spc g \<le> nsec" and n64: "nsec < 2 ^ 64" and sp: "0 < g_spc g"
    using clus_range(2) [OF assms(2,3)] assms(2) by (simp_all add: geom_ok_def)
  have prod: "unat (ucast (c - 2) * ucast (sec_per_clus fs) :: u64) = (unat c - 2) * g_spc g"
    using le n64 sub assms(1) by (simp add: unat_word_ariths fs_st_def clus_lba_def)
  show ?thesis
    using le n64 sp prod assms(1) unfolding ClusterToLBA_def
    by (subst unat_add_no_wrap) (simp_all add: fs_st_def clus_lba_def)
qed

lemma st_read_cluster:
  assumes "st g fs m" "geom_ok nsec g" "valid g (unat c)" "length buf = g_spc g * 512"
  shows "\<exists>fs'. dev_Read fs (ClusterToLBA fs c) buf (sec_per_clus fs) = (True, clus_get g m (unat c), fs') \<and>
    st g fs' m"
  using st_read [OF assms(1), of "sec_per_clus fs" "ClusterToLBA fs c" buf]
    clus_range(2) [OF assms(2,3)] spc_st [OF assms(1,2)] assms(4)
  unfolding ClusterToLBA_st [OF assms(1-3)] clus_get_def by simp

lemma st_write_cluster:
  assumes "st g fs m" "geom_ok nsec g" "valid g (unat c)" "length buf = g_spc g * 512"
  shows "\<exists>fs'. dev_Write fs (ClusterToLBA fs c) buf (sec_per_clus fs) = (True, fs') \<and>
    st g fs' (clus_set g m (unat c) buf)"
  using st_write [OF assms(1), of "sec_per_clus fs" "ClusterToLBA fs c" buf]
    clus_range(2) [OF assms(2,3)] spc_st [OF assms(1,2)] assms(4)
  unfolding ClusterToLBA_st [OF assms(1-3)] clus_set_def by simp

text \<open>A single sector of a cluster.\<close>

lemma clus_sector_lba:
  assumes "st g fs m" "geom_ok nsec g" "valid g (unat c)" "s < g_spc g"
  shows "unat (ClusterToLBA fs c + of_nat s) = clus_lba g (unat c) + s"
    and "clus_lba g (unat c) + s < nsec"
proof -
  show lt: "clus_lba g (unat c) + s < nsec"
    using clus_range(2) [OF assms(2,3)] assms(4) by linarith
  have n64: "nsec < 2 ^ 64" "g_spc g \<le> 255" using assms(2) by (simp_all add: geom_ok_def)
  have "unat (of_nat s :: u64) = s"
    using assms(4) n64 by (simp add: of_nat_inverse)
  then show "unat (ClusterToLBA fs c + of_nat s) = clus_lba g (unat c) + s"
    using lt n64 ClusterToLBA_st [OF assms(1-3)] by (subst unat_add_no_wrap) simp_all
qed

lemma st_write_sector:
  assumes "st g fs m" "geom_ok nsec g" "valid g (unat c)" "s < g_spc g" "length b = 512"
  shows "\<exists>fs'. dev_Write fs (ClusterToLBA fs c + of_nat s) b 1 = (True, fs') \<and>
    st g fs' (clus_sec_set g m (unat c) s b)"
  using st_write1 [OF assms(1), of "ClusterToLBA fs c + of_nat s" b] clus_sector_lba [OF assms(1-4)] assms(5)
  by (simp add: clus_sec_set_def)

section \<open>The file allocation table\<close>

lemma GetNextCluster_st:
  assumes "st g fs m" "geom_ok nsec g" "unat c < g_fatsz g * 128"
  shows "\<exists>fs'. GetNextCluster fs c = (fat_get g m (unat c) AND 0x0FFFFFFF, fs') \<and> st g fs' m"
proof -
  note lba = fat_lba_st [OF assms]
  from st_read1 [OF assms(1), of "fat_start_lba fs + ucast (c div 128)" "fresh fs 512"] lba
  obtain fs' where "dev_Read fs (fat_start_lba fs + ucast (c div 128)) (fresh fs 512) 1 =
      (True, m (g_fat0 g + unat c div 128), fs')" "st g fs' m"
    using assms(1) by auto
  then show ?thesis
    by (simp add: GetNextCluster_def Let_def fat_get_def unat_word_mod)
qed

lemma LinkCluster_st:
  assumes "st g fs m" "geom_ok nsec g" "unat c < g_fatsz g * 128"
  shows "st g (LinkCluster fs c v) (fat_set g m (unat c) v)"
proof -
  let ?lba = "fat_start_lba fs + ucast (c div 128)" and ?s = "g_fat0 g + unat c div 128"
  note lba = fat_lba_st [OF assms]
  define b where "b = set_fat_entry (m ?s) (unat c mod 128) v"
  have len: "length b = 512"
    using st_medium [OF assms(1)] by (simp add: b_def medium_ok_def)
  obtain fs1 where r: "dev_Read fs ?lba (fresh fs 512) 1 = (True, m ?s, fs1)" "st g fs1 m"
    using st_read1 [OF assms(1), of ?lba "fresh fs 512"] lba assms(1) by auto
  have eq: "fat_sz32 fs1 = fat_sz32 fs"
    using r assms(1) by (auto simp: fs_st_def word_unat_eq_iff)
  obtain fs2 where w: "dev_Write fs1 ?lba b 1 = (True, fs2)" "st g fs2 (m(?s := b))"
    using st_write1 [OF r(2), of ?lba b] lba len by auto
  have eq2: "fat_sz32 fs2 = fat_sz32 fs"
    using w assms(1) by (auto simp: fs_st_def word_unat_eq_iff)
  obtain fs3 where "dev_Write fs2 (?lba + ucast (fat_sz32 fs)) b 1 = (True, fs3)"
    "st g fs3 (m(?s := b, ?s + g_fatsz g := b))"
    using st_write1 [OF w(2), of "?lba + ucast (fat_sz32 fs)" b] lba len by auto
  then show ?thesis
    using r w eq eq2 by (simp add: LinkCluster_def Let_def unat_word_mod b_def fat_set_def)
qed

lemma first_sector:
  "c < 128 \<Longrightarrow> fat_get g m c = fat_entry (m (g_fat0 g)) c"
  "c < 128 \<Longrightarrow> fat_set g m c v = (let b = set_fat_entry (m (g_fat0 g)) c v
     in m(g_fat0 g := b, g_fat0 g + g_fatsz g := b))"
  by (simp_all add: fat_get_def fat_set_def Let_def)

lemma AllocateCluster_st:
  assumes "st g fs m" "geom_ok nsec g"
  shows "\<exists>fs'. AllocateCluster fs = (case first_free g m of None \<Rightarrow> 0 | Some c \<Rightarrow> of_nat c, fs') \<and>
    st g fs' (case first_free g m of None \<Rightarrow> m | Some c \<Rightarrow> fat_set g m c EOC)"
proof -
  have lba: "unat (fat_start_lba fs) = g_fat0 g" "g_fat0 g + g_fatsz g < nsec"
    "unat (fat_start_lba fs + ucast (fat_sz32 fs)) = g_fat0 g + g_fatsz g"
    using fat_lba_st [OF assms, of 0] assms by (simp_all add: geom_ok_def)
  obtain fs1 where r: "dev_Read fs (fat_start_lba fs) (fresh fs 512) 1 = (True, m (g_fat0 g), fs1)" "st g fs1 m"
    using st_read1 [OF assms(1), of "fat_start_lba fs" "fresh fs 512"] lba assms(1) by auto
  have f: "find (\<lambda>i. fat_entry (m (g_fat0 g)) i = 0) [2..<128] = first_free g m"
    unfolding first_free_def by (rule find_upt_cong) (simp add: first_sector(1))
  have eq1: "fat_start_lba fs1 = fat_start_lba fs" "fat_sz32 fs1 = fat_sz32 fs"
    using r(2) assms(1) by (simp_all add: fs_st_def word_unat_eq_iff)
  show ?thesis
  proof (cases "first_free g m")
    case None
    then show ?thesis using r(1,2) f unfolding AllocateCluster_def by simp
  next
    case (Some c)
    then have c: "c < 128" using first_free_Some [OF Some] by (simp add: free_clusters_def)
    define b where "b = set_fat_entry (m (g_fat0 g)) c EOC"
    have len: "length b = 512"
      using st_medium [OF assms(1)] c by (simp add: b_def medium_ok_def)
    obtain fs2 where w: "dev_Write fs1 (fat_start_lba fs) b 1 = (True, fs2)" "st g fs2 (m(g_fat0 g := b))"
      using st_write1 [OF r(2), of "fat_start_lba fs" b] lba len by auto
    have eq2: "fat_start_lba fs2 = fat_start_lba fs" "fat_sz32 fs2 = fat_sz32 fs"
      using w(2) assms(1) by (simp_all add: fs_st_def word_unat_eq_iff)
    obtain fs3 where w3: "dev_Write fs2 (fat_start_lba fs + ucast (fat_sz32 fs)) b 1 = (True, fs3)"
      "st g fs3 (m(g_fat0 g := b, g_fat0 g + g_fatsz g := b))"
      using st_write1 [OF w(2), of "fat_start_lba fs + ucast (fat_sz32 fs)" b] lba len by auto
    have "AllocateCluster fs = (of_nat c, fs3)"
      unfolding AllocateCluster_def by (simp only: r(1) f Some Let_def case_prod_conv option.case
          b_def [symmetric] eq1 w(1) eq2 w3(1))
    then show ?thesis using w3(2) Some c by (simp add: first_sector b_def [symmetric] Let_def)
  qed
qed

lemma GetNextCluster_chain:
  assumes "st g fs m" "geom_ok nsec g" "chain g m (c # cs)"
  shows "\<exists>nx fs'. GetNextCluster fs (of_nat c) = (nx, fs') \<and> st g fs' m \<and>
    (case cs of [] \<Rightarrow> 0x0FFFFFF8 \<le> nx | d # _ \<Rightarrow> nx = of_nat d)"
proof -
  have v: "valid g c" using chain_valid [OF assms(3)] by simp
  from GetNextCluster_st [OF assms(1,2), of "of_nat c"] valid_fat [OF assms(2) v] valid_u32(1) [OF assms(2) v]
  obtain fs' where "GetNextCluster fs (of_nat c) = (fat_get g m c AND 0x0FFFFFFF, fs')" "st g fs' m"
    by auto
  then show ?thesis using assms(3) by (cases cs) auto
qed

text \<open>Releasing a chain: every entry of it becomes zero, in order.\<close>

lemma FreeChain_st:
  assumes "geom_ok nsec g"
  shows "st g fs m \<Longrightarrow> chain g m (c # cs) \<Longrightarrow> distinct (c # cs) \<Longrightarrow>
    \<exists>fs'. FreeChain fs (of_nat c) = Some fs' \<and> st g fs' (fold (\<lambda>c m. fat_set g m c 0) (c # cs) m)"
proof (induction cs arbitrary: fs m c)
  case Nil
  have v: "valid g c" using Nil.prems by simp
  obtain nx fs1 where n: "GetNextCluster fs (of_nat c) = (nx, fs1)" "st g fs1 m" "0x0FFFFFF8 \<le> nx"
    using GetNextCluster_chain [OF Nil.prems(1) assms Nil.prems(2)] by auto
  have "st g (LinkCluster fs1 (of_nat c) 0) (fat_set g m c 0)"
    using LinkCluster_st [OF n(2) assms, of "of_nat c" 0] valid_fat [OF assms v] valid_u32(1) [OF assms v] by simp
  moreover have "FreeChain fs (of_nat c) = Some (LinkCluster fs1 (of_nat c) 0)"
    using n(1) leD [OF n(3)] valid_u32 [OF assms v]
    by (simp add: FreeChain.simps [of fs] FreeChain.simps [of _ nx])
  ultimately show ?case by simp
next
  case (Cons d cs)
  have v: "valid g c" using Cons.prems by simp
  obtain fs1 where n: "GetNextCluster fs (of_nat c) = (of_nat d, fs1)" "st g fs1 m"
    using GetNextCluster_chain [OF Cons.prems(1) assms Cons.prems(2)] by auto
  let ?m = "fat_set g m c 0" and ?fs = "LinkCluster fs1 (of_nat c) 0"
  have st: "st g ?fs ?m"
    using LinkCluster_st [OF n(2) assms, of "of_nat c" 0] valid_fat [OF assms v] valid_u32(1) [OF assms v] by simp
  have ch: "chain g m (d # cs)" using Cons.prems by simp
  have "chain g ?m (d # cs) = chain g m (d # cs)"
  proof (rule chain_cong)
    fix x assume "x \<in> set (d # cs)"
    then have "valid g x" "x \<noteq> c" using chain_valid [OF ch] Cons.prems(3) by auto
    then show "fat_get g ?m x = fat_get g m x"
      using fat_get_set [OF st_medium [OF n(2)]] valid_fat [OF assms] v by simp
  qed
  with ch Cons.IH [OF st] Cons.prems(3) obtain fs' where
    "FreeChain ?fs (of_nat d) = Some fs'" "st g fs' (fold (\<lambda>c m. fat_set g m c 0) (d # cs) ?m)"
    by auto
  moreover have "FreeChain fs (of_nat c) = FreeChain ?fs (of_nat d)"
    using n(1) valid_u32 [OF assms v] by (simp add: FreeChain.simps [of fs])
  ultimately show ?case by simp
qed

section \<open>Reading a chain\<close>

lemma read_loop_done: "read_loop fs out temp c 0 off = Some (out, fs)"
  by (simp add: read_loop.simps [of fs])

lemma read_loop_st:
  assumes "geom_ok nsec g"
  shows "st g fs m \<Longrightarrow> chain g m cs \<Longrightarrow> unat rem \<le> length cs * (g_spc g * 512) \<Longrightarrow>
    length temp = g_spc g * 512 \<Longrightarrow> unat off + unat rem \<le> length out \<Longrightarrow>
    unat off + unat rem < 2 ^ 32 \<Longrightarrow>
    \<exists>fs'. read_loop fs out temp (case cs of [] \<Rightarrow> 0 | c # _ \<Rightarrow> of_nat c) rem off =
      Some (buf_put (unat off) (take (unat rem) (concat (map (clus_get g m) cs))) out, fs') \<and> st g fs' m"
proof (induction cs arbitrary: fs rem off out temp)
  case Nil
  then have "rem = 0" by (simp add: word_unat_eq_iff)
  then show ?case using Nil.prems(1) by (auto simp: read_loop_done buf_put_def)
next
  case (Cons c cs)
  let ?cb = "g_spc g * 512"
  show ?case
  proof (cases "rem = 0")
    case True
    then show ?thesis using Cons.prems(1) by (auto simp: read_loop_done buf_put_def)
  next
    case False
    have v: "valid g c" using chain_valid [OF Cons.prems(2)] by simp
    note u = valid_u32 [OF assms v]
    obtain fs1 where r: "dev_Read fs (ClusterToLBA fs (of_nat c)) temp (sec_per_clus fs) =
        (True, clus_get g m c, fs1)" "st g fs1 m"
      using st_read_cluster [OF Cons.prems(1) assms, of "of_nat c" temp] v u Cons.prems(4) by auto
    obtain nx fs2 where n: "GetNextCluster fs1 (of_nat c) = (nx, fs2)" "st g fs2 m"
      "case cs of [] \<Rightarrow> 0x0FFFFFF8 \<le> nx | d # _ \<Rightarrow> nx = of_nat d"
      using GetNextCluster_chain [OF r(2) assms Cons.prems(2)] by auto
    have cb: "unat (cluster_bytes fs1) = ?cb" using cluster_bytes_st [OF r(2) assms] .
    have len: "length (clus_get g m c) = ?cb" using st_medium [OF r(2)] by simp
    define k where "k = (if rem > cluster_bytes fs1 then cluster_bytes fs1 else rem)"
    have k: "unat k = min (unat rem) ?cb"
      by (auto simp: k_def cb word_less_nat_alt min_def)
    define out' where "out' = buf_put (unat off) (take (unat k) (clus_get g m c)) out"
    have loop: "read_loop fs out temp (of_nat c) rem off =
        read_loop fs2 out' (clus_get g m c) nx (rem - k) (off + k)"
      using False u r(1) n(1)
      by (simp add: read_loop.simps [of fs] word_gt_0 k_def out'_def Let_def)
    have rk: "unat (rem - k) = unat rem - unat k"
      using k by (simp add: unat_sub word_le_nat_alt)
    have ok: "unat (off + k) = unat off + unat k"
      using Cons.prems(6) k by (intro unat_add_no_wrap) simp
    have lo: "length out' = length out"
      using k len Cons.prems(5) by (simp add: out'_def length_buf_put)
    show ?thesis
    proof (cases "unat rem \<le> ?cb")
      case True
      then have "rem = k" using k by (simp add: word_unat_eq_iff min_def)
      then have "read_loop fs out temp (of_nat c) rem off = Some (out', fs2)"
        using loop by (simp add: read_loop_done)
      moreover have "out' = buf_put (unat off) (take (unat rem) (concat (map (clus_get g m) (c # cs)))) out"
        using True k len by (simp add: out'_def min_def)
      ultimately show ?thesis using n(2) by simp
    next
      case False
      then obtain d ds where cs: "cs = d # ds" using Cons.prems(3) by (cases cs) auto
      have "\<exists>fs'. read_loop fs2 out' (clus_get g m c) (case cs of [] \<Rightarrow> 0 | c # _ \<Rightarrow> of_nat c) (rem - k) (off + k) =
          Some (buf_put (unat (off + k)) (take (unat (rem - k)) (concat (map (clus_get g m) cs))) out', fs') \<and>
          st g fs' m"
        using Cons.prems(3,5,6) False k
        by (intro Cons.IH n(2) chain_tl [OF Cons.prems(2)] len) (auto simp: rk ok lo min_def)
      moreover have "buf_put (unat off + unat k) (take (unat rem - unat k) (concat (map (clus_get g m) cs))) out' =
          buf_put (unat off) (take (unat rem) (concat (map (clus_get g m) (c # cs)))) out"
        unfolding out'_def using k len False Cons.prems(5)
        by (subst buf_put_append) (auto simp: min_def)
      ultimately show ?thesis using n(3) loop by (simp add: cs rk ok)
    qed
  qed
qed

section \<open>Writing a chain\<close>

lemma write_piece_st:
  assumes "st g fs m" "geom_ok nsec g" "valid g c" "unat n \<le> g_spc g * 512"
    "unat off + unat n \<le> length data"
  shows "st g (write_piece fs (of_nat c) data off n)
    (clus_set g m c (buf_get (unat off) (unat n) data @ replicate (g_spc g * 512 - unat n) 0))"
proof -
  let ?buf = "buf_put 0 (buf_get (unat off) (unat n) data) (replicate (g_spc g * 512) 0)"
  have buf: "?buf = buf_get (unat off) (unat n) data @ replicate (g_spc g * 512 - unat n) 0"
    using assms(4,5) by (simp add: buf_put_def length_buf_get)
  have len: "length ?buf = g_spc g * 512"
    using assms(4,5) by (simp add: length_buf_put length_buf_get)
  show ?thesis
    using st_write_cluster [OF assms(1,2), of "of_nat c" ?buf] assms(3) valid_u32(1) [OF assms(2,3)] len
      cluster_bytes_st [OF assms(1,2)]
    by (auto simp: write_piece_def buf)
qed

text \<open>
  One round of the write loop: the first free cluster \<open>c\<close> is taken, linked behind
  \<open>prev\<close> and filled.
\<close>

lemma alloc_link_st:
  assumes "st g fs m" "geom_ok nsec g" "first_free g m = Some c" "valid g p"
  shows "\<exists>fs'. AllocateCluster fs = (of_nat c, fs') \<and> st g fs' (fat_set g m c EOC) \<and>
    st g (LinkCluster fs' (of_nat p) (of_nat c)) (fat_set g (fat_set g m c EOC) p (of_nat c))"
proof -
  from AllocateCluster_st [OF assms(1,2)] assms(3) obtain fs' where
    a: "AllocateCluster fs = (of_nat c, fs')" "st g fs' (fat_set g m c EOC)" by auto
  then show ?thesis
    using LinkCluster_st [OF a(2) assms(2), of "of_nat p" "of_nat c"]
      valid_u32(1) [OF assms(2,4)] valid_fat [OF assms(2,4)] by simp
qed

lemma write_loop_done: "write_loop fs data 0 off f p = Some (Some (f, p), fs)"
  by (simp add: write_loop.simps [of fs])

lemma write_loop_st:
  assumes geo: "geom_ok nsec g"
  shows "st g fs m \<Longrightarrow> valid g p \<Longrightarrow> fat_get g m p \<noteq> 0 \<Longrightarrow> f \<noteq> 0 \<Longrightarrow>
    unat rem \<le> n * (g_spc g * 512) \<Longrightarrow> n \<le> card (free_clusters g m) \<Longrightarrow>
    (n - 1) * (g_spc g * 512) < unat rem \<or> n = 0 \<Longrightarrow>
    unat off + unat rem \<le> length data \<Longrightarrow> length data < 2 ^ 32 \<Longrightarrow>
    \<exists>cs m' fs'. write_loop fs data rem off f (of_nat p) =
        Some (Some (f, of_nat (last (p # cs))), fs') \<and> st g fs' m' \<and> length cs = n \<and>
      wrote g m m' p cs (buf_get (unat off) (unat rem) data)"
proof (induction n arbitrary: fs m p rem off)
  case 0
  then have "rem = 0" by (simp add: word_unat_eq_iff)
  then show ?case
    using 0 by (intro exI [of _ "[]"]) (auto simp: write_loop_done wrote_Nil buf_get_def)
next
  case (Suc n)
  let ?cb = "g_spc g * 512"
  obtain c where c: "first_free g m = Some c"
    using Suc.prems(6) first_free_None [of g m] by (cases "first_free g m") auto
  have cf: "c \<in> free_clusters g m" and vc: "valid g c"
    using first_free_Some [OF c] free_valid [OF geo] by auto
  have pc: "p \<noteq> c" using cf Suc.prems(3) by (auto simp: free_clusters_def)
  obtain fs1 where a: "AllocateCluster fs = (of_nat c, fs1)"
    and l: "st g (LinkCluster fs1 (of_nat p) (of_nat c)) (fat_set g (fat_set g m c EOC) p (of_nat c))"
    using alloc_link_st [OF Suc.prems(1) geo c Suc.prems(2)] by auto
  let ?fs2 = "LinkCluster fs1 (of_nat p) (of_nat c)"
  define m2 where "m2 = fat_set g (fat_set g m c EOC) p (of_nat c)"
  have cb: "unat (cluster_bytes ?fs2) = ?cb" using cluster_bytes_st [OF l geo] .
  define k where "k = (if rem > cluster_bytes ?fs2 then cluster_bytes ?fs2 else rem)"
  have k: "unat k = min (unat rem) ?cb"
    by (auto simp: k_def cb word_less_nat_alt min_def)
  have rk: "unat (rem - k) = unat rem - unat k"
    using k by (simp add: unat_sub word_le_nat_alt)
  have ok: "unat (off + k) = unat off + unat k"
    using Suc.prems(8,9) k by (intro unat_add_no_wrap) simp
  define piece where "piece = buf_get (unat off) (unat k) data @ replicate (?cb - unat k) 0"
  define m3 where "m3 = clus_set g m2 c piece"
  have w: "st g (write_piece ?fs2 (of_nat c) data off k) m3"
    unfolding m3_def piece_def using Suc.prems(8) k
    by (intro write_piece_st [OF l [folded m2_def] geo vc]) auto
  have rem0: "0 < rem" using Suc.prems(7) by (auto simp: word_gt_0)
  have loop: "write_loop fs data rem off f (of_nat p) =
      write_loop (write_piece ?fs2 (of_nat c) data off k) data (rem - k) (off + k) f (of_nat c)"
    using rem0 a valid_u32(4) [OF geo vc] Suc.prems(4)
    by (simp add: write_loop.simps [of fs] k_def Let_def)
  have lp: "length piece = ?cb" using k Suc.prems(8) by (simp add: piece_def length_buf_get)
  note step = wrote_step [OF geo st_medium [OF Suc.prems(1)] Suc.prems(2,3) cf lp m2_def m3_def]
  have "\<exists>cs m' fs'. write_loop (write_piece ?fs2 (of_nat c) data off k) data (rem - k) (off + k) f (of_nat c) =
        Some (Some (f, of_nat (last (c # cs))), fs') \<and> st g fs' m' \<and> length cs = n \<and>
      wrote g m3 m' c cs (buf_get (unat (off + k)) (unat (rem - k)) data)"
  proof (rule Suc.IH [OF w vc])
    show "fat_get g m3 c \<noteq> 0" "n \<le> card (free_clusters g m3)"
      using step Suc.prems(6) cf by (auto simp: card_Diff_singleton)
    show "(n - 1) * ?cb < unat (rem - k) \<or> n = 0"
      using Suc.prems(7) k by (cases n) (auto simp: rk min_def)
  qed (use Suc.prems k in \<open>auto simp: rk ok min_def\<close>)
  then obtain cs m' fs' where "write_loop fs data rem off f (of_nat p) =
      Some (Some (f, of_nat (last (c # cs))), fs')" "st g fs' m'" "length cs = n"
    and wr: "wrote g m3 m' c cs (buf_get (unat off + unat k) (unat rem - unat k) data)"
    using loop by (auto simp: rk ok)
  moreover have "wrote g m m' p (c # cs) (buf_get (unat off) (unat k) data @
      buf_get (unat off + unat k) (unat rem - unat k) data)"
    using Suc.prems(7) k \<open>length cs = n\<close>
    by (intro wrote_Cons [OF geo st_medium [OF Suc.prems(1)] Suc.prems(2,3) cf lp m2_def m3_def wr piece_def])
      (cases n, auto simp: min_def buf_get_def)
  moreover have "buf_get (unat off) (unat k) data @ buf_get (unat off + unat k) (unat rem - unat k) data =
      buf_get (unat off) (unat rem) data"
    using k by (simp add: buf_get_split)
  ultimately show ?case by (intro exI [of _ "c # cs"]) auto
qed

end

end
