(* ===== verification/FatFiles.thy ===== *)
theory FatFiles
  imports FatOps
begin

text \<open>
  Directories and whole files on top of the chain operations: creating an entry, finding it
  again, writing a file and reading it back, deleting it. The lemmas are proved inside the
  contract \<open>block_device\<close>.
\<close>

definition free_slot :: "bytes \<Rightarrow> nat \<Rightarrow> bool" where
  "free_slot buf i \<longleftrightarrow> buf ! (32 * i) = 0 \<or> buf ! (32 * i) = 0xE5"

text \<open>The medium after the 32 bytes \<open>e\<close> were stored in slot \<open>k\<close> of the directory cluster \<open>p\<close>.\<close>

definition dir_put :: "geom \<Rightarrow> medium \<Rightarrow> nat \<Rightarrow> nat \<Rightarrow> bytes \<Rightarrow> medium" where
  "dir_put g m p k e =
     clus_sec_set g m p (k div 16) (buf_put (32 * (k mod 16)) e (m (clus_lba g p + k div 16)))"

lemma sector_of_cluster:
  "medium_ok m \<Longrightarrow> s < g_spc g \<Longrightarrow> buf_get (s * 512) 512 (clus_get g m p) = m (clus_lba g p + s)"
  by (simp add: clus_get_def sector_of_sectors)

lemma slot_in_sector:
  assumes "medium_ok m" "s < g_spc g" "i < 16"
  shows "m (clus_lba g p + s) ! (32 * i) = clus_get g m p ! (32 * (16 * s + i))"
proof -
  have "s * 512 + 512 \<le> g_spc g * 512" using assms(2) by simp
  then have "buf_get (s * 512) 512 (clus_get g m p) ! (32 * i) = clus_get g m p ! (s * 512 + 32 * i)"
    using assms by (intro nth_buf_get) simp_all
  then show ?thesis
    using assms by (simp add: sector_of_cluster algebra_simps)
qed

lemma dir_put_ok:
  "medium_ok m \<Longrightarrow> length e = 32 \<Longrightarrow> medium_ok (dir_put g m p k e)"
  by (simp add: dir_put_def length_buf_put medium_ok_def clus_sec_set_def)

lemma clus_get_dir_put:
  assumes "medium_ok m" "k < 16 * g_spc g" "length e = 32"
  shows "clus_get g (dir_put g m p k e) p = buf_put (32 * k) e (clus_get g m p)"
proof -
  have s: "k div 16 < g_spc g" using assms(2) by (simp add: less_mult_imp_div_less mult.commute)
  have i: "32 * (k mod 16) + 32 \<le> 512" by (simp add: mod_less_divisor less_eq_iff_succ_less)
  have len: "length (m (clus_lba g p + k div 16)) = 512" using assms(1) by (simp add: medium_ok_def)
  have "k div 16 * 512 + 512 \<le> g_spc g * 512" using s by simp
  then have "clus_get g (dir_put g m p k e) p = buf_put (k div 16 * 512 + 32 * (k mod 16)) e (clus_get g m p)"
    unfolding dir_put_def
    using clus_get_sec_set [OF assms(1) s, of "buf_put (32 * (k mod 16)) e (m (clus_lba g p + k div 16))"]
      put_in_sector [of "32 * (k mod 16)" e "k div 16" "clus_get g m p"] i len assms
      sector_of_cluster [OF assms(1) s, of p]
    by (simp add: length_buf_put)
  moreover have "k div 16 * 512 + 32 * (k mod 16) = 32 * k"
    using div_mult_mod_eq [of k 16] by linarith
  ultimately show ?thesis by simp
qed

lemma dir_put_frame:
  assumes "geom_ok nsec g" "valid g p" "k < 16 * g_spc g"
  shows "d < g_fatsz g * 128 \<Longrightarrow> fat_get g (dir_put g m p k e) d = fat_get g m d"
    and "valid g d \<Longrightarrow> d \<noteq> p \<Longrightarrow> clus_get g (dir_put g m p k e) d = clus_get g m d"
proof -
  have s: "k div 16 < g_spc g" using assms(3) by (simp add: less_mult_imp_div_less mult.commute)
  show "d < g_fatsz g * 128 \<Longrightarrow> fat_get g (dir_put g m p k e) d = fat_get g m d"
    unfolding dir_put_def by (rule fat_get_sec_set [OF assms(1,2)])
  show "valid g d \<Longrightarrow> d \<noteq> p \<Longrightarrow> clus_get g (dir_put g m p k e) d = clus_get g m d"
    unfolding dir_put_def using assms(2) s by (intro clus_get_sec_other) (auto simp: valid_def)
qed

section \<open>Scanning a directory\<close>

text \<open>No entry before slot \<open>k\<close> is taken for \<open>name\<close>, and none ends the directory.\<close>

definition absent_before :: "bytes \<Rightarrow> bytes \<Rightarrow> nat \<Rightarrow> bool" where
  "absent_before buf name k \<longleftrightarrow> (\<forall>i < k. buf ! (32 * i) \<noteq> 0 \<and>
     (buf ! (32 * i) = 0xE5 \<or> de_attr (get_dirent buf i) = 0x0F \<or>
      \<not> IsNameEqual (de_name (get_dirent buf i)) name))"

definition names_slot :: "bytes \<Rightarrow> bytes \<Rightarrow> nat \<Rightarrow> bool" where
  "names_slot buf name k \<longleftrightarrow> \<not> free_slot buf k \<and> de_attr (get_dirent buf k) \<noteq> 0x0F \<and>
     IsNameEqual (de_name (get_dirent buf k)) name"

lemma scan_found:
  assumes "absent_before buf name k" "names_slot buf name k" "a \<le> k" "k < n"
  shows "scan_entries buf name [a..<n] = Found k"
  using assms(3)
proof (induction "k - a" arbitrary: a)
  case 0
  then have "[a..<n] = k # [Suc k..<n]" using assms(4) by (simp add: upt_conv_Cons)
  then show ?case using assms(2) by (simp add: names_slot_def free_slot_def)
next
  case (Suc d)
  then have "[a..<n] = a # [Suc a..<n]" using assms(4) by (simp add: upt_conv_Cons)
  moreover have "a < k" using Suc by simp
  moreover have "scan_entries buf name [Suc a..<n] = Found k" using Suc by (intro Suc.hyps) auto
  ultimately show ?case using assms(1) by (auto simp: absent_before_def)
qed

text \<open>
  \<open>can_create g m p k path\<close>: the directory cluster \<open>p\<close> is in use, \<open>k\<close> is its first free
  slot, and no entry before it has the name.
\<close>

definition can_create :: "geom \<Rightarrow> medium \<Rightarrow> nat \<Rightarrow> nat \<Rightarrow> bytes \<Rightarrow> bool" where
  "can_create g m p k path \<longleftrightarrow> valid g p \<and> fat_get g m p \<noteq> 0 \<and> k < 16 * g_spc g \<and>
     free_slot (clus_get g m p) k \<and>
     (\<forall>i < k. \<not> free_slot (clus_get g m p) i \<and> (de_attr (get_dirent (clus_get g m p) i) = 0x0F \<or>
        \<not> IsNameEqual (de_name (get_dirent (clus_get g m p) i)) path))"

text \<open>The number of clusters for \<open>n\<close> bytes.\<close>

definition clusters_for :: "geom \<Rightarrow> nat \<Rightarrow> nat" where
  "clusters_for g n = (n + g_spc g * 512 - 1) div (g_spc g * 512)"

lemma clusters_for_bounds:
  assumes "0 < g_spc g" "0 < n"
  shows "n \<le> clusters_for g n * (g_spc g * 512)" "(clusters_for g n - 1) * (g_spc g * 512) < n"
proof -
  define b where "b = g_spc g * 512"
  have b: "0 < b" using assms(1) by (simp add: b_def)
  define q where "q = (n + b - 1) div b"
  have "q * b \<le> n + b - 1" "n + b - 1 < (q + 1) * b"
    using div_times_less_eq_dividend [of "n + b - 1" b] dividend_less_div_times [OF b, of "n + b - 1"]
    by (simp_all add: q_def)
  then have "n \<le> q * b" "(q - 1) * b < n" using b assms(2) by (cases q; simp)+
  then show "n \<le> clusters_for g n * (g_spc g * 512)" "(clusters_for g n - 1) * (g_spc g * 512) < n"
    by (simp_all add: clusters_for_def q_def b_def)
qed

text \<open>A path of one segment.\<close>

lemma next_segment_all:
  "\<forall>c \<in> set p. c \<noteq> 0 \<and> c \<noteq> SLASH \<Longrightarrow> i + length p \<le> 15 \<Longrightarrow> next_segment i p = (p, [])"
  by (induction p arbitrary: i) auto

definition simple_name :: "bytes \<Rightarrow> bool" where
  "simple_name p \<longleftrightarrow> p \<noteq> [] \<and> length p \<le> 15 \<and> (\<forall>c \<in> set p. c \<noteq> 0 \<and> c \<noteq> SLASH)"

text \<open>A file with the given contents: its slot in the directory cluster and its chain.\<close>

definition file_at :: "geom \<Rightarrow> medium \<Rightarrow> nat \<Rightarrow> nat \<Rightarrow> bytes \<Rightarrow> bytes \<Rightarrow> bool" where
  "file_at g m p k path data \<longleftrightarrow> valid g p \<and> k < 16 * g_spc g \<and> absent_before (clus_get g m p) path k \<and>
     names_slot (clus_get g m p) path k \<and> length data < 2 ^ 32 \<and>
     de_file_size (get_dirent (clus_get g m p) k) = of_nat (length data) \<and>
     (\<exists>cs. cs \<noteq> [] \<and> chain g m cs \<and> first_cluster_of (get_dirent (clus_get g m p) k) = of_nat (hd cs) \<and>
        take (length data) (concat (map (clus_get g m) cs)) = data)"

context block_device
begin

lemma target_cluster_same:
  "st g fs m \<Longrightarrow> st g fs' m' \<Longrightarrow> root_clus fs' = root_clus fs \<and> sec_per_clus fs' = sec_per_clus fs"
  by (simp add: fs_st_def word_unat_eq_iff)

lemma ClusterToLBA_same: "st g fs m \<Longrightarrow> st g fs' m' \<Longrightarrow> ClusterToLBA fs' c = ClusterToLBA fs c"
proof -
  assume "st g fs m" "st g fs' m'"
  then have "data_start_lba fs' = data_start_lba fs" "sec_per_clus fs' = sec_per_clus fs"
    by (simp_all add: fs_st_def word_unat_eq_iff)
  then show ?thesis by (simp add: ClusterToLBA_def)
qed

lemma st_read_sector:
  assumes "st g fs m" "geom_ok nsec g" "valid g (unat c)" "s < g_spc g" "length buf = 512"
  shows "\<exists>fs'. dev_Read fs (ClusterToLBA fs c + of_nat s) buf 1 = (True, m (clus_lba g (unat c) + s), fs') \<and>
    st g fs' m"
  using st_read1 [OF assms(1), of "ClusterToLBA fs c + of_nat s" buf] clus_sector_lba [OF assms(1-4)] assms(5)
  by simp

lemma add_loop_st:
  assumes geo: "geom_ok nsec g" and p: "valid g (unat p)" and name: "11 \<le> length name"
    and k: "k < 16 * g_spc g" "free_slot (clus_get g m (unat p)) k"
    and before: "\<And>i. i < k \<Longrightarrow> \<not> free_slot (clus_get g m (unat p)) i"
  shows "st g fs m \<Longrightarrow> a \<le> k div 16 \<Longrightarrow> length buf = 512 \<Longrightarrow> lba = ClusterToLBA fs p \<Longrightarrow>
    st g (add_loop fs lba buf [a..<g_spc g] name start fsize attr)
      (dir_put g m (unat p) k (dirent_bytes name start fsize attr))"
proof (induction "k div 16 - a" arbitrary: a fs buf)
  case 0
  let ?s = "k div 16" and ?sec = "m (clus_lba g (unat p) + k div 16)"
  have s: "?s < g_spc g" using k(1) by (simp add: less_mult_imp_div_less mult.commute)
  have as: "[a..<g_spc g] = ?s # [Suc ?s..<g_spc g]" using 0 s by (simp add: upt_conv_Cons)
  have mok: "medium_ok m" using st_medium [OF 0(2)] .
  obtain fs1 where r: "dev_Read fs (lba + of_nat ?s) buf 1 = (True, ?sec, fs1)" "st g fs1 m"
    using st_read_sector [OF 0(2) geo p s 0(4)] 0(5) by auto
  have slot: "?sec ! (32 * i) = clus_get g m (unat p) ! (32 * (16 * ?s + i))" if "i < 16" for i
    using slot_in_sector [OF mok s that] .
  have kd: "16 * ?s + k mod 16 = k" by simp
  have "find (\<lambda>i. ?sec ! (32 * i) = 0 \<or> ?sec ! (32 * i) = 0xE5) [0..<16] = Some (k mod 16)"
  proof (rule find_upt_SomeI)
    show "?sec ! (32 * (k mod 16)) = 0 \<or> ?sec ! (32 * (k mod 16)) = 0xE5"
      using k(2) slot [of "k mod 16"] by (simp add: free_slot_def)
    fix d assume d: "d < k mod 16"
    then have "16 * ?s + d < k" using kd by linarith
    from before [OF this] show "\<not> (?sec ! (32 * d) = 0 \<or> ?sec ! (32 * d) = 0xE5)"
      using slot [of d] d by (simp add: free_slot_def)
  qed simp_all
  moreover have "add_entry ?sec (k mod 16) name start fsize attr =
      buf_put (32 * (k mod 16)) (dirent_bytes name start fsize attr) ?sec"
    using mok name by (intro add_entry_eq) (simp_all add: medium_ok_def less_eq_iff_succ_less)
  moreover have "length (buf_put (32 * (k mod 16)) (dirent_bytes name start fsize attr) ?sec) = 512"
    using mok name by (subst length_buf_put) (simp_all add: medium_ok_def less_eq_iff_succ_less)
  moreover have "lba = ClusterToLBA fs1 p" using 0(5) ClusterToLBA_same [OF 0(2) r(2)] by simp
  moreover from calculation obtain fs2 where
    "dev_Write fs1 (lba + of_nat ?s) (buf_put (32 * (k mod 16)) (dirent_bytes name start fsize attr) ?sec) 1 = (True, fs2)"
    "st g fs2 (dir_put g m (unat p) k (dirent_bytes name start fsize attr))"
    using st_write_sector [OF r(2) geo p s] unfolding dir_put_def by blast
  ultimately show ?case
    using as r(1) by (simp add: Let_def del: upt_rec_numeral)
next
  case (Suc n)
  then have lt: "a < k div 16" by linarith
  have s: "a < g_spc g" using lt k(1) by (simp add: less_mult_imp_div_less mult.commute)
  have as: "[a..<g_spc g] = a # [Suc a..<g_spc g]" using s by (simp add: upt_conv_Cons)
  let ?sec = "m (clus_lba g (unat p) + a)"
  have mok: "medium_ok m" using st_medium [OF Suc(3)] .
  obtain fs1 where r: "dev_Read fs (lba + of_nat a) buf 1 = (True, ?sec, fs1)" "st g fs1 m"
    using st_read_sector [OF Suc(3) geo p s Suc(5)] Suc(6) by auto
  have "find (\<lambda>i. ?sec ! (32 * i) = 0 \<or> ?sec ! (32 * i) = 0xE5) [0..<16] = None"
    unfolding find_upt_None
  proof (intro allI impI)
    fix i :: nat assume i: "0 \<le> i \<and> i < 16"
    then have "16 * a + i < k" using lt by linarith
    then have "\<not> free_slot (clus_get g m (unat p)) (16 * a + i)" by (rule before)
    moreover have "?sec ! (32 * i) = clus_get g m (unat p) ! (32 * (16 * a + i))"
      using slot_in_sector [OF mok s] i by blast
    ultimately show "\<not> (?sec ! (32 * i) = 0 \<or> ?sec ! (32 * i) = 0xE5)"
      unfolding free_slot_def by metis
  qed
  moreover have "st g (add_loop fs1 lba ?sec [Suc a..<g_spc g] name start fsize attr)
      (dir_put g m (unat p) k (dirent_bytes name start fsize attr))"
    using Suc lt r(2) mok ClusterToLBA_same [OF Suc(3) r(2)]
    by (intro Suc.hyps) (auto simp: medium_ok_def)
  ultimately show ?case using as r(1) by (simp del: upt_rec_numeral)
qed

lemma AddDirectoryEntry_st:
  assumes "st g fs m" "geom_ok nsec g" "p = (if parent = 0 then g_root g else parent)" "valid g (unat p)"
    "11 \<le> length name" "k < 16 * g_spc g" "free_slot (clus_get g m (unat p)) k"
    "\<And>i. i < k \<Longrightarrow> \<not> free_slot (clus_get g m (unat p)) i"
  shows "st g (AddDirectoryEntry fs name start fsize attr parent)
    (dir_put g m (unat p) k (dirent_bytes name start fsize attr))"
proof -
  have "unat (sec_per_clus fs) = g_spc g" "root_clus fs = g_root g"
    using assms(1) by (simp_all add: fs_st_def)
  then have "AddDirectoryEntry fs name start fsize attr parent =
      add_loop fs (ClusterToLBA fs p) (fresh fs 512) [0..<g_spc g] name start fsize attr"
    by (simp add: AddDirectoryEntry_def Let_def assms(3))
  then show ?thesis
    using add_loop_st [OF assms(2,4-8) assms(1) _ _ refl, of 0 "fresh fs 512" start fsize attr] assms(1)
    by simp
qed

section \<open>Finding an entry\<close>

lemma num_entries_st:
  assumes "st g fs m" "geom_ok nsec g" shows "unat (cluster_bytes fs div 32) = 16 * g_spc g"
  using cluster_bytes_st [OF assms] by (simp add: unat_word_div)

lemma FindDirectoryEntry_st:
  assumes "st g fs m" "geom_ok nsec g" "p = (if parent = 0 then g_root g else parent)" "valid g (unat p)"
    and k: "k < 16 * g_spc g" "absent_before (clus_get g m (unat p)) name k"
      "names_slot (clus_get g m (unat p)) name k"
  shows "\<exists>fs'. FindDirectoryEntry fs name parent = (Some (get_dirent (clus_get g m (unat p)) k), fs') \<and> st g fs' m"
proof -
  have rt: "root_clus fs = g_root g" using assms(1) by (simp add: fs_st_def)
  obtain fs1 where r: "dev_Read fs (ClusterToLBA fs p) (fresh fs (unat (cluster_bytes fs))) (sec_per_clus fs) =
      (True, clus_get g m (unat p), fs1)" "st g fs1 m"
    using st_read_cluster [OF assms(1,2,4), of "fresh fs (unat (cluster_bytes fs))"]
      cluster_bytes_st [OF assms(1,2)] assms(1) by auto
  have "scan_cluster fs1 (clus_get g m (unat p)) name = Found k"
    unfolding scan_cluster_def num_entries_st [OF r(2) assms(2)]
    using scan_found [OF k(2,3) _ k(1), of 0] by simp
  moreover have "p < 0x0FFFFFF8" "2 \<le> p"
    using valid_u32(2,3) [OF assms(2,4)] by simp_all
  moreover have "FindDirectoryEntry fs name parent = find_loop fs name (fresh fs (unat (cluster_bytes fs))) p 0"
    by (simp add: FindDirectoryEntry_def rt assms(3))
  ultimately show ?thesis
    using r by (simp add: find_loop.simps [of fs] Let_def)
qed

lemma GetFileEntry_simple:
  assumes "st g fs m" "simple_name path" "p = (if base = 0 then g_root g else base)" "p \<noteq> 0"
  shows "GetFileEntry fs path base = FindDirectoryEntry fs path p"
proof -
  have rt: "root_clus fs = g_root g" using assms(1) by (simp add: fs_st_def)
  have path: "path \<noteq> []" "hd path \<noteq> SLASH" "\<not> at_end path" "next_segment 0 path = (path, [])"
    using assms(2) next_segment_all [of path 0] by (auto simp: simple_name_def at_end_def)
  have "GetFileEntry fs path base = entry_loop fs path p"
    using path by (simp add: GetFileEntry_def rt assms(3))
  also have "\<dots> = FindDirectoryEntry fs path p"
    using path by (simp add: entry_loop.simps [of fs] at_end_def split: prod.split option.split)
  finally show ?thesis .
qed

section \<open>Writing a file\<close>

lemma write_first_st:
  assumes "st g fs m" and geo: "geom_ok nsec g"
    and n: "length data \<le> n * (g_spc g * 512)" "(n - 1) * (g_spc g * 512) < length data"
      "n \<le> card (free_clusters g m)"
    and len: "0 < length data" "length data < 2 ^ 32"
  shows "\<exists>cs m' fs'. write_loop fs data (of_nat (length data)) 0 0 0 =
      Some (Some (of_nat (hd cs), of_nat (last cs)), fs') \<and> st g fs' m' \<and> length cs = n \<and>
      stored g m m' cs data"
proof -
  let ?cb = "g_spc g * 512"
  define rem :: u32 where "rem = of_nat (length data)"
  have rem: "unat rem = length data" using len by (simp add: rem_def of_nat_inverse)
  have "n \<noteq> 0" using n(1) len(1) by (cases n) auto
  then obtain n' where n': "n = Suc n'" by (cases n) auto
  obtain c where c: "first_free g m = Some c"
    using n(3) n' first_free_None [of g m] by (cases "first_free g m") auto
  have cf: "c \<in> free_clusters g m" and vc: "valid g c"
    using first_free_Some [OF c] free_valid [OF geo] by auto
  obtain fs1 where a: "AllocateCluster fs = (of_nat c, fs1)" "st g fs1 (fat_set g m c EOC)"
    using AllocateCluster_st [OF assms(1) geo] c by auto
  have cb: "unat (cluster_bytes fs1) = ?cb" using cluster_bytes_st [OF a(2) geo] .
  define k where "k = (if rem > cluster_bytes fs1 then cluster_bytes fs1 else rem)"
  have k: "unat k = min (length data) ?cb"
    by (auto simp: k_def cb word_less_nat_alt min_def rem)
  have rk: "unat (rem - k) = length data - unat k"
    using k rem by (simp add: unat_sub word_le_nat_alt)
  define piece where "piece = buf_get 0 (unat k) data @ replicate (?cb - unat k) 0"
  define m1 where "m1 = clus_set g (fat_set g m c EOC) c piece"
  have w: "st g (write_piece fs1 (of_nat c) data 0 k) m1"
    using write_piece_st [OF a(2) geo vc, of k 0 data] k by (simp add: m1_def piece_def)
  have lp: "length piece = ?cb" using k by (simp add: piece_def length_buf_get)
  have loop: "write_loop fs data rem 0 0 0 =
      write_loop (write_piece fs1 (of_nat c) data 0 k) data (rem - k) k (of_nat c) (of_nat c)"
    using a rem len(1) valid_u32(4) [OF geo vc]
    by (simp add: write_loop.simps [of fs] k_def Let_def word_gt_0) (auto simp: word_unat_eq_iff)
  note lt = valid_fat [OF geo]
  have mok: "medium_ok m" using st_medium [OF assms(1)] .
  have f1: "fat_get g m1 d = (if d = c then EOC else fat_get g m d)" if "d < g_fatsz g * 128" for d
    using that lt vc mok by (simp add: m1_def fat_get_clus_set [OF geo vc] fat_get_set)
  have small: "d < g_fatsz g * 128" if "d < 128" for d using that geo by (auto simp: geom_ok_def)
  have free1: "free_clusters g m1 = free_clusters g m - {c}"
    using f1 [OF small] by (auto simp: free_clusters_def split: if_splits)
  have "\<exists>cs m' fs'. write_loop (write_piece fs1 (of_nat c) data 0 k) data (rem - k) k (of_nat c) (of_nat c) =
        Some (Some (of_nat c, of_nat (last (c # cs))), fs') \<and> st g fs' m' \<and> length cs = n' \<and>
      wrote g m1 m' c cs (buf_get (unat k) (unat (rem - k)) data)"
  proof (rule write_loop_st [OF geo w vc])
    show "fat_get g m1 c \<noteq> 0" using f1 [OF lt [OF vc]] by simp
    show "n' \<le> card (free_clusters g m1)" using n(3) n' cf by (simp add: free1 card_Diff_singleton)
    show "(n' - 1) * ?cb < unat (rem - k) \<or> n' = 0"
      using n(2) n' k by (cases n') (auto simp: rk min_def)
  qed (use n n' k len valid_u32(4) [OF geo vc] in \<open>auto simp: rk min_def\<close>)
  then obtain cs m' fs' where res: "write_loop fs data rem 0 0 0 =
      Some (Some (of_nat c, of_nat (last (c # cs))), fs')" "st g fs' m'" "length cs = n'"
    and wr: "wrote g m1 m' c cs (buf_get (unat k) (length data - unat k) data)"
    using loop by (auto simp: rk)
  have "stored g m m' (c # cs) (buf_get 0 (unat k) data @ buf_get (unat k) (length data - unat k) data)"
    using n(2) n' k res(3)
    by (intro stored_start [OF geo mok cf lp m1_def wr piece_def]) (cases n', auto simp: min_def buf_get_def)
  moreover have "buf_get 0 (unat k) data @ buf_get (unat k) (length data - unat k) data = data"
    using k buf_get_split [of "unat k" "length data" 0 data] by (simp add: buf_get_all)
  ultimately show ?thesis
    using res n' by (intro exI [of _ "c # cs"] exI [of _ m'] exI [of _ fs']) (simp add: rem_def)
qed

lemma WriteFile_st:
  assumes "st g fs m" and geo: "geom_ok nsec g"
    and p: "p = (if parent = 0 then g_root g else parent)" "can_create g m (unat p) k path"
    and name: "11 \<le> length name"
    and len: "0 < length data" "length data < 2 ^ 32" "clusters_for g (length data) \<le> card (free_clusters g m)"
  shows "\<exists>cs m1 fs'. WriteFile fs name data (of_nat (length data)) parent = Some fs' \<and>
    stored g m m1 cs data \<and> medium_ok m1 \<and>
    st g fs' (dir_put g m1 (unat p) k (dirent_bytes name (of_nat (hd cs)) (of_nat (length data)) 0x20))"
proof -
  have sp: "0 < g_spc g" using geo by (simp add: geom_ok_def)
  obtain cs m' fs1 where w: "write_loop fs data (of_nat (length data)) 0 0 0 =
      Some (Some (of_nat (hd cs), of_nat (last cs)), fs1)" "st g fs1 m'" "stored g m m' cs data"
    using write_first_st [OF assms(1) geo clusters_for_bounds [OF sp len(1)] len(3,1,2)] by auto
  have vl: "valid g (last cs)"
    using w(3) free_valid [OF geo] unfolding stored_def by (meson last_in_set subsetD)
  define m1 where "m1 = fat_set g m' (last cs) EOC"
  have s1: "stored g m m1 cs data" unfolding m1_def by (rule stored_eoc [OF geo st_medium [OF w(2)] w(3)])
  let ?fs2 = "LinkCluster fs1 (of_nat (last cs)) EOC"
  have st2: "st g ?fs2 m1"
    using LinkCluster_st [OF w(2) geo, of "of_nat (last cs)" EOC] valid_u32(1) [OF geo vl] valid_fat [OF geo vl]
    by (simp add: m1_def)
  have "unat p \<notin> set cs" using s1 p(2) by (auto simp: stored_def can_create_def free_clusters_def)
  then have cp: "clus_get g m1 (unat p) = clus_get g m (unat p)"
    using s1 p(2) by (simp add: stored_def can_create_def)
  have "st g (AddDirectoryEntry ?fs2 name (of_nat (hd cs)) (of_nat (length data)) 0x20 parent)
      (dir_put g m1 (unat p) k (dirent_bytes name (of_nat (hd cs)) (of_nat (length data)) 0x20))"
    using p(2) by (intro AddDirectoryEntry_st [OF st2 geo p(1) _ name]) (auto simp: can_create_def cp)
  moreover have "(of_nat (length data) :: u32) \<noteq> 0"
    using len(1,2) of_nat_inverse [of "length data", where ?'a = 32] by force
  ultimately show ?thesis
    using w(1) s1 st_medium [OF st2] by (intro exI [of _ cs] exI [of _ m1]) (simp add: WriteFile_def)
qed

text \<open>The new entry is found under its name.\<close>

lemma created_entry:
  fixes start fsize :: u32
  assumes geo: "geom_ok nsec g" and cc: "can_create g m p k path" and s: "stored g m m1 cs data"
    and mok: "medium_ok m1"
    and name: "11 \<le> length name" "name ! 0 \<noteq> 0" "name ! 0 \<noteq> 0xE5" "IsNameEqual name path"
  defines "e \<equiv> dirent_bytes name start fsize 0x20"
  defines "buf \<equiv> clus_get g (dir_put g m1 p k e) p"
  shows "absent_before buf path k" and "names_slot buf path k"
    and "get_dirent buf k = \<lparr>de_name = take 11 name, de_attr = 0x20, de_nt_res = 0, de_crt_time_tenth = 0,
       de_crt_time = 0, de_crt_date = 0, de_lst_acc_date = 0,
       de_fst_clus_hi = ucast (drop_bit 16 start AND 0xFFFF), de_wrt_time = 0, de_wrt_date = 0,
       de_fst_clus_lo = ucast (start AND 0xFFFF), de_file_size = fsize\<rparr>"
proof -
  let ?old = "clus_get g m p"
  have "p \<notin> set cs" using s cc by (auto simp: stored_def can_create_def free_clusters_def)
  then have cp: "clus_get g m1 p = ?old" using s cc by (simp add: stored_def can_create_def)
  have le: "length e = 32" using name(1) by (simp add: e_def)
  have k: "k < 16 * g_spc g" using cc by (simp add: can_create_def)
  have lo: "length ?old = g_spc g * 512" using cp mok length_clus_get [OF mok, of g p] by simp
  have buf: "buf = buf_put (32 * k) e ?old"
    unfolding buf_def using clus_get_dir_put [OF mok k le] cp by simp
  have kk: "32 * k + 32 \<le> length ?old" using k lo by simp
  show d: "get_dirent buf k = \<lparr>de_name = take 11 name, de_attr = 0x20, de_nt_res = 0, de_crt_time_tenth = 0,
       de_crt_time = 0, de_crt_date = 0, de_lst_acc_date = 0,
       de_fst_clus_hi = ucast (drop_bit 16 start AND 0xFFFF), de_wrt_time = 0, de_wrt_date = 0,
       de_fst_clus_lo = ucast (start AND 0xFFFF), de_file_size = fsize\<rparr>"
    unfolding buf e_def by (rule get_dirent_put [OF kk name(1)])
  have "e ! 0 = name ! 0" using name(1) by (cases name) (auto simp: e_def dirent_bytes_def)
  then have "buf ! (32 * k) = name ! 0" using kk le by (simp add: buf nth_buf_put)
  then show "names_slot buf path k"
    using d name by (simp add: names_slot_def free_slot_def IsNameEqual_def length_convert_name)
  have other: "get_dirent buf i = get_dirent ?old i" "buf ! (32 * i) = ?old ! (32 * i)" if "i < k" for i
    unfolding buf using get_dirent_other [OF kk _ _ le, of i] kk that by simp_all
  show "absent_before buf path k"
    using cc other by (auto simp: absent_before_def can_create_def free_slot_def)
qed

text \<open>A file that was written is on the volume under its name.\<close>

lemma WriteFile_file_at_st:
  assumes "st g fs m" and geo: "geom_ok nsec g"
    and p: "p = (if parent = 0 then g_root g else parent)" "can_create g m (unat p) k path"
    and name: "11 \<le> length name" "name ! 0 \<noteq> 0" "name ! 0 \<noteq> 0xE5" "IsNameEqual name path"
    and len: "0 < length data" "length data < 2 ^ 32" "clusters_for g (length data) \<le> card (free_clusters g m)"
  shows "\<exists>fs1 m1. WriteFile fs name data (of_nat (length data)) parent = Some fs1 \<and>
    st g fs1 m1 \<and> file_at g m1 (unat p) k path data"
proof -
  obtain cs m1 fs1 where w: "WriteFile fs name data (of_nat (length data)) parent = Some fs1"
    "stored g m m1 cs data" "medium_ok m1"
    "st g fs1 (dir_put g m1 (unat p) k (dirent_bytes name (of_nat (hd cs)) (of_nat (length data)) 0x20))"
    using WriteFile_st [OF assms(1) geo p name(1) len] by blast
  define e where "e = dirent_bytes name (of_nat (hd cs)) (of_nat (length data)) 0x20"
  define m2 where "m2 = dir_put g m1 (unat p) k e"
  note ent = created_entry [OF geo p(2) w(2,3) name(1-4), of "of_nat (hd cs)" "of_nat (length data)",
      folded e_def, folded m2_def]
  have vp: "valid g (unat p)" and k: "k < 16 * g_spc g" using p(2) by (simp_all add: can_create_def)
  have pcs: "unat p \<notin> set cs" using w(2) p(2) by (auto simp: stored_def can_create_def free_clusters_def)
  have vcs: "valid g c" if "c \<in> set cs" for c using that w(2) free_valid [OF geo] by (auto simp: stored_def)
  have ch: "chain g m2 cs"
    using stored_chain [OF geo w(2)] dir_put_frame(1) [OF geo vp k] valid_fat [OF geo] vcs
    by (subst m2_def, subst chain_cong) auto
  have cont: "map (clus_get g m2) cs = map (clus_get g m1) cs"
    using dir_put_frame(2) [OF geo vp k] vcs pcs unfolding m2_def by (intro map_cong) auto
  obtain j where j: "concat (map (clus_get g m1) cs) = data @ replicate j 0"
    using w(2) by (auto simp: stored_def)
  have tk: "take (length data) (concat (map (clus_get g m2) cs)) = data" unfolding cont j by simp
  have ne: "cs \<noteq> []" using w(2) by (auto simp: stored_def)
  have "file_at g m2 (unat p) k path data"
    using ent ch tk ne vp k len(2) unfolding file_at_def
    by (auto simp: first_cluster_of_def hi_lo_roundtrip intro!: exI [of _ cs])
  then show ?thesis using w(1,4) by (auto simp: m2_def e_def)
qed

text \<open>A file on the volume is found and read byte for byte.\<close>

lemma GetFileEntry_file_at:
  assumes "st g fs m" "geom_ok nsec g" "p = (if base = 0 then g_root g else base)" "simple_name path"
    and "file_at g m (unat p) k path data"
  shows "\<exists>fs'. GetFileEntry fs path base = (Some (get_dirent (clus_get g m (unat p)) k), fs') \<and> st g fs' m"
proof -
  have f: "valid g (unat p)" "k < 16 * g_spc g" "absent_before (clus_get g m (unat p)) path k"
    "names_slot (clus_get g m (unat p)) path k"
    using assms(5) by (simp_all add: file_at_def)
  have p0: "p \<noteq> 0" using f(1) by (auto simp: valid_def)
  then show ?thesis
    using FindDirectoryEntry_st [OF assms(1,2) _ f, of p] GetFileEntry_simple [OF assms(1,4,3) p0] by auto
qed

lemma GetFileSize_file_at:
  assumes "st g fs m" "geom_ok nsec g" "simple_name path" "file_at g m (unat (g_root g)) k path data"
  shows "\<exists>fs'. GetFileSize fs path = (of_nat (length data), fs') \<and> st g fs' m"
  using GetFileEntry_file_at [OF assms(1,2) _ assms(3,4), of 0] assms(4)
  by (auto simp: GetFileSize_def file_at_def)

lemma ReadFile_file_at:
  assumes "st g fs m" and geo: "geom_ok nsec g" and "p = (if base = 0 then g_root g else base)" "simple_name path"
    and f: "file_at g m (unat p) k path data"
    and out: "length data \<le> unat bsize" "length data \<le> length buffer"
  shows "\<exists>fs'. ReadFile fs path buffer bsize base =
      Some (of_nat (length data), data @ drop (length data) buffer, fs') \<and> st g fs' m"
proof -
  define e where "e = get_dirent (clus_get g m (unat p)) k"
  obtain cs where cs: "cs \<noteq> []" "chain g m cs" "first_cluster_of e = of_nat (hd cs)"
    "de_file_size e = of_nat (length data)"
    "take (length data) (concat (map (clus_get g m) cs)) = data" "length data < 2 ^ 32"
    using f by (auto simp: file_at_def e_def)
  obtain fs2 where g: "GetFileEntry fs path base = (Some e, fs2)" "st g fs2 m"
    using GetFileEntry_file_at [OF assms(1-5)] by (auto simp: e_def)
  have ld: "unat (of_nat (length data) :: u32) = length data" using cs(6) by (simp add: of_nat_inverse)
  have "length (concat (map (clus_get g m) cs)) = length cs * (g_spc g * 512)"
    using st_medium [OF g(2)] by (intro length_concat_chunks) simp
  moreover have "length data \<le> length (concat (map (clus_get g m) cs))"
    using cs(5) by (metis length_take min.cobounded1)
  ultimately have cl: "length data \<le> length cs * (g_spc g * 512)" by simp
  have hd: "(case cs of [] \<Rightarrow> 0 | c # _ \<Rightarrow> of_nat c) = (of_nat (hd cs) :: u32)"
    using cs(1) by (cases cs) auto
  obtain fs3 where "read_loop fs2 buffer (fresh fs2 (unat (cluster_bytes fs2))) (of_nat (hd cs))
      (of_nat (length data)) 0 = Some (buf_put 0 data buffer, fs3)" "st g fs3 m"
    using read_loop_st [OF geo g(2) cs(2), of "of_nat (length data)" "fresh fs2 (unat (cluster_bytes fs2))" 0 buffer]
      cl ld cs(5,6) out(2) cluster_bytes_st [OF g(2) geo] g(2) by (auto simp: hd)
  moreover have "\<not> bsize < of_nat (length data)" using out(1) ld by (simp add: word_less_nat_alt)
  ultimately show ?thesis
    using g(1) cs(3,4) by (simp add: ReadFile_def buf_put_def)
qed

lemma WriteFile_ReadFile_st:
  assumes "st g fs m" and geo: "geom_ok nsec g"
    and p: "p = (if parent = 0 then g_root g else parent)" "can_create g m (unat p) k path"
    and name: "11 \<le> length name" "name ! 0 \<noteq> 0" "name ! 0 \<noteq> 0xE5" "IsNameEqual name path" "simple_name path"
    and len: "0 < length data" "length data < 2 ^ 32" "clusters_for g (length data) \<le> card (free_clusters g m)"
    and out: "length data \<le> unat bsize" "length data \<le> length buffer"
  shows "\<exists>fs1 fs2. WriteFile fs name data (of_nat (length data)) parent = Some fs1 \<and>
    ReadFile fs1 path buffer bsize parent =
      Some (of_nat (length data), data @ drop (length data) buffer, fs2)"
  using WriteFile_file_at_st [OF assms(1) geo p name(1-4) len] ReadFile_file_at [OF _ geo p(1) name(5) _ out]
  by blast

text \<open>What a new file leaves alone.\<close>

lemma WriteFile_frame_st:
  assumes "st g fs m" and geo: "geom_ok nsec g"
    and p: "p = (if parent = 0 then g_root g else parent)" "can_create g m (unat p) k path"
    and name: "11 \<le> length name"
    and len: "0 < length data" "length data < 2 ^ 32" "clusters_for g (length data) \<le> card (free_clusters g m)"
  shows "\<exists>fs' m'. WriteFile fs name data (of_nat (length data)) parent = Some fs' \<and> st g fs' m' \<and>
    (\<forall>ds. chain g m ds \<longrightarrow> chain g m' ds \<and>
      (\<forall>d \<in> set ds. d \<noteq> unat p \<longrightarrow> clus_get g m' d = clus_get g m d)) \<and>
    (\<forall>i < 16 * g_spc g. i \<noteq> k \<longrightarrow>
      get_dirent (clus_get g m' (unat p)) i = get_dirent (clus_get g m (unat p)) i)"
proof -
  obtain cs m1 fs1 where w: "WriteFile fs name data (of_nat (length data)) parent = Some fs1"
    "stored g m m1 cs data" "medium_ok m1"
    "st g fs1 (dir_put g m1 (unat p) k (dirent_bytes name (of_nat (hd cs)) (of_nat (length data)) 0x20))"
    using WriteFile_st [OF assms(1) geo p name(1) len] by blast
  define e where "e = dirent_bytes name (of_nat (hd cs)) (of_nat (length data)) 0x20"
  define m2 where "m2 = dir_put g m1 (unat p) k e"
  have vp: "valid g (unat p)" and k: "k < 16 * g_spc g" using p(2) by (simp_all add: can_create_def)
  note frame = dir_put_frame [OF geo vp k]
  have "chain g m2 ds \<and> (\<forall>d \<in> set ds. d \<noteq> unat p \<longrightarrow> clus_get g m2 d = clus_get g m d)" if ch: "chain g m ds" for ds
  proof
    have old: "chain g m1 ds" "map (clus_get g m1) ds = map (clus_get g m) ds"
      using stored_others [OF geo w(2) ch] by auto
    have v: "valid g d" if "d \<in> set ds" for d using chain_valid [OF ch that] .
    show "chain g m2 ds"
      unfolding m2_def using old(1) frame(1) v valid_fat [OF geo] by (subst chain_cong) auto
    show "\<forall>d \<in> set ds. d \<noteq> unat p \<longrightarrow> clus_get g m2 d = clus_get g m d"
      using old(2) frame(2) v by (auto simp: m2_def)
  qed
  moreover have "get_dirent (clus_get g m2 (unat p)) i = get_dirent (clus_get g m (unat p)) i"
    if "i < 16 * g_spc g" "i \<noteq> k" for i
  proof -
    have le: "length e = 32" using name by (simp add: e_def)
    have "unat p \<notin> set cs" using w(2) p(2) by (auto simp: stored_def can_create_def free_clusters_def)
    then have cp: "clus_get g m1 (unat p) = clus_get g m (unat p)" using w(2) vp by (simp add: stored_def)
    have "clus_get g m2 (unat p) = buf_put (32 * k) e (clus_get g m (unat p))"
      unfolding m2_def using clus_get_dir_put [OF w(3) k le] cp by simp
    moreover have "length (clus_get g m (unat p)) = g_spc g * 512"
      using length_clus_get [OF st_medium [OF assms(1)]] by simp
    ultimately show ?thesis using get_dirent_other(1) [OF _ _ _ le] k that by simp
  qed
  ultimately show ?thesis using w(1,4) by (auto simp: m2_def e_def)
qed

section \<open>Deleting a file\<close>

lemma fat_get_free:
  assumes geo: "geom_ok nsec g"
  shows "medium_ok m \<Longrightarrow> \<forall>c \<in> set cs. valid g c \<Longrightarrow>
    medium_ok (fold (\<lambda>c m. fat_set g m c 0) cs m) \<and>
    (\<forall>d < g_fatsz g * 128. fat_get g (fold (\<lambda>c m. fat_set g m c 0) cs m) d =
      (if d \<in> set cs then 0 else fat_get g m d)) \<and>
    (\<forall>d. valid g d \<longrightarrow> clus_get g (fold (\<lambda>c m. fat_set g m c 0) cs m) d = clus_get g m d)"
proof (induction cs arbitrary: m)
  case (Cons c cs)
  have c: "c < g_fatsz g * 128" using Cons.prems valid_fat [OF geo] by auto
  have "medium_ok (fat_set g m c 0)" using Cons.prems by simp
  note IH = Cons.IH [OF this]
  show ?case
    using IH Cons.prems fat_get_set [OF Cons.prems(1) c] clus_get_fat_set [OF geo _ c] by simp
qed simp

lemma DeleteFile_st:
  assumes "st g fs m" and geo: "geom_ok nsec g"
    and p: "p = (if parent = 0 then g_root g else parent)" "valid g (unat p)"
    and k: "k < 16 * g_spc g" "absent_before (clus_get g m (unat p)) name k"
      "names_slot (clus_get g m (unat p)) name k"
    and c: "first_cluster_of (get_dirent (clus_get g m (unat p)) k) = of_nat c" "chain g m (c # cs)" "distinct (c # cs)"
  shows "\<exists>fs' m'. DeleteFile fs name parent = Some (True, fs') \<and> st g fs' m' \<and>
    (\<forall>d < g_fatsz g * 128. fat_get g m' d = (if d \<in> set (c # cs) then 0 else fat_get g m d)) \<and>
    clus_get g m' (unat p) = (clus_get g m (unat p))[32 * k := 0xE5] \<and>
    (\<forall>d. valid g d \<longrightarrow> d \<noteq> unat p \<longrightarrow> clus_get g m' d = clus_get g m d)"
proof -
  let ?buf = "clus_get g m (unat p)"
  have rt: "root_clus fs = g_root g" using assms(1) by (simp add: fs_st_def)
  obtain fs1 where r: "dev_Read fs (ClusterToLBA fs p) (fresh fs (unat (cluster_bytes fs))) (sec_per_clus fs) =
      (True, ?buf, fs1)" "st g fs1 m"
    using st_read_cluster [OF assms(1) geo p(2), of "fresh fs (unat (cluster_bytes fs))"]
      cluster_bytes_st [OF assms(1) geo] assms(1) by auto
  have scan: "scan_cluster fs1 ?buf name = Found k"
    unfolding scan_cluster_def num_entries_st [OF r(2) geo]
    using scan_found [OF k(2,3) _ k(1), of 0] by simp
  have vc: "\<forall>d \<in> set (c # cs). valid g d" using chain_valid [OF c(2)] by auto
  define m1 where "m1 = fold (\<lambda>c m. fat_set g m c 0) (c # cs) m"
  obtain fs2 where fr: "FreeChain fs1 (of_nat c) = Some fs2" "st g fs2 m1"
    using FreeChain_st [OF geo r(2) c(2,3)] by (auto simp: m1_def)
  note f1 = fat_get_free [OF geo st_medium [OF assms(1)] vc, folded m1_def]
  let ?s = "k div 16"
  have s: "?s < g_spc g" using k(1) by (simp add: less_mult_imp_div_less mult.commute)
  have lb: "length ?buf = g_spc g * 512" using st_medium [OF assms(1)] by simp
  have in_sec: "?s * 512 + 512 \<le> length ?buf" "?s * 512 \<le> 32 * k" "32 * k < ?s * 512 + 512"
    using s lb div_mult_mod_eq [of k 16] mod_less_divisor [of 16 k] by simp_all
  define b where "b = buf_get (?s * 512) 512 (?buf[32 * k := 0xE5])"
  have lenb: "length b = 512" using in_sec(1) by (simp add: b_def length_buf_get)
  obtain fs3 where w: "dev_Write fs2 (ClusterToLBA fs p + of_nat ?s) b 1 = (True, fs3)"
    "st g fs3 (clus_sec_set g m1 (unat p) ?s b)"
    using st_write_sector [OF fr(2) geo p(2) s lenb] ClusterToLBA_same [OF assms(1) fr(2)] by auto
  have nz: "(of_nat c :: u32) \<noteq> 0" "p < 0x0FFFFFF8"
    using valid_u32(4) [OF geo, of c] vc valid_u32(3) [OF geo p(2)] by simp_all
  have "DeleteFile fs name parent = delete_loop fs name (fresh fs (unat (cluster_bytes fs))) p"
    by (simp add: DeleteFile_def rt p(1))
  also have "\<dots> = Some (True, fs3)"
    using nz r(1) scan c(1) fr(1) w(1) by (simp add: delete_loop.simps [of fs] b_def Let_def)
  finally have del: "DeleteFile fs name parent = Some (True, fs3)" .
  have "clus_get g (clus_sec_set g m1 (unat p) ?s b) (unat p) = buf_put (?s * 512) b ?buf"
    using clus_get_sec_set [OF _ s lenb, of m1] f1 p(2) by simp
  also have "\<dots> = ?buf[32 * k := 0xE5]"
    using in_sec by (intro nth_equalityI)
      (auto simp: b_def length_buf_put length_buf_get nth_buf_put nth_buf_get nth_list_update)
  finally have cp: "clus_get g (clus_sec_set g m1 (unat p) ?s b) (unat p) = ?buf[32 * k := 0xE5]" .
  have "\<forall>d < g_fatsz g * 128. fat_get g (clus_sec_set g m1 (unat p) ?s b) d =
      (if d \<in> set (c # cs) then 0 else fat_get g m d)"
    using f1 fat_get_sec_set [OF geo p(2)] by simp
  moreover have "\<forall>d. valid g d \<longrightarrow> d \<noteq> unat p \<longrightarrow>
      clus_get g (clus_sec_set g m1 (unat p) ?s b) d = clus_get g m d"
    using f1 clus_get_sec_other [OF _ _ _ s] p(2) by (simp add: valid_def)
  ultimately show ?thesis using del w(2) cp by blast
qed

end

end
