(* ===== verification/PhysMem.thy ===== *)
theory PhysMem
  imports Prelude
begin

text \<open>
  Byte-addressed physical memory as the kernel and its devices share it: loads and stores of
  byte strings and of 64-bit little-endian words. Addresses wrap around at \<open>2 ^ 64\<close> as the
  machine's do.
\<close>

type_synonym pmem = "u64 \<Rightarrow> u8"

definition mem_load :: "pmem \<Rightarrow> u64 \<Rightarrow> nat \<Rightarrow> bytes" where
  "mem_load mem a n = map (\<lambda>i. mem (a + of_nat i)) [0..<n]"

definition mem_store :: "pmem \<Rightarrow> u64 \<Rightarrow> bytes \<Rightarrow> pmem" where
  "mem_store mem a bs = (\<lambda>x. if unat (x - a) < length bs then bs ! unat (x - a) else mem x)"

lemma length_mem_load [simp]: "length (mem_load mem a n) = n"
  by (simp add: mem_load_def)

lemma mem_load_0 [simp]: "mem_load mem a 0 = []"
  by (simp add: mem_load_def)

lemma mem_store_Nil [simp]: "mem_store mem a [] = mem"
  by (simp add: mem_store_def)

lemma unat_of_nat_u64: "i < 2 ^ 64 \<Longrightarrow> unat (of_nat i :: u64) = i"
  by (simp add: of_nat_inverse)

lemma mem_load_store_same [simp]:
  assumes "length bs \<le> 2 ^ 64" "n = length bs"
  shows "mem_load (mem_store mem a bs) a n = bs"
  using assms by (intro nth_equalityI) (auto simp: mem_load_def mem_store_def unat_of_nat_u64)

lemma mem_load_append: "mem_load mem a (m + n) = mem_load mem a m @ mem_load mem (a + of_nat m) n"
proof -
  have "[0..<m + n] = [0..<m] @ map (\<lambda>i. i + m) [0..<n]"
    using upt_add_eq_append [of 0 m n] map_add_upt [of m n] by (simp add: add.commute [of n m])
  then show ?thesis by (simp add: mem_load_def comp_def algebra_simps)
qed

text \<open>Storing in two adjacent pieces.\<close>

lemma mem_store_append:
  assumes "length xs + length ys \<le> 2 ^ 64"
  shows "mem_store (mem_store mem a xs) (a + of_nat (length xs)) ys = mem_store mem a (xs @ ys)"
proof
  fix x
  let ?d = "unat (x - a)" and ?n = "of_nat (length xs) :: u64"
  show "mem_store (mem_store mem a xs) (a + ?n) ys x = mem_store mem a (xs @ ys) x"
  proof (cases "length xs = 2 ^ 64")
    case True
    then show ?thesis using assms by (simp add: mem_store_def)
  next
    case False
    then have n: "length xs < 2 ^ 64" "unat ?n = length xs"
      using assms by (simp_all add: unat_of_nat_u64)
    have eq: "x - (a + ?n) = (x - a) - ?n" by simp
    show ?thesis
    proof (cases "?d < length xs")
      case True
      then have "unat (x - a - ?n) = ?d + 2 ^ 64 - length xs"
        using n unat_u64_less [of "x - a"] by (simp add: unat_sub_if_size word_size)
      then have "\<not> unat (x - a - ?n) < length ys" using assms by simp
      then show ?thesis using True by (simp add: mem_store_def eq nth_append)
    next
      case False
      then have "unat (x - a - ?n) = ?d - length xs"
        using n by (simp add: unat_sub word_le_nat_alt)
      then show ?thesis using False by (auto simp: mem_store_def eq nth_append)
    qed
  qed
qed

text \<open>Two ranges of addresses with no address in common.\<close>

definition apart :: "u64 \<Rightarrow> nat \<Rightarrow> u64 \<Rightarrow> nat \<Rightarrow> bool" where
  "apart a m b n \<longleftrightarrow> unat a + m \<le> 2 ^ 64 \<and> unat b + n \<le> 2 ^ 64 \<and>
     (unat a + m \<le> unat b \<or> unat b + n \<le> unat a)"

lemma apart_sym: "apart a m b n = apart b n a m"
  by (auto simp: apart_def)

lemma store_apart:
  assumes "apart a m b (length bs)" "i < m"
  shows "mem_store mem b bs (a + of_nat i) = mem (a + of_nat i)"
proof -
  have "unat (a + of_nat i) = unat a + i"
    using assms unat_u64_less [of a] by (subst unat_add_no_wrap) (auto simp: apart_def unat_of_nat_u64)
  then have "\<not> unat (a + of_nat i - b) < length bs"
    using assms unat_u64_less [of b] by (auto simp: apart_def unat_sub_if_size word_size)
  then show ?thesis by (simp add: mem_store_def)
qed

lemma mem_load_apart: "apart a m b (length bs) \<Longrightarrow> mem_load (mem_store mem b bs) a m = mem_load mem a m"
  by (simp add: mem_load_def store_apart)

section \<open>64-bit words\<close>

definition mem_get64 :: "pmem \<Rightarrow> u64 \<Rightarrow> u64" where
  "mem_get64 mem a = le64_get (mem_load mem a 8)"

definition mem_put64 :: "pmem \<Rightarrow> u64 \<Rightarrow> u64 \<Rightarrow> pmem" where
  "mem_put64 mem a v = mem_store mem a (le64_put v)"

lemma mem_get_put64 [simp]: "mem_get64 (mem_put64 mem a v) a = v"
  by (simp add: mem_get64_def mem_put64_def le_simps)

lemma mem_get_put64_apart: "apart a 8 b 8 \<Longrightarrow> mem_get64 (mem_put64 mem b v) a = mem_get64 mem a"
  by (simp add: mem_get64_def mem_put64_def mem_load_apart le_simps)

lemma mem_load_put64_apart: "apart a n b 8 \<Longrightarrow> mem_load (mem_put64 mem b v) a n = mem_load mem a n"
  by (simp add: mem_put64_def mem_load_apart le_simps)

end
