(* ===== verification/NvmeIO.thy ===== *)
theory NvmeIO
  imports BlockDev PhysMem MemoryMgr
begin

text \<open>
  The I/O path of the NVMe driver (\<open>kernel/driver/nvme/nvme_driver.cpp\<close>): building the
  physical region pages of a buffer (\<open>SetupPRPs\<close>), the read and write commands, and the
  submission and completion rings with their phase tag (\<open>SendIOCommand\<close>). The controller is
  hardware: a parameter \<open>ctl\<close>, its reaction to a write of the submission doorbell. What the
  driver relies on is the locale \<open>nvme_controller\<close>, the behaviour the NVMe specification
  gives for one command at a time. From it the driver is shown to be a \<open>block_device\<close>.
\<close>

section \<open>Queue entries and driver state\<close>

record SubmissionQueueEntry =
  sqe_opcode :: u8
  sqe_flags :: u8
  sqe_command_id :: u16
  sqe_nsid :: u32
  sqe_reserved :: u64
  sqe_metadata_ptr :: u64
  sqe_prp1 :: u64
  sqe_prp2 :: u64
  sqe_cdw10 :: u32
  sqe_cdw11 :: u32
  sqe_cdw12 :: u32
  sqe_cdw13 :: u32
  sqe_cdw14 :: u32
  sqe_cdw15 :: u32

definition sqe_zero :: SubmissionQueueEntry where
  "sqe_zero = \<lparr>sqe_opcode = 0, sqe_flags = 0, sqe_command_id = 0, sqe_nsid = 0, sqe_reserved = 0,
     sqe_metadata_ptr = 0, sqe_prp1 = 0, sqe_prp2 = 0, sqe_cdw10 = 0, sqe_cdw11 = 0, sqe_cdw12 = 0,
     sqe_cdw13 = 0, sqe_cdw14 = 0, sqe_cdw15 = 0\<rparr>"

record CompletionQueueEntry =
  cqe_dw0 :: u32
  cqe_dw1 :: u32
  cqe_sq_head :: u16
  cqe_sq_id :: u16
  cqe_command_id :: u16
  cqe_status :: u16

text \<open>
  \<open>nv_buf\<close> is the address of the caller's transfer buffer; \<open>nv_mem\<close> and \<open>nv_mm\<close> are the
  physical memory and the frame allocator the driver shares with the rest of the kernel.
\<close>

record 'c NvmeDriver =
  nv_ctrl :: 'c
  io_sq :: "nat \<Rightarrow> SubmissionQueueEntry"
  io_cq :: "nat \<Rightarrow> CompletionQueueEntry"
  io_sq_tail :: u16
  io_cq_head :: u16
  io_phase :: u8
  io_sq_doorbell :: u32
  io_cq_doorbell :: u32
  namespace_id :: u32
  lba_size :: u32
  nv_mem :: pmem
  nv_mm :: MemoryManager
  nv_buf :: u64

definition queue_depth :: u16 where
  "queue_depth = 32"

type_synonym 'c nvme_ctl =
  "'c \<Rightarrow> u32 \<Rightarrow> (nat \<Rightarrow> SubmissionQueueEntry) \<Rightarrow> pmem \<Rightarrow> (nat \<Rightarrow> CompletionQueueEntry) \<Rightarrow>
    'c \<times> pmem \<times> (nat \<Rightarrow> CompletionQueueEntry)"

section \<open>SetupPRPs\<close>

fun fill_prps :: "pmem \<Rightarrow> u64 \<Rightarrow> u64 \<Rightarrow> nat \<Rightarrow> nat \<Rightarrow> pmem" where
  "fill_prps mem prp_list current_page i 0 = mem"
| "fill_prps mem prp_list current_page i (Suc n) =
     fill_prps (mem_put64 mem (prp_list + 8 * of_nat i) current_page) prp_list (current_page + 4096) (i + 1) n"

definition SetupPRPs :: "MemoryManager \<Rightarrow> pmem \<Rightarrow> SubmissionQueueEntry \<Rightarrow> u64 \<Rightarrow> u32 \<Rightarrow>
    u64 \<times> SubmissionQueueEntry \<times> pmem \<times> MemoryManager" where
  "SetupPRPs mm mem cmd addr sz =
     (let cmd = cmd\<lparr>sqe_prp1 := addr\<rparr>;
          page_size = 4096 :: u32;
          offset = ucast (addr AND (ucast page_size - 1)) :: u32;
          page_capacity = page_size - offset
      in if sz \<le> page_capacity then (0, cmd\<lparr>sqe_prp2 := 0\<rparr>, mem, mm)
         else
           let remaining = sz - page_capacity;
               next_page_addr = (addr AND NOT (ucast page_size - 1)) + ucast page_size
           in if remaining \<le> page_size then (0, cmd\<lparr>sqe_prp2 := next_page_addr\<rparr>, mem, mm)
              else
                let num_pages = (remaining + page_size - 1) div page_size;
                    (prp_list, mm) = Allocate mm 4096
                in (prp_list, cmd\<lparr>sqe_prp2 := prp_list\<rparr>,
                    fill_prps mem prp_list next_page_addr 0 (unat num_pages), mm))"

section \<open>SendIOCommand\<close>

text \<open>
  The polling loop ends when the completion entry at the head carries the expected phase;
  if the controller has not posted it, the loop never ends: \<open>None\<close>.
\<close>

definition SendIOCommand :: "'c nvme_ctl \<Rightarrow> 'c NvmeDriver \<Rightarrow> SubmissionQueueEntry \<Rightarrow> 'c NvmeDriver option" where
  "SendIOCommand ctl d cmd =
     (let d = d\<lparr>io_sq := (io_sq d)(unat (io_sq_tail d) := cmd)\<rparr>;
          tail = io_sq_tail d + 1;
          tail = (if tail \<ge> queue_depth then 0 else tail);
          d = d\<lparr>io_sq_tail := tail, io_sq_doorbell := ucast tail\<rparr>;
          (c, mem, cq) = ctl (nv_ctrl d) (io_sq_doorbell d) (io_sq d) (nv_mem d) (io_cq d);
          d = d\<lparr>nv_ctrl := c, nv_mem := mem, io_cq := cq\<rparr>
      in if cqe_status (io_cq d (unat (io_cq_head d))) AND 1 = ucast (io_phase d)
         then
           let head = io_cq_head d + 1;
               d = (if head \<ge> queue_depth
                    then d\<lparr>io_cq_head := 0, io_phase := (if io_phase d = 0 then 1 else 0)\<rparr>
                    else d\<lparr>io_cq_head := head\<rparr>)
           in Some (d\<lparr>io_cq_doorbell := ucast (io_cq_head d)\<rparr>)
         else None)"

section \<open>ReadLBA and WriteLBA\<close>

definition io_command :: "'c NvmeDriver \<Rightarrow> u8 \<Rightarrow> u64 \<Rightarrow> u16 \<Rightarrow> SubmissionQueueEntry" where
  "io_command d opcode lba count =
     sqe_zero\<lparr>sqe_opcode := opcode, sqe_nsid := namespace_id d,
       sqe_cdw10 := ucast (lba AND 0xFFFFFFFF),
       sqe_cdw11 := ucast (drop_bit 32 lba AND 0xFFFFFFFF),
       sqe_cdw12 := (ucast count - 1) AND 0xFFFF\<rparr>"

definition transfer_LBA :: "'c nvme_ctl \<Rightarrow> 'c NvmeDriver \<Rightarrow> u8 \<Rightarrow> u64 \<Rightarrow> u64 \<Rightarrow> u16 \<Rightarrow> 'c NvmeDriver option" where
  "transfer_LBA ctl d opcode lba buffer count =
     (if count = 0 then Some d
      else
        let cmd = io_command d opcode lba count;
            sz = ucast count * lba_size d;
            (prp_list, cmd, mem, mm) = SetupPRPs (nv_mm d) (nv_mem d) cmd buffer sz
        in case SendIOCommand ctl (d\<lparr>nv_mem := mem, nv_mm := mm\<rparr>) cmd of
             None \<Rightarrow> None
           | Some d \<Rightarrow>
               Some (if prp_list \<noteq> 0 then d\<lparr>nv_mm := Free (nv_mm d) prp_list 4096\<rparr> else d))"

definition ReadLBA :: "'c nvme_ctl \<Rightarrow> 'c NvmeDriver \<Rightarrow> u64 \<Rightarrow> u64 \<Rightarrow> u16 \<Rightarrow> 'c NvmeDriver option" where
  "ReadLBA ctl d lba buffer count = transfer_LBA ctl d 0x02 lba buffer count"

definition WriteLBA :: "'c nvme_ctl \<Rightarrow> 'c NvmeDriver \<Rightarrow> u64 \<Rightarrow> u64 \<Rightarrow> u16 \<Rightarrow> 'c NvmeDriver option" where
  "WriteLBA ctl d lba buffer count = transfer_LBA ctl d 0x01 lba buffer count"

text \<open>
  The overrides of the abstract device. The caller's buffer contents are placed at
  \<open>nv_buf\<close> and taken from there afterwards; the sector count is narrowed to 16 bits by the
  call. Both return true whatever the completion status was. \<open>None\<close> is a driver that hangs
  in the polling loop.
\<close>

definition Nvme_Read :: "'c nvme_ctl \<Rightarrow> 'c NvmeDriver option \<Rightarrow> u64 \<Rightarrow> bytes \<Rightarrow> u32 \<Rightarrow>
    bool \<times> bytes \<times> 'c NvmeDriver option" where
  "Nvme_Read ctl od lba buf count =
     (case od of None \<Rightarrow> (False, buf, None)
      | Some d \<Rightarrow>
          (case ReadLBA ctl (d\<lparr>nv_mem := mem_store (nv_mem d) (nv_buf d) buf\<rparr>) lba (nv_buf d) (ucast count) of
             None \<Rightarrow> (False, buf, None)
           | Some d \<Rightarrow> (True, mem_load (nv_mem d) (nv_buf d) (length buf), Some d)))"

definition Nvme_Write :: "'c nvme_ctl \<Rightarrow> 'c NvmeDriver option \<Rightarrow> u64 \<Rightarrow> bytes \<Rightarrow> u32 \<Rightarrow>
    bool \<times> 'c NvmeDriver option" where
  "Nvme_Write ctl od lba buf count =
     (case od of None \<Rightarrow> (False, None)
      | Some d \<Rightarrow>
          (case WriteLBA ctl (d\<lparr>nv_mem := mem_store (nv_mem d) (nv_buf d) buf\<rparr>) lba (nv_buf d) (ucast count) of
             None \<Rightarrow> (False, None)
           | Some d \<Rightarrow> (True, Some d)))"

definition Nvme_ops :: "'c nvme_ctl \<Rightarrow> 'c NvmeDriver option BlockDevice" where
  "Nvme_ops ctl = \<lparr>bd_Read = Nvme_Read ctl, bd_Write = Nvme_Write ctl, bd_GetBlockSize = (\<lambda>_. 0)\<rparr>"

section \<open>What a command describes\<close>

text \<open>
  The memory segments that PRP1 and PRP2 of a command denote (NVMe base specification,
  section on physical region pages, 4096-byte pages): PRP1 up to its page end; then PRP2
  itself when one page is left, otherwise the pages listed at PRP2.
\<close>

definition prp_segments :: "pmem \<Rightarrow> u64 \<Rightarrow> u64 \<Rightarrow> nat \<Rightarrow> (u64 \<times> nat) list" where
  "prp_segments mem prp1 prp2 n =
     (let cap = 4096 - unat prp1 mod 4096
      in if n \<le> cap then [(prp1, n)]
         else
           let r = n - cap
           in if r \<le> 4096 then [(prp1, cap), (prp2, r)]
              else (prp1, cap) # map (\<lambda>i. (mem_get64 mem (prp2 + 8 * of_nat i), min 4096 (r - 4096 * i)))
                                  [0..<(r + 4095) div 4096])"

definition seg_load :: "pmem \<Rightarrow> (u64 \<times> nat) list \<Rightarrow> bytes" where
  "seg_load mem segs = concat (map (\<lambda>(a, n). mem_load mem a n) segs)"

fun seg_store :: "pmem \<Rightarrow> (u64 \<times> nat) list \<Rightarrow> bytes \<Rightarrow> pmem" where
  "seg_store mem [] data = mem"
| "seg_store mem ((a, n) # segs) data = seg_store (mem_store mem a (take n data)) segs (drop n data)"

definition cmd_lba :: "SubmissionQueueEntry \<Rightarrow> nat" where
  "cmd_lba cmd = unat (ucast (sqe_cdw10 cmd) OR push_bit 32 (ucast (sqe_cdw11 cmd)) :: u64)"

definition cmd_blocks :: "SubmissionQueueEntry \<Rightarrow> nat" where
  "cmd_blocks cmd = unat (sqe_cdw12 cmd AND 0xFFFF) + 1"

text \<open>Segments that follow each other without a gap from address \<open>a\<close> on.\<close>

fun contiguous :: "u64 \<Rightarrow> (u64 \<times> nat) list \<Rightarrow> bool" where
  "contiguous a [] = True"
| "contiguous a ((b, n) # segs) = (b = a \<and> contiguous (a + of_nat n) segs)"

lemma seg_load_contiguous: "contiguous a segs \<Longrightarrow> seg_load mem segs = mem_load mem a (sum_list (map snd segs))"
  by (induction a segs rule: contiguous.induct) (auto simp: seg_load_def mem_load_append)

lemma seg_store_contiguous:
  "contiguous a segs \<Longrightarrow> length data = sum_list (map snd segs) \<Longrightarrow> length data \<le> 2 ^ 64 \<Longrightarrow>
    seg_store mem segs data = mem_store mem a data"
proof (induction a segs arbitrary: mem data rule: contiguous.induct)
  case (2 a b n segs)
  have "seg_store mem ((b, n) # segs) data =
      mem_store (mem_store mem a (take n data)) (a + of_nat (length (take n data))) (drop n data)"
    using 2 by (simp add: min_def)
  also have "\<dots> = mem_store mem a data"
    using 2(4) by (subst mem_store_append) simp_all
  finally show ?case .
qed simp

section \<open>The page lists are right\<close>

lemma page_split: "(addr AND NOT 4095) + 4096 = addr + (4096 - (addr AND 4095))" for addr :: u64
proof -
  have "(addr AND NOT 4095) + (addr AND 4095) = addr"
    by (subst disjunctive_add_eq_or) (rule bit_eqI, auto simp: bit_simps)+
  then show ?thesis by (simp add: algebra_simps)
qed

lemma and_4095: "unat (addr AND 4095 :: u64) = unat addr mod 4096"
proof -
  have "(addr AND 4095) = take_bit 12 addr"
    by (simp add: take_bit_eq_mask mask_eq_exp_minus_1)
  then show ?thesis by (simp add: take_bit_eq_mod unat_word_mod)
qed

lemma list_slot:
  fixes p :: u64
  assumes "unat p + 8 * n \<le> 2 ^ 64" "j < n"
  shows "unat (p + 8 * of_nat j) = unat p + 8 * j"
proof -
  have "unat (8 * of_nat j :: u64) = 8 * j"
    using assms unat_of_nat_u64 [of "8 * j"] by simp
  then show ?thesis using assms by (subst unat_add_no_wrap) simp_all
qed

lemma fill_prps_get:
  "unat p + 8 * (i + n) \<le> 2 ^ 64 \<Longrightarrow> j < i + n \<Longrightarrow>
    mem_get64 (fill_prps mem p cur i n) (p + 8 * of_nat j) =
      (if i \<le> j then cur + 4096 * of_nat (j - i) else mem_get64 mem (p + 8 * of_nat j))"
proof (induction n arbitrary: mem cur i)
  case (Suc n)
  let ?mem = "mem_put64 mem (p + 8 * of_nat i) cur"
  have "mem_get64 (fill_prps mem p cur i (Suc n)) (p + 8 * of_nat j) =
      (if i + 1 \<le> j then cur + 4096 + 4096 * of_nat (j - (i + 1)) else mem_get64 ?mem (p + 8 * of_nat j))"
    using Suc.IH [of "i + 1" ?mem "cur + 4096"] Suc.prems by simp
  moreover have "mem_get64 ?mem (p + 8 * of_nat j) = mem_get64 mem (p + 8 * of_nat j)" if "j < i"
  proof (rule mem_get_put64_apart)
    show "apart (p + 8 * of_nat j) 8 (p + 8 * of_nat i) 8"
      using that Suc.prems list_slot [of p "i + Suc n"] by (simp add: apart_def)
  qed
  moreover have "cur + 4096 + 4096 * of_nat (j - (i + 1)) = cur + 4096 * of_nat (j - i)" if "i + 1 \<le> j"
  proof -
    have "j - i = Suc (j - (i + 1))" using that by simp
    then show ?thesis by (simp only: of_nat_Suc distrib_left) simp
  qed
  ultimately show ?case by (cases "j = i") auto
qed auto

lemma fill_prps_frame:
  "apart a m p (8 * (i + n)) \<Longrightarrow> mem_load (fill_prps mem p cur i n) a m = mem_load mem a m"
proof (induction n arbitrary: mem cur i)
  case (Suc n)
  have "apart a m (p + 8 * of_nat i) 8"
    using Suc.prems list_slot [of p "i + Suc n" i] by (auto simp: apart_def)
  moreover have "apart a m p (8 * ((i + 1) + n))" using Suc.prems by simp
  ultimately show ?case
    using Suc.IH [of "i + 1"] by (simp add: mem_load_put64_apart)
qed simp

lemma sum_pages: "sum_list (map (\<lambda>i. min 4096 (r - 4096 * i)) [0..<n]) = min r (4096 * n)"
  by (induction n) auto

lemma page_segs_contiguous:
  assumes "\<And>i. Suc i < n \<Longrightarrow> 4096 * Suc i \<le> r"
  shows "contiguous (q + 4096 * of_nat i) (map (\<lambda>i. (q + 4096 * of_nat i, min 4096 (r - 4096 * i))) [i..<n])"
proof (induction "n - i" arbitrary: i)
  case (Suc k)
  then have i: "i < n" by simp
  have rest: "contiguous (q + 4096 * of_nat (Suc i))
      (map (\<lambda>i. (q + 4096 * of_nat i, min 4096 (r - 4096 * i))) [Suc i..<n])"
    using Suc by (intro Suc.hyps) simp
  show ?case
  proof (cases "Suc i < n")
    case True
    then have "min 4096 (r - 4096 * i) = 4096" using assms [OF True] by simp
    then show ?thesis using i rest by (simp add: upt_conv_Cons algebra_simps)
  next
    case False
    then show ?thesis using i by (simp add: upt_conv_Cons)
  qed
qed simp

definition same_but_prps :: "SubmissionQueueEntry \<Rightarrow> SubmissionQueueEntry \<Rightarrow> bool" where
  "same_but_prps cmd cmd' \<longleftrightarrow> cmd' = cmd\<lparr>sqe_prp1 := sqe_prp1 cmd', sqe_prp2 := sqe_prp2 cmd'\<rparr>"

text \<open>
  The result of \<open>SetupPRPs\<close> is right: the command's segments are exactly the buffer, no other
  field of the command changed, and either no page was needed or one page was allocated for
  the list and nothing outside it was written.
\<close>

definition prps_ok :: "MemoryManager \<Rightarrow> pmem \<Rightarrow> SubmissionQueueEntry \<Rightarrow> u64 \<Rightarrow> nat \<Rightarrow>
    u64 \<times> SubmissionQueueEntry \<times> pmem \<times> MemoryManager \<Rightarrow> bool" where
  "prps_ok mm mem cmd addr n = (\<lambda>(pl, cmd', mem', mm').
     contiguous addr (prp_segments mem' (sqe_prp1 cmd') (sqe_prp2 cmd') n) \<and>
     sum_list (map snd (prp_segments mem' (sqe_prp1 cmd') (sqe_prp2 cmd') n)) = n \<and>
     same_but_prps cmd cmd' \<and>
     (pl = 0 \<and> mem' = mem \<and> mm' = mm \<or> Allocate mm 4096 = (pl, mm') \<and>
      (\<forall>a m. apart a m pl 4096 \<longrightarrow> mem_load mem' a m = mem_load mem a m)))"

lemma SetupPRPs_ok:
  assumes sz: "0 < unat sz" "unat sz \<le> 0x200000"
    and set: "SetupPRPs mm mem cmd addr sz = (pl, cmd', mem', mm')"
    and pl: "unat (fst (Allocate mm 4096)) + 4096 \<le> 2 ^ 64"
  shows "prps_ok mm mem cmd addr (unat sz) (pl, cmd', mem', mm')"
proof -
  define off where "off = unat addr mod 4096"
  have off: "off < 4096" by (simp add: off_def)
  define cap where "cap = 4096 - off"
  have "unat (ucast (addr AND 4095) :: u32) = off"
    using and_4095 [of addr] off by (simp add: unsigned_ucast_eq take_bit_nat_eq_self off_def)
  then have capw: "unat (4096 - ucast (addr AND 4095) :: u32) = cap"
    using off by (simp add: unat_sub word_le_nat_alt cap_def)
  have cap64: "addr + of_nat cap = (addr AND NOT 4095) + 4096"
  proof -
    have "of_nat cap = (4096 - (addr AND 4095) :: u64)"
      using off and_4095 [of addr]
      by (simp add: cap_def off_def word_unat_eq_iff unat_sub word_le_nat_alt unat_of_nat_u64)
    then show ?thesis unfolding page_split by (simp only:)
  qed
  define r where "r = unat sz - cap"
  have rw: "unat (sz - (4096 - ucast (addr AND 4095))) = r" if "\<not> unat sz \<le> cap"
    using that capw by (simp add: unat_sub word_le_nat_alt r_def)
  consider (one) "unat sz \<le> cap" | (two) "\<not> unat sz \<le> cap" "r \<le> 4096" | (list) "\<not> unat sz \<le> cap" "4096 < r"
    by linarith
  then show ?thesis
  proof cases
    case one
    then have res: "pl = 0" "cmd' = cmd\<lparr>sqe_prp1 := addr, sqe_prp2 := 0\<rparr>" "mem' = mem" "mm' = mm"
      using set capw by (auto simp: SetupPRPs_def Let_def word_le_nat_alt)
    have "prp_segments mem' (sqe_prp1 cmd') (sqe_prp2 cmd') (unat sz) = [(addr, unat sz)]"
      using one by (simp add: res prp_segments_def cap_def off_def)
    then show ?thesis
      by (simp add: prps_ok_def) (simp add: res same_but_prps_def)
  next
    case two
    then have res: "pl = 0" "cmd' = cmd\<lparr>sqe_prp1 := addr, sqe_prp2 := addr + of_nat cap\<rparr>"
      "mem' = mem" "mm' = mm"
      using set capw rw [OF two(1)] cap64 by (auto simp: SetupPRPs_def Let_def word_le_nat_alt)
    have "prp_segments mem' (sqe_prp1 cmd') (sqe_prp2 cmd') (unat sz) = [(addr, cap), (addr + of_nat cap, r)]"
      using two by (simp add: res prp_segments_def cap_def off_def r_def Let_def)
    then show ?thesis
      using two by (simp add: prps_ok_def r_def) (simp add: res same_but_prps_def)
  next
    case list
    define n where "n = (r + 4095) div 4096"
    define q where "q = addr + of_nat cap"
    have r: "r \<le> 0x200000" using sz(2) by (simp add: r_def)
    have n: "n \<le> 512" "r \<le> 4096 * n" using r by (simp_all add: n_def)
    have full: "4096 * Suc i \<le> r" if "Suc i < n" for i using that by (simp add: n_def)
    have nw: "unat ((sz - (4096 - ucast (addr AND 4095)) + 4096 - 1) div 4096 :: u32) = n"
    proof -
      have "sz - (4096 - ucast (addr AND 4095)) + 4096 - 1 = sz - (4096 - ucast (addr AND 4095)) + 4095"
        by simp
      moreover have "unat (sz - (4096 - ucast (addr AND 4095)) + 4095) = r + 4095"
        using r rw [OF list(1)] by (subst unat_add_no_wrap) simp_all
      ultimately show ?thesis by (simp add: unat_word_div n_def)
    qed
    have res: "Allocate mm 4096 = (pl, mm')" "cmd' = cmd\<lparr>sqe_prp1 := addr, sqe_prp2 := pl\<rparr>"
      "mem' = fill_prps mem pl q 0 n"
      using set list capw rw [OF list(1)] cap64 nw
      by (auto simp: SetupPRPs_def Let_def word_le_nat_alt q_def split: prod.splits)
    have pl64: "unat pl + 4096 \<le> 2 ^ 64" using pl res(1) by simp
    have "prp_segments mem' (sqe_prp1 cmd') (sqe_prp2 cmd') (unat sz) =
        (addr, cap) # map (\<lambda>i. (mem_get64 mem' (pl + 8 * of_nat i), min 4096 (r - 4096 * i))) [0..<n]"
      using list by (simp add: res(2) prp_segments_def cap_def off_def r_def Let_def n_def)
    also have "\<dots> = (addr, cap) # map (\<lambda>i. (q + 4096 * of_nat i, min 4096 (r - 4096 * i))) [0..<n]"
      using fill_prps_get [of pl 0 n] pl64 n(1) by (simp add: res(3))
    finally have segs: "prp_segments mem' (sqe_prp1 cmd') (sqe_prp2 cmd') (unat sz) =
        (addr, cap) # map (\<lambda>i. (q + 4096 * of_nat i, min 4096 (r - 4096 * i))) [0..<n]" .
    have "contiguous addr (prp_segments mem' (sqe_prp1 cmd') (sqe_prp2 cmd') (unat sz))"
      using page_segs_contiguous [of n r q 0, OF full] by (simp add: segs q_def)
    moreover have "sum_list (map snd (prp_segments mem' (sqe_prp1 cmd') (sqe_prp2 cmd') (unat sz))) = unat sz"
      using sum_pages [of r n] n(2) list(1) by (simp add: segs comp_def r_def)
    moreover have "mem_load mem' a m = mem_load mem a m" if "apart a m pl 4096" for a m
      unfolding res(3) using that n(1) by (intro fill_prps_frame) (auto simp: apart_def)
    ultimately show ?thesis
      using res(1,2) by (simp add: prps_ok_def same_but_prps_def)
  qed
qed

section \<open>The controller's contract\<close>

text \<open>
  What the NVMe specification promises for a queue pair of 32 entries with one command
  outstanding: when the doorbell announces the entry at the controller's head, the command
  there is executed on the memory its physical region pages denote, a completion with the
  controller's phase tag is posted at its tail, both ring positions advance, and the phase
  tag is inverted when the completion ring wraps.
\<close>

locale nvme_controller =
  fixes ctl :: "'c nvme_ctl"
    and c_inv :: "'c \<Rightarrow> bool"
    and c_head :: "'c \<Rightarrow> nat"
    and c_tail :: "'c \<Rightarrow> nat"
    and c_phase :: "'c \<Rightarrow> bool"
    and c_media :: "'c \<Rightarrow> medium"
    and nsec :: nat
  assumes c_media_ok: "c_inv c \<Longrightarrow> medium_ok (c_media c)"
    and c_bounds: "c_inv c \<Longrightarrow> c_head c < 32 \<and> c_tail c < 32"
    and c_exec: "c_inv c \<Longrightarrow> doorbell = of_nat (Suc (c_head c) mod 32) \<Longrightarrow> cmd = sq (c_head c) \<Longrightarrow>
      sqe_nsid cmd = 1 \<Longrightarrow> sqe_opcode cmd = 1 \<or> sqe_opcode cmd = 2 \<Longrightarrow>
      cmd_lba cmd + cmd_blocks cmd \<le> nsec \<Longrightarrow>
      segs = prp_segments mem (sqe_prp1 cmd) (sqe_prp2 cmd) (cmd_blocks cmd * 512) \<Longrightarrow>
      \<exists>c' cqe. ctl c doorbell sq mem cq =
          (c', if sqe_opcode cmd = 2
               then seg_store mem segs (sectors (c_media c) (cmd_lba cmd) (cmd_blocks cmd)) else mem,
           cq(c_tail c := cqe)) \<and>
        cqe_status cqe AND 1 = of_bool (c_phase c) \<and> c_inv c' \<and>
        c_head c' = Suc (c_head c) mod 32 \<and> c_tail c' = Suc (c_tail c) mod 32 \<and>
        c_phase c' = (if Suc (c_tail c) = 32 then \<not> c_phase c else c_phase c) \<and>
        c_media c' = (if sqe_opcode cmd = 1
          then set_sectors (c_media c) (cmd_lba cmd) (cmd_blocks cmd) (seg_load mem segs) else c_media c)"

text \<open>
  The driver's invariant: its ring positions and expected phase are the controller's, the
  transfer buffer (room for 255 sectors) is in use, and a frame is free for a page list.
\<close>

definition nvme_ring :: "('c \<Rightarrow> bool) \<Rightarrow> ('c \<Rightarrow> nat) \<Rightarrow> ('c \<Rightarrow> nat) \<Rightarrow> ('c \<Rightarrow> bool) \<Rightarrow> 'c NvmeDriver \<Rightarrow> bool" where
  "nvme_ring c_inv c_head c_tail c_phase d \<longleftrightarrow>
     c_inv (nv_ctrl d) \<and> unat (io_sq_tail d) = c_head (nv_ctrl d) \<and>
     unat (io_cq_head d) = c_tail (nv_ctrl d) \<and> io_phase d = of_bool (c_phase (nv_ctrl d))"

definition nvme_inv :: "('c \<Rightarrow> bool) \<Rightarrow> ('c \<Rightarrow> nat) \<Rightarrow> ('c \<Rightarrow> nat) \<Rightarrow> ('c \<Rightarrow> bool) \<Rightarrow> 'c NvmeDriver option \<Rightarrow> bool" where
  "nvme_inv c_inv c_head c_tail c_phase od \<longleftrightarrow> (case od of None \<Rightarrow> False | Some d \<Rightarrow>
     nvme_ring c_inv c_head c_tail c_phase d \<and> namespace_id d = 1 \<and> lba_size d = 512 \<and> mm_inv (nv_mm d) \<and>
     unat (nv_buf d) + 130560 \<le> 2 ^ 64 \<and>
     {unat (nv_buf d) div kFrameSize .. (unat (nv_buf d) + 130559) div kFrameSize} \<subseteq> used_frames (nv_mm d) \<and>
     (\<exists>i. run_free (nv_mm d) 1 i))"

definition nvme_media :: "('c \<Rightarrow> medium) \<Rightarrow> 'c NvmeDriver option \<Rightarrow> medium" where
  "nvme_media c_media od = (case od of None \<Rightarrow> (\<lambda>_. replicate 512 0) | Some d \<Rightarrow> c_media (nv_ctrl d))"

lemma list_page:
  assumes inv: "mm_inv mm" and free: "\<exists>i. run_free mm 1 i"
    and buf: "unat b + 130560 \<le> 2 ^ 64"
      "{unat b div kFrameSize .. (unat b + 130559) div kFrameSize} \<subseteq> used_frames mm"
    and al: "Allocate mm 4096 = (p, mm')"
  shows "p \<noteq> 0" "unat p + 4096 \<le> 2 ^ 64" "n \<le> 130560 \<Longrightarrow> apart b n p 4096" "Free mm' p 4096 = mm"
proof -
  have adm: "admissible 4096" by (simp add: admissible_def)
  have f1: "frames_of 4096 = 1" by (simp add: frames_of_def kFrameSize_def)
  have res: "alloc_result mm 1 p mm'" using Allocate_result [OF inv adm] al f1 by simp
  then show p0: "p \<noteq> 0" using free by (auto simp: alloc_result_def)
  from res p0 obtain i where i: "i < total_frames mm" "p = of_nat (i * kFrameSize)" "run_free mm 1 i"
    by (auto simp: alloc_result_def)
  have ui: "unat p = i * 4096" using frame_address [of i] total_frames_less [of mm] i
    by (simp add: kFrameSize_def)
  show pb: "unat p + 4096 \<le> 2 ^ 64" using ui i(1) total_frames_less [of mm] by simp
  have "i \<notin> used_frames mm" using i(3) by (simp add: run_free_def)
  then have "\<not> (unat b div 4096 \<le> i \<and> i \<le> (unat b + 130559) div 4096)"
    using buf(2) unfolding kFrameSize_def by (meson atLeastAtMost_iff subsetD)
  then have "i < unat b div 4096 \<or> (unat b + 130559) div 4096 < i" by linarith
  then have "unat p + 4096 \<le> unat b \<or> unat b + 130560 \<le> unat p" using ui by (auto simp: less_eq_div_iff_mult_less_eq Suc_le_eq [symmetric])
  then show "n \<le> 130560 \<Longrightarrow> apart b n p 4096" using pb buf(1) by (auto simp: apart_def)
  show "Free mm' p 4096 = mm" by (rule Free_Allocate [OF inv adm al p0])
qed

context nvme_controller
begin

abbreviation ninv :: "'c NvmeDriver option \<Rightarrow> bool" where
  "ninv \<equiv> nvme_inv c_inv c_head c_tail c_phase"

abbreviation nring :: "'c NvmeDriver \<Rightarrow> bool" where
  "nring \<equiv> nvme_ring c_inv c_head c_tail c_phase"

lemma ring_step:
  assumes "unat (t :: u16) < 32"
  shows "unat (if t + 1 \<ge> queue_depth then 0 else t + 1) = Suc (unat t) mod 32"
    and "t + 1 \<ge> queue_depth \<longleftrightarrow> Suc (unat t) = 32"
proof -
  have u: "unat (t + 1) = Suc (unat t)" using assms by (subst unat_add_no_wrap) simp_all
  then show q: "t + 1 \<ge> queue_depth \<longleftrightarrow> Suc (unat t) = 32"
    using assms by (auto simp: queue_depth_def word_le_nat_alt)
  show "unat (if t + 1 \<ge> queue_depth then 0 else t + 1) = Suc (unat t) mod 32"
    using assms u by (auto simp: q)
qed

lemma SendIOCommand_ok:
  assumes inv: "nring d" and cmd: "sqe_nsid cmd = 1" "sqe_opcode cmd = 1 \<or> sqe_opcode cmd = 2"
    "cmd_lba cmd + cmd_blocks cmd \<le> nsec"
    and segs: "segs = prp_segments (nv_mem d) (sqe_prp1 cmd) (sqe_prp2 cmd) (cmd_blocks cmd * 512)"
  shows "\<exists>d'. SendIOCommand ctl d cmd = Some d' \<and> nring d' \<and>
    (nv_mm d' = nv_mm d \<and> nv_buf d' = nv_buf d \<and> namespace_id d' = namespace_id d \<and> lba_size d' = lba_size d) \<and>
    nv_mem d' = (if sqe_opcode cmd = 2
      then seg_store (nv_mem d) segs (sectors (c_media (nv_ctrl d)) (cmd_lba cmd) (cmd_blocks cmd))
      else nv_mem d) \<and>
    c_media (nv_ctrl d') = (if sqe_opcode cmd = 1
      then set_sectors (c_media (nv_ctrl d)) (cmd_lba cmd) (cmd_blocks cmd) (seg_load (nv_mem d) segs)
      else c_media (nv_ctrl d))"
proof -
  let ?c = "nv_ctrl d"
  have ci: "c_inv ?c" and ht: "unat (io_sq_tail d) = c_head ?c" "unat (io_cq_head d) = c_tail ?c"
    and ph: "io_phase d = of_bool (c_phase ?c)"
    using inv by (simp_all add: nvme_ring_def)
  note b = c_bounds [OF ci]
  define t where "t = (if io_sq_tail d + 1 \<ge> queue_depth then 0 else io_sq_tail d + 1)"
  have ut: "unat t = Suc (c_head ?c) mod 32"
    using ring_step(1) [of "io_sq_tail d"] b ht by (simp add: t_def)
  have db: "(ucast t :: u32) = of_nat (Suc (c_head ?c) mod 32)"
    by (simp flip: ut)
  define sq where "sq = (io_sq d)(unat (io_sq_tail d) := cmd)"
  have sqc: "cmd = sq (c_head ?c)" using ht by (simp add: sq_def)
  obtain c' cqe where ex: "ctl ?c (ucast t) sq (nv_mem d) (io_cq d) =
      (c', if sqe_opcode cmd = 2
           then seg_store (nv_mem d) segs (sectors (c_media ?c) (cmd_lba cmd) (cmd_blocks cmd)) else nv_mem d,
       (io_cq d)(c_tail ?c := cqe))" "cqe_status cqe AND 1 = of_bool (c_phase ?c)" "c_inv c'"
    "c_head c' = Suc (c_head ?c) mod 32" "c_tail c' = Suc (c_tail ?c) mod 32"
    "c_phase c' = (if Suc (c_tail ?c) = 32 then \<not> c_phase ?c else c_phase ?c)"
    "c_media c' = (if sqe_opcode cmd = 1
        then set_sectors (c_media ?c) (cmd_lba cmd) (cmd_blocks cmd) (seg_load (nv_mem d) segs) else c_media ?c)"
    using c_exec [where sq = sq and cq = "io_cq d", OF ci db sqc cmd segs] by blast
  have hd: "unat (if io_cq_head d + 1 \<ge> queue_depth then 0 else io_cq_head d + 1) = Suc (c_tail ?c) mod 32"
    "io_cq_head d + 1 \<ge> queue_depth \<longleftrightarrow> Suc (c_tail ?c) = 32"
    using ring_step [of "io_cq_head d"] b ht by simp_all
  define d' where "d' = d\<lparr>io_sq := sq, io_sq_tail := t, io_sq_doorbell := ucast t, nv_ctrl := c',
      nv_mem := (if sqe_opcode cmd = 2
           then seg_store (nv_mem d) segs (sectors (c_media ?c) (cmd_lba cmd) (cmd_blocks cmd)) else nv_mem d),
      io_cq := (io_cq d)(c_tail ?c := cqe),
      io_cq_head := (if io_cq_head d + 1 \<ge> queue_depth then 0 else io_cq_head d + 1),
      io_phase := (if io_cq_head d + 1 \<ge> queue_depth then (if io_phase d = 0 then 1 else 0) else io_phase d),
      io_cq_doorbell := ucast (if io_cq_head d + 1 \<ge> queue_depth then 0 else io_cq_head d + 1)\<rparr>"
  have "SendIOCommand ctl d cmd = Some d'"
    using ex(1,2) ht(2) ph
    by (cases "queue_depth \<le> io_sq_tail d + 1"; cases "queue_depth \<le> io_cq_head d + 1"; cases "c_phase ?c")
      (simp_all add: SendIOCommand_def Let_def t_def sq_def d'_def)
  moreover have "nring d'"
    using ex(3-6) ut hd ph by (simp add: nvme_ring_def d'_def)
  ultimately show ?thesis using ex(7) by (simp add: d'_def)
qed

lemma io_command_fields:
  assumes "0 < unat count"
  shows "cmd_lba (io_command d opcode lba count) = unat lba"
    and "cmd_blocks (io_command d opcode lba count) = unat count"
    and "sqe_opcode (io_command d opcode lba count) = opcode"
    and "sqe_nsid (io_command d opcode lba count) = namespace_id d"
proof -
  have m32: "(v AND 0xFFFFFFFF) = take_bit 32 v" for v :: u64
    by (simp add: take_bit_eq_mask mask_eq_exp_minus_1)
  have "(ucast (ucast (lba AND 0xFFFFFFFF) :: u32) :: u64) OR
      push_bit 32 (ucast (ucast (drop_bit 32 lba AND 0xFFFFFFFF) :: u32)) = lba"
    unfolding m32 by (rule bit_word_eqI) (auto simp: bit_simps)
  then show "cmd_lba (io_command d opcode lba count) = unat lba"
    by (simp add: cmd_lba_def io_command_def)
  have "count \<noteq> 0" using assms by auto
  then have "(1 :: u32) \<le> ucast count"
    using assms by (simp add: word_le_nat_alt)
  then have "unat ((ucast count :: u32) - 1) = unat count - 1"
    by (simp add: unat_sub)
  then have "unat (((ucast count :: u32) - 1) AND 0xFFFF) = unat count - 1"
    using unat_u16_less [of count]
    by (simp add: and_0xFFFF unsigned_take_bit_eq take_bit_nat_eq_self)
  then show "cmd_blocks (io_command d opcode lba count) = unat count"
    using assms by (simp add: cmd_blocks_def io_command_def)
qed (simp_all add: io_command_def)

lemma same_but_prps_fields:
  "same_but_prps cmd cmd' \<Longrightarrow> cmd_lba cmd' = cmd_lba cmd \<and> cmd_blocks cmd' = cmd_blocks cmd \<and>
    sqe_opcode cmd' = sqe_opcode cmd \<and> sqe_nsid cmd' = sqe_nsid cmd"
proof -
  assume "same_but_prps cmd cmd'"
  then obtain a b where "cmd' = cmd\<lparr>sqe_prp1 := a, sqe_prp2 := b\<rparr>" by (auto simp: same_but_prps_def)
  then show ?thesis by (simp add: cmd_lba_def cmd_blocks_def)
qed

lemma transfer_ok:
  assumes inv: "ninv (Some d)" and n: "0 < unat count" "unat count \<le> 255" "unat lba + unat count \<le> nsec"
    and op: "opcode = 1 \<or> opcode = 2"
  defines "m \<equiv> c_media (nv_ctrl d)"
  shows "\<exists>d'. transfer_LBA ctl d opcode lba (nv_buf d) count = Some d' \<and> ninv (Some d') \<and> nv_buf d' = nv_buf d \<and>
    (opcode = 2 \<longrightarrow> mem_load (nv_mem d') (nv_buf d) (unat count * 512) = sectors m (unat lba) (unat count)) \<and>
    c_media (nv_ctrl d') = (if opcode = 1
      then set_sectors m (unat lba) (unat count) (mem_load (nv_mem d) (nv_buf d) (unat count * 512)) else m)"
proof -
  let ?b = "nv_buf d" and ?n = "unat count * 512" and ?cmd = "io_command d opcode lba count"
  define sz :: u32 where "sz = ucast count * lba_size d"
  have dsz: "lba_size d = 512" "namespace_id d = 1" and mi: "mm_inv (nv_mm d)" and free: "\<exists>i. run_free (nv_mm d) 1 i"
    and buf: "unat ?b + 130560 \<le> 2 ^ 64"
      "{unat ?b div kFrameSize .. (unat ?b + 130559) div kFrameSize} \<subseteq> used_frames (nv_mm d)"
    and ring: "nring d"
    using inv by (simp_all add: nvme_inv_def)
  have usz: "unat sz = ?n"
    using n(2) by (simp add: sz_def dsz unat_word_ariths)
  obtain pl cmd mem mm where set: "SetupPRPs (nv_mm d) (nv_mem d) ?cmd ?b sz = (pl, cmd, mem, mm)"
    by (metis prod_cases4)
  obtain p0 mm0 where al: "Allocate (nv_mm d) 4096 = (p0, mm0)" by (metis surj_pair)
  note page = list_page [OF mi free buf al]
  have ok: "prps_ok (nv_mm d) (nv_mem d) ?cmd ?b ?n (pl, cmd, mem, mm)"
    using SetupPRPs_ok [OF _ _ set] usz n page(2) al by simp
  define segs where "segs = prp_segments mem (sqe_prp1 cmd) (sqe_prp2 cmd) ?n"
  have cont: "contiguous ?b segs" "sum_list (map snd segs) = ?n" and same: "same_but_prps ?cmd cmd"
    and pages: "pl = 0 \<and> mem = nv_mem d \<and> mm = nv_mm d \<or> Allocate (nv_mm d) 4096 = (pl, mm) \<and>
      (\<forall>a m. apart a m pl 4096 \<longrightarrow> mem_load mem a m = mem_load (nv_mem d) a m)"
    using ok by (simp_all add: prps_ok_def segs_def)
  have f: "cmd_lba cmd = unat lba" "cmd_blocks cmd = unat count" "sqe_opcode cmd = opcode" "sqe_nsid cmd = 1"
    using same_but_prps_fields [OF same] io_command_fields [OF n(1), of d opcode lba] dsz by simp_all
  have load: "mem_load mem ?b ?n = mem_load (nv_mem d) ?b ?n"
    using pages al page(3) [of ?n] n(2) by auto
  have freed: "(if pl \<noteq> 0 then Free mm pl 4096 else mm) = nv_mm d"
    using pages al page(1,4) by auto
  define d1 where "d1 = d\<lparr>nv_mem := mem, nv_mm := mm\<rparr>"
  have r1: "nring d1" using ring by (simp add: d1_def nvme_ring_def)
  have s1: "segs = prp_segments (nv_mem d1) (sqe_prp1 cmd) (sqe_prp2 cmd) (cmd_blocks cmd * 512)"
    by (simp add: segs_def d1_def f)
  obtain d2 where d2: "SendIOCommand ctl d1 cmd = Some d2" "nring d2" "nv_mm d2 = mm" "nv_buf d2 = ?b"
    "namespace_id d2 = 1" "lba_size d2 = 512"
    "nv_mem d2 = (if opcode = 2 then seg_store mem segs (sectors m (unat lba) (unat count)) else mem)"
    "c_media (nv_ctrl d2) = (if opcode = 1
      then set_sectors m (unat lba) (unat count) (seg_load mem segs) else m)"
    using SendIOCommand_ok [OF r1 f(4) _ _ s1] n(3) op dsz by (auto simp: f d1_def m_def)
  define d3 where "d3 = (if pl \<noteq> 0 then d2\<lparr>nv_mm := Free (nv_mm d2) pl 4096\<rparr> else d2)"
  have tr: "transfer_LBA ctl d opcode lba ?b count = Some d3"
    using n(1) set d2(1) by (auto simp: transfer_LBA_def Let_def sz_def d1_def d3_def)
  have d3: "nv_mm d3 = nv_mm d" "nv_buf d3 = ?b" "nring d3" "namespace_id d3 = 1" "lba_size d3 = 512"
    "nv_mem d3 = nv_mem d2" "nv_ctrl d3 = nv_ctrl d2"
    using freed d2(2-6) by (auto simp: d3_def nvme_ring_def)
  have "ninv (Some d3)"
    using d3 mi free buf by (simp add: nvme_inv_def)
  moreover have "length (sectors m (unat lba) (unat count)) = ?n"
    using c_media_ok ring by (simp add: m_def nvme_ring_def)
  then have "seg_store mem segs (sectors m (unat lba) (unat count)) = mem_store mem ?b (sectors m (unat lba) (unat count))"
    using seg_store_contiguous [OF cont(1), of "sectors m (unat lba) (unat count)" mem] cont(2) n(2) by simp
  then have "opcode = 2 \<longrightarrow> mem_load (nv_mem d3) ?b ?n = sectors m (unat lba) (unat count)"
    using d2(7) d3(6) n(2) \<open>length (sectors m (unat lba) (unat count)) = ?n\<close> by simp
  moreover have "seg_load mem segs = mem_load (nv_mem d) ?b ?n"
    using seg_load_contiguous [OF cont(1), of mem] cont(2) load by simp
  ultimately show ?thesis
    using tr d3(2,7) d2(8) by (intro exI [of _ d3]) simp
qed

text \<open>The driver is a block device.\<close>

sublocale nvme: block_device "Nvme_ops ctl" "nvme_inv c_inv c_head c_tail c_phase" "nvme_media c_media" nsec
proof (unfold_locales, goal_cases)
  case (1 od)
  then show ?case
    using c_media_ok by (cases od) (auto simp: nvme_inv_def nvme_ring_def nvme_media_def)
next
  case (2 od n lba buf)
  then obtain d where d: "od = Some d" by (cases od) (auto simp: nvme_inv_def)
  define d0 where "d0 = d\<lparr>nv_mem := mem_store (nv_mem d) (nv_buf d) buf\<rparr>"
  have i0: "ninv (Some d0)" using 2(1) d by (simp add: nvme_inv_def nvme_ring_def d0_def)
  have un: "unat (ucast n :: u16) = unat n" "0 < unat n"
    using 2(2,3) by (auto simp: unsigned_ucast_eq take_bit_nat_eq_self word_gt_0 unat_gt_0)
  obtain d' where "transfer_LBA ctl d0 2 lba (nv_buf d0) (ucast n) = Some d'" "ninv (Some d')"
    "nv_buf d' = nv_buf d0" "mem_load (nv_mem d') (nv_buf d0) (unat n * 512) = sectors (c_media (nv_ctrl d0)) (unat lba) (unat n)"
    "c_media (nv_ctrl d') = c_media (nv_ctrl d0)"
    using transfer_ok [OF i0, of "ucast n" lba 2] 2(3,4) un by auto
  then show ?case
    using 2(5) d by (auto simp: Nvme_ops_def Nvme_Read_def ReadLBA_def d0_def nvme_media_def)
next
  case (3 od n lba buf)
  then obtain d where d: "od = Some d" by (cases od) (auto simp: nvme_inv_def)
  define d0 where "d0 = d\<lparr>nv_mem := mem_store (nv_mem d) (nv_buf d) buf\<rparr>"
  have i0: "ninv (Some d0)" using 3(1) d by (simp add: nvme_inv_def nvme_ring_def d0_def)
  have un: "unat (ucast n :: u16) = unat n" "0 < unat n"
    using 3(2,3) by (auto simp: unsigned_ucast_eq take_bit_nat_eq_self word_gt_0 unat_gt_0)
  obtain d' where "transfer_LBA ctl d0 1 lba (nv_buf d0) (ucast n) = Some d'" "ninv (Some d')"
    "c_media (nv_ctrl d') = set_sectors (c_media (nv_ctrl d0)) (unat lba) (unat n)
      (mem_load (nv_mem d0) (nv_buf d0) (unat n * 512))"
    using transfer_ok [OF i0, of "ucast n" lba 1] 3(3,4) un by auto
  moreover have "mem_load (nv_mem d0) (nv_buf d0) (unat n * 512) = buf"
    using 3(3,5) by (simp add: d0_def)
  ultimately show ?case
    using 3(5) d by (auto simp: Nvme_ops_def Nvme_Write_def WriteLBA_def d0_def nvme_media_def)
qed

lemma nvme_is_block_device:
  "block_device (Nvme_ops ctl) (nvme_inv c_inv c_head c_tail c_phase) (nvme_media c_media) nsec"
  by (rule nvme.block_device_axioms)

end

section \<open>A conforming controller\<close>

text \<open>
  The contract can be met: a controller over a memory-backed medium of \<open>0x10000\<close> sectors,
  written from the same specification, used for concrete runs.
\<close>

record ram_ctrl =
  rc_head :: nat
  rc_tail :: nat
  rc_phase :: bool
  rc_media :: medium

definition ram_nsec :: nat where
  "ram_nsec = 0x10000"

definition ram_inv :: "ram_ctrl \<Rightarrow> bool" where
  "ram_inv c \<longleftrightarrow> rc_head c < 32 \<and> rc_tail c < 32 \<and> medium_ok (rc_media c)"

definition ram_ctl :: "ram_ctrl nvme_ctl" where
  "ram_ctl c doorbell sq mem cq =
     (if unat doorbell = rc_head c then (c, mem, cq)
      else
        let cmd = sq (rc_head c);
            n = cmd_blocks cmd;
            lba = cmd_lba cmd;
            segs = prp_segments mem (sqe_prp1 cmd) (sqe_prp2 cmd) (n * 512);
            ok = (sqe_nsid cmd = 1 \<and> (sqe_opcode cmd = 1 \<or> sqe_opcode cmd = 2) \<and> lba + n \<le> ram_nsec);
            status = (if ok then 0 else 2) OR of_bool (rc_phase c)
        in (c\<lparr>rc_head := Suc (rc_head c) mod 32, rc_tail := Suc (rc_tail c) mod 32,
              rc_phase := (if Suc (rc_tail c) = 32 then \<not> rc_phase c else rc_phase c),
              rc_media := (if ok \<and> sqe_opcode cmd = 1 then set_sectors (rc_media c) lba n (seg_load mem segs)
                           else rc_media c)\<rparr>,
            if ok \<and> sqe_opcode cmd = 2 then seg_store mem segs (sectors (rc_media c) lba n) else mem,
            cq(rc_tail c := \<lparr>cqe_dw0 = 0, cqe_dw1 = 0, cqe_sq_head = of_nat (Suc (rc_head c) mod 32),
                 cqe_sq_id = 1, cqe_command_id = sqe_command_id cmd, cqe_status = status\<rparr>)))"

lemma length_prp_segments: "sum_list (map snd (prp_segments mem a b n)) = n"
proof -
  have pages: "sum_list (map snd (map (\<lambda>i. (mem_get64 mem (b + 8 * of_nat i), min 4096 (r - 4096 * i)))
        [0..<(r + 4095) div 4096])) = r" for r
    using sum_pages [of r "(r + 4095) div 4096"] by (simp add: comp_def)
  show ?thesis
    using pages [of "n - (4096 - unat a mod 4096)"] mod_less_divisor [of 4096 "unat a"]
    unfolding prp_segments_def Let_def by auto
qed

lemma length_seg_load: "length (seg_load mem segs) = sum_list (map snd segs)"
  by (induction segs) (auto simp: seg_load_def)

interpretation ram: nvme_controller ram_ctl ram_inv rc_head rc_tail rc_phase rc_media ram_nsec
proof (unfold_locales, goal_cases)
  case (3 c doorbell cmd sq segs mem cq)
  have "unat doorbell \<noteq> rc_head c"
    using 3(1,2) by (auto simp: ram_inv_def mod_Suc unsigned_of_nat take_bit_nat_eq_self split: if_splits)
  define c' where "c' = c\<lparr>rc_head := Suc (rc_head c) mod 32, rc_tail := Suc (rc_tail c) mod 32,
      rc_phase := (if Suc (rc_tail c) = 32 then \<not> rc_phase c else rc_phase c),
      rc_media := (if sqe_opcode cmd = 1
        then set_sectors (rc_media c) (cmd_lba cmd) (cmd_blocks cmd) (seg_load mem segs) else rc_media c)\<rparr>"
  define cqe where "cqe = \<lparr>cqe_dw0 = 0, cqe_dw1 = 0, cqe_sq_head = of_nat (Suc (rc_head c) mod 32),
      cqe_sq_id = 1, cqe_command_id = sqe_command_id cmd, cqe_status = 0 OR of_bool (rc_phase c)\<rparr>"
  have "ctl_result = (c', if sqe_opcode cmd = 2
      then seg_store mem segs (sectors (rc_media c) (cmd_lba cmd) (cmd_blocks cmd)) else mem,
      cq(rc_tail c := cqe))" if "ctl_result = ram_ctl c doorbell sq mem cq" for ctl_result
    using that 3(3-7) \<open>unat doorbell \<noteq> rc_head c\<close> by (simp add: ram_ctl_def Let_def c'_def cqe_def)
  moreover have "ram_inv c'"
    using 3(1,7) by (simp add: ram_inv_def c'_def length_seg_load length_prp_segments)
  moreover have "cqe_status cqe AND 1 = of_bool (rc_phase c)" by (simp add: cqe_def)
  ultimately show ?case
    by (intro exI [of _ c'] exI [of _ cqe]) (simp add: c'_def)
qed (auto simp: ram_inv_def)

section \<open>Properties\<close>

text \<open>
  C8: \<open>SetupPRPs\<close> describes the buffer. For every buffer of up to 2 MiB, at any alignment,
  the segments that the command's physical region pages denote are contiguous, start at the
  buffer's address and have its length; no other field of the command changes; only when
  more than two pages are touched is a page allocated, and nothing outside it is written.
\<close>

theorem SetupPRPs_describes_buffer:
  assumes "0 < unat sz" "unat sz \<le> 0x200000" "unat (fst (Allocate mm 4096)) + 4096 \<le> 2 ^ 64"
    and "SetupPRPs mm mem cmd addr sz = (pl, cmd', mem', mm')"
  shows "contiguous addr (prp_segments mem' (sqe_prp1 cmd') (sqe_prp2 cmd') (unat sz)) \<and>
    sum_list (map snd (prp_segments mem' (sqe_prp1 cmd') (sqe_prp2 cmd') (unat sz))) = unat sz \<and>
    same_but_prps cmd cmd' \<and>
    (pl = 0 \<and> mem' = mem \<and> mm' = mm \<or> Allocate mm 4096 = (pl, mm') \<and>
      (\<forall>a m. apart a m pl 4096 \<longrightarrow> mem_load mem' a m = mem_load mem a m))"
  using SetupPRPs_ok [OF assms(1,2,4,3)] by (simp add: prps_ok_def)

text \<open>
  C6: On every controller that conforms to the NVMe specification the driver is a block
  device: writing up to 255 sectors and reading them back returns the data, the medium
  changes in exactly these sectors, and the ring positions and the phase tag stay in step,
  also when the rings wrap.
\<close>

theorem Nvme_write_read:
  assumes "nvme_controller ctl c_inv c_head c_tail c_phase c_media nsec"
    and "nvme_inv c_inv c_head c_tail c_phase od"
    and "0 < n" "unat n \<le> 255" "unat lba + unat n \<le> nsec"
    and "length buf = unat n * 512" "length buf' = unat n * 512"
  shows "\<exists>od' od''. Nvme_Write ctl od lba buf n = (True, od') \<and> Nvme_Read ctl od' lba buf' n = (True, buf, od'') \<and>
    nvme_inv c_inv c_head c_tail c_phase od'' \<and>
    nvme_media c_media od'' = set_sectors (nvme_media c_media od) (unat lba) (unat n) buf"
proof -
  note bd = nvme_controller.nvme_is_block_device [OF assms(1)]
  obtain od' where w: "Nvme_Write ctl od lba buf n = (True, od')" "nvme_inv c_inv c_head c_tail c_phase od'"
    "nvme_media c_media od' = set_sectors (nvme_media c_media od) (unat lba) (unat n) buf"
    using block_device.write_ok [OF bd assms(2-6)] by (auto simp: Nvme_ops_def)
  then show ?thesis
    using block_reader.read_ok [OF block_device.axioms(1) [OF bd] w(2) assms(3-5,7)] assms(6)
    by (auto simp: Nvme_ops_def)
qed

text \<open>
  The 32-bit sector count of \<open>Read\<close> and \<open>Write\<close> is passed on as a 16-bit count: a
  multiple of 65536 sectors becomes 0, nothing is transferred, and the call reports success.
\<close>

theorem Nvme_count_truncated:
  assumes "unat n mod 65536 = 0"
  shows "Nvme_Write ctl (Some d) lba buf n =
      (True, Some (d\<lparr>nv_mem := mem_store (nv_mem d) (nv_buf d) buf\<rparr>)) \<and>
    fst (Nvme_Read ctl (Some d) lba buf n)"
proof -
  have "(ucast n :: u16) = 0"
    using assms by (simp add: word_unat_eq_iff unsigned_ucast_eq take_bit_eq_mod)
  then show ?thesis
    by (simp add: Nvme_Write_def Nvme_Read_def WriteLBA_def ReadLBA_def transfer_LBA_def)
qed

section \<open>A concrete device\<close>

definition sample_nvme :: "medium \<Rightarrow> ram_ctrl NvmeDriver" where
  "sample_nvme m = \<lparr>nv_ctrl = \<lparr>rc_head = 31, rc_tail = 31, rc_phase = True, rc_media = m\<rparr>,
     io_sq = (\<lambda>_. sqe_zero),
     io_cq = (\<lambda>_. \<lparr>cqe_dw0 = 0, cqe_dw1 = 0, cqe_sq_head = 0, cqe_sq_id = 0, cqe_command_id = 0, cqe_status = 0\<rparr>),
     io_sq_tail = 31, io_cq_head = 31, io_phase = 1, io_sq_doorbell = 31, io_cq_doorbell = 31,
     namespace_id = 1, lba_size = 512, nv_mem = (\<lambda>_. 0), nv_mm = sample_mm, nv_buf = 0x10000\<rparr>"

lemma sample_nvme_inv:
  assumes "medium_ok m"
  shows "nvme_inv ram_inv rc_head rc_tail rc_phase (Some (sample_nvme m))"
proof -
  have "j \<in> used_frames sample_mm" if "16 \<le> j" for j
    using that Get_beyond [of "mm_bitmap sample_mm" j] by (simp add: used_frames_def sample_mm_def)
  then have "{0x10000 div kFrameSize .. (0x10000 + 130559) div kFrameSize} \<subseteq> used_frames sample_mm"
    by (auto simp: kFrameSize_def)
  moreover have "run_free sample_mm 1 4"
    using run_free_1 [of sample_mm 4] by (simp add: sample_mm_def bitmap_eval)
  ultimately show ?thesis
    using assms sample_mm_inv
    by (auto simp: nvme_inv_def nvme_ring_def sample_nvme_def ram_inv_def)
qed

lemma zero_medium_ok: "medium_ok (\<lambda>_. replicate 512 0)"
  by (simp add: medium_ok_def)

theorem SetupPRPs_describes_buffer_witness:
  "contiguous 0x10010 (prp_segments (\<lambda>_. 0)
     (sqe_prp1 (fst (snd (SetupPRPs sample_mm (\<lambda>_. 0) sqe_zero 0x10010 0x1800))))
     (sqe_prp2 (fst (snd (SetupPRPs sample_mm (\<lambda>_. 0) sqe_zero 0x10010 0x1800)))) 0x1800)"
proof -
  obtain p0 mm0 where al: "Allocate sample_mm 4096 = (p0, mm0)" by (metis surj_pair)
  have "unat (fst (Allocate sample_mm 4096)) + 4096 \<le> 2 ^ 64"
    using list_page(2) [OF sample_mm_inv _ _ _ al, of "0x10000"] sample_nvme_inv [OF zero_medium_ok] al
    by (auto simp: nvme_inv_def sample_nvme_def)
  moreover have "SetupPRPs sample_mm (\<lambda>_. 0) sqe_zero 0x10010 0x1800 =
      (0, sqe_zero\<lparr>sqe_prp1 := 0x10010, sqe_prp2 := 0x11000\<rparr>, \<lambda>_. 0, sample_mm)"
    by (simp add: SetupPRPs_def Let_def)
  ultimately show ?thesis
    using SetupPRPs_describes_buffer [of "0x1800" sample_mm "\<lambda>_. 0" sqe_zero "0x10010"] by simp
qed

theorem Nvme_write_read_witness:
  "\<exists>od' od''. Nvme_Write ram_ctl (Some (sample_nvme (\<lambda>_. replicate 512 0))) 5 (replicate 1024 7) 2 = (True, od') \<and>
     Nvme_Read ram_ctl od' 5 (replicate 1024 0) 2 = (True, replicate 1024 7, od'')"
  using Nvme_write_read [OF ram.nvme_controller_axioms sample_nvme_inv [OF zero_medium_ok],
      of 2 5 "replicate 1024 7" "replicate 1024 0"]
  by (auto simp: ram_nsec_def)

theorem Nvme_count_truncated_witness:
  "fst (Nvme_Read ram_ctl (Some (sample_nvme (\<lambda>_. replicate 512 0))) 5 [1, 2, 3] 0x10000)"
  by (rule conjunct2 [OF Nvme_count_truncated]) simp

end
