(* ===== verification/FatNvme.thy ===== *)
theory FatNvme
  imports FatFiles NvmeIO
begin

text \<open>
  The FAT32 driver on the NVMe driver: the properties of whole file operations, for every
  controller that conforms to the NVMe specification. They are the facts proved in the
  contract \<open>block_device\<close>, which the NVMe driver keeps.
\<close>

text \<open>A file system driver over an NVMe driver, in step with its controller.\<close>

definition nvme_fs :: "'c nvme_ctl \<Rightarrow> ('c \<Rightarrow> bool) \<Rightarrow> ('c \<Rightarrow> nat) \<Rightarrow> ('c \<Rightarrow> nat) \<Rightarrow> ('c \<Rightarrow> bool) \<Rightarrow>
    ('c \<Rightarrow> medium) \<Rightarrow> geom \<Rightarrow> 'c NvmeDriver option FAT32Driver \<Rightarrow> medium \<Rightarrow> bool" where
  "nvme_fs ctl c_inv c_head c_tail c_phase c_media g fs m \<longleftrightarrow>
     fs_st (Nvme_ops ctl) (nvme_inv c_inv c_head c_tail c_phase) (nvme_media c_media) g fs m"

text \<open>
  C1: A file that was written is read back. On a volume with a free slot in the first
  cluster of the directory and enough free clusters among the first 126, \<open>WriteFile\<close> of a
  new name returns, and \<open>ReadFile\<close> under any name that matches it then returns the size and
  exactly the bytes that were written, leaving the rest of the buffer alone.
\<close>

theorem WriteFile_ReadFile:
  assumes "nvme_controller ctl c_inv c_head c_tail c_phase c_media nsec"
    and "nvme_fs ctl c_inv c_head c_tail c_phase c_media g fs m" "geom_ok nsec g"
    and "p = (if parent = 0 then g_root g else parent)" "can_create g m (unat p) k path"
    and "11 \<le> length name" "name ! 0 \<noteq> 0" "name ! 0 \<noteq> 0xE5" "IsNameEqual name path" "simple_name path"
    and "0 < length data" "length data < 2 ^ 32" "clusters_for g (length data) \<le> card (free_clusters g m)"
    and "length data \<le> unat bsize" "length data \<le> length buffer"
  shows "\<exists>fs1 fs2. WriteFile fs name data (of_nat (length data)) parent = Some fs1 \<and>
    ReadFile fs1 path buffer bsize parent =
      Some (of_nat (length data), data @ drop (length data) buffer, fs2)"
  using block_device.WriteFile_ReadFile_st [OF nvme_controller.nvme_is_block_device [OF assms(1)]
      assms(2) [unfolded nvme_fs_def] assms(3-15)] .

text \<open>
  C2: Writing a new file leaves every other file alone: every chain of clusters keeps its
  links, every cluster of it but the directory's own keeps its bytes, and in the directory
  only slot \<open>k\<close> changes.
\<close>

theorem WriteFile_keeps_files:
  assumes "nvme_controller ctl c_inv c_head c_tail c_phase c_media nsec"
    and "nvme_fs ctl c_inv c_head c_tail c_phase c_media g fs m" "geom_ok nsec g"
    and "p = (if parent = 0 then g_root g else parent)" "can_create g m (unat p) k path"
    and "11 \<le> length name"
    and "0 < length data" "length data < 2 ^ 32" "clusters_for g (length data) \<le> card (free_clusters g m)"
  shows "\<exists>fs' m'. WriteFile fs name data (of_nat (length data)) parent = Some fs' \<and>
    nvme_fs ctl c_inv c_head c_tail c_phase c_media g fs' m' \<and>
    (\<forall>ds. chain g m ds \<longrightarrow> chain g m' ds \<and>
      (\<forall>d \<in> set ds. d \<noteq> unat p \<longrightarrow> clus_get g m' d = clus_get g m d)) \<and>
    (\<forall>i < 16 * g_spc g. i \<noteq> k \<longrightarrow>
      get_dirent (clus_get g m' (unat p)) i = get_dirent (clus_get g m (unat p)) i)"
  using block_device.WriteFile_frame_st [OF nvme_controller.nvme_is_block_device [OF assms(1)]
      assms(2) [unfolded nvme_fs_def] assms(3-9)] unfolding nvme_fs_def .

text \<open>
  C3: \<open>DeleteFile\<close> returns true for an existing file with a proper chain, releases exactly
  the clusters of its chain in the table (both copies), marks its slot deleted by one byte,
  and changes nothing else.
\<close>

theorem DeleteFile_releases:
  assumes "nvme_controller ctl c_inv c_head c_tail c_phase c_media nsec"
    and "nvme_fs ctl c_inv c_head c_tail c_phase c_media g fs m" "geom_ok nsec g"
    and "p = (if parent = 0 then g_root g else parent)" "valid g (unat p)"
    and "k < 16 * g_spc g" "absent_before (clus_get g m (unat p)) name k"
      "names_slot (clus_get g m (unat p)) name k"
    and "first_cluster_of (get_dirent (clus_get g m (unat p)) k) = of_nat c" "chain g m (c # cs)" "distinct (c # cs)"
  shows "\<exists>fs' m'. DeleteFile fs name parent = Some (True, fs') \<and>
    nvme_fs ctl c_inv c_head c_tail c_phase c_media g fs' m' \<and>
    (\<forall>d < g_fatsz g * 128. fat_get g m' d = (if d \<in> set (c # cs) then 0 else fat_get g m d)) \<and>
    clus_get g m' (unat p) = (clus_get g m (unat p))[32 * k := 0xE5] \<and>
    (\<forall>d. valid g d \<longrightarrow> d \<noteq> unat p \<longrightarrow> clus_get g m' d = clus_get g m d)"
  using block_device.DeleteFile_st [OF nvme_controller.nvme_is_block_device [OF assms(1)]
      assms(2) [unfolded nvme_fs_def] assms(3-11)] unfolding nvme_fs_def .

text \<open>
  C4: \<open>FreeChain\<close> returns on every proper chain and zeroes exactly its entries.
\<close>

theorem FreeChain_terminates:
  assumes "nvme_controller ctl c_inv c_head c_tail c_phase c_media nsec"
    and "nvme_fs ctl c_inv c_head c_tail c_phase c_media g fs m" "geom_ok nsec g"
    and "chain g m (c # cs)" "distinct (c # cs)"
  shows "\<exists>fs' m'. FreeChain fs (of_nat c) = Some fs' \<and>
    nvme_fs ctl c_inv c_head c_tail c_phase c_media g fs' m' \<and>
    (\<forall>d < g_fatsz g * 128. fat_get g m' d = (if d \<in> set (c # cs) then 0 else fat_get g m d)) \<and>
    (\<forall>d. valid g d \<longrightarrow> clus_get g m' d = clus_get g m d)"
proof -
  note bd = nvme_controller.nvme_is_block_device [OF assms(1)]
  have st: "fs_st (Nvme_ops ctl) (nvme_inv c_inv c_head c_tail c_phase) (nvme_media c_media) g fs m"
    using assms(2) by (simp add: nvme_fs_def)
  have "\<forall>d \<in> set (c # cs). valid g d" using chain_valid [OF assms(4)] by auto
  note free = block_device.fat_get_free [OF bd assms(3) block_device.st_medium [OF bd st] this]
  show ?thesis
    using block_device.FreeChain_st [OF bd assms(3) st assms(4,5)] free unfolding nvme_fs_def by blast
qed

text \<open>
  \<open>AllocateCluster\<close> returns the lowest cluster of the first table sector whose entry is
  zero, marks it as an end of chain in both copies of the table, and changes nothing else;
  when that sector has no zero entry it returns 0, even if clusters beyond number 127 are
  free.
\<close>

theorem AllocateCluster_first_free:
  assumes "nvme_controller ctl c_inv c_head c_tail c_phase c_media nsec"
    and "nvme_fs ctl c_inv c_head c_tail c_phase c_media g fs m" "geom_ok nsec g"
  shows "\<exists>fs' m'. nvme_fs ctl c_inv c_head c_tail c_phase c_media g fs' m' \<and>
    (if free_clusters g m = {} then AllocateCluster fs = (0, fs') \<and> m' = m
     else AllocateCluster fs = (of_nat (Min (free_clusters g m)), fs') \<and>
       m' = fat_set g m (Min (free_clusters g m)) EOC)"
proof -
  note bd = nvme_controller.nvme_is_block_device [OF assms(1)]
  have "first_free g m = Some (Min (free_clusters g m))" if ne: "free_clusters g m \<noteq> {}"
  proof -
    obtain c where c: "first_free g m = Some c"
      using ne first_free_None [of g m] by (cases "first_free g m") auto
    have "c \<le> d" if "d \<in> free_clusters g m" for d
      using find_upt_Some(4) [OF c [unfolded first_free_def], of d] that
      by (fastforce simp: free_clusters_def)
    then have "Min (free_clusters g m) = c" using first_free_Some [OF c] by (intro Min_eqI) auto
    then show ?thesis using c by simp
  qed
  then show ?thesis
    using block_device.AllocateCluster_st [OF bd assms(2) [unfolded nvme_fs_def] assms(3)]
      first_free_None [of g m] unfolding nvme_fs_def by (cases "free_clusters g m = {}") auto
qed

section \<open>A concrete volume\<close>

text \<open>
  An empty volume on the memory-backed controller: one sector per cluster, tables of two
  sectors at 32 and 34, data from sector 36, the root directory in cluster 2.
\<close>

definition sample_geom :: geom where
  "sample_geom = \<lparr>g_spc = 1, g_fat0 = 32, g_fatsz = 2, g_data0 = 36, g_root = 2, g_n = 200\<rparr>"

definition sample_fat_sector :: bytes where
  "sample_fat_sector = set_fat_entry (replicate 512 0) 2 EOC"

definition sample_medium :: medium where
  "sample_medium = (\<lambda>_. replicate 512 0)(32 := sample_fat_sector, 34 := sample_fat_sector)"

definition sample_fs :: "medium \<Rightarrow> ram_ctrl NvmeDriver option FAT32Driver" where
  "sample_fs m = \<lparr>dev_ops = Nvme_ops ram_ctl, dev = Some (sample_nvme m), part_lba = 0, sec_per_clus = 1,
     reserved_sectors = 32, num_fats = 2, fat_sz32 = 2, root_clus = 2, fat_start_lba = 32,
     data_start_lba = 36, fresh = (\<lambda>n. replicate n 0)\<rparr>"

abbreviation ram_fs :: "geom \<Rightarrow> ram_ctrl NvmeDriver option FAT32Driver \<Rightarrow> medium \<Rightarrow> bool" where
  "ram_fs \<equiv> nvme_fs ram_ctl ram_inv rc_head rc_tail rc_phase rc_media"

lemma sample_geom_ok: "geom_ok ram_nsec sample_geom"
  by (simp add: geom_ok_def sample_geom_def ram_nsec_def)

lemma sample_medium_ok: "medium_ok sample_medium"
  by (simp add: medium_ok_def sample_medium_def sample_fat_sector_def)

lemma sample_fs_st: "medium_ok m \<Longrightarrow> ram_fs sample_geom (sample_fs m) m"
  using sample_nvme_inv [of m]
  by (simp add: nvme_fs_def fs_st_def sample_fs_def sample_geom_def) (simp add: nvme_media_def sample_nvme_def)

lemma sample_fat: "c < 128 \<Longrightarrow> fat_get sample_geom sample_medium c = (if c = 2 then EOC else 0)"
proof -
  assume c: "c < 128"
  have "fat_entry (replicate 512 0) c = 0"
    using c by (simp add: fat_entry_def buf_get_replicate) (simp add: le32_get_def numeral_eq_Suc)
  moreover have "c div 128 = 0" "c mod 128 = c" using c by simp_all
  ultimately show ?thesis
    using c by (simp add: fat_get_def sample_geom_def sample_medium_def sample_fat_sector_def fat_entry_set)
qed

lemma sample_root: "clus_get sample_geom sample_medium 2 = replicate 512 0"
  by (simp add: clus_get_def clus_lba_def sample_geom_def sample_medium_def sectors_def)

lemma sample_can_create: "can_create sample_geom sample_medium (unat (2 :: u32)) 0 (str ''hello.txt'')"
  using sample_fat [of 2] by (simp add: can_create_def sample_root free_slot_def valid_def)
    (simp add: sample_geom_def)

lemma sample_free: "1 \<le> card (free_clusters sample_geom sample_medium)"
proof -
  have "3 \<in> free_clusters sample_geom sample_medium" using sample_fat [of 3] by (simp add: free_clusters_def)
  then have "free_clusters sample_geom sample_medium \<noteq> {}" by blast
  then show ?thesis by (simp add: Suc_le_eq card_gt_0_iff)
qed

lemma sample_strings:
  "str ''hello.txt'' = [0x68, 0x65, 0x6C, 0x6C, 0x6F, 0x2E, 0x74, 0x78, 0x74]"
  "str ''HELLO   TXT'' = [0x48, 0x45, 0x4C, 0x4C, 0x4F, SPC, SPC, SPC, 0x54, 0x58, 0x54]"
  by (simp_all add: str_def chr_def of_char_def)

lemma sample_name:
  "IsNameEqual (str ''HELLO   TXT'') (str ''hello.txt'')" "simple_name (str ''hello.txt'')"
  "str ''HELLO   TXT'' ! 0 \<noteq> 0" "str ''HELLO   TXT'' ! 0 \<noteq> 0xE5" "length (str ''HELLO   TXT'') = 11"
proof -
  have pad: "replicate 11 SPC = [SPC, SPC, SPC, SPC, SPC, SPC, SPC, SPC, SPC, SPC, SPC]"
    by (simp add: numeral_eq_Suc)
  have "\<not> is_raw83 (str ''hello.txt'')" by (simp add: is_raw83_def sample_strings cstr_def)
  then have "convert_name (str ''hello.txt'') = pad83 [0x68, 0x65, 0x6C, 0x6C, 0x6F] [0x74, 0x78, 0x74]"
    by (simp add: convert_name_dotted base_part_def ext_part_def sample_strings cstr_def)
  then show "IsNameEqual (str ''HELLO   TXT'') (str ''hello.txt'')"
    by (simp add: IsNameEqual_def pad83_def buf_put_def pad upcase_def sample_strings)
qed (simp_all add: sample_strings simple_name_def)

theorem WriteFile_ReadFile_witness:
  "\<exists>fs1 fs2. WriteFile (sample_fs sample_medium) (str ''HELLO   TXT'') [1, 2, 3] 3 0 = Some fs1 \<and>
     ReadFile fs1 (str ''hello.txt'') (replicate 8 0) 8 0 = Some (3, [1, 2, 3] @ drop 3 (replicate 8 0), fs2)"
proof -
  have "2 = (if (0 :: u32) = 0 then g_root sample_geom else 0)" by (simp add: sample_geom_def)
  from WriteFile_ReadFile [OF ram.nvme_controller_axioms sample_fs_st [OF sample_medium_ok] sample_geom_ok
      this sample_can_create _ sample_name(3,4,1,2), of "[1, 2, 3]" 8 "replicate 8 0"]
  show ?thesis
    using sample_free by (simp add: sample_name(5) clusters_for_def sample_geom_def)
qed

theorem WriteFile_keeps_files_witness:
  "\<exists>fs' m'. WriteFile (sample_fs sample_medium) (str ''HELLO   TXT'') [1, 2, 3] 3 0 = Some fs' \<and>
     ram_fs sample_geom fs' m' \<and> chain sample_geom m' [2]"
proof -
  have p: "2 = (if (0 :: u32) = 0 then g_root sample_geom else 0)" by (simp add: sample_geom_def)
  have "chain sample_geom sample_medium [2]"
    using sample_fat [of 2] by (simp add: valid_def) (simp add: sample_geom_def)
  moreover have "clusters_for sample_geom (length [1, 2, 3 :: u8]) \<le> card (free_clusters sample_geom sample_medium)"
    using sample_free by (simp add: clusters_for_def sample_geom_def)
  ultimately show ?thesis
    using WriteFile_keeps_files [OF ram.nvme_controller_axioms sample_fs_st [OF sample_medium_ok] sample_geom_ok
        p sample_can_create, of "str ''HELLO   TXT''" "[1, 2, 3]"]
    by (auto simp: sample_name(5) simp del: chain.simps)
qed

text \<open>The same volume with a file of three bytes in cluster 3.\<close>

definition sample_medium1 :: medium where
  "sample_medium1 = dir_put sample_geom (fat_set sample_geom sample_medium 3 EOC) 2 0
     (dirent_bytes (str ''HELLO   TXT'') 3 3 0x20)"

lemma sample1:
  "medium_ok sample_medium1" "chain sample_geom sample_medium1 [3]"
  "absent_before (clus_get sample_geom sample_medium1 (unat (2 :: u32))) (str ''hello.txt'') 0"
  "names_slot (clus_get sample_geom sample_medium1 (unat (2 :: u32))) (str ''hello.txt'') 0"
  "first_cluster_of (get_dirent (clus_get sample_geom sample_medium1 (unat (2 :: u32))) 0) = of_nat 3"
proof -
  let ?g = sample_geom and ?m = "fat_set sample_geom sample_medium 3 EOC"
  let ?e = "dirent_bytes (str ''HELLO   TXT'') 3 3 0x20"
  have mo: "medium_ok ?m" using sample_medium_ok by simp
  have v: "valid ?g 2" "valid ?g 3" by (simp_all add: valid_def sample_geom_def)
  have le: "length ?e = 32" by (simp add: sample_name(5))
  show "medium_ok sample_medium1" unfolding sample_medium1_def using dir_put_ok [OF mo le] .
  have k: "0 < 16 * g_spc ?g" by (simp add: sample_geom_def)
  have f3: "3 < g_fatsz ?g * 128" by (simp add: sample_geom_def)
  have "fat_get ?g sample_medium1 3 = EOC"
    unfolding sample_medium1_def
    using dir_put_frame(1) [OF sample_geom_ok v(1) k f3] fat_get_set [OF sample_medium_ok f3 f3] by simp
  then show "chain ?g sample_medium1 [3]" using v(2) by simp
  have "clus_get ?g ?m 2 = replicate 512 0"
    using clus_get_fat_set [OF sample_geom_ok v(1) f3] sample_root by simp
  then have cg: "clus_get ?g sample_medium1 2 = buf_put (32 * 0) ?e (replicate 512 0)"
    unfolding sample_medium1_def using clus_get_dir_put [OF mo k le] by simp
  have d: "get_dirent (clus_get ?g sample_medium1 2) 0 = \<lparr>de_name = take 11 (str ''HELLO   TXT''), de_attr = 0x20,
       de_nt_res = 0, de_crt_time_tenth = 0, de_crt_time = 0, de_crt_date = 0, de_lst_acc_date = 0,
       de_fst_clus_hi = ucast (drop_bit 16 (3 :: u32) AND 0xFFFF), de_wrt_time = 0, de_wrt_date = 0,
       de_fst_clus_lo = ucast ((3 :: u32) AND 0xFFFF), de_file_size = 3\<rparr>"
    unfolding cg by (rule get_dirent_put) (simp_all add: sample_name(5))
  show "first_cluster_of (get_dirent (clus_get ?g sample_medium1 (unat (2 :: u32))) 0) = of_nat 3"
    using hi_lo_roundtrip [of 3] by (simp add: d first_cluster_of_def)
  have "clus_get ?g sample_medium1 2 ! 0 = 0x48"
    using le by (simp add: cg nth_buf_put) (simp add: dirent_bytes_def sample_strings)
  then show "names_slot (clus_get ?g sample_medium1 (unat (2 :: u32))) (str ''hello.txt'') 0"
    using sample_name(1) by (simp add: names_slot_def free_slot_def d IsNameEqual_def length_convert_name)
  show "absent_before (clus_get ?g sample_medium1 (unat (2 :: u32))) (str ''hello.txt'') 0"
    by (simp add: absent_before_def)
qed

theorem DeleteFile_releases_witness:
  "\<exists>fs' m'. DeleteFile (sample_fs sample_medium1) (str ''hello.txt'') 0 = Some (True, fs') \<and>
     ram_fs sample_geom fs' m' \<and> fat_get sample_geom m' 3 = 0"
proof -
  have p: "2 = (if (0 :: u32) = 0 then g_root sample_geom else 0)" by (simp add: sample_geom_def)
  have v: "valid sample_geom (unat (2 :: u32))" and k: "0 < 16 * g_spc sample_geom"
    by (simp_all add: valid_def sample_geom_def)
  have "(3 :: nat) < g_fatsz sample_geom * 128" by (simp add: sample_geom_def)
  then show ?thesis
    using DeleteFile_releases [OF ram.nvme_controller_axioms sample_fs_st [OF sample1(1)] sample_geom_ok
        p v k sample1(3,4,5,2)] by fastforce
qed

theorem FreeChain_terminates_witness:
  "\<exists>fs' m'. FreeChain (sample_fs sample_medium1) 3 = Some fs' \<and> ram_fs sample_geom fs' m' \<and>
     fat_get sample_geom m' 3 = 0"
proof -
  have "(3 :: nat) < g_fatsz sample_geom * 128" by (simp add: sample_geom_def)
  then show ?thesis
    using FreeChain_terminates [OF ram.nvme_controller_axioms sample_fs_st [OF sample1(1)] sample_geom_ok sample1(2)]
    by fastforce
qed

theorem AllocateCluster_first_free_witness:
  "fst (AllocateCluster (sample_fs sample_medium)) = of_nat (Min (free_clusters sample_geom sample_medium))"
proof -
  have "free_clusters sample_geom sample_medium \<noteq> {}" using sample_free by fastforce
  then show ?thesis
    using AllocateCluster_first_free [OF ram.nvme_controller_axioms sample_fs_st [OF sample_medium_ok] sample_geom_ok]
    by auto
qed

end
