(* ===== verification/Paging.thy ===== *)
theory Paging
  imports MemoryMgr
begin

text \<open>
  Virtual memory: \<open>union PageTableEntry\<close> of \<open>kernel/paging.hpp\<close> and \<open>class PageManager\<close>
  of \<open>kernel/paging.cpp\<close>. A page table is 4 KB aligned and has 512 entries, so the memory
  that holds the tables is a map from frame addresses to functions of a 9-bit index; the
  kernel reads and writes it through the identity mapping. An entry is the 64-bit \<open>value\<close> of
  the union and its bit fields are bit positions of it. \<open>translate\<close> is the walk the MMU
  performs, against which the operations are specified. Calls of \<open>InvalidateTLB\<close> are
  recorded in \<open>invlpg\<close>, oldest last.
\<close>

type_synonym u9 = "9 word"
type_synonym ptmem = "u64 \<Rightarrow> u9 \<Rightarrow> u64"

section \<open>Page table entries\<close>

definition put_flag :: "nat \<Rightarrow> bool \<Rightarrow> u64 \<Rightarrow> u64" where
  "put_flag n b v = (if b then Bit_Operations.set_bit n v else Bit_Operations.unset_bit n v)"

definition pte_present :: "u64 \<Rightarrow> bool" where
  "pte_present v = bit v 0"

definition pte_user :: "u64 \<Rightarrow> bool" where
  "pte_user v = bit v 2"

definition pte_huge :: "u64 \<Rightarrow> bool" where
  "pte_huge v = bit v 7"

definition set_present :: "bool \<Rightarrow> u64 \<Rightarrow> u64" where
  "set_present b v = put_flag 0 b v"

definition set_read_write :: "bool \<Rightarrow> u64 \<Rightarrow> u64" where
  "set_read_write b v = put_flag 1 b v"

definition set_user_supervisor :: "bool \<Rightarrow> u64 \<Rightarrow> u64" where
  "set_user_supervisor b v = put_flag 2 b v"

definition set_huge_page :: "bool \<Rightarrow> u64 \<Rightarrow> u64" where
  "set_huge_page b v = put_flag 7 b v"

definition SetAddress :: "u64 \<Rightarrow> u64 \<Rightarrow> u64" where
  "SetAddress addr v =
     (v AND NOT (push_bit 12 0xFFFFFFFFFF)) OR push_bit 12 (drop_bit 12 addr AND 0xFFFFFFFFFF)"

definition GetAddress :: "u64 \<Rightarrow> u64" where
  "GetAddress v = push_bit 12 (drop_bit 12 v AND 0xFFFFFFFFFF)"

section \<open>PageManager\<close>

record PageManager =
  pml4_table :: u64
  cr3 :: u64
  frames :: ptmem
  pg_mm :: MemoryManager
  invlpg :: "u64 list"

definition kPageSize4K :: u64 where
  "kPageSize4K = 4096"

definition kPresent :: u64 where
  "kPresent = push_bit 0 1"

definition kWritable :: u64 where
  "kWritable = push_bit 1 1"

definition kUser :: u64 where
  "kUser = push_bit 2 1"

definition set_entry :: "PageManager \<Rightarrow> u64 \<Rightarrow> u9 \<Rightarrow> u64 \<Rightarrow> PageManager" where
  "set_entry pm t i v = pm\<lparr>frames := (frames pm)(t := (frames pm t)(i := v))\<rparr>"

definition zero_frame :: "PageManager \<Rightarrow> u64 \<Rightarrow> PageManager" where
  "zero_frame pm p = pm\<lparr>frames := (frames pm)(p := (\<lambda>_. 0))\<rparr>"

definition AllocateTable :: "PageManager \<Rightarrow> u64 \<times> PageManager" where
  "AllocateTable pm =
     (let (ptr, mm) = AllocateFrame (pg_mm pm); pm = pm\<lparr>pg_mm := mm\<rparr>
      in if ptr = 0 then (0, pm) else (ptr, zero_frame pm ptr))"

definition pml4_idx :: "u64 \<Rightarrow> u9" where
  "pml4_idx vaddr = ucast (drop_bit 39 vaddr AND 0x1FF)"

definition pdp_idx :: "u64 \<Rightarrow> u9" where
  "pdp_idx vaddr = ucast (drop_bit 30 vaddr AND 0x1FF)"

definition pd_idx :: "u64 \<Rightarrow> u9" where
  "pd_idx vaddr = ucast (drop_bit 21 vaddr AND 0x1FF)"

definition pt_idx :: "u64 \<Rightarrow> u9" where
  "pt_idx vaddr = ucast (drop_bit 12 vaddr AND 0x1FF)"

text \<open>\<open>EnsureEntry\<close> on the entry \<open>i\<close> of the table \<open>t\<close>; the result is the next table or 0.\<close>

definition EnsureEntry :: "u64 \<Rightarrow> PageManager \<Rightarrow> u64 \<Rightarrow> u9 \<Rightarrow> u64 \<times> PageManager" where
  "EnsureEntry flags pm t i =
     (if \<not> pte_present (frames pm t i) then
        (let (new_table, pm) = AllocateTable pm in
         if new_table = 0 then (0, pm)
         else
           (let e = set_user_supervisor (flags AND kUser \<noteq> 0)
                 (set_read_write True (set_present True (SetAddress new_table (frames pm t i))))
            in (GetAddress e, set_entry pm t i e)))
      else
        (let e = (if flags AND kUser \<noteq> 0 then set_user_supervisor True (frames pm t i)
                  else frames pm t i)
         in (GetAddress e, set_entry pm t i e)))"

text \<open>The split of a 2 MB page into 512 entries; \<open>False\<close> is the early return.\<close>

definition split_entry :: "u64 \<Rightarrow> u64 \<Rightarrow> u9 \<Rightarrow> u64 \<Rightarrow> u64" where
  "split_entry base fl k old =
     set_present True (set_huge_page False (SetAddress (base + of_nat (unat k) * kPageSize4K) old OR fl))"

definition SplitHuge :: "u64 \<Rightarrow> PageManager \<Rightarrow> u64 \<Rightarrow> u9 \<Rightarrow> bool \<times> PageManager" where
  "SplitHuge flags pm pd i =
     (if pte_present (frames pm pd i) \<and> pte_huge (frames pm pd i) then
        (let (new_pt, pm) = AllocateTable pm in
         if new_pt = 0 then (False, pm)
         else
           (let huge_base_phys = GetAddress (frames pm pd i);
                huge_flags = frames pm pd i AND 0xFFF;
                pm = pm\<lparr>frames := (frames pm)(new_pt :=
                  (\<lambda>k. split_entry huge_base_phys huge_flags k (frames pm new_pt k)))\<rparr>;
                e = set_present True (set_huge_page False (SetAddress new_pt (frames pm pd i)));
                e = (if flags AND kUser \<noteq> 0 then set_user_supervisor True e else e)
            in (True, set_entry pm pd i e)))
      else (True, pm))"

definition leaf_entry :: "u64 \<Rightarrow> u64 \<Rightarrow> u64 \<Rightarrow> u64" where
  "leaf_entry flags paddr old =
     set_user_supervisor (flags AND kUser \<noteq> 0)
       (set_read_write (flags AND kWritable \<noteq> 0)
         (set_present (flags AND kPresent \<noteq> 0) (SetAddress paddr old)))"

text \<open>One iteration of the loop of \<open>MapPage\<close>; \<open>False\<close> when it returns for lack of memory.\<close>

definition MapOne :: "u64 \<Rightarrow> PageManager \<Rightarrow> u64 \<Rightarrow> u64 \<Rightarrow> bool \<times> PageManager" where
  "MapOne flags pm vaddr paddr =
     (let (pdp_table, pm) = EnsureEntry flags pm (pml4_table pm) (pml4_idx vaddr) in
      if pdp_table = 0 then (False, pm) else
      let (pd_table, pm) = EnsureEntry flags pm pdp_table (pdp_idx vaddr) in
      if pd_table = 0 then (False, pm) else
      let (ok, pm) = SplitHuge flags pm pd_table (pd_idx vaddr) in
      if \<not> ok then (False, pm) else
      let (pt_table, pm) = EnsureEntry flags pm pd_table (pd_idx vaddr) in
      if pt_table = 0 then (False, pm) else
      let pm = set_entry pm pt_table (pt_idx vaddr)
                 (leaf_entry flags paddr (frames pm pt_table (pt_idx vaddr)))
      in (True, pm\<lparr>invlpg := vaddr # invlpg pm\<rparr>))"

function map_loop :: "u64 \<Rightarrow> PageManager \<Rightarrow> u64 \<Rightarrow> u64 \<Rightarrow> u64 \<Rightarrow> nat \<Rightarrow> PageManager" where
  "map_loop flags pm virtual_addr physical_addr count i =
     (if i < unat count then
        (let (ok, pm) = MapOne flags pm (virtual_addr + of_nat i * kPageSize4K)
               (physical_addr + of_nat i * kPageSize4K)
         in if ok then map_loop flags pm virtual_addr physical_addr count (Suc i) else pm)
      else pm)"
  by pat_completeness auto
termination
  by (relation "measure (\<lambda>(flags, pm, v, p, count, i). unat count - i)") auto

declare map_loop.simps [simp del]

definition MapPage :: "PageManager \<Rightarrow> u64 \<Rightarrow> u64 \<Rightarrow> u64 \<Rightarrow> u64 \<Rightarrow> PageManager" where
  "MapPage pm virtual_addr physical_addr count flags =
     (if pml4_table pm = 0 then pm else map_loop flags pm virtual_addr physical_addr count 0)"

function alloc_virtual_loop :: "u64 \<Rightarrow> PageManager \<Rightarrow> u64 \<Rightarrow> nat \<Rightarrow> nat \<Rightarrow> bool \<times> PageManager" where
  "alloc_virtual_loop flags pm virtual_addr num_pages i =
     (if i < num_pages then
        (let (frame, mm) = AllocateFrame (pg_mm pm); pm = pm\<lparr>pg_mm := mm\<rparr> in
         if frame = 0 then (False, pm)
         else alloc_virtual_loop flags
                (MapPage (zero_frame pm frame) (virtual_addr + of_nat i * kPageSize4K) frame 1 flags)
                virtual_addr num_pages (Suc i))
      else (True, pm))"
  by pat_completeness auto
termination
  by (relation "measure (\<lambda>(flags, pm, v, n, i). n - i)") auto

declare alloc_virtual_loop.simps [simp del]

definition AllocateVirtual :: "PageManager \<Rightarrow> u64 \<Rightarrow> u64 \<Rightarrow> u64 \<Rightarrow> bool \<times> PageManager" where
  "AllocateVirtual pm virtual_addr sz flags =
     (if virtual_addr mod kPageSize4K \<noteq> 0 then (False, pm)
      else alloc_virtual_loop flags pm virtual_addr
             (unat ((sz + kPageSize4K - 1) div kPageSize4K)) 0)"

definition LoadCR3 :: "PageManager \<Rightarrow> u64 \<Rightarrow> PageManager" where
  "LoadCR3 pm v = pm\<lparr>cr3 := v\<rparr>"

text \<open>\<open>Initialize\<close>: the 512 entries of one page directory, the loop over the 64 directories,
  and the whole; \<open>None\<close> when no frame is left for the root and the kernel halts.\<close>

definition huge_entry :: "nat \<Rightarrow> u9 \<Rightarrow> u64 \<Rightarrow> u64" where
  "huge_entry i_pdp i_pd old =
     set_user_supervisor True (set_huge_page True (set_read_write True (set_present True
       (SetAddress (of_nat i_pdp * 1024 * 1024 * 1024 + of_nat (unat i_pd) * 2 * 1024 * 1024) old))))"

definition table_entry :: "u64 \<Rightarrow> u64 \<Rightarrow> u64" where
  "table_entry t old = set_user_supervisor True (set_read_write True (set_present True (SetAddress t old)))"

definition init_pd :: "u64 \<Rightarrow> nat \<Rightarrow> PageManager \<Rightarrow> PageManager" where
  "init_pd pdp_table i_pdp pm =
     (let (pd_table, pm) = AllocateTable pm;
          pm = set_entry pm pdp_table (of_nat i_pdp) (table_entry pd_table (frames pm pdp_table (of_nat i_pdp)))
      in pm\<lparr>frames := (frames pm)(pd_table := (\<lambda>i. huge_entry i_pdp i (frames pm pd_table i)))\<rparr>)"

definition Initialize_pages :: "PageManager \<Rightarrow> PageManager option" where
  "Initialize_pages pm =
     (let (root, pm) = AllocateTable pm; pm = pm\<lparr>pml4_table := root\<rparr> in
      if root = 0 then None
      else
        let (pdp_table, pm) = AllocateTable pm;
            pm = set_entry pm root 0 (table_entry pdp_table (frames pm root 0));
            pm = fold (init_pd pdp_table) [0..<64] pm
        in Some (LoadCR3 pm root))"

section \<open>Process page tables\<close>

definition GetKernelCR3 :: "PageManager \<Rightarrow> u64" where
  "GetKernelCR3 pm = pml4_table pm"

definition CopyPageTable :: "PageManager \<Rightarrow> u64 \<Rightarrow> u64 \<times> PageManager" where
  "CopyPageTable pm src =
     (let (new_table, pm) = AllocateTable pm in
      if new_table = 0 then (0, pm)
      else (new_table, pm\<lparr>frames := (frames pm)(new_table := frames pm src)\<rparr>))"

function FreePageTableHierarchy :: "PageManager \<Rightarrow> u64 \<Rightarrow> nat \<Rightarrow> bool \<Rightarrow> PageManager" where
  "FreePageTableHierarchy pm table level free_frames =
     (if table = 0 then pm
      else fold (\<lambda>i pm.
        let entry = frames pm table (of_nat i); child_addr = GetAddress entry in
        if \<not> pte_present entry then pm
        else if child_addr = 0 then pm
        else if level > 1 then
          (if pte_huge entry then pm
           else (let pm = FreePageTableHierarchy pm child_addr (level - 1) free_frames
                 in pm\<lparr>pg_mm := FreeFrame (pg_mm pm) child_addr\<rparr>))
        else if free_frames then pm\<lparr>pg_mm := FreeFrame (pg_mm pm) child_addr\<rparr>
        else pm) [0..<512] pm)"
  by pat_completeness auto
termination
  by (relation "measure (\<lambda>(pm, table, level, ff). level)") auto

declare FreePageTableHierarchy.simps [simp del]

text \<open>The copy of one page directory of the new PDP, which is kept shared when the copy fails.\<close>

definition copy_pd :: "PageManager \<Rightarrow> u64 \<Rightarrow> u9 \<Rightarrow> PageManager" where
  "copy_pd pm new_pdp i =
     (if pte_present (frames pm new_pdp i) then
        (let (new_pd, pm) = CopyPageTable pm (GetAddress (frames pm new_pdp i)) in
         if new_pd \<noteq> 0 then set_entry pm new_pdp i (SetAddress new_pd (frames pm new_pdp i)) else pm)
      else pm)"

definition CreateProcessPageTable :: "PageManager \<Rightarrow> u64 \<times> PageManager" where
  "CreateProcessPageTable pm =
     (let (new_pml4, pm) = CopyPageTable pm (pml4_table pm) in
      if new_pml4 = 0 then (0, pm)
      else if pte_present (frames pm new_pml4 0) then
        (let (new_pdp, pm) = CopyPageTable pm (GetAddress (frames pm new_pml4 0)) in
         if new_pdp \<noteq> 0 then
           (let pm = set_entry pm new_pml4 0 (SetAddress new_pdp (frames pm new_pml4 0))
            in (new_pml4, copy_pd (copy_pd pm new_pdp 0) new_pdp 1))
         else (new_pml4, pm))
      else (new_pml4, pm))"

definition SwitchPageTable :: "PageManager \<Rightarrow> u64 \<Rightarrow> PageManager" where
  "SwitchPageTable pm cr3_value = (if cr3_value = 0 then pm else LoadCR3 pm cr3_value)"

definition free_pd :: "PageManager \<Rightarrow> u64 \<Rightarrow> u9 \<Rightarrow> PageManager" where
  "free_pd pm target_pdp i =
     (if pte_present (frames pm target_pdp i) then
        set_entry (pm\<lparr>pg_mm := FreeFrame (pg_mm pm) (GetAddress (frames pm target_pdp i))\<rparr>) target_pdp i 0
      else pm)"

definition FreeProcessPageTable :: "PageManager \<Rightarrow> u64 \<Rightarrow> PageManager" where
  "FreeProcessPageTable pm cr3_value =
     (if cr3_value = pml4_table pm then pm
      else if cr3_value = 0 then pm
      else
        let pm = (if pte_present (frames pm cr3_value 0) then
                    let target_pdp = GetAddress (frames pm cr3_value 0);
                        pm = free_pd (free_pd pm target_pdp 0) target_pdp 1
                    in pm\<lparr>pg_mm := FreeFrame (pg_mm pm) target_pdp\<rparr>
                  else pm)
        in pm\<lparr>pg_mm := FreeFrame (pg_mm pm) cr3_value\<rparr>)"

definition AllocateVirtualForProcess ::
  "PageManager \<Rightarrow> u64 \<Rightarrow> u64 \<Rightarrow> u64 \<Rightarrow> u64 \<Rightarrow> bool \<times> PageManager" where
  "AllocateVirtualForProcess pm target_cr3 virtual_addr sz flags =
     (let current_cr3 = cr3 pm;
          pm = (if target_cr3 \<noteq> current_cr3 then SwitchPageTable pm target_cr3 else pm);
          original_pml4 = pml4_table pm;
          (result, pm) = AllocateVirtual (pm\<lparr>pml4_table := target_cr3\<rparr>) virtual_addr sz flags;
          pm = pm\<lparr>pml4_table := original_pml4\<rparr>;
          pm = (if target_cr3 \<noteq> current_cr3 then SwitchPageTable pm current_cr3 else pm)
      in (result, pm))"

section \<open>The MMU\<close>

text \<open>The physical address the processor reaches through the tables at \<open>root\<close>.\<close>

definition translate :: "ptmem \<Rightarrow> u64 \<Rightarrow> u64 \<Rightarrow> u64 option" where
  "translate mem root v =
     (let e4 = mem root (pml4_idx v) in
      if \<not> pte_present e4 then None else
      let e3 = mem (GetAddress e4) (pdp_idx v) in
      if \<not> pte_present e3 then None
      else if pte_huge e3 then Some ((GetAddress e3 AND NOT (mask 30)) OR take_bit 30 v) else
      let e2 = mem (GetAddress e3) (pd_idx v) in
      if \<not> pte_present e2 then None
      else if pte_huge e2 then Some ((GetAddress e2 AND NOT (mask 21)) OR take_bit 21 v) else
      let e1 = mem (GetAddress e2) (pt_idx v) in
      if \<not> pte_present e1 then None else Some (GetAddress e1 OR take_bit 12 v))"

end
