(* ===== verification/PageWalk.thy ===== *)
theory PageWalk
  imports Paging
begin

text \<open>
  Correctness of the page tables. The tables under one root form a tree: \<open>walk\<close> follows a
  path of indices, and \<open>pt_ok\<close> says that each table is reached by one path only and sits in
  a used frame. Every write that \<open>MapPage\<close> performs (a new table, a split of a 2 MB page, a
  leaf) is a change of one entry of one reachable table, so its effect on all translations
  follows from the tree shape. On top of this: mapping, allocation, identity mapping and the
  isolation of a process from the kernel's tables.
\<close>

section \<open>Entries\<close>

lemmas pte_defs = set_present_def set_read_write_def set_user_supervisor_def set_huge_page_def

lemma bit_put_flag: "bit (put_flag n b v) k \<longleftrightarrow> (if k = n then b \<and> n < 64 else bit v k)"
  by (auto simp: put_flag_def bit_simps dest: bit_imp_le_length)

lemma mask40: "(0xFFFFFFFFFF :: u64) = mask 40"
  by (simp add: mask_eq_exp_minus_1)

lemma bit_GetAddress: "bit (GetAddress v) n \<longleftrightarrow> 12 \<le> n \<and> n < 52 \<and> bit v n"
  by (auto simp: GetAddress_def mask40 bit_simps)

lemma bit_SetAddress: "bit (SetAddress a v) n \<longleftrightarrow> (if 12 \<le> n \<and> n < 52 then bit a n else bit v n)"
  by (auto simp: SetAddress_def mask40 bit_simps dest: bit_imp_le_length)

named_theorems pte_simps \<open>fields of an updated page table entry\<close>

lemma GetAddress_SetAddress [pte_simps]: "GetAddress (SetAddress a v) = GetAddress a"
  by (rule bit_word_eqI) (auto simp: bit_GetAddress bit_SetAddress)

lemma GetAddress_idem [simp]: "GetAddress (GetAddress v) = GetAddress v"
  by (rule bit_word_eqI) (auto simp: bit_GetAddress)

lemma GetAddress_put_flag: "n < 12 \<Longrightarrow> GetAddress (put_flag n b v) = GetAddress v"
  by (rule bit_word_eqI) (auto simp: bit_GetAddress bit_put_flag)

lemma GetAddress_flags [pte_simps]:
  "GetAddress (set_present b v) = GetAddress v" "GetAddress (set_read_write b v) = GetAddress v"
  "GetAddress (set_user_supervisor b v) = GetAddress v" "GetAddress (set_huge_page b v) = GetAddress v"
  by (simp_all add: pte_defs GetAddress_put_flag)

lemma pte_present_upd [pte_simps]:
  "pte_present (set_present b v) = b" "pte_present (set_read_write b v) = pte_present v"
  "pte_present (set_user_supervisor b v) = pte_present v"
  "pte_present (set_huge_page b v) = pte_present v" "pte_present (SetAddress a v) = pte_present v"
  by (simp_all add: pte_defs pte_present_def bit_put_flag bit_SetAddress)

lemma pte_huge_upd [pte_simps]:
  "pte_huge (set_present b v) = pte_huge v" "pte_huge (set_read_write b v) = pte_huge v"
  "pte_huge (set_user_supervisor b v) = pte_huge v"
  "pte_huge (set_huge_page b v) = b" "pte_huge (SetAddress a v) = pte_huge v"
  by (simp_all add: pte_defs pte_huge_def bit_put_flag bit_SetAddress)

lemma pte_user_upd [pte_simps]:
  "pte_user (set_present b v) = pte_user v" "pte_user (set_read_write b v) = pte_user v"
  "pte_user (set_user_supervisor b v) = b"
  "pte_user (set_huge_page b v) = pte_user v" "pte_user (SetAddress a v) = pte_user v"
  by (simp_all add: pte_defs pte_user_def bit_put_flag bit_SetAddress)

lemma pte_zero [pte_simps]: "\<not> pte_present 0" "\<not> pte_huge 0"
  by (simp_all add: pte_present_def pte_huge_def)

text \<open>Frame addresses below \<open>2 ^ 52\<close> fit the address field.\<close>

lemma GetAddress_frame:
  assumes "i < 2 ^ 40"
  shows "GetAddress (of_nat (i * kFrameSize)) = of_nat (i * kFrameSize)"
proof (rule bit_word_eqI)
  have eq: "(of_nat (i * kFrameSize) :: u64) = push_bit 12 (of_nat i)"
    by (simp add: kFrameSize_def push_bit_eq_mult)
  have "take_bit 40 (of_nat i :: u64) = of_nat i"
    using assms by (simp add: take_bit_nat_eq_self take_bit_of_nat)
  then have "bit (of_nat i :: u64) n \<Longrightarrow> n < 40" for n
    by (metis bit_take_bit_iff)
  then show "bit (GetAddress (of_nat (i * kFrameSize))) n = bit (of_nat (i * kFrameSize) :: u64) n" for n
    unfolding bit_GetAddress unfolding eq by (fastforce simp: bit_push_bit_iff)
qed

section \<open>The tree of tables\<close>

definition next_table :: "ptmem \<Rightarrow> u64 \<Rightarrow> u9 \<Rightarrow> u64 option" where
  "next_table mem t i =
     (if pte_present (mem t i) \<and> \<not> pte_huge (mem t i) then Some (GetAddress (mem t i)) else None)"

fun walk :: "ptmem \<Rightarrow> u64 \<Rightarrow> u9 list \<Rightarrow> u64 option" where
  "walk mem t [] = Some t"
| "walk mem t (i # is) = Option.bind (next_table mem t i) (\<lambda>t'. walk mem t' is)"

lemma walk_append: "walk mem t (p @ q) = Option.bind (walk mem t p) (\<lambda>t'. walk mem t' q)"
  by (induction p arbitrary: t) (auto split: Option.bind_splits)

text \<open>Large pages occur in page directories only, and at 2 MB boundaries.\<close>

definition good_entry :: "nat \<Rightarrow> u64 \<Rightarrow> bool" where
  "good_entry depth e \<longleftrightarrow>
     (depth \<le> 2 \<and> pte_huge e \<longrightarrow> pte_present e \<and> depth = 2 \<and> take_bit 21 (GetAddress e) = 0)"

definition pt_ok :: "ptmem \<Rightarrow> u64 \<Rightarrow> u64 set \<Rightarrow> bool" where
  "pt_ok mem r U \<longleftrightarrow>
     (\<forall>p a. length p \<le> 3 \<and> walk mem r p = Some a \<longrightarrow> a \<in> U \<and> a \<noteq> 0 \<and> GetAddress a = a) \<and>
     (\<forall>p q a. length p \<le> 3 \<and> length q \<le> 3 \<and> walk mem r p = Some a \<and> walk mem r q = Some a \<longrightarrow> p = q) \<and>
     (\<forall>p a i. length p \<le> 2 \<and> walk mem r p = Some a \<longrightarrow> good_entry (length p) (mem a i))"

lemma pt_okD:
  assumes "pt_ok mem r U" "walk mem r p = Some a" "length p \<le> 3"
  shows "a \<in> U" "a \<noteq> 0" "GetAddress a = a"
    and "length q \<le> 3 \<Longrightarrow> walk mem r q = Some a \<Longrightarrow> q = p"
    and "length p \<le> 2 \<Longrightarrow> good_entry (length p) (mem a i)"
  using assms unfolding pt_ok_def by blast+

lemma pt_okI:
  assumes "\<And>p a. length p \<le> 3 \<Longrightarrow> walk mem r p = Some a \<Longrightarrow> a \<in> U \<and> a \<noteq> 0 \<and> GetAddress a = a"
    and "\<And>p q a. length p \<le> 3 \<Longrightarrow> length q \<le> 3 \<Longrightarrow> walk mem r p = Some a \<Longrightarrow>
      walk mem r q = Some a \<Longrightarrow> p = q"
    and "\<And>p a i. length p \<le> 2 \<Longrightarrow> walk mem r p = Some a \<Longrightarrow> good_entry (length p) (mem a i)"
  shows "pt_ok mem r U"
  using assms unfolding pt_ok_def by blast

text \<open>A write of one entry of a reachable table only concerns the paths through that entry.\<close>

lemma walk_other:
  assumes ok: "pt_ok mem r U" and t: "walk mem r p = Some t" "length p \<le> 3"
    and agree: "\<And>a j. a \<in> U \<Longrightarrow> (a, j) \<noteq> (t, i) \<Longrightarrow> mem' a j = mem a j"
    and q: "length q \<le> 4" "take (Suc (length p)) q \<noteq> p @ [i]"
  shows "walk mem' r q = walk mem r q"
  using q
proof (induction q rule: rev_induct)
  case Nil
  then show ?case by simp
next
  case (snoc j q)
  have "take (Suc (length p)) q \<noteq> p @ [i]"
    using snoc.prems by (auto simp: take_append split: if_splits) 
  then have IH: "walk mem' r q = walk mem r q"
    using snoc by simp
  show ?case
  proof (cases "walk mem r q")
    case None
    then show ?thesis using IH by (simp add: walk_append)
  next
    case (Some a)
    have "(a, j) \<noteq> (t, i)"
      using pt_okD(4) [OF ok t, of q] Some snoc.prems by auto
    then have "mem' a j = mem a j"
      using agree pt_okD(1) [OF ok Some] snoc.prems by simp
    then show ?thesis using IH Some by (simp add: walk_append next_table_def)
  qed
qed

text \<open>A table hung into a free slot of the tree: a new table, or the split of a 2 MB page.\<close>

lemma walk_graft:
  assumes ok: "pt_ok mem r U" and t: "walk mem r p = Some t" "length p \<le> 2"
    and free: "next_table mem t i = None" and link: "next_table mem' t i = Some n"
    and agree: "\<And>a j. a \<in> U \<Longrightarrow> (a, j) \<noteq> (t, i) \<Longrightarrow> mem' a j = mem a j"
    and below: "length p = 2 \<or> (\<forall>j. mem' n j = 0)" and q: "length q \<le> 3"
  shows "walk mem' r q = (if q = p @ [i] then Some n else walk mem r q)"
proof (cases "take (Suc (length p)) q = p @ [i]")
  case False
  then have "q \<noteq> p @ [i]" by auto
  then show ?thesis using False walk_other [OF ok t(1) _ agree _ False] t q by simp
next
  case True
  then obtain s where s: "q = p @ i # s"
    by (metis append_Cons append_Nil append_assoc append_take_drop_id)
  have "walk mem' r p = Some t"
    using walk_other [OF ok t(1) _ agree, where q = p] t by simp
  moreover have "s \<noteq> [] \<Longrightarrow> next_table mem' n (hd s) = None"
    using below q s by (auto simp: next_table_def pte_simps)
  ultimately show ?thesis
    using s t link free by (cases s) (auto simp: walk_append)
qed

lemma pt_ok_graft:
  assumes ok: "pt_ok mem r U" and t: "walk mem r p = Some t" "length p \<le> 2"
    and free: "next_table mem t i = None" and link: "next_table mem' t i = Some n"
    and agree: "\<And>a j. a \<in> U \<Longrightarrow> (a, j) \<noteq> (t, i) \<Longrightarrow> mem' a j = mem a j"
    and below: "length p = 2 \<or> (\<forall>j. mem' n j = 0)"
    and n: "n \<notin> U" "n \<noteq> 0" "GetAddress n = n" "n \<in> U'" "U \<subseteq> U'"
  shows "pt_ok mem' r U'"
proof (rule pt_okI)
  have walk': "walk mem' r q = (if q = p @ [i] then Some n else walk mem r q)" if "length q \<le> 3" for q
    by (rule walk_graft [OF ok t free link agree below that])
  show "a \<in> U' \<and> a \<noteq> 0 \<and> GetAddress a = a" if "length q \<le> 3" "walk mem' r q = Some a" for q a
    using that n pt_okD(1-3) [OF ok, of q a] by (auto simp: walk' split: if_splits)
  show "q = q'" if "length q \<le> 3" "length q' \<le> 3" "walk mem' r q = Some a" "walk mem' r q' = Some a"
    for q q' a
    using that n pt_okD(1) [OF ok, of _ a] pt_okD(4) [OF ok, of q' a q]
    by (auto simp: walk' split: if_splits)
  show "good_entry (length q) (mem' a j)"
    if q: "length q \<le> 2" "walk mem' r q = Some a" for q a j
  proof (cases "q = p @ [i]")
    case True
    then show ?thesis using q below t walk' [of q] by (auto simp: good_entry_def pte_simps)
  next
    case False
    then have a: "walk mem r q = Some a" using q walk' [of q] by simp
    then have "a \<in> U" using pt_okD(1) [OF ok] q by simp
    then show ?thesis
      using link agree [of a j] q pt_okD(5) [OF ok a]
      by (cases "(a, j) = (t, i)") (auto simp: next_table_def good_entry_def split: if_splits)
  qed
qed

text \<open>A write that keeps what an entry points to.\<close>

lemma walk_same_entries:
  assumes ok: "pt_ok mem r U"
    and agree: "\<And>a j. a \<in> U \<Longrightarrow> next_table mem' a j = next_table mem a j" and "length q \<le> 4"
  shows "walk mem' r q = walk mem r q"
  using assms(3)
proof (induction q rule: rev_induct)
  case (snoc j q)
  then show ?case
    using agree pt_okD(1) [OF ok, of q] by (cases "walk mem r q") (auto simp: walk_append)
qed simp

lemma pt_ok_same_entries:
  assumes ok: "pt_ok mem r U"
    and agree: "\<And>a j. a \<in> U \<Longrightarrow> next_table mem' a j = next_table mem a j"
    and huge: "\<And>p a j. length p \<le> 2 \<Longrightarrow> walk mem r p = Some a \<Longrightarrow> good_entry (length p) (mem' a j)"
    and "U \<subseteq> U'"
  shows "pt_ok mem' r U'"
proof (rule pt_okI)
  have walk': "walk mem' r q = walk mem r q" if "length q \<le> 3" for q
    using walk_same_entries [OF ok agree] that by simp
  show "a \<in> U' \<and> a \<noteq> 0 \<and> GetAddress a = a" if "length q \<le> 3" "walk mem' r q = Some a" for q a
    using that pt_okD(1-3) [OF ok, of q a] assms(4) by (auto simp: walk')
  show "q = q'" if "length q \<le> 3" "length q' \<le> 3" "walk mem' r q = Some a" "walk mem' r q' = Some a"
    for q q' a
    using that pt_okD(4) [OF ok, of q' a q] by (auto simp: walk')
  show "good_entry (length q) (mem' a j)" if "length q \<le> 2" "walk mem' r q = Some a" for q a j
    using huge that by (auto simp: walk')
qed

section \<open>Translation along the tree\<close>

definition path :: "u64 \<Rightarrow> u9 list" where
  "path v = [pml4_idx v, pdp_idx v, pd_idx v]"

definition pd_translate :: "ptmem \<Rightarrow> u64 \<Rightarrow> u64 \<Rightarrow> u64 option" where
  "pd_translate mem pd v =
     (let e2 = mem pd (pd_idx v) in
      if \<not> pte_present e2 then None
      else if pte_huge e2 then Some ((GetAddress e2 AND NOT (mask 21)) OR take_bit 21 v) else
      let e1 = mem (GetAddress e2) (pt_idx v) in
      if \<not> pte_present e1 then None else Some (GetAddress e1 OR take_bit 12 v))"

lemma length_path [simp]: "length (path v) = 3"
  by (simp add: path_def)

lemma take_path: "take 2 (path v) = [pml4_idx v, pdp_idx v]" "take 1 (path v) = [pml4_idx v]"
  "take 3 (path v) = path v" "take 0 (path v) = []"
  by (simp_all add: path_def)

lemma translate_walk:
  assumes ok: "pt_ok mem r U"
  shows "translate mem r v = Option.bind (walk mem r (take 2 (path v))) (\<lambda>pd. pd_translate mem pd v)"
proof -
  let ?e4 = "mem r (pml4_idx v)"
  have e4: "\<not> pte_huge ?e4" if "pte_present ?e4"
    using pt_okD(5) [OF ok, of "[]" r "pml4_idx v"] that by (simp add: good_entry_def)
  have e3: "\<not> pte_huge (mem (GetAddress ?e4) (pdp_idx v))"
    if "pte_present ?e4" "pte_present (mem (GetAddress ?e4) (pdp_idx v))"
    using pt_okD(5) [OF ok, of "[pml4_idx v]" "GetAddress ?e4" "pdp_idx v"] that e4
    by (simp add: next_table_def good_entry_def)
  show ?thesis
    using e4 e3 by (simp add: translate_def take_path pd_translate_def next_table_def Let_def)
qed

text \<open>The tables on the way to an address, and the page an address lies in.\<close>

definition own :: "ptmem \<Rightarrow> u64 \<Rightarrow> u64 \<Rightarrow> u64 set" where
  "own mem r v = {a. \<exists>k\<le>3. walk mem r (take k (path v)) = Some a}"

definition page_of :: "u64 \<Rightarrow> u9 list" where
  "page_of v = path v @ [pt_idx v]"

lemma own_walk: "walk mem r (take k (path v)) = Some a \<Longrightarrow> k \<le> 3 \<Longrightarrow> a \<in> own mem r v"
  by (auto simp: own_def)

lemma own_used: "pt_ok mem r U \<Longrightarrow> own mem r v \<subseteq> U"
  by (auto simp: own_def dest: pt_okD(1))

lemma pd_translate_cong:
  assumes "mem' pd (pd_idx v) = mem pd (pd_idx v)"
    and "\<And>pt. next_table mem pd (pd_idx v) = Some pt \<Longrightarrow> mem' pt (pt_idx v) = mem pt (pt_idx v)"
  shows "pd_translate mem' pd v = pd_translate mem pd v"
  using assms by (simp add: pd_translate_def next_table_def Let_def)

lemma pd_on_path:
  assumes ok: "pt_ok mem r U" and w: "walk mem r (take 2 (path w)) = Some pd"
  shows "pd \<in> U" and "next_table mem pd (pd_idx w) = walk mem r (path w)"
    and "next_table mem pd (pd_idx w) = Some pt \<Longrightarrow> pt \<in> U"
proof -
  have split: "path w = take 2 (path w) @ [pd_idx w]" by (simp add: path_def)
  show next_w: "next_table mem pd (pd_idx w) = walk mem r (path w)"
    by (subst split) (simp only: walk_append w, simp)
  show "pd \<in> U" using pt_okD(1) [OF ok w] by simp
  show "pt \<in> U" if "next_table mem pd (pd_idx w) = Some pt"
    using pt_okD(1) [OF ok, of "path w"] that next_w by simp
qed

text \<open>Translations do not see a new empty table.\<close>

lemma translate_new_table:
  assumes ok: "pt_ok mem r U" and t: "walk mem r p = Some t" "length p \<le> 2"
    and free: "next_table mem t i = None" "\<not> pte_present (mem t i)" and link: "next_table mem' t i = Some n"
    and agree: "\<And>a j. a \<in> U \<Longrightarrow> (a, j) \<noteq> (t, i) \<Longrightarrow> mem' a j = mem a j"
    and below: "\<forall>j. mem' n j = 0" and ok': "pt_ok mem' r U'"
  shows "translate mem' r w = translate mem r w"
proof -
  let ?q = "take 2 (path w)"
  have walk': "walk mem' r ?q = (if ?q = p @ [i] then Some n else walk mem r ?q)"
    using walk_graft [OF ok t free(1) link agree, of ?q] below by simp
  show ?thesis
  proof (cases "?q = p @ [i]")
    case True
    then have "walk mem r ?q = None" using t free by (simp only: walk_append) simp
    then show ?thesis
      using True below walk' by (simp add: translate_walk [OF ok] translate_walk [OF ok'] pd_translate_def pte_simps)
  next
    case False
    have "pd_translate mem' pd w = pd_translate mem pd w" if pd: "walk mem r ?q = Some pd" for pd
    proof (cases "(pd, pd_idx w) = (t, i)")
      case True
      then show ?thesis
        using free link below by (auto simp: pd_translate_def next_table_def pte_simps split: if_splits)
    next
      case other: False
      have "mem' pd (pd_idx w) = mem pd (pd_idx w)"
        using agree pd_on_path(1) [OF ok pd] other by blast
      moreover have "mem' pt (pt_idx w) = mem pt (pt_idx w)" if "next_table mem pd (pd_idx w) = Some pt" for pt
      proof -
        have "pt \<noteq> t"
          using pt_okD(4) [OF ok t(1), of "path w"] that pd_on_path(2) [OF ok pd] t(2) by auto
        then show ?thesis using agree pd_on_path(3) [OF ok pd that] by blast
      qed
      ultimately show ?thesis by (rule pd_translate_cong)
    qed
    then show ?thesis
      using False walk' by (cases "walk mem r ?q") (simp_all add: translate_walk [OF ok] translate_walk [OF ok'])
  qed
qed

text \<open>The entries of a split page map the same 2 MB.\<close>

lemma bit_pt_idx: "bit (pt_idx w) m \<longleftrightarrow> m < 9 \<and> bit w (m + 12)"
proof -
  have mask9: "(0x1FF :: u64) = mask 9" by (simp add: mask_eq_exp_minus_1)
  show ?thesis unfolding pt_idx_def mask9 by (auto simp: bit_simps add.commute)
qed

lemma bit_index_offset:
  fixes k :: u9
  shows "bit (ucast k * kPageSize4K :: u64) n \<longleftrightarrow> 12 \<le> n \<and> n < 21 \<and> bit k (n - 12)"
proof -
  have "(ucast k * kPageSize4K :: u64) = push_bit 12 (ucast k)"
    by (simp add: kPageSize4K_def push_bit_eq_mult)
  then show ?thesis by (auto simp: bit_simps dest: bit_imp_le_length)
qed

lemma split_base:
  fixes k :: u9
  assumes "take_bit 21 base = 0" "GetAddress base = base"
  shows "bit (base + ucast k * kPageSize4K) n \<longleftrightarrow>
    (if n < 21 then 12 \<le> n \<and> bit k (n - 12) else bit base n)"
proof -
  let ?x = "ucast k * kPageSize4K :: u64"
  have low: "\<not> bit base m" if "m < 21" for m
    using arg_cong [OF assms(1), of "\<lambda>x. bit x m"] that by (simp add: bit_take_bit_iff)
  have "base AND ?x = 0"
    by (rule bit_word_eqI) (auto simp: bit_and_iff bit_index_offset low)
  then have "base + ?x = base OR ?x"
    by (simp add: disjunctive_add_eq_or)
  then show ?thesis
    by (auto simp: bit_or_iff bit_index_offset low)
qed

lemma bit_low_flags: "bit (e AND 0xFFF :: u64) n \<longleftrightarrow> n < 12 \<and> bit e n"
proof -
  have mask12: "(0xFFF :: u64) = mask 12" by (simp add: mask_eq_exp_minus_1)
  show ?thesis unfolding mask12 by (auto simp: bit_simps dest: bit_imp_le_length)
qed

lemma split_entry_fields:
  "pte_present (split_entry base fl k old)" "\<not> pte_huge (split_entry base fl k old)"
  by (simp_all add: split_entry_def pte_simps)

lemma split_entry_translates:
  assumes "take_bit 21 (GetAddress e) = 0"
  shows "GetAddress (split_entry (GetAddress e) (e AND 0xFFF) (pt_idx w) 0) OR take_bit 12 w =
    (GetAddress e AND NOT (mask 21)) OR take_bit 21 w"
proof (rule bit_word_eqI)
  fix n assume n: "n < LENGTH(64)"
  let ?a = "GetAddress e + ucast (pt_idx w) * kPageSize4K"
  have "GetAddress (split_entry (GetAddress e) (e AND 0xFFF) (pt_idx w) 0) = GetAddress ?a"
    by (rule bit_word_eqI)
      (auto simp: split_entry_def pte_simps bit_GetAddress bit_or_iff bit_SetAddress bit_low_flags)
  moreover have "bit ?a n \<longleftrightarrow> (if n < 21 then 12 \<le> n \<and> bit w n else bit (GetAddress e) n)"
    using split_base [OF assms, of "pt_idx w" n] by (auto simp: bit_pt_idx)
  ultimately show "bit (GetAddress (split_entry (GetAddress e) (e AND 0xFFF) (pt_idx w) 0) OR take_bit 12 w) n =
      bit ((GetAddress e AND NOT (mask 21)) OR take_bit 21 w) n"
    using n by (auto simp: bit_simps bit_GetAddress)
qed

lemma translate_split:
  assumes ok: "pt_ok mem r U" and t: "walk mem r p = Some t" "length p = 2"
    and huge: "pte_present (mem t i)" "pte_huge (mem t i)"
    and link: "next_table mem' t i = Some n"
    and agree: "\<And>a j. a \<in> U \<Longrightarrow> (a, j) \<noteq> (t, i) \<Longrightarrow> mem' a j = mem a j"
    and below: "\<And>k. mem' n k = split_entry (GetAddress (mem t i)) (mem t i AND 0xFFF) k 0"
    and ok': "pt_ok mem' r U'"
  shows "translate mem' r w = translate mem r w"
proof -
  let ?q = "take 2 (path w)"
  have walk': "walk mem' r ?q = walk mem r ?q"
    using walk_graft [OF ok t(1) _ _ link agree, of ?q] t(2) huge
    by (auto simp: next_table_def dest: arg_cong [of _ _ length])
  have "pd_translate mem' pd w = pd_translate mem pd w" if pd: "walk mem r ?q = Some pd" for pd
  proof (cases "(pd, pd_idx w) = (t, i)")
    case True
    have "good_entry 2 (mem t i)" using pt_okD(5) [OF ok t(1)] t(2) by simp
    then have "take_bit 21 (GetAddress (mem t i)) = 0"
      using huge by (simp add: good_entry_def)
    note same = split_entry_translates [OF this, of w]
    show ?thesis
      using True huge link below [of "pt_idx w"] split_entry_fields same
      by (auto simp: pd_translate_def next_table_def Let_def split: if_splits)
  next
    case False
    have "mem' pd (pd_idx w) = mem pd (pd_idx w)"
      using agree pd_on_path(1) [OF ok pd] False by blast
    moreover have "mem' pt (pt_idx w) = mem pt (pt_idx w)" if "next_table mem pd (pd_idx w) = Some pt" for pt
    proof -
      have "pt \<noteq> t"
        using pt_okD(4) [OF ok t(1), of "path w"] that pd_on_path(2) [OF ok pd] t(2) by auto
      then show ?thesis using agree pd_on_path(3) [OF ok pd that] by blast
    qed
    ultimately show ?thesis by (rule pd_translate_cong)
  qed
  then show ?thesis
    using walk' by (cases "walk mem r ?q") (simp_all add: translate_walk [OF ok] translate_walk [OF ok'])
qed

text \<open>A leaf entry decides the translation of its page and of no other.\<close>

lemma translate_leaf:
  assumes ok: "pt_ok mem r U" and t: "walk mem r (path v) = Some t"
    and mem': "\<And>a j. a \<in> U \<Longrightarrow> (a, j) \<noteq> (t, pt_idx v) \<Longrightarrow> mem' a j = mem a j"
    and ok': "pt_ok mem' r U'"
  shows "translate mem' r w =
    (if page_of w = page_of v then
       (if pte_present (mem' t (pt_idx v)) then Some (GetAddress (mem' t (pt_idx v)) OR take_bit 12 w) else None)
     else translate mem r w)"
proof -
  let ?q = "take 2 (path w)"
  have walk': "walk mem' r q = walk mem r q" if "length q \<le> 3" for q
    by (rule walk_other [OF ok t _ mem']) (use that in \<open>auto dest: arg_cong [of _ _ length]\<close>)
  have pd': "next_table mem' pd (pd_idx w) = next_table mem pd (pd_idx w) \<and> mem' pd (pd_idx w) = mem pd (pd_idx w)"
    if pd: "walk mem r ?q = Some pd" for pd
  proof -
    have "?q \<noteq> path v" by (rule notI, drule arg_cong [of _ _ length]) simp
    then have "pd \<noteq> t" using pt_okD(4) [OF ok t, of ?q] pd by auto
    then show ?thesis using mem' pd_on_path(1) [OF ok pd] by (simp add: next_table_def)
  qed
  show ?thesis
  proof (cases "walk mem r (path w) = Some t")
    case True
    then have same: "path w = path v" using pt_okD(4) [OF ok t] by simp
    obtain pd where pd: "walk mem r ?q = Some pd" "next_table mem pd (pd_idx w) = Some t"
      using True by (auto simp: path_def bind_eq_Some_conv)
    have "mem' t (pt_idx w) = mem t (pt_idx w)" if "pt_idx w \<noteq> pt_idx v"
      using that mem' pt_okD(1) [OF ok t] by simp
    then show ?thesis
      using pd pd' [OF pd(1)] same walk' [of ?q]
      by (cases "pt_idx w = pt_idx v") (auto simp: translate_walk [OF ok] translate_walk [OF ok'] pd_translate_def next_table_def
          page_of_def Let_def split: if_splits)
  next
    case False
    then have other: "page_of w \<noteq> page_of v" using t by (auto simp: page_of_def)
    have "pd_translate mem' pd w = pd_translate mem pd w" if pd: "walk mem r ?q = Some pd" for pd
    proof (rule pd_translate_cong)
      show "mem' pd (pd_idx w) = mem pd (pd_idx w)" using pd' [OF pd] by simp
      fix pt assume pt: "next_table mem pd (pd_idx w) = Some pt"
      then have "pt \<noteq> t" using False pd_on_path(2) [OF ok pd] by auto
      then show "mem' pt (pt_idx w) = mem pt (pt_idx w)"
        using mem' pd_on_path(3) [OF ok pd pt] by simp
    qed
    then show ?thesis
      using other walk' [of ?q]
      by (cases "walk mem r ?q") (simp_all add: translate_walk [OF ok] translate_walk [OF ok'])
  qed
qed

section \<open>Frames for tables\<close>

definition used :: "PageManager \<Rightarrow> u64 set" where
  "used pm = {a. unat a div kFrameSize \<in> used_frames (pg_mm pm)}"

definition free_count :: "PageManager \<Rightarrow> nat" where
  "free_count pm = card (- used_frames (pg_mm pm))"

text \<open>The frame allocator is sound and manages no memory beyond the address field.\<close>

definition mem_ok :: "PageManager \<Rightarrow> bool" where
  "mem_ok pm \<longleftrightarrow> mm_inv (pg_mm pm) \<and> unat (mm_range_end (pg_mm pm)) \<le> 2 ^ 52"

lemma finite_free_frames: "mm_inv mm \<Longrightarrow> finite (- used_frames mm)"
  by (rule finite_subset [of _ "{..<total_frames mm}"])
    (auto simp: mm_inv_def used_frames_def not_less [symmetric])

text \<open>What a successful frame allocation gives: a page address that was not in use.\<close>

definition took :: "MemoryManager \<Rightarrow> u64 \<Rightarrow> MemoryManager \<Rightarrow> bool" where
  "took mm n mm' \<longleftrightarrow> used_frames mm' = insert (unat n div kFrameSize) (used_frames mm) \<and>
     mm_range_end mm' = mm_range_end mm \<and> bm_size (mm_bitmap mm') = bm_size (mm_bitmap mm)"

definition fresh_frame :: "PageManager \<Rightarrow> u64 \<Rightarrow> PageManager \<Rightarrow> bool" where
  "fresh_frame pm n pm' \<longleftrightarrow> n \<noteq> 0 \<and> n \<notin> used pm \<and> n \<in> used pm' \<and> used pm \<subseteq> used pm' \<and>
     GetAddress n = n \<and> mem_ok pm' \<and> free_count pm = Suc (free_count pm') \<and> took (pg_mm pm) n (pg_mm pm')"

lemma AllocateFrame_fresh:
  assumes ok: "mem_ok pm" and alloc: "AllocateFrame (pg_mm pm) = (n, mm)"
  shows "if n = 0 then mm = pg_mm pm \<and> free_count pm = 0 else fresh_frame pm n (pm\<lparr>pg_mm := mm\<rparr>)"
proof -
  let ?mm = "pg_mm pm"
  have res: "alloc_result ?mm 1 n mm"
    using AllocateFrame_result [of ?mm] ok alloc by (simp add: mem_ok_def)
  have range: "mm_range_end mm = mm_range_end ?mm" "bm_size (mm_bitmap mm) = bm_size (mm_bitmap ?mm)"
    using AllocateFrame_range [of ?mm] unfolding alloc by simp_all
  show ?thesis
  proof (cases "n = 0")
    case True
    then have "used_frames ?mm = UNIV"
      using res by (auto simp: alloc_result_def run_free_1 used_frames_def)
    then show ?thesis using True res by (simp add: alloc_result_def free_count_def)
  next
    case False
    then obtain i where i: "i < total_frames ?mm" "n = of_nat (i * kFrameSize)" "i \<notin> used_frames ?mm"
      "used_frames mm = insert i (used_frames ?mm)" "mm_inv mm"
      using res by (auto simp: alloc_result_def run_free_1 used_frames_def)
    have "total_frames ?mm \<le> 2 ^ 40"
      using ok by (auto simp: mem_ok_def total_frames_def kFrameSize_def)
    then have small: "i < 2 ^ 40" using i by simp
    have idx: "unat n div kFrameSize = i" using i small by (simp del: of_nat_mult)
    have "- used_frames ?mm = insert i (- used_frames mm)" "i \<notin> - used_frames mm"
      using i by auto
    then have "card (- used_frames ?mm) = Suc (card (- used_frames mm))"
      using finite_free_frames [OF i(5)] by simp
    then show ?thesis
      using False i idx small ok range
      by (auto simp: fresh_frame_def took_def used_def free_count_def mem_ok_def GetAddress_frame simp del: of_nat_mult)
  qed
qed

lemma AllocateTable_cases:
  assumes "mem_ok pm"
  obtains (null) "AllocateTable pm = (0, pm)" "free_count pm = 0"
  | (new) n pm' where "AllocateTable pm = (n, pm')" "n \<noteq> 0" "fresh_frame pm n pm'"
      "frames pm' = (frames pm)(n := (\<lambda>_. 0))" "pml4_table pm' = pml4_table pm" "cr3 pm' = cr3 pm"
      "invlpg pm' = invlpg pm"
proof -
  obtain n mm where alloc: "AllocateFrame (pg_mm pm) = (n, mm)" by (cases "AllocateFrame (pg_mm pm)")
  note fresh = AllocateFrame_fresh [OF assms alloc]
  show thesis
  proof (cases "n = 0")
    case True
    then show thesis using null fresh alloc by (simp add: AllocateTable_def)
  next
    case False
    then show thesis
      using fresh alloc
      by (intro new [of n "zero_frame (pm\<lparr>pg_mm := mm\<rparr>) n"])
        (simp_all add: AllocateTable_def zero_frame_def fresh_frame_def used_def mem_ok_def free_count_def)
  qed
qed

text \<open>
  How the tables of a root may develop while an address \<open>v\<close> is being mapped: the tree stays
  well formed, and only tables on the way to \<open>v\<close> and frames that were free are written.
\<close>

definition evolves :: "u64 \<Rightarrow> u64 \<Rightarrow> PageManager \<Rightarrow> PageManager \<Rightarrow> bool" where
  "evolves r v pm pm' \<longleftrightarrow> mem_ok pm' \<and> pt_ok (frames pm') r (used pm') \<and> used pm \<subseteq> used pm' \<and>
     (\<forall>a\<in>used pm. a \<notin> own (frames pm) r v \<longrightarrow> frames pm' a = frames pm a) \<and>
     (\<forall>w. own (frames pm') r w \<subseteq> own (frames pm) r w \<union> (used pm' - used pm)) \<and>
     pml4_table pm' = pml4_table pm \<and> cr3 pm' = cr3 pm"

lemma evolvesD:
  assumes "evolves r v pm pm'"
  shows "mem_ok pm'" "pt_ok (frames pm') r (used pm')" "used pm \<subseteq> used pm'"
    "pml4_table pm' = pml4_table pm" "cr3 pm' = cr3 pm"
    "own (frames pm') r w \<subseteq> own (frames pm) r w \<union> (used pm' - used pm)"
    "a \<in> used pm \<Longrightarrow> a \<notin> own (frames pm) r v \<Longrightarrow> frames pm' a = frames pm a"
  using assms unfolding evolves_def by blast+

lemma evolves_refl: "mem_ok pm \<Longrightarrow> pt_ok (frames pm) r (used pm) \<Longrightarrow> evolves r v pm pm"
  by (simp add: evolves_def)

lemma evolves_trans:
  assumes a: "evolves r v pm1 pm2" and b: "evolves r v pm2 pm3"
  shows "evolves r v pm1 pm3"
  unfolding evolves_def
proof (intro conjI ballI allI impI)
  show "own (frames pm3) r w \<subseteq> own (frames pm1) r w \<union> (used pm3 - used pm1)" for w
    using evolvesD(6) [OF a, of w] evolvesD(6) [OF b, of w] evolvesD(3) [OF a] evolvesD(3) [OF b] by blast
  show "frames pm3 x = frames pm1 x" if "x \<in> used pm1" "x \<notin> own (frames pm1) r v" for x
  proof -
    have "x \<in> used pm2" "x \<notin> own (frames pm2) r v"
      using that evolvesD(3) [OF a] evolvesD(6) [OF a, of v] by blast+
    then show ?thesis
      using that evolvesD(7) [OF a, of x] evolvesD(7) [OF b, of x] by simp
  qed
  show "used pm1 \<subseteq> used pm3" using evolvesD(3) [OF a] evolvesD(3) [OF b] by blast
qed (use evolvesD(4,5) [OF a] evolvesD(1,2,4,5) [OF b] in simp_all)

lemma take_Suc_path: "k \<le> 2 \<Longrightarrow> take (Suc k) (path v) = take k (path v) @ [path v ! k]"
  by (rule take_Suc_conv_app_nth) simp

lemma evolves_graft:
  assumes ok: "pt_ok (frames pm) r (used pm)" and k: "k \<le> 2"
    and t: "walk (frames pm) r (take k (path v)) = Some t" and i: "i = path v ! k"
    and free: "next_table (frames pm) t i = None" and link: "next_table (frames pm') t i = Some n"
    and agree: "\<And>a j. a \<in> used pm \<Longrightarrow> (a, j) \<noteq> (t, i) \<Longrightarrow> frames pm' a j = frames pm a j"
    and below: "k = 2 \<or> (\<forall>j. frames pm' n j = 0)" and fresh: "fresh_frame pm n pm'"
    and same: "pml4_table pm' = pml4_table pm" "cr3 pm' = cr3 pm"
  shows "evolves r v pm pm'" "walk (frames pm') r (take (Suc k) (path v)) = Some n"
proof -
  let ?p = "take k (path v)"
  have len: "length ?p = k" using k by simp
  have p2: "length ?p \<le> 2" "length ?p = 2 \<or> (\<forall>j. frames pm' n j = 0)"
    using k below len by auto
  have n: "n \<notin> used pm" "n \<noteq> 0" "GetAddress n = n" "n \<in> used pm'" "used pm \<subseteq> used pm'" "mem_ok pm'"
    using fresh by (auto simp: fresh_frame_def)
  have walk': "walk (frames pm') r q = (if q = ?p @ [i] then Some n else walk (frames pm) r q)"
    if "length q \<le> 3" for q
    by (rule walk_graft [OF ok t p2(1) free link agree p2(2) that])
  have "pt_ok (frames pm') r (used pm')"
    by (rule pt_ok_graft [OF ok t p2(1) free link agree p2(2) n(1-5)])
  moreover have "own (frames pm') r w \<subseteq> own (frames pm) r w \<union> (used pm' - used pm)" for w
    using n walk' by (auto simp: own_def split: if_splits)
  moreover have "frames pm' a = frames pm a" if "a \<in> used pm" "a \<notin> own (frames pm) r v" for a
  proof
    fix j
    have "t \<in> own (frames pm) r v" using own_walk [OF t] k by simp
    then have "a \<noteq> t" using that by blast
    then show "frames pm' a j = frames pm a j" using agree [of a j] that by simp
  qed
  ultimately show "evolves r v pm pm'"
    using n same by (simp add: evolves_def)
  show "walk (frames pm') r (take (Suc k) (path v)) = Some n"
    using walk' [of "?p @ [i]"] k by (simp add: take_Suc_path i)
qed

text \<open>A change of access rights only.\<close>

lemma evolves_rights:
  assumes mem: "mem_ok pm" and ok: "pt_ok (frames pm) r (used pm)" and t: "t \<in> own (frames pm) r v"
    and e: "pte_present e = pte_present (frames pm t i)" "pte_huge e = pte_huge (frames pm t i)"
      "GetAddress e = GetAddress (frames pm t i)"
  shows "evolves r v pm (set_entry pm t i e)"
    and "translate (frames (set_entry pm t i e)) r w = translate (frames pm) r w"
    and "length q \<le> 3 \<Longrightarrow> walk (frames (set_entry pm t i e)) r q = walk (frames pm) r q"
proof -
  let ?pm = "set_entry pm t i e"
  have fields: "pte_present (frames ?pm a j) = pte_present (frames pm a j)"
    "pte_huge (frames ?pm a j) = pte_huge (frames pm a j)"
    "GetAddress (frames ?pm a j) = GetAddress (frames pm a j)" for a j
    using e by (simp_all add: set_entry_def)
  have nx: "next_table (frames ?pm) a j = next_table (frames pm) a j" for a j
    by (simp add: next_table_def fields)
  have walk': "walk (frames ?pm) r q = walk (frames pm) r q" if "length q \<le> 3" for q
    using walk_same_entries [OF ok nx] that by simp
  show "length q \<le> 3 \<Longrightarrow> walk (frames ?pm) r q = walk (frames pm) r q" by (rule walk')
  have same: "used ?pm = used pm" "mem_ok ?pm" "pml4_table ?pm = pml4_table pm" "cr3 ?pm = cr3 pm"
    using mem by (simp_all add: set_entry_def used_def mem_ok_def)
  have "pt_ok (frames ?pm) r (used pm)"
    by (rule pt_ok_same_entries [OF ok nx])
      (use pt_okD(5) [OF ok] in \<open>simp_all add: good_entry_def fields\<close>)
  moreover have "own (frames ?pm) r w = own (frames pm) r w" for w
    unfolding own_def by (rule Collect_cong) (auto simp: walk')
  moreover have "frames ?pm a = frames pm a" if "a \<notin> own (frames pm) r v" for a
    using that t by (auto simp: set_entry_def)
  ultimately show "evolves r v pm ?pm"
    using same t by (auto simp: evolves_def)
  show "translate (frames ?pm) r w = translate (frames pm) r w"
    unfolding translate_def Let_def fields by (rule refl)
qed

text \<open>What each of the steps of \<open>MapOne\<close> contributes.\<close>

definition descends :: "u64 \<Rightarrow> u64 \<Rightarrow> nat \<Rightarrow> PageManager \<Rightarrow> u64 \<Rightarrow> PageManager \<Rightarrow> bool" where
  "descends r v k pm n pm' \<longleftrightarrow> evolves r v pm pm' \<and>
     (\<forall>w. translate (frames pm') r w = translate (frames pm) r w) \<and>
     (if n = 0 then free_count pm = 0
      else walk (frames pm') r (take k (path v)) = Some n \<and> free_count pm \<le> Suc (free_count pm')) \<and>
     invlpg pm' = invlpg pm"

lemma EnsureEntry_descends:
  assumes mem: "mem_ok pm" and ok: "pt_ok (frames pm) r (used pm)" and k: "k \<le> 2"
    and t: "walk (frames pm) r (take k (path v)) = Some t" and i: "i = path v ! k"
    and small: "\<not> (pte_present (frames pm t i) \<and> pte_huge (frames pm t i))"
    and ens: "EnsureEntry flags pm t i = (n, pm')"
  shows "descends r v (Suc k) pm n pm'"
proof (cases "pte_present (frames pm t i)")
  case True
  define e where "e = (if flags AND kUser \<noteq> 0 then set_user_supervisor True (frames pm t i) else frames pm t i)"
  have e: "pte_present e = pte_present (frames pm t i)" "pte_huge e = pte_huge (frames pm t i)"
    "GetAddress e = GetAddress (frames pm t i)"
    by (simp_all add: e_def pte_simps)
  have res: "n = GetAddress (frames pm t i)" "pm' = set_entry pm t i e"
    using ens True e(3) by (auto simp: EnsureEntry_def Let_def e_def [symmetric] simp del: pte_simps)
  have next_t: "walk (frames pm) r (take (Suc k) (path v)) = Some n"
    using t True small by (simp add: take_Suc_path [OF k] walk_append i res(1)) (simp add: next_table_def)
  then have "n \<noteq> 0" using pt_okD(2) [OF ok] k by simp
  moreover have "free_count pm' = free_count pm" "invlpg pm' = invlpg pm"
    by (simp_all add: res(2) set_entry_def free_count_def)
  moreover have own: "t \<in> own (frames pm) r v" using own_walk [OF t] k by simp
  ultimately show ?thesis
    using next_t evolves_rights [OF mem ok own e] k by (simp add: descends_def res(2))
next
  case False
  from mem show ?thesis
  proof (cases rule: AllocateTable_cases)
    case null
    then show ?thesis
      using ens False evolves_refl [OF mem ok] by (simp add: EnsureEntry_def descends_def)
  next
    case (new a pm1)
    have "a \<notin> used pm" "a \<noteq> 0" "GetAddress a = a" using new by (simp_all add: fresh_frame_def)
    have "t \<in> used pm" using pt_okD(1) [OF ok t] k by simp
    then have ta: "t \<noteq> a" using \<open>a \<notin> used pm\<close> by blast
    let ?e = "set_user_supervisor (flags AND kUser \<noteq> 0)
      (set_read_write True (set_present True (SetAddress a (frames pm t i))))"
    have res: "n = a" "pm' = set_entry pm1 t i ?e"
      using ens False new ta \<open>GetAddress a = a\<close> by (auto simp: EnsureEntry_def pte_simps)
    have "\<not> pte_huge (frames pm t i)"
      using pt_okD(5) [OF ok t, of i] k False by (simp add: good_entry_def)
    then have link: "next_table (frames pm') t i = Some a"
      using \<open>GetAddress a = a\<close> by (simp add: next_table_def res(2) set_entry_def pte_simps)
    have free: "next_table (frames pm) t i = None" using False by (simp add: next_table_def)
    have agree: "frames pm' b j = frames pm b j" if "b \<in> used pm" "(b, j) \<noteq> (t, i)" for b j
      using that new \<open>a \<notin> used pm\<close> by (auto simp: res(2) set_entry_def)
    have zero: "\<forall>j. frames pm' a j = 0" using new ta by (simp add: res(2) set_entry_def)
    have fresh: "fresh_frame pm a pm'"
      using new(3) by (simp add: fresh_frame_def res(2) set_entry_def used_def mem_ok_def free_count_def)
    have same: "pml4_table pm' = pml4_table pm" "cr3 pm' = cr3 pm" "invlpg pm' = invlpg pm"
      using new by (simp_all add: res(2) set_entry_def)
    note graft = evolves_graft [OF ok k t i free link agree disjI2 [OF zero] fresh same(1,2)]
    have "translate (frames pm') r w = translate (frames pm) r w" for w
      using k by (intro translate_new_table [OF ok t _ free False link agree zero evolvesD(2) [OF graft(1)]]) simp
    then show ?thesis
      using graft same fresh \<open>a \<noteq> 0\<close> by (simp add: descends_def fresh_frame_def res(1))
  qed
qed

lemma SplitHuge_descends:
  assumes mem: "mem_ok pm" and ok: "pt_ok (frames pm) r (used pm)"
    and t: "walk (frames pm) r (take 2 (path v)) = Some t" and i: "i = path v ! 2"
    and spl: "SplitHuge flags pm t i = (go_on, pm')"
  shows "descends r v 2 pm (if go_on then t else 0) pm'"
    and "go_on \<Longrightarrow> \<not> (pte_present (frames pm' t i) \<and> pte_huge (frames pm' t i))"
    and "pte_present (frames pm' t i) \<or> free_count pm' = free_count pm"
proof -
  have tz: "t \<noteq> 0" "t \<in> used pm" using pt_okD(1,2) [OF ok t] by simp_all
  have "descends r v 2 pm (if go_on then t else 0) pm' \<and>
    (go_on \<longrightarrow> \<not> (pte_present (frames pm' t i) \<and> pte_huge (frames pm' t i))) \<and>
    (pte_present (frames pm' t i) \<or> free_count pm' = free_count pm)"
  proof (cases "pte_present (frames pm t i) \<and> pte_huge (frames pm t i)")
    case False
    then have "go_on" "pm' = pm" using spl by (auto simp: SplitHuge_def)
    then show ?thesis
      using False t tz evolves_refl [OF mem ok] by (simp add: descends_def)
  next
    case True
    from mem show ?thesis
    proof (cases rule: AllocateTable_cases)
      case null
      then show ?thesis
        using spl True evolves_refl [OF mem ok] by (auto simp: SplitHuge_def descends_def)
    next
      case (new a pm1)
      have a: "a \<notin> used pm" "a \<noteq> 0" "GetAddress a = a" using new by (simp_all add: fresh_frame_def)
      have ta: "t \<noteq> a" using a tz by blast
      define pm2 where "pm2 = pm1\<lparr>frames := (frames pm1)(a :=
          (\<lambda>k. split_entry (GetAddress (frames pm t i)) (frames pm t i AND 0xFFF) k 0))\<rparr>"
      define e where "e = (let e = set_present True (set_huge_page False (SetAddress a (frames pm t i)))
        in if flags AND kUser \<noteq> 0 then set_user_supervisor True e else e)"
      have e: "pte_present e" "\<not> pte_huge e" "GetAddress e = a"
        using a by (simp_all add: e_def Let_def pte_simps)
      have res: "go_on" "pm' = set_entry pm2 t i e"
        using spl True new ta by (auto simp: SplitHuge_def Let_def pm2_def e_def)
      have link: "next_table (frames pm') t i = Some a"
        using e by (simp add: next_table_def res(2) set_entry_def)
      have free: "next_table (frames pm) t i = None" using True by (simp add: next_table_def)
      have agree: "frames pm' b j = frames pm b j" if "b \<in> used pm" "(b, j) \<noteq> (t, i)" for b j
        using that new a by (auto simp: res(2) set_entry_def pm2_def)
      have below: "frames pm' a k = split_entry (GetAddress (frames pm t i)) (frames pm t i AND 0xFFF) k 0" for k
        using ta by (simp add: res(2) set_entry_def pm2_def)
      have fresh: "fresh_frame pm a pm'"
        using new(3) by (simp add: fresh_frame_def res(2) pm2_def set_entry_def used_def mem_ok_def free_count_def)
      have same: "pml4_table pm' = pml4_table pm" "cr3 pm' = cr3 pm" "invlpg pm' = invlpg pm"
        using new by (simp_all add: res(2) pm2_def set_entry_def)
      note graft = evolves_graft [OF ok order_refl t i free link agree disjI1 [OF refl] fresh same(1,2)]
      have "translate (frames pm') r w = translate (frames pm) r w" for w
        using True by (intro translate_split [OF ok t _ _ _ link agree below evolvesD(2) [OF graft(1)]]) simp_all
      moreover have "walk (frames pm') r (take 2 (path v)) = Some t"
        using walk_graft [OF ok t _ free link agree, of "take 2 (path v)"] t by simp
      moreover have "frames pm' t i = e" by (simp add: res(2) set_entry_def)
      ultimately show ?thesis
        using graft(1) same fresh e tz res(1) by (simp add: descends_def fresh_frame_def)
    qed
  qed
  then show "descends r v 2 pm (if go_on then t else 0) pm'"
    and "go_on \<Longrightarrow> \<not> (pte_present (frames pm' t i) \<and> pte_huge (frames pm' t i))"
    and "pte_present (frames pm' t i) \<or> free_count pm' = free_count pm" by simp_all
qed

lemma EnsureEntry_present_free:
  "pte_present (frames pm t i) \<Longrightarrow> free_count (snd (EnsureEntry flags pm t i)) = free_count pm"
  by (simp add: EnsureEntry_def Let_def set_entry_def free_count_def)

lemma evolves_leaf:
  assumes mem: "mem_ok pm" and ok: "pt_ok (frames pm) r (used pm)"
    and t: "walk (frames pm) r (path v) = Some t"
  shows "evolves r v pm (set_entry pm t j e)"
proof -
  let ?pm = "set_entry pm t j e"
  have other: "frames ?pm a i = frames pm a i" if "(a, i) \<noteq> (t, j)" for a i
    using that by (auto simp: set_entry_def)
  have walk': "walk (frames ?pm) r q = walk (frames pm) r q" if "length q \<le> 3" for q
    by (rule walk_other [OF ok t _ other]) (use that in \<open>auto dest: arg_cong [of _ _ length]\<close>)
  have "pt_ok (frames ?pm) r (used pm)"
  proof (rule pt_okI)
    show "a \<in> used pm \<and> a \<noteq> 0 \<and> GetAddress a = a" if "length q \<le> 3" "walk (frames ?pm) r q = Some a" for q a
      using that pt_okD(1-3) [OF ok, of q a] by (simp add: walk')
    show "q = q'" if "length q \<le> 3" "length q' \<le> 3" "walk (frames ?pm) r q = Some a"
      "walk (frames ?pm) r q' = Some a" for q q' a
      using that pt_okD(4) [OF ok, of q' a q] by (simp add: walk')
    show "good_entry (length q) (frames ?pm a i)" if q: "length q \<le> 2" "walk (frames ?pm) r q = Some a" for q a i
    proof -
      have "walk (frames pm) r q = Some a" "q \<noteq> path v" using q walk' [of q] by auto
      then have "a \<noteq> t" "good_entry (length q) (frames pm a i)"
        using pt_okD(4) [OF ok t, of q] pt_okD(5) [OF ok, of q a] q by auto
      then show ?thesis using other [of a i] by simp
    qed
  qed
  moreover have "own (frames ?pm) r w = own (frames pm) r w" for w
    unfolding own_def by (rule Collect_cong) (auto simp: walk')
  moreover have "frames ?pm a = frames pm a" if "a \<notin> own (frames pm) r v" for a
    using that own_walk [of "frames pm" r 3 v t] t by (auto simp: set_entry_def take_path)
  ultimately show ?thesis
    using mem by (auto simp: evolves_def set_entry_def used_def mem_ok_def)
qed

lemma path_nth: "path v ! 0 = pml4_idx v" "path v ! Suc 0 = pdp_idx v" "path v ! 2 = pd_idx v"
  by (simp_all add: path_def)

lemma descendsD:
  assumes "descends r v k pm n pm'"
  shows "evolves r v pm pm'" "mem_ok pm'" "pt_ok (frames pm') r (used pm')"
    "n = 0 \<Longrightarrow> free_count pm = 0"
    "n \<noteq> 0 \<Longrightarrow> walk (frames pm') r (take k (path v)) = Some n"
    "n \<noteq> 0 \<Longrightarrow> free_count pm \<le> Suc (free_count pm')"
  using assms by (auto simp: descends_def dest: evolvesD(1,2))

text \<open>Steps that leave all translations alone and take at most \<open>c\<close> frames.\<close>

definition prepares :: "u64 \<Rightarrow> u64 \<Rightarrow> nat \<Rightarrow> PageManager \<Rightarrow> PageManager \<Rightarrow> bool" where
  "prepares r v c pm pm' \<longleftrightarrow> evolves r v pm pm' \<and>
     (\<forall>w. translate (frames pm') r w = translate (frames pm) r w) \<and>
     free_count pm \<le> free_count pm' + c \<and> invlpg pm' = invlpg pm"

lemma prepares_trans:
  assumes "prepares r v b pm1 pm2" "prepares r v c pm2 pm3"
  shows "prepares r v (b + c) pm1 pm3"
  using assms evolves_trans [of r v pm1 pm2 pm3] by (auto simp: prepares_def)

lemma descends_prepares:
  "descends r v k pm n pm' \<Longrightarrow> free_count pm \<le> free_count pm' + c \<or> 0 < c \<Longrightarrow> prepares r v c pm pm'"
  by (cases "n = 0") (auto simp: descends_def prepares_def)

text \<open>The effect of one page on every translation.\<close>

definition mapped :: "u64 \<Rightarrow> u64 \<Rightarrow> u64 \<Rightarrow> (u64 \<Rightarrow> u64 option) \<Rightarrow> u64 \<Rightarrow> u64 option" where
  "mapped flags v p tr w =
     (if page_of w = page_of v then
        (if flags AND kPresent \<noteq> 0 then Some (GetAddress p OR take_bit 12 w) else None)
      else tr w)"

lemma EnsureEntry_present_result:
  "pte_present (frames pm t i) \<Longrightarrow> fst (EnsureEntry flags pm t i) = GetAddress (frames pm t i)"
  by (simp add: EnsureEntry_def Let_def pte_simps)

text \<open>The first half of an iteration reaches the page directory, the second the page table.\<close>

lemma directory_reached:
  assumes mem: "mem_ok pm" and ok: "pt_ok (frames pm) r (used pm)"
    and e1: "EnsureEntry flags pm r (pml4_idx v) = (t3, pm1)"
    and e2: "EnsureEntry flags pm1 t3 (pdp_idx v) = (t2, pm2)"
  shows "t3 = 0 \<Longrightarrow> free_count pm = 0 \<and> prepares r v 1 pm pm1"
    and "t3 \<noteq> 0 \<Longrightarrow> prepares r v 2 pm pm2 \<and>
      (if t2 = 0 then free_count pm \<le> 1 else walk (frames pm2) r (take 2 (path v)) = Some t2)"
proof -
  have "\<not> (pte_present (frames pm r (pml4_idx v)) \<and> pte_huge (frames pm r (pml4_idx v)))"
    using pt_okD(5) [OF ok, of "[]" r "pml4_idx v"] by (auto simp: good_entry_def)
  then have d1: "descends r v 1 pm t3 pm1"
    using EnsureEntry_descends [OF mem ok, of 0 v r "pml4_idx v"] e1 by (simp add: path_nth)
  note D1 = descendsD [OF d1] and P1 = descends_prepares [OF d1, of 1]
  show "t3 = 0 \<Longrightarrow> free_count pm = 0 \<and> prepares r v 1 pm pm1"
    using D1(4) P1 by simp
  assume t3: "t3 \<noteq> 0"
  have "\<not> (pte_present (frames pm1 t3 (pdp_idx v)) \<and> pte_huge (frames pm1 t3 (pdp_idx v)))"
    using pt_okD(5) [OF D1(3) D1(5) [OF t3], of "pdp_idx v"] by (auto simp: good_entry_def)
  then have d2: "descends r v 2 pm1 t2 pm2"
    using EnsureEntry_descends [OF D1(2,3), of 1 v t3 "pdp_idx v"] e2 D1(5) [OF t3]
    by (simp add: path_nth numeral_2_eq_2)
  note D2 = descendsD [OF d2] and P2 = prepares_trans [OF P1 descends_prepares [OF d2, of 1]]
  show "prepares r v 2 pm pm2 \<and>
      (if t2 = 0 then free_count pm \<le> 1 else walk (frames pm2) r (take 2 (path v)) = Some t2)"
    using D1(6) [OF t3] D2(4,5) P2 by (auto simp: numeral_2_eq_2)
qed

lemma table_reached:
  assumes mem: "mem_ok pm" and ok: "pt_ok (frames pm) r (used pm)"
    and t2: "walk (frames pm) r (take 2 (path v)) = Some t2"
    and e3: "SplitHuge flags pm t2 (pd_idx v) = (sp, pm3)"
    and e4: "EnsureEntry flags pm3 t2 (pd_idx v) = (t1, pm4)"
  shows "\<not> sp \<Longrightarrow> free_count pm = 0 \<and> prepares r v 1 pm pm3"
    and "sp \<Longrightarrow> prepares r v 1 pm pm4 \<and>
      (if t1 = 0 then free_count pm = 0 else walk (frames pm4) r (path v) = Some t1)"
proof -
  note sp = SplitHuge_descends [OF mem ok t2 path_nth(3) [symmetric] e3]
  note D3 = descendsD [OF sp(1)] and P3 = descends_prepares [OF sp(1), of 1]
  have z: "t2 \<noteq> 0" using pt_okD(2) [OF ok t2] by simp
  show "\<not> sp \<Longrightarrow> free_count pm = 0 \<and> prepares r v 1 pm pm3"
    using D3(4) P3 by simp
  assume sp_true: sp
  then have w2: "walk (frames pm3) r (take 2 (path v)) = Some t2" using D3(5) z by simp
  have d4: "descends r v 3 pm3 t1 pm4"
    using EnsureEntry_descends [OF D3(2,3) order_refl w2 path_nth(3) [symmetric] sp(2) [OF sp_true] e4]
    by simp
  note D4 = descendsD [OF d4]
  have "prepares r v 1 pm pm4 \<and> (t1 = 0 \<longrightarrow> free_count pm = 0)"
  proof (cases "pte_present (frames pm3 t2 (pd_idx v))")
    case True
    have "walk (frames pm3) r (path v) = Some t1"
      using True sp(2) [OF sp_true] e4 EnsureEntry_present_result [OF True, of flags] pd_on_path(2) [OF D3(3) w2]
      by (simp add: next_table_def)
    then have "t1 \<noteq> 0" using pt_okD(2) [OF D3(3)] by simp
    moreover have "free_count pm4 = free_count pm3"
      using EnsureEntry_present_free [OF True, of flags] e4 by simp
    ultimately show ?thesis
      using prepares_trans [OF P3 descends_prepares [OF d4, of 0]] by simp
  next
    case False
    then have "free_count pm3 = free_count pm" using sp(3) by simp
    then show ?thesis
      using prepares_trans [OF descends_prepares [OF sp(1), of 0] descends_prepares [OF d4, of 1]] D4(4) by simp
  qed
  then show "prepares r v 1 pm pm4 \<and>
      (if t1 = 0 then free_count pm = 0 else walk (frames pm4) r (path v) = Some t1)"
    using D4(5) by (simp add: take_path)
qed

lemma preparesD:
  assumes "prepares r v c pm pm'"
  shows "mem_ok pm'" "pt_ok (frames pm') r (used pm')" "free_count pm \<le> free_count pm' + c"
    "evolves r v pm pm'" "translate (frames pm') r w = translate (frames pm) r w" "invlpg pm' = invlpg pm"
  using assms by (auto simp: prepares_def dest: evolvesD(1,2))

lemma prepares_mono: "prepares r v b pm pm' \<Longrightarrow> b \<le> c \<Longrightarrow> prepares r v c pm pm'"
  by (auto simp: prepares_def)

lemma MapOne_tables:
  assumes mem: "mem_ok pm" and ok: "pt_ok (frames pm) r (used pm)" and r: "r = pml4_table pm"
    and map: "MapOne flags pm v p = (go_on, pm')"
  obtains (out_of_memory) "\<not> go_on" "free_count pm < 3" "prepares r v 3 pm pm'"
  | (finished) t pm1 where "go_on" "prepares r v 3 pm pm1" "walk (frames pm1) r (path v) = Some t"
      "pm' = (set_entry pm1 t (pt_idx v) (leaf_entry flags p (frames pm1 t (pt_idx v))))
          \<lparr>invlpg := v # invlpg pm1\<rparr>"
proof -
  obtain t3 pm1 where e1: "EnsureEntry flags pm r (pml4_idx v) = (t3, pm1)" by fastforce
  obtain t2 pm2 where e2: "EnsureEntry flags pm1 t3 (pdp_idx v) = (t2, pm2)" by fastforce
  obtain sp pm3 where e3: "SplitHuge flags pm2 t2 (pd_idx v) = (sp, pm3)" by fastforce
  obtain t1 pm4 where e4: "EnsureEntry flags pm3 t2 (pd_idx v) = (t1, pm4)" by fastforce
  note dir = directory_reached [OF mem ok e1 e2]
  note unfolded = map [unfolded MapOne_def r [symmetric] Let_def e1 e2 e3 e4 prod.case]
  consider "t3 = 0" | "t3 \<noteq> 0" "t2 = 0" | "t3 \<noteq> 0" "t2 \<noteq> 0" by blast
  then show thesis
  proof cases
    case 1
    then show thesis
      using out_of_memory dir(1) prepares_mono [of r v 1 pm pm1 3] unfolded by auto
  next
    case 2
    then show thesis
      using out_of_memory dir(2) prepares_mono [of r v 2 pm pm2 3] unfolded e2 by auto
  next
    case 3
    then have P2: "prepares r v 2 pm pm2" and w2: "walk (frames pm2) r (take 2 (path v)) = Some t2"
      using dir(2) by simp_all
    note tab = table_reached [OF preparesD(1,2) [OF P2] w2 e3 e4]
    have P: "prepares r v 1 pm2 x \<Longrightarrow> prepares r v 3 pm x" for x
      using prepares_trans [OF P2] by (simp add: numeral_3_eq_3)
    have less: "free_count pm2 = 0 \<Longrightarrow> free_count pm < 3" using preparesD(3) [OF P2] by simp
    consider "\<not> sp" | "sp" "t1 = 0" | "sp" "t1 \<noteq> 0" by blast
    then show thesis
    proof cases
      case 3
      then show thesis
        using tab(2) \<open>t3 \<noteq> 0\<close> \<open>t2 \<noteq> 0\<close> unfolded
        by (intro finished [OF _ P, of pm4 t1]) (auto simp: set_entry_def)
    qed (use tab P less out_of_memory \<open>t3 \<noteq> 0\<close> \<open>t2 \<noteq> 0\<close> unfolded in auto)
  qed
qed

lemma leaf_entry_fields:
  "pte_present (leaf_entry flags p e) \<longleftrightarrow> flags AND kPresent \<noteq> 0"
  "GetAddress (leaf_entry flags p e) = GetAddress p"
  "pte_user (leaf_entry flags p e) \<longleftrightarrow> flags AND kUser \<noteq> 0"
  by (simp_all add: leaf_entry_def pte_simps)

text \<open>One page: either it is mapped, or memory ran out and no translation changed.\<close>

lemma MapOne_spec:
  assumes mem: "mem_ok pm" and ok: "pt_ok (frames pm) r (used pm)" and r: "r = pml4_table pm"
    and map: "MapOne flags pm v p = (go_on, pm')"
  shows "evolves r v pm pm'" and "\<not> go_on \<Longrightarrow> free_count pm < 3"
    and "go_on \<Longrightarrow> free_count pm \<le> free_count pm' + 3"
    and "translate (frames pm') r =
      (if go_on then mapped flags v p (translate (frames pm) r) else translate (frames pm) r)"
    and "invlpg pm' = (if go_on then v # invlpg pm else invlpg pm)"
proof -
  have "evolves r v pm pm' \<and> (\<not> go_on \<longrightarrow> free_count pm < 3) \<and>
    (go_on \<longrightarrow> free_count pm \<le> free_count pm' + 3) \<and>
    translate (frames pm') r =
      (if go_on then mapped flags v p (translate (frames pm) r) else translate (frames pm) r) \<and>
    invlpg pm' = (if go_on then v # invlpg pm else invlpg pm)"
    using mem ok r map
  proof (cases rule: MapOne_tables)
    case out_of_memory
    then show ?thesis by (auto simp: prepares_def)
  next
    case (finished t pm1)
    let ?pm = "set_entry pm1 t (pt_idx v) (leaf_entry flags p (frames pm1 t (pt_idx v)))"
    note P = preparesD [OF finished(2)]
    have leaf: "evolves r v pm1 ?pm" by (rule evolves_leaf [OF P(1,2) finished(3)])
    have "translate (frames ?pm) r = mapped flags v p (translate (frames pm) r)"
    proof
      fix w
      have "translate (frames ?pm) r w = (if page_of w = page_of v then
          (if pte_present (frames ?pm t (pt_idx v))
           then Some (GetAddress (frames ?pm t (pt_idx v)) OR take_bit 12 w) else None)
         else translate (frames pm1) r w)"
        by (rule translate_leaf [OF P(2) finished(3) _ evolvesD(2) [OF leaf]]) (auto simp: set_entry_def)
      then show "translate (frames ?pm) r w = mapped flags v p (translate (frames pm) r) w"
        by (simp add: mapped_def P(5) set_entry_def leaf_entry_fields)
    qed
    moreover have "evolves r v pm ?pm" by (rule evolves_trans [OF P(4) leaf])
    ultimately show ?thesis
      using finished(1,4) P(3,6)
      by (simp add: evolves_def used_def mem_ok_def free_count_def) (simp add: set_entry_def)
  qed
  then show "evolves r v pm pm'" and "\<not> go_on \<Longrightarrow> free_count pm < 3"
    and "go_on \<Longrightarrow> free_count pm \<le> free_count pm' + 3"
    and "translate (frames pm') r =
      (if go_on then mapped flags v p (translate (frames pm) r) else translate (frames pm) r)"
    and "invlpg pm' = (if go_on then v # invlpg pm else invlpg pm)"
    by simp_all
qed

end
