(* ===== verification/PageMaps.thy ===== *)
theory PageMaps
  imports PageWalk
begin

text \<open>
  What the operations of \<open>PageManager\<close> achieve: \<open>MapPage\<close> maps a range and nothing else,
  \<open>AllocateVirtual\<close> backs a range with distinct zeroed frames, \<open>Initialize\<close> builds the
  identity mapping of the first 64 GB, and a process table made by
  \<open>CreateProcessPageTable\<close> can be filled without any effect on the kernel's translations.
\<close>

definition pages_ok :: "u64 \<Rightarrow> PageManager \<Rightarrow> bool" where
  "pages_ok r pm \<longleftrightarrow> mem_ok pm \<and> pt_ok (frames pm) r (used pm)"

lemma pages_ok_root: "pages_ok r pm \<Longrightarrow> r \<noteq> 0 \<and> r \<in> used pm"
  using pt_okD(1,2) [of "frames pm" r "used pm" "[]" r] by (simp add: pages_ok_def)

lemma evolves_pages_ok: "evolves r v pm pm' \<Longrightarrow> pages_ok r pm'"
  by (simp add: pages_ok_def evolvesD)

section \<open>Ranges of pages\<close>

definition page_addr :: "u64 \<Rightarrow> nat \<Rightarrow> u64" where
  "page_addr v i = v + of_nat i * kPageSize4K"

text \<open>The tables of a root after some pages of \<open>V\<close> have been mapped.\<close>

definition evolves_in :: "u64 \<Rightarrow> u64 set \<Rightarrow> PageManager \<Rightarrow> PageManager \<Rightarrow> bool" where
  "evolves_in r V = (\<lambda>pm pm'. \<exists>v\<in>V. evolves r v pm pm')\<^sup>*\<^sup>*"

lemma evolves_in_refl [simp]: "evolves_in r V pm pm"
  by (simp add: evolves_in_def)

lemma evolves_in_step:
  "v \<in> V \<Longrightarrow> evolves r v pm pm1 \<Longrightarrow> evolves_in r V pm1 pm2 \<Longrightarrow> evolves_in r V pm pm2"
  unfolding evolves_in_def by (rule converse_rtranclp_into_rtranclp) auto

lemma evolves_in_trans: "evolves_in r V pm pm1 \<Longrightarrow> evolves_in r V pm1 pm2 \<Longrightarrow> evolves_in r V pm pm2"
  unfolding evolves_in_def by (rule rtranclp_trans)

lemma map_loop_spec:
  assumes "pages_ok r pm" "r = pml4_table pm" "i \<le> unat count"
    and "map_loop flags pm v p count i = pm'"
  shows "\<exists>n. i \<le> n \<and> n \<le> unat count \<and>
    translate (frames pm') r =
      fold (\<lambda>j. mapped flags (page_addr v j) (page_addr p j)) [i..<n] (translate (frames pm) r) \<and>
    evolves_in r (page_addr v ` {i..<unat count}) pm pm' \<and>
    pages_ok r pm' \<and> pml4_table pm' = r \<and> cr3 pm' = cr3 pm \<and>
    (3 * (unat count - i) \<le> free_count pm \<longrightarrow>
       n = unat count \<and> free_count pm \<le> free_count pm' + 3 * (unat count - i))"
  using assms
proof (induction flags pm v p count i rule: map_loop.induct)
  case (1 flags pm v p count i)
  show ?case
  proof (cases "i < unat count")
    case False
    then have "pm' = pm" using 1(5) by (simp add: map_loop.simps [of flags pm])
    then show ?thesis using False 1(2-4) by (intro exI [of _ i]) simp
  next
    case True
    obtain go pm1 where one: "MapOne flags pm (page_addr v i) (page_addr p i) = (go, pm1)" by fastforce
    note unf = 1(5) [unfolded map_loop.simps [of flags pm] page_addr_def [symmetric]]
    have mem: "mem_ok pm" and ok: "pt_ok (frames pm) r (used pm)" using 1(2) by (auto simp: pages_ok_def)
    note S = MapOne_spec [OF mem ok 1(3) one]
    have ok1: "pages_ok r pm1" "pml4_table pm1 = r" "cr3 pm1 = cr3 pm"
      using S(1) 1(3) by (simp_all add: evolves_pages_ok evolvesD)
    have in_range: "page_addr v i \<in> page_addr v ` {i..<unat count}" using True by auto
    show ?thesis
    proof (cases go)
      case False
      then have "pm' = pm1" using unf one True by simp
      then show ?thesis
        using False S(2,4) ok1 True evolves_in_step [OF in_range S(1)] by (intro exI [of _ i]) auto
    next
      case go: True
      then have rest: "map_loop flags pm1 v p count (Suc i) = pm'" using unf one True by simp
      have "\<exists>n. Suc i \<le> n \<and> n \<le> unat count \<and>
          translate (frames pm') r =
            fold (\<lambda>j. mapped flags (page_addr v j) (page_addr p j)) [Suc i..<n] (translate (frames pm1) r) \<and>
          evolves_in r (page_addr v ` {Suc i..<unat count}) pm1 pm' \<and>
          pages_ok r pm' \<and> pml4_table pm' = r \<and> cr3 pm' = cr3 pm1 \<and>
          (3 * (unat count - Suc i) \<le> free_count pm1 \<longrightarrow>
             n = unat count \<and> free_count pm1 \<le> free_count pm' + 3 * (unat count - Suc i))"
        using 1(1) [OF True refl _ go ok1(1) ok1(2) [symmetric] Suc_leI [OF True] rest] one
        by (simp add: page_addr_def)
      then obtain n where n: "Suc i \<le> n" "n \<le> unat count"
          "translate (frames pm') r =
            fold (\<lambda>j. mapped flags (page_addr v j) (page_addr p j)) [Suc i..<n] (translate (frames pm1) r)"
          "evolves_in r (page_addr v ` {Suc i..<unat count}) pm1 pm'"
          "pages_ok r pm'" "pml4_table pm' = r" "cr3 pm' = cr3 pm1"
          "3 * (unat count - Suc i) \<le> free_count pm1 \<longrightarrow>
             n = unat count \<and> free_count pm1 \<le> free_count pm' + 3 * (unat count - Suc i)"
        by blast
      have "evolves_in r (page_addr v ` {i..<unat count}) pm1 pm'"
        using n(4) unfolding evolves_in_def by (rule rtranclp_mono [THEN predicate2D, rotated]) fastforce
      moreover have "[i..<n] = i # [Suc i..<n]" using n(1) by (simp add: upt_conv_Cons)
      moreover have "3 * (unat count - i) = 3 * (unat count - Suc i) + 3" using True by simp
      ultimately show ?thesis
        using n S(3) [OF go] S(4) go ok1 evolves_in_step [OF in_range S(1)]
        by (intro exI [of _ n]) auto
    qed
  qed
qed

section \<open>Addresses and pages\<close>

lemma bit_index: "bit (ucast (drop_bit s (w :: u64) AND 0x1FF) :: u9) m \<longleftrightarrow> m < 9 \<and> bit w (s + m)"
proof -
  have mask9: "(0x1FF :: u64) = mask 9" by (simp add: mask_eq_exp_minus_1)
  show ?thesis unfolding mask9 by (auto simp: bit_simps)
qed

lemma index_eq:
  "(ucast (drop_bit s (w :: u64) AND 0x1FF) :: u9) = ucast (drop_bit s (v :: u64) AND 0x1FF) \<longleftrightarrow>
    (\<forall>n. s \<le> n \<and> n < s + 9 \<longrightarrow> bit w n = bit v n)" (is "?l = ?r \<longleftrightarrow> _")
proof
  assume eq: "?l = ?r"
  show "\<forall>n. s \<le> n \<and> n < s + 9 \<longrightarrow> bit w n = bit v n"
  proof (intro allI impI)
    fix n assume n: "s \<le> n \<and> n < s + 9"
    have "bit ?l (n - s) = bit ?r (n - s)" using eq by simp
    moreover have "n - s < 9" using n by arith
    ultimately show "bit w n = bit v n"
      using n bit_index [of s w "n - s"] bit_index [of s v "n - s"] by simp
  qed
next
  assume bits: "\<forall>n. s \<le> n \<and> n < s + 9 \<longrightarrow> bit w n = bit v n"
  show "?l = ?r"
    by (rule bit_word_eqI) (use bits in \<open>simp add: bit_index\<close>)
qed

lemma page_of_bits: "page_of w = page_of v \<longleftrightarrow> (\<forall>n. 12 \<le> n \<and> n < 48 \<longrightarrow> bit w n = bit v n)"
proof -
  have "12 \<le> n \<and> n < 48 \<longleftrightarrow>
      39 \<le> n \<and> n < 48 \<or> 30 \<le> n \<and> n < 39 \<or> 21 \<le> n \<and> n < 30 \<or> 12 \<le> n \<and> n < 21" for n :: nat
    by arith
  then have "(\<forall>n. 12 \<le> n \<and> n < 48 \<longrightarrow> bit w n = bit v n) \<longleftrightarrow>
      (\<forall>n. 39 \<le> n \<and> n < 48 \<longrightarrow> bit w n = bit v n) \<and> (\<forall>n. 30 \<le> n \<and> n < 39 \<longrightarrow> bit w n = bit v n) \<and>
      (\<forall>n. 21 \<le> n \<and> n < 30 \<longrightarrow> bit w n = bit v n) \<and> (\<forall>n. 12 \<le> n \<and> n < 21 \<longrightarrow> bit w n = bit v n)"
    by (simp only: imp_disjL all_conj_distrib)
  moreover have "39 + 9 = (48 :: nat)" "30 + 9 = (39 :: nat)" "21 + 9 = (30 :: nat)" "12 + 9 = (21 :: nat)"
    by simp_all
  ultimately show ?thesis
    unfolding page_of_def path_def pml4_idx_def pdp_idx_def pd_idx_def pt_idx_def append.simps
      list.inject index_eq by (simp only: simp_thms)
qed

lemma small_bits:
  fixes w :: u64
  assumes "unat w < 2 ^ k" "bit w n"
  shows "n < k"
proof -
  have "take_bit k w = w"
    using assms(1) by (simp add: word_unat_eq_iff unsigned_take_bit_eq take_bit_nat_eq_self)
  then show ?thesis using assms(2) by (metis bit_take_bit_iff)
qed

lemma unat_page: "unat (w :: u64) div 4096 = unat (drop_bit 12 w)"
  by (simp add: drop_bit_eq_div unat_word_div)

lemma page_of_eq:
  assumes "unat w < 2 ^ 48" "unat v < 2 ^ 48"
  shows "page_of w = page_of v \<longleftrightarrow> unat w div 4096 = unat v div 4096"
proof -
  have high: "\<not> bit w n" "\<not> bit v n" if "48 \<le> n" for n
    using small_bits [OF assms(1)] small_bits [OF assms(2)] that by (meson not_less)+
  have "drop_bit 12 w = drop_bit 12 v \<longleftrightarrow> (\<forall>n. 12 \<le> n \<longrightarrow> bit w n = bit v n)"
  proof
    assume eq: "drop_bit 12 w = drop_bit 12 v"
    show "\<forall>n. 12 \<le> n \<longrightarrow> bit w n = bit v n"
    proof (intro allI impI)
      fix n :: nat assume "12 \<le> n"
      then show "bit w n = bit v n"
        using arg_cong [OF eq, of "\<lambda>x. bit x (n - 12)"] by (simp add: bit_drop_bit_eq)
    qed
  qed (auto intro!: bit_word_eqI simp: bit_drop_bit_eq)
  also have "\<dots> \<longleftrightarrow> page_of w = page_of v"
    unfolding page_of_bits using high by (auto simp: not_less [symmetric])
  finally show ?thesis by (simp add: unat_page word_unat_eq_iff)
qed

lemma GetAddress_aligned:
  fixes a :: u64
  assumes "unat a mod 4096 = 0" "unat a < 2 ^ 52"
  shows "GetAddress a = a"
proof (rule bit_word_eqI)
  have "unat (take_bit 12 a) = 0"
    using assms(1) by (simp only: unsigned_take_bit_eq) (simp add: take_bit_eq_mod)
  then have "take_bit 12 a = 0" by (simp only: unsigned_eq_0_iff)
  then have "\<not> bit a n" if "n < 12" for n
    using that by (metis bit_take_bit_iff bit_0_eq bot_apply bot_bool_def)
  then show "bit (GetAddress a) n = bit a n" for n
    using small_bits [OF assms(2)] by (auto simp: bit_GetAddress) (meson not_less)
qed

lemma page_offset:
  fixes a w :: u64
  assumes "unat a mod 4096 = 0" "unat a < 2 ^ 52"
  shows "unat (GetAddress a OR take_bit 12 w) = unat a + unat w mod 4096"
proof -
  have a: "GetAddress a = a" using assms by (rule GetAddress_aligned)
  have "GetAddress a AND take_bit 12 w = 0"
    by (rule bit_word_eqI) (auto simp: bit_simps bit_GetAddress)
  then have "GetAddress a OR take_bit 12 w = a + take_bit 12 w"
    by (simp add: disjunctive_add_eq_or a)
  moreover have "unat (take_bit 12 w) = unat w mod 4096"
    by (simp only: unsigned_take_bit_eq) (simp add: take_bit_eq_mod)
  moreover have "unat a + unat w mod 4096 < 2 ^ 64"
    using add_less_le_mono [OF assms(2) less_imp_le [OF mod_less_divisor [of 4096 "unat w"]]] by simp
  ultimately show ?thesis by (simp add: unat_add_no_wrap)
qed

lemma unat_page_addr:
  assumes "unat v + i * 4096 < 2 ^ 64"
  shows "unat (page_addr v i) = unat v + i * 4096"
proof -
  have "(of_nat i * kPageSize4K :: u64) = of_nat (i * 4096)" by (simp add: kPageSize4K_def)
  moreover have "unat (of_nat (i * 4096) :: u64) = i * 4096"
    by (rule of_nat_inverse) (use assms in auto)
  ultimately show ?thesis
    using assms by (simp only: page_addr_def) (simp add: unat_add_no_wrap)
qed

lemma mapped_step:
  assumes v: "unat v mod 4096 = 0" "unat v + Suc n * 4096 \<le> 2 ^ 48"
    and p: "unat p mod 4096 = 0" "unat p + Suc n * 4096 \<le> 2 ^ 52" and w: "unat w < 2 ^ 48"
  shows "page_of w = page_of (page_addr v n) \<longleftrightarrow>
      unat v + n * 4096 \<le> unat w \<and> unat w < unat v + Suc n * 4096"
    and "page_of w = page_of (page_addr v n) \<Longrightarrow>
      GetAddress (page_addr p n) OR take_bit 12 w = p + (w - v)"
proof -
  have vn: "unat (page_addr v n) = unat v + n * 4096" and pn: "unat (page_addr p n) = unat p + n * 4096"
    using v p by (auto intro!: unat_page_addr)
  have small: "unat (page_addr v n) < 2 ^ 48" "unat (page_addr p n) < 2 ^ 52"
    using v p vn pn by simp_all
  obtain k where k: "unat v = k * 4096" using v(1) by (auto simp: mod_eq_0_iff_dvd elim: dvdE)
  have "x div 4096 = m \<longleftrightarrow> m * 4096 \<le> x \<and> x < m * 4096 + 4096" for x m :: nat
    by (auto intro!: div_nat_eqI simp: algebra_simps)
  note quot = this [of "unat w" "k + n"]
  have "(k * 4096 + n * 4096) div 4096 = k + n" by simp
  then show page: "page_of w = page_of (page_addr v n) \<longleftrightarrow>
      unat v + n * 4096 \<le> unat w \<and> unat w < unat v + Suc n * 4096"
    unfolding page_of_eq [OF w small(1)] vn k using quot
    by (simp add: add_mult_distrib add.commute add.left_commute)
  assume "page_of w = page_of (page_addr v n)"
  then have r: "unat v + n * 4096 \<le> unat w" "unat w < unat v + Suc n * 4096" using page by auto
  have "(unat p + n * 4096) mod 4096 = 0" using p(1) by simp
  then have l: "unat (GetAddress (page_addr p n) OR take_bit 12 w) = unat p + n * 4096 + unat w mod 4096"
    using page_offset [of "page_addr p n" w] small(2) pn by simp
  have "unat w mod 4096 = unat w - (unat v + n * 4096)"
  proof -
    define d where "d = unat w - (k * 4096 + n * 4096)"
    have d: "unat w = (k + n) * 4096 + d" "d < 4096"
      using r unfolding d_def k by simp_all
    have "((k + n) * 4096 + d) mod 4096 = d mod 4096" by (rule mod_mult_self3)
    then show ?thesis using d k by (simp add: add_mult_distrib)
  qed
  then have "unat p + n * 4096 + unat w mod 4096 = unat p + (unat w - unat v)"
    using r by simp
  moreover have "unat (w - v) = unat w - unat v"
    using r by (simp add: unat_sub word_le_nat_alt)
  moreover have "unat p + (unat w - unat v) < 2 ^ 64" using p(2) r by simp
  ultimately have "unat (GetAddress (page_addr p n) OR take_bit 12 w) = unat (p + (w - v))"
    using l by (simp add: unat_add_no_wrap)
  then show "GetAddress (page_addr p n) OR take_bit 12 w = p + (w - v)"
    by (simp only: word_unat_eq_iff)
qed

lemma fold_mapped:
  assumes "unat v mod 4096 = 0" "unat v + n * 4096 \<le> 2 ^ 48"
    and "unat p mod 4096 = 0" "unat p + n * 4096 \<le> 2 ^ 52" and "unat w < 2 ^ 48"
    and "flags AND kPresent \<noteq> 0"
  shows "fold (\<lambda>j. mapped flags (page_addr v j) (page_addr p j)) [0..<n] tr w =
    (if unat v \<le> unat w \<and> unat w < unat v + n * 4096 then Some (p + (w - v)) else tr w)"
  using assms(2,4)
proof (induction n)
  case (Suc n)
  note step = mapped_step [OF assms(1) Suc.prems(1) assms(3) Suc.prems(2) assms(5)]
  show ?case
    using Suc step assms(6) by (auto simp: mapped_def)
qed auto

lemma fold_mapped_outside:
  assumes "unat v mod 4096 = 0" "unat v + n * 4096 \<le> 2 ^ 48" and "unat w < 2 ^ 48"
    and "\<not> (unat v \<le> unat w \<and> unat w < unat v + n * 4096)"
  shows "fold (\<lambda>j. mapped flags (page_addr v j) (f j)) [0..<n] tr w = tr w"
  using assms(2,4)
proof (induction n)
  case (Suc n)
  have "page_of w \<noteq> page_of (page_addr v n)"
    using mapped_step(1) [OF assms(1) Suc.prems(1), of 0 w] Suc.prems assms by auto
  then show ?case using Suc by (auto simp: mapped_def)
qed simp

text \<open>The whole of \<open>MapPage\<close>.\<close>

lemma MapPage_spec:
  fixes flags p :: u64
  assumes ok: "pages_ok (pml4_table pm) pm" and v: "unat v mod 4096 = 0" "unat v + unat count * 4096 \<le> 2 ^ 48"
  defines "pm' \<equiv> MapPage pm v p count flags" and "r \<equiv> pml4_table pm"
  shows "pages_ok r pm'" and "pml4_table pm' = r" and "cr3 pm' = cr3 pm"
    and "evolves_in r (page_addr v ` {0..<unat count}) pm pm'"
    and "unat w < 2 ^ 48 \<Longrightarrow> \<not> (unat v \<le> unat w \<and> unat w < unat v + unat count * 4096) \<Longrightarrow>
      translate (frames pm') r w = translate (frames pm) r w"
    and "3 * unat count \<le> free_count pm \<Longrightarrow> free_count pm \<le> free_count pm' + 3 * unat count"
    and "3 * unat count \<le> free_count pm \<Longrightarrow> translate (frames pm') r =
      fold (\<lambda>j. mapped flags (page_addr v j) (page_addr p j)) [0..<unat count] (translate (frames pm) r)"
proof -
  have "map_loop flags pm v p count 0 = pm'"
    using pages_ok_root [OF ok] by (simp add: pm'_def MapPage_def)
  from map_loop_spec [OF ok refl _ this] obtain n where n: "n \<le> unat count"
    "translate (frames pm') r =
        fold (\<lambda>j. mapped flags (page_addr v j) (page_addr p j)) [0..<n] (translate (frames pm) r)"
    "evolves_in r (page_addr v ` {0..<unat count}) pm pm'" "pages_ok r pm'" "pml4_table pm' = r"
    "cr3 pm' = cr3 pm"
    "3 * unat count \<le> free_count pm \<Longrightarrow>
       n = unat count \<and> free_count pm \<le> free_count pm' + 3 * unat count"
    unfolding r_def by auto
  show "pages_ok r pm'" "pml4_table pm' = r" "cr3 pm' = cr3 pm"
    "evolves_in r (page_addr v ` {0..<unat count}) pm pm'" by fact+
  show "translate (frames pm') r w = translate (frames pm) r w"
    if "unat w < 2 ^ 48" "\<not> (unat v \<le> unat w \<and> unat w < unat v + unat count * 4096)"
  proof -
    have "unat v + n * 4096 \<le> unat v + unat count * 4096" using n(1) by simp
    then show ?thesis
      unfolding n(2) using v that by (intro fold_mapped_outside) auto
  qed
  show "3 * unat count \<le> free_count pm \<Longrightarrow> free_count pm \<le> free_count pm' + 3 * unat count"
    using n(7) by simp
  show "3 * unat count \<le> free_count pm \<Longrightarrow> translate (frames pm') r =
      fold (\<lambda>j. mapped flags (page_addr v j) (page_addr p j)) [0..<unat count] (translate (frames pm) r)"
    using n(2,7) by simp
qed

section \<open>AllocateVirtual\<close>

lemma evolves_in_used: "evolves_in r V pm pm' \<Longrightarrow> used pm \<subseteq> used pm'"
  unfolding evolves_in_def by (induction rule: rtranclp_induct) (auto dest: evolvesD(3))

lemma evolves_in_own:
  "evolves_in r V pm pm' \<Longrightarrow> own (frames pm') r w \<subseteq> own (frames pm) r w \<union> (used pm' - used pm)"
proof (unfold evolves_in_def, induction rule: rtranclp_induct)
  case (step y z)
  then obtain v where v: "evolves r v y z" by auto
  have "used pm \<subseteq> used y"
    using evolves_in_used step(1) unfolding evolves_in_def by blast
  then show ?case
    using step.IH evolvesD(3) [OF v] evolvesD(6) [OF v, of w] by blast
qed simp

text \<open>A used frame that is no table of the root keeps its contents.\<close>

lemma evolves_in_data:
  assumes "evolves_in r V pm pm'" "a \<in> used pm" "\<And>w. a \<notin> own (frames pm) r w"
  shows "frames pm' a = frames pm a" and "a \<notin> own (frames pm') r w"
proof -
  have "frames pm' a = frames pm a \<and> (\<forall>w. a \<notin> own (frames pm') r w) \<and> a \<in> used pm'"
    using assms(1) unfolding evolves_in_def
  proof (induction rule: rtranclp_induct)
    case (step y z)
    then obtain v where v: "evolves r v y z" by auto
    have a: "frames y a = frames pm a" "\<And>w. a \<notin> own (frames y) r w" "a \<in> used y"
      using step.IH by auto
    then have "frames z a = frames y a" using evolvesD(7) [OF v] by blast
    moreover have "\<forall>w. a \<notin> own (frames z) r w" using evolvesD(6) [OF v] a by blast
    moreover have "a \<in> used z" using evolvesD(3) [OF v] a by blast
    ultimately show ?case using a by simp
  qed (use assms in simp)
  then show "frames pm' a = frames pm a" and "a \<notin> own (frames pm') r w" by simp_all
qed

text \<open>A zeroed data frame does not concern the tables.\<close>

lemma fresh_data_frame:
  assumes ok: "pages_ok r pm" and alloc: "AllocateFrame (pg_mm pm) = (n, mm)" "n \<noteq> 0"
  defines "pm' \<equiv> zero_frame (pm\<lparr>pg_mm := mm\<rparr>) n"
  shows "prepares r v 1 pm pm'" "fresh_frame pm n pm'" "frames pm' n = (\<lambda>_. 0)"
    "n \<notin> own (frames pm') r w"
proof -
  have mem: "mem_ok pm" and tree: "pt_ok (frames pm) r (used pm)" using ok by (simp_all add: pages_ok_def)
  show fresh: "fresh_frame pm n pm'"
    using AllocateFrame_fresh [OF mem alloc(1)] alloc(2)
    by (simp add: fresh_frame_def pm'_def zero_frame_def used_def mem_ok_def free_count_def)
  show "frames pm' n = (\<lambda>_. 0)" by (simp add: pm'_def zero_frame_def)
  have same: "frames pm' a = frames pm a" if "a \<in> used pm" for a
    using that fresh by (auto simp: pm'_def zero_frame_def fresh_frame_def)
  have nx: "next_table (frames pm') a j = next_table (frames pm) a j" if "a \<in> used pm" for a j
    using same [OF that] by (simp add: next_table_def)
  have tree': "pt_ok (frames pm') r (used pm')"
  proof (rule pt_ok_same_entries [OF tree nx])
    show "good_entry (length p) (frames pm' a j)" if "length p \<le> 2" "walk (frames pm) r p = Some a" for p a j
      using that pt_okD(1,5) [OF tree, of p a] same [of a] by simp
  qed (use fresh in \<open>auto simp: fresh_frame_def\<close>)
  have walk': "walk (frames pm') r q = walk (frames pm) r q" if "length q \<le> 3" for q
    using walk_same_entries [OF tree nx] that by simp
  have own': "own (frames pm') r w = own (frames pm) r w" for w
    unfolding own_def by (rule Collect_cong) (auto simp: walk')
  then show "n \<notin> own (frames pm') r w"
    using own_used [OF tree, of w] fresh by (auto simp: fresh_frame_def)
  have "translate (frames pm') r w = translate (frames pm) r w" for w
  proof -
    have "pd_translate (frames pm') pd w = pd_translate (frames pm) pd w"
      if pd: "walk (frames pm) r (take 2 (path w)) = Some pd" for pd
      using same pd_on_path(1,3) [OF tree pd] by (intro pd_translate_cong) simp_all
    then show ?thesis
      by (cases "walk (frames pm) r (take 2 (path w))")
        (simp_all add: translate_walk [OF tree] translate_walk [OF tree'] walk')
  qed
  then show "prepares r v 1 pm pm'"
    using fresh tree' own' same
    by (simp add: prepares_def evolves_def fresh_frame_def) (simp add: pm'_def zero_frame_def)
qed

definition backs :: "u64 \<Rightarrow> PageManager \<Rightarrow> PageManager \<Rightarrow> nat \<Rightarrow> nat \<Rightarrow> (nat \<Rightarrow> u64) \<Rightarrow> bool" where
  "backs r pm pm' i n f \<longleftrightarrow> inj_on f {i..<n} \<and>
     (\<forall>j\<in>{i..<n}. f j \<notin> used pm \<and> f j \<in> used pm' \<and> GetAddress (f j) = f j \<and>
        frames pm' (f j) = (\<lambda>_. 0) \<and> (\<forall>w. f j \<notin> own (frames pm') r w))"

lemma backs_Suc:
  assumes "backs r pm2 pm' (Suc i) n f" "used pm \<subseteq> used pm2" "used pm2 \<subseteq> used pm'" "i < n"
    and "a \<notin> used pm" "a \<in> used pm2" "GetAddress a = a" "frames pm' a = (\<lambda>_. 0)"
      "\<And>w. a \<notin> own (frames pm') r w"
  shows "backs r pm pm' i n (f(i := a))"
proof -
  have split: "{i..<n} = insert i {Suc i..<n}" using assms(4) by auto
  have "\<forall>j\<in>{Suc i..<n}. f j \<noteq> a" using assms(1,6) by (auto simp: backs_def)
  then show ?thesis
    unfolding backs_def split using assms
    by (auto simp: backs_def inj_on_def)
qed

lemma page_addr_0 [simp]: "page_addr v 0 = v"
  by (simp add: page_addr_def)

lemma evolves_in_mono: "evolves_in r V pm pm' \<Longrightarrow> V \<subseteq> W \<Longrightarrow> evolves_in r W pm pm'"
  unfolding evolves_in_def by (erule rtranclp_mono [THEN predicate2D, rotated]) blast

text \<open>One iteration of \<open>AllocateVirtual\<close>.\<close>

lemma alloc_one:
  fixes v flags :: u64
  assumes ok: "pages_ok r pm" and r: "r = pml4_table pm" and alloc: "AllocateFrame (pg_mm pm) = (a, mm)" "a \<noteq> 0"
    and v: "unat v mod 4096 = 0" "unat v + 4096 \<le> 2 ^ 48" and free: "4 \<le> free_count pm"
  defines "pm2 \<equiv> MapPage (zero_frame (pm\<lparr>pg_mm := mm\<rparr>) a) v a 1 flags"
  shows "pages_ok r pm2" "pml4_table pm2 = r" "cr3 pm2 = cr3 pm" "evolves_in r {v} pm pm2"
    and "free_count pm \<le> free_count pm2 + 4"
    and "translate (frames pm2) r = mapped flags v a (translate (frames pm) r)"
    and "a \<notin> used pm" "a \<in> used pm2" "GetAddress a = a" "frames pm2 a = (\<lambda>_. 0)" "a \<notin> own (frames pm2) r w"
proof -
  define pm1 where "pm1 = zero_frame (pm\<lparr>pg_mm := mm\<rparr>) a"
  have pm2: "pm2 = MapPage pm1 v a 1 flags" by (simp add: pm1_def pm2_def)
  note F = fresh_data_frame [OF ok alloc, folded pm1_def]
  note P = preparesD [OF F(1)]
  have root1: "pml4_table pm1 = r" "cr3 pm1 = cr3 pm" using r by (simp_all add: pm1_def zero_frame_def)
  have ok1: "pages_ok (pml4_table pm1) pm1" using P(1,2) root1 by (simp add: pages_ok_def)
  have "unat v + unat (1 :: u64) * 4096 \<le> 2 ^ 48" using v(2) by simp
  note M = MapPage_spec [OF ok1 v(1) this, of a flags, folded pm2, unfolded root1]
  have fc: "free_count pm = Suc (free_count pm1)" using F(2) by (simp add: fresh_frame_def)
  have enough: "3 * unat (1 :: u64) \<le> free_count pm1" using fc free by simp
  have a1: "a \<in> used pm1" "\<And>w. a \<notin> own (frames pm1) r w"
    using F(2,4) by (auto simp: fresh_frame_def)
  have in_v: "evolves_in r {v} pm1 pm2" using M(4) by simp
  show "pages_ok r pm2" "pml4_table pm2 = r" "cr3 pm2 = cr3 pm" by fact+
  show "evolves_in r {v} pm pm2" using evolves_in_step [OF _ P(4) in_v] by simp
  show "free_count pm \<le> free_count pm2 + 4" using M(6) [OF enough] fc by simp
  have "translate (frames pm1) r = translate (frames pm) r" using P(5) by (rule ext)
  then show "translate (frames pm2) r = mapped flags v a (translate (frames pm) r)"
    using M(7) [OF enough] by simp
  show "a \<notin> used pm" "a \<in> used pm2" "GetAddress a = a"
    using F(2) evolves_in_used [OF in_v] by (auto simp: fresh_frame_def)
  show "frames pm2 a = (\<lambda>_. 0)" "a \<notin> own (frames pm2) r w"
    using evolves_in_data [OF in_v a1] F(3) by simp_all
qed

lemma alloc_virtual_spec:
  assumes "pages_ok r pm" "r = pml4_table pm" "unat v mod 4096 = 0" "unat v + n * 4096 \<le> 2 ^ 48"
    and "i \<le> n" "4 * (n - i) \<le> free_count pm" "alloc_virtual_loop flags pm v n i = (ok, pm')"
  shows "ok \<and> pages_ok r pm' \<and> evolves_in r (page_addr v ` {i..<n}) pm pm' \<and> pml4_table pm' = r \<and> cr3 pm' = cr3 pm \<and>
    free_count pm \<le> free_count pm' + 4 * (n - i) \<and>
    (\<exists>f. backs r pm pm' i n f \<and> translate (frames pm') r =
       fold (\<lambda>j. mapped flags (page_addr v j) (f j)) [i..<n] (translate (frames pm) r))"
  using assms
proof (induction flags pm v n i rule: alloc_virtual_loop.induct)
  case (1 flags pm v n i)
  show ?case
  proof (cases "i < n")
    case False
    then have "ok" "pm' = pm" using 1(8) by (simp_all add: alloc_virtual_loop.simps [of flags pm])
    then show ?thesis using False 1(2,3,6) by (auto simp: backs_def)
  next
    case True
    obtain a mm where alloc: "AllocateFrame (pg_mm pm) = (a, mm)" by fastforce
    have mem: "mem_ok pm" using 1(2) by (simp add: pages_ok_def)
    have a: "a \<noteq> 0" using AllocateFrame_fresh [OF mem alloc] 1(7) True by (auto split: if_splits)
    have vi: "unat (page_addr v i) = unat v + i * 4096"
      using 1(5) True by (intro unat_page_addr) (simp add: mult_le_mono1 less_imp_le)
    have al: "unat (page_addr v i) mod 4096 = 0" "unat (page_addr v i) + 4096 \<le> 2 ^ 48" "4 \<le> free_count pm"
      using 1(4,5,7) True vi by (auto simp: less_eq_Suc_le dest: mult_le_mono1 [of "Suc i" n 4096])
    define pm2 where "pm2 = MapPage (zero_frame (pm\<lparr>pg_mm := mm\<rparr>) a) (page_addr v i) a 1 flags"
    note O = alloc_one(1-6,8,10,11) [OF 1(2,3) alloc a al, where flags = flags, folded pm2_def]
      and fresh = alloc_one(7,9) [OF 1(2,3) alloc a al]
    have unf: "alloc_virtual_loop flags pm2 v n (Suc i) = (ok, pm')"
      using 1(8) alloc a True by (simp add: alloc_virtual_loop.simps [of flags pm] pm2_def page_addr_def)
    have "ok \<and> pages_ok r pm' \<and> evolves_in r (page_addr v ` {Suc i..<n}) pm2 pm' \<and> pml4_table pm' = r \<and>
        cr3 pm' = cr3 pm2 \<and> free_count pm2 \<le> free_count pm' + 4 * (n - Suc i) \<and>
        (\<exists>f. backs r pm2 pm' (Suc i) n f \<and> translate (frames pm') r =
           fold (\<lambda>j. mapped flags (page_addr v j) (f j)) [Suc i..<n] (translate (frames pm2) r))"
      by (rule 1(1) [OF True refl alloc [symmetric] refl a, folded page_addr_def, folded pm2_def])
        (use O(1,2,5) 1(4,5,7) True unf in simp_all)
    then obtain f where IH: "ok" "pages_ok r pm'" "evolves_in r (page_addr v ` {Suc i..<n}) pm2 pm'"
      "pml4_table pm' = r" "cr3 pm' = cr3 pm2" "backs r pm2 pm' (Suc i) n f"
      "translate (frames pm') r =
         fold (\<lambda>j. mapped flags (page_addr v j) (f j)) [Suc i..<n] (translate (frames pm2) r)"
      "free_count pm2 \<le> free_count pm' + 4 * (n - Suc i)" by blast
    have all: "evolves_in r (page_addr v ` {i..<n}) pm pm'"
      by (rule evolves_in_trans [OF evolves_in_mono [OF O(4)] evolves_in_mono [OF IH(3)]]) (use True in auto)
    have "frames pm' a = (\<lambda>_. 0)" "\<And>w. a \<notin> own (frames pm') r w"
      using evolves_in_data [OF IH(3) O(7,9)] O(8) by simp_all
    then have "backs r pm pm' i n (f(i := a))"
      using backs_Suc [OF IH(6) evolves_in_used [OF O(4)] evolves_in_used [OF IH(3)] True fresh(1) O(7) fresh(2)] by simp
    moreover have "translate (frames pm') r =
        fold (\<lambda>j. mapped flags (page_addr v j) ((f(i := a)) j)) [i..<n] (translate (frames pm) r)"
      using IH(7) O(6) True by (simp add: upt_conv_Cons) (rule fold_cong, auto)
    moreover have "free_count pm \<le> free_count pm' + 4 * (n - i)" using IH(8) O(5) True by simp
    ultimately show ?thesis
      using IH(1,2,4,5) O(3) all by (intro conjI exI [of _ "f(i := a)"]) (simp_all del: fun_upd_apply)
  qed
qed

lemma fold_mapped_page:
  assumes v: "unat v mod 4096 = 0" "unat v + n * 4096 \<le> 2 ^ 48" and w: "unat w < 2 ^ 48"
    and p: "flags AND kPresent \<noteq> 0"
    and j: "j < n" "unat v + j * 4096 \<le> unat w" "unat w < unat v + Suc j * 4096"
  shows "fold (\<lambda>j. mapped flags (page_addr v j) (f j)) [0..<n] tr w = Some (GetAddress (f j) OR take_bit 12 w)"
  using v(2) j(1)
proof (induction n)
  case (Suc n)
  have "unat (0 :: u64) mod 4096 = 0" "unat (0 :: u64) + Suc n * 4096 \<le> 2 ^ 52"
    using Suc.prems(1) by simp_all
  note step = mapped_step(1) [OF v(1) Suc.prems(1) this w]
  show ?case
  proof (cases "j = n")
    case True
    then show ?thesis using step j p by (simp add: mapped_def)
  next
    case False
    then have "Suc j * 4096 \<le> n * 4096" using Suc.prems(2) by (intro mult_le_mono1) simp
    then have "page_of w \<noteq> page_of (page_addr v n)" using step j(3) by simp
    then show ?thesis using Suc False by (simp add: mapped_def)
  qed
qed simp

text \<open>A sample state for the witnesses: an empty root table in frame 3 of the sample memory.\<close>

definition sample_pm :: PageManager where
  "sample_pm = \<lparr>pml4_table = 0x3000, cr3 = 0x3000, frames = (\<lambda>_ _. 0), pg_mm = sample_mm, invlpg = []\<rparr>"

lemma sample_used: "used_frames sample_mm = UNIV - {4..<12}"
proof -
  have "Bitmap_Get (mm_bitmap sample_mm) j \<longleftrightarrow> j \<notin> {4..<12}" for j
  proof (cases "j < 16")
    case True
    then have "j \<in> {0,1,2,3,4,5,6,7,8,9,10,11,12,13,14,15}"
      by (simp only: insert_iff empty_iff) arith
    then show ?thesis by (elim insertE emptyE) (simp_all add: sample_mm_def bitmap_eval)
  next
    case False
    then have "Bitmap_Get (mm_bitmap sample_mm) j" by (intro Get_beyond) (simp add: sample_mm_def)
    then show ?thesis using False by simp
  qed
  then show ?thesis unfolding used_frames_def by blast
qed

lemma empty_root_walk: "walk (\<lambda>_ _. 0) r q = (if q = [] then Some r else None)"
  by (cases q) (simp_all add: next_table_def pte_simps)

lemma sample_pm_ok: "pages_ok 0x3000 sample_pm" and sample_pm_root: "pml4_table sample_pm = 0x3000"
  and sample_pm_free: "free_count sample_pm = 8"
proof -
  have "GetAddress (0x3000 :: u64) = 0x3000" by (rule GetAddress_aligned) simp_all
  then show "pages_ok 0x3000 sample_pm"
    using sample_mm_inv
    by (auto simp: pages_ok_def sample_pm_def mem_ok_def used_def sample_used kFrameSize_def good_entry_def
        pte_simps empty_root_walk intro!: pt_okI split: if_splits) (simp add: sample_mm_def)
  have "- (UNIV - {4..<12}) = {4..<12 :: nat}" by auto
  then show "free_count sample_pm = 8"
    by (simp add: free_count_def sample_pm_def sample_used)
  show "pml4_table sample_pm = 0x3000" by (simp add: sample_pm_def)
qed

lemma kPresent_1: "(3 :: u64) AND kPresent \<noteq> 0" "(7 :: u64) AND kPresent \<noteq> 0"
  by (simp_all add: kPresent_def)

text \<open>
  C12: \<open>MapPage\<close> maps the range it is given and nothing else. With page-aligned arguments
  inside the 48-bit and 52-bit address spaces, the present flag and three free frames per page
  for tables, afterwards every address of the range translates to the same offset in the
  physical range and every other address translates as before, also where a 2 MB page had to
  be split into 4 KB pages.
\<close>

theorem MapPage_maps_range:
  assumes "pages_ok (pml4_table pm) pm" and "unat v mod 4096 = 0" and "unat v + unat count * 4096 \<le> 2 ^ 48"
    and "unat p mod 4096 = 0" and "unat p + unat count * 4096 \<le> 2 ^ 52" and "flags AND kPresent \<noteq> 0"
    and "3 * unat count \<le> free_count pm" and "unat w < 2 ^ 48"
  shows "translate (frames (MapPage pm v p count flags)) (pml4_table pm) w =
    (if unat v \<le> unat w \<and> unat w < unat v + unat count * 4096 then Some (p + (w - v))
     else translate (frames pm) (pml4_table pm) w)"
  using MapPage_spec(7) [OF assms(1-3) assms(7), of p flags] fold_mapped [OF assms(2-5,8,6)] by simp

theorem MapPage_maps_range_witness:
  "translate (frames (MapPage sample_pm 0x40000000 0x200000 2 3)) 0x3000 0x40001234 = Some 0x201234 \<and>
   translate (frames (MapPage sample_pm 0x40000000 0x200000 2 3)) 0x3000 0x40002000 = None"
proof -
  have none: "translate (\<lambda>_ _. 0) 0x3000 0x40002000 = None"
    by (simp add: translate_def pte_simps)
  note map = MapPage_maps_range [of sample_pm "0x40000000" 2 "0x200000" 3, unfolded sample_pm_root,
      OF sample_pm_ok _ _ _ _ kPresent_1(1)]
  show ?thesis
    using map [of "0x40001234"] map [of "0x40002000"] none
    by (simp add: sample_pm_free) (simp add: sample_pm_def)
qed

text \<open>
  whatever memory is left, \<open>MapPage\<close> leaves the tables well formed (every table reached
  by one path, in a used frame), keeps the root and CR3, and changes no translation outside
  the given range.
\<close>

theorem MapPage_keeps_others:
  assumes "pages_ok (pml4_table pm) pm" and "unat v mod 4096 = 0" and "unat v + unat count * 4096 \<le> 2 ^ 48"
  shows "pages_ok (pml4_table pm) (MapPage pm v p count flags) \<and>
    pml4_table (MapPage pm v p count flags) = pml4_table pm \<and> cr3 (MapPage pm v p count flags) = cr3 pm \<and>
    (\<forall>w. unat w < 2 ^ 48 \<longrightarrow> \<not> (unat v \<le> unat w \<and> unat w < unat v + unat count * 4096) \<longrightarrow>
       translate (frames (MapPage pm v p count flags)) (pml4_table pm) w = translate (frames pm) (pml4_table pm) w)"
  using MapPage_spec(1-3) [OF assms, of p flags] MapPage_spec(5) [OF assms, where p = p and flags = flags]
  by blast

theorem MapPage_keeps_others_witness:
  "pages_ok 0x3000 (MapPage sample_pm 0x40000000 0x200000 100 3)"
  using MapPage_keeps_others [of sample_pm "0x40000000" 100 "0x200000" 3] sample_pm_ok sample_pm_root by simp

text \<open>
  \<open>AllocateVirtual\<close> with enough free frames (four per page cover the page and its tables)
  succeeds, and gives every page of the range a frame of its own: the frames are pairwise
  distinct, were free before, are zero filled, and each address of the page translates into
  its frame; addresses outside the range keep their translation.
\<close>

theorem AllocateVirtual_backs_range:
  fixes v sz :: u64
  assumes "pages_ok (pml4_table pm) pm" and "unat v mod 4096 = 0"
    and "n = unat ((sz + kPageSize4K - 1) div kPageSize4K)" and "unat v + n * 4096 \<le> 2 ^ 48"
    and "4 * n \<le> free_count pm" and "flags AND kPresent \<noteq> 0" and "AllocateVirtual pm v sz flags = (ok, pm')"
  shows "ok \<and> (\<exists>f. inj_on f {..<n} \<and>
    (\<forall>j<n. f j \<notin> used pm \<and> frames pm' (f j) = (\<lambda>_. 0) \<and>
       (\<forall>w. unat v + j * 4096 \<le> unat w \<and> unat w < unat v + Suc j * 4096 \<longrightarrow>
          translate (frames pm') (pml4_table pm) w = Some (f j OR take_bit 12 w)))) \<and>
    (\<forall>w. unat w < 2 ^ 48 \<longrightarrow> \<not> (unat v \<le> unat w \<and> unat w < unat v + n * 4096) \<longrightarrow>
       translate (frames pm') (pml4_table pm) w = translate (frames pm) (pml4_table pm) w)"
proof -
  let ?r = "pml4_table pm"
  have "unat (v mod kPageSize4K) = 0" using assms(2) by (simp add: unat_word_mod kPageSize4K_def)
  then have "v mod kPageSize4K = 0" by (simp only: unsigned_eq_0_iff)
  then have "alloc_virtual_loop flags pm v n 0 = (ok, pm')"
    using assms(3,7) by (simp add: AllocateVirtual_def)
  from alloc_virtual_spec [OF assms(1) refl assms(2,4) _ _ this] assms(5)
  obtain f where ok: "ok" and f: "backs ?r pm pm' 0 n f"
    "translate (frames pm') ?r = fold (\<lambda>j. mapped flags (page_addr v j) (f j)) [0..<n] (translate (frames pm) ?r)"
    by auto
  have page: "translate (frames pm') ?r w = Some (f j OR take_bit 12 w)"
    if j: "j < n" "unat v + j * 4096 \<le> unat w" "unat w < unat v + Suc j * 4096" for j w
  proof -
    have "Suc j * 4096 \<le> n * 4096" using j(1) by (intro mult_le_mono1) simp
    then have "unat w < 2 ^ 48" using j(3) assms(4) by simp
    then show ?thesis
      using fold_mapped_page [OF assms(2,4) _ assms(6) j] f j(1) by (simp add: backs_def)
  qed
  have "translate (frames pm') ?r w = translate (frames pm) ?r w"
    if "unat w < 2 ^ 48" "\<not> (unat v \<le> unat w \<and> unat w < unat v + n * 4096)" for w
    using fold_mapped_outside [OF assms(2,4) that] f(2) by simp
  then show ?thesis
    using ok f(1) page by (auto simp: backs_def atLeast0LessThan intro!: exI [of _ f])
qed

theorem AllocateVirtual_backs_range_witness:
  "fst (AllocateVirtual sample_pm 0x40000000 0x1001 7) \<and>
   (\<exists>a. a \<notin> used sample_pm \<and>
     translate (frames (snd (AllocateVirtual sample_pm 0x40000000 0x1001 7))) 0x3000 0x40001234 =
       Some (a OR take_bit 12 0x40001234))"
proof -
  obtain ok pm' where res: "AllocateVirtual sample_pm 0x40000000 0x1001 7 = (ok, pm')" by fastforce
  have n: "(2 :: nat) = unat (((0x1001 :: u64) + kPageSize4K - 1) div kPageSize4K)"
    by (simp add: kPageSize4K_def)
  note backed = AllocateVirtual_backs_range [of sample_pm "0x40000000" 2 "0x1001" 7, unfolded sample_pm_root,
      OF sample_pm_ok _ n _ _ kPresent_1(2) res]
  then obtain f where ok: "ok" and f: "\<forall>j<2. f j \<notin> used sample_pm \<and> frames pm' (f j) = (\<lambda>_. 0) \<and>
      (\<forall>w. unat (0x40000000 :: u64) + j * 4096 \<le> unat w \<and> unat w < unat (0x40000000 :: u64) + Suc j * 4096 \<longrightarrow>
         translate (frames pm') 0x3000 w = Some (f j OR take_bit 12 w))"
    by (auto simp: sample_pm_free)
  have "f 1 \<notin> used sample_pm" "translate (frames pm') 0x3000 0x40001234 = Some (f 1 OR take_bit 12 0x40001234)"
    using spec [OF f, of 1] by simp_all
  then show ?thesis using ok res by auto
qed

text \<open>
  \<open>AllocateVirtual\<close> can report success without mapping anything, because \<open>MapPage\<close>
  returns nothing when it runs out of memory. With one free frame left and no table yet for
  the address, the frame is taken, the call returns true, and the address stays unmapped.
\<close>

theorem AllocateVirtual_false_success:
  fixes v sz :: u64
  assumes "pages_ok (pml4_table pm) pm" and "unat v mod 4096 = 0"
    and "unat ((sz + kPageSize4K - 1) div kPageSize4K) = 1" and "free_count pm = 1"
    and "\<not> pte_present (frames pm (pml4_table pm) (pml4_idx v))"
  shows "fst (AllocateVirtual pm v sz flags) \<and>
    translate (frames (snd (AllocateVirtual pm v sz flags))) (pml4_table pm) v = None \<and>
    free_count (snd (AllocateVirtual pm v sz flags)) = 0"
proof -
  let ?r = "pml4_table pm"
  have "unat (v mod kPageSize4K) = 0" using assms(2) by (simp add: unat_word_mod kPageSize4K_def)
  then have al: "v mod kPageSize4K = 0" by (simp only: unsigned_eq_0_iff)
  obtain a mm where alloc: "AllocateFrame (pg_mm pm) = (a, mm)" by fastforce
  have "mem_ok pm" using assms(1) by (simp add: pages_ok_def)
  from AllocateFrame_fresh [OF this alloc] have a: "a \<noteq> 0" using assms(4) by (auto split: if_splits)
  define pm1 where "pm1 = zero_frame (pm\<lparr>pg_mm := mm\<rparr>) a"
  note F = fresh_data_frame [OF assms(1) alloc a, folded pm1_def]
  have free: "free_count pm1 = 0" "mem_ok pm1" using F(2) assms(4) by (simp_all add: fresh_frame_def)
  have root: "pml4_table pm1 = ?r" by (simp add: pm1_def zero_frame_def)
  have "?r \<in> used pm" "?r \<noteq> 0" using pages_ok_root [OF assms(1)] by simp_all
  then have np: "\<not> pte_present (frames pm1 ?r (pml4_idx v))"
    using assms(5) F(2) by (auto simp: pm1_def zero_frame_def fresh_frame_def)
  have "AllocateTable pm1 = (0, pm1)"
    using free(2) by (cases rule: AllocateTable_cases) (use free in \<open>auto simp: fresh_frame_def\<close>)
  then have "EnsureEntry flags pm1 ?r (pml4_idx v) = (0, pm1)" using np by (simp add: EnsureEntry_def)
  then have "MapPage pm1 v a 1 flags = pm1"
    using \<open>?r \<noteq> 0\<close> root by (simp add: MapPage_def map_loop.simps [of flags pm1] MapOne_def)
  then have "AllocateVirtual pm v sz flags = (True, pm1)"
    using al alloc a assms(3)
    by (simp add: AllocateVirtual_def alloc_virtual_loop.simps [of flags] pm1_def [symmetric])
  then show ?thesis using np free by (simp add: translate_def)
qed

theorem AllocateVirtual_false_success_witness:
  "fst (AllocateVirtual (sample_pm\<lparr>pg_mm := \<lparr>mm_bitmap = \<lparr>bm_buffer = [0xEF, 0xFF], bm_size = 2\<rparr>,
     mm_range_end = 0x10000\<rparr>\<rparr>) 0x40000000 0x1000 7)"
proof -
  let ?mm = "\<lparr>mm_bitmap = \<lparr>bm_buffer = [0xEF, 0xFF], bm_size = 2\<rparr>, mm_range_end = 0x10000\<rparr>"
  let ?pm = "sample_pm\<lparr>pg_mm := ?mm\<rparr>"
  have get: "Bitmap_Get (mm_bitmap ?mm) j \<longleftrightarrow> j \<noteq> 4" for j
  proof (cases "j < 16")
    case True
    then have "j \<in> {0,1,2,3,4,5,6,7,8,9,10,11,12,13,14,15}"
      by (simp only: insert_iff empty_iff) arith
    then show ?thesis by (elim insertE emptyE) (simp_all add: bitmap_eval)
  next
    case False
    then show ?thesis using Get_beyond [of "mm_bitmap ?mm" j] by simp
  qed
  then have uf: "used_frames ?mm = UNIV - {4}" unfolding used_frames_def by blast
  have inv: "mm_inv ?mm"
    using get by (simp add: mm_inv_def bitmap_wf_def total_frames_def kFrameSize_def)
  have "GetAddress (0x3000 :: u64) = 0x3000" by (rule GetAddress_aligned) simp_all
  then have ok: "pages_ok (pml4_table ?pm) ?pm"
    using inv by (auto simp: pages_ok_def sample_pm_def mem_ok_def used_def uf kFrameSize_def good_entry_def
        pte_simps empty_root_walk intro!: pt_okI split: if_splits)
  have "- (UNIV - {4}) = {4 :: nat}" by auto
  then have "free_count ?pm = 1" by (simp add: free_count_def uf)
  then show ?thesis
    using AllocateVirtual_false_success [OF ok, of "0x40000000" "0x1000" 7]
    by (simp add: kPageSize4K_def) (simp add: sample_pm_def pte_simps)
qed

end
