(* ===== verification/PageProc.thy ===== *)
theory PageProc
  imports PageMaps
begin

text \<open>
  Process page tables: what \<open>CreateProcessPageTable\<close> copies and what it shares with the
  kernel's tables, why filling the private part never reaches the kernel's translations, and
  that \<open>FreeProcessPageTable\<close> gives back what the creation took.
\<close>

section \<open>Copies of tables\<close>

lemma walk_root_copy:
  assumes "n \<notin> U" "pt_ok mem k U" "mem' n = mem k" "\<And>a. a \<in> U \<Longrightarrow> mem' a = mem a" "length q \<le> 3"
  shows "walk mem' n q = (if q = [] then Some n else walk mem k q)"
  using assms(5)
proof (induction q rule: rev_induct)
  case (snoc j q)
  have "next_table mem' a j = next_table mem a j" if "walk mem k q = Some a" for a
    using that pt_okD(1) [OF assms(2) that] snoc.prems assms(4) by (simp add: next_table_def)
  moreover have "next_table mem' n j = next_table mem k j"
    using assms(3) by (simp add: next_table_def)
  ultimately show ?case
    using snoc by (cases "walk mem k q") (auto simp: walk_append)
qed simp

lemma pt_ok_renamed:
  assumes ok: "pt_ok mem k U" and walk': "\<And>q. length q \<le> 3 \<Longrightarrow> walk mem' r q = (if q = p then Some n else walk mem k q)"
    and n: "n \<notin> U" "n \<noteq> 0" "GetAddress n = n" "n \<in> U'" "U \<subseteq> U'"
    and good: "\<And>q a j. length q \<le> 2 \<Longrightarrow> walk mem' r q = Some a \<Longrightarrow> good_entry (length q) (mem' a j)"
  shows "pt_ok mem' r U'"
proof (rule pt_okI)
  show "a \<in> U' \<and> a \<noteq> 0 \<and> GetAddress a = a" if "length q \<le> 3" "walk mem' r q = Some a" for q a
    using that n pt_okD(1-3) [OF ok, of q a] by (auto simp: walk' split: if_splits)
  show "q = q'" if "length q \<le> 3" "length q' \<le> 3" "walk mem' r q = Some a" "walk mem' r q' = Some a" for q q' a
    using that n pt_okD(1) [OF ok, of _ a] pt_okD(4) [OF ok, of q' a q] by (auto simp: walk' split: if_splits)
qed (use good in simp)

lemma pt_ok_root_copy:
  assumes n: "n \<notin> U" "n \<noteq> 0" "GetAddress n = n" "n \<in> U'" "U \<subseteq> U'" and ok: "pt_ok mem k U"
    and mem': "mem' n = mem k" "\<And>a. a \<in> U \<Longrightarrow> mem' a = mem a"
  shows "pt_ok mem' n U'" and "translate mem' n w = translate mem k w"
proof -
  have k: "walk mem k [] = Some k" by simp
  have walk': "walk mem' n q = (if q = [] then Some n else walk mem k q)" if "length q \<le> 3" for q
    by (rule walk_root_copy [OF n(1) ok mem' that])
  show ok': "pt_ok mem' n U'"
  proof (rule pt_ok_renamed [OF ok walk' n])
    show "good_entry (length q) (mem' a j)" if "length q \<le> 2" "walk mem' n q = Some a" for q a j
      using that walk' [of q] pt_okD(5) [OF ok k, of j] pt_okD(1,5) [OF ok, of q a] mem'
      by (auto split: if_splits)
  qed
  have "pd_translate mem' pd w = pd_translate mem pd w" if pd: "walk mem k (take 2 (path w)) = Some pd" for pd
    using mem'(2) pd_on_path(1,3) [OF ok pd] by (intro pd_translate_cong) simp_all
  moreover have "path w \<noteq> []" by (simp add: path_def)
  ultimately show "translate mem' n w = translate mem k w"
    using walk' [of "take 2 (path w)"]
    by (cases "walk mem k (take 2 (path w))") (simp_all add: translate_walk [OF ok] translate_walk [OF ok'])
qed

text \<open>A table replaced by a copy of itself in a fresh frame.\<close>

lemma walk_table_copy:
  assumes ok: "pt_ok mem r U" and t': "walk mem r p' = Some t'" "length p' \<le> 1"
    and t: "next_table mem t' i = Some t" and n: "n \<notin> U"
    and link: "next_table mem' t' i = Some n" and copy: "mem' n = mem t"
    and agree: "\<And>a j. a \<in> U \<Longrightarrow> (a, j) \<noteq> (t', i) \<Longrightarrow> mem' a j = mem a j" and q: "length q \<le> 3"
  shows "walk mem' r q = (if q = p' @ [i] then Some n else walk mem r q)"
  using q
proof (induction q rule: rev_induct)
  case (snoc j q)
  then have IH: "walk mem' r q = (if q = p' @ [i] then Some n else walk mem r q)" by simp
  have p: "walk mem r (p' @ [i]) = Some t" using t t' by (simp add: walk_append)
  show ?case
  proof (cases "q = p' @ [i]")
    case True
    then have "walk mem' r (q @ [j]) = next_table mem' n j" "walk mem r (q @ [j]) = next_table mem t j"
      using IH p by (simp_all only: walk_append) simp_all
    then show ?thesis using True copy by (simp add: next_table_def)
  next
    case False
    show ?thesis
    proof (cases "walk mem r q")
      case None
      then show ?thesis using False IH p by (auto simp: walk_append)
    next
      case (Some a)
      then have a: "a \<in> U" "(a, j) = (t', i) \<longleftrightarrow> q @ [j] = p' @ [i]"
        using pt_okD(1) [OF ok Some] pt_okD(4) [OF ok t'(1), of q] t' snoc.prems by auto
      then show ?thesis
        using False IH Some link agree [of a j] by (auto simp: walk_append next_table_def)
    qed
  qed
qed simp

lemma pt_ok_table_copy:
  assumes ok: "pt_ok mem r U" and t': "walk mem r p' = Some t'" "length p' \<le> 1"
    and t: "next_table mem t' i = Some t" and n: "n \<notin> U" "n \<noteq> 0" "GetAddress n = n" "n \<in> U'" "U \<subseteq> U'"
    and link: "next_table mem' t' i = Some n" and copy: "mem' n = mem t"
    and agree: "\<And>a j. a \<in> U \<Longrightarrow> (a, j) \<noteq> (t', i) \<Longrightarrow> mem' a j = mem a j"
  shows "pt_ok mem' r U'" and "translate mem' r w = translate mem r w"
proof -
  have walk': "walk mem' r q = (if q = p' @ [i] then Some n else walk mem r q)" if "length q \<le> 3" for q
    by (rule walk_table_copy [OF ok t' t n(1) link copy agree that])
  have p: "walk mem r (p' @ [i]) = Some t" using t t' by (simp add: walk_append)
  show ok': "pt_ok mem' r U'"
  proof (rule pt_ok_renamed [OF ok walk' n])
    fix q a j assume q: "length q \<le> 2" "walk mem' r q = Some a"
    show "good_entry (length q) (mem' a j)"
    proof (cases "q = p' @ [i]")
      case True
      then show ?thesis using q walk' [of q] pt_okD(5) [OF ok p, of j] copy by auto
    next
      case False
      then have a: "walk mem r q = Some a" using q walk' [of q] by simp
      then show ?thesis
        using link agree [of a j] q pt_okD(1,5) [OF ok a]
        by (cases "(a, j) = (t', i)") (auto simp: next_table_def good_entry_def split: if_splits)
    qed
  qed
  have off: "mem' a = mem a" if "walk mem r q = Some a" "2 \<le> length q" "length q \<le> 3" for a q
  proof -
    have "a \<noteq> t'" using pt_okD(4) [OF ok t'(1), of q] that t' by auto
    then show ?thesis using agree pt_okD(1) [OF ok that(1)] that by (intro ext) auto
  qed
  show "translate mem' r w = translate mem r w"
  proof (cases "walk mem r (take 2 (path w))")
    case None
    then show ?thesis
      using walk' [of "take 2 (path w)"] p by (auto simp: translate_walk [OF ok] translate_walk [OF ok'])
  next
    case (Some pd)
    have "mem' pt (pt_idx w) = mem pt (pt_idx w)" if "next_table mem pd (pd_idx w) = Some pt" for pt
      using that pd_on_path(2) [OF ok Some] off [of "path w" pt] by simp
    then have same: "pd_translate mem' x w = pd_translate mem pd w" if "mem' x = mem pd" for x
      using that by (simp add: pd_translate_def next_table_def Let_def)
    have "mem' (if take 2 (path w) = p' @ [i] then n else pd) = mem pd"
      using Some p copy off [of "take 2 (path w)" pd] by auto
    then show ?thesis
      using same Some walk' [of "take 2 (path w)"] by (simp add: translate_walk [OF ok] translate_walk [OF ok'] split: if_splits)
  qed
qed

section \<open>CreateProcessPageTable\<close>

lemma CopyPageTable_new:
  assumes "mem_ok pm" "0 < free_count pm" "src \<in> used pm"
  obtains n pm' where "CopyPageTable pm src = (n, pm')" "n \<noteq> 0" "fresh_frame pm n pm'"
    "frames pm' = (frames pm)(n := frames pm src)" "pml4_table pm' = pml4_table pm" "cr3 pm' = cr3 pm"
  using assms(1)
proof (cases rule: AllocateTable_cases)
  case null
  then show ?thesis using assms(2) by simp
next
  case (new n pm1)
  then have "src \<noteq> n" using assms(3) by (auto simp: fresh_frame_def)
  then show ?thesis
    using new
    by (intro that [of n "pm1\<lparr>frames := (frames pm1)(n := frames pm1 src)\<rparr>"])
      (simp_all add: CopyPageTable_def fresh_frame_def used_def mem_ok_def free_count_def)
qed

text \<open>The replacement of the table below entry \<open>i\<close> of \<open>t\<close> by a private copy.\<close>

definition copied :: "u64 \<Rightarrow> u9 list \<Rightarrow> u64 \<Rightarrow> u9 \<Rightarrow> PageManager \<Rightarrow> u64 \<Rightarrow> PageManager \<Rightarrow> bool" where
  "copied r p t i pm n pm' \<longleftrightarrow> fresh_frame pm n pm' \<and> pt_ok (frames pm') r (used pm') \<and>
     (\<forall>w. translate (frames pm') r w = translate (frames pm) r w) \<and>
     (\<forall>q. length q \<le> 3 \<longrightarrow> walk (frames pm') r q = (if q = p @ [i] then Some n else walk (frames pm) r q)) \<and>
     (\<forall>a\<in>used pm. a \<noteq> t \<longrightarrow> frames pm' a = frames pm a) \<and>
     frames pm' t = (frames pm t)(i := SetAddress n (frames pm t i)) \<and>
     frames pm' n = frames pm (GetAddress (frames pm t i)) \<and>
     pml4_table pm' = pml4_table pm \<and> cr3 pm' = cr3 pm"

lemma table_copied:
  assumes mem: "mem_ok pm" and free: "0 < free_count pm" and ok: "pt_ok (frames pm) r (used pm)"
    and t: "walk (frames pm) r p = Some t" "length p \<le> 1" and present: "pte_present (frames pm t i)"
  obtains n pm1 where "CopyPageTable pm (GetAddress (frames pm t i)) = (n, pm1)" "n \<noteq> 0"
    "copied r p t i pm n (set_entry pm1 t i (SetAddress n (frames pm1 t i)))"
proof -
  let ?e = "frames pm t i"
  have nh: "\<not> pte_huge ?e" using pt_okD(5) [OF ok t(1), of i] t(2) by (auto simp: good_entry_def)
  have src: "next_table (frames pm) t i = Some (GetAddress ?e)" using nh present by (simp add: next_table_def)
  have "walk (frames pm) r (p @ [i]) = Some (GetAddress ?e)" using src t by (simp add: walk_append)
  then have "GetAddress ?e \<in> used pm" using pt_okD(1) [OF ok] t(2) by simp
  with mem free obtain n pm1 where new: "CopyPageTable pm (GetAddress ?e) = (n, pm1)" "n \<noteq> 0"
    "fresh_frame pm n pm1" "frames pm1 = (frames pm)(n := frames pm (GetAddress ?e))"
    "pml4_table pm1 = pml4_table pm" "cr3 pm1 = cr3 pm"
    by (rule CopyPageTable_new)
  let ?pm = "set_entry pm1 t i (SetAddress n (frames pm1 t i))"
  have n: "n \<notin> used pm" "n \<noteq> 0" "GetAddress n = n" "n \<in> used pm1" "used pm \<subseteq> used pm1"
    using new(3) by (auto simp: fresh_frame_def)
  have "t \<in> used pm" using pt_okD(1) [OF ok t(1)] t(2) by simp
  then have tn: "t \<noteq> n" using n(1) by blast
  have used1: "used ?pm = used pm1" by (simp add: set_entry_def used_def)
  have link: "next_table (frames ?pm) t i = Some n"
    using new(4) tn n present nh by (simp add: next_table_def set_entry_def pte_simps)
  have copy: "frames ?pm n = frames pm (GetAddress ?e)" using new(4) tn by (simp add: set_entry_def)
  have agree: "frames ?pm a j = frames pm a j" if "a \<in> used pm" "(a, j) \<noteq> (t, i)" for a j
    using that new(4) n(1) by (auto simp: set_entry_def)
  note T = pt_ok_table_copy [OF ok t src n(1-3) _ _ link copy agree, of "used pm1"]
  have "walk (frames ?pm) r q = (if q = p @ [i] then Some n else walk (frames pm) r q)" if "length q \<le> 3" for q
    by (rule walk_table_copy [OF ok t src n(1) link copy agree that])
  moreover have "frames ?pm a = frames pm a" if "a \<in> used pm" "a \<noteq> t" for a
    using that agree by (intro ext) auto
  moreover have "frames ?pm t = (frames pm t)(i := SetAddress n (frames pm t i))"
    using tn new(4) by (auto simp: set_entry_def)
  moreover have "fresh_frame pm n ?pm"
    using new(3) by (simp add: fresh_frame_def set_entry_def used_def mem_ok_def free_count_def)
  ultimately have "copied r p t i pm n ?pm"
    using T n new(5,6) used1 copy by (simp add: copied_def) (simp add: set_entry_def)
  then show thesis using that new(1,2) by blast
qed

lemma copiedD:
  assumes "copied r p t i pm n pm'"
  shows "fresh_frame pm n pm'" "pt_ok (frames pm') r (used pm')" "mem_ok pm'" "free_count pm = Suc (free_count pm')"
    "translate (frames pm') r w = translate (frames pm) r w"
    "length q \<le> 3 \<Longrightarrow> walk (frames pm') r q = (if q = p @ [i] then Some n else walk (frames pm) r q)"
    "a \<in> used pm \<Longrightarrow> a \<noteq> t \<Longrightarrow> frames pm' a = frames pm a"
    "frames pm' t = (frames pm t)(i := SetAddress n (frames pm t i))"
    "n \<notin> used pm" "n \<in> used pm'" "used pm \<subseteq> used pm'" "n \<noteq> 0" "GetAddress n = n"
    "pml4_table pm' = pml4_table pm" "cr3 pm' = cr3 pm"
    "frames pm' n = frames pm (GetAddress (frames pm t i))"
  using assms unfolding copied_def fresh_frame_def by blast+

text \<open>What a process table shares with the kernel's and what it has of its own.\<close>

definition process_table :: "u64 \<Rightarrow> PageManager \<Rightarrow> u64 \<Rightarrow> u64 \<Rightarrow> u64 \<Rightarrow> u64 \<Rightarrow> PageManager \<Rightarrow> bool" where
  "process_table k pm r d p0 p1 pm' \<longleftrightarrow> distinct [r, d, p0, p1] \<and> set [r, d, p0, p1] \<inter> used pm = {} \<and>
     (\<forall>a\<in>used pm. frames pm' a = frames pm a) \<and> used pm \<subseteq> used pm' \<and> pages_ok r pm' \<and>
     (\<forall>w. translate (frames pm') r w = translate (frames pm) k w) \<and>
     (\<forall>q. length q \<le> 3 \<longrightarrow> walk (frames pm') r q =
        (if q = [] then Some r else if q = [0] then Some d else if q = [0, 0] then Some p0
         else if q = [0, 1] then Some p1 else walk (frames pm) k q)) \<and>
     (\<exists>mm1 mm2 mm3. took (pg_mm pm) r mm1 \<and> took mm1 d mm2 \<and> took mm2 p0 mm3 \<and> took mm3 p1 (pg_mm pm')) \<and>
     free_count pm = 4 + free_count pm' \<and> pml4_table pm' = pml4_table pm \<and> cr3 pm' = cr3 pm"

lemma walk1: "walk mem t [i] = next_table mem t i"
  by simp

lemma next_present: "next_table mem t i = Some a \<Longrightarrow> pte_present (mem t i) \<and> GetAddress (mem t i) = a"
  by (auto simp: next_table_def split: if_splits)

lemma copy_pd_copied:
  assumes "mem_ok pm" "0 < free_count pm" "pt_ok (frames pm) r (used pm)"
    and "walk (frames pm) r p = Some t" "length p \<le> 1" "walk (frames pm) r (p @ [i]) = Some t'"
  shows "\<exists>n. copied r p t i pm n (copy_pd pm t i)"
proof -
  have present: "pte_present (frames pm t i)"
    using assms(4,6) next_present by (simp add: walk_append)
  from assms(1-5) present obtain n pm1 where
    "CopyPageTable pm (GetAddress (frames pm t i)) = (n, pm1)" "n \<noteq> 0"
    "copied r p t i pm n (set_entry pm1 t i (SetAddress n (frames pm1 t i)))"
    by (rule table_copied)
  then show ?thesis using present by (auto simp: copy_pd_def)
qed

lemma both_pds_copied:
  assumes "mem_ok pm" "2 \<le> free_count pm" "pt_ok (frames pm) r (used pm)"
    and d: "walk (frames pm) r [0] = Some d" "walk (frames pm) r [0, 0] = Some t20" "walk (frames pm) r [0, 1] = Some t21"
  obtains p0 p1 where "copied r [0] d 0 pm p0 (copy_pd pm d 0)"
    "copied r [0] d 1 (copy_pd pm d 0) p1 (copy_pd (copy_pd pm d 0) d 1)"
proof -
  have "walk (frames pm) r ([0] @ [0]) = Some t20" using d(2) by simp
  then obtain p0 where p0: "copied r [0] d 0 pm p0 (copy_pd pm d 0)"
    using copy_pd_copied [OF assms(1) _ assms(3) d(1)] assms(2) by force
  note D = copiedD [OF p0]
  have "walk (frames (copy_pd pm d 0)) r [0] = Some d" "walk (frames (copy_pd pm d 0)) r ([0] @ [1]) = Some t21"
    using D(6) [of "[0]"] D(6) [of "[0, 1]"] d by (simp_all del: walk.simps)
  then obtain p1 where "copied r [0] d 1 (copy_pd pm d 0) p1 (copy_pd (copy_pd pm d 0) d 1)"
    using copy_pd_copied [OF D(3) _ D(2)] D(4) assms(2) by force
  then show thesis using that p0 by blast
qed

lemma CreateProcessPageTable_spec:
  assumes ok: "pages_ok k pm" and k: "k = pml4_table pm" and free: "4 \<le> free_count pm"
    and tables: "walk (frames pm) k [0] = Some t3" "walk (frames pm) k [0, 0] = Some t20"
      "walk (frames pm) k [0, 1] = Some t21"
  obtains r d p0 p1 pm' where "CreateProcessPageTable pm = (r, pm')" "r \<noteq> 0" "process_table k pm r d p0 p1 pm'"
proof -
  have mem: "mem_ok pm" and tree: "pt_ok (frames pm) k (used pm)" using ok by (simp_all add: pages_ok_def)
  have "k \<in> used pm" using pages_ok_root [OF ok] by simp
  with mem free obtain r pm1 where c1: "CopyPageTable pm k = (r, pm1)" "r \<noteq> 0" "fresh_frame pm r pm1"
    "frames pm1 = (frames pm)(r := frames pm k)" "pml4_table pm1 = pml4_table pm" "cr3 pm1 = cr3 pm"
    using CopyPageTable_new [OF mem] by (metis less_le_trans zero_less_numeral)
  have r: "r \<notin> used pm" "r \<noteq> 0" "GetAddress r = r" "r \<in> used pm1" "used pm \<subseteq> used pm1"
    and mem1: "mem_ok pm1" and fc1: "free_count pm = Suc (free_count pm1)"
    using c1(3) by (auto simp: fresh_frame_def)
  have old1: "frames pm1 a = frames pm a" if "a \<in> used pm" for a using that c1(4) r(1) by auto
  have fr: "frames pm1 r = frames pm k" using c1(4) by simp
  note T1 = pt_ok_root_copy [OF r tree fr old1]
  have w1: "walk (frames pm1) r q = (if q = [] then Some r else walk (frames pm) k q)" if "length q \<le> 3" for q
    by (rule walk_root_copy [OF r(1) tree fr old1 that])
  have "0 < free_count pm1" using fc1 free by simp
  moreover have "pte_present (frames pm1 r 0)"
    using next_present [OF tables(1) [unfolded walk1]] fr by simp
  ultimately obtain d pmx where c2: "CopyPageTable pm1 (GetAddress (frames pm1 r 0)) = (d, pmx)" "d \<noteq> 0"
    "copied r [] r 0 pm1 d (set_entry pmx r 0 (SetAddress d (frames pmx r 0)))"
    using table_copied [OF mem1 _ T1(1), of "[]" r 0] by auto
  define pm2 where "pm2 = set_entry pmx r 0 (SetAddress d (frames pmx r 0))"
  note D2 = copiedD [OF c2(3), folded pm2_def]
  have "walk (frames pm2) r [0] = Some d" "walk (frames pm2) r [0, 0] = Some t20" "walk (frames pm2) r [0, 1] = Some t21"
    using D2(6) [of "[0]"] D2(6) [of "[0, 0]"] D2(6) [of "[0, 1]"] w1 [of "[0, 0]"] w1 [of "[0, 1]"] tables
    by (simp_all del: walk.simps)
  then obtain p0 p1 where c3: "copied r [0] d 0 pm2 p0 (copy_pd pm2 d 0)"
    and c4: "copied r [0] d 1 (copy_pd pm2 d 0) p1 (copy_pd (copy_pd pm2 d 0) d 1)"
    using both_pds_copied [OF D2(3) _ D2(2)] fc1 D2(4) free by force
  define pm3 where "pm3 = copy_pd pm2 d 0"
  define pm4 where "pm4 = copy_pd pm3 d 1"
  note D3 = copiedD [OF c3, folded pm3_def] and D4 = copiedD [OF c4, folded pm3_def, folded pm4_def]
  have "CreateProcessPageTable pm = (r, pm4)"
    using c1 c2(1,2) next_present [OF tables(1) [unfolded walk1]]
    by (simp add: CreateProcessPageTable_def k [symmetric] pm4_def pm3_def pm2_def)
  moreover have "process_table k pm r d p0 p1 pm4"
    unfolding process_table_def
  proof (intro conjI allI ballI impI)
    have fresh: "r \<in> used pm1" "d \<in> used pm2" "p0 \<in> used pm3" "d \<notin> used pm1" "p0 \<notin> used pm2" "p1 \<notin> used pm3"
      using r D2(9,10) D3(9,10) D4(9) by simp_all
    then show "distinct [r, d, p0, p1]" using D2(11) D3(11) by auto
    show "set [r, d, p0, p1] \<inter> used pm = {}" using fresh r D2(11) D3(11) by auto
    show "used pm \<subseteq> used pm4" using r(5) D2(11) D3(11) D4(11) by blast
    show "pages_ok r pm4" using D4(2,3) by (simp add: pages_ok_def)
    show "translate (frames pm4) r w = translate (frames pm) k w" for w
      using T1(2) D2(5) D3(5) D4(5) by simp
    show "frames pm4 a = frames pm a" if a: "a \<in> used pm" for a
    proof -
      have "a \<in> used pm1" "a \<in> used pm2" "a \<in> used pm3" "a \<noteq> r" "a \<noteq> d"
        using a r(1,5) D2(11) D3(11) fresh by auto
      then show ?thesis using old1 [OF a] D2(7) D3(7) D4(7) by simp
    qed
    show "walk (frames pm4) r q = (if q = [] then Some r else if q = [0] then Some d else if q = [0, 0] then Some p0
         else if q = [0, 1] then Some p1 else walk (frames pm) k q)" if "length q \<le> 3" for q
      using D4(6) [OF that] D3(6) [OF that] D2(6) [OF that] w1 [OF that] by (auto simp del: walk.simps)
    show "\<exists>mm1 mm2 mm3. took (pg_mm pm) r mm1 \<and> took mm1 d mm2 \<and> took mm2 p0 mm3 \<and> took mm3 p1 (pg_mm pm4)"
      using c1(3) D2(1) D3(1) D4(1) unfolding fresh_frame_def by blast
    show "free_count pm = 4 + free_count pm4" using fc1 D2(4) D3(4) D4(4) by simp
    show "pml4_table pm4 = pml4_table pm" "cr3 pm4 = cr3 pm"
      using c1(5,6) D2(14,15) D3(14,15) D4(14,15) by simp_all
  qed
  ultimately show thesis using that r(2) by blast
qed

lemma CreateProcessPageTable_result:
  assumes "pages_ok (pml4_table pm) pm" "4 \<le> free_count pm"
    and "walk (frames pm) (pml4_table pm) [0] = Some t3" "walk (frames pm) (pml4_table pm) [0, 0] = Some t20"
      "walk (frames pm) (pml4_table pm) [0, 1] = Some t21" and call: "CreateProcessPageTable pm = (r, pm')"
  shows "r \<noteq> 0 \<and> (\<exists>d p0 p1. process_table (pml4_table pm) pm r d p0 p1 pm')"
proof (rule CreateProcessPageTable_spec [OF assms(1) refl assms(2-5)])
  fix r' d p0 p1 pm''
  assume "CreateProcessPageTable pm = (r', pm'')" "r' \<noteq> 0" "process_table (pml4_table pm) pm r' d p0 p1 pm''"
  then show ?thesis using call by auto
qed

section \<open>Isolation\<close>

definition reach :: "ptmem \<Rightarrow> u64 \<Rightarrow> u64 set" where
  "reach mem k = {a. \<exists>q. length q \<le> 3 \<and> walk mem k q = Some a}"

lemma reachI: "length q \<le> 3 \<Longrightarrow> walk mem k q = Some a \<Longrightarrow> a \<in> reach mem k"
  by (auto simp: reach_def)

lemma reach_used: "pt_ok mem k U \<Longrightarrow> reach mem k \<subseteq> U"
  by (auto simp: reach_def dest: pt_okD(1))

lemma reach_agree:
  assumes ok: "pt_ok mem k U" and agree: "\<And>a. a \<in> reach mem k \<Longrightarrow> mem' a = mem a" and "U \<subseteq> U'"
  shows "length q \<le> 3 \<Longrightarrow> walk mem' k q = walk mem k q" and "pt_ok mem' k U'"
    and "translate mem' k w = translate mem k w" and "reach mem' k = reach mem k"
proof -
  show walk': "walk mem' k q = walk mem k q" if "length q \<le> 3" for q
    using that
  proof (induction q rule: rev_induct)
    case (snoc j q)
    have "mem' a = mem a" if "walk mem k q = Some a" for a
      using that snoc.prems by (intro agree reachI [of q]) simp_all
    then show ?case
      using snoc by (cases "walk mem k q") (auto simp: walk_append next_table_def)
  qed simp
  show ok': "pt_ok mem' k U'"
  proof (rule pt_okI)
    show "a \<in> U' \<and> a \<noteq> 0 \<and> GetAddress a = a" if "length q \<le> 3" "walk mem' k q = Some a" for q a
      using that pt_okD(1-3) [OF ok, of q a] assms(3) by (auto simp: walk')
    show "q = q'" if "length q \<le> 3" "length q' \<le> 3" "walk mem' k q = Some a" "walk mem' k q' = Some a" for q q' a
      using that pt_okD(4) [OF ok, of q' a q] by (simp add: walk')
    show "good_entry (length q) (mem' a j)" if "length q \<le> 2" "walk mem' k q = Some a" for q a j
    proof -
      have a: "walk mem k q = Some a" using that walk' by simp
      then have "a \<in> reach mem k" using that(1) by (intro reachI [of q]) simp_all
      then show ?thesis using agree pt_okD(5) [OF ok a] that by simp
    qed
  qed
  have "pd_translate mem' pd w = pd_translate mem pd w" if pd: "walk mem k (take 2 (path w)) = Some pd" for pd
  proof (rule pd_translate_cong)
    have "pd \<in> reach mem k" using pd by (auto simp: reach_def intro!: exI [of _ "take 2 (path w)"])
    then show "mem' pd (pd_idx w) = mem pd (pd_idx w)" using agree by simp
    fix pt assume "next_table mem pd (pd_idx w) = Some pt"
    then have "pt \<in> reach mem k"
      using pd_on_path(2) [OF ok pd] by (auto simp: reach_def intro!: exI [of _ "path w"])
    then show "mem' pt (pt_idx w) = mem pt (pt_idx w)" using agree by simp
  qed
  then show "translate mem' k w = translate mem k w"
    using walk' [of "take 2 (path w)"]
    by (cases "walk mem k (take 2 (path w))") (simp_all add: translate_walk [OF ok] translate_walk [OF ok'])
  show "reach mem' k = reach mem k" unfolding reach_def by (rule Collect_cong) (auto simp: walk')
qed

text \<open>The tables on the way to the addresses of \<open>V\<close> belong to the process alone.\<close>

definition exclusive :: "u64 \<Rightarrow> u64 \<Rightarrow> u64 set \<Rightarrow> PageManager \<Rightarrow> bool" where
  "exclusive r k V pm \<longleftrightarrow> pt_ok (frames pm) k (used pm) \<and> (\<forall>v\<in>V. own (frames pm) r v \<inter> reach (frames pm) k = {})"

lemma evolves_exclusive:
  assumes ev: "evolves r v pm pm'" and v: "v \<in> V" and priv: "exclusive r k V pm"
  shows "exclusive r k V pm'" "translate (frames pm') k w = translate (frames pm) k w"
proof -
  have ok: "pt_ok (frames pm) k (used pm)" using priv by (simp add: exclusive_def)
  have agree: "frames pm' a = frames pm a" if "a \<in> reach (frames pm) k" for a
  proof -
    have "a \<in> used pm" using that reach_used [OF ok] by blast
    moreover have "a \<notin> own (frames pm) r v" using that priv v by (auto simp: exclusive_def)
    ultimately show ?thesis using evolvesD(7) [OF ev] by blast
  qed
  note R = reach_agree [OF ok agree evolvesD(3) [OF ev]]
  have "own (frames pm') r x \<inter> reach (frames pm) k = {}" if "x \<in> V" for x
    using that priv evolvesD(6) [OF ev, of x] reach_used [OF ok] by (fastforce simp: exclusive_def)
  then show "exclusive r k V pm'" using R(2,4) by (simp add: exclusive_def)
  show "translate (frames pm') k w = translate (frames pm) k w" by (rule R(3))
qed

lemma evolves_in_exclusive:
  assumes "evolves_in r V pm pm'" "V \<subseteq> W" "exclusive r k W pm"
  shows "exclusive r k W pm' \<and> (\<forall>w. translate (frames pm') k w = translate (frames pm) k w)"
  using assms(1) unfolding evolves_in_def
proof (induction rule: rtranclp_induct)
  case (step y z)
  then obtain v where v: "v \<in> W" "evolves r v y z" using assms(2) by auto
  then show ?case using evolves_exclusive [OF v(2,1), of k] step.IH by simp
qed (use assms in simp)

text \<open>\<open>AllocateVirtual\<close> stays inside its range also when memory runs out.\<close>

lemma alloc_virtual_evolves:
  assumes "pages_ok r pm" "r = pml4_table pm" "unat v mod 4096 = 0" "unat v + n * 4096 \<le> 2 ^ 48"
    and "alloc_virtual_loop flags pm v n i = (ok, pm')"
  shows "pages_ok r pm' \<and> evolves_in r (page_addr v ` {i..<n}) pm pm' \<and> pml4_table pm' = r \<and> cr3 pm' = cr3 pm"
  using assms
proof (induction flags pm v n i rule: alloc_virtual_loop.induct)
  case (1 flags pm v n i)
  obtain a mm where alloc: "AllocateFrame (pg_mm pm) = (a, mm)" by fastforce
  have mem: "mem_ok pm" using 1(2) by (simp add: pages_ok_def)
  show ?case
  proof (cases "i < n \<and> a \<noteq> 0")
    case False
    then have "pm' = pm"
      using 1(6) alloc AllocateFrame_fresh [OF mem alloc]
      by (auto simp: alloc_virtual_loop.simps [of flags pm] split: if_splits)
    then show ?thesis using 1(2,3) by simp
  next
    case True
    define pm1 where "pm1 = zero_frame (pm\<lparr>pg_mm := mm\<rparr>) a"
    define pm2 where "pm2 = MapPage pm1 (page_addr v i) a 1 flags"
    have i: "i < n" and a: "a \<noteq> 0" using True by simp_all
    note P = preparesD [OF fresh_data_frame(1) [OF 1(2) alloc a, folded pm1_def]]
    have vi: "unat (page_addr v i) = unat v + i * 4096"
      using 1(5) i by (intro unat_page_addr) (simp add: mult_le_mono1 less_imp_le)
    have al: "unat (page_addr v i) mod 4096 = 0" "unat (page_addr v i) + unat (1 :: u64) * 4096 \<le> 2 ^ 48"
      using 1(4,5) i vi by (auto simp: less_eq_Suc_le dest: mult_le_mono1 [of "Suc i" n 4096])
    have root1: "pml4_table pm1 = r" "cr3 pm1 = cr3 pm" using 1(3) by (simp_all add: pm1_def zero_frame_def)
    have "pages_ok (pml4_table pm1) pm1" using P(1,2) root1 by (simp add: pages_ok_def)
    note M = MapPage_spec(1-4) [OF this al, of a flags, folded pm2_def, unfolded root1]
    have "alloc_virtual_loop flags pm2 v n (Suc i) = (ok, pm')"
      using 1(6) alloc a i by (simp add: alloc_virtual_loop.simps [of flags pm] pm1_def pm2_def page_addr_def)
    then have IH: "pages_ok r pm' \<and> evolves_in r (page_addr v ` {Suc i..<n}) pm2 pm' \<and> pml4_table pm' = r \<and> cr3 pm' = cr3 pm2"
      by (rule 1(1) [OF i refl alloc [symmetric] refl a, folded page_addr_def pm1_def, folded pm2_def,
            OF M(1) M(2) [symmetric] 1(4,5)])
    have first: "evolves_in r {page_addr v i} pm pm2" using evolves_in_step [OF _ P(4)] M(4) by simp
    have "evolves_in r (page_addr v ` {i..<n}) pm pm'"
      by (rule evolves_in_trans [OF evolves_in_mono [OF first] evolves_in_mono]) (use IH i in auto)
    then show ?thesis using IH M(3) root1 by simp
  qed
qed

text \<open>A new process table is exclusive below 2 GB while the kernel has only large pages there.\<close>

definition low_half :: "u64 set" where
  "low_half = {v. unat v < 2 ^ 31}"

lemma low_half_path:
  assumes "v \<in> low_half"
  shows "\<exists>j. path v = [0, if bit v 30 then 1 else 0, j]"
proof -
  have high: "\<not> bit v n" if "31 \<le> n" for n
    using small_bits [of v 31 n] assms that by (auto simp: low_half_def)
  have "pml4_idx v = 0"
    by (rule bit_word_eqI) (simp add: pml4_idx_def bit_index high)
  moreover have "pdp_idx v = (if bit v 30 then 1 else 0)"
  proof (rule bit_word_eqI)
    fix n assume "n < LENGTH(9)"
    then show "bit (pdp_idx v) n = bit (if bit v 30 then 1 else 0 :: u9) n"
      using high [of "30 + n"] by (cases "n = 0") (simp_all add: pdp_idx_def bit_index bit_1_iff)
  qed
  ultimately show ?thesis by (simp add: path_def)
qed

lemma page_addrs_low:
  assumes "unat v + n * 4096 \<le> 2 ^ 31"
  shows "page_addr v ` {0..<n} \<subseteq> low_half"
proof
  fix x assume "x \<in> page_addr v ` {0..<n}"
  then obtain i where i: "i < n" "x = page_addr v i" by auto
  then have "Suc i * 4096 \<le> n * 4096" by (intro mult_le_mono1) simp
  then have "unat v + i * 4096 < 2 ^ 31" using assms by simp
  then show "x \<in> low_half" using i unat_page_addr [of v i] by (simp add: low_half_def)
qed

lemma process_table_exclusive:
  assumes ok: "pages_ok k pm" and pt: "process_table k pm r d p0 p1 pm'"
    and large: "\<And>v. v \<in> low_half \<Longrightarrow> walk (frames pm) k (path v) = None"
  shows "exclusive r k low_half pm'" and "translate (frames pm') k w = translate (frames pm) k w"
proof -
  have tree: "pt_ok (frames pm) k (used pm)" using ok by (simp add: pages_ok_def)
  have same: "frames pm' a = frames pm a" if "a \<in> reach (frames pm) k" for a
    using that reach_used [OF tree] pt by (auto simp: process_table_def)
  have "used pm \<subseteq> used pm'" using pt by (simp add: process_table_def)
  note R = reach_agree [OF tree same this]
  have "own (frames pm') r v \<subseteq> set [r, d, p0, p1]" if v: "v \<in> low_half" for v
  proof
    fix a assume "a \<in> own (frames pm') r v"
    then obtain l where l: "l \<le> 3" "walk (frames pm') r (take l (path v)) = Some a" by (auto simp: own_def)
    then consider "l = 0" | "l = 1" | "l = 2" | "l = 3" by linarith
    then show "a \<in> set [r, d, p0, p1]"
      using l large [OF v] low_half_path [OF v] pt
      by cases (auto simp: process_table_def simp del: walk.simps split: if_splits)
  qed
  moreover have "set [r, d, p0, p1] \<inter> reach (frames pm) k = {}"
    using pt reach_used [OF tree] by (auto simp: process_table_def)
  ultimately show "exclusive r k low_half pm'"
    using R(2,4) by (fastforce simp: exclusive_def)
  show "translate (frames pm') k w = translate (frames pm) k w" by (rule R(3))
qed

text \<open>The other direction: the tables of the kernel for the first 2 GB are not part of the process.\<close>

lemma process_table_excludes_kernel:
  assumes ok: "pages_ok k pm" and pt: "process_table k pm r d p0 p1 pm'"
    and large: "\<And>v. v \<in> low_half \<Longrightarrow> walk (frames pm) k (path v) = None"
  shows "exclusive k r low_half pm'"
proof -
  have tree: "pt_ok (frames pm) k (used pm)" using ok by (simp add: pages_ok_def)
  have same: "frames pm' a = frames pm a" if "a \<in> reach (frames pm) k" for a
    using that reach_used [OF tree] pt by (auto simp: process_table_def)
  have "used pm \<subseteq> used pm'" using pt by (simp add: process_table_def)
  note walk_same = reach_agree(1) [OF tree same this]
  have "a \<notin> reach (frames pm') r" if v: "v \<in> low_half" and a: "a \<in> own (frames pm') k v" for v a
  proof
    assume "a \<in> reach (frames pm') r"
    then obtain q where q: "length q \<le> 3" "walk (frames pm') r q = Some a" by (auto simp: reach_def)
    obtain l where l: "l \<le> 3" "walk (frames pm') k (take l (path v)) = Some a" using a by (auto simp: own_def)
    obtain j where j: "path v = [0, if bit v 30 then 1 else 0, j]" using low_half_path [OF v] by blast
    have w: "walk (frames pm) k (take l (path v)) = Some a" using l walk_same by (simp add: j del: walk.simps)
    have "l \<noteq> 3" using w large [OF v] j by auto
    then consider "l = 0" | "l = 1" | "l = 2" using l(1) by linarith
    then have short: "take l (path v) \<in> {[], [0], [0, 0], [0, 1]}" by cases (simp_all add: j)
    have "a \<in> used pm" using pt_okD(1) [OF tree w] j l(1) by simp
    then have "walk (frames pm) k q = Some a" "q \<notin> {[], [0], [0, 0], [0, 1]}"
      using q pt by (auto simp: process_table_def simp del: walk.simps split: if_splits)
    then show False using pt_okD(4) [OF tree w _ q(1)] short j l(1) by auto
  qed
  then show ?thesis using pt by (auto simp: exclusive_def process_table_def pages_ok_def)
qed

lemma AllocateVirtualForProcess_evolves:
  fixes v sz :: u64
  assumes ok: "pages_ok r pm" and v: "unat v mod 4096 = 0"
    and n: "n = unat ((sz + kPageSize4K - 1) div kPageSize4K)" "unat v + n * 4096 \<le> 2 ^ 48" and c: "cr3 pm \<noteq> 0"
    and call: "AllocateVirtualForProcess pm r v sz flags = (ok', pm')"
  shows "pages_ok r pm'" "pml4_table pm' = pml4_table pm" "cr3 pm' = cr3 pm"
    "\<exists>pm1 pm2. evolves_in r (page_addr v ` {0..<n}) pm1 pm2 \<and> frames pm1 = frames pm \<and> used pm1 = used pm \<and>
       frames pm2 = frames pm' \<and> used pm2 = used pm'"
    "\<exists>pm2. alloc_virtual_loop flags (pm\<lparr>cr3 := r, pml4_table := r\<rparr>) v n 0 = (ok', pm2) \<and> frames pm2 = frames pm'"
proof -
  have r0: "r \<noteq> 0" using pages_ok_root [OF ok] by simp
  have "unat (v mod kPageSize4K) = 0" using v by (simp add: unat_word_mod kPageSize4K_def)
  then have al: "v mod kPageSize4K = 0" by (simp only: unsigned_eq_0_iff)
  define pm1 where "pm1 = pm\<lparr>cr3 := r, pml4_table := r\<rparr>"
  have ok1: "pages_ok r pm1" using ok by (simp add: pm1_def pages_ok_def mem_ok_def used_def)
  obtain res pm2 where loop: "alloc_virtual_loop flags pm1 v n 0 = (res, pm2)" by fastforce
  note E = alloc_virtual_evolves [OF ok1 _ v n(2) loop]
  have pm1_eq: "(if r \<noteq> cr3 pm then SwitchPageTable pm r else pm)\<lparr>pml4_table := r\<rparr> = pm1"
    using r0 by (simp add: SwitchPageTable_def LoadCR3_def pm1_def)
  have root: "pml4_table (if r \<noteq> cr3 pm then SwitchPageTable pm r else pm) = pml4_table pm"
    by (simp add: SwitchPageTable_def LoadCR3_def)
  have "ok' = res \<and> pm' = (let q = pm2\<lparr>pml4_table := pml4_table pm\<rparr> in if r \<noteq> cr3 pm then SwitchPageTable q (cr3 pm) else q)"
    using call al n(1) loop
    by (simp only: AllocateVirtualForProcess_def Let_def AllocateVirtual_def pm1_eq root split_beta fst_conv snd_conv)
      (auto split: if_splits)
  then have res: "ok' = res" and pm': "frames pm' = frames pm2" "used pm' = used pm2" "pml4_table pm' = pml4_table pm"
      "cr3 pm' = cr3 pm" "mem_ok pm' = mem_ok pm2"
    using E c by (auto simp: SwitchPageTable_def LoadCR3_def used_def mem_ok_def Let_def pm1_def)
  show "\<exists>pm2. alloc_virtual_loop flags (pm\<lparr>cr3 := r, pml4_table := r\<rparr>) v n 0 = (ok', pm2) \<and> frames pm2 = frames pm'"
    using loop pm'(1) res by (auto simp: pm1_def)
  show "pages_ok r pm'" using E pm' by (simp add: pages_ok_def pm1_def)
  show "pml4_table pm' = pml4_table pm" "cr3 pm' = cr3 pm" by fact+
  have "evolves_in r (page_addr v ` {0..<n}) pm1 pm2" using E by (simp add: pm1_def)
  moreover have "frames pm1 = frames pm" "used pm1 = used pm" by (simp_all add: pm1_def used_def)
  ultimately show "\<exists>pm1 pm2. evolves_in r (page_addr v ` {0..<n}) pm1 pm2 \<and> frames pm1 = frames pm \<and> used pm1 = used pm \<and>
       frames pm2 = frames pm' \<and> used pm2 = used pm'"
    using pm' by (intro exI [of _ pm1] exI [of _ pm2]) simp
qed

section \<open>FreeProcessPageTable\<close>

lemma FreeFrame_set:
  assumes "bitmap_wf (mm_bitmap mm)" "unat p div kFrameSize < bm_size (mm_bitmap mm) * 8"
  shows "used_frames (FreeFrame mm p) = used_frames mm - {unat p div kFrameSize} \<and>
    mm_range_end (FreeFrame mm p) = mm_range_end mm \<and>
    bm_size (mm_bitmap (FreeFrame mm p)) = bm_size (mm_bitmap mm) \<and> bitmap_wf (mm_bitmap (FreeFrame mm p))"
  using assms by (auto simp: FreeFrame_def used_frames_def Get_Set)

lemma FreeFrames_set:
  assumes "bitmap_wf (mm_bitmap mm)" "\<And>p. p \<in> set ps \<Longrightarrow> unat p div kFrameSize < bm_size (mm_bitmap mm) * 8"
  shows "used_frames (foldl FreeFrame mm ps) = used_frames mm - (\<lambda>p. unat p div kFrameSize) ` set ps \<and>
    mm_range_end (foldl FreeFrame mm ps) = mm_range_end mm \<and>
    bm_size (mm_bitmap (foldl FreeFrame mm ps)) = bm_size (mm_bitmap mm) \<and>
    bitmap_wf (mm_bitmap (foldl FreeFrame mm ps))"
  using assms
proof (induction ps arbitrary: mm)
  case (Cons p ps)
  then show ?case using FreeFrame_set [of mm p] Cons.IH [of "FreeFrame mm p"] by auto
qed simp

lemma FreeProcessPageTable_unfold:
  assumes r: "r \<noteq> pml4_table pm" "r \<noteq> 0" and pd: "p0 \<noteq> d"
    and w: "walk (frames pm) r [0] = Some d" "walk (frames pm) r [0, 0] = Some p0" "walk (frames pm) r [0, 1] = Some p1"
  shows "pg_mm (FreeProcessPageTable pm r) = foldl FreeFrame (pg_mm pm) [p0, p1, d, r]"
proof -
  have d: "pte_present (frames pm r 0)" "GetAddress (frames pm r 0) = d"
    and p0: "pte_present (frames pm d 0)" "GetAddress (frames pm d 0) = p0"
    and p1: "pte_present (frames pm d 1)" "GetAddress (frames pm d 1) = p1"
    using w by (auto simp: bind_eq_Some_conv dest!: next_present)
  show ?thesis
    using r d p0 p1 by (simp add: FreeProcessPageTable_def Let_def free_pd_def set_entry_def)
qed

lemma process_table_freed:
  assumes ok: "pages_ok k pm" and k: "k = pml4_table pm" and pt: "process_table k pm r d p0 p1 pm'"
  shows "pg_mm (FreeProcessPageTable pm' r) = pg_mm pm"
proof -
  let ?f = "\<lambda>a :: u64. unat a div kFrameSize"
  have w: "walk (frames pm') r [0] = Some d" "walk (frames pm') r [0, 0] = Some p0" "walk (frames pm') r [0, 1] = Some p1"
    using pt by (simp_all add: process_table_def del: walk.simps)
  have ok': "pages_ok r pm'" "mem_ok pm'" using pt by (simp_all add: process_table_def pages_ok_def)
  have "k \<in> used pm" "r \<notin> used pm" using pages_ok_root [OF ok] pt by (auto simp: process_table_def)
  then have rk: "r \<noteq> pml4_table pm'" "r \<noteq> 0" "p0 \<noteq> d"
    using pages_ok_root [OF ok'(1)] pt k by (auto simp: process_table_def)
  obtain mm1 mm2 mm3 where took: "took (pg_mm pm) r mm1" "took mm1 d mm2" "took mm2 p0 mm3" "took mm3 p1 (pg_mm pm')"
    using pt by (auto simp: process_table_def)
  then have uf: "used_frames (pg_mm pm') = used_frames (pg_mm pm) \<union> {?f r, ?f d, ?f p0, ?f p1}"
    and size: "mm_range_end (pg_mm pm') = mm_range_end (pg_mm pm)"
      "bm_size (mm_bitmap (pg_mm pm')) = bm_size (mm_bitmap (pg_mm pm))"
    by (auto simp: took_def)
  have inv: "mm_inv (pg_mm pm)" "mm_inv (pg_mm pm')" using ok ok'(2) by (simp_all add: pages_ok_def mem_ok_def)
  have new: "{?f r, ?f d, ?f p0, ?f p1} \<inter> used_frames (pg_mm pm) = {}"
    using pt by (auto simp: process_table_def used_def)
  have bound: "j < bm_size (mm_bitmap (pg_mm pm')) * 8" if "j \<in> {?f r, ?f d, ?f p0, ?f p1}" for j
    using that new Get_beyond [of "mm_bitmap (pg_mm pm)" j] size by (fastforce simp: used_frames_def not_less)
  have wf: "bitmap_wf (mm_bitmap (pg_mm pm'))" using inv by (simp add: mm_inv_def)
  let ?m = "foldl FreeFrame (pg_mm pm') [p0, p1, d, r]"
  have F: "used_frames ?m = used_frames (pg_mm pm') - ?f ` set [p0, p1, d, r]" "mm_range_end ?m = mm_range_end (pg_mm pm')"
    "bm_size (mm_bitmap ?m) = bm_size (mm_bitmap (pg_mm pm'))" "bitmap_wf (mm_bitmap ?m)"
    using FreeFrames_set [OF wf, of "[p0, p1, d, r]"] bound by (auto simp del: foldl.simps)
  have uf: "used_frames ?m = used_frames (pg_mm pm)"
    using new unfolding F(1) uf by auto
  moreover have "mm_bitmap ?m = mm_bitmap (pg_mm pm)"
    using inv(1) F size uf
    by (intro bitmap_eqI) (auto simp: mm_inv_def used_frames_def set_eq_iff)
  ultimately have "?m = pg_mm pm" using F(2) size by (cases ?m, cases "pg_mm pm") (simp del: foldl.simps)
  then show ?thesis using FreeProcessPageTable_unfold [OF rk w] by simp
qed

text \<open>Creation and filling of a process table together.\<close>

lemma process_isolation_lemma:
  fixes v sz :: u64
  assumes "pages_ok (pml4_table pm) pm" and "4 \<le> free_count pm" and "cr3 pm \<noteq> 0"
    and "walk (frames pm) (pml4_table pm) [0] = Some t3" and "walk (frames pm) (pml4_table pm) [0, 0] = Some t20"
    and "walk (frames pm) (pml4_table pm) [0, 1] = Some t21"
    and "\<And>x. x \<in> low_half \<Longrightarrow> walk (frames pm) (pml4_table pm) (path x) = None"
    and "CreateProcessPageTable pm = (r, pm1)" and "unat v mod 4096 = 0"
    and "n = unat ((sz + kPageSize4K - 1) div kPageSize4K)" and "unat v + n * 4096 \<le> 2 ^ 31"
    and "AllocateVirtualForProcess pm1 r v sz flags = (ok, pm2)"
  shows "(\<forall>w. translate (frames pm2) (pml4_table pm) w = translate (frames pm) (pml4_table pm) w) \<and>
    pages_ok r pm2 \<and> pml4_table pm2 = pml4_table pm \<and> cr3 pm2 = cr3 pm"
proof -
  let ?k = "pml4_table pm"
  obtain d p0 p1 where pt: "process_table ?k pm r d p0 p1 pm1"
    using CreateProcessPageTable_result [OF assms(1,2,4-6,8)] by blast
  then have ok1: "pages_ok r pm1" "cr3 pm1 \<noteq> 0" "pml4_table pm1 = ?k" "cr3 pm1 = cr3 pm"
    using assms(3) by (simp_all add: process_table_def)
  note X = process_table_exclusive [OF assms(1) pt assms(7)]
  have "unat v + n * 4096 \<le> 2 ^ 48" using assms(11) by simp
  note A = AllocateVirtualForProcess_evolves [OF ok1(1) assms(9,10) this ok1(2) assms(12)]
  obtain pm3 pm4 where ev: "evolves_in r (page_addr v ` {0..<n}) pm3 pm4" "frames pm3 = frames pm1"
    "used pm3 = used pm1" "frames pm4 = frames pm2" using A(4) by blast
  note low = page_addrs_low [OF assms(11)]
  have "exclusive r ?k low_half pm3" using X(1) ev(2,3) by (simp add: exclusive_def)
  then have "translate (frames pm4) ?k w = translate (frames pm3) ?k w" for w
    using evolves_in_exclusive [OF ev(1) low] by blast
  then show ?thesis using X(2) ev A(1-3) ok1 by simp
qed

section \<open>Properties\<close>

text \<open>A sample kernel: root in frame 1, its tables in frames 2, 3 and 12, frames 4 to 11 free.\<close>

definition sample_tables :: ptmem where
  "sample_tables = (\<lambda>_ _. 0)(0x1000 := (\<lambda>_. 0)(0 := 0x2003), 0x2000 := (\<lambda>_. 0)(0 := 0x3003, 1 := 0xC003))"

definition sample_kernel :: PageManager where
  "sample_kernel = \<lparr>pml4_table = 0x1000, cr3 = 0x1000, frames = sample_tables, pg_mm = sample_mm, invlpg = []\<rparr>"

lemma sample_next:
  "next_table sample_tables t i =
     (if t = 0x1000 \<and> i = 0 then Some 0x2000
      else if t = 0x2000 \<and> i = 0 then Some 0x3000 else if t = 0x2000 \<and> i = 1 then Some 0xC000 else None)"
  by (simp add: next_table_def sample_tables_def pte_present_def pte_huge_def GetAddress_def mask40 bit_simps
      take_bit_eq_mask [symmetric] flip: take_bit_eq_mask)

lemma sample_walk:
  "walk sample_tables 0x1000 q =
     (if q = [] then Some 0x1000 else if q = [0] then Some 0x2000 else if q = [0, 0] then Some 0x3000
      else if q = [0, 1] then Some 0xC000 else None)"
proof (induction q rule: rev_induct)
  case (snoc j q)
  then show ?case by (auto simp: walk_append sample_next simp del: walk.simps(2) split: Option.bind_splits) (simp_all add: sample_next)
qed simp

lemma sample_kernel_root: "pml4_table sample_kernel = 0x1000" "frames sample_kernel = sample_tables"
  "cr3 sample_kernel = 0x1000"
  by (simp_all add: sample_kernel_def)

lemma sample_tables_ok:
  assumes "{0x1000, 0x2000, 0x3000, 0xC000} \<subseteq> U"
  shows "pt_ok sample_tables 0x1000 U"
proof (rule pt_okI)
  have "GetAddress (0x1000 :: u64) = 0x1000" "GetAddress (0x2000 :: u64) = 0x2000"
    "GetAddress (0x3000 :: u64) = 0x3000" "GetAddress (0xC000 :: u64) = 0xC000"
    by (rule GetAddress_aligned; simp)+
  then show "a \<in> U \<and> a \<noteq> 0 \<and> GetAddress a = a"
    if "length q \<le> 3" "walk sample_tables 0x1000 q = Some a" for q a
    using that assms by (auto simp: sample_walk split: if_splits)
  show "q = q'" if "length q \<le> 3" "length q' \<le> 3" "walk sample_tables 0x1000 q = Some a"
    "walk sample_tables 0x1000 q' = Some a" for q q' a
    using that by (auto simp: sample_walk split: if_splits)
  have "\<not> pte_huge (sample_tables a j)" for a j
    by (simp add: sample_tables_def pte_huge_def)
  then show "good_entry (length q) (sample_tables a j)"
    if "length q \<le> 2" "walk sample_tables 0x1000 q = Some a" for q a j
    by (simp add: good_entry_def)
qed

lemma sample_kernel_ok: "pages_ok 0x1000 sample_kernel"
proof -
  have "mem_ok sample_kernel"
    using sample_pm_ok by (simp add: pages_ok_def mem_ok_def sample_pm_def sample_kernel_def)
  moreover have "pt_ok sample_tables 0x1000 (used sample_kernel)"
    by (rule sample_tables_ok) (simp add: used_def sample_kernel_def sample_used kFrameSize_def)
  ultimately show ?thesis by (simp add: pages_ok_def sample_kernel_root)
qed

lemma sample_kernel_free: "free_count sample_kernel = 8"
  using sample_pm_free by (simp add: free_count_def sample_pm_def sample_kernel_def)

text \<open>
  a new process starts with the kernel's view of memory and with tables of its own for
  the first 2 GB. \<open>CreateProcessPageTable\<close>, with four free frames, returns a root under which
  every address translates as under the kernel's root, while the kernel's own tables and
  translations are untouched; \<open>FreeProcessPageTable\<close> on that root restores the frame allocator
  to the identical state before the creation.
\<close>

theorem process_table_roundtrip:
  assumes "pages_ok (pml4_table pm) pm" and "4 \<le> free_count pm"
    and "walk (frames pm) (pml4_table pm) [0] = Some t3" and "walk (frames pm) (pml4_table pm) [0, 0] = Some t20"
    and "walk (frames pm) (pml4_table pm) [0, 1] = Some t21" and "CreateProcessPageTable pm = (r, pm')"
  shows "r \<noteq> 0 \<and> (\<forall>w. translate (frames pm') r w = translate (frames pm) (pml4_table pm) w \<and>
      translate (frames pm') (pml4_table pm) w = translate (frames pm) (pml4_table pm) w) \<and>
    pg_mm (FreeProcessPageTable pm' r) = pg_mm pm"
proof -
  let ?k = "pml4_table pm"
  obtain d p0 p1 where c: "r \<noteq> 0" "process_table ?k pm r d p0 p1 pm'"
    using CreateProcessPageTable_result [OF assms] by blast
  have tree: "pt_ok (frames pm) ?k (used pm)" using assms(1) by (simp add: pages_ok_def)
  have same: "frames pm' a = frames pm a" if "a \<in> reach (frames pm) ?k" for a
    using that reach_used [OF tree] c(2) by (auto simp: process_table_def)
  have "used pm \<subseteq> used pm'" using c(2) by (simp add: process_table_def)
  then have "translate (frames pm') ?k w = translate (frames pm) ?k w" for w
    using reach_agree(3) [OF tree same] by blast
  then show ?thesis
    using c process_table_freed [OF assms(1) refl c(2)] by (simp add: process_table_def)
qed

theorem process_table_roundtrip_witness:
  "pg_mm (FreeProcessPageTable (snd (CreateProcessPageTable sample_kernel)) (fst (CreateProcessPageTable sample_kernel))) =
     pg_mm sample_kernel"
proof -
  obtain r pm' where c: "CreateProcessPageTable sample_kernel = (r, pm')" by fastforce
  show ?thesis
    using process_table_roundtrip [of sample_kernel "0x2000" "0x3000" "0xC000" r pm'] c sample_kernel_ok sample_kernel_free
    by (simp add: sample_kernel_root sample_walk del: walk.simps)
qed

text \<open>
  C14: memory given to a process never shows up in the kernel's address space. While the
  kernel itself maps the first 2 GB with 2 MB pages only, creating a process table and then
  calling \<open>AllocateVirtualForProcess\<close> for any range below 2 GB, whether it succeeds or runs
  out of memory half way, leaves every translation under the kernel's root as it was and
  restores the current root and CR3.
\<close>

theorem process_isolation:
  fixes v sz :: u64
  assumes "pages_ok (pml4_table pm) pm" and "4 \<le> free_count pm" and "cr3 pm \<noteq> 0"
    and "walk (frames pm) (pml4_table pm) [0] = Some t3" and "walk (frames pm) (pml4_table pm) [0, 0] = Some t20"
    and "walk (frames pm) (pml4_table pm) [0, 1] = Some t21"
    and "\<And>x. x \<in> low_half \<Longrightarrow> walk (frames pm) (pml4_table pm) (path x) = None"
    and "CreateProcessPageTable pm = (r, pm1)" and "unat v mod 4096 = 0"
    and "n = unat ((sz + kPageSize4K - 1) div kPageSize4K)" and "unat v + n * 4096 \<le> 2 ^ 31"
    and "AllocateVirtualForProcess pm1 r v sz flags = (ok, pm2)"
  shows "(\<forall>w. translate (frames pm2) (pml4_table pm) w = translate (frames pm) (pml4_table pm) w) \<and>
    pages_ok r pm2 \<and> pml4_table pm2 = pml4_table pm \<and> cr3 pm2 = cr3 pm"
  by (rule process_isolation_lemma [OF assms])

theorem process_isolation_witness:
  "\<forall>w. translate (frames (snd (AllocateVirtualForProcess (snd (CreateProcessPageTable sample_kernel))
       (fst (CreateProcessPageTable sample_kernel)) 0x400000 0x10000 7))) 0x1000 w = translate sample_tables 0x1000 w"
proof -
  obtain r pm1 where c: "CreateProcessPageTable sample_kernel = (r, pm1)" by fastforce
  obtain ok pm2 where a: "AllocateVirtualForProcess pm1 r 0x400000 0x10000 7 = (ok, pm2)" by fastforce
  have none: "walk sample_tables 0x1000 (path x) = None" for x
    by (simp add: sample_walk path_def del: walk.simps)
  have "\<forall>w. translate (frames pm2) 0x1000 w = translate sample_tables 0x1000 w"
    by (rule conjunct1 [OF process_isolation [of sample_kernel "0x2000" "0x3000" "0xC000" r pm1 "0x400000" 16 "0x10000" 7 ok pm2,
          unfolded sample_kernel_root, OF sample_kernel_ok _ _ _ _ _ none c _ _ _ a]])
      (simp_all add: sample_kernel_free sample_walk kPageSize4K_def del: walk.simps)
  then show ?thesis using c a by simp
qed

end
