(* ===== verification/PageInit.thy ===== *)
theory PageInit
  imports PageProc
begin

text \<open>
  \<open>PageManager::Initialize\<close>: the tables it builds are a well-formed tree with 64 page
  directories of 2 MB pages, under which the first 64 GB translate to themselves.
\<close>

section \<open>Entries of the identity mapping\<close>

lemma less_2_pow_bits: "(x :: nat) < 2 ^ k \<longleftrightarrow> (\<forall>n\<ge>k. \<not> bit x n)"
proof -
  have "x < 2 ^ k \<longleftrightarrow> take_bit k x = x" by (simp add: take_bit_nat_eq_self_iff)
  also have "\<dots> \<longleftrightarrow> (\<forall>n\<ge>k. \<not> bit x n)"
  proof
    assume eq: "take_bit k x = x"
    have "bit x n = (n < k \<and> bit x n)" for n by (subst (1) eq [symmetric]) (rule bit_take_bit_iff)
    then show "\<forall>n\<ge>k. \<not> bit x n" by (meson not_less)
  next
    assume high: "\<forall>n\<ge>k. \<not> bit x n"
    show "take_bit k x = x"
      by (rule bit_eqI) (use high in \<open>auto simp: bit_take_bit_iff not_less [symmetric]\<close>)
  qed
  finally show ?thesis .
qed

lemma split_high_bits:
  assumes "\<And>n. P n \<Longrightarrow> n < (48 :: nat)"
  shows "(\<forall>n\<ge>36. \<not> P n) \<longleftrightarrow> (\<forall>m<9. \<not> P (39 + m)) \<and> (\<forall>m. 6 \<le> m \<and> m < 9 \<longrightarrow> \<not> P (30 + m))"
proof (intro iffI conjI allI impI)
  fix n :: nat
  assume P: "(\<forall>m<9. \<not> P (39 + m)) \<and> (\<forall>m. 6 \<le> m \<and> m < 9 \<longrightarrow> \<not> P (30 + m))" and n: "36 \<le> n"
  show "\<not> P n"
  proof
    assume "P n"
    then have "n < 48" by (rule assms)
    then consider "n - 39 < 9" "39 \<le> n" | "6 \<le> n - 30" "n - 30 < 9" using n by linarith
    then show False
    proof cases
      case 1
      then have "\<not> P (39 + (n - 39))" using P by blast
      then show False using 1(2) \<open>P n\<close> by simp
    next
      case 2
      then have "\<not> P (30 + (n - 30))" using P by blast
      then show False using n \<open>P n\<close> by simp
    qed
  qed
qed auto

lemma bit_huge_base:
  fixes i :: u9
  assumes "k < 64"
  shows "bit (of_nat k * 1024 * 1024 * 1024 + of_nat (unat i) * 2 * 1024 * 1024 :: u64) n \<longleftrightarrow>
    (if n < 30 then 21 \<le> n \<and> bit i (n - 21) else n < 36 \<and> bit k (n - 30))"
proof -
  have hi: "(of_nat k * 1024 * 1024 * 1024 :: u64) = push_bit 30 (of_nat k)"
    and lo: "(of_nat (unat i) * 2 * 1024 * 1024 :: u64) = push_bit 21 (ucast i)"
    by (simp_all add: push_bit_eq_mult)
  have k: "n < 6" if "bit k n" for n
  proof -
    have "take_bit 6 k = k" using assms by (simp add: take_bit_nat_eq_self)
    then show ?thesis using that by (metis bit_take_bit_iff)
  qed
  have bk: "bit (of_nat k :: u64) n \<longleftrightarrow> bit k n" for n
    using k [of n] by (auto simp: bit_of_nat_iff)
  have hb: "bit (push_bit 30 (of_nat k) :: u64) n \<longleftrightarrow> 30 \<le> n \<and> n < 36 \<and> bit k (n - 30)" for n
    using k [of "n - 30"] by (auto simp: bit_push_bit_iff bk)
  have lb: "bit (push_bit 21 (ucast i) :: u64) n \<longleftrightarrow> 21 \<le> n \<and> n < 30 \<and> bit i (n - 21)" for n
    by (auto simp: bit_simps dest: bit_imp_le_length)
  have "(push_bit 30 (of_nat k) :: u64) AND push_bit 21 (ucast i) = 0"
    by (rule bit_word_eqI) (simp add: bit_and_iff hb lb)
  then have "push_bit 30 (of_nat k) + push_bit 21 (ucast i) = (push_bit 30 (of_nat k) OR push_bit 21 (ucast i) :: u64)"
    by (simp add: disjunctive_add_eq_or)
  then show ?thesis
    unfolding hi lo by (auto simp: bit_or_iff hb lb)
qed

lemma huge_entry_fields:
  "pte_present (huge_entry k i e)" "pte_huge (huge_entry k i e)"
  by (simp_all add: huge_entry_def pte_simps)

lemma bit_huge_address:
  "k < 64 \<Longrightarrow> bit (GetAddress (huge_entry k i e)) n \<longleftrightarrow>
    (if n < 30 then 21 \<le> n \<and> bit i (n - 21) else n < 36 \<and> bit k (n - 30))"
  unfolding huge_entry_def pte_simps bit_GetAddress by (simp only: bit_huge_base) auto

lemma huge_entry_aligned: "k < 64 \<Longrightarrow> take_bit 21 (GetAddress (huge_entry k i e)) = 0"
  by (rule bit_word_eqI) (simp add: bit_take_bit_iff bit_huge_address)

lemma table_entry_fields:
  "pte_present (table_entry t e)" "pte_huge (table_entry t e) = pte_huge e" "GetAddress (table_entry t e) = GetAddress t"
  by (simp_all add: table_entry_def pte_simps)

lemma bit_pd_idx: "bit (pd_idx w) m \<longleftrightarrow> m < 9 \<and> bit w (21 + m)"
  by (simp add: pd_idx_def bit_index)

lemma bit_pml4_idx: "bit (pml4_idx w) m \<longleftrightarrow> m < 9 \<and> bit w (39 + m)"
  by (simp add: pml4_idx_def bit_index)

lemma bit_pdp_idx: "bit (pdp_idx w) m \<longleftrightarrow> m < 9 \<and> bit w (30 + m)"
  by (simp add: pdp_idx_def bit_index)

lemma bit_unat_pdp_idx: "bit (unat (pdp_idx w)) m \<longleftrightarrow> m < 9 \<and> bit w (30 + m)"
  by (simp add: bit_unsigned_iff bit_pdp_idx)

lemma identity_entry:
  assumes "unat w < 2 ^ 36"
  shows "(GetAddress (huge_entry (unat (pdp_idx w)) (pd_idx w) e) AND NOT (mask 21)) OR take_bit 21 w = w"
proof (rule bit_word_eqI)
  fix n assume "n < LENGTH(64)"
  have high: "n < 36" if "bit w n" for n using small_bits [OF assms that] .
  have "unat (pdp_idx w) < 64"
  proof -
    have "take_bit 6 (unat (pdp_idx w)) = unat (pdp_idx w)"
      by (rule bit_eqI) (auto simp: bit_take_bit_iff bit_unat_pdp_idx dest: high)
    then show ?thesis using take_bit_nat_less_exp [of 6 "unat (pdp_idx w)"] by simp
  qed
  then show "bit ((GetAddress (huge_entry (unat (pdp_idx w)) (pd_idx w) e) AND NOT (mask 21)) OR take_bit 21 w) n = bit w n"
    using \<open>n < LENGTH(64)\<close> high [of n]
    by (auto simp: bit_simps bit_huge_address bit_pd_idx bit_pdp_idx)
qed

section \<open>The loop over the page directories\<close>

definition init_inv :: "u64 \<Rightarrow> u64 \<Rightarrow> nat \<Rightarrow> (nat \<Rightarrow> u64) \<Rightarrow> PageManager \<Rightarrow> bool" where
  "init_inv r d n f pm \<longleftrightarrow> mem_ok pm \<and> pml4_table pm = r \<and> r \<in> used pm \<and> d \<in> used pm \<and> r \<noteq> d \<and>
     frames pm r = (\<lambda>_. 0)(0 := table_entry d 0) \<and> inj_on f {..<n} \<and>
     (\<forall>k<n. f k \<in> used pm \<and> f k \<noteq> 0 \<and> GetAddress (f k) = f k \<and> f k \<noteq> r \<and> f k \<noteq> d \<and>
        frames pm (f k) = (\<lambda>i. huge_entry k i 0)) \<and>
     frames pm d = (\<lambda>j. if unat j < n then table_entry (f (unat j)) 0 else 0)"

lemma init_pd_step:
  assumes inv: "init_inv r d n f pm" and n: "n < 64" and free: "0 < free_count pm"
  shows "\<exists>a. init_inv r d (Suc n) (f(n := a)) (init_pd d n pm) \<and> free_count pm = Suc (free_count (init_pd d n pm))"
proof -
  have "mem_ok pm" using inv by (simp add: init_inv_def)
  then show ?thesis
  proof (cases rule: AllocateTable_cases)
    case null
    then show ?thesis using free by simp
  next
    case (new a pm1)
    have a: "a \<notin> used pm" "a \<noteq> 0" "GetAddress a = a" "a \<in> used pm1" "used pm \<subseteq> used pm1" "mem_ok pm1"
      "free_count pm = Suc (free_count pm1)" using new(3) by (auto simp: fresh_frame_def)
    have ad: "d \<noteq> a" "r \<noteq> a" "\<And>k. k < n \<Longrightarrow> f k \<noteq> a" "r \<noteq> d" using inv a(1) by (auto simp: init_inv_def)
    have un: "unat (of_nat n :: u9) = n" using n by (intro of_nat_inverse) simp_all
    have dn: "frames pm d (of_nat n) = 0" using inv un by (simp add: init_inv_def)
    let ?pm = "init_pd d n pm"
    have fr: "frames ?pm = (frames pm)(a := (\<lambda>i. huge_entry n i 0), d := (frames pm d)(of_nat n := table_entry a 0))"
      using new ad dn by (auto simp: init_pd_def set_entry_def fun_eq_iff)
    have same: "used ?pm = used pm1" "mem_ok ?pm" "free_count ?pm = free_count pm1" "pml4_table ?pm = pml4_table pm"
      using new a(6) by (simp_all add: init_pd_def set_entry_def used_def mem_ok_def free_count_def)
    have "j = of_nat n \<longleftrightarrow> unat j = n" for j :: u9 using un by (metis word_unat_eq_iff)
    then have fd: "frames ?pm d = (\<lambda>j. if unat j < Suc n then table_entry ((f(n := a)) (unat j)) 0 else 0)"
      using inv ad unfolding fr by (auto simp: init_inv_def fun_eq_iff less_Suc_eq)
    have "init_inv r d (Suc n) (f(n := a)) ?pm"
      unfolding init_inv_def
    proof (intro conjI allI impI)
      show "inj_on (f(n := a)) {..<Suc n}"
      proof -
        have "inj_on f {..<n}" "\<forall>k<n. f k \<noteq> a" using inv ad(3) by (auto simp: init_inv_def)
        then show ?thesis by (auto simp: inj_on_def less_Suc_eq)
      qed
      fix k assume "k < Suc n"
      then consider "k = n" | "k < n" by linarith
      then show "(f(n := a)) k \<in> used ?pm" "(f(n := a)) k \<noteq> 0" "GetAddress ((f(n := a)) k) = (f(n := a)) k"
        "(f(n := a)) k \<noteq> r" "(f(n := a)) k \<noteq> d" "frames ?pm ((f(n := a)) k) = (\<lambda>i. huge_entry k i 0)"
        using inv a ad unfolding same(1) fr by (cases; auto simp: init_inv_def)+
    qed (use inv a ad same fd in \<open>auto simp: init_inv_def fr\<close>)
    then show ?thesis using a(7) same(3) by (intro exI [of _ a]) simp
  qed
qed

lemma init_loop:
  assumes "init_inv r d 0 f pm" "n \<le> 64" "n \<le> free_count pm"
  shows "\<exists>f. init_inv r d n f (fold (init_pd d) [0..<n] pm) \<and>
    free_count pm = n + free_count (fold (init_pd d) [0..<n] pm)"
  using assms(2,3)
proof (induction n)
  case 0
  then show ?case using assms(1) by auto
next
  case (Suc n)
  then obtain g where g: "init_inv r d n g (fold (init_pd d) [0..<n] pm)"
    "free_count pm = n + free_count (fold (init_pd d) [0..<n] pm)" by auto
  then show ?case
    using init_pd_step [OF g(1)] Suc.prems by fastforce
qed

text \<open>The finished tables.\<close>

lemma init_inv_tables:
  assumes inv: "init_inv r d 64 f pm" and d: "d \<noteq> 0" "GetAddress d = d" and r: "r \<noteq> 0" "GetAddress r = r"
  shows "walk (frames pm) r q = (if q = [] then Some r else if q = [0] then Some d
      else if length q = 2 \<and> hd q = 0 \<and> unat (q ! 1) < 64 then Some (f (unat (q ! 1))) else None)"
    and "pages_ok r pm"
proof -
  have nr: "next_table (frames pm) r i = (if i = 0 then Some d else None)" for i
    using inv d by (simp add: next_table_def init_inv_def table_entry_fields pte_simps)
  have nd: "next_table (frames pm) d j = (if unat j < 64 then Some (f (unat j)) else None)" for j
    using inv by (simp add: next_table_def init_inv_def table_entry_fields pte_simps)
  have nf: "next_table (frames pm) (f k) j = None" if "k < 64" for k j
    using inv that by (simp add: next_table_def init_inv_def huge_entry_fields)
  show w: "walk (frames pm) r q = (if q = [] then Some r else if q = [0] then Some d
      else if length q = 2 \<and> hd q = 0 \<and> unat (q ! 1) < 64 then Some (f (unat (q ! 1))) else None)" for q
  proof (cases "length q \<le> 2")
    case True
    then consider "q = []" | i where "q = [i]" | i j where "q = [i, j]"
      by (cases q rule: list.exhaust; cases "tl q" rule: list.exhaust; auto)
    then show ?thesis by cases (auto simp: nr nd)
  next
    case False
    then obtain i j l q' where "q = i # j # l # q'" by (metis Suc_le_length_iff not_less_eq_eq numeral_2_eq_2)
    then show ?thesis by (auto simp: nr nd nf)
  qed
  have "pt_ok (frames pm) r (used pm)"
  proof (rule pt_okI)
    show "a \<in> used pm \<and> a \<noteq> 0 \<and> GetAddress a = a" if "length q \<le> 3" "walk (frames pm) r q = Some a" for q a
      using that inv r d unfolding w by (auto simp: init_inv_def split: if_splits)
    show "q = q'" if "length q \<le> 3" "length q' \<le> 3" "walk (frames pm) r q = Some a" "walk (frames pm) r q' = Some a"
      for q q' a
    proof -
      have shape: "p = [] \<and> a = r \<or> p = [0] \<and> a = d \<or> (\<exists>j. p = [0, j] \<and> unat j < 64 \<and> a = f (unat j))"
        if "walk (frames pm) r p = Some a" for p
        using that unfolding w by (auto split: if_splits simp: length_Suc_conv numeral_2_eq_2)
      have "\<forall>k<64. f k \<noteq> r \<and> f k \<noteq> d" "inj_on f {..<64}" "r \<noteq> d" using inv by (simp_all add: init_inv_def)
      then show ?thesis
        using shape [OF that(3)] shape [OF that(4)] by (auto simp: inj_on_def word_unat_eq_iff)
    qed
    show "good_entry (length q) (frames pm a j)" if "length q \<le> 2" "walk (frames pm) r q = Some a" for q a j
      using that inv unfolding w
      by (auto simp: init_inv_def good_entry_def table_entry_fields huge_entry_fields huge_entry_aligned pte_simps split: if_splits)
  qed
  then show "pages_ok r pm" using inv by (simp add: pages_ok_def init_inv_def)
qed

lemma init_inv_translate:
  assumes inv: "init_inv r d 64 f pm" and d: "d \<noteq> 0" "GetAddress d = d" and r: "r \<noteq> 0" "GetAddress r = r"
    and w: "unat w < 2 ^ 48"
  shows "translate (frames pm) r w = (if unat w < 2 ^ 36 then Some w else None)"
proof -
  note T = init_inv_tables [OF inv d r]
  have tree: "pt_ok (frames pm) r (used pm)" using T(2) by (simp add: pages_ok_def)
  have "pml4_idx w = 0 \<and> unat (pdp_idx w) < 64 \<longleftrightarrow> unat w < 2 ^ 36"
  proof -
    have hi: "bit w n \<Longrightarrow> n < 48" for n using small_bits [OF w] .
    have "pml4_idx w = 0 \<longleftrightarrow> (\<forall>m<9. \<not> bit w (39 + m))"
    proof
      assume z: "pml4_idx w = 0"
      show "\<forall>m<9. \<not> bit w (39 + m)"
        using arg_cong [OF z, of bit] by (simp add: fun_eq_iff bit_pml4_idx)
    qed (auto intro!: bit_word_eqI simp: bit_pml4_idx)
    moreover have "unat (pdp_idx w) < 64 \<longleftrightarrow> (\<forall>m. 6 \<le> m \<and> m < 9 \<longrightarrow> \<not> bit w (30 + m))"
      using less_2_pow_bits [of "unat (pdp_idx w)" 6] by (auto simp: bit_unat_pdp_idx)
    moreover have "unat w < 2 ^ 36 \<longleftrightarrow> (\<forall>n\<ge>36. \<not> bit w n)"
      using less_2_pow_bits [of "unat w" 36] by (simp add: bit_unsigned_iff)
    moreover have "(\<forall>n\<ge>36. \<not> bit w n) \<longleftrightarrow> (\<forall>m<9. \<not> bit w (39 + m)) \<and> (\<forall>m. 6 \<le> m \<and> m < 9 \<longrightarrow> \<not> bit w (30 + m))"
      using split_high_bits hi by blast
    ultimately show ?thesis by blast
  qed
  moreover have "walk (frames pm) r (take 2 (path w)) =
      (if pml4_idx w = 0 \<and> unat (pdp_idx w) < 64 then Some (f (unat (pdp_idx w))) else None)"
    unfolding T(1) by (simp add: take_path)
  moreover have "pd_translate (frames pm) (f (unat (pdp_idx w))) w = Some w" if "unat (pdp_idx w) < 64" "unat w < 2 ^ 36"
    using inv that identity_entry [OF that(2)] by (simp add: pd_translate_def init_inv_def huge_entry_fields Let_def)
  ultimately show ?thesis by (auto simp: translate_walk [OF tree])
qed

lemma Initialize_pages_spec:
  assumes mem: "mem_ok pm" and free: "66 \<le> free_count pm"
  obtains pm' r d f where "Initialize_pages pm = Some pm'" "init_inv r d 64 f pm'" "d \<noteq> 0" "GetAddress d = d"
    "r \<noteq> 0" "GetAddress r = r" "cr3 pm' = r" "free_count pm = 66 + free_count pm'"
  using mem
proof (cases rule: AllocateTable_cases)
  case null
  then show ?thesis using free by simp
next
  case (new r pm0)
  define pm1 where "pm1 = pm0\<lparr>pml4_table := r\<rparr>"
  have r: "r \<noteq> 0" "GetAddress r = r" "r \<in> used pm1" "mem_ok pm1" "free_count pm = Suc (free_count pm1)"
    using new(3) by (auto simp: fresh_frame_def pm1_def used_def mem_ok_def free_count_def)
  from r(4) show ?thesis
  proof (cases rule: AllocateTable_cases)
    case null
    then show ?thesis using free r(5) by simp
  next
    case newd: (new d pm2)
    have d: "d \<noteq> 0" "GetAddress d = d" "d \<in> used pm2" "mem_ok pm2" "free_count pm1 = Suc (free_count pm2)"
      "used pm1 \<subseteq> used pm2" "d \<notin> used pm1"
      using newd(3) by (auto simp: fresh_frame_def)
    have rd: "r \<noteq> d" using r(3) d(7) by blast
    define pm3 where "pm3 = set_entry pm2 r 0 (table_entry d (frames pm2 r 0))"
    have "frames pm2 r = (\<lambda>_. 0)" using newd(4) new(4) rd by (simp add: pm1_def)
    then have "init_inv r d 0 (\<lambda>_. 0) pm3"
      using rd r(3) d(3,4,6) newd(4,5)
      by (auto simp: init_inv_def pm3_def pm1_def set_entry_def used_def mem_ok_def fun_eq_iff)
    moreover have fc3: "free_count pm3 = free_count pm2" by (simp add: pm3_def set_entry_def free_count_def)
    ultimately obtain f where f: "init_inv r d 64 f (fold (init_pd d) [0..<64] pm3)"
      "free_count pm3 = 64 + free_count (fold (init_pd d) [0..<64] pm3)"
      using init_loop [of r d "\<lambda>_. 0" pm3 64] free r(5) d(5) by auto
    define pm4 where "pm4 = fold (init_pd d) [0..<64] pm3"
    have init: "Initialize_pages pm = Some (LoadCR3 pm4 r)"
      using r(1)
      by (simp only: Initialize_pages_def Let_def new(1) prod.case pm1_def [symmetric] newd(1) pm3_def [symmetric]
          pm4_def [symmetric] if_False)
    have "init_inv r d 64 f (LoadCR3 pm4 r)"
      using f(1) by (simp add: init_inv_def LoadCR3_def pm4_def [symmetric] mem_ok_def used_def)
    moreover have "free_count pm = 66 + free_count (LoadCR3 pm4 r)"
      using f(2) fc3 r(5) d(5) by (simp add: LoadCR3_def pm4_def [symmetric] free_count_def)
    ultimately show ?thesis
      using that [OF init _ d(1,2) r(1,2)] by (simp add: LoadCR3_def)
  qed
qed

text \<open>
  C23: \<open>PageManager::Initialize\<close>. With 66 free frames it returns with CR3 on a well-formed
  tree of tables under which every address below 64 GB translates to itself and no other
  address is mapped, using exactly those 66 frames; below 2 GB all pages are 2 MB pages, as
  the isolation of processes requires.
\<close>

theorem Initialize_identity:
  assumes "mem_ok pm" and "66 \<le> free_count pm"
  shows "\<exists>pm'. Initialize_pages pm = Some pm' \<and> pages_ok (pml4_table pm') pm' \<and> cr3 pm' = pml4_table pm' \<and>
    free_count pm = 66 + free_count pm' \<and>
    (\<forall>w. unat w < 2 ^ 48 \<longrightarrow>
       translate (frames pm') (pml4_table pm') w = (if unat w < 2 ^ 36 then Some w else None)) \<and>
    (\<forall>v\<in>low_half. walk (frames pm') (pml4_table pm') (path v) = None)"
proof (rule Initialize_pages_spec [OF assms])
  fix pm' r d f
  assume init: "Initialize_pages pm = Some pm'" and inv: "init_inv r d 64 f pm'" and d: "d \<noteq> 0" "GetAddress d = d"
    and r: "r \<noteq> 0" "GetAddress r = r" and rest: "cr3 pm' = r" "free_count pm = 66 + free_count pm'"
  note T = init_inv_tables [OF inv d r]
  have root: "pml4_table pm' = r" using inv by (simp add: init_inv_def)
  have "walk (frames pm') r (path v) = None" for v
    unfolding T(1) by (simp add: path_def)
  then show ?thesis
    using init rest root T(2) init_inv_translate [OF inv d r] by auto
qed

definition sample_memory :: MemoryManager where
  "sample_memory = \<lparr>mm_bitmap = \<lparr>bm_buffer = 1 # replicate 9 0, bm_size = 10\<rparr>, mm_range_end = 0x50000\<rparr>"

theorem Initialize_identity_witness:
  "\<exists>pm'. Initialize_pages \<lparr>pml4_table = 0, cr3 = 0, frames = (\<lambda>_ _. 0), pg_mm = sample_memory, invlpg = []\<rparr> = Some pm' \<and>
     translate (frames pm') (pml4_table pm') 0xFEC00000 = Some 0xFEC00000 \<and>
     translate (frames pm') (pml4_table pm') 0x1000000000 = None"
proof -
  let ?pm = "\<lparr>pml4_table = 0, cr3 = 0, frames = (\<lambda>_ _. 0), pg_mm = sample_memory, invlpg = []\<rparr>"
  have get: "Bitmap_Get (mm_bitmap sample_memory) j \<longleftrightarrow> j = 0 \<or> 80 \<le> j" for j
  proof (cases "j < 80")
    case True
    then show ?thesis
    proof (cases "j div 8")
      case 0
      then show ?thesis using True
        by (auto simp: Get_bit sample_memory_def bit_1_iff)
    next
      case (Suc m)
      then have "m < 9" "8 \<le> j" using True by (auto simp: div_less_iff_less_mult)
      then show ?thesis using True Suc by (simp add: Get_bit sample_memory_def)
    qed
  next
    case False
    then show ?thesis using Get_beyond [of "mm_bitmap sample_memory" j] by (simp add: sample_memory_def)
  qed
  then have uf: "used_frames sample_memory = {0} \<union> {80..}" by (auto simp: used_frames_def)
  have "total_frames sample_memory = 80"
    by (simp add: sample_memory_def total_frames_def kFrameSize_def)
  then have "mm_inv sample_memory"
    by (simp add: mm_inv_def get) (simp add: sample_memory_def bitmap_wf_def)
  then have mem: "mem_ok ?pm" by (simp add: mem_ok_def) (simp add: sample_memory_def)
  have "- ({0} \<union> {80..}) = {1..<80 :: nat}" by auto
  then have free: "66 \<le> free_count ?pm" by (simp add: free_count_def uf)
  obtain pm' where "Initialize_pages ?pm = Some pm'"
    and tr: "\<forall>w. unat w < 2 ^ 48 \<longrightarrow>
       translate (frames pm') (pml4_table pm') w = (if unat w < 2 ^ 36 then Some w else None)"
    using Initialize_identity [OF mem free] by blast
  then show ?thesis
    using spec [OF tr, of "0xFEC00000"] spec [OF tr, of "0x1000000000"] by simp
qed

end
