(* ===== verification/TaskLife.thy ===== *)
theory TaskLife
  imports ReadyQueue PageProc
begin

text \<open>
  The life of a task: \<open>CreateTask\<close>, \<open>CreateAppTask\<close> and \<open>TerminateTask\<close> of
  \<open>kernel/task/task_manager.cpp\<close>. The state joins the task manager of \<open>ReadyQueue\<close>, the
  page manager of \<open>Paging\<close> (which holds the frame allocator and CR3) and the words of the
  kernel stacks. The control block a pointer refers to is its value in the heap of tasks; the
  frames that hold control blocks and stacks are not tracked as page-table memory.
\<close>

section \<open>Operations\<close>

record Kernel =
  k_tm :: TaskManager
  k_pg :: PageManager
  k_stack :: "u64 \<Rightarrow> u64"

definition kmem :: "Kernel \<Rightarrow> MemoryManager" where
  "kmem k = pg_mm (k_pg k)"

definition set_mem :: "Kernel \<Rightarrow> MemoryManager \<Rightarrow> Kernel" where
  "set_mem k mm = k\<lparr>k_pg := (k_pg k)\<lparr>pg_mm := mm\<rparr>\<rparr>"

definition kKernelStackSize :: u64 where
  "kKernelStackSize = 16 * 1024"

text \<open>\<open>sizeof(Task)\<close> under the x86-64 ABI.\<close>

definition sizeof_Task :: u64 where
  "sizeof_Task = 472"

definition zero_context :: TaskContext where
  "zero_context = \<lparr>ctx_gpr = (\<lambda>_. 0), ctx_cs = 0, ctx_ss = 0, ctx_ds = 0, ctx_es = 0, ctx_fs = 0,
     ctx_gs = 0, ctx_rip = 0, ctx_rflags = 0, ctx_cr3 = 0\<rparr>"

definition zero_task :: Task where
  "zero_task = \<lparr>task_id = 0, task_state = READY, task_context = zero_context, kernel_stack = 0,
     kernel_stack_size = 0, task_next = 0, task_prev = 0, task_name = replicate 32 0, entry_point = 0,
     task_argc = 0, argv_ptr = 0, argv_strs = [], is_app = False, user_stack = 0, user_stack_size = 0,
     user_stack_top = 0, process_fds = replicate 16 0, parent_task_id = 0\<rparr>"

definition CreateTask :: "Kernel \<Rightarrow> u64 \<Rightarrow> u64 \<times> Kernel" where
  "CreateTask k entry =
     (let (task, mm) = Allocate (kmem k) sizeof_Task; k = set_mem k mm in
      if task = 0 then (0, k)
      else
        let k = k\<lparr>k_tm := upd_task (k_tm k) task (\<lambda>_. zero_task)\<rparr>;
            (stack, mm) = Allocate (kmem k) kKernelStackSize; k = set_mem k mm
        in if stack = 0 then (0, set_mem k (Free (kmem k) task sizeof_Task))
        else
          let k = k\<lparr>k_stack := (\<lambda>a. if unat (a - stack) < unat kKernelStackSize then 0 else k_stack k a)\<rparr>;
              tm = (upd_task (k_tm k) task (\<lambda>t. t\<lparr>task_id := next_task_id (k_tm k), task_state := READY,
                      kernel_stack := stack, kernel_stack_size := kKernelStackSize,
                      task_next := 0, task_prev := 0, task_context := zero_context\<rparr>))
                   \<lparr>next_task_id := next_task_id (k_tm k) + 1\<rparr>;
              stack_top = ((stack + kKernelStackSize) AND NOT 0xF) - 8;
              ctx = zero_context\<lparr>ctx_gpr := (ctx_gpr zero_context)(RSP := stack_top), ctx_rip := entry,
                      ctx_rflags := 0x202, ctx_cs := 0x08, ctx_ss := 0x10, ctx_ds := 0x10, ctx_es := 0x10,
                      ctx_fs := 0, ctx_gs := 0, ctx_cr3 := cr3 (k_pg k)\<rparr>;
              tm = (upd_task tm task (\<lambda>t. t\<lparr>task_context := ctx\<rparr>))\<lparr>task_count := task_count tm + 1\<rparr>
          in (task, k\<lparr>k_tm := tm, k_stack := (k_stack k)(stack_top := entry)\<rparr>))"

text \<open>The loop over the argument strings in \<open>TerminateTask\<close>.\<close>

definition free_args :: "MemoryManager \<Rightarrow> (u64 \<times> bytes) list \<Rightarrow> MemoryManager" where
  "free_args mm args = foldl (\<lambda>mm (p, s). if p \<noteq> 0 then Free mm p (of_nat (length s + 1)) else mm) mm args"

definition TerminateTask :: "Kernel \<Rightarrow> u64 \<Rightarrow> Kernel" where
  "TerminateTask k task =
     (if task = 0 then k
      else
        let tm = RemoveFromReadyQueue (k_tm k) task;
            tm = upd_task tm task (\<lambda>t. t\<lparr>task_state := TERMINATED\<rparr>);
            t = tasks tm task; k = k\<lparr>k_tm := tm\<rparr>;
            k = (if is_app t then
                   let k = (if ctx_cr3 (task_context t) \<noteq> 0 \<and> ctx_cr3 (task_context t) \<noteq> GetKernelCR3 (k_pg k)
                            then k\<lparr>k_pg := FreeProcessPageTable (k_pg k) (ctx_cr3 (task_context t))\<rparr> else k)
                   in if argv_ptr t \<noteq> 0 then
                        let mm = free_args (kmem k) (take (nat (task_argc t)) (argv_strs t))
                        in set_mem k (Free mm (argv_ptr t) (of_int (8 * (task_argc t + 1))))
                      else k
                 else k);
            k = (if kernel_stack t \<noteq> 0 then set_mem k (Free (kmem k) (kernel_stack t) (kernel_stack_size t)) else k);
            k = set_mem k (Free (kmem k) task sizeof_Task)
        in k\<lparr>k_tm := (k_tm k)\<lparr>task_count := task_count (k_tm k) - 1\<rparr>\<rparr>)"

definition kUserStackTop :: u64 where
  "kUserStackTop = 0x70000000"

definition kUserStackSize :: u64 where
  "kUserStackSize = 64 * 1024"

definition CreateAppTask :: "Kernel \<Rightarrow> u64 \<Rightarrow> u64 \<Rightarrow> u64 \<times> Kernel" where
  "CreateAppTask k wrapper_entry app_entry =
     (let (task, k) = CreateTask k wrapper_entry in
      if task = 0 then (0, k)
      else
        let k = k\<lparr>k_tm := upd_task (k_tm k) task (\<lambda>t. t\<lparr>is_app := True, entry_point := app_entry\<rparr>)\<rparr>;
            (process_cr3, pg) = CreateProcessPageTable (k_pg k); k = k\<lparr>k_pg := pg\<rparr>
        in if process_cr3 = 0 then (0, TerminateTask k task)
        else
          let k = k\<lparr>k_tm := upd_task (k_tm k) task
                (\<lambda>t. t\<lparr>task_context := (task_context t)\<lparr>ctx_cr3 := process_cr3\<rparr>\<rparr>)\<rparr>;
              kUserStackBase = kUserStackTop - kUserStackSize;
              (ok, pg) = AllocateVirtualForProcess (k_pg k) process_cr3 kUserStackBase kUserStackSize
                           (kPresent OR kWritable OR kUser); k = k\<lparr>k_pg := pg\<rparr>
          in if \<not> ok then (0, TerminateTask (k\<lparr>k_pg := FreeProcessPageTable (k_pg k) process_cr3\<rparr>) task)
          else (task, k\<lparr>k_tm := upd_task (k_tm k) task (\<lambda>t. t\<lparr>user_stack := kUserStackBase,
                   user_stack_size := kUserStackSize, user_stack_top := kUserStackTop\<rparr>)\<rparr>))"

definition GetTaskCount :: "Kernel \<Rightarrow> u64" where
  "GetTaskCount k = task_count (k_tm k)"

section \<open>What creation gives and termination takes back\<close>

lemma admissible_sizes: "admissible sizeof_Task" "admissible kKernelStackSize"
  by (simp_all add: admissible_def sizeof_Task_def kKernelStackSize_def)

lemma kmem_simps [simp]:
  "kmem (set_mem k mm) = mm" "kmem (k\<lparr>k_tm := tm\<rparr>) = kmem k" "kmem (k\<lparr>k_stack := st\<rparr>) = kmem k"
  "k_tm (set_mem k mm) = k_tm k" "k_stack (set_mem k mm) = k_stack k" "cr3 (k_pg (set_mem k mm)) = cr3 (k_pg k)"
  by (simp_all add: kmem_def set_mem_def)

text \<open>The control block and the kernel stack of a new task.\<close>

definition new_context :: "u64 \<Rightarrow> u64 \<Rightarrow> u64 \<Rightarrow> TaskContext" where
  "new_context stack entry c = zero_context\<lparr>ctx_gpr := (\<lambda>_. 0)(RSP := stack + kKernelStackSize - 8), ctx_rip := entry,
     ctx_rflags := 0x202, ctx_cs := 0x08, ctx_ss := 0x10, ctx_ds := 0x10, ctx_es := 0x10, ctx_cr3 := c\<rparr>"

lemma page_multiple_and: "of_nat (i * kFrameSize) AND NOT 0xF = (of_nat (i * kFrameSize) :: u64)"
proof (rule bit_word_eqI)
  have mask4: "(0xF :: u64) = mask 4" by (simp add: mask_eq_exp_minus_1)
  have eq: "(of_nat (i * kFrameSize) :: u64) = push_bit 12 (of_nat i)"
    by (simp add: kFrameSize_def push_bit_eq_mult)
  show "bit (of_nat (i * kFrameSize) AND NOT 0xF :: u64) n = bit (of_nat (i * kFrameSize) :: u64) n"
    if "n < LENGTH(64)" for n
    using that unfolding eq mask4 by (auto simp: bit_simps)
qed

lemma stack_top_aligned:
  assumes "mm_inv mm" "Allocate mm kKernelStackSize = (stack, mm')" "stack \<noteq> 0"
  shows "(stack + kKernelStackSize) AND - 16 = stack + kKernelStackSize"
proof -
  obtain i where i: "stack = of_nat (i * kFrameSize)"
    using Allocate_result [OF assms(1) admissible_sizes(2)] assms(2,3) by (auto simp: alloc_result_def)
  then have "stack + kKernelStackSize = of_nat ((i + 4) * kFrameSize)"
    by (simp add: kKernelStackSize_def kFrameSize_def)
  then show ?thesis using page_multiple_and [of "i + 4"] by simp
qed

lemma CreateTask_cases:
  assumes inv: "mm_inv (kmem k)" and call: "CreateTask k entry = (t, k')"
  obtains (failed) "t = 0" "k_pg k' = k_pg k" "k_stack k' = k_stack k"
      "next_task_id (k_tm k') = next_task_id (k_tm k)" "task_count (k_tm k') = task_count (k_tm k)"
  | (created) stack mm1 mm2 where "t \<noteq> 0" "stack \<noteq> 0" "Allocate (kmem k) sizeof_Task = (t, mm1)"
      "Allocate mm1 kKernelStackSize = (stack, mm2)" "mm_inv mm1" "kmem k' = mm2"
      "k_tm k' = (upd_task (k_tm k) t (\<lambda>_. zero_task\<lparr>task_id := next_task_id (k_tm k), kernel_stack := stack,
         kernel_stack_size := kKernelStackSize, task_context := new_context stack entry (cr3 (k_pg k))\<rparr>))
         \<lparr>next_task_id := next_task_id (k_tm k) + 1, task_count := task_count (k_tm k) + 1\<rparr>"
      "k_stack k' (stack + kKernelStackSize - 8) = entry"
proof -
  obtain t1 mm1 where a1: "Allocate (kmem k) sizeof_Task = (t1, mm1)" by fastforce
  show thesis
  proof (cases "t1 = 0")
    case True
    then have "mm1 = kmem k" using mmgr.alloc_null [OF inv admissible_sizes(1)] a1 by simp
    then have "t = 0" "k' = k" using call a1 True by (auto simp: CreateTask_def set_mem_def kmem_def)
    then show thesis using failed by simp
  next
    case t1: False
    have inv1: "mm_inv mm1" using mmgr.alloc_used [OF inv admissible_sizes(1) a1 t1] by simp
    obtain stack mm2 where a2: "Allocate mm1 kKernelStackSize = (stack, mm2)" by fastforce
    show thesis
    proof (cases "stack = 0")
      case True
      then have mm2: "mm2 = mm1" using mmgr.alloc_null [OF inv1 admissible_sizes(2)] a2 by simp
      have undo: "Free mm1 t1 sizeof_Task = kmem k"
        by (rule Free_Allocate [OF inv admissible_sizes(1) a1 t1])
      have "t = 0" "k' = k\<lparr>k_tm := upd_task (k_tm k) t1 (\<lambda>_. zero_task)\<rparr>"
        using call a1 a2 t1 True undo by (auto simp: CreateTask_def Let_def mm2) (auto simp: set_mem_def kmem_def)
      then show thesis using failed by simp
    next
      case False
      note top = stack_top_aligned [OF inv1 a2 False]
      show thesis
        by (rule created [of stack mm1 mm2])
          (use call a1 a2 t1 False inv1 in
            \<open>auto simp: CreateTask_def Let_def top new_context_def zero_task_def zero_context_def\<close>)
    qed
  qed
qed

lemma Remove_stack:
  "kernel_stack (tasks (RemoveFromReadyQueue tm t) x) = kernel_stack (tasks tm x)"
  "kernel_stack_size (tasks (RemoveFromReadyQueue tm t) x) = kernel_stack_size (tasks tm x)"
  "task_count (RemoveFromReadyQueue tm t) = task_count tm"
  by (simp_all add: RemoveFromReadyQueue_def Let_def set_ends_simps)

lemma TerminateTask_kernel:
  assumes "t \<noteq> 0" "\<not> is_app (tasks (k_tm k) t)" "kernel_stack (tasks (k_tm k) t) = stack" "stack \<noteq> 0"
    "kernel_stack_size (tasks (k_tm k) t) = sz"
  shows "kmem (TerminateTask k t) = Free (Free (kmem k) stack sz) t sizeof_Task"
    and "task_count (k_tm (TerminateTask k t)) = task_count (k_tm k) - 1"
  using assms by (simp_all add: TerminateTask_def Let_def Remove_stack Remove_frame)

text \<open>
  \<open>CreateTask\<close>. A task it returns is ready to be switched to: its stack pointer lies in
  its own 16 KB kernel stack, 8 below a 16-byte boundary, with the entry point on top of the
  stack for the \<open>ret\<close> of \<open>SwitchContext\<close>; interrupts are enabled in its flags and it runs on
  the current page table. Control block and stack are separate blocks that were free, the id
  is the next one, and the ready queue is as before, ready to take the new task at its end.
\<close>

theorem CreateTask_ready:
  assumes "mm_inv (kmem k)" and "CreateTask k entry = (t, k')" and "t \<noteq> 0" and "queue (k_tm k) xs" and "t \<notin> set xs"
  shows "let task = tasks (k_tm k') t; ctx = task_context task; stack = kernel_stack task in
    ctx_gpr ctx RSP = stack + kKernelStackSize - 8 \<and>
    k_stack k' (ctx_gpr ctx RSP) = entry \<and> bit (ctx_rflags ctx) 9 \<and> ctx_cr3 ctx = cr3 (k_pg k) \<and>
    task_id task = next_task_id (k_tm k) \<and> task_state task = READY \<and> \<not> is_app task \<and>
    (block t sizeof_Task \<union> block stack kKernelStackSize) \<inter> used_frames (kmem k) = {} \<and>
    block t sizeof_Task \<inter> block stack kKernelStackSize = {} \<and>
    used_frames (kmem k') = used_frames (kmem k) \<union> block t sizeof_Task \<union> block stack kKernelStackSize \<and>
    queue (AddToReadyQueue (k_tm k') t) (xs @ [t])"
  using assms(1,2)
proof (cases rule: CreateTask_cases)
  case failed
  then show ?thesis using assms(3) by simp
next
  case (created stack mm1 mm2)
  have next0: "x \<noteq> 0 \<Longrightarrow> x \<notin> set xs \<Longrightarrow> task_next (tasks (k_tm k) x) = 0 \<and> task_prev (tasks (k_tm k) x) = 0" for x
    using assms(4) by (simp add: queue_def)
  have "queue (k_tm k') xs = queue (k_tm k) xs"
    using next0 [OF assms(3,5)] by (intro queue_cong) (auto simp: created(7) zero_task_def)
  then have "queue (AddToReadyQueue (k_tm k') t) (xs @ [t])"
    using Add_queue [of "k_tm k'" xs t] assms(3-5) by simp
  moreover note F1 = mmgr.alloc_fresh [OF assms(1) admissible_sizes(1) created(3,1)]
    and U1 = mmgr.alloc_used [OF assms(1) admissible_sizes(1) created(3,1)]
    and F2 = mmgr.alloc_fresh [OF created(5) admissible_sizes(2) created(4,2)]
    and U2 = mmgr.alloc_used [OF created(5) admissible_sizes(2) created(4,2)]
  moreover have "bit (0x202 :: u64) 9" by simp
  ultimately show ?thesis
    by (auto simp: Let_def created(6-8) new_context_def zero_task_def)
qed

text \<open>
  C38: \<open>CreateTask\<close> and \<open>TerminateTask\<close> neither lose nor duplicate memory. A creation that
  fails leaves the page and frame state untouched, also when the control block was allocated
  and only the stack could not be; terminating a kernel task that was created (in whatever
  queue state it is by then) restores the identical frame allocator and the task count.
\<close>

theorem CreateTask_TerminateTask:
  assumes "mm_inv (kmem k)" and "CreateTask k entry = (t, k')"
    and "kernel_stack (tasks tm t) = kernel_stack (tasks (k_tm k') t)"
    and "kernel_stack_size (tasks tm t) = kernel_stack_size (tasks (k_tm k') t)" and "\<not> is_app (tasks tm t)"
    and "task_count tm = task_count (k_tm k')"
  shows "(t = 0 \<longrightarrow> k_pg k' = k_pg k \<and> k_stack k' = k_stack k \<and> task_count (k_tm k') = task_count (k_tm k)) \<and>
    (t \<noteq> 0 \<longrightarrow> kmem (TerminateTask (k'\<lparr>k_tm := tm\<rparr>) t) = kmem k \<and>
       task_count (k_tm (TerminateTask (k'\<lparr>k_tm := tm\<rparr>) t)) = task_count (k_tm k))"
  using assms(1,2)
proof (cases rule: CreateTask_cases)
  case failed
  then show ?thesis by simp
next
  case (created stack mm1 mm2)
  let ?k = "k'\<lparr>k_tm := tm\<rparr>"
  have "kernel_stack (tasks (k_tm ?k) t) = stack" "kernel_stack_size (tasks (k_tm ?k) t) = kKernelStackSize"
    using assms(3,4) by (simp_all add: created(7) zero_task_def)
  note T = TerminateTask_kernel [OF created(1) _ this(1) created(2) this(2)]
  have "Free mm2 stack kKernelStackSize = mm1"
    by (rule Free_Allocate [OF created(5) admissible_sizes(2) created(4,2)])
  moreover have "Free mm1 t sizeof_Task = kmem k"
    by (rule Free_Allocate [OF assms(1) admissible_sizes(1) created(3,1)])
  ultimately show ?thesis using T assms(5,6) created(1,6,7) by simp
qed

text \<open>A sample kernel state for the witnesses.\<close>

definition sample_k :: Kernel where
  "sample_k = \<lparr>k_tm = \<lparr>tasks = (\<lambda>_. zero_task), current_task = 0, ready_queue_head = 0, ready_queue_tail = 0,
     next_task_id = 7, task_count = 0\<rparr>, k_pg = sample_kernel, k_stack = (\<lambda>_. 0)\<rparr>"

lemma sample_k_mem: "kmem sample_k = sample_mm" "mm_inv (kmem sample_k)"
  using sample_mm_inv by (simp_all add: kmem_def sample_k_def sample_kernel_def)

lemma sample_k_create: "fst (CreateTask sample_k 0x100000) = 0x4000"
proof -
  have a1: "Allocate sample_mm sizeof_Task =
      (0x4000, \<lparr>mm_bitmap = \<lparr>bm_buffer = [0x1F, 0xF0], bm_size = 2\<rparr>, mm_range_end = 0x10000\<rparr>)" (is "_ = (_, ?mm1)")
    by (simp add: Allocate_def sizeof_Task_def frames_of_def AllocateFrame_def sample_mm_def bitmap_eval)
  have "search_run (mm_bitmap ?mm1) 16 4 5 = Some 5"
    by (simp add: search_run.simps check_run.simps bitmap_eval)
  then have "fst (Allocate ?mm1 kKernelStackSize) = 0x5000"
    by (simp add: Allocate_def kKernelStackSize_def frames_of_def total_frames_def bitmap_eval)
  then obtain mm2 where a2: "Allocate ?mm1 kKernelStackSize = (0x5000, mm2)"
    by (cases "Allocate ?mm1 kKernelStackSize") simp
  show ?thesis
    unfolding CreateTask_def Let_def sample_k_mem(1) a1 prod.case kmem_simps by (simp add: a2)
qed

theorem CreateTask_ready_witness:
  "k_stack (snd (CreateTask sample_k 0x100000))
     (ctx_gpr (task_context (tasks (k_tm (snd (CreateTask sample_k 0x100000))) 0x4000)) RSP) = 0x100000"
proof -
  obtain k' where c: "CreateTask sample_k 0x100000 = (0x4000, k')"
    using sample_k_create by (metis fst_conv surj_pair)
  have "queue (k_tm sample_k) []"
    by (simp add: sample_k_def queue_def zero_task_def)
  then show ?thesis
    using CreateTask_ready [OF sample_k_mem(2) c, of "[]"] c by (auto simp: Let_def)
qed

theorem CreateTask_TerminateTask_witness:
  "kmem (TerminateTask (snd (CreateTask sample_k 0x100000)) 0x4000) = sample_mm"
proof -
  obtain k' where c: "CreateTask sample_k 0x100000 = (0x4000, k')"
    using sample_k_create by (metis fst_conv surj_pair)
  have "\<not> is_app (tasks (k_tm k') 0x4000)"
    using sample_k_mem(2) c by (cases rule: CreateTask_cases) (auto simp: zero_task_def)
  then show ?thesis
    using CreateTask_TerminateTask [OF sample_k_mem(2) c, of "k_tm k'"] c sample_k_mem(1) by simp
qed

section \<open>Application tasks\<close>

text \<open>Taking frames for other purposes does not concern the page tables.\<close>

lemma pages_ok_more_used:
  assumes ok: "pages_ok r pm" and mm: "mm_inv mm" "mm_range_end mm = mm_range_end (pg_mm pm)"
    and more: "used_frames (pg_mm pm) \<subseteq> used_frames mm"
  shows "pages_ok r (pm\<lparr>pg_mm := mm\<rparr>)"
proof -
  have sub: "used pm \<subseteq> used (pm\<lparr>pg_mm := mm\<rparr>)" using more by (auto simp: used_def)
  have tree: "pt_ok (frames pm) r (used pm)" using ok by (simp add: pages_ok_def)
  have "pt_ok (frames pm) r (used (pm\<lparr>pg_mm := mm\<rparr>))"
    by (rule pt_ok_same_entries [OF tree refl _ sub]) (use pt_okD(5) [OF tree] in simp)
  then show ?thesis using ok mm by (simp add: pages_ok_def mem_ok_def)
qed

lemma CreateTask_pages:
  assumes ok: "pages_ok r (k_pg k)" and call: "CreateTask k entry = (t, k1)" and t: "t \<noteq> 0"
  shows "pages_ok r (k_pg k1)" "frames (k_pg k1) = frames (k_pg k)" "pml4_table (k_pg k1) = pml4_table (k_pg k)"
    "cr3 (k_pg k1) = cr3 (k_pg k)"
proof -
  have inv: "mm_inv (kmem k)" using ok by (simp add: pages_ok_def mem_ok_def kmem_def)
  obtain mm where pg: "k_pg k1 = (k_pg k)\<lparr>pg_mm := mm\<rparr>"
    using call t by (auto simp: CreateTask_def Let_def set_mem_def split: prod.splits if_splits)
  from inv call have "mm_inv mm \<and> mm_range_end mm = mm_range_end (kmem k) \<and> used_frames (kmem k) \<subseteq> used_frames mm"
  proof (cases rule: CreateTask_cases)
    case failed
    then show ?thesis using t by simp
  next
    case (created stack mm1 mm2)
    have "mm = mm2" using created(6) pg by (simp add: kmem_def)
    then show ?thesis
      using mmgr.alloc_used [OF inv admissible_sizes(1) created(3,1)]
        mmgr.alloc_used [OF created(5) admissible_sizes(2) created(4,2)]
        Allocate_range [of "kmem k" sizeof_Task] Allocate_range [of mm1 kKernelStackSize]
      unfolding created(3,4) by auto
  qed
  then show "pages_ok r (k_pg k1)" "frames (k_pg k1) = frames (k_pg k)" "pml4_table (k_pg k1) = pml4_table (k_pg k)"
    "cr3 (k_pg k1) = cr3 (k_pg k)"
    using pages_ok_more_used [OF ok] pg by (simp_all add: kmem_def)
qed

lemma AllocateVirtualForProcess_backs:
  fixes v sz :: u64
  assumes ok: "pages_ok r pm" and v: "unat v mod 4096 = 0"
    and n: "n = unat ((sz + kPageSize4K - 1) div kPageSize4K)" "unat v + n * 4096 \<le> 2 ^ 48" and c: "cr3 pm \<noteq> 0"
    and free: "4 * n \<le> free_count pm" and flags: "flags AND kPresent \<noteq> 0"
    and call: "AllocateVirtualForProcess pm r v sz flags = (ok', pm')"
  shows "ok'" and "unat v \<le> unat w \<Longrightarrow> unat w < unat v + n * 4096 \<Longrightarrow> \<exists>p. translate (frames pm') r w = Some p"
proof -
  let ?pm = "pm\<lparr>cr3 := r, pml4_table := r\<rparr>"
  obtain pm2 where loop: "alloc_virtual_loop flags ?pm v n 0 = (ok', pm2)" "frames pm2 = frames pm'"
    using AllocateVirtualForProcess_evolves(5) [OF ok v n c call] by blast
  have "pages_ok r ?pm" "4 * (n - 0) \<le> free_count ?pm"
    using ok free by (simp_all add: pages_ok_def mem_ok_def used_def free_count_def)
  from alloc_virtual_spec [OF this(1) _ v n(2) _ this(2) loop(1)]
  obtain f where ok': "ok'" and tr: "translate (frames pm') r =
      fold (\<lambda>j. mapped flags (page_addr v j) (f j)) [0..<n] (translate (frames pm) r)"
    using loop(2) by auto
  show "ok'" by (rule ok')
  assume w: "unat v \<le> unat w" "unat w < unat v + n * 4096"
  define j where "j = (unat w - unat v) div 4096"
  have "j < n" using w by (simp add: j_def div_less_iff_less_mult less_diff_conv2)
  moreover have "unat v + j * 4096 \<le> unat w" "unat w < unat v + Suc j * 4096"
    using w div_mult_mod_eq [of "unat w - unat v" 4096] mod_less_divisor [of 4096 "unat w - unat v"]
    by (simp_all add: j_def) 
  ultimately show "\<exists>p. translate (frames pm') r w = Some p"
    using fold_mapped_page [OF v n(2) _ flags, of w j] w n(2) unfolding tr by auto
qed

text \<open>
  \<open>CreateAppTask\<close> builds a runnable and isolated process. When the kernel task could be
  created and 68 frames remain, it returns that task, marked as an application, on a page table
  of its own in which every address of the 64 KB user stack below \<open>0x70000000\<close> is mapped, while
  no translation of the kernel's page table has changed.
\<close>

theorem CreateAppTask_isolated:
  assumes "pages_ok (pml4_table (k_pg k)) (k_pg k)" and "cr3 (k_pg k) \<noteq> 0"
    and "walk (frames (k_pg k)) (pml4_table (k_pg k)) [0] = Some t3"
    and "walk (frames (k_pg k)) (pml4_table (k_pg k)) [0, 0] = Some t20"
    and "walk (frames (k_pg k)) (pml4_table (k_pg k)) [0, 1] = Some t21"
    and "\<And>x. x \<in> low_half \<Longrightarrow> walk (frames (k_pg k)) (pml4_table (k_pg k)) (path x) = None"
    and "CreateTask k wrapper = (t, k1)" and "t \<noteq> 0" and "68 \<le> free_count (k_pg k1)"
  shows "\<exists>k'. CreateAppTask k wrapper app = (t, k') \<and> is_app (tasks (k_tm k') t) \<and>
    entry_point (tasks (k_tm k') t) = app \<and> user_stack_top (tasks (k_tm k') t) = 0x70000000 \<and>
    (\<forall>w. 0x6FFF0000 \<le> unat w \<and> unat w < 0x70000000 \<longrightarrow>
       (\<exists>p. translate (frames (k_pg k')) (ctx_cr3 (task_context (tasks (k_tm k') t))) w = Some p)) \<and>
    (\<forall>w. translate (frames (k_pg k')) (pml4_table (k_pg k)) w = translate (frames (k_pg k)) (pml4_table (k_pg k)) w)"
proof -
  let ?root = "pml4_table (k_pg k)"
  note P = CreateTask_pages [OF assms(1,7,8)]
  have tables: "pages_ok (pml4_table (k_pg k1)) (k_pg k1)" "4 \<le> free_count (k_pg k1)"
      "walk (frames (k_pg k1)) (pml4_table (k_pg k1)) [0] = Some t3"
      "walk (frames (k_pg k1)) (pml4_table (k_pg k1)) [0, 0] = Some t20"
      "walk (frames (k_pg k1)) (pml4_table (k_pg k1)) [0, 1] = Some t21"
    using P assms(3-5,9) by (simp_all del: walk.simps)
  obtain r pm1 where c: "CreateProcessPageTable (k_pg k1) = (r, pm1)" by fastforce
  obtain d p0 p1 where r: "r \<noteq> 0" and pt: "process_table ?root (k_pg k1) r d p0 p1 pm1"
    using CreateProcessPageTable_result [OF tables c] P(3) by auto
  have ok1: "pages_ok r pm1" "cr3 pm1 \<noteq> 0" "64 \<le> free_count pm1" "free_count (k_pg k1) = 4 + free_count pm1"
    using pt assms(2,9) P(4) by (simp_all add: process_table_def)
  define base where "base = kUserStackTop - kUserStackSize"
  have b: "unat base = 0x6FFF0000" by (simp add: base_def kUserStackTop_def kUserStackSize_def)
  have n: "(16 :: nat) = unat ((kUserStackSize + kPageSize4K - 1) div kPageSize4K)"
    by (simp add: kUserStackSize_def kPageSize4K_def)
  obtain ok pm2 where a: "AllocateVirtualForProcess pm1 r base kUserStackSize (kPresent OR kWritable OR kUser) = (ok, pm2)"
    by fastforce
  have flags: "(kPresent OR kWritable OR kUser) AND kPresent \<noteq> 0"
    by (simp add: kPresent_def kWritable_def kUser_def)
  have b48: "unat base mod 4096 = 0" "unat base + 16 * 4096 \<le> 2 ^ 48" "4 * 16 \<le> free_count pm1"
    using b ok1(3) by simp_all
  note B = AllocateVirtualForProcess_backs [OF ok1(1) b48(1) n b48(2) ok1(2) b48(3) flags a]
  have "unat base + 16 * 4096 \<le> 2 ^ 31" using b by simp
  note I = process_isolation_lemma [OF tables(1,2) _ tables(3-5) _ c b48(1) n this a]
  have kernel: "translate (frames pm2) ?root w = translate (frames (k_pg k)) ?root w" for w
    using I assms(2,6) P by (simp del: walk.simps)
  define k' where "k' = k1\<lparr>k_pg := pm2, k_tm := upd_task (k_tm k1) t (\<lambda>x. x\<lparr>is_app := True, entry_point := app,
      task_context := (task_context x)\<lparr>ctx_cr3 := r\<rparr>, user_stack := base, user_stack_size := kUserStackSize,
      user_stack_top := kUserStackTop\<rparr>)\<rparr>"
  have "CreateAppTask k wrapper app = (t, k')"
    using assms(7,8) c r a B(1) by (simp add: CreateAppTask_def Let_def base_def k'_def)
  moreover have "k_pg k' = pm2" "is_app (tasks (k_tm k') t)" "entry_point (tasks (k_tm k') t) = app"
      "user_stack_top (tasks (k_tm k') t) = 0x70000000" "ctx_cr3 (task_context (tasks (k_tm k') t)) = r"
    by (simp_all add: k'_def kUserStackTop_def)
  moreover have "\<exists>p. translate (frames pm2) r w = Some p" if "0x6FFF0000 \<le> unat w" "unat w < 0x70000000" for w
    using B(2) [of w] that b by simp
  ultimately show ?thesis using kernel by (intro exI [of _ k']) simp
qed

text \<open>A machine of 128 frames with the sample tables: frames 0 to 3 and 12 are in use.\<close>

definition mm128 :: "u8 \<Rightarrow> u8 \<Rightarrow> MemoryManager" where
  "mm128 a b = \<lparr>mm_bitmap = \<lparr>bm_buffer = a # b # replicate 14 0, bm_size = 16\<rparr>, mm_range_end = 0x80000\<rparr>"

definition sample_k128 :: Kernel where
  "sample_k128 = sample_k\<lparr>k_pg := sample_kernel\<lparr>pg_mm := mm128 0x0F 0x10\<rparr>\<rparr>"

lemma Get_mm128:
  "Bitmap_Get (mm_bitmap (mm128 a b)) j \<longleftrightarrow>
     (if j < 8 then bit a j else if j < 16 then bit b (j - 8) else 128 \<le> j)"
proof (cases "j < 16")
  case True
  then have "j div 8 = 0 \<and> j mod 8 = j \<and> j < 8 \<or> j div 8 = 1 \<and> j mod 8 = j - 8 \<and> 8 \<le> j"
    by (auto simp: div_if mod_if)
  then show ?thesis using True by (auto simp: mm128_def Get_bit)
next
  case False
  show ?thesis
  proof (cases "j < 128")
    case True
    then have "2 \<le> j div 8" "j div 8 < 16" using False by (simp_all add: div_less_iff_less_mult less_eq_div_iff_mult_less_eq)
    moreover obtain m where "j div 8 = Suc (Suc m)" using calculation(1) by (metis add_2_eq_Suc le_Suc_ex)
    ultimately show ?thesis using True False by (simp add: mm128_def Get_bit)
  next
    case False
    then show ?thesis using Get_beyond [of "mm_bitmap (mm128 a b)" j] by (simp add: mm128_def)
  qed
qed

lemma mm128_inv: "bit a 0 \<Longrightarrow> mm_inv (mm128 a b)"
proof -
  have "total_frames (mm128 a b) = 128" by (simp add: mm128_def total_frames_def kFrameSize_def)
  then show "bit a 0 \<Longrightarrow> mm_inv (mm128 a b)"
    by (simp add: mm_inv_def Get_mm128) (simp add: mm128_def bitmap_wf_def)
qed

lemma sample_k128_create: "fst (CreateTask sample_k128 0x100000) = 0x4000"
  "kmem (snd (CreateTask sample_k128 0x100000)) = mm128 0xFF 0x11"
proof -
  have a1: "Allocate (mm128 0x0F 0x10) sizeof_Task = (0x4000, mm128 0x1F 0x10)"
    by (simp add: Allocate_def sizeof_Task_def frames_of_def AllocateFrame_def mm128_def bitmap_eval)
  have "search_run (mm_bitmap (mm128 0x1F 0x10)) 128 4 5 = Some 5"
    by (simp add: mm128_def search_run.simps check_run.simps bitmap_eval)
  then have a2: "Allocate (mm128 0x1F 0x10) kKernelStackSize = (0x5000, mm128 0xFF 0x11)"
    by (simp add: Allocate_def kKernelStackSize_def frames_of_def total_frames_def mm128_def bitmap_eval)
  have m: "kmem sample_k128 = mm128 0x0F 0x10" by (simp add: kmem_def sample_k128_def)
  show "fst (CreateTask sample_k128 0x100000) = 0x4000"
    "kmem (snd (CreateTask sample_k128 0x100000)) = mm128 0xFF 0x11"
    unfolding CreateTask_def Let_def m a1 prod.case kmem_simps by (simp_all add: a2)
qed

theorem CreateAppTask_isolated_witness:
  "\<exists>k'. CreateAppTask sample_k128 0x100000 0x400000 = (0x4000, k') \<and> is_app (tasks (k_tm k') 0x4000) \<and>
     (\<exists>p. translate (frames (k_pg k')) (ctx_cr3 (task_context (tasks (k_tm k') 0x4000))) 0x6FFFFFF8 = Some p)"
proof -
  obtain k1 where c: "CreateTask sample_k128 0x100000 = (0x4000, k1)" "kmem k1 = mm128 0xFF 0x11"
    using sample_k128_create by (metis fst_conv snd_conv surj_pair)
  have pg: "k_pg sample_k128 = sample_kernel\<lparr>pg_mm := mm128 0x0F 0x10\<rparr>" by (simp add: sample_k128_def)
  have uf: "used_frames (mm128 a b) = {j. if j < 8 then bit a j else if j < 16 then bit b (j - 8) else 128 \<le> j}" for a b
    by (simp add: used_frames_def Get_mm128)
  have "mm_range_end (mm128 0x0F 0x10) = 0x80000" by (simp add: mm128_def)
  then have "mem_ok (k_pg sample_k128)" using mm128_inv [of "0x0F"] by (simp add: pg mem_ok_def)
  moreover have "pt_ok sample_tables 0x1000 (used (k_pg sample_k128))"
    by (rule sample_tables_ok) (simp add: used_def pg uf kFrameSize_def)
  ultimately have ok: "pages_ok 0x1000 (k_pg sample_k128)"
    by (simp add: pages_ok_def pg sample_kernel_root)
  have "{16..<128} \<subseteq> - used_frames (mm128 0xFF 0x11)"
    by (auto simp: uf)
  then have "card {16..<128 :: nat} \<le> card (- used_frames (mm128 0xFF 0x11))"
    by (intro card_mono finite_free_frames mm128_inv) simp_all
  then have free: "68 \<le> free_count (k_pg k1)"
    using c(2) by (simp add: free_count_def kmem_def)
  have none: "walk sample_tables 0x1000 (path x) = None" for x
    by (simp add: sample_walk path_def del: walk.simps)
  have roots: "frames (k_pg sample_k128) = sample_tables" "pml4_table (k_pg sample_k128) = 0x1000"
    "cr3 (k_pg sample_k128) = 0x1000" by (simp_all add: pg sample_kernel_root)
  have "\<exists>k'. CreateAppTask sample_k128 0x100000 0x400000 = (0x4000, k') \<and> is_app (tasks (k_tm k') 0x4000) \<and>
      entry_point (tasks (k_tm k') 0x4000) = 0x400000 \<and> user_stack_top (tasks (k_tm k') 0x4000) = 0x70000000 \<and>
      (\<forall>w. 0x6FFF0000 \<le> unat w \<and> unat w < 0x70000000 \<longrightarrow>
         (\<exists>p. translate (frames (k_pg k')) (ctx_cr3 (task_context (tasks (k_tm k') 0x4000))) w = Some p)) \<and>
      (\<forall>w. translate (frames (k_pg k')) 0x1000 w = translate sample_tables 0x1000 w)"
    by (rule CreateAppTask_isolated [of sample_k128 "0x2000" "0x3000" "0xC000" "0x100000" "0x4000" k1 "0x400000",
          unfolded roots, OF ok _ _ _ _ none c(1) _ free])
      (simp_all add: sample_walk del: walk.simps)
  then obtain k' where "CreateAppTask sample_k128 0x100000 0x400000 = (0x4000, k')" "is_app (tasks (k_tm k') 0x4000)"
    and m: "\<forall>w. 0x6FFF0000 \<le> unat w \<and> unat w < 0x70000000 \<longrightarrow>
         (\<exists>p. translate (frames (k_pg k')) (ctx_cr3 (task_context (tasks (k_tm k') 0x4000))) w = Some p)" by blast
  then show ?thesis using spec [OF m, of "0x6FFFFFF8"] by auto
qed

end
