(* ===== verification/FileDesc.thy ===== *)
theory FileDesc
  imports FatNvme
begin

text \<open>
  File descriptors (kernel/sys/std/file_descriptor.hpp, file_descriptor.cpp): the ring of
  \<open>KeyboardFD\<close>, the ring of \<open>PipeFD\<close> and the read-only \<open>FileFD\<close> over the FAT32 driver. The
  two rings keep the contract \<open>byte_fifo\<close>, in which the behaviour of whole sequences of
  reads and writes is proved once. \<open>Update\<close> of the keyboard, which feeds the keyboard ring,
  is in theory \<open>Keyboard\<close>.
\<close>

datatype FDType = FD_UNKNOWN | FD_CONSOLE | FD_KEYBOARD | FD_PIPE | FD_FILE

section \<open>Rings\<close>

text \<open>
  The loop that \<open>KeyboardFD::Read\<close> and \<open>PipeFD::Read\<close> share,
  \<open>while (read_count < len && count_ > 0)\<close>: it returns the bytes stored to \<open>buf\<close>.
\<close>

fun drain :: "('s \<Rightarrow> nat) \<Rightarrow> ('s \<Rightarrow> u8 \<times> 's) \<Rightarrow> nat \<Rightarrow> 's \<Rightarrow> bytes \<times> 's" where
  "drain level get 0 s = ([], s)"
| "drain level get (Suc n) s =
     (if level s > 0
      then let (c, s) = get s; (cs, s) = drain level get n s in (c # cs, s)
      else ([], s))"

subsection \<open>\<open>KeyboardFD\<close>\<close>

record KeyboardFD =
  kb_buffer :: bytes
  kb_write_pos :: nat
  kb_read_pos :: nat
  kb_count :: nat

definition kKeyboardBufferSize :: nat where
  "kKeyboardBufferSize = 1024"

text \<open>The constructor leaves the array as it is and sets the three counters to zero.\<close>

definition KeyboardFD_new :: "bytes \<Rightarrow> KeyboardFD" where
  "KeyboardFD_new mem = \<lparr>kb_buffer = mem, kb_write_pos = 0, kb_read_pos = 0, kb_count = 0\<rparr>"

definition OnInput :: "KeyboardFD \<Rightarrow> u8 \<Rightarrow> KeyboardFD" where
  "OnInput fd c =
     (if kb_count fd \<ge> kKeyboardBufferSize then fd
      else fd\<lparr>kb_buffer := (kb_buffer fd)[kb_write_pos fd := c],
              kb_write_pos := (kb_write_pos fd + 1) mod kKeyboardBufferSize,
              kb_count := kb_count fd + 1\<rparr>)"

definition kb_take :: "KeyboardFD \<Rightarrow> u8 \<times> KeyboardFD" where
  "kb_take fd =
     (kb_buffer fd ! kb_read_pos fd,
      fd\<lparr>kb_read_pos := (kb_read_pos fd + 1) mod kKeyboardBufferSize, kb_count := kb_count fd - 1\<rparr>)"

text \<open>\<open>KeyboardFD::Read\<close> after its call of \<open>Update\<close>.\<close>

definition KeyboardFD_drain :: "KeyboardFD \<Rightarrow> nat \<Rightarrow> bytes \<times> KeyboardFD" where
  "KeyboardFD_drain fd len = (if kb_count fd = 0 then ([], fd) else drain kb_count kb_take len fd)"

definition KeyboardFD_Write :: "KeyboardFD \<Rightarrow> bytes \<Rightarrow> int \<times> KeyboardFD" where
  "KeyboardFD_Write fd buf = (0, fd)"

definition KeyboardFD_Flush :: "KeyboardFD \<Rightarrow> KeyboardFD" where
  "KeyboardFD_Flush fd = fd\<lparr>kb_read_pos := 0, kb_write_pos := 0, kb_count := 0\<rparr>"

subsection \<open>\<open>PipeFD\<close>\<close>

record PipeFD =
  pp_addr :: u64
  pp_buffer :: bytes
  pp_write_pos :: nat
  pp_read_pos :: nat
  pp_count :: nat
  pp_closed :: bool

definition kPipeBufferSize :: nat where
  "kPipeBufferSize = 4096"

text \<open>
  The constructor takes its buffer from the kernel heap; \<open>mem\<close> is what the memory there
  holds. The code does not test the pointer.
\<close>

definition PipeFD_new :: "kheap \<Rightarrow> bytes \<Rightarrow> PipeFD \<times> kheap" where
  "PipeFD_new h mem =
     (let (p, h) = operator_new h (of_nat kPipeBufferSize)
      in (\<lparr>pp_addr = p, pp_buffer = mem, pp_write_pos = 0, pp_read_pos = 0, pp_count = 0,
           pp_closed = False\<rparr>, h))"

definition PipeFD_delete :: "kheap \<Rightarrow> PipeFD \<Rightarrow> kheap" where
  "PipeFD_delete h fd = operator_delete h (pp_addr fd)"

definition pp_take :: "PipeFD \<Rightarrow> u8 \<times> PipeFD" where
  "pp_take fd =
     (pp_buffer fd ! pp_read_pos fd,
      fd\<lparr>pp_read_pos := (pp_read_pos fd + 1) mod kPipeBufferSize, pp_count := pp_count fd - 1\<rparr>)"

definition PipeFD_Read :: "PipeFD \<Rightarrow> nat \<Rightarrow> bytes \<times> PipeFD" where
  "PipeFD_Read fd len = (if pp_count fd = 0 then ([], fd) else drain pp_count pp_take len fd)"

definition pp_store :: "PipeFD \<Rightarrow> u8 \<Rightarrow> PipeFD" where
  "pp_store fd c =
     fd\<lparr>pp_buffer := (pp_buffer fd)[pp_write_pos fd := c],
        pp_write_pos := (pp_write_pos fd + 1) mod kPipeBufferSize,
        pp_count := pp_count fd + 1\<rparr>"

text \<open>\<open>PipeFD::Write\<close>: the number of bytes taken from \<open>buf\<close> before the ring was full.\<close>

fun PipeFD_Write :: "PipeFD \<Rightarrow> bytes \<Rightarrow> nat \<times> PipeFD" where
  "PipeFD_Write fd [] = (0, fd)"
| "PipeFD_Write fd (c # cs) =
     (if pp_count fd \<ge> kPipeBufferSize then (0, fd)
      else let (n, fd) = PipeFD_Write (pp_store fd c) cs in (Suc n, fd))"

definition PipeFD_Reset :: "PipeFD \<Rightarrow> PipeFD" where
  "PipeFD_Reset fd = fd\<lparr>pp_write_pos := 0, pp_read_pos := 0, pp_count := 0\<rparr>"

section \<open>A bounded queue of bytes\<close>

text \<open>
  What both rings promise: \<open>put\<close> appends while there is room and drops the byte otherwise,
  \<open>get\<close> takes the oldest byte, \<open>clear\<close> empties.
\<close>

locale byte_fifo =
  fixes inv :: "'s \<Rightarrow> bool" and rep :: "'s \<Rightarrow> bytes" and cap :: nat
    and level :: "'s \<Rightarrow> nat" and put :: "'s \<Rightarrow> u8 \<Rightarrow> 's" and get :: "'s \<Rightarrow> u8 \<times> 's" and clear :: "'s \<Rightarrow> 's"
  assumes level_rep: "inv s \<Longrightarrow> level s = length (rep s)"
    and level_cap: "inv s \<Longrightarrow> level s \<le> cap"
    and put_room: "inv s \<Longrightarrow> level s < cap \<Longrightarrow> inv (put s c) \<and> rep (put s c) = rep s @ [c]"
    and put_full: "inv s \<Longrightarrow> cap \<le> level s \<Longrightarrow> put s c = s"
    and get_head: "inv s \<Longrightarrow> 0 < level s \<Longrightarrow>
      fst (get s) = hd (rep s) \<and> inv (snd (get s)) \<and> rep (snd (get s)) = tl (rep s)"
    and clear_empty: "inv s \<Longrightarrow> inv (clear s) \<and> rep (clear s) = []"
begin

lemma drain_spec:
  "inv s \<Longrightarrow> drain level get n s = (bs, s') \<Longrightarrow> bs = take n (rep s) \<and> inv s' \<and> rep s' = drop n (rep s)"
proof (induction n arbitrary: s bs s')
  case 0
  then show ?case by simp
next
  case (Suc n)
  show ?case
  proof (cases "level s > 0")
    case False
    then show ?thesis using Suc.prems level_rep by simp
  next
    case True
    obtain c s1 where g: "get s = (c, s1)" by (cases "get s")
    obtain cs s2 where d: "drain level get n s1 = (cs, s2)" by (cases "drain level get n s1")
    have h: "c = hd (rep s)" "inv s1" "rep s1 = tl (rep s)"
      using get_head [OF Suc.prems(1) True] g by simp_all
    have ne: "rep s \<noteq> []" using True level_rep [OF Suc.prems(1)] by auto
    have "cs = take n (rep s1)" "inv s2" "rep s2 = drop n (rep s1)"
      using Suc.IH [OF h(2) d] by simp_all
    then show ?thesis
      using Suc.prems True g d h ne by (cases "rep s") auto
  qed
qed

lemma puts_spec:
  "inv s \<Longrightarrow> inv (fold (\<lambda>c s. put s c) cs s) \<and>
    rep (fold (\<lambda>c s. put s c) cs s) = rep s @ take (cap - length (rep s)) cs"
proof (induction cs arbitrary: s)
  case Nil
  then show ?case by simp
next
  case (Cons c cs)
  show ?case
  proof (cases "level s < cap")
    case True
    then have "length (rep s) < cap" using level_rep [OF Cons.prems] by simp
    then have "take (cap - length (rep s)) (c # cs) = c # take (cap - length (rep s @ [c])) cs"
      by (simp add: take_Cons')
    then show ?thesis using put_room [OF Cons.prems True] Cons.IH [of "put s c"] by simp
  next
    case False
    then have "cap - length (rep s) = 0" using level_rep [OF Cons.prems] by simp
    then show ?thesis using put_full [OF Cons.prems] Cons.IH [OF Cons.prems] False by simp
  qed
qed

end

section \<open>The rings keep the contract\<close>

definition kb_inv :: "KeyboardFD \<Rightarrow> bool" where
  "kb_inv fd \<longleftrightarrow> ring_ok kKeyboardBufferSize (kb_buffer fd) (kb_read_pos fd) (kb_write_pos fd) (kb_count fd)"

definition kb_rep :: "KeyboardFD \<Rightarrow> bytes" where
  "kb_rep fd = ring_list kKeyboardBufferSize (kb_buffer fd) (kb_read_pos fd) (kb_count fd)"

interpretation kb: byte_fifo kb_inv kb_rep kKeyboardBufferSize kb_count OnInput kb_take KeyboardFD_Flush
proof
  fix s c
  assume inv: "kb_inv s"
  note r = inv [unfolded kb_inv_def]
  show "kb_count s = length (kb_rep s)" by (simp add: kb_rep_def)
  show "kb_count s \<le> kKeyboardBufferSize" using r by (simp add: ring_ok_def)
  show "kb_inv (OnInput s c) \<and> kb_rep (OnInput s c) = kb_rep s @ [c]" if "kb_count s < kKeyboardBufferSize"
    using ring_put [OF r that, of c] that by (simp add: OnInput_def kb_inv_def kb_rep_def)
  show "OnInput s c = s" if "kKeyboardBufferSize \<le> kb_count s" using that by (simp add: OnInput_def)
  show "fst (kb_take s) = hd (kb_rep s) \<and> kb_inv (snd (kb_take s)) \<and> kb_rep (snd (kb_take s)) = tl (kb_rep s)"
    if "0 < kb_count s"
    using ring_get [OF r that] by (simp add: kb_take_def kb_inv_def kb_rep_def)
  show "kb_inv (KeyboardFD_Flush s) \<and> kb_rep (KeyboardFD_Flush s) = []"
    using r by (simp add: KeyboardFD_Flush_def kb_inv_def kb_rep_def ring_ok_def kKeyboardBufferSize_def)
qed

definition pp_inv :: "PipeFD \<Rightarrow> bool" where
  "pp_inv fd \<longleftrightarrow> ring_ok kPipeBufferSize (pp_buffer fd) (pp_read_pos fd) (pp_write_pos fd) (pp_count fd)"

definition pp_rep :: "PipeFD \<Rightarrow> bytes" where
  "pp_rep fd = ring_list kPipeBufferSize (pp_buffer fd) (pp_read_pos fd) (pp_count fd)"

definition pp_put :: "PipeFD \<Rightarrow> u8 \<Rightarrow> PipeFD" where
  "pp_put fd c = (if pp_count fd \<ge> kPipeBufferSize then fd else pp_store fd c)"

interpretation pp: byte_fifo pp_inv pp_rep kPipeBufferSize pp_count pp_put pp_take PipeFD_Reset
proof
  fix s c
  assume inv: "pp_inv s"
  note r = inv [unfolded pp_inv_def]
  show "pp_count s = length (pp_rep s)" by (simp add: pp_rep_def)
  show "pp_count s \<le> kPipeBufferSize" using r by (simp add: ring_ok_def)
  show "pp_inv (pp_put s c) \<and> pp_rep (pp_put s c) = pp_rep s @ [c]" if "pp_count s < kPipeBufferSize"
    using ring_put [OF r that, of c] that by (simp add: pp_put_def pp_store_def pp_inv_def pp_rep_def)
  show "pp_put s c = s" if "kPipeBufferSize \<le> pp_count s" using that by (simp add: pp_put_def)
  show "fst (pp_take s) = hd (pp_rep s) \<and> pp_inv (snd (pp_take s)) \<and> pp_rep (snd (pp_take s)) = tl (pp_rep s)"
    if "0 < pp_count s"
    using ring_get [OF r that] by (simp add: pp_take_def pp_inv_def pp_rep_def)
  show "pp_inv (PipeFD_Reset s) \<and> pp_rep (PipeFD_Reset s) = []"
    using r by (simp add: PipeFD_Reset_def pp_inv_def pp_rep_def ring_ok_def kPipeBufferSize_def)
qed


text \<open>\<open>Read\<close> and \<open>Write\<close> as list operations.\<close>

lemma KeyboardFD_drain_spec:
  assumes "kb_inv fd" "KeyboardFD_drain fd n = (bs, fd')"
  shows "bs = take n (kb_rep fd)" "kb_inv fd'" "kb_rep fd' = drop n (kb_rep fd)"
  using kb.drain_spec [OF assms(1), of n bs fd'] assms kb.level_rep [OF assms(1)]
  by (auto simp: KeyboardFD_drain_def split: if_splits)

lemma PipeFD_Read_spec:
  assumes "pp_inv fd" "PipeFD_Read fd n = (bs, fd')"
  shows "bs = take n (pp_rep fd)" "pp_inv fd'" "pp_rep fd' = drop n (pp_rep fd)"
  using pp.drain_spec [OF assms(1), of n bs fd'] assms pp.level_rep [OF assms(1)]
  by (auto simp: PipeFD_Read_def split: if_splits)

lemma PipeFD_Write_puts: "snd (PipeFD_Write fd bs) = fold (\<lambda>c fd. pp_put fd c) bs fd"
proof (induction bs arbitrary: fd)
  case (Cons c cs)
  have "fold (\<lambda>c fd. pp_put fd c) cs fd = fd" if "kPipeBufferSize \<le> pp_count fd"
    using that by (induction cs) (auto simp: pp_put_def)
  then show ?case using Cons.IH [of "pp_store fd c"] by (auto simp: pp_put_def split: prod.split)
qed simp

lemma PipeFD_Write_count:
  "pp_count fd \<le> kPipeBufferSize \<Longrightarrow>
    fst (PipeFD_Write fd bs) = min (length bs) (kPipeBufferSize - pp_count fd)"
proof (induction bs arbitrary: fd)
  case (Cons c cs)
  show ?case
    using Cons.IH [of "pp_store fd c"] Cons.prems by (auto simp: pp_store_def split: prod.split)
qed simp

lemma PipeFD_Write_spec:
  assumes "pp_inv fd" "PipeFD_Write fd bs = (n, fd')"
  shows "n = min (length bs) (kPipeBufferSize - length (pp_rep fd))" "pp_inv fd'"
    "pp_rep fd' = pp_rep fd @ take n bs"
proof -
  show n: "n = min (length bs) (kPipeBufferSize - length (pp_rep fd))"
    using PipeFD_Write_count [of fd bs] pp.level_cap [OF assms(1)] pp.level_rep [OF assms(1)] assms(2) by simp
  show "pp_inv fd'" "pp_rep fd' = pp_rep fd @ take n bs"
    using pp.puts_spec [OF assms(1), of bs] PipeFD_Write_puts [of fd bs] assms(2) by (auto simp: n min_def)
qed

subsection \<open>A pipe in use\<close>

text \<open>
  Any sequence of reads and writes on a pipe: the bytes that the writes reported as
  written, the bytes the reads returned, and the pipe after it.
\<close>

datatype pipe_op = PWrite bytes | PRead nat

fun pipe_run :: "PipeFD \<Rightarrow> pipe_op list \<Rightarrow> bytes \<times> bytes \<times> PipeFD" where
  "pipe_run fd [] = ([], [], fd)"
| "pipe_run fd (PWrite bs # ops) =
     (let (n, fd) = PipeFD_Write fd bs; (sent, got, fd) = pipe_run fd ops in (take n bs @ sent, got, fd))"
| "pipe_run fd (PRead n # ops) =
     (let (bs, fd) = PipeFD_Read fd n; (sent, got, fd) = pipe_run fd ops in (sent, bs @ got, fd))"

lemma pipe_run_spec:
  "pp_inv fd \<Longrightarrow> pipe_run fd ops = (sent, got, fd') \<Longrightarrow> pp_inv fd' \<and> pp_rep fd @ sent = got @ pp_rep fd'"
proof (induction ops arbitrary: fd sent got fd')
  case Nil
  then show ?case by simp
next
  case (Cons oper ops)
  show ?case
  proof (cases oper)
    case (PWrite bs)
    obtain n fd1 where w: "PipeFD_Write fd bs = (n, fd1)" by (cases "PipeFD_Write fd bs")
    obtain s g fd2 where r: "pipe_run fd1 ops = (s, g, fd2)" by (cases "pipe_run fd1 ops")
    note ws = PipeFD_Write_spec [OF Cons.prems(1) w]
    show ?thesis using Cons.prems(2) Cons.IH [OF ws(2) r] PWrite w r ws(3) by auto
  next
    case (PRead n)
    obtain bs fd1 where w: "PipeFD_Read fd n = (bs, fd1)" by (cases "PipeFD_Read fd n")
    obtain s g fd2 where r: "pipe_run fd1 ops = (s, g, fd2)" by (cases "pipe_run fd1 ops")
    note ws = PipeFD_Read_spec [OF Cons.prems(1) w]
    have "take n (pp_rep fd) @ drop n (pp_rep fd) @ s = take n (pp_rep fd) @ g @ pp_rep fd2"
      using Cons.IH [OF ws(2) r] ws(3) by simp
    then have "pp_rep fd @ s = take n (pp_rep fd) @ g @ pp_rep fd2"
      using append_take_drop_id [of n "pp_rep fd"] by (simp only: append_assoc [symmetric])
    then show ?thesis using Cons.prems(2) Cons.IH [OF ws(2) r] PRead w r ws(1) by auto
  qed
qed

text \<open>
  C36: A pipe is a stream. After any sequence of writes and reads on a new pipe, the bytes
  read so far are a prefix of the bytes written so far, in order and without loss; the rest,
  at most 4096 bytes, is in the pipe. The next write takes as many bytes as fit and reports
  that number, and the next read returns exactly the oldest bytes, as many as there are or
  were asked for.
\<close>

theorem pipe_stream:
  assumes "length mem = kPipeBufferSize" "pipe_run (fst (PipeFD_new h mem)) ops = (sent, got, fd)"
  shows "\<exists>rest. sent = got @ rest \<and> length rest \<le> 4096 \<and>
    (\<forall>bs. fst (PipeFD_Write fd bs) = min (length bs) (4096 - length rest)) \<and>
    (\<forall>n. fst (PipeFD_Read fd n) = take n rest)"
proof -
  have new: "pp_inv (fst (PipeFD_new h mem))" "pp_rep (fst (PipeFD_new h mem)) = []"
    using assms(1) by (simp_all add: PipeFD_new_def pp_inv_def pp_rep_def ring_ok_def kPipeBufferSize_def
        split: prod.split)
  have r: "pp_inv fd" "sent = got @ pp_rep fd"
    using pipe_run_spec [OF new(1) assms(2)] new(2) by simp_all
  have "fst (PipeFD_Write fd bs) = min (length bs) (4096 - length (pp_rep fd))" for bs
    using PipeFD_Write_spec(1) [OF r(1)] by (metis kPipeBufferSize_def prod.collapse)
  moreover have "fst (PipeFD_Read fd n) = take n (pp_rep fd)" for n
    using PipeFD_Read_spec(1) [OF r(1)] by (metis prod.collapse)
  moreover have "length (pp_rep fd) \<le> 4096"
    using pp.level_cap [OF r(1)] pp.level_rep [OF r(1)] by (simp add: kPipeBufferSize_def)
  ultimately show ?thesis using r(2) by blast
qed

theorem pipe_stream_witness:
  "\<exists>fd. pipe_run (fst (PipeFD_new \<lparr>kmm = sample_mm, cells = (\<lambda>_. 0)\<rparr> (replicate 4096 0)))
       [PWrite [1, 2, 3], PRead 2] = ([1, 2, 3], [1, 2], fd) \<and> fst (PipeFD_Read fd 10) = [3]"
proof -
  let ?h = "\<lparr>kmm = sample_mm, cells = (\<lambda>_. 0)\<rparr>" and ?m = "replicate 4096 (0 :: u8)"
  have new: "fst (PipeFD_new ?h ?m) = \<lparr>pp_addr = fst (operator_new ?h 4096), pp_buffer = ?m, pp_write_pos = 0,
      pp_read_pos = 0, pp_count = 0, pp_closed = False\<rparr>"
    by (simp add: PipeFD_new_def kPipeBufferSize_def split: prod.split)
  obtain fd where r: "pipe_run (fst (PipeFD_new ?h ?m)) [PWrite [1, 2, 3], PRead 2] = ([1, 2, 3], [1, 2], fd)"
    unfolding new by (simp add: pp_store_def kPipeBufferSize_def PipeFD_Read_def pp_take_def numeral_2_eq_2
        nth_list_update)
  from pipe_stream [OF _ r] have "fst (PipeFD_Read fd 10) = [3]" by (auto simp: kPipeBufferSize_def)
  then show ?thesis using r by blast
qed

section \<open>\<open>FileFD\<close>\<close>

record FileFD =
  ff_addr :: u64
  ff_buffer :: bytes
  ff_size :: u32
  ff_read_pos :: u32
  ff_valid :: bool
  ff_path :: bytes

definition kMaxFileSize :: u32 where
  "kMaxFileSize = 64 * 1024"

text \<open>
  The constructor. The driver is \<open>None\<close> while \<open>g_fat32_driver\<close> is null; the result is \<open>None\<close>
  only when the read loop of the driver does not end.
\<close>

definition FileFD_new :: "MemoryManager \<Rightarrow> 'd FAT32Driver option \<Rightarrow> bytes \<Rightarrow>
    (FileFD \<times> MemoryManager \<times> 'd FAT32Driver option) option" where
  "FileFD_new mm drv path =
     (let fd = \<lparr>ff_addr = 0, ff_buffer = [], ff_size = 0, ff_read_pos = 0, ff_valid = False,
                ff_path = take 127 (cstr path) @ [0]\<rparr>
      in case drv of
           None \<Rightarrow> Some (fd, mm, None)
         | Some fs \<Rightarrow>
             let (file_size, fs) = GetFileSize fs path
             in if file_size = 0 then Some (fd, mm, Some fs)
                else
                  let file_size = (if file_size > kMaxFileSize then kMaxFileSize else file_size);
                      (buffer, mm) = Allocate mm (ucast file_size)
                  in if buffer = 0 then Some (fd, mm, Some fs)
                     else do {
                       (read_bytes, data, fs) \<leftarrow> ReadFile fs path (fresh fs (unat file_size)) file_size 0;
                       if read_bytes > 0
                       then Some (fd\<lparr>ff_addr := buffer, ff_buffer := data, ff_size := read_bytes,
                                     ff_valid := True\<rparr>, mm, Some fs)
                       else Some (fd, Free mm buffer (ucast file_size), Some fs) })"

definition FileFD_delete :: "MemoryManager \<Rightarrow> FileFD \<Rightarrow> MemoryManager" where
  "FileFD_delete mm fd = (if ff_addr fd \<noteq> 0 then Free mm (ff_addr fd) (ucast (ff_size fd)) else mm)"

text \<open>The result is the return value and the bytes stored to \<open>buf\<close>.\<close>

definition FileFD_Read :: "FileFD \<Rightarrow> u64 \<Rightarrow> int \<times> bytes \<times> FileFD" where
  "FileFD_Read fd len =
     (if \<not> ff_valid fd \<or> ff_addr fd = 0 then (-1, [], fd)
      else
        let remaining = ff_size fd - ff_read_pos fd
        in if remaining = 0 then (0, [], fd)
           else
             let to_read = (if len > ucast remaining then ucast remaining else len)
             in (sint (ucast to_read :: u32),
                 buf_get (unat (ff_read_pos fd)) (unat to_read) (ff_buffer fd),
                 fd\<lparr>ff_read_pos := ff_read_pos fd + ucast to_read\<rparr>))"

definition FileFD_Write :: "FileFD \<Rightarrow> bytes \<Rightarrow> int \<times> FileFD" where
  "FileFD_Write fd buf = (-1, fd)"

text \<open>Successive reads: the return values and the bytes they deliver.\<close>

fun file_reads :: "FileFD \<Rightarrow> u64 list \<Rightarrow> int list \<times> bytes \<times> FileFD" where
  "file_reads fd [] = ([], [], fd)"
| "file_reads fd (len # lens) =
     (let (r, bs, fd) = FileFD_Read fd len; (rs, bss, fd) = file_reads fd lens in (r # rs, bs @ bss, fd))"

text \<open>An open file at position \<open>i\<close> of its contents.\<close>

definition ff_at :: "FileFD \<Rightarrow> bytes \<Rightarrow> nat \<Rightarrow> bool" where
  "ff_at fd data i \<longleftrightarrow> ff_valid fd \<and> ff_addr fd \<noteq> 0 \<and> ff_buffer fd = data \<and> length data \<le> 65536 \<and>
     unat (ff_size fd) = length data \<and> unat (ff_read_pos fd) = i \<and> i \<le> length data"

lemma FileFD_Read_at:
  assumes "ff_at fd data i" "FileFD_Read fd len = (r, bs, fd')"
  shows "r = int (min (unat len) (length data - i))" "bs = take (unat len) (drop i data)"
    "ff_at fd' data (i + min (unat len) (length data - i))"
proof -
  define rem where "rem = ff_size fd - ff_read_pos fd"
  define to_read :: u64 where "to_read = (if len > ucast rem then ucast rem else len)"
  have f: "ff_valid fd" "ff_addr fd \<noteq> 0" "ff_buffer fd = data" "length data \<le> 65536"
    "unat (ff_size fd) = length data" "unat (ff_read_pos fd) = i" "i \<le> length data"
    using assms(1) by (auto simp: ff_at_def)
  have ur: "unat rem = length data - i"
    using f by (simp add: rem_def unat_sub word_le_nat_alt)
  have ut: "unat to_read = min (unat len) (length data - i)"
    using ur by (auto simp: to_read_def word_less_nat_alt)
  then have small: "unat to_read \<le> 65536" using f(4) by simp
  have uc: "unat (ucast to_read :: u32) = unat to_read"
    using small by (simp add: unsigned_ucast_eq take_bit_nat_eq_self)
  have si: "sint (ucast to_read :: u32) = int (unat to_read)"
    using sint_u32_small [of "ucast to_read"] uc small by simp
  show "r = int (min (unat len) (length data - i))"
    using assms(2) f ut si ur by (auto simp: FileFD_Read_def Let_def rem_def [symmetric] to_read_def [symmetric] split: if_splits)
  show "bs = take (unat len) (drop i data)"
    using assms(2) f ut ur by (auto simp: FileFD_Read_def Let_def rem_def [symmetric] to_read_def [symmetric] buf_get_def
        min_def split: if_splits)
  show "ff_at fd' data (i + min (unat len) (length data - i))"
    using assms f ut ur uc by (auto simp: FileFD_Read_def Let_def rem_def [symmetric] to_read_def [symmetric] ff_at_def
        unat_word_ariths split: if_splits)
qed

lemma FileFD_Read_addr: "FileFD_Read fd len = (r, bs, fd') \<Longrightarrow> ff_addr fd' = ff_addr fd"
  by (auto simp: FileFD_Read_def Let_def split: if_splits)

lemma file_reads_at:
  "ff_at fd data i \<Longrightarrow> file_reads fd lens = (rs, bs, fd') \<Longrightarrow>
    bs = take (sum_list (map unat lens)) (drop i data) \<and>
    ff_at fd' data (min (i + sum_list (map unat lens)) (length data)) \<and> ff_addr fd' = ff_addr fd"
proof (induction lens arbitrary: fd i rs bs fd')
  case Nil
  then show ?case by (auto simp: ff_at_def)
next
  case (Cons len lens)
  obtain r b fd1 where r: "FileFD_Read fd len = (r, b, fd1)" by (cases "FileFD_Read fd len")
  obtain q c fd2 where q: "file_reads fd1 lens = (q, c, fd2)" by (cases "file_reads fd1 lens")
  note s = FileFD_Read_at [OF Cons.prems(1) r] and ih = Cons.IH [OF FileFD_Read_at(3) [OF Cons.prems(1) r] q]
  let ?k = "min (unat len) (length data - i)" and ?n = "sum_list (map unat lens)"
  have "drop (i + ?k) data = drop (unat len) (drop i data)"
    by (cases "unat len \<le> length data - i") (simp_all add: add.commute)
  then have "b @ c = take (unat len + ?n) (drop i data)"
    using ih s(2) by (simp add: take_add)
  moreover have "i \<le> length data" using Cons.prems(1) by (simp add: ff_at_def)
  then have "min (i + ?k + ?n) (length data) = min (i + (unat len + ?n)) (length data)" by arith
  ultimately show ?case
    using r q ih Cons.prems(2) FileFD_Read_addr [OF r] by auto
qed

text \<open>Opening and closing a file of the root directory.\<close>

context block_device
begin

lemma FileFD_new_st:
  assumes "st g fs m" "geom_ok nsec g" "simple_name path" "file_at g m (unat (g_root g)) k path data"
    and len: "0 < length data" "length data \<le> 65536"
    and al: "Allocate mm (of_nat (length data)) = (p, mm')" "p \<noteq> 0"
  shows "\<exists>fd fs'. FileFD_new mm (Some fs) path = Some (fd, mm', Some fs') \<and> st g fs' m \<and>
    ff_at fd data 0 \<and> ff_addr fd = p"
proof -
  have ld: "unat (of_nat (length data) :: u32) = length data" using len(2) by (simp add: of_nat_inverse)
  have size: "(of_nat (length data) :: u32) \<noteq> 0" "\<not> kMaxFileSize < of_nat (length data)"
    "(ucast (of_nat (length data) :: u32) :: u64) = of_nat (length data)"
    using len ld by (auto simp: kMaxFileSize_def word_less_nat_alt word_unat_eq_iff unsigned_of_nat take_bit_nat_eq_self)
  obtain fs1 where s: "GetFileSize fs path = (of_nat (length data), fs1)" "st g fs1 m"
    using GetFileSize_file_at [OF assms(1-4)] by blast
  obtain fs2 where r: "ReadFile fs1 path (fresh fs1 (length data)) (of_nat (length data)) 0 =
      Some (of_nat (length data), data @ drop (length data) (fresh fs1 (length data)), fs2)" "st g fs2 m"
    using ReadFile_file_at [OF s(2) assms(2) _ assms(3), of "g_root g" 0 k data "of_nat (length data)"
        "fresh fs1 (length data)"] assms(4) ld s(2) by auto
  have "drop (length data) (fresh fs1 (length data)) = []" using s(2) by simp
  moreover have "(0 :: u32) < of_nat (length data)" using size(1) by (simp add: word_gt_0)
  ultimately show ?thesis
    using s(1) r size al ld len(2) by (simp add: FileFD_new_def ff_at_def)
qed

end

lemma FileFD_delete_undoes:
  assumes "mm_inv mm" "ff_at fd data i" "0 < length data" "Allocate mm (of_nat (length data)) = (ff_addr fd, mm')"
  shows "FileFD_delete mm' fd = mm"
proof -
  have f: "ff_addr fd \<noteq> 0" "unat (ff_size fd) = length data" "length data \<le> 65536"
    using assms(2) by (auto simp: ff_at_def)
  have sz: "(ucast (ff_size fd) :: u64) = of_nat (length data)"
    using f(2,3) by (simp add: word_unat_eq_iff unsigned_of_nat take_bit_nat_eq_self)
  have "admissible (of_nat (length data))"
    using assms(3) f(3) by (auto simp: admissible_def word_unat_eq_iff unsigned_of_nat take_bit_nat_eq_self)
  from Free_Allocate [OF assms(1) this assms(4) f(1)] show ?thesis
    using f(1) by (simp add: FileFD_delete_def sz)
qed

text \<open>
  C13: A file written to the root directory can be opened and read as a stream. If it has
  at most 64 KiB and the frames for its buffer are free, the descriptor opened on its name
  after \<open>WriteFile\<close> is valid; successive reads of any sizes deliver its bytes in order, each
  read as many as were asked for or are left, then nothing more; and deleting the descriptor
  gives back exactly the memory that opening it took.
\<close>

theorem FileFD_streams_file:
  assumes "nvme_controller ctl c_inv c_head c_tail c_phase c_media nsec"
    and "nvme_fs ctl c_inv c_head c_tail c_phase c_media g fs m" "geom_ok nsec g"
    and "can_create g m (unat (g_root g)) k path"
    and "11 \<le> length name" "name ! 0 \<noteq> 0" "name ! 0 \<noteq> 0xE5" "IsNameEqual name path" "simple_name path"
    and "0 < length data" "length data \<le> 65536" "clusters_for g (length data) \<le> card (free_clusters g m)"
    and "mm_inv mm" "fst (Allocate mm (of_nat (length data))) \<noteq> 0"
  shows "\<exists>fs1 fs2 fd mm'. WriteFile fs name data (of_nat (length data)) 0 = Some fs1 \<and>
    FileFD_new mm (Some fs1) path = Some (fd, mm', Some fs2) \<and> ff_valid fd \<and>
    (\<forall>lens len rs bs fd'. file_reads fd lens = (rs, bs, fd') \<longrightarrow>
       bs = take (sum_list (map unat lens)) data \<and>
       fst (FileFD_Read fd' len) = int (min (unat len) (length data - sum_list (map unat lens))) \<and>
       FileFD_delete mm' fd' = mm)"
proof -
  note bd = nvme_controller.nvme_is_block_device [OF assms(1)] and st = assms(2) [unfolded nvme_fs_def]
  have "length data < 2 ^ 32" using assms(11) by simp
  from block_device.WriteFile_file_at_st [OF bd st assms(3) _ assms(4-8,10) this assms(12), of 0]
  obtain fs1 m1 where w: "WriteFile fs name data (of_nat (length data)) 0 = Some fs1"
    "fs_st (Nvme_ops ctl) (nvme_inv c_inv c_head c_tail c_phase) (nvme_media c_media) g fs1 m1"
    "file_at g m1 (unat (g_root g)) k path data" by auto
  obtain p mm' where al: "Allocate mm (of_nat (length data)) = (p, mm')" "p \<noteq> 0"
    using assms(14) by (cases "Allocate mm (of_nat (length data))") auto
  obtain fd fs2 where o: "FileFD_new mm (Some fs1) path = Some (fd, mm', Some fs2)" "ff_at fd data 0" "ff_addr fd = p"
    using block_device.FileFD_new_st [OF bd w(2) assms(3,9) w(3) assms(10,11) al] by blast
  have "bs = take (sum_list (map unat lens)) data \<and>
       fst (FileFD_Read fd' len) = int (min (unat len) (length data - sum_list (map unat lens))) \<and>
       FileFD_delete mm' fd' = mm" if r: "file_reads fd lens = (rs, bs, fd')" for lens len rs bs fd'
  proof -
    note f = file_reads_at [OF o(2) r]
    have at: "ff_at fd' data (min (sum_list (map unat lens)) (length data))" and ad: "ff_addr fd' = p"
      using f o(3) by simp_all
    obtain x y z where rd: "FileFD_Read fd' len = (x, y, z)" by (cases "FileFD_Read fd' len")
    have "length data - min (sum_list (map unat lens)) (length data) = length data - sum_list (map unat lens)"
      by arith
    then show ?thesis
      using f FileFD_Read_at(1) [OF at rd] rd FileFD_delete_undoes [OF assms(13) at assms(10)] al(1) ad by simp
  qed
  then show ?thesis using w(1) o by (auto simp: ff_at_def)
qed

theorem FileFD_streams_file_witness:
  "\<exists>fs1 fs2 fd mm'. WriteFile (sample_fs sample_medium) (str ''HELLO   TXT'') [1, 2, 3] 3 0 = Some fs1 \<and>
    FileFD_new sample_mm (Some fs1) (str ''hello.txt'') = Some (fd, mm', Some fs2) \<and>
    fst (snd (file_reads fd [2, 2])) = [1, 2, 3]"
proof -
  have first: "FindFreeFrame (mm_bitmap sample_mm) = 4"
    by (simp add: sample_mm_def bitmap_eval)
  have al: "fst (Allocate sample_mm (of_nat (length [1, 2, 3 :: u8]))) \<noteq> 0"
    by (simp add: Allocate_def frames_of_def kFrameSize_def AllocateFrame_def first)
  have cl: "clusters_for sample_geom (length [1, 2, 3 :: u8]) \<le> card (free_clusters sample_geom sample_medium)"
    using sample_free by (simp add: clusters_for_def sample_geom_def)
  have cc: "can_create sample_geom sample_medium (unat (g_root sample_geom)) 0 (str ''hello.txt'')"
    using sample_can_create by (simp add: sample_geom_def)
  from FileFD_streams_file [OF ram.nvme_controller_axioms sample_fs_st [OF sample_medium_ok] sample_geom_ok
      cc _ sample_name(3,4,1,2) _ _ cl sample_mm_inv al]
  obtain fs1 fs2 fd mm' where r: "WriteFile (sample_fs sample_medium) (str ''HELLO   TXT'') [1, 2, 3] 3 0 = Some fs1"
    "FileFD_new sample_mm (Some fs1) (str ''hello.txt'') = Some (fd, mm', Some fs2)"
    "\<And>lens rs bs fd'. file_reads fd lens = (rs, bs, fd') \<Longrightarrow> bs = take (sum_list (map unat lens)) [1, 2, 3]"
    using sample_name(5) by auto
  have "fst (snd (file_reads fd [2, 2])) = take (sum_list (map unat [2, 2 :: u64])) [1, 2, 3]"
    using r(3) by (metis prod.collapse)
  then show ?thesis using r(1,2) by auto
qed

end
