(* ===== verification/Logger.thy ===== *)
theory Logger
  imports Fat32 "HOL-Library.Sublist"
begin

text \<open>
  The event logger (kernel/sys/logger/logger.cpp, logger.hpp): a ring of the 256 most recent
  entries, retrieval with filters, and the binary log file that \<open>Flush\<close> appends to through
  the FAT32 driver.
\<close>

section \<open>Strings of the logger\<close>

definition str_len :: "bytes \<Rightarrow> nat" where
  "str_len s = length (cstr s)"

fun copy_loop :: "bytes \<Rightarrow> bytes \<Rightarrow> nat \<Rightarrow> nat \<Rightarrow> bytes" where
  "copy_loop dst [] i max_len = dst[i := 0]"
| "copy_loop dst (c # cs) i max_len =
     (if c \<noteq> 0 \<and> i < max_len - 1 then copy_loop (dst[i := c]) cs (i + 1) max_len
      else dst[i := 0])"

definition str_copy :: "bytes \<Rightarrow> bytes \<Rightarrow> nat \<Rightarrow> bytes" where
  "str_copy dst src max_len = copy_loop dst src 0 max_len"

text \<open>The needle is never null in the calls of the source; the haystack is an array.\<close>

definition str_contains :: "bytes \<Rightarrow> bytes \<Rightarrow> bool" where
  "str_contains haystack needle =
     (if cstr needle = [] then True
      else
        let h_len = str_len haystack; n_len = str_len needle
        in if n_len > h_len then False
           else list_ex (\<lambda>i. list_all (\<lambda>j. haystack ! (i + j) = needle ! j) [0..<n_len])
                  [0..<h_len - n_len + 1])"

section \<open>Entries\<close>

datatype LogLevel = LInfo | LWarning | LError

datatype LogType = TKernel | TFS | TDriver | TMemory | TApplication | TNetwork

record LogEntry =
  timestamp :: u64
  le_level :: LogLevel
  le_type :: LogType
  message :: bytes
  is_flushed :: bool

primrec level_code :: "LogLevel \<Rightarrow> u8" where
  "level_code LInfo = 0"
| "level_code LWarning = 1"
| "level_code LError = 2"

primrec type_code :: "LogType \<Rightarrow> u8" where
  "type_code TKernel = 0"
| "type_code TFS = 1"
| "type_code TDriver = 2"
| "type_code TMemory = 3"
| "type_code TApplication = 4"
| "type_code TNetwork = 5"

primrec LevelToString :: "LogLevel \<Rightarrow> string" where
  "LevelToString LInfo = ''INFO''"
| "LevelToString LWarning = ''WARN''"
| "LevelToString LError = ''ERROR''"

primrec TypeToString :: "LogType \<Rightarrow> string" where
  "TypeToString TKernel = ''Kernel''"
| "TypeToString TFS = ''FS''"
| "TypeToString TDriver = ''Driver''"
| "TypeToString TMemory = ''Memory''"
| "TypeToString TApplication = ''App''"
| "TypeToString TNetwork = ''Net''"

text \<open>The file header of 64 bytes and the file form of an entry, 512 bytes.\<close>

definition kLogFileMagic :: u32 where
  "kLogFileMagic = 0x474F4C53"

definition LogFileHeader_bytes :: bytes where
  "LogFileHeader_bytes =
     le32_put kLogFileMagic @ le16_put 1 @ le16_put 512 @ le32_put 0 @ replicate 52 0"

definition LogEntryBinary_bytes :: "LogEntry \<Rightarrow> bytes" where
  "LogEntryBinary_bytes e =
     le64_put (timestamp e) @ [level_code (le_level e), type_code (le_type e)] @
     le16_put (of_nat (str_len (message e))) @ take 128 (message e) @ replicate 128 0 @ replicate 240 0"

section \<open>The logger\<close>

definition kLogBufferSize :: nat where
  "kLogBufferSize = 256"

record EventLogger =
  lg_buffer :: "LogEntry list"
  lg_head :: nat
  lg_count :: nat
  tick_counter :: u64

text \<open>
  The constructor stores only the first byte of each message; \<open>mem\<close> is what the 128 bytes
  of each slot hold before.
\<close>

definition EventLogger_new :: "(nat \<Rightarrow> bytes) \<Rightarrow> EventLogger" where
  "EventLogger_new mem =
     \<lparr>lg_buffer = map (\<lambda>i. \<lparr>timestamp = 0, le_level = LInfo, le_type = TKernel, message = (mem i)[0 := 0],
                             is_flushed = True\<rparr>) [0..<kLogBufferSize],
      lg_head = 0, lg_count = 0, tick_counter = 0\<rparr>"

definition Log :: "EventLogger \<Rightarrow> LogLevel \<Rightarrow> LogType \<Rightarrow> bytes \<Rightarrow> EventLogger" where
  "Log lg level type msg =
     (let entry = \<lparr>timestamp = tick_counter lg, le_level = level, le_type = type,
                   message = str_copy (message (lg_buffer lg ! lg_head lg)) msg 128, is_flushed = False\<rparr>
      in lg\<lparr>lg_buffer := (lg_buffer lg)[lg_head lg := entry], tick_counter := tick_counter lg + 1,
            lg_head := (lg_head lg + 1) mod kLogBufferSize,
            lg_count := (if lg_count lg < kLogBufferSize then lg_count lg + 1 else lg_count lg)\<rparr>)"

definition Info :: "EventLogger \<Rightarrow> LogType \<Rightarrow> bytes \<Rightarrow> EventLogger" where
  "Info lg type msg = Log lg LInfo type msg"

definition Warning :: "EventLogger \<Rightarrow> LogType \<Rightarrow> bytes \<Rightarrow> EventLogger" where
  "Warning lg type msg = Log lg LWarning type msg"

definition Error :: "EventLogger \<Rightarrow> LogType \<Rightarrow> bytes \<Rightarrow> EventLogger" where
  "Error lg type msg = Log lg LError type msg"

text \<open>A null filter is \<open>None\<close>.\<close>

definition MatchesFilter :: "LogEntry \<Rightarrow> LogLevel option \<Rightarrow> LogType option \<Rightarrow> bytes option \<Rightarrow> bool" where
  "MatchesFilter entry filter_level filter_type keyword =
     (if (case filter_level of None \<Rightarrow> False | Some l \<Rightarrow> le_level entry \<noteq> l) then False
      else if (case filter_type of None \<Rightarrow> False | Some t \<Rightarrow> le_type entry \<noteq> t) then False
      else if (case keyword of None \<Rightarrow> False | Some k \<Rightarrow> \<not> str_contains (message entry) k) then False
      else True)"

definition start_idx :: "EventLogger \<Rightarrow> nat" where
  "start_idx lg = (if lg_count lg < kLogBufferSize then 0 else lg_head lg)"

text \<open>The retrieval loop over the indices \<open>i\<close> that are left.\<close>

fun logs_loop :: "EventLogger \<Rightarrow> (LogEntry \<Rightarrow> bool) \<Rightarrow> nat \<Rightarrow> nat \<Rightarrow> nat list \<Rightarrow> nat \<Rightarrow> nat \<Rightarrow> LogEntry list" where
  "logs_loop lg matches count offset [] retrieved skipped = []"
| "logs_loop lg matches count offset (i # is) retrieved skipped =
     (let entry = lg_buffer lg ! ((start_idx lg + i) mod kLogBufferSize)
      in if \<not> matches entry then logs_loop lg matches count offset is retrieved skipped
         else if skipped < offset then logs_loop lg matches count offset is retrieved (skipped + 1)
         else entry # (if retrieved + 1 \<ge> count then []
                       else logs_loop lg matches count offset is (retrieved + 1) skipped))"

definition GetLogs :: "EventLogger \<Rightarrow> u32 \<Rightarrow> u32 \<Rightarrow> LogLevel option \<Rightarrow> LogType option \<Rightarrow> bytes option \<Rightarrow> LogEntry list" where
  "GetLogs lg count offset filter_level filter_type keyword =
     (if lg_count lg = 0 \<or> count = 0 then []
      else logs_loop lg (\<lambda>e. MatchesFilter e filter_level filter_type keyword) (unat count) (unat offset)
             [0..<lg_count lg] 0 0)"

definition GetLogCount :: "EventLogger \<Rightarrow> LogLevel option \<Rightarrow> LogType option \<Rightarrow> bytes option \<Rightarrow> nat" where
  "GetLogCount lg filter_level filter_type keyword =
     (if lg_count lg = 0 then 0
      else fold (\<lambda>i matched.
                   let idx = (start_idx lg + i) mod kLogBufferSize
                   in if MatchesFilter (lg_buffer lg ! idx) filter_level filter_type keyword
                      then matched + 1 else matched) [0..<lg_count lg] 0)"

subsection \<open>\<open>Flush\<close>\<close>

definition flush_idx :: "EventLogger \<Rightarrow> nat \<Rightarrow> nat" where
  "flush_idx lg i = (if lg_count lg < kLogBufferSize then i else (lg_head lg + i) mod kLogBufferSize)"

text \<open>The conversion loop: the file bytes of the entries taken, and the marked buffer.\<close>

fun flush_loop :: "EventLogger \<Rightarrow> nat list \<Rightarrow> nat \<Rightarrow> bytes \<times> EventLogger" where
  "flush_loop lg [] left = ([], lg)"
| "flush_loop lg (i # is) left =
     (if left = 0 then ([], lg)
      else
        let idx = flush_idx lg i; entry = lg_buffer lg ! idx
        in if is_flushed entry then flush_loop lg is left
           else
             let lg = lg\<lparr>lg_buffer := (lg_buffer lg)[idx := entry\<lparr>is_flushed := True\<rparr>]\<rparr>;
                 (bs, lg) = flush_loop lg is (left - 1)
             in (LogEntryBinary_bytes entry @ bs, lg))"

definition kMaxEntriesPerFlush :: nat where
  "kMaxEntriesPerFlush = 8"

definition log_name :: bytes where
  "log_name = str ''SYSTEM  LOG''"

text \<open>
  \<open>Flush\<close>; the file system is \<open>None\<close> while \<open>g_system_fs\<close> is null, and the result is \<open>None\<close>
  only when an operation of the file system does not return.
\<close>

definition Flush :: "EventLogger \<Rightarrow> MemoryManager \<Rightarrow> 'd FAT32Driver option \<Rightarrow>
    (EventLogger \<times> MemoryManager \<times> 'd FAT32Driver option) option" where
  "Flush lg mm sysfs =
     (case sysfs of
        None \<Rightarrow> Some (lg, mm, None)
      | Some fs \<Rightarrow>
          let entries_to_flush =
            length (filter (\<lambda>i. \<not> is_flushed (lg_buffer lg ! flush_idx lg i)) [0..<lg_count lg])
          in if entries_to_flush = 0 then Some (lg, mm, Some fs)
             else do {
               let (existing_size, fs) = GetFileSize fs log_name;
               fs \<leftarrow> (if existing_size = 0 then WriteFile fs log_name LogFileHeader_bytes 64 0 else Some fs);
               let flush_count = (if entries_to_flush > kMaxEntriesPerFlush then kMaxEntriesPerFlush
                                  else entries_to_flush);
               let buf_size = 512 * flush_count;
               let (bin_entries, mm) = Allocate mm (of_nat buf_size);
               if bin_entries = 0 then Some (lg, mm, Some fs)
               else do {
                 let (bs, lg) = flush_loop lg [0..<lg_count lg] flush_count;
                 fs \<leftarrow> AppendFile fs log_name bs (of_nat (length bs)) 0;
                 Some (lg, Free mm bin_entries (of_nat buf_size), Some fs) } })"

section \<open>Facts about the string helpers\<close>

lemma cstr_simps [simp]: "cstr [] = []" "cstr (c # cs) = (if c = 0 then [] else c # cstr cs)"
  by (simp_all add: cstr_def)

lemma nth_cstr: "i < length (cstr s) \<Longrightarrow> cstr s ! i = s ! i"
  by (simp add: cstr_def takeWhile_nth)

lemma length_cstr_le: "length (cstr s) \<le> length s"
  by (simp add: cstr_def length_takeWhile_le)

lemma str_contains_sublist: "str_contains h n \<longleftrightarrow> sublist (cstr n) (cstr h)"
proof -
  have "(\<exists>i \<le> length (cstr h) - length (cstr n). \<forall>j < length (cstr n). h ! (i + j) = n ! j) \<longleftrightarrow>
      sublist (cstr n) (cstr h)" if le: "length (cstr n) \<le> length (cstr h)"
  proof
    assume "\<exists>i \<le> length (cstr h) - length (cstr n). \<forall>j < length (cstr n). h ! (i + j) = n ! j"
    then obtain i where i: "i \<le> length (cstr h) - length (cstr n)" "\<And>j. j < length (cstr n) \<Longrightarrow> h ! (i + j) = n ! j"
      by blast
    have "buf_get i (length (cstr n)) (cstr h) = cstr n"
      using i le by (intro nth_equalityI) (auto simp: length_buf_get nth_buf_get nth_cstr)
    then have "cstr h = take i (cstr h) @ cstr n @ drop (length (cstr n)) (drop i (cstr h))"
      by (metis append_take_drop_id buf_get_def)
    then show "sublist (cstr n) (cstr h)" by (metis sublist_appendI)
  next
    assume "sublist (cstr n) (cstr h)"
    then obtain u v where uv: "cstr h = u @ cstr n @ v" by (auto simp: sublist_def)
    have "h ! (length u + j) = n ! j" if "j < length (cstr n)" for j
    proof -
      have "h ! (length u + j) = cstr h ! (length u + j)" using uv that nth_cstr [of "length u + j" h] by simp
      also have "\<dots> = cstr n ! j" using that by (simp add: uv nth_append)
      finally show ?thesis using that by (simp add: nth_cstr)
    qed
    then show "\<exists>i \<le> length (cstr h) - length (cstr n). \<forall>j < length (cstr n). h ! (i + j) = n ! j"
      using uv by (intro exI [of _ "length u"]) simp
  qed
  moreover have "\<not> sublist (cstr n) (cstr h)" if "length (cstr h) < length (cstr n)"
    using that sublist_length_le [of "cstr n" "cstr h"] by auto
  moreover have "list_ex (\<lambda>i. list_all (\<lambda>j. h ! (i + j) = n ! j) [0..<k]) [0..<Suc m] \<longleftrightarrow>
      (\<exists>i \<le> m. \<forall>j < k. h ! (i + j) = n ! j)" for k m
    by (simp add: list_ex_iff list_all_iff Bex_def Ball_def less_Suc_eq_le del: upt_Suc)
  ultimately show ?thesis
    by (cases "cstr n = []") (auto simp: str_contains_def str_len_def Let_def not_less simp del: upt_Suc)
qed

text \<open>\<open>str_copy\<close> truncates to the buffer and always terminates the string.\<close>

lemma length_copy_loop [simp]: "length (copy_loop dst src i m) = length dst"
  by (induction dst src i m rule: copy_loop.induct) auto

lemma copy_loop_spec:
  "i < m \<Longrightarrow> m \<le> length dst \<Longrightarrow>
    copy_loop dst src i m = take i dst @ take (m - 1 - i) (cstr src) @ [0] @
      drop (i + Suc (min (m - 1 - i) (length (cstr src)))) dst"
proof (induction dst src i m rule: copy_loop.induct)
  case (1 dst i m)
  then show ?case by (simp add: upd_conv_take_nth_drop)
next
  case (2 dst c cs i m)
  show ?case
  proof (cases "c \<noteq> 0 \<and> i < m - 1")
    case False
    then show ?thesis using 2(2,3) by (auto simp: upd_conv_take_nth_drop)
  next
    case True
    then have h: "i + 1 < m" "m \<le> length (dst[i := c])" using 2(2,3) by auto
    have "take (i + 1) (dst[i := c]) = take i dst @ [c]"
      using h by (simp add: take_Suc_conv_app_nth)
    moreover have "take (m - 1 - i) (c # cstr cs) = c # take (m - 1 - (i + 1)) (cstr cs)"
      using True by (auto simp: take_Cons')
    moreover have "min (m - 1 - i) (Suc (length (cstr cs))) = Suc (min (m - 1 - (i + 1)) (length (cstr cs)))"
      using True by arith
    ultimately show ?thesis using 2(1) [OF True h] True by simp
  qed
qed

lemma cstr_str_copy:
  assumes "0 < m" "m \<le> length dst"
  shows "cstr (str_copy dst src m) = take (m - 1) (cstr src)"
proof -
  have nz: "\<forall>c \<in> set (take (m - 1) (cstr src)). c \<noteq> 0"
    using set_take_subset [of "m - 1" "cstr src"] set_takeWhileD unfolding cstr_def by fastforce
  have "cstr (xs @ 0 # ys) = xs" if "\<forall>c \<in> set xs. c \<noteq> 0" for xs ys :: bytes
    using that by (induction xs) auto
  from this [OF nz] show ?thesis using copy_loop_spec [of 0 m dst src] assms by (simp add: str_copy_def)
qed

section \<open>The ring of entries\<close>

definition lg_inv :: "EventLogger \<Rightarrow> bool" where
  "lg_inv lg \<longleftrightarrow> ring_ok kLogBufferSize (lg_buffer lg) (start_idx lg) (lg_head lg) (lg_count lg) \<and>
     (\<forall>e \<in> set (lg_buffer lg). length (message e) = 128)"

definition lg_rep :: "EventLogger \<Rightarrow> LogEntry list" where
  "lg_rep lg = ring_list kLogBufferSize (lg_buffer lg) (start_idx lg) (lg_count lg)"

lemma lg_new: "(\<And>i. length (mem i) = 128) \<Longrightarrow> lg_inv (EventLogger_new mem) \<and> lg_rep (EventLogger_new mem) = []"
  by (auto simp: lg_inv_def lg_rep_def EventLogger_new_def ring_ok_def start_idx_def kLogBufferSize_def)

text \<open>What a reader sees of an entry: everything but the bytes after the end of the message.\<close>

definition entry_view :: "LogEntry \<Rightarrow> u64 \<times> LogLevel \<times> LogType \<times> bytes" where
  "entry_view e = (timestamp e, le_level e, le_type e, cstr (message e))"

lemma Log_spec:
  assumes "lg_inv lg" "lg' = Log lg level type msg"
  shows "lg_inv lg'" "tick_counter lg' = tick_counter lg + 1"
    "\<exists>e. lg_rep lg' = (if length (lg_rep lg) < 256 then lg_rep lg else tl (lg_rep lg)) @ [e] \<and>
      entry_view e = (tick_counter lg, level, type, take 127 (cstr msg)) \<and> \<not> is_flushed e"
proof -
  define e where "e = \<lparr>timestamp = tick_counter lg, le_level = level, le_type = type,
     message = str_copy (message (lg_buffer lg ! lg_head lg)) msg 128, is_flushed = False\<rparr>"
  let ?b = "lg_buffer lg" and ?h = "lg_head lg" and ?n = "lg_count lg"
  have ok: "ring_ok 256 ?b (start_idx lg) ?h ?n" and ms: "\<forall>e \<in> set ?b. length (message e) = 128"
    using assms(1) by (simp_all add: lg_inv_def kLogBufferSize_def)
  have hl: "?h < length ?b" "?n \<le> 256" using ok by (auto simp: ring_ok_def)
  then have m: "length (message (?b ! ?h)) = 128" using ms by simp
  have lg': "lg' = lg\<lparr>lg_buffer := ?b[?h := e], tick_counter := tick_counter lg + 1, lg_head := (?h + 1) mod 256,
      lg_count := (if ?n < 256 then ?n + 1 else ?n)\<rparr>"
    by (simp add: assms(2) Log_def e_def Let_def kLogBufferSize_def)
  have ms': "\<forall>e \<in> set (lg_buffer lg'). length (message e) = 128"
    using ms m set_update_subset_insert [of ?b ?h e] by (auto simp: lg' e_def str_copy_def)
  have ring: "ring_ok 256 (lg_buffer lg') (start_idx lg') (lg_head lg') (lg_count lg') \<and>
      lg_rep lg' = (if ?n < 256 then lg_rep lg else tl (lg_rep lg)) @ [e]"
  proof (cases "?n < 256")
    case True
    then have s: "start_idx lg = 0" and h: "?h = ?n"
      using ok by (auto simp: start_idx_def kLogBufferSize_def ring_ok_def)
    have "(?n + 1) mod 256 = 0" if "\<not> ?n + 1 < 256"
    proof -
      have "?n + 1 = 256" using True that by simp
      then show ?thesis by simp
    qed
    then have s': "start_idx lg' = 0"
      using True h by (auto simp: start_idx_def lg' kLogBufferSize_def)
    show ?thesis
      using ring_put [OF ok True, of e] True unfolding lg_rep_def s s' kLogBufferSize_def by (simp add: lg')
  next
    case False
    then have n: "?n = 256" and s: "start_idx lg = ?h"
      using hl by (auto simp: start_idx_def kLogBufferSize_def)
    have s': "start_idx lg' = (?h + 1) mod 256" using n by (simp add: start_idx_def lg' kLogBufferSize_def)
    show ?thesis
      using ring_replace [OF ok [unfolded s n], of e] n unfolding lg_rep_def s s' kLogBufferSize_def by (simp add: lg')
  qed
  show "lg_inv lg'" using ring ms' by (simp add: lg_inv_def kLogBufferSize_def)
  show "tick_counter lg' = tick_counter lg + 1" by (simp add: lg')
  have "entry_view e = (tick_counter lg, level, type, take 127 (cstr msg))"
    using cstr_str_copy [of 128 "message (?b ! ?h)" msg] m by (simp add: entry_view_def e_def)
  moreover have "\<not> is_flushed e" by (simp add: e_def)
  moreover have "length (lg_rep lg) = ?n" by (simp add: lg_rep_def)
  ultimately show "\<exists>e. lg_rep lg' = (if length (lg_rep lg) < 256 then lg_rep lg else tl (lg_rep lg)) @ [e] \<and>
      entry_view e = (tick_counter lg, level, type, take 127 (cstr msg)) \<and> \<not> is_flushed e"
    using ring by auto
qed

section \<open>Retrieval\<close>

lemma logs_loop_spec:
  "retrieved < count \<Longrightarrow> logs_loop lg P count offset is retrieved skipped =
    take (count - retrieved) (drop (offset - skipped)
      (filter P (map (\<lambda>i. lg_buffer lg ! ((start_idx lg + i) mod kLogBufferSize)) is)))"
proof (induction lg P count offset "is" retrieved skipped rule: logs_loop.induct)
  case (2 lg P count offset i "is" retrieved skipped)
  let ?e = "lg_buffer lg ! ((start_idx lg + i) mod kLogBufferSize)"
  consider "\<not> P ?e" | "P ?e" "skipped < offset" | "P ?e" "\<not> skipped < offset" by blast
  then show ?case
  proof cases
    case 1
    then show ?thesis using 2(1) [OF refl] 2(4) by simp
  next
    case c: 2
    then have "offset - skipped = Suc (offset - (skipped + 1))" by simp
    then show ?thesis using 2(2) [OF refl _ c(2)] 2(4) c by simp
  next
    case c: 3
    show ?thesis
    proof (cases "retrieved + 1 \<ge> count")
      case True
      then have "count - retrieved = 1" using 2(4) by simp
      then show ?thesis using c True by simp
    next
      case False
      then have "count - retrieved = Suc (count - (retrieved + 1))" by simp
      then show ?thesis using 2(3) [OF refl _ c(2) False] c False by simp
    qed
  qed
qed simp

lemma GetLogs_spec:
  "GetLogs lg count offset fl ft kw =
    take (unat count) (drop (unat offset) (filter (\<lambda>e. MatchesFilter e fl ft kw) (lg_rep lg)))"
proof (cases "lg_count lg = 0 \<or> count = 0")
  case True
  then show ?thesis by (auto simp: GetLogs_def lg_rep_def)
next
  case False
  then have "0 < unat count" by (simp add: unat_gt_0)
  then show ?thesis using False logs_loop_spec [of 0 "unat count"] by (simp add: GetLogs_def lg_rep_def ring_list_def)
qed

lemma fold_count: "fold (\<lambda>x n. if P x then n + 1 else n) xs (k :: nat) = k + length (filter P xs)"
  by (induction xs arbitrary: k) auto

lemma GetLogCount_spec: "GetLogCount lg fl ft kw = length (filter (\<lambda>e. MatchesFilter e fl ft kw) (lg_rep lg))"
proof -
  let ?f = "\<lambda>i. lg_buffer lg ! ((start_idx lg + i) mod kLogBufferSize)"
  have "GetLogCount lg fl ft kw = length (filter (\<lambda>i. MatchesFilter (?f i) fl ft kw) [0..<lg_count lg])"
    using fold_count [of "\<lambda>i. MatchesFilter (?f i) fl ft kw" "[0..<lg_count lg]" 0]
    by (simp add: GetLogCount_def Let_def)
  then show ?thesis by (simp add: lg_rep_def ring_list_def filter_map comp_def)
qed

text \<open>
  The abstract logger: the history of all calls, each with its number as time stamp and its
  message cut to 127 characters, of which the latest 256 are kept.
\<close>

definition history :: "(LogLevel \<times> LogType \<times> bytes) list \<Rightarrow> (u64 \<times> LogLevel \<times> LogType \<times> bytes) list" where
  "history calls = map (\<lambda>(i, l, t, m). (of_nat i, l, t, take 127 (cstr m))) (enumerate 0 calls)"

definition latest :: "nat \<Rightarrow> 'a list \<Rightarrow> 'a list" where
  "latest n xs = drop (length xs - n) xs"

definition view_matches :: "LogLevel option \<Rightarrow> LogType option \<Rightarrow> bytes option \<Rightarrow>
    u64 \<times> LogLevel \<times> LogType \<times> bytes \<Rightarrow> bool" where
  "view_matches fl ft kw = (\<lambda>(ts, l, t, m). (\<forall>x. fl = Some x \<longrightarrow> l = x) \<and> (\<forall>x. ft = Some x \<longrightarrow> t = x) \<and>
     (\<forall>k. kw = Some k \<longrightarrow> sublist (cstr k) m))"

definition log_all :: "EventLogger \<Rightarrow> (LogLevel \<times> LogType \<times> bytes) list \<Rightarrow> EventLogger" where
  "log_all lg calls = fold (\<lambda>(l, t, m) lg. Log lg l t m) calls lg"

lemma MatchesFilter_view: "MatchesFilter e fl ft kw \<longleftrightarrow> view_matches fl ft kw (entry_view e)"
  by (auto simp: MatchesFilter_def view_matches_def entry_view_def str_contains_sublist split: option.splits)

lemma history_snoc: "history (calls @ [(l, t, m)]) = history calls @ [(of_nat (length calls), l, t, take 127 (cstr m))]"
  by (simp add: history_def enumerate_append_eq)

lemma length_history [simp]: "length (history calls) = length calls"
  by (simp add: history_def)

lemma latest_snoc: "0 < n \<Longrightarrow> latest n (xs @ [x]) = (if length xs < n then xs else tl (latest n xs)) @ [x]"
  by (auto simp: latest_def Suc_diff_le drop_Suc tl_drop)

lemma latest_short: "length xs \<le> n \<Longrightarrow> latest n xs = xs"
  by (simp add: latest_def)

lemma length_latest: "length (latest n xs) = min n (length xs)"
  by (simp add: latest_def)

lemma log_all_rep:
  assumes "\<And>i. length (mem i) = 128"
  shows "lg_inv (log_all (EventLogger_new mem) calls) \<and>
    tick_counter (log_all (EventLogger_new mem) calls) = of_nat (length calls) \<and>
    map entry_view (lg_rep (log_all (EventLogger_new mem) calls)) = latest 256 (history calls)"
proof (induction calls rule: rev_induct)
  case Nil
  then show ?case using lg_new [of mem] assms
    by (simp add: log_all_def history_def latest_def) (simp add: EventLogger_new_def)
next
  case (snoc x calls)
  obtain l t m where x: "x = (l, t, m)" by (cases x)
  define lg where "lg = log_all (EventLogger_new mem) calls"
  have step: "log_all (EventLogger_new mem) (calls @ [x]) = Log lg l t m" by (simp add: log_all_def lg_def x)
  have ih: "lg_inv lg" "tick_counter lg = of_nat (length calls)" "map entry_view (lg_rep lg) = latest 256 (history calls)"
    using snoc.IH by (simp_all add: lg_def)
  note L = Log_spec [OF ih(1) refl, of l t m]
  obtain e where e: "lg_rep (Log lg l t m) = (if length (lg_rep lg) < 256 then lg_rep lg else tl (lg_rep lg)) @ [e]"
    "entry_view e = (tick_counter lg, l, t, take 127 (cstr m))" using L(3) by blast
  have len: "length (lg_rep lg) = min 256 (length calls)"
    using arg_cong [OF ih(3), of length] by (simp add: length_latest)
  have "map entry_view (lg_rep (Log lg l t m)) = latest 256 (history (calls @ [x]))"
    using e ih(2,3) len by (auto simp: x history_snoc latest_snoc map_tl latest_short)
  then show ?case using L(1,2) ih(2) by (simp add: step)
qed

text \<open>
  C37: The logger keeps the latest 256 entries. After any sequence of log calls on a new
  logger, \<open>GetLogs\<close> returns, oldest first, the entries among the latest 256 calls that match
  the level, the type and contain the keyword as a substring, from position \<open>offset\<close> on and at
  most \<open>count\<close> of them; \<open>GetLogCount\<close> is their number. Entries are stamped with the number of
  the call, and messages are cut to 127 characters.
\<close>

theorem logger_keeps_latest:
  assumes "\<And>i. length (mem i) = 128" and "lg = log_all (EventLogger_new mem) calls"
    and "found = filter (view_matches fl ft kw) (latest 256 (history calls))"
  shows "map entry_view (GetLogs lg count offset fl ft kw) = take (unat count) (drop (unat offset) found) \<and>
    GetLogCount lg fl ft kw = length found"
proof -
  have rep: "map entry_view (lg_rep lg) = latest 256 (history calls)"
    using log_all_rep [OF assms(1)] assms(2) by simp
  have f: "found = map entry_view (filter (\<lambda>e. MatchesFilter e fl ft kw) (lg_rep lg))"
    unfolding assms(3) rep [symmetric] by (simp add: filter_map comp_def MatchesFilter_view)
  show ?thesis
    unfolding f GetLogs_spec GetLogCount_spec by (simp add: take_map drop_map)
qed

theorem logger_keeps_latest_witness:
  "map entry_view (GetLogs (log_all (EventLogger_new (\<lambda>_. replicate 128 0))
       [(LInfo, TFS, [0x61, 0x62]), (LError, TFS, [0x62]), (LError, TKernel, [0x61])]) 5 0 (Some LError) None (Some [0x62])) =
     [(1, LError, TFS, [0x62])]"
proof -
  let ?c = "[(LInfo, TFS, [0x61, 0x62]), (LError, TFS, [0x62]), (LError, TKernel, [0x61])] :: (LogLevel \<times> LogType \<times> bytes) list"
  have f: "filter (view_matches (Some LError) None (Some [0x62])) (latest 256 (history ?c)) = [(1, LError, TFS, [0x62])]"
    by (simp add: history_def latest_def view_matches_def sublist_Cons_right)
  show ?thesis
    using logger_keeps_latest [of "\<lambda>_. replicate 128 0", OF _ refl refl, where calls = ?c and fl = "Some LError"
        and ft = None and kw = "Some [0x62]" and count = 5 and offset = 0]
    unfolding f by simp
qed

end
