(* ===== verification/Graphics.thy ===== *)
theory Graphics
  imports Font
begin

text \<open>
  Drawing into the linear frame buffer (kernel/graphics.hpp, graphics.cpp). The frame buffer
  is a function from pixel indices to colours; indices are computed as in the code, modulo
  \<open>2 ^ 32\<close>. Coordinates are \<open>int\<close>; where the code compares them with the unsigned resolution,
  they are converted.
\<close>

record FrameBufferConfig =
  FrameBufferBase :: u64
  FrameBufferSize :: u64
  HorizontalResolution :: u32
  VerticalResolution :: u32
  PixelsPerScanLine :: u32

type_synonym frame = "u32 \<Rightarrow> u32"

definition pixel_index :: "FrameBufferConfig \<Rightarrow> int \<Rightarrow> int \<Rightarrow> u32" where
  "pixel_index config x y = of_int y * PixelsPerScanLine config + of_int x"

fun fill_row :: "FrameBufferConfig \<Rightarrow> int \<Rightarrow> int \<Rightarrow> u32 \<Rightarrow> nat list \<Rightarrow> frame \<Rightarrow> frame" where
  "fill_row config x current_y color [] base = base"
| "fill_row config x current_y color (dx # dxs) base =
     (let current_x = x + int dx
      in if of_int current_x \<ge> HorizontalResolution config then base
         else fill_row config x current_y color dxs (base(pixel_index config current_x current_y := color)))"

fun fill_rows :: "FrameBufferConfig \<Rightarrow> int \<Rightarrow> int \<Rightarrow> int \<Rightarrow> u32 \<Rightarrow> nat list \<Rightarrow> frame \<Rightarrow> frame" where
  "fill_rows config x y w color [] base = base"
| "fill_rows config x y w color (dy # dys) base =
     (let current_y = y + int dy
      in if of_int current_y \<ge> VerticalResolution config then base
         else fill_rows config x y w color dys (fill_row config x current_y color [0..<nat w] base))"

definition FillRectangle :: "FrameBufferConfig \<Rightarrow> int \<Rightarrow> int \<Rightarrow> int \<Rightarrow> int \<Rightarrow> u32 \<Rightarrow> frame \<Rightarrow> frame" where
  "FillRectangle config x y w h color base = fill_rows config x y w color [0..<nat h] base"

fun ascii_row :: "FrameBufferConfig \<Rightarrow> int \<Rightarrow> int \<Rightarrow> u8 \<Rightarrow> u32 \<Rightarrow> u32 \<Rightarrow> nat list \<Rightarrow> frame \<Rightarrow> frame" where
  "ascii_row config x y row_bitmap fg_color bg_color [] base = base"
| "ascii_row config x y row_bitmap fg_color bg_color (dx # dxs) base =
     (if of_int (x + int dx) \<ge> HorizontalResolution config then base
      else ascii_row config x y row_bitmap fg_color bg_color dxs
             (base(pixel_index config (x + int dx) y :=
                if drop_bit (7 - dx) row_bitmap AND 1 \<noteq> 0 then fg_color else bg_color)))"

fun ascii_rows :: "FrameBufferConfig \<Rightarrow> int \<Rightarrow> int \<Rightarrow> bytes \<Rightarrow> u32 \<Rightarrow> u32 \<Rightarrow> nat list \<Rightarrow> frame \<Rightarrow> frame" where
  "ascii_rows config x y font fg_color bg_color [] base = base"
| "ascii_rows config x y font fg_color bg_color (dy # dys) base =
     (if of_int (y + int dy) \<ge> VerticalResolution config then base
      else ascii_rows config x y font fg_color bg_color dys
             (ascii_row config x (y + int dy) (font ! dy) fg_color bg_color [0..<8] base))"

definition WriteAscii :: "FrameBufferConfig \<Rightarrow> int \<Rightarrow> int \<Rightarrow> u8 \<Rightarrow> u32 \<Rightarrow> u32 \<Rightarrow> frame \<Rightarrow> frame" where
  "WriteAscii config x y c fg_color bg_color base =
     (case GetFont c of
        None \<Rightarrow> base
      | Some font \<Rightarrow> ascii_rows config x y font fg_color bg_color [0..<16] base)"

fun WriteString :: "FrameBufferConfig \<Rightarrow> int \<Rightarrow> int \<Rightarrow> bytes \<Rightarrow> u32 \<Rightarrow> u32 \<Rightarrow> frame \<Rightarrow> frame" where
  "WriteString config cursor_x y [] fg_color bg_color base = base"
| "WriteString config cursor_x y (c # s) fg_color bg_color base =
     (if c = 0 then base
      else WriteString config (cursor_x + 8) y s fg_color bg_color
             (WriteAscii config cursor_x y c fg_color bg_color base))"

section \<open>Pixels on the screen\<close>

text \<open>
  A usable mode: a scan line holds a row, the frame buffer has fewer than \<open>2 ^ 31\<close> pixels.
\<close>

definition mode_ok :: "FrameBufferConfig \<Rightarrow> bool" where
  "mode_ok cfg \<longleftrightarrow> unat (HorizontalResolution cfg) \<le> unat (PixelsPerScanLine cfg) \<and>
     unat (PixelsPerScanLine cfg) * unat (VerticalResolution cfg) < 2 ^ 31 \<and>
     0 < unat (HorizontalResolution cfg) \<and> 0 < unat (VerticalResolution cfg)"

abbreviation width :: "FrameBufferConfig \<Rightarrow> nat" where
  "width cfg \<equiv> unat (HorizontalResolution cfg)"

abbreviation height :: "FrameBufferConfig \<Rightarrow> nat" where
  "height cfg \<equiv> unat (VerticalResolution cfg)"

definition pix :: "FrameBufferConfig \<Rightarrow> frame \<Rightarrow> nat \<Rightarrow> nat \<Rightarrow> u32" where
  "pix cfg fb x y = fb (pixel_index cfg (int x) (int y))"

definition visible :: "FrameBufferConfig \<Rightarrow> u32 set" where
  "visible cfg = {pixel_index cfg (int x) (int y) |x y. x < width cfg \<and> y < height cfg}"

text \<open>Two frames that differ only on the screen.\<close>

definition off_screen_eq :: "FrameBufferConfig \<Rightarrow> frame \<Rightarrow> frame \<Rightarrow> bool" where
  "off_screen_eq cfg fb fb' \<longleftrightarrow> (\<forall>i. i \<notin> visible cfg \<longrightarrow> fb' i = fb i)"

lemma mode_small:
  assumes "mode_ok cfg" shows "width cfg < 2 ^ 31" "height cfg < 2 ^ 31"
proof -
  have h: "width cfg \<le> unat (PixelsPerScanLine cfg)" "unat (PixelsPerScanLine cfg) * height cfg < 2 ^ 31"
    "0 < width cfg" "0 < height cfg" using assms by (simp_all add: mode_ok_def)
  have "unat (PixelsPerScanLine cfg) * 1 \<le> unat (PixelsPerScanLine cfg) * height cfg"
    "1 * height cfg \<le> unat (PixelsPerScanLine cfg) * height cfg"
    using h by (intro mult_le_mono; simp)+
  then show "width cfg < 2 ^ 31" "height cfg < 2 ^ 31" using h by linarith+
qed

lemma unat_pixel_index:
  assumes "mode_ok cfg" "x < width cfg" "y < height cfg"
  shows "unat (pixel_index cfg (int x) (int y)) = y * unat (PixelsPerScanLine cfg) + x"
proof -
  let ?p = "unat (PixelsPerScanLine cfg)"
  have h: "width cfg \<le> ?p" "?p * height cfg < 2 ^ 31" using assms(1) by (simp_all add: mode_ok_def)
  have "y * ?p + x < (y + 1) * ?p" using assms(2) h(1) by simp
  also have "\<dots> \<le> height cfg * ?p" using assms(3) by (intro mult_le_mono) simp_all
  finally have b: "y * ?p + x < 2 ^ 31" using h(2) by (simp add: mult.commute)
  have "pixel_index cfg (int x) (int y) = of_nat (y * ?p + x)"
    by (simp add: pixel_index_def)
  then show ?thesis using b by (simp only: unsigned_of_nat) (simp add: take_bit_nat_eq_self)
qed

lemma pixel_index_inj:
  assumes "mode_ok cfg" "x < width cfg" "y < height cfg" "x' < width cfg" "y' < height cfg"
    and "pixel_index cfg (int x) (int y) = pixel_index cfg (int x') (int y')"
  shows "x = x' \<and> y = y'"
proof -
  let ?p = "unat (PixelsPerScanLine cfg)"
  have h: "width cfg \<le> ?p" using assms(1) by (simp add: mode_ok_def)
  have e: "y * ?p + x = y' * ?p + x'"
    using unat_pixel_index [OF assms(1-3)] unat_pixel_index [OF assms(1,4,5)] assms(6) by simp
  have lt: "x < ?p" "x' < ?p" using assms(2,4) h by simp_all
  have "(y * ?p + x) div ?p = y" "(y' * ?p + x') div ?p = y'" using lt by simp_all
  then show ?thesis using e by (metis add_left_cancel)
qed

lemma pix_upd:
  assumes "mode_ok cfg" "x < width cfg" "y < height cfg" "x' < width cfg" "y' < height cfg"
  shows "pix cfg (fb(pixel_index cfg (int x) (int y) := v)) x' y' = (if x' = x \<and> y' = y then v else pix cfg fb x' y')"
  using pixel_index_inj [OF assms] by (auto simp: pix_def)

lemma on_screen_x: "mode_ok cfg \<Longrightarrow> x < 2 ^ 31 \<Longrightarrow> HorizontalResolution cfg \<le> of_int (int x) \<longleftrightarrow> width cfg \<le> x"
  by (simp add: word_le_nat_alt unsigned_of_nat take_bit_nat_eq_self)

lemma on_screen_y: "mode_ok cfg \<Longrightarrow> y < 2 ^ 31 \<Longrightarrow> VerticalResolution cfg \<le> of_int (int y) \<longleftrightarrow> height cfg \<le> y"
  by (simp add: word_le_nat_alt unsigned_of_nat take_bit_nat_eq_self)

section \<open>What the drawing operations paint\<close>

text \<open>
  Both operations are loops that paint a rectangle with a colour for each pixel and stop at
  the edge of the screen.
\<close>

fun paint_row :: "FrameBufferConfig \<Rightarrow> int \<Rightarrow> int \<Rightarrow> (nat \<Rightarrow> u32) \<Rightarrow> nat list \<Rightarrow> frame \<Rightarrow> frame" where
  "paint_row cfg x y f [] fb = fb"
| "paint_row cfg x y f (dx # dxs) fb =
     (if of_int (x + int dx) \<ge> HorizontalResolution cfg then fb
      else paint_row cfg x y f dxs (fb(pixel_index cfg (x + int dx) y := f dx)))"

fun paint_rows :: "FrameBufferConfig \<Rightarrow> int \<Rightarrow> int \<Rightarrow> nat \<Rightarrow> (nat \<Rightarrow> nat \<Rightarrow> u32) \<Rightarrow> nat list \<Rightarrow> frame \<Rightarrow> frame" where
  "paint_rows cfg x y w f [] fb = fb"
| "paint_rows cfg x y w f (dy # dys) fb =
     (if of_int (y + int dy) \<ge> VerticalResolution cfg then fb
      else paint_rows cfg x y w f dys (paint_row cfg x (y + int dy) (f dy) [0..<w] fb))"

lemma fill_row_paint: "fill_row cfg x y c dxs fb = paint_row cfg x y (\<lambda>_. c) dxs fb"
  by (induction dxs arbitrary: fb) (simp_all add: Let_def)

lemma FillRectangle_paint: "FillRectangle cfg x y w h c fb = paint_rows cfg x y (nat w) (\<lambda>_ _. c) [0..<nat h] fb"
proof -
  have "fill_rows cfg x y w c dys fb = paint_rows cfg x y (nat w) (\<lambda>_ _. c) dys fb" for dys
    by (induction dys arbitrary: fb) (simp_all add: Let_def fill_row_paint)
  then show ?thesis by (simp add: FillRectangle_def)
qed

definition glyph :: "bytes \<Rightarrow> u32 \<Rightarrow> u32 \<Rightarrow> nat \<Rightarrow> nat \<Rightarrow> u32" where
  "glyph font fg bg dy dx = (if bit (font ! dy) (7 - dx) then fg else bg)"

lemma and_1_bit: "drop_bit n (b :: u8) AND 1 \<noteq> 0 \<longleftrightarrow> bit b n"
  by (simp add: and_one_eq bit_iff_odd_drop_bit odd_iff_mod_2_eq_one)

lemma ascii_row_paint: "ascii_row cfg x y (font ! dy) fg bg dxs fb = paint_row cfg x y (glyph font fg bg dy) dxs fb"
  by (induction dxs arbitrary: fb) (simp_all add: glyph_def and_1_bit)

lemma ascii_rows_paint: "ascii_rows cfg x y font fg bg dys fb = paint_rows cfg x y 8 (glyph font fg bg) dys fb"
  by (induction dys arbitrary: fb) (simp_all add: ascii_row_paint del: upt_rec_numeral)

lemma off_screen_refl [simp]: "off_screen_eq cfg fb fb"
  by (simp add: off_screen_eq_def)

lemma off_screen_trans: "off_screen_eq cfg a b \<Longrightarrow> off_screen_eq cfg b c \<Longrightarrow> off_screen_eq cfg a c"
  by (simp add: off_screen_eq_def)

lemma off_screen_upd:
  "x < width cfg \<Longrightarrow> y < height cfg \<Longrightarrow> off_screen_eq cfg fb (fb(pixel_index cfg (int x) (int y) := v))"
  by (auto simp: off_screen_eq_def visible_def)

lemma paint_row_spec:
  assumes "mode_ok cfg" "y < height cfg" "x + n \<le> 2 ^ 31" "x' < width cfg" "y' < height cfg" "k \<le> n"
  shows "off_screen_eq cfg fb (paint_row cfg (int x) (int y) f [k..<n] fb) \<and>
    pix cfg (paint_row cfg (int x) (int y) f [k..<n] fb) x' y' =
      (if y' = y \<and> x + k \<le> x' \<and> x' < x + n then f (x' - x) else pix cfg fb x' y')"
  using assms(6)
proof (induction "n - k" arbitrary: k fb)
  case 0
  then have "n = k" by simp
  then show ?case by auto
next
  case (Suc d)
  then have kn: "k < n" by simp
  have sx: "int x + int k = int (x + k)" by simp
  have edge: "HorizontalResolution cfg \<le> of_int (int (x + k)) \<longleftrightarrow> width cfg \<le> x + k"
    using on_screen_x [OF assms(1), of "x + k"] assms(3) kn by simp
  show ?case
  proof (cases "width cfg \<le> x + k")
    case True
    then show ?thesis using kn assms(4) edge by (simp only: upt_conv_Cons paint_row.simps sx) auto
  next
    case False
    then have on: "x + k < width cfg" by simp
    let ?fb = "fb(pixel_index cfg (int (x + k)) (int y) := f k)"
    have step: "paint_row cfg (int x) (int y) f [k..<n] fb = paint_row cfg (int x) (int y) f [Suc k..<n] ?fb"
      using kn edge False by (simp only: upt_conv_Cons paint_row.simps sx) simp
    have ih: "off_screen_eq cfg ?fb (paint_row cfg (int x) (int y) f [Suc k..<n] ?fb) \<and>
      pix cfg (paint_row cfg (int x) (int y) f [Suc k..<n] ?fb) x' y' =
        (if y' = y \<and> x + Suc k \<le> x' \<and> x' < x + n then f (x' - x) else pix cfg ?fb x' y')"
      using Suc.hyps(1) [of "Suc k" ?fb] Suc.hyps(2) kn by simp
    have "pix cfg ?fb x' y' = (if x' = x + k \<and> y' = y then f k else pix cfg fb x' y')"
      using pix_upd [OF assms(1) on assms(2,4,5)] .
    moreover have "x' = x + k \<Longrightarrow> x' - x = k" by simp
    moreover have "x + k \<le> x' \<longleftrightarrow> x' = x + k \<or> x + Suc k \<le> x'" by arith
    ultimately have "pix cfg (paint_row cfg (int x) (int y) f [k..<n] fb) x' y' =
        (if y' = y \<and> x + k \<le> x' \<and> x' < x + n then f (x' - x) else pix cfg fb x' y')"
      using ih kn unfolding step by auto
    moreover have "off_screen_eq cfg fb ?fb" by (rule off_screen_upd [OF on assms(2)])
    ultimately show ?thesis using ih off_screen_trans unfolding step by blast
  qed
qed

lemma paint_rows_spec:
  assumes "mode_ok cfg" "x + w \<le> 2 ^ 31" "y + n \<le> 2 ^ 31" "x' < width cfg" "y' < height cfg" "k \<le> n"
  shows "off_screen_eq cfg fb (paint_rows cfg (int x) (int y) w f [k..<n] fb) \<and>
    pix cfg (paint_rows cfg (int x) (int y) w f [k..<n] fb) x' y' =
      (if y + k \<le> y' \<and> y' < y + n \<and> x \<le> x' \<and> x' < x + w then f (y' - y) (x' - x) else pix cfg fb x' y')"
  using assms(6)
proof (induction "n - k" arbitrary: k fb)
  case 0
  then have "n = k" by simp
  then show ?case by auto
next
  case (Suc d)
  then have kn: "k < n" by simp
  have sy: "int y + int k = int (y + k)" by simp
  have edge: "VerticalResolution cfg \<le> of_int (int (y + k)) \<longleftrightarrow> height cfg \<le> y + k"
    using on_screen_y [OF assms(1), of "y + k"] assms(3) kn by simp
  show ?case
  proof (cases "height cfg \<le> y + k")
    case True
    then show ?thesis using kn assms(5) edge by (simp only: upt_conv_Cons paint_rows.simps sy) auto
  next
    case False
    then have on: "y + k < height cfg" by simp
    let ?fb = "paint_row cfg (int x) (int (y + k)) (f k) [0..<w] fb"
    have step: "paint_rows cfg (int x) (int y) w f [k..<n] fb = paint_rows cfg (int x) (int y) w f [Suc k..<n] ?fb"
      using kn edge False by (simp only: upt_conv_Cons paint_rows.simps sy) simp
    have ih: "off_screen_eq cfg ?fb (paint_rows cfg (int x) (int y) w f [Suc k..<n] ?fb) \<and>
      pix cfg (paint_rows cfg (int x) (int y) w f [Suc k..<n] ?fb) x' y' =
        (if y + Suc k \<le> y' \<and> y' < y + n \<and> x \<le> x' \<and> x' < x + w then f (y' - y) (x' - x) else pix cfg ?fb x' y')"
      using Suc.hyps(1) [of "Suc k" ?fb] Suc.hyps(2) kn by simp
    have row: "off_screen_eq cfg fb ?fb \<and> pix cfg ?fb x' y' =
        (if y' = y + k \<and> x \<le> x' \<and> x' < x + w then f k (x' - x) else pix cfg fb x' y')"
      using paint_row_spec [OF assms(1) on assms(2,4,5), of 0 fb "f k"] by simp
    have "y' = y + k \<Longrightarrow> y' - y = k" "y + k \<le> y' \<longleftrightarrow> y' = y + k \<or> y + Suc k \<le> y'" by arith+
    then have "pix cfg (paint_rows cfg (int x) (int y) w f [k..<n] fb) x' y' =
        (if y + k \<le> y' \<and> y' < y + n \<and> x \<le> x' \<and> x' < x + w then f (y' - y) (x' - x) else pix cfg fb x' y')"
      using ih row kn unfolding step by auto
    then show ?thesis using ih row off_screen_trans unfolding step by blast
  qed
qed

lemma FillRectangle_spec:
  assumes "mode_ok cfg" "x + w \<le> 2 ^ 31" "y + h \<le> 2 ^ 31" "x' < width cfg" "y' < height cfg"
  shows "off_screen_eq cfg fb (FillRectangle cfg (int x) (int y) (int w) (int h) c fb)"
    and "pix cfg (FillRectangle cfg (int x) (int y) (int w) (int h) c fb) x' y' =
      (if y \<le> y' \<and> y' < y + h \<and> x \<le> x' \<and> x' < x + w then c else pix cfg fb x' y')"
  using paint_rows_spec [OF assms, of 0 fb "\<lambda>_ _. c"] by (simp_all add: FillRectangle_paint)

lemma WriteAscii_spec:
  assumes "mode_ok cfg" "x + 8 \<le> 2 ^ 31" "y + 16 \<le> 2 ^ 31" "x' < width cfg" "y' < height cfg"
  shows "off_screen_eq cfg fb (WriteAscii cfg (int x) (int y) c fg bg fb)"
    and "pix cfg (WriteAscii cfg (int x) (int y) c fg bg fb) x' y' =
      (case GetFont c of None \<Rightarrow> pix cfg fb x' y'
       | Some font \<Rightarrow> if y \<le> y' \<and> y' < y + 16 \<and> x \<le> x' \<and> x' < x + 8
                      then glyph font fg bg (y' - y) (x' - x) else pix cfg fb x' y')"
proof -
  have "off_screen_eq cfg fb (paint_rows cfg (int x) (int y) 8 (glyph font fg bg) [0..<16] fb) \<and>
    pix cfg (paint_rows cfg (int x) (int y) 8 (glyph font fg bg) [0..<16] fb) x' y' =
      (if y \<le> y' \<and> y' < y + 16 \<and> x \<le> x' \<and> x' < x + 8 then glyph font fg bg (y' - y) (x' - x) else pix cfg fb x' y')"
    for font
    using paint_rows_spec [OF assms, of 0 fb "glyph font fg bg"] by (simp del: upt_rec_numeral)
  then show "off_screen_eq cfg fb (WriteAscii cfg (int x) (int y) c fg bg fb)"
    and "pix cfg (WriteAscii cfg (int x) (int y) c fg bg fb) x' y' =
      (case GetFont c of None \<Rightarrow> pix cfg fb x' y'
       | Some font \<Rightarrow> if y \<le> y' \<and> y' < y + 16 \<and> x \<le> x' \<and> x' < x + 8
                      then glyph font fg bg (y' - y) (x' - x) else pix cfg fb x' y')"
    by (simp_all add: WriteAscii_def ascii_rows_paint split: option.split del: upt_rec_numeral)
qed

end
