(* ===== verification/Console.thy ===== *)
theory Console
  imports Graphics FatNames
begin

text \<open>
  The text console (kernel/console.hpp, console.cpp): the cursor, scrolling, and the state
  machine for ANSI colour sequences, drawing into the frame buffer; and \<open>ConsoleFD\<close>
  (kernel/sys/std/file_descriptor.hpp), which writes to it. The code's output to the serial
  port exists only in debug builds and is left out. The refinement at the end says that the
  pixels show the character cells of a terminal.
\<close>

datatype con_State = kNormal | kEsc | kBracket | kParam

record Console =
  con_config :: FrameBufferConfig
  fg_color :: u32
  bg_color :: u32
  cursor_row :: int
  cursor_column :: int
  con_rows :: int
  con_columns :: int
  con_state :: con_State
  esc_buf :: bytes
  esc_buf_idx :: nat
  default_fg_color :: u32
  default_bg_color :: u32

text \<open>\<open>mem\<close> is what the 32 bytes of \<open>esc_buf_\<close> hold before.\<close>

definition Console_new :: "FrameBufferConfig \<Rightarrow> u32 \<Rightarrow> u32 \<Rightarrow> bytes \<Rightarrow> Console" where
  "Console_new config fg bg mem =
     \<lparr>con_config = config, fg_color = fg, bg_color = bg, cursor_row = 0, cursor_column = 0,
      con_rows = int (unat (VerticalResolution config div 16)),
      con_columns = int (unat (HorizontalResolution config div 8)),
      con_state = kNormal, esc_buf = mem, esc_buf_idx = 0, default_fg_color = fg, default_bg_color = bg\<rparr>"

section \<open>Scrolling\<close>

definition copy_row :: "FrameBufferConfig \<Rightarrow> nat \<Rightarrow> nat \<Rightarrow> frame \<Rightarrow> frame" where
  "copy_row config n y base =
     fold (\<lambda>x base. base(pixel_index config (int x) (int y) := base (pixel_index config (int x) (int (y + 16)))))
       [0..<n] base"

definition Refresh :: "Console \<Rightarrow> frame \<Rightarrow> frame" where
  "Refresh con base =
     (let config = con_config con;
          copy_height = sint (VerticalResolution config - 16);
          base = fold (copy_row config (unat (HorizontalResolution config))) [0..<nat copy_height] base
      in FillRectangle config 0 ((con_rows con - 1) * 16) (sint (HorizontalResolution config)) 16
           (bg_color con) base)"

definition NewLine :: "Console \<Rightarrow> frame \<Rightarrow> Console \<times> frame" where
  "NewLine con base =
     (let con = con\<lparr>cursor_column := 0\<rparr>
      in if cursor_row con < con_rows con - 1
         then (con\<lparr>cursor_row := cursor_row con + 1\<rparr>, base)
         else (con, Refresh con base))"

section \<open>Escape sequences\<close>

text \<open>
  The decimal value of the parameter. The code accumulates it in an \<open>int\<close>; here the sum
  wraps, which is what the usual code generation gives for ten digits and more.
\<close>

fun ansi_value :: "u32 \<Rightarrow> bytes \<Rightarrow> u32" where
  "ansi_value param [] = param"
| "ansi_value param (c # p) = (if c = 0 then param else ansi_value (param * 10 + ucast (c - 0x30)) p)"

definition kAnsiColors :: "u32 list" where
  "kAnsiColors = [0x000000, 0xFF0000, 0x00FF00, 0xFFFF00, 0x0000FF, 0xFF00FF, 0x00FFFF, 0xFFFFFF]"

definition ExecuteAnsiCommand :: "Console \<Rightarrow> Console" where
  "ExecuteAnsiCommand con =
     (let param = sint (ansi_value 0 (esc_buf con))
      in if param = 0
         then con\<lparr>fg_color := default_fg_color con, bg_color := default_bg_color con\<rparr>
         else if param \<ge> 30 \<and> param \<le> 37 then con\<lparr>fg_color := kAnsiColors ! nat (param - 30)\<rparr>
         else if param \<ge> 40 \<and> param \<le> 47 then con\<lparr>bg_color := kAnsiColors ! nat (param - 40)\<rparr>
         else con)"

definition is_digit :: "u8 \<Rightarrow> bool" where
  "is_digit c \<longleftrightarrow> c \<ge> 0x30 \<and> c \<le> 0x39"

definition push_digit :: "Console \<Rightarrow> u8 \<Rightarrow> Console" where
  "push_digit con c =
     (if esc_buf_idx con < 32 - 1
      then con\<lparr>esc_buf := (esc_buf con)[esc_buf_idx con := c], esc_buf_idx := esc_buf_idx con + 1\<rparr>
      else con)"

definition end_param :: "Console \<Rightarrow> Console" where
  "end_param con = ExecuteAnsiCommand (con\<lparr>esc_buf := (esc_buf con)[esc_buf_idx con := 0]\<rparr>)"

definition ProcessEscapeSequence :: "Console \<Rightarrow> u8 \<Rightarrow> Console" where
  "ProcessEscapeSequence con c =
     (case con_state con of
        kEsc \<Rightarrow>
          if c = 0x5B then con\<lparr>con_state := kBracket, esc_buf_idx := 0\<rparr> else con\<lparr>con_state := kNormal\<rparr>
      | kBracket \<Rightarrow>
          if is_digit c then push_digit (con\<lparr>con_state := kParam\<rparr>) c
          else if c = 0x6D
          then (ExecuteAnsiCommand (con\<lparr>esc_buf := (esc_buf con)[0 := 0x30, 1 := 0]\<rparr>))\<lparr>con_state := kNormal\<rparr>
          else con\<lparr>con_state := kNormal\<rparr>
      | kParam \<Rightarrow>
          if is_digit c then push_digit con c
          else if c = 0x3B then (end_param con)\<lparr>esc_buf_idx := 0\<rparr>
          else if c = 0x6D then (end_param con)\<lparr>con_state := kNormal\<rparr>
          else con\<lparr>con_state := kNormal\<rparr>
      | kNormal \<Rightarrow> con)"

section \<open>Output\<close>

text \<open>One turn of the loop of \<open>PutString\<close>.\<close>

definition PutChar :: "Console \<Rightarrow> frame \<Rightarrow> u8 \<Rightarrow> Console \<times> frame" where
  "PutChar con base c =
     (let (con, base) =
        (if con_state con \<noteq> kNormal then (ProcessEscapeSequence con c, base)
         else if c = 0x1B then (con\<lparr>con_state := kEsc\<rparr>, base)
         else if c = 0x0A then NewLine con base
         else if c = 0x08
         then (if cursor_column con > 0
               then let con = con\<lparr>cursor_column := cursor_column con - 1\<rparr>
                    in (con, WriteAscii (con_config con) (cursor_column con * 8) (cursor_row con * 16) 0x20
                               (bg_color con) (bg_color con) base)
               else (con, base))
         else if cursor_column con < con_columns con
         then (con\<lparr>cursor_column := cursor_column con + 1\<rparr>,
               WriteAscii (con_config con) (cursor_column con * 8) (cursor_row con * 16) c
                 (fg_color con) (bg_color con) base)
         else (con, base))
      in if cursor_column con \<ge> con_columns con then NewLine con base else (con, base))"

fun PutString :: "Console \<Rightarrow> frame \<Rightarrow> bytes \<Rightarrow> Console \<times> frame" where
  "PutString con base [] = (con, base)"
| "PutString con base (c # s) =
     (if c = 0 then (con, base)
      else let (con, base) = PutChar con base c in PutString con base s)"

definition SetColor :: "Console \<Rightarrow> u32 \<Rightarrow> u32 \<Rightarrow> Console" where
  "SetColor con fg bg = con\<lparr>fg_color := fg, bg_color := bg\<rparr>"

definition Panic :: "Console \<Rightarrow> frame \<Rightarrow> u32 \<Rightarrow> u32 \<Rightarrow> Console \<times> frame" where
  "Panic con base fg bg =
     (let con = con\<lparr>fg_color := fg, bg_color := bg\<rparr>;
          base = FillRectangle (con_config con) 0 0 (sint (HorizontalResolution (con_config con)))
                   (sint (VerticalResolution (con_config con))) bg base
      in (con\<lparr>cursor_row := 0, cursor_column := 0\<rparr>, base))"

text \<open>\<open>ConsoleFD\<close>: each byte as a string of its own; without a console nothing is written.\<close>

definition ConsoleFD_Read :: "nat \<Rightarrow> int" where
  "ConsoleFD_Read len = 0"

fun console_write :: "Console \<Rightarrow> frame \<Rightarrow> bytes \<Rightarrow> Console \<times> frame" where
  "console_write con base [] = (con, base)"
| "console_write con base (c # s) =
     (let (con, base) = PutString con base [c, 0] in console_write con base s)"

definition ConsoleFD_Write :: "(Console \<times> frame) option \<Rightarrow> bytes \<Rightarrow> nat \<times> (Console \<times> frame) option" where
  "ConsoleFD_Write g_console buf =
     (case g_console of
        None \<Rightarrow> (0, None)
      | Some (con, base) \<Rightarrow> (length buf, Some (console_write con base buf)))"

section \<open>Facts about scrolling\<close>

lemma copy_row_spec:
  assumes "mode_ok cfg" "y + 16 < height cfg" "x' < width cfg" "y' < height cfg" "n \<le> width cfg"
  shows "off_screen_eq cfg fb (copy_row cfg n y fb) \<and>
    pix cfg (copy_row cfg n y fb) x' y' = (if y' = y \<and> x' < n then pix cfg fb x' (y + 16) else pix cfg fb x' y')"
  using assms(3-5)
proof (induction n arbitrary: x' y')
  case 0
  then show ?case by (simp add: copy_row_def)
next
  case (Suc n)
  let ?fb = "copy_row cfg n y fb"
  have n: "n < width cfg" and y: "y < height cfg" using Suc.prems(3) assms(2) by simp_all
  have step: "copy_row cfg (Suc n) y fb = ?fb(pixel_index cfg (int n) (int y) := pix cfg ?fb n (y + 16))"
    by (simp add: copy_row_def pix_def)
  have "pix cfg ?fb n (y + 16) = pix cfg fb n (y + 16)" using Suc.IH [OF n assms(2)] n by simp
  moreover have "off_screen_eq cfg ?fb (copy_row cfg (Suc n) y fb)"
    unfolding step by (rule off_screen_upd [OF n y])
  moreover have "pix cfg (copy_row cfg (Suc n) y fb) x' y' =
      (if x' = n \<and> y' = y then pix cfg ?fb n (y + 16) else pix cfg ?fb x' y')"
    unfolding step by (rule pix_upd [OF assms(1) n y Suc.prems(1,2)])
  moreover have "off_screen_eq cfg fb ?fb" "pix cfg ?fb x' y' = (if y' = y \<and> x' < n then pix cfg fb x' (y + 16) else pix cfg fb x' y')"
    using Suc.IH [OF Suc.prems(1,2)] n by simp_all
  ultimately show ?case
    using off_screen_trans [of cfg fb ?fb "copy_row cfg (Suc n) y fb"] by (auto simp: less_Suc_eq)
qed

lemma copy_rows_spec:
  assumes "mode_ok cfg" "x' < width cfg" "y' < height cfg" "m + 16 \<le> height cfg"
  shows "off_screen_eq cfg fb (fold (copy_row cfg (width cfg)) [0..<m] fb) \<and>
    pix cfg (fold (copy_row cfg (width cfg)) [0..<m] fb) x' y' =
      (if y' < m then pix cfg fb x' (y' + 16) else pix cfg fb x' y')"
  using assms(3,4)
proof (induction m arbitrary: y')
  case 0
  then show ?case by simp
next
  case (Suc m)
  let ?fb = "fold (copy_row cfg (width cfg)) [0..<m] fb"
  have m: "m + 16 < height cfg" using Suc.prems(2) by simp
  have "pix cfg ?fb x' (m + 16) = pix cfg fb x' (m + 16)" using Suc.IH [OF m] m by simp
  then show ?case
    using Suc.IH [OF Suc.prems(1)] m copy_row_spec [OF assms(1) m assms(2) Suc.prems(1) order_refl, of ?fb] assms(2)
      off_screen_trans [of cfg fb ?fb] by (simp add: less_Suc_eq)
qed

text \<open>The geometry of a console: it has at least one row and one column.\<close>

definition con_ok :: "Console \<Rightarrow> bool" where
  "con_ok con \<longleftrightarrow> mode_ok (con_config con) \<and> 16 \<le> height (con_config con) \<and> 8 \<le> width (con_config con) \<and>
     con_rows con = int (height (con_config con) div 16) \<and> con_columns con = int (width (con_config con) div 8)"

lemma Refresh_spec:
  assumes "con_ok con" "cfg = con_config con" "x < width cfg" "y < height cfg"
  shows "off_screen_eq cfg fb (Refresh con fb)"
    and "pix cfg (Refresh con fb) x y =
      (if (height cfg div 16 - 1) * 16 \<le> y \<and> y < height cfg div 16 * 16 then bg_color con
       else if y + 16 < height cfg then pix cfg fb x (y + 16) else pix cfg fb x y)"
proof -
  have m: "mode_ok cfg" "16 \<le> height cfg" and r: "con_rows con = int (height cfg div 16)"
    using assms(1,2) by (simp_all add: con_ok_def)
  note small = mode_small [OF m(1)]
  have pos: "0 < height cfg div 16" using m(2) by (simp add: div_greater_zero_iff)
  have "unat (VerticalResolution cfg - 16) = height cfg - 16"
    using m(2) by (simp add: unat_sub word_le_nat_alt)
  then have ch: "nat (sint (VerticalResolution cfg - 16)) = height cfg - 16"
    using sint_u32_small [of "VerticalResolution cfg - 16"] small(2) by simp
  have w: "sint (HorizontalResolution cfg) = int (width cfg)" using sint_u32_small small(1) by simp
  have row: "(con_rows con - 1) * 16 = int ((height cfg div 16 - 1) * 16)"
    using pos by (simp add: r of_nat_diff)
  let ?fb = "fold (copy_row cfg (width cfg)) [0..<height cfg - 16] fb"
  have ref: "Refresh con fb = FillRectangle cfg (int 0) (int ((height cfg div 16 - 1) * 16)) (int (width cfg)) (int 16)
      (bg_color con) ?fb"
    unfolding Refresh_def Let_def assms(2) [symmetric] row w ch by simp
  have last: "(height cfg div 16 - 1) * 16 + 16 = height cfg div 16 * 16"
    using pos by (simp add: diff_mult_distrib)
  have bnd: "0 + width cfg \<le> 2 ^ 31" "(height cfg div 16 - 1) * 16 + 16 \<le> 2 ^ 31"
    using small div_times_less_eq_dividend [of "height cfg" 16] unfolding last by simp_all
  have cr: "height cfg - 16 + 16 \<le> height cfg" using m(2) by simp
  note fill = FillRectangle_spec [OF m(1) bnd assms(3,4), where fb = ?fb and c = "bg_color con", folded ref]
    and copy = copy_rows_spec [OF m(1) assms(3,4) cr, of fb]
  show "off_screen_eq cfg fb (Refresh con fb)" using fill(1) copy off_screen_trans by blast
  have "y < height cfg - 16 \<longleftrightarrow> y + 16 < height cfg" by arith
  then show "pix cfg (Refresh con fb) x y =
      (if (height cfg div 16 - 1) * 16 \<le> y \<and> y < height cfg div 16 * 16 then bg_color con
       else if y + 16 < height cfg then pix cfg fb x (y + 16) else pix cfg fb x y)"
    using fill(2) copy assms(3) unfolding last by simp
qed

section \<open>A terminal of character cells\<close>

text \<open>
  The specification: a grid of cells, each a picture of 16 rows and 8 columns, a cursor, two
  colours, and the part of a colour sequence read so far.
\<close>

datatype tmode = Plain | Escape | Csi | Params bytes

type_synonym cell = "nat \<Rightarrow> nat \<Rightarrow> u32"

record terminal =
  t_cells :: "nat \<Rightarrow> nat \<Rightarrow> cell"
  t_row :: nat
  t_col :: nat
  t_fg :: u32
  t_bg :: u32
  t_dfg :: u32
  t_dbg :: u32
  t_mode :: tmode

definition t_newline :: "nat \<Rightarrow> terminal \<Rightarrow> terminal" where
  "t_newline R t =
     (if t_row t + 1 < R then t\<lparr>t_col := 0, t_row := t_row t + 1\<rparr>
      else t\<lparr>t_col := 0, t_cells := (\<lambda>r. if r + 1 < R then t_cells t (r + 1) else (\<lambda>c dy dx. t_bg t))\<rparr>)"

definition set_cell :: "nat \<Rightarrow> nat \<Rightarrow> cell \<Rightarrow> terminal \<Rightarrow> terminal" where
  "set_cell r c p t = t\<lparr>t_cells := (t_cells t)(r := (t_cells t r)(c := p))\<rparr>"

definition digits_value :: "bytes \<Rightarrow> nat" where
  "digits_value ds = foldl (\<lambda>n d. n * 10 + (unat d - 48)) 0 ds"

text \<open>Select graphic rendition: 0 resets, 30 to 37 and 40 to 47 choose a colour.\<close>

definition t_sgr :: "nat \<Rightarrow> terminal \<Rightarrow> terminal" where
  "t_sgr n t =
     (if n = 0 then t\<lparr>t_fg := t_dfg t, t_bg := t_dbg t\<rparr>
      else if 30 \<le> n \<and> n \<le> 37 then t\<lparr>t_fg := kAnsiColors ! (n - 30)\<rparr>
      else if 40 \<le> n \<and> n \<le> 47 then t\<lparr>t_bg := kAnsiColors ! (n - 40)\<rparr>
      else t)"

definition t_escape :: "terminal \<Rightarrow> u8 \<Rightarrow> terminal" where
  "t_escape t c =
     (case t_mode t of
        Plain \<Rightarrow> t
      | Escape \<Rightarrow> t\<lparr>t_mode := (if c = 0x5B then Csi else Plain)\<rparr>
      | Csi \<Rightarrow> if is_digit c then t\<lparr>t_mode := Params [c]\<rparr>
               else (if c = 0x6D then t_sgr 0 t else t)\<lparr>t_mode := Plain\<rparr>
      | Params ds \<Rightarrow>
          if is_digit c then t\<lparr>t_mode := Params (take 31 (ds @ [c]))\<rparr>
          else if c = 0x3B then (t_sgr (digits_value ds mod 2 ^ 32) t)\<lparr>t_mode := Params []\<rparr>
          else (if c = 0x6D then t_sgr (digits_value ds mod 2 ^ 32) t else t)\<lparr>t_mode := Plain\<rparr>)"

definition t_putc :: "nat \<Rightarrow> nat \<Rightarrow> u8 \<Rightarrow> terminal \<Rightarrow> terminal" where
  "t_putc R C c t =
     (if t_mode t \<noteq> Plain then t_escape t c
      else if c = 0x1B then t\<lparr>t_mode := Escape\<rparr>
      else if c = 0x0A then t_newline R t
      else if c = 0x08
      then (if t_col t = 0 then t
            else set_cell (t_row t) (t_col t - 1) (\<lambda>dy dx. t_bg t) (t\<lparr>t_col := t_col t - 1\<rparr>))
      else
        let t' = (case GetFont c of None \<Rightarrow> t
                  | Some font \<Rightarrow> set_cell (t_row t) (t_col t) (glyph font (t_fg t) (t_bg t)) t);
            t' = t'\<lparr>t_col := t_col t + 1\<rparr>
        in if t_col t + 1 < C then t' else t_newline R t')"

text \<open>The pixels show the cells.\<close>

definition shows_cells :: "FrameBufferConfig \<Rightarrow> frame \<Rightarrow> (nat \<Rightarrow> nat \<Rightarrow> cell) \<Rightarrow> bool" where
  "shows_cells cfg fb cells \<longleftrightarrow>
     (\<forall>r c dy dx. r < height cfg div 16 \<longrightarrow> c < width cfg div 8 \<longrightarrow> dy < 16 \<longrightarrow> dx < 8 \<longrightarrow>
        pix cfg fb (8 * c + dx) (16 * r + dy) = cells r c dy dx)"

definition con_mode :: "Console \<Rightarrow> tmode" where
  "con_mode con = (case con_state con of kNormal \<Rightarrow> Plain | kEsc \<Rightarrow> Escape | kBracket \<Rightarrow> Csi
     | kParam \<Rightarrow> Params (take (esc_buf_idx con) (esc_buf con)))"

definition esc_ok :: "Console \<Rightarrow> bool" where
  "esc_ok con \<longleftrightarrow> length (esc_buf con) = 32 \<and> esc_buf_idx con \<le> 31 \<and>
     (con_state con = kBracket \<longrightarrow> esc_buf_idx con = 0) \<and>
     (con_state con = kParam \<longrightarrow> (\<forall>d \<in> set (take (esc_buf_idx con) (esc_buf con)). is_digit d))"

definition renders :: "Console \<Rightarrow> frame \<Rightarrow> terminal \<Rightarrow> bool" where
  "renders con fb t \<longleftrightarrow> con_ok con \<and> esc_ok con \<and> shows_cells (con_config con) fb (t_cells t) \<and>
     cursor_row con = int (t_row t) \<and> t_row t < height (con_config con) div 16 \<and>
     cursor_column con = int (t_col t) \<and> t_col t < width (con_config con) div 8 \<and>
     fg_color con = t_fg t \<and> bg_color con = t_bg t \<and> default_fg_color con = t_dfg t \<and>
     default_bg_color con = t_dbg t \<and> con_mode con = t_mode t"

lemma con_frame [simp]:
  "con_mode (con\<lparr>cursor_row := k\<rparr>) = con_mode con" "con_mode (con\<lparr>cursor_column := k\<rparr>) = con_mode con"
  "con_mode (con\<lparr>fg_color := f\<rparr>) = con_mode con" "con_mode (con\<lparr>bg_color := f\<rparr>) = con_mode con"
  "esc_ok (con\<lparr>cursor_row := k\<rparr>) = esc_ok con" "esc_ok (con\<lparr>cursor_column := k\<rparr>) = esc_ok con"
  "esc_ok (con\<lparr>fg_color := f\<rparr>) = esc_ok con" "esc_ok (con\<lparr>bg_color := f\<rparr>) = esc_ok con"
  "con_ok (con\<lparr>cursor_row := k\<rparr>) = con_ok con" "con_ok (con\<lparr>cursor_column := k\<rparr>) = con_ok con"
  "con_ok (con\<lparr>fg_color := f\<rparr>) = con_ok con" "con_ok (con\<lparr>bg_color := f\<rparr>) = con_ok con"
  "con_ok (con\<lparr>con_state := s\<rparr>) = con_ok con" "con_ok (con\<lparr>esc_buf := b\<rparr>) = con_ok con"
  "con_ok (con\<lparr>esc_buf_idx := i\<rparr>) = con_ok con"
  by (simp_all add: con_mode_def esc_ok_def con_ok_def split: con_State.split)

subsection \<open>Drawing one cell, scrolling all\<close>

lemma cell_pixel:
  assumes "r < height cfg div 16" "c < width cfg div 8" "dy < 16" "dx < 8"
  shows "8 * c + dx < width cfg" "16 * r + dy < height cfg"
proof -
  have "8 * c + 8 \<le> 8 * (width cfg div 8)" "16 * r + 16 \<le> 16 * (height cfg div 16)" using assms by simp_all
  moreover have "8 * (width cfg div 8) \<le> width cfg" "16 * (height cfg div 16) \<le> height cfg" by simp_all
  ultimately show "8 * c + dx < width cfg" "16 * r + dy < height cfg" using assms(3,4) by linarith+
qed

lemma same_cell:
  fixes a b d e :: nat
  shows "d < 8 \<Longrightarrow> 8 * a \<le> 8 * b + d \<and> 8 * b + d < 8 * a + 8 \<longleftrightarrow> b = a"
    and "e < 16 \<Longrightarrow> 16 * a \<le> 16 * b + e \<and> 16 * b + e < 16 * a + 16 \<longleftrightarrow> b = a"
  by arith+

lemma WriteAscii_cell:
  assumes "mode_ok cfg" "shows_cells cfg fb cells" "r < height cfg div 16" "c < width cfg div 8"
  shows "shows_cells cfg (WriteAscii cfg (int c * 8) (int r * 16) ch fg bg fb)
      (case GetFont ch of None \<Rightarrow> cells | Some font \<Rightarrow> cells(r := (cells r)(c := glyph font fg bg)))"
    and "off_screen_eq cfg fb (WriteAscii cfg (int c * 8) (int r * 16) ch fg bg fb)"
proof -
  have co: "int c * 8 = int (8 * c)" "int r * 16 = int (16 * r)" by simp_all
  note px = cell_pixel [OF assms(3,4)]
  have bnd: "8 * c + 8 \<le> 2 ^ 31" "16 * r + 16 \<le> 2 ^ 31"
    using px(1) [of 0 7] px(2) [of 15 0] mode_small [OF assms(1)] by simp_all
  show "off_screen_eq cfg fb (WriteAscii cfg (int c * 8) (int r * 16) ch fg bg fb)"
    unfolding co using WriteAscii_spec(1) [OF assms(1) bnd] px [of 0 0] by simp
  show "shows_cells cfg (WriteAscii cfg (int c * 8) (int r * 16) ch fg bg fb)
      (case GetFont ch of None \<Rightarrow> cells | Some font \<Rightarrow> cells(r := (cells r)(c := glyph font fg bg)))"
    unfolding shows_cells_def co
  proof (intro allI impI)
    fix r' c' dy dx :: nat
    assume b: "r' < height cfg div 16" "c' < width cfg div 8" "dy < 16" "dx < 8"
    note s = same_cell(2) [OF b(3), of r r'] same_cell(1) [OF b(4), of c c']
    have "pix cfg fb (8 * c' + dx) (16 * r' + dy) = cells r' c' dy dx"
      using assms(2) b by (simp add: shows_cells_def)
    then show "pix cfg (WriteAscii cfg (int (8 * c)) (int (16 * r)) ch fg bg fb) (8 * c' + dx) (16 * r' + dy) =
        (case GetFont ch of None \<Rightarrow> cells | Some font \<Rightarrow> cells(r := (cells r)(c := glyph font fg bg))) r' c' dy dx"
      using WriteAscii_spec(2) [OF assms(1) bnd cell_pixel [OF b]] s by (auto split: option.split)
  qed
qed

lemma Refresh_cells:
  assumes "con_ok con" "cfg = con_config con" "shows_cells cfg fb cells"
  shows "shows_cells cfg (Refresh con fb)
      (\<lambda>r. if r + 1 < height cfg div 16 then cells (r + 1) else (\<lambda>c dy dx. bg_color con))"
  unfolding shows_cells_def
proof (intro allI impI)
  fix r c dy dx :: nat
  assume b: "r < height cfg div 16" "c < width cfg div 8" "dy < 16" "dx < 8"
  let ?R = "height cfg div 16"
  note ref = Refresh_spec(2) [OF assms(1,2) cell_pixel [OF b], of fb]
  show "pix cfg (Refresh con fb) (8 * c + dx) (16 * r + dy) =
      (if r + 1 < ?R then cells (r + 1) else (\<lambda>c dy dx. bg_color con)) c dy dx"
  proof (cases "r + 1 < ?R")
    case True
    have "\<not> (?R - 1) * 16 \<le> 16 * r + dy" using True b(3) by (simp add: diff_mult_distrib)
    moreover have "16 * r + dy + 16 < height cfg" using cell_pixel(2) [OF True b(2,3,4)] by simp
    moreover have "pix cfg fb (8 * c + dx) (16 * (r + 1) + dy) = cells (r + 1) c dy dx"
      using assms(3) [unfolded shows_cells_def, rule_format, OF True b(2-4)] .
    ultimately show ?thesis using True ref by (simp add: algebra_simps)
  next
    case False
    then have "?R = r + 1" using b(1) by simp
    then have "(?R - 1) * 16 \<le> 16 * r + dy \<and> 16 * r + dy < ?R * 16" using b(3) by simp
    then show ?thesis using False ref by simp
  qed
qed

subsection \<open>Each operation is a step of the terminal\<close>

lemma NewLine_renders:
  assumes "con_ok con" "esc_ok con" "cfg = con_config con" "shows_cells cfg fb (t_cells t)"
    and "cursor_row con = int (t_row t)" "t_row t < height cfg div 16"
    and "fg_color con = t_fg t" "bg_color con = t_bg t" "default_fg_color con = t_dfg t"
      "default_bg_color con = t_dbg t" "con_mode con = t_mode t"
  shows "renders (fst (NewLine con fb)) (snd (NewLine con fb)) (t_newline (height cfg div 16) t)"
    and "off_screen_eq cfg fb (snd (NewLine con fb))" and "con_config (fst (NewLine con fb)) = cfg"
proof -
  let ?R = "height cfg div 16"
  have geo: "con_rows con = int ?R" "0 < width cfg div 8"
    using assms(1,3) by (simp_all add: con_ok_def div_greater_zero_iff)
  have cond: "cursor_row con < con_rows con - 1 \<longleftrightarrow> t_row t + 1 < ?R" using assms(5) geo(1) by auto
  define con1 where "con1 = con\<lparr>cursor_column := 0\<rparr>"
  have ok1: "con_ok con1" "con_config con1 = cfg" "bg_color con1 = bg_color con"
    using assms(1,3) by (simp_all add: con1_def)
  have nl: "NewLine con fb = (if t_row t + 1 < ?R then (con1\<lparr>cursor_row := int (t_row t) + 1\<rparr>, fb) else (con1, Refresh con1 fb))"
    using cond assms(5) by (simp add: NewLine_def con1_def Let_def)
  have inv: "esc_ok con1" "con_mode con1 = con_mode con"
    using assms(2) by (simp_all add: con1_def)
  have px0: "0 < width cfg" "0 < height cfg" using ok1(1,2) by (auto simp: con_ok_def)
  have off: "off_screen_eq cfg fb (Refresh con1 fb)"
    using Refresh_spec(1) [OF ok1(1) ok1(2) [symmetric] px0] .
  show "off_screen_eq cfg fb (snd (NewLine con fb))" using off by (simp add: nl)
  show "con_config (fst (NewLine con fb)) = cfg" using ok1(2) by (simp add: nl)
  show "renders (fst (NewLine con fb)) (snd (NewLine con fb)) (t_newline ?R t)"
  proof (cases "t_row t + 1 < ?R")
    case True
    have "esc_ok (con1\<lparr>cursor_row := k\<rparr>)" "con_ok (con1\<lparr>cursor_row := k\<rparr>)"
      "con_mode (con1\<lparr>cursor_row := k\<rparr>) = con_mode con" for k
      using inv ok1 by simp_all
    then show ?thesis
      using True assms(4-11) geo ok1(2) unfolding renders_def nl
      by (simp add: t_newline_def) (simp add: con1_def)
  next
    case False
    have "shows_cells cfg (Refresh con1 fb) (\<lambda>r. if r + 1 < ?R then t_cells t (r + 1) else (\<lambda>c dy dx. t_bg t))"
      using Refresh_cells [OF ok1(1) ok1(2) [symmetric] assms(4)] unfolding ok1(3) assms(8) .
    then show ?thesis
      using False assms(4-11) geo ok1 inv unfolding renders_def nl
      by (simp add: t_newline_def) (simp add: con1_def)
  qed
qed

lemma ansi_value_digits:
  "\<forall>d \<in> set ds. is_digit d \<Longrightarrow>
    ansi_value (of_nat n) (ds @ 0 # rest) = of_nat (foldl (\<lambda>n d. n * 10 + (unat d - 48)) n ds)"
proof (induction ds arbitrary: n)
  case (Cons d ds)
  have d: "d \<noteq> 0" "0x30 \<le> d" using Cons.prems by (auto simp: is_digit_def)
  have "unat (d - 0x30) = unat d - 48" using d(2) by (simp add: unat_sub word_le_nat_alt)
  moreover have "(ucast (d - 0x30) :: u32) = of_nat (unat (d - 0x30))" by simp
  ultimately have "(ucast (d - 0x30) :: u32) = of_nat (unat d - 48)" by simp
  then show ?case using Cons.IH [of "n * 10 + (unat d - 48)"] Cons.prems d by simp
qed simp

lemma ansi_value_buf:
  assumes "esc_ok con" "con_state con = kParam" "ds = take (esc_buf_idx con) (esc_buf con)"
  shows "unat (ansi_value 0 ((esc_buf con)[esc_buf_idx con := 0])) = digits_value ds mod 2 ^ 32"
proof -
  have e: "length (esc_buf con) = 32" "esc_buf_idx con \<le> 31" "\<forall>d \<in> set ds. is_digit d"
    using assms by (simp_all add: esc_ok_def)
  have "(esc_buf con)[esc_buf_idx con := 0] = ds @ 0 # drop (Suc (esc_buf_idx con)) (esc_buf con)"
    using e(1,2) by (simp add: upd_conv_take_nth_drop assms(3))
  then have "ansi_value 0 ((esc_buf con)[esc_buf_idx con := 0]) = of_nat (digits_value ds)"
    using ansi_value_digits [OF e(3), of 0] by (simp add: digits_value_def)
  then show ?thesis by (simp add: unsigned_of_nat take_bit_eq_mod)
qed

text \<open>A colour command does to the console what it does to the terminal.\<close>

definition same_colours :: "Console \<Rightarrow> terminal \<Rightarrow> bool" where
  "same_colours con t \<longleftrightarrow> fg_color con = t_fg t \<and> bg_color con = t_bg t \<and>
     default_fg_color con = t_dfg t \<and> default_bg_color con = t_dbg t"

lemma sint_u32_range: "a \<le> b \<Longrightarrow> b < 2 ^ 31 \<Longrightarrow> int a \<le> sint (w :: u32) \<and> sint w \<le> int b \<longleftrightarrow> a \<le> unat w \<and> unat w \<le> b"
proof (cases "unat w < 2 ^ 31")
  case True
  show ?thesis unfolding sint_u32_small [OF True] of_nat_le_iff ..
next
  case False
  moreover assume "a \<le> b" "b < 2 ^ 31"
  ultimately show ?thesis using sint_u32_large [of w] by auto
qed

lemma ExecuteAnsiCommand_spec:
  assumes "same_colours con t" "n = unat (ansi_value 0 (esc_buf con))"
  shows "same_colours (ExecuteAnsiCommand con) (t_sgr n t)"
    and "\<exists>f b. ExecuteAnsiCommand con = con\<lparr>fg_color := f, bg_color := b\<rparr>"
    and "t_cells (t_sgr n t) = t_cells t" "t_row (t_sgr n t) = t_row t" "t_col (t_sgr n t) = t_col t"
    and "t_mode (t_sgr n t) = t_mode t"
proof -
  let ?p = "ansi_value 0 (esc_buf con)"
  have c0: "sint ?p = 0 \<longleftrightarrow> n = 0" using sint_u32_eq [of 0 ?p] assms(2) by simp
  have c3: "30 \<le> sint ?p \<and> sint ?p \<le> 37 \<longleftrightarrow> 30 \<le> n \<and> n \<le> 37"
    and c4: "40 \<le> sint ?p \<and> sint ?p \<le> 47 \<longleftrightarrow> 40 \<le> n \<and> n \<le> 47"
    using sint_u32_range [of 30 37 ?p] sint_u32_range [of 40 47 ?p] assms(2) by simp_all
  have s: "sint ?p = int n" if "n \<le> 47"
    unfolding assms(2) by (rule sint_u32_small) (use that assms(2) in simp)
  have n3: "nat (sint ?p - 30) = n - 30" "nat (sint ?p - 40) = n - 40" if "n \<le> 47" using s [OF that] by simp_all
  have ex: "ExecuteAnsiCommand con =
     (if n = 0 then con\<lparr>fg_color := default_fg_color con, bg_color := default_bg_color con\<rparr>
      else if 30 \<le> n \<and> n \<le> 37 then con\<lparr>fg_color := kAnsiColors ! (n - 30)\<rparr>
      else if 40 \<le> n \<and> n \<le> 47 then con\<lparr>bg_color := kAnsiColors ! (n - 40)\<rparr> else con)"
    unfolding ExecuteAnsiCommand_def Let_def c0 c3 c4 using n3 by auto
  show "same_colours (ExecuteAnsiCommand con) (t_sgr n t)"
    using assms(1) unfolding ex by (simp add: t_sgr_def same_colours_def)
  have "con\<lparr>fg_color := f\<rparr> = con\<lparr>fg_color := f, bg_color := bg_color con\<rparr>"
    "con\<lparr>bg_color := f\<rparr> = con\<lparr>fg_color := fg_color con, bg_color := f\<rparr>"
    "con = con\<lparr>fg_color := fg_color con, bg_color := bg_color con\<rparr>" for f by simp_all
  then show "\<exists>f b. ExecuteAnsiCommand con = con\<lparr>fg_color := f, bg_color := b\<rparr>"
    unfolding ex by (metis (full_types))
  show "t_cells (t_sgr n t) = t_cells t" "t_row (t_sgr n t) = t_row t" "t_col (t_sgr n t) = t_col t"
    "t_mode (t_sgr n t) = t_mode t"
    by (simp_all add: t_sgr_def)
qed

lemma push_digit_spec:
  assumes "length (esc_buf con) = 32" "esc_buf_idx con \<le> 31" "con_state con = kParam" "is_digit c"
    and "\<forall>d \<in> set (take (esc_buf_idx con) (esc_buf con)). is_digit d"
  shows "esc_ok (push_digit con c)"
    and "con_mode (push_digit con c) = Params (take 31 (take (esc_buf_idx con) (esc_buf con) @ [c]))"
proof -
  let ?i = "esc_buf_idx con" and ?b = "esc_buf con"
  have tk: "take (Suc ?i) (?b[?i := c]) = take ?i ?b @ [c]"
    using assms(1,2) by (simp add: take_Suc_conv_app_nth)
  show "esc_ok (push_digit con c)"
    using assms tk by (auto simp: push_digit_def esc_ok_def)
  show "con_mode (push_digit con c) = Params (take 31 (take ?i ?b @ [c]))"
    using assms tk by (auto simp: push_digit_def con_mode_def)
qed

text \<open>The console after a byte of an escape sequence.\<close>

definition escape_step :: "Console \<Rightarrow> terminal \<Rightarrow> Console \<Rightarrow> terminal \<Rightarrow> bool" where
  "escape_step con t con' t' \<longleftrightarrow> esc_ok con' \<and> same_colours con' t' \<and> con_mode con' = t_mode t' \<and> con_ok con' \<and>
     con_config con' = con_config con \<and> cursor_row con' = cursor_row con \<and> cursor_column con' = cursor_column con \<and>
     t_cells t' = t_cells t \<and> t_row t' = t_row t \<and> t_col t' = t_col t"

lemma sgr_step:
  assumes "con_ok con" "same_colours con t" "n = unat (ansi_value 0 (esc_buf con))" "length (esc_buf con) = 32"
  shows "escape_step con t ((ExecuteAnsiCommand con)\<lparr>con_state := kNormal, esc_buf_idx := 0\<rparr>)
      ((t_sgr n t)\<lparr>t_mode := Plain\<rparr>)"
    and "esc_buf_idx con \<le> 31 \<Longrightarrow>
      escape_step con t ((ExecuteAnsiCommand con)\<lparr>con_state := kNormal\<rparr>) ((t_sgr n t)\<lparr>t_mode := Plain\<rparr>)"
    and "con_state con = kParam \<Longrightarrow>
      escape_step con t ((ExecuteAnsiCommand con)\<lparr>esc_buf_idx := 0\<rparr>) ((t_sgr n t)\<lparr>t_mode := Params []\<rparr>)"
proof -
  note x = ExecuteAnsiCommand_spec [OF assms(2,3)]
  obtain f b where e: "ExecuteAnsiCommand con = con\<lparr>fg_color := f, bg_color := b\<rparr>" using x(2) by blast
  have "same_colours (con\<lparr>fg_color := f, bg_color := b\<rparr>) (t_sgr n t)" using x(1) e by simp
  then show "escape_step con t ((ExecuteAnsiCommand con)\<lparr>con_state := kNormal, esc_buf_idx := 0\<rparr>)
      ((t_sgr n t)\<lparr>t_mode := Plain\<rparr>)"
    and "esc_buf_idx con \<le> 31 \<Longrightarrow>
      escape_step con t ((ExecuteAnsiCommand con)\<lparr>con_state := kNormal\<rparr>) ((t_sgr n t)\<lparr>t_mode := Plain\<rparr>)"
    and "con_state con = kParam \<Longrightarrow>
      escape_step con t ((ExecuteAnsiCommand con)\<lparr>esc_buf_idx := 0\<rparr>) ((t_sgr n t)\<lparr>t_mode := Params []\<rparr>)"
    using assms(1,4) x(3-5) unfolding e escape_step_def
    by (simp_all add: esc_ok_def con_mode_def same_colours_def)
qed

lemma ProcessEscapeSequence_step:
  assumes "con_ok con" "esc_ok con" "same_colours con t" "con_mode con = t_mode t" "t_mode t \<noteq> Plain"
  shows "escape_step con t (ProcessEscapeSequence con c) (t_escape t c)"
proof -
  have e: "length (esc_buf con) = 32" "esc_buf_idx con \<le> 31" using assms(2) by (simp_all add: esc_ok_def)
  have plain: "escape_step con t (con\<lparr>con_state := kNormal\<rparr>) (t\<lparr>t_mode := Plain\<rparr>)"
    using assms(1,3) e by (simp add: escape_step_def esc_ok_def con_mode_def same_colours_def)
  show ?thesis
  proof (cases "con_state con")
    case kNormal
    then show ?thesis using assms(4,5) by (simp add: con_mode_def)
  next
    case kEsc
    then have t: "t_mode t = Escape" using assms(4) by (simp add: con_mode_def)
    have "escape_step con t (con\<lparr>con_state := kBracket, esc_buf_idx := 0\<rparr>) (t\<lparr>t_mode := Csi\<rparr>)"
      using assms(1,3) e by (simp add: escape_step_def esc_ok_def con_mode_def same_colours_def)
    then show ?thesis using plain kEsc t by (simp add: ProcessEscapeSequence_def t_escape_def)
  next
    case kBracket
    then have t: "t_mode t = Csi" and i: "esc_buf_idx con = 0"
      using assms(2,4) by (simp_all add: con_mode_def esc_ok_def)
    have "escape_step con t (push_digit (con\<lparr>con_state := kParam\<rparr>) c) (t\<lparr>t_mode := Params [c]\<rparr>)" if "is_digit c"
      using push_digit_spec [of "con\<lparr>con_state := kParam\<rparr>" c] that e i assms(1,3)
      by (simp add: escape_step_def same_colours_def) (simp add: push_digit_def i)
    moreover have "escape_step con t ((ExecuteAnsiCommand (con\<lparr>esc_buf := (esc_buf con)[0 := 0x30, 1 := 0]\<rparr>))\<lparr>con_state := kNormal\<rparr>)
        ((t_sgr 0 t)\<lparr>t_mode := Plain\<rparr>)"
    proof -
      define con1 where "con1 = con\<lparr>esc_buf := (esc_buf con)[0 := 0x30, 1 := 0]\<rparr>"
      obtain a b r where "esc_buf con = a # b # r" using e(1) by (cases "esc_buf con"; cases "tl (esc_buf con)") auto
      then have v: "0 = unat (ansi_value 0 (esc_buf con1))" by (simp add: con1_def)
      have "escape_step con1 t ((ExecuteAnsiCommand con1)\<lparr>con_state := kNormal\<rparr>) ((t_sgr 0 t)\<lparr>t_mode := Plain\<rparr>)"
        using sgr_step(2) [OF _ _ v] assms(1,3) e by (simp add: con1_def same_colours_def)
      then show ?thesis by (simp add: escape_step_def con1_def)
    qed
    ultimately show ?thesis using plain kBracket t by (auto simp: ProcessEscapeSequence_def t_escape_def)
  next
    case kParam
    define ds where "ds = take (esc_buf_idx con) (esc_buf con)"
    have t: "t_mode t = Params ds" using assms(4) kParam by (simp add: con_mode_def ds_def)
    have dg: "\<forall>d \<in> set ds. is_digit d" using assms(2) kParam by (simp add: esc_ok_def ds_def)
    have dig: "escape_step con t (push_digit con c) (t\<lparr>t_mode := Params (take 31 (ds @ [c]))\<rparr>)" if "is_digit c"
    proof -
      have "fg_color (push_digit con c) = fg_color con" "bg_color (push_digit con c) = bg_color con"
        "default_fg_color (push_digit con c) = default_fg_color con" "con_ok (push_digit con c) = con_ok con"
        "default_bg_color (push_digit con c) = default_bg_color con" "con_config (push_digit con c) = con_config con"
        "cursor_row (push_digit con c) = cursor_row con" "cursor_column (push_digit con c) = cursor_column con"
        by (simp_all add: push_digit_def)
      then show ?thesis
        using push_digit_spec [OF e kParam that dg [unfolded ds_def]] assms(1,3)
        by (simp add: escape_step_def same_colours_def ds_def)
    qed
    define con1 where "con1 = con\<lparr>esc_buf := (esc_buf con)[esc_buf_idx con := 0]\<rparr>"
    have v: "digits_value ds mod 2 ^ 32 = unat (ansi_value 0 (esc_buf con1))"
      using ansi_value_buf [OF assms(2) kParam ds_def] by (simp add: con1_def)
    have c1: "con_ok con1" "same_colours con1 t" "length (esc_buf con1) = 32" "esc_buf_idx con1 \<le> 31" "con_state con1 = kParam"
      using assms(1,3) e kParam by (simp_all add: con1_def same_colours_def)
    note sg = sgr_step [OF c1(1,2) v c1(3)]
    have up: "escape_step con t x y" if "escape_step con1 t x y" for x y
      using that by (simp add: escape_step_def con1_def)
    show ?thesis
      using plain dig up [OF sg(2) [OF c1(4)]] up [OF sg(3) [OF c1(5)]] kParam t
      by (simp add: ProcessEscapeSequence_def t_escape_def end_param_def con1_def)
  qed
qed

lemma glyph_same [simp]: "glyph font c c = (\<lambda>dy dx. c)"
  by (simp add: glyph_def fun_eq_iff)

lemma GetFont_space: "\<exists>font. GetFont 0x20 = Some font"
  by (simp add: GetFont_def)

lemma rendersD:
  assumes "renders con fb t" "cfg = con_config con"
  shows "con_ok con" "esc_ok con" "shows_cells cfg fb (t_cells t)" "cursor_row con = int (t_row t)"
    "t_row t < height cfg div 16" "cursor_column con = int (t_col t)" "t_col t < width cfg div 8"
    "same_colours con t" "con_mode con = t_mode t" "mode_ok cfg"
    "con_columns con = int (width cfg div 8)" "con_rows con = int (height cfg div 16)"
    "fg_color con = t_fg t" "bg_color con = t_bg t"
  using assms by (simp_all add: renders_def same_colours_def con_ok_def)

lemma rendersI:
  assumes "con_ok con" "esc_ok con" "shows_cells cfg fb (t_cells t)" "cursor_row con = int (t_row t)"
    "t_row t < height cfg div 16" "cursor_column con = int (t_col t)" "t_col t < width cfg div 8"
    "same_colours con t" "con_mode con = t_mode t" "cfg = con_config con"
  shows "renders con fb t"
  using assms by (simp add: renders_def same_colours_def)

lemma PutChar_renders:
  assumes ren: "renders con fb t" and cfg: "cfg = con_config con" and p: "PutChar con fb c = (con', fb')"
  shows "renders con' fb' (t_putc (height cfg div 16) (width cfg div 8) c t) \<and>
    off_screen_eq cfg fb fb' \<and> con_config con' = cfg"
proof -
  let ?R = "height cfg div 16" and ?C = "width cfg div 8"
  note r = rendersD [OF ren cfg]
  have col: "cursor_column con < con_columns con" "\<not> con_columns con \<le> cursor_column con"
    using r(6,7,11) by simp_all
  have st: "con_state con \<noteq> kNormal \<longleftrightarrow> t_mode t \<noteq> Plain"
    using r(9) by (auto simp: con_mode_def split: con_State.splits)
  consider (esc) "t_mode t \<noteq> Plain" | (start) "t_mode t = Plain" "c = 0x1B" | (nl) "t_mode t = Plain" "c = 0x0A"
    | (bs) "t_mode t = Plain" "c = 0x08" | (chr) "t_mode t = Plain" "c \<noteq> 0x1B" "c \<noteq> 0x0A" "c \<noteq> 0x08" by blast
  then show ?thesis
  proof cases
    case esc
    have "escape_step con t (ProcessEscapeSequence con c) (t_escape t c)"
      using ProcessEscapeSequence_step [OF r(1,2,8,9) esc] .
    then have s: "escape_step con t con' (t_escape t c)" "fb' = fb"
      using p esc st col by (auto simp: PutChar_def escape_step_def con_ok_def r(11) cfg split: if_splits)
    have "renders con' fb (t_escape t c)"
      using s(1) r(3-7) cfg by (intro rendersI [where cfg = cfg]) (simp_all add: escape_step_def)
    then show ?thesis using s esc cfg by (simp add: t_putc_def escape_step_def)
  next
    case start
    have c': "con' = con\<lparr>con_state := kEsc\<rparr>" "fb' = fb"
      using p start st col by (auto simp: PutChar_def)
    have "esc_ok con'" "con_mode con' = Escape" using r(2) by (simp_all add: c' esc_ok_def con_mode_def)
    then have "renders con' fb (t\<lparr>t_mode := Escape\<rparr>)"
      using r cfg by (intro rendersI [where cfg = cfg]) (simp_all add: c' same_colours_def)
    then show ?thesis using c' start cfg by (simp add: t_putc_def)
  next
    case nl
    have sc: "fg_color con = t_fg t" "bg_color con = t_bg t" "default_fg_color con = t_dfg t" "default_bg_color con = t_dbg t"
      using r(8) by (simp_all add: same_colours_def)
    note n = NewLine_renders [OF r(1,2) cfg r(3-5) sc r(9)]
    have "\<not> con_columns (fst (NewLine con fb)) \<le> cursor_column (fst (NewLine con fb))"
      using rendersD(6,7,11) [OF n(1) refl] by simp
    then have "NewLine con fb = (con', fb')"
      using p nl st by (cases "NewLine con fb") (simp add: PutChar_def)
    then show ?thesis using n nl by (simp add: t_putc_def)
  next
    case bs
    show ?thesis
    proof (cases "t_col t = 0")
      case True
      then have "con' = con" "fb' = fb" using p bs st col r(6) by (auto simp: PutChar_def)
      then show ?thesis using True bs ren cfg by (simp add: t_putc_def)
    next
      case False
      then obtain k where k: "t_col t = Suc k" by (cases "t_col t") auto
      define con1 where "con1 = con\<lparr>cursor_column := int k\<rparr>"
      have kC: "k < ?C" using k r(7) by simp
      have "con_state con = kNormal" using st bs(1) by simp
      then have "PutChar con fb c = (con1, WriteAscii cfg (int k * 8) (int (t_row t) * 16) 0x20 (t_bg t) (t_bg t) fb)"
        using kC r(4,6,11,14) by (simp add: PutChar_def bs(2) con1_def cfg [symmetric] k Let_def)
      then have c': "con' = con1" "fb' = WriteAscii cfg (int k * 8) (int (t_row t) * 16) 0x20 (t_bg t) (t_bg t) fb"
        using p by simp_all
      obtain font where fo: "GetFont 0x20 = Some font" using GetFont_space by blast
      note w = WriteAscii_cell [OF r(10) r(3) r(5) kC, where ch = "0x20" and fg = "t_bg t" and bg = "t_bg t", folded c'(2), unfolded fo]
      have "renders con' fb' (set_cell (t_row t) k (\<lambda>dy dx. t_bg t) (t\<lparr>t_col := k\<rparr>))"
        using w(1) r cfg kC by (intro rendersI [where cfg = cfg]) (simp_all add: c'(1) con1_def same_colours_def set_cell_def)
      then show ?thesis using w(2) k bs cfg c'(1) by (simp add: t_putc_def con1_def)
    qed
  next
    case chr
    define con1 where "con1 = con\<lparr>cursor_column := int (t_col t) + 1\<rparr>"
    define fb1 where "fb1 = WriteAscii cfg (int (t_col t) * 8) (int (t_row t) * 16) c (t_fg t) (t_bg t) fb"
    define t1 where "t1 = (case GetFont c of None \<Rightarrow> t
        | Some font \<Rightarrow> set_cell (t_row t) (t_col t) (glyph font (t_fg t) (t_bg t)) t)\<lparr>t_col := t_col t + 1\<rparr>"
    have p1: "(con', fb') = (if t_col t + 1 < ?C then (con1, fb1) else NewLine con1 fb1)"
      using p chr st col r(4,6,11,13,14) by (auto simp: PutChar_def con1_def fb1_def cfg split: if_splits)
    have t': "t_putc ?R ?C c t = (if t_col t + 1 < ?C then t1 else t_newline ?R t1)"
      using chr by (simp add: t_putc_def t1_def Let_def)
    have t1: "t_row t1 = t_row t" "t_col t1 = t_col t + 1" "same_colours con1 t1" "t_mode t1 = t_mode t"
      "t_cells t1 = (case GetFont c of None \<Rightarrow> t_cells t
        | Some font \<Rightarrow> (t_cells t)(t_row t := (t_cells t (t_row t))(t_col t := glyph font (t_fg t) (t_bg t))))"
      using r(8) by (simp_all add: t1_def set_cell_def same_colours_def con1_def split: option.split)
    have w: "shows_cells cfg fb1 (t_cells t1)" "off_screen_eq cfg fb fb1"
      using WriteAscii_cell [OF r(10) r(3) r(5) r(7), of c "t_fg t" "t_bg t"] unfolding fb1_def t1(5) by simp_all
    have c1: "con_ok con1" "esc_ok con1" "cfg = con_config con1" "cursor_row con1 = int (t_row t1)" "con_mode con1 = t_mode t1"
      using r(1,2,4,9) t1(1,4) cfg by (simp_all add: con1_def)
    show ?thesis
    proof (cases "t_col t + 1 < ?C")
      case True
      then have "renders con1 fb1 t1"
        using c1 w(1) t1 r(5) by (intro rendersI [where cfg = cfg]) (simp_all add: con1_def)
      then show ?thesis using True p1 t' w(2) c1(3) by simp
    next
      case False
      have sc: "fg_color con1 = t_fg t1" "bg_color con1 = t_bg t1" "default_fg_color con1 = t_dfg t1" "default_bg_color con1 = t_dbg t1"
        using t1(3) by (simp_all add: same_colours_def)
      note n = NewLine_renders [OF c1(1-3) w(1) c1(4) r(5) [folded t1(1)] sc c1(5)]
      have "fst (NewLine con1 fb1) = con'" "snd (NewLine con1 fb1) = fb'" using p1 False by (metis fst_conv, metis snd_conv)
      then show ?thesis using n False t' off_screen_trans [OF w(2)] by simp
    qed
  qed
qed

lemma PutString_renders:
  "renders con fb t \<Longrightarrow> cfg = con_config con \<Longrightarrow> PutString con fb s = (con', fb') \<Longrightarrow>
    renders con' fb' (fold (t_putc (height cfg div 16) (width cfg div 8)) (cstr s) t) \<and>
    off_screen_eq cfg fb fb' \<and> con_config con' = cfg"
proof (induction s arbitrary: con fb t)
  case Nil
  then show ?case by (simp add: cstr_def)
next
  case (Cons c s)
  show ?case
  proof (cases "c = 0")
    case True
    then show ?thesis using Cons.prems by (simp add: cstr_def)
  next
    case False
    obtain con1 fb1 where p: "PutChar con fb c = (con1, fb1)" by (cases "PutChar con fb c")
    note st = PutChar_renders [OF Cons.prems(1,2) p]
    have "PutString con1 fb1 s = (con', fb')" using Cons.prems(3) False p by simp
    note ih = Cons.IH [OF conjunct1 [OF st] conjunct2 [OF conjunct2 [OF st], symmetric] this]
    then show ?thesis using False st off_screen_trans [of cfg fb fb1 fb'] by (simp add: cstr_def)
  qed
qed

text \<open>Output through \<open>ConsoleFD\<close> is \<open>PutString\<close> of the bytes other than NUL.\<close>

lemma PutString_append:
  "0 \<notin> set s \<Longrightarrow> PutString con fb (s @ s') = (let (con, fb) = PutString con fb s in PutString con fb s')"
  by (induction s arbitrary: con fb) (auto split: prod.split)

lemma console_write_spec: "console_write con fb bs = PutString con fb (filter (\<lambda>c. c \<noteq> 0) bs)"
  by (induction bs arbitrary: con fb) (auto split: prod.split)

text \<open>The terminal that a frame buffer shows when the console is created on it.\<close>

definition t_start :: "FrameBufferConfig \<Rightarrow> frame \<Rightarrow> u32 \<Rightarrow> u32 \<Rightarrow> terminal" where
  "t_start cfg fb fg bg = \<lparr>t_cells = (\<lambda>r c dy dx. pix cfg fb (8 * c + dx) (16 * r + dy)), t_row = 0, t_col = 0,
     t_fg = fg, t_bg = bg, t_dfg = fg, t_dbg = bg, t_mode = Plain\<rparr>"

lemma Console_new_renders:
  assumes "mode_ok cfg" "16 \<le> height cfg" "8 \<le> width cfg" "length mem = 32"
  shows "renders (Console_new cfg fg bg mem) fb (t_start cfg fb fg bg)"
  using assms by (simp add: renders_def Console_new_def t_start_def con_ok_def esc_ok_def con_mode_def shows_cells_def
      unat_word_div div_greater_zero_iff)

lemma PutStrings_renders:
  "renders con fb t \<Longrightarrow> cfg = con_config con \<Longrightarrow> fold (\<lambda>s (con, fb). PutString con fb s) ss (con, fb) = (con', fb') \<Longrightarrow>
    renders con' fb' (fold (t_putc (height cfg div 16) (width cfg div 8)) (concat (map cstr ss)) t) \<and>
    off_screen_eq cfg fb fb' \<and> con_config con' = cfg"
proof (induction ss arbitrary: con fb t)
  case Nil
  then show ?case by simp
next
  case (Cons s ss)
  obtain con1 fb1 where p: "PutString con fb s = (con1, fb1)" by (cases "PutString con fb s")
  note st = PutString_renders [OF Cons.prems(1,2) p]
  have "fold (\<lambda>s (con, fb). PutString con fb s) ss (con1, fb1) = (con', fb')" using Cons.prems(3) p by simp
  note ih = Cons.IH [OF conjunct1 [OF st] conjunct2 [OF conjunct2 [OF st], symmetric] this]
  then show ?case using st off_screen_trans [of cfg fb fb1 fb'] by simp
qed

text \<open>
  C33: The console is a terminal. Whatever strings are printed on a new console, the pixels
  of every character cell are those of the terminal specification after the same characters:
  glyphs in the current colours at the cursor, wrap-around at the right edge, scrolling by
  one row with the bottom row cleared, backspace, and ANSI colour sequences, also when they
  are split over several calls. The cursor stays on the screen, and no pixel outside the
  visible area is written.
\<close>

theorem console_is_terminal:
  assumes "mode_ok cfg" "16 \<le> height cfg" "8 \<le> width cfg" "length mem = 32"
    and "fold (\<lambda>s (con, fb). PutString con fb s) ss (Console_new cfg fg bg mem, fb) = (con, fb')"
    and "t = fold (t_putc (height cfg div 16) (width cfg div 8)) (concat (map cstr ss)) (t_start cfg fb fg bg)"
  shows "shows_cells cfg fb' (t_cells t) \<and> off_screen_eq cfg fb fb' \<and>
    cursor_row con = int (t_row t) \<and> t_row t < height cfg div 16 \<and>
    cursor_column con = int (t_col t) \<and> t_col t < width cfg div 8"
proof -
  have c: "con_config (Console_new cfg fg bg mem) = cfg" by (simp add: Console_new_def)
  note r = PutStrings_renders [OF Console_new_renders [OF assms(1-4)] c [symmetric] assms(5), folded assms(6)]
  then show ?thesis using rendersD(3-7) [of con fb' t cfg] by simp
qed

theorem console_is_terminal_witness:
  "cursor_column (fst (fold (\<lambda>s (con, fb). PutString con fb s) [[0x41, 0]]
     (Console_new \<lparr>FrameBufferBase = 0, FrameBufferSize = 1024, HorizontalResolution = 16, VerticalResolution = 16,
        PixelsPerScanLine = 16\<rparr> 7 0 (replicate 32 0), \<lambda>_. 0))) = 1"
proof -
  let ?cfg = "\<lparr>FrameBufferBase = 0, FrameBufferSize = 1024, HorizontalResolution = 16, VerticalResolution = 16,
        PixelsPerScanLine = 16\<rparr>"
  let ?run = "fold (\<lambda>s (con, fb). PutString con fb s) [[0x41, 0]] (Console_new ?cfg 7 0 (replicate 32 0), \<lambda>_. 0)"
  define t where "t = fold (t_putc (height ?cfg div 16) (width ?cfg div 8)) (concat (map cstr [[0x41, 0]])) (t_start ?cfg (\<lambda>_. 0) 7 0)"
  have m: "mode_ok ?cfg" by (simp add: mode_ok_def)
  have "t_col t = 1" by (simp add: t_def cstr_def t_putc_def t_start_def Let_def)
  moreover have "cursor_column (fst ?run) = int (t_col t)"
    using console_is_terminal [OF m _ _ _ prod.collapse [symmetric] t_def] by simp
  ultimately show ?thesis by simp
qed

end
