(* ===== verification/Printk.thy ===== *)
theory Printk
  imports Console
begin

text \<open>
  Formatted kernel output (kernel/printk.cpp): number conversion, the parser of format
  directives and the line buffer in front of the console. A variadic argument is the 64-bit
  slot it is passed in; \<open>mem\<close> gives the string at an address. The result \<open>None\<close> stands for a
  read past the end of the format or of the arguments, which the code does not guard
  against, and for a field width that overflows its \<open>int\<close>.
\<close>

section \<open>Numbers\<close>

definition digit_char :: "u64 \<Rightarrow> u8" where
  "digit_char remainder = (if remainder < 10 then ucast remainder + 0x30 else ucast remainder - 10 + 0x61)"

text \<open>
  The digits in the order in which the first loop stores them. The callers use base 10 or
  16; the test of the base makes the recursion total.
\<close>

function utoa_loop :: "u64 \<Rightarrow> u64 \<Rightarrow> bytes" where
  "utoa_loop value base =
     digit_char (value mod base) #
     (if value div base \<noteq> 0 \<and> 2 \<le> base then utoa_loop (value div base) base else [])"
  by pat_completeness auto
termination
proof (relation "measure (\<lambda>(v, b). unat v)")
  fix v b :: u64
  assume "v div b \<noteq> 0 \<and> 2 \<le> b"
  then have "v \<noteq> 0" "1 < unat b" by (auto simp: word_le_nat_alt)
  then show "((v div b, b), v, b) \<in> measure (\<lambda>(v, b). unat v)"
    by (simp add: unat_word_div unat_gt_0)
qed simp

declare utoa_loop.simps [simp del]

text \<open>The reversal in place with two pointers.\<close>

function rev_loop :: "nat \<Rightarrow> nat \<Rightarrow> bytes \<Rightarrow> bytes" where
  "rev_loop ptr1 ptr buf =
     (if ptr1 < ptr then rev_loop (ptr1 + 1) (ptr - 1) (buf[ptr := buf ! ptr1, ptr1 := buf ! ptr]) else buf)"
  by pat_completeness auto
termination
  by (relation "measure (\<lambda>(i, j, s). j - i)") auto

declare rev_loop.simps [simp del]

text \<open>The string in \<open>num_buf\<close>, without its terminator.\<close>

definition utoa :: "u64 \<Rightarrow> u64 \<Rightarrow> bytes" where
  "utoa value base = (let buf = utoa_loop value base in rev_loop 0 (length buf - 1) buf)"

section \<open>Directives\<close>

fun parse_flag :: "bytes \<Rightarrow> bool \<times> bytes" where
  "parse_flag [] = (False, [])"
| "parse_flag (c # f) = (if c = 0x30 then (True, f) else (False, c # f))"

text \<open>The width is an \<open>int\<close> that starts at 0; no value is the signed overflow.\<close>

fun parse_width :: "nat \<Rightarrow> bytes \<Rightarrow> (nat \<times> bytes) option" where
  "parse_width w [] = Some (w, [])"
| "parse_width w (c # f) =
     (if c \<ge> 0x30 \<and> c \<le> 0x39
      then if w * 10 + unat (c - 0x30) < 2 ^ 31 then parse_width (w * 10 + unat (c - 0x30)) f else None
      else Some (w, c # f))"

fun parse_long :: "bytes \<Rightarrow> nat \<times> bytes" where
  "parse_long (a # b # f) = (if a = 0x6C then if b = 0x6C then (2, f) else (1, b # f) else (0, a # b # f))"
| "parse_long [a] = (if a = 0x6C then (1, []) else (0, [a]))"
| "parse_long [] = (0, [])"

text \<open>
  What a conversion hands to \<open>putc\<close>, one character after the other, and the arguments left.
\<close>

definition kconv :: "(u64 \<Rightarrow> bytes) \<Rightarrow> bool \<Rightarrow> nat \<Rightarrow> nat \<Rightarrow> u8 \<Rightarrow> u64 list \<Rightarrow> (bytes \<times> u64 list) option" where
  "kconv mem zero_pad fwidth long_mode c args =
     (if c = 0x64 then
        (case args of [] \<Rightarrow> None
         | a # args \<Rightarrow>
             let val = (if long_mode > 0 then a else scast (ucast a :: u32));
                 negative = sint val < 0;
                 val = (if negative then - val else val);
                 num_buf = utoa val 10;
                 total_len = length num_buf + (if negative then 1 else 0);
                 pad_len = (if fwidth > total_len then fwidth - total_len else 0)
             in Some ((if \<not> zero_pad then replicate pad_len 0x20 else []) @ (if negative then [0x2D] else []) @
                      (if zero_pad then replicate pad_len 0x30 else []) @ num_buf, args))
      else if c = 0x75 \<or> c = 0x78 then
        (case args of [] \<Rightarrow> None
         | a # args \<Rightarrow>
             let val = (if long_mode > 0 then a else ucast (ucast a :: u32));
                 num_buf = utoa val (if c = 0x75 then 10 else 16);
                 pad_len = (if fwidth > length num_buf then fwidth - length num_buf else 0)
             in Some (replicate pad_len (if zero_pad then 0x30 else 0x20) @ num_buf, args))
      else if c = 0x70 then
        (case args of [] \<Rightarrow> None
         | val # args \<Rightarrow>
             let num_buf = utoa val 16;
                 pad_len = (if fwidth > length num_buf + 2 then fwidth - length num_buf - 2 else 0)
             in Some ([0x30, 0x78] @ replicate pad_len 0x30 @ num_buf, args))
      else if c = 0x73 then
        (case args of [] \<Rightarrow> None
         | a # args \<Rightarrow>
             let s = (if a = 0 then str ''(null)'' else cstr (mem a));
                 pad_len = (if fwidth > length s then fwidth - length s else 0)
             in Some (replicate pad_len 0x20 @ s, args))
      else if c = 0x63 then
        (case args of [] \<Rightarrow> None
         | a # args \<Rightarrow> Some (replicate (if fwidth > 1 then fwidth - 1 else 0) 0x20 @ [ucast a], args))
      else if c = 0x25 then Some ([0x25], args)
      else Some ([0x25, c], args))"

section \<open>The line buffer\<close>

record kpstate =
  kp_con :: Console
  kp_fb :: frame
  kp_buf :: bytes

definition kp_flush :: "kpstate \<Rightarrow> kpstate" where
  "kp_flush s = (let (con, fb) = PutString (kp_con s) (kp_fb s) (kp_buf s @ [0])
                 in \<lparr>kp_con = con, kp_fb = fb, kp_buf = []\<rparr>)"

definition kputc :: "u8 \<Rightarrow> kpstate \<Rightarrow> kpstate" where
  "kputc c s = (let s = (if length (kp_buf s) \<ge> 1000 then kp_flush s else s) in s\<lparr>kp_buf := kp_buf s @ [c]\<rparr>)"

lemma parse_flag_length: "parse_flag f = (z, f') \<Longrightarrow> length f' \<le> length f"
  by (cases f) (auto split: if_splits)

lemma parse_width_length: "parse_width w f = Some (n, f') \<Longrightarrow> length f' \<le> length f"
  by (induction w f rule: parse_width.induct) (auto split: if_splits)

lemma parse_long_length: "parse_long f = (n, f') \<Longrightarrow> length f' \<le> length f"
  by (induction f rule: parse_long.induct) (auto split: if_splits)

lemma parse_directive_length:
  assumes "(z, f1) = parse_flag f" "parse_width 0 f1 = Some (w, f2)" "(l, c # rest) = parse_long f2"
  shows "length rest < length f"
  using parse_flag_length [OF assms(1) [symmetric]] parse_width_length [OF assms(2)]
    parse_long_length [OF assms(3) [symmetric]] by simp

function kp_loop :: "(u64 \<Rightarrow> bytes) \<Rightarrow> bytes \<Rightarrow> u64 list \<Rightarrow> kpstate \<Rightarrow> kpstate option" where
  "kp_loop mem [] args s = Some s"
| "kp_loop mem (c # format) args s =
     (if c = 0 then Some s
      else if c = 0x25 then
        let (zero_pad, f) = parse_flag format
        in (case parse_width 0 f of
              None \<Rightarrow> None
            | Some (fwidth, f) \<Rightarrow>
                let (long_mode, f) = parse_long f
                in (case f of [] \<Rightarrow> None
                    | c # rest \<Rightarrow>
                        if c = 0 then None
                        else (case kconv mem zero_pad fwidth long_mode c args of None \<Rightarrow> None
                              | Some (out, args) \<Rightarrow> kp_loop mem rest args (fold kputc out s))))
      else kp_loop mem format args (kputc c s))"
  by pat_completeness auto
termination
  by (relation "measure (\<lambda>(m, f, a, s). length f)") (auto dest: parse_directive_length)

declare kp_loop.simps(2) [simp del]

text \<open>\<open>kprintf\<close>: without a console \<open>-1\<close>; the value returned is the fill of the last buffer.\<close>

definition kprintf :: "(u64 \<Rightarrow> bytes) \<Rightarrow> (Console \<times> frame) option \<Rightarrow> bytes \<Rightarrow> u64 list \<Rightarrow>
    (int \<times> (Console \<times> frame) option) option" where
  "kprintf mem g_console format args =
     (case g_console of
        None \<Rightarrow> Some (-1, None)
      | Some (con, fb) \<Rightarrow>
          (case kp_loop mem format args \<lparr>kp_con = con, kp_fb = fb, kp_buf = []\<rparr> of
             None \<Rightarrow> None
           | Some s \<Rightarrow> let t = kp_flush s in Some (int (length (kp_buf s)), Some (kp_con t, kp_fb t))))"

section \<open>Reference output\<close>

text \<open>The numeral of a number: most significant digit first, no leading zeros.\<close>

fun numeral_of :: "nat \<Rightarrow> nat \<Rightarrow> bytes" where
  "numeral_of b n =
     (if n < b \<or> b < 2 then [digit_char (of_nat n)] else numeral_of b (n div b) @ [digit_char (of_nat (n mod b))])"

declare numeral_of.simps [simp del]

definition pad_left :: "nat \<Rightarrow> u8 \<Rightarrow> bytes \<Rightarrow> bytes" where
  "pad_left fwidth c s = replicate (fwidth - length s) c @ s"

lemma utoa_loop_numeral:
  "2 \<le> b \<Longrightarrow> utoa_loop v b = rev (numeral_of (unat b) (unat v))"
proof (induction v b rule: utoa_loop.induct)
  case (1 v b)
  have b: "2 \<le> unat b" using 1(2) by (simp add: word_le_nat_alt)
  have z: "v div b = 0 \<longleftrightarrow> unat v < unat b"
    using b by (simp add: word_unat_eq_iff unat_word_div div_eq_0_iff)
  have m: "digit_char (v mod b) = digit_char (of_nat (unat v mod unat b))"
    by (simp add: unat_word_mod [symmetric])
  show ?case
  proof (cases "v div b = 0")
    case True
    then have "v mod b = v" using z b by (simp add: word_unat_eq_iff unat_word_mod)
    then show ?thesis using True z by (simp add: utoa_loop.simps [of v b] numeral_of.simps [of "unat b"])
  next
    case False
    then show ?thesis
      using 1 z m b by (simp add: utoa_loop.simps [of v b] numeral_of.simps [of "unat b" "unat v"] unat_word_div)
  qed
qed

lemma rev_loop_spec:
  "i + j + 1 = length xs \<Longrightarrow> i \<le> j + 1 \<Longrightarrow>
    rev_loop i j xs = take i xs @ rev (take (j + 1 - i) (drop i xs)) @ drop (j + 1) xs"
proof (induction i j xs rule: rev_loop.induct)
  case (1 i j xs)
  show ?case
  proof (cases "i < j")
    case False
    then have "j + 1 - i = 0 \<or> j + 1 - i = 1" using 1(3) by arith
    then have "rev (take (j + 1 - i) (drop i xs)) = take (j + 1 - i) (drop i xs)"
      using 1(2) by (auto simp: take_Suc split: list.split)
    moreover have "take i xs @ take (j + 1 - i) (drop i xs) @ drop (j + 1) xs = xs"
      using 1(3) by (metis append_assoc append_take_drop_id le_add_diff_inverse take_add)
    ultimately show ?thesis using False by (simp add: rev_loop.simps [of i])
  next
    case True
    let ?ys = "xs[j := xs ! i, i := xs ! j]"
    have ih: "rev_loop (i + 1) (j - 1) ?ys =
        take (i + 1) ?ys @ rev (take (j - 1 + 1 - (i + 1)) (drop (i + 1) ?ys)) @ drop (j - 1 + 1) ?ys"
      using 1(1) [OF True] 1(2) True by simp
    have j: "j < length xs" using 1(2) by simp
    have "take (i + 1) ?ys = take i xs @ [xs ! j]"
      using True j by (simp add: take_Suc_conv_app_nth)
    moreover have "take (j - 1 + 1 - (i + 1)) (drop (i + 1) ?ys) = take (j - i - 1) (drop (i + 1) xs)"
      using True by (simp add: drop_update_swap take_update_cancel)
    moreover have "drop (j - 1 + 1) ?ys = xs ! i # drop (j + 1) xs"
      using True j by (simp add: Cons_nth_drop_Suc [symmetric])
    moreover have "take (j + 1 - i) (drop i xs) = xs ! i # take (j - i - 1) (drop (i + 1) xs) @ [xs ! j]"
    proof -
      have "drop i xs = xs ! i # drop (i + 1) xs" using True j by (simp add: Cons_nth_drop_Suc)
      moreover have "take (Suc (j - i - 1)) (drop (i + 1) xs) = take (j - i - 1) (drop (i + 1) xs) @ [xs ! j]"
        using True j by (subst take_Suc_conv_app_nth) auto
      moreover have "j + 1 - i = Suc (Suc (j - i - 1))" using True by simp
      ultimately show ?thesis by simp
    qed
    ultimately show ?thesis using True ih by (simp add: rev_loop.simps [of i j xs])
  qed
qed

lemma utoa_numeral: "2 \<le> b \<Longrightarrow> utoa v b = numeral_of (unat b) (unat v)"
proof -
  assume b: "2 \<le> b"
  have ne: "utoa_loop v b \<noteq> []" by (simp add: utoa_loop.simps [of v b])
  then have "rev_loop 0 (length (utoa_loop v b) - 1) (utoa_loop v b) = rev (utoa_loop v b)"
    using rev_loop_spec [of 0 "length (utoa_loop v b) - 1" "utoa_loop v b"] by simp
  then show ?thesis using utoa_loop_numeral [OF b, of v] by (simp add: utoa_def Let_def)
qed

text \<open>The numeral denotes the number; a conversion fits into the 32 bytes of \<open>num_buf\<close>.\<close>

definition digit_value :: "u8 \<Rightarrow> nat" where
  "digit_value c = (if c \<ge> 0x61 then unat c - 0x61 + 10 else unat c - 0x30)"

lemma digit_value_char: "n < 16 \<Longrightarrow> digit_value (digit_char (of_nat n)) = n"
proof -
  assume "n < 16"
  then have "n \<in> {0, 1, 2, 3, 4, 5, 6, 7, 8, 9, 10, 11, 12, 13, 14, 15}" by (simp only: insert_iff empty_iff) arith
  then show ?thesis by (elim insertE emptyE) (simp_all add: digit_value_def digit_char_def)
qed

lemma numeral_of_value:
  "2 \<le> b \<Longrightarrow> b \<le> 16 \<Longrightarrow> foldl (\<lambda>n c. n * b + digit_value c) 0 (numeral_of b n) = n"
proof (induction b n rule: numeral_of.induct)
  case (1 b n)
  show ?case
  proof (cases "n < b")
    case True
    then show ?thesis using 1(3) digit_value_char [of n] by (simp add: numeral_of.simps [of b n])
  next
    case False
    have "n mod b < 16" using mod_less_divisor [of b n] 1(2,3) by linarith
    then show ?thesis
      using 1 False digit_value_char [of "n mod b"] by (simp add: numeral_of.simps [of b n])
  qed
qed

lemma length_numeral_of: "2 \<le> b \<Longrightarrow> n < b ^ k \<Longrightarrow> 0 < k \<Longrightarrow> length (numeral_of b n) \<le> k"
proof (induction b n arbitrary: k rule: numeral_of.induct)
  case (1 b n)
  show ?case
  proof (cases "n < b")
    case True
    then show ?thesis using 1(4) by (simp add: numeral_of.simps [of b n])
  next
    case False
    obtain j where k: "k = Suc j" using 1(4) by (cases k) auto
    have j: "0 < j" using False 1(3) by (cases j) (auto simp: k)
    have "n div b < b ^ j" using 1(2,3) by (simp add: k div_less_iff_less_mult mult.commute)
    then show ?thesis using 1(1) [of j] False 1(2) j by (simp add: numeral_of.simps [of b n] k)
  qed
qed

lemma utoa_fits: "b = 10 \<or> b = 16 \<Longrightarrow> length (utoa v b) \<le> 20"
proof -
  assume b: "b = 10 \<or> b = 16"
  then have "2 \<le> b" "2 \<le> unat b" "unat v < unat b ^ 20" using unat_u64_less [of v] by auto
  then show ?thesis using length_numeral_of [of "unat b" "unat v" 20] by (simp add: utoa_numeral)
qed

text \<open>The conversions in terms of padding and numerals of integers.\<close>

definition conv_spec :: "(u64 \<Rightarrow> bytes) \<Rightarrow> bool \<Rightarrow> nat \<Rightarrow> nat \<Rightarrow> u8 \<Rightarrow> u64 list \<Rightarrow> (bytes \<times> u64 list) option" where
  "conv_spec mem zero w long c args =
     (let pad = (if zero then 0x30 else 0x20)
      in if c \<in> set (str ''duxpsc'') then
           (case args of [] \<Rightarrow> None
            | a # args \<Rightarrow> Some (
                if c = chr CHR ''d'' then
                  let n = (if long > 0 then sint a else sint (ucast a :: u32));
                      sign = (if n < 0 then str ''-'' else []); num = numeral_of 10 (nat \<bar>n\<bar>)
                  in if zero then sign @ pad_left (w - length sign) pad num else pad_left w pad (sign @ num)
                else if c = chr CHR ''u'' then pad_left w pad (numeral_of 10 (if long > 0 then unat a else unat (ucast a :: u32)))
                else if c = chr CHR ''x'' then pad_left w pad (numeral_of 16 (if long > 0 then unat a else unat (ucast a :: u32)))
                else if c = chr CHR ''p'' then str ''0x'' @ pad_left (w - 2) 0x30 (numeral_of 16 (unat a))
                else if c = chr CHR ''s'' then pad_left w 0x20 (if a = 0 then str ''(null)'' else cstr (mem a))
                else pad_left w 0x20 [ucast a], args))
         else Some (if c = 0x25 then [0x25] else [0x25, c], args))"

lemma sint_u64: "sint (v :: u64) = (if uint v < 2 ^ 63 then uint v else uint v - 2 ^ 64)"
proof -
  have s: "sint v = (uint v + 2 ^ 63) mod 2 ^ 64 - 2 ^ 63"
    using signed_take_bit_eq_take_bit_shift [of 63 "uint v"] by (simp add: sint_uint take_bit_eq_mod)
  have u: "0 \<le> uint v" "uint v < 2 ^ 64" using unsigned_less [of v, where ?'a = int] by simp_all
  show ?thesis
  proof (cases "uint v < 2 ^ 63")
    case True
    then have "(uint v + 2 ^ 63) mod 2 ^ 64 = uint v + 2 ^ 63" using u by (intro mod_pos_pos_trivial) auto
    then show ?thesis using s True by simp
  next
    case False
    have "(uint v + 2 ^ 63) mod 2 ^ 64 = (uint v + 2 ^ 63 - 2 ^ 64) mod 2 ^ 64"
      by (rule minus_mod_self2 [symmetric])
    also have "\<dots> = uint v + 2 ^ 63 - 2 ^ 64" using False u by (intro mod_pos_pos_trivial) auto
    finally show ?thesis using s False by simp
  qed
qed

lemma unat_abs_sint: "unat (if sint v < 0 then - v else v) = nat \<bar>sint (v :: u64)\<bar>"
proof (cases "uint v < 2 ^ 63")
  case True
  then have s: "sint v = uint v" using sint_u64 [of v] by simp
  have u: "0 \<le> uint v" by simp
  have "unat v = nat (uint v)" by (rule unat_eq_nat_uint)
  then show ?thesis unfolding s using u by (simp only: abs_of_nonneg not_less [symmetric] if_False)
next
  case False
  have u: "uint v < 2 ^ 64" using unsigned_less [of v, where ?'a = int] by simp
  have s: "sint v = uint v - 2 ^ 64" using sint_u64 [of v] False by simp
  have "uint (- v) = (- uint v) mod 2 ^ 64" by (simp add: uint_word_ariths)
  also have "\<dots> = (2 ^ 64 - uint v) mod 2 ^ 64" by simp
  also have "\<dots> = 2 ^ 64 - uint v" using u False by (intro mod_pos_pos_trivial) auto
  finally have m: "uint (- v) = 2 ^ 64 - uint v" .
  have neg: "sint v < 0" using s u by simp
  have "unat (- v) = nat (uint (- v))" by (rule unat_eq_nat_uint)
  also have "\<dots> = nat \<bar>sint v\<bar>" unfolding m s using u by simp
  finally show ?thesis using neg by simp
qed

lemma str_chars:
  "str ''duxpsc'' = [0x64, 0x75, 0x78, 0x70, 0x73, 0x63]" "str ''-'' = [0x2D]" "str ''0x'' = [0x30, 0x78]"
  "chr CHR ''d'' = 0x64" "chr CHR ''u'' = 0x75" "chr CHR ''x'' = 0x78" "chr CHR ''p'' = 0x70" "chr CHR ''s'' = 0x73"
  by (simp_all add: str_def chr_def of_char_def)

lemma sint_scast_32_64: "sint (scast (w :: u32) :: u64) = sint w"
  by (rule sint_up_scast) (simp add: is_up)

lemma utoa_signed: "utoa (if sint v < 0 then - v else v) 10 = numeral_of 10 (nat \<bar>sint (v :: u64)\<bar>)"
proof -
  have "utoa (if sint v < 0 then - v else v) 10 = numeral_of (unat (10 :: u64)) (unat (if sint v < 0 then - v else v))"
    by (rule utoa_numeral) simp
  then show ?thesis unfolding unat_abs_sint by simp
qed

lemma utoa_10_16: "utoa v 10 = numeral_of 10 (unat v)" "utoa v 16 = numeral_of 16 (unat v)"
  using utoa_numeral [of 10 v] utoa_numeral [of 16 v] by simp_all

lemma pad_eq: "replicate (if k < w then w - k else 0) c = replicate (w - k) c"
  by simp

lemma kconv_d: "kconv mem zero w long 0x64 (a # as) = conv_spec mem zero w long 0x64 (a # as)"
proof -
  define v where "v = (if long > 0 then a else scast (ucast a :: u32))"
  have n: "(if long > 0 then sint a else sint (ucast a :: u32)) = sint v"
    by (simp add: v_def sint_scast_32_64)
  show ?thesis
    unfolding kconv_def conv_spec_def str_chars list.case n v_def [symmetric] Let_def
    by (simp add: utoa_signed pad_left_def)
qed

lemma kconv_spec: "kconv mem zero w long c args = conv_spec mem zero w long c args"
proof (cases args)
  case Nil
  then show ?thesis by (simp add: kconv_def conv_spec_def str_chars)
next
  case (Cons a as)
  consider "c = 0x64" | "c = 0x75" | "c = 0x78" | "c = 0x70" | "c = 0x73" | "c = 0x63"
    | "c \<notin> {0x64, 0x75, 0x78, 0x70, 0x73, 0x63}" by auto
  then show ?thesis
  proof cases
    case 1
    then show ?thesis using kconv_d Cons by simp
  qed (simp_all add: Cons kconv_def conv_spec_def str_chars Let_def utoa_10_16 pad_left_def)
qed

section \<open>Output of a whole format\<close>

text \<open>The text that a format yields, without the buffer.\<close>

function render :: "(u64 \<Rightarrow> bytes) \<Rightarrow> bytes \<Rightarrow> u64 list \<Rightarrow> bytes option" where
  "render mem [] args = Some []"
| "render mem (c # format) args =
     (if c = 0 then Some []
      else if c \<noteq> 0x25 then map_option (Cons c) (render mem format args)
      else
        let (zero, f) = parse_flag format
        in (case parse_width 0 f of
              None \<Rightarrow> None
            | Some (w, f) \<Rightarrow>
                let (long, f) = parse_long f
                in (case f of [] \<Rightarrow> None
                    | c # rest \<Rightarrow>
                        if c = 0 then None
                        else (case conv_spec mem zero w long c args of None \<Rightarrow> None
                              | Some (out, args) \<Rightarrow> map_option (append out) (render mem rest args)))))"
  by pat_completeness auto
termination
  by (relation "measure (\<lambda>(m, f, a). length f)") (auto dest: parse_directive_length)

declare render.simps(2) [simp del]

lemma kp_loop_render:
  "kp_loop mem format args s = map_option (\<lambda>out. fold kputc out s) (render mem format args)"
proof (induction mem format args s rule: kp_loop.induct)
  case (1 mem args s)
  then show ?case by simp
next
  case (2 mem c format args s)
  consider "c = 0" | "c \<noteq> 0" "c \<noteq> 0x25" | "c = 0x25" by blast
  then show ?case
  proof cases
    case 1
    then show ?thesis by (simp add: kp_loop.simps render.simps)
  next
    case c: 2
    then show ?thesis using 2(2) by (simp add: kp_loop.simps(2) [of mem c] render.simps(2) [of mem c] option.map_comp comp_def)
  next
    case c: 3
    obtain z f1 where f1: "parse_flag format = (z, f1)" by (cases "parse_flag format")
    have c0: "c \<noteq> 0" using c by simp
    show ?thesis
    proof (cases "parse_width 0 f1")
      case None
      then show ?thesis using c0 f1 unfolding kp_loop.simps(2) [of mem c] render.simps(2) [of mem c] by (simp add: c)
    next
      case (Some wf)
      obtain w f2 where wf: "wf = (w, f2)" by (cases wf)
      note f2 = Some [unfolded wf]
      obtain l f3 where f3: "parse_long f2 = (l, f3)" by (cases "parse_long f2")
      have "kp_loop mem rest args' (fold kputc out s) = map_option (\<lambda>o'. fold kputc o' (fold kputc out s)) (render mem rest args')"
        if "f3 = d # rest" "d \<noteq> 0" "kconv mem z w l d args = Some (out, args')" for d rest out args'
        using 2(1) [OF c0 c f1 [symmetric] refl f2 refl f3 [symmetric] refl that(1,2,3) refl] .
      then show ?thesis
        using c0 f1 f2 f3 unfolding kp_loop.simps(2) [of mem c] render.simps(2) [of mem c]
        by (simp add: c kconv_spec option.map_comp comp_def split: list.split option.split prod.split)
    qed
  qed
qed

text \<open>Flushing the buffer when it is full does not show in the output.\<close>

lemma PutString_end: "0 \<notin> set s \<Longrightarrow> PutString con fb (s @ [0]) = PutString con fb s"
  by (simp add: PutString_append split: prod.split)

definition kp_output :: "kpstate \<Rightarrow> Console \<times> frame" where
  "kp_output s = PutString (kp_con s) (kp_fb s) (kp_buf s)"

lemma kp_flush_output:
  "0 \<notin> set (kp_buf s) \<Longrightarrow> (kp_con (kp_flush s), kp_fb (kp_flush s)) = kp_output s \<and> kp_buf (kp_flush s) = []"
  by (simp add: kp_flush_def kp_output_def PutString_end split: prod.split)

lemma kputc_output:
  assumes "0 \<notin> set (kp_buf s)" "c \<noteq> 0"
  shows "kp_output (kputc c s) = (let (con, fb) = kp_output s in PutString con fb [c])"
    and "0 \<notin> set (kp_buf (kputc c s))"
  using kp_flush_output [OF assms(1)] assms
  by (auto simp: kputc_def kp_output_def PutString_append Let_def split: prod.split)

lemma kputs_output:
  "0 \<notin> set (kp_buf s) \<Longrightarrow> 0 \<notin> set out \<Longrightarrow>
    kp_output (fold kputc out s) = (let (con, fb) = kp_output s in PutString con fb out) \<and>
    0 \<notin> set (kp_buf (fold kputc out s))"
proof (induction out arbitrary: s)
  case Nil
  then show ?case by simp
next
  case (Cons c out)
  then have k: "kp_output (kputc c s) = (let (con, fb) = kp_output s in PutString con fb [c])"
    "0 \<notin> set (kp_buf (kputc c s))"
    using kputc_output [of s c] by auto
  obtain con fb where o: "kp_output s = (con, fb)" by (cases "kp_output s")
  have "PutString con fb (c # out) = (let (con, fb) = PutString con fb [c] in PutString con fb out)"
    using PutString_append [of "[c]" con fb out] Cons.prems(2) by simp
  then show ?case using Cons.IH [OF k(2)] Cons.prems(2) k(1) o by simp
qed

lemma kputs_short: "length (kp_buf s) + length out \<le> 1000 \<Longrightarrow> kp_buf (fold kputc out s) = kp_buf s @ out"
  by (induction out arbitrary: s) (auto simp: kputc_def Let_def)

lemma kprintf_text:
  assumes "render mem format args = Some out" "0 \<notin> set out"
  shows "\<exists>n. kprintf mem (Some (con, fb)) format args = Some (n, Some (PutString con fb out)) \<and>
    (length out \<le> 1000 \<longrightarrow> n = int (length out))"
proof -
  define s where "s = fold kputc out \<lparr>kp_con = con, kp_fb = fb, kp_buf = []\<rparr>"
  have s: "kp_output s = PutString con fb out" "0 \<notin> set (kp_buf s)"
    using kputs_output [of "\<lparr>kp_con = con, kp_fb = fb, kp_buf = []\<rparr>" out] assms(2)
    by (simp_all add: s_def) (simp_all add: kp_output_def)
  have "kp_loop mem format args \<lparr>kp_con = con, kp_fb = fb, kp_buf = []\<rparr> = Some s"
    by (simp add: kp_loop_render assms(1) s_def)
  moreover have "length out \<le> 1000 \<Longrightarrow> length (kp_buf s) = length out"
    using kputs_short [of "\<lparr>kp_con = con, kp_fb = fb, kp_buf = []\<rparr>" out] by (simp add: s_def)
  ultimately show ?thesis
    using kp_flush_output [OF s(2)] s(1) by (simp add: kprintf_def Let_def)
qed

section \<open>Formats as lists of items\<close>

text \<open>
  A format is a sequence of literal characters and directives; a directive is \<open>%\<close>, possibly a zero, the
  decimal digits of the width, up to two letters l and the conversion. What a directive
  prints is \<open>conv_spec\<close> at the number that the digits denote.
\<close>

datatype item = Lit u8 | Dir bool bytes nat u8

definition digit :: "u8 \<Rightarrow> bool" where
  "digit c \<longleftrightarrow> 0x30 \<le> c \<and> c \<le> 0x39"

definition width_of :: "bytes \<Rightarrow> nat" where
  "width_of ds = foldl (\<lambda>n d. n * 10 + digit_value d) 0 ds"

fun item_ok :: "item \<Rightarrow> bool" where
  "item_ok (Lit c) \<longleftrightarrow> c \<noteq> 0 \<and> c \<noteq> 0x25"
| "item_ok (Dir zero ds long c) \<longleftrightarrow> list_all digit ds \<and> (zero \<or> ds = [] \<or> hd ds \<noteq> 0x30) \<and> width_of ds < 2 ^ 31 \<and>
     long \<le> 2 \<and> c \<noteq> 0 \<and> c \<noteq> 0x6C \<and> \<not> digit c"

fun item_format :: "item \<Rightarrow> bytes" where
  "item_format (Lit c) = [c]"
| "item_format (Dir zero ds long c) = 0x25 # (if zero then [0x30] else []) @ ds @ replicate long 0x6C @ [c]"

fun meaning :: "(u64 \<Rightarrow> bytes) \<Rightarrow> item list \<Rightarrow> u64 list \<Rightarrow> bytes option" where
  "meaning mem [] args = Some []"
| "meaning mem (Lit c # items) args = map_option (Cons c) (meaning mem items args)"
| "meaning mem (Dir zero ds long c # items) args =
     (case conv_spec mem zero (width_of ds) long c args of
        None \<Rightarrow> None
      | Some (out, args) \<Rightarrow> map_option (append out) (meaning mem items args))"

lemma digit_value_digit: "digit c \<Longrightarrow> digit_value c = unat (c - 0x30)"
  by (auto simp: digit_def digit_value_def unat_sub word_le_nat_alt)

lemma width_grows: "(w :: nat) \<le> foldl (\<lambda>n d. n * 10 + digit_value d) w ds"
proof (induction ds arbitrary: w)
  case (Cons d ds)
  have "w \<le> w * 10 + digit_value d" by simp
  also have "\<dots> \<le> foldl (\<lambda>n d. n * 10 + digit_value d) (w * 10 + digit_value d) ds" by (rule Cons.IH)
  finally show ?case by simp
qed simp

lemma parse_width_digits:
  "list_all digit ds \<Longrightarrow> foldl (\<lambda>n d. n * 10 + digit_value d) w ds < 2 ^ 31 \<Longrightarrow> \<not> digit c \<Longrightarrow>
    parse_width w (ds @ c # f) = Some (foldl (\<lambda>n d. n * 10 + digit_value d) w ds, c # f)"
proof (induction ds arbitrary: w)
  case Nil
  then show ?case by (auto simp: digit_def)
next
  case (Cons d ds)
  have d: "digit d" "0x30 \<le> d" "d \<le> 0x39" using Cons.prems(1) by (simp_all add: digit_def)
  have "w * 10 + digit_value d < 2 ^ 31"
    using width_grows [of "w * 10 + digit_value d" ds] Cons.prems(2) by simp
  then show ?case using Cons d by (simp add: digit_value_digit)
qed

lemma parse_long_letters: "long \<le> 2 \<Longrightarrow> c \<noteq> 0x6C \<Longrightarrow> parse_long (replicate long 0x6C @ c # f) = (long, c # f)"
proof -
  assume long: "long \<le> 2" and c: "c \<noteq> 0x6C"
  consider "long = 0" | "long = 1" | "long = 2" using long by linarith
  then show ?thesis using c by cases (cases f, simp_all add: numeral_2_eq_2)+
qed

lemma parse_flag_zero:
  assumes "list_all digit ds" "zero \<or> ds = [] \<or> hd ds \<noteq> 0x30" "\<not> digit c"
  shows "parse_flag ((if zero then [0x30] else []) @ ds @ replicate long 0x6C @ c # f) = (zero, ds @ replicate long 0x6C @ c # f)"
  using assms by (cases ds; cases long) (auto simp: digit_def)

lemma render_items:
  assumes "list_all item_ok items" "rest = [] \<or> hd rest = 0"
  shows "render mem (concat (map item_format items) @ rest) args = meaning mem items args"
  using assms(1)
proof (induction items arbitrary: args)
  case Nil
  then show ?case using assms(2) by (cases rest) (simp_all add: render.simps(2))
next
  case (Cons i items)
  let ?f = "concat (map item_format items) @ rest"
  show ?case
  proof (cases i)
    case (Lit c)
    then show ?thesis using Cons by (simp add: render.simps(2))
  next
    case (Dir zero ds long c)
    have ok: "list_all digit ds" "zero \<or> ds = [] \<or> hd ds \<noteq> 0x30" "width_of ds < 2 ^ 31" "long \<le> 2" "c \<noteq> 0" "c \<noteq> 0x6C" "\<not> digit c"
      using Cons.prems Dir by auto
    obtain a g where ag: "replicate long 0x6C @ c # ?f = a # g" "\<not> digit a" using ok(7) by (cases long) (auto simp: digit_def)
    have "parse_width 0 (ds @ replicate long 0x6C @ c # ?f) = Some (width_of ds, replicate long 0x6C @ c # ?f)"
      using parse_width_digits [OF ok(1) _ ag(2), of 0 g] ok(3) by (simp add: ag(1) width_of_def)
    then show ?thesis
      using Cons parse_flag_zero [OF ok(1,2,7), of long ?f] parse_long_letters [OF ok(4,6), of ?f] ok(5)
      by (simp add: Dir render.simps(2) split: option.split prod.split)
  qed
qed

text \<open>
  C35: \<open>kprintf\<close> prints the text that its format stands for. For a format that is a sequence of
  literal characters and directives up to the end of the string, with enough arguments, the console shows the
  literal characters and for each directive the padded numeral of its argument (the sign before zeros and after
  spaces), the string or the character. The width of \<open>%p\<close> counts the prefix 0x. The
  1000-byte buffer does not show, whatever the length; the value returned is the length of the
  text when that is at most 1000.
\<close>

theorem kprintf_prints:
  assumes "list_all item_ok items" "rest = [] \<or> hd rest = 0" "meaning mem items args = Some out" "0 \<notin> set out"
  shows "\<exists>n. kprintf mem (Some (con, fb)) (concat (map item_format items) @ rest) args = Some (n, Some (PutString con fb out)) \<and>
    (length out \<le> 1000 \<longrightarrow> n = int (length out))"
  using kprintf_text [of mem _ args out] render_items [OF assms(1,2)] assms(3,4) by simp

theorem kprintf_prints_witness:
  "\<forall>con fb. kprintf (\<lambda>_. []) (Some (con, fb)) [0x25, 0x30, 0x34, 0x64, 0x21, 0] [- 42] =
     Some (5, Some (PutString con fb [0x2D, 0x30, 0x34, 0x32, 0x21]))"
proof -
  have n: "numeral_of 10 42 = [0x34, 0x32]"
    by (simp add: numeral_of.simps [of 10 42] numeral_of.simps [of 10 4] digit_char_def)
  have v: "sint (ucast (- 42 :: u64) :: u32) = - 42" by simp
  have w: "width_of [0x34] = 4" by (simp add: width_of_def digit_value_def)
  have "meaning (\<lambda>_. []) [Dir True [0x34] 0 0x64, Lit 0x21] [- 42] = Some [0x2D, 0x30, 0x34, 0x32, 0x21]"
    by (simp add: conv_spec_def str_chars Let_def v n w pad_left_def)
  moreover have "list_all item_ok [Dir True [0x34] 0 0x64, Lit 0x21]" by (simp add: digit_def w)
  ultimately have "\<exists>n. kprintf (\<lambda>_. []) (Some (con, fb)) [0x25, 0x30, 0x34, 0x64, 0x21, 0] [- 42] =
      Some (n, Some (PutString con fb [0x2D, 0x30, 0x34, 0x32, 0x21])) \<and> n = 5" for con fb
    using kprintf_prints [of "[Dir True [0x34] 0 0x64, Lit 0x21]" "[0]" "\<lambda>_. []" "[- 42]" "[0x2D, 0x30, 0x34, 0x32, 0x21]" con fb] by simp
  then show ?thesis by blast
qed

end
