(* ===== verification/DiskFormat.thy ===== *)
theory DiskFormat
  imports FatNvme
begin

text \<open>
  Preparing a disk (kernel/fs/fat32/fat32.cpp, kernel/fs/gpt.hpp, gpt.cpp and the GPT part of
  kernel/fs/installer.cpp): the FAT32 volume and the partition table are written as a list
  of transfers, in the order of the code, through the block device. The packed structures
  are written as byte lists, field by field. The scratch buffers of the code are local
  values here.
\<close>

section \<open>Formatting the volume\<close>

definition kPartitionStartLBA :: u64 where
  "kPartitionStartLBA = 2048"

definition bpb_bytes :: "u64 \<Rightarrow> u32 \<Rightarrow> bytes" where
  "bpb_bytes part_sectors fat_sz_sec =
     [0xEB, 0x58, 0x90] @ str ''MSWIN4.1'' @ le16_put 512 @ [8] @ le16_put 32 @ [2] @ le16_put 0 @ le16_put 0 @
     [0xF8] @ le16_put 0 @ le16_put 32 @ le16_put 64 @ le32_put (ucast kPartitionStartLBA) @
     le32_put (ucast part_sectors) @ le32_put fat_sz_sec @ le16_put 0 @ le16_put 0 @ le32_put 2 @ le16_put 1 @
     le16_put 6 @ replicate 12 0 @ [0x80, 0, 0x29] @ le32_put 0x12345678 @ str ''SYLPHIA OS '' @
     str ''FAT32   '' @ replicate 420 0 @ le16_put 0xAA55"

definition fsinfo_bytes :: "u32 \<Rightarrow> bytes" where
  "fsinfo_bytes total_clusters =
     le32_put 0x41615252 @ replicate 480 0 @ le32_put 0x61417272 @ le32_put (total_clusters - 1) @ le32_put 3 @
     replicate 12 0 @ le32_put 0xAA550000"

definition first_fat_sector :: bytes where
  "first_fat_sector =
     set_fat_entry (set_fat_entry (set_fat_entry (replicate 512 0) 0 0x0FFFFFF8) 1 0x0FFFFFFF) 2 0x0FFFFFFF"

text \<open>The single-sector writes of \<open>FormatPartitionFAT32\<close>.\<close>

definition format_fat_sz :: "u64 \<Rightarrow> u32" where
  "format_fat_sz part_sectors =
     (let total_clusters = ucast (part_sectors div 8) :: u32; fat_sz_bytes = total_clusters * 4
      in (fat_sz_bytes + 511) div 512)"

definition format_writes :: "u64 \<Rightarrow> (u64 \<times> bytes) list" where
  "format_writes part_sectors =
     (let total_clusters = ucast (part_sectors div 8) :: u32;
          fat_sz_sec = format_fat_sz part_sectors;
          bpb = bpb_bytes part_sectors fat_sz_sec;
          fsinfo = fsinfo_bytes total_clusters;
          zero = replicate 512 0;
          fat1_start = kPartitionStartLBA + 32;
          fat2_start = fat1_start + ucast fat_sz_sec;
          data_start_lba = kPartitionStartLBA + 32 + ucast (2 * fat_sz_sec)
      in [(kPartitionStartLBA, bpb), (kPartitionStartLBA + 6, bpb),
          (kPartitionStartLBA + 1, fsinfo), (kPartitionStartLBA + 7, fsinfo),
          (fat1_start, first_fat_sector), (fat2_start, first_fat_sector)] @
         map (\<lambda>i. (fat1_start + of_nat i, zero)) [1..<128] @
         map (\<lambda>i. (fat2_start + of_nat i, zero)) [1..<128] @
         map (\<lambda>i. (data_start_lba + of_nat i, zero)) [0..<8])"

definition FormatPartitionFAT32 :: "'d BlockDevice \<Rightarrow> 'd \<Rightarrow> u64 \<Rightarrow> 'd" where
  "FormatPartitionFAT32 ops d part_sectors =
     fold (\<lambda>(lba, buf) d. snd (bd_Write ops d lba buf 1)) (format_writes part_sectors) d"

section \<open>The partition table\<close>

fun crc_bits :: "nat \<Rightarrow> u32 \<Rightarrow> u32" where
  "crc_bits 0 crc = crc"
| "crc_bits (Suc j) crc =
     crc_bits j (if crc AND 1 \<noteq> 0 then drop_bit 1 crc XOR 0xEDB88320 else drop_bit 1 crc)"

definition CalculateCRC32 :: "bytes \<Rightarrow> u32" where
  "CalculateCRC32 buffer = NOT (fold (\<lambda>p crc. crc_bits 8 (crc XOR ucast p)) buffer 0xFFFFFFFF)"

definition kEspGuid :: bytes where
  "kEspGuid = le32_put 0xC12A7328 @ le16_put 0xF81F @ le16_put 0x11D2 @ [0xBA, 0x4B, 0x00, 0xA0, 0xC9, 0x3E, 0xC9, 0x3B]"

definition kUniqueGuid :: bytes where
  "kUniqueGuid = le32_put 0x12345678 @ le16_put 0xABCD @ le16_put 0xEFEF @ [0x01, 0x02, 0x03, 0x04, 0x05, 0x06, 0x07, 0x08]"

definition mbr_bytes :: "u64 \<Rightarrow> bytes" where
  "mbr_bytes total_blocks =
     replicate 446 0 @ [0, 0, 0, 0, 0xEE, 0, 0, 0] @ le32_put 1 @
     le32_put (if total_blocks > 0xFFFFFFFF then 0xFFFFFFFF else ucast (total_blocks - 1)) @
     replicate 48 0 @ le16_put 0xAA55"

definition gpt_name :: bytes where
  "gpt_name = concat (map (\<lambda>c. [c, 0]) (str ''Sylphia System''))"

text \<open>The array of 128 entries of 128 bytes, of which only the first is used.\<close>

definition gpt_entries :: "u64 \<Rightarrow> bytes" where
  "gpt_entries total_blocks =
     kEspGuid @ kUniqueGuid @ le64_put 2048 @ le64_put (total_blocks - 34) @ le64_put 0 @
     gpt_name @ replicate (16384 - 84) 0"

definition gpt_header :: "u64 \<Rightarrow> u64 \<Rightarrow> u64 \<Rightarrow> u64 \<Rightarrow> u32 \<Rightarrow> u32 \<Rightarrow> bytes" where
  "gpt_header total_blocks my_lba alternate_lba entry_lba entries_crc crc =
     le64_put 0x5452415020494645 @ le32_put 0x00010000 @ le32_put 92 @ le32_put crc @ le32_put 0 @
     le64_put my_lba @ le64_put alternate_lba @ le64_put 2048 @ le64_put (total_blocks - 34) @ kUniqueGuid @
     le64_put entry_lba @ le32_put 128 @ le32_put 128 @ le32_put entries_crc @ replicate 420 0"

definition sealed_header :: "u64 \<Rightarrow> u64 \<Rightarrow> u64 \<Rightarrow> u64 \<Rightarrow> u32 \<Rightarrow> bytes" where
  "sealed_header total_blocks my_lba alternate_lba entry_lba entries_crc =
     gpt_header total_blocks my_lba alternate_lba entry_lba entries_crc
       (CalculateCRC32 (take 92 (gpt_header total_blocks my_lba alternate_lba entry_lba entries_crc 0)))"

definition gpt_writes :: "u64 \<Rightarrow> (u64 \<times> bytes \<times> u32) list" where
  "gpt_writes total_blocks =
     (let entry_buf = gpt_entries total_blocks;
          entries_crc = CalculateCRC32 entry_buf;
          backup_start_lba = total_blocks - 1 - 32
      in [(0, mbr_bytes total_blocks, 1)] @
         map (\<lambda>i. (2 + of_nat (i * 8), buf_get (i * 4096) 4096 entry_buf, 8)) [0..<4] @
         map (\<lambda>i. (backup_start_lba + of_nat (i * 8), buf_get (i * 4096) 4096 entry_buf, 8)) [0..<4] @
         [(1, sealed_header total_blocks 1 (total_blocks - 1) 2 entries_crc, 1),
          (total_blocks - 1, sealed_header total_blocks (total_blocks - 1) 1 backup_start_lba entries_crc, 1)])"

text \<open>\<open>None\<close> is the null pointer in \<open>NVMe::g_nvme\<close>.\<close>

definition FormatDiskGPT :: "'d option BlockDevice \<Rightarrow> 'd option \<Rightarrow> u64 \<Rightarrow> 'd option" where
  "FormatDiskGPT ops g_nvme total_blocks =
     (case g_nvme of
        None \<Rightarrow> None
      | Some _ \<Rightarrow> fold (\<lambda>(lba, buf, n) d. snd (bd_Write ops d lba buf n)) (gpt_writes total_blocks) g_nvme)"

section \<open>The installer\<close>

text \<open>The driver object that \<open>new FAT32Driver(dev, lba)\<close> makes; the geometry is read later.\<close>

definition FAT32Driver_new :: "'e BlockDevice \<Rightarrow> 'e \<Rightarrow> u64 \<Rightarrow> (nat \<Rightarrow> bytes) \<Rightarrow> 'e FAT32Driver" where
  "FAT32Driver_new ops d partition_lba mem =
     \<lparr>dev_ops = ops, dev = d, part_lba = partition_lba, sec_per_clus = 0, reserved_sectors = 0, num_fats = 0,
      fat_sz32 = 0, root_clus = 0, fat_start_lba = 0, data_start_lba = 0, fresh = mem\<rparr>"

fun copy_files :: "MemoryManager \<Rightarrow> 'd FAT32Driver \<Rightarrow> 'e FAT32Driver \<Rightarrow> (string \<times> string) list \<Rightarrow>
    (MemoryManager \<times> 'd FAT32Driver \<times> 'e FAT32Driver) option" where
  "copy_files mm fs usb_fs [] = Some (mm, fs, usb_fs)"
| "copy_files mm fs usb_fs ((a, b) # ps) =
     do { (_, mm, fs, usb_fs) \<leftarrow> CopyFileFrom mm fs usb_fs (str a) (str b); copy_files mm fs usb_fs ps }"

definition install_files :: "(string \<times> string) list" where
  "install_files =
     [(''EFI/BOOT/BOOTX64.EFI'', ''EFI/BOOT/BOOTX64.EFI''), (''apps/shell.elf'', ''sys/bin/shell.elf''),
      (''apps/stdio.elf'', ''sys/bin/stdio.elf''), (''apps/test.elf'', ''sys/bin/test.elf''),
      (''kernel.elf'', ''kernel.elf'')]"

definition startup_script :: bytes where
  "startup_script = [0x5C] @ str ''EFI'' @ [0x5C] @ str ''BOOT'' @ [0x5C] @ str ''BOOTX64.EFI''"

text \<open>The start of the first partition of the stick, from its first sector.\<close>

definition usb_partition :: "bytes \<Rightarrow> u64" where
  "usb_partition buf =
     (if buf ! 510 = 0x55 \<and> buf ! 511 = 0xAA
      then if buf ! 0 = 0xEB \<or> buf ! 0 = 0xE9 then 0 else ucast (le32_get (buf_get (0x1BE + 8) 4 buf))
      else 0)"

text \<open>
  \<open>RunInstaller\<close>: the mass storage device is \<open>None\<close> when there is no stick; \<open>mem\<close> is what
  freshly allocated buffers hold. The result is \<open>None\<close> only when a file operation does not
  return.
\<close>

definition RunInstaller :: "MemoryManager \<Rightarrow> 'd FAT32Driver \<Rightarrow> ('e BlockDevice \<times> 'e) option \<Rightarrow> (nat \<Rightarrow> bytes) \<Rightarrow> bool \<Rightarrow>
    (MemoryManager \<times> 'd FAT32Driver \<times> 'e option) option" where
  "RunInstaller mm disk_fs mass_storage mem already_installed =
     (case mass_storage of
        None \<Rightarrow> Some (mm, disk_fs, None)
      | Some (uops, u) \<Rightarrow>
          let (_, buf, u) = bd_Read uops u 0 (mem 512) 1;
              usb_fs = Fat_Initialize (FAT32Driver_new uops u (usb_partition buf) mem)
          in if already_installed then Some (mm, disk_fs, Some (dev usb_fs))
             else
               let (_, disk_fs) = EnsureDirectory disk_fs (str ''sys'');
                   (_, disk_fs) = EnsureDirectory disk_fs (str ''sys/bin'');
                   (_, disk_fs) = EnsureDirectory disk_fs (str ''home'')
               in do {
                 (mm, disk_fs, usb_fs) \<leftarrow> copy_files mm disk_fs usb_fs install_files;
                 disk_fs \<leftarrow> WriteFile disk_fs (str ''STARTUP NSH'') startup_script 21 0;
                 Some (mm, disk_fs, Some (dev usb_fs)) })"

section \<open>A run of writes\<close>

context block_device
begin

lemma run_writes:
  "dinv d \<Longrightarrow>
    \<forall>(lba, buf, n) \<in> set ws. 0 < n \<and> unat n \<le> 255 \<and> unat lba + unat n \<le> nsec \<and> length buf = unat n * 512 \<Longrightarrow>
    dinv (fold (\<lambda>(lba, buf, n) d. snd (bd_Write ops d lba buf n)) ws d) \<and>
    media (fold (\<lambda>(lba, buf, n) d. snd (bd_Write ops d lba buf n)) ws d) =
      fold (\<lambda>(lba, buf, n) m. set_sectors m (unat lba) (unat n) buf) ws (media d)"
proof (induction ws arbitrary: d)
  case (Cons w ws)
  obtain lba buf n where w: "w = (lba, buf, n)" by (cases w)
  obtain d' where d': "bd_Write ops d lba buf n = (True, d')" "dinv d'"
    "media d' = set_sectors (media d) (unat lba) (unat n) buf"
    using write_ok [OF Cons.prems(1), of n lba buf] Cons.prems(2) w by auto
  show ?case using Cons.IH [OF d'(2)] Cons.prems(2) w d'(1,3) by simp
qed simp

lemma run_sector_writes:
  assumes "dinv d" "\<forall>(lba, buf) \<in> set ws. unat lba < nsec \<and> length buf = 512"
  shows "dinv (fold (\<lambda>(lba, buf) d. snd (bd_Write ops d lba buf 1)) ws d)"
    and "media (fold (\<lambda>(lba, buf) d. snd (bd_Write ops d lba buf 1)) ws d) =
      fold (\<lambda>(a, b) m. m(a := b)) (map (\<lambda>(lba, buf). (unat lba, buf)) ws) (media d)"
proof -
  let ?f = "\<lambda>(lba, buf). (lba, buf, 1 :: u32)"
  have c: "fold (\<lambda>(lba, buf) d. snd (bd_Write ops d lba buf 1)) ws d =
      fold (\<lambda>(lba, buf, n) d. snd (bd_Write ops d lba buf n)) (map ?f ws) d"
    by (simp add: fold_map comp_def case_prod_unfold)
  have "fold (\<lambda>(lba, buf, n) m. set_sectors m (unat lba) (unat n) buf) (map ?f ws) m =
      fold (\<lambda>(a, b) m. m(a := b)) (map (\<lambda>(lba, buf). (unat lba, buf)) ws) m" for m
    using assms(2) by (induction ws arbitrary: m) (auto simp: set_sectors_1)
  moreover have "\<forall>(lba, buf, n) \<in> set (map ?f ws). 0 < n \<and> unat n \<le> 255 \<and> unat lba + unat n \<le> nsec \<and> length buf = unat n * 512"
    using assms(2) by auto
  ultimately show "dinv (fold (\<lambda>(lba, buf) d. snd (bd_Write ops d lba buf 1)) ws d)"
    "media (fold (\<lambda>(lba, buf) d. snd (bd_Write ops d lba buf 1)) ws d) =
      fold (\<lambda>(a, b) m. m(a := b)) (map (\<lambda>(lba, buf). (unat lba, buf)) ws) (media d)"
    unfolding c using run_writes [OF assms(1), of "map ?f ws"] by simp_all
qed

end

text \<open>A sector after a list of single-sector writes: the last one wins.\<close>

lemma fold_upd_other: "l \<notin> fst ` set ws \<Longrightarrow> fold (\<lambda>(a, b) m. m(a := b)) ws m l = m l"
  by (induction ws arbitrary: m) auto

lemma fold_upd_const:
  "l \<in> fst ` set ws \<Longrightarrow> \<forall>w \<in> set ws. snd w = z \<Longrightarrow> fold (\<lambda>(a, b) m. m(a := b)) ws m l = z"
proof (induction ws arbitrary: m)
  case (Cons w ws)
  show ?case
  proof (cases "l \<in> fst ` set ws")
    case True
    then show ?thesis using Cons.IH Cons.prems(2) by (cases w) simp
  next
    case False
    then have "w = (l, z)" using Cons.prems by (cases w) auto
    then show ?thesis using fold_upd_other [OF False, of "m(l := z)"] by (simp del: fun_upd_apply) simp
  qed
qed simp

section \<open>The formatted volume\<close>

lemma length_str [simp]: "length (str s) = length s"
  by (simp add: str_def)

lemma length_sectors_of_format [simp]:
  "length (bpb_bytes ps fsz) = 512" "length (fsinfo_bytes c) = 512" "length first_fat_sector = 512"
  by (simp_all add: bpb_bytes_def fsinfo_bytes_def first_fat_sector_def le_simps)

text \<open>The parameters that \<open>FAT32Driver::Initialize\<close> reads back.\<close>

lemma bpb_fields:
  "bpb_bytes ps fsz ! 13 = 8" "le16_get (buf_get 14 2 (bpb_bytes ps fsz)) = 32" "bpb_bytes ps fsz ! 16 = 2"
  "le32_get (buf_get 36 4 (bpb_bytes ps fsz)) = fsz" "le32_get (buf_get 44 4 (bpb_bytes ps fsz)) = 2"
proof -
  define a where "a = [0xEB, 0x58, 0x90] @ str ''MSWIN4.1'' @ le16_put 512"
  define b where "b = le16_put 0 @ le16_put 0 @ [0xF8] @ le16_put 0 @ le16_put 32 @ le16_put 64 @
    le32_put (ucast kPartitionStartLBA) @ le32_put (ucast ps)"
  define c where "c = le16_put 0 @ le16_put 0"
  define e where "e = le16_put 1 @ le16_put 6 @ replicate 12 0 @ [0x80, 0, 0x29] @ le32_put 0x12345678 @
    str ''SYLPHIA OS '' @ str ''FAT32   '' @ replicate 420 0 @ le16_put 0xAA55"
  have l: "length a = 13" "length b = 19" "length c = 4" by (simp_all add: a_def b_def c_def le_simps)
  have bpb: "bpb_bytes ps fsz = a @ [8] @ le16_put 32 @ [2] @ b @ le32_put fsz @ c @ le32_put 2 @ e"
    by (simp add: bpb_bytes_def a_def b_def c_def e_def)
  show "bpb_bytes ps fsz ! 13 = 8" "bpb_bytes ps fsz ! 16 = 2"
    unfolding bpb by (simp_all add: nth_append l le_simps)
  show "le16_get (buf_get 14 2 (bpb_bytes ps fsz)) = 32" "le32_get (buf_get 36 4 (bpb_bytes ps fsz)) = fsz"
    "le32_get (buf_get 44 4 (bpb_bytes ps fsz)) = 2"
    unfolding bpb by (simp_all add: buf_get_def l le_simps)
qed

lemma first_fat_entry: "i < 128 \<Longrightarrow> fat_entry first_fat_sector i =
    (if i = 0 then 0x0FFFFFF8 else if i = 1 \<or> i = 2 then 0x0FFFFFFF else 0)"
proof -
  assume i: "i < 128"
  have "fat_entry (replicate 512 0) i = 0"
    using i by (simp add: fat_entry_def buf_get_replicate) (simp add: le32_get_def numeral_eq_Suc)
  then show ?thesis using i by (auto simp: first_fat_sector_def fat_entry_set)
qed

text \<open>Sizes for a partition of \<open>n\<close> sectors.\<close>

definition fat_sectors :: "nat \<Rightarrow> nat" where
  "fat_sectors n = (4 * (n div 8) + 511) div 512"

lemma unat_format_fat_sz:
  assumes "unat ps < 2 ^ 30"
  shows "unat (format_fat_sz ps) = fat_sectors (unat ps)"
proof -
  have d: "unat ps div 8 < 2 ^ 27" using assms by (simp add: less_mult_imp_div_less)
  have c: "unat (ucast (ps div 8) :: u32) = unat ps div 8"
    using d by (simp add: unsigned_ucast_eq unat_word_div take_bit_nat_eq_self)
  then have m: "unat ((ucast (ps div 8) :: u32) * 4) = unat ps div 8 * 4"
    using d by (simp add: unat_word_ariths)
  then have "unat ((ucast (ps div 8) :: u32) * 4 + 511) = unat ps div 8 * 4 + 511"
    using d by (subst unat_add_no_wrap) simp_all
  then show ?thesis by (simp add: format_fat_sz_def fat_sectors_def unat_word_div mult.commute)
qed

lemma fat_sectors_bounds:
  assumes "2048 \<le> n" "n < 2 ^ 30"
  shows "1 \<le> fat_sectors n" "fat_sectors n \<le> n div 1024 + 1" "n div 8 \<le> fat_sectors n * 128"
  using assms by (simp_all add: fat_sectors_def)

definition format_lbas :: "nat \<Rightarrow> u64 \<Rightarrow> (nat \<times> bytes) list" where
  "format_lbas F ps =
     (let bpb = bpb_bytes ps (format_fat_sz ps); fsi = fsinfo_bytes (ucast (ps div 8))
      in [(2048, bpb), (2054, bpb), (2049, fsi), (2055, fsi), (2080, first_fat_sector), (2080 + F, first_fat_sector)] @
         map (\<lambda>i. (2080 + i, replicate 512 0)) [1..<128] @ map (\<lambda>i. (2080 + F + i, replicate 512 0)) [1..<128] @
         map (\<lambda>i. (2080 + 2 * F + i, replicate 512 0)) [0..<8])"

lemma format_writes_lbas:
  assumes "unat ps < 2 ^ 30" "2048 \<le> unat ps" "F = fat_sectors (unat ps)"
  shows "map (\<lambda>(lba, buf). (unat lba, buf)) (format_writes ps) = format_lbas F ps"
proof -
  have F: "unat (format_fat_sz ps) = F" "F < 2 ^ 21"
    using unat_format_fat_sz [OF assms(1)] fat_sectors_bounds(2) [OF assms(2,1)] assms(1,3) by simp_all
  have F2: "unat (2 * format_fat_sz ps) = 2 * F" using F by (simp add: unat_word_ariths)
  have u: "unat (2080 + of_nat i :: u64) = 2080 + i" if "i < 2 ^ 40" for i
    using that by (subst unat_add_no_wrap) (simp_all add: unsigned_of_nat take_bit_nat_eq_self)
  have f2: "2080 + ucast (format_fat_sz ps) = (2080 + of_nat F :: u64)" "2080 + ucast (2 * format_fat_sz ps) = (2080 + of_nat (2 * F) :: u64)"
    using F(1) F2 by (metis of_nat_unat unsigned_ucast_eq unat_ucast_32_64 of_nat_inverse word_unat_eq_iff)+
  have u1: "unat (2080 + of_nat F :: u64) = 2080 + F" using u [of F] F(2) by simp
  have u2: "unat (2080 + of_nat (F + i) :: u64) = 2080 + F + i" if "i < 128" for i
    using u [of "F + i"] F(2) that by simp
  have u3: "unat (2080 + 2 * of_nat F + of_nat i :: u64) = 2080 + 2 * F + i" if "i < 8" for i
    using u [of "2 * F + i"] F(2) that by (simp add: add.assoc)
  have s: "(2080 + of_nat a + of_nat i :: u64) = 2080 + of_nat (a + i)" for a i by (simp add: add.assoc)
  show ?thesis
    unfolding format_writes_def format_lbas_def Let_def kPartitionStartLBA_def
    by (simp add: f2 s u del: of_nat_add upt_rec_numeral) (use u1 u2 u3 in simp)
qed

lemma format_medium:
  assumes "1 \<le> F" "m' = fold (\<lambda>(a, b) m. m(a := b)) (format_lbas F ps) m"
  shows "m' 2048 = bpb_bytes ps (format_fat_sz ps)" "m' 2080 = first_fat_sector"
    "i < 8 \<Longrightarrow> m' (2080 + 2 * F + i) = replicate 512 0"
proof -
  let ?upd = "\<lambda>(a, b) m. m(a := b :: bytes)"
  define A where "A = map (\<lambda>i. (2080 + i, replicate 512 (0 :: u8))) [1..<128]"
  define B where "B = map (\<lambda>i. (2080 + F + i, replicate 512 (0 :: u8))) [1..<128]"
  define C where "C = map (\<lambda>i. (2080 + 2 * F + i, replicate 512 (0 :: u8))) [0..<8]"
  define H where "H = [(2048, bpb_bytes ps (format_fat_sz ps)), (2054, bpb_bytes ps (format_fat_sz ps)),
    (2049, fsinfo_bytes (ucast (ps div 8))), (2055, fsinfo_bytes (ucast (ps div 8))),
    (2080, first_fat_sector), (2080 + F, first_fat_sector)]"
  have m': "m' l = fold ?upd C (fold ?upd B (fold ?upd A (fold ?upd H m))) l" for l
    by (simp add: assms(2) format_lbas_def Let_def A_def B_def C_def H_def del: upt_rec_numeral)
  have dom: "l \<in> fst ` set A \<Longrightarrow> 2080 < l" "l \<in> fst ` set B \<Longrightarrow> 2080 + F < l" for l
    by (auto simp: A_def B_def simp del: upt_rec_numeral)
  have "fst ` set C = (\<lambda>i. 2080 + 2 * F + i) ` {0..<8}" by (simp add: C_def image_image del: upt_rec_numeral)
  then have domC: "fst ` set C = {2080 + 2 * F ..< 2080 + 2 * F + 8}" by simp
  have low: "m' l = fold ?upd H m l" if "l \<le> 2080" for l
  proof -
    have n: "l \<notin> fst ` set C" "l \<notin> fst ` set B" "l \<notin> fst ` set A" using dom [of l] domC that assms(1) by auto
    show ?thesis unfolding m' fold_upd_other [OF n(1)] fold_upd_other [OF n(2)] fold_upd_other [OF n(3)] ..
  qed
  show "m' 2048 = bpb_bytes ps (format_fat_sz ps)" "m' 2080 = first_fat_sector"
    using low assms(1) by (simp_all add: H_def)
  show "m' (2080 + 2 * F + i) = replicate 512 0" if "i < 8"
  proof -
    have "2080 + 2 * F + i \<in> fst ` set C" using domC that by simp
    moreover have "\<forall>w \<in> set C. snd w = replicate 512 0" by (auto simp: C_def)
    ultimately show ?thesis unfolding m' by (rule fold_upd_const)
  qed
qed

definition format_geom :: "nat \<Rightarrow> geom" where
  "format_geom n = (let F = fat_sectors n in
     \<lparr>g_spc = 8, g_fat0 = 2080, g_fatsz = F, g_data0 = 2080 + 2 * F, g_root = 2, g_n = (n - 32 - 2 * F) div 8\<rparr>)"

lemma format_geom_ok:
  assumes "2048 \<le> n" "n < 2 ^ 30" "2048 + n \<le> nsec" "nsec < 2 ^ 64"
  shows "geom_ok nsec (format_geom n)"
proof -
  note F = fat_sectors_bounds [OF assms(1,2)]
  define F' where "F' = fat_sectors n"
  define N where "N = (n - 32 - 2 * F') div 8"
  have f: "1 \<le> F'" "F' \<le> n div 1024 + 1" "n div 8 \<le> F' * 128" using F by (simp_all add: F'_def)
  have f2: "2 * F' \<le> n div 512 + 2" "32 + 2 * F' \<le> n" using f(2) assms(1) by linarith+
  have "N * 8 \<le> n - 32 - 2 * F'" by (simp add: N_def)
  then have a: "2080 + 2 * F' + N * 8 \<le> nsec" using f2 assms(3) by linarith
  have n: "n < 1073741824" using assms(2) by simp
  have b: "N + 2 \<le> F' * 128" "N + 2 \<le> 0x0FFFFFF8" using f f2 n unfolding N_def by linarith+
  have c: "126 \<le> N" using f2 assms(1) unfolding N_def by linarith
  have e: "F' < 2 ^ 32" using f(2) assms(2) by simp
  have "format_geom n = \<lparr>g_spc = 8, g_fat0 = 2080, g_fatsz = F', g_data0 = 2080 + 2 * F', g_root = 2, g_n = N\<rparr>"
    by (simp add: format_geom_def Let_def F'_def N_def)
  then show ?thesis using a b c e assms(4) by (simp add: geom_ok_def)
qed

lemma free_clusters_format:
  assumes "m 2080 = first_fat_sector" shows "free_clusters (format_geom n) m = {3..<128}"
proof -
  have "fat_get (format_geom n) m c = (if c = 0 then 0x0FFFFFF8 else if c = 1 \<or> c = 2 then 0x0FFFFFFF else 0)"
    if "c < 128" for c
    using that first_fat_entry [OF that] assms by (simp add: fat_get_def format_geom_def Let_def)
  then show ?thesis by (auto simp: free_clusters_def split: if_splits)
qed

lemma can_create_format:
  assumes "geom_ok nsec (format_geom n)" "m 2080 = first_fat_sector"
    and "\<And>i. i < 8 \<Longrightarrow> m (2080 + 2 * fat_sectors n + i) = replicate 512 0"
  shows "can_create (format_geom n) m 2 0 path"
proof -
  let ?g = "format_geom n"
  have "fat_get ?g m 2 = 0x0FFFFFFF" using first_fat_entry [of 2] assms(2) by (simp add: fat_get_def format_geom_def Let_def)
  moreover have "clus_get ?g m 2 ! 0 = 0"
    using assms(3) [of 0] by (simp add: clus_get_def clus_lba_def format_geom_def Let_def sectors_def upt_conv_Cons nth_append)
  moreover have "valid ?g 2" using assms(1) by (simp add: valid_def geom_ok_def)
  ultimately show ?thesis by (simp add: can_create_def free_slot_def format_geom_def Let_def)
qed

context block_device
begin

lemma format_st:
  assumes "dinv d" "2048 \<le> unat ps" "unat ps < 2 ^ 30" "2048 + unat ps \<le> nsec" "nsec < 2 ^ 64"
    and fs: "dev_ops fs = ops" "dev fs = FormatPartitionFAT32 ops d ps" "part_lba fs = kPartitionStartLBA"
      "\<And>n. length (fresh fs n) = n"
  shows "\<exists>m. st (format_geom (unat ps)) (Fat_Initialize fs) m \<and> geom_ok nsec (format_geom (unat ps)) \<and>
    free_clusters (format_geom (unat ps)) m = {3..<128} \<and> (\<forall>path. can_create (format_geom (unat ps)) m 2 0 path)"
proof -
  let ?F = "fat_sectors (unat ps)" and ?d = "FormatPartitionFAT32 ops d ps"
  note F = fat_sectors_bounds [OF assms(2,3)] and lb = format_writes_lbas [OF assms(3,2) refl]
  have F2: "2 * ?F \<le> unat ps div 512 + 2" using F(2) by linarith
  have "\<forall>(l, b) \<in> set (format_lbas ?F ps). l < nsec \<and> length b = 512"
    using assms(2,4) F(1) F2 by (auto simp: format_lbas_def Let_def simp del: upt_rec_numeral)
  then have ok: "\<forall>(lba, buf) \<in> set (format_writes ps). unat lba < nsec \<and> length buf = 512"
    unfolding lb [symmetric] by auto
  define m where "m = fold (\<lambda>(a, b) m. m(a := b)) (format_lbas ?F ps) (media d)"
  have d: "dinv ?d" "media ?d = m"
    using run_sector_writes [OF assms(1) ok] by (simp_all add: FormatPartitionFAT32_def lb m_def)
  note fm = format_medium [OF F(1) m_def]
  note geo = format_geom_ok [OF assms(2-5)]
  obtain d1 where r: "bd_Read ops ?d 2048 (fresh fs 512) 1 = (True, m 2048, d1)" "dinv d1" "media d1 = m"
    using read_ok [OF d(1), of 1 2048 "fresh fs 512"] d(2) assms(2,4) fs(4) by auto
  have f: "unat (format_fat_sz ps) = ?F" "?F < 2 ^ 21"
    using unat_format_fat_sz [OF assms(3)] F(2) assms(3) by simp_all
  have "unat (2 * format_fat_sz ps) = 2 * ?F" using f by (simp add: unat_word_ariths)
  then have u: "unat (2080 + ucast (2 * format_fat_sz ps) :: u64) = 2080 + 2 * ?F"
    using f by (subst unat_add_no_wrap) simp_all
  have "st (format_geom (unat ps)) (Fat_Initialize fs) m"
    using r fs f u by (simp add: fs_st_def Fat_Initialize_def dev_Read_def fm(1) bpb_fields kPartitionStartLBA_def
        format_geom_def Let_def)
  then show ?thesis
    using geo free_clusters_format [of m, OF fm(2)] can_create_format [where m = m, OF geo fm(2) fm(3)] by blast
qed

end

text \<open>
  C9: A formatted partition is a usable volume. After \<open>FormatPartitionFAT32\<close> on a disk that
  holds a partition of 2048 up to \<open>2 ^ 30\<close> sectors, \<open>FAT32Driver::Initialize\<close> reads the
  geometry back, the root directory is empty, and every file of at most 125 clusters (the
  free entries of the first table sector) can be written under a new name and is read back
  byte for byte.
\<close>

theorem formatted_volume_usable:
  assumes "nvme_controller ctl c_inv c_head c_tail c_phase c_media nsec" "nsec < 2 ^ 64"
    and "nvme_inv c_inv c_head c_tail c_phase d"
    and "2048 \<le> unat ps" "unat ps < 2 ^ 30" "2048 + unat ps \<le> nsec"
    and "dev_ops fs = Nvme_ops ctl" "dev fs = FormatPartitionFAT32 (Nvme_ops ctl) d ps"
      "part_lba fs = kPartitionStartLBA" "\<And>n. length (fresh fs n) = n"
    and "11 \<le> length name" "name ! 0 \<noteq> 0" "name ! 0 \<noteq> 0xE5" "IsNameEqual name path" "simple_name path"
    and "0 < length data" "length data \<le> 125 * 4096"
  shows "\<exists>fs1 fs2. WriteFile (Fat_Initialize fs) name data (of_nat (length data)) 0 = Some fs1 \<and>
    ReadFile fs1 path (replicate (length data) 0) (of_nat (length data)) 0 = Some (of_nat (length data), data, fs2)"
proof -
  let ?g = "format_geom (unat ps)"
  note bd = nvme_controller.nvme_is_block_device [OF assms(1)]
  obtain m where v: "fs_st (Nvme_ops ctl) (nvme_inv c_inv c_head c_tail c_phase) (nvme_media c_media) ?g (Fat_Initialize fs) m"
    "geom_ok nsec ?g" "free_clusters ?g m = {3..<128}" "can_create ?g m 2 0 path"
    using block_device.format_st [OF bd assms(3-6,2,7-10)] by blast
  have g: "g_root ?g = 2" "g_spc ?g = 8" by (simp_all add: format_geom_def Let_def)
  have "clusters_for ?g (length data) \<le> 125" using assms(17) by (simp add: clusters_for_def g)
  then have cl: "clusters_for ?g (length data) \<le> card (free_clusters ?g m)" by (simp add: v(3))
  have p: "2 = (if (0 :: u32) = 0 then g_root ?g else 0)" and cc: "can_create ?g m (unat (2 :: u32)) 0 path"
    using v(4) g(1) by simp_all
  have len: "length data < 2 ^ 32" using assms(17) by simp
  have ld: "unat (of_nat (length data) :: u32) = length data" using len by (simp add: of_nat_inverse)
  show ?thesis
    using block_device.WriteFile_ReadFile_st [OF bd v(1,2) p cc assms(11-16) len cl,
        of "of_nat (length data)" "replicate (length data) 0"] ld by simp
qed

theorem formatted_volume_usable_witness:
  "\<exists>fs1 fs2. WriteFile (Fat_Initialize ((sample_fs sample_medium)\<lparr>
       dev := FormatPartitionFAT32 (Nvme_ops ram_ctl) (Some (sample_nvme sample_medium)) 4096, part_lba := 2048\<rparr>))
       (str ''HELLO   TXT'') [1, 2, 3] 3 0 = Some fs1 \<and>
    ReadFile fs1 (str ''hello.txt'') [0, 0, 0] 3 0 = Some (3, [1, 2, 3], fs2)"
proof -
  define fs where "fs = (sample_fs sample_medium)\<lparr>
     dev := FormatPartitionFAT32 (Nvme_ops ram_ctl) (Some (sample_nvme sample_medium)) 4096, part_lba := 2048\<rparr>"
  have f: "dev_ops fs = Nvme_ops ram_ctl" "dev fs = FormatPartitionFAT32 (Nvme_ops ram_ctl) (Some (sample_nvme sample_medium)) 4096"
    "part_lba fs = kPartitionStartLBA" "length (fresh fs n) = n" for n
    by (simp_all add: fs_def sample_fs_def kPartitionStartLBA_def)
  have n: "ram_nsec < 2 ^ 64" "2048 \<le> unat (4096 :: u64)" "unat (4096 :: u64) < 2 ^ 30" "2048 + unat (4096 :: u64) \<le> ram_nsec"
    by (simp_all add: ram_nsec_def)
  from formatted_volume_usable [OF ram.nvme_controller_axioms n(1) sample_nvme_inv [OF sample_medium_ok] n(2-4) f
      _ sample_name(3,4,1,2), of "[1, 2, 3]"]
  show ?thesis unfolding fs_def by (simp add: sample_name(5))
qed

section \<open>The partition table on the disk\<close>

text \<open>
  What firmware tests of a partition table header: the signature, the checksum of the header
  with its own field zeroed, that the header is at the place it names, and the checksum of
  the 32 sectors of entries it points to.
\<close>

definition gpt_valid :: "medium \<Rightarrow> nat \<Rightarrow> bool" where
  "gpt_valid m l \<longleftrightarrow> (let h = m l in
     buf_get 0 8 h = str ''EFI PART'' \<and> le32_get (buf_get 12 4 h) = 92 \<and>
     le32_get (buf_get 16 4 h) = CalculateCRC32 (take 92 (buf_put 16 [0, 0, 0, 0] h)) \<and>
     unat (le64_get (buf_get 24 8 h)) = l \<and>
     le32_get (buf_get 88 4 h) = CalculateCRC32 (sectors m (unat (le64_get (buf_get 72 8 h))) 32))"

lemma signature_bytes: "le64_put 0x5452415020494645 = str ''EFI PART''"
  by (simp add: le64_put_def le32_put_def str_def chr_def of_char_def)

lemma header_fields:
  "buf_get 0 8 (gpt_header t my alt ent ec crc) = str ''EFI PART''"
  "le32_get (buf_get 12 4 (gpt_header t my alt ent ec crc)) = 92"
  "le32_get (buf_get 16 4 (gpt_header t my alt ent ec crc)) = crc"
  "buf_put 16 [0, 0, 0, 0] (gpt_header t my alt ent ec crc) = gpt_header t my alt ent ec 0"
  "le64_get (buf_get 24 8 (gpt_header t my alt ent ec crc)) = my"
  "le64_get (buf_get 32 8 (gpt_header t my alt ent ec crc)) = alt"
  "le64_get (buf_get 72 8 (gpt_header t my alt ent ec crc)) = ent"
  "le32_get (buf_get 88 4 (gpt_header t my alt ent ec crc)) = ec"
  "length (gpt_header t my alt ent ec crc) = 512"
proof -
  have z: "le32_put 0 = [0, 0, 0, 0]" by (simp add: le32_put_def)
  have g: "length kUniqueGuid = 16" by (simp add: kUniqueGuid_def le_simps)
  show "buf_get 0 8 (gpt_header t my alt ent ec crc) = str ''EFI PART''"
    unfolding gpt_header_def signature_bytes by (simp add: buf_get_def)
  show "le32_get (buf_get 12 4 (gpt_header t my alt ent ec crc)) = 92"
    "le32_get (buf_get 16 4 (gpt_header t my alt ent ec crc)) = crc"
    "le64_get (buf_get 24 8 (gpt_header t my alt ent ec crc)) = my"
    "le64_get (buf_get 32 8 (gpt_header t my alt ent ec crc)) = alt"
    "le64_get (buf_get 72 8 (gpt_header t my alt ent ec crc)) = ent"
    "le32_get (buf_get 88 4 (gpt_header t my alt ent ec crc)) = ec"
    "length (gpt_header t my alt ent ec crc) = 512"
    unfolding gpt_header_def by (simp_all add: buf_get_def le_simps g)
  show "buf_put 16 [0, 0, 0, 0] (gpt_header t my alt ent ec crc) = gpt_header t my alt ent ec 0"
    unfolding gpt_header_def z [symmetric] by (simp add: buf_put_def le_simps)
qed

lemma length_gpt_parts [simp]:
  "length (gpt_entries t) = 16384" "length (mbr_bytes t) = 512" "length (sealed_header t my alt ent ec) = 512"
  by (simp_all add: gpt_entries_def mbr_bytes_def sealed_header_def header_fields(9) kEspGuid_def kUniqueGuid_def gpt_name_def
      le_simps) (simp add: str_def)

text \<open>The medium after all writes: the last write to a sector counts.\<close>

definition gpt_medium :: "u64 \<Rightarrow> medium \<Rightarrow> medium" where
  "gpt_medium t m =
     fold (\<lambda>(lba, buf, n) m. set_sectors m (unat lba) (unat n) buf) (gpt_writes t) m"

lemma unat_minus_small:
  assumes "2100 \<le> unat (t :: u64)"
  shows "unat (t - 1) = unat t - 1" "unat (t - 33) = unat t - 33" "unat (t - 25) = unat t - 25"
    "unat (t - 17) = unat t - 17" "unat (t - 9) = unat t - 9"
  using assms by (subst unat_sub; simp add: word_le_nat_alt)+

lemma gpt_medium_at:
  assumes "2100 \<le> unat t" "e = gpt_entries t" "ec = CalculateCRC32 e"
  shows "gpt_medium t m (unat t - 1) = sealed_header t (t - 1) 1 (t - 33) ec"
    and "gpt_medium t m 1 = sealed_header t 1 (t - 1) 2 ec"
    and "gpt_medium t m 0 = mbr_bytes t"
    and "i < 4 \<Longrightarrow> j < 8 \<Longrightarrow> gpt_medium t m (2 + 8 * i + j) = buf_get (i * 4096 + j * 512) 512 e"
    and "i < 4 \<Longrightarrow> j < 8 \<Longrightarrow> gpt_medium t m (unat t - 33 + 8 * i + j) = buf_get (i * 4096 + j * 512) 512 e"
proof -
  have up: "[0..<4] = [0, 1, 2, 3 :: nat]" by (simp add: upt_rec)
  note u = unat_minus_small [OF assms(1)]
  define T where "T = unat t"
  have T: "2100 \<le> T" using assms(1) by (simp add: T_def)
  then have ne: "Suc 0 \<noteq> T - Suc 0" by linarith
  define h where "h = sealed_header t 1 (t - 1) 2 ec"
  define bh where "bh = sealed_header t (t - 1) 1 (t - 33) ec"
  have len: "length h = 512" "length bh = 512" by (simp_all add: h_def bh_def)
  have gm: "gpt_medium t m = (set_sectors (set_sectors (set_sectors (set_sectors (set_sectors (set_sectors (set_sectors (set_sectors
      (m(0 := mbr_bytes t)) 2 8 (buf_get 0 4096 e)) 10 8 (buf_get 4096 4096 e)) 18 8 (buf_get 8192 4096 e)) 26 8 (buf_get 12288 4096 e))
      (T - 33) 8 (buf_get 0 4096 e)) (T - 25) 8 (buf_get 4096 4096 e)) (T - 17) 8 (buf_get 8192 4096 e)) (T - 9) 8 (buf_get 12288 4096 e))
      (1 := h, T - 1 := bh)"
    unfolding gpt_medium_def gpt_writes_def Let_def up assms(2) [symmetric] assms(3) [symmetric] h_def bh_def T_def
    by (simp add: u set_sectors_1(2))
  define B where "B = T - 33"
  have B: "T = B + 33" "2067 \<le> B" using T by (simp_all add: B_def)
  note gm' = gm [unfolded B(1), simplified]
  have chunk: "buf_get (j * 512) 512 (buf_get k 4096 e) = buf_get (k + j * 512) 512 e" if "j < 8" for j k
    using that by (intro buf_get_get) simp
  show "gpt_medium t m (unat t - 1) = sealed_header t (t - 1) 1 (t - 33) ec"
    "gpt_medium t m 1 = sealed_header t 1 (t - 1) 2 ec" "gpt_medium t m 0 = mbr_bytes t"
    using T ne by (simp_all add: gm T_def [symmetric] h_def bh_def set_sectors_other)
  show "gpt_medium t m (2 + 8 * i + j) = buf_get (i * 4096 + j * 512) 512 e" if i: "i < 4" and j: "j < 8"
  proof -
    consider "i = 0" | "i = 1" | "i = 2" | "i = 3" using i by linarith
    then show ?thesis using B j chunk [OF j] by cases (simp_all add: gm' set_sectors_def)
  qed
  show "gpt_medium t m (unat t - 33 + 8 * i + j) = buf_get (i * 4096 + j * 512) 512 e" if i: "i < 4" and j: "j < 8"
  proof -
    consider "i = 0" | "i = 1" | "i = 2" | "i = 3" using i by linarith
    then show ?thesis
      using B j chunk [OF j] unfolding T_def [symmetric] by cases (simp_all add: gm' set_sectors_def)
  qed
qed

lemma gpt_entries_at:
  assumes "\<And>i j. i < 4 \<Longrightarrow> j < 8 \<Longrightarrow> m (a + 8 * i + j) = buf_get (i * 4096 + j * 512) 512 e" "length e = 16384"
  shows "sectors m a 32 = e"
proof -
  have "m (a + k) = buf_get (k * 512) 512 e" if "k < 32" for k
  proof -
    have "k div 8 < 4" "k mod 8 < 8" using that by (simp_all add: less_mult_imp_div_less)
    moreover have "8 * (k div 8) + k mod 8 = k" by simp
    moreover have "k div 8 * 4096 + k mod 8 * 512 = k * 512"
      using div_mult_mod_eq [of k 8] by linarith
    ultimately show ?thesis using assms(1) [of "k div 8" "k mod 8"] by (simp add: add.assoc)
  qed
  then have "sectors m a 32 = concat (map (\<lambda>i. buf_get (i * 512) 512 e) [0..<32])"
    unfolding sectors_def by (intro arg_cong [where f = concat] map_cong) auto
  then show ?thesis using concat_buf_gets [of e 32 512] assms(2) by simp
qed

lemma sealed_header_valid:
  assumes "m l = sealed_header t my alt ent ec" "unat my = l" "sectors m (unat ent) 32 = e" "ec = CalculateCRC32 e"
  shows "gpt_valid m l"
  using assms unfolding gpt_valid_def Let_def sealed_header_def by (simp add: header_fields)

text \<open>
  C24: The partition table that the installer writes is valid in both copies. On a disk of
  at least 2100 blocks, after \<open>FormatDiskGPT\<close> the primary header in block 1 and the backup in
  the last block pass the tests of firmware (signature, header checksum, own position,
  checksum of the entries), each names the other as its alternate, and both copies of the
  entries hold the same table.
\<close>

theorem FormatDiskGPT_valid:
  assumes "nvme_controller ctl c_inv c_head c_tail c_phase c_media nsec"
    and "nvme_inv c_inv c_head c_tail c_phase d" "2100 \<le> unat total_blocks" "unat total_blocks \<le> nsec"
    and "m = nvme_media c_media (FormatDiskGPT (Nvme_ops ctl) d total_blocks)"
  shows "gpt_valid m 1 \<and> gpt_valid m (unat total_blocks - 1) \<and>
    le64_get (buf_get 32 8 (m 1)) = total_blocks - 1 \<and> le64_get (buf_get 32 8 (m (unat total_blocks - 1))) = 1 \<and>
    sectors m 2 32 = gpt_entries total_blocks \<and> sectors m (unat total_blocks - 33) 32 = gpt_entries total_blocks"
proof -
  let ?t = total_blocks and ?e = "gpt_entries total_blocks"
  note bd = nvme_controller.nvme_is_block_device [OF assms(1)]
  note u = unat_minus_small [OF assms(3)]
  have up: "[0..<4] = [0, 1, 2, 3 :: nat]" by (simp add: upt_rec)
  have ok: "\<forall>(lba, buf, n) \<in> set (gpt_writes ?t). 0 < n \<and> unat n \<le> 255 \<and> unat lba + unat n \<le> nsec \<and> length buf = unat n * 512"
    unfolding gpt_writes_def Let_def up using assms(3,4) by (simp add: u length_buf_get) linarith
  have m: "m = gpt_medium ?t (nvme_media c_media d)"
    using block_device.run_writes [OF bd assms(2) ok] assms(2,5)
    by (cases d) (simp_all add: FormatDiskGPT_def gpt_medium_def nvme_inv_def)
  note at = gpt_medium_at [OF assms(3) refl refl, where m = "nvme_media c_media d", folded m]
  have e: "sectors m 2 32 = ?e" "sectors m (unat ?t - 33) 32 = ?e"
    using gpt_entries_at [of m 2 ?e, OF at(4)] gpt_entries_at [of m "unat ?t - 33" ?e, OF at(5)] by simp_all
  have "gpt_valid m 1" using sealed_header_valid [of m 1, OF at(2) _ _ refl] e(1) by simp
  moreover have "gpt_valid m (unat ?t - 1)" using sealed_header_valid [of m "unat ?t - 1", OF at(1) u(1) _ refl] e(2) u(2) by simp
  moreover have "le64_get (buf_get 32 8 (m 1)) = ?t - 1" "le64_get (buf_get 32 8 (m (unat ?t - 1))) = 1"
    unfolding at(1,2) sealed_header_def by (simp_all add: header_fields)
  ultimately show ?thesis using e by simp
qed

theorem FormatDiskGPT_valid_witness:
  "gpt_valid (nvme_media rc_media (FormatDiskGPT (Nvme_ops ram_ctl) (Some (sample_nvme sample_medium)) 0x10000)) 1"
  using FormatDiskGPT_valid [OF ram.nvme_controller_axioms sample_nvme_inv [OF sample_medium_ok] _ _ refl, of "0x10000"]
  by (simp add: ram_nsec_def)

end
