(* ===== verification/UserMem.thy ===== *)
theory UserMem
  imports FatNames PhysMem
begin

text \<open>
  The string functions of std/string.cpp, the memory functions of kernel/cxx.cpp, and the
  placement of program arguments on a user stack, which \<open>ElfLoader::LoadAndRun\<close>
  (kernel/app/elf/elf_loader.cpp) and \<open>AppTaskEntry\<close> (kernel/app/elf/app_wrapper.cpp) share.
  Memory is the contents of an address space, a function from 64-bit addresses to bytes.
\<close>

named_theorems vmem_simps \<open>addresses and bytes of an address space\<close>

section \<open>Strings\<close>

text \<open>A string is given by the bytes from its address on; the end of the list acts as NUL.\<close>

fun c_strcmp :: "bytes \<Rightarrow> bytes \<Rightarrow> int" where
  "c_strcmp [] [] = 0"
| "c_strcmp [] (b # t) = - int (unat b)"
| "c_strcmp (a # s) [] = int (unat a)"
| "c_strcmp (a # s) (b # t) =
     (if a \<noteq> 0 \<and> a = b then c_strcmp s t else int (unat a) - int (unat b))"

fun c_strncmp :: "bytes \<Rightarrow> bytes \<Rightarrow> nat \<Rightarrow> int" where
  "c_strncmp s t 0 = 0"
| "c_strncmp s t (Suc n) =
     (let a = (case s of [] \<Rightarrow> 0 | a # _ \<Rightarrow> a); b = (case t of [] \<Rightarrow> 0 | b # _ \<Rightarrow> b)
      in if a \<noteq> b then int (unat a) - int (unat b)
         else if a = 0 then 0 else c_strncmp (tl s) (tl t) n)"

fun c_strlen :: "bytes \<Rightarrow> nat" where
  "c_strlen [] = 0"
| "c_strlen (b # s) = (if b \<noteq> 0 then Suc (c_strlen s) else 0)"

text \<open>\<open>strcpy\<close> and \<open>strcat\<close>: the bytes from \<open>dest\<close> on, up to the terminator that is written.\<close>

fun c_strcpy :: "bytes \<Rightarrow> bytes" where
  "c_strcpy [] = [0]"
| "c_strcpy (b # s) = (if b \<noteq> 0 then b # c_strcpy s else [0])"

fun c_strcat :: "bytes \<Rightarrow> bytes \<Rightarrow> bytes" where
  "c_strcat [] s = c_strcpy s"
| "c_strcat (d # ds) s = (if d \<noteq> 0 then d # c_strcat ds s else c_strcpy s)"

lemma c_strlen_cstr: "c_strlen s = length (cstr s)"
  by (induction s) (simp_all add: cstr_def)

lemma c_strcpy_cstr: "c_strcpy s = cstr s @ [0]"
  by (induction s) (simp_all add: cstr_def)

lemma c_strcat_cstr: "c_strcat d s = cstr d @ cstr s @ [0]"
  by (induction d) (simp_all add: cstr_def c_strcpy_cstr)

lemma length_c_strcpy [simp]: "length (c_strcpy s) = Suc (c_strlen s)"
  by (simp add: c_strcpy_cstr c_strlen_cstr)

lemma cstr_cstr [simp]: "cstr (cstr s) = cstr s"
  by (simp add: cstr_def takeWhile_idem)

lemma cstr_append_zero [simp]: "cstr (cstr s @ 0 # t) = cstr s"
  by (induction s) (auto simp: cstr_def)

text \<open>Comparison decides equality of the strings, and of their first bytes.\<close>

lemma cstr_rec: "cstr [] = []" "cstr (b # s) = (if b \<noteq> 0 then b # cstr s else [])"
  by (simp_all add: cstr_def)

lemma int_unat_diff: "int (unat a) - int (unat b) = 0 \<longleftrightarrow> a = (b :: u8)"
  unfolding right_minus_eq of_nat_eq_iff word_unat_eq_iff by (rule refl)

lemma int_unat_zero: "uint b = 0 \<longleftrightarrow> b = (0 :: u8)"
  by (simp add: uint_0_iff)

lemma c_strcmp_eq: "c_strcmp s t = 0 \<longleftrightarrow> cstr s = cstr t"
proof (induction s t rule: c_strcmp.induct)
  case (2 b t)
  show ?case by (simp add: cstr_rec int_unat_zero)
next
  case (3 a s)
  show ?case by (simp add: cstr_rec int_unat_zero)
next
  case (4 a s b t)
  then show ?case using int_unat_diff [of a b] by (auto simp: cstr_rec simp del: uint_nonnegative)
qed (simp add: cstr_rec)

lemma c_strncmp_eq: "c_strncmp s t n = 0 \<longleftrightarrow> take n (cstr s) = take n (cstr t)"
proof (induction n arbitrary: s t)
  case (Suc n)
  show ?case
    using Suc [of "tl s" "tl t"] int_unat_diff
    by (cases s; cases t) (auto simp: cstr_rec Let_def int_unat_zero)
qed simp

section \<open>Memory\<close>

type_synonym vmem = pmem

text \<open>The loop of \<open>memcpy\<close>, with the bytes of the source, and of \<open>memset\<close>.\<close>

fun mem_write :: "u64 \<Rightarrow> bytes \<Rightarrow> vmem \<Rightarrow> vmem" where
  "mem_write d [] m = m"
| "mem_write d (b # bs) m = mem_write (d + 1) bs (m(d := b))"

definition mem_set :: "u64 \<Rightarrow> u8 \<Rightarrow> nat \<Rightarrow> vmem \<Rightarrow> vmem" where
  "mem_set p c n m = mem_write p (replicate n c) m"

text \<open>The addresses from \<open>a\<close> to \<open>a + n - 1\<close>, as numbers.\<close>

definition span :: "u64 \<Rightarrow> nat \<Rightarrow> nat set" where
  "span a n = {unat a..<unat a + n}"

lemma unat_off: "unat a + i < 2 ^ 64 \<Longrightarrow> unat (a + of_nat i :: u64) = unat a + i"
  by (simp add: unat_word_ariths unat_of_nat mod_add_right_eq)

lemma unat_less64: "unat (a :: u64) < 2 ^ 64"
  using unsigned_less [of a] by simp

lemma unat_sub_of_nat: "k \<le> unat a \<Longrightarrow> unat (a - of_nat k :: u64) = unat a - k"
proof -
  assume k: "k \<le> unat a"
  then have "k < 2 ^ 64" using unat_less64 [of a] by linarith
  then have u: "unat (of_nat k :: u64) = k" by (simp add: unat_of_nat)
  then have "(of_nat k :: u64) \<le> a" using k by (simp add: word_le_nat_alt)
  then show ?thesis using u by (simp add: unat_sub)
qed

lemma mem_write_at:
  "unat a + length bs \<le> 2 ^ 64 \<Longrightarrow>
    mem_write a bs m x = (if unat x \<in> span a (length bs) then bs ! (unat x - unat a) else m x)"
proof (induction bs arbitrary: a m)
  case (Cons b bs)
  show ?case
  proof (cases bs)
    case Nil
    then show ?thesis by (auto simp: span_def dest: unat_cong)
      (metis le_antisym less_Suc_eq_le word_unat_eq_iff)
  next
    case (Cons c cs)
    then have a1: "unat (a + 1) = Suc (unat a)"
      using unat_off [of a 1] Cons.prems by simp
    have "x = a \<longleftrightarrow> unat x = unat a" by (simp add: word_unat_eq_iff)
    then show ?thesis
      using Cons.IH [of "a + 1"] Cons.prems
      by (auto simp: span_def a1 nth_Cons' Suc_le_eq)
  qed
qed (simp add: span_def)

lemma nth_mem_load [simp]: "i < n \<Longrightarrow> mem_load m a n ! i = m (a + of_nat i)"
  by (simp add: mem_load_def)

lemma mem_load_write:
  assumes "unat a + length bs \<le> 2 ^ 64"
  shows "mem_load (mem_write a bs m) a (length bs) = bs"
proof (rule nth_equalityI)
  fix i assume "i < length (mem_load (mem_write a bs m) a (length bs))"
  then have i: "i < length bs" by simp
  then have "unat (a + of_nat i) = unat a + i" using assms by (intro unat_off) simp
  then show "mem_load (mem_write a bs m) a (length bs) ! i = bs ! i"
    using i assms by (simp add: mem_write_at span_def)
qed simp

lemma mem_load_frame:
  assumes "\<And>x. unat x \<in> span a n \<Longrightarrow> m' x = m x" and "unat a + n \<le> 2 ^ 64"
  shows "mem_load m' a n = mem_load m a n"
proof (rule nth_equalityI)
  fix i assume "i < length (mem_load m' a n)"
  then have i: "i < n" by simp
  then have "unat (a + of_nat i) = unat a + i" using assms by (intro unat_off) simp
  then show "mem_load m' a n ! i = mem_load m a n ! i"
    using i assms(1) by (simp add: span_def)
qed simp

text \<open>The string at an address; \<open>None\<close> when no byte of the address space is NUL.\<close>

partial_function (option) str_at :: "vmem \<Rightarrow> u64 \<Rightarrow> bytes option" where
  "str_at m a = (if m a = 0 then Some [] else Option.bind (str_at m (a + 1)) (\<lambda>s. Some (m a # s)))"

lemma str_at_load:
  "0 \<notin> set (mem_load m a n) \<Longrightarrow> m (a + of_nat n) = 0 \<Longrightarrow> str_at m a = Some (mem_load m a n)"
proof (induction n arbitrary: a)
  case 0
  then show ?case by (simp add: str_at.simps)
next
  case (Suc n)
  have l: "mem_load m a (Suc n) = m a # mem_load m (a + 1) n"
    using mem_load_append [of m a 1 n] by (simp add: mem_load_def [of m a "Suc 0"])
  then have "str_at m (a + 1) = Some (mem_load m (a + 1) n)"
    using Suc.prems by (intro Suc.IH) (simp_all add: add.assoc)
  then show ?case using Suc.prems(1) l by (simp add: str_at.simps [of m a])
qed

section \<open>Arguments on the user stack\<close>

text \<open>The first loop: the strings, each below the one before, and their addresses.\<close>

fun push_strings :: "bytes list \<Rightarrow> u64 \<Rightarrow> vmem \<Rightarrow> u64 list \<times> u64 \<times> vmem" where
  "push_strings [] sp m = ([], sp, m)"
| "push_strings (s # ss) sp m =
     (let len = c_strlen s + 1; sp = sp - of_nat len; m = mem_write sp (c_strcpy s) m;
          (ps, sp', m) = push_strings ss sp m
      in (sp # ps, sp', m))"

definition push_word :: "u64 \<Rightarrow> u64 \<times> vmem \<Rightarrow> u64 \<times> vmem" where
  "push_word v = (\<lambda>(sp, m). (sp - 8, mem_write (sp - 8) (le64_put v) m))"

text \<open>
  The whole placement. The addresses are collected in the local array \<open>user_argv_ptrs[32]\<close>;
  with more arguments the code writes past it, which is the result \<open>None\<close>. The second loop
  goes from the last pointer to the first.
\<close>

definition setup_args :: "u64 \<Rightarrow> bytes list \<Rightarrow> vmem \<Rightarrow> (u64 \<times> vmem) option" where
  "setup_args sp argv m =
     (if length argv > 32 then None
      else
        let (user_argv_ptrs, sp, m) = push_strings argv sp m;
            sp = sp AND NOT 0xF;
            (sp, m) = push_word 0 (sp, m)
        in Some (fold push_word (rev user_argv_ptrs) (sp, m)))"

text \<open>What a program sees: the pointer \<open>argv[i]\<close> and the string it refers to.\<close>

definition load64 :: "vmem \<Rightarrow> u64 \<Rightarrow> u64" where
  "load64 m a = le64_get (mem_load m a 8)"

definition args_size :: "bytes list \<Rightarrow> nat" where
  "args_size argv = sum_list (map (\<lambda>s. c_strlen s + 1) argv)"

lemma push_strings_spec:
  assumes "push_strings argv sp m = (ps, sp', m')" and "args_size argv \<le> unat sp"
  shows "length ps = length argv \<and> unat sp' = unat sp - args_size argv \<and>
    (\<forall>i<length argv. unat sp' \<le> unat (ps ! i) \<and> unat (ps ! i) + c_strlen (argv ! i) + 1 \<le> unat sp \<and>
       mem_load m' (ps ! i) (c_strlen (argv ! i) + 1) = c_strcpy (argv ! i)) \<and>
    (\<forall>x. unat x < unat sp' \<or> unat sp \<le> unat x \<longrightarrow> m' x = m x)"
  using assms
proof (induction argv arbitrary: sp m ps sp' m')
  case (Cons s ss)
  define n where "n = c_strlen s + 1"
  define sp1 where "sp1 = sp - of_nat n"
  define m1 where "m1 = mem_write sp1 (c_strcpy s) m"
  obtain qs where step: "push_strings ss sp1 m1 = (qs, sp', m')" and ps: "ps = sp1 # qs"
    using Cons.prems(1)
    unfolding push_strings.simps Let_def n_def [symmetric] sp1_def [symmetric] m1_def [symmetric]
    by (cases "push_strings ss sp1 m1") auto
  have size: "args_size (s # ss) = n + args_size ss" by (simp add: args_size_def n_def)
  then have sp1: "unat sp1 = unat sp - n"
    unfolding sp1_def using Cons.prems(2) by (intro unat_sub_of_nat) simp
  have "args_size ss \<le> unat sp1" using sp1 size Cons.prems(2) by simp
  note IH = Cons.IH [OF step this]
  have IH': "length qs = length ss" "unat sp' = unat sp1 - args_size ss"
    "\<And>i. i < length ss \<Longrightarrow> unat sp' \<le> unat (qs ! i) \<and> unat (qs ! i) + c_strlen (ss ! i) + 1 \<le> unat sp1 \<and>
       mem_load m' (qs ! i) (c_strlen (ss ! i) + 1) = c_strcpy (ss ! i)"
    "\<And>x. unat x < unat sp' \<or> unat sp1 \<le> unat x \<Longrightarrow> m' x = m1 x"
    using IH by auto
  have fits: "unat sp1 + n \<le> 2 ^ 64" using sp1 Cons.prems(2) size unat_less64 [of sp] by simp
  have own: "mem_load m' sp1 n = c_strcpy s"
  proof -
    have "mem_load m' sp1 n = mem_load m1 sp1 n"
      by (rule mem_load_frame [OF IH'(4) fits]) (simp add: span_def)
    also have "\<dots> = c_strcpy s"
      using mem_load_write [of sp1 "c_strcpy s" m] fits by (simp add: m1_def n_def)
    finally show ?thesis .
  qed
  have below: "m1 x = m x" if "unat x < unat sp1 \<or> unat sp \<le> unat x" for x
    using that fits sp1 Cons.prems(2) size by (auto simp: m1_def mem_write_at span_def n_def)
  have "unat sp' \<le> unat (ps ! i) \<and> unat (ps ! i) + c_strlen ((s # ss) ! i) + 1 \<le> unat sp \<and>
      mem_load m' (ps ! i) (c_strlen ((s # ss) ! i) + 1) = c_strcpy ((s # ss) ! i)" if "i < length (s # ss)" for i
  proof (cases i)
    case 0
    then show ?thesis using own sp1 IH'(2) Cons.prems(2) size by (simp add: ps n_def)
  next
    case (Suc j)
    then show ?thesis using IH'(3) [of j] that sp1 by (auto simp: ps)
  qed
  moreover have "m' x = m x" if "unat x < unat sp' \<or> unat sp \<le> unat x" for x
  proof -
    have "unat x < unat sp' \<or> unat sp1 \<le> unat x" "unat x < unat sp1 \<or> unat sp \<le> unat x"
      using that IH'(2) sp1 by linarith+
    then show ?thesis using IH'(4) below by simp
  qed
  ultimately show ?case using IH'(1,2) sp1 size by (simp add: ps)
qed (simp add: args_size_def)

lemma push_words_spec:
  assumes "fold push_word vs (sp, m) = (sp', m')" and "8 * length vs \<le> unat sp"
  shows "unat sp' = unat sp - 8 * length vs \<and>
    (\<forall>i<length vs. load64 m' (sp' + of_nat (8 * i)) = rev vs ! i) \<and>
    (\<forall>x. unat x < unat sp' \<or> unat sp \<le> unat x \<longrightarrow> m' x = m x)"
  using assms
proof (induction vs arbitrary: sp m)
  case (Cons v vs)
  define m1 where "m1 = mem_write (sp - 8) (le64_put v) m"
  have sp1: "unat (sp - 8) = unat sp - 8" using unat_sub_of_nat [of 8 sp] Cons.prems(2) by simp
  have step: "fold push_word vs (sp - 8, m1) = (sp', m')"
    using Cons.prems(1) push_word_def [of v] by (simp add: m1_def)
  have IH: "unat sp' = unat (sp - 8) - 8 * length vs"
    "\<And>i. i < length vs \<Longrightarrow> load64 m' (sp' + of_nat (8 * i)) = rev vs ! i"
    "\<And>x. unat x < unat sp' \<or> unat (sp - 8) \<le> unat x \<Longrightarrow> m' x = m1 x"
    using Cons.IH [OF step] Cons.prems(2) sp1 by auto
  have fits: "unat (sp - 8) + 8 \<le> 2 ^ 64" using sp1 Cons.prems(2) unat_less64 [of sp] by simp
  have "mem_load m' (sp - 8) 8 = mem_load m1 (sp - 8) 8"
    by (rule mem_load_frame [OF IH(3) fits]) (simp add: span_def)
  also have "\<dots> = le64_put v"
    using mem_load_write [of "sp - 8" "le64_put v" m] fits by (simp add: m1_def length_le64_put)
  finally have own: "load64 m' (sp - 8) = v" by (simp add: load64_def le_simps)
  have "unat (sp' + of_nat (8 * length vs)) = unat (sp - 8)"
    using IH(1) sp1 Cons.prems(2) unat_less64 [of sp] by (subst unat_off) simp_all
  then have "sp' + of_nat (8 * length vs) = sp - 8" by (simp add: word_unat_eq_iff)
  then have at: "load64 m' (sp' + of_nat (8 * i)) = rev (v # vs) ! i" if "i < length (v # vs)" for i
    using that own IH(2) [of i] by (auto simp: nth_append less_Suc_eq)
  have below: "m1 x = m x" if "unat x < unat (sp - 8) \<or> unat sp \<le> unat x" for x
    using that fits sp1 Cons.prems(2) by (auto simp: m1_def mem_write_at span_def length_le64_put)
  have "m' x = m x" if "unat x < unat sp' \<or> unat sp \<le> unat x" for x
  proof -
    have "unat x < unat sp' \<or> unat (sp - 8) \<le> unat x" "unat x < unat (sp - 8) \<or> unat sp \<le> unat x"
      using that IH(1) sp1 by linarith+
    then show ?thesis using IH(3) below by simp
  qed
  then show ?case using at IH(1) sp1 by simp
qed simp

lemma and_not_mask: "unat (x AND NOT (mask n) :: u64) = unat x - unat x mod 2 ^ n"
proof -
  have low: "unat (x AND mask n) = unat x mod 2 ^ n"
    unfolding take_bit_eq_mask [symmetric] unsigned_take_bit_eq by (rule take_bit_eq_mod)
  have "(x AND NOT (mask n)) + (x AND mask n) = x"
    by (subst disjunctive_add_eq_or) (rule bit_eqI, auto simp: bit_simps)+
  then have "x AND NOT (mask n) = x - (x AND mask n)" by (simp only: eq_diff_eq)
  moreover have "x AND mask n \<le> x" using low by (simp add: word_le_nat_alt)
  ultimately show ?thesis using low by (simp only: unat_sub)
qed

lemma align16: "unat (sp AND NOT 0xF :: u64) = unat sp - unat sp mod 16"
  using and_not_mask [of sp 4] by (simp add: mask_eq_exp_minus_1)

lemma align4096: "unat (x AND NOT 0xFFF :: u64) = unat x - unat x mod 4096"
  using and_not_mask [of x 12] by (simp add: mask_eq_exp_minus_1)

text \<open>
  C27: the program finds its arguments. When at most 32 arguments fit into a stack of
  \<open>room\<close> bytes below \<open>stack_top\<close> (the strings, the pointer array and up to 15 bytes of alignment),
  the placement succeeds; with \<open>argv\<close> the resulting stack pointer, \<open>argv[i]\<close> points to a copy
  of the \<open>i\<close>-th string inside the stack and above the pointer array, \<open>argv[argc]\<close> is null,
  the array ends at a multiple of 16, and no byte outside the \<open>room\<close> bytes below \<open>stack_top\<close>
  changes.
\<close>

theorem argv_on_stack:
  assumes "length argv \<le> 32" and "args_size argv + 16 + 8 * (length argv + 1) \<le> room" and "room \<le> unat stack_top"
  shows "\<exists>sp m'. setup_args stack_top argv m = Some (sp, m') \<and>
    unat stack_top - room \<le> unat sp \<and> 16 dvd unat sp + 8 * (length argv + 1) \<and>
    (\<forall>i<length argv. let p = load64 m' (sp + of_nat (8 * i)) in
       unat sp + 8 * (length argv + 1) \<le> unat p \<and> unat p + c_strlen (argv ! i) < unat stack_top \<and>
       mem_load m' p (c_strlen (argv ! i) + 1) = cstr (argv ! i) @ [0]) \<and>
    load64 m' (sp + of_nat (8 * length argv)) = 0 \<and>
    (\<forall>x. unat x < unat stack_top - room \<or> unat stack_top \<le> unat x \<longrightarrow> m' x = m x)"
proof -
  obtain ps sp1 m1 where strings: "push_strings argv stack_top m = (ps, sp1, m1)"
    by (cases "push_strings argv stack_top m") auto
  have "args_size argv \<le> unat stack_top" using assms(2,3) by linarith
  note S = push_strings_spec [OF strings this]
  define sp2 where "sp2 = sp1 AND NOT 0xF"
  have sp2: "unat sp2 = unat sp1 - unat sp1 mod 16" unfolding sp2_def by (rule align16)
  obtain sp m' where words: "fold push_word (0 # rev ps) (sp2, m1) = (sp, m')" by fastforce
  have len: "length ps = length argv" and sp1: "unat sp1 = unat stack_top - args_size argv" using S by simp_all
  have lt: "unat sp1 mod 16 < 16" by simp
  have above: "8 * length (0 # rev ps) \<le> unat sp2"
    using sp1 sp2 len lt assms(2,3) by simp
  note W = push_words_spec [OF words above]
  have sp: "unat sp + 8 * (length argv + 1) = unat sp2" using W above len by simp
  have res: "setup_args stack_top argv m = Some (sp, m')"
    using assms(1) words unfolding setup_args_def Let_def strings prod.case sp2_def [symmetric]
    by (cases "push_word 0 (sp2, m1)") simp
  have ptr: "load64 m' (sp + of_nat (8 * i)) = ps ! i" if "i < length argv" for i
    using W that len by (simp add: nth_append del: of_nat_mult of_nat_numeral)
  have null: "load64 m' (sp + of_nat (8 * length argv)) = 0"
    using W len by (simp add: nth_append del: of_nat_mult of_nat_numeral)
  have keep: "m' x = m1 x" if "unat sp2 \<le> unat x" for x using W that by simp
  have "unat sp + 8 * (length argv + 1) \<le> unat (ps ! i) \<and> unat (ps ! i) + c_strlen (argv ! i) < unat stack_top \<and>
      mem_load m' (ps ! i) (c_strlen (argv ! i) + 1) = cstr (argv ! i) @ [0]" if i: "i < length argv" for i
  proof -
    have P: "unat sp1 \<le> unat (ps ! i)" "unat (ps ! i) + c_strlen (argv ! i) + 1 \<le> unat stack_top"
      "mem_load m1 (ps ! i) (c_strlen (argv ! i) + 1) = c_strcpy (argv ! i)" using S i by blast+
    have "mem_load m' (ps ! i) (c_strlen (argv ! i) + 1) = mem_load m1 (ps ! i) (c_strlen (argv ! i) + 1)"
      by (rule mem_load_frame) (use P(1,2) sp2 keep unat_less64 [of stack_top] in \<open>auto simp: span_def\<close>)
    then show ?thesis using P sp sp2 by (simp add: c_strcpy_cstr)
  qed
  moreover have "m' x = m x" if "unat x < unat stack_top - room \<or> unat stack_top \<le> unat x" for x
  proof -
    have "unat x < unat sp1 \<or> unat stack_top \<le> unat x" "unat x < unat sp \<or> unat sp2 \<le> unat x"
      using that sp sp1 sp2 lt assms(2,3) by linarith+
    then have "m1 x = m x" "m' x = m1 x" using S W by blast+
    then show ?thesis by simp
  qed
  moreover have "16 dvd unat sp2" unfolding sp2 by (rule dvd_minus_mod)
  ultimately show ?thesis
    using res ptr null sp sp1 sp2 lt assms(2) by (intro exI [of _ sp] exI [of _ m']) (simp add: Let_def)
qed

theorem argv_on_stack_witness:
  "\<exists>sp m'. setup_args 0x70000000 [[0x73, 0x68], [0x2D, 0x61]] (\<lambda>_. 0) = Some (sp, m') \<and>
     mem_load m' (load64 m' (sp + 8)) 3 = [0x2D, 0x61, 0]"
proof -
  let ?argv = "[[0x73, 0x68], [0x2D, 0x61]] :: bytes list"
  have "length ?argv \<le> 32" "args_size ?argv + 16 + 8 * (length ?argv + 1) \<le> 65536"
    "65536 \<le> unat (0x70000000 :: u64)" by (simp_all add: args_size_def)
  note argv_on_stack [OF this, of "\<lambda>_. 0"]
  then obtain sp m' where r: "setup_args 0x70000000 ?argv (\<lambda>_. 0) = Some (sp, m')"
    and a: "\<forall>i<length ?argv. let p = load64 m' (sp + of_nat (8 * i)) in
       unat sp + 8 * (length ?argv + 1) \<le> unat p \<and> unat p + c_strlen (?argv ! i) < unat (0x70000000 :: u64) \<and>
       mem_load m' p (c_strlen (?argv ! i) + 1) = cstr (?argv ! i) @ [0]" by blast
  show ?thesis using r spec [OF a, of 1] by (simp add: Let_def cstr_def numeral_3_eq_3)
qed

end
