(* ===== verification/Machine.thy ===== *)
theory Machine
  imports Prelude
begin

text \<open>
  The machine below the kernel, as a parameter of the device drivers: I/O ports
  (kernel/io.hpp), 32-bit device registers in memory, and the memory that a device shares with
  its driver. Every access may change the state of the machine, since a device works while the
  driver runs.
\<close>

unbundle bit_operations_syntax

record 'h machine =
  port_in8 :: "u16 \<Rightarrow> 'h \<Rightarrow> u8 \<times> 'h"
  port_out8 :: "u16 \<Rightarrow> u8 \<Rightarrow> 'h \<Rightarrow> 'h"
  port_in32 :: "u16 \<Rightarrow> 'h \<Rightarrow> u32 \<times> 'h"
  port_out32 :: "u16 \<Rightarrow> u32 \<Rightarrow> 'h \<Rightarrow> 'h"
  mmio_read32 :: "u64 \<Rightarrow> 'h \<Rightarrow> u32 \<times> 'h"
  mmio_write32 :: "u64 \<Rightarrow> u32 \<Rightarrow> 'h \<Rightarrow> 'h"
  dma_load :: "u64 \<Rightarrow> nat \<Rightarrow> 'h \<Rightarrow> bytes \<times> 'h"
  dma_store :: "u64 \<Rightarrow> bytes \<Rightarrow> 'h \<Rightarrow> 'h"

definition IoIn8 :: "'h machine \<Rightarrow> u16 \<Rightarrow> 'h \<Rightarrow> u8 \<times> 'h" where
  "IoIn8 hw port h = port_in8 hw port h"

definition IoOut8 :: "'h machine \<Rightarrow> u16 \<Rightarrow> u8 \<Rightarrow> 'h \<Rightarrow> 'h" where
  "IoOut8 hw port data h = port_out8 hw port data h"

definition IoIn32 :: "'h machine \<Rightarrow> u16 \<Rightarrow> 'h \<Rightarrow> u32 \<times> 'h" where
  "IoIn32 hw port h = port_in32 hw port h"

definition IoOut32 :: "'h machine \<Rightarrow> u16 \<Rightarrow> u32 \<Rightarrow> 'h \<Rightarrow> 'h" where
  "IoOut32 hw port data h = port_out32 hw port data h"

text \<open>Loads and stores of the widths the drivers use.\<close>

definition load8 :: "'h machine \<Rightarrow> u64 \<Rightarrow> 'h \<Rightarrow> u8 \<times> 'h" where
  "load8 hw a h = (let (bs, h) = dma_load hw a 1 h in (bs ! 0, h))"

definition load32 :: "'h machine \<Rightarrow> u64 \<Rightarrow> 'h \<Rightarrow> u32 \<times> 'h" where
  "load32 hw a h = (let (bs, h) = dma_load hw a 4 h in (le32_get bs, h))"

definition load64h :: "'h machine \<Rightarrow> u64 \<Rightarrow> 'h \<Rightarrow> u64 \<times> 'h" where
  "load64h hw a h = (let (bs, h) = dma_load hw a 8 h in (le64_get bs, h))"

definition store32 :: "'h machine \<Rightarrow> u64 \<Rightarrow> u32 \<Rightarrow> 'h \<Rightarrow> 'h" where
  "store32 hw a v h = dma_store hw a (le32_put v) h"

definition store64 :: "'h machine \<Rightarrow> u64 \<Rightarrow> u64 \<Rightarrow> 'h \<Rightarrow> 'h" where
  "store64 hw a v h = dma_store hw a (le64_put v) h"

text \<open>The loops that clear \<open>n\<close> bytes.\<close>

definition store_zeros :: "'h machine \<Rightarrow> u64 \<Rightarrow> nat \<Rightarrow> 'h \<Rightarrow> 'h" where
  "store_zeros hw a n h = fold (\<lambda>i h. dma_store hw (a + of_nat i) [0] h) [0..<n] h"

lemma high_bits_zero:
  assumes "unat w < 2 ^ k" "k \<le> n"
  shows "\<not> bit (w :: 'a :: len word) n"
proof
  assume "bit w n"
  then have "bit (unat w) n" by (simp add: bit_unsigned_iff)
  moreover have "take_bit k (unat w) = unat w" using assms(1) by (simp add: take_bit_nat_eq_self)
  ultimately show False using assms(2) by (metis bit_take_bit_iff not_less)
qed

end
