(* ===== verification/Cpu.thy ===== *)
theory Cpu
  imports Machine
begin

text \<open>
  The tables of the processor and the interrupt controllers: segments and the task state
  segment (kernel/segmentation.cpp, x86_descriptor.hpp), the interrupt descriptor table
  (kernel/interrupt.cpp), the local APIC (kernel/apic.cpp), the I/O APIC (kernel/ioapic.cpp) and
  the masking of the old controller (kernel/pic.cpp). The addresses of the static tables and of
  the handlers are chosen by the linker; they are arguments. What the tables mean to the
  processor follows the bit fields that x86_descriptor.hpp and interrupt.hpp declare.
\<close>

section \<open>Segments\<close>

definition kKernelCS :: u16 where
  "kKernelCS = push_bit 3 1"

definition kKernelDS :: u16 where
  "kKernelDS = push_bit 3 2"

definition kUserDS :: u16 where
  "kUserDS = push_bit 3 4 OR 3"

definition kUserCS :: u16 where
  "kUserCS = push_bit 3 5 OR 3"

definition kTSS :: u16 where
  "kTSS = push_bit 3 6"

record TSS64 =
  rsp0 :: u64
  rsp1 :: u64
  rsp2 :: u64
  tss_ist :: "u64 list"
  iomap_base :: u16

definition sizeof_TSS64 :: nat where
  "sizeof_TSS64 = 4 + 3 * 8 + 8 + 7 * 8 + 8 + 2 + 2"

text \<open>The descriptors, with the unsigned widths of the code.\<close>

definition MakeSegmentDescriptor :: "u32 \<Rightarrow> u32 \<Rightarrow> u64" where
  "MakeSegmentDescriptor type descriptor_privilege_level =
     (let desc = 0;
          desc = desc OR push_bit 40 (ucast type);
          desc = desc OR push_bit 45 (ucast descriptor_privilege_level);
          desc = desc OR push_bit 47 1;
          desc = desc OR push_bit 44 1
      in desc OR push_bit 53 1)"

definition MakeDataSegmentDescriptor :: "u32 \<Rightarrow> u64" where
  "MakeDataSegmentDescriptor descriptor_privilege_level =
     (let desc = 0;
          desc = desc OR 0xFFFF;
          desc = desc OR push_bit 40 2;
          desc = desc OR push_bit 45 (ucast descriptor_privilege_level);
          desc = desc OR push_bit 47 1;
          desc = desc OR push_bit 44 1;
          desc = desc OR push_bit 48 0xF
      in desc OR push_bit 55 1)"

definition SetTSSDescriptor :: "nat \<Rightarrow> u64 \<Rightarrow> u32 \<Rightarrow> u64 list \<Rightarrow> u64 list" where
  "SetTSSDescriptor index base limit g =
     (let low = 0;
          low = low OR ucast (limit AND 0xFFFF);
          low = low OR push_bit 16 (base AND 0xFFFF);
          low = low OR push_bit 32 (drop_bit 16 base AND 0xFF);
          low = low OR push_bit 40 9;
          low = low OR push_bit 44 0;
          low = low OR push_bit 45 0;
          low = low OR push_bit 47 1;
          low = low OR push_bit 48 (ucast (drop_bit 16 limit AND 0xF));
          low = low OR push_bit 56 (drop_bit 24 base AND 0xFF);
          high = 0 OR drop_bit 32 base
      in g[index := low, index + 1 := high])"

text \<open>An entry of the interrupt descriptor table, with its bit fields.\<close>

record InterruptDescriptor =
  offset_low :: u16
  segment_selector :: u16
  gate_ist :: "3 word"
  reserved_1 :: "5 word"
  gate_type :: "4 word"
  reserved_2 :: "1 word"
  gate_dpl :: "2 word"
  gate_present :: "1 word"
  offset_middle :: u16
  offset_high :: u32
  reserved_3 :: u32

text \<open>
  The static tables in memory and the processor registers that the set-up loads. \<open>gdtr\<close> and
  \<open>idtr\<close> are limit and base; \<open>LoadGDT\<close> reloads CS with the selector 8.
\<close>

record Cpu =
  gdt :: "u64 list"
  tss :: TSS64
  idt :: "InterruptDescriptor list"
  gdtr :: "u16 \<times> u64"
  idtr :: "u16 \<times> u64"
  reg_tr :: u16
  reg_cs :: u16
  reg_ds :: u16
  reg_cr0 :: u64
  reg_cr4 :: u64

definition LoadGDT :: "u16 \<Rightarrow> u64 \<Rightarrow> Cpu \<Rightarrow> Cpu" where
  "LoadGDT limit offset c = c\<lparr>gdtr := (limit, offset), reg_cs := 0x08\<rparr>"

definition SetDSAll :: "u16 \<Rightarrow> Cpu \<Rightarrow> Cpu" where
  "SetDSAll v c = c\<lparr>reg_ds := v\<rparr>"

definition LoadTR :: "u16 \<Rightarrow> Cpu \<Rightarrow> Cpu" where
  "LoadTR sel c = c\<lparr>reg_tr := sel\<rparr>"

definition SetupSegments :: "u64 \<Rightarrow> u64 \<Rightarrow> Cpu \<Rightarrow> Cpu" where
  "SetupSegments gdt_addr tss_addr c =
     (let g = gdt c;
          g = g[0 := 0];
          g = g[1 := MakeSegmentDescriptor 10 0];
          g = g[2 := MakeDataSegmentDescriptor 0];
          g = g[3 := 0x00cffa000000ffff];
          g = g[4 := MakeDataSegmentDescriptor 3];
          g = g[5 := MakeSegmentDescriptor 10 3];
          t = \<lparr>rsp0 = 0, rsp1 = 0, rsp2 = 0, tss_ist = replicate 7 0, iomap_base = 0\<rparr>;
          t = t\<lparr>iomap_base := of_nat sizeof_TSS64\<rparr>;
          g = SetTSSDescriptor 6 tss_addr (of_nat sizeof_TSS64 - 1) g;
          c = c\<lparr>gdt := g, tss := t\<rparr>;
          c = LoadGDT (of_nat (8 * length g) - 1) gdt_addr c;
          c = SetDSAll 0 c
      in LoadTR kTSS c)"

definition SetKernelStack :: "u64 \<Rightarrow> Cpu \<Rightarrow> Cpu" where
  "SetKernelStack stack_addr c = c\<lparr>tss := (tss c)\<lparr>rsp0 := stack_addr\<rparr>\<rparr>"

text \<open>\<open>EnableSSE\<close> of asmfunc.asm; its operations on the 16-bit part leave the other bits as they are.\<close>

definition EnableSSE :: "Cpu \<Rightarrow> Cpu" where
  "EnableSSE c = c\<lparr>reg_cr0 := (reg_cr0 c AND NOT 4) OR 2, reg_cr4 := reg_cr4 c OR push_bit 9 3\<rparr>"

section \<open>Interrupt descriptor table\<close>

definition IDT_TYPE_INTERRUPT_GATE :: u16 where
  "IDT_TYPE_INTERRUPT_GATE = 0xE"

definition SetIDTEntry :: "nat \<Rightarrow> u64 \<Rightarrow> u16 \<Rightarrow> u16 \<Rightarrow> Cpu \<Rightarrow> Cpu" where
  "SetIDTEntry index offset selector type c = c\<lparr>idt := (idt c)[index :=
     \<lparr>offset_low = ucast (offset AND 0xFFFF), segment_selector = selector, gate_ist = 0, reserved_1 = 0,
      gate_type = ucast type, reserved_2 = 0, gate_dpl = 0, gate_present = 1,
      offset_middle = ucast (drop_bit 16 offset AND 0xFFFF), offset_high = ucast (drop_bit 32 offset AND 0xFFFFFFFF),
      reserved_3 = 0\<rparr>]\<rparr>"

definition LoadIDT :: "u16 \<Rightarrow> u64 \<Rightarrow> Cpu \<Rightarrow> Cpu" where
  "LoadIDT limit base c = c\<lparr>idtr := (limit, base)\<rparr>"

text \<open>The handlers that are registered; \<open>addr\<close> gives the address of each.\<close>

datatype handler = DivideError | InvalidOpcode | DoubleFault | GPFault | PageFault | Timer | UsbInterrupt

definition SetupInterrupts :: "(handler \<Rightarrow> u64) \<Rightarrow> u64 \<Rightarrow> Cpu \<Rightarrow> Cpu" where
  "SetupInterrupts addr idt_addr c =
     (let c = SetIDTEntry 0 (addr DivideError) 0x08 IDT_TYPE_INTERRUPT_GATE c;
          c = SetIDTEntry 6 (addr InvalidOpcode) 0x08 IDT_TYPE_INTERRUPT_GATE c;
          c = SetIDTEntry 8 (addr DoubleFault) 0x08 IDT_TYPE_INTERRUPT_GATE c;
          c = SetIDTEntry 13 (addr GPFault) 0x08 IDT_TYPE_INTERRUPT_GATE c;
          c = SetIDTEntry 14 (addr PageFault) 0x08 IDT_TYPE_INTERRUPT_GATE c;
          c = SetIDTEntry 0x20 (addr Timer) 0x08 IDT_TYPE_INTERRUPT_GATE c;
          c = SetIDTEntry 0x50 (addr UsbInterrupt) 0x08 IDT_TYPE_INTERRUPT_GATE c
      in LoadIDT (of_nat (16 * length (idt c)) - 1) idt_addr c)"

section \<open>Interrupt controllers\<close>

definition kLocalApicBase :: u64 where
  "kLocalApicBase = 0xFEE00000"

definition LAPIC_Read :: "'h machine \<Rightarrow> u32 \<Rightarrow> 'h \<Rightarrow> u32 \<times> 'h" where
  "LAPIC_Read hw register_offset h = mmio_read32 hw (kLocalApicBase + ucast register_offset) h"

definition LAPIC_Write :: "'h machine \<Rightarrow> u32 \<Rightarrow> u32 \<Rightarrow> 'h \<Rightarrow> 'h" where
  "LAPIC_Write hw register_offset v h = mmio_write32 hw (kLocalApicBase + ucast register_offset) v h"

definition LAPIC_Enable :: "'h machine \<Rightarrow> 'h \<Rightarrow> 'h" where
  "LAPIC_Enable hw h = LAPIC_Write hw 0x0F0 (0x100 OR 0xFF) h"

definition EndOfInterrupt :: "'h machine \<Rightarrow> 'h \<Rightarrow> 'h" where
  "EndOfInterrupt hw h = LAPIC_Write hw 0x0B0 0 h"

definition LAPIC_GetID :: "'h machine \<Rightarrow> 'h \<Rightarrow> u32 \<times> 'h" where
  "LAPIC_GetID hw h = (let (v, h) = LAPIC_Read hw 0x020 h in (drop_bit 24 v, h))"

definition StartTimer :: "'h machine \<Rightarrow> u32 \<Rightarrow> u8 \<Rightarrow> 'h \<Rightarrow> 'h" where
  "StartTimer hw interval_ms vector h =
     (let h = LAPIC_Write hw 0x3E0 0x03 h;
          h = LAPIC_Write hw 0x320 (push_bit 17 1 OR ucast vector) h;
          count = 62500 * interval_ms
      in LAPIC_Write hw 0x380 count h)"

definition kIOAPICBase :: u64 where
  "kIOAPICBase = 0xFEC00000"

definition IOAPIC_Read :: "'h machine \<Rightarrow> u32 \<Rightarrow> 'h \<Rightarrow> u32 \<times> 'h" where
  "IOAPIC_Read hw index h = mmio_read32 hw (kIOAPICBase + 0x10) (mmio_write32 hw kIOAPICBase index h)"

definition IOAPIC_Write :: "'h machine \<Rightarrow> u32 \<Rightarrow> u32 \<Rightarrow> 'h \<Rightarrow> 'h" where
  "IOAPIC_Write hw index data h = mmio_write32 hw (kIOAPICBase + 0x10) data (mmio_write32 hw kIOAPICBase index h)"

definition IOAPIC_Enable :: "'h machine \<Rightarrow> int \<Rightarrow> int \<Rightarrow> u32 \<Rightarrow> 'h \<Rightarrow> 'h" where
  "IOAPIC_Enable hw irq vector dest_id h =
     (let index = of_int (0x10 + 2 * irq);
          low = of_int vector;
          high = push_bit 24 dest_id;
          h = IOAPIC_Write hw (index + 1) high h
      in IOAPIC_Write hw index low h)"

definition DisablePIC :: "'h machine \<Rightarrow> 'h \<Rightarrow> 'h" where
  "DisablePIC hw h = IoOut8 hw 0x21 0xFF (IoOut8 hw 0xA1 0xFF h)"

section \<open>What the tables mean to the processor\<close>

text \<open>
  The fields of a segment descriptor, as \<open>union SegmentDescriptor\<close> declares them: an unsigned
  number of \<open>n\<close> bits from bit \<open>i\<close> on.
\<close>

definition bits_at :: "nat \<Rightarrow> nat \<Rightarrow> u64 \<Rightarrow> nat" where
  "bits_at i n d = unat (take_bit n (drop_bit i d))"

record SegmentDescriptor =
  seg_limit :: nat
  seg_base :: nat
  seg_type :: nat
  system_segment :: nat
  seg_dpl :: nat
  seg_present :: nat
  long_mode :: nat
  default_operation_size :: nat
  granularity :: nat

definition SegmentDescriptor_bits :: "u64 \<Rightarrow> SegmentDescriptor" where
  "SegmentDescriptor_bits d =
     \<lparr>seg_limit = bits_at 0 16 d + 2 ^ 16 * bits_at 48 4 d,
      seg_base = bits_at 16 16 d + 2 ^ 16 * bits_at 32 8 d + 2 ^ 24 * bits_at 56 8 d,
      seg_type = bits_at 40 4 d, system_segment = bits_at 44 1 d, seg_dpl = bits_at 45 2 d,
      seg_present = bits_at 47 1 d, long_mode = bits_at 53 1 d, default_operation_size = bits_at 54 1 d,
      granularity = bits_at 55 1 d\<rparr>"

text \<open>The descriptor a selector names, if the table has it; one in the upper half of a task
  state descriptor gives the upper 32 bits of the base.\<close>

definition descriptor :: "Cpu \<Rightarrow> u16 \<Rightarrow> SegmentDescriptor option" where
  "descriptor c sel =
     (let i = unat (drop_bit 3 sel)
      in if 8 * i + 7 \<le> unat (fst (gdtr c)) then Some (SegmentDescriptor_bits (gdt c ! i)) else None)"

definition is_code64 :: "nat \<Rightarrow> SegmentDescriptor \<Rightarrow> bool" where
  "is_code64 dpl d \<longleftrightarrow> seg_present d = 1 \<and> system_segment d = 1 \<and> seg_type d = 10 \<and> seg_dpl d = dpl \<and>
     long_mode d = 1 \<and> default_operation_size d = 0"

definition is_data :: "nat \<Rightarrow> SegmentDescriptor \<Rightarrow> bool" where
  "is_data dpl d \<longleftrightarrow> seg_present d = 1 \<and> system_segment d = 1 \<and> seg_type d = 2 \<and> seg_dpl d = dpl"

text \<open>A gate: where an interrupt with this vector goes, if the entry is present.\<close>

definition gate_offset :: "InterruptDescriptor \<Rightarrow> u64" where
  "gate_offset e = ucast (offset_low e) OR push_bit 16 (ucast (offset_middle e)) OR push_bit 32 (ucast (offset_high e))"

definition gate :: "Cpu \<Rightarrow> nat \<Rightarrow> (u16 \<times> u64) option" where
  "gate c v =
     (if 16 * v + 15 \<le> unat (fst (idtr c)) \<and> gate_present (idt c ! v) = 1 \<and> gate_type (idt c ! v) = 0xE
      then Some (segment_selector (idt c ! v), gate_offset (idt c ! v)) else None)"

section \<open>Segments: what the processor finds\<close>

lemma bits_at_div: "bits_at i n d = unat d div 2 ^ i mod 2 ^ n"
  by (simp only: bits_at_def unsigned_take_bit_eq unat_drop_bit_eq) (simp only: take_bit_eq_mod drop_bit_eq_div)

lemma code_descriptor:
  "is_code64 0 (SegmentDescriptor_bits (MakeSegmentDescriptor 10 0))"
  "is_code64 3 (SegmentDescriptor_bits (MakeSegmentDescriptor 10 3))"
  "is_data 0 (SegmentDescriptor_bits (MakeDataSegmentDescriptor 0))"
  "is_data 3 (SegmentDescriptor_bits (MakeDataSegmentDescriptor 3))"
  by (simp_all add: is_code64_def is_data_def SegmentDescriptor_bits_def bits_at_div MakeSegmentDescriptor_def
      MakeDataSegmentDescriptor_def Let_def)

definition tss_low :: "u64 \<Rightarrow> u64" where
  "tss_low base = 103 OR push_bit 16 (take_bit 16 base) OR push_bit 32 (take_bit 8 (drop_bit 16 base)) OR
     push_bit 40 9 OR push_bit 47 1 OR push_bit 56 (take_bit 8 (drop_bit 24 base))"

lemma and_take_bit: "x AND 0xFFFF = take_bit 16 x" "x AND 0xFF = take_bit 8 x" for x :: u64
  by (simp_all add: take_bit_eq_mask mask_eq_exp_minus_1)

lemma SetTSSDescriptor_low:
  "SetTSSDescriptor 6 base (of_nat sizeof_TSS64 - 1) g = g[6 := tss_low base, 7 := drop_bit 32 base]"
  by (simp add: SetTSSDescriptor_def tss_low_def sizeof_TSS64_def Let_def and_take_bit or.assoc)

lemma tss_bit_parts:
  fixes x y z b :: u64
  assumes "n < 64" "\<And>k. 7 \<le> k \<Longrightarrow> \<not> bit x k" "\<And>k. 4 \<le> k \<Longrightarrow> \<not> bit y k" "\<And>k. bit z k \<longleftrightarrow> k = 0"
  shows "bit (x OR push_bit 16 (take_bit 16 b) OR push_bit 32 (take_bit 8 (drop_bit 16 b)) OR
     push_bit 40 y OR push_bit 47 z OR push_bit 56 (take_bit 8 (drop_bit 24 b))) n \<longleftrightarrow>
    (if n < 16 then bit x n else if n < 40 then bit b (n - 16) else if n < 44 then bit y (n - 40)
     else if n < 56 then n = 47 else bit b (n - 32))"
proof -
  have or_bits: "bit (x OR push_bit 16 (take_bit 16 b) OR push_bit 32 (take_bit 8 (drop_bit 16 b)) OR
      push_bit 40 y OR push_bit 47 z OR push_bit 56 (take_bit 8 (drop_bit 24 b))) n \<longleftrightarrow>
      bit x n \<or> 16 \<le> n \<and> n - 16 < 16 \<and> bit b (n - 16) \<or> 32 \<le> n \<and> n - 32 < 8 \<and> bit b (16 + (n - 32)) \<or>
      40 \<le> n \<and> bit y (n - 40) \<or> 47 \<le> n \<and> n - 47 = 0 \<or> 56 \<le> n \<and> n - 56 < 8 \<and> bit b (24 + (n - 56))"
    using assms(1) by (simp add: bit_or_iff bit_push_bit_iff bit_take_bit_iff bit_drop_bit_eq assms(4))
  consider "n < 16" | "16 \<le> n" "n < 32" | "32 \<le> n" "n < 40" | "40 \<le> n" "n < 44" | "44 \<le> n" "n < 56" | "56 \<le> n"
    by linarith
  then show ?thesis
  proof cases
    case 1
    then show ?thesis unfolding or_bits by simp
  next
    case 2
    then have "n - 16 < 16" by simp
    then show ?thesis unfolding or_bits using assms(2) [of n] 2 by simp
  next
    case 3
    then have "n - 32 < 8" "16 + (n - 32) = n - 16" "\<not> n - 16 < 16" by simp_all
    then show ?thesis unfolding or_bits using assms(2) [of n] 3 by simp
  next
    case 4
    then have "\<not> n - 32 < 8" "\<not> n - 16 < 16" by simp_all
    then show ?thesis unfolding or_bits using assms(2) [of n] 4 by simp
  next
    case 5
    then have "\<not> n - 32 < 8" "\<not> n - 16 < 16" "\<not> bit y (n - 40)" using assms(3) [of "n - 40"] by simp_all
    then show ?thesis unfolding or_bits using assms(2) [of n] 5 by auto
  next
    case 6
    then have "\<not> n - 32 < 8" "\<not> n - 16 < 16" "\<not> bit y (n - 40)" "24 + (n - 56) = n - 32" "n - 56 < 8"
      using assms(1) assms(3) [of "n - 40"] by simp_all
    then show ?thesis unfolding or_bits using assms(2) [of n] 6 by auto
  qed
qed

lemma tss_small_bits:
  "7 \<le> n \<Longrightarrow> \<not> bit (103 :: u64) n" "4 \<le> n \<Longrightarrow> \<not> bit (9 :: u64) n"
  using high_bits_zero [of "103 :: u64" 7 n] high_bits_zero [of "9 :: u64" 4 n] by simp_all

lemmas tss_bit = tss_bit_parts [of _ 103 9 1, OF _ tss_small_bits bit_1_iff [where ?'a = u64, simplified], folded tss_low_def]

lemma field_eq:
  fixes a b :: u64
  assumes "\<And>k. k < n \<Longrightarrow> i + k < 64 \<Longrightarrow> bit (tss_low b) (i + k) = bit a k" "i + n \<le> 64"
  shows "take_bit n (drop_bit i (tss_low b)) = take_bit n a"
  using assms by (intro bit_word_eqI) (auto simp: bit_take_bit_iff bit_drop_bit_eq)

lemma tss_fields:
  "take_bit 16 (drop_bit 0 (tss_low b)) = take_bit 16 103" "take_bit 4 (drop_bit 48 (tss_low b)) = take_bit 4 0"
  "take_bit 16 (drop_bit 16 (tss_low b)) = take_bit 16 b"
  "take_bit 8 (drop_bit 32 (tss_low b)) = take_bit 8 (drop_bit 16 b)"
  "take_bit 8 (drop_bit 56 (tss_low b)) = take_bit 8 (drop_bit 24 b)"
  "take_bit 4 (drop_bit 40 (tss_low b)) = take_bit 4 9" "take_bit 1 (drop_bit 44 (tss_low b)) = take_bit 1 0"
  "take_bit 2 (drop_bit 45 (tss_low b)) = take_bit 2 0" "take_bit 1 (drop_bit 47 (tss_low b)) = take_bit 1 1"
  "take_bit 1 (drop_bit 53 (tss_low b)) = take_bit 1 0" "take_bit 1 (drop_bit 54 (tss_low b)) = take_bit 1 0"
  "take_bit 1 (drop_bit 55 (tss_low b)) = take_bit 1 0"
  by (rule field_eq; simp add: tss_bit bit_drop_bit_eq bit_1_iff)+

lemma tss_descriptor:
  "SegmentDescriptor_bits (tss_low b) =
     \<lparr>seg_limit = 103, seg_base = unat (take_bit 32 b), seg_type = 9, system_segment = 0, seg_dpl = 0, seg_present = 1,
      long_mode = 0, default_operation_size = 0, granularity = 0\<rparr>"
proof -
  have "bits_at 16 16 (tss_low b) + 2 ^ 16 * bits_at 32 8 (tss_low b) + 2 ^ 24 * bits_at 56 8 (tss_low b) =
      unat b mod 2 ^ 16 + 2 ^ 16 * (unat b div 2 ^ 16 mod 2 ^ 8) + 2 ^ 24 * (unat b div 2 ^ 24 mod 2 ^ 8)"
    unfolding bits_at_def tss_fields by (simp only: unsigned_take_bit_eq unat_drop_bit_eq) (simp only: take_bit_eq_mod drop_bit_eq_div)
  also have "\<dots> = unat b mod 2 ^ 32"
    using mod_mult2_eq [of "unat b" "2 ^ 24" "2 ^ 8"] mod_mult2_eq [of "unat b" "2 ^ 16" "2 ^ 8"] by simp
  also have "\<dots> = unat (take_bit 32 b)" by (simp only: unsigned_take_bit_eq) (simp only: take_bit_eq_mod)
  finally show ?thesis unfolding SegmentDescriptor_bits_def bits_at_def tss_fields by simp
qed

text \<open>
  After the set-up of the segments every selector of the kernel names the descriptor it is meant
  for: 64-bit code and data of ring 0 and of ring 3, and, in the task register, the task state
  segment at its linked address with its size. Index 7 is the upper half of the last one.
\<close>

theorem SetupSegments_descriptors:
  assumes "length (gdt c) = 8" "c' = SetupSegments gdt_addr tss_addr c"
  shows "(\<exists>d. descriptor c' kKernelCS = Some d \<and> is_code64 0 d) \<and> (\<exists>d. descriptor c' kKernelDS = Some d \<and> is_data 0 d) \<and>
    (\<exists>d. descriptor c' kUserCS = Some d \<and> is_code64 3 d) \<and> (\<exists>d. descriptor c' kUserDS = Some d \<and> is_data 3 d) \<and>
    (\<exists>d. descriptor c' (reg_tr c') = Some d \<and> seg_present d = 1 \<and> system_segment d = 0 \<and> seg_type d = 9 \<and>
       seg_base d + 2 ^ 32 * unat (gdt c' ! 7) = unat tss_addr \<and> seg_limit d + 1 = sizeof_TSS64)"
proof -
  have gdt': "gdt c' = [0, MakeSegmentDescriptor 10 0, MakeDataSegmentDescriptor 0, 0x00cffa000000ffff,
      MakeDataSegmentDescriptor 3, MakeSegmentDescriptor 10 3, tss_low tss_addr, drop_bit 32 tss_addr]"
    using assms(1) unfolding assms(2) SetupSegments_def SetTSSDescriptor_low
    by (auto simp: LoadTR_def SetDSAll_def LoadGDT_def Let_def numeral_eq_Suc length_Suc_conv)
  have regs: "fst (gdtr c') = 63" "reg_tr c' = kTSS"
    using assms(1) unfolding assms(2) SetupSegments_def SetTSSDescriptor_low
    by (simp_all add: LoadTR_def SetDSAll_def LoadGDT_def Let_def)
  have sel: "drop_bit 3 kKernelCS = 1" "drop_bit 3 kKernelDS = 2" "drop_bit 3 kUserDS = 4" "drop_bit 3 kUserCS = 5" "drop_bit 3 kTSS = 6"
    by (simp_all add: kKernelCS_def kKernelDS_def kUserDS_def kUserCS_def kTSS_def)
  have base: "unat (take_bit 32 tss_addr) + 2 ^ 32 * unat (drop_bit 32 tss_addr) = unat tss_addr"
    by (simp only: unsigned_take_bit_eq unat_drop_bit_eq) (simp add: take_bit_eq_mod drop_bit_eq_div)
  show ?thesis
    using base by (simp add: descriptor_def gdt' regs sel code_descriptor tss_descriptor sizeof_TSS64_def)
qed

section \<open>Interrupts: where they go\<close>

lemma gate_offset_set:
  "ucast (ucast (w AND 0xFFFF) :: u16) OR push_bit 16 (ucast (ucast (drop_bit 16 w AND 0xFFFF) :: u16)) OR
     push_bit 32 (ucast (ucast (drop_bit 32 w AND 0xFFFFFFFF) :: u32)) = (w :: u64)"
proof -
  have m: "0xFFFF = (mask 16 :: u64)" "0xFFFFFFFF = (mask 32 :: u64)" by (simp_all add: mask_eq_exp_minus_1)
  show ?thesis unfolding m
  proof (rule bit_word_eqI, goal_cases)
    case (1 n)
    then show ?case by (cases "n < 32") (auto simp: bit_simps)
  qed
qed

definition zero_gate :: InterruptDescriptor where
  "zero_gate = \<lparr>offset_low = 0, segment_selector = 0, gate_ist = 0, reserved_1 = 0, gate_type = 0, reserved_2 = 0,
     gate_dpl = 0, gate_present = 0, offset_middle = 0, offset_high = 0, reserved_3 = 0\<rparr>"

definition handler_of :: "nat \<Rightarrow> handler option" where
  "handler_of v = map_of [(0, DivideError), (6, InvalidOpcode), (8, DoubleFault), (13, GPFault), (14, PageFault),
     (0x20, Timer), (0x50, UsbInterrupt)] v"

lemma SetupInterrupts_gates_lemma:
  assumes "idt c = replicate 256 zero_gate" "v < 256"
  shows "gate (SetupInterrupts addr idt_addr c) v = map_option (\<lambda>h. (0x08, addr h)) (handler_of v)"
proof -
  let ?e = "\<lambda>h. \<lparr>offset_low = ucast (addr h AND 0xFFFF), segment_selector = 0x08, gate_ist = 0, reserved_1 = 0,
      gate_type = 0xE, reserved_2 = 0, gate_dpl = 0, gate_present = 1,
      offset_middle = ucast (drop_bit 16 (addr h) AND 0xFFFF), offset_high = ucast (drop_bit 32 (addr h) AND 0xFFFFFFFF),
      reserved_3 = 0\<rparr>"
  let ?c = "SetupInterrupts addr idt_addr c"
  have lim: "fst (idtr ?c) = 0xFFF"
    by (simp add: SetupInterrupts_def SetIDTEntry_def LoadIDT_def Let_def assms(1))
  have "idt ?c = (replicate 256 zero_gate)[0 := ?e DivideError, 6 := ?e InvalidOpcode, 8 := ?e DoubleFault,
      13 := ?e GPFault, 14 := ?e PageFault, 0x20 := ?e Timer, 0x50 := ?e UsbInterrupt]"
    by (simp add: SetupInterrupts_def SetIDTEntry_def LoadIDT_def Let_def assms(1) IDT_TYPE_INTERRUPT_GATE_def)
  then have nth: "idt ?c ! v = (case handler_of v of None \<Rightarrow> zero_gate | Some h \<Rightarrow> ?e h)"
    using assms(2) by (simp add: handler_of_def nth_list_update)
  have "gate_offset (?e h) = addr h" for h
    by (simp add: gate_offset_def gate_offset_set)
  then show ?thesis
    using assms(2) by (simp add: gate_def lim nth zero_gate_def split: option.split)
qed

text \<open>
  C31: The interrupt table sends each of the seven vectors of the kernel to its handler, at whatever
  address that is linked, through the kernel code segment, and has no gate for any other vector.
\<close>

theorem SetupInterrupts_gates:
  assumes "idt c = replicate 256 zero_gate" "v < 256"
  shows "gate (SetupInterrupts addr idt_addr c) v = map_option (\<lambda>h. (0x08, addr h)) (handler_of v)"
  by (rule SetupInterrupts_gates_lemma [OF assms])

section \<open>The I/O APIC\<close>

text \<open>
  What the driver relies on: a register is selected by a write at the base and accessed through
  the window at offset 0x10. Registers 0x10 + 2n and 0x11 + 2n route the interrupt line n: the
  vector in bits 0 to 7, the mask in bit 16, the destination in bits 24 to 31 of the upper half.
\<close>

locale ioapic_host =
  fixes hw :: "'h machine" and sel :: "'h \<Rightarrow> u32" and regs :: "'h \<Rightarrow> u32 \<Rightarrow> u32"
  assumes select: "sel (mmio_write32 hw 0xFEC00000 i h) = i \<and> regs (mmio_write32 hw 0xFEC00000 i h) = regs h"
    and window_read: "mmio_read32 hw 0xFEC00010 h = (v, h') \<Longrightarrow> v = regs h (sel h) \<and> regs h' = regs h"
    and window_write: "regs (mmio_write32 hw 0xFEC00010 v h) = (regs h)(sel h := v)"
begin

lemma IOAPIC_Write_regs: "regs (IOAPIC_Write hw i v h) = (regs h)(i := v)"
  by (simp add: IOAPIC_Write_def kIOAPICBase_def select window_write)

lemma IOAPIC_Read_regs: "IOAPIC_Read hw i h = (v, h') \<Longrightarrow> v = regs h i \<and> regs h' = regs h"
  using window_read [of "mmio_write32 hw 0xFEC00000 i h" v h'] select by (simp add: IOAPIC_Read_def kIOAPICBase_def)

lemma IOAPIC_Enable_regs:
  "regs (IOAPIC_Enable hw irq vector dest_id h) =
     (regs h)(of_int (0x10 + 2 * irq) + 1 := push_bit 24 dest_id, of_int (0x10 + 2 * irq) := of_int vector)"
  by (simp add: IOAPIC_Enable_def Let_def IOAPIC_Write_regs)

end

definition irq_route :: "(u32 \<Rightarrow> u32) \<Rightarrow> nat \<Rightarrow> (nat \<times> nat) option" where
  "irq_route regs irq =
     (let low = regs (of_nat (0x10 + 2 * irq)); high = regs (of_nat (0x11 + 2 * irq))
      in if bit low 16 then None else Some (unat (take_bit 8 low), unat (drop_bit 24 high)))"

context ioapic_host
begin

lemma irq_route_Enable:
  assumes "irq < 24" "vector < 256"
  shows "irq_route (regs (IOAPIC_Enable hw (int irq) (int vector) dest_id h)) irq = Some (vector, unat (take_bit 8 dest_id))"
proof -
  have i: "(of_nat (0x10 + 2 * irq) :: u32) \<noteq> of_nat (0x11 + 2 * irq)" "of_nat (0x11 + 2 * irq) = (of_int (0x10 + 2 * int irq) + 1 :: u32)"
    "of_nat (0x10 + 2 * irq) = (of_int (0x10 + 2 * int irq) :: u32)"
    by simp_all
  have v: "unat (of_int (int vector) :: u32) = vector" using assms(2) by (simp add: unat_of_nat take_bit_nat_eq_self)
  then have m: "\<not> bit (of_int (int vector) :: u32) 16" using high_bits_zero [of "of_int (int vector) :: u32" 8 16] assms(2) by simp
  have t: "unat (take_bit 8 (of_int (int vector) :: u32)) = vector"
    using v assms(2) by (simp only: unsigned_take_bit_eq v) (simp add: take_bit_nat_eq_self)
  have "drop_bit 24 (push_bit 24 dest_id) = take_bit 8 dest_id"
    by (rule bit_word_eqI) (auto simp: bit_simps)
  then show ?thesis
    using m t i by (simp add: irq_route_def Let_def IOAPIC_Enable_regs)
qed

end

text \<open>An I/O APIC and nothing else: the selected register and the registers.\<close>

definition ioapic_machine :: "(u32 \<times> (u32 \<Rightarrow> u32)) machine" where
  "ioapic_machine = \<lparr>port_in8 = (\<lambda>_ h. (0, h)), port_out8 = (\<lambda>_ _ h. h), port_in32 = (\<lambda>_ h. (0, h)), port_out32 = (\<lambda>_ _ h. h),
     mmio_read32 = (\<lambda>a h. (if a = 0xFEC00010 then snd h (fst h) else 0, h)),
     mmio_write32 = (\<lambda>a v h. if a = 0xFEC00000 then (v, snd h) else if a = 0xFEC00010 then (fst h, (snd h)(fst h := v)) else h),
     dma_load = (\<lambda>_ n h. (replicate n 0, h)), dma_store = (\<lambda>_ _ h. h)\<rparr>"

interpretation ram_ioapic: ioapic_host ioapic_machine fst snd
  by unfold_locales (auto simp: ioapic_machine_def)

text \<open>
  The line of the old keyboard controller is enabled without a handler: after
  \<open>IOAPIC::Enable(1, 0x40, id)\<close> of \<open>KernelMain\<close>, line 1 is unmasked and delivers vector 0x40, for which
  the table has no gate; the processor answers with a general protection fault, which halts the
  system. So does a spurious interrupt, for which \<open>LocalAPIC::Enable\<close> chooses the vector 0xFF.
\<close>

theorem keyboard_irq_without_gate:
  assumes "ioapic_host hw sel regs" "idt c = replicate 256 zero_gate"
  shows "irq_route (regs (IOAPIC_Enable hw 1 0x40 dest_id h)) 1 = Some (0x40, unat (take_bit 8 dest_id)) \<and>
    gate (SetupInterrupts addr idt_addr c) 0x40 = None \<and> gate (SetupInterrupts addr idt_addr c) 0xFF = None"
  using ioapic_host.irq_route_Enable [OF assms(1), where irq = 1 and vector = "0x40"] SetupInterrupts_gates_lemma [OF assms(2)]
  by (simp add: handler_of_def)

definition sample_cpu :: Cpu where
  "sample_cpu = \<lparr>gdt = replicate 8 0, tss = \<lparr>rsp0 = 0, rsp1 = 0, rsp2 = 0, tss_ist = [], iomap_base = 0\<rparr>,
     idt = replicate 256 zero_gate, gdtr = (0, 0), idtr = (0, 0), reg_tr = 0, reg_cs = 0, reg_ds = 0, reg_cr0 = 0, reg_cr4 = 0\<rparr>"

theorem SetupSegments_descriptors_witness:
  "\<exists>d. descriptor (SetupSegments 0x1000 0x123456789ABC sample_cpu) kTSS = Some d \<and> seg_limit d = 103"
proof -
  have "reg_tr (SetupSegments 0x1000 0x123456789ABC sample_cpu) = kTSS"
    by (simp add: SetupSegments_def LoadTR_def Let_def)
  then show ?thesis
    using SetupSegments_descriptors [of sample_cpu "SetupSegments 0x1000 0x123456789ABC sample_cpu", OF _ refl]
    by (auto simp: sample_cpu_def sizeof_TSS64_def)
qed

theorem SetupInterrupts_gates_witness:
  "gate (SetupInterrupts (\<lambda>_. 0xFFFF800000101234) 0x2000 sample_cpu) 0x20 = Some (0x08, 0xFFFF800000101234) \<and>
   gate (SetupInterrupts (\<lambda>_. 0xFFFF800000101234) 0x2000 sample_cpu) 0x21 = None"
  using SetupInterrupts_gates [where c = sample_cpu and addr = "\<lambda>_. 0xFFFF800000101234" and idt_addr = "0x2000"] by (simp add: sample_cpu_def handler_of_def)

theorem keyboard_irq_without_gate_witness:
  "irq_route (snd (IOAPIC_Enable ioapic_machine 1 0x40 0 (0, \<lambda>_. 0))) 1 = Some (0x40, 0) \<and>
   gate (SetupInterrupts (\<lambda>_. 0x1000) 0x2000 sample_cpu) 0x40 = None"
  using keyboard_irq_without_gate [OF ram_ioapic.ioapic_host_axioms, of sample_cpu 0]
  by (simp add: sample_cpu_def)

end
