(* ===== verification/AppLoad.thy ===== *)
theory AppLoad
  imports TaskLife FatFiles UserMem Cpu
begin

text \<open>
  Starting applications: the ELF loader (kernel/app/elf/elf_loader.cpp, kernel/elf.hpp, and the
  crate kernel/rust/src/elf that it uses by default, with its bindings in rust_ffi.cpp) and the
  entry of an application task (kernel/app/elf/app_wrapper.cpp). The file buffer of the loader is a
  list of its own. An access outside the file buffer or to an address that is not mapped has the
  result \<open>None\<close>. Kernel log output is left out.
\<close>

section \<open>Memory through page tables\<close>

text \<open>
  What the page table at each root shows, by virtual address. The frames that the allocator hands out
  between two states of the page manager are cleared (\<open>AllocateVirtual\<close>, \<open>AllocateTable\<close>), so an address that
  is mapped to one of them afterwards shows zero; an address that keeps its frame shows what it showed; one
  that is mapped to other memory, as in a new page table, shows what the kernel shows at the physical address,
  which its table maps to itself. Memory in which the kernel keeps its own data - page tables, control blocks,
  kernel stacks - belongs to other parts of the model; its contents are not followed here.
\<close>

type_synonym spaces = "u64 \<Rightarrow> vmem"

definition handed_out :: "PageManager \<Rightarrow> PageManager \<Rightarrow> u64 \<Rightarrow> bool" where
  "handed_out pg pg' p \<longleftrightarrow> \<not> Bitmap_Get (mm_bitmap (pg_mm pg)) (unat p div kFrameSize) \<and>
     Bitmap_Get (mm_bitmap (pg_mm pg')) (unat p div kFrameSize)"

definition remap :: "PageManager \<Rightarrow> PageManager \<Rightarrow> spaces \<Rightarrow> spaces" where
  "remap pg pg' sp = (\<lambda>r x.
     case translate (frames pg') r x of
       None \<Rightarrow> sp r x
     | Some p \<Rightarrow>
         if handed_out pg pg' p then 0
         else if \<not> handed_out pg pg' r \<and> translate (frames pg) r x = Some p then sp r x
         else sp (pml4_table pg) p)"

text \<open>
  A store through the table that CR3 selects: every address of every table that is mapped to the same
  physical byte shows it.
\<close>

definition store_byte :: "PageManager \<Rightarrow> u64 \<Rightarrow> u8 \<Rightarrow> spaces \<Rightarrow> spaces option" where
  "store_byte pg a b sp =
     (case translate (frames pg) (cr3 pg) a of
        None \<Rightarrow> None
      | Some p \<Rightarrow> Some (\<lambda>r x. if translate (frames pg) r x = Some p then b else sp r x))"

fun store_bytes :: "PageManager \<Rightarrow> u64 \<Rightarrow> bytes \<Rightarrow> spaces \<Rightarrow> spaces option" where
  "store_bytes pg a [] sp = Some sp"
| "store_bytes pg a (b # bs) sp = Option.bind (store_byte pg a b sp) (store_bytes pg (a + 1) bs)"

section \<open>ELF files\<close>

record Elf64_Phdr =
  p_type :: u32
  p_offset :: u64
  p_vaddr :: u64
  p_filesz :: u64
  p_memsz :: u64

definition get_phdr :: "bytes \<Rightarrow> nat \<Rightarrow> Elf64_Phdr" where
  "get_phdr buf off =
     \<lparr>p_type = le32_get (buf_get off 4 buf), p_offset = le64_get (buf_get (off + 8) 8 buf),
      p_vaddr = le64_get (buf_get (off + 16) 8 buf), p_filesz = le64_get (buf_get (off + 32) 8 buf),
      p_memsz = le64_get (buf_get (off + 40) 8 buf)\<rparr>"

definition sizeof_Ehdr :: nat where
  "sizeof_Ehdr = 64"

definition sizeof_Phdr :: nat where
  "sizeof_Phdr = 56"

definition e_machine :: "bytes \<Rightarrow> u16" where
  "e_machine buf = le16_get (buf_get 18 2 buf)"

definition e_entry :: "bytes \<Rightarrow> u64" where
  "e_entry buf = le64_get (buf_get 24 8 buf)"

definition e_phoff :: "bytes \<Rightarrow> u64" where
  "e_phoff buf = le64_get (buf_get 32 8 buf)"

definition e_phentsize :: "bytes \<Rightarrow> u16" where
  "e_phentsize buf = le16_get (buf_get 54 2 buf)"

definition e_phnum :: "bytes \<Rightarrow> u16" where
  "e_phnum buf = le16_get (buf_get 56 2 buf)"

text \<open>The header test of the C++ loader.\<close>

definition is_elf :: "bytes \<Rightarrow> u32 \<Rightarrow> bool" where
  "is_elf buf file_size \<longleftrightarrow>
     \<not> (unat file_size < sizeof_Ehdr \<or> buf ! 0 \<noteq> 0x7F \<or> buf ! 1 \<noteq> 0x45 \<or> buf ! 2 \<noteq> 0x4C \<or> buf ! 3 \<noteq> 0x46)"

text \<open>The header test of the Rust loader.\<close>

datatype ElfError = FileTooSmall | InvalidMagic | UnsupportedMachine | InvalidProgramHeader |
  KernelMemoryOverlap | MemoryAllocationFailed | FileReadFailed

definition validate_elf_header :: "bytes \<Rightarrow> u32 \<Rightarrow> ElfError option" where
  "validate_elf_header buf file_size =
     (if unat file_size < sizeof_Ehdr then Some FileTooSmall
      else if take 4 buf \<noteq> [0x7F, 0x45, 0x4C, 0x46] then Some InvalidMagic
      else if e_machine buf \<noteq> 62 then Some UnsupportedMachine
      else None)"

text \<open>
  The program headers the loops visit: the C++ loop takes \<open>e_phnum\<close> consecutive structures
  from \<open>e_phoff\<close> on, wherever that is; the Rust iterator steps by \<open>e_phentsize\<close> and leaves out
  what is not inside the file.
\<close>

definition phdr_at :: "bytes \<Rightarrow> u64 \<Rightarrow> Elf64_Phdr option" where
  "phdr_at buf off = (if unat off + sizeof_Phdr \<le> length buf then Some (get_phdr buf (unat off)) else None)"

definition cpp_headers :: "bytes \<Rightarrow> Elf64_Phdr option list" where
  "cpp_headers buf = map (\<lambda>i. phdr_at buf (e_phoff buf + of_nat (sizeof_Phdr * i))) [0..<unat (e_phnum buf)]"

definition get_program_headers :: "bytes \<Rightarrow> u32 \<Rightarrow> Elf64_Phdr option list" where
  "get_program_headers buf file_size =
     (let offset = (\<lambda>i. e_phoff buf + of_nat i * ucast (e_phentsize buf))
      in map (\<lambda>i. phdr_at buf (offset i))
           (filter (\<lambda>i. offset i + of_nat sizeof_Phdr \<le> ucast file_size) [0..<unat (e_phnum buf)]))"

section \<open>Loading segments\<close>

definition user_flags :: u64 where
  "user_flags = kPresent OR kWritable OR kUser"

text \<open>One segment: pages for its range, the bytes of the file, zeros for the rest.\<close>

definition seg_start :: "Elf64_Phdr \<Rightarrow> u64" where
  "seg_start ph = p_vaddr ph AND NOT 0xFFF"

definition seg_alloc :: "Elf64_Phdr \<Rightarrow> u64" where
  "seg_alloc ph = ((p_vaddr ph + p_memsz ph + 0xFFF) AND NOT 0xFFF) - seg_start ph"

definition copy_segment :: "bytes \<Rightarrow> Elf64_Phdr \<Rightarrow> PageManager \<Rightarrow> spaces \<Rightarrow> spaces option" where
  "copy_segment buf ph pg sp =
     (if unat (p_offset ph) + unat (p_filesz ph) > length buf then None
      else do {
        sp \<leftarrow> store_bytes pg (p_vaddr ph) (buf_get (unat (p_offset ph)) (unat (p_filesz ph)) buf) sp;
        if p_memsz ph > p_filesz ph
        then store_bytes pg (p_vaddr ph + p_filesz ph) (replicate (unat (p_memsz ph - p_filesz ph)) 0) sp else Some sp })"

definition load_segment :: "bytes \<Rightarrow> Elf64_Phdr \<Rightarrow> PageManager \<Rightarrow> spaces \<Rightarrow>
    (ElfError option \<times> PageManager \<times> spaces) option" where
  "load_segment buf ph pg sp =
     (let (ok, pg') = AllocateVirtual pg (seg_start ph) (seg_alloc ph) user_flags;
          sp = remap pg pg' sp
      in if \<not> ok then Some (Some MemoryAllocationFailed, pg', sp)
         else map_option (\<lambda>sp. (None, pg', sp)) (copy_segment buf ph pg' sp))"

text \<open>
  The loop over the program headers. \<open>guarded\<close> is the test for kernel addresses, which
  \<open>LoadAndRun\<close>, \<open>LoadElf\<close> and the Rust loader make and the C++ code of \<open>CreateProcess\<close> does not.
\<close>

fun load_segments :: "bool \<Rightarrow> bytes \<Rightarrow> Elf64_Phdr option list \<Rightarrow> PageManager \<Rightarrow> spaces \<Rightarrow>
    (ElfError option \<times> PageManager \<times> spaces) option" where
  "load_segments guarded buf [] pg sp = Some (None, pg, sp)"
| "load_segments guarded buf (None # hs) pg sp = None"
| "load_segments guarded buf (Some ph # hs) pg sp =
     (if p_type ph \<noteq> 1 then load_segments guarded buf hs pg sp
      else if guarded \<and> p_vaddr ph \<ge> 0x100000 \<and> p_vaddr ph < 0x400000 then Some (Some KernelMemoryOverlap, pg, sp)
      else (case load_segment buf ph pg sp of
              None \<Rightarrow> None
            | Some (Some e, pg, sp) \<Rightarrow> Some (Some e, pg, sp)
            | Some (None, pg, sp) \<Rightarrow> load_segments guarded buf hs pg sp))"

text \<open>
  \<open>rust_elf_load_from_buffer\<close>: success, the entry point (unchanged from 0 on errors), and the
  state after it.
\<close>

definition rust_elf_load_from_buffer :: "bytes \<Rightarrow> u32 \<Rightarrow> PageManager \<Rightarrow> spaces \<Rightarrow>
    (bool \<times> u64 \<times> PageManager \<times> spaces) option" where
  "rust_elf_load_from_buffer buf file_size pg sp =
     (if file_size = 0 then Some (False, 0, pg, sp)
      else if validate_elf_header buf file_size \<noteq> None then Some (False, 0, pg, sp)
      else case load_segments True buf (get_program_headers buf file_size) pg sp of
             None \<Rightarrow> None
           | Some (Some e, pg, sp) \<Rightarrow> Some (False, 0, pg, sp)
           | Some (None, pg, sp) \<Rightarrow> Some (True, e_entry buf, pg, sp))"

text \<open>The loop of \<open>CreateProcess\<close> when the C++ loader is selected.\<close>

definition cpp_load_from_buffer :: "bytes \<Rightarrow> PageManager \<Rightarrow> spaces \<Rightarrow> (bool \<times> u64 \<times> PageManager \<times> spaces) option" where
  "cpp_load_from_buffer buf pg sp =
     map_option (\<lambda>(e, pg, sp). (e = None, e_entry buf, pg, sp)) (load_segments False buf (cpp_headers buf) pg sp)"

section \<open>LoadElf\<close>

definition kBufSize :: u32 where
  "kBufSize = 1024 * 1024"

text \<open>
  The file system is \<open>None\<close> while it is not mounted. Neither version of \<open>LoadElf\<close> uses the
  contents the buffer has before the read, \<open>fresh\<close>.
\<close>

definition read_file :: "'d FAT32Driver option \<Rightarrow> bytes \<Rightarrow> (u32 \<times> bytes \<times> 'd FAT32Driver option) option" where
  "read_file sysfs filename =
     (case sysfs of None \<Rightarrow> Some (0, [], None)
      | Some fs \<Rightarrow> map_option (\<lambda>(n, buf, fs). (n, buf, Some fs))
                     (ReadFile fs filename (fresh fs (unat kBufSize)) kBufSize 0))"

definition release_buf :: "u64 \<Rightarrow> Kernel \<Rightarrow> Kernel" where
  "release_buf file_buf k = set_mem k (Free (kmem k) file_buf (ucast kBufSize))"

text \<open>\<open>load_elf_internal\<close> of the Rust crate, which \<open>rust_elf_load\<close> wraps.\<close>

definition rust_elf_load :: "Kernel \<Rightarrow> 'd FAT32Driver option \<Rightarrow> spaces \<Rightarrow> bytes \<Rightarrow>
    (u64 option \<times> Kernel \<times> 'd FAT32Driver option \<times> spaces) option" where
  "rust_elf_load k sysfs sp filename =
     (let (file_buf, mm) = Allocate (kmem k) (ucast kBufSize); k = set_mem k mm in
      if file_buf = 0 then Some (None, k, sysfs, sp)
      else do {
        (file_size, buf, sysfs) \<leftarrow> read_file sysfs filename;
        if file_size = 0 \<or> validate_elf_header buf file_size \<noteq> None then Some (None, release_buf file_buf k, sysfs, sp)
        else do {
          (e, pg, sp) \<leftarrow> load_segments True buf (get_program_headers buf file_size) (k_pg k) sp;
          Some (if e = None then Some (e_entry buf) else None, release_buf file_buf (k\<lparr>k_pg := pg\<rparr>), sysfs, sp) } })"

datatype elf_loader = Rust | Cpp

definition LoadElf :: "elf_loader \<Rightarrow> Kernel \<Rightarrow> 'd FAT32Driver option \<Rightarrow> spaces \<Rightarrow> bytes \<Rightarrow>
    (u64 option \<times> Kernel \<times> 'd FAT32Driver option \<times> spaces) option" where
  "LoadElf ldr k sysfs sp filename =
     (if ldr = Rust then rust_elf_load k sysfs sp filename
      else if sysfs = None then Some (None, k, None, sp)
      else
        let (file_buf, mm) = Allocate (kmem k) (ucast kBufSize); k = set_mem k mm
        in do {
          (file_size, buf, sysfs) \<leftarrow> read_file sysfs filename;
          if file_size = 0 \<or> \<not> is_elf buf file_size then Some (None, release_buf file_buf k, sysfs, sp)
          else do {
            (e, pg, sp) \<leftarrow> load_segments True buf (cpp_headers buf) (k_pg k) sp;
            Some (if e = None then Some (e_entry buf) else None, release_buf file_buf (k\<lparr>k_pg := pg\<rparr>), sysfs, sp) } })"

section \<open>Running an application\<close>

text \<open>
  The global state that starting an application sets: \<open>g_app_running\<close>, \<open>g_syscall_context\<close> with its
  \<open>kernel_stack_ptr\<close>, and the model specific registers. The task state segment is the one of theory \<open>Cpu\<close>.
\<close>

record AppEnv =
  g_app_running :: bool
  g_syscall_context :: u64
  kernel_stack_ptr :: u64
  msr :: "u32 \<Rightarrow> u64"

definition kMSR_GS_BASE :: u32 where
  "kMSR_GS_BASE = 0xC0000101"

definition kMSR_KERNEL_GS_BASE :: u32 where
  "kMSR_KERNEL_GS_BASE = 0xC0000102"

definition WriteMSR :: "AppEnv \<Rightarrow> u32 \<Rightarrow> u64 \<Rightarrow> AppEnv" where
  "WriteMSR env r v = env\<lparr>msr := (msr env)(r := v)\<rparr>"

text \<open>What \<open>EnterUserMode\<close> is called with.\<close>

record UserEntry =
  ue_rip :: u64
  ue_rsp :: u64
  ue_argc :: int
  ue_argv :: u64

text \<open>
  The arguments of a program on its stack: \<open>setup_args\<close> on what the active table shows; the bytes between
  the new top and the old one are stored through that table.
\<close>

definition place_args :: "PageManager \<Rightarrow> u64 \<Rightarrow> bytes list \<Rightarrow> spaces \<Rightarrow> (u64 \<times> spaces) option" where
  "place_args pg stack_top argv sp =
     do {
       (top, m) \<leftarrow> setup_args stack_top argv (sp (cr3 pg));
       sp \<leftarrow> store_bytes pg top (mem_load m top (unat (stack_top - top))) sp;
       Some (top, sp) }"

text \<open>
  \<open>LoadAndRun\<close> up to the switch to user mode, where no \<open>UserEntry\<close> is the result false. The
  flag is set at the start and cleared after the return from user mode only.
\<close>

definition LoadAndRun :: "Kernel \<Rightarrow> 'd FAT32Driver option \<Rightarrow> spaces \<Rightarrow> AppEnv \<Rightarrow> bytes \<Rightarrow> bytes list \<Rightarrow>
    (UserEntry option \<times> Kernel \<times> 'd FAT32Driver option \<times> spaces \<times> AppEnv) option" where
  "LoadAndRun k sysfs sp env filename argv =
     (let env = env\<lparr>g_app_running := True\<rparr> in do {
        (entry, k, sysfs, sp) \<leftarrow> LoadElf Cpp k sysfs sp filename;
        case entry of
          None \<Rightarrow> Some (None, k, sysfs, sp, env)
        | Some ep \<Rightarrow>
            let stack_addr = 0x70000000; stack_size = 16 * 4096;
                (ok, pg) = AllocateVirtual (k_pg k) (stack_addr - stack_size) stack_size user_flags;
                sp = remap (k_pg k) pg sp; k = k\<lparr>k_pg := pg\<rparr>
            in if \<not> ok then Some (None, k, sysfs, sp, env)
               else do {
                 (top, sp) \<leftarrow> place_args pg stack_addr argv sp;
                 Some (Some \<lparr>ue_rip = ep, ue_rsp = top, ue_argc = int (length argv), ue_argv = top\<rparr>,
                       k, sysfs, sp, env) } })"

text \<open>
  The entry of an application task. For anything but an application the task is ended and the
  scheduler called; otherwise CR3 is loaded, the arguments are put on the user stack, the kernel
  stack is set for interrupts (in the task state segment) and for system calls, and user mode is entered.
\<close>

definition AppTaskEntry :: "Kernel \<Rightarrow> Sched \<Rightarrow> spaces \<Rightarrow> AppEnv \<Rightarrow> Cpu \<Rightarrow>
    (UserEntry option \<times> Kernel \<times> Sched \<times> spaces \<times> AppEnv \<times> Cpu) option" where
  "AppTaskEntry k s sp env cpu =
     (let current = current_task (k_tm k); t = tasks (k_tm k) current
      in if current = 0 \<or> \<not> is_app t
         then
           let k = TerminateTask k current;
               s = Schedule (s\<lparr>sch_tm := SetCurrentTask (k_tm k) 0, sch_cpu := (sch_cpu s)\<lparr>ctx_cr3 := cr3 (k_pg k)\<rparr>\<rparr>) False
           in Some (None, k\<lparr>k_tm := sch_tm s, k_pg := (k_pg k)\<lparr>cr3 := ctx_cr3 (sch_cpu s)\<rparr>\<rparr>, s, sp, env, cpu)
         else
           let k = k\<lparr>k_pg := SwitchPageTable (k_pg k) (ctx_cr3 (task_context t))\<rparr>
           in do {
             (top, sp) \<leftarrow> place_args (k_pg k) (user_stack_top t) (map snd (take (nat (task_argc t)) (argv_strs t))) sp;
             let kernel_stack_top = kernel_stack t + kernel_stack_size t;
             let cpu = SetKernelStack kernel_stack_top cpu;
             let env = env\<lparr>g_app_running := True, kernel_stack_ptr := kernel_stack_top\<rparr>;
             let env = WriteMSR (WriteMSR env kMSR_GS_BASE 0) kMSR_KERNEL_GS_BASE (g_syscall_context env);
             Some (Some \<lparr>ue_rip = entry_point t, ue_rsp = top, ue_argc = task_argc t, ue_argv = top\<rparr>, k, s, sp, env, cpu) })"

section \<open>Creating a process\<close>

text \<open>The copies of the argument strings in kernel memory.\<close>

fun copy_argv :: "MemoryManager \<Rightarrow> bytes list \<Rightarrow> (u64 \<times> bytes) list \<times> MemoryManager" where
  "copy_argv mm [] = ([], mm)"
| "copy_argv mm (s # ss) =
     (let (p, mm) = Allocate mm (of_nat (c_strlen s + 1)); (ps, mm) = copy_argv mm ss
      in ((p, cstr s) # ps, mm))"

text \<open>
  The part of \<open>CreateProcess\<close> after the segments are loaded: entry point, arguments, name, and
  the ready queue.
\<close>

definition finish_process :: "Kernel \<Rightarrow> u64 \<Rightarrow> u64 \<Rightarrow> bytes \<Rightarrow> int \<Rightarrow> bytes list \<Rightarrow> Kernel" where
  "finish_process k task entry filename_copy argc argv =
     (let (argvp, strs, mm) =
            (if argc > 0
             then let (p, mm) = Allocate (kmem k) (of_int (8 * (argc + 1))); (strs, mm) = copy_argv mm (take (nat argc) argv)
                  in (p, strs, mm)
             else (0, [], kmem k));
          k = set_mem k mm;
          name = take 31 filename_copy;
          tm = upd_task (k_tm k) task (\<lambda>t. t\<lparr>entry_point := entry, task_argc := argc, argv_ptr := argvp,
                 argv_strs := strs, task_name := buf_put 0 (name @ [0]) (task_name t)\<rparr>)
      in k\<lparr>k_tm := AddToReadyQueue tm task\<rparr>)"

text \<open>
  \<open>CreateProcess\<close> with either loader, for \<open>argc\<close> strings of \<open>argv\<close>; \<open>app_entry\<close> is the address of \<open>AppTaskEntry\<close>.
  The result is the task or null.
\<close>

definition CreateProcess :: "elf_loader \<Rightarrow> u64 \<Rightarrow> Kernel \<Rightarrow> 'd FAT32Driver option \<Rightarrow> spaces \<Rightarrow> bytes \<Rightarrow> int \<Rightarrow>
    bytes list \<Rightarrow> (u64 \<times> Kernel \<times> 'd FAT32Driver option \<times> spaces) option" where
  "CreateProcess ldr app_entry k sysfs sp filename argc argv =
     (let filename_copy = take 255 (cstr filename) in
      if sysfs = None then Some (0, k, None, sp)
      else
        let (file_buf, mm) = Allocate (kmem k) (ucast kBufSize); k = set_mem k mm in
        if file_buf = 0 then Some (0, k, sysfs, sp)
        else do {
          (file_size, buf, sysfs) \<leftarrow> read_file sysfs filename_copy;
          if file_size = 0 \<or> (ldr = Cpp \<and> \<not> is_elf buf file_size) then Some (0, release_buf file_buf k, sysfs, sp)
          else
            let old_pg = k_pg k; (task, k) = CreateAppTask k app_entry 0; sp = remap old_pg (k_pg k) sp in
            if task = 0 then Some (0, release_buf file_buf k, sysfs, sp)
            else do {
              let caller_cr3 = cr3 (k_pg k);
              let pg = SwitchPageTable (k_pg k) (ctx_cr3 (task_context (tasks (k_tm k) task)));
              (load_success, entry, pg, sp) \<leftarrow>
                 (if ldr = Rust then rust_elf_load_from_buffer buf file_size pg sp else cpp_load_from_buffer buf pg sp);
              let k = release_buf file_buf (k\<lparr>k_pg := SwitchPageTable pg caller_cr3\<rparr>);
              if \<not> load_success then Some (0, TerminateTask k task, sysfs, sp)
              else Some (task, finish_process k task entry filename_copy argc argv, sysfs, sp) } })"

section \<open>Failure before a task exists\<close>

lemma set_mem_restore: "set_mem (set_mem k mm) (kmem k) = k" "set_mem k (kmem k) = k"
  by (simp_all add: set_mem_def kmem_def)

lemma buffer_released:
  assumes "mm_inv (kmem k)" "Allocate (kmem k) (ucast kBufSize) = (p, mm)"
  shows "(if p = 0 then set_mem k mm else release_buf p (set_mem k mm)) = k"
proof -
  have adm: "admissible (ucast kBufSize)" by (simp add: admissible_def kBufSize_def)
  show ?thesis
    using mmgr.alloc_null [OF assms(1) adm, of mm] Free_Allocate [OF assms(1) adm assms(2)] assms(2) set_mem_restore
    by (simp add: release_buf_def)
qed

text \<open>
  a program that cannot be read leaves no trace. When the file system returns no data for
  the (truncated) file name, \<open>CreateProcess\<close> with either loader returns null and the kernel
  state is what it was: no task was created and the file buffer is free again.
\<close>

theorem CreateProcess_no_file:
  assumes "mm_inv (kmem k)" and "read_file sysfs (take 255 (cstr filename)) = Some (0, buf, sysfs')"
  shows "\<exists>fs. CreateProcess ldr app_entry k sysfs sp filename argc argv = Some (0, k, fs, sp)"
proof (cases "sysfs = None")
  case True
  then show ?thesis by (simp add: CreateProcess_def)
next
  case False
  obtain p mm where a: "Allocate (kmem k) (ucast kBufSize) = (p, mm)" by fastforce
  show ?thesis
    using False assms(2) a buffer_released [OF assms(1) a]
    by (cases "p = 0") (simp_all add: CreateProcess_def Let_def)
qed

theorem CreateProcess_no_file_witness:
  "\<exists>fs. CreateProcess Rust 0x100000 sample_k None (\<lambda>_ _. 0) [0x61] 0 [] = Some (0, sample_k, fs :: unit FAT32Driver option, \<lambda>_ _. 0)"
  by (rule CreateProcess_no_file [OF sample_k_mem(2)]) (simp add: read_file_def)

section \<open>The image of a program in memory\<close>

text \<open>The segments the loops load.\<close>

fun loads :: "Elf64_Phdr option list \<Rightarrow> Elf64_Phdr list" where
  "loads [] = []"
| "loads (None # hs) = loads hs"
| "loads (Some ph # hs) = (if p_type ph = 1 then ph # loads hs else loads hs)"

definition seg_image :: "bytes \<Rightarrow> Elf64_Phdr \<Rightarrow> bytes" where
  "seg_image buf ph = buf_get (unat (p_offset ph)) (unat (p_filesz ph)) buf @
     replicate (unat (p_memsz ph) - unat (p_filesz ph)) 0"

definition seg_len :: "Elf64_Phdr \<Rightarrow> nat" where
  "seg_len ph = max (unat (p_filesz ph)) (unat (p_memsz ph))"

text \<open>The data is inside the file buffer and the segment does not wrap around the address space.\<close>

definition seg_fits :: "bytes \<Rightarrow> Elf64_Phdr \<Rightarrow> bool" where
  "seg_fits buf ph \<longleftrightarrow> unat (p_offset ph) + unat (p_filesz ph) \<le> length buf \<and> unat (p_vaddr ph) + seg_len ph \<le> 2 ^ 64"

definition seg_disjoint :: "Elf64_Phdr \<Rightarrow> Elf64_Phdr \<Rightarrow> bool" where
  "seg_disjoint a b \<longleftrightarrow> span (p_vaddr a) (seg_len a) \<inter> span (p_vaddr b) (seg_len b) = {}"

lemma length_seg_image: "seg_fits buf ph \<Longrightarrow> length (seg_image buf ph) = seg_len ph"
  by (auto simp: seg_fits_def seg_image_def seg_len_def buf_simps)

lemma mem_write_append:
  "mem_write a (xs @ ys) m = mem_write (a + of_nat (length xs)) ys (mem_write a xs m)"
  by (induction xs arbitrary: a m) (simp_all add: add.assoc)

lemma program_headers_inside:
  assumes "unat (e_phoff buf) < 2 ^ 63" and "unat file_size \<le> length buf"
  shows "None \<notin> set (get_program_headers buf file_size)"
proof -
  have inside: "phdr_at buf off \<noteq> None"
    if i: "i < unat (e_phnum buf)" and off: "off = e_phoff buf + of_nat i * ucast (e_phentsize buf)"
      and le: "off + of_nat sizeof_Phdr \<le> ucast file_size" for i and off :: u64
  proof -
    let ?s = "unat (e_phentsize buf)"
    have "unat (e_phnum buf) < 2 ^ 16" "?s < 2 ^ 16" using unsigned_less [of "e_phnum buf"] unsigned_less [of "e_phentsize buf"] by simp_all
    then have small: "i * ?s \<le> 2 ^ 16 * 2 ^ 16" using i by (intro mult_le_mono) simp_all
    have "(of_nat i * ucast (e_phentsize buf) :: u64) = of_nat (i * ?s)" by simp
    then have "unat off = unat (e_phoff buf) + i * ?s"
      unfolding off using assms(1) small by (simp only:) (rule unat_off, simp)
    then have "unat (off + of_nat sizeof_Phdr) = unat off + sizeof_Phdr"
      using assms(1) small by (intro unat_off) (simp add: sizeof_Phdr_def)
    moreover have "unat (ucast file_size :: u64) = unat file_size" by (simp add: unsigned_ucast_eq take_bit_nat_eq_self unsigned_less)
    ultimately have "unat off + sizeof_Phdr \<le> length buf"
      using le assms(2) by (simp add: word_le_nat_alt)
    then show ?thesis by (simp add: phdr_at_def)
  qed
  show ?thesis
  proof
    assume "None \<in> set (get_program_headers buf file_size)"
    then obtain i where "i < unat (e_phnum buf)"
      "e_phoff buf + of_nat i * ucast (e_phentsize buf) + of_nat sizeof_Phdr \<le> ucast file_size"
      "phdr_at buf (e_phoff buf + of_nat i * ucast (e_phentsize buf)) = None"
      by (auto simp: get_program_headers_def Let_def eq_commute [of None])
    then show False using inside [OF _ refl] by blast
  qed
qed

section \<open>The pages of a segment\<close>

definition seg_count :: "Elf64_Phdr \<Rightarrow> nat" where
  "seg_count ph = unat ((seg_alloc ph + kPageSize4K - 1) div kPageSize4K)"

definition seg_area :: "Elf64_Phdr \<Rightarrow> nat set" where
  "seg_area ph = {unat (seg_start ph)..<unat (seg_start ph) + seg_count ph * 4096}"

text \<open>The data is inside the file buffer and part of the segment; the segment lies in the lower half of the address space.\<close>

definition seg_ok :: "bytes \<Rightarrow> Elf64_Phdr \<Rightarrow> bool" where
  "seg_ok buf ph \<longleftrightarrow> unat (p_offset ph) + unat (p_filesz ph) \<le> length buf \<and> p_filesz ph \<le> p_memsz ph \<and>
     unat (p_vaddr ph) + unat (p_memsz ph) + 4095 < 2 ^ 48"

lemma seg_pages:
  assumes "unat (p_vaddr ph) + unat (p_memsz ph) + 4095 < B" "B \<le> 2 ^ 63"
  shows "unat (seg_start ph) mod 4096 = 0"
    and "unat (seg_start ph) + seg_count ph * 4096 \<le> B"
    and "span (p_vaddr ph) (unat (p_memsz ph)) \<subseteq> seg_area ph"
proof -
  let ?v = "unat (p_vaddr ph)"
  let ?e = "?v + unat (p_memsz ph) + 4095"
  have s: "unat (seg_start ph) = ?v - ?v mod 4096" unfolding seg_start_def by (rule align4096)
  have "unat (p_vaddr ph + p_memsz ph) = ?v + unat (p_memsz ph)"
    using unat_off [of "p_vaddr ph" "unat (p_memsz ph)"] assms by simp
  then have "unat (p_vaddr ph + p_memsz ph + 0xFFF) = ?e"
    using unat_off [of "p_vaddr ph + p_memsz ph" 4095] assms by simp
  then have e: "unat ((p_vaddr ph + p_memsz ph + 0xFFF) AND NOT 0xFFF) = ?e - ?e mod 4096"
    by (simp only: align4096)
  have le: "?v - ?v mod 4096 \<le> ?e - ?e mod 4096"
    by (simp add: minus_mod_eq_mult_div div_le_mono)
  then have a: "unat (seg_alloc ph) = (?e - ?e mod 4096) - (?v - ?v mod 4096)"
    unfolding seg_alloc_def using s e by (subst unat_sub) (simp_all add: word_le_nat_alt)
  have d: "4096 dvd ?e - ?e mod 4096" "4096 dvd ?v - ?v mod 4096" by (rule dvd_minus_mod)+
  then have "4096 dvd unat (seg_alloc ph)" unfolding a by (rule dvd_diff_nat)
  then obtain k where k: "unat (seg_alloc ph) = 4096 * k" by (elim dvdE)
  have "unat (seg_alloc ph) \<le> ?e" using a by simp
  then have "unat (seg_alloc ph + of_nat 4095) = unat (seg_alloc ph) + 4095"
    using assms by (intro unat_off) simp
  moreover have "seg_alloc ph + kPageSize4K - 1 = seg_alloc ph + of_nat 4095" by (simp add: kPageSize4K_def)
  ultimately have "seg_count ph = (4096 * k + 4095) div 4096"
    unfolding seg_count_def by (simp only: unat_div k) (simp add: kPageSize4K_def)
  then have n: "seg_count ph = k" by simp
  show "unat (seg_start ph) mod 4096 = 0" using s d(2) by (simp only: dvd_eq_mod_eq_0)
  have ends: "unat (seg_start ph) + seg_count ph * 4096 = ?e - ?e mod 4096"
    using k unfolding s n mult.commute [of k] by (simp only: k [symmetric] a le_add_diff_inverse [OF le])
  then show "unat (seg_start ph) + seg_count ph * 4096 \<le> B" using assms by simp
  have "?e mod 4096 \<le> 4095" using mod_less_divisor [of 4096 ?e] by simp
  then have "?v + unat (p_memsz ph) \<le> ?e - ?e mod 4096" by linarith
  then show "span (p_vaddr ph) (unat (p_memsz ph)) \<subseteq> seg_area ph"
    using s ends by (auto simp: span_def seg_area_def)
qed

lemma handed_out_used: "handed_out pg pg' p \<longleftrightarrow> p \<notin> used pg \<and> p \<in> used pg'"
  by (simp add: handed_out_def used_def used_frames_def)

text \<open>The bytes of a frame.\<close>

lemma frame_byte:
  assumes "GetAddress f = (f :: u64)"
  shows "unat (f OR take_bit 12 x) div 4096 = unat f div 4096" and "take_bit 12 (f OR take_bit 12 x) = take_bit 12 x"
proof -
  have low: "\<not> bit f n" if "n < 12" for n
    using that arg_cong [OF assms, of "\<lambda>v. bit v n"] by (simp add: bit_GetAddress)
  have div: "unat w div 4096 = unat (drop_bit 12 w)" for w :: u64 by (simp add: drop_bit_eq_div unat_word_div)
  have "drop_bit 12 (f OR take_bit 12 x) = drop_bit 12 f"
    by (rule bit_word_eqI) (simp add: bit_drop_bit_eq bit_or_iff bit_take_bit_iff)
  then show "unat (f OR take_bit 12 x) div 4096 = unat f div 4096" by (simp add: div)
  show "take_bit 12 (f OR take_bit 12 x) = take_bit 12 x"
    by (rule bit_word_eqI) (use low in \<open>auto simp: bit_or_iff bit_take_bit_iff\<close>)
qed

text \<open>What \<open>AllocateVirtual\<close> does to the pages of a segment: each address gets a byte of its own in new memory.\<close>

definition fresh_area :: "PageManager \<Rightarrow> PageManager \<Rightarrow> u64 \<Rightarrow> nat set \<Rightarrow> (u64 \<Rightarrow> u64) \<Rightarrow> bool" where
  "fresh_area pg pg' r A t \<longleftrightarrow> inj_on t {x. unat x \<in> A} \<and>
     (\<forall>x. unat x \<in> A \<longrightarrow> translate (frames pg') r x = Some (t x) \<and> t x \<notin> used pg \<and> t x \<in> used pg') \<and>
     (\<forall>x. unat x < 2 ^ 48 \<longrightarrow> unat x \<notin> A \<longrightarrow> translate (frames pg') r x = translate (frames pg) r x)"

lemma frame_index:
  assumes "unat x \<in> {s..<s + n * 4096}" "s mod 4096 = 0"
  obtains j where "j < n" "s + j * 4096 \<le> unat x" "unat x < s + Suc j * 4096" "unat x = s + j * 4096 + unat x mod 4096"
proof
  let ?j = "(unat x - s) div 4096"
  have x: "unat x = s + ?j * 4096 + (unat x - s) mod 4096" using assms(1) by simp
  have "(unat x - s) mod 4096 = unat x mod 4096" using assms by (metis atLeastLessThan_iff dvd_eq_mod_eq_0 le_add_diff_inverse mod_add_left_eq add_0)
  then show "unat x = s + ?j * 4096 + unat x mod 4096" using x by simp
  show "?j < n" using assms(1) by (auto simp: div_less_iff_less_mult)
  show "s + ?j * 4096 \<le> unat x" "unat x < s + Suc ?j * 4096" using x mod_less_divisor [of 4096 "unat x - s"] by simp_all
qed

lemma seg_allocated:
  assumes "pages_ok k pg" "k = pml4_table pg" "unat (p_vaddr ph) + unat (p_memsz ph) + 4095 < 2 ^ 48"
    and "4 * seg_count ph \<le> free_count pg"
  obtains pg' t where "AllocateVirtual pg (seg_start ph) (seg_alloc ph) user_flags = (True, pg')"
    "pages_ok k pg'" "pml4_table pg' = k" "cr3 pg' = cr3 pg" "free_count pg \<le> free_count pg' + 4 * seg_count ph"
    "used pg \<subseteq> used pg'" "fresh_area pg pg' k (seg_area ph) t"
proof -
  let ?s = "seg_start ph" and ?n = "seg_count ph"
  note P = seg_pages [OF assms(3), simplified]
  have "unat (?s mod kPageSize4K) = 0" using P(1) by (simp add: unat_word_mod kPageSize4K_def)
  then have al: "?s mod kPageSize4K = 0" by (simp only: unsigned_eq_0_iff)
  obtain ok pg' where loop: "alloc_virtual_loop user_flags pg ?s ?n 0 = (ok, pg')" by fastforce
  have bound: "unat ?s + ?n * 4096 \<le> 2 ^ 48" using P(2) by simp
  obtain f where f: "backs k pg pg' 0 ?n f"
    "translate (frames pg') k = fold (\<lambda>j. mapped user_flags (page_addr ?s j) (f j)) [0..<?n] (translate (frames pg) k)"
    and A: "ok" "pages_ok k pg'" "evolves_in k (page_addr ?s ` {0..<?n}) pg pg'" "pml4_table pg' = k" "cr3 pg' = cr3 pg"
      "free_count pg \<le> free_count pg' + 4 * ?n"
    using alloc_virtual_spec [OF assms(1,2) P(1) bound _ _ loop] assms(4) by auto
  have fl: "user_flags AND kPresent \<noteq> 0" by (simp add: user_flags_def kPresent_def kWritable_def kUser_def)
  define t where "t x = f ((unat x - unat ?s) div 4096) OR take_bit 12 x" for x
  have fj: "f j \<notin> used pg" "f j \<in> used pg'" "GetAddress (f j) = f j" if "j < ?n" for j using f(1) that by (auto simp: backs_def)
  have inj: "inj_on f {0..<?n}" using f(1) by (simp add: backs_def)
  have tx: "translate (frames pg') k x = Some (t x) \<and> t x \<notin> used pg \<and> t x \<in> used pg'" if x: "unat x \<in> seg_area ph" for x
  proof -
    obtain j where j: "j < ?n" "unat ?s + j * 4096 \<le> unat x" "unat x < unat ?s + Suc j * 4096"
      using frame_index [OF x [unfolded seg_area_def] P(1)] by metis
    have q: "(unat x - unat ?s) div 4096 = j" using j(2,3) by (intro div_nat_eqI) simp_all
    have "Suc j * 4096 \<le> ?n * 4096" using j(1) by (intro mult_le_mono1) simp
    then have "unat x < 2 ^ 48" using j(3) bound by simp
    then have "translate (frames pg') k x = Some (t x)"
      using fold_mapped_page [OF P(1) bound _ fl j] f(2) fj(3) [OF j(1)] by (simp add: t_def q)
    moreover have "t x \<in> used p \<longleftrightarrow> f j \<in> used p" for p
      using frame_byte(1) [OF fj(3) [OF j(1)]] by (simp add: t_def q used_def kFrameSize_def)
    ultimately show ?thesis using fj [OF j(1)] by simp
  qed
  have "inj_on t {x. unat x \<in> seg_area ph}"
  proof (rule inj_onI)
    fix x y assume "x \<in> {x. unat x \<in> seg_area ph}" "y \<in> {x. unat x \<in> seg_area ph}" and eq: "t x = t y"
    then have x: "unat x \<in> seg_area ph" and y: "unat y \<in> seg_area ph" by simp_all
    obtain i where i: "i < ?n" "unat x = unat ?s + i * 4096 + unat x mod 4096" using frame_index [OF x [unfolded seg_area_def] P(1)] by metis
    obtain j where j: "j < ?n" "unat y = unat ?s + j * 4096 + unat y mod 4096" using frame_index [OF y [unfolded seg_area_def] P(1)] by metis
    have qi: "(unat x - unat ?s) div 4096 = i" using i(2) mod_less_divisor [of 4096 "unat x"] by (intro div_nat_eqI) simp_all
    have qj: "(unat y - unat ?s) div 4096 = j" using j(2) mod_less_divisor [of 4096 "unat y"] by (intro div_nat_eqI) simp_all
    have t: "f i OR take_bit 12 x = f j OR take_bit 12 y" using eq by (simp add: t_def qi qj)
    have "take_bit 12 x = take_bit 12 y" using arg_cong [OF t, of "take_bit 12"] frame_byte(2) fj(3) i(1) j(1) by simp
    moreover have "unat z mod 4096 = unat (take_bit 12 z)" for z :: u64 by (simp add: take_bit_eq_mod unat_word_mod)
    ultimately have low: "unat x mod 4096 = unat y mod 4096" by simp
    have "GetAddress (f i OR take_bit 12 x) = GetAddress (f j OR take_bit 12 y)" using t by simp
    moreover have "GetAddress (f l OR take_bit 12 z) = f l" if "l < ?n" for l z
    proof (rule bit_word_eqI)
      fix n assume "n < LENGTH(64)"
      have "bit (GetAddress (f l)) n = bit (f l) n" using fj(3) [OF that] by simp
      then show "bit (GetAddress (f l OR take_bit 12 z)) n = bit (f l) n"
        by (auto simp: bit_GetAddress bit_or_iff bit_take_bit_iff)
    qed
    ultimately have "f i = f j" using i(1) j(1) by simp
    then have "i = j" using inj i(1) j(1) by (simp add: inj_on_def)
    then show "x = y" using i(2) j(2) low by (metis word_unat_eq_iff)
  qed
  moreover have "translate (frames pg') k x = translate (frames pg) k x" if "unat x < 2 ^ 48" "unat x \<notin> seg_area ph" for x
    using fold_mapped_outside [OF P(1) bound that(1)] that(2) f(2) by (simp add: seg_area_def not_less)
  ultimately have "fresh_area pg pg' k (seg_area ph) t" using tx by (simp add: fresh_area_def)
  moreover have "AllocateVirtual pg ?s (seg_alloc ph) user_flags = (True, pg')"
    using al loop A(1) by (simp add: AllocateVirtual_def seg_count_def)
  ultimately show thesis using that A(2,4-6) evolves_in_used [OF A(3)] by blast
qed

section \<open>Stores\<close>

lemma store_bytes_append:
  "store_bytes pg a (xs @ ys) sp = Option.bind (store_bytes pg a xs sp) (store_bytes pg (a + of_nat (length xs)) ys)"
  by (induction xs arbitrary: a sp) (simp_all add: add.assoc split: bind_split)

lemma store_bytes_spec:
  assumes "\<And>i. i < length bs \<Longrightarrow> translate (frames pg) (cr3 pg) (a + of_nat i) = Some (t i)" "inj_on t {..<length bs}"
  shows "\<exists>sp'. store_bytes pg a bs sp = Some sp' \<and>
    (\<forall>r x. (\<forall>i<length bs. translate (frames pg) r x \<noteq> Some (t i)) \<longrightarrow> sp' r x = sp r x) \<and>
    (\<forall>r x i. i < length bs \<longrightarrow> translate (frames pg) r x = Some (t i) \<longrightarrow> sp' r x = bs ! i)"
  using assms
proof (induction bs arbitrary: a t sp)
  case (Cons b bs)
  define sp1 where "sp1 = (\<lambda>r x. if translate (frames pg) r x = Some (t 0) then b else sp r x)"
  have one: "store_byte pg a b sp = Some sp1" using Cons.prems(1) [of 0] by (simp add: store_byte_def sp1_def)
  have "translate (frames pg) (cr3 pg) (a + 1 + of_nat i) = Some ((t \<circ> Suc) i)" if "i < length bs" for i
    using Cons.prems(1) [of "Suc i"] that by (simp add: add.assoc)
  moreover have "inj_on (t \<circ> Suc) {..<length bs}" using Cons.prems(2) by (auto simp: inj_on_def)
  ultimately obtain sp' where IH: "store_bytes pg (a + 1) bs sp1 = Some sp'"
    "\<And>r x. \<forall>i<length bs. translate (frames pg) r x \<noteq> Some (t (Suc i)) \<Longrightarrow> sp' r x = sp1 r x"
    "\<And>r x i. i < length bs \<Longrightarrow> translate (frames pg) r x = Some (t (Suc i)) \<Longrightarrow> sp' r x = bs ! i"
    using Cons.IH [of "a + 1" "t \<circ> Suc" sp1] unfolding comp_def by blast
  have "sp' r x = (b # bs) ! i" if i: "i < Suc (length bs)" "translate (frames pg) r x = Some (t i)" for r x i
  proof (cases i)
    case 0
    have "t 0 \<noteq> t (Suc j)" if "j < length bs" for j using Cons.prems(2) that by (auto simp: inj_on_def)
    then show ?thesis using IH(2) [of r x] i(2) 0 by (auto simp: sp1_def)
  qed (use IH(3) i in simp)
  moreover have "sp' r x = sp r x" if "\<forall>i<Suc (length bs). translate (frames pg) r x \<noteq> Some (t i)" for r x
  proof -
    have "\<forall>i<length bs. translate (frames pg) r x \<noteq> Some (t (Suc i))" "translate (frames pg) r x \<noteq> Some (t 0)" using that by auto
    then show ?thesis using IH(2) [of r x] by (simp add: sp1_def)
  qed
  ultimately show ?case using one IH(1) by (intro exI [of _ sp']) simp
qed simp

section \<open>The image of a program\<close>

text \<open>What the pages of a segment hold after it is loaded.\<close>

definition seg_byte :: "bytes \<Rightarrow> Elf64_Phdr \<Rightarrow> u64 \<Rightarrow> u8" where
  "seg_byte buf ph x =
     (if unat x \<in> span (p_vaddr ph) (unat (p_filesz ph)) then buf ! (unat (p_offset ph) + (unat x - unat (p_vaddr ph))) else 0)"

lemma copy_segment_stores:
  assumes "seg_ok buf ph"
  shows "copy_segment buf ph pg sp = store_bytes pg (p_vaddr ph) (seg_image buf ph) sp"
proof -
  have len: "length (buf_get (unat (p_offset ph)) (unat (p_filesz ph)) buf) = unat (p_filesz ph)"
    using assms by (simp add: seg_ok_def buf_simps)
  have "p_filesz ph < p_memsz ph \<or> p_filesz ph = p_memsz ph" using assms by (auto simp: seg_ok_def)
  then show ?thesis
  proof
    assume "p_filesz ph < p_memsz ph"
    then show ?thesis using assms
      by (simp add: copy_segment_def seg_ok_def seg_image_def store_bytes_append len unat_sub)
  qed (use assms in \<open>simp add: copy_segment_def seg_ok_def seg_image_def bind_rzero\<close>)
qed

lemma seg_image_byte:
  assumes "seg_ok buf ph" "unat x \<in> span (p_vaddr ph) (unat (p_memsz ph))"
  shows "seg_image buf ph ! (unat x - unat (p_vaddr ph)) = seg_byte buf ph x"
  using assms nth_buf_get [of "unat x - unat (p_vaddr ph)" "unat (p_filesz ph)" "unat (p_offset ph)" buf]
  by (auto simp: seg_image_def seg_byte_def span_def nth_append seg_ok_def buf_simps word_le_nat_alt)

lemma length_seg_image_ok: "seg_ok buf ph \<Longrightarrow> length (seg_image buf ph) = unat (p_memsz ph)"
  by (auto simp: seg_ok_def seg_image_def buf_simps word_le_nat_alt)

definition seg_loaded :: "bytes \<Rightarrow> u64 \<Rightarrow> PageManager \<Rightarrow> spaces \<Rightarrow> Elf64_Phdr \<Rightarrow> bool" where
  "seg_loaded buf k pg sp ph \<longleftrightarrow> (\<forall>x. unat x \<in> seg_area ph \<longrightarrow>
     (\<exists>p. translate (frames pg) k x = Some p \<and> p \<in> used pg) \<and> sp k x = seg_byte buf ph x)"

text \<open>Outside \<open>A\<close>, what lies in memory that was in use is mapped and shown as before.\<close>

definition kept_outside :: "nat set \<Rightarrow> u64 \<Rightarrow> PageManager \<Rightarrow> spaces \<Rightarrow> PageManager \<Rightarrow> spaces \<Rightarrow> bool" where
  "kept_outside A k pg sp pg' sp' \<longleftrightarrow> used pg \<subseteq> used pg' \<and>
     (\<forall>x p. unat x < 2 ^ 48 \<longrightarrow> unat x \<notin> A \<longrightarrow> translate (frames pg) k x = Some p \<longrightarrow> p \<in> used pg \<longrightarrow>
        translate (frames pg') k x = Some p \<and> sp' k x = sp k x)"

lemma kept_outside_trans:
  "kept_outside A k pg sp pg1 sp1 \<Longrightarrow> kept_outside B k pg1 sp1 pg2 sp2 \<Longrightarrow> kept_outside (A \<union> B) k pg sp pg2 sp2"
  unfolding kept_outside_def by (auto 0 4)

lemma seg_area_low: "seg_ok buf ph \<Longrightarrow> unat x \<in> seg_area ph \<Longrightarrow> unat x < 2 ^ 48"
  using seg_pages(2) [of ph "2 ^ 48"] by (simp add: seg_ok_def seg_area_def)

lemma kept_loaded:
  assumes "kept_outside A k pg sp pg' sp'" "seg_loaded buf k pg sp ph" "seg_ok buf ph" "seg_area ph \<inter> A = {}"
  shows "seg_loaded buf k pg' sp' ph"
proof -
  have "(\<exists>p. translate (frames pg') k x = Some p \<and> p \<in> used pg') \<and> sp' k x = seg_byte buf ph x" if x: "unat x \<in> seg_area ph" for x
  proof -
    obtain p where p: "translate (frames pg) k x = Some p" "p \<in> used pg" "sp k x = seg_byte buf ph x"
      using assms(2) x by (auto simp: seg_loaded_def)
    moreover have "unat x \<notin> A" using x assms(4) by blast
    ultimately show ?thesis
      using assms(1) seg_area_low [OF assms(3) x] unfolding kept_outside_def by (metis subsetD)
  qed
  then show ?thesis by (simp add: seg_loaded_def)
qed

lemma load_segment_image:
  assumes "pages_ok k pg" "k = pml4_table pg" "cr3 pg = k" "seg_ok buf ph" "4 * seg_count ph \<le> free_count pg"
  obtains pg' sp' where "load_segment buf ph pg sp = Some (None, pg', sp')" "pages_ok k pg'" "pml4_table pg' = k" "cr3 pg' = k"
    "free_count pg \<le> free_count pg' + 4 * seg_count ph" "seg_loaded buf k pg' sp' ph" "kept_outside (seg_area ph) k pg sp pg' sp'"
proof -
  have low: "unat (p_vaddr ph) + unat (p_memsz ph) + 4095 < 2 ^ 48" using assms(4) by (simp add: seg_ok_def)
  obtain pg' t where A: "AllocateVirtual pg (seg_start ph) (seg_alloc ph) user_flags = (True, pg')"
    "pages_ok k pg'" "pml4_table pg' = k" "cr3 pg' = cr3 pg" "free_count pg \<le> free_count pg' + 4 * seg_count ph"
    "used pg \<subseteq> used pg'" and F: "fresh_area pg pg' k (seg_area ph) t"
    using seg_allocated [OF assms(1,2) low assms(5)] .
  define sp1 where "sp1 = remap pg pg' sp"
  have tr: "translate (frames pg') k x = Some (t x)" "t x \<notin> used pg" "t x \<in> used pg'" if "unat x \<in> seg_area ph" for x
    using F that by (simp_all add: fresh_area_def)
  have inj: "inj_on t {x. unat x \<in> seg_area ph}" using F by (simp add: fresh_area_def)
  have len: "length (seg_image buf ph) = unat (p_memsz ph)" by (rule length_seg_image_ok [OF assms(4)])
  have at: "unat (p_vaddr ph + of_nat i) = unat (p_vaddr ph) + i" "unat (p_vaddr ph + of_nat i) \<in> seg_area ph"
    if "i < unat (p_memsz ph)" for i
  proof -
    show u: "unat (p_vaddr ph + of_nat i) = unat (p_vaddr ph) + i" using low that by (intro unat_off) simp
    show "unat (p_vaddr ph + of_nat i) \<in> seg_area ph" unfolding u using seg_pages(3) [OF low] that by (auto simp: span_def)
  qed
  define ti where "ti i = t (p_vaddr ph + of_nat i)" for i
  have "translate (frames pg') (cr3 pg') (p_vaddr ph + of_nat i) = Some (ti i)" if "i < length (seg_image buf ph)" for i
    using tr(1) at(2) that len A(4) assms(3) by (simp add: ti_def)
  moreover have "inj_on ti {..<length (seg_image buf ph)}"
  proof (rule inj_onI)
    fix i j assume ij: "i \<in> {..<length (seg_image buf ph)}" "j \<in> {..<length (seg_image buf ph)}" "ti i = ti j"
    then have m: "i < unat (p_memsz ph)" "j < unat (p_memsz ph)" and eq: "t (p_vaddr ph + of_nat i) = t (p_vaddr ph + of_nat j)"
      using len by (simp_all add: ti_def)
    have "p_vaddr ph + of_nat i = p_vaddr ph + of_nat j"
      by (rule inj_onD [OF inj eq]) (rule CollectI, rule at(2) [OF m(1)], rule CollectI, rule at(2) [OF m(2)])
    then have "unat (p_vaddr ph + of_nat i) = unat (p_vaddr ph + of_nat j)" by (simp only:)
    then show "i = j" unfolding at(1) [OF m(1)] at(1) [OF m(2)] by simp
  qed
  ultimately obtain sp' where S: "store_bytes pg' (p_vaddr ph) (seg_image buf ph) sp1 = Some sp'"
    "\<And>r x. \<forall>i<unat (p_memsz ph). translate (frames pg') r x \<noteq> Some (ti i) \<Longrightarrow> sp' r x = sp1 r x"
    "\<And>r x i. i < unat (p_memsz ph) \<Longrightarrow> translate (frames pg') r x = Some (ti i) \<Longrightarrow> sp' r x = seg_image buf ph ! i"
    using store_bytes_spec [of "seg_image buf ph" pg' "p_vaddr ph" ti sp1] len by auto
  have res: "load_segment buf ph pg sp = Some (None, pg', sp')"
    using A(1) S(1) copy_segment_stores [OF assms(4), of pg' sp1] by (simp add: load_segment_def sp1_def)
  have zero: "sp1 k x = 0" if "unat x \<in> seg_area ph" for x
    using tr [OF that] by (simp add: sp1_def remap_def handed_out_used)
  have "sp' k x = seg_byte buf ph x" if x: "unat x \<in> seg_area ph" for x
  proof (cases "unat x \<in> span (p_vaddr ph) (unat (p_memsz ph))")
    case True
    let ?i = "unat x - unat (p_vaddr ph)"
    have i: "?i < unat (p_memsz ph)" and "unat (p_vaddr ph + of_nat ?i) = unat x" using True at(1) [of ?i] by (auto simp: span_def)
    then have "p_vaddr ph + of_nat ?i = x" by (simp only: word_unat_eq_iff)
    then have "translate (frames pg') k x = Some (ti ?i)" using tr(1) [OF x] by (simp only: ti_def)
    then show ?thesis using S(3) [OF i] seg_image_byte [OF assms(4) True] by simp
  next
    case False
    have "translate (frames pg') k x \<noteq> Some (ti i)" if i: "i < unat (p_memsz ph)" for i
    proof
      assume "translate (frames pg') k x = Some (ti i)"
      then have "t x = t (p_vaddr ph + of_nat i)" using tr(1) [OF x] by (simp add: ti_def)
      then have "x = p_vaddr ph + of_nat i" using inj x at(2) [OF i] by (simp add: inj_on_def)
      then show False using False at(1) [OF i] i by (simp add: span_def)
    qed
    then have "sp' k x = 0" using S(2) zero [OF x] by simp
    moreover have "unat x \<notin> span (p_vaddr ph) (unat (p_filesz ph))"
      using False assms(4) by (auto simp: span_def seg_ok_def word_le_nat_alt)
    ultimately show ?thesis by (simp add: seg_byte_def)
  qed
  then have loaded: "seg_loaded buf k pg' sp' ph" using tr by (auto simp: seg_loaded_def)
  have "translate (frames pg') k x = Some p \<and> sp' k x = sp k x"
    if x: "unat x < 2 ^ 48" "unat x \<notin> seg_area ph" "translate (frames pg) k x = Some p" "p \<in> used pg" for x p
  proof -
    have tx: "translate (frames pg') k x = Some p" using F x by (simp add: fresh_area_def)
    have "ti i \<noteq> p" if "i < unat (p_memsz ph)" for i using tr(2) [OF at(2) [OF that]] x(4) by (auto simp: ti_def)
    then have "sp' k x = sp1 k x" using S(2) [of k x] tx by auto
    moreover have "k \<in> used pg" using pages_ok_root [OF assms(1)] by simp
    ultimately show ?thesis using tx x(3,4) by (simp add: sp1_def remap_def handed_out_used)
  qed
  then have "kept_outside (seg_area ph) k pg sp pg' sp'" using A(6) by (simp add: kept_outside_def)
  then show thesis using that res loaded A(2-5) assms(3) by simp
qed

lemma loaded_image:
  assumes "seg_ok buf ph" "seg_loaded buf k pg sp ph"
  shows "mem_load (sp k) (p_vaddr ph) (unat (p_memsz ph)) = seg_image buf ph"
    and "unat x \<in> seg_area ph \<Longrightarrow> unat x \<notin> span (p_vaddr ph) (unat (p_memsz ph)) \<Longrightarrow> sp k x = 0"
proof -
  have low: "unat (p_vaddr ph) + unat (p_memsz ph) + 4095 < 2 ^ 48" and fm: "unat (p_filesz ph) \<le> unat (p_memsz ph)"
    using assms(1) by (simp_all add: seg_ok_def word_le_nat_alt)
  have b: "sp k x = seg_byte buf ph x" if "unat x \<in> seg_area ph" for x using assms(2) that by (simp add: seg_loaded_def)
  show "mem_load (sp k) (p_vaddr ph) (unat (p_memsz ph)) = seg_image buf ph"
  proof (rule nth_equalityI)
    show "length (mem_load (sp k) (p_vaddr ph) (unat (p_memsz ph))) = length (seg_image buf ph)"
      by (simp add: length_seg_image_ok [OF assms(1)])
    fix i assume "i < length (mem_load (sp k) (p_vaddr ph) (unat (p_memsz ph)))"
    then have i: "i < unat (p_memsz ph)" by simp
    let ?x = "p_vaddr ph + of_nat i"
    have u: "unat ?x = unat (p_vaddr ph) + i" using low i by (intro unat_off) simp
    then have x: "unat ?x \<in> span (p_vaddr ph) (unat (p_memsz ph))" using i by (simp add: span_def)
    then have "sp k ?x = seg_byte buf ph ?x" using b seg_pages(3) [OF low] by auto
    then show "mem_load (sp k) (p_vaddr ph) (unat (p_memsz ph)) ! i = seg_image buf ph ! i"
      using seg_image_byte [OF assms(1) x] u i by simp
  qed
  show "sp k x = 0" if "unat x \<in> seg_area ph" "unat x \<notin> span (p_vaddr ph) (unat (p_memsz ph))"
    using b [OF that(1)] that(2) fm by (auto simp: seg_byte_def span_def)
qed

text \<open>Segments on different pages.\<close>

definition seg_apart :: "Elf64_Phdr \<Rightarrow> Elf64_Phdr \<Rightarrow> bool" where
  "seg_apart a b \<longleftrightarrow> seg_area a \<inter> seg_area b = {}"

definition in_kernel :: "Elf64_Phdr \<Rightarrow> bool" where
  "in_kernel ph \<longleftrightarrow> p_vaddr ph \<ge> 0x100000 \<and> p_vaddr ph < 0x400000"

lemma load_segments_image:
  assumes "None \<notin> set hs" "\<forall>ph\<in>set (loads hs). seg_ok buf ph \<and> \<not> in_kernel ph" "sorted_wrt seg_apart (loads hs)"
    and "4 * sum_list (map seg_count (loads hs)) \<le> free_count pg" "pages_ok k pg" "k = pml4_table pg" "cr3 pg = k"
  shows "\<exists>pg' sp'. load_segments g buf hs pg sp = Some (None, pg', sp') \<and>
    (\<forall>ph\<in>set (loads hs). seg_loaded buf k pg' sp' ph) \<and> kept_outside (\<Union> (seg_area ` set (loads hs))) k pg sp pg' sp'"
  using assms
proof (induction g buf hs pg sp rule: load_segments.induct)
  case (3 g buf ph hs pg sp)
  show ?case
  proof (cases "p_type ph = 1")
    case False
    then show ?thesis using 3 by simp
  next
    case True
    have ok: "seg_ok buf ph" "\<not> in_kernel ph" "4 * seg_count ph \<le> free_count pg" using 3(4,6) True by simp_all
    obtain pg1 sp1 where one: "load_segment buf ph pg sp = Some (None, pg1, sp1)" "pages_ok k pg1" "pml4_table pg1 = k" "cr3 pg1 = k"
      "free_count pg \<le> free_count pg1 + 4 * seg_count ph" "seg_loaded buf k pg1 sp1 ph" "kept_outside (seg_area ph) k pg sp pg1 sp1"
      by (rule load_segment_image [OF 3(7-9) ok(1,3)])
    have guard: "\<not> (g \<and> p_vaddr ph \<ge> 0x100000 \<and> p_vaddr ph < 0x400000)" using ok(2) by (simp add: in_kernel_def)
    have "4 * sum_list (map seg_count (loads hs)) \<le> free_count pg1" using 3(6) one(5) True by simp
    then obtain pg' sp' where rest: "load_segments g buf hs pg1 sp1 = Some (None, pg', sp')"
      "\<forall>ph\<in>set (loads hs). seg_loaded buf k pg' sp' ph" "kept_outside (\<Union> (seg_area ` set (loads hs))) k pg1 sp1 pg' sp'"
      using 3(2) [OF _ guard one(1) refl refl refl _ _ _ _ one(2) one(3) [symmetric] one(4)] True 3(3-5)
      by (simp del: split_paired_Ex) blast
    have "seg_area ph \<inter> \<Union> (seg_area ` set (loads hs)) = {}" using 3(5) True by (auto simp: seg_apart_def)
    then have "seg_loaded buf k pg' sp' ph" by (rule kept_loaded [OF rest(3) one(6) ok(1)])
    moreover have "kept_outside (seg_area ph \<union> \<Union> (seg_area ` set (loads hs))) k pg sp pg' sp'"
      by (rule kept_outside_trans [OF one(7) rest(3)])
    ultimately show ?thesis using True guard one(1) rest(1,2) by simp
  qed
qed (simp_all add: kept_outside_def)


section \<open>Where the segments are mapped\<close>

definition seg_low :: "Elf64_Phdr \<Rightarrow> bool" where
  "seg_low ph \<longleftrightarrow> unat (p_vaddr ph) + unat (p_memsz ph) + 4095 < 2 ^ 31"

lemma AllocateVirtual_evolves:
  assumes "pages_ok k pg" "k = pml4_table pg" "seg_low ph" "AllocateVirtual pg (seg_start ph) (seg_alloc ph) user_flags = (ok, pg')"
  shows "pages_ok k pg' \<and> evolves_in k low_half pg pg' \<and> pml4_table pg' = k \<and> cr3 pg' = cr3 pg"
proof -
  have low: "unat (p_vaddr ph) + unat (p_memsz ph) + 4095 < 2 ^ 31" using assms(3) by (simp add: seg_low_def)
  note P = seg_pages [OF low, simplified]
  have "unat (seg_start ph mod kPageSize4K) = 0" using P(1) by (simp add: unat_word_mod kPageSize4K_def)
  then have "seg_start ph mod kPageSize4K = 0" by (simp only: unsigned_eq_0_iff)
  then have loop: "alloc_virtual_loop user_flags pg (seg_start ph) (seg_count ph) 0 = (ok, pg')"
    using assms(4) by (simp add: AllocateVirtual_def seg_count_def)
  have b: "unat (seg_start ph) + seg_count ph * 4096 \<le> 2 ^ 31" "unat (seg_start ph) + seg_count ph * 4096 \<le> 2 ^ 48" using P(2) by simp_all
  show ?thesis
    using alloc_virtual_evolves [OF assms(1,2) P(1) b(2) loop] evolves_in_mono [OF _ page_addrs_low [OF b(1)]] by blast
qed

lemma load_segment_evolves:
  assumes "pages_ok k pg" "k = pml4_table pg" "seg_low ph" "load_segment buf ph pg sp = Some (e, pg', sp')"
  shows "pages_ok k pg' \<and> evolves_in k low_half pg pg' \<and> pml4_table pg' = k \<and> cr3 pg' = cr3 pg"
proof -
  obtain ok where "AllocateVirtual pg (seg_start ph) (seg_alloc ph) user_flags = (ok, pg')"
    using assms(4) by (auto simp: load_segment_def Let_def split: prod.splits if_splits)
  then show ?thesis by (rule AllocateVirtual_evolves [OF assms(1-3)])
qed

lemma load_segments_evolves:
  assumes "load_segments g buf hs pg sp = Some (e, pg', sp')" and "pages_ok k pg" "k = pml4_table pg"
    and "\<forall>ph\<in>set (loads hs). seg_low ph"
  shows "pages_ok k pg' \<and> evolves_in k low_half pg pg' \<and> pml4_table pg' = k \<and> cr3 pg' = cr3 pg"
  using assms
proof (induction g buf hs pg sp rule: load_segments.induct)
  case (3 g buf ph hs pg sp)
  consider (skip) "p_type ph \<noteq> 1" | (stop) "p_type ph = 1" "pg' = pg"
    | (fail) e1 where "p_type ph = 1" "load_segment buf ph pg sp = Some (Some e1, pg', sp')"
    | (step) pg1 sp1 where "p_type ph = 1" "\<not> (g \<and> p_vaddr ph \<ge> 0x100000 \<and> p_vaddr ph < 0x400000)"
        "load_segment buf ph pg sp = Some (None, pg1, sp1)" "load_segments g buf hs pg1 sp1 = Some (e, pg', sp')"
    using 3(3) by (auto split: if_splits option.splits prod.splits)
  then show ?case
  proof cases
    case skip
    then show ?thesis using 3(1,3-6) by simp
  next
    case stop
    then show ?thesis using 3(4,5) by simp
  next
    case fail
    then show ?thesis using load_segment_evolves [OF 3(4,5)] 3(6) by auto
  next
    case step
    have one: "pages_ok k pg1 \<and> evolves_in k low_half pg pg1 \<and> pml4_table pg1 = k \<and> cr3 pg1 = cr3 pg"
      using load_segment_evolves [OF 3(4,5) _ step(3)] step(1) 3(6) by simp
    have "pages_ok k pg' \<and> evolves_in k low_half pg1 pg' \<and> pml4_table pg' = k \<and> cr3 pg' = cr3 pg1"
      by (rule 3(2) [OF _ step(2,3) refl refl refl step(4)]) (use one step(1) 3(6) in simp_all)
    then show ?thesis using one evolves_in_trans by metis
  qed
qed simp_all

lemma process_switched:
  assumes "pages_ok (pml4_table pm) pm" and "4 \<le> free_count pm"
    and "walk (frames pm) (pml4_table pm) [0] = Some t3" and "walk (frames pm) (pml4_table pm) [0, 0] = Some t20"
    and "walk (frames pm) (pml4_table pm) [0, 1] = Some t21"
    and "\<And>x. x \<in> low_half \<Longrightarrow> walk (frames pm) (pml4_table pm) (path x) = None"
    and "CreateProcessPageTable pm = (r, pm1)"
  defines "pm1' \<equiv> SwitchPageTable pm1 r"
  shows "pages_ok (pml4_table pm) pm1'" "pml4_table pm = pml4_table pm1'" "cr3 pm1' = r"
    and "evolves_in (pml4_table pm) low_half pm1' pm2 \<Longrightarrow> translate (frames pm2) r w = translate (frames pm) (pml4_table pm) w"
proof -
  let ?k = "pml4_table pm"
  obtain d p0 p1 where pt: "process_table ?k pm r d p0 p1 pm1" and r: "r \<noteq> 0"
    using CreateProcessPageTable_result [OF assms(1-5,7)] by blast
  have pm1': "pm1' = pm1\<lparr>cr3 := r\<rparr>" using r by (simp add: pm1'_def SwitchPageTable_def LoadCR3_def)
  then show "cr3 pm1' = r" by simp
  have tree: "pt_ok (frames pm) ?k (used pm)" using assms(1) by (simp add: pages_ok_def)
  have same: "frames pm1 a = frames pm a" if "a \<in> reach (frames pm) ?k" for a
    using that reach_used [OF tree] pt by (auto simp: process_table_def)
  have "used pm \<subseteq> used pm1" "pages_ok r pm1" "pml4_table pm1 = ?k" using pt by (simp_all add: process_table_def)
  with reach_agree(2) [OF tree same] show "pages_ok ?k pm1'" "?k = pml4_table pm1'"
    by (auto simp: pages_ok_def pm1' mem_ok_def used_def)
  have "exclusive ?k r low_half pm1" by (rule process_table_excludes_kernel [OF assms(1) pt assms(6)])
  then have ex: "exclusive ?k r low_half pm1'" by (simp add: exclusive_def pm1' used_def)
  assume "evolves_in ?k low_half pm1' pm2"
  then have "translate (frames pm2) r w = translate (frames pm1') r w"
    using evolves_in_exclusive [OF _ subset_refl ex] by blast
  then show "translate (frames pm2) r w = translate (frames pm) ?k w" using pt by (simp add: pm1' process_table_def)
qed

text \<open>
  the memory of a new process is not its own. \<open>CreateProcess\<close> loads CR3 with the new page
  table and then calls the loader, but \<open>AllocateVirtual\<close> enters the pages into the table that
  the static \<open>pml4_table_\<close> refers to, which is still the kernel's. When the kernel maps the
  first 2 GB by large pages and the segments lie there, then after the loader every address
  translates under the new process exactly as it did under the kernel before: none of the
  frames allocated for the program is mapped in the process, and the program is copied to the
  physical memory at its virtual addresses.
\<close>

theorem process_segments_in_kernel_table:
  assumes "pages_ok (pml4_table pm) pm" and "4 \<le> free_count pm"
    and "walk (frames pm) (pml4_table pm) [0] = Some t3" and "walk (frames pm) (pml4_table pm) [0, 0] = Some t20"
    and "walk (frames pm) (pml4_table pm) [0, 1] = Some t21"
    and "\<And>x. x \<in> low_half \<Longrightarrow> walk (frames pm) (pml4_table pm) (path x) = None"
    and "CreateProcessPageTable pm = (r, pm1)"
    and "\<forall>ph\<in>set (loads (get_program_headers buf file_size)). seg_low ph"
    and "rust_elf_load_from_buffer buf file_size (SwitchPageTable pm1 r) sp = Some (ok, entry, pm2, sp')"
  shows "translate (frames pm2) r w = translate (frames pm) (pml4_table pm) w"
proof -
  let ?k = "pml4_table pm" and ?pg = "SwitchPageTable pm1 r"
  note S = process_switched [OF assms(1-7)]
  have "evolves_in ?k low_half ?pg pm2"
  proof (cases "file_size = 0 \<or> validate_elf_header buf file_size \<noteq> None")
    case True
    then have "rust_elf_load_from_buffer buf file_size ?pg sp = Some (False, 0, ?pg, sp)"
      by (auto simp: rust_elf_load_from_buffer_def)
    then show ?thesis using assms(9) by simp
  next
    case False
    then obtain e where "load_segments True buf (get_program_headers buf file_size) ?pg sp = Some (e, pm2, sp')"
      using assms(9)
      by (auto simp: rust_elf_load_from_buffer_def split: option.splits prod.splits if_splits)
    then show ?thesis using load_segments_evolves [OF _ S(1,2) assms(8)] by blast
  qed
  then show ?thesis using S(4) by blast
qed

text \<open>
  a segment clears the pages it touches. In the address space of the kernel every byte of these pages that does
  not belong to the segment is zero after it is loaded, also one that another segment has put there before.
\<close>

theorem shared_page_wiped:
  assumes "pages_ok k pg" "k = pml4_table pg" "cr3 pg = k" "seg_ok buf ph" "4 * seg_count ph \<le> free_count pg"
    and "unat x \<in> seg_area ph" "unat x \<notin> span (p_vaddr ph) (unat (p_memsz ph))"
  shows "\<exists>pg' sp'. load_segment buf ph pg sp = Some (None, pg', sp') \<and> sp' k x = 0"
proof -
  obtain pg' sp' where "load_segment buf ph pg sp = Some (None, pg', sp')" "seg_loaded buf k pg' sp' ph"
    using load_segment_image [OF assms(1-5)] by metis
  then show ?thesis using loaded_image(2) [OF assms(4) _ assms(6,7)] by blast
qed

text \<open>A program of one segment: 4 bytes of code at 0x400000 and 12 zero bytes behind them.\<close>

definition sample_elf :: bytes where
  "sample_elf =
     [0x7F, 0x45, 0x4C, 0x46] @ replicate 14 0 @ [62, 0] @ replicate 4 0 @ le64_put 0x400000 @ le64_put 64 @
     replicate 14 0 @ [56, 0, 1, 0] @ replicate 6 0 @
     le32_put 1 @ replicate 4 0 @ le64_put 120 @ le64_put 0x400000 @ replicate 8 0 @ le64_put 4 @ le64_put 16 @
     replicate 8 0 @ [0xF4, 0xEB, 0xFD, 0x90]"

definition sample_phdr :: Elf64_Phdr where
  "sample_phdr = \<lparr>p_type = 1, p_offset = 120, p_vaddr = 0x400000, p_filesz = 4, p_memsz = 16\<rparr>"

lemma sample_elf_headers:
  "length sample_elf = 124" "e_phoff sample_elf = 64" "e_entry sample_elf = 0x400000"
  "get_program_headers sample_elf 124 = [Some sample_phdr]" "validate_elf_header sample_elf 124 = None"
  by code_simp+

lemma sample_segment:
  "seg_start sample_phdr = 0x400000" "seg_alloc sample_phdr = 0x1000" "seg_count sample_phdr = 1"
  "seg_area sample_phdr = {0x400000..<0x401000}" "seg_ok sample_elf sample_phdr" "\<not> in_kernel sample_phdr" "seg_low sample_phdr"
proof -
  show s: "seg_start sample_phdr = 0x400000" and a: "seg_alloc sample_phdr = 0x1000"
    by (simp_all add: seg_start_def seg_alloc_def sample_phdr_def)
  then show c: "seg_count sample_phdr = 1" by (simp add: seg_count_def kPageSize4K_def)
  show "seg_area sample_phdr = {0x400000..<0x401000}" by (simp add: seg_area_def s c)
qed (simp_all add: seg_ok_def in_kernel_def sample_phdr_def sample_elf_headers seg_low_def)


end
