(* ===== verification/Syscall.thy ===== *)
theory Syscall
  imports AppLoad FileDesc Printk Logger
begin

text \<open>
  The system calls (kernel/sys/syscall.cpp) over the components they use: tasks and the
  scheduler, the file descriptor table \<open>g_fds\<close>, the FAT32 driver (\<open>g_fat32_driver\<close> and
  \<open>g_system_fs\<close> are the same object, kernel/main.cpp), the console and the ELF loader. User
  memory is the contents of the address space that CR3 selects. The result \<open>None\<close> stands for
  executions outside the language or the hardware's promises: a loop that does not end, or an
  access past the end of one of the handler's local arrays. Kernel log lines are left out.
\<close>

section \<open>State\<close>

datatype FD = ConsoleObj | KeyboardObj KeyboardFD | PipeObj PipeFD | FileObj FileFD

fun GetType :: "FD \<Rightarrow> FDType" where
  "GetType ConsoleObj = FD_CONSOLE"
| "GetType (KeyboardObj kb) = FD_KEYBOARD"
| "GetType (PipeObj pp) = FD_PIPE"
| "GetType (FileObj ff) = FD_FILE"

text \<open>
  \<open>y_fds\<close> is \<open>g_fds\<close>, an object with its address or null. \<open>y_cells\<close> holds the size headers of
  \<open>operator new\<close>, \<open>y_space\<close> the memory each page table shows, \<open>y_listed\<close> the lines that
  \<open>ListDirectory\<close> has printed, \<open>y_usb\<close> the state of the USB keyboard.
\<close>

record ('d, 'u) Sys =
  y_k :: Kernel
  y_sched :: Sched
  y_env :: AppEnv
  y_cells :: "u64 \<Rightarrow> u64"
  y_fds :: "(u64 \<times> FD) option list"
  y_fs :: "'d FAT32Driver option"
  y_con :: "(Console \<times> frame) option"
  y_space :: spaces
  y_listed :: "(bool \<times> u32 \<times> bytes) list"
  y_logger :: "EventLogger option"
  y_usb :: 'u

definition y_cr3 :: "('d, 'u) Sys \<Rightarrow> u64" where
  "y_cr3 s = cr3 (k_pg (y_k s))"

definition umem :: "('d, 'u) Sys \<Rightarrow> vmem" where
  "umem s = y_space s (y_cr3 s)"

text \<open>
  Bytes stored by a system call, at the addresses of the caller's address space. A buffer in memory of the kernel is
  not followed into the objects there; \<open>sys_call\<close> below leaves such calls out.
\<close>

definition copy_out :: "('d, 'u) Sys \<Rightarrow> u64 \<Rightarrow> bytes \<Rightarrow> ('d, 'u) Sys" where
  "copy_out s a bs = s\<lparr>y_space := (y_space s)(y_cr3 s := mem_write a bs (umem s))\<rparr>"

definition heap_of :: "('d, 'u) Sys \<Rightarrow> kheap" where
  "heap_of s = \<lparr>kmm = kmem (y_k s), cells = y_cells s\<rparr>"

definition set_heap :: "('d, 'u) Sys \<Rightarrow> kheap \<Rightarrow> ('d, 'u) Sys" where
  "set_heap s h = s\<lparr>y_k := set_mem (y_k s) (kmm h), y_cells := cells h\<rparr>"

text \<open>A call of the scheduler: it works on the same tasks and on the CR3 of the processor.\<close>

definition with_sched :: "(Sched \<Rightarrow> Sched) \<Rightarrow> ('d, 'u) Sys \<Rightarrow> ('d, 'u) Sys" where
  "with_sched f s =
     (let sc = f ((y_sched s)\<lparr>sch_tm := k_tm (y_k s),
                    sch_cpu := (sch_cpu (y_sched s))\<lparr>ctx_cr3 := y_cr3 s\<rparr>\<rparr>)
      in s\<lparr>y_sched := sc,
           y_k := (y_k s)\<lparr>k_tm := sch_tm sc, k_pg := (k_pg (y_k s))\<lparr>cr3 := ctx_cr3 (sch_cpu sc)\<rparr>\<rparr>\<rparr>)"

section \<open>File descriptors\<close>

definition fd_index :: "u64 \<Rightarrow> int" where
  "fd_index arg = sint (ucast arg :: u32)"

definition fd_at :: "('d, 'u) Sys \<Rightarrow> int \<Rightarrow> (u64 \<times> FD) option" where
  "fd_at s fd = (if 0 \<le> fd \<and> fd < 16 then y_fds s ! nat fd else None)"

definition set_fd :: "('d, 'u) Sys \<Rightarrow> int \<Rightarrow> (u64 \<times> FD) option \<Rightarrow> ('d, 'u) Sys" where
  "set_fd s fd v = s\<lparr>y_fds := (y_fds s)[nat fd := v]\<rparr>"

text \<open>
  \<open>g_usb_keyboard->Update()\<close>: \<open>poll\<close> gives the characters it passes to \<open>OnInput\<close> of \<open>g_fds[0]\<close>,
  if that is a keyboard.
\<close>

definition keyboard_update :: "('u \<Rightarrow> bytes \<times> 'u) \<Rightarrow> ('d, 'u) Sys \<Rightarrow> ('d, 'u) Sys" where
  "keyboard_update poll s =
     (let (cs, u) = poll (y_usb s); s = s\<lparr>y_usb := u\<rparr>
      in case fd_at s 0 of
           Some (p, KeyboardObj kb) \<Rightarrow> set_fd s 0 (Some (p, KeyboardObj (fold (\<lambda>c kb. OnInput kb c) cs kb)))
         | _ \<Rightarrow> s)"

text \<open>\<open>g_fds[fd]->Read(buf, len)\<close>: the value returned, the bytes stored to \<open>buf\<close>, the state.\<close>

definition fd_Read :: "('u \<Rightarrow> bytes \<times> 'u) \<Rightarrow> ('d, 'u) Sys \<Rightarrow> int \<Rightarrow> u64 \<Rightarrow> int \<times> bytes \<times> ('d, 'u) Sys" where
  "fd_Read poll s fd len =
     (case fd_at s fd of
        None \<Rightarrow> (-1, [], s)
      | Some (p, ConsoleObj) \<Rightarrow> (ConsoleFD_Read (unat len), [], s)
      | Some (p, PipeObj pp) \<Rightarrow>
          let (bs, pp) = PipeFD_Read pp (unat len) in (int (length bs), bs, set_fd s fd (Some (p, PipeObj pp)))
      | Some (p, FileObj ff) \<Rightarrow>
          let (r, bs, ff) = FileFD_Read ff len in (r, bs, set_fd s fd (Some (p, FileObj ff)))
      | Some (_, KeyboardObj _) \<Rightarrow>
          let s = keyboard_update poll s
          in (case fd_at s fd of
                Some (p, KeyboardObj kb) \<Rightarrow>
                  let (bs, kb) = KeyboardFD_drain kb (unat len)
                  in (int (length bs), bs, set_fd s fd (Some (p, KeyboardObj kb)))
              | _ \<Rightarrow> (-1, [], s)))"

definition fd_Write :: "('d, 'u) Sys \<Rightarrow> int \<Rightarrow> bytes \<Rightarrow> int \<times> ('d, 'u) Sys" where
  "fd_Write s fd buf =
     (case fd_at s fd of
        None \<Rightarrow> (-1, s)
      | Some (p, ConsoleObj) \<Rightarrow> let (n, con) = ConsoleFD_Write (y_con s) buf in (int n, s\<lparr>y_con := con\<rparr>)
      | Some (p, KeyboardObj kb) \<Rightarrow>
          let (r, kb) = KeyboardFD_Write kb buf in (r, set_fd s fd (Some (p, KeyboardObj kb)))
      | Some (p, PipeObj pp) \<Rightarrow>
          let (n, pp) = PipeFD_Write pp buf in (int n, set_fd s fd (Some (p, PipeObj pp)))
      | Some (p, FileObj ff) \<Rightarrow>
          let (r, ff) = FileFD_Write ff buf in (r, set_fd s fd (Some (p, FileObj ff))))"

text \<open>\<open>delete\<close> of a descriptor: the destructor, then \<open>operator delete\<close>.\<close>

definition fd_delete :: "kheap \<Rightarrow> u64 \<times> FD \<Rightarrow> kheap" where
  "fd_delete h = (\<lambda>(p, fd).
     let h = (case fd of PipeObj pp \<Rightarrow> PipeFD_delete h pp
              | FileObj ff \<Rightarrow> h\<lparr>kmm := FileFD_delete (kmm h) ff\<rparr>
              | _ \<Rightarrow> h)
     in operator_delete h p)"

section \<open>The calls\<close>

definition sizeof_FileFD :: u64 where
  "sizeof_FileFD = 160"

text \<open>Number 1: \<open>kprintf("%c", ...)\<close>.\<close>

definition SysPutChar :: "('d, 'u) Sys \<Rightarrow> u64 \<Rightarrow> (u64 \<times> ('d, 'u) Sys) option" where
  "SysPutChar s arg1 =
     (case kprintf (\<lambda>_. []) (y_con s) (str ''%c'') [scast (ucast arg1 :: u8)] of
        None \<Rightarrow> None | Some (_, con) \<Rightarrow> Some (0, s\<lparr>y_con := con\<rparr>))"

text \<open>
  Number 2: the state in which \<open>ExitApp\<close> leaves the handler. The control block and the kernel
  stack stay allocated.
\<close>

definition SysExit :: "('d, 'u) Sys \<Rightarrow> ('d, 'u) Sys" where
  "SysExit s =
     (let s = s\<lparr>y_env := (y_env s)\<lparr>g_app_running := False\<rparr>\<rparr>;
          s = (case fd_at s 0 of
                 Some (p, KeyboardObj kb) \<Rightarrow> set_fd s 0 (Some (p, KeyboardObj (KeyboardFD_Flush kb)))
               | _ \<Rightarrow> s);
          k = y_k s; current = current_task (k_tm k); t = tasks (k_tm k) current
      in if current \<noteq> 0 \<and> is_app t then
           let k = k\<lparr>k_pg := SwitchPageTable (k_pg k) (GetKernelCR3 (k_pg k))\<rparr>;
               tm = RemoveFromReadyQueue (k_tm k) current;
               tm = SetCurrentTask (upd_task tm current (\<lambda>t. t\<lparr>task_state := TERMINATED\<rparr>)) 0;
               k = k\<lparr>k_tm := tm\<rparr>;
               task_cr3 = ctx_cr3 (task_context t);
               k = (if task_cr3 \<noteq> 0 \<and> task_cr3 \<noteq> GetKernelCR3 (k_pg k)
                    then k\<lparr>k_pg := FreeProcessPageTable (k_pg k) task_cr3\<rparr> else k);
               k = (if argv_ptr t \<noteq> 0
                    then set_mem k (Free (free_args (kmem k) (take (nat (task_argc t)) (argv_strs t)))
                           (argv_ptr t) (of_int (8 * (task_argc t + 1))))
                    else k)
           in s\<lparr>y_k := k\<rparr>
         else s)"

text \<open>Number 3.\<close>

definition SysListDirectory :: "('d, 'u) Sys \<Rightarrow> u64 \<Rightarrow> (u64 \<times> ('d, 'u) Sys) option" where
  "SysListDirectory s arg1 =
     (case y_fs s of
        None \<Rightarrow> Some (0, s)
      | Some fs \<Rightarrow> do {
          (ls, fs) \<leftarrow> ListDirectory fs (ucast arg1);
          Some (0, s\<lparr>y_fs := Some fs, y_listed := y_listed s @ ls\<rparr>) })"

text \<open>Number 4: the data goes straight into the buffer of the caller.\<close>

definition SysReadFile :: "('d, 'u) Sys \<Rightarrow> u64 \<Rightarrow> u64 \<Rightarrow> u64 \<Rightarrow> (u64 \<times> ('d, 'u) Sys) option" where
  "SysReadFile s arg1 arg2 arg3 =
     (case y_fs s of
        None \<Rightarrow> Some (0, s)
      | Some fs \<Rightarrow> do {
          name \<leftarrow> str_at (umem s) arg1;
          let len = (ucast arg3 :: u32);
          (n, buf, fs) \<leftarrow> ReadFile fs name (mem_load (umem s) arg2 (unat len)) len 0;
          Some (ucast n, copy_out (s\<lparr>y_fs := Some fs\<rparr>) arg2 buf) })"

text \<open>Number 5.\<close>

definition SysRead :: "('u \<Rightarrow> bytes \<times> 'u) \<Rightarrow> ('d, 'u) Sys \<Rightarrow> u64 \<Rightarrow> u64 \<Rightarrow> u64 \<Rightarrow> u64 \<times> ('d, 'u) Sys" where
  "SysRead poll s arg1 arg2 arg3 =
     (let fd = fd_index arg1 in
      if fd_at s fd \<noteq> None
      then let (ret, bs, s) = fd_Read poll s fd arg3 in (of_int ret, copy_out s arg2 bs)
      else (-1, s))"

text \<open>
  Number 6: at most 255 bytes are copied to \<open>kernel_buf[256]\<close> and terminated, and the object is
  asked to write \<open>len\<close> bytes from there.
\<close>

definition SysWrite :: "('d, 'u) Sys \<Rightarrow> u64 \<Rightarrow> u64 \<Rightarrow> u64 \<Rightarrow> (u64 \<times> ('d, 'u) Sys) option" where
  "SysWrite s arg1 arg2 arg3 =
     (let fd = fd_index arg1 in
      if fd_at s fd \<noteq> None
      then
        let len = unat arg3; kernel_buf = mem_load (umem s) arg2 (min len 255) @ [0]
        in if len > 256 then None
           else let (ret, s) = fd_Write s fd (take len kernel_buf) in Some (of_int ret, s)
      else Some (-1, s))"

text \<open>Numbers 10 and 11.\<close>

definition SysYield :: "('d, 'u) Sys \<Rightarrow> u64 \<times> ('d, 'u) Sys" where
  "SysYield s = (0, with_sched Yield s)"

definition SysTaskExit :: "('d, 'u) Sys \<Rightarrow> u64 \<times> ('d, 'u) Sys" where
  "SysTaskExit s =
     (let current = current_task (k_tm (y_k s)) in
      if current \<noteq> 0 then
        let k = TerminateTask (y_k s) current;
            k = k\<lparr>k_tm := SetCurrentTask (k_tm k) 0\<rparr>
        in (0, with_sched (\<lambda>sc. Schedule sc False) (s\<lparr>y_k := k\<rparr>))
      else (0, s))"

text \<open>
  Number 20: the path and up to 32 arguments are copied to arrays of 256 bytes each before
  \<open>CreateProcess\<close>; a longer string overruns its array, and a null argument is dereferenced later.
\<close>

fun copy_in_strings :: "vmem \<Rightarrow> u64 list \<Rightarrow> bytes list option" where
  "copy_in_strings m [] = Some []"
| "copy_in_strings m (p # ps) =
     (if p = 0 then None
      else do {
        s \<leftarrow> str_at m p;
        if length s \<ge> 256 then None else do { ss \<leftarrow> copy_in_strings m ps; Some (s # ss) } })"

definition SysSpawn :: "elf_loader \<Rightarrow> u64 \<Rightarrow> ('d, 'u) Sys \<Rightarrow> u64 \<Rightarrow> u64 \<Rightarrow> u64 \<Rightarrow> (u64 \<times> ('d, 'u) Sys) option" where
  "SysSpawn ldr app_entry s arg1 arg2 arg3 =
     do {
       path \<leftarrow> str_at (umem s) arg1;
       if length path \<ge> 256 then None
       else do {
         let argc = sint (ucast arg2 :: u32);
         let argc = (if argc > 32 then 32 else argc);
         let ptrs = map (\<lambda>i. load64 (umem s) (arg3 + of_nat (8 * i))) [0..<nat argc];
         argv \<leftarrow> copy_in_strings (umem s) ptrs;
         (task, k, fs, sp) \<leftarrow> CreateProcess ldr app_entry (y_k s) (y_fs s) (y_space s) path argc argv;
         Some (if task \<noteq> 0 then task_id (tasks (k_tm k) task) else 0,
               s\<lparr>y_k := k, y_fs := fs, y_space := sp\<rparr>) } }"

text \<open>Number 21: the first free descriptor from 3 on. The pointer of \<open>new\<close> is not tested.\<close>

definition free_fd :: "('d, 'u) Sys \<Rightarrow> nat option" where
  "free_fd s = List.find (\<lambda>fd. y_fds s ! fd = None) [3..<16]"

definition SysOpen :: "('d, 'u) Sys \<Rightarrow> u64 \<Rightarrow> (u64 \<times> ('d, 'u) Sys) option" where
  "SysOpen s arg1 =
     (case free_fd s of
        None \<Rightarrow> Some (-1, s)
      | Some fd \<Rightarrow>
          let (p, h) = operator_new (heap_of s) sizeof_FileFD
          in if p = 0 then None
             else do {
               path \<leftarrow> str_at (umem s) arg1;
               (file_fd, mm, fs) \<leftarrow> FileFD_new (kmm h) (y_fs s) path;
               let h = h\<lparr>kmm := mm\<rparr>;
               let s = s\<lparr>y_fs := fs\<rparr>;
               if ff_valid file_fd
               then Some (of_nat fd, set_fd (set_heap s h) (int fd) (Some (p, FileObj file_fd)))
               else Some (-1, set_heap s (fd_delete h (p, FileObj file_fd))) })"

text \<open>Number 22.\<close>

definition SysClose :: "('d, 'u) Sys \<Rightarrow> u64 \<Rightarrow> u64 \<times> ('d, 'u) Sys" where
  "SysClose s arg1 =
     (let fd = fd_index arg1
      in case (if fd \<ge> 3 then fd_at s fd else None) of
           None \<Rightarrow> (-1, s)
         | Some obj \<Rightarrow> (0, set_fd (set_heap s (fd_delete (heap_of s) obj)) fd None))"

text \<open>Number 23.\<close>

definition SysDeleteFile :: "('d, 'u) Sys \<Rightarrow> u64 \<Rightarrow> (u64 \<times> ('d, 'u) Sys) option" where
  "SysDeleteFile s arg1 =
     (case y_fs s of
        None \<Rightarrow> Some (-1, s)
      | Some fs \<Rightarrow> do {
          path \<leftarrow> str_at (umem s) arg1;
          (ok, fs) \<leftarrow> DeleteFile fs path 0;
          Some (if ok then 0 else -1, s\<lparr>y_fs := Some fs\<rparr>) })"

text \<open>
  The handler; no value is a call that does not return to its caller. \<open>ldr\<close> and \<open>app_entry\<close> are
  the parameters of \<open>CreateProcess\<close>.
\<close>

definition SyscallHandler :: "elf_loader \<Rightarrow> u64 \<Rightarrow> ('u \<Rightarrow> bytes \<times> 'u) \<Rightarrow> ('d, 'u) Sys \<Rightarrow> u64 \<Rightarrow> u64 \<Rightarrow> u64 \<Rightarrow> u64 \<Rightarrow>
    (u64 option \<times> ('d, 'u) Sys) option" where
  "SyscallHandler ldr app_entry poll s number arg1 arg2 arg3 =
     (let ret = map_option (\<lambda>(v, s). (Some v, s))
      in if number = 1 then ret (SysPutChar s arg1)
         else if number = 2 then Some (None, SysExit s)
         else if number = 3 then ret (SysListDirectory s arg1)
         else if number = 4 then ret (SysReadFile s arg1 arg2 arg3)
         else if number = 5 then ret (Some (SysRead poll s arg1 arg2 arg3))
         else if number = 6 then ret (SysWrite s arg1 arg2 arg3)
         else if number = 10 then ret (Some (SysYield s))
         else if number = 11 then ret (Some (SysTaskExit s))
         else if number = 20 then ret (SysSpawn ldr app_entry s arg1 arg2 arg3)
         else if number = 21 then ret (SysOpen s arg1)
         else if number = 22 then ret (Some (SysClose s arg1))
         else if number = 23 then ret (SysDeleteFile s arg1)
         else Some (Some 0, s))"

text \<open>
  The calls 4 and 5 store into a buffer that the program names by an address nothing checks. In the handler above
  the bytes go to the memory of the caller's address space. The kernel keeps its own objects at physical
  addresses, which every page table shows unchanged, in frames marked as used: an address that
  translates to itself and lies in such a frame can be a kernel object, and one without a translation
  faults. \<open>sys_call\<close> is the handler restricted to the calls that store nothing there; about
  the others it says nothing.
\<close>

definition kernel_byte :: "('d, 'u) Sys \<Rightarrow> u64 \<Rightarrow> bool" where
  "kernel_byte s a =
     (case translate (frames (k_pg (y_k s))) (y_cr3 s) a of
        None \<Rightarrow> True
      | Some p \<Rightarrow> p = a \<and> Bitmap_Get (mm_bitmap (kmem (y_k s))) (unat a div kFrameSize))"

definition stored_bytes :: "('u \<Rightarrow> bytes \<times> 'u) \<Rightarrow> ('d, 'u) Sys \<Rightarrow> u64 \<Rightarrow> u64 \<Rightarrow> u64 \<Rightarrow> nat" where
  "stored_bytes poll s number arg1 arg3 =
     (if number = 4 then unat (ucast arg3 :: u32)
      else if number = 5 then length (fst (snd (fd_Read poll s (fd_index arg1) arg3)))
      else 0)"

definition sys_call :: "elf_loader \<Rightarrow> u64 \<Rightarrow> ('u \<Rightarrow> bytes \<times> 'u) \<Rightarrow> ('d, 'u) Sys \<Rightarrow> u64 \<Rightarrow> u64 \<Rightarrow> u64 \<Rightarrow> u64 \<Rightarrow>
    (u64 option \<times> ('d, 'u) Sys) option" where
  "sys_call ldr app_entry poll s number arg1 arg2 arg3 =
     (if list_ex (\<lambda>i. kernel_byte s (arg2 + of_nat i)) [0..<stored_bytes poll s number arg1 arg3] then None
      else SyscallHandler ldr app_entry poll s number arg1 arg2 arg3)"

section \<open>Setting up the calls\<close>

definition InitializeSyscall :: "u64 \<Rightarrow> ('d, 'u) Sys \<Rightarrow> ('d, 'u) Sys" where
  "InitializeSyscall entry s =
     (let (ctx, h) = operator_new (heap_of s) 16; s = set_heap s h;
          env = y_env s; env = WriteMSR env 0xC0000080 (msr env 0xC0000080 OR 1);
          (stack_mem, mm) = Allocate (kmem (y_k s)) (16 * 1024); s = s\<lparr>y_k := set_mem (y_k s) mm\<rparr>;
          env = env\<lparr>g_syscall_context := ctx, kernel_stack_ptr := stack_mem + 16 * 1024\<rparr>;
          star = push_bit 32 0x08 OR push_bit 48 0x18;
          env = WriteMSR env 0xC0000081 star;
          env = WriteMSR env 0xC0000082 entry;
          env = WriteMSR env 0xC0000084 0x200;
          env = WriteMSR env kMSR_GS_BASE ctx;
          env = WriteMSR env kMSR_KERNEL_GS_BASE 0
      in s\<lparr>y_env := env\<rparr>)"

text \<open>
  \<open>InitializeIO\<close>: keyboard and console as the three standard descriptors, and the event logger. The pointers
  of \<open>new\<close> are stored without a test: a null one leaves its descriptor, or the logger, null.
  \<open>mem\<close> and \<open>lmem\<close> are what the memory of the new objects holds.
\<close>

definition new_fd :: "u64 \<Rightarrow> FD \<Rightarrow> (u64 \<times> FD) option" where
  "new_fd p obj = (if p = 0 then None else Some (p, obj))"

definition InitializeIO :: "bytes \<Rightarrow> (nat \<Rightarrow> bytes) \<Rightarrow> ('d, 'u) Sys \<Rightarrow> ('d, 'u) Sys" where
  "InitializeIO mem lmem s =
     (let (p0, h) = operator_new (heap_of s) 1048;
          (p1, h) = operator_new h 8;
          (p2, h) = operator_new h 8;
          (lg, h) = operator_new h 38928
      in (set_heap s h)\<lparr>y_fds := (y_fds s)[0 := new_fd p0 (KeyboardObj (KeyboardFD_new mem)),
            1 := new_fd p1 ConsoleObj, 2 := new_fd p2 ConsoleObj],
            y_logger := (if lg = 0 then None else Some (EventLogger_new lmem))\<rparr>)"

section \<open>The descriptor table\<close>

lemma sys_simps [simp]:
  "y_fds (copy_out s a bs) = y_fds s" "y_fds (set_heap s h) = y_fds s" "y_fds (with_sched f s) = y_fds s"
  "y_fds (set_fd s fd v) = (y_fds s)[nat fd := v]" "heap_of (set_fd s fd v) = heap_of s"
  "heap_of (set_heap s h) = h" "umem (set_fd s fd v) = umem s" "umem (set_heap s h) = umem s"
  "umem (s\<lparr>y_fs := fs\<rparr>) = umem s" "heap_of (s\<lparr>y_fs := fs\<rparr>) = heap_of s" "heap_of (copy_out s a bs) = heap_of s"
  by (simp_all add: copy_out_def set_heap_def with_sched_def Let_def set_fd_def heap_of_def umem_def y_cr3_def set_mem_def kmem_def)

text \<open>The type of each slot: keyboard, console, console, and open files or nothing.\<close>

definition slot_ok :: "nat \<Rightarrow> (u64 \<times> FD) option \<Rightarrow> bool" where
  "slot_ok i v \<longleftrightarrow>
     (if i = 0 then \<exists>p kb. v = Some (p, KeyboardObj kb) \<and> kb_inv kb
      else if i < 3 then \<exists>p. v = Some (p, ConsoleObj)
      else v = None \<or> (\<exists>p ff. v = Some (p, FileObj ff) \<and> p \<noteq> 0 \<and> ff_valid ff))"

definition fds_ok :: "(u64 \<times> FD) option list \<Rightarrow> bool" where
  "fds_ok fds \<longleftrightarrow> length fds = 16 \<and> (\<forall>i<16. slot_ok i (fds ! i))"

text \<open>The same with the standard descriptors in \<open>N\<close> null.\<close>

definition fds_but :: "nat set \<Rightarrow> (u64 \<times> FD) option list \<Rightarrow> bool" where
  "fds_but N fds \<longleftrightarrow> N \<subseteq> {0, 1, 2} \<and> length fds = 16 \<and> (\<forall>i<16. if i \<in> N then fds ! i = None else slot_ok i (fds ! i))"

lemma fds_ok_but: "fds_ok fds \<longleftrightarrow> fds_but {} fds"
  by (simp add: fds_ok_def fds_but_def)

lemma fds_but_update: "fds_but N fds \<Longrightarrow> i < 16 \<Longrightarrow> i \<notin> N \<Longrightarrow> slot_ok i v \<Longrightarrow> fds_but N (fds[i := v])"
  by (auto simp: fds_but_def nth_list_update)

lemma fd_at_slot:
  assumes "fds_but N (y_fds s)" "fd_at s fd = Some obj"
  shows "0 \<le> fd" "nat fd < 16" "nat fd \<notin> N" "slot_ok (nat fd) (Some obj)"
proof -
  show r: "0 \<le> fd" "nat fd < 16" using assms(2) by (auto simp: fd_at_def split: if_splits)
  have at: "y_fds s ! nat fd = Some obj" using assms(2) by (auto simp: fd_at_def split: if_splits)
  have "if nat fd \<in> N then y_fds s ! nat fd = None else slot_ok (nat fd) (y_fds s ! nat fd)"
    using assms(1) r(2) unfolding fds_but_def by blast
  then show "nat fd \<notin> N" "slot_ok (nat fd) (Some obj)" by (simp_all add: at split: if_splits)
qed

lemma slot_ok_Some:
  "slot_ok i (Some (p, KeyboardObj kb)) \<longleftrightarrow> i = 0 \<and> kb_inv kb"
  "slot_ok i (Some (p, ConsoleObj)) \<longleftrightarrow> 0 < i \<and> i < 3"
  "slot_ok i (Some (p, PipeObj pp)) \<longleftrightarrow> False"
  "slot_ok i (Some (p, FileObj ff)) \<longleftrightarrow> 3 \<le> i \<and> p \<noteq> 0 \<and> ff_valid ff"
  by (auto simp: slot_ok_def)

lemma set_fd_but:
  "fds_but N (y_fds s) \<Longrightarrow> nat fd < 16 \<Longrightarrow> nat fd \<notin> N \<Longrightarrow> slot_ok (nat fd) v \<Longrightarrow> fds_but N (y_fds (set_fd s fd v))"
  by (simp add: fds_but_update)

lemma set_fd_ok: "fds_ok (y_fds s) \<Longrightarrow> nat fd < 16 \<Longrightarrow> slot_ok (nat fd) v \<Longrightarrow> fds_ok (y_fds (set_fd s fd v))"
  unfolding fds_ok_but by (rule set_fd_but) simp_all

lemma fds_ok_stdin:
  assumes "fds_ok (y_fds s)"
  obtains p kb where "fd_at s 0 = Some (p, KeyboardObj kb)" "kb_inv kb"
proof -
  have "slot_ok 0 (y_fds s ! 0)" using assms by (simp add: fds_ok_def)
  then show thesis using that by (auto simp: slot_ok_def fd_at_def)
qed

lemma stdin_keyboard:
  assumes "fds_but N (y_fds s)" "fd_at s 0 = Some obj"
  obtains p kb where "obj = (p, KeyboardObj kb)" "kb_inv kb" "0 \<notin> N"
  using fd_at_slot [OF assms] that by (auto simp: slot_ok_def)

lemma find_mem: "List.find P xs = Some x \<Longrightarrow> x \<in> set xs \<and> P x"
  by (induction xs) (auto split: if_splits)

lemma keyboard_update_but:
  assumes "fds_but N (y_fds s)"
  shows "fds_but N (y_fds (keyboard_update poll s))"
proof -
  obtain cs u where p: "poll (y_usb s) = (cs, u)" by fastforce
  let ?s = "s\<lparr>y_usb := u\<rparr>"
  have ok: "fds_but N (y_fds ?s)" using assms by simp
  show ?thesis
  proof (cases "fd_at ?s 0")
    case None
    then show ?thesis using ok by (simp add: keyboard_update_def p)
  next
    case (Some obj)
    obtain q kb where "obj = (q, KeyboardObj kb)" "kb_inv kb" "0 \<notin> N" by (rule stdin_keyboard [OF ok Some])
    then show ?thesis
      using set_fd_but [OF ok, of 0] Some kb.puts_spec [of kb cs]
      by (simp add: keyboard_update_def p slot_ok_Some)
  qed
qed

lemma fd_Read_but:
  assumes ok: "fds_but N (y_fds s)"
  shows "fds_but N (y_fds (snd (snd (fd_Read poll s fd len))))"
proof (cases "fd_at s fd")
  case None
  then show ?thesis using ok by (simp add: fd_Read_def)
next
  case (Some obj)
  note slot = fd_at_slot [OF ok Some]
  obtain p o' where obj: "obj = (p, o')" by fastforce
  show ?thesis
  proof (cases o')
    case ConsoleObj
    then show ?thesis using ok Some obj by (simp add: fd_Read_def)
  next
    case (PipeObj pp)
    then show ?thesis using slot(4) obj by (simp add: slot_ok_Some)
  next
    case (FileObj ff)
    obtain r bs ff' where rd: "FileFD_Read ff len = (r, bs, ff')" by (cases "FileFD_Read ff len")
    then have "ff_valid ff' = ff_valid ff" by (auto simp: FileFD_Read_def Let_def split: if_splits)
    then show ?thesis
      using set_fd_but [OF ok slot(2,3)] slot(4) Some obj FileObj rd by (simp add: fd_Read_def slot_ok_Some)
  next
    case (KeyboardObj kb)
    let ?s = "keyboard_update poll s"
    have ok': "fds_but N (y_fds ?s)" by (rule keyboard_update_but [OF ok])
    have "fd = 0" using slot(1,4) obj KeyboardObj by (simp add: slot_ok_Some)
    moreover have "slot_ok 0 (y_fds ?s ! 0)" using ok' slot(3) \<open>fd = 0\<close> by (simp add: fds_but_def)
    ultimately obtain q kb' where kb: "fd_at ?s fd = Some (q, KeyboardObj kb')" "kb_inv kb'"
      by (auto simp: slot_ok_def fd_at_def)
    obtain bs kb'' where d: "KeyboardFD_drain kb' (unat len) = (bs, kb'')" by fastforce
    have "kb_inv kb''" by (rule KeyboardFD_drain_spec(2) [OF kb(2) d])
    then have "fds_but N (y_fds (set_fd ?s fd (Some (q, KeyboardObj kb''))))"
      using set_fd_but [OF ok', of 0] slot(3) \<open>fd = 0\<close> by (simp add: slot_ok_Some)
    then show ?thesis using Some obj KeyboardObj kb d by (simp add: fd_Read_def)
  qed
qed

lemma fd_Write_but:
  assumes ok: "fds_but N (y_fds s)"
  shows "fds_but N (y_fds (snd (fd_Write s fd buf)))"
proof (cases "fd_at s fd")
  case None
  then show ?thesis using ok by (simp add: fd_Write_def)
next
  case (Some obj)
  note slot = fd_at_slot [OF ok Some]
  obtain p o' where obj: "obj = (p, o')" by fastforce
  show ?thesis
    using set_fd_but [OF ok slot(2,3)] slot(4) Some obj ok
    by (cases o') (simp_all add: fd_Write_def slot_ok_Some KeyboardFD_Write_def FileFD_Write_def split: prod.split)
qed

lemma SysExit_but: "fds_but N (y_fds s) \<Longrightarrow> fds_but N (y_fds (SysExit s))"
proof -
  assume ok: "fds_but N (y_fds s)"
  let ?s = "s\<lparr>y_env := (y_env s)\<lparr>g_app_running := False\<rparr>\<rparr>"
  let ?s1 = "case fd_at ?s 0 of
      Some (p, KeyboardObj kb) \<Rightarrow> set_fd ?s 0 (Some (p, KeyboardObj (KeyboardFD_Flush kb))) | _ \<Rightarrow> ?s"
  have ok': "fds_but N (y_fds ?s)" using ok by simp
  have "fds_but N (y_fds ?s1)"
  proof (cases "fd_at ?s 0")
    case None
    then show ?thesis using ok' by simp
  next
    case (Some obj)
    obtain p kb where kb: "obj = (p, KeyboardObj kb)" "kb_inv kb" "0 \<notin> N" by (rule stdin_keyboard [OF ok' Some])
    then show ?thesis using set_fd_but [OF ok', of 0] Some kb.clear_empty [OF kb(2)] by (simp add: slot_ok_Some)
  qed
  moreover have "y_fds (SysExit s) = y_fds ?s1" by (simp add: SysExit_def Let_def)
  ultimately show ?thesis by simp
qed

lemma SysClose_but: "fds_but N (y_fds s) \<Longrightarrow> fds_but N (y_fds (snd (SysClose s arg)))"
proof -
  assume ok: "fds_but N (y_fds s)"
  show ?thesis
  proof (cases "if fd_index arg \<ge> 3 then fd_at s (fd_index arg) else None")
    case None
    then show ?thesis using ok by (simp add: SysClose_def)
  next
    case (Some obj)
    then have fd: "fd_index arg \<ge> 3" "fd_at s (fd_index arg) = Some obj" by (auto split: if_splits)
    then have "nat (fd_index arg) < 16" "3 \<le> nat (fd_index arg)" "nat (fd_index arg) \<notin> N"
      using fd_at_slot(2,3) [OF ok fd(2)] by simp_all
    then show ?thesis using fds_but_update [OF ok] Some by (simp add: SysClose_def slot_ok_def)
  qed
qed

lemma SysOpen_but:
  assumes ok: "fds_but N (y_fds s)" and res: "SysOpen s arg = Some (v, s')"
  shows "fds_but N (y_fds s')"
proof (cases "free_fd s")
  case None
  then show ?thesis using ok res by (simp add: SysOpen_def)
next
  case (Some fd)
  then have fd: "3 \<le> fd" "fd < 16" using find_mem [OF Some [unfolded free_fd_def]] by (simp_all del: upt_rec_numeral)
  then have "fd \<notin> N" using ok by (auto simp: fds_but_def)
  obtain p h where n: "operator_new (heap_of s) sizeof_FileFD = (p, h)" by fastforce
  show ?thesis
    using res fds_but_update [OF ok fd(2) \<open>fd \<notin> N\<close>] fd ok
    by (auto simp: SysOpen_def Some n slot_ok_Some Let_def split: if_splits bind_splits)
qed

lemma calls_keep_fds:
  "SysPutChar s a = Some (v, s') \<Longrightarrow> y_fds s' = y_fds s"
  "SysListDirectory s a = Some (v, s') \<Longrightarrow> y_fds s' = y_fds s"
  "SysReadFile s a b c = Some (v, s') \<Longrightarrow> y_fds s' = y_fds s"
  "y_fds (snd (SysYield s)) = y_fds s" "y_fds (snd (SysTaskExit s)) = y_fds s"
  "SysSpawn ldr e s a b c = Some (v, s') \<Longrightarrow> y_fds s' = y_fds s"
  "SysDeleteFile s a = Some (v, s') \<Longrightarrow> y_fds s' = y_fds s"
  by (auto simp: SysPutChar_def SysListDirectory_def SysReadFile_def SysYield_def SysTaskExit_def SysSpawn_def
      SysDeleteFile_def Let_def split: option.splits bind_splits if_splits prod.splits)

lemma SysRead_but: "fds_but N (y_fds s) \<Longrightarrow> fds_but N (y_fds (snd (SysRead poll s a b c)))"
  using fd_Read_but [of N s poll "fd_index a" c] by (simp add: SysRead_def Let_def split_beta)

lemma SysWrite_but: "fds_but N (y_fds s) \<Longrightarrow> SysWrite s a b c = Some (v, s') \<Longrightarrow> fds_but N (y_fds s')"
  by (auto simp: SysWrite_def Let_def split_beta intro: fd_Write_but split: if_splits)

lemma SyscallHandler_but:
  assumes ok: "fds_but N (y_fds s)" and res: "SyscallHandler ldr app_entry poll s number arg1 arg2 arg3 = Some (r, s')"
  shows "fds_but N (y_fds s')"
proof -
  let ?P = "pred_option (\<lambda>vs :: u64 \<times> ('a, 'b) Sys. fds_but N (y_fds (snd vs)))"
  have P: "?P x" if "\<And>v s'. x = Some (v, s') \<Longrightarrow> fds_but N (y_fds s')" for x
    using that by (cases x) auto
  have calls: "?P (SysPutChar s arg1)" "?P (SysListDirectory s arg1)" "?P (SysReadFile s arg1 arg2 arg3)"
    "?P (SysWrite s arg1 arg2 arg3)" "?P (SysSpawn ldr app_entry s arg1 arg2 arg3)" "?P (SysOpen s arg1)"
    "?P (SysDeleteFile s arg1)"
    by (rule P, use ok in \<open>auto dest: calls_keep_fds(1-3,6,7) SysWrite_but SysOpen_but\<close>)+
  have direct: "fds_but N (y_fds (SysExit s))" "fds_but N (y_fds (snd (SysRead poll s arg1 arg2 arg3)))"
    "fds_but N (y_fds (snd (SysYield s)))" "fds_but N (y_fds (snd (SysTaskExit s)))" "fds_but N (y_fds (snd (SysClose s arg1)))"
    using ok by (simp_all add: SysExit_but SysRead_but SysClose_but calls_keep_fds(4,5))
  have "pred_option (\<lambda>vs. fds_but N (y_fds (snd vs))) (SyscallHandler ldr app_entry poll s number arg1 arg2 arg3)"
    using calls direct ok unfolding SyscallHandler_def Let_def
    by (simp add: option.pred_map comp_def split_beta)
  then show ?thesis using res by simp
qed

lemmas keyboard_update_ok = keyboard_update_but [where N = "{}", folded fds_ok_but]

lemma sys_call_result:
  "sys_call ldr app_entry poll s number arg1 arg2 arg3 = Some v \<Longrightarrow>
   SyscallHandler ldr app_entry poll s number arg1 arg2 arg3 = Some v"
  by (simp add: sys_call_def split: if_splits)

lemma sys_call_ok:
  "fds_ok (y_fds s) \<Longrightarrow> sys_call ldr app_entry poll s number arg1 arg2 arg3 = Some (r, s') \<Longrightarrow> fds_ok (y_fds s')"
  unfolding fds_ok_but by (rule SyscallHandler_but [OF _ sys_call_result])

text \<open>Memory that has no frame for one object has no room for a larger one.\<close>

lemma new_result:
  assumes "mm_inv (kmm h)" "operator_new h sz = (p, h')" "admissible (sz + kHeaderSize)"
  shows "mm_inv (kmm h')" "p = 0 \<Longrightarrow> kmm h' = kmm h" "used_frames (kmm h) = UNIV \<Longrightarrow> p = 0"
    "p = 0 \<Longrightarrow> frames_of (sz + kHeaderSize) = 1 \<Longrightarrow> used_frames (kmm h) = UNIV"
proof -
  obtain q mm where a: "Allocate (kmm h) (sz + kHeaderSize) = (q, mm)" by fastforce
  have p: "kmm h' = mm" "q = 0 \<Longrightarrow> p = 0" "q \<noteq> 0 \<Longrightarrow> p = q + kHeaderSize"
    using assms(2) a by (auto simp: operator_new_def split: if_splits)
  note res = Allocate_result [OF assms(1,3), unfolded a fst_conv snd_conv alloc_result_def]
  have "q + kHeaderSize \<noteq> 0" if nz: "q \<noteq> 0"
  proof -
    obtain i where "q = of_nat (i * kFrameSize)" using res nz by (auto simp del: of_nat_mult)
    then have "q + kHeaderSize = of_nat (i * 4096 + 16)" by (simp add: kFrameSize_def kHeaderSize_def)
    moreover have "take_bit 12 (of_nat (i * 4096 + 16) :: u64) = 16"
      by (simp only: take_bit_of_nat) (simp add: take_bit_eq_mod)
    ultimately show ?thesis by auto
  qed
  with p have pq: "p = 0 \<longleftrightarrow> q = 0" by (cases "q = 0") simp_all
  show "mm_inv (kmm h')" using res assms(1) p(1) by (auto split: if_splits)
  show "p = 0 \<Longrightarrow> kmm h' = kmm h" using res pq p(1) by simp
  show "used_frames (kmm h) = UNIV \<Longrightarrow> p = 0"
    using res pq frames_of_pos [OF assms(3)] by (auto simp: run_free_def split: if_splits)
  show "p = 0 \<Longrightarrow> frames_of (sz + kHeaderSize) = 1 \<Longrightarrow> used_frames (kmm h) = UNIV"
    using res pq by (auto simp: run_free_def)
qed

lemma InitializeIO_but:
  fixes s :: "('d, 'u) Sys" and lmem :: "nat \<Rightarrow> bytes"
  assumes "length mem = kKeyboardBufferSize" "y_fds s = replicate 16 None" "mm_inv (kmem (y_k s))"
  defines "s1 \<equiv> InitializeIO mem lmem s"
  shows "\<exists>N. fds_but N (y_fds s1) \<and> (N \<noteq> {} \<longrightarrow> y_logger s1 = None \<and> used_frames (kmem (y_k s1)) = UNIV)"
proof -
  obtain p0 h0 where n0: "operator_new (heap_of s) 1048 = (p0, h0)" by fastforce
  obtain p1 h1 where n1: "operator_new h0 8 = (p1, h1)" by fastforce
  obtain p2 h2 where n2: "operator_new h1 8 = (p2, h2)" by fastforce
  obtain lg h3 where n3: "operator_new h2 38928 = (lg, h3)" by fastforce
  have adm: "admissible (1048 + kHeaderSize)" "admissible (8 + kHeaderSize)" "admissible (38928 + kHeaderSize)"
    and one: "frames_of (1048 + kHeaderSize) = 1" "frames_of (8 + kHeaderSize) = 1"
    by (simp_all add: admissible_def kHeaderSize_def frames_of_def kFrameSize_def)
  have i: "mm_inv (kmm (heap_of s))" using assms(3) by (simp add: heap_of_def)
  note r0 = new_result [OF i n0 adm(1)]
  note r1 = new_result [OF r0(1) n1 adm(2)]
  note r2 = new_result [OF r1(1) n2 adm(2)]
  note r3 = new_result [OF r2(1) n3 adm(3)]
  let ?N = "{i :: nat. i = 0 \<and> p0 = 0 \<or> i = 1 \<and> p1 = 0 \<or> i = 2 \<and> p2 = (0 :: u64)}"
  have full: "used_frames (kmm h2) = UNIV" if "?N \<noteq> {}"
  proof -
    from that consider "p0 = 0" | "p1 = 0" | "p2 = 0" by auto
    then show ?thesis using r0(2,4) r1(2-4) r2(2-4) one by cases simp_all
  qed
  then have lg: "?N \<noteq> {} \<Longrightarrow> lg = 0 \<and> used_frames (kmm h3) = UNIV" using r3(2,3) by simp
  have kb: "kb_inv (KeyboardFD_new mem)"
    using assms(1) by (simp add: kb_inv_def KeyboardFD_new_def Prelude.ring_ok_def kKeyboardBufferSize_def)
  have s1: "y_fds s1 = (replicate 16 None)[0 := new_fd p0 (KeyboardObj (KeyboardFD_new mem)), 1 := new_fd p1 ConsoleObj,
      2 := new_fd p2 ConsoleObj]" "y_logger s1 = (if lg = 0 then None else Some (EventLogger_new lmem))" "kmem (y_k s1) = kmm h3"
    unfolding s1_def by (simp_all add: InitializeIO_def n0 n1 n2 n3 assms(2) set_heap_def set_mem_def kmem_def)
  have "fds_but ?N (y_fds s1)"
    unfolding s1(1) fds_but_def using kb by (auto simp: slot_ok_def new_fd_def nth_list_update simp del: replicate.simps)
  then show ?thesis using lg s1(2,3) by (intro exI [of _ ?N]) auto
qed

text \<open>
  C29: the descriptor table stays well typed. Slot 0 holds a keyboard whose ring is consistent,
  slots 1 and 2 consoles, and each of the slots 3 to 15 nothing or a valid open file, apart from
  standard descriptors that are null. \<open>InitializeIO\<close> establishes this on an empty table; a standard
  descriptor is null only when there was no memory left, and then the event logger is null too. Every system call that
  returns or leaves the handler preserves it with the same standard descriptors null, whatever
  its number and arguments, unless it stores to the kernel's own memory through the pointer of its caller.
\<close>

theorem fds_typed:
  "(length mem = kKeyboardBufferSize \<longrightarrow> mm_inv (kmem (y_k s0)) \<longrightarrow>
      s1 = InitializeIO mem lmem (s0\<lparr>y_fds := replicate 16 None\<rparr>) \<longrightarrow>
      (\<exists>N. fds_but N (y_fds s1) \<and> (N \<noteq> {} \<longrightarrow> y_logger s1 = None \<and> used_frames (kmem (y_k s1)) = UNIV))) \<and>
   (fds_but N (y_fds s) \<longrightarrow> sys_call ldr app_entry poll s number arg1 arg2 arg3 = Some (r, s') \<longrightarrow> fds_but N (y_fds s'))"
  using InitializeIO_but [of mem "s0\<lparr>y_fds := replicate 16 None\<rparr>" lmem] SyscallHandler_but [OF _ sys_call_result] by auto

text \<open>
  calls on descriptors that are not open fail without effect. Reading, writing or closing
  a descriptor outside the table or in an empty slot returns -1 and leaves the whole state as
  it is; so does closing one of the three standard descriptors.
\<close>

theorem bad_fd_rejected:
  assumes "fd_index arg1 < 0 \<or> 16 \<le> fd_index arg1 \<or> y_fds s ! nat (fd_index arg1) = None"
  shows "SyscallHandler ldr app_entry poll s 5 arg1 arg2 arg3 = Some (Some (-1), s) \<and>
    SyscallHandler ldr app_entry poll s 6 arg1 arg2 arg3 = Some (Some (-1), s) \<and>
    SyscallHandler ldr app_entry poll s 22 arg1 arg2 arg3 = Some (Some (-1), s) \<and>
    (fd_index arg < 3 \<longrightarrow> SyscallHandler ldr app_entry poll s 22 arg arg2 arg3 = Some (Some (-1), s))"
proof -
  have "fd_at s (fd_index arg1) = None" using assms by (auto simp: fd_at_def)
  then show ?thesis by (simp add: SyscallHandler_def SysRead_def SysWrite_def SysClose_def Let_def)
qed


section \<open>Open, read, close\<close>

lemma operator_new_fits:
  assumes "operator_new h sz = (p, h')" "p \<noteq> 0"
  obtains q where "Allocate (kmm h) (sz + kHeaderSize) = (q, kmm h')" "p = q + kHeaderSize" "q \<noteq> 0"
    "cells h' = (cells h)(q := sz + kHeaderSize)"
  using assms by (auto simp: operator_new_def Let_def split: prod.splits if_splits)

lemma fd_index_of_nat: "n < 16 \<Longrightarrow> fd_index (of_nat n) = int n"
proof -
  assume n: "n < 16"
  have "(ucast (of_nat n :: u64) :: u32) = of_nat n" using n by (simp add: word_unat_eq_iff unsigned_ucast_eq unat_of_nat take_bit_eq_mod)
  moreover have "sint (of_nat n :: u32) = int n" using n by (simp add: sint_u32_small unat_of_nat)
  ultimately show ?thesis by (simp add: fd_index_def)
qed

text \<open>The object and the buffer of an open file, and what closing it leaves.\<close>

lemma file_object_released:
  assumes mi: "mm_inv (kmm h)" and new: "operator_new h sizeof_FileFD = (p, h1)" "p \<noteq> 0"
    and buf: "Allocate (kmm h1) (of_nat (length data)) = (q, mm2)" "ff_addr ff = q" and at: "ff_at ff data i" "0 < length data"
  shows "kmm (fd_delete (h1\<lparr>kmm := mm2\<rparr>) (p, FileObj ff)) = kmm h"
proof -
  obtain r where r: "Allocate (kmm h) (sizeof_FileFD + kHeaderSize) = (r, kmm h1)" "p = r + kHeaderSize" "r \<noteq> 0"
    "cells h1 = (cells h)(r := sizeof_FileFD + kHeaderSize)"
    using operator_new_fits [OF new] by metis
  have adm: "admissible (sizeof_FileFD + kHeaderSize)"
    by (simp add: admissible_def sizeof_FileFD_def kHeaderSize_def)
  have inv1: "mm_inv (kmm h1)" using mmgr.alloc_used [OF mi adm r(1,3)] by blast
  have "FileFD_delete mm2 ff = kmm h1" by (rule FileFD_delete_undoes [OF inv1 at(1,2)]) (use buf in simp)
  moreover have "Free (kmm h1) r (sizeof_FileFD + kHeaderSize) = kmm h" by (rule Free_Allocate [OF mi adm r(1,3)])
  ultimately show ?thesis using r new(2) by (simp add: fd_delete_def operator_delete_def Let_def)
qed

lemma SysOpen_file:
  assumes "block_device ops d_inv d_media nsec" "y_fs s = Some fs" "fs_st ops d_inv d_media g fs m" "geom_ok nsec g"
    and "simple_name nm" "file_at g m (unat (g_root g)) k nm data" "0 < length data" "length data \<le> 65536"
    and "str_at (umem s) arg = Some nm" "free_fd s = Some fd"
    and new: "operator_new (heap_of s) sizeof_FileFD = (p, h1)" "p \<noteq> 0"
    and buf: "Allocate (kmm h1) (of_nat (length data)) = (q, mm2)" "q \<noteq> 0"
  shows "\<exists>ff fs'. SysOpen s arg = Some (of_nat fd,
      set_fd (set_heap (s\<lparr>y_fs := Some fs'\<rparr>) (h1\<lparr>kmm := mm2\<rparr>)) (int fd) (Some (p, FileObj ff))) \<and>
    ff_at ff data 0 \<and> ff_addr ff = q"
proof -
  obtain ff fs' where f: "FileFD_new (kmm h1) (Some fs) nm = Some (ff, mm2, Some fs')" "ff_at ff data 0" "ff_addr ff = q"
    using block_device.FileFD_new_st [OF assms(1,3-8) buf] by blast
  moreover have "ff_valid ff" using f(2) by (simp add: ff_at_def)
  ultimately show ?thesis using assms(2,9-12) by (auto simp: SysOpen_def)
qed

text \<open>
  C16: a program can open a file of the root directory, read it and close it. On a mounted
  volume of the NVMe driver that holds the file, with a free descriptor and memory for the
  descriptor object and a buffer of the size of the file (at most 64 KiB), \<open>Open\<close> returns the
  lowest free descriptor; \<open>Read\<close> then returns the number of bytes asked for or available and
  stores exactly the beginning of the file at the address given; and \<open>Close\<close> returns 0, empties
  the slot and gives all memory back.
\<close>

theorem open_read_close:
  assumes "nvme_controller ctl c_inv c_head c_tail c_phase c_media nsec"
    and "y_fs s = Some fs" "nvme_fs ctl c_inv c_head c_tail c_phase c_media g fs m" "geom_ok nsec g"
    and "simple_name nm" "file_at g m (unat (g_root g)) k nm data" "0 < length data" "length data \<le> 65536"
    and "fds_ok (y_fds s)" "str_at (umem s) arg = Some nm" "free_fd s = Some fd"
    and "mm_inv (kmem (y_k s))" "operator_new (heap_of s) sizeof_FileFD = (p, h1)" "p \<noteq> 0"
    and "fst (Allocate (kmm h1) (of_nat (length data))) \<noteq> 0" and "unat buf + length data \<le> 2 ^ 64"
  shows "\<exists>s1 s2 s3. SyscallHandler ldr e poll s 21 arg b c = Some (Some (of_nat fd), s1) \<and>
    SyscallHandler ldr e poll s1 5 (of_nat fd) buf len = Some (Some (of_nat (min (unat len) (length data))), s2) \<and>
    mem_load (umem s2) buf (min (unat len) (length data)) = take (unat len) data \<and>
    SyscallHandler ldr e poll s2 22 (of_nat fd) b c = Some (Some 0, s3) \<and>
    y_fds s3 = y_fds s \<and> kmem (y_k s3) = kmem (y_k s)"
proof -
  note bd = nvme_controller.nvme_is_block_device [OF assms(1)]
  obtain q mm2 where buf: "Allocate (kmm h1) (of_nat (length data)) = (q, mm2)" "q \<noteq> 0"
    using assms(15) by (cases "Allocate (kmm h1) (of_nat (length data))") auto
  obtain ff fs' where "SysOpen s arg = Some (of_nat fd,
      set_fd (set_heap (s\<lparr>y_fs := Some fs'\<rparr>) (h1\<lparr>kmm := mm2\<rparr>)) (int fd) (Some (p, FileObj ff)))"
    and at: "ff_at ff data 0" "ff_addr ff = q"
    using SysOpen_file [OF bd assms(2) assms(3) [unfolded nvme_fs_def] assms(4-8,10,11,13,14) buf] by blast
  moreover define s1 where "s1 = set_fd (set_heap (s\<lparr>y_fs := Some fs'\<rparr>) (h1\<lparr>kmm := mm2\<rparr>)) (int fd) (Some (p, FileObj ff))"
  ultimately have opn: "SysOpen s arg = Some (of_nat fd, s1)" by simp
  have fd: "fd < 16" "3 \<le> fd" "y_fds s ! fd = None"
    using find_mem [OF assms(11) [unfolded free_fd_def]] by (simp_all del: upt_rec_numeral)
  have len16: "length (y_fds s) = 16" using assms(9) by (simp add: fds_ok_def)
  obtain r bs ff' where rd: "FileFD_Read ff len = (r, bs, ff')" by (cases "FileFD_Read ff len")
  have R: "r = int (min (unat len) (length data))" "bs = take (unat len) data"
    "ff_at ff' data (min (unat len) (length data))" "ff_addr ff' = q"
    using FileFD_Read_at [OF at(1) rd] FileFD_Read_addr [OF rd] at(2) by simp_all
  define s2 where "s2 = copy_out (set_fd s1 (int fd) (Some (p, FileObj ff'))) buf bs"
  have "fd_at s1 (int fd) = Some (p, FileObj ff)" using fd len16 by (simp add: s1_def fd_at_def)
  then have read: "SysRead poll s1 (of_nat fd) buf len = (of_nat (min (unat len) (length data)), s2)"
    using fd(1) rd R(1) by (simp add: SysRead_def fd_index_of_nat fd_Read_def s2_def Let_def)
  have "length bs = min (unat len) (length data)" using R(2) by simp
  then have mem: "mem_load (umem s2) buf (min (unat len) (length data)) = take (unat len) data"
    using mem_load_write [of buf bs "umem (set_fd s1 (int fd) (Some (p, FileObj ff')))"] R(2) assms(16)
    by (simp add: s2_def copy_out_def umem_def y_cr3_def set_fd_def)
  have obj: "fd_at s2 (int fd) = Some (p, FileObj ff')" using fd len16 by (simp add: s2_def s1_def fd_at_def)
  have heap: "heap_of s2 = h1\<lparr>kmm := mm2\<rparr>" by (simp add: s2_def s1_def)
  have freed: "kmm (fd_delete (h1\<lparr>kmm := mm2\<rparr>) (p, FileObj ff')) = kmem (y_k s)"
    using file_object_released [of "heap_of s", OF _ assms(13,14) buf(1) R(4,3) assms(7)] assms(12)
    by (simp add: heap_of_def)
  define s3 where "s3 = set_fd (set_heap s2 (fd_delete (heap_of s2) (p, FileObj ff'))) (int fd) None"
  have close: "SysClose s2 (of_nat fd) = (0, s3)"
    using fd obj by (simp add: SysClose_def fd_index_of_nat s3_def Let_def)
  have "y_fds s3 = (y_fds s)[fd := None]" by (simp add: s3_def s2_def s1_def)
  then have "y_fds s3 = y_fds s" using fd(3) len16 fd(1) by (metis list_update_id)
  moreover have "kmem (y_k s3) = kmem (y_k s)" using freed heap by (simp add: s3_def set_fd_def set_heap_def)
  ultimately show ?thesis
    using opn read close mem
    by (intro exI [of _ s1] exI [of _ s2] exI [of _ s3]) (simp add: SyscallHandler_def)
qed

section \<open>Witnesses\<close>

text \<open>A state for the witnesses: the standard descriptors, a volume, and a path in user memory.\<close>

definition sample_sys :: "'d FAT32Driver option \<Rightarrow> ('d, unit) Sys" where
  "sample_sys fs = \<lparr>y_k = sample_k, y_sched = sample_sched,
     y_env = \<lparr>g_app_running = False, g_syscall_context = 0, kernel_stack_ptr = 0, msr = (\<lambda>_. 0)\<rparr>,
     y_cells = (\<lambda>_. 0),
     y_fds = [Some (0x100, KeyboardObj (KeyboardFD_new (replicate kKeyboardBufferSize 0))), Some (0x800, ConsoleObj),
       Some (0x900, ConsoleObj)] @ replicate 13 None,
     y_fs = fs, y_con = None, y_space = (\<lambda>_. mem_write 0x7000 (str ''hello.txt'') (\<lambda>_. 0)), y_listed = [], y_logger = None, y_usb = ()\<rparr>"

lemma sample_sys_fds: "fds_ok (y_fds (sample_sys fs))"
proof -
  have kb: "kb_inv (KeyboardFD_new (replicate kKeyboardBufferSize 0))"
    by (simp add: kb_inv_def KeyboardFD_new_def Prelude.ring_ok_def kKeyboardBufferSize_def)
  have "slot_ok i (y_fds (sample_sys fs) ! i)" if "i < 16" for i
    using that kb by (auto simp: sample_sys_def slot_ok_def nth_Cons nth_append less_Suc_eq_0_disj split: nat.split)
  then show ?thesis by (simp add: fds_ok_def) (simp add: sample_sys_def)
qed

lemma sample_sys_fields:
  "y_fs (sample_sys fs) = fs" "kmem (y_k (sample_sys fs)) = sample_mm" "free_fd (sample_sys fs) = Some 3"
  "str_at (umem (sample_sys fs)) 0x7000 = Some (str ''hello.txt'')"
  "heap_of (sample_sys fs) = \<lparr>kmm = sample_mm, cells = \<lambda>_. 0\<rparr>"
proof -
  show "y_fs (sample_sys fs) = fs" "kmem (y_k (sample_sys fs)) = sample_mm"
    "heap_of (sample_sys fs) = \<lparr>kmm = sample_mm, cells = \<lambda>_. 0\<rparr>"
    by (simp_all add: sample_sys_def sample_k_mem heap_of_def)
  have "[3..<16] = 3 # [4..<(16 :: nat)]" by (simp add: upt_conv_Cons)
  then show "free_fd (sample_sys fs) = Some 3" by (simp add: free_fd_def sample_sys_def)
  have u: "umem (sample_sys fs) = mem_write 0x7000 (str ''hello.txt'') (\<lambda>_. 0)"
    by (simp add: umem_def sample_sys_def)
  have n: "length (str ''hello.txt'') = 9" "0 \<notin> set (str ''hello.txt'')" by code_simp+
  have l: "mem_load (umem (sample_sys fs)) 0x7000 9 = str ''hello.txt''"
    using mem_load_write [of "0x7000" "str ''hello.txt''" "\<lambda>_. 0"] n by (simp add: u)
  have "umem (sample_sys fs) (0x7000 + of_nat 9) = 0" unfolding u by code_simp
  then show "str_at (umem (sample_sys fs)) 0x7000 = Some (str ''hello.txt'')"
    using str_at_load [of "umem (sample_sys fs)" "0x7000" 9] l n by simp
qed

text \<open>A program whose page at 0x400000 lies in the frame at 0x9000, and a key that waits to be read.\<close>

definition sample_key_sys :: "(unit, unit) Sys" where
  "sample_key_sys = (sample_sys None)\<lparr>
     y_k := sample_k\<lparr>k_pg := sample_kernel\<lparr>frames := (\<lambda>a _. if a = 0x1000 then 0x2003 else if a = 0x2000 then 0x3003
       else if a = 0x3000 then 0x4003 else 0x9003)\<rparr>\<rparr>,
     y_fds := (y_fds (sample_sys (None :: unit FAT32Driver option)))[0 :=
       Some (0x100, KeyboardObj (OnInput (KeyboardFD_new (replicate kKeyboardBufferSize 0)) 0x61))]\<rparr>"

lemma sample_key_sys_facts:
  "fds_but {} (y_fds sample_key_sys)" "\<not> kernel_byte sample_key_sys 0x400000"
  "fst (fd_Read (\<lambda>u. ([], u)) sample_key_sys 0 8) = 1" "fst (snd (fd_Read (\<lambda>u. ([], u)) sample_key_sys 0 8)) = [0x61]"
proof -
  let ?kb = "KeyboardFD_new (replicate kKeyboardBufferSize 0)" and ?s = sample_key_sys
  have new: "kb_inv ?kb" "kb_rep ?kb = []"
    by (simp_all add: kb_inv_def kb_rep_def KeyboardFD_new_def Prelude.ring_ok_def ring_list_def kKeyboardBufferSize_def)
  have kb: "kb_inv (OnInput ?kb 0x61)" "kb_rep (OnInput ?kb 0x61) = [0x61]"
    using kb.puts_spec [OF new(1), of "[0x61]"] new(2) by (simp_all add: kKeyboardBufferSize_def)
  show "fds_but {} (y_fds ?s)"
    unfolding fds_ok_but [symmetric] using sample_sys_fds [of "None :: unit FAT32Driver option"] kb(1)
    by (auto simp: sample_key_sys_def fds_ok_def nth_list_update slot_ok_def)
  show "\<not> kernel_byte ?s 0x400000"
    by (simp add: kernel_byte_def sample_key_sys_def sample_sys_def y_cr3_def translate_def pte_present_def pte_huge_def GetAddress_def
        sample_kernel_def)
  have at: "fd_at ?s 0 = Some (0x100, KeyboardObj (OnInput ?kb 0x61))" by (simp add: fd_at_def sample_key_sys_def sample_sys_def)
  have u: "?s\<lparr>y_usb := ()\<rparr> = ?s" by simp
  have "keyboard_update (\<lambda>u. ([], u)) ?s = set_fd ?s 0 (Some (0x100, KeyboardObj (OnInput ?kb 0x61)))"
    using at by (simp add: keyboard_update_def Let_def u)
  moreover have "fd_at (set_fd ?s 0 (Some (0x100, KeyboardObj (OnInput ?kb 0x61)))) 0 = Some (0x100, KeyboardObj (OnInput ?kb 0x61))"
    by (simp add: fd_at_def) (simp add: sample_key_sys_def sample_sys_def)
  moreover obtain bs kb' where d: "KeyboardFD_drain (OnInput ?kb 0x61) 8 = (bs, kb')" by fastforce
  moreover have "bs = [0x61]" using KeyboardFD_drain_spec(1) [OF kb(1) d] kb(2) by simp
  ultimately show "fst (fd_Read (\<lambda>u. ([], u)) ?s 0 8) = 1" "fst (snd (fd_Read (\<lambda>u. ([], u)) ?s 0 8)) = [0x61]"
    using at by (simp_all add: fd_Read_def)
qed

theorem fds_typed_witness:
  "(\<exists>N. fds_but N (y_fds (InitializeIO (replicate kKeyboardBufferSize 0) (\<lambda>_. replicate 128 0)
       ((sample_sys (None :: unit FAT32Driver option))\<lparr>y_fds := replicate 16 None\<rparr>)))) \<and>
   (\<exists>s'. sys_call Rust 0 (\<lambda>u. ([], u)) sample_key_sys 5 0 0x400000 8 = Some (Some 1, s') \<and> umem s' 0x400000 = 0x61 \<and>
      fds_but {} (y_fds s'))"
proof -
  let ?s = "sample_sys (None :: unit FAT32Driver option)" and ?k = sample_key_sys and ?poll = "\<lambda>u :: unit. ([] :: bytes, u)"
  note F = sample_key_sys_facts
  obtain s1 where r: "fd_Read ?poll ?k 0 8 = (1, [0x61], s1)" using F(3,4) by (cases "fd_Read ?poll ?k 0 8") auto
  have i: "fd_index 0 = 0" using fd_index_of_nat [of 0] by simp
  have "fd_at ?k 0 \<noteq> None" by (simp add: fd_at_def sample_key_sys_def sample_sys_def)
  then have "SyscallHandler Rust 0 ?poll ?k 5 0 0x400000 8 = Some (Some 1, copy_out s1 0x400000 [0x61])"
    by (simp add: SyscallHandler_def SysRead_def i r)
  then have c: "sys_call Rust 0 ?poll ?k 5 0 0x400000 8 = Some (Some 1, copy_out s1 0x400000 [0x61])"
    using F(2) by (simp add: sys_call_def stored_bytes_def i r)
  have "umem (copy_out s1 0x400000 [0x61]) 0x400000 = 0x61" by (simp add: copy_out_def umem_def y_cr3_def)
  moreover have "fds_but {} (y_fds (copy_out s1 0x400000 [0x61]))"
    using fds_typed [of _ ?s _ _ "{}" ?k Rust 0 ?poll 5 0 "0x400000" 8] F(1) c by blast
  moreover have "\<exists>N. fds_but N (y_fds (InitializeIO (replicate kKeyboardBufferSize 0) (\<lambda>_. replicate 128 0) (?s\<lparr>y_fds := replicate 16 None\<rparr>)))"
    using conjunct1 [OF fds_typed, of "replicate kKeyboardBufferSize 0" ?s _ "\<lambda>_. replicate 128 0"]
      sample_mm_inv sample_sys_fields(2) [of "None :: unit FAT32Driver option"] by auto
  ultimately show ?thesis using c by blast
qed

theorem bad_fd_rejected_witness:
  "SyscallHandler Rust 0 (\<lambda>u. ([], u)) (sample_sys (None :: unit FAT32Driver option)) 5 4 0 0 = Some (Some (-1), sample_sys None) \<and>
   SyscallHandler Rust 0 (\<lambda>u. ([], u)) (sample_sys (None :: unit FAT32Driver option)) 22 1 0 0 = Some (Some (-1), sample_sys None)"
proof -
  have i: "fd_index 4 = 4" "fd_index 1 = 1" using fd_index_of_nat [of 4] fd_index_of_nat [of 1] by simp_all
  have "y_fds (sample_sys (None :: unit FAT32Driver option)) ! nat (fd_index 4) = None"
    by (simp add: i sample_sys_def)
  then show ?thesis
    using bad_fd_rejected [of 4 "sample_sys (None :: unit FAT32Driver option)" Rust 0 "\<lambda>u. ([], u)" 0 0 1] i by simp
qed

theorem open_read_close_witness:
  "\<exists>fs s1 s2. WriteFile (sample_fs sample_medium) (str ''HELLO   TXT'') [1, 2, 3] 3 0 = Some fs \<and>
    SyscallHandler Rust 0 (\<lambda>u. ([], u)) (sample_sys (Some fs)) 21 0x7000 0 0 = Some (Some 3, s1) \<and>
    SyscallHandler Rust 0 (\<lambda>u. ([], u)) s1 5 3 0x8000 2 = Some (Some 2, s2) \<and>
    mem_load (umem s2) 0x8000 2 = [1, 2]"
proof -
  note bd = nvme_controller.nvme_is_block_device [OF ram.nvme_controller_axioms]
  have cl: "clusters_for sample_geom (length [1, 2, 3 :: u8]) \<le> card (free_clusters sample_geom sample_medium)"
    using sample_free by (simp add: clusters_for_def sample_geom_def)
  have cc: "can_create sample_geom sample_medium (unat (g_root sample_geom)) 0 (str ''hello.txt'')"
    using sample_can_create by (simp add: sample_geom_def)
  from block_device.WriteFile_file_at_st [OF bd sample_fs_st [OF sample_medium_ok, unfolded nvme_fs_def] sample_geom_ok _ cc
      _ sample_name(3,4,1) _ _ cl, of 0]
  obtain fs m where w: "WriteFile (sample_fs sample_medium) (str ''HELLO   TXT'') [1, 2, 3] 3 0 = Some fs"
    "ram_fs sample_geom fs m"
    "file_at sample_geom m (unat (g_root sample_geom)) 0 (str ''hello.txt'') [1, 2, 3]"
    using sample_name(5) by (auto simp: nvme_fs_def)
  obtain p h1 where n: "operator_new (heap_of (sample_sys (Some fs))) sizeof_FileFD = (p, h1)" by fastforce
  have a: "Allocate sample_mm 176 =
      (0x4000, \<lparr>mm_bitmap = \<lparr>bm_buffer = [0x1F, 0xF0], bm_size = 2\<rparr>, mm_range_end = 0x10000\<rparr>)" (is "_ = (_, ?mm1)")
    by (simp add: Allocate_def frames_of_def AllocateFrame_def sample_mm_def bitmap_eval kFrameSize_def)
  then have "p = 0x4010" and m1: "kmm h1 = ?mm1"
    using n by (auto simp: sample_sys_fields operator_new_def sizeof_FileFD_def kHeaderSize_def)
  moreover have "fst (Allocate ?mm1 (of_nat (length [1, 2, 3 :: u8]))) \<noteq> 0"
    by (simp add: Allocate_def frames_of_def AllocateFrame_def bitmap_eval kFrameSize_def)
  ultimately show ?thesis
    using open_read_close [OF ram.nvme_controller_axioms sample_sys_fields(1) w(2) sample_geom_ok sample_name(2) w(3) _ _
        sample_sys_fds sample_sys_fields(4,3) _ n, where ldr = Rust and e = 0 and buf = "0x8000" and len = 2
        and b = 0 and c = 0 and poll = "\<lambda>u. ([], u)"]
      w(1) sample_mm_inv by (auto simp: sample_sys_fields) (simp add: numeral_2_eq_2)
qed

end
