(* ===== verification/Shell.thy ===== *)
theory Shell
  imports Syscall
begin

text \<open>
  The shell of the kernel (kernel/shell/shell.cpp) and the version data it prints
  (kernel/sys/sys.cpp): the line editor, the splitting of a command line, pipes and the built-in
  commands, over the state of theory \<open>Syscall\<close>. The result \<open>None\<close> is an execution that does not
  return (a wait for a key that never comes) or leaves the language (a null descriptor, the
  overflow of a local array).
\<close>

section \<open>Output\<close>

text \<open>\<open>kprintf\<close> with its arguments as values; a string argument is known by its position.\<close>

datatype karg = KInt int | KStr bytes

definition karg_word :: "nat \<times> karg \<Rightarrow> u64" where
  "karg_word = (\<lambda>(i, a). case a of KInt v \<Rightarrow> of_int v | KStr s \<Rightarrow> of_nat (Suc i))"

definition karg_mem :: "karg list \<Rightarrow> u64 \<Rightarrow> bytes" where
  "karg_mem args p = (case args ! (unat p - 1) of KStr s \<Rightarrow> s | KInt v \<Rightarrow> [])"

definition say :: "bytes \<Rightarrow> karg list \<Rightarrow> ('d, 'u) Sys \<Rightarrow> ('d, 'u) Sys option" where
  "say fmt args s =
     (case kprintf (karg_mem args) (y_con s) fmt (map karg_word (enumerate 0 args)) of
        None \<Rightarrow> None | Some (_, con) \<Rightarrow> Some (s\<lparr>y_con := con\<rparr>))"

abbreviation NL :: bytes where "NL \<equiv> [0x0A]"

fun says :: "(bytes \<times> karg list) list \<Rightarrow> ('d, 'u) Sys \<Rightarrow> ('d, 'u) Sys option" where
  "says [] s = Some s"
| "says ((fmt, args) # rest) s = do { s \<leftarrow> say fmt args s; says rest s }"

section \<open>The command line\<close>

record Shell =
  sh_buffer :: bytes
  cursor_pos :: nat
  current_cluster :: u32

definition kMaxCommandLen :: nat where
  "kMaxCommandLen = 100"

definition Shell_new :: Shell where
  "Shell_new = \<lparr>sh_buffer = replicate kMaxCommandLen 0, cursor_pos = 0, current_cluster = 0\<rparr>"

text \<open>
  The splitting loop works in place on the buffer and collects the offsets of the arguments. A
  line ends with a NUL before the end of the array, so the tests of the index never decide.
\<close>

function skip_spaces :: "bytes \<Rightarrow> nat \<Rightarrow> bytes \<times> nat" where
  "skip_spaces buf p =
     (if p < length buf \<and> buf ! p = 0x20 then skip_spaces (buf[p := 0]) (p + 1) else (buf, p))"
  by pat_completeness auto
termination by (relation "measure (\<lambda>(buf, p). length buf - p)") auto

function skip_word :: "bytes \<Rightarrow> nat \<Rightarrow> nat" where
  "skip_word buf p = (if p < length buf \<and> buf ! p \<noteq> 0 \<and> buf ! p \<noteq> 0x20 then skip_word buf (p + 1) else p)"
  by pat_completeness auto
termination by (relation "measure (\<lambda>(buf, p). length buf - p)") auto

declare skip_spaces.simps [simp del] skip_word.simps [simp del]

lemma skip_spaces_grows: "skip_spaces buf p = (buf', p') \<Longrightarrow> p \<le> p' \<and> length buf' = length buf \<and> \<not> (p' < length buf \<and> buf' ! p' = 0x20)"
proof (induction buf p arbitrary: buf' p' rule: skip_spaces.induct)
  case (1 buf p)
  show ?case
  proof (cases "p < length buf \<and> buf ! p = 0x20")
    case True
    then have "skip_spaces (buf[p := 0]) (p + 1) = (buf', p')" using "1.prems" by (simp add: skip_spaces.simps [of buf])
    from "1.IH" [OF True this] show ?thesis by simp
  next
    case False
    then have "skip_spaces buf p = (buf, p)" by (simp only: skip_spaces.simps [of buf] if_False)
    then show ?thesis using "1.prems" False by simp
  qed
qed

lemma skip_word_grows: "p \<le> skip_word buf p"
proof (induction buf p rule: skip_word.induct)
  case (1 buf p)
  then show ?case by (subst skip_word.simps) (auto intro: Suc_leD)
qed

lemma skip_word_progress:
  assumes "p < length buf" "buf ! p \<noteq> 0" "buf ! p \<noteq> 0x20"
  shows "p < skip_word buf p"
  using assms skip_word_grows [of "p + 1" buf] by (subst skip_word.simps) simp

function split_args :: "bytes \<Rightarrow> nat \<Rightarrow> nat list \<Rightarrow> nat list \<times> bytes" where
  "split_args buf p argv =
     (if p < length buf \<and> buf ! p \<noteq> 0 then
        let (buf, p) = skip_spaces buf p in
        if p \<ge> length buf \<or> buf ! p = 0 then (argv, buf)
        else
          let argv = argv @ [p]
          in if length argv \<ge> 32 then (argv, buf) else split_args buf (skip_word buf p) argv
      else (argv, buf))"
  by pat_completeness auto
termination
proof (relation "measure (\<lambda>(buf, p, argv). length buf - p)", goal_cases)
  case (2 buf p argv x buf' p' argv')
  then have s: "skip_spaces buf p = (buf', p')" by simp
  have "p' < length buf'" "buf' ! p' \<noteq> 0" using 2 by auto
  moreover have "buf' ! p' \<noteq> 0x20" "length buf' = length buf" "p \<le> p'"
    using skip_spaces_grows [OF s] \<open>p' < length buf'\<close> by auto
  ultimately have "p' < skip_word buf' p'" by (simp add: skip_word_progress)
  then show ?case using \<open>length buf' = length buf\<close> \<open>p \<le> p'\<close> \<open>p' < length buf'\<close> unfolding in_measure by auto
qed simp

declare split_args.simps [simp del]

definition arg_string :: "bytes \<Rightarrow> nat \<Rightarrow> bytes" where
  "arg_string buf p = cstr (drop p buf)"

section \<open>Built-in commands\<close>

abbreviation is_cmd :: "bytes \<Rightarrow> string \<Rightarrow> bool" where
  "is_cmd a s \<equiv> c_strcmp a (str s) = 0"

text \<open>\<open>g_fds[1]->Write\<close>.\<close>

definition out_write :: "('d, 'u) Sys \<Rightarrow> bytes \<Rightarrow> ('d, 'u) Sys option" where
  "out_write s bs = (if fd_at s 1 = None then None else Some (snd (fd_Write s 1 bs)))"

text \<open>\<open>cat\<close> without an argument.\<close>

partial_function (option) cat_loop :: "('u \<Rightarrow> bytes \<times> 'u) \<Rightarrow> ('d, 'u) Sys \<Rightarrow> ('d, 'u) Sys option" where
  "cat_loop poll s =
     (if fd_at s 0 = None then None
      else
        let (len, bs, s) = fd_Read poll s 0 127
        in if len \<le> 0 then Some s
           else Option.bind (out_write s bs) (\<lambda>s.
             case fd_at s 0 of
               None \<Rightarrow> None
             | Some (_, obj) \<Rightarrow> if GetType obj = FD_KEYBOARD then Some s else cat_loop poll s))"

definition cat_file :: "('d, 'u) Sys \<Rightarrow> bytes \<Rightarrow> ('d, 'u) Sys option" where
  "cat_file s filename =
     (case y_fs s of
        None \<Rightarrow> say (str ''Error: File System not initialized.'' @ NL) [] s
      | Some fs \<Rightarrow>
          let (buf, mm) = Allocate (kmem (y_k s)) 4096; s = s\<lparr>y_k := set_mem (y_k s) mm\<rparr>
          in if buf = 0 then None
             else do {
               (bytes_read, data, fs) \<leftarrow> ReadFile fs filename (replicate 4096 0) 4096 0;
               let s = s\<lparr>y_fs := Some fs\<rparr>;
               s \<leftarrow> (if bytes_read > 0
                    then do { s \<leftarrow> out_write s (take (unat bytes_read) data); out_write s NL }
                    else say (str ''Error: File not found or empty.'' @ NL) [] s);
               Some (s\<lparr>y_k := set_mem (y_k s) (Free (kmem (y_k s)) buf 4096)\<rparr>) })"

definition cmd_clear :: "('d, 'u) Sys \<Rightarrow> ('d, 'u) Sys option" where
  "cmd_clear = says (replicate 30 (NL, []))"

definition cmd_echo :: "('d, 'u) Sys \<Rightarrow> bytes list \<Rightarrow> ('d, 'u) Sys option" where
  "cmd_echo s argv =
     (if length argv > 1 then do { s \<leftarrow> out_write s (take (c_strlen (argv ! 1)) (argv ! 1)); out_write s NL } else Some s)"

definition cmd_ls :: "('d, 'u) Sys \<Rightarrow> ('d, 'u) Sys option" where
  "cmd_ls s =
     (case y_fs s of
        None \<Rightarrow> say (str ''Error: File System not initialized.'' @ NL) [] s
      | Some fs \<Rightarrow> do {
          (ls, fs) \<leftarrow> ListDirectory fs 0;
          Some (s\<lparr>y_fs := Some fs, y_listed := y_listed s @ ls\<rparr>) })"

text \<open>\<open>rm\<close> reads \<open>argv[1]\<close> whether it is set or not.\<close>

definition cmd_rm :: "('d, 'u) Sys \<Rightarrow> bytes list \<Rightarrow> ('d, 'u) Sys option" where
  "cmd_rm s argv =
     (if length argv < 2 then None
      else
        case y_fs s of
          None \<Rightarrow> say (str ''File System not initialized.'' @ NL) [] s
        | Some fs \<Rightarrow> do {
            (ok, fs) \<leftarrow> DeleteFile fs (argv ! 1) 0;
            let s = s\<lparr>y_fs := Some fs\<rparr>;
            if ok then say (str ''Deleted %s'' @ NL) [KStr (argv ! 1)] s
            else say (str ''Could not delete %s'' @ NL) [KStr (argv ! 1)] s })"

subsection \<open>The log viewer\<close>

record log_opts =
  filter_level :: "LogLevel option"
  filter_type :: "LogType option"
  log_keyword :: "bytes option"
  do_flush :: bool

definition level_opt :: "bytes \<Rightarrow> log_opts \<Rightarrow> log_opts" where
  "level_opt a opts =
     (if is_cmd a ''info'' then opts\<lparr>filter_level := Some LInfo\<rparr>
      else if is_cmd a ''warn'' then opts\<lparr>filter_level := Some LWarning\<rparr>
      else if is_cmd a ''error'' then opts\<lparr>filter_level := Some LError\<rparr>
      else opts)"

definition type_opt :: "bytes \<Rightarrow> log_opts \<Rightarrow> log_opts" where
  "type_opt a opts =
     (if is_cmd a ''kernel'' then opts\<lparr>filter_type := Some TKernel\<rparr>
      else if is_cmd a ''fs'' then opts\<lparr>filter_type := Some TFS\<rparr>
      else if is_cmd a ''driver'' then opts\<lparr>filter_type := Some TDriver\<rparr>
      else if is_cmd a ''memory'' then opts\<lparr>filter_type := Some TMemory\<rparr>
      else if is_cmd a ''app'' then opts\<lparr>filter_type := Some TApplication\<rparr>
      else opts)"

fun logger_opts :: "bytes list \<Rightarrow> log_opts \<Rightarrow> log_opts" where
  "logger_opts [] opts = opts"
| "logger_opts [a] opts = (if is_cmd a ''flush'' then opts\<lparr>do_flush := True\<rparr> else opts)"
| "logger_opts (a # b # rest) opts =
     (if is_cmd a ''-l'' then logger_opts rest (level_opt b opts)
      else if is_cmd a ''-t'' then logger_opts rest (type_opt b opts)
      else if is_cmd a ''-s'' then logger_opts rest (opts\<lparr>log_keyword := Some b\<rparr>)
      else if is_cmd a ''flush'' then logger_opts (b # rest) (opts\<lparr>do_flush := True\<rparr>)
      else logger_opts (b # rest) opts)"

text \<open>One key in the viewer: the page, and whether the two loops go on.\<close>

definition view_key :: "nat \<Rightarrow> u8 \<Rightarrow> nat \<times> bool \<times> bool \<Rightarrow> nat \<times> bool \<times> bool" where
  "view_key total_pages c = (\<lambda>(page, viewing, waiting).
     if c = 0x71 \<or> c = 0x51 then (page, False, False)
     else if c = 0x1B then (if page > 0 then page - 1 else page, viewing, False)
     else if c = 0x5B then (page, viewing, waiting)
     else if c = 0x43 then (if page < total_pages - 1 then page + 1 else page, viewing, False)
     else if c = 0x44 then (if page > 0 then page - 1 else page, viewing, False)
     else if c = 0x6E \<or> c = 0x20 then (if page < total_pages - 1 then page + 1 else page, viewing, False)
     else if c = 0x70 then (if page > 0 then page - 1 else page, viewing, False)
     else (page, viewing, waiting))"

text \<open>The inner loop, which waits for a key; \<open>force\<close> is \<open>ForceSendTRB\<close> of the keyboard.\<close>

partial_function (option) view_wait ::
    "('u \<Rightarrow> bytes \<times> 'u) \<Rightarrow> ('u \<Rightarrow> 'u) \<Rightarrow> nat \<Rightarrow> nat \<Rightarrow> ('d, 'u) Sys \<Rightarrow> (nat \<times> bool \<times> ('d, 'u) Sys) option" where
  "view_wait poll force total_pages page s =
     (let s = s\<lparr>y_usb := force (y_usb s)\<rparr>
      in if fd_at s 0 = None then None
         else
           let (len, bs, s) = fd_Read poll s 0 8;
               (page, viewing, waiting) = (if len > 0 then fold (view_key total_pages) bs (page, True, True) else (page, True, True))
           in if waiting then view_wait poll force total_pages page s else Some (page, viewing, s))"

definition level_colour :: "LogLevel \<Rightarrow> bytes" where
  "level_colour l = 0x1B # str (case l of LInfo \<Rightarrow> ''[42;30m'' | LWarning \<Rightarrow> ''[43;30m'' | LError \<Rightarrow> ''[41;37m'')"

definition entry_lines :: "LogEntry \<Rightarrow> (bytes \<times> karg list) list" where
  "entry_lines e =
     [(level_colour (le_level e), []), (str ''[%5s]'', [KStr (str (LevelToString (le_level e)))]),
      (0x1B # str ''[0m'', []), (str ''[%6s] %s'' @ NL, [KStr (str (TypeToString (le_type e))), KStr (message e)])]"

definition rule_line :: bytes where
  "rule_line = str ''----------------------------------------'' @ NL"

definition view_page :: "EventLogger \<Rightarrow> log_opts \<Rightarrow> nat \<Rightarrow> nat \<Rightarrow> nat \<Rightarrow> (bytes \<times> karg list) list" where
  "view_page lg opts total_logs total_pages page =
     replicate 25 (NL, []) @
     [(str ''=== Event Log (Page %d/%d, Total: %d) ==='' @ NL, [KInt (int page + 1), KInt (int total_pages), KInt (int total_logs)]),
      (str ''Filters: '', [])] @
     (case filter_level opts of None \<Rightarrow> [] | Some l \<Rightarrow> [(str ''Level=%s '', [KStr (str (LevelToString l))])]) @
     (case filter_type opts of None \<Rightarrow> [] | Some t \<Rightarrow> [(str ''Type=%s '', [KStr (str (TypeToString t))])]) @
     (case log_keyword opts of None \<Rightarrow> [] | Some k \<Rightarrow> [(str ''Keyword='' @ [0x22] @ str ''%s'' @ [0x22], [KStr k])]) @
     (if filter_level opts = None \<and> filter_type opts = None \<and> log_keyword opts = None then [(str ''None'', [])] else []) @
     [(NL, []), (rule_line, [])] @
     concat (map entry_lines (GetLogs lg 10 (of_nat (page * 10)) (filter_level opts) (filter_type opts) (log_keyword opts))) @
     [(rule_line, []), (str ''[<-] Prev  [->] Next  [Q] Quit'' @ NL, [])]"

partial_function (option) view_loop ::
    "('u \<Rightarrow> bytes \<times> 'u) \<Rightarrow> ('u \<Rightarrow> 'u) \<Rightarrow> EventLogger \<Rightarrow> log_opts \<Rightarrow> nat \<Rightarrow> nat \<Rightarrow> nat \<Rightarrow> ('d, 'u) Sys \<Rightarrow> ('d, 'u) Sys option" where
  "view_loop poll force lg opts total_logs total_pages page s =
     Option.bind (says (view_page lg opts total_logs total_pages page) s) (\<lambda>s.
     Option.bind (view_wait poll force total_pages page s) (\<lambda>(page, viewing, s).
       if viewing then view_loop poll force lg opts total_logs total_pages page s else Some s))"

definition cmd_logger :: "('u \<Rightarrow> bytes \<times> 'u) \<Rightarrow> ('u \<Rightarrow> 'u) \<Rightarrow> ('d, 'u) Sys \<Rightarrow> bytes list \<Rightarrow> ('d, 'u) Sys option" where
  "cmd_logger poll force s argv =
     (case y_logger s of
        None \<Rightarrow> say (str ''Error: Logger not initialized.'' @ NL) [] s
      | Some lg \<Rightarrow>
          let opts = logger_opts (tl argv) \<lparr>filter_level = None, filter_type = None, log_keyword = None, do_flush = False\<rparr>
          in if do_flush opts then do {
               (lg, mm, fs) \<leftarrow> Flush lg (kmem (y_k s)) (y_fs s);
               say (str ''Logs flushed to file.'' @ NL) [] (s\<lparr>y_logger := Some lg, y_fs := fs, y_k := set_mem (y_k s) mm\<rparr>) }
             else
               let total_logs = GetLogCount lg (filter_level opts) (filter_type opts) (log_keyword opts)
               in if total_logs = 0 then say (str ''No logs found.'' @ NL) [] s
                  else view_loop poll force lg opts total_logs ((total_logs + 9) div 10) 0 s)"

text \<open>The version of kernel/sys/sys.hpp.\<close>

definition ReleaseTypeToString :: "nat \<Rightarrow> string" where
  "ReleaseTypeToString r =
     (if r = 0 then ''release'' else if r = 1 then ''pre'' else if r = 2 then ''beta'' else if r = 3 then ''alpha'' else ''unknown'')"

definition cmd_sys :: "('d, 'u) Sys \<Rightarrow> ('d, 'u) Sys option" where
  "cmd_sys = says
     [(str ''=============== Sylphia-OS ZERO ==============='' @ NL, []),
      (str ''Version: v%d.%d.%d-%s'' @ NL, [KInt 0, KInt 5, KInt 8, KStr (str (ReleaseTypeToString 3))]),
      (str ''Build: %04d/%02d/%02d'' @ NL, [KInt 2025, KInt 12, KInt 28]),
      (str ''==============================================='' @ NL, [])]"

subsection \<open>Programs\<close>

text \<open>
  Anything else names a program in \<open>/sys/bin\<close>. \<open>run\<close> is the execution of a program that
  \<open>LoadAndRun\<close> has started, up to its \<open>Exit\<close>.
\<close>

definition flush_stdin :: "('d, 'u) Sys \<Rightarrow> ('d, 'u) Sys" where
  "flush_stdin s =
     (case fd_at s 0 of
        Some (p, KeyboardObj kb) \<Rightarrow> set_fd s 0 (Some (p, KeyboardObj (KeyboardFD_Flush kb)))
      | _ \<Rightarrow> s)"

definition cmd_program :: "elf_loader \<Rightarrow> u64 \<Rightarrow> ('u \<Rightarrow> 'u) \<Rightarrow> (UserEntry \<Rightarrow> ('d, 'u) Sys \<Rightarrow> ('d, 'u) Sys option) \<Rightarrow>
    ('d, 'u) Sys \<Rightarrow> bytes list \<Rightarrow> ('d, 'u) Sys option" where
  "cmd_program ldr app_entry force run s argv =
     (if fd_at s 0 = None then None
      else
        let s = flush_stdin s; s = s\<lparr>y_usb := force (y_usb s)\<rparr>;
            path = c_strcat (c_strcpy (str ''/sys/bin/'')) (argv ! 0)
        in if length path > 64 then None
           else do {
             (task, k, fs, sp) \<leftarrow> CreateProcess ldr app_entry (y_k s) (y_fs s) (y_space s) path (int (length argv)) argv;
             let s = s\<lparr>y_k := k, y_fs := fs, y_space := sp\<rparr>;
             if task \<noteq> 0 then Some s
             else do {
               (entry, k, fs, sp, env) \<leftarrow> LoadAndRun (y_k s) (y_fs s) (y_space s) (y_env s) path argv;
               let s = s\<lparr>y_k := k, y_fs := fs, y_space := sp, y_env := env\<rparr>;
               case entry of
                 None \<Rightarrow> say (str ''Unknown command: %s'' @ NL) [KStr (argv ! 0)] s
               | Some e \<Rightarrow> do { s \<leftarrow> run e s; Some (s\<lparr>y_env := (y_env s)\<lparr>g_app_running := False\<rparr>\<rparr>) } } })"

section \<open>Commands\<close>

definition dispatch :: "elf_loader \<Rightarrow> u64 \<Rightarrow> ('u \<Rightarrow> bytes \<times> 'u) \<Rightarrow> ('u \<Rightarrow> 'u) \<Rightarrow>
    (UserEntry \<Rightarrow> ('d, 'u) Sys \<Rightarrow> ('d, 'u) Sys option) \<Rightarrow> bytes list \<Rightarrow> ('d, 'u) Sys \<Rightarrow> ('d, 'u) Sys option" where
  "dispatch ldr app_entry poll force run argv s =
     (let cmd = argv ! 0
      in if is_cmd cmd ''cat'' then (if length argv = 1 then cat_loop poll s else cat_file s (argv ! 1))
         else if is_cmd cmd ''clear'' then cmd_clear s
         else if is_cmd cmd ''echo'' then cmd_echo s argv
         else if is_cmd cmd ''ls'' then cmd_ls s
         else if is_cmd cmd ''rm'' then cmd_rm s argv
         else if is_cmd cmd ''logger'' then cmd_logger poll force s argv
         else if is_cmd cmd ''sys'' then cmd_sys s
         else cmd_program ldr app_entry force run s argv)"

definition ExecuteSingleCommand :: "elf_loader \<Rightarrow> u64 \<Rightarrow> ('u \<Rightarrow> bytes \<times> 'u) \<Rightarrow> ('u \<Rightarrow> 'u) \<Rightarrow>
    (UserEntry \<Rightarrow> ('d, 'u) Sys \<Rightarrow> ('d, 'u) Sys option) \<Rightarrow> bytes \<Rightarrow> nat \<Rightarrow> ('d, 'u) Sys \<Rightarrow> (bytes \<times> ('d, 'u) Sys) option" where
  "ExecuteSingleCommand ldr app_entry poll force run buf cmd_line s =
     (let (offsets, buf) = split_args buf cmd_line [];
          argv = map (arg_string buf) offsets
      in if argv = [] then Some (buf, s)
         else do { s \<leftarrow> dispatch ldr app_entry poll force run argv s; Some (buf, s) })"

definition sizeof_PipeFD :: u64 where
  "sizeof_PipeFD = 32"

text \<open>The index of the first \<open>'|'\<close> before the cursor.\<close>

definition pipe_index :: "Shell \<Rightarrow> nat option" where
  "pipe_index sh = List.find (\<lambda>i. sh_buffer sh ! i = 0x7C) [0..<cursor_pos sh]"

text \<open>\<open>pmem\<close> is what the memory of a new pipe buffer holds.\<close>

definition ExecuteCommand :: "elf_loader \<Rightarrow> u64 \<Rightarrow> ('u \<Rightarrow> bytes \<times> 'u) \<Rightarrow> ('u \<Rightarrow> 'u) \<Rightarrow>
    (UserEntry \<Rightarrow> ('d, 'u) Sys \<Rightarrow> ('d, 'u) Sys option) \<Rightarrow> bytes \<Rightarrow> Shell \<Rightarrow> ('d, 'u) Sys \<Rightarrow> (Shell \<times> ('d, 'u) Sys) option" where
  "ExecuteCommand ldr app_entry poll force run pmem sh s =
     (if cursor_pos sh = 0 then Some (sh, s)
      else
        let exec = ExecuteSingleCommand ldr app_entry poll force run
        in case pipe_index sh of
             None \<Rightarrow> do { (buf, s) \<leftarrow> exec (sh_buffer sh) 0 s; Some (sh\<lparr>sh_buffer := buf\<rparr>, s) }
           | Some i \<Rightarrow>
               let buf = (sh_buffer sh)[i := 0];
                   (p, h) = operator_new (heap_of s) sizeof_PipeFD
               in if p = 0 then None
                  else do {
                    let (pipe, h) = PipeFD_new h pmem;
                    let s = set_heap s h;
                    let original_stdout = fd_at s 1;
                    (buf, s) \<leftarrow> exec buf 0 (set_fd s 1 (Some (p, PipeObj pipe)));
                    let pipe = fd_at s 1;
                    let s = set_fd s 1 original_stdout;
                    let original_stdin = fd_at s 0;
                    (buf, s) \<leftarrow> exec buf (i + 1) (set_fd s 0 pipe);
                    let pipe = fd_at s 0;
                    let s = set_fd s 0 original_stdin;
                    obj \<leftarrow> pipe;
                    Some (sh\<lparr>sh_buffer := buf\<rparr>, set_heap s (fd_delete (heap_of s) obj)) })"

definition PrintPrompt :: "('d, 'u) Sys \<Rightarrow> ('d, 'u) Sys option" where
  "PrintPrompt = say (str ''Sylphia:/$ '') []"

definition OnKey :: "elf_loader \<Rightarrow> u64 \<Rightarrow> ('u \<Rightarrow> bytes \<times> 'u) \<Rightarrow> ('u \<Rightarrow> 'u) \<Rightarrow>
    (UserEntry \<Rightarrow> ('d, 'u) Sys \<Rightarrow> ('d, 'u) Sys option) \<Rightarrow> bytes \<Rightarrow> u8 \<Rightarrow> Shell \<Rightarrow> ('d, 'u) Sys \<Rightarrow> (Shell \<times> ('d, 'u) Sys) option" where
  "OnKey ldr app_entry poll force run pmem c sh s =
     (if c = 0 then Some (sh, s)
      else if c = 0x0A then do {
        s \<leftarrow> say NL [] s;
        (sh, s) \<leftarrow> ExecuteCommand ldr app_entry poll force run pmem sh s;
        let sh = sh\<lparr>cursor_pos := 0, sh_buffer := replicate kMaxCommandLen 0\<rparr>;
        s \<leftarrow> PrintPrompt s;
        Some (sh, s) }
      else if c = 0x08 then
        (if cursor_pos sh > 0
         then do {
           let sh = sh\<lparr>cursor_pos := cursor_pos sh - 1, sh_buffer := (sh_buffer sh)[cursor_pos sh - 1 := 0]\<rparr>;
           s \<leftarrow> say [0x08] [] s;
           Some (sh, s) }
         else Some (sh, s))
      else if cursor_pos sh < kMaxCommandLen - 1
      then do {
        let sh = sh\<lparr>sh_buffer := (sh_buffer sh)[cursor_pos sh := c], cursor_pos := cursor_pos sh + 1\<rparr>;
        s \<leftarrow> say (str ''%s'') [KStr [c, 0]] s;
        Some (sh, s) }
      else Some (sh, s))"

section \<open>Splitting a line into words\<close>

text \<open>The words of a line: its maximal runs of other characters than the space.\<close>

function words :: "bytes \<Rightarrow> bytes list" where
  "words line =
     (case dropWhile (\<lambda>c. c = 0x20) line of [] \<Rightarrow> []
      | c # rest \<Rightarrow> (c # takeWhile (\<lambda>c. c \<noteq> 0x20) rest) # words (dropWhile (\<lambda>c. c \<noteq> 0x20) rest))"
  by pat_completeness auto
termination
proof (relation "measure length", goal_cases)
  case (2 line c rest)
  have "length (dropWhile (\<lambda>c. c \<noteq> 0x20) rest) < length (dropWhile (\<lambda>c. c = 0x20) line)"
    using 2 length_dropWhile_le [of "\<lambda>c. c \<noteq> 0x20" rest] by simp
  also have "\<dots> \<le> length line" by (rule length_dropWhile_le)
  finally show ?case by simp
qed simp

declare words.simps [simp del]

definition cut_spaces :: "bytes \<Rightarrow> bytes" where
  "cut_spaces = map (\<lambda>c. if c = 0x20 then 0 else c)"

lemma skip_spaces_line:
  "skip_spaces (pre @ replicate k 0x20 @ c # rest) (length pre) =
     (if c = 0x20 then skip_spaces (pre @ replicate (Suc k) 0 @ rest) (length pre + Suc k)
      else (pre @ replicate k 0 @ c # rest, length pre + k))"
proof (induction k arbitrary: pre)
  case 0
  show ?case by (subst skip_spaces.simps) (simp add: nth_append)
next
  case (Suc k)
  have "skip_spaces (pre @ replicate (Suc k) 0x20 @ c # rest) (length pre) =
      skip_spaces ((pre @ [0]) @ replicate k 0x20 @ c # rest) (length (pre @ [0]))"
    by (subst skip_spaces.simps) (simp add: nth_append)
  also have "\<dots> = (if c = 0x20 then skip_spaces (pre @ replicate (Suc (Suc k)) 0 @ rest) (length pre + Suc (Suc k))
      else (pre @ replicate (Suc k) 0 @ c # rest, length pre + Suc k))"
    unfolding Suc.IH by simp
  finally show ?case .
qed

lemma skip_word_line:
  "\<forall>c\<in>set w. c \<noteq> 0 \<and> c \<noteq> 0x20 \<Longrightarrow> d = 0 \<or> d = 0x20 \<Longrightarrow>
     skip_word (pre @ w @ d # rest) (length pre) = length pre + length w"
proof (induction w arbitrary: pre)
  case Nil
  then show ?case by (subst skip_word.simps) (auto simp: nth_append)
next
  case (Cons c w)
  have "skip_word (pre @ (c # w) @ d # rest) (length pre) = skip_word ((pre @ [c]) @ w @ d # rest) (length (pre @ [c]))"
    using Cons.prems by (subst skip_word.simps) (simp add: nth_append)
  also have "\<dots> = length (pre @ [c]) + length w" by (rule Cons.IH) (use Cons.prems in simp_all)
  finally show ?case by simp
qed

lemma cstr_word: "\<forall>c\<in>set w. c \<noteq> 0 \<Longrightarrow> cstr (w @ 0 # rest) = w"
  by (induction w) (simp_all add: cstr_rec)

lemma cut_word: "\<forall>c\<in>set w. c \<noteq> 0x20 \<Longrightarrow> cut_spaces w = w"
  by (induction w) (simp_all add: cut_spaces_def)

lemma leading_spaces: obtains k where "line = replicate k 0x20 @ dropWhile (\<lambda>c. c = (0x20 :: u8)) line"
proof
  have "takeWhile (\<lambda>c. c = 0x20) line = replicate (length (takeWhile (\<lambda>c. c = 0x20) line)) 0x20"
    by (rule sym, rule replicate_length_same) (auto dest: set_takeWhileD)
  then show "line = replicate (length (takeWhile (\<lambda>c. c = 0x20) line)) 0x20 @ dropWhile (\<lambda>c. c = 0x20) line"
    by (metis takeWhile_dropWhile_id)
qed

lemma split_args_spec:
  assumes "0 \<notin> set line" "length argv + length (words line) < 32"
  shows "\<exists>offs. split_args (pre @ line @ 0 # rest) (length pre) argv = (argv @ offs, pre @ cut_spaces line @ 0 # rest) \<and>
    map (arg_string (pre @ cut_spaces line @ 0 # rest)) offs = words line"
  using assms
proof (induction line arbitrary: pre argv rule: words.induct)
  case (1 line)
  let ?buf = "pre @ line @ 0 # rest"
  obtain k where k: "line = replicate k 0x20 @ dropWhile (\<lambda>c. c = 0x20) line" by (rule leading_spaces)
  show ?case
  proof (cases "dropWhile (\<lambda>c. c = 0x20) line")
    case Nil
    have line: "line = replicate k 0x20" using k unfolding Nil by simp
    have s: "skip_spaces ?buf (length pre) = (pre @ replicate k 0 @ 0 # rest, length pre + k)"
      using skip_spaces_line [of pre k 0 rest] by (simp add: line)
    have "split_args ?buf (length pre) argv = (argv, pre @ replicate k 0 @ 0 # rest)"
    proof (cases k)
      case 0
      then show ?thesis by (subst split_args.simps) (simp add: line nth_append)
    next
      case (Suc n)
      then have "?buf ! length pre \<noteq> 0" by (simp add: line nth_append)
      then show ?thesis by (subst split_args.simps) (simp add: s, simp add: nth_append)
    qed
    moreover have "words line = []" by (subst words.simps) (simp add: Nil)
    ultimately show ?thesis by (simp add: line cut_spaces_def map_replicate)
  next
    case (Cons c r)
    define w where "w = c # takeWhile (\<lambda>c. c \<noteq> 0x20) r"
    define t where "t = dropWhile (\<lambda>c. c \<noteq> 0x20) r"
    have cr: "c # r = w @ t" by (simp add: w_def t_def)
    have line: "line = replicate k 0x20 @ w @ t" using k unfolding Cons cr .
    have c: "c \<noteq> 0x20" using hd_dropWhile [of "\<lambda>c. c = 0x20" line] unfolding Cons by simp
    have "0 \<notin> set w" using 1(2) unfolding line by simp
    then have w: "\<forall>c\<in>set w. c \<noteq> 0 \<and> c \<noteq> 0x20" using c by (auto simp: w_def dest: set_takeWhileD)
    have ws: "words line = w # words t" by (subst words.simps) (simp add: Cons w_def t_def)
    obtain d u where du: "t @ 0 # rest = d # u" "d = 0 \<or> d = 0x20"
    proof (cases t)
      case Nil
      then show ?thesis using that by simp
    next
      case (Cons d u)
      then have "d = 0x20" using hd_dropWhile [of "\<lambda>c. c \<noteq> 0x20" r] by (auto simp: t_def)
      then show ?thesis using that Cons by simp
    qed
    let ?pre = "pre @ replicate k 0"
    have s: "skip_spaces ?buf (length pre) = (?pre @ w @ t @ 0 # rest, length ?pre)"
      using skip_spaces_line [of pre k c "takeWhile (\<lambda>c. c \<noteq> 0x20) r @ t @ 0 # rest"] c unfolding line by (simp add: w_def)
    have sw: "skip_word (?pre @ w @ t @ 0 # rest) (length ?pre) = length (?pre @ w)"
      using skip_word_line [OF w du(2), of ?pre u] by (simp add: du(1))
    have "c \<noteq> 0" using w by (simp add: w_def)
    have nz: "?buf ! length pre \<noteq> 0"
    proof -
      have "?buf = pre @ (replicate k 0x20 @ w @ t) @ 0 # rest" using line by (rule arg_cong)
      then show ?thesis using \<open>c \<noteq> 0\<close> by (cases k) (simp_all add: nth_append w_def)
    qed
    have len: "length argv + 1 + length (words t) < 32" using 1(3) ws by simp
    have "split_args ?buf (length pre) argv =
        split_args ((?pre @ w) @ t @ 0 # rest) (length (?pre @ w)) (argv @ [length ?pre])"
      using nz len \<open>c \<noteq> 0\<close> by (subst split_args.simps) (simp add: s sw [simplified] nth_append, simp add: w_def)
    moreover have "0 \<notin> set t" using 1(2) unfolding line by simp
    from 1(1) [OF Cons, folded t_def, OF this, of "argv @ [length ?pre]" "?pre @ w"] len
    obtain offs where o: "split_args ((?pre @ w) @ t @ 0 # rest) (length (?pre @ w)) (argv @ [length ?pre]) =
        ((argv @ [length ?pre]) @ offs, (?pre @ w) @ cut_spaces t @ 0 # rest)"
      "map (arg_string ((?pre @ w) @ cut_spaces t @ 0 # rest)) offs = words t" by auto
    moreover have cut: "pre @ cut_spaces line @ 0 # rest = (?pre @ w) @ cut_spaces t @ 0 # rest"
      using cut_word [of w] w unfolding line by (simp add: cut_spaces_def map_replicate)
    moreover have "arg_string ((?pre @ w) @ cut_spaces t @ 0 # rest) (length ?pre) = w"
    proof -
      have "\<exists>v. cut_spaces t @ 0 # rest = 0 # v" using du by (cases t) (auto simp: cut_spaces_def)
      then show ?thesis using cstr_word [of w] w by (auto simp: arg_string_def)
    qed
    ultimately show ?thesis by (intro exI [of _ "length ?pre # offs"]) (simp add: ws)
  qed
qed

section \<open>Typing\<close>

text \<open>The console after some text.\<close>

definition shown :: "(Console \<times> frame) option \<Rightarrow> bytes \<Rightarrow> (Console \<times> frame) option" where
  "shown con out = map_option (\<lambda>(con, fb). PutString con fb out) con"

lemma shown_Nil [simp]: "shown con [] = con"
  by (cases con) (auto simp: shown_def)

lemma shown_shown: "0 \<notin> set s \<Longrightarrow> shown (shown con s) t = shown con (s @ t)"
  by (cases con) (auto simp: shown_def PutString_append split: prod.split)

lemma say_text:
  assumes "render (karg_mem args) fmt (map karg_word (enumerate 0 args)) = Some out" "0 \<notin> set out"
  shows "say fmt args s = Some (s\<lparr>y_con := shown (y_con s) out\<rparr>)"
proof (cases "y_con s")
  case None
  then show ?thesis by (simp add: say_def kprintf_def shown_def)
next
  case (Some cf)
  then show ?thesis using kprintf_text [OF assms, of "fst cf" "snd cf"] by (auto simp: say_def shown_def split: prod.split)
qed

lemma render_plain: "0 \<notin> set fmt \<Longrightarrow> 0x25 \<notin> set fmt \<Longrightarrow> render mem fmt args = Some fmt"
  by (induction fmt) (auto simp: render.simps(2))

lemma say_plain: "0 \<notin> set fmt \<Longrightarrow> 0x25 \<notin> set fmt \<Longrightarrow> say fmt [] s = Some (s\<lparr>y_con := shown (y_con s) fmt\<rparr>)"
  by (rule say_text) (simp_all add: render_plain)

lemma say_char: "c \<noteq> 0 \<Longrightarrow> say (str ''%s'') [KStr [c, 0]] s = Some (s\<lparr>y_con := shown (y_con s) [c]\<rparr>)"
proof (rule say_text)
  assume c: "c \<noteq> 0"
  have "str ''%s'' = [0x25, 0x73]" by code_simp
  then show "render (karg_mem [KStr [c, 0]]) (str ''%s'') (map karg_word (enumerate 0 [KStr [c, 0]])) = Some [c]"
    using c by (simp add: render.simps conv_spec_def str_chars Let_def karg_word_def karg_mem_def pad_left_def cstr_rec)
qed simp

text \<open>The editor: the line so far, and the echo of each key.\<close>

definition edit_key :: "u8 \<Rightarrow> bytes \<Rightarrow> bytes \<times> bytes" where
  "edit_key c line =
     (if c = 0 then (line, [])
      else if c = 0x08 then (if line = [] then ([], []) else (butlast line, [0x08]))
      else if length line < 99 then (line @ [c], [c])
      else (line, []))"

fun edit :: "bytes \<Rightarrow> bytes \<Rightarrow> bytes \<times> bytes" where
  "edit [] line = (line, [])"
| "edit (c # cs) line =
     (let (line, out) = edit_key c line; (line, outs) = edit cs line in (line, out @ outs))"

definition shell_at :: "bytes \<Rightarrow> Shell" where
  "shell_at line = \<lparr>sh_buffer = line @ replicate (kMaxCommandLen - length line) 0, cursor_pos = length line, current_cluster = 0\<rparr>"

fun OnKeys :: "elf_loader \<Rightarrow> u64 \<Rightarrow> ('u \<Rightarrow> bytes \<times> 'u) \<Rightarrow> ('u \<Rightarrow> 'u) \<Rightarrow>
    (UserEntry \<Rightarrow> ('d, 'u) Sys \<Rightarrow> ('d, 'u) Sys option) \<Rightarrow> bytes \<Rightarrow> bytes \<Rightarrow> Shell \<Rightarrow> ('d, 'u) Sys \<Rightarrow> (Shell \<times> ('d, 'u) Sys) option" where
  "OnKeys ldr e poll force run pmem [] sh s = Some (sh, s)"
| "OnKeys ldr e poll force run pmem (c # cs) sh s =
     Option.bind (OnKey ldr e poll force run pmem c sh s) (\<lambda>(sh, s). OnKeys ldr e poll force run pmem cs sh s)"

lemma OnKey_edit:
  assumes "c \<noteq> 0x0A" "length line < 100" "edit_key c line = (line', out)"
  shows "OnKey ldr e poll force run pmem c (shell_at line) s = Some (shell_at line', s\<lparr>y_con := shown (y_con s) out\<rparr>)"
    "length line' < 100" "0 \<notin> set out"
proof -
  have put: "(line @ replicate (kMaxCommandLen - length line) 0)[length line := c] =
      (line @ [c]) @ replicate (kMaxCommandLen - length (line @ [c])) 0" if "length line < 99"
  proof -
    have "kMaxCommandLen - length line = Suc (kMaxCommandLen - length (line @ [c]))"
      using that by (simp add: kMaxCommandLen_def)
    then show ?thesis by simp
  qed
  have del: "(line @ replicate (kMaxCommandLen - length line) 0)[length line - 1 := 0] =
      butlast line @ replicate (kMaxCommandLen - length (butlast line)) 0" if "line \<noteq> []"
  proof -
    have "kMaxCommandLen - length (butlast line) = Suc (kMaxCommandLen - length line)"
      using that assms(2) by (cases line rule: rev_cases) (simp_all add: kMaxCommandLen_def)
    then show ?thesis using that by (cases line rule: rev_cases) simp_all
  qed
  consider "c = 0" | "c = 0x08" "line = []" | "c = 0x08" "line \<noteq> []" | "c \<noteq> 0" "c \<noteq> 0x08" "length line < 99"
    | "c \<noteq> 0" "c \<noteq> 0x08" "\<not> length line < 99" by blast
  then show "OnKey ldr e poll force run pmem c (shell_at line) s = Some (shell_at line', s\<lparr>y_con := shown (y_con s) out\<rparr>)"
  proof cases
    case 3
    then have r: "line' = butlast line" "out = [0x08]" using assms(3) by (simp_all add: edit_key_def)
    show ?thesis using 3 del by (simp add: OnKey_def shell_at_def say_plain r)
  next
    case 4
    then have r: "line' = line @ [c]" "out = [c]" using assms(3) by (auto simp: edit_key_def)
    have "cursor_pos (shell_at line) < kMaxCommandLen - 1" using 4 by (simp add: shell_at_def kMaxCommandLen_def)
    then show ?thesis using 4 put assms(1) by (simp add: OnKey_def shell_at_def say_char r)
  qed (use assms in \<open>simp_all add: OnKey_def edit_key_def shell_at_def kMaxCommandLen_def\<close>)
  show "length line' < 100" "0 \<notin> set out" using assms by (auto simp: edit_key_def split: if_splits)
qed

lemma OnKeys_edit:
  assumes "0x0A \<notin> set keys" "length line < 100" "edit keys line = (line', out)"
  shows "OnKeys ldr e poll force run pmem keys (shell_at line) s = Some (shell_at line', s\<lparr>y_con := shown (y_con s) out\<rparr>) \<and>
    length line' < 100 \<and> 0 \<notin> set out"
  using assms
proof (induction keys arbitrary: line out s)
  case Nil
  then show ?case by simp
next
  case (Cons c keys)
  obtain l1 o1 where k: "edit_key c line = (l1, o1)" by fastforce
  obtain o2 where r: "edit keys l1 = (line', o2)" "out = o1 @ o2" using Cons.prems(3) k by (auto split: prod.splits)
  have "c \<noteq> 0x0A" using Cons.prems(1) by auto
  note K = OnKey_edit(1) [OF this Cons.prems(2) k, where s = s] OnKey_edit(2,3) [OF this Cons.prems(2) k]
  show ?case
    using Cons.IH [OF _ K(2) r(1), of "s\<lparr>y_con := shown (y_con s) o1\<rparr>"] K Cons.prems(1) r(2) by (auto simp: shown_shown)
qed

lemma edit_plain: "\<forall>c\<in>set keys. c \<noteq> 0 \<and> c \<noteq> 0x08 \<Longrightarrow> length line + length keys < 100 \<Longrightarrow> edit keys line = (line @ keys, keys)"
  by (induction keys arbitrary: line) (simp_all add: edit_key_def)

lemma Shell_new_at: "Shell_new = shell_at []"
  by (simp add: Shell_new_def shell_at_def)

section \<open>A pipeline\<close>

lemma words_simps:
  "words [] = []" "words (0x20 # line) = words line"
  by (subst words.simps; simp)+

lemma words_word:
  assumes "w \<noteq> []" "\<forall>c\<in>set w. c \<noteq> 0x20"
  shows "words (w @ 0x20 # line) = w # words line" "words w = [w]"
proof -
  obtain c v where w: "w = c # v" using assms(1) by (cases w) auto
  have d: "dropWhile (\<lambda>c. c \<noteq> 0x20) (v @ 0x20 # line) = 0x20 # line" "takeWhile (\<lambda>c. c \<noteq> 0x20) (v @ 0x20 # line) = v"
    "dropWhile (\<lambda>c. c \<noteq> 0x20) v = []" "takeWhile (\<lambda>c. c \<noteq> 0x20) v = v"
    using assms(2) by (auto simp: w dropWhile_append2 takeWhile_append2 dropWhile_eq_Nil_conv takeWhile_eq_all_conv)
  have c: "c \<noteq> 0x20" using assms(2) w by simp
  show "words (w @ 0x20 # line) = w # words line" "words w = [w]"
    by (subst words.simps, simp add: w c d words_simps)+
qed

text \<open>The console as a descriptor, and a pipe between two commands.\<close>

lemma console_shown: "0 \<notin> set bs \<Longrightarrow> snd (ConsoleFD_Write con bs) = shown con bs"
proof -
  assume "0 \<notin> set bs"
  then have "filter (\<lambda>c. c \<noteq> 0) bs = bs" by (simp add: filter_id_conv) metis
  then show ?thesis by (auto simp: ConsoleFD_Write_def shown_def console_write_spec split: option.split prod.split)
qed

lemma drain_addr: "pp_addr (snd (drain pp_count pp_take n pp)) = pp_addr pp"
  by (induction n arbitrary: pp) (simp_all add: pp_take_def split_beta)

lemma PipeFD_addr:
  "pp_addr (snd (PipeFD_Read pp n)) = pp_addr pp" "pp_addr (snd (PipeFD_Write pp bs)) = pp_addr pp"
proof -
  show "pp_addr (snd (PipeFD_Read pp n)) = pp_addr pp" by (simp add: PipeFD_Read_def drain_addr)
  show "pp_addr (snd (PipeFD_Write pp bs)) = pp_addr pp"
    by (induction bs arbitrary: pp) (simp_all add: pp_store_def split_beta)
qed

lemma cat_loop_console:
  assumes "fd_at s 0 = Some (p, PipeObj pp)" "fd_at s 1 = Some (q, ConsoleObj)" "length (y_fds s) = 16"
    and "pp_inv pp" "pp_rep pp = bs" "0 < length bs" "length bs \<le> 127" "0 \<notin> set bs"
  shows "\<exists>pp'. cat_loop poll s = Some ((set_fd s 0 (Some (p, PipeObj pp')))\<lparr>y_con := shown (y_con s) bs\<rparr>) \<and> pp_addr pp' = pp_addr pp"
proof -
  obtain b1 pp1 where r1: "PipeFD_Read pp 127 = (b1, pp1)" by fastforce
  note R1 = PipeFD_Read_spec [OF assms(4) r1]
  have b1: "b1 = bs" "pp_rep pp1 = []" using R1 assms(5,7) by simp_all
  obtain b2 pp2 where r2: "PipeFD_Read pp1 127 = (b2, pp2)" by fastforce
  note R2 = PipeFD_Read_spec [OF R1(2) r2]
  have b2: "b2 = []" using R2 b1 by simp
  have addr: "pp_addr pp2 = pp_addr pp" using PipeFD_addr(1) [of pp 127] PipeFD_addr(1) [of pp1 127] by (simp add: r1 r2)
  define s1 where "s1 = set_fd s 0 (Some (p, PipeObj pp1))"
  define s2 where "s2 = s1\<lparr>y_con := shown (y_con s) bs\<rparr>"
  have read1: "fd_Read poll s 0 127 = (int (length bs), bs, s1)"
    using assms(1) r1 b1(1) by (simp add: fd_Read_def s1_def)
  have at1: "fd_at s1 0 = Some (p, PipeObj pp1)" "fd_at s1 1 = Some (q, ConsoleObj)"
    using assms(2,3) by (simp_all add: s1_def fd_at_def)
  have wr: "out_write s1 bs = Some s2"
    using at1(2) console_shown [OF assms(8)]
    by (simp add: out_write_def fd_Write_def s2_def Let_def split_beta) (simp add: s1_def set_fd_def)
  have at2: "fd_at s2 0 = Some (p, PipeObj pp1)" using at1(1) by (simp add: s2_def fd_at_def)
  have read2: "fd_Read poll s2 0 127 = (0, [], set_fd s2 0 (Some (p, PipeObj pp2)))"
    using at2 r2 b2 by (simp add: fd_Read_def)
  have "cat_loop poll s2 = Some (set_fd s2 0 (Some (p, PipeObj pp2)))"
    using at2 read2 by (subst cat_loop.simps) simp
  then have "cat_loop poll s = Some (set_fd s2 0 (Some (p, PipeObj pp2)))"
    using assms(1,6) read1 wr at2 by (subst cat_loop.simps) simp
  then show ?thesis using addr by (intro exI [of _ pp2]) (simp add: s2_def s1_def set_fd_def)
qed


lemma exec_line:
  assumes "0 \<notin> set line" "words line \<noteq> []" "length (words line) < 32"
  shows "ExecuteSingleCommand ldr e poll force run (pre @ line @ 0 # rest) (length pre) s =
    map_option (Pair (pre @ cut_spaces line @ 0 # rest)) (dispatch ldr e poll force run (words line) s)"
proof -
  obtain offs where "split_args (pre @ line @ 0 # rest) (length pre) [] = (offs, pre @ cut_spaces line @ 0 # rest)"
    "map (arg_string (pre @ cut_spaces line @ 0 # rest)) offs = words line"
    using split_args_spec [of line "[]" pre rest] assms by auto
  moreover from this(2) have "offs \<noteq> []" using assms(2) by auto
  ultimately show ?thesis by (cases "dispatch ldr e poll force run (words line) s") (simp_all add: ExecuteSingleCommand_def)
qed

lemma command_names:
  "is_cmd (str ''echo'') ''cat'' = False" "is_cmd (str ''echo'') ''clear'' = False" "is_cmd (str ''echo'') ''echo'' = True"
  "is_cmd (str ''cat'') ''cat'' = True"
  by code_simp+

lemma pipe_cut:
  assumes "0x7C \<notin> set a" "length (a @ 0x7C # b) < 100"
  shows "pipe_index (shell_at (a @ 0x7C # b)) = Some (length a)"
    "\<exists>z. (sh_buffer (shell_at (a @ 0x7C # b)))[length a := 0] = a @ 0 # b @ 0 # z"
proof -
  let ?z = "replicate (kMaxCommandLen - length (a @ 0x7C # b)) (0 :: u8)"
  have "(a @ 0x7C # b @ ?z) ! j \<noteq> 0x7C" if "j < length a" for j
    using assms(1) nth_mem [OF that] that by (metis nth_append)
  then show "pipe_index (shell_at (a @ 0x7C # b)) = Some (length a)"
    unfolding pipe_index_def by (intro find_upt_SomeI) (simp_all add: shell_at_def)
  have "?z = 0 # replicate (kMaxCommandLen - length (a @ 0x7C # b) - 1) 0"
    using assms(2) by (simp add: kMaxCommandLen_def replicate_Suc [symmetric] del: replicate_Suc)
  then show "\<exists>z. (sh_buffer (shell_at (a @ 0x7C # b)))[length a := 0] = a @ 0 # b @ 0 # z"
    by (intro exI) (simp add: shell_at_def)
qed


text \<open>The two blocks of a pipe, taken and given back.\<close>

lemma block_first: "admissible sz \<Longrightarrow> unat p div kFrameSize \<in> block p sz"
  by (simp add: block_def frames_of_pos)

lemma pipe_released:
  assumes "mm_inv (kmm h)" "operator_new h sizeof_PipeFD = (p, h1)" "p \<noteq> 0" "PipeFD_new h1 pmem = (pp, h2)" "pp_addr pp \<noteq> 0"
    and "pp_addr pp' = pp_addr pp"
  shows "kmm (fd_delete h2 (p, PipeObj pp')) = kmm h"
proof -
  have adm: "admissible (sizeof_PipeFD + kHeaderSize)" "admissible (of_nat kPipeBufferSize + kHeaderSize)"
    by (simp_all add: admissible_def sizeof_PipeFD_def kHeaderSize_def kPipeBufferSize_def)
  obtain r where r: "Allocate (kmm h) (sizeof_PipeFD + kHeaderSize) = (r, kmm h1)" "p = r + kHeaderSize" "r \<noteq> 0"
    "cells h1 = (cells h)(r := sizeof_PipeFD + kHeaderSize)"
    using operator_new_fits [OF assms(2,3)] by metis
  have "operator_new h1 (of_nat kPipeBufferSize) = (pp_addr pp, h2)"
    using assms(4) by (auto simp: PipeFD_new_def split: prod.splits)
  from operator_new_fits [OF this assms(5)]
  obtain q where q: "Allocate (kmm h1) (of_nat kPipeBufferSize + kHeaderSize) = (q, kmm h2)" "pp_addr pp = q + kHeaderSize" "q \<noteq> 0"
    "cells h2 = (cells h1)(q := of_nat kPipeBufferSize + kHeaderSize)" by metis
  note u = mmgr.alloc_used [OF assms(1) adm(1) r(1,3)]
  then have inv1: "mm_inv (kmm h1)" by blast
  have "block q (of_nat kPipeBufferSize + kHeaderSize) \<inter> block r (sizeof_PipeFD + kHeaderSize) = {}"
    using mmgr.alloc_fresh [OF inv1 adm(2) q(1,3)] u by blast
  then have "q \<noteq> r" using block_first [OF adm(1), of r] block_first [OF adm(2), of q] by auto
  moreover have "Free (kmm h2) q (of_nat kPipeBufferSize + kHeaderSize) = kmm h1"
    by (rule Free_Allocate [OF inv1 adm(2) q(1,3)])
  moreover have "Free (kmm h1) r (sizeof_PipeFD + kHeaderSize) = kmm h"
    by (rule Free_Allocate [OF assms(1) adm(1) r(1,3)])
  ultimately show ?thesis
    using assms(3,5,6) q r by (simp add: fd_delete_def PipeFD_delete_def operator_delete_def Let_def)
qed


lemma OnKeys_append:
  "OnKeys ldr e poll force run pmem (a @ b) sh s =
     Option.bind (OnKeys ldr e poll force run pmem a sh s) (\<lambda>(sh, s). OnKeys ldr e poll force run pmem b sh s)"
  by (induction a arbitrary: sh s) (simp_all add: split_beta cong: Option.bind_cong)

lemma echo_text: "str ''echo '' = str ''echo'' @ [0x20]" "str '' | cat'' = [0x20, 0x7C] @ str '' cat''" "str '' cat'' = 0x20 # str ''cat''"
  "length (str ''echo'') = 4" "length (str ''cat'') = 3" "0 \<notin> set (str ''echo'')" "0x20 \<notin> set (str ''echo'')"
  "0x7C \<notin> set (str ''echo'')" "0 \<notin> set (str ''cat'')" "0x20 \<notin> set (str ''cat'')" "str ''echo'' \<noteq> []" "str ''cat'' \<noteq> []"
  by code_simp+

lemma echo_into_pipe:
  assumes "fd_at s 1 = Some (p, PipeObj pp)" "length (y_fds s) = 16" "pp_inv pp" "pp_rep pp = []" "length w < 4096" "0 \<notin> set w"
  shows "\<exists>pp'. dispatch ldr e poll force run [str ''echo'', w] s = Some (set_fd s 1 (Some (p, PipeObj pp'))) \<and>
    pp_inv pp' \<and> pp_rep pp' = w @ [0x0A] \<and> pp_addr pp' = pp_addr pp"
proof -
  obtain n1 pp1 where w1: "PipeFD_Write pp w = (n1, pp1)" by fastforce
  note W1 = PipeFD_Write_spec [OF assms(3) w1]
  obtain n2 pp2 where w2: "PipeFD_Write pp1 [0x0A] = (n2, pp2)" by fastforce
  note W2 = PipeFD_Write_spec [OF W1(2) w2]
  have rep1: "pp_rep pp1 = w" using W1 assms(4,5) by (simp add: kPipeBufferSize_def)
  have rep2: "pp_rep pp2 = w @ [0x0A]" using W2 rep1 assms(5) by (simp add: kPipeBufferSize_def)
  have addr: "pp_addr pp2 = pp_addr pp"
    using PipeFD_addr(2) [of pp w] PipeFD_addr(2) [of pp1 "[0x0A]"] unfolding w1 w2 by simp
  have "cstr w = w" using assms(6) by (auto simp: cstr_def takeWhile_eq_all_conv)
  then have len: "take (c_strlen w) w = w" by (simp add: c_strlen_cstr)
  have o1: "out_write s w = Some (set_fd s 1 (Some (p, PipeObj pp1)))"
    using assms(1) w1 by (simp add: out_write_def fd_Write_def)
  have "fd_at (set_fd s 1 (Some (p, PipeObj pp1))) 1 = Some (p, PipeObj pp1)" using assms(2) by (simp add: fd_at_def)
  then have "out_write (set_fd s 1 (Some (p, PipeObj pp1))) [0x0A] = Some (set_fd s 1 (Some (p, PipeObj pp2)))"
    using w2 by (simp add: out_write_def fd_Write_def) (simp add: set_fd_def)
  then have "dispatch ldr e poll force run [str ''echo'', w] s = Some (set_fd s 1 (Some (p, PipeObj pp2)))"
    using o1 len by (simp add: dispatch_def command_names cmd_echo_def)
  then show ?thesis using W2(2) rep2 addr by blast
qed

lemma echo_pipe_cat:
  assumes fds: "fds_ok (y_fds s)" and mem: "mm_inv (kmem (y_k s))"
    and new: "operator_new (heap_of s) sizeof_PipeFD = (p, h1)" "p \<noteq> 0" "PipeFD_new h1 pmem = (pp, h2)" "pp_addr pp \<noteq> 0"
      "length pmem = kPipeBufferSize"
    and w: "w \<noteq> []" "\<forall>c\<in>set w. c \<notin> {0, 0x08, 0x0A, 0x20, 0x7C}" "length w \<le> 88"
  shows "\<exists>buf s'. ExecuteCommand ldr e poll force run pmem (shell_at (str ''echo '' @ w @ str '' | cat'')) s =
      Some ((shell_at (str ''echo '' @ w @ str '' | cat''))\<lparr>sh_buffer := buf\<rparr>, s') \<and>
    y_con s' = shown (y_con s) (w @ [0x0A]) \<and> y_fds s' = y_fds s \<and> kmem (y_k s') = kmem (y_k s)"
proof -
  define a where "a = str ''echo'' @ [0x20] @ w @ [0x20]"
  define b where "b = str '' cat''"
  let ?sh = "shell_at (a @ 0x7C # b)"
  have line: "str ''echo '' @ w @ str '' | cat'' = a @ 0x7C # b" by (simp add: a_def b_def echo_text)
  have sp: "\<forall>c\<in>set w. c \<noteq> 0x20" using w(2) by blast
  have wa: "words a = [str ''echo'', w]" "0 \<notin> set a" "0x7C \<notin> set a"
  proof -
    have "\<forall>c\<in>set (str ''echo''). c \<noteq> 0x20" using echo_text(7) by metis
    note e = words_word(1) [OF echo_text(11) this, of "w @ [0x20]"]
    show "words a = [str ''echo'', w]"
      using e words_word(1) [OF w(1) sp, of "[]"] by (simp add: a_def words_simps)
    show "0 \<notin> set a" "0x7C \<notin> set a" using w(2) echo_text(6,8) unfolding a_def by auto
  qed
  have wb: "words b = [str ''cat'']" "0 \<notin> set b"
  proof -
    have "\<forall>c\<in>set (str ''cat''). c \<noteq> 0x20" using echo_text(10) by metis
    from words_word(2) [OF echo_text(12) this] show "words b = [str ''cat'']" by (simp add: b_def echo_text(3) words_simps)
    show "0 \<notin> set b" using echo_text(9) by (simp add: b_def echo_text(3))
  qed
  have short: "length (a @ 0x7C # b) < 100" using w(3) by (simp add: a_def b_def echo_text)
  note pc = pipe_cut [OF wa(3) short]
  obtain z where z: "(sh_buffer ?sh)[length a := 0] = a @ 0 # b @ 0 # z" using pc(2) by blast
  have len16: "length (y_fds s) = 16" using fds by (simp add: fds_ok_def)
  have "slot_ok 1 (y_fds s ! 1)" "slot_ok 0 (y_fds s ! 0)" using fds by (simp_all add: fds_ok_def)
  then obtain q where q: "y_fds s ! 1 = Some (q, ConsoleObj)" by (auto simp: slot_ok_def)
  define s1 where "s1 = set_fd (set_heap s h2) 1 (Some (p, PipeObj pp))"
  have pp: "pp_inv pp" "pp_rep pp = []"
    using new(3,5) by (auto simp: PipeFD_new_def pp_inv_def pp_rep_def Prelude.ring_ok_def kPipeBufferSize_def split: prod.splits)
  have "fd_at s1 1 = Some (p, PipeObj pp)" "length (y_fds s1) = 16" using len16 by (simp_all add: s1_def fd_at_def)
  from echo_into_pipe [OF this pp, of w ldr e poll force run] w
  obtain pp1 where e1: "dispatch ldr e poll force run (words a) s1 = Some (set_fd s1 1 (Some (p, PipeObj pp1)))"
    "pp_inv pp1" "pp_rep pp1 = w @ [0x0A]" "pp_addr pp1 = pp_addr pp" by (auto simp: wa)
  define s2 where "s2 = set_fd (set_fd (set_fd s1 1 (Some (p, PipeObj pp1))) 1 (fd_at (set_heap s h2) 1)) 0 (Some (p, PipeObj pp1))"
  have x1: "ExecuteSingleCommand ldr e poll force run (a @ 0 # b @ 0 # z) 0 s1 =
      Some (cut_spaces a @ 0 # b @ 0 # z, set_fd s1 1 (Some (p, PipeObj pp1)))"
    using exec_line [of a ldr e poll force run "[]" "b @ 0 # z" s1] wa e1(1) by simp
  have s2: "fd_at s2 0 = Some (p, PipeObj pp1)" "fd_at s2 1 = Some (q, ConsoleObj)" "length (y_fds s2) = 16"
    "y_con s2 = y_con s"
    using len16 q by (simp_all add: s2_def s1_def fd_at_def) (simp add: set_fd_def set_heap_def)
  have "0 < length (w @ [0x0A])" "length (w @ [0x0A]) \<le> 127" "0 \<notin> set (w @ [0x0A])" using w by auto
  from cat_loop_console [OF s2(1-3) e1(2,3) this, of poll]
  obtain pp2 where e2: "cat_loop poll s2 = Some ((set_fd s2 0 (Some (p, PipeObj pp2)))\<lparr>y_con := shown (y_con s) (w @ [0x0A])\<rparr>)"
    "pp_addr pp2 = pp_addr pp" using e1(4) s2(4) by auto
  define s3 where "s3 = (set_fd s2 0 (Some (p, PipeObj pp2)))\<lparr>y_con := shown (y_con s) (w @ [0x0A])\<rparr>"
  have lc: "length (cut_spaces a @ [0]) = length a + 1" by (simp add: cut_spaces_def)
  have x2: "ExecuteSingleCommand ldr e poll force run (cut_spaces a @ 0 # b @ 0 # z) (length a + 1) s2 =
      Some (cut_spaces a @ 0 # cut_spaces b @ 0 # z, s3)"
    using exec_line [of b ldr e poll force run "cut_spaces a @ [0]" z s2] wb e2(1)
    by (simp add: dispatch_def command_names lc [simplified] s3_def)
  define s4 where "s4 = set_heap (set_fd s3 0 (fd_at s 0)) (fd_delete h2 (p, PipeObj pp2))"
  have f0: "fd_at (set_fd (set_fd s1 1 (Some (p, PipeObj pp1))) 1 (fd_at (set_heap s h2) 1)) 0 = fd_at s 0"
    by (simp add: s1_def fd_at_def)
  have f1: "fd_at (set_fd s1 1 (Some (p, PipeObj pp1))) 1 = Some (p, PipeObj pp1)" using len16 by (simp add: s1_def fd_at_def)
  have f3: "fd_at s3 0 = Some (p, PipeObj pp2)" using s2(3) by (simp add: s3_def fd_at_def)
  have h3: "heap_of (set_fd s3 0 (fd_at s 0)) = h2" by (simp add: s3_def s2_def s1_def heap_of_def set_fd_def set_heap_def set_mem_def kmem_def)
  have ex: "ExecuteCommand ldr e poll force run pmem ?sh s = Some (?sh\<lparr>sh_buffer := cut_spaces a @ 0 # cut_spaces b @ 0 # z\<rparr>, s4)"
    using pc(1) new x1 x2 f3 h3
    by (simp add: ExecuteCommand_def z f0 f1 s1_def [symmetric] s2_def [symmetric] s4_def) (simp add: shell_at_def)
  have "y_fds s4 = y_fds s"
    using len16 q by (simp add: s4_def s3_def s2_def s1_def fd_at_def) (simp add: list_eq_iff_nth_eq nth_list_update)
  moreover have "kmm (fd_delete h2 (p, PipeObj pp2)) = kmem (y_k s)"
    using pipe_released [of "heap_of s", OF _ new(1-4), of pp2] mem e2(2) by (simp add: heap_of_def)
  ultimately show ?thesis
    unfolding line using ex by (intro exI [of _ "cut_spaces a @ 0 # cut_spaces b @ 0 # z"] exI [of _ s4])
      (simp add: s4_def s3_def set_heap_def set_fd_def)
qed


section \<open>Properties\<close>

text \<open>
  C34: the line editor. Whatever keys are typed before Enter, the buffer of the shell holds the
  edited line (at most 99 characters, a backspace takes away the last one), the rest of the
  buffer is zero, the cursor is at the end of the line, and the console shows exactly the echo
  of the keys that had an effect; nothing else changes.
\<close>

theorem line_editor:
  assumes "0x0A \<notin> set keys" "edit keys [] = (line, echo)"
  shows "\<exists>sh. OnKeys ldr e poll force run pmem keys Shell_new s = Some (sh, s\<lparr>y_con := shown (y_con s) echo\<rparr>) \<and>
    sh_buffer sh = line @ replicate (100 - length line) 0 \<and> cursor_pos sh = length line \<and> length line \<le> 99"
  using OnKeys_edit [OF assms(1) _ assms(2), of ldr e poll force run pmem s]
  by (auto simp: Shell_new_at) (simp_all add: shell_at_def kMaxCommandLen_def)

text \<open>
  the in-place splitting of a command line is equivalent to taking its words. For a line
  of fewer than 32 words that ends with a NUL, the strings at the offsets found are the maximal
  runs of characters other than the space, in order.
\<close>

theorem split_args_words:
  assumes "0 \<notin> set line" "length (words line) < 32" "split_args (line @ 0 # rest) 0 [] = (offsets, buf)"
  shows "map (arg_string buf) offsets = words line"
  using split_args_spec [of line "[]" "[]" rest] assms by auto

text \<open>
  C18: a pipeline from the keyboard to the console. Typing \<open>echo w | cat\<close> and Enter prints the
  echo of the line, then \<open>w\<close> on a line of its own, carried through the pipe, then the prompt; the
  command returns, the descriptors are those from before, the memory of the pipe is given back
  and the shell is ready for the next line.
\<close>

theorem typed_pipeline:
  assumes fds: "fds_ok (y_fds s)" and mem: "mm_inv (kmem (y_k s))"
    and new: "operator_new (heap_of s) sizeof_PipeFD = (p, h1)" "p \<noteq> 0" "PipeFD_new h1 pmem = (pp, h2)" "pp_addr pp \<noteq> 0"
      "length pmem = kPipeBufferSize"
    and w: "w \<noteq> []" "\<forall>c\<in>set w. c \<notin> {0, 0x08, 0x0A, 0x20, 0x7C}" "length w \<le> 88"
  shows "\<exists>s'. OnKeys ldr e poll force run pmem (str ''echo '' @ w @ str '' | cat'' @ [0x0A]) Shell_new s = Some (Shell_new, s') \<and>
    y_con s' = shown (y_con s) (str ''echo '' @ w @ str '' | cat'' @ [0x0A] @ w @ [0x0A] @ str ''Sylphia:/$ '') \<and>
    y_fds s' = y_fds s \<and> kmem (y_k s') = kmem (y_k s)"
proof -
  define line where "line = str ''echo '' @ w @ str '' | cat''"
  have lit: "\<forall>c\<in>set (str ''echo ''). c \<noteq> 0 \<and> c \<noteq> 0x08 \<and> c \<noteq> 0x0A" "\<forall>c\<in>set (str '' | cat''). c \<noteq> 0 \<and> c \<noteq> 0x08 \<and> c \<noteq> 0x0A"
    "length (str ''echo '') = 5" "length (str '' | cat'') = 6" "0 \<notin> set (str ''Sylphia:/$ '')" "0x25 \<notin> set (str ''Sylphia:/$ '')"
    by code_simp+
  have ok: "\<forall>c\<in>set line. c \<noteq> 0 \<and> c \<noteq> 0x08 \<and> c \<noteq> 0x0A" using lit(1,2) w(2) unfolding line_def by auto
  have "edit line [] = (line, line)" using edit_plain [of line "[]"] ok w(3) by (simp add: line_def lit)
  then have typed: "OnKeys ldr e poll force run pmem line Shell_new s = Some (shell_at line, s\<lparr>y_con := shown (y_con s) line\<rparr>)"
    and nz: "0 \<notin> set line"
    using OnKeys_edit [of line "[]" line line ldr e poll force run pmem s] ok by (auto simp: Shell_new_at)
  define s1 where "s1 = s\<lparr>y_con := shown (y_con s) (line @ [0x0A])\<rparr>"
  have hs: "heap_of s1 = heap_of s" by (simp add: s1_def heap_of_def)
  obtain buf s2 where x: "ExecuteCommand ldr e poll force run pmem (shell_at line) s1 = Some ((shell_at line)\<lparr>sh_buffer := buf\<rparr>, s2)"
    "y_con s2 = shown (y_con s1) (w @ [0x0A])" "y_fds s2 = y_fds s1" "kmem (y_k s2) = kmem (y_k s1)"
    using echo_pipe_cat [of s1, OF _ _ _ new(2-5) w, of ldr e poll force run] fds mem new(1) unfolding line_def [symmetric] hs
    by (auto simp: s1_def)
  have "OnKey ldr e poll force run pmem 0x0A (shell_at line) (s\<lparr>y_con := shown (y_con s) line\<rparr>) =
      Some (Shell_new, s2\<lparr>y_con := shown (y_con s2) (str ''Sylphia:/$ '')\<rparr>)"
    using x(1) lit(5,6) nz by (simp add: OnKey_def say_plain shown_shown s1_def [symmetric] PrintPrompt_def)
      (simp add: shell_at_def Shell_new_def)
  then have run: "OnKeys ldr e poll force run pmem (line @ [0x0A]) Shell_new s =
      Some (Shell_new, s2\<lparr>y_con := shown (y_con s2) (str ''Sylphia:/$ '')\<rparr>)"
    using typed by (simp add: OnKeys_append)
  have "0 \<notin> set (line @ [0x0A])" "0 \<notin> set ((line @ [0x0A]) @ w @ [0x0A])" using nz w(2) by auto
  then have "shown (y_con s2) (str ''Sylphia:/$ '') = shown (y_con s) ((line @ [0x0A]) @ (w @ [0x0A]) @ str ''Sylphia:/$ '')"
    by (simp add: x(2) s1_def shown_shown)
  then show ?thesis using run x(3,4) by (simp add: line_def s1_def)
qed

theorem line_editor_witness:
  "\<exists>sh. OnKeys Rust 0 (\<lambda>u. ([], u)) (\<lambda>u. u) (\<lambda>_ _. None) [] [0x61, 0x08, 0x08, 0x62] Shell_new (sample_sys (None :: unit FAT32Driver option)) =
      Some (sh, sample_sys None) \<and> sh_buffer sh = [0x62] @ replicate 99 0"
proof -
  have "edit [0x61, 0x08, 0x08, 0x62] [] = ([0x62], [0x61, 0x08, 0x62])" by (simp add: edit_key_def)
  moreover have "(sample_sys (None :: unit FAT32Driver option))\<lparr>y_con := shown (y_con (sample_sys None)) out\<rparr> = sample_sys None" for out
    by (simp add: sample_sys_def shown_def)
  ultimately show ?thesis
    using line_editor [of "[0x61, 0x08, 0x08, 0x62]" "[0x62]" "[0x61, 0x08, 0x62]" Rust 0 "\<lambda>u. ([], u)" "\<lambda>u. u" "\<lambda>_ _. None" "[]"
        "sample_sys (None :: unit FAT32Driver option)"] by auto
qed

theorem split_args_words_witness:
  "map (arg_string (snd (split_args [0x20, 0x61, 0x20, 0x62, 0] 0 []))) (fst (split_args [0x20, 0x61, 0x20, 0x62, 0] 0 [])) = [[0x61], [0x62]]"
proof -
  have w: "words [0x20, 0x61, 0x20, 0x62] = [[0x61], [0x62]]" by (simp add: words.simps)
  obtain offs buf where s: "split_args ([0x20, 0x61, 0x20, 0x62] @ 0 # []) 0 [] = (offs, buf)" by fastforce
  from split_args_words [OF _ _ s] w s show ?thesis by simp
qed

theorem typed_pipeline_witness:
  "\<forall>con. \<exists>s'. OnKeys Rust 0 (\<lambda>u. ([], u)) (\<lambda>u. u) (\<lambda>_ _. None) (replicate 4096 0)
      (str ''echo '' @ [0x68, 0x69] @ str '' | cat'' @ [0x0A]) Shell_new ((sample_sys (None :: unit FAT32Driver option))\<lparr>y_con := con\<rparr>) =
      Some (Shell_new, s') \<and>
    y_con s' = shown con (str ''echo '' @ [0x68, 0x69] @ str '' | cat'' @ [0x0A] @ [0x68, 0x69] @ [0x0A] @ str ''Sylphia:/$ '')"
proof
  fix con
  let ?s = "(sample_sys (None :: unit FAT32Driver option))\<lparr>y_con := con\<rparr>"
  let ?mm1 = "\<lparr>mm_bitmap = \<lparr>bm_buffer = [0x1F, 0xF0], bm_size = 2\<rparr>, mm_range_end = 0x10000\<rparr>"
  have heap: "heap_of ?s = \<lparr>kmm = sample_mm, cells = \<lambda>_. 0\<rparr>" using sample_sys_fields(5) by (simp add: heap_of_def)
  have a: "Allocate sample_mm 48 = (0x4000, ?mm1)"
    by (simp add: Allocate_def frames_of_def AllocateFrame_def sample_mm_def bitmap_eval kFrameSize_def)
  obtain p h1 where n: "operator_new (heap_of ?s) sizeof_PipeFD = (p, h1)" by fastforce
  have p: "p \<noteq> 0" "kmm h1 = ?mm1" using n a by (auto simp: heap operator_new_def sizeof_PipeFD_def kHeaderSize_def)
  have "search_run (mm_bitmap ?mm1) 16 2 5 = Some 5" by (simp add: search_run.simps check_run.simps bitmap_eval)
  then have b: "fst (Allocate ?mm1 4112) = 0x5000"
    by (simp add: Allocate_def frames_of_def total_frames_def bitmap_eval kFrameSize_def)
  obtain pp h2 where m: "PipeFD_new h1 (replicate 4096 0) = (pp, h2)" by fastforce
  have "pp_addr pp \<noteq> 0"
    using m b p(2) by (auto simp: PipeFD_new_def operator_new_def kPipeBufferSize_def kHeaderSize_def split: prod.splits if_splits)
  then show "\<exists>s'. OnKeys Rust 0 (\<lambda>u. ([], u)) (\<lambda>u. u) (\<lambda>_ _. None) (replicate 4096 0)
      (str ''echo '' @ [0x68, 0x69] @ str '' | cat'' @ [0x0A]) Shell_new ?s = Some (Shell_new, s') \<and>
    y_con s' = shown con (str ''echo '' @ [0x68, 0x69] @ str '' | cat'' @ [0x0A] @ [0x68, 0x69] @ [0x0A] @ str ''Sylphia:/$ '')"
    using typed_pipeline [of ?s, OF _ _ n p(1) m, of "[0x68, 0x69]" Rust 0 "\<lambda>u. ([], u)" "\<lambda>u. u" "\<lambda>_ _. None"]
      sample_mm_inv by (auto simp: kPipeBufferSize_def sample_sys_fds sample_sys_fields)
qed

end
