(* ===== verification/Pci.thy ===== *)
theory Pci
  imports Machine
begin

text \<open>
  The PCI configuration space (kernel/pci/pci.cpp): the access mechanism through the ports
  0xCF8 and 0xCFC, base addresses, the bus scan and the set-up of message-signalled interrupts.
  \<open>SetupPCI\<close>, which starts the drivers, is in theory \<open>Boot\<close>.
\<close>

record Device =
  bus :: u8
  device :: u8
  function_nr :: u8
  vendor_id :: u16
  device_id :: u16
  base_class :: u8
  sub_class :: u8
  prog_if :: u8

definition pci_dev :: "u8 \<Rightarrow> u8 \<Rightarrow> u8 \<Rightarrow> Device" where
  "pci_dev b d f = \<lparr>bus = b, device = d, function_nr = f, vendor_id = 0, device_id = 0, base_class = 0, sub_class = 0, prog_if = 0\<rparr>"

definition kConfigAddress :: u16 where
  "kConfigAddress = 0x0CF8"

definition kConfigData :: u16 where
  "kConfigData = 0x0CFC"

definition MakeAddress :: "u8 \<Rightarrow> u8 \<Rightarrow> u8 \<Rightarrow> u8 \<Rightarrow> u32" where
  "MakeAddress b d f reg_addr =
     push_bit 31 1 OR push_bit 16 (ucast b) OR push_bit 11 (ucast d) OR push_bit 8 (ucast f) OR ucast (reg_addr AND 0xFC)"

definition dev_address :: "Device \<Rightarrow> u8 \<Rightarrow> u32" where
  "dev_address dev reg_addr = MakeAddress (bus dev) (device dev) (function_nr dev) reg_addr"

definition ReadConfReg :: "'h machine \<Rightarrow> Device \<Rightarrow> u8 \<Rightarrow> 'h \<Rightarrow> u32 \<times> 'h" where
  "ReadConfReg hw dev reg_addr h = IoIn32 hw kConfigData (IoOut32 hw kConfigAddress (dev_address dev reg_addr) h)"

definition WriteConfReg :: "'h machine \<Rightarrow> Device \<Rightarrow> u8 \<Rightarrow> u32 \<Rightarrow> 'h \<Rightarrow> 'h" where
  "WriteConfReg hw dev reg_addr value h = IoOut32 hw kConfigData value (IoOut32 hw kConfigAddress (dev_address dev reg_addr) h)"

definition ReadBar0 :: "'h machine \<Rightarrow> Device \<Rightarrow> 'h \<Rightarrow> u64 \<times> 'h" where
  "ReadBar0 hw dev h =
     (let (bar0, h) = ReadConfReg hw dev 0x10 h; type = drop_bit 1 bar0 AND 3
      in if type = 2 then
           let (bar1, h) = ReadConfReg hw dev 0x14 h
           in (push_bit 32 (ucast bar1) OR ucast (bar0 AND NOT 0xF), h)
         else (ucast (bar0 AND NOT 0xF), h))"

text \<open>The scan: the devices it prints, in order.\<close>

definition AddDevice :: "'h machine \<Rightarrow> u8 \<Rightarrow> u8 \<Rightarrow> u8 \<Rightarrow> u16 \<Rightarrow> 'h \<Rightarrow> Device \<times> 'h" where
  "AddDevice hw b d f vid h =
     (let dev = (pci_dev b d f)\<lparr>vendor_id := vid\<rparr>;
          (reg0, h) = ReadConfReg hw dev 0x00 h;
          dev = dev\<lparr>device_id := ucast (drop_bit 16 reg0)\<rparr>;
          (reg8, h) = ReadConfReg hw dev 0x08 h
      in (dev\<lparr>base_class := ucast (drop_bit 24 reg8), sub_class := ucast (drop_bit 16 reg8), prog_if := ucast (drop_bit 8 reg8)\<rparr>, h))"

definition all_functions :: "(u8 \<times> u8 \<times> u8) list" where
  "all_functions = concat (map (\<lambda>b. concat (map (\<lambda>d. map (\<lambda>f. (of_nat b, of_nat d, of_nat f)) [0..<8]) [0..<32])) [0..<256])"

fun scan_loop :: "'h machine \<Rightarrow> (u8 \<times> u8 \<times> u8) list \<Rightarrow> 'h \<Rightarrow> Device list \<times> 'h" where
  "scan_loop hw [] h = ([], h)"
| "scan_loop hw ((b, d, f) # rest) h =
     (let (reg0, h) = ReadConfReg hw (pci_dev b d f) 0x00 h; vid = (ucast reg0 :: u16)
      in if vid \<noteq> 0xFFFF then
           let (dev, h) = AddDevice hw b d f vid h; (devs, h) = scan_loop hw rest h in (dev # devs, h)
         else scan_loop hw rest h)"

definition ScanAllBus :: "'h machine \<Rightarrow> 'h \<Rightarrow> Device list \<times> 'h" where
  "ScanAllBus hw h = scan_loop hw all_functions h"

section \<open>Message-signalled interrupts\<close>

definition enable_msix :: "'h machine \<Rightarrow> Device \<Rightarrow> u8 \<Rightarrow> u32 \<Rightarrow> 'h \<Rightarrow> 'h" where
  "enable_msix hw dev cap_ptr cap_reg h =
     (let (msg_ctrl_reg, h) = ReadConfReg hw dev cap_ptr h;
          msg_ctrl = (ucast (drop_bit 16 msg_ctrl_reg) :: u16);
          msg_ctrl = (msg_ctrl OR push_bit 15 1) AND NOT (push_bit 14 1)
      in WriteConfReg hw dev cap_ptr ((cap_reg AND 0xFFFF) OR push_bit 16 (ucast msg_ctrl)) h)"

definition enable_msi :: "'h machine \<Rightarrow> Device \<Rightarrow> u8 \<Rightarrow> u8 \<Rightarrow> u32 \<Rightarrow> 'h \<Rightarrow> 'h" where
  "enable_msi hw dev vector cap_ptr cap_reg h =
     (let (msg_ctrl_reg, h) = ReadConfReg hw dev cap_ptr h;
          msg_ctrl = (ucast (drop_bit 16 msg_ctrl_reg) :: u16);
          is_64bit = (msg_ctrl AND push_bit 7 1 \<noteq> 0);
          h = WriteConfReg hw dev (cap_ptr + 0x04) 0xFEE00000 h;
          h = (if is_64bit
               then WriteConfReg hw dev (cap_ptr + 0x0C) (ucast vector) (WriteConfReg hw dev (cap_ptr + 0x08) 0 h)
               else WriteConfReg hw dev (cap_ptr + 0x08) (ucast vector) h);
          msg_ctrl = msg_ctrl OR 1
      in WriteConfReg hw dev cap_ptr ((cap_reg AND 0xFFFF) OR push_bit 16 (ucast msg_ctrl)) h)"

text \<open>The walk over the capabilities; a list that does not end has no result.\<close>

partial_function (option) cap_loop :: "'h machine \<Rightarrow> Device \<Rightarrow> u8 \<Rightarrow> u8 \<Rightarrow> 'h \<Rightarrow> (bool \<times> 'h) option" where
  "cap_loop hw dev vector cap_ptr h =
     (if cap_ptr = 0 then Some (False, h)
      else
        let (cap_reg, h) = ReadConfReg hw dev cap_ptr h;
            cap_id = (ucast cap_reg :: u8); next_ptr = (ucast (drop_bit 8 cap_reg) :: u8)
        in if cap_id = 0x11 then Some (True, enable_msix hw dev cap_ptr cap_reg h)
           else if cap_id = 0x05 then Some (True, enable_msi hw dev vector cap_ptr cap_reg h)
           else cap_loop hw dev vector next_ptr h)"

definition SetupMSI :: "'h machine \<Rightarrow> Device \<Rightarrow> u8 \<Rightarrow> 'h \<Rightarrow> (bool \<times> 'h) option" where
  "SetupMSI hw dev vector h =
     (let (status_cmd, h) = ReadConfReg hw dev 0x04 h; status = (ucast (drop_bit 16 status_cmd) :: u16)
      in if status AND push_bit 4 1 = 0 then Some (False, h)
         else
           let (cap_ptr_reg, h) = ReadConfReg hw dev 0x34 h
           in cap_loop hw dev vector (ucast cap_ptr_reg) h)"

section \<open>Addresses\<close>

lemma bit_MakeAddress:
  "bit (MakeAddress b d f r) n \<longleftrightarrow> n < 32 \<and> (n = 31 \<or> 16 \<le> n \<and> bit b (n - 16) \<or> 11 \<le> n \<and> bit d (n - 11) \<or>
     8 \<le> n \<and> bit f (n - 8) \<or> bit (r AND 0xFC) n)"
  unfolding MakeAddress_def bit_or_iff bit_push_bit_iff bit_1_iff bit_unsigned_iff possible_bit_word
  by (auto dest: bit_imp_le_length)

lemma MakeAddress_fields:
  assumes "d < 32" "f < 8"
  shows "ucast (drop_bit 16 (MakeAddress b d f r)) = b" "ucast (drop_bit 11 (MakeAddress b d f r) AND 31) = d"
    "ucast (drop_bit 8 (MakeAddress b d f r) AND 7) = f" "ucast (MakeAddress b d f r) = r AND 0xFC"
proof -
  have d: "n < 5" if "bit d n" for n by (rule ccontr) (use high_bits_zero [of d 5 n] that assms(1) in \<open>simp add: word_less_nat_alt\<close>)
  have f: "n < 3" if "bit f n" for n by (rule ccontr) (use high_bits_zero [of f 3 n] that assms(2) in \<open>simp add: word_less_nat_alt\<close>)
  have m: "bit (31 :: int) n \<longleftrightarrow> n < 5" "bit (7 :: int) n \<longleftrightarrow> n < 3" for n
    using bit_mask_iff [of 5 n, where 'a = int] bit_mask_iff [of 3 n, where 'a = int] by (simp_all add: mask_eq_exp_minus_1)
  show "ucast (drop_bit 16 (MakeAddress b d f r)) = b" "ucast (drop_bit 11 (MakeAddress b d f r) AND 31) = d"
    "ucast (drop_bit 8 (MakeAddress b d f r) AND 7) = f" "ucast (MakeAddress b d f r) = r AND 0xFC"
    by (rule bit_word_eqI; auto simp: bit_MakeAddress bit_simps m dest: d f)+
qed

lemma MakeAddress_eq:
  assumes "d < 32" "f < 8" "d' < 32" "f' < 8"
  shows "MakeAddress b d f r = MakeAddress b' d' f' r' \<longleftrightarrow> b = b' \<and> d = d' \<and> f = f' \<and> r AND 0xFC = r' AND 0xFC"
proof
  assume eq: "MakeAddress b d f r = MakeAddress b' d' f' r'"
  note F = MakeAddress_fields [OF assms(1,2), of b r] and F' = MakeAddress_fields [OF assms(3,4), of b' r']
  show "b = b' \<and> d = d' \<and> f = f' \<and> r AND 0xFC = r' AND 0xFC"
    using F [unfolded eq] F' by simp
next
  assume "b = b' \<and> d = d' \<and> f = f' \<and> r AND 0xFC = r' AND 0xFC"
  then show "MakeAddress b d f r = MakeAddress b' d' f' r'" by (simp add: MakeAddress_def)
qed

section \<open>Configuration space\<close>

text \<open>
  What the ports promise (configuration mechanism 1 of the PCI specification): \<open>sel\<close> is the
  address register, \<open>conf\<close> the registers of all functions by their address, and \<open>react\<close> what a
  register makes of a value written to it.
\<close>

locale pci_host =
  fixes hw :: "'h machine" and sel :: "'h \<Rightarrow> u32" and conf :: "'h \<Rightarrow> u32 \<Rightarrow> u32" and react :: "u32 \<Rightarrow> u32 \<Rightarrow> u32 \<Rightarrow> u32"
  assumes select: "sel (port_out32 hw 0x0CF8 a h) = a \<and> conf (port_out32 hw 0x0CF8 a h) = conf h"
    and read_data: "port_in32 hw 0x0CFC h = (v, h') \<Longrightarrow> v = conf h (sel h) \<and> conf h' = conf h"
    and write_data: "conf (port_out32 hw 0x0CFC v h) = (conf h)(sel h := react (sel h) (conf h (sel h)) v)"
begin

lemma ReadConfReg_conf: "ReadConfReg hw dev r h = (v, h') \<Longrightarrow> v = conf h (dev_address dev r) \<and> conf h' = conf h"
  using read_data select by (fastforce simp: ReadConfReg_def IoIn32_def IoOut32_def kConfigAddress_def kConfigData_def)

lemma WriteConfReg_conf:
  "conf (WriteConfReg hw dev r v h) = (conf h)(dev_address dev r := react (dev_address dev r) (conf h (dev_address dev r)) v)"
  using write_data select by (simp add: WriteConfReg_def IoOut32_def kConfigAddress_def kConfigData_def)

end

text \<open>The capability list leads from \<open>p\<close> over other capabilities to the one at \<open>c\<close>.\<close>

fun caps_lead :: "(u8 \<Rightarrow> u32) \<Rightarrow> u8 \<Rightarrow> u8 list \<Rightarrow> u8 \<Rightarrow> bool" where
  "caps_lead regs p [] c \<longleftrightarrow> p = c"
| "caps_lead regs p (q # qs) c \<longleftrightarrow>
     p = q \<and> q \<noteq> 0 \<and> (ucast (regs q) :: u8) \<noteq> 0x11 \<and> (ucast (regs q) :: u8) \<noteq> 0x05 \<and>
     caps_lead regs (ucast (drop_bit 8 (regs q))) qs c"

context pci_host
begin

lemma cap_loop_leads:
  assumes "caps_lead (\<lambda>q. conf h (dev_address dev q)) p qs c"
  shows "\<exists>h'. cap_loop hw dev vector p h = cap_loop hw dev vector c h' \<and> conf h' = conf h"
  using assms
proof (induction qs arbitrary: p h)
  case Nil
  then show ?case by auto
next
  case (Cons q qs)
  obtain v h1 where r: "ReadConfReg hw dev p h = (v, h1)" by fastforce
  note R = ReadConfReg_conf [OF r]
  have "cap_loop hw dev vector p h = cap_loop hw dev vector (ucast (drop_bit 8 v)) h1"
    using Cons.prems r R by (subst cap_loop.simps) auto
  then show ?case using Cons.IH [of h1 "ucast (drop_bit 8 v)"] Cons.prems R by auto
qed

text \<open>An MSI-X capability is enabled without any use of the vector.\<close>

lemma msix_ignores_vector:
  assumes "caps_lead (\<lambda>q. conf h (dev_address dev q)) p qs c" "c \<noteq> 0" "(ucast (conf h (dev_address dev c)) :: u8) = 0x11"
  shows "cap_loop hw dev vector p h = cap_loop hw dev vector' p h"
  using assms
proof (induction qs arbitrary: p h)
  case Nil
  obtain v h1 where r: "ReadConfReg hw dev p h = (v, h1)" by fastforce
  show ?case using Nil r ReadConfReg_conf [OF r] by (subst (1 2) cap_loop.simps) simp
next
  case (Cons q qs)
  obtain v h1 where r: "ReadConfReg hw dev p h = (v, h1)" by fastforce
  note R = ReadConfReg_conf [OF r]
  have "cap_loop hw dev w p h = cap_loop hw dev w (ucast (drop_bit 8 v)) h1" for w
    using Cons.prems(1) r R by (subst cap_loop.simps) auto
  moreover have "cap_loop hw dev vector (ucast (drop_bit 8 v)) h1 = cap_loop hw dev vector' (ucast (drop_bit 8 v)) h1"
    by (rule Cons.IH) (use Cons.prems R in auto)
  ultimately show ?case by simp
qed

lemma enable_msi_conf:
  assumes plain: "\<And>r old v. react (dev_address dev r) old v = v"
    and reg: "cr = conf h (dev_address dev c)"
  shows "conf (enable_msi hw dev vector c cr h) =
    (if bit cr 23
     then (conf h)(dev_address dev (c + 4) := 0xFEE00000, dev_address dev (c + 8) := 0, dev_address dev (c + 12) := ucast vector,
        dev_address dev c := cr OR push_bit 16 1)
     else (conf h)(dev_address dev (c + 4) := 0xFEE00000, dev_address dev (c + 8) := ucast vector,
        dev_address dev c := cr OR push_bit 16 1))"
proof -
  obtain v h1 where r: "ReadConfReg hw dev c h = (v, h1)" by fastforce
  note R = ReadConfReg_conf [OF r]
  have v: "v = cr" using R reg by simp
  have b: "(ucast (drop_bit 16 cr) :: u16) AND push_bit 7 1 \<noteq> 0 \<longleftrightarrow> bit cr 23"
  proof -
    have p: "bit (128 :: int) n \<longleftrightarrow> n = 7" for n using bit_exp_iff [of 7 n, where 'a = int] by auto
    have "(ucast (drop_bit 16 cr) :: u16) AND push_bit 7 1 = (if bit cr 23 then push_bit 7 1 else 0)"
      by (rule bit_word_eqI) (auto simp: bit_simps p)
    then show ?thesis by simp
  qed
  have p: "bit (65536 :: int) n \<longleftrightarrow> n = 16" "bit (65535 :: int) n \<longleftrightarrow> n < 16" for n
    using bit_exp_iff [of 16 n, where 'a = int] bit_mask_iff [of 16 n, where 'a = int] by (auto simp: mask_eq_exp_minus_1)
  have m: "(cr AND 0xFFFF) OR push_bit 16 (ucast ((ucast (drop_bit 16 cr) :: u16) OR 1)) = cr OR push_bit 16 1"
    by (rule bit_word_eqI) (auto simp: bit_simps p)
  show ?thesis
    unfolding enable_msi_def r v Let_def prod.case b m using R by (simp add: WriteConfReg_conf plain)
qed

end

text \<open>
  access to the configuration space reaches exactly one register. What is written to a
  register of a device is, as the device takes it, what is read back, and every register of any
  other device or at any other aligned offset reads as before.
\<close>

theorem config_access:
  assumes "pci_host hw sel conf react" "device dev < 32" "function_nr dev < 8" "device dev' < 32" "function_nr dev' < 8"
    and "(bus dev', device dev', function_nr dev') \<noteq> (bus dev, device dev, function_nr dev) \<or> r' AND 0xFC \<noteq> r AND 0xFC"
  shows "fst (ReadConfReg hw dev r (WriteConfReg hw dev r v h)) =
      react (dev_address dev r) (fst (ReadConfReg hw dev r h)) v \<and>
    fst (ReadConfReg hw dev' r' (WriteConfReg hw dev r v h)) = fst (ReadConfReg hw dev' r' h)"
proof -
  have read: "fst (ReadConfReg hw d q k) = conf k (dev_address d q)" for d q k
    using pci_host.ReadConfReg_conf [OF assms(1), of d q k] by (metis prod.collapse)
  have "dev_address dev' r' \<noteq> dev_address dev r"
    using assms(2-6) by (auto simp: dev_address_def MakeAddress_eq)
  then show ?thesis by (simp add: read pci_host.WriteConfReg_conf [OF assms(1)])
qed

text \<open>
  \<open>SetupMSI\<close> finds and programs the MSI capability. If the capability list leads over
  other capabilities to an MSI capability, the call returns true; the message address is that of
  the local APIC, the data register (its place depends on the 64-bit flag) holds the vector, the
  enable bit is set, and no other register of any device has changed.
\<close>

theorem SetupMSI_programs:
  assumes "pci_host hw sel conf react" "\<And>r old v. react (dev_address dev r) old v = v"
    and "bit (conf h (dev_address dev 0x04)) 20"
    and "caps_lead (\<lambda>q. conf h (dev_address dev q)) (ucast (conf h (dev_address dev 0x34))) qs c" "c \<noteq> 0"
    and "cr = conf h (dev_address dev c)" "(ucast cr :: u8) = 0x05"
  shows "\<exists>h'. SetupMSI hw dev vector h = Some (True, h') \<and>
    conf h' = (if bit cr 23
      then (conf h)(dev_address dev (c + 4) := 0xFEE00000, dev_address dev (c + 8) := 0, dev_address dev (c + 12) := ucast vector,
        dev_address dev c := cr OR push_bit 16 1)
      else (conf h)(dev_address dev (c + 4) := 0xFEE00000, dev_address dev (c + 8) := ucast vector,
        dev_address dev c := cr OR push_bit 16 1))"
proof -
  note read = pci_host.ReadConfReg_conf [OF assms(1)]
  obtain v1 h1 where r1: "ReadConfReg hw dev 0x04 h = (v1, h1)" by fastforce
  obtain v2 h2 where r2: "ReadConfReg hw dev 0x34 h1 = (v2, h2)" by fastforce
  note R1 = read [OF r1] and R2 = read [OF r2]
  have c2: "conf h2 = conf h" using R1 R2 by simp
  have "bit ((ucast (drop_bit 16 v1) :: u16) AND push_bit 4 1) 4" using assms(3) R1 by (simp add: bit_simps)
  then have st: "(ucast (drop_bit 16 v1) :: u16) AND push_bit 4 1 \<noteq> 0" by (metis bit_0_eq bot_apply bot_bool_def)
  have "caps_lead (\<lambda>q. conf h2 (dev_address dev q)) (ucast v2) qs c" using assms(4) R1 R2 by simp
  from pci_host.cap_loop_leads [OF assms(1) this, of vector]
  obtain h3 where h3: "cap_loop hw dev vector (ucast v2) h2 = cap_loop hw dev vector c h3" "conf h3 = conf h2" by blast
  obtain v4 h4 where r4: "ReadConfReg hw dev c h3 = (v4, h4)" by fastforce
  note R4 = read [OF r4]
  have v4: "v4 = cr" "conf h4 = conf h" using R4 h3(2) c2 assms(6) by simp_all
  have "cap_loop hw dev vector c h3 = Some (True, enable_msi hw dev vector c cr h4)"
    using assms(5,7) r4 v4(1) by (subst cap_loop.simps) simp
  then have "SetupMSI hw dev vector h = Some (True, enable_msi hw dev vector c cr h4)"
    unfolding SetupMSI_def r1 Let_def prod.case r2 using st h3(1) by simp
  then show ?thesis
    using pci_host.enable_msi_conf [OF assms(1,2), of cr h4 c vector] assms(6) v4(2) by auto
qed

section \<open>A configuration space for the witnesses\<close>

definition ram_pci :: "(u32 \<times> (u32 \<Rightarrow> u32)) machine" where
  "ram_pci = \<lparr>port_in8 = (\<lambda>_ h. (0, h)), port_out8 = (\<lambda>_ _ h. h), port_in32 = (\<lambda>_ h. (snd h (fst h), h)),
     port_out32 = (\<lambda>p v h. if p = 0x0CF8 then (v, snd h) else (fst h, (snd h)(fst h := v))),
     mmio_read32 = (\<lambda>_ h. (0, h)), mmio_write32 = (\<lambda>_ _ h. h), dma_load = (\<lambda>_ n h. (replicate n 0, h)), dma_store = (\<lambda>_ _ h. h)\<rparr>"

interpretation ram_pci: pci_host ram_pci fst snd "\<lambda>_ _ v. v"
  by unfold_locales (auto simp: ram_pci_def)

theorem config_access_witness:
  "fst (ReadConfReg ram_pci (pci_dev 0 3 0) 0x10 (WriteConfReg ram_pci (pci_dev 0 3 0) 0x10 7 (0, \<lambda>_. 1))) = 7 \<and>
   fst (ReadConfReg ram_pci (pci_dev 0 4 0) 0x10 (WriteConfReg ram_pci (pci_dev 0 3 0) 0x10 7 (0, \<lambda>_. 1))) =
   fst (ReadConfReg ram_pci (pci_dev 0 4 0) 0x10 (0, \<lambda>_. 1))"
  using config_access [OF ram_pci.pci_host_axioms, of "pci_dev 0 3 0" "pci_dev 0 4 0" "0x10" "0x10" 7 "(0, \<lambda>_. 1)"]
  by (simp add: pci_dev_def)

theorem SetupMSI_programs_witness:
  "\<exists>h'. SetupMSI ram_pci (pci_dev 0 0 0) 0x50 (0, (\<lambda>_. 0)(0x80000004 := 0x100000, 0x80000034 := 0x40, 0x80000040 := 0x5001,
      0x80000050 := 0x5)) = Some (True, h') \<and> snd h' 0x80000054 = 0xFEE00000 \<and> snd h' 0x80000058 = 0x50"
proof -
  let ?c = "(\<lambda>_. 0 :: u32)(0x80000004 := 0x100000, 0x80000034 := 0x40, 0x80000040 := 0x5001, 0x80000050 := 0x5 :: u32)"
  have a: "dev_address (pci_dev 0 0 0) 4 = 0x80000004" "dev_address (pci_dev 0 0 0) 0x34 = 0x80000034"
    "dev_address (pci_dev 0 0 0) 0x40 = 0x80000040" "dev_address (pci_dev 0 0 0) 0x50 = 0x80000050"
    "dev_address (pci_dev 0 0 0) 0x54 = 0x80000054" "dev_address (pci_dev 0 0 0) 0x58 = 0x80000058"
    by (simp_all add: dev_address_def pci_dev_def MakeAddress_def)
  have b: "bit (0x100000 :: u32) 20" "\<not> bit (5 :: u32) 23" by simp_all
  from SetupMSI_programs [OF ram_pci.pci_host_axioms, where dev = "pci_dev 0 0 0" and h = "(0, ?c)" and qs = "[0x40]"
      and c = "0x50" and cr = 5 and vector = "0x50"] b
  show ?thesis by (auto simp: a)
qed

end
