(* ===== verification/Xhci.thy ===== *)
theory Xhci
  imports Pci UserMem MemoryMgr "HOL-Library.Monad_Syntax"
begin

text \<open>
  The driver of the xHCI host controller (kernel/driver/usb/xhci.cpp, xhci.hpp): rings of
  transfer request blocks in memory shared with the controller, doorbells, commands and events.
  The machine is a parameter. A result \<open>None\<close> is a loop that waits for the hardware without end,
  or a stop of the processor. The set-up of the devices on the ports, \<open>Initialize\<close>, is in theory
  \<open>UsbInit\<close>.
\<close>

record TRB =
  trb_parameter :: u64
  trb_status :: u32
  trb_control :: u32

record 'h Controller =
  x_dev :: Device
  mmio_base :: u64
  op_regs_base :: u64
  rt_regs_base :: u64
  db_regs_base :: u64
  max_slots :: u8
  dcbaa :: u64
  command_ring :: u64
  event_ring :: u64
  erst :: u64
  dcs :: u8
  pcs :: u8
  cmd_ring_index :: u32
  event_ring_index :: u32
  transfer_rings :: "u8 \<Rightarrow> u8 \<Rightarrow> u64"
  ring_cycle_state :: "u8 \<Rightarrow> u8 \<Rightarrow> u8"
  ring_index :: "u8 \<Rightarrow> u8 \<Rightarrow> u32"
  x_mm :: MemoryManager
  x_hw :: 'h

text \<open>
  The constructor. Members without an initialiser keep what memory held; \<open>x_mm\<close> and \<open>x_hw\<close> are
  the frame allocator and the machine, which the driver shares with the rest of the kernel.
\<close>

definition Controller_new :: "Device \<Rightarrow> 'h Controller \<Rightarrow> 'h Controller" where
  "Controller_new dev x = x\<lparr>x_dev := dev, mmio_base := 0, dcs := 1, pcs := 1, cmd_ring_index := 0, event_ring_index := 0,
     transfer_rings := (\<lambda>_ _. 0), ring_cycle_state := (\<lambda>_ _. 1), ring_index := (\<lambda>_ _. 0)\<rparr>"

definition AddressToDCI :: "u8 \<Rightarrow> u8" where
  "AddressToDCI ep_addr =
     (if ep_addr = 0 then 1 else 2 * (ep_addr AND 0xF) + (if ep_addr AND 0x80 \<noteq> 0 then 1 else 0))"

section \<open>Registers\<close>

definition Read32 :: "'h machine \<Rightarrow> 'h Controller \<Rightarrow> u32 \<Rightarrow> u32 \<times> 'h Controller" where
  "Read32 hw x offset = (let (v, h) = mmio_read32 hw (mmio_base x + ucast offset) (x_hw x) in (v, x\<lparr>x_hw := h\<rparr>))"

definition Write32 :: "'h machine \<Rightarrow> 'h Controller \<Rightarrow> u32 \<Rightarrow> u32 \<Rightarrow> 'h Controller" where
  "Write32 hw x offset value = x\<lparr>x_hw := mmio_write32 hw (mmio_base x + ucast offset) value (x_hw x)\<rparr>"

definition ReadOpReg :: "'h machine \<Rightarrow> 'h Controller \<Rightarrow> u32 \<Rightarrow> u32 \<times> 'h Controller" where
  "ReadOpReg hw x offset = (let (v, h) = mmio_read32 hw (op_regs_base x + ucast offset) (x_hw x) in (v, x\<lparr>x_hw := h\<rparr>))"

definition WriteOpReg :: "'h machine \<Rightarrow> 'h Controller \<Rightarrow> u32 \<Rightarrow> u32 \<Rightarrow> 'h Controller" where
  "WriteOpReg hw x offset value = x\<lparr>x_hw := mmio_write32 hw (op_regs_base x + ucast offset) value (x_hw x)\<rparr>"

definition ReadRtReg :: "'h machine \<Rightarrow> 'h Controller \<Rightarrow> u32 \<Rightarrow> u32 \<times> 'h Controller" where
  "ReadRtReg hw x offset = (let (v, h) = mmio_read32 hw (rt_regs_base x + ucast offset) (x_hw x) in (v, x\<lparr>x_hw := h\<rparr>))"

definition WriteRtReg :: "'h machine \<Rightarrow> 'h Controller \<Rightarrow> u32 \<Rightarrow> u32 \<Rightarrow> 'h Controller" where
  "WriteRtReg hw x offset value = x\<lparr>x_hw := mmio_write32 hw (rt_regs_base x + ucast offset) value (x_hw x)\<rparr>"

definition RingDoorbell :: "'h machine \<Rightarrow> 'h Controller \<Rightarrow> u8 \<Rightarrow> u32 \<Rightarrow> 'h Controller" where
  "RingDoorbell hw x target value = x\<lparr>x_hw := mmio_write32 hw (db_regs_base x + 4 * ucast target) value (x_hw x)\<rparr>"

section \<open>Blocks in memory\<close>

definition trb_addr :: "u64 \<Rightarrow> u32 \<Rightarrow> u64" where
  "trb_addr ring i = ring + 16 * ucast i"

text \<open>The three stores, in the order of the code: the control word with the cycle bit is last.\<close>

definition put_trb :: "'h machine \<Rightarrow> u64 \<Rightarrow> TRB \<Rightarrow> 'h Controller \<Rightarrow> 'h Controller" where
  "put_trb hw a t x =
     x\<lparr>x_hw := store32 hw (a + 12) (trb_control t) (store32 hw (a + 8) (trb_status t) (store64 hw a (trb_parameter t) (x_hw x)))\<rparr>"

definition trb_bytes :: "TRB \<Rightarrow> bytes" where
  "trb_bytes t = le64_put (trb_parameter t) @ le32_put (trb_status t) @ le32_put (trb_control t)"

definition trb_of :: "bytes \<Rightarrow> TRB" where
  "trb_of bs = \<lparr>trb_parameter = le64_get (take 8 bs), trb_status = le32_get (take 4 (drop 8 bs)), trb_control = le32_get (drop 12 bs)\<rparr>"

definition get_trb :: "'h machine \<Rightarrow> u64 \<Rightarrow> 'h Controller \<Rightarrow> TRB \<times> 'h Controller" where
  "get_trb hw a x =
     (let (bs, h) = dma_load hw a 16 (x_hw x) in (trb_of bs, x\<lparr>x_hw := h\<rparr>))"

definition get32 :: "'h machine \<Rightarrow> u64 \<Rightarrow> 'h Controller \<Rightarrow> u32 \<times> 'h Controller" where
  "get32 hw a x = (let (v, h) = load32 hw a (x_hw x) in (v, x\<lparr>x_hw := h\<rparr>))"

definition get64 :: "'h machine \<Rightarrow> u64 \<Rightarrow> 'h Controller \<Rightarrow> u64 \<times> 'h Controller" where
  "get64 hw a x = (let (v, h) = load64h hw a (x_hw x) in (v, x\<lparr>x_hw := h\<rparr>))"

definition put_zeros :: "'h machine \<Rightarrow> u64 \<Rightarrow> nat \<Rightarrow> 'h Controller \<Rightarrow> 'h Controller" where
  "put_zeros hw a n x = x\<lparr>x_hw := store_zeros hw a n (x_hw x)\<rparr>"

definition put_bytes :: "'h machine \<Rightarrow> u64 \<Rightarrow> bytes \<Rightarrow> 'h Controller \<Rightarrow> 'h Controller" where
  "put_bytes hw a bs x = x\<lparr>x_hw := dma_store hw a bs (x_hw x)\<rparr>"

definition x_alloc :: "u64 \<Rightarrow> 'h Controller \<Rightarrow> u64 \<times> 'h Controller" where
  "x_alloc sz x = (let (p, mm) = Allocate (x_mm x) sz in (p, x\<lparr>x_mm := mm\<rparr>))"

definition x_free :: "u64 \<Rightarrow> u64 \<Rightarrow> 'h Controller \<Rightarrow> 'h Controller" where
  "x_free p sz x = x\<lparr>x_mm := Free (x_mm x) p sz\<rparr>"

definition cycle_bit :: "u32 \<Rightarrow> u8" where
  "cycle_bit control = ucast (control AND 1)"

definition trb_type :: "u32 \<Rightarrow> u32" where
  "trb_type control = drop_bit 10 control AND 0x3F"

definition comp_code :: "u32 \<Rightarrow> u32" where
  "comp_code status = drop_bit 24 status AND 0xFF"

definition set_ring :: "u8 \<Rightarrow> u8 \<Rightarrow> u32 \<Rightarrow> u8 \<Rightarrow> 'h Controller \<Rightarrow> 'h Controller" where
  "set_ring slot dci i c x =
     x\<lparr>ring_index := (ring_index x)(slot := (ring_index x slot)(dci := i)),
       ring_cycle_state := (ring_cycle_state x)(slot := (ring_cycle_state x slot)(dci := c))\<rparr>"

section \<open>Transfers\<close>

definition normal_trb :: "u8 \<Rightarrow> u64 \<Rightarrow> u32 \<Rightarrow> TRB" where
  "normal_trb c data_buf len =
     \<lparr>trb_parameter = data_buf, trb_status = len,
      trb_control = ucast (c AND 1) OR push_bit 10 1 OR push_bit 5 1 OR push_bit 2 1\<rparr>"

definition link_trb :: "u8 \<Rightarrow> u64 \<Rightarrow> TRB" where
  "link_trb c ring = \<lparr>trb_parameter = ring, trb_status = 0, trb_control = ucast (c AND 1) OR push_bit 10 6 OR push_bit 1 1\<rparr>"

definition SendNormalTRB :: "'h machine \<Rightarrow> 'h Controller \<Rightarrow> u8 \<Rightarrow> u8 \<Rightarrow> u64 \<Rightarrow> u32 \<Rightarrow> bool \<times> 'h Controller" where
  "SendNormalTRB hw x slot_id ep_addr data_buf len =
     (let dci = AddressToDCI ep_addr; ring = transfer_rings x slot_id dci
      in if ring = 0 then (False, x)
         else
           let idx = ring_index x slot_id dci; c = ring_cycle_state x slot_id dci;
               x = put_trb hw (trb_addr ring idx) (normal_trb c data_buf len) x;
               x = set_ring slot_id dci (idx + 1) c x;
               x = (if idx + 1 = 31
                    then set_ring slot_id dci 0 (c XOR 1) (put_trb hw (trb_addr ring 31) (link_trb c ring) x)
                    else x)
           in (True, RingDoorbell hw x slot_id (ucast dci)))"

text \<open>Taking an event off the ring and telling the controller.\<close>

definition next_event :: "'h machine \<Rightarrow> 'h Controller \<Rightarrow> 'h Controller" where
  "next_event hw x =
     (let x = x\<lparr>event_ring_index := event_ring_index x + 1\<rparr>;
          x = (if event_ring_index x = 32 then x\<lparr>event_ring_index := 0, dcs := dcs x XOR 1\<rparr> else x);
          erdp = trb_addr (event_ring x) (event_ring_index x);
          x = WriteRtReg hw x (0x20 + 0x18) (ucast (erdp AND 0xFFFFFFFF) OR push_bit 3 1)
      in WriteRtReg hw x (0x20 + 0x1C) (ucast (drop_bit 32 erdp)))"

definition PollEndpoint :: "'h machine \<Rightarrow> 'h Controller \<Rightarrow> u8 \<Rightarrow> u8 \<Rightarrow> int \<times> 'h Controller" where
  "PollEndpoint hw x slot_id ep_addr =
     (let (event, x) = get_trb hw (trb_addr (event_ring x) (event_ring_index x)) x;
          control = trb_control event
      in if cycle_bit control = dcs x then
           let ret_code = (if trb_type control = 32 \<and> ucast (drop_bit 24 control) = slot_id \<and>
                  ucast (drop_bit 16 control AND 0x1F) = AddressToDCI ep_addr
                then int (unat (comp_code (trb_status event))) else -1)
           in (ret_code, next_event hw x)
         else (-1, x))"

text \<open>\<open>ProcessInterrupt\<close> up to the call of \<open>Update\<close> of the keyboard.\<close>

definition drop_event :: "'h machine \<Rightarrow> 'h Controller \<Rightarrow> 'h Controller" where
  "drop_event hw x =
     (let (control, x) = get32 hw (trb_addr (event_ring x) (event_ring_index x) + 12) x
      in if cycle_bit control = dcs x then next_event hw x else x)"

section \<open>Commands\<close>

text \<open>
  Waiting for the completion of a command: every event whose cycle bit fits is passed over
  until one names the command block at \<open>ptr\<close>; the index is not reset at the end of the ring.
  The result is the status and control word of that event, or nothing after the time-out.
\<close>

partial_function (option) await_command :: "'h machine \<Rightarrow> u64 \<Rightarrow> nat \<Rightarrow> 'h Controller \<Rightarrow> ((u32 \<times> u32) option \<times> 'h Controller) option" where
  "await_command hw ptr timeout x =
     (if timeout = 0 then Some (None, x)
      else
        let a = trb_addr (event_ring x) (event_ring_index x);
            (control, x) = get32 hw (a + 12) x
        in if cycle_bit control = dcs x then
             let x = x\<lparr>event_ring_index := event_ring_index x + 1\<rparr>;
                 (param, x) = get64 hw a x
             in if (trb_type control = 32 \<or> trb_type control = 33) \<and> param = ptr
                then let (status, x) = get32 hw (a + 8) x in Some (Some (status, control), x)
                else await_command hw ptr timeout x
           else await_command hw ptr (timeout - 1) x)"

partial_function (option) await_transfer :: "'h machine \<Rightarrow> nat \<Rightarrow> 'h Controller \<Rightarrow> (u32 option \<times> 'h Controller) option" where
  "await_transfer hw timeout x =
     (if timeout = 0 then Some (None, x)
      else
        let a = trb_addr (event_ring x) (event_ring_index x);
            (control, x) = get32 hw (a + 12) x
        in if cycle_bit control = dcs x then
             let x = x\<lparr>event_ring_index := event_ring_index x + 1\<rparr>
             in if trb_type control = 32
                then let (status, x) = get32 hw (a + 8) x in Some (Some status, x)
                else await_transfer hw timeout x
           else await_transfer hw (timeout - 1) x)"

text \<open>The loop of \<open>EnableSlot\<close> also stops on a host system error and counts every event.\<close>

partial_function (option) await_slot :: "'h machine \<Rightarrow> u64 \<Rightarrow> nat \<Rightarrow> 'h Controller \<Rightarrow> ((u32 \<times> u32) option \<times> 'h Controller) option" where
  "await_slot hw ptr timeout x =
     (if timeout = 0 then Some (None, x)
      else
        let (usbsts, x) = ReadOpReg hw x 0x04
        in if usbsts AND push_bit 2 1 \<noteq> 0 then None
           else
             let a = trb_addr (event_ring x) (event_ring_index x);
                 (control, x) = get32 hw (a + 12) x
             in if cycle_bit control \<noteq> dcs x then await_slot hw ptr (timeout - 1) x
                else
                  let x = x\<lparr>event_ring_index := event_ring_index x + 1\<rparr>;
                      (param, x) = get64 hw a x
                  in if (trb_type control = 32 \<or> trb_type control = 33) \<and> param = ptr
                     then let (status, x) = get32 hw (a + 8) x in Some (Some (status, control), x)
                     else await_slot hw ptr (timeout - 1) x)"

text \<open>Putting a command block on the ring; the index only grows.\<close>

definition put_command :: "'h machine \<Rightarrow> u64 \<Rightarrow> u32 \<Rightarrow> 'h Controller \<Rightarrow> u64 \<times> 'h Controller" where
  "put_command hw param control x =
     (let ptr = trb_addr (command_ring x) (cmd_ring_index x);
          x = put_trb hw ptr \<lparr>trb_parameter = param, trb_status = 0, trb_control = ucast (pcs x AND 1) OR control\<rparr> x;
          x = x\<lparr>cmd_ring_index := cmd_ring_index x + 1\<rparr>
      in (ptr, RingDoorbell hw x 0 0))"

definition EnableSlot :: "'h machine \<Rightarrow> 'h Controller \<Rightarrow> (u8 \<times> 'h Controller) option" where
  "EnableSlot hw x =
     (let (ptr, x) = put_command hw 0 (push_bit 10 9) x in do {
        (ev, x) \<leftarrow> await_slot hw ptr 10000000 x;
        case ev of
          Some (status, control) \<Rightarrow>
            Some (if (ucast (comp_code status) :: u8) = 1 then ucast (drop_bit 24 control) else 0, x)
        | None \<Rightarrow>
            let (_, x) = ReadOpReg hw x 0x18; (_, x) = ReadOpReg hw x 0x1C; (_, x) = ReadOpReg hw x 0x04 in Some (0, x) })"

text \<open>
  The contexts, by the bits of their words: \<open>sizeof_InputContext\<close> bytes, the input control
  context at 0, the slot context at 32, endpoint context \<open>dci\<close> at \<open>32 + 32 * dci\<close>.
\<close>

definition sizeof_InputContext :: u64 where
  "sizeof_InputContext = 32 + 32 + 31 * 32"

definition sizeof_DeviceContext :: u64 where
  "sizeof_DeviceContext = 32 + 31 * 32"

definition new_ring :: "'h machine \<Rightarrow> 'h Controller \<Rightarrow> u64 \<times> 'h Controller" where
  "new_ring hw x = (let (ring, x) = x_alloc 512 x in (ring, put_zeros hw ring 512 x))"

definition set_transfer_ring :: "u8 \<Rightarrow> u8 \<Rightarrow> u64 \<Rightarrow> 'h Controller \<Rightarrow> 'h Controller" where
  "set_transfer_ring slot dci p x = x\<lparr>transfer_rings := (transfer_rings x)(slot := (transfer_rings x slot)(dci := p))\<rparr>"

text \<open>Word 0 and 1 of an endpoint context, its dequeue pointer and word 4.\<close>

definition ep_words :: "u8 \<Rightarrow> u32 \<Rightarrow> u16 \<Rightarrow> u64 \<Rightarrow> u32 \<Rightarrow> bytes" where
  "ep_words interval ep_type max_packet_size dequeue average =
     le32_put (push_bit 16 (ucast interval)) @
     le32_put (push_bit 1 3 OR push_bit 3 ep_type OR push_bit 16 (ucast max_packet_size)) @
     le64_put dequeue @ le32_put average"

definition ConfigureEndpoint :: "'h machine \<Rightarrow> 'h Controller \<Rightarrow> u8 \<Rightarrow> u8 \<Rightarrow> u16 \<Rightarrow> u8 \<Rightarrow> u8 \<Rightarrow> (bool \<times> 'h Controller) option" where
  "ConfigureEndpoint hw x slot_id ep_addr max_packet_size interval type =
     (let dci = AddressToDCI ep_addr;
          x = (if transfer_rings x slot_id dci = 0
               then let (ring, x) = new_ring hw x in set_ring slot_id dci 0 1 (set_transfer_ring slot_id dci ring x)
               else x);
          (input_ctx, x) = x_alloc sizeof_InputContext x;
          x = put_zeros hw input_ctx (unat sizeof_InputContext) x;
          x = put_bytes hw (input_ctx + 4) (le32_put (1 OR push_bit (unat dci) 1)) x;
          x = put_bytes hw (input_ctx + 32) (le32_put (push_bit 27 31)) x;
          ep_type = (if type = 2 then if ep_addr AND 0x80 \<noteq> 0 then 6 else 2 else if ep_addr AND 0x80 \<noteq> 0 then 7 else 3);
          x = put_bytes hw (input_ctx + 32 + 32 * ucast dci)
                (ep_words interval ep_type max_packet_size (transfer_rings x slot_id dci OR 1) 1) x;
          (ptr, x) = put_command hw input_ctx (push_bit 10 12 OR push_bit 24 (ucast slot_id)) x
      in do {
        (ev, x) \<leftarrow> await_command hw ptr 1000000 x;
        let x = x_free input_ctx sizeof_InputContext x;
        Some (case ev of Some (status, _) \<Rightarrow> comp_code status = 1 | None \<Rightarrow> False, x) })"

definition AddressDevice :: "'h machine \<Rightarrow> 'h Controller \<Rightarrow> u8 \<Rightarrow> u8 \<Rightarrow> u32 \<Rightarrow> (bool \<times> 'h Controller) option" where
  "AddressDevice hw x slot_id port_id speed =
     (let (out_ctx, x) = x_alloc sizeof_DeviceContext x;
          x = put_zeros hw out_ctx (unat sizeof_DeviceContext) x;
          x = put_bytes hw (dcbaa x + 8 * ucast slot_id) (le64_put out_ctx) x;
          (input_ctx, x) = x_alloc sizeof_InputContext x;
          x = put_zeros hw input_ctx (unat sizeof_InputContext) x;
          x = put_bytes hw (input_ctx + 4) (le32_put 3) x;
          x = put_bytes hw (input_ctx + 32) (le32_put (push_bit 27 1 OR push_bit 20 (speed AND 0xF)) @
                le32_put (push_bit 16 (ucast port_id))) x;
          (ring, x) = new_ring hw x;
          x = set_transfer_ring slot_id 1 ring x;
          max_packet_size = (if speed = 4 then 512 else if speed = 3 then 64 else 8);
          x = put_bytes hw (input_ctx + 64) (ep_words 0 4 max_packet_size (ring OR 1) 8) x;
          (ptr, x) = put_command hw input_ctx (push_bit 10 11 OR push_bit 24 (ucast slot_id)) x
      in do {
        (ev, x) \<leftarrow> await_command hw ptr 1000000 x;
        Some (case ev of Some (status, _) \<Rightarrow> (ucast (comp_code status) :: u8) = 1 | None \<Rightarrow> False, x) })"

text \<open>Control transfers on endpoint 0; the index of its ring only grows.\<close>

definition put_ep0 :: "'h machine \<Rightarrow> u8 \<Rightarrow> u64 \<Rightarrow> u32 \<Rightarrow> u32 \<Rightarrow> 'h Controller \<Rightarrow> 'h Controller" where
  "put_ep0 hw slot_id param status control x =
     (let i = ring_index x slot_id 1; c = ring_cycle_state x slot_id 1;
          x = set_ring slot_id 1 (i + 1) c x
      in put_trb hw (trb_addr (transfer_rings x slot_id 1) i)
           \<lparr>trb_parameter = param, trb_status = status, trb_control = ucast (c AND 1) OR control\<rparr> x)"

definition setup_packet :: "u8 \<Rightarrow> u8 \<Rightarrow> u16 \<Rightarrow> u16 \<Rightarrow> u16 \<Rightarrow> u64" where
  "setup_packet req_type request value index len =
     push_bit 48 (ucast len) OR push_bit 32 (ucast index) OR push_bit 16 (ucast value) OR push_bit 8 (ucast request) OR ucast req_type"

definition ControlIn :: "'h machine \<Rightarrow> 'h Controller \<Rightarrow> u8 \<Rightarrow> u8 \<Rightarrow> u8 \<Rightarrow> u16 \<Rightarrow> u16 \<Rightarrow> u16 \<Rightarrow> u64 \<Rightarrow> (bool \<times> 'h Controller) option" where
  "ControlIn hw x slot_id req_type request value index len buffer =
     (let x = put_ep0 hw slot_id (setup_packet req_type request value index len) 8 (push_bit 10 2 OR push_bit 6 1 OR push_bit 16 3) x;
          x = (if len > 0
               then put_ep0 hw slot_id buffer (ucast len) (push_bit 10 3 OR push_bit 16 1 OR push_bit 5 1) x
               else x);
          x = put_ep0 hw slot_id 0 0 (push_bit 10 4 OR push_bit 1 1) x;
          x = RingDoorbell hw x slot_id 1
      in do {
        (ev, x) \<leftarrow> await_transfer hw 1000000 x;
        Some (case ev of Some status \<Rightarrow> comp_code status = 1 \<or> comp_code status = 13 | None \<Rightarrow> False, x) })"

section \<open>The controller as a whole\<close>

definition kCapIdLegacySupport :: u8 where
  "kCapIdLegacySupport = 1"

fun handoff_wait :: "'h machine \<Rightarrow> u32 \<Rightarrow> nat \<Rightarrow> 'h Controller \<Rightarrow> 'h Controller" where
  "handoff_wait hw offset 0 x = x"
| "handoff_wait hw offset (Suc timeout) x =
     (let (val, x) = Read32 hw x offset
      in if val AND push_bit 16 1 = 0 \<and> val AND push_bit 24 1 \<noteq> 0 then x
         else handoff_wait hw offset timeout x)"

partial_function (option) handoff_loop :: "'h machine \<Rightarrow> u32 \<Rightarrow> 'h Controller \<Rightarrow> 'h Controller option" where
  "handoff_loop hw offset x =
     (let (reg, x) = Read32 hw x offset
      in if (ucast reg :: u8) = kCapIdLegacySupport then
           Some (if reg AND push_bit 16 1 \<noteq> 0
                 then handoff_wait hw offset 1000000 (Write32 hw x offset (reg OR push_bit 24 1)) else x)
         else
           let nxt = (ucast (drop_bit 8 reg) :: u8)
           in if nxt = 0 then Some x else handoff_loop hw (offset + push_bit 2 (ucast nxt)) x)"

definition BiosHandoff :: "'h machine \<Rightarrow> 'h Controller \<Rightarrow> 'h Controller option" where
  "BiosHandoff hw x =
     (let (hccparams1, x) = Read32 hw x 0x10; xecp_offset = drop_bit 16 hccparams1 AND 0xFFFF
      in if xecp_offset = 0 then Some x else handoff_loop hw (push_bit 2 xecp_offset) x)"

text \<open>Reading a register until a condition holds, without a limit.\<close>

partial_function (option) wait_reg :: "'h machine \<Rightarrow> u64 \<Rightarrow> (u32 \<Rightarrow> bool) \<Rightarrow> 'h Controller \<Rightarrow> (u32 \<times> 'h Controller) option" where
  "wait_reg hw a cond x =
     (let (v, h) = mmio_read32 hw a (x_hw x); x = x\<lparr>x_hw := h\<rparr>
      in if cond v then Some (v, x) else wait_reg hw a cond x)"

definition ResetController :: "'h machine \<Rightarrow> 'h Controller \<Rightarrow> 'h Controller option" where
  "ResetController hw x =
     (let (cap, x) = Read32 hw x 0x00;
          usbcmd = cap AND 0xFF; usbsts = (cap AND 0xFF) + 4;
          (v, x) = Read32 hw x usbcmd;
          x = Write32 hw x usbcmd (v AND NOT 1)
      in do {
        (_, x) \<leftarrow> wait_reg hw (mmio_base x + ucast usbsts) (\<lambda>v. v AND 1 \<noteq> 0) x;
        let (v, x) = Read32 hw x usbcmd;
        let x = Write32 hw x usbcmd (v OR push_bit 1 1);
        (_, x) \<leftarrow> wait_reg hw (mmio_base x + ucast usbcmd) (\<lambda>v. v AND push_bit 1 1 = 0) x;
        (_, x) \<leftarrow> wait_reg hw (mmio_base x + ucast usbsts) (\<lambda>v. v AND push_bit 11 1 = 0) x;
        Some x })"

definition portsc_offset :: "u8 \<Rightarrow> u32" where
  "portsc_offset port_id = 0x400 + 0x10 * (ucast port_id - 1)"

definition ResetPort :: "'h machine \<Rightarrow> 'h Controller \<Rightarrow> u8 \<Rightarrow> 'h Controller option" where
  "ResetPort hw x port_id =
     (let off = portsc_offset port_id;
          (portsc, x) = ReadOpReg hw x off
      in if portsc AND 1 = 0 then Some x
         else
           let x = WriteOpReg hw x off ((portsc AND 0x0E00C3E0) OR push_bit 4 1)
           in do {
             (val, x) \<leftarrow> wait_reg hw (op_regs_base x + ucast off) (\<lambda>v. v AND push_bit 21 1 \<noteq> 0) x;
             let x = WriteOpReg hw x off ((val AND 0x0E00C3E0) OR push_bit 21 1);
             let (_, x) = ReadOpReg hw x off;
             Some x })"

end
