(* ===== verification/XhciRing.thy ===== *)
theory XhciRing
  imports Xhci
begin

text \<open>
  The rings of the xHCI driver as queues: what the controller finds on a transfer ring when it
  follows the rules of the specification (cycle bit, link block), and the order of events.
\<close>

section \<open>Memory shared with devices\<close>

text \<open>
  \<open>mem\<close> is the memory, \<open>W\<close> the addresses that devices may write. Elsewhere a store has its
  effect and nothing else changes; a load returns what is there.
\<close>

locale dma_machine =
  fixes hw :: "'h machine" and mem :: "'h \<Rightarrow> vmem" and W :: "u64 set"
  assumes store_mem: "y \<notin> W \<Longrightarrow> mem (dma_store hw a bs h) y = mem_write a bs (mem h) y"
    and mmio_mem: "y \<notin> W \<Longrightarrow> mem (mmio_write32 hw a v h) y = mem h y"
    and load_val: "dma_load hw a n h = (bs, h') \<Longrightarrow> bs = mem_load (mem h) a n"
    and load_mem: "dma_load hw a n h = (bs, h') \<Longrightarrow> y \<notin> W \<Longrightarrow> mem h' y = mem h y"

lemma length_trb_bytes [simp]: "length (trb_bytes t) = 16"
  by (simp add: trb_bytes_def le_simps)

lemma trb_of_bytes [simp]: "trb_of (trb_bytes t) = t"
  by (simp add: trb_of_def trb_bytes_def le_simps)

definition slot_of :: "vmem \<Rightarrow> u64 \<Rightarrow> nat \<Rightarrow> TRB" where
  "slot_of m ring j = trb_of (mem_load m (trb_addr ring (of_nat j)) 16)"

definition ring_range :: "u64 set \<Rightarrow> u64 \<Rightarrow> bool" where
  "ring_range W ring \<longleftrightarrow> unat ring + 512 \<le> 2 ^ 64 \<and> (\<forall>y. unat y \<in> span ring 512 \<longrightarrow> y \<notin> W)"

lemma unat_trb_addr:
  assumes "unat ring + 512 \<le> 2 ^ 64" "j < 32"
  shows "unat (trb_addr ring (of_nat j)) = unat ring + 16 * j"
proof -
  have "ucast (of_nat j :: u32) = (of_nat j :: u64)"
    using assms(2) by (simp add: word_unat_eq_iff unsigned_ucast_eq unat_of_nat take_bit_eq_mod)
  then have "16 * ucast (of_nat j :: u32) = (of_nat (16 * j) :: u64)" by simp
  then show ?thesis using unat_off [of ring "16 * j"] assms by (simp add: trb_addr_def)
qed

context dma_machine
begin

lemma put_trb_mem:
  assumes "unat a + 16 \<le> 2 ^ 64" "y \<notin> W"
  shows "mem (x_hw (put_trb hw a t x)) y =
    (if unat y \<in> span a 16 then trb_bytes t ! (unat y - unat a) else mem (x_hw x) y)"
proof -
  have a8: "unat (a + 8) = unat a + 8" using unat_off [of a 8] assms(1) by simp
  have a12: "unat (a + 12) = unat a + 12" using unat_off [of a 12] assms(1) by simp
  let ?p = "le64_put (trb_parameter t)" and ?s = "le32_put (trb_status t)" and ?c = "le32_put (trb_control t)"
  have len: "length ?p = 8" "length ?s = 4" "length ?c = 4" by (simp_all add: le_simps)
  have m: "mem (x_hw (put_trb hw a t x)) y =
      (if unat y \<in> span (a + 12) 4 then ?c ! (unat y - unat (a + 12))
       else if unat y \<in> span (a + 8) 4 then ?s ! (unat y - unat (a + 8))
       else if unat y \<in> span a 8 then ?p ! (unat y - unat a) else mem (x_hw x) y)"
    using assms a8 a12 len
    by (simp add: put_trb_def store32_def store64_def store_mem mem_write_at)
  show ?thesis unfolding m a8 a12 span_def
    by (auto simp: trb_bytes_def nth_append len a8 a12 add.commute)
qed

lemma put_trb_slot:
  assumes R: "ring_range W ring" and j: "j < 32" "j' < 32"
  shows "slot_of (mem (x_hw (put_trb hw (trb_addr ring (of_nat j)) t x))) ring j' =
    (if j' = j then t else slot_of (mem (x_hw x)) ring j')"
proof -
  note R' = R [unfolded ring_range_def]
  let ?m = "mem (x_hw (put_trb hw (trb_addr ring (of_nat j)) t x))"
  have u: "unat (trb_addr ring (of_nat j)) = unat ring + 16 * j" "unat (trb_addr ring (of_nat j')) = unat ring + 16 * j'"
    using unat_trb_addr R' j by blast+
  have ends: "unat (trb_addr ring (of_nat j)) + 16 \<le> 2 ^ 64" "unat (trb_addr ring (of_nat j')) + 16 \<le> 2 ^ 64"
    using u R' j by linarith+
  have at: "?m y = (if unat y \<in> span (trb_addr ring (of_nat j)) 16 then trb_bytes t ! (unat y - unat (trb_addr ring (of_nat j)))
      else mem (x_hw x) y)" if "unat y \<in> span (trb_addr ring (of_nat j')) 16" for y
  proof -
    have "unat y \<in> span ring 512" using that u j unfolding span_def by auto
    then show ?thesis using R' ends(1) by (intro put_trb_mem) auto
  qed
  show ?thesis
  proof (cases "j' = j")
    case True
    have "mem_load ?m (trb_addr ring (of_nat j)) 16 = trb_bytes t"
    proof (rule nth_equalityI)
      fix i assume "i < length (mem_load ?m (trb_addr ring (of_nat j)) 16)"
      then have i: "i < 16" by simp
      have "unat (trb_addr ring (of_nat j) + of_nat i) = unat (trb_addr ring (of_nat j)) + i"
        by (rule unat_off) (use i ends in linarith)
      then show "mem_load ?m (trb_addr ring (of_nat j)) 16 ! i = trb_bytes t ! i"
        using at [of "trb_addr ring (of_nat j) + of_nat i"] True i by (simp add: span_def)
    qed simp
    then show ?thesis using True by (simp add: slot_of_def)
  next
    case False
    have "mem_load ?m (trb_addr ring (of_nat j')) 16 = mem_load (mem (x_hw x)) (trb_addr ring (of_nat j')) 16"
    proof (rule mem_load_frame)
      fix y :: u64 assume y: "unat y \<in> span (trb_addr ring (of_nat j')) 16"
      have "unat y \<notin> span (trb_addr ring (of_nat j)) 16"
        using y False u unfolding span_def by auto
      then show "?m y = mem (x_hw x) y" using at [OF y] by simp
    qed (use ends in simp)
    then show ?thesis using False by (simp add: slot_of_def)
  qed
qed

lemma doorbell_slot:
  assumes R: "ring_range W ring" and j: "j < 32"
  shows "slot_of (mem (x_hw (RingDoorbell hw x target v))) ring j = slot_of (mem (x_hw x)) ring j"
proof -
  note R' = R [unfolded ring_range_def]
  have u: "unat (trb_addr ring (of_nat j)) = unat ring + 16 * j" using unat_trb_addr R' j by blast
  have "mem_load (mem (x_hw (RingDoorbell hw x target v))) (trb_addr ring (of_nat j)) 16 =
      mem_load (mem (x_hw x)) (trb_addr ring (of_nat j)) 16"
  proof (rule mem_load_frame)
    fix y :: u64 assume "unat y \<in> span (trb_addr ring (of_nat j)) 16"
    then have "unat y \<in> span ring 512" using u j unfolding span_def by auto
    then show "mem (x_hw (RingDoorbell hw x target v)) y = mem (x_hw x) y"
      using R' by (simp add: RingDoorbell_def mmio_mem)
  qed (use u j R' in linarith)
  then show ?thesis by (simp add: slot_of_def)
qed

end

section \<open>Transfer rings\<close>

text \<open>The cycle bit of the \<open>n\<close>-th pass over the ring.\<close>

definition lap_cycle :: "nat \<Rightarrow> u8" where
  "lap_cycle n = (if even n then 1 else 0)"

text \<open>
  The controller at position \<open>i\<close> with consumer cycle state \<open>c\<close>: a block with another cycle bit is
  not yet there; a link block leads to the block it names and may toggle the state.
\<close>

definition fetch :: "(nat \<Rightarrow> TRB) \<Rightarrow> u64 \<Rightarrow> nat \<times> u8 \<Rightarrow> (TRB \<times> nat \<times> u8) option" where
  "fetch slot ring = (\<lambda>(i, c).
     let t = slot i in
     if cycle_bit (trb_control t) \<noteq> c then None
     else if trb_type (trb_control t) = 6 \<and> trb_parameter t = ring then
       let c = (if bit (trb_control t) 1 then c XOR 1 else c); t = slot 0
       in if cycle_bit (trb_control t) \<noteq> c then None else Some (t, 1, c)
     else Some (t, i + 1, c))"

text \<open>Where the controller stands after \<open>n\<close> blocks.\<close>

definition dev_pos :: "nat \<Rightarrow> nat \<times> u8" where
  "dev_pos n = (if n mod 31 = 0 \<and> n > 0 then (31, lap_cycle (n div 31 - 1)) else (n mod 31, lap_cycle (n div 31)))"

text \<open>\<open>n\<close> blocks produced, \<open>k\<close> consumed, and \<open>q\<close> in between.\<close>

definition ring_queue :: "(nat \<Rightarrow> TRB) \<Rightarrow> u64 \<Rightarrow> nat \<Rightarrow> nat \<Rightarrow> (u64 \<times> u32) list \<Rightarrow> bool" where
  "ring_queue slot ring n k q \<longleftrightarrow>
     n = k + length q \<and> length q \<le> 30 \<and>
     (\<forall>j<31. cycle_bit (trb_control (slot j)) = (if j < n mod 31 then lap_cycle (n div 31) else lap_cycle (Suc (n div 31)))) \<and>
     (\<forall>i<length q. slot ((k + i) mod 31) = normal_trb (lap_cycle ((k + i) div 31)) (fst (q ! i)) (snd (q ! i))) \<and>
     (31 \<le> n \<longrightarrow> slot 31 = link_trb (lap_cycle (n div 31 - 1)) ring)"

lemma lap_cycle_Suc: "lap_cycle (Suc n) = lap_cycle n XOR 1" "lap_cycle n AND 1 = lap_cycle n"
  "lap_cycle (Suc n) \<noteq> lap_cycle n" "lap_cycle n \<noteq> lap_cycle (Suc n)"
  by (simp_all add: lap_cycle_def)

lemma trb_bits:
  "cycle_bit (trb_control (normal_trb (lap_cycle n) d l)) = lap_cycle n" "trb_type (trb_control (normal_trb (lap_cycle n) d l)) = 1"
  "cycle_bit (trb_control (link_trb (lap_cycle n) r)) = lap_cycle n" "trb_type (trb_control (link_trb (lap_cycle n) r)) = 6"
  "bit (trb_control (link_trb (lap_cycle n) r)) 1" "trb_parameter (link_trb (lap_cycle n) r) = r"
  by (simp_all add: lap_cycle_def normal_trb_def link_trb_def cycle_bit_def trb_type_def)

lemma mod31_Suc: "Suc n mod 31 = (if n mod 31 = 30 then 0 else Suc (n mod 31))" "Suc n div 31 = (if n mod 31 = 30 then Suc (n div 31) else n div 31)"
proof -
  show "Suc n mod 31 = (if n mod 31 = 30 then 0 else Suc (n mod 31))" by (simp add: mod_Suc)
  show "Suc n div 31 = (if n mod 31 = 30 then Suc (n div 31) else n div 31)" by (simp add: div_Suc mod_Suc)
qed

lemma mod31_distinct: "i < l \<Longrightarrow> l \<le> 30 \<Longrightarrow> (k + i) mod 31 \<noteq> (k + l) mod (31 :: nat)"
proof
  assume il: "i < l" "l \<le> 30" and eq: "(k + i) mod 31 = (k + l) mod 31"
  define a b where "a = (k + i) div 31" and "b = (k + l) div 31"
  have "k + i = 31 * a + (k + i) mod 31" "k + l = 31 * b + (k + l) mod 31" by (simp_all add: a_def b_def)
  then have "l + 31 * a = i + 31 * b" using eq by linarith
  then show False using il by presburger
qed

lemma ring_queue_put:
  assumes Q: "ring_queue slot ring n k q" and len: "length q < 30"
    and s': "\<And>j. j < 31 \<Longrightarrow> slot' j = (if j = n mod 31 then normal_trb (lap_cycle (n div 31)) d l else slot j)"
      "slot' 31 = (if n mod 31 = 30 then link_trb (lap_cycle (n div 31)) ring else slot 31)"
  shows "ring_queue slot' ring (Suc n) k (q @ [(d, l)])"
proof -
  note Q' = Q [unfolded ring_queue_def]
  have n: "n = k + length q" using Q' by blast
  have cyc: "cycle_bit (trb_control (slot' j)) = (if j < Suc n mod 31 then lap_cycle (Suc n div 31) else lap_cycle (Suc (Suc n div 31)))"
    if j: "j < 31" for j
  proof (cases "n mod 31 = 30")
    case True
    have "cycle_bit (trb_control (slot' j)) = lap_cycle (n div 31)"
      using Q' j True by (cases "j = 30") (auto simp: s' trb_bits)
    then show ?thesis using True by (simp add: mod31_Suc lap_cycle_def)
  next
    case False
    then show ?thesis using Q' j by (auto simp: s' trb_bits mod31_Suc)
  qed
  have pay: "slot' ((k + i) mod 31) = normal_trb (lap_cycle ((k + i) div 31)) (fst ((q @ [(d, l)]) ! i)) (snd ((q @ [(d, l)]) ! i))"
    if i: "i < Suc (length q)" for i
  proof (cases "i = length q")
    case True
    then show ?thesis using n by (simp add: s')
  next
    case False
    then have "(k + i) mod 31 \<noteq> n mod 31" using mod31_distinct [of i "length q" k] i len n by simp
    then show ?thesis using False i Q' by (simp add: s' nth_append)
  qed
  have "slot' 31 = link_trb (lap_cycle (Suc n div 31 - 1)) ring" if "31 \<le> Suc n"
  proof (cases "n mod 31 = 30")
    case True
    then show ?thesis by (simp add: s' mod31_Suc)
  next
    case False
    then have "31 \<le> n" using that by (cases "n = 30") auto
    then show ?thesis using False Q' by (simp add: s' mod31_Suc)
  qed
  then show ?thesis using cyc pay n len by (simp add: ring_queue_def)
qed

lemma ring_queue_fetch:
  assumes Q: "ring_queue slot ring n k q"
  shows "q = [] \<Longrightarrow> fetch slot ring (dev_pos k) = None"
    and "q = (d, l) # q' \<Longrightarrow> fetch slot ring (dev_pos k) = Some (normal_trb (lap_cycle (k div 31)) d l, dev_pos (Suc k)) \<and>
      ring_queue slot ring n (Suc k) q'"
proof -
  note Q' = Q [unfolded ring_queue_def]
  have n: "n = k + length q" and cyc: "\<And>j. j < 31 \<Longrightarrow> cycle_bit (trb_control (slot j)) =
      (if j < n mod 31 then lap_cycle (n div 31) else lap_cycle (Suc (n div 31)))"
    and pay: "\<And>i. i < length q \<Longrightarrow> slot ((k + i) mod 31) = normal_trb (lap_cycle ((k + i) div 31)) (fst (q ! i)) (snd (q ! i))"
    using Q' by auto
  have lnk: "slot 31 = link_trb (lap_cycle (k div 31 - 1)) ring" if "k mod 31 = 0" "k > 0"
  proof -
    have "n div 31 = k div 31" using that n Q' by (auto simp: div_add1_eq mod_eq_0_iff_dvd dvd_def)
    moreover have "31 \<le> n" using that n by (auto simp: mod_eq_0_iff_dvd dvd_def)
    ultimately show ?thesis using Q' by simp
  qed
  have link_step: "fetch slot ring (dev_pos k) =
      (if cycle_bit (trb_control (slot 0)) \<noteq> lap_cycle (k div 31) then None else Some (slot 0, 1, lap_cycle (k div 31)))"
    if "k mod 31 = 0" "k > 0"
  proof -
    have "k div 31 > 0" using that by (auto simp: mod_eq_0_iff_dvd dvd_def)
    then have "lap_cycle (k div 31) = lap_cycle (k div 31 - 1) XOR 1" using lap_cycle_Suc(1) [of "k div 31 - 1"] by simp
    then show ?thesis using that lnk by (simp add: fetch_def dev_pos_def trb_bits trb_bits(5) [simplified] Let_def)
  qed
  {
    assume e: "q = []"
    have c: "cycle_bit (trb_control (slot (k mod 31))) = lap_cycle (Suc (k div 31))" using cyc [of "k mod 31"] n e by simp
    show "fetch slot ring (dev_pos k) = None"
    proof (cases "k mod 31 = 0 \<and> k > 0")
      case True
      then show ?thesis using link_step c lap_cycle_Suc(3) by simp
    next
      case False
      then show ?thesis using c lap_cycle_Suc(3) by (auto simp: fetch_def dev_pos_def)
    qed
  }
  {
    assume q: "q = (d, l) # q'"
    have s0: "slot (k mod 31) = normal_trb (lap_cycle (k div 31)) d l" using pay [of 0] q by simp
    have "fetch slot ring (dev_pos k) = Some (normal_trb (lap_cycle (k div 31)) d l, dev_pos (Suc k))"
    proof (cases "k mod 31 = 0 \<and> k > 0")
      case True
      then show ?thesis using link_step s0 by (simp add: trb_bits dev_pos_def mod31_Suc)
    next
      case False
      then have "dev_pos k = (k mod 31, lap_cycle (k div 31))" by (auto simp: dev_pos_def)
      moreover have "dev_pos (Suc k) = (Suc (k mod 31), lap_cycle (k div 31))" by (simp add: dev_pos_def mod31_Suc)
      ultimately show ?thesis using s0 by (simp add: fetch_def trb_bits)
    qed
    moreover have "ring_queue slot ring n (Suc k) q'"
      using Q' q pay [of "Suc _"] by (auto simp: ring_queue_def)
    ultimately show "fetch slot ring (dev_pos k) = Some (normal_trb (lap_cycle (k div 31)) d l, dev_pos (Suc k)) \<and>
      ring_queue slot ring n (Suc k) q'" by blast
  }
qed

text \<open>The state of one transfer ring of the driver, with the queue it stands for.\<close>

definition xfer_state :: "vmem \<Rightarrow> 'h Controller \<Rightarrow> u8 \<Rightarrow> u8 \<Rightarrow> u64 \<Rightarrow> nat \<Rightarrow> nat \<Rightarrow> (u64 \<times> u32) list \<Rightarrow> bool" where
  "xfer_state m x s dci ring n k q \<longleftrightarrow>
     transfer_rings x s dci = ring \<and> ring_index x s dci = of_nat (n mod 31) \<and> ring_cycle_state x s dci = lap_cycle (n div 31) \<and>
     ring_queue (slot_of m ring) ring n k q"

lemma put_trb_fields [simp]:
  "transfer_rings (put_trb hw a t x) = transfer_rings x" "ring_index (put_trb hw a t x) = ring_index x"
  "ring_cycle_state (put_trb hw a t x) = ring_cycle_state x"
  by (simp_all add: put_trb_def)

lemma doorbell_fields [simp]:
  "transfer_rings (RingDoorbell hw x d v) = transfer_rings x" "ring_index (RingDoorbell hw x d v) = ring_index x"
  "ring_cycle_state (RingDoorbell hw x d v) = ring_cycle_state x"
  by (simp_all add: RingDoorbell_def)

lemma set_ring_fields [simp]:
  "transfer_rings (set_ring s d i c x) = transfer_rings x" "ring_index (set_ring s d i c x) s d = i"
  "ring_cycle_state (set_ring s d i c x) s d = c" "x_hw (set_ring s d i c x) = x_hw x"
  by (simp_all add: set_ring_def)

context dma_machine
begin

lemma SendNormalTRB_step:
  assumes R: "ring_range W ring" "ring \<noteq> 0" and S: "xfer_state (mem (x_hw x)) x s (AddressToDCI ep) ring n k q" "length q < 30"
  shows "\<exists>x'. SendNormalTRB hw x s ep d l = (True, x') \<and>
    xfer_state (mem (x_hw x')) x' s (AddressToDCI ep) ring (Suc n) k (q @ [(d, l)])"
proof -
  define dci c where "dci = AddressToDCI ep" and "c = lap_cycle (n div 31)"
  note S' = S(1) [unfolded xfer_state_def, folded dci_def c_def]
  define x1 where "x1 = set_ring s dci (of_nat (n mod 31) + 1) c (put_trb hw (trb_addr ring (of_nat (n mod 31))) (normal_trb c d l) x)"
  define x2 where "x2 = (if n mod 31 = 30 then set_ring s dci 0 (c XOR 1) (put_trb hw (trb_addr ring (of_nat 31)) (link_trb c ring) x1) else x1)"
  have wrap: "(of_nat (n mod 31) + 1 :: u32) = 31 \<longleftrightarrow> n mod 31 = 30"
  proof -
    have "n mod 31 < 31" by simp
    then have "unat (of_nat (n mod 31) + 1 :: u32) = n mod 31 + 1" by (simp add: unat_word_ariths unat_of_nat)
    then show ?thesis by (simp add: word_unat_eq_iff)
  qed
  have send: "SendNormalTRB hw x s ep d l = (True, RingDoorbell hw x2 s (ucast dci))"
    using S' R(2) wrap by (simp add: SendNormalTRB_def Let_def dci_def [symmetric] x1_def x2_def)
  have sl: "slot_of (mem (x_hw (RingDoorbell hw x2 s (ucast dci)))) ring j =
      (if j = 31 then if n mod 31 = 30 then link_trb c ring else slot_of (mem (x_hw x)) ring 31
       else if j = n mod 31 then normal_trb c d l else slot_of (mem (x_hw x)) ring j)" if "j < 32" for j
  proof -
    have m: "n mod 31 < 31" by simp
    have s1: "slot_of (mem (x_hw x1)) ring j = (if j = n mod 31 then normal_trb c d l else slot_of (mem (x_hw x)) ring j)" if "j < 32" for j
      using put_trb_slot [OF R(1) _ that, of "n mod 31" "normal_trb c d l" x] m by (simp add: x1_def)
    have "slot_of (mem (x_hw x2)) ring j = (if j = 31 \<and> n mod 31 = 30 then link_trb c ring else slot_of (mem (x_hw x1)) ring j)"
      using put_trb_slot [OF R(1) _ that, of 31 "link_trb c ring" x1] by (auto simp: x2_def)
    then show ?thesis using that s1 [OF that] doorbell_slot [OF R(1) that, of x2] m by auto
  qed
  have "ring_queue (slot_of (mem (x_hw (RingDoorbell hw x2 s (ucast dci)))) ring) ring (Suc n) k (q @ [(d, l)])"
    by (rule ring_queue_put [OF _ S(2), of "slot_of (mem (x_hw x)) ring"]) (use S' sl in \<open>auto simp: c_def\<close>)
  moreover have "transfer_rings x2 s dci = ring" using S' by (simp add: x2_def x1_def)
  moreover have "ring_index x2 s dci = of_nat (Suc n mod 31)" "ring_cycle_state x2 s dci = lap_cycle (Suc n div 31)"
    by (auto simp: x2_def x1_def mod31_Suc c_def lap_cycle_Suc(1))
  ultimately show ?thesis using send by (simp add: xfer_state_def dci_def [symmetric])
qed

end

text \<open>The driver and the controller at work on one ring, in any order.\<close>

datatype xfer_op = XSend u64 u32 | XTake

fun xfer_run :: "'h machine \<Rightarrow> ('h \<Rightarrow> vmem) \<Rightarrow> u8 \<Rightarrow> u8 \<Rightarrow> u64 \<Rightarrow> xfer_op list \<Rightarrow> 'h Controller \<Rightarrow> nat \<times> u8 \<Rightarrow> (u64 \<times> u32) option list" where
  "xfer_run hw mem s ep ring [] x pos = []"
| "xfer_run hw mem s ep ring (XSend d l # ops) x pos = xfer_run hw mem s ep ring ops (snd (SendNormalTRB hw x s ep d l)) pos"
| "xfer_run hw mem s ep ring (XTake # ops) x pos =
     (case fetch (slot_of (mem (x_hw x)) ring) ring pos of
        None \<Rightarrow> None # xfer_run hw mem s ep ring ops x pos
      | Some (t, pos) \<Rightarrow> Some (trb_parameter t, trb_status t) # xfer_run hw mem s ep ring ops x pos)"

text \<open>A queue of at most 30 requests; \<open>None\<close> when it would grow longer.\<close>

fun fifo_run :: "xfer_op list \<Rightarrow> (u64 \<times> u32) list \<Rightarrow> (u64 \<times> u32) option list option" where
  "fifo_run [] q = Some []"
| "fifo_run (XSend d l # ops) q = (if length q < 30 then fifo_run ops (q @ [(d, l)]) else None)"
| "fifo_run (XTake # ops) q =
     (case q of [] \<Rightarrow> map_option (Cons None) (fifo_run ops []) | p # q \<Rightarrow> map_option (Cons (Some p)) (fifo_run ops q))"

context dma_machine
begin

lemma xfer_run_fifo:
  assumes "ring_range W ring" "ring \<noteq> 0" "xfer_state (mem (x_hw x)) x s (AddressToDCI ep) ring n k q" "fifo_run ops q = Some out"
  shows "xfer_run hw mem s ep ring ops x (dev_pos k) = out"
  using assms(3,4)
proof (induction ops arbitrary: x n k q out)
  case (Cons op ops)
  show ?case
  proof (cases op)
    case (XSend d l)
    then have "length q < 30" "fifo_run ops (q @ [(d, l)]) = Some out" using Cons.prems(2) by (auto split: if_splits)
    then show ?thesis
      using SendNormalTRB_step [OF assms(1,2) Cons.prems(1), of d l] Cons.IH XSend by fastforce
  next
    case XTake
    have rq: "ring_queue (slot_of (mem (x_hw x)) ring) ring n k q" using Cons.prems(1) by (simp add: xfer_state_def)
    show ?thesis
    proof (cases q)
      case Nil
      then show ?thesis
        using XTake Cons.prems Cons.IH [OF Cons.prems(1)] ring_queue_fetch(1) [OF rq] by auto
    next
      case (Cons p q')
      obtain d l where p: "p = (d, l)" by fastforce
      obtain out' where o: "fifo_run ops q' = Some out'" "out = Some (d, l) # out'"
        using XTake Cons.prems(2) local.Cons p by auto
      have f: "fetch (slot_of (mem (x_hw x)) ring) ring (dev_pos k) = Some (normal_trb (lap_cycle (k div 31)) d l, dev_pos (Suc k))"
        and r: "ring_queue (slot_of (mem (x_hw x)) ring) ring n (Suc k) q'"
        using ring_queue_fetch(2) [OF rq, of d l q'] local.Cons p by simp_all
      have "xfer_state (mem (x_hw x)) x s (AddressToDCI ep) ring n (Suc k) q'"
        using Cons.prems(1) r by (simp add: xfer_state_def)
      from Cons.IH [OF this o(1)] show ?thesis using XTake f o(2) by (simp add: normal_trb_def)
    qed
  qed
qed simp

end

section \<open>Events\<close>

text \<open>
  The events from number \<open>n\<close> on that the controller has put on the ring of 32 blocks, and none
  after them.
\<close>

definition events_from :: "vmem \<Rightarrow> u64 \<Rightarrow> nat \<Rightarrow> TRB list \<Rightarrow> bool" where
  "events_from m ring n es \<longleftrightarrow>
     (\<forall>i<length es. slot_of m ring ((n + i) mod 32) = es ! i \<and> cycle_bit (trb_control (es ! i)) = lap_cycle ((n + i) div 32)) \<and>
     cycle_bit (trb_control (slot_of m ring ((n + length es) mod 32))) \<noteq> lap_cycle ((n + length es) div 32)"

definition event_state :: "vmem \<Rightarrow> 'h Controller \<Rightarrow> nat \<Rightarrow> TRB list \<Rightarrow> bool" where
  "event_state m x n es \<longleftrightarrow>
     event_ring_index x = of_nat (n mod 32) \<and> dcs x = lap_cycle (n div 32) \<and> events_from m (event_ring x) n es"

text \<open>What an event says to somebody who polls an endpoint.\<close>

definition event_result :: "u8 \<Rightarrow> u8 \<Rightarrow> TRB \<Rightarrow> int" where
  "event_result s ep e =
     (if trb_type (trb_control e) = 32 \<and> ucast (drop_bit 24 (trb_control e)) = s \<and>
         ucast (drop_bit 16 (trb_control e) AND 0x1F) = AddressToDCI ep
      then int (unat (comp_code (trb_status e))) else -1)"

lemma mod32_Suc: "Suc n mod 32 = (if n mod 32 = 31 then 0 else Suc (n mod 32))" "Suc n div 32 = (if n mod 32 = 31 then Suc (n div 32) else n div 32)"
  by (simp_all add: mod_Suc div_Suc)

lemma events_from_Cons: "events_from m ring n (e # es) \<Longrightarrow> events_from m ring (Suc n) es"
  unfolding events_from_def by (auto simp del: mod_Suc_eq)

lemma next_event_fields:
  "event_ring (next_event hw x) = event_ring x"
  "event_ring_index (next_event hw x) = (if event_ring_index x + 1 = 32 then 0 else event_ring_index x + 1)"
  "dcs (next_event hw x) = (if event_ring_index x + 1 = 32 then dcs x XOR 1 else dcs x)"
  "transfer_rings (next_event hw x) = transfer_rings x" "ring_index (next_event hw x) = ring_index x"
  "ring_cycle_state (next_event hw x) = ring_cycle_state x"
  by (simp_all add: next_event_def WriteRtReg_def Let_def)

context dma_machine
begin

lemma next_event_mem: "y \<notin> W \<Longrightarrow> mem (x_hw (next_event hw x)) y = mem (x_hw x) y"
  by (simp add: next_event_def WriteRtReg_def Let_def mmio_mem)

lemma slot_of_frame:
  assumes R: "ring_range W ring" and "\<And>y. y \<notin> W \<Longrightarrow> m' y = m y" and j: "j < 32"
  shows "slot_of m' ring j = slot_of m ring j"
proof -
  note R' = R [unfolded ring_range_def]
  have u: "unat (trb_addr ring (of_nat j)) = unat ring + 16 * j" using unat_trb_addr R' j by blast
  have "mem_load m' (trb_addr ring (of_nat j)) 16 = mem_load m (trb_addr ring (of_nat j)) 16"
  proof (rule mem_load_frame)
    fix y :: u64 assume "unat y \<in> span (trb_addr ring (of_nat j)) 16"
    then have "unat y \<in> span ring 512" using u j unfolding span_def by auto
    then show "m' y = m y" using R' assms(2) by blast
  qed (use u j R' in linarith)
  then show ?thesis by (simp add: slot_of_def)
qed

lemma events_from_frame:
  assumes "ring_range W ring" "\<And>y. y \<notin> W \<Longrightarrow> m' y = m y" "events_from m ring n es"
  shows "events_from m' ring n es"
  using assms(3) slot_of_frame [OF assms(1,2)] by (simp add: events_from_def)

lemma event_state_next:
  assumes R: "ring_range W (event_ring x)" and S: "event_state (mem (x_hw x)) x n (e # es)"
  shows "event_state (mem (x_hw (next_event hw x))) (next_event hw x) (Suc n) es"
proof -
  have wrap: "(of_nat (n mod 32) + 1 :: u32) = 32 \<longleftrightarrow> n mod 32 = 31"
  proof -
    have "n mod 32 < 32" by simp
    then have "unat (of_nat (n mod 32) + 1 :: u32) = n mod 32 + 1" by (simp add: unat_word_ariths unat_of_nat)
    then show ?thesis by (simp add: word_unat_eq_iff)
  qed
  have "events_from (mem (x_hw (next_event hw x))) (event_ring x) (Suc n) es"
    by (rule events_from_frame [OF R next_event_mem events_from_Cons [of _ _ _ e]]) (use S in \<open>simp_all add: event_state_def\<close>)
  moreover have "event_ring_index x + 1 = 32 \<longleftrightarrow> n mod 32 = 31" using S wrap by (simp only: event_state_def)
  moreover have "of_nat (Suc n mod 32) = (if n mod 32 = 31 then 0 else event_ring_index x + 1)"
    using S by (simp add: event_state_def mod32_Suc add.commute)
  moreover have "lap_cycle (Suc n div 32) = (if n mod 32 = 31 then dcs x XOR 1 else dcs x)"
    using S by (simp add: event_state_def mod32_Suc lap_cycle_Suc(1))
  ultimately show ?thesis unfolding event_state_def next_event_fields by (simp only: refl simp_thms)
qed

lemma head_control:
  assumes "event_state m x n es"
  shows "cycle_bit (trb_control (slot_of m (event_ring x) (n mod 32))) = dcs x \<longleftrightarrow> es \<noteq> []"
    "es = e # es' \<Longrightarrow> slot_of m (event_ring x) (n mod 32) = e"
proof -
  show "cycle_bit (trb_control (slot_of m (event_ring x) (n mod 32))) = dcs x \<longleftrightarrow> es \<noteq> []"
    using assms by (cases es) (force simp: event_state_def events_from_def)+
  show "es = e # es' \<Longrightarrow> slot_of m (event_ring x) (n mod 32) = e"
    using assms by (force simp: event_state_def events_from_def)
qed

lemma PollEndpoint_step:
  assumes R: "ring_range W (event_ring x)" and S: "event_state (mem (x_hw x)) x n es"
  shows "es = [] \<Longrightarrow> \<exists>x'. PollEndpoint hw x s ep = (-1, x') \<and> event_ring x' = event_ring x \<and> event_state (mem (x_hw x')) x' n []"
    and "es = e # es' \<Longrightarrow> \<exists>x'. PollEndpoint hw x s ep = (event_result s ep e, x') \<and> event_ring x' = event_ring x \<and>
      event_state (mem (x_hw x')) x' (Suc n) es'"
proof -
  let ?a = "trb_addr (event_ring x) (event_ring_index x)"
  obtain bs h where l: "dma_load hw ?a 16 (x_hw x) = (bs, h)" by fastforce
  have idx: "event_ring_index x = of_nat (n mod 32)" using S by (simp add: event_state_def)
  have bs: "trb_of bs = slot_of (mem (x_hw x)) (event_ring x) (n mod 32)"
    using load_val [OF l] by (simp add: slot_of_def idx)
  let ?x = "x\<lparr>x_hw := h\<rparr>"
  have S1: "event_state (mem (x_hw ?x)) ?x n es"
    using S events_from_frame [OF R, of "mem h" "mem (x_hw x)"] load_mem [OF l] by (simp add: event_state_def)
  have g: "get_trb hw ?a x = (slot_of (mem (x_hw x)) (event_ring x) (n mod 32), ?x)" by (simp add: get_trb_def l bs)
  {
    assume "es = []"
    then show "\<exists>x'. PollEndpoint hw x s ep = (-1, x') \<and> event_ring x' = event_ring x \<and> event_state (mem (x_hw x')) x' n []"
      using S1 head_control(1) [OF S] by (simp add: PollEndpoint_def g)
  }
  {
    assume e: "es = e # es'"
    have "PollEndpoint hw x s ep = (event_result s ep e, next_event hw ?x)"
      using head_control [OF S] e by (simp add: PollEndpoint_def g event_result_def Let_def)
    moreover have "event_state (mem (x_hw (next_event hw ?x))) (next_event hw ?x) (Suc n) es'"
      by (rule event_state_next) (use R S1 e in simp_all)
    ultimately show "\<exists>x'. PollEndpoint hw x s ep = (event_result s ep e, x') \<and> event_ring x' = event_ring x \<and>
      event_state (mem (x_hw x')) x' (Suc n) es'" by (simp add: next_event_fields)
  }
qed

end

fun poll_run :: "'h machine \<Rightarrow> u8 \<Rightarrow> u8 \<Rightarrow> nat \<Rightarrow> 'h Controller \<Rightarrow> int list" where
  "poll_run hw s ep 0 x = []"
| "poll_run hw s ep (Suc n) x = (let (r, x) = PollEndpoint hw x s ep in r # poll_run hw s ep n x)"

section \<open>Properties\<close>

text \<open>
  C7: a transfer ring is a queue for the controller. The driver fills the ring of 31 blocks
  and a link block with \<open>SendNormalTRB\<close>, while a controller that follows the cycle bit and the
  link takes blocks from it, in any order of steps and over any number of passes: the controller
  finds exactly the buffers and lengths that were sent, in order, and nothing else, as long as
  no more than 30 are outstanding. The ring starts cleared, as \<open>ConfigureEndpoint\<close> leaves it.
\<close>

theorem transfer_ring_fifo:
  assumes "dma_machine hw mem W" "ring_range W ring" "ring \<noteq> 0"
    and "transfer_rings x s (AddressToDCI ep) = ring" "ring_index x s (AddressToDCI ep) = 0" "ring_cycle_state x s (AddressToDCI ep) = 1"
    and "\<forall>j<31. slot_of (mem (x_hw x)) ring j = \<lparr>trb_parameter = 0, trb_status = 0, trb_control = 0\<rparr>"
    and "fifo_run ops [] = Some out"
  shows "xfer_run hw mem s ep ring ops x (0, 1) = out"
proof -
  have "xfer_state (mem (x_hw x)) x s (AddressToDCI ep) ring 0 0 []"
    using assms(4-7) by (simp add: xfer_state_def ring_queue_def lap_cycle_def cycle_bit_def)
  from dma_machine.xfer_run_fifo [OF assms(1-3) this assms(8)] show ?thesis by (simp add: dev_pos_def lap_cycle_def)
qed

text \<open>
  C22: events are taken in order. With the events \<open>es\<close> waiting on the event ring from any
  position on, over the end of the ring too, as many calls of \<open>PollEndpoint\<close> return, one for
  each event and in order, its completion code when it is a transfer event of the endpoint and
  -1 otherwise (events for other endpoints are dropped); further calls return -1.
\<close>

theorem PollEndpoint_in_order:
  assumes "dma_machine hw mem W" "ring_range W (event_ring x)" "event_state (mem (x_hw x)) x n es"
  shows "poll_run hw s ep (length es + k) x = map (event_result s ep) es @ replicate k (-1)"
  using assms(2,3)
proof (induction es arbitrary: x n)
  case Nil
  then show ?case
  proof (induction k arbitrary: x)
    case (Suc k)
    obtain x' where p: "PollEndpoint hw x s ep = (-1, x')" "event_ring x' = event_ring x" "event_state (mem (x_hw x')) x' n []"
      using dma_machine.PollEndpoint_step(1) [OF assms(1) Suc.prems(1,2) refl] by blast
    then show ?case using Suc.IH [of x'] Suc.prems(1) by simp
  qed simp
next
  case (Cons e es)
  obtain x' where p: "PollEndpoint hw x s ep = (event_result s ep e, x')" "event_ring x' = event_ring x"
    "event_state (mem (x_hw x')) x' (Suc n) es"
    using dma_machine.PollEndpoint_step(2) [OF assms(1) Cons.prems(1,2) refl] by blast
  then show ?case using Cons.IH [of x' "Suc n"] Cons.prems(1) by simp
qed

section \<open>Memory only\<close>

text \<open>A machine that is nothing but memory, for the witnesses.\<close>

definition ram_machine :: "vmem machine" where
  "ram_machine = \<lparr>port_in8 = (\<lambda>_ h. (0, h)), port_out8 = (\<lambda>_ _ h. h), port_in32 = (\<lambda>_ h. (0, h)), port_out32 = (\<lambda>_ _ h. h),
     mmio_read32 = (\<lambda>_ h. (0, h)), mmio_write32 = (\<lambda>_ _ h. h), dma_load = (\<lambda>a n h. (mem_load h a n, h)),
     dma_store = (\<lambda>a bs h. mem_write a bs h)\<rparr>"

interpretation ram_dma: dma_machine ram_machine "\<lambda>h. h" "{}"
  by unfold_locales (auto simp: ram_machine_def)

definition sample_xhci :: "vmem Controller" where
  "sample_xhci = \<lparr>x_dev = pci_dev 0 0 0, mmio_base = 0, op_regs_base = 0, rt_regs_base = 0, db_regs_base = 0, max_slots = 8,
     dcbaa = 0, command_ring = 0x10000, event_ring = 0x20000, erst = 0, dcs = 1, pcs = 1, cmd_ring_index = 0, event_ring_index = 0,
     transfer_rings = (\<lambda>_ _. 0x30000), ring_cycle_state = (\<lambda>_ _. 1), ring_index = (\<lambda>_ _. 0), x_mm = sample_mm, x_hw = (\<lambda>_. 0)\<rparr>"

lemma sample_ranges: "ring_range {} 0x30000" "ring_range {} (event_ring sample_xhci)"
  by (simp_all add: ring_range_def sample_xhci_def)

lemma zero_slot: "slot_of (\<lambda>_. 0) ring j = \<lparr>trb_parameter = 0, trb_status = 0, trb_control = 0\<rparr>"
proof -
  have "mem_load (\<lambda>_. 0) a n = replicate n 0" for a n by (simp add: mem_load_def map_replicate_const)
  then show ?thesis by (simp add: slot_of_def trb_of_def le64_get_def le32_get_def eval_nat_numeral)
qed

theorem transfer_ring_fifo_witness:
  "xfer_run ram_machine (\<lambda>h. h) 1 0x81 0x30000 [XSend 0x1000 8, XSend 0x2000 8, XTake, XTake, XTake] sample_xhci (0, 1) =
     [Some (0x1000, 8), Some (0x2000, 8), None]"
  by (rule transfer_ring_fifo [OF ram_dma.dma_machine_axioms sample_ranges(1)])
    (simp_all add: sample_xhci_def zero_slot)

theorem PollEndpoint_in_order_witness:
  "poll_run ram_machine 1 0x81 2 (sample_xhci\<lparr>x_hw := mem_write 0x20008 [0, 0, 0, 1, 1, 128, 3, 1] (\<lambda>_. 0)\<rparr>) = [1, -1]"
proof -
  let ?m = "mem_write 0x20008 [0, 0, 0, 1, 1, 128, 3, 1] (\<lambda>_. 0)"
  let ?x = "sample_xhci\<lparr>x_hw := ?m\<rparr>" and ?e = "\<lparr>trb_parameter = 0, trb_status = 0x1000000, trb_control = 0x1038001\<rparr>"
  have "slot_of ?m 0x20000 0 = ?e" "slot_of ?m 0x20000 1 = \<lparr>trb_parameter = 0, trb_status = 0, trb_control = 0\<rparr>"
    by code_simp+
  then have "event_state ?m ?x 0 [?e]"
    by (simp add: event_state_def events_from_def sample_xhci_def lap_cycle_def cycle_bit_def)
  then have "poll_run ram_machine 1 0x81 (length [?e] + 1) ?x = map (event_result 1 0x81) [?e] @ replicate 1 (-1)"
    using PollEndpoint_in_order [OF ram_dma.dma_machine_axioms, of ?x 0 "[?e]" 1 "0x81" 1] sample_ranges(2)
    by (simp add: sample_xhci_def)
  moreover have "event_result 1 0x81 ?e = 1" by code_simp
  ultimately show ?thesis by (simp add: numeral_2_eq_2)
qed

end
