(* ===== verification/Usb.thy ===== *)
theory Usb
  imports XhciRing Syscall
begin

text \<open>
  The USB devices the kernel knows: the boot keyboard (kernel/driver/usb/keyboard/keyboard.cpp)
  and bulk-only mass storage (kernel/driver/usb/mass_storage/mass_storage.cpp), over the
  controller of theory \<open>Xhci\<close>; the interrupt handler of the controller, which calls the
  keyboard; and the scan code tables of kernel/keyboard_layout.cpp.
\<close>

section \<open>Keyboard\<close>

definition padded :: "nat \<Rightarrow> bytes \<Rightarrow> bytes" where
  "padded n bs = bs @ replicate (n - length bs) 0"

definition kHidToAsciiMap :: bytes where
  "kHidToAsciiMap = padded 256
     ([0, 0, 0, 0] @ str ''abcdefghijklmnopqrstuvwxyz1234567890'' @ [0x0A, 0x1B, 0x08, 0x09] @ str '' -=[]'' @ [0x5C] @
      str ''#;'' @ [0x27, 0x60] @ str '',./'')"

definition kHidToAsciiMapShift :: bytes where
  "kHidToAsciiMapShift = padded 256
     ([0, 0, 0, 0] @ str ''ABCDEFGHIJKLMNOPQRSTUVWXYZ!@#$%^&*()'' @ [0x0A, 0x1B, 0x08, 0x09] @ str '' _+{}|~:'' @ [0x22] @
      str ''~<>?'')"

text \<open>\<open>kbuf\<close> is the address of \<open>buf_\<close>, which the controller fills.\<close>

record Keyboard =
  kslot_id :: u8
  ep_interrupt_in :: u8
  kbuf :: u64
  prev_buf :: bytes

definition Keyboard_new :: "u8 \<Rightarrow> u64 \<Rightarrow> bytes \<Rightarrow> Keyboard" where
  "Keyboard_new slot_id buf prev = \<lparr>kslot_id = slot_id, ep_interrupt_in = 0, kbuf = buf, prev_buf = prev\<rparr>"

definition get_bytes :: "'h machine \<Rightarrow> u64 \<Rightarrow> nat \<Rightarrow> 'h Controller \<Rightarrow> bytes \<times> 'h Controller" where
  "get_bytes hw a n x = (let (bs, h) = dma_load hw a n (x_hw x) in (bs, x\<lparr>x_hw := h\<rparr>))"

text \<open>The loop over the keys of a report: the characters it delivers.\<close>

definition key_chars :: "bytes \<Rightarrow> bytes \<Rightarrow> bytes" where
  "key_chars prev buf =
     (let shift = (buf ! 0 AND 0x02 \<noteq> 0 \<or> buf ! 0 AND 0x20 \<noteq> 0)
      in concat (map (\<lambda>i.
           let key = buf ! i
           in if key = 0 then []
              else if \<exists>j\<in>set [2..<8]. prev ! j = key then []
              else
                let ascii = (if shift then kHidToAsciiMapShift ! unat key else kHidToAsciiMap ! unat key)
                in if ascii \<noteq> 0 then [ascii] else []) [2..<8]))"

text \<open>\<open>Update\<close>: the characters for \<open>OnInput\<close> and the new state.\<close>

definition rearm :: "'h machine \<Rightarrow> Keyboard \<Rightarrow> 'h Controller \<Rightarrow> 'h Controller" where
  "rearm hw kb x =
     snd (SendNormalTRB hw (put_zeros hw (kbuf kb) 8 x) (kslot_id kb) (ep_interrupt_in kb) (kbuf kb) 8)"

definition Keyboard_Update :: "'h machine \<Rightarrow> Keyboard \<Rightarrow> 'h Controller \<Rightarrow> bytes \<times> Keyboard \<times> 'h Controller" where
  "Keyboard_Update hw kb x =
     (let (result, x) = PollEndpoint hw x (kslot_id kb) (ep_interrupt_in kb)
      in if result = 1 then
           let (buf, x) = get_bytes hw (kbuf kb) 8 x
           in (key_chars (prev_buf kb) buf, kb\<lparr>prev_buf := buf\<rparr>, rearm hw kb x)
         else ([], kb, x))"

definition ForceSendTRB :: "'h machine \<Rightarrow> Keyboard \<Rightarrow> 'h Controller \<Rightarrow> Keyboard \<times> 'h Controller" where
  "ForceSendTRB hw kb x =
     (let (buf, x) = get_bytes hw (kbuf kb) 8 x; kb = kb\<lparr>prev_buf := buf\<rparr> in (kb, rearm hw kb x))"

text \<open>
  \<open>Initialize\<close>: the descriptors go to a buffer of 256 bytes, which the walk over them reads;
  \<open>desc\<close> is the address of the local device descriptor. A descriptor of length 0 never ends
  the loop. The result of the walk is the value returned from inside it, if any.
\<close>

definition kbd_interface :: "bytes \<Rightarrow> bool" where
  "kbd_interface d \<longleftrightarrow> d ! 5 = 3 \<and> d ! 6 = 1 \<and> d ! 7 = 1"

partial_function (option) kbd_walk :: "'h machine \<Rightarrow> u64 \<Rightarrow> u64 \<Rightarrow> bool \<Rightarrow> Keyboard \<Rightarrow> 'h Controller \<Rightarrow>
    (bool option \<times> Keyboard \<times> 'h Controller) option" where
  "kbd_walk hw p end_p is_keyboard kb x =
     (if p < end_p then
        let (d, x) = get_bytes hw p 9 x; len = d ! 0; type = d ! 1;
            is_keyboard = (if type = 4 then kbd_interface d else is_keyboard)
        in if type = 5 \<and> is_keyboard \<and> d ! 2 AND 0x80 \<noteq> 0 \<and> d ! 3 AND 0x03 = 3 then
             let kb = kb\<lparr>ep_interrupt_in := d ! 2\<rparr>
             in Option.bind (ConfigureEndpoint hw x (kslot_id kb) (ep_interrupt_in kb) 8 10 3) (\<lambda>(ok, x).
                  if ok then
                    let x = put_zeros hw (kbuf kb) 8 x; kb = kb\<lparr>prev_buf := replicate 8 0\<rparr>
                    in Some (Some True, kb, snd (SendNormalTRB hw x (kslot_id kb) (ep_interrupt_in kb) (kbuf kb) 8))
                  else Some (Some False, kb, x))
           else kbd_walk hw (p + ucast len) end_p is_keyboard kb x
      else Some (None, kb, x))"

definition Keyboard_Initialize :: "'h machine \<Rightarrow> u64 \<Rightarrow> Keyboard \<Rightarrow> 'h Controller \<Rightarrow> (bool \<times> Keyboard \<times> 'h Controller) option" where
  "Keyboard_Initialize hw desc kb x = do {
     (ok, x) \<leftarrow> ControlIn hw x (kslot_id kb) 0x80 6 0x0100 0 18 desc;
     if \<not> ok then Some (False, kb, x)
     else do {
       let (buf, x) = x_alloc 256 x;
       (ok, x) \<leftarrow> ControlIn hw x (kslot_id kb) 0x80 6 0x0200 0 9 buf;
       if \<not> ok then Some (False, kb, x_free buf 256 x)
       else do {
         let (tl, x) = get_bytes hw (buf + 2) 2 x;
         let total_length = le16_get tl;
         (ok, x) \<leftarrow> ControlIn hw x (kslot_id kb) 0x80 6 0x0200 0 total_length buf;
         if \<not> ok then Some (False, kb, x_free buf 256 x)
         else do {
           (r, kb, x) \<leftarrow> kbd_walk hw buf (buf + ucast total_length) False kb x;
           case r of
             Some ok \<Rightarrow> Some (ok, kb, x)
           | None \<Rightarrow> Some (ep_interrupt_in kb \<noteq> 0, kb, x_free buf 256 x) } } } }"

text \<open>The interrupt of the controller: one event is taken off, then the keyboard is polled.\<close>

definition ProcessInterrupt :: "'h machine \<Rightarrow> Keyboard option \<Rightarrow> 'h Controller \<Rightarrow> bytes \<times> Keyboard option \<times> 'h Controller" where
  "ProcessInterrupt hw g_usb_keyboard x =
     (let x = drop_event hw x
      in case g_usb_keyboard of
           None \<Rightarrow> ([], None, x)
         | Some kb \<Rightarrow> let (cs, kb, x) = Keyboard_Update hw kb x in (cs, Some kb, x))"

text \<open>The keyboard as the source of characters for the system calls.\<close>

definition usb_poll :: "'h machine \<Rightarrow> Keyboard option \<times> 'h Controller \<Rightarrow> bytes \<times> (Keyboard option \<times> 'h Controller)" where
  "usb_poll hw = (\<lambda>(g_usb_keyboard, x).
     case g_usb_keyboard of
       None \<Rightarrow> ([], None, x)
     | Some kb \<Rightarrow> let (cs, kb, x) = Keyboard_Update hw kb x in (cs, Some kb, x))"

section \<open>Mass storage\<close>

record MassStorage =
  mslot_id :: u8
  ep_bulk_in :: u8
  ep_bulk_out :: u8
  total_blocks :: u64
  block_size :: u32

definition MassStorage_new :: "u8 \<Rightarrow> MassStorage" where
  "MassStorage_new slot_id = \<lparr>mslot_id = slot_id, ep_bulk_in = 0, ep_bulk_out = 0, total_blocks = 0, block_size = 0\<rparr>"

text \<open>\<open>while (PollEndpoint(...) == -1);\<close>\<close>

partial_function (option) poll_until :: "'h machine \<Rightarrow> u8 \<Rightarrow> u8 \<Rightarrow> 'h Controller \<Rightarrow> 'h Controller option" where
  "poll_until hw slot_id ep x =
     (let (r, x) = PollEndpoint hw x slot_id ep in if r = -1 then poll_until hw slot_id ep x else Some x)"

definition cbw_bytes :: "u32 \<Rightarrow> u32 \<Rightarrow> u8 \<Rightarrow> u8 \<Rightarrow> u8 \<Rightarrow> bytes \<Rightarrow> bytes" where
  "cbw_bytes tag data_len flags lun cmd_len cmd =
     le32_put 0x43425355 @ le32_put tag @ le32_put data_len @ [flags, lun, cmd_len] @
     map (\<lambda>i. if i < unat cmd_len then cmd ! i else 0) [0..<16]"

definition SendCBW :: "'h machine \<Rightarrow> MassStorage \<Rightarrow> u32 \<Rightarrow> u32 \<Rightarrow> u8 \<Rightarrow> u8 \<Rightarrow> u8 \<Rightarrow> bytes \<Rightarrow> 'h Controller \<Rightarrow> (bool \<times> 'h Controller) option" where
  "SendCBW hw ms tag data_len flags lun cmd_len cmd x =
     (let (cbw, x) = x_alloc 31 x;
          x = put_bytes hw cbw (cbw_bytes tag data_len flags lun cmd_len cmd) x;
          (ret, x) = SendNormalTRB hw x (mslot_id ms) (ep_bulk_out ms) cbw 31
      in do {
        x \<leftarrow> poll_until hw (mslot_id ms) (ep_bulk_out ms) x;
        Some (ret, x_free cbw 31 x) })"

definition TransferData :: "'h machine \<Rightarrow> MassStorage \<Rightarrow> u64 \<Rightarrow> u32 \<Rightarrow> bool \<Rightarrow> 'h Controller \<Rightarrow> (bool \<times> 'h Controller) option" where
  "TransferData hw ms buffer len is_in x =
     (let ep = (if is_in then ep_bulk_in ms else ep_bulk_out ms);
          (ret, x) = SendNormalTRB hw x (mslot_id ms) ep buffer len
      in do { x \<leftarrow> poll_until hw (mslot_id ms) ep x; Some (ret, x) })"

definition ReceiveCSW :: "'h machine \<Rightarrow> MassStorage \<Rightarrow> u32 \<Rightarrow> 'h Controller \<Rightarrow> (bool \<times> 'h Controller) option" where
  "ReceiveCSW hw ms tag x =
     (let (csw, x) = x_alloc 13 x;
          (ret, x) = SendNormalTRB hw x (mslot_id ms) (ep_bulk_in ms) csw 13
      in do {
        x \<leftarrow> poll_until hw (mslot_id ms) (ep_bulk_in ms) x;
        let (bs, x) = get_bytes hw csw 13 x;
        let ret = (if le32_get (take 4 bs) \<noteq> 0x53425355 \<or> le32_get (take 4 (drop 4 bs)) \<noteq> tag \<or> bs ! 12 \<noteq> 0 then False else ret);
        Some (ret, x_free csw 13 x) })"

text \<open>A SCSI command: the three phases, each of which can end it.\<close>

definition scsi_in :: "'h machine \<Rightarrow> MassStorage \<Rightarrow> u32 \<Rightarrow> u32 \<Rightarrow> bytes \<Rightarrow> u64 \<Rightarrow> 'h Controller \<Rightarrow> (bool \<times> 'h Controller) option" where
  "scsi_in hw ms tag len cmd buffer x = do {
     (ok, x) \<leftarrow> SendCBW hw ms tag len 0x80 0 10 cmd x;
     if \<not> ok then Some (False, x)
     else do {
       (ok, x) \<leftarrow> TransferData hw ms buffer len True x;
       if \<not> ok then Some (False, x) else ReceiveCSW hw ms tag x } }"

definition be32_get :: "bytes \<Rightarrow> u32" where
  "be32_get bs = push_bit 24 (ucast (bs ! 0)) OR push_bit 16 (ucast (bs ! 1)) OR push_bit 8 (ucast (bs ! 2)) OR ucast (bs ! 3)"

definition capacity_cdb :: bytes where
  "capacity_cdb = 0x25 # replicate 15 0"

definition ScsiReadCapacity :: "'h machine \<Rightarrow> MassStorage \<Rightarrow> 'h Controller \<Rightarrow> (bool \<times> MassStorage \<times> 'h Controller) option" where
  "ScsiReadCapacity hw ms x =
     (let (data, x) = x_alloc 8 x in do {
        (ok, x) \<leftarrow> scsi_in hw ms 1 8 capacity_cdb data x;
        if \<not> ok then Some (False, ms, x)
        else do {
          let (d, x) = get_bytes hw data 8 x;
          let ms = ms\<lparr>total_blocks := ucast (be32_get d + 1), block_size := be32_get (drop 4 d)\<rparr>;
          Some (True, ms, x_free data 8 x) } })"

definition read10_cdb :: "u64 \<Rightarrow> u32 \<Rightarrow> bytes" where
  "read10_cdb lba num_sectors =
     [0x28, 0, ucast (drop_bit 24 lba), ucast (drop_bit 16 lba), ucast (drop_bit 8 lba), ucast lba, 0,
      ucast (drop_bit 8 num_sectors), ucast num_sectors, 0, 0, 0, 0, 0, 0, 0]"

definition ReadSectors :: "'h machine \<Rightarrow> MassStorage \<Rightarrow> u64 \<Rightarrow> u32 \<Rightarrow> u64 \<Rightarrow> 'h Controller \<Rightarrow> (bool \<times> 'h Controller) option" where
  "ReadSectors hw ms lba num_sectors buffer x =
     scsi_in hw ms 2 (num_sectors * block_size ms) (read10_cdb lba num_sectors) buffer x"

definition MassStorage_Read :: "'h machine \<Rightarrow> MassStorage \<Rightarrow> u64 \<Rightarrow> u64 \<Rightarrow> u32 \<Rightarrow> 'h Controller \<Rightarrow> (bool \<times> 'h Controller) option" where
  "MassStorage_Read hw ms lba buffer count x = ReadSectors hw ms lba count buffer x"

definition MassStorage_Write :: "MassStorage \<Rightarrow> u64 \<Rightarrow> u64 \<Rightarrow> u32 \<Rightarrow> bool" where
  "MassStorage_Write ms lba buffer count = False"

partial_function (option) msc_walk :: "'h machine \<Rightarrow> u64 \<Rightarrow> u64 \<Rightarrow> bool \<Rightarrow> MassStorage \<Rightarrow> 'h Controller \<Rightarrow>
    (MassStorage \<times> 'h Controller) option" where
  "msc_walk hw p end_p found ms x =
     (if p < end_p then
        let (d, x) = get_bytes hw p 9 x; len = d ! 0; type = d ! 1;
            found' = (if type = 4 then d ! 5 = 0x08 \<and> d ! 6 = 0x06 \<and> d ! 7 = 0x50 else found);
            ms = (if type = 5 \<and> found \<and> d ! 3 AND 0x03 = 2
                  then if d ! 2 AND 0x80 \<noteq> 0 then ms\<lparr>ep_bulk_in := d ! 2\<rparr> else ms\<lparr>ep_bulk_out := d ! 2\<rparr>
                  else ms)
        in msc_walk hw (p + ucast len) end_p found' ms x
      else Some (ms, x))"

definition MassStorage_Initialize :: "'h machine \<Rightarrow> MassStorage \<Rightarrow> 'h Controller \<Rightarrow> (bool \<times> MassStorage \<times> 'h Controller) option" where
  "MassStorage_Initialize hw ms x =
     (let (buf, x) = x_alloc 1024 x in do {
        (ok, x) \<leftarrow> ControlIn hw x (mslot_id ms) 0x80 6 0x0200 0 9 buf;
        if \<not> ok then Some (False, ms, x_free buf 1024 x)
        else do {
          let (tl, x) = get_bytes hw (buf + 2) 2 x;
          let total_len = le16_get tl;
          (ok, x) \<leftarrow> ControlIn hw x (mslot_id ms) 0x80 6 0x0200 0 total_len buf;
          if \<not> ok then Some (False, ms, x_free buf 1024 x)
          else do {
            (ms, x) \<leftarrow> msc_walk hw buf (buf + ucast total_len) False ms x;
            let x = x_free buf 1024 x;
            if ep_bulk_in ms = 0 \<or> ep_bulk_out ms = 0 then Some (False, ms, x)
            else do {
              (ok, x) \<leftarrow> ConfigureEndpoint hw x (mslot_id ms) (ep_bulk_in ms) 512 0 2;
              if \<not> ok then Some (False, ms, x)
              else do {
                (ok, x) \<leftarrow> ConfigureEndpoint hw x (mslot_id ms) (ep_bulk_out ms) 512 0 2;
                if \<not> ok then Some (False, ms, x) else ScsiReadCapacity hw ms x } } } } })"

section \<open>Scan codes\<close>

datatype KeyboardLayout = US_Standard | JP_Standard

definition kKeyMapSize :: nat where
  "kKeyMapSize = 0x7D + 1"

definition kKeyMapUS :: bytes where
  "kKeyMapUS = padded kKeyMapSize
     ([0, 0] @ str ''1234567890-='' @ [0, 0] @ str ''qwertyuiop[]'' @ [0x0A, 0] @ str ''asdfghjkl;'' @ [0x27, 0x60, 0, 0x5C] @
      str ''zxcvbnm,./'' @ [0, 0x2A, 0, 0x20])"

definition kKeyMapUS_Shift :: bytes where
  "kKeyMapUS_Shift = padded kKeyMapSize
     ([0, 0] @ str ''!@#$%^&*()_+'' @ [0, 0] @ str ''QWERTYUIOP{}'' @ [0x0A, 0] @ str ''ASDFGHJKL:'' @ [0x22, 0x7E, 0, 0x7C] @
      str ''ZXCVBNM<>?'' @ [0, 0x2A, 0, 0x20])"

definition kKeyMapJP :: bytes where
  "kKeyMapJP =
     [0, 0] @ str ''1234567890-^'' @ [0, 0] @ str ''qwertyuiop@['' @ [0x0A, 0] @ str ''asdfghjkl;:'' @ [0, 0] @
     str '']zxcvbnm,./'' @ [0, 0x2A, 0, 0x20] @ replicate 57 0 @ [0x5C] @ replicate 9 0 @ [0x5C]"

definition kKeyMapJP_Shift :: bytes where
  "kKeyMapJP_Shift =
     [0, 0] @ str ''!'' @ [0x22] @ str ''#$%&'' @ [0x27] @ str ''()'' @ [0] @ str ''=~'' @ [0, 0] @ str ''QWERTYUIOP'' @ [0x60] @ str ''{'' @ [0x0A, 0] @
     str ''ASDFGHJKL+*'' @ [0, 0] @ str ''}ZXCVBNM<>?'' @ [0, 0x2A, 0, 0x20] @ replicate 57 0 @ str ''_'' @ replicate 9 0 @ str ''|''"

definition ConvertScanCodeToAscii :: "u8 \<Rightarrow> bool \<Rightarrow> KeyboardLayout \<Rightarrow> u8" where
  "ConvertScanCodeToAscii scancode shift layout =
     (if unat scancode \<ge> kKeyMapSize then 0
      else if layout = US_Standard
      then if shift then kKeyMapUS_Shift ! unat scancode else kKeyMapUS ! unat scancode
      else if shift then kKeyMapJP_Shift ! unat scancode else kKeyMapJP ! unat scancode)"

section \<open>Reports and events\<close>

lemma length_concat_map_le: "(\<And>i. length (f i) \<le> 1) \<Longrightarrow> length (concat (map f xs)) \<le> length xs"
proof (induction xs)
  case (Cons a xs)
  then have "length (f a) \<le> 1" "length (concat (map f xs)) \<le> length xs" by blast+
  then show ?case by simp
qed simp

lemma key_chars_length: "length (key_chars prev buf) \<le> 6"
  unfolding key_chars_def Let_def
  by (rule order_trans [OF length_concat_map_le]) (simp_all del: upt_rec_numeral)

lemma key_chars_held: "set (take 6 (drop 2 buf)) \<subseteq> set (take 6 (drop 2 prev)) \<union> {0} \<Longrightarrow> length buf = 8 \<Longrightarrow> length prev = 8 \<Longrightarrow>
    key_chars prev buf = []"
proof -
  assume sub: "set (take 6 (drop 2 buf)) \<subseteq> set (take 6 (drop 2 prev)) \<union> {0}" and len: "length buf = 8" "length prev = 8"
  have held: "buf ! i = 0 \<or> (\<exists>j\<in>set [2..<8]. prev ! j = buf ! i)" if i: "i \<in> set [2..<8]" for i
  proof -
    have "buf ! i \<in> set (take 6 (drop 2 buf))"
    proof -
      have "2 + (i - 2) = i" using i by (metis atLeastLessThan_iff set_upt le_add_diff_inverse)
      then have "take 6 (drop 2 buf) ! (i - 2) = buf ! i" using i len by (simp del: upt_rec_numeral)
      moreover have "i - 2 < length (take 6 (drop 2 buf))" using i len by (auto simp del: upt_rec_numeral)
      ultimately show ?thesis by (metis nth_mem)
    qed
    then consider "buf ! i = 0" | "buf ! i \<in> set (take 6 (drop 2 prev))" using sub by blast
    then show ?thesis
    proof cases
      case 2
      then obtain k where "k < 6" "prev ! (2 + k) = buf ! i" using len by (auto simp: in_set_conv_nth)
      then have "2 + k \<in> set [2..<8] \<and> prev ! (2 + k) = buf ! i" by auto
      then show ?thesis by blast
    qed simp
  qed
  show ?thesis
    unfolding key_chars_def Let_def concat_eq_Nil_conv set_map
    by (intro ballI, elim imageE) (use held in \<open>auto simp del: upt_rec_numeral set_upt\<close>)
qed

lemma mem_load_drop: "drop 12 (mem_load m a 16) = mem_load m (a + 12) 4"
  by (rule nth_equalityI) (auto simp: add.assoc)

context dma_machine
begin

lemma drop_event_step:
  assumes R: "ring_range W (event_ring x)" and S: "event_state (mem (x_hw x)) x n (e # es)"
  shows "event_state (mem (x_hw (drop_event hw x))) (drop_event hw x) (Suc n) es" "event_ring (drop_event hw x) = event_ring x"
    "ring_index (drop_event hw x) = ring_index x" "transfer_rings (drop_event hw x) = transfer_rings x"
proof -
  let ?a = "trb_addr (event_ring x) (event_ring_index x)"
  obtain bs h where l: "dma_load hw (?a + 12) 4 (x_hw x) = (bs, h)" by fastforce
  have idx: "event_ring_index x = of_nat (n mod 32)" using S by (simp add: event_state_def)
  have c: "le32_get bs = trb_control (slot_of (mem (x_hw x)) (event_ring x) (n mod 32))"
    using load_val [OF l] by (simp add: slot_of_def trb_of_def idx mem_load_drop)
  let ?x = "x\<lparr>x_hw := h\<rparr>"
  have S1: "event_state (mem (x_hw ?x)) ?x n (e # es)"
    using S events_from_frame [OF R, of "mem h" "mem (x_hw x)"] load_mem [OF l] by (simp add: event_state_def)
  have d: "drop_event hw x = next_event hw ?x"
    using head_control(1) [OF S] by (simp add: drop_event_def get32_def load32_def l c)
  show "event_state (mem (x_hw (drop_event hw x))) (drop_event hw x) (Suc n) es"
    unfolding d by (rule event_state_next) (use R S1 in simp_all)
  show "event_ring (drop_event hw x) = event_ring x" "ring_index (drop_event hw x) = ring_index x"
    "transfer_rings (drop_event hw x) = transfer_rings x"
    by (simp_all add: d next_event_fields)
qed

lemma PollEndpoint_mem: "y \<notin> W \<Longrightarrow> mem (x_hw (snd (PollEndpoint hw x s ep))) y = mem (x_hw x) y"
proof -
  assume y: "y \<notin> W"
  obtain bs h where l: "dma_load hw (trb_addr (event_ring x) (event_ring_index x)) 16 (x_hw x) = (bs, h)" by fastforce
  show ?thesis
    using load_mem [OF l y] next_event_mem [OF y] by (simp add: PollEndpoint_def get_trb_def l Let_def)
qed

lemma PollEndpoint_rings:
  "transfer_rings (snd (PollEndpoint hw x s ep)) = transfer_rings x" "ring_index (snd (PollEndpoint hw x s ep)) = ring_index x"
  by (simp_all add: PollEndpoint_def get_trb_def next_event_fields Let_def split: prod.split)

lemma Keyboard_Update_report:
  assumes R: "ring_range W (event_ring x)" and S: "event_state (mem (x_hw x)) x n (e # es)"
    and e: "event_result (kslot_id kb) (ep_interrupt_in kb) e = 1"
    and buf: "unat (kbuf kb) + 8 \<le> 2 ^ 64" "\<forall>y. unat y \<in> span (kbuf kb) 8 \<longrightarrow> y \<notin> W"
      "mem_load (mem (x_hw x)) (kbuf kb) 8 = report"
  shows "\<exists>x'. Keyboard_Update hw kb x = (key_chars (prev_buf kb) report, kb\<lparr>prev_buf := report\<rparr>, x')"
proof -
  obtain x1 where p: "PollEndpoint hw x (kslot_id kb) (ep_interrupt_in kb) = (1, x1)"
    using PollEndpoint_step(2) [OF R S refl] e by metis
  obtain bs h where l: "dma_load hw (kbuf kb) 8 (x_hw x1) = (bs, h)" by fastforce
  have "mem_load (mem (x_hw x1)) (kbuf kb) 8 = mem_load (mem (x_hw x)) (kbuf kb) 8"
    by (rule mem_load_frame) (use buf PollEndpoint_mem [of _ x "kslot_id kb" "ep_interrupt_in kb"] p in auto)
  then have "bs = report" using load_val [OF l] buf(3) by simp
  then show ?thesis using p l by (simp add: Keyboard_Update_def get_bytes_def)
qed

end

section \<open>Properties of the keyboard\<close>

text \<open>
  C17: a key press reaches the program that reads it. When the event for a completed report is
  on the event ring and the buffer of the keyboard holds the report, a system call \<open>Read\<close> on
  descriptor 0 with an empty keyboard buffer returns the characters of the newly pressed keys,
  at most as many as asked for, and stores them at the address given.
\<close>

theorem key_press_read:
  assumes "dma_machine hw mem W" "y_usb s = (Some kb, x)" "ring_range W (event_ring x)"
    and "event_state (mem (x_hw x)) x n (e # es)" "event_result (kslot_id kb) (ep_interrupt_in kb) e = 1"
    and "unat (kbuf kb) + 8 \<le> 2 ^ 64" "\<forall>y. unat y \<in> span (kbuf kb) 8 \<longrightarrow> y \<notin> W"
    and "mem_load (mem (x_hw x)) (kbuf kb) 8 = report" "cs = take (unat len) (key_chars (prev_buf kb) report)"
    and "fds_ok (y_fds s)" "y_fds s ! 0 = Some (p, KeyboardObj fd)" "kb_rep fd = []" "unat ubuf + 6 \<le> 2 ^ 64"
  shows "\<exists>s'. SyscallHandler ldr app_entry (usb_poll hw) s 5 0 ubuf len = Some (Some (of_nat (length cs)), s') \<and>
    mem_load (umem s') ubuf (length cs) = cs"
proof -
  obtain x' where u: "Keyboard_Update hw kb x = (key_chars (prev_buf kb) report, kb\<lparr>prev_buf := report\<rparr>, x')"
    using dma_machine.Keyboard_Update_report [OF assms(1,3-8)] by blast
  define keys where "keys = key_chars (prev_buf kb) report"
  have small: "length keys \<le> 6" using key_chars_length by (simp add: keys_def)
  have poll: "usb_poll hw (y_usb s) = (keys, Some (kb\<lparr>prev_buf := report\<rparr>), x')"
    using assms(2) u by (simp add: usb_poll_def keys_def)
  have len16: "length (y_fds s) = 16" using assms(10) by (simp add: fds_ok_def)
  have at: "fd_at s 0 = Some (p, KeyboardObj fd)" using assms(11) by (simp add: fd_at_def)
  have inv: "kb_inv fd" using fds_ok_stdin [OF assms(10)] at by auto
  define fd1 where "fd1 = fold (\<lambda>c kb. OnInput kb c) keys fd"
  have F: "kb_inv fd1" "kb_rep fd1 = keys"
    using kb.puts_spec [OF inv, of keys] assms(12) small by (simp_all add: fd1_def kKeyboardBufferSize_def)
  obtain bs fd2 where d: "KeyboardFD_drain fd1 (unat len) = (bs, fd2)" by fastforce
  have bs: "bs = cs" using KeyboardFD_drain_spec(1) [OF F(1) d] F(2) assms(9) by (simp add: keys_def)
  define s1 where "s1 = set_fd (s\<lparr>y_usb := (Some (kb\<lparr>prev_buf := report\<rparr>), x')\<rparr>) 0 (Some (p, KeyboardObj fd1))"
  have "fd_at (s\<lparr>y_usb := u\<rparr>) 0 = fd_at s 0" for u by (simp add: fd_at_def)
  then have ku: "keyboard_update (usb_poll hw) s = s1" using at by (simp add: keyboard_update_def poll s1_def fd1_def)
  have "fd_at s1 0 = Some (p, KeyboardObj fd1)" using len16 by (simp add: s1_def fd_at_def)
  then have r: "fd_Read (usb_poll hw) s 0 len = (int (length cs), cs, set_fd s1 0 (Some (p, KeyboardObj fd2)))"
    using at ku d bs by (simp add: fd_Read_def)
  define s2 where "s2 = copy_out (set_fd s1 0 (Some (p, KeyboardObj fd2))) ubuf cs"
  have "fd_index 0 = 0" using fd_index_of_nat [of 0] by simp
  then have "SyscallHandler ldr app_entry (usb_poll hw) s 5 0 ubuf len = Some (Some (of_nat (length cs)), s2)"
    using at r by (simp add: SyscallHandler_def SysRead_def s2_def)
  moreover have "length cs \<le> 6" using small assms(9) by (simp add: keys_def)
  then have "mem_load (umem s2) ubuf (length cs) = cs"
    using mem_load_write [of ubuf cs "umem (set_fd s1 0 (Some (p, KeyboardObj fd2)))"] assms(13)
    by (simp add: s2_def copy_out_def umem_def y_cr3_def set_fd_def)
  ultimately show ?thesis by blast
qed

text \<open>
  an interrupt loses the report that caused it. When the transfer event of the keyboard
  is the only one waiting, \<open>ProcessInterrupt\<close> takes it off the ring itself; \<open>Update\<close> then finds
  nothing, no character is delivered, and no new request is sent, so that the keyboard stays
  without a buffer for its next report.
\<close>

theorem interrupt_loses_report:
  assumes "dma_machine hw mem W" "ring_range W (event_ring x)" "event_state (mem (x_hw x)) x n [e]"
    and "event_result (kslot_id kb) (ep_interrupt_in kb) e = 1"
  shows "\<exists>x'. ProcessInterrupt hw (Some kb) x = ([], Some kb, x') \<and> ring_index x' = ring_index x \<and>
    event_state (mem (x_hw x')) x' (Suc n) []"
proof -
  note D = dma_machine.drop_event_step [OF assms(1-3)]
  have R: "ring_range W (event_ring (drop_event hw x))" using assms(2) D(2) by simp
  obtain x' where p: "PollEndpoint hw (drop_event hw x) (kslot_id kb) (ep_interrupt_in kb) = (-1, x')"
    "event_state (mem (x_hw x')) x' (Suc n) []"
    using dma_machine.PollEndpoint_step(1) [OF assms(1) R D(1) refl] by blast
  have "ring_index x' = ring_index x"
    using dma_machine.PollEndpoint_rings(2) [OF assms(1), of "drop_event hw x" "kslot_id kb" "ep_interrupt_in kb"] p D(3) by simp
  then show ?thesis using p by (simp add: ProcessInterrupt_def Keyboard_Update_def)
qed

section \<open>Tables and commands\<close>

lemma table_lengths:
  "length kHidToAsciiMap = 256" "length kHidToAsciiMapShift = 256" "length kKeyMapUS = kKeyMapSize" "length kKeyMapUS_Shift = kKeyMapSize"
  "length kKeyMapJP = kKeyMapSize" "length kKeyMapJP_Shift = kKeyMapSize"
  by code_simp+

text \<open>
  C40: the READ (10) command that \<open>ReadSectors\<close> sends carries only 32 bits of the block number and
  16 bits of the block count: decoding the command in the wrapper gives back both exactly when
  they fit, and their low bits otherwise.
\<close>

theorem read10_fields:
  "let cbw = cbw_bytes 2 data_len 0x80 0 10 (read10_cdb lba n) in
   length cbw = 31 \<and> cbw ! 15 = 0x28 \<and> unat (be32_get (drop 17 cbw)) = unat lba mod 2 ^ 32 \<and>
   unat (cbw ! 22) * 256 + unat (cbw ! 23) = unat n mod 2 ^ 16"
proof -
  have be: "be32_get [ucast (drop_bit 24 lba), ucast (drop_bit 16 lba), ucast (drop_bit 8 lba), ucast lba] = ucast lba"
  proof (rule bit_word_eqI)
    fix k assume "k < LENGTH(32)"
    then consider "k < 8" | "8 \<le> k \<and> k < 16" | "16 \<le> k \<and> k < 24" | "24 \<le> k \<and> k < 32" by fastforce
    then show "bit (be32_get [ucast (drop_bit 24 lba), ucast (drop_bit 16 lba), ucast (drop_bit 8 lba), ucast lba]) k =
        bit (ucast lba :: u32) k"
      by cases (auto simp: be32_get_def bit_simps)
  qed
  have u: "[0..<16] = [0, 1, 2, 3, 4, 5, 6, 7, 8, 9, 10, 11, 12, 13, 14, 15 :: nat]" by code_simp
  have l: "drop 17 (cbw_bytes 2 data_len 0x80 0 10 (read10_cdb lba n)) =
      [ucast (drop_bit 24 lba), ucast (drop_bit 16 lba), ucast (drop_bit 8 lba), ucast lba, 0, ucast (drop_bit 8 n), ucast n, 0, 0, 0, 0, 0, 0, 0]"
    unfolding cbw_bytes_def read10_cdb_def le32_put_def u by simp
  have c: "unat (ucast (drop_bit 8 n) :: u8) * 256 + unat (ucast n :: u8) = unat n mod 2 ^ 16"
    using mod_mult2_eq [of "unat n" 256 256] by (simp add: unsigned_ucast_eq take_bit_eq_mod unsigned_drop_bit_eq drop_bit_eq_div unat_word_div)
  show ?thesis
    using c be unfolding Let_def l
    by (simp add: cbw_bytes_def read10_cdb_def le32_put_def u be32_get_def unsigned_ucast_eq take_bit_eq_mod)
qed

section \<open>Witnesses\<close>

definition sample_kb :: Keyboard where
  "sample_kb = \<lparr>kslot_id = 1, ep_interrupt_in = 0x81, kbuf = 0x40000, prev_buf = replicate 8 0\<rparr>"

text \<open>One transfer event for the keyboard, and a report with the key A.\<close>

definition sample_report_mem :: vmem where
  "sample_report_mem = mem_write 0x40000 [0, 0, 4, 0, 0, 0, 0, 0] (mem_write 0x20008 [0, 0, 0, 1, 1, 128, 3, 1] (\<lambda>_. 0))"

definition sample_event :: TRB where
  "sample_event = \<lparr>trb_parameter = 0, trb_status = 0x1000000, trb_control = 0x1038001\<rparr>"

definition sample_usb_x :: "vmem Controller" where
  "sample_usb_x = sample_xhci\<lparr>x_hw := sample_report_mem\<rparr>"

definition sample_usb_sys :: "(unit, Keyboard option \<times> vmem Controller) Sys" where
  "sample_usb_sys =
     (let s = sample_sys None
      in \<lparr>y_k = y_k s, y_sched = y_sched s, y_env = y_env s, y_cells = y_cells s, y_fds = y_fds s, y_fs = y_fs s, y_con = y_con s,
          y_space = y_space s, y_listed = [], y_logger = None, y_usb = (Some sample_kb, sample_usb_x)\<rparr>)"

lemma sample_usb:
  "event_state (x_hw sample_usb_x) sample_usb_x 0 [sample_event]" "event_result 1 0x81 sample_event = 1"
  "ring_range {} (event_ring sample_usb_x)" "mem_load (x_hw sample_usb_x) 0x40000 8 = [0, 0, 4, 0, 0, 0, 0, 0]"
  "kslot_id sample_kb = 1" "ep_interrupt_in sample_kb = 0x81" "kbuf sample_kb = 0x40000" "prev_buf sample_kb = replicate 8 0"
proof -
  have "slot_of sample_report_mem 0x20000 0 = sample_event"
    "slot_of sample_report_mem 0x20000 1 = \<lparr>trb_parameter = 0, trb_status = 0, trb_control = 0\<rparr>"
    by code_simp+
  then show "event_state (x_hw sample_usb_x) sample_usb_x 0 [sample_event]"
    by (simp add: event_state_def events_from_def sample_usb_x_def sample_xhci_def sample_event_def lap_cycle_def cycle_bit_def)
  show "event_result 1 0x81 sample_event = 1" by code_simp
  show "mem_load (x_hw sample_usb_x) 0x40000 8 = [0, 0, 4, 0, 0, 0, 0, 0]"
    by code_simp
  show "ring_range {} (event_ring sample_usb_x)" using sample_ranges(2) by (simp add: sample_usb_x_def)
qed (simp_all add: sample_kb_def)

theorem key_press_read_witness:
  "\<exists>s'. SyscallHandler Rust 0 (usb_poll ram_machine) sample_usb_sys 5 0 0x8000 16 = Some (Some 1, s') \<and>
    mem_load (umem s') 0x8000 1 = [0x61]"
proof -
  let ?fd = "KeyboardFD_new (replicate kKeyboardBufferSize 0)"
  have cs: "take (unat (16 :: u64)) (key_chars (prev_buf sample_kb) [0, 0, 4, 0, 0, 0, 0, 0]) = [0x61]" by code_simp
  have fds: "fds_ok (y_fds sample_usb_sys)" "y_fds sample_usb_sys ! 0 = Some (0x100, KeyboardObj ?fd)"
    "y_usb sample_usb_sys = (Some sample_kb, sample_usb_x)"
    using sample_sys_fds [of "None :: unit FAT32Driver option"] by (simp_all add: sample_usb_sys_def Let_def sample_sys_def)
  have "kb_rep ?fd = []" by (simp add: kb_rep_def KeyboardFD_new_def ring_list_def)
  from key_press_read [OF ram_dma.dma_machine_axioms fds(3) sample_usb(3,1) _ _ _ _ refl fds(1,2) this,
      of "[0, 0, 4, 0, 0, 0, 0, 0]" "0x8000" Rust 0 16] sample_usb
  show ?thesis unfolding cs by (simp add: sample_usb)
qed

theorem interrupt_loses_report_witness:
  "fst (ProcessInterrupt ram_machine (Some sample_kb) sample_usb_x) = []"
  using interrupt_loses_report [OF ram_dma.dma_machine_axioms sample_usb(3,1), of sample_kb] sample_usb by auto

end
