(* ===== verification/Interrupts.thy ===== *)
theory Interrupts
  imports Cpu Usb
begin

text \<open>
  The interrupt handlers (kernel/interrupt.cpp). The five exception handlers print a report and
  stop the processor; the result is the console at that moment. The handlers of the timer and of
  the USB controller work on the state of the whole system.
\<close>

section \<open>Exceptions\<close>

record InterruptFrame =
  if_rip :: u64
  if_cs :: u64
  if_rflags :: u64
  if_rsp :: u64
  if_ss :: u64

type_synonym screen = "(Console \<times> frame) option"

definition kBsodBgColor :: u32 where "kBsodBgColor = 0xFF0000AA"
definition kWhiteColor :: u32 where "kWhiteColor = 0xFFFFFFFF"
definition kYellowColor :: u32 where "kYellowColor = 0xFFFFFF00"
definition kRedColor :: u32 where "kRedColor = 0xFFFF0000"

definition set_colour :: "u32 \<Rightarrow> screen \<Rightarrow> screen" where
  "set_colour fg g_console = map_option (\<lambda>(con, fb). (SetColor con fg kBsodBgColor, fb)) g_console"

definition say :: "string \<Rightarrow> u64 list \<Rightarrow> screen \<Rightarrow> screen option" where
  "say format args g_console = map_option snd (kprintf (\<lambda>_. []) g_console (str format) args)"

definition DivideErrorHandler :: "InterruptFrame \<Rightarrow> screen \<Rightarrow> screen option" where
  "DivideErrorHandler frame c = do {
     let c = set_colour kRedColor c;
     c \<leftarrow> say ''\<newline>========================================\<newline>'' [] c;
     c \<leftarrow> say ''      DIVIDE ERROR EXCEPTION (#DE)      \<newline>'' [] c;
     c \<leftarrow> say ''========================================\<newline>\<newline>'' [] c;
     let c = set_colour kWhiteColor c;
     c \<leftarrow> say ''The kernel attempted to divide a number by zero.\<newline>\<newline>'' [] c;
     c \<leftarrow> say ''RIP: %lx  CS: %lx\<newline>'' [if_rip frame, if_cs frame] c;
     c \<leftarrow> say ''RFLAGS: %lx\<newline>'' [if_rflags frame] c;
     say ''\<newline>System Halted.\<newline>'' [] c }"

definition InvalidOpcodeHandler :: "InterruptFrame \<Rightarrow> screen \<Rightarrow> screen option" where
  "InvalidOpcodeHandler frame c = do {
     let c = set_colour kRedColor c;
     c \<leftarrow> say ''\<newline>========================================\<newline>'' [] c;
     c \<leftarrow> say ''      INVALID OPCODE EXCEPTION (#UD)    \<newline>'' [] c;
     c \<leftarrow> say ''========================================\<newline>\<newline>'' [] c;
     let c = set_colour kWhiteColor c;
     c \<leftarrow> say ''The processor encountered an invalid instruction.\<newline>'' [] c;
     c \<leftarrow> say ''This usually means the Instruction Pointer (RIP) is corrupt\<newline>'' [] c;
     c \<leftarrow> say ''or pointing to data instead of code.\<newline>\<newline>'' [] c;
     c \<leftarrow> say ''RIP: %lx  CS: %lx\<newline>'' [if_rip frame, if_cs frame] c;
     c \<leftarrow> say ''RFLAGS: %lx\<newline>'' [if_rflags frame] c;
     say ''\<newline>System Halted.\<newline>'' [] c }"

definition DoubleFaultHandler :: "InterruptFrame \<Rightarrow> u64 \<Rightarrow> screen \<Rightarrow> screen option" where
  "DoubleFaultHandler frame error_code c = do {
     let c = set_colour kRedColor c;
     c \<leftarrow> say ''\<newline>========================================\<newline>'' [] c;
     c \<leftarrow> say ''    CRITICAL DOUBLE FAULT (#DF)         \<newline>'' [] c;
     c \<leftarrow> say ''========================================\<newline>\<newline>'' [] c;
     let c = set_colour kWhiteColor c;
     c \<leftarrow> say ''The processor failed to handle an exception.\<newline>'' [] c;
     c \<leftarrow> say ''This is a critical system failure.\<newline>\<newline>'' [] c;
     c \<leftarrow> say ''RIP: %lx  CS: %lx\<newline>'' [if_rip frame, if_cs frame] c;
     c \<leftarrow> say ''RFLAGS: %lx\<newline>'' [if_rflags frame] c;
     c \<leftarrow> say ''Error Code: %lx\<newline>'' [error_code] c;
     say ''\<newline>System Halted.\<newline>'' [] c }"

definition GPFaultHandler :: "InterruptFrame \<Rightarrow> u64 \<Rightarrow> screen \<Rightarrow> screen option" where
  "GPFaultHandler frame error_code c = do {
     let c = set_colour kRedColor c;
     c \<leftarrow> say ''\<newline>========================================\<newline>'' [] c;
     c \<leftarrow> say ''   GENERAL PROTECTION FAULT (#GP)   \<newline>'' [] c;
     c \<leftarrow> say ''========================================\<newline>\<newline>'' [] c;
     let c = set_colour kWhiteColor c;
     c \<leftarrow> say ''A fatal exception has occurred at:\<newline>'' [] c;
     c \<leftarrow> say ''RIP   : %lx\<newline>'' [if_rip frame] c;
     c \<leftarrow> say ''CS    :  %lx\<newline>'' [if_cs frame] c;
     c \<leftarrow> say ''RFLAGS: %lx\<newline>'' [if_rflags frame] c;
     c \<leftarrow> say ''RSP   : %lx\<newline>'' [if_rsp frame] c;
     c \<leftarrow> say ''SS    :  %lx\<newline>'' [if_ss frame] c;
     c \<leftarrow> say ''Error Code: %lx\<newline>'' [error_code] c;
     say ''System Halted. Please reset the machine.\<newline>'' [] c }"

definition PageFaultHandler :: "u64 \<Rightarrow> InterruptFrame \<Rightarrow> u64 \<Rightarrow> screen \<Rightarrow> screen option" where
  "PageFaultHandler cr2 frame error_code c = do {
     let c = set_colour kYellowColor c;
     c \<leftarrow> say ''\<newline>========================================\<newline>'' [] c;
     c \<leftarrow> say ''         PAGE FAULT DETECTED!         \<newline>'' [] c;
     c \<leftarrow> say ''========================================\<newline>\<newline>'' [] c;
     let c = set_colour kWhiteColor c;
     c \<leftarrow> say ''The kernel tried to access an invalid memory address.\<newline>\<newline>'' [] c;
     c \<leftarrow> say ''Accessed Address (CR2): %lx\<newline>'' [cr2] c;
     c \<leftarrow> say ''Instruction Pointer (RIP): %lx\<newline>'' [if_rip frame] c;
     c \<leftarrow> say ''Error Code: %lx\<newline>'' [error_code] c;
     c \<leftarrow> say ''\<newline>Reason Analysis:\<newline>'' [] c;
     c \<leftarrow> say ''  - '' [] c;
     c \<leftarrow> (if error_code AND 1 = 0 then say ''Page Not Present (Invalid Address)'' [] c
           else say ''Protection Violation (Access Rights)'' [] c);
     c \<leftarrow> say ''\<newline>  - '' [] c;
     c \<leftarrow> (if error_code AND 2 \<noteq> 0 then say ''Write Operation'' [] c else say ''Read Operation'' [] c);
     c \<leftarrow> say ''\<newline>  - '' [] c;
     c \<leftarrow> (if error_code AND 4 \<noteq> 0 then say ''User Mode Cause'' [] c else say ''Kernel Mode Cause'' [] c);
     c \<leftarrow> say ''\<newline>\<newline>'' [] c;
     say ''System Halted.\<newline>'' [] c }"

section \<open>Devices\<close>

text \<open>
  The system: \<open>os_sys\<close> as the system calls see it, where \<open>y_usb\<close> holds the keyboard and the
  controller with the state of the hardware; whether \<open>g_xhci\<close> and \<open>g_lapic\<close> are set.
\<close>

type_synonym ('d, 'h) usb_sys = "('d, Keyboard option \<times> 'h Controller) Sys"

record ('d, 'h) OS =
  os_sys :: "('d, 'h) usb_sys"
  os_cpu :: Cpu
  g_xhci :: bool
  g_lapic :: bool

definition on_hw :: "('h \<Rightarrow> 'h) \<Rightarrow> ('d, 'h) usb_sys \<Rightarrow> ('d, 'h) usb_sys" where
  "on_hw f s = (let (kb, x) = y_usb s in s\<lparr>y_usb := (kb, x\<lparr>x_hw := f (x_hw x)\<rparr>)\<rparr>)"

definition usb_irq :: "'h machine \<Rightarrow> Keyboard option \<times> 'h Controller \<Rightarrow> bytes \<times> (Keyboard option \<times> 'h Controller)" where
  "usb_irq hw = (\<lambda>(kb, x). ProcessInterrupt hw kb x)"

definition UsbInterruptHandler :: "'h machine \<Rightarrow> ('d, 'h) OS \<Rightarrow> ('d, 'h) OS option" where
  "UsbInterruptHandler hw os = do {
     c \<leftarrow> say (''[IRQ] USB Interrupt!'' @ [CHR 0x5C, CHR ''n'']) [] (y_con (os_sys os));
     let s = (os_sys os)\<lparr>y_con := c\<rparr>;
     let s = (if g_xhci os then keyboard_update (usb_irq hw) s else s);
     let s = (if g_lapic os then on_hw (EndOfInterrupt hw) s else s);
     Some (os\<lparr>os_sys := s\<rparr>) }"

definition TimerHandler :: "'h machine \<Rightarrow> ('d, 'h) OS \<Rightarrow> ('d, 'h) OS" where
  "TimerHandler hw os =
     (let s = os_sys os;
          s = (if g_lapic os then on_hw (EndOfInterrupt hw) s else s);
          s = (case fst (y_usb s) of None \<Rightarrow> s | Some _ \<Rightarrow> keyboard_update (usb_poll hw) s)
      in os\<lparr>os_sys := with_sched (\<lambda>sc. Schedule sc False) s\<rparr>)"

section \<open>What a page fault shows\<close>

definition put_text :: "bytes \<Rightarrow> screen \<Rightarrow> screen" where
  "put_text out c = map_option (\<lambda>(con, fb). PutString con fb out) c"

lemma put_text_append: "0 \<notin> set a \<Longrightarrow> put_text b (put_text a c) = put_text (a @ b) c"
  by (cases c) (auto simp: put_text_def PutString_append split: prod.splits)

lemma render_literal:
  assumes "0 \<notin> set s" "0x25 \<notin> set s"
  shows "render mem (s @ rest) args = map_option (append s) (render mem rest args)"
  using assms
proof (induction s)
  case Nil
  then show ?case by (cases "render mem rest args") simp_all
next
  case (Cons a s)
  then show ?case by (cases "render mem rest args") (auto simp: render.simps)
qed

lemma say_rendered: "render (\<lambda>_. []) (str f) args = Some out \<Longrightarrow> 0 \<notin> set out \<Longrightarrow> say f args c = Some (put_text out c)"
  using kprintf_text [of "\<lambda>_. []" "str f" args out] by (cases c) (fastforce simp: say_def put_text_def kprintf_def)+

text \<open>Texts without directives.\<close>

definition plain :: "string \<Rightarrow> bool" where
  "plain f \<longleftrightarrow> list_all (\<lambda>c. c \<noteq> CHR 0x00 \<and> c \<noteq> CHR ''%'') f"

lemma unat_chr: "unat (chr c) = of_char c"
proof -
  have "unat (of_nat (of_char c) :: u8) = of_char c mod 256" by (simp only: unat_of_nat) (simp add: take_bit_eq_mod)
  then show ?thesis by (simp add: chr_def of_nat_of_char)
qed

lemma chr_inject: "chr a = chr b \<longleftrightarrow> a = b"
  by (metis unat_chr of_char_eq_iff)

lemma chr_special: "chr c = 0 \<longleftrightarrow> c = CHR 0x00" "chr c = 0x25 \<longleftrightarrow> c = CHR ''%''"
proof -
  have "chr (CHR 0x00) = 0" "chr CHR ''%'' = 0x25" by (simp_all add: chr_def)
  then show "chr c = 0 \<longleftrightarrow> c = CHR 0x00" "chr c = 0x25 \<longleftrightarrow> c = CHR ''%''"
    using chr_inject [of c "CHR 0x00"] chr_inject [of c "CHR ''%''"] by metis+
qed

lemma plain_str: "plain f \<Longrightarrow> 0 \<notin> set (str f)" "plain f \<Longrightarrow> 0x25 \<notin> set (str f)"
  unfolding plain_def str_def list_all_iff set_map by (metis (no_types, lifting) chr_special imageE)+

lemma say_literal: "plain f \<Longrightarrow> say f [] c = Some (put_text (str f) c)"
  using render_literal [of "str f" "\<lambda>_. []" "[]" "[]"] plain_str [of f] by (intro say_rendered) simp_all

text \<open>The text of a 64-bit number in hexadecimal.\<close>

definition hex :: "u64 \<Rightarrow> bytes" where
  "hex w = numeral_of 16 (unat w)"

lemma digit_char_nonzero: "k < 16 \<Longrightarrow> digit_char (of_nat k) \<noteq> 0"
proof -
  assume "k < 16"
  then have "k \<in> {0, 1, 2, 3, 4, 5, 6, 7, 8, 9, 10, 11, 12, 13, 14, 15}" by (simp only: insert_iff empty_iff) arith
  then show ?thesis by (elim insertE emptyE) (simp_all add: digit_char_def)
qed

lemma numeral_of_nonzero: "0 \<notin> set (numeral_of 16 n)"
proof (induction n rule: less_induct)
  case (less n)
  show ?case
  proof (cases "n < 16")
    case True
    then show ?thesis using digit_char_nonzero [of n] by (simp add: numeral_of.simps [of 16 n])
  next
    case False
    then show ?thesis
      using less [of "n div 16"] digit_char_nonzero [of "n mod 16"] by (simp add: numeral_of.simps [of 16 n])
  qed
qed

lemma hex_nonzero: "0 \<notin> set (hex w)"
  by (simp add: hex_def numeral_of_nonzero)

lemma say_hex:
  assumes "plain f" "plain g"
  shows "say (f @ ''%lx'' @ g) [w] c = Some (put_text (str f @ hex w @ str g) c)"
proof (rule say_rendered)
  have "str (f @ ''%lx'' @ g) = str f @ [0x25, 0x6C, 0x78] @ str g"
    by (simp add: str_def chr_def)
  moreover have "render (\<lambda>_. []) ([0x25, 0x6C, 0x78] @ str g) [w] = Some (hex w @ str g)"
    using render_literal [of "str g" "\<lambda>_. []" "[]" "[]"] plain_str [OF assms(2)]
    by (simp add: render.simps conv_spec_def str_chars pad_left_def hex_def)
  ultimately show "render (\<lambda>_. []) (str (f @ ''%lx'' @ g)) [w] = Some (str f @ hex w @ str g)"
    using render_literal [of "str f"] plain_str [OF assms(1)] by simp
  show "0 \<notin> set (str f @ hex w @ str g)"
    using hex_nonzero plain_str [OF assms(1)] plain_str [OF assms(2)] by auto
qed

lemmas say_hex1 = say_hex [of "''Accessed Address (CR2): ''" "''\<newline>''", simplified]
  say_hex [of "''Instruction Pointer (RIP): ''" "''\<newline>''", simplified]
  say_hex [of "''Error Code: ''" "''\<newline>''", simplified]

definition page_fault_title :: bytes where
  "page_fault_title = str ''\<newline>========================================\<newline>'' @ str ''         PAGE FAULT DETECTED!         \<newline>'' @
     str ''========================================\<newline>\<newline>''"

text \<open>The report: the address, the instruction, and what bits 0 to 2 of the error code mean.\<close>

definition page_fault_report :: "u64 \<Rightarrow> u64 \<Rightarrow> u64 \<Rightarrow> bytes" where
  "page_fault_report cr2 rip error_code =
     str ''The kernel tried to access an invalid memory address.\<newline>\<newline>'' @
     str ''Accessed Address (CR2): '' @ hex cr2 @ str ''\<newline>'' @
     str ''Instruction Pointer (RIP): '' @ hex rip @ str ''\<newline>'' @
     str ''Error Code: '' @ hex error_code @ str ''\<newline>'' @
     str ''\<newline>Reason Analysis:\<newline>'' @
     str ''  - '' @ (if bit error_code 0 then str ''Protection Violation (Access Rights)'' else str ''Page Not Present (Invalid Address)'') @
     str ''\<newline>  - '' @ (if bit error_code 1 then str ''Write Operation'' else str ''Read Operation'') @
     str ''\<newline>  - '' @ (if bit error_code 2 then str ''User Mode Cause'' else str ''Kernel Mode Cause'') @
     str ''\<newline>\<newline>'' @ str ''System Halted.\<newline>''"

lemma and_power_bit: "w AND 1 \<noteq> 0 \<longleftrightarrow> bit w 0" "w AND 2 \<noteq> 0 \<longleftrightarrow> bit w 1" "w AND 4 \<noteq> 0 \<longleftrightarrow> bit w 2" for w :: u64
  using bit_iff_and_push_bit_not_eq_0 [of w 0] bit_iff_and_push_bit_not_eq_0 [of w 1] bit_iff_and_push_bit_not_eq_0 [of w 2]
  by simp_all

lemma PageFaultHandler_report:
  "PageFaultHandler cr2 frame error_code c =
     Some (put_text (page_fault_report cr2 (if_rip frame) error_code) (set_colour kWhiteColor
       (put_text page_fault_title (set_colour kYellowColor c))))"
proof -
  have e: "error_code AND 1 = 0 \<longleftrightarrow> \<not> bit error_code 0" using and_power_bit(1) [of error_code] by blast
  show ?thesis
    unfolding PageFaultHandler_def page_fault_title_def page_fault_report_def Let_def e and_power_bit
    by (simp add: say_literal say_hex1 put_text_append plain_str(1) plain_def hex_nonzero)
qed

text \<open>
  A page fault is reported in full before the processor stops: in yellow on blue the title, in
  white the faulting address, the instruction pointer and the error code in hexadecimal, and one
  line for each of the three reasons that bits 0 to 2 of the error code give. No report is cut
  short, whatever the values are.
\<close>

theorem PageFault_shown:
  "PageFaultHandler cr2 frame error_code (Some (con, fb)) =
     (let (con, fb) = PutString (SetColor con kYellowColor kBsodBgColor) fb page_fault_title
      in Some (Some (PutString (SetColor con kWhiteColor kBsodBgColor) fb (page_fault_report cr2 (if_rip frame) error_code))))"
  by (simp add: PageFaultHandler_report put_text_def set_colour_def split: prod.split)

end
