(* ===== verification/Idle.thy ===== *)
theory Idle
  imports Interrupts
begin

text \<open>
  The idle task (kernel/task/idle_task.cpp): it starts the essential processes and passes the
  characters of the serial port to the keyboard descriptor, as compiled with
  \<open>SYLPHIA_DEBUG_ENABLED\<close>. Its loop, the system calls, the entry of an application task and the two
  interrupt handlers are the steps of the running system; what every state of it satisfies is shown at the end. Log lines
  are left out.
\<close>

section \<open>Serial input\<close>

definition SERIAL_COM1_PORT :: u16 where
  "SERIAL_COM1_PORT = 0x3F8"

definition serial_has_data :: "'h machine \<Rightarrow> 'h \<Rightarrow> bool \<times> 'h" where
  "serial_has_data hw h = (let (v, h) = IoIn8 hw (SERIAL_COM1_PORT + 5) h in (v AND 0x01 \<noteq> 0, h))"

definition serial_getchar :: "'h machine \<Rightarrow> 'h \<Rightarrow> u8 \<times> 'h" where
  "serial_getchar hw h = IoIn8 hw SERIAL_COM1_PORT h"

text \<open>An access of the running system to the machine.\<close>

definition with_hw :: "('h \<Rightarrow> 'a \<times> 'h) \<Rightarrow> ('d, 'h) usb_sys \<Rightarrow> 'a \<times> ('d, 'h) usb_sys" where
  "with_hw f s = (let (kb, x) = y_usb s; (v, h) = f (x_hw x) in (v, s\<lparr>y_usb := (kb, x\<lparr>x_hw := h\<rparr>)\<rparr>))"

definition serial_char :: "u8 \<Rightarrow> ('d, 'h) usb_sys \<Rightarrow> ('d, 'h) usb_sys" where
  "serial_char c s =
     (let c = (if c = 0x0D then 0x0A else c)
      in case fd_at s 0 of
           Some (p, KeyboardObj kb) \<Rightarrow> set_fd s 0 (Some (p, KeyboardObj (OnInput kb c)))
         | _ \<Rightarrow> s)"

partial_function (option) poll_serial_input :: "'h machine \<Rightarrow> ('d, 'h) usb_sys \<Rightarrow> ('d, 'h) usb_sys option" where
  "poll_serial_input hw s =
     (let (avail, s) = with_hw (serial_has_data hw) s
      in if avail then let (c, s) = with_hw (serial_getchar hw) s in poll_serial_input hw (serial_char c s)
         else Some s)"

section \<open>Essential processes\<close>

record EssentialProcess =
  ep_path :: string
  ep_started :: bool
  ep_task_id :: u64

text \<open>The static table, and the state of the idle task over the system.\<close>

definition processes :: "EssentialProcess list" where
  "processes = [\<lparr>ep_path = ''/sys/bin/shell.elf'', ep_started = False, ep_task_id = 0\<rparr>]"

record ('d, 'h) Running =
  r_os :: "('d, 'h) OS"
  r_processes :: "EssentialProcess list"
  r_warned :: "bool list"
  r_initialized :: bool
  g_idle_task :: u64

definition on_sys :: "(('d, 'h) usb_sys \<Rightarrow> ('d, 'h) usb_sys) \<Rightarrow> ('d, 'h) OS \<Rightarrow> ('d, 'h) OS" where
  "on_sys f os = os\<lparr>os_sys := f (os_sys os)\<rparr>"

text \<open>One entry of the table. A null logger is dereferenced: \<open>None\<close>.\<close>

definition start_process :: "elf_loader \<Rightarrow> u64 \<Rightarrow> nat \<Rightarrow> ('d, 'h) Running \<Rightarrow> ('d, 'h) Running option" where
  "start_process ldr app_entry i r =
     (let p = r_processes r ! i; s = os_sys (r_os r)
      in if ep_started p then Some r
         else do {
           (task, k, fs, sp) \<leftarrow> CreateProcess ldr app_entry (y_k s) (y_fs s) (y_space s) (str (ep_path p)) 1 [str (ep_path p)];
           let s = s\<lparr>y_k := k, y_fs := fs, y_space := sp\<rparr>;
           if task \<noteq> 0 then do {
             let r = r\<lparr>r_processes := (r_processes r)[i := p\<lparr>ep_started := True, ep_task_id := task_id (tasks (k_tm k) task)\<rparr>]\<rparr>;
             lg \<leftarrow> y_logger s;
             let s = s\<lparr>y_logger := Some (Info lg TKernel (str ''Essential process started: shell''))\<rparr>;
             Some (r\<lparr>r_os := (r_os r)\<lparr>os_sys := s\<rparr>\<rparr>) }
           else
             Some (r\<lparr>r_os := (r_os r)\<lparr>os_sys := s\<rparr>, r_warned := (r_warned r)[i := True]\<rparr>) })"

fun start_processes :: "elf_loader \<Rightarrow> u64 \<Rightarrow> nat list \<Rightarrow> ('d, 'h) Running \<Rightarrow> ('d, 'h) Running option" where
  "start_processes ldr app_entry [] r = Some r"
| "start_processes ldr app_entry (i # is) r = Option.bind (start_process ldr app_entry i r) (start_processes ldr app_entry is)"

definition kProcessCount :: nat where
  "kProcessCount = length processes"

definition CheckAndStartProcesses :: "elf_loader \<Rightarrow> u64 \<Rightarrow> ('d, 'h) Running \<Rightarrow> ('d, 'h) Running option" where
  "CheckAndStartProcesses ldr app_entry r = start_processes ldr app_entry [0..<kProcessCount] r"

definition EssentialProcesses_Initialize :: "('d, 'h) Running \<Rightarrow> ('d, 'h) Running" where
  "EssentialProcesses_Initialize r = (if \<not> r_initialized r then r\<lparr>r_initialized := True\<rparr> else r)"

text \<open>The idle task up to its loop, and one pass of the loop up to \<open>hlt\<close>.\<close>

definition idle_pass :: "'h machine \<Rightarrow> elf_loader \<Rightarrow> u64 \<Rightarrow> ('d, 'h) Running \<Rightarrow> ('d, 'h) Running option" where
  "idle_pass hw ldr app_entry r = do {
     r \<leftarrow> CheckAndStartProcesses ldr app_entry r;
     s \<leftarrow> poll_serial_input hw (os_sys (r_os r));
     Some (r\<lparr>r_os := (r_os r)\<lparr>os_sys := s\<rparr>\<rparr>) }"

definition IdleTaskEntry :: "('d, 'h) Running \<Rightarrow> ('d, 'h) Running" where
  "IdleTaskEntry r = EssentialProcesses_Initialize r"

definition InitializeIdleTask :: "u64 \<Rightarrow> ('d, 'h) Running \<Rightarrow> ('d, 'h) Running" where
  "InitializeIdleTask idle_entry r =
     (let (t, k) = CreateTask (y_k (os_sys (r_os r))) idle_entry;
          k = (if t \<noteq> 0 then k\<lparr>k_tm := AddToReadyQueue (k_tm k) t\<rparr> else k)
      in r\<lparr>g_idle_task := t, r_os := on_sys (\<lambda>s. s\<lparr>y_k := k\<rparr>) (r_os r)\<rparr>)"

section \<open>The steps of the running system\<close>

text \<open>
  A system call of the task that runs, the entry of an application task, an interrupt of the timer or of
  the USB controller, or a part of the idle task. Which of them comes next is open. System calls that store
  to the kernel's own memory are left out (\<open>sys_call\<close>).
\<close>

definition app_task_entry :: "('d, 'h) OS \<Rightarrow> ('d, 'h) OS option" where
  "app_task_entry os =
     (let s = os_sys os in do {
        (_, k, sc, sp, env, cpu) \<leftarrow> AppTaskEntry (y_k s) (y_sched s) (y_space s) (y_env s) (os_cpu os);
        Some (os\<lparr>os_sys := s\<lparr>y_k := k, y_sched := sc, y_space := sp, y_env := env\<rparr>, os_cpu := cpu\<rparr>) })"

inductive os_step :: "'h machine \<Rightarrow> elf_loader \<Rightarrow> u64 \<Rightarrow> ('d, 'h) Running \<Rightarrow> ('d, 'h) Running \<Rightarrow> bool"
  for hw ldr app_entry where
  step_syscall: "sys_call ldr app_entry (usb_poll hw) (os_sys (r_os r)) number arg1 arg2 arg3 = Some (v, s) \<Longrightarrow>
    os_step hw ldr app_entry r (r\<lparr>r_os := (r_os r)\<lparr>os_sys := s\<rparr>\<rparr>)"
| step_app: "app_task_entry (r_os r) = Some os \<Longrightarrow> os_step hw ldr app_entry r (r\<lparr>r_os := os\<rparr>)"
| step_timer: "os_step hw ldr app_entry r (r\<lparr>r_os := TimerHandler hw (r_os r)\<rparr>)"
| step_usb: "UsbInterruptHandler hw (r_os r) = Some os \<Longrightarrow> os_step hw ldr app_entry r (r\<lparr>r_os := os\<rparr>)"
| step_idle: "idle_pass hw ldr app_entry r = Some r' \<Longrightarrow> os_step hw ldr app_entry r r'"
| step_idle_start: "os_step hw ldr app_entry r (IdleTaskEntry r)"

inductive_cases os_step_cases: "os_step hw ldr app_entry r r'"

inductive os_run :: "'h machine \<Rightarrow> elf_loader \<Rightarrow> u64 \<Rightarrow> ('d, 'h) Running \<Rightarrow> ('d, 'h) Running \<Rightarrow> bool"
  for hw ldr app_entry r where
  run_refl: "os_run hw ldr app_entry r r"
| run_step: "os_run hw ldr app_entry r r1 \<Longrightarrow> os_step hw ldr app_entry r1 r2 \<Longrightarrow> os_run hw ldr app_entry r r2"


section \<open>What every state satisfies\<close>

text \<open>
  The invariant of the running system: the descriptor table is well typed, the event logger exists
  and its ring is consistent, and the table of essential processes names the same programs as
  at the start.
\<close>

definition running_ok :: "('d, 'h) Running \<Rightarrow> bool" where
  "running_ok r \<longleftrightarrow> fds_ok (y_fds (os_sys (r_os r))) \<and> (case y_logger (os_sys (r_os r)) of None \<Rightarrow> False | Some lg \<Rightarrow> lg_inv lg) \<and>
     map ep_path (r_processes r) = map ep_path processes"

text \<open>What nothing but the logger and the entry of an application changes.\<close>

definition kept :: "('d, 'u) Sys \<Rightarrow> EventLogger option \<times> u64" where
  "kept s = (y_logger s, kernel_stack_ptr (y_env s))"

lemma kept_frame [simp]:
  "kept (copy_out s a bs) = kept s" "kept (set_heap s h) = kept s" "kept (with_sched f s) = kept s"
  "kept (set_fd s fd v) = kept s" "kept (s\<lparr>y_k := k\<rparr>) = kept s" "kept (s\<lparr>y_sched := sc\<rparr>) = kept s"
  "kept (s\<lparr>y_cells := cs\<rparr>) = kept s" "kept (s\<lparr>y_fs := fs\<rparr>) = kept s" "kept (s\<lparr>y_con := con\<rparr>) = kept s"
  "kept (s\<lparr>y_space := sp\<rparr>) = kept s" "kept (s\<lparr>y_listed := ls\<rparr>) = kept s" "kept (s\<lparr>y_usb := u\<rparr>) = kept s"
  "kept (s\<lparr>y_env := (y_env s)\<lparr>g_app_running := b\<rparr>\<rparr>) = kept s"
  by (simp_all add: kept_def copy_out_def set_heap_def with_sched_def Let_def set_fd_def)

lemma keyboard_update_kept [simp]: "kept (keyboard_update poll s) = kept s"
  by (simp add: keyboard_update_def Let_def split: prod.split option.split FD.split)

lemma fd_kept:
  "kept (snd (snd (fd_Read poll s fd len))) = kept s" "kept (snd (fd_Write s fd buf)) = kept s"
  by (simp_all add: fd_Read_def fd_Write_def Let_def split: prod.split option.split FD.split)

lemma SysExit_kept: "kept (SysExit s) = kept s"
  by (simp add: SysExit_def Let_def split: prod.split option.split FD.split)

lemma calls_kept:
  "SysPutChar s a = Some (v, s') \<Longrightarrow> kept s' = kept s"
  "SysListDirectory s a = Some (v, s') \<Longrightarrow> kept s' = kept s"
  "SysReadFile s a b c = Some (v, s') \<Longrightarrow> kept s' = kept s"
  "kept (snd (SysYield s)) = kept s" "kept (snd (SysTaskExit s)) = kept s"
  "SysSpawn ldr e s a b c = Some (v, s') \<Longrightarrow> kept s' = kept s"
  "SysDeleteFile s a = Some (v, s') \<Longrightarrow> kept s' = kept s"
  "SysOpen s a = Some (v, s') \<Longrightarrow> kept s' = kept s"
  "kept (snd (SysRead poll s a b c)) = kept s" "kept (snd (SysClose s a)) = kept s"
  "SysWrite s a b c = Some (v, s') \<Longrightarrow> kept s' = kept s"
  using fd_kept(1) [of poll s "fd_index a" c] fd_kept(2) [of s "fd_index a"]
  by (auto simp: SysPutChar_def SysListDirectory_def SysReadFile_def SysYield_def SysTaskExit_def SysSpawn_def SysDeleteFile_def
      SysOpen_def SysRead_def SysClose_def SysWrite_def Let_def split_beta split: option.splits bind_splits if_splits prod.splits)

lemma SyscallHandler_kept:
  assumes "SyscallHandler ldr app_entry poll s number arg1 arg2 arg3 = Some (r, s')"
  shows "kept s' = kept s"
  using assms unfolding SyscallHandler_def Let_def
  by (auto simp: SysExit_kept calls_kept(4,5,9,10) split_beta dest: calls_kept(1-3,6-8,11) split: if_splits)

lemma with_hw_frame:
  "with_hw f s = (v, s') \<Longrightarrow> y_fds s' = y_fds s \<and> kept s' = kept s \<and> y_k s' = y_k s"
  by (auto simp: with_hw_def split: prod.splits)

lemma on_hw_frame [simp]: "y_fds (on_hw f s) = y_fds s" "kept (on_hw f s) = kept s"
  by (simp_all add: on_hw_def split: prod.split)

lemma serial_char_ok:
  assumes "fds_ok (y_fds s)"
  shows "fds_ok (y_fds (serial_char c s))" "kept (serial_char c s) = kept s"
proof -
  obtain p kb where kb: "fd_at s 0 = Some (p, KeyboardObj kb)" "kb_inv kb" using fds_ok_stdin [OF assms] .
  have "kb_inv (OnInput kb c)" for c using kb.puts_spec [OF kb(2), of "[c]"] by simp
  then show "fds_ok (y_fds (serial_char c s))" "kept (serial_char c s) = kept s"
    using set_fd_ok [OF assms, of 0] kb(1) by (simp_all add: serial_char_def slot_ok_Some)
qed

lemma poll_serial_input_ok:
  fixes hw :: "'h machine" and s :: "('d, 'h) usb_sys"
  assumes "poll_serial_input hw s = Some s'"
  shows "fds_ok (y_fds s) \<longrightarrow> fds_ok (y_fds s') \<and> kept s' = kept s"
proof (rule poll_serial_input.raw_induct [OF _ assms, where P = "\<lambda>_ s s'. fds_ok (y_fds s) \<longrightarrow> fds_ok (y_fds s') \<and> kept s' = kept s"])
  fix poll :: "'h machine \<Rightarrow> ('d, 'h) usb_sys \<Rightarrow> ('d, 'h) usb_sys option" and hw s s'
  assume IH: "\<And>hw s s'. poll hw s = Some s' \<Longrightarrow> fds_ok (y_fds s) \<longrightarrow> fds_ok (y_fds s') \<and> kept s' = kept s"
    and eq: "(let (avail, s) = with_hw (serial_has_data hw) s
      in if avail then let (c, s) = with_hw (serial_getchar hw) s in poll hw (serial_char c s) else Some s) = Some s'"
  obtain avail s1 where a: "with_hw (serial_has_data hw) s = (avail, s1)" by fastforce
  obtain c s2 where b: "with_hw (serial_getchar hw) s1 = (c, s2)" by fastforce
  note f = with_hw_frame [OF a] with_hw_frame [OF b]
  show "fds_ok (y_fds s) \<longrightarrow> fds_ok (y_fds s') \<and> kept s' = kept s"
  proof (cases avail)
    case True
    then have "poll hw (serial_char c s2) = Some s'" using eq a b by simp
    then show ?thesis using IH [of hw "serial_char c s2" s'] serial_char_ok [of s2 c] f by simp
  next
    case False
    then show ?thesis using eq a f by auto
  qed
qed

lemma TimerHandler_ok:
  "fds_ok (y_fds (os_sys os)) \<Longrightarrow> fds_ok (y_fds (os_sys (TimerHandler hw os))) \<and>
   kept (os_sys (TimerHandler hw os)) = kept (os_sys os)"
  by (simp add: TimerHandler_def Let_def keyboard_update_ok split: option.split)

lemma UsbInterruptHandler_ok:
  "UsbInterruptHandler hw os = Some os' \<Longrightarrow> fds_ok (y_fds (os_sys os)) \<Longrightarrow>
   fds_ok (y_fds (os_sys os')) \<and> kept (os_sys os') = kept (os_sys os)"
  by (auto simp: UsbInterruptHandler_def Let_def keyboard_update_ok split: bind_splits)

lemma Info_inv: "lg_inv lg \<Longrightarrow> lg_inv (Info lg type msg)"
  unfolding Info_def by (rule Log_spec(1) [OF _ refl])

lemma start_process_ok:
  assumes "start_process ldr app_entry i r = Some r'" "running_ok r"
  shows "running_ok r'"
proof -
  have "map ep_path ((r_processes r)[i := (r_processes r ! i)\<lparr>ep_started := True, ep_task_id := n\<rparr>]) = map ep_path (r_processes r)" for n
    by (cases "i < length (r_processes r)") (simp_all add: map_update list_update_same_conv list_update_beyond)
  then show ?thesis
    using assms Info_inv by (auto simp: start_process_def running_ok_def Let_def split: bind_splits if_splits option.splits)
qed

lemma start_processes_ok:
  "start_processes ldr app_entry is r = Some r' \<Longrightarrow> running_ok r \<Longrightarrow> running_ok r'"
  by (induction "is" arbitrary: r) (auto split: bind_splits intro: start_process_ok)

lemma idle_pass_ok:
  assumes "idle_pass hw ldr app_entry r = Some r'" "running_ok r"
  shows "running_ok r'"
proof -
  obtain r1 s where r: "CheckAndStartProcesses ldr app_entry r = Some r1" "poll_serial_input hw (os_sys (r_os r1)) = Some s"
    "r' = r1\<lparr>r_os := (r_os r1)\<lparr>os_sys := s\<rparr>\<rparr>"
    using assms(1) by (auto simp: idle_pass_def split: bind_splits)
  have "running_ok r1" using start_processes_ok r(1) assms(2) by (simp add: CheckAndStartProcesses_def)
  then show ?thesis using poll_serial_input_ok [OF r(2)] r(3) by (simp add: running_ok_def kept_def)
qed

lemma os_step_ok: "os_step hw ldr app_entry r r' \<Longrightarrow> running_ok r \<Longrightarrow> running_ok r'"
proof (induction rule: os_step.induct)
  case (step_syscall r number arg1 arg2 arg3 v s)
  then show ?case
    using sys_call_ok [OF _ step_syscall(1)] SyscallHandler_kept [OF sys_call_result [OF step_syscall(1)]]
    by (simp add: running_ok_def kept_def)
next
  case (step_app r os)
  then show ?case by (auto simp: running_ok_def app_task_entry_def Let_def split: bind_splits)
next
  case (step_timer r)
  then show ?case using TimerHandler_ok [of "r_os r" hw] by (simp add: running_ok_def kept_def)
next
  case (step_usb r os)
  then show ?case using UsbInterruptHandler_ok [of hw "r_os r" os] by (simp add: running_ok_def kept_def)
next
  case (step_idle r r')
  then show ?case by (rule idle_pass_ok)
next
  case (step_idle_start r)
  then show ?case by (simp add: running_ok_def IdleTaskEntry_def EssentialProcesses_Initialize_def)
qed

lemma os_run_ok: "os_run hw ldr app_entry r r' \<Longrightarrow> running_ok r \<Longrightarrow> running_ok r'"
  by (induction rule: os_run.induct) (auto intro: os_step_ok)


section \<open>Text from the serial terminal\<close>

definition pending_rx :: "('h \<Rightarrow> bytes) \<Rightarrow> ('d, 'h) usb_sys \<Rightarrow> bytes" where
  "pending_rx rx s = rx (x_hw (snd (y_usb s)))"

text \<open>
  The serial controller as poll loop and programs rely on it: \<open>rx\<close> are the characters received and not
  yet read, bit 0 of the line status says whether there are any, and a read of the data port takes the first one.
\<close>

locale serial_port =
  fixes hw :: "'h machine" and rx :: "'h \<Rightarrow> bytes"
  assumes line_status: "port_in8 hw 0x3FD h = (v, h') \<Longrightarrow> (v AND 1 \<noteq> 0 \<longleftrightarrow> rx h \<noteq> []) \<and> rx h' = rx h"
    and data_port: "rx h \<noteq> [] \<Longrightarrow> port_in8 hw 0x3F8 h = (c, h') \<Longrightarrow> c = hd (rx h) \<and> rx h' = tl (rx h)"
begin

lemma status_read:
  assumes "with_hw (serial_has_data hw) s = (avail, s')"
  shows "avail \<longleftrightarrow> pending_rx rx s \<noteq> []" "pending_rx rx s' = pending_rx rx s" "\<exists>u. s' = s\<lparr>y_usb := (fst (y_usb s), u)\<rparr>"
proof -
  obtain v h where h: "port_in8 hw 0x3FD (x_hw (snd (y_usb s))) = (v, h)" by fastforce
  have s: "avail \<longleftrightarrow> v AND 1 \<noteq> 0" "s' = s\<lparr>y_usb := (fst (y_usb s), (snd (y_usb s))\<lparr>x_hw := h\<rparr>)\<rparr>"
    using assms h by (auto simp: with_hw_def serial_has_data_def IoIn8_def SERIAL_COM1_PORT_def split_beta)
  show "avail \<longleftrightarrow> pending_rx rx s \<noteq> []" "pending_rx rx s' = pending_rx rx s" using line_status [OF h] s by (simp_all add: pending_rx_def)
  show "\<exists>u. s' = s\<lparr>y_usb := (fst (y_usb s), u)\<rparr>" using s(2) by blast
qed

lemma data_read:
  assumes "with_hw (serial_getchar hw) s = (c, s')" "pending_rx rx s \<noteq> []"
  shows "c = hd (pending_rx rx s)" "pending_rx rx s' = tl (pending_rx rx s)" "\<exists>u. s' = s\<lparr>y_usb := (fst (y_usb s), u)\<rparr>"
proof -
  obtain v h where h: "port_in8 hw 0x3F8 (x_hw (snd (y_usb s))) = (v, h)" by fastforce
  have s: "c = v" "s' = s\<lparr>y_usb := (fst (y_usb s), (snd (y_usb s))\<lparr>x_hw := h\<rparr>)\<rparr>"
    using assms h by (auto simp: with_hw_def serial_getchar_def IoIn8_def SERIAL_COM1_PORT_def split_beta)
  show "c = hd (pending_rx rx s)" "pending_rx rx s' = tl (pending_rx rx s)"
    using data_port [OF _ h] assms(2) s by (simp_all add: pending_rx_def)
  show "\<exists>u. s' = s\<lparr>y_usb := (fst (y_usb s), u)\<rparr>" using s(2) by blast
qed

lemma poll_serial_input_drains:
  assumes "length (y_fds s) = 16" "y_fds s ! 0 = Some (p, KeyboardObj kb)"
  shows "\<exists>u. poll_serial_input hw s = Some (s\<lparr>y_usb := (fst (y_usb s), u),
      y_fds := (y_fds s)[0 := Some (p, KeyboardObj (fold (\<lambda>c kb. OnInput kb c) (map (\<lambda>c. if c = 0x0D then 0x0A else c) (pending_rx rx s)) kb))]\<rparr>)"
  using assms
proof (induction "pending_rx rx s" arbitrary: s kb)
  case Nil
  obtain avail s1 where a: "with_hw (serial_has_data hw) s = (avail, s1)" by fastforce
  note st = status_read [OF a]
  have "poll_serial_input hw s = Some s1" using st(1) Nil(1) a by (subst poll_serial_input.simps) simp
  moreover have "(y_fds s)[0 := Some (p, KeyboardObj kb)] = y_fds s" using Nil(3) by (metis list_update_id)
  then have "s\<lparr>y_usb := u, y_fds := (y_fds s)[0 := Some (p, KeyboardObj kb)]\<rparr> = s\<lparr>y_usb := u\<rparr>" for u by simp
  ultimately show ?case using st(3) Nil(1) by auto
next
  case (Cons c cs)
  obtain avail s1 where a: "with_hw (serial_has_data hw) s = (avail, s1)" by fastforce
  note st = status_read [OF a]
  obtain v s2 where b: "with_hw (serial_getchar hw) s1 = (v, s2)" by fastforce
  have p1: "pending_rx rx s1 = c # cs" using st(2) Cons(2) by simp
  note dr = data_read [OF b, unfolded p1, simplified]
  obtain u where u: "s2 = s\<lparr>y_usb := (fst (y_usb s), u)\<rparr>" using st(3) dr(3) by auto
  let ?c = "if c = 0x0D then 0x0A else c" and ?s = "serial_char v s2"
  have fd: "fd_at s2 0 = Some (p, KeyboardObj kb)" using Cons(4) u by (simp add: fd_at_def)
  have s3: "?s = s\<lparr>y_usb := (fst (y_usb s), u), y_fds := (y_fds s)[0 := Some (p, KeyboardObj (OnInput kb ?c))]\<rparr>"
    using fd dr(1) u by (simp add: serial_char_def set_fd_def Let_def)
  have p3: "pending_rx rx ?s = cs" using dr(2) u s3 by (simp add: pending_rx_def)
  have "poll_serial_input hw s = poll_serial_input hw ?s"
    using st(1) Cons(2) [symmetric] a b by (subst poll_serial_input.simps) simp
  moreover have "length (y_fds ?s) = 16" "y_fds ?s ! 0 = Some (p, KeyboardObj (OnInput kb ?c))"
    using Cons(3) by (simp_all add: s3)
  ultimately show ?case
    using Cons(1) [of ?s "OnInput kb ?c"] p3 Cons(2) [symmetric] by (auto simp: s3)
qed

end

lemma no_keyboard_read:
  assumes "y_usb s = (None, x)" "length (y_fds s) = 16" "y_fds s ! 0 = Some (p, KeyboardObj kb)" "kb_inv kb"
    and "cs = take (unat len) (kb_rep kb)" "unat ubuf + length cs \<le> 2 ^ 64"
  shows "\<exists>s'. SyscallHandler ldr app_entry (usb_poll hw) s 5 0 ubuf len = Some (Some (of_nat (length cs)), s') \<and>
    mem_load (umem s') ubuf (length cs) = cs"
proof -
  obtain bs kb' where d: "KeyboardFD_drain kb (unat len) = (bs, kb')" by fastforce
  have bs: "bs = cs" using KeyboardFD_drain_spec(1) [OF assms(4) d] assms(5) by simp
  have at: "fd_at s 0 = Some (p, KeyboardObj kb)" using assms(3) by (simp add: fd_at_def)
  have same: "(y_fds s)[0 := Some (p, KeyboardObj kb)] = y_fds s" using assms(3) by (metis list_update_id)
  have e: "s\<lparr>y_usb := (None, x)\<rparr> = s" using assms(1) by simp
  have ku: "keyboard_update (usb_poll hw) s = s"
    using at assms(1) same by (simp add: keyboard_update_def usb_poll_def set_fd_def Let_def e)
  have r: "fd_Read (usb_poll hw) s 0 len = (int (length cs), cs, set_fd s 0 (Some (p, KeyboardObj kb')))"
    using at ku d bs by (simp add: fd_Read_def)
  have "fd_index 0 = 0" using fd_index_of_nat [of 0] by simp
  then have "SyscallHandler ldr app_entry (usb_poll hw) s 5 0 ubuf len =
      Some (Some (of_nat (length cs)), copy_out (set_fd s 0 (Some (p, KeyboardObj kb'))) ubuf cs)"
    using at r by (simp add: SyscallHandler_def SysRead_def)
  moreover have "mem_load (umem (copy_out (set_fd s 0 (Some (p, KeyboardObj kb'))) ubuf cs)) ubuf (length cs) = cs"
    using mem_load_write [of ubuf cs "umem s"] assms(6) by (simp add: copy_out_def umem_def y_cr3_def set_fd_def)
  ultimately show ?thesis by blast
qed

text \<open>
  C26: text from the serial terminal reaches the program. With no USB keyboard, polling the serial
  port in the idle task returns as soon as the port has no more characters, and a system call
  \<open>Read\<close> on descriptor 0 then delivers what the keyboard buffer held followed by the characters
  received, in order and with every carriage return turned into a line feed, up to the length
  asked for; characters beyond the 1024 bytes of the buffer are lost.
\<close>

theorem serial_input_read:
  assumes "serial_port hw rx" "fds_ok (y_fds s)" "y_fds s ! 0 = Some (p, KeyboardObj kb)" "y_usb s = (None, x)"
    and "typed = map (\<lambda>c. if c = 0x0D then 0x0A else c) (rx (x_hw x))"
    and "cs = take (unat len) (kb_rep kb @ take (1024 - length (kb_rep kb)) typed)" "unat ubuf + length cs \<le> 2 ^ 64"
  shows "\<exists>s1 s2. poll_serial_input hw s = Some s1 \<and>
    SyscallHandler ldr app_entry (usb_poll hw) s1 5 0 ubuf len = Some (Some (of_nat (length cs)), s2) \<and>
    mem_load (umem s2) ubuf (length cs) = cs"
proof -
  have len16: "length (y_fds s) = 16" using assms(2) by (simp add: fds_ok_def)
  have inv: "kb_inv kb" using fds_ok_stdin [OF assms(2)] assms(3) by (metis (no_types) fd_at_def FD.inject(1) nat_zero_as_int
      option.inject prod.inject zero_le_numeral zero_less_numeral order_refl)
  define kb1 where "kb1 = fold (\<lambda>c kb. OnInput kb c) typed kb"
  have F: "kb_inv kb1" "kb_rep kb1 = kb_rep kb @ take (1024 - length (kb_rep kb)) typed"
    using kb.puts_spec [OF inv, of typed] by (simp_all add: kb1_def kKeyboardBufferSize_def)
  have "typed = map (\<lambda>c. if c = 0x0D then 0x0A else c) (pending_rx rx s)" using assms(4,5) by (simp add: pending_rx_def)
  then obtain u where u: "poll_serial_input hw s = Some (s\<lparr>y_usb := (None, u), y_fds := (y_fds s)[0 := Some (p, KeyboardObj kb1)]\<rparr>)"
    using serial_port.poll_serial_input_drains [OF assms(1) len16 assms(3)] assms(4) by (auto simp: kb1_def)
  let ?s = "s\<lparr>y_usb := (None, u), y_fds := (y_fds s)[0 := Some (p, KeyboardObj kb1)]\<rparr>"
  have "\<exists>s'. SyscallHandler ldr app_entry (usb_poll hw) ?s 5 0 ubuf len = Some (Some (of_nat (length cs)), s') \<and>
    mem_load (umem s') ubuf (length cs) = cs"
    by (rule no_keyboard_read [OF _ _ _ F(1)]) (use len16 F(2) assms(6,7) in simp_all)
  then show ?thesis using u by blast
qed


section \<open>Witnesses\<close>

definition serial_machine :: "bytes machine" where
  "serial_machine = \<lparr>port_in8 = (\<lambda>p h. if p = 0x3FD then (if h = [] then 0x60 else 0x61, h) else if p = 0x3F8 then (hd h, tl h) else (0, h)),
     port_out8 = (\<lambda>_ _ h. h), port_in32 = (\<lambda>_ h. (0xFFFFFFFF, h)), port_out32 = (\<lambda>_ _ h. h),
     mmio_read32 = (\<lambda>_ h. (0, h)), mmio_write32 = (\<lambda>_ _ h. h), dma_load = (\<lambda>_ n h. (replicate n 0, h)), dma_store = (\<lambda>_ _ h. h)\<rparr>"

interpretation sample_serial: serial_port serial_machine "\<lambda>h. h"
  by unfold_locales (auto simp: serial_machine_def split: if_splits)

definition serial_x :: "bytes \<Rightarrow> bytes Controller" where
  "serial_x h = \<lparr>x_dev = pci_dev 0 0 0, mmio_base = 0, op_regs_base = 0, rt_regs_base = 0, db_regs_base = 0, max_slots = 0,
     dcbaa = 0, command_ring = 0, event_ring = 0, erst = 0, dcs = 1, pcs = 1, cmd_ring_index = 0, event_ring_index = 0,
     transfer_rings = (\<lambda>_ _. 0), ring_cycle_state = (\<lambda>_ _. 1), ring_index = (\<lambda>_ _. 0), x_mm = sample_mm, x_hw = h\<rparr>"

definition serial_sys :: "bytes \<Rightarrow> (unit, bytes) usb_sys" where
  "serial_sys h =
     (let s = sample_sys None
      in \<lparr>y_k = y_k s, y_sched = y_sched s, y_env = y_env s, y_cells = y_cells s, y_fds = y_fds s, y_fs = y_fs s, y_con = y_con s,
          y_space = y_space s, y_listed = [], y_logger = Some (EventLogger_new (\<lambda>_. replicate 128 0)), y_usb = (None, serial_x h)\<rparr>)"

lemma serial_sys_fields:
  "fds_ok (y_fds (serial_sys h))" "y_fds (serial_sys h) ! 0 = Some (0x100, KeyboardObj (KeyboardFD_new (replicate kKeyboardBufferSize 0)))"
  "y_usb (serial_sys h) = (None, serial_x h)" "x_hw (serial_x h) = h" "y_fs (serial_sys h) = None"
  using sample_sys_fds [of "None :: unit FAT32Driver option"]
  by (simp_all add: serial_sys_def serial_x_def sample_sys_def Let_def)

theorem serial_input_read_witness:
  "\<exists>s1 s2. poll_serial_input serial_machine (serial_sys [0x6C, 0x73, 0x0D]) = Some s1 \<and>
    SyscallHandler Rust 0 (usb_poll serial_machine) s1 5 0 0x8000 16 = Some (Some 3, s2) \<and>
    mem_load (umem s2) 0x8000 3 = [0x6C, 0x73, 0x0A]"
proof -
  have "kb_rep (KeyboardFD_new (replicate kKeyboardBufferSize 0)) = []" by (simp add: kb_rep_def KeyboardFD_new_def ring_list_def)
  then show ?thesis
    using serial_input_read [OF sample_serial.serial_port_axioms serial_sys_fields(1-3) refl refl,
        of "0x8000" 16 "[0x6C, 0x73, 0x0D]" Rust 0] by (simp add: serial_sys_fields(4) numeral_3_eq_3)
qed

end
