(* ===== verification/UsbInit.thy ===== *)
theory UsbInit
  imports Usb
begin

text \<open>
  The start of the USB controller (\<open>Controller::Initialize\<close> of kernel/driver/usb/xhci.cpp): data
  structures, registers and interrupts, and the enumeration of the ports, which creates the
  keyboard and the mass storage driver. A result \<open>None\<close> is a wait without end, a stop of the
  processor, or an object constructed at the null pointer. Log lines are left out.
\<close>

text \<open>
  The controller with the two global drivers: \<open>uh_kb\<close> is \<open>g_usb_keyboard\<close> (the object with its
  address), \<open>uh_ms\<close> is \<open>g_mass_storage\<close>, \<open>uh_cells\<close> the size headers of \<open>operator new\<close>.
\<close>

record 'h UsbHost =
  uh_x :: "'h Controller"
  uh_kb :: "(u64 \<times> Keyboard) option"
  uh_ms :: "MassStorage option"
  uh_cells :: "u64 \<Rightarrow> u64"

definition on_x :: "('h Controller \<Rightarrow> 'h Controller) \<Rightarrow> 'h UsbHost \<Rightarrow> 'h UsbHost" where
  "on_x f u = u\<lparr>uh_x := f (uh_x u)\<rparr>"

definition uh_new :: "u64 \<Rightarrow> 'h UsbHost \<Rightarrow> u64 \<times> 'h UsbHost" where
  "uh_new sz u =
     (let (p, h) = operator_new \<lparr>kmm = x_mm (uh_x u), cells = uh_cells u\<rparr> sz
      in (p, u\<lparr>uh_x := (uh_x u)\<lparr>x_mm := kmm h\<rparr>, uh_cells := cells h\<rparr>))"

definition uh_delete :: "u64 \<Rightarrow> 'h UsbHost \<Rightarrow> 'h UsbHost" where
  "uh_delete p u =
     (let h = operator_delete \<lparr>kmm = x_mm (uh_x u), cells = uh_cells u\<rparr> p
      in u\<lparr>uh_x := (uh_x u)\<lparr>x_mm := kmm h\<rparr>, uh_cells := cells h\<rparr>)"

text \<open>\<open>sizeof(Keyboard)\<close>, the offset of \<open>buf_\<close> in it, and \<open>sizeof(MassStorage)\<close> under the x86-64 ABI.\<close>

definition sizeof_Keyboard :: u64 where "sizeof_Keyboard = 32"
definition offset_buf :: u64 where "offset_buf = 10"
definition sizeof_MassStorage :: u64 where "sizeof_MassStorage = 40"

section \<open>One port\<close>

text \<open>
  A device that answers: first taken for a keyboard, then for mass storage. \<open>desc\<close> is the address of
  the device descriptors on the stack, \<open>junk\<close> what the memory of the new keyboard holds. The pointers
  of \<open>new\<close> are not tested; the constructor of an object at the null pointer is outside the language.
\<close>

definition attach :: "'h machine \<Rightarrow> u64 \<Rightarrow> bytes \<Rightarrow> u8 \<Rightarrow> 'h UsbHost \<Rightarrow> 'h UsbHost option" where
  "attach hw desc junk slot_id u = do {
     let (p, u) = uh_new sizeof_Keyboard u;
     _ \<leftarrow> (if p = 0 then None else Some ());
     (ok, kb, x) \<leftarrow> Keyboard_Initialize hw desc (Keyboard_new slot_id (p + offset_buf) junk) (uh_x u);
     let u = u\<lparr>uh_x := x, uh_kb := Some (p, kb)\<rparr>;
     if ok then Some u
     else do {
       let u = (uh_delete p u)\<lparr>uh_kb := None\<rparr>;
       let (q, u) = uh_new sizeof_MassStorage u;
       _ \<leftarrow> (if q = 0 then None else Some ());
       (ok, ms, x) \<leftarrow> MassStorage_Initialize hw (MassStorage_new slot_id) (uh_x u);
       let u = u\<lparr>uh_x := x, uh_ms := Some ms\<rparr>;
       if ok then do {
         let (sec0, x) = x_alloc 512 (uh_x u);
         (_, x) \<leftarrow> ReadSectors hw ms 0 1 sec0 x;
         Some (u\<lparr>uh_x := x\<rparr>) }
       else Some u } }"

definition port_step :: "'h machine \<Rightarrow> u64 \<Rightarrow> bytes \<Rightarrow> u8 \<Rightarrow> 'h UsbHost \<Rightarrow> 'h UsbHost option" where
  "port_step hw desc junk i u =
     (let (portsc, x) = ReadOpReg hw (uh_x u) (portsc_offset i)
      in if portsc AND 1 = 0 then Some (u\<lparr>uh_x := x\<rparr>)
         else do {
           x \<leftarrow> ResetPort hw x i;
           let (portsc_after, x) = ReadOpReg hw x (portsc_offset i);
           let speed = drop_bit 10 portsc_after AND 0x0F;
           (slot_id, x) \<leftarrow> EnableSlot hw x;
           if slot_id = 0 then Some (u\<lparr>uh_x := x\<rparr>)
           else do {
             (ok, x) \<leftarrow> AddressDevice hw x slot_id i speed;
             if \<not> ok then Some (u\<lparr>uh_x := x\<rparr>)
             else do {
               (ok, x) \<leftarrow> ControlIn hw x slot_id 0x80 6 0x0100 0 18 desc;
               if ok then attach hw desc junk slot_id (u\<lparr>uh_x := x\<rparr>) else Some (u\<lparr>uh_x := x\<rparr>) } } })"

fun port_loop :: "'h machine \<Rightarrow> u64 \<Rightarrow> bytes \<Rightarrow> u8 list \<Rightarrow> 'h UsbHost \<Rightarrow> 'h UsbHost option" where
  "port_loop hw desc junk [] u = Some u"
| "port_loop hw desc junk (i # ports) u = Option.bind (port_step hw desc junk i u) (port_loop hw desc junk ports)"

section \<open>Initialize\<close>

text \<open>The array of scratchpad buffers, one frame for each entry.\<close>

fun scratchpads :: "'h machine \<Rightarrow> u64 \<Rightarrow> nat list \<Rightarrow> 'h Controller \<Rightarrow> 'h Controller" where
  "scratchpads hw a [] x = x"
| "scratchpads hw a (i # is) x =
     (let (buf, mm) = AllocateFrame (x_mm x);
          x = put_bytes hw (a + 8 * of_nat i) (le64_put buf) (x\<lparr>x_mm := mm\<rparr>)
      in scratchpads hw a is x)"

definition setup_dcbaa :: "'h machine \<Rightarrow> 'h Controller \<Rightarrow> 'h Controller" where
  "setup_dcbaa hw x =
     (let (hcsparams1, x) = Read32 hw x 0x04;
          x = x\<lparr>max_slots := ucast (hcsparams1 AND 0xFF)\<rparr>;
          (hcsparams2, x) = Read32 hw x 0x08;
          max_scratchpads = (drop_bit 21 hcsparams2 AND 0x1F) OR push_bit 5 (drop_bit 27 hcsparams2 AND 0x1F);
          (p, x) = x_alloc ((ucast (max_slots x) + 1) * 8) x;
          x = x\<lparr>dcbaa := p\<rparr>;
          x = fold (\<lambda>i. put_bytes hw (p + 8 * of_nat i) (le64_put 0)) [0..<unat (max_slots x) + 1] x;
          x = (if max_scratchpads > 0
               then let (a, x) = x_alloc (ucast (max_scratchpads * 8)) x;
                        x = scratchpads hw a [0..<unat max_scratchpads] x
                    in put_bytes hw p (le64_put a) x
               else x);
          x = WriteOpReg hw x 0x30 (ucast (p AND 0xFFFFFFFF));
          x = WriteOpReg hw x 0x34 (ucast (drop_bit 32 p));
          (config, x) = ReadOpReg hw x 0x38;
          config = config AND NOT 0xFF;
          config = config OR ucast (max_slots x)
      in WriteOpReg hw x 0x38 config)"

definition setup_rings :: "'h machine \<Rightarrow> 'h Controller \<Rightarrow> 'h Controller" where
  "setup_rings hw x =
     (let (cr, x) = x_alloc (16 * 32) x;
          x = put_zeros hw cr (16 * 32) (x\<lparr>command_ring := cr\<rparr>);
          x = put_trb hw (trb_addr cr 31) \<lparr>trb_parameter = cr, trb_status = 0, trb_control = push_bit 10 6 OR 2\<rparr> x;
          x = WriteOpReg hw x 0x18 (ucast (cr AND 0xFFFFFFFF) OR 1);
          x = WriteOpReg hw x 0x1C (ucast (drop_bit 32 cr));
          (er, x) = x_alloc (16 * 32) x;
          x = put_zeros hw er (16 * 32) (x\<lparr>event_ring := er\<rparr>);
          (t, x) = x_alloc 24 x;
          x = put_bytes hw t (le64_put er @ le32_put 32 @ le32_put 0 @ le32_put 0) (x\<lparr>erst := t\<rparr>);
          x = WriteRtReg hw x (0x20 + 0x08) 1;
          x = WriteRtReg hw x (0x20 + 0x18) (ucast (er AND 0xFFFFFFFF));
          x = WriteRtReg hw x (0x20 + 0x1C) (ucast (drop_bit 32 er));
          x = WriteRtReg hw x (0x20 + 0x10) (ucast (t AND 0xFFFFFFFF));
          x = WriteRtReg hw x (0x20 + 0x14) (ucast (drop_bit 32 t));
          (iman, x) = ReadRtReg hw x 0x20
      in WriteRtReg hw x 0x20 (iman OR 2))"

definition conf_read :: "'h machine \<Rightarrow> u8 \<Rightarrow> 'h Controller \<Rightarrow> u32 \<times> 'h Controller" where
  "conf_read hw r x = (let (v, h) = ReadConfReg hw (x_dev x) r (x_hw x) in (v, x\<lparr>x_hw := h\<rparr>))"

definition conf_write :: "'h machine \<Rightarrow> u8 \<Rightarrow> u32 \<Rightarrow> 'h Controller \<Rightarrow> 'h Controller" where
  "conf_write hw r v x = x\<lparr>x_hw := WriteConfReg hw (x_dev x) r v (x_hw x)\<rparr>"

definition Xhci_Initialize :: "'h machine \<Rightarrow> u64 \<Rightarrow> bytes \<Rightarrow> 'h UsbHost \<Rightarrow> 'h UsbHost option" where
  "Xhci_Initialize hw desc junk u = do {
     let x = uh_x u;
     let (vendor, x) = conf_read hw 0x00 x;
     if vendor AND 0xFFFF = 0xFFFF then None
     else do {
       let (bar, h) = ReadBar0 hw (x_dev x) (x_hw x);
       let x = x\<lparr>mmio_base := bar, x_hw := h\<rparr>;
       let (cmd_reg, x) = conf_read hw 0x04 x;
       let cmd_reg = cmd_reg OR push_bit 2 1;
       let cmd_reg = cmd_reg OR push_bit 1 1;
       let x = conf_write hw 0x04 cmd_reg x;
       let (_, x) = conf_read hw 0x04 x;
       let (cap, x) = Read32 hw x 0x00;
       let (rts, x) = Read32 hw x 0x18;
       let (db, x) = Read32 hw x 0x14;
       let x = x\<lparr>op_regs_base := mmio_base x + ucast (cap AND 0xFF), rt_regs_base := mmio_base x + ucast (rts AND NOT 0x1F),
                 db_regs_base := mmio_base x + ucast (db AND NOT 0x3)\<rparr>;
       x \<leftarrow> BiosHandoff hw x;
       x \<leftarrow> ResetController hw x;
       let x = setup_rings hw (setup_dcbaa hw x);
       (_, h) \<leftarrow> SetupMSI hw (x_dev x) 0x50 (x_hw x);
       let x = x\<lparr>x_hw := h\<rparr>;
       let (usbcmd, x) = ReadOpReg hw x 0x00;
       let x = WriteOpReg hw x 0x00 (usbcmd OR 1);
       (_, x) \<leftarrow> wait_reg hw (op_regs_base x + 0x04) (\<lambda>v. v AND 1 = 0) x;
       port_loop hw desc junk (map of_nat [1..<min (unat (max_slots x)) 16 + 1]) (u\<lparr>uh_x := x\<rparr>) } }"

section \<open>A device that is no keyboard\<close>

text \<open>
  Attaching a device that answers but turns out not to be a keyboard forgets the keyboard that an
  earlier port had: \<open>g_usb_keyboard\<close> is overwritten with the new object and then set to null. If the
  device is no mass storage either, \<open>g_mass_storage\<close> is left pointing to the driver whose
  initialisation failed, which the installer then reads from.
\<close>

theorem other_device_forgets_keyboard:
  assumes "uh_new sizeof_Keyboard u = (p, u1)" "p \<noteq> 0"
    "Keyboard_Initialize hw desc (Keyboard_new slot_id (p + offset_buf) junk) (uh_x u1) = Some (False, kb, x1)"
    "uh_new sizeof_MassStorage ((uh_delete p (u1\<lparr>uh_x := x1, uh_kb := Some (p, kb)\<rparr>))\<lparr>uh_kb := None\<rparr>) = (q, u2)" "q \<noteq> 0"
    "MassStorage_Initialize hw (MassStorage_new slot_id) (uh_x u2) = Some (False, ms, x2)"
  shows "\<exists>u'. attach hw desc junk slot_id u = Some u' \<and> uh_kb u' = None \<and> uh_ms u' = Some ms"
proof -
  have kb: "uh_kb u2 = None" using assms(4) by (auto simp: uh_new_def split: prod.splits)
  show ?thesis unfolding attach_def Let_def using assms kb by simp
qed

text \<open>
  A machine that answers every register read with 0x200001 and every read of memory with
  the next entry of a list.
\<close>

definition script_machine :: "bytes list machine" where
  "script_machine = \<lparr>port_in8 = (\<lambda>_ h. (0, h)), port_out8 = (\<lambda>_ _ h. h), port_in32 = (\<lambda>_ h. (0, h)), port_out32 = (\<lambda>_ _ h. h),
     mmio_read32 = (\<lambda>_ h. (0x200001, h)), mmio_write32 = (\<lambda>_ _ h. h),
     dma_load = (\<lambda>_ n h. (hd h, tl h)), dma_store = (\<lambda>_ _ h. h)\<rparr>"

lemma script_simps:
  "mmio_write32 script_machine a v h = h" "dma_store script_machine a bs h = h" "dma_load script_machine a n h = (hd h, tl h)"
  by (simp_all add: script_machine_def)

lemma script_frame:
  "x_hw (put_ep0 script_machine s a b c x) = x_hw x" "dcs (put_ep0 script_machine s a b c x) = dcs x"
  "x_mm (put_ep0 script_machine s a b c x) = x_mm x" "x_mm (RingDoorbell script_machine x t v) = x_mm x"
  "x_hw (RingDoorbell script_machine x t v) = x_hw x" "dcs (RingDoorbell script_machine x t v) = dcs x"
  by (simp_all add: put_ep0_def set_ring_def put_trb_def RingDoorbell_def put_bytes_def Write32_def store32_def store64_def script_simps Let_def split: prod.splits)

text \<open>A transfer event with completion code 6, a stall: the control transfer fails.\<close>

lemma script_words:
  "le32_get [0x01, 0x80, 0, 0] = 0x8001" "le32_get [0, 0, 0, 6] = 0x06000000"
  "cycle_bit 0x8001 = 1" "trb_type 0x8001 = 32" "comp_code 0x06000000 = 6"
  by code_simp+

lemma script_await:
  assumes "x_hw y = [0x01, 0x80, 0, 0] # [0, 0, 0, 6] # rest" "dcs y = 1" "0 < t"
  shows "await_transfer script_machine t y = Some (Some 0x06000000, y\<lparr>event_ring_index := event_ring_index y + 1, x_hw := rest\<rparr>)"
  using assms by (subst await_transfer.simps) (simp add: get32_def load32_def script_simps script_words Let_def)

lemma script_stall:
  assumes "x_hw x = [0x01, 0x80, 0, 0] # [0, 0, 0, 6] # rest" "dcs x = 1"
  shows "\<exists>x'. ControlIn script_machine x s r q v i l buf = Some (False, x') \<and> x_hw x' = rest \<and> dcs x' = 1 \<and> x_mm x' = x_mm x"
  unfolding ControlIn_def Let_def using assms
  by (cases "l > 0") (simp_all add: script_await script_frame script_words)

lemma uh_new_frame: "uh_new sz u = (p, u') \<Longrightarrow> x_hw (uh_x u') = x_hw (uh_x u) \<and> dcs (uh_x u') = dcs (uh_x u)"
  by (auto simp: uh_new_def split: prod.splits)

definition sample_host :: "bytes list UsbHost" where
  "sample_host = \<lparr>uh_x = \<lparr>x_dev = pci_dev 0 0 0, mmio_base = 0, op_regs_base = 0, rt_regs_base = 0, db_regs_base = 0, max_slots = 8,
     dcbaa = 0, command_ring = 0x10000, event_ring = 0x20000, erst = 0, dcs = 1, pcs = 1, cmd_ring_index = 0, event_ring_index = 0,
     transfer_rings = (\<lambda>_ _. 0x30000), ring_cycle_state = (\<lambda>_ _. 1), ring_index = (\<lambda>_ _. 0), x_mm = sample_mm,
     x_hw = [[0x01, 0x80, 0, 0], [0, 0, 0, 6], [0x01, 0x80, 0, 0], [0, 0, 0, 6]]\<rparr>,
     uh_kb = Some (0x9000, sample_kb), uh_ms = None, uh_cells = (\<lambda>_. 0)\<rparr>"

lemma sample_host_allocs:
  "Allocate sample_mm 48 = (0x4000, sample_mm\<lparr>mm_bitmap := \<lparr>bm_buffer = [0x1F, 0xF0], bm_size = 2\<rparr>\<rparr>)"
  "Allocate sample_mm 56 = (0x4000, sample_mm\<lparr>mm_bitmap := \<lparr>bm_buffer = [0x1F, 0xF0], bm_size = 2\<rparr>\<rparr>)"
  by (simp_all add: Allocate_def AllocateFrame_def frames_of_def sample_mm_def bitmap_eval)

lemma sample_new_storage: "x_mm (uh_x u) = sample_mm \<Longrightarrow> \<exists>u'. uh_new sizeof_MassStorage u = (0x4010, u')"
  by (simp add: uh_new_def operator_new_def sizeof_MassStorage_def kHeaderSize_def sample_host_allocs)

theorem other_device_forgets_keyboard_witness:
  "\<exists>u'. attach script_machine 0x7000 (replicate 8 0) 2 sample_host = Some u' \<and> uh_kb u' = None \<and> uh_ms u' = Some (MassStorage_new 2)"
proof -
  obtain u1 where n1: "uh_new sizeof_Keyboard sample_host = (0x4010, u1)" "uh_cells u1 0x4000 = 48"
    "x_mm (uh_x u1) = sample_mm\<lparr>mm_bitmap := \<lparr>bm_buffer = [0x1F, 0xF0], bm_size = 2\<rparr>\<rparr>"
    by (simp add: uh_new_def operator_new_def sample_host_def sizeof_Keyboard_def kHeaderSize_def sample_host_allocs)
  have s1: "x_hw (uh_x u1) = [[0x01, 0x80, 0, 0], [0, 0, 0, 6], [0x01, 0x80, 0, 0], [0, 0, 0, 6]]" "dcs (uh_x u1) = 1"
    using uh_new_frame [OF n1(1)] by (simp_all add: sample_host_def)
  let ?kb = "Keyboard_new 2 (0x4010 + offset_buf) (replicate 8 0)"
  obtain x1 where c1: "Keyboard_Initialize script_machine 0x7000 ?kb (uh_x u1) = Some (False, ?kb, x1)"
    "x_hw x1 = [[0x01, 0x80, 0, 0], [0, 0, 0, 6]]" "dcs x1 = 1" "x_mm x1 = x_mm (uh_x u1)"
    using script_stall [OF s1, of "kslot_id ?kb" "0x80" 6 "0x0100" 0 18 "0x7000"] by (auto simp: Keyboard_Initialize_def)
  let ?u = "(uh_delete 0x4010 (u1\<lparr>uh_x := x1, uh_kb := Some (0x4010, ?kb)\<rparr>))\<lparr>uh_kb := None\<rparr>"
  have "Free (x_mm x1) 0x4000 48 = sample_mm"
    using Free_Allocate [OF sample_mm_inv _ sample_host_allocs(1)] n1(3) c1(4) by (simp add: admissible_def)
  then have mm: "x_mm (uh_x ?u) = sample_mm"
    using n1(2) by (simp add: uh_delete_def operator_delete_def kHeaderSize_def)
  obtain u2 where n2: "uh_new sizeof_MassStorage ?u = (0x4010, u2)"
    using sample_new_storage [OF mm] by blast
  have s2: "x_hw (uh_x u2) = [[0x01, 0x80, 0, 0], [0, 0, 0, 6]]" "dcs (uh_x u2) = 1"
    using uh_new_frame [OF n2] c1(2,3) by (simp_all add: uh_delete_def Let_def)
  obtain b x3 where a: "x_alloc 1024 (uh_x u2) = (b, x3)" "x_hw x3 = [[0x01, 0x80, 0, 0], [0, 0, 0, 6]]" "dcs x3 = 1"
    using s2 by (cases "Allocate (x_mm (uh_x u2)) 1024") (simp add: x_alloc_def)
  obtain x2 where c2: "MassStorage_Initialize script_machine (MassStorage_new 2) (uh_x u2) = Some (False, MassStorage_new 2, x2)"
    using script_stall [OF a(2,3), of "mslot_id (MassStorage_new 2)" "0x80" 6 "0x0200" 0 9 b] a(1) by (auto simp: MassStorage_Initialize_def)
  show ?thesis by (rule other_device_forgets_keyboard [OF n1(1) _ c1(1) n2 _ c2]) simp_all
qed

end
