(* ===== verification/NvmeInit.thy ===== *)
theory NvmeInit
  imports Machine PhysMem MemoryMgr "HOL-Library.Monad_Syntax"
begin

text \<open>
  Bringing up the NVMe controller (kernel/driver/nvme/nvme_driver.cpp, nvme_reg.hpp, nvme_queue.hpp,
  nvme_identify.hpp): reset and enabling, the admin queue, the identify commands and the creation of
  the I/O queues, over the machine of theory \<open>Machine\<close>. The I/O path that then uses the queues is
  theory \<open>NvmeIO\<close>. A result \<open>None\<close> is a driver that waits for ever or has stopped the processor. A store
  to a 64-bit register is two stores of 32 bits, low half first. Log output is left out, except that
  the identification returns the model and the serial number it prints.
\<close>

section \<open>Driver state\<close>

record 'h NvmeCtl =
  nc_regs :: u64
  admin_sq :: u64
  admin_cq :: u64
  sq_tail :: u16
  cq_head :: u16
  adm_phase :: u8
  sq_doorbell :: u64
  cq_doorbell :: u64
  nc_io_sq :: u64
  nc_io_cq :: u64
  nc_io_sq_tail :: u16
  nc_io_cq_head :: u16
  nc_io_phase :: u8
  nc_io_sq_doorbell :: u64
  nc_io_cq_doorbell :: u64
  nc_namespace_id :: u32
  nc_lba_size :: u32
  nc_mm :: MemoryManager
  nc_hw :: 'h

definition nvme_depth :: u16 where
  "nvme_depth = 32"

definition NvmeCtl_new :: "u64 \<Rightarrow> MemoryManager \<Rightarrow> 'h \<Rightarrow> 'h NvmeCtl" where
  "NvmeCtl_new mmio_base mm h =
     \<lparr>nc_regs = mmio_base, admin_sq = 0, admin_cq = 0, sq_tail = 0, cq_head = 0, adm_phase = 1,
      sq_doorbell = mmio_base + 0x1000, cq_doorbell = mmio_base + 0x1004,
      nc_io_sq = 0, nc_io_cq = 0, nc_io_sq_tail = 0, nc_io_cq_head = 0, nc_io_phase = 1,
      nc_io_sq_doorbell = mmio_base + 0x1008, nc_io_cq_doorbell = mmio_base + 0x100C,
      nc_namespace_id = 1, nc_lba_size = 512, nc_mm = mm, nc_hw = h\<rparr>"

definition reg_read :: "'h machine \<Rightarrow> u64 \<Rightarrow> 'h NvmeCtl \<Rightarrow> u32 \<times> 'h NvmeCtl" where
  "reg_read hw a d = (let (v, h) = mmio_read32 hw a (nc_hw d) in (v, d\<lparr>nc_hw := h\<rparr>))"

definition reg_write :: "'h machine \<Rightarrow> u64 \<Rightarrow> u32 \<Rightarrow> 'h NvmeCtl \<Rightarrow> 'h NvmeCtl" where
  "reg_write hw a v d = d\<lparr>nc_hw := mmio_write32 hw a v (nc_hw d)\<rparr>"

definition reg_write64 :: "'h machine \<Rightarrow> u64 \<Rightarrow> u64 \<Rightarrow> 'h NvmeCtl \<Rightarrow> 'h NvmeCtl" where
  "reg_write64 hw a v d = reg_write hw (a + 4) (ucast (drop_bit 32 v)) (reg_write hw a (ucast v) d)"

definition shared_load :: "'h machine \<Rightarrow> u64 \<Rightarrow> nat \<Rightarrow> 'h NvmeCtl \<Rightarrow> bytes \<times> 'h NvmeCtl" where
  "shared_load hw a n d = (let (bs, h) = dma_load hw a n (nc_hw d) in (bs, d\<lparr>nc_hw := h\<rparr>))"

definition shared_store :: "'h machine \<Rightarrow> u64 \<Rightarrow> bytes \<Rightarrow> 'h NvmeCtl \<Rightarrow> 'h NvmeCtl" where
  "shared_store hw a bs d = d\<lparr>nc_hw := dma_store hw a bs (nc_hw d)\<rparr>"

definition shared_clear :: "'h machine \<Rightarrow> u64 \<Rightarrow> nat \<Rightarrow> 'h NvmeCtl \<Rightarrow> 'h NvmeCtl" where
  "shared_clear hw a n d = d\<lparr>nc_hw := store_zeros hw a n (nc_hw d)\<rparr>"

definition nc_alloc :: "u64 \<Rightarrow> 'h NvmeCtl \<Rightarrow> u64 \<times> 'h NvmeCtl" where
  "nc_alloc sz d = (let (p, mm) = Allocate (nc_mm d) sz in (p, d\<lparr>nc_mm := mm\<rparr>))"

definition nc_free :: "u64 \<Rightarrow> u64 \<Rightarrow> 'h NvmeCtl \<Rightarrow> 'h NvmeCtl" where
  "nc_free p sz d = d\<lparr>nc_mm := Free (nc_mm d) p sz\<rparr>"

section \<open>Reset and enabling\<close>

partial_function (option) wait_reset :: "'h machine \<Rightarrow> 'h NvmeCtl \<Rightarrow> 'h NvmeCtl option" where
  "wait_reset hw d =
     (let (csts, d) = reg_read hw (nc_regs d + 0x1C) d in if csts AND 1 \<noteq> 0 then wait_reset hw d else Some d)"

definition DisableController :: "'h machine \<Rightarrow> 'h NvmeCtl \<Rightarrow> 'h NvmeCtl option" where
  "DisableController hw d =
     (let (cc, d) = reg_read hw (nc_regs d + 0x14) d;
          d = (if cc AND 1 \<noteq> 0 then reg_write hw (nc_regs d + 0x14) (cc AND NOT 1) d else d)
      in wait_reset hw d)"

text \<open>The counter of the loop is \<open>timeout\<close>; at zero, and on a fatal status, the processor stops.\<close>

fun wait_ready :: "'h machine \<Rightarrow> nat \<Rightarrow> 'h NvmeCtl \<Rightarrow> 'h NvmeCtl option" where
  "wait_ready hw timeout d =
     (let (csts, d) = reg_read hw (nc_regs d + 0x1C) d
      in if csts AND 1 \<noteq> 0 then Some d
         else
           let (csts, d) = reg_read hw (nc_regs d + 0x1C) d
           in if csts AND 2 \<noteq> 0 then None
              else let timeout = timeout - 1 in if timeout = 0 then None else wait_ready hw timeout d)"

declare wait_ready.simps [simp del]

definition EnableController :: "'h machine \<Rightarrow> 'h NvmeCtl \<Rightarrow> 'h NvmeCtl option" where
  "EnableController hw d =
     (let (cc, d) = reg_read hw (nc_regs d + 0x14) d;
          cc = cc OR 1;
          cc = cc OR push_bit 20 4;
          cc = cc OR push_bit 16 6;
          d = reg_write hw (nc_regs d + 0x14) cc d
      in wait_ready hw 1000000 d)"

definition Nvme_Initialize :: "'h machine \<Rightarrow> 'h NvmeCtl \<Rightarrow> 'h NvmeCtl option" where
  "Nvme_Initialize hw d = do {
     d \<leftarrow> DisableController hw d;
     let (sq, d) = nc_alloc (64 * 32) d;
     let d = d\<lparr>admin_sq := sq\<rparr>;
     let (cq, d) = nc_alloc (16 * 32) d;
     let d = d\<lparr>admin_cq := cq\<rparr>;
     if sq = 0 \<or> cq = 0 then None
     else do {
       let d = shared_clear hw sq (64 * 32) d;
       let d = shared_clear hw cq (16 * 32) d;
       let d = reg_write64 hw (nc_regs d + 0x28) sq d;
       let d = reg_write64 hw (nc_regs d + 0x30) cq d;
       let aqa = (0 :: u32);
       let aqa = aqa OR push_bit 16 (ucast (nvme_depth - 1));
       let aqa = aqa OR ucast (nvme_depth - 1);
       let d = reg_write hw (nc_regs d + 0x24) aqa d;
       EnableController hw d } }"

section \<open>Admin commands\<close>

partial_function (option) wait_admin :: "'h machine \<Rightarrow> 'h NvmeCtl \<Rightarrow> 'h NvmeCtl option" where
  "wait_admin hw d =
     (let (bs, d) = shared_load hw (admin_cq d + 16 * ucast (cq_head d) + 14) 2 d
      in if le16_get bs AND 1 = ucast (adm_phase d) then Some d else wait_admin hw d)"

text \<open>Ringing the doorbell for the entry at the tail, waiting, and advancing the completion queue.\<close>

definition ring_and_wait :: "'h machine \<Rightarrow> 'h NvmeCtl \<Rightarrow> 'h NvmeCtl option" where
  "ring_and_wait hw d =
     (let tail = sq_tail d + 1;
          d = d\<lparr>sq_tail := (if tail \<ge> nvme_depth then 0 else tail)\<rparr>;
          d = reg_write hw (sq_doorbell d) (ucast (sq_tail d)) d
      in do {
        d \<leftarrow> wait_admin hw d;
        let head = cq_head d + 1;
        let d = (if head \<ge> nvme_depth then d\<lparr>cq_head := 0, adm_phase := (if adm_phase d = 0 then 1 else 0)\<rparr>
                 else d\<lparr>cq_head := head\<rparr>);
        Some (reg_write hw (cq_doorbell d) (ucast (cq_head d)) d) })"

definition SendAdminCommand :: "'h machine \<Rightarrow> bytes \<Rightarrow> 'h NvmeCtl \<Rightarrow> 'h NvmeCtl option" where
  "SendAdminCommand hw cmd d = ring_and_wait hw (shared_store hw (admin_sq d + 64 * ucast (sq_tail d)) cmd d)"

text \<open>
  \<open>IdentifyController\<close>: \<open>cmd\<close> is a reference to the entry at the first tail, so both commands are
  written there; the second is copied to the new tail by \<open>SendAdminCommand\<close>.
\<close>

definition sizeof_IdentifyControllerData :: u64 where
  "sizeof_IdentifyControllerData = 96 + 3996"

definition IdentifyController :: "'h machine \<Rightarrow> 'h NvmeCtl \<Rightarrow> ((bytes \<times> bytes) \<times> 'h NvmeCtl) option" where
  "IdentifyController hw d = do {
     let (identify_data, d) = nc_alloc sizeof_IdentifyControllerData d;
     let cmd = admin_sq d + 64 * ucast (sq_tail d);
     let d = shared_clear hw cmd 64 d;
     let d = shared_store hw cmd [0x06] d;
     let d = shared_store hw (cmd + 2) (le16_put 1) d;
     let d = shared_store hw (cmd + 40) (le32_put 1) d;
     let d = shared_store hw (cmd + 24) (le64_put identify_data) d;
     d \<leftarrow> ring_and_wait hw d;
     let (model, d) = shared_load hw (identify_data + 24) 40 d;
     let (serial, d) = shared_load hw (identify_data + 4) 20 d;
     let d = nc_free identify_data sizeof_IdentifyControllerData d;
     let (ns_data, d) = nc_alloc 4096 d;
     let d = shared_clear hw cmd 64 d;
     let d = shared_store hw cmd [0x06] d;
     let d = shared_store hw (cmd + 4) (le32_put (nc_namespace_id d)) d;
     let d = shared_store hw (cmd + 40) (le32_put 0) d;
     let d = shared_store hw (cmd + 24) (le64_put ns_data) d;
     let (bs, d) = shared_load hw cmd 64 d;
     d \<leftarrow> SendAdminCommand hw bs d;
     let (flbas, d) = shared_load hw (ns_data + 26) 1 d;
     let lbaf_idx = flbas ! 0 AND 0x0F;
     let (ds, d) = shared_load hw (ns_data + 128 + 4 * ucast lbaf_idx + 2) 1 d;
     let d = d\<lparr>nc_lba_size := push_bit (unat (ds ! 0)) 1\<rparr>;
     Some ((model, serial), nc_free ns_data 4096 d) }"

text \<open>A command built in a local variable: opcode, data pointer and two parameters, the rest zero.\<close>

definition admin_cmd :: "u8 \<Rightarrow> u64 \<Rightarrow> u32 \<Rightarrow> u32 \<Rightarrow> bytes" where
  "admin_cmd opcode prp1 cdw10 cdw11 =
     opcode # replicate 23 0 @ le64_put prp1 @ replicate 8 0 @ le32_put cdw10 @ le32_put cdw11 @ replicate 16 0"

definition CreateIOQueues :: "'h machine \<Rightarrow> 'h NvmeCtl \<Rightarrow> 'h NvmeCtl option" where
  "CreateIOQueues hw d = do {
     let (sq, d) = nc_alloc (64 * 32) d;
     let d = d\<lparr>nc_io_sq := sq\<rparr>;
     let (cq, d) = nc_alloc (16 * 32) d;
     let d = d\<lparr>nc_io_cq := cq\<rparr>;
     let d = shared_clear hw sq (64 * 32) d;
     let d = shared_clear hw cq (16 * 32) d;
     let cmd_cq = admin_cmd 0x05 cq (push_bit 16 (ucast (nvme_depth - 1)) OR 1) 1;
     d \<leftarrow> SendAdminCommand hw cmd_cq d;
     let cmd_sq = admin_cmd 0x01 sq (push_bit 16 (ucast (nvme_depth - 1)) OR 1) (push_bit 16 1 OR 1);
     SendAdminCommand hw cmd_sq d }"

text \<open>The three calls of \<open>SetupPCI\<close> for a new driver.\<close>

definition bring_up :: "'h machine \<Rightarrow> 'h NvmeCtl \<Rightarrow> ((bytes \<times> bytes) \<times> 'h NvmeCtl) option" where
  "bring_up hw d = do {
     d \<leftarrow> Nvme_Initialize hw d;
     (names, d) \<leftarrow> IdentifyController hw d;
     d \<leftarrow> CreateIOQueues hw d;
     Some (names, d) }"

section \<open>When the controller becomes ready\<close>

text \<open>The value of the \<open>n\<close>-th read of a register, and the machine after \<open>n\<close> reads.\<close>

fun after_reads :: "'h machine \<Rightarrow> u64 \<Rightarrow> nat \<Rightarrow> 'h \<Rightarrow> 'h" where
  "after_reads hw a 0 h = h"
| "after_reads hw a (Suc n) h = after_reads hw a n (snd (mmio_read32 hw a h))"

definition nth_read :: "'h machine \<Rightarrow> u64 \<Rightarrow> nat \<Rightarrow> 'h \<Rightarrow> u32" where
  "nth_read hw a n h = fst (mmio_read32 hw a (after_reads hw a n h))"

definition ready_at :: "'h machine \<Rightarrow> u64 \<Rightarrow> 'h \<Rightarrow> nat \<Rightarrow> bool" where
  "ready_at hw a h k \<longleftrightarrow> nth_read hw a (2 * k) h AND 1 \<noteq> 0 \<and>
     (\<forall>j<k. nth_read hw a (2 * j) h AND 1 = 0 \<and> nth_read hw a (2 * j + 1) h AND 2 = 0)"

lemma nth_read_Suc: "nth_read hw a (Suc n) h = nth_read hw a n (snd (mmio_read32 hw a h))"
  by (simp add: nth_read_def)

lemma ready_at_step:
  assumes "fst (mmio_read32 hw a h) AND 1 = 0" "h2 = snd (mmio_read32 hw a (snd (mmio_read32 hw a h)))"
    "fst (mmio_read32 hw a (snd (mmio_read32 hw a h))) AND 2 = 0"
  shows "ready_at hw a h (Suc k) \<longleftrightarrow> ready_at hw a h2 k" "\<not> ready_at hw a h 0"
proof -
  have "(\<forall>j<Suc k. P j) \<longleftrightarrow> P 0 \<and> (\<forall>j<k. P (Suc j))" for P by (metis less_Suc_eq_0_disj)
  then show "ready_at hw a h (Suc k) \<longleftrightarrow> ready_at hw a h2 k"
    using assms by (simp add: ready_at_def nth_read_Suc) (simp add: nth_read_def)
  show "\<not> ready_at hw a h 0" using assms(1) by (simp add: ready_at_def nth_read_def)
qed

lemma wait_ready_iff:
  "0 < t \<Longrightarrow> wait_ready hw t d = Some d' \<longleftrightarrow>
    (\<exists>k<t. ready_at hw (nc_regs d + 0x1C) (nc_hw d) k \<and> d' = d\<lparr>nc_hw := after_reads hw (nc_regs d + 0x1C) (2 * k + 1) (nc_hw d)\<rparr>)"
proof (induction t arbitrary: d)
  case (Suc t)
  let ?a = "nc_regs d + 0x1C" and ?h = "nc_hw d"
  obtain v h1 where r1: "mmio_read32 hw ?a ?h = (v, h1)" by fastforce
  obtain w h2 where r2: "mmio_read32 hw ?a h1 = (w, h2)" by fastforce
  consider (ready) "v AND 1 \<noteq> 0" | (fatal) "v AND 1 = 0" "w AND 2 \<noteq> 0" | (more) "v AND 1 = 0" "w AND 2 = 0" by blast
  then show ?case
  proof cases
    case ready
    then have "ready_at hw ?a ?h k \<longleftrightarrow> k = 0" for k
      using r1 by (cases k) (auto simp: ready_at_def nth_read_def intro: exI [of _ 0])
    then show ?thesis using ready r1 by (auto simp: wait_ready.simps [of hw "Suc t"] reg_read_def)
  next
    case fatal
    then have "\<not> ready_at hw ?a ?h k" for k
    proof (cases k)
      case (Suc j)
      have "nth_read hw ?a (Suc 0) ?h AND 2 \<noteq> 0" using fatal r1 r2 by (simp add: nth_read_def)
      then show ?thesis using Suc by (auto simp: ready_at_def intro!: exI [of _ 0])
    qed (use fatal r1 in \<open>simp add: ready_at_def nth_read_def\<close>)
    then show ?thesis using fatal r1 r2 by (simp add: wait_ready.simps [of hw "Suc t"] reg_read_def)
  next
    case more
    note st = ready_at_step [of hw ?a ?h h2, simplified r1 r2 fst_conv snd_conv, OF more(1) refl more(2)]
    let ?d = "d\<lparr>nc_hw := h2\<rparr>"
    have w: "wait_ready hw (Suc t) d = (if t = 0 then None else wait_ready hw t ?d)"
      using more r1 r2 by (simp add: wait_ready.simps [of hw "Suc t"] reg_read_def)
    have ex: "(\<exists>k<Suc t. P k) \<longleftrightarrow> P 0 \<or> (\<exists>k<t. P (Suc k))" for P by (metis less_Suc_eq_0_disj)
    show ?thesis
      using Suc.IH [of ?d] st r1 r2 unfolding w ex by auto
  qed
qed simp

text \<open>
  C39: Enabling the controller ends exactly when it reports readiness in time: \<open>EnableController\<close> returns if
  and only if one of the first 1000000 polls finds the ready bit set and no poll before it found the
  fatal bit; in every other case the processor is stopped. Nothing but the hardware changes, and CC
  keeps its other bits, with EN set and the entry sizes 64 and 16 added.
\<close>

theorem EnableController_returns:
  assumes "mmio_read32 hw (nc_regs d + 0x14) (nc_hw d) = (cc, h1)"
    "h = mmio_write32 hw (nc_regs d + 0x14) (cc OR 1 OR push_bit 20 4 OR push_bit 16 6) h1"
  shows "EnableController hw d = Some d' \<longleftrightarrow>
    (\<exists>k<1000000. ready_at hw (nc_regs d + 0x1C) h k \<and> d' = d\<lparr>nc_hw := after_reads hw (nc_regs d + 0x1C) (2 * k + 1) h\<rparr>)"
  using wait_ready_iff [of 1000000 hw "d\<lparr>nc_hw := h\<rparr>" d'] assms
  by (simp add: EnableController_def reg_read_def reg_write_def Let_def or.assoc)

section \<open>The controller\<close>

text \<open>
  What the driver relies on, after the NVMe base specification: the registers, and the admin
  queue pair in shared memory. A write of the submission doorbell makes the controller execute the
  entries up to the new tail, one after the other; each leaves a completion entry with the phase
  tag of the current round. The reaction to a register write is over before the next access.
  \<open>ad_iocq\<close> and \<open>ad_iosq\<close> are the I/O queues created so far: identifier, address, size, and the
  completion queue of a submission queue.
\<close>

record adm =
  ad_cc :: u32
  ad_aqa :: u32
  ad_asq :: u64
  ad_acq :: u64
  ad_head :: nat
  ad_cq_tail :: nat
  ad_phase :: u16
  ad_iocq :: "(nat \<times> u64 \<times> nat) option"
  ad_iosq :: "(nat \<times> u64 \<times> nat \<times> nat) option"

definition ad_size :: "adm \<Rightarrow> nat" where
  "ad_size ad = unat (take_bit 12 (ad_aqa ad)) + 1"

definition ad_cq_size :: "adm \<Rightarrow> nat" where
  "ad_cq_size ad = unat (take_bit 12 (drop_bit 16 (ad_aqa ad))) + 1"

text \<open>The effect of a command; \<open>idc\<close> and \<open>idn\<close> are the identify structures of the controller and
  of a namespace.\<close>

definition adm_command :: "bytes \<Rightarrow> (u32 \<Rightarrow> bytes) \<Rightarrow> bytes \<Rightarrow> adm \<times> pmem \<Rightarrow> adm \<times> pmem" where
  "adm_command idc idn cmd = (\<lambda>(ad, mem).
     let opcode = cmd ! 0; nsid = le32_get (buf_get 4 4 cmd); prp1 = le64_get (buf_get 24 8 cmd);
         cdw10 = le32_get (buf_get 40 4 cmd); cdw11 = le32_get (buf_get 44 4 cmd)
     in if opcode = 0x06 \<and> take_bit 8 cdw10 = 1 then (ad, mem_store mem prp1 idc)
        else if opcode = 0x06 \<and> take_bit 8 cdw10 = 0 then (ad, mem_store mem prp1 (idn nsid))
        else if opcode = 0x05
        then (ad\<lparr>ad_iocq := Some (unat (take_bit 16 cdw10), prp1, unat (drop_bit 16 cdw10) + 1)\<rparr>, mem)
        else if opcode = 0x01
        then (ad\<lparr>ad_iosq := Some (unat (take_bit 16 cdw10), prp1, unat (drop_bit 16 cdw10) + 1, unat (drop_bit 16 cdw11))\<rparr>, mem)
        else (ad, mem))"

definition completion :: "adm \<Rightarrow> bytes \<Rightarrow> bytes" where
  "completion ad cmd = replicate 8 0 @ le16_put (of_nat (ad_head ad)) @ le16_put 0 @ buf_get 2 2 cmd @ le16_put (ad_phase ad)"

definition adm_complete :: "bytes \<Rightarrow> adm \<times> pmem \<Rightarrow> adm \<times> pmem" where
  "adm_complete cmd = (\<lambda>(ad, mem).
     let ad = ad\<lparr>ad_head := (ad_head ad + 1) mod ad_size ad\<rparr>;
         mem = mem_store mem (ad_acq ad + 16 * of_nat (ad_cq_tail ad)) (completion ad cmd)
     in (if ad_cq_tail ad + 1 = ad_cq_size ad then ad\<lparr>ad_cq_tail := 0, ad_phase := 1 - ad_phase ad\<rparr>
         else ad\<lparr>ad_cq_tail := ad_cq_tail ad + 1\<rparr>, mem))"

definition adm_exec :: "bytes \<Rightarrow> (u32 \<Rightarrow> bytes) \<Rightarrow> adm \<times> pmem \<Rightarrow> adm \<times> pmem" where
  "adm_exec idc idn s =
     (let cmd = mem_load (snd s) (ad_asq (fst s) + 64 * of_nat (ad_head (fst s))) 64
      in adm_complete cmd (adm_command idc idn cmd s))"

definition pending :: "adm \<Rightarrow> u32 \<Rightarrow> nat" where
  "pending ad t = (unat t + ad_size ad - ad_head ad) mod ad_size ad"

definition set_lo :: "u64 \<Rightarrow> u32 \<Rightarrow> u64" where
  "set_lo w v = push_bit 32 (drop_bit 32 w) OR ucast v"

definition set_hi :: "u64 \<Rightarrow> u32 \<Rightarrow> u64" where
  "set_hi w v = take_bit 32 w OR push_bit 32 (ucast v)"

definition adm_write :: "bytes \<Rightarrow> (u32 \<Rightarrow> bytes) \<Rightarrow> u64 \<Rightarrow> u32 \<Rightarrow> adm \<times> pmem \<Rightarrow> adm \<times> pmem" where
  "adm_write idc idn off v = (\<lambda>(ad, mem).
     if off = 0x14 then
       (if v AND 1 \<noteq> 0 \<and> ad_cc ad AND 1 = 0 then ad\<lparr>ad_cc := v, ad_head := 0, ad_cq_tail := 0, ad_phase := 1\<rparr>
        else ad\<lparr>ad_cc := v\<rparr>, mem)
     else if off = 0x24 then (ad\<lparr>ad_aqa := v\<rparr>, mem)
     else if off = 0x28 then (ad\<lparr>ad_asq := set_lo (ad_asq ad) v\<rparr>, mem)
     else if off = 0x2C then (ad\<lparr>ad_asq := set_hi (ad_asq ad) v\<rparr>, mem)
     else if off = 0x30 then (ad\<lparr>ad_acq := set_lo (ad_acq ad) v\<rparr>, mem)
     else if off = 0x34 then (ad\<lparr>ad_acq := set_hi (ad_acq ad) v\<rparr>, mem)
     else if off = 0x1000 \<and> ad_cc ad AND 1 \<noteq> 0 then (adm_exec idc idn ^^ pending ad v) (ad, mem)
     else (ad, mem))"

definition adm_read :: "u64 \<Rightarrow> adm \<Rightarrow> u32" where
  "adm_read off ad = (if off = 0x14 then ad_cc ad else if off = 0x1C then ad_cc ad AND 1 else 0)"

locale nvme_device =
  fixes hw :: "'h machine" and base :: u64 and view :: "'h \<Rightarrow> adm \<times> pmem" and idc :: bytes and idn :: "u32 \<Rightarrow> bytes"
  assumes reg_in: "off \<in> {0x14, 0x1C} \<Longrightarrow> mmio_read32 hw (base + off) h = (v, h') \<Longrightarrow> v = adm_read off (fst (view h)) \<and> view h' = view h"
    and reg_out: "off \<in> {0x14, 0x24, 0x28, 0x2C, 0x30, 0x34, 0x1000, 0x1004} \<Longrightarrow>
      view (mmio_write32 hw (base + off) v h) = adm_write idc idn off v (view h)"
    and mem_in: "dma_load hw a n h = (bs, h') \<Longrightarrow> bs = mem_load (snd (view h)) a n \<and> view h' = view h"
    and mem_out: "view (dma_store hw a bs h) = (fst (view h), mem_store (snd (view h)) a bs)"
    and id_sizes: "length idc = 4096" "length (idn ns) = 4096"

begin

lemma reg_read_dev:
  assumes "off \<in> {0x14, 0x1C}"
  shows "\<exists>h'. reg_read hw (base + off) d = (adm_read off (fst (view (nc_hw d))), d\<lparr>nc_hw := h'\<rparr>) \<and> view h' = view (nc_hw d)"
proof -
  obtain v h' where "mmio_read32 hw (base + off) (nc_hw d) = (v, h')" by fastforce
  then show ?thesis using reg_in [OF assms] by (auto simp: reg_read_def)
qed

lemma reg_write_dev:
  assumes "off \<in> {0x14, 0x24, 0x28, 0x2C, 0x30, 0x34, 0x1000, 0x1004}"
  shows "\<exists>h'. reg_write hw (base + off) v d = d\<lparr>nc_hw := h'\<rparr> \<and> view h' = adm_write idc idn off v (view (nc_hw d))"
  using reg_out [OF assms] by (auto simp: reg_write_def)

lemma shared_load_dev: "\<exists>h'. shared_load hw a n d = (mem_load (snd (view (nc_hw d))) a n, d\<lparr>nc_hw := h'\<rparr>) \<and> view h' = view (nc_hw d)"
proof -
  obtain bs h' where "dma_load hw a n (nc_hw d) = (bs, h')" by fastforce
  then show ?thesis using mem_in by (auto simp: shared_load_def)
qed

lemma shared_store_dev:
  "\<exists>h'. shared_store hw a bs d = d\<lparr>nc_hw := h'\<rparr> \<and> view h' = (fst (view (nc_hw d)), mem_store (snd (view (nc_hw d))) a bs)"
  using mem_out by (auto simp: shared_store_def)

lemma store_zeros_dev:
  "n \<le> 2 ^ 64 \<Longrightarrow> view (store_zeros hw a n h) = (fst (view h), mem_store (snd (view h)) a (replicate n 0))"
proof (induction n)
  case (Suc n)
  then show ?case
    using mem_store_append [of "replicate n 0" "[0]" "snd (view h)" a]
    by (simp add: store_zeros_def mem_out replicate_append_same)
qed (simp add: store_zeros_def)

lemma shared_clear_dev:
  "n \<le> 2 ^ 64 \<Longrightarrow>
    \<exists>h'. shared_clear hw a n d = d\<lparr>nc_hw := h'\<rparr> \<and> view h' = (fst (view (nc_hw d)), mem_store (snd (view (nc_hw d))) a (replicate n 0))"
  using store_zeros_dev by (auto simp: shared_clear_def)

lemma DisableController_dev:
  assumes "nc_regs d = base"
  shows "\<exists>h' c. DisableController hw d = Some (d\<lparr>nc_hw := h'\<rparr>) \<and>
    view h' = ((fst (view (nc_hw d)))\<lparr>ad_cc := c\<rparr>, snd (view (nc_hw d))) \<and> c AND 1 = 0"
proof -
  obtain ad mem where v: "view (nc_hw d) = (ad, mem)" by fastforce
  obtain h1 where h1: "reg_read hw (base + 0x14) d = (ad_cc ad, d\<lparr>nc_hw := h1\<rparr>)" "view h1 = (ad, mem)"
    using reg_read_dev [of "0x14" d] by (auto simp: v adm_read_def)
  have "\<exists>h2 c. (if ad_cc ad AND 1 \<noteq> 0 then reg_write hw (base + 0x14) (ad_cc ad AND NOT 1) (d\<lparr>nc_hw := h1\<rparr>) else d\<lparr>nc_hw := h1\<rparr>) =
      d\<lparr>nc_hw := h2\<rparr> \<and> view h2 = (ad\<lparr>ad_cc := c\<rparr>, mem) \<and> c AND 1 = 0"
  proof (cases "ad_cc ad AND 1 = 0")
    case True
    then show ?thesis using h1(2) by (auto intro!: exI [of _ "ad_cc ad"])
  next
    case False
    have "(ad_cc ad AND NOT 1) AND 1 = 0" by (simp add: and.assoc)
    then show ?thesis
      using False reg_write_dev [of "0x14" "ad_cc ad AND NOT 1" "d\<lparr>nc_hw := h1\<rparr>"] h1(2) by (auto simp: adm_write_def)
  qed
  then obtain h2 c where h2: "(if ad_cc ad AND 1 \<noteq> 0 then reg_write hw (base + 0x14) (ad_cc ad AND NOT 1) (d\<lparr>nc_hw := h1\<rparr>) else d\<lparr>nc_hw := h1\<rparr>) =
      d\<lparr>nc_hw := h2\<rparr>" "view h2 = (ad\<lparr>ad_cc := c\<rparr>, mem)" "c AND 1 = 0" by blast
  obtain h3 where h3: "reg_read hw (base + 0x1C) (d\<lparr>nc_hw := h2\<rparr>) = (0, d\<lparr>nc_hw := h3\<rparr>)" "view h3 = (ad\<lparr>ad_cc := c\<rparr>, mem)"
    using reg_read_dev [of "0x1C" "d\<lparr>nc_hw := h2\<rparr>"] h2 by (auto simp: adm_read_def)
  have "wait_reset hw (d\<lparr>nc_hw := h2\<rparr>) = Some (d\<lparr>nc_hw := h3\<rparr>)"
    using h3(1) assms by (subst wait_reset.simps) simp
  then show ?thesis
    using h1(1) h2 h3(2) assms by (auto simp: DisableController_def v)
qed

lemma EnableController_dev:
  assumes "nc_regs d = base" "view (nc_hw d) = (ad, mem)" "ad_cc ad AND 1 = 0"
  shows "\<exists>h' c. EnableController hw d = Some (d\<lparr>nc_hw := h'\<rparr>) \<and>
    view h' = (ad\<lparr>ad_cc := c, ad_head := 0, ad_cq_tail := 0, ad_phase := 1\<rparr>, mem) \<and> c AND 1 \<noteq> 0"
proof -
  let ?c = "((ad_cc ad OR 1) OR push_bit 20 4) OR push_bit 16 6"
  have "bit ?c 0" by (simp add: bit_or_iff bit_push_bit_iff)
  then have c: "?c AND 1 \<noteq> 0" "?c AND 1 = 1" by (simp_all add: and_one_eq mod_2_eq_odd bit_0)
  obtain h1 where h1: "reg_read hw (base + 0x14) d = (ad_cc ad, d\<lparr>nc_hw := h1\<rparr>)" "view h1 = (ad, mem)"
    using reg_read_dev [of "0x14" d] by (auto simp: assms(2) adm_read_def)
  obtain h2 where h2: "reg_write hw (base + 0x14) ?c (d\<lparr>nc_hw := h1\<rparr>) = d\<lparr>nc_hw := h2\<rparr>"
    "view h2 = (ad\<lparr>ad_cc := ?c, ad_head := 0, ad_cq_tail := 0, ad_phase := 1\<rparr>, mem)"
    using reg_write_dev [of "0x14" ?c "d\<lparr>nc_hw := h1\<rparr>"] c assms(3) h1(2) by (auto simp: adm_write_def)
  obtain h3 where h3: "reg_read hw (base + 0x1C) (d\<lparr>nc_hw := h2\<rparr>) = (1, d\<lparr>nc_hw := h3\<rparr>)" "view h3 = view h2"
    using reg_read_dev [of "0x1C" "d\<lparr>nc_hw := h2\<rparr>"] h2(2) c by (auto simp: adm_read_def)
  have "wait_ready hw 1000000 (d\<lparr>nc_hw := h2\<rparr>) = Some (d\<lparr>nc_hw := h3\<rparr>)"
    using h3(1) assms(1) by (subst wait_ready.simps) simp
  moreover have "EnableController hw d = wait_ready hw 1000000 (d\<lparr>nc_hw := h2\<rparr>)"
    using h1(1) h2(1) assms(1) unfolding EnableController_def Let_def by simp
  ultimately show ?thesis using h2(2) h3(2) c(1) by auto
qed

end

lemma set_halves: "set_hi (set_lo w (ucast v)) (ucast (drop_bit 32 v)) = v"
proof (rule bit_word_eqI)
  fix n assume "n < LENGTH(64)"
  then show "bit (set_hi (set_lo w (ucast v)) (ucast (drop_bit 32 v))) n = bit v n"
    by (cases "n < 32") (auto simp: set_hi_def set_lo_def bit_simps)
qed

text \<open>The driver and the controller agree on the state of the admin queues.\<close>

definition adm_sync :: "adm \<Rightarrow> 'h NvmeCtl \<Rightarrow> bool" where
  "adm_sync ad d \<longleftrightarrow> ad_cc ad AND 1 \<noteq> 0 \<and> ad_size ad = 32 \<and> ad_cq_size ad = 32 \<and>
     ad_asq ad = admin_sq d \<and> ad_acq ad = admin_cq d \<and>
     ad_head ad = unat (sq_tail d) \<and> ad_head ad < 32 \<and> ad_cq_tail ad = unat (cq_head d) \<and> ad_cq_tail ad < 32 \<and>
     ad_phase ad = ucast (adm_phase d) \<and> adm_phase d \<in> {0, 1}"

context nvme_device
begin

lemma reg_write64_dev:
  assumes "nc_regs d = base" "view (nc_hw d) = (ad, mem)"
  shows "\<exists>h'. reg_write64 hw (base + 0x28) p d = d\<lparr>nc_hw := h'\<rparr> \<and> view h' = (ad\<lparr>ad_asq := p\<rparr>, mem)"
    and "\<exists>h'. reg_write64 hw (base + 0x30) p d = d\<lparr>nc_hw := h'\<rparr> \<and> view h' = (ad\<lparr>ad_acq := p\<rparr>, mem)"
proof -
  have a: "base + 0x28 + 4 = base + 0x2C" "base + 0x30 + 4 = base + 0x34" by simp_all
  obtain h1 where "reg_write hw (base + 0x28) (ucast p) d = d\<lparr>nc_hw := h1\<rparr>" "view h1 = (ad\<lparr>ad_asq := set_lo (ad_asq ad) (ucast p)\<rparr>, mem)"
    using reg_write_dev [of "0x28" "ucast p" d] assms by (auto simp: adm_write_def)
  then show "\<exists>h'. reg_write64 hw (base + 0x28) p d = d\<lparr>nc_hw := h'\<rparr> \<and> view h' = (ad\<lparr>ad_asq := p\<rparr>, mem)"
    unfolding reg_write64_def a using reg_write_dev [of "0x2C" "ucast (drop_bit 32 p)" "d\<lparr>nc_hw := h1\<rparr>"]
    by (auto simp: adm_write_def set_halves)
  obtain h1 where "reg_write hw (base + 0x30) (ucast p) d = d\<lparr>nc_hw := h1\<rparr>" "view h1 = (ad\<lparr>ad_acq := set_lo (ad_acq ad) (ucast p)\<rparr>, mem)"
    using reg_write_dev [of "0x30" "ucast p" d] assms by (auto simp: adm_write_def)
  then show "\<exists>h'. reg_write64 hw (base + 0x30) p d = d\<lparr>nc_hw := h'\<rparr> \<and> view h' = (ad\<lparr>ad_acq := p\<rparr>, mem)"
    unfolding reg_write64_def a using reg_write_dev [of "0x34" "ucast (drop_bit 32 p)" "d\<lparr>nc_hw := h1\<rparr>"]
    by (auto simp: adm_write_def set_halves)
qed

lemma Initialize_dev:
  assumes new: "nc_regs d = base" "sq_tail d = 0" "cq_head d = 0" "adm_phase d = 1"
    and mm: "Allocate (nc_mm d) 2048 = (sq, mm1)" "Allocate mm1 512 = (cq, mm2)" "sq \<noteq> 0" "cq \<noteq> 0"
  shows "\<exists>h' ad mem. let d' = d\<lparr>admin_sq := sq, admin_cq := cq, nc_mm := mm2, nc_hw := h'\<rparr>
    in Nvme_Initialize hw d = Some d' \<and> view h' = (ad, mem) \<and> adm_sync ad d'"
proof -
  obtain h0 c where h0: "DisableController hw d = Some (d\<lparr>nc_hw := h0\<rparr>)"
    "view h0 = ((fst (view (nc_hw d)))\<lparr>ad_cc := c\<rparr>, snd (view (nc_hw d)))" "c AND 1 = 0"
    using DisableController_dev [OF new(1)] by blast
  define e where "e = d\<lparr>nc_hw := h0, admin_sq := sq, nc_mm := mm2, admin_cq := cq\<rparr>"
  have e: "nc_hw e = h0" "nc_regs e = base" "sq_tail e = 0" "cq_head e = 0" "adm_phase e = 1" "admin_sq e = sq" "admin_cq e = cq"
    using new by (simp_all add: e_def)
  obtain h1 where h1: "shared_clear hw sq 2048 e = e\<lparr>nc_hw := h1\<rparr>" "fst (view h1) = fst (view h0)"
    using shared_clear_dev [of 2048 sq e] e by auto
  obtain h2 where h2: "shared_clear hw cq 512 (e\<lparr>nc_hw := h1\<rparr>) = e\<lparr>nc_hw := h2\<rparr>" "fst (view h2) = fst (view h0)"
    using shared_clear_dev [of 512 cq "e\<lparr>nc_hw := h1\<rparr>"] h1(2) by auto
  define ad where "ad = fst (view h0)"
  obtain h3 where h3: "reg_write64 hw (base + 0x28) sq (e\<lparr>nc_hw := h2\<rparr>) = e\<lparr>nc_hw := h3\<rparr>" "view h3 = (ad\<lparr>ad_asq := sq\<rparr>, snd (view h2))"
    using reg_write64_dev(1) [of "e\<lparr>nc_hw := h2\<rparr>" ad "snd (view h2)" sq] e h2(2) by (auto simp: ad_def prod_eq_iff)
  obtain h4 where h4: "reg_write64 hw (base + 0x30) cq (e\<lparr>nc_hw := h3\<rparr>) = e\<lparr>nc_hw := h4\<rparr>"
    "view h4 = (ad\<lparr>ad_asq := sq, ad_acq := cq\<rparr>, snd (view h2))"
    using reg_write64_dev(2) [of "e\<lparr>nc_hw := h3\<rparr>" _ _ cq] e h3(2) by auto
  obtain h5 where h5: "reg_write hw (base + 0x24) 0x1F001F (e\<lparr>nc_hw := h4\<rparr>) = e\<lparr>nc_hw := h5\<rparr>"
    "view h5 = (ad\<lparr>ad_asq := sq, ad_acq := cq, ad_aqa := 0x1F001F\<rparr>, snd (view h2))"
    using reg_write_dev [of "0x24" "0x1F001F" "e\<lparr>nc_hw := h4\<rparr>"] h4(2) by (auto simp: adm_write_def)
  have "ad_cc (ad\<lparr>ad_asq := sq, ad_acq := cq, ad_aqa := 0x1F001F\<rparr>) AND 1 = 0" using h0 by (simp add: ad_def)
  then obtain h6 c' where h6: "EnableController hw (e\<lparr>nc_hw := h5\<rparr>) = Some (e\<lparr>nc_hw := h6\<rparr>)" "c' AND 1 \<noteq> 0"
    "view h6 = (ad\<lparr>ad_asq := sq, ad_acq := cq, ad_aqa := 0x1F001F, ad_cc := c', ad_head := 0, ad_cq_tail := 0, ad_phase := 1\<rparr>, snd (view h2))"
    using EnableController_dev [of "e\<lparr>nc_hw := h5\<rparr>", OF _ _] h5(2) e by auto
  have "Nvme_Initialize hw d = Some (e\<lparr>nc_hw := h6\<rparr>)"
    using h0(1) h1(1) h2(1) h3(1) h4(1) h5(1) h6(1) mm new(1)
    unfolding Nvme_Initialize_def nc_alloc_def Let_def nvme_depth_def by (simp add: e flip: e_def)
  moreover have "adm_sync (fst (view h6)) (e\<lparr>nc_hw := h6\<rparr>)"
    using h6 e by (simp add: adm_sync_def ad_size_def ad_cq_size_def)
  moreover have "e\<lparr>nc_hw := h6\<rparr> = d\<lparr>admin_sq := sq, admin_cq := cq, nc_mm := mm2, nc_hw := h6\<rparr>"
    unfolding e_def by (cases d) simp
  ultimately show ?thesis
    unfolding Let_def by (metis (no_types, lifting) prod.collapse)
qed

end

lemma mem_load_within:
  assumes "k + n \<le> length bs" "length bs \<le> 2 ^ 64"
  shows "mem_load (mem_store mem a bs) (a + of_nat k) n = take n (drop k bs)"
proof (rule nth_equalityI)
  show "length (mem_load (mem_store mem a bs) (a + of_nat k) n) = length (take n (drop k bs))" using assms by simp
  fix i assume "i < length (mem_load (mem_store mem a bs) (a + of_nat k) n)"
  then have i: "i < n" by simp
  have "unat (of_nat (k + i) :: u64) = k + i" using i assms by (intro unat_of_nat_u64) simp
  moreover have "a + of_nat k + of_nat i - a = (of_nat (k + i) :: u64)" by simp
  ultimately show "mem_load (mem_store mem a bs) (a + of_nat k) n ! i = take n (drop k bs) ! i"
    using i assms by (simp add: mem_load_def mem_store_def del: of_nat_add)
qed

lemma ring_next:
  assumes "unat (t :: u16) < 32"
  shows "unat (if t + 1 \<ge> nvme_depth then 0 else t + 1) = (unat t + 1) mod 32" "t + 1 \<ge> nvme_depth \<longleftrightarrow> unat t = 31"
proof -
  have t: "unat (t + 1) = unat t + 1" using assms by (subst unat_add_no_wrap) simp_all
  then show wrap: "t + 1 \<ge> nvme_depth \<longleftrightarrow> unat t = 31" using assms by (auto simp: nvme_depth_def word_le_nat_alt)
  show "unat (if t + 1 \<ge> nvme_depth then 0 else t + 1) = (unat t + 1) mod 32"
    unfolding wrap using t assms by auto
qed

text \<open>The driver after one admin command.\<close>

definition adm_advance :: "'h NvmeCtl \<Rightarrow> 'h NvmeCtl" where
  "adm_advance d = d\<lparr>sq_tail := (if sq_tail d + 1 \<ge> nvme_depth then 0 else sq_tail d + 1),
     cq_head := (if cq_head d + 1 \<ge> nvme_depth then 0 else cq_head d + 1),
     adm_phase := (if cq_head d + 1 \<ge> nvme_depth then if adm_phase d = 0 then 1 else 0 else adm_phase d)\<rparr>"

lemma adm_command_frame:
  assumes "adm_command idc idn cmd (ad, mem) = (ad', mem')"
  shows "ad_cc ad' = ad_cc ad" "ad_aqa ad' = ad_aqa ad" "ad_asq ad' = ad_asq ad" "ad_acq ad' = ad_acq ad"
    "ad_head ad' = ad_head ad" "ad_cq_tail ad' = ad_cq_tail ad" "ad_phase ad' = ad_phase ad" "ad_size ad' = ad_size ad" "ad_cq_size ad' = ad_cq_size ad"
  using assms by (auto simp: adm_command_def Let_def ad_size_def ad_cq_size_def split: if_splits)

lemma adm_complete_sync:
  assumes "adm_sync ad d" "adm_command idc idn cmd (ad, mem) = (ad1, mem1)" "adm_complete cmd (ad1, mem1) = (ad2, mem2)"
  shows "adm_sync ad2 (adm_advance d)" "ad_iocq ad2 = ad_iocq ad1" "ad_iosq ad2 = ad_iosq ad1"
    "mem2 = mem_store mem1 (admin_cq d + 16 * of_nat (ad_cq_tail ad)) (completion (ad\<lparr>ad_head := (ad_head ad + 1) mod 32\<rparr>) cmd)"
proof -
  note fr = adm_command_frame [OF assms(2)]
  note sy = assms(1) [unfolded adm_sync_def]
  have sizes: "ad_size (ad1\<lparr>ad_head := x\<rparr>) = 32" "ad_cq_size (ad1\<lparr>ad_head := x\<rparr>) = 32" "ad_cq_size (ad1\<lparr>ad_head := x, ad_cq_tail := y, ad_phase := z\<rparr>) = 32" 
    "ad_size (ad1\<lparr>ad_head := x, ad_cq_tail := y, ad_phase := z\<rparr>) = 32" "ad_size (ad1\<lparr>ad_head := x, ad_cq_tail := y\<rparr>) = 32" "ad_cq_size (ad1\<lparr>ad_head := x, ad_cq_tail := y\<rparr>) = 32" for x y z
    using fr sy by (simp_all add: ad_size_def ad_cq_size_def)
  have r: "ad2 = (if ad_cq_tail ad + 1 = 32 then ad1\<lparr>ad_head := (ad_head ad + 1) mod 32, ad_cq_tail := 0, ad_phase := 1 - ad_phase ad\<rparr>
      else ad1\<lparr>ad_head := (ad_head ad + 1) mod 32, ad_cq_tail := ad_cq_tail ad + 1\<rparr>)"
    and m: "mem2 = mem_store mem1 (ad_acq ad + 16 * of_nat (ad_cq_tail ad)) (completion (ad1\<lparr>ad_head := (ad_head ad + 1) mod 32\<rparr>) cmd)"
    using assms(3) fr sy unfolding adm_complete_def prod.case Let_def sizes by (auto simp: sizes)
  show "ad_iocq ad2 = ad_iocq ad1" "ad_iosq ad2 = ad_iosq ad1" unfolding r by simp_all
  show "mem2 = mem_store mem1 (admin_cq d + 16 * of_nat (ad_cq_tail ad)) (completion (ad\<lparr>ad_head := (ad_head ad + 1) mod 32\<rparr>) cmd)"
    unfolding m using fr sy by (simp add: completion_def)
  have t: "unat (sq_tail d) < 32" "unat (cq_head d) < 32" using sy by simp_all
  show "adm_sync ad2 (adm_advance d)"
    using sy fr ring_next [OF t(1)] ring_next [OF t(2)] unfolding adm_sync_def r adm_advance_def
    by (auto simp: sizes)
qed

lemma adm_advance_frame [simp]:
  "nc_regs (adm_advance d) = nc_regs d" "admin_sq (adm_advance d) = admin_sq d" "admin_cq (adm_advance d) = admin_cq d"
  "sq_doorbell (adm_advance d) = sq_doorbell d" "cq_doorbell (adm_advance d) = cq_doorbell d" "nc_mm (adm_advance d) = nc_mm d"
  "nc_hw (adm_advance d) = nc_hw d" "nc_namespace_id (adm_advance d) = nc_namespace_id d"
  "adm_advance (d\<lparr>nc_hw := h\<rparr>) = (adm_advance d)\<lparr>nc_hw := h\<rparr>"
  by (simp_all add: adm_advance_def)

lemma adm_advance_commute [simp]:
  "adm_advance (d\<lparr>nc_mm := mm\<rparr>) = (adm_advance d)\<lparr>nc_mm := mm\<rparr>"
  "adm_advance (d\<lparr>nc_io_sq := p\<rparr>) = (adm_advance d)\<lparr>nc_io_sq := p\<rparr>"
  "adm_advance (d\<lparr>nc_io_cq := p\<rparr>) = (adm_advance d)\<lparr>nc_io_cq := p\<rparr>"
  "adm_advance (d\<lparr>nc_lba_size := n\<rparr>) = (adm_advance d)\<lparr>nc_lba_size := n\<rparr>"
  by (cases d; simp add: adm_advance_def)+

lemma adm_sync_frame [simp]:
  "adm_sync ad (d\<lparr>nc_mm := mm\<rparr>) = adm_sync ad d" "adm_sync ad (d\<lparr>nc_hw := h\<rparr>) = adm_sync ad d"
  "adm_sync ad (d\<lparr>nc_io_sq := p\<rparr>) = adm_sync ad d" "adm_sync ad (d\<lparr>nc_io_cq := p\<rparr>) = adm_sync ad d"
  "adm_sync ad (d\<lparr>nc_lba_size := n\<rparr>) = adm_sync ad d"
  by (simp_all add: adm_sync_def)

lemma pending_one:
  assumes "adm_sync ad d" "t = (if sq_tail d + 1 \<ge> nvme_depth then 0 else sq_tail d + 1)"
  shows "pending ad (ucast t) = 1"
proof -
  have s: "ad_size ad = 32" "ad_head ad = unat (sq_tail d)" "unat (sq_tail d) < 32" using assms(1) by (auto simp: adm_sync_def)
  have "unat (ucast t :: u32) = (unat (sq_tail d) + 1) mod 32"
    using ring_next(1) [OF s(3)] assms(2) by (simp add: unsigned_ucast_eq)
  then show ?thesis using s by (cases "unat (sq_tail d) = 31") (simp_all add: pending_def)
qed

definition doorbells_ok :: "u64 \<Rightarrow> 'h NvmeCtl \<Rightarrow> bool" where
  "doorbells_ok base d \<longleftrightarrow> nc_regs d = base \<and> sq_doorbell d = base + 0x1000 \<and> cq_doorbell d = base + 0x1004"

context nvme_device
begin

lemma ring_and_wait_dev:
  assumes db: "doorbells_ok base d" and v: "view (nc_hw d) = (ad, mem)" and sy: "adm_sync ad d"
    and cmd: "mem_load mem (admin_sq d + 64 * ucast (sq_tail d)) 64 = cmd"
  shows "\<exists>h'. ring_and_wait hw d = Some ((adm_advance d)\<lparr>nc_hw := h'\<rparr>) \<and>
    view h' = adm_complete cmd (adm_command idc idn cmd (ad, mem))"
proof -
  define t where "t = (if sq_tail d + 1 \<ge> nvme_depth then 0 else sq_tail d + 1)"
  obtain ad1 mem1 where c1: "adm_command idc idn cmd (ad, mem) = (ad1, mem1)" by fastforce
  obtain ad2 mem2 where c2: "adm_complete cmd (ad1, mem1) = (ad2, mem2)" by fastforce
  note fin = adm_complete_sync [OF sy c1 c2]
  have exec: "adm_exec idc idn (ad, mem) = (ad2, mem2)"
    using sy cmd by (simp add: adm_exec_def Let_def c1 c2 adm_sync_def)
  obtain h1 where h1: "reg_write hw (base + 0x1000) (ucast t) (d\<lparr>sq_tail := t\<rparr>) = d\<lparr>sq_tail := t, nc_hw := h1\<rparr>" "view h1 = (ad2, mem2)"
    using reg_write_dev [of "0x1000" "ucast t" "d\<lparr>sq_tail := t\<rparr>"] pending_one [OF sy t_def] sy v
    by (auto simp: adm_write_def exec adm_sync_def)
  let ?d1 = "d\<lparr>sq_tail := t, nc_hw := h1\<rparr>"
  have st: "mem_load mem2 (admin_cq d + 16 * ucast (cq_head d) + 14) 2 = le16_put (ad_phase ad)"
  proof -
    have "length (buf_get 2 2 cmd) = 2" using cmd by (auto simp: buf_get_def)
    then have "length (completion (ad\<lparr>ad_head := x\<rparr>) cmd) = 16" "drop 14 (completion (ad\<lparr>ad_head := x\<rparr>) cmd) = le16_put (ad_phase ad)" for x
      by (simp_all add: completion_def le_simps)
    then show ?thesis
      using mem_load_within [of 14 2 "completion (ad\<lparr>ad_head := (ad_head ad + 1) mod 32\<rparr>) cmd" mem1 "admin_cq d + 16 * of_nat (ad_cq_tail ad)"] sy
      unfolding fin(4) by (simp add: adm_sync_def le_simps)
  qed
  obtain h2 where h2: "shared_load hw (admin_cq d + 16 * ucast (cq_head d) + 14) 2 ?d1 = (le16_put (ad_phase ad), d\<lparr>sq_tail := t, nc_hw := h2\<rparr>)"
    "view h2 = (ad2, mem2)"
    using shared_load_dev [of "admin_cq d + 16 * ucast (cq_head d) + 14" 2 ?d1] st h1(2) by auto
  have ph: "ad_phase ad AND 1 = ucast (adm_phase d)" using sy by (auto simp: adm_sync_def)
  have w: "wait_admin hw ?d1 = Some (d\<lparr>sq_tail := t, nc_hw := h2\<rparr>)"
    using h2(1) ph by (subst wait_admin.simps) (simp add: le_simps)
  let ?d2 = "(adm_advance d)\<lparr>nc_hw := h2\<rparr>"
  obtain h3 where h3: "reg_write hw (base + 0x1004) (ucast (cq_head (adm_advance d))) ?d2 = (adm_advance d)\<lparr>nc_hw := h3\<rparr>" "view h3 = (ad2, mem2)"
    using reg_write_dev [of "0x1004" "ucast (cq_head (adm_advance d))" ?d2] h2(2) by (auto simp: adm_write_def)
  let ?x = "if cq_head d + 1 \<ge> nvme_depth then d\<lparr>sq_tail := t, nc_hw := h2, cq_head := 0, adm_phase := (if adm_phase d = 0 then 1 else 0)\<rparr>
    else d\<lparr>sq_tail := t, nc_hw := h2, cq_head := cq_head d + 1\<rparr>"
  have adv: "?x = ?d2" by (cases d) (simp add: adm_advance_def t_def)
  have "ring_and_wait hw d = Some (reg_write hw (cq_doorbell ?x) (ucast (cq_head ?x)) ?x)"
    using h1(1) w db unfolding ring_and_wait_def Let_def t_def [symmetric]
    by (simp add: doorbells_ok_def split del: if_split cong: if_cong)
  also have "\<dots> = Some ((adm_advance d)\<lparr>nc_hw := h3\<rparr>)"
    unfolding adv using h3(1) db by (simp add: doorbells_ok_def)
  finally have "ring_and_wait hw d = Some ((adm_advance d)\<lparr>nc_hw := h3\<rparr>)" .
  then show ?thesis using h3(2) by (auto simp: c1 c2)
qed

lemma SendAdminCommand_dev:
  assumes db: "doorbells_ok base d" and v: "view (nc_hw d) = (ad, mem)" and sy: "adm_sync ad d" and len: "length cmd = 64"
  defines "mem' \<equiv> mem_store mem (admin_sq d + 64 * ucast (sq_tail d)) cmd"
  shows "\<exists>h'. SendAdminCommand hw cmd d = Some ((adm_advance d)\<lparr>nc_hw := h'\<rparr>) \<and>
    view h' = adm_complete cmd (adm_command idc idn cmd (ad, mem'))"
proof -
  obtain h1 where h1: "shared_store hw (admin_sq d + 64 * ucast (sq_tail d)) cmd d = d\<lparr>nc_hw := h1\<rparr>" "view h1 = (ad, mem')"
    using shared_store_dev [of "admin_sq d + 64 * ucast (sq_tail d)" cmd d] by (auto simp: v mem'_def)
  have "mem_load mem' (admin_sq d + 64 * ucast (sq_tail d)) 64 = cmd" using len by (simp add: mem'_def)
  then show ?thesis
    using ring_and_wait_dev [of "d\<lparr>nc_hw := h1\<rparr>" ad mem' cmd] h1 db sy
    by (simp add: SendAdminCommand_def doorbells_ok_def adm_sync_def)
qed

end

lemma mem_load_part:
  assumes "k + n \<le> m"
  shows "mem_load mem (a + of_nat k) n = take n (drop k (mem_load mem a m))"
  using assms by (intro nth_equalityI) (auto simp: mem_load_def algebra_simps)

lemma mem_load_splice:
  assumes "k + length bs \<le> n" "n < 2 ^ 64"
  shows "mem_load (mem_store mem (a + of_nat k) bs) a n = buf_put k bs (mem_load mem a n)"
proof (rule nth_equalityI)
  show "length (mem_load (mem_store mem (a + of_nat k) bs) a n) = length (buf_put k bs (mem_load mem a n))"
    using assms by (simp add: buf_put_def)
  fix i assume "i < length (mem_load (mem_store mem (a + of_nat k) bs) a n)"
  then have i: "i < n" by simp
  have u: "unat (of_nat i :: u64) = i" "unat (of_nat k :: u64) = k" using i assms by (auto intro!: unat_of_nat_u64)
  show "mem_load (mem_store mem (a + of_nat k) bs) a n ! i = buf_put k bs (mem_load mem a n) ! i"
  proof (cases "k \<le> i")
    case True
    have "a + of_nat i - (a + of_nat k) = (of_nat (i - k) :: u64)" using True by (simp add: of_nat_diff)
    moreover have "unat (of_nat (i - k) :: u64) = i - k" using i assms by (intro unat_of_nat_u64) simp
    ultimately show ?thesis using True i assms by (auto simp: mem_load_def mem_store_def buf_put_def nth_append)
  next
    case False
    have "unat (a + of_nat i - (a + of_nat k) :: u64) = unat (of_nat i - of_nat k :: u64)" by simp
    also have "\<dots> = 2 ^ 64 - (k - i)"
      using False i assms u by (subst unat_sub_if') (auto simp: word_le_nat_alt)
    finally have "\<not> unat (a + of_nat i - (a + of_nat k) :: u64) < length bs" using assms by linarith
    then show ?thesis using False i assms by (simp add: mem_load_def mem_store_def buf_put_def nth_append)
  qed
qed

lemma apart_within:
  assumes "apart a m b n" "i + k \<le> m" "j + l \<le> n" "0 < k" "0 < l"
  shows "apart (a + of_nat i) k (b + of_nat j) l"
proof -
  have lt: "unat a + i < 2 ^ 64" "unat b + j < 2 ^ 64" "i < 2 ^ 64" "j < 2 ^ 64" using assms by (auto simp: apart_def)
  then have "unat (a + of_nat i) = unat a + i" "unat (b + of_nat j) = unat b + j"
    by (simp_all add: unat_add_no_wrap unat_of_nat_u64)
  then show ?thesis using assms by (auto simp: apart_def)
qed

text \<open>An identify command leaves the structure in the page its data pointer names.\<close>

lemma identify_result:
  assumes sy: "adm_sync ad d" and ap: "apart p 4096 (admin_cq d) 512" and len: "length cmd = 64"
    and cmd: "cmd ! 0 = 0x06" "buf_get 24 8 cmd = le64_put p" "buf_get 40 4 cmd = le32_put cns"
    and data: "cns = 1 \<and> data = idc \<or> cns = 0 \<and> data = idn (le32_get (buf_get 4 4 cmd))" "length data = 4096"
    and res: "adm_complete cmd (adm_command idc idn cmd (ad, mem)) = (ad', mem')"
  shows "adm_sync ad' (adm_advance d)" "ad_iocq ad' = ad_iocq ad" "ad_iosq ad' = ad_iosq ad" "mem_load mem' p 4096 = data"
proof -
  have c: "adm_command idc idn cmd (ad, mem) = (ad, mem_store mem p data)"
    using data(1) by (auto simp: adm_command_def Let_def cmd le_simps)
  note fin = adm_complete_sync [OF sy c, of ad' mem'] res [unfolded c]
  show "adm_sync ad' (adm_advance d)" "ad_iocq ad' = ad_iocq ad" "ad_iosq ad' = ad_iosq ad" using fin by simp_all
  have l: "length (completion (ad\<lparr>ad_head := x\<rparr>) cmd) = 16" for x
    using len by (simp add: completion_def le_simps buf_simps)
  have "ad_cq_tail ad < 32" using sy by (simp add: adm_sync_def)
  then have "apart p 4096 (admin_cq d + 16 * of_nat (ad_cq_tail ad)) 16"
    using apart_within [OF ap, of 0 4096 "16 * ad_cq_tail ad" 16] by simp
  then show "mem_load mem' p 4096 = data"
    using fin data(2) by (simp add: mem_load_apart l)
qed

text \<open>The bytes of a command that is filled in place in a cleared entry.\<close>

lemma filled_entry:
  assumes "mem1 = mem_store mem a (replicate 64 0)" "mem2 = mem_store mem1 a [x]" "mem3 = mem_store mem2 (a + of_nat k) bs"
    "mem4 = mem_store mem3 (a + 40) (le32_put cns)" "mem5 = mem_store mem4 (a + 24) (le64_put p)" "1 \<le> k" "k + length bs \<le> 8"
  defines "cmd \<equiv> mem_load mem5 a 64"
  shows "length cmd = 64" "cmd ! 0 = x" "buf_get k (length bs) cmd = bs" "buf_get 24 8 cmd = le64_put p" "buf_get 40 4 cmd = le32_put cns"
proof -
  have "cmd = buf_put 24 (le64_put p) (buf_put 40 (le32_put cns) (buf_put k bs (buf_put 0 [x] (replicate 64 0))))"
    using mem_load_splice [of 24 "le64_put p" 64 mem4 a] mem_load_splice [of 40 "le32_put cns" 64 mem3 a]
      mem_load_splice [of k bs 64 mem2 a] mem_load_splice [of 0 "[x]" 64 mem1 a] assms by (simp add: le_simps)
  then show "length cmd = 64" "cmd ! 0 = x" "buf_get k (length bs) cmd = bs" "buf_get 24 8 cmd = le64_put p" "buf_get 40 4 cmd = le32_put cns"
    using assms(6,7) by (simp_all add: buf_simps le_simps nth_buf_put)
qed

text \<open>The binary logarithm of the sector size that the identify structure of a namespace gives.\<close>

definition ns_shift :: "bytes \<Rightarrow> u8" where
  "ns_shift data = data ! (128 + 4 * unat (data ! 26 AND 0x0F) + 2)"

context nvme_device
begin

lemma fill_dev:
  assumes "view (nc_hw d) = (ad, mem)" "1 \<le> k" "k + length bs \<le> 8"
  shows "\<exists>h' mem'. shared_store hw (a + 24) (le64_put p) (shared_store hw (a + 40) (le32_put cns)
      (shared_store hw (a + of_nat k) bs (shared_store hw a [x] (shared_clear hw a 64 d)))) = d\<lparr>nc_hw := h'\<rparr> \<and>
    view h' = (ad, mem') \<and> length (mem_load mem' a 64) = 64 \<and> mem_load mem' a 64 ! 0 = x \<and>
    buf_get k (length bs) (mem_load mem' a 64) = bs \<and> buf_get 24 8 (mem_load mem' a 64) = le64_put p \<and>
    buf_get 40 4 (mem_load mem' a 64) = le32_put cns"
proof -
  obtain h1 where h1: "shared_clear hw a 64 d = d\<lparr>nc_hw := h1\<rparr>" "view h1 = (ad, mem_store mem a (replicate 64 0))"
    using shared_clear_dev [of 64 a d] assms(1) by auto
  obtain h2 where h2: "shared_store hw a [x] (d\<lparr>nc_hw := h1\<rparr>) = d\<lparr>nc_hw := h2\<rparr>" "view h2 = (ad, mem_store (snd (view h1)) a [x])"
    using shared_store_dev [of a "[x]" "d\<lparr>nc_hw := h1\<rparr>"] h1(2) by auto
  obtain h3 where h3: "shared_store hw (a + of_nat k) bs (d\<lparr>nc_hw := h2\<rparr>) = d\<lparr>nc_hw := h3\<rparr>" "view h3 = (ad, mem_store (snd (view h2)) (a + of_nat k) bs)"
    using shared_store_dev [of "a + of_nat k" bs "d\<lparr>nc_hw := h2\<rparr>"] h2(2) by auto
  obtain h4 where h4: "shared_store hw (a + 40) (le32_put cns) (d\<lparr>nc_hw := h3\<rparr>) = d\<lparr>nc_hw := h4\<rparr>" "view h4 = (ad, mem_store (snd (view h3)) (a + 40) (le32_put cns))"
    using shared_store_dev [of "a + 40" "le32_put cns" "d\<lparr>nc_hw := h3\<rparr>"] h3(2) by auto
  obtain h5 where h5: "shared_store hw (a + 24) (le64_put p) (d\<lparr>nc_hw := h4\<rparr>) = d\<lparr>nc_hw := h5\<rparr>" "view h5 = (ad, mem_store (snd (view h4)) (a + 24) (le64_put p))"
    using shared_store_dev [of "a + 24" "le64_put p" "d\<lparr>nc_hw := h4\<rparr>"] h4(2) by auto
  have "snd (view h1) = mem_store mem a (replicate 64 0)" "snd (view h2) = mem_store (snd (view h1)) a [x]"
    "snd (view h3) = mem_store (snd (view h2)) (a + of_nat k) bs" "snd (view h4) = mem_store (snd (view h3)) (a + 40) (le32_put cns)"
    "snd (view h5) = mem_store (snd (view h4)) (a + 24) (le64_put p)"
    using h1(2) h2(2) h3(2) h4(2) h5(2) by simp_all
  note filled_entry [OF this assms(2,3)]
  then show ?thesis
    using h1(1) h2(1) h3(1) h4(1) h5 by (intro exI [of _ h5] exI [of _ "snd (view h5)"]) simp
qed

lemma ns_shift_load:
  assumes "mem_load mem p 4096 = idn ns"
  shows "mem_load mem (p + 26) 1 = [idn ns ! 26]" 
    "mem_load mem (p + 128 + 4 * ucast (idn ns ! 26 AND 0x0F) + 2) 1 = [ns_shift (idn ns)]"
proof -
  have one: "mem_load mem (p + of_nat k) 1 = [idn ns ! k]" if "k < 4096" for k
    using mem_load_part [of k 1 4096 mem p] assms that id_sizes(2) by (simp add: take_Suc hd_drop_conv_nth)
  show "mem_load mem (p + 26) 1 = [idn ns ! 26]" using one [of 26] by simp
  have "unat (idn ns ! 26 AND 0x0F) \<le> 15" using word_and_le1 [of "idn ns ! 26" "0x0F"] by (simp add: word_le_nat_alt)
  then show "mem_load mem (p + 128 + 4 * ucast (idn ns ! 26 AND 0x0F) + 2) 1 = [ns_shift (idn ns)]"
    using one [of "128 + 4 * unat (idn ns ! 26 AND 0x0F) + 2"] by (simp add: ns_shift_def add.assoc)
qed

text \<open>The structure of the code is four bytes short of the 4096 that the controller stores; both take one frame.\<close>

lemma identify_frame:
  "Allocate mm sizeof_IdentifyControllerData = Allocate mm 4096" "Free mm p sizeof_IdentifyControllerData = Free mm p 4096"
  by (simp_all add: Allocate_def Free_def frames_of_def sizeof_IdentifyControllerData_def kFrameSize_def)

lemma IdentifyController_dev:
  assumes db: "doorbells_ok base d" and v: "view (nc_hw d) = (ad, mem)" and sy: "adm_sync ad d"
    and mm: "mm_inv (nc_mm d)" "Allocate (nc_mm d) 4096 = (p, mm1)" "p \<noteq> 0"
    and ap: "apart p 4096 (admin_cq d) 512"
  defines "d' \<equiv> (adm_advance (adm_advance d))\<lparr>nc_lba_size := push_bit (unat (ns_shift (idn (nc_namespace_id d)))) 1\<rparr>"
  shows "\<exists>h' ad' mem'. IdentifyController hw d = Some ((take 40 (drop 24 idc), take 20 (drop 4 idc)), d'\<lparr>nc_hw := h'\<rparr>) \<and>
    view h' = (ad', mem') \<and> adm_sync ad' d' \<and> ad_iocq ad' = ad_iocq ad \<and> ad_iosq ad' = ad_iosq ad"
proof -
  let ?a = "admin_sq d + 64 * ucast (sq_tail d)"
  have adm: "admissible 4096" by (simp add: admissible_def)
  have free: "Free mm1 p 4096 = nc_mm d" by (rule Free_Allocate [OF mm(1) adm mm(2,3)])
  define e where "e = d\<lparr>nc_mm := mm1\<rparr>"
  have e: "doorbells_ok base e" "view (nc_hw e) = (ad, mem)" "adm_sync ad e" "admin_sq e = admin_sq d" "sq_tail e = sq_tail d" "admin_cq e = admin_cq d"
    "nc_namespace_id e = nc_namespace_id d" "nc_mm e = mm1"
    using db v sy by (simp_all add: e_def doorbells_ok_def adm_sync_def)
  obtain h1 mem1 where h1: "shared_store hw (?a + 24) (le64_put p) (shared_store hw (?a + 40) (le32_put 1)
      (shared_store hw (?a + of_nat 2) (le16_put 1) (shared_store hw ?a [0x06] (shared_clear hw ?a 64 e)))) = e\<lparr>nc_hw := h1\<rparr>"
    "view h1 = (ad, mem1)" and c1: "length (mem_load mem1 ?a 64) = 64" "mem_load mem1 ?a 64 ! 0 = 0x06"
    "buf_get 24 8 (mem_load mem1 ?a 64) = le64_put p" "buf_get 40 4 (mem_load mem1 ?a 64) = le32_put 1"
    using fill_dev [OF e(2), of 2 "le16_put 1" ?a p 1 "0x06"] by (auto simp: le_simps)
  obtain ad2 mem2 where r2: "adm_complete (mem_load mem1 ?a 64) (adm_command idc idn (mem_load mem1 ?a 64) (ad, mem1)) = (ad2, mem2)" by fastforce
  note id1 = identify_result [OF e(3) ap [folded e(6)] c1(1,2,3,4) _ id_sizes(1) r2, simplified]
  obtain h2 where h2: "ring_and_wait hw (e\<lparr>nc_hw := h1\<rparr>) = Some ((adm_advance e)\<lparr>nc_hw := h2\<rparr>)" "view h2 = (ad2, mem2)"
    using ring_and_wait_dev [of "e\<lparr>nc_hw := h1\<rparr>" ad mem1 "mem_load mem1 ?a 64"] e h1(2) r2
    by (auto simp: doorbells_ok_def adm_sync_def)
  define f where "f = adm_advance e"
  obtain h3 where h3: "shared_load hw (p + 24) 40 (f\<lparr>nc_hw := h2\<rparr>) = (take 40 (drop 24 idc), f\<lparr>nc_hw := h3\<rparr>)" "view h3 = (ad2, mem2)"
    using shared_load_dev [of "p + 24" 40 "f\<lparr>nc_hw := h2\<rparr>"] h2(2) id1(4) mem_load_part [of 24 40 4096 mem2 p] by auto
  obtain h4 where h4: "shared_load hw (p + 4) 20 (f\<lparr>nc_hw := h3\<rparr>) = (take 20 (drop 4 idc), f\<lparr>nc_hw := h4\<rparr>)" "view h4 = (ad2, mem2)"
    using shared_load_dev [of "p + 4" 20 "f\<lparr>nc_hw := h3\<rparr>"] h3(2) id1(4) mem_load_part [of 4 20 4096 mem2 p] by auto
  have f: "doorbells_ok base (f\<lparr>nc_hw := h\<rparr>)" "adm_sync ad2 (f\<lparr>nc_hw := h\<rparr>)" "admin_cq f = admin_cq d" "admin_sq f = admin_sq d" "nc_namespace_id f = nc_namespace_id d" "nc_mm f = mm1"
    for h using e id1(1) by (simp_all add: f_def doorbells_ok_def adm_sync_def)
  define g where "g = f\<lparr>nc_hw := h4\<rparr>"
  have g: "f\<lparr>nc_hw := h4, nc_mm := mm1\<rparr> = g" using f(6) unfolding g_def by (cases f) simp
  have gv: "view (nc_hw g) = (ad2, mem2)" by (simp add: g_def h4(2))
  obtain h5 mem5 where h5: "shared_store hw (?a + 24) (le64_put p) (shared_store hw (?a + 40) (le32_put 0)
      (shared_store hw (?a + of_nat 4) (le32_put (nc_namespace_id d)) (shared_store hw ?a [0x06] (shared_clear hw ?a 64 g)))) = g\<lparr>nc_hw := h5\<rparr>"
    "view h5 = (ad2, mem5)" and c5: "length (mem_load mem5 ?a 64) = 64" "mem_load mem5 ?a 64 ! 0 = 0x06"
    "buf_get 4 4 (mem_load mem5 ?a 64) = le32_put (nc_namespace_id d)"
    "buf_get 24 8 (mem_load mem5 ?a 64) = le64_put p" "buf_get 40 4 (mem_load mem5 ?a 64) = le32_put 0"
    using fill_dev [OF gv, of 4 "le32_put (nc_namespace_id d)" ?a p 0 "0x06"] by (auto simp: le_simps)
  let ?cmd = "mem_load mem5 ?a 64"
  obtain h6 where h6: "shared_load hw ?a 64 (g\<lparr>nc_hw := h5\<rparr>) = (?cmd, g\<lparr>nc_hw := h6\<rparr>)" "view h6 = (ad2, mem5)"
    using shared_load_dev [of ?a 64 "g\<lparr>nc_hw := h5\<rparr>"] h5(2) by auto
  have g6: "doorbells_ok base (g\<lparr>nc_hw := h6\<rparr>)" "adm_sync ad2 (g\<lparr>nc_hw := h6\<rparr>)" "admin_cq (g\<lparr>nc_hw := h6\<rparr>) = admin_cq d"
    using f by (simp_all add: g_def)
  obtain h7 where h7: "SendAdminCommand hw ?cmd (g\<lparr>nc_hw := h6\<rparr>) = Some ((adm_advance g)\<lparr>nc_hw := h7\<rparr>)"
    "view h7 = adm_complete ?cmd (adm_command idc idn ?cmd (ad2, mem_store mem5 (admin_sq g + 64 * ucast (sq_tail g)) ?cmd))"
    using SendAdminCommand_dev [OF g6(1) _ g6(2) c5(1), of mem5] h6(2) by auto
  obtain ad8 mem8 where v7: "view h7 = (ad8, mem8)" by fastforce
  have data: "length (idn (le32_get (buf_get 4 4 ?cmd))) = 4096" "le32_get (buf_get 4 4 ?cmd) = nc_namespace_id d" using id_sizes(2) c5(3) by (simp_all add: le_simps)
  note id2 = identify_result [OF g6(2) ap [folded g6(3)] c5(1,2,4,5) _ data(1) h7(2) [symmetric, unfolded v7], simplified, unfolded data(2)]
  define k where "k = adm_advance g"
  obtain h8 where h8: "shared_load hw (p + 26) 1 (k\<lparr>nc_hw := h7\<rparr>) = ([idn (nc_namespace_id d) ! 26], k\<lparr>nc_hw := h8\<rparr>)" "view h8 = (ad8, mem8)"
    using shared_load_dev [of "p + 26" 1 "k\<lparr>nc_hw := h7\<rparr>"] ns_shift_load(1) [OF id2(4)] v7 by auto
  obtain h9 where h9: "shared_load hw (p + 128 + 4 * ucast (idn (nc_namespace_id d) ! 26 AND 0x0F) + 2) 1 (k\<lparr>nc_hw := h8\<rparr>) =
      ([ns_shift (idn (nc_namespace_id d))], k\<lparr>nc_hw := h9\<rparr>)" "view h9 = (ad8, mem8)"
    using shared_load_dev [of "p + 128 + 4 * ucast (idn (nc_namespace_id d) ! 26 AND 0x0F) + 2" 1 "k\<lparr>nc_hw := h8\<rparr>"] ns_shift_load(2) [OF id2(4)] h8(2) by auto
  have ns: "nc_namespace_id (shared_store hw a bs (shared_clear hw b n g)) = nc_namespace_id d" for a bs b n
    using f(5) by (simp add: shared_store_def shared_clear_def g_def)
  have kf: "nc_mm k = mm1" "nc_namespace_id g = nc_namespace_id d" using f by (simp_all add: k_def g_def)
  have "IdentifyController hw d = Some ((take 40 (drop 24 idc), take 20 (drop 4 idc)), k\<lparr>nc_hw := h9,
      nc_lba_size := push_bit (unat (ns_shift (idn (nc_namespace_id d)))) 1, nc_mm := nc_mm d\<rparr>)"
    unfolding IdentifyController_def Let_def nc_alloc_def nc_free_def identify_frame
    using h1(1) h2(1) h3(1) h4(1) h5(1) h6(1) h7(1) h8(1) h9(1) mm(2) free g f(4,5,6) ns
    by (simp add: e_def [symmetric] e f_def [symmetric] k_def [symmetric] kf)
  moreover have "k\<lparr>nc_hw := h9, nc_lba_size := push_bit (unat (ns_shift (idn (nc_namespace_id d)))) 1, nc_mm := nc_mm d\<rparr> = d'\<lparr>nc_hw := h9\<rparr>"
    unfolding k_def g_def f_def e_def d'_def adm_advance_def by (cases d) simp
  moreover have "adm_sync ad8 d'"
    using id2(1) unfolding g_def f_def e_def d'_def by simp
  ultimately show ?thesis using h9(2) id1(2,3) id2(2,3) by auto
qed

end

lemma admin_cmd_fields:
  "length (admin_cmd x p a b) = 64" "admin_cmd x p a b ! 0 = x" "buf_get 24 8 (admin_cmd x p a b) = le64_put p"
  "buf_get 40 4 (admin_cmd x p a b) = le32_put a" "buf_get 44 4 (admin_cmd x p a b) = le32_put b"
  by (simp_all add: admin_cmd_def buf_get_def le_simps)

lemma create_commands:
  "adm_command idc idn (admin_cmd 0x05 cq 0x1F0001 1) (ad, mem) = (ad\<lparr>ad_iocq := Some (1, cq, 32)\<rparr>, mem)"
  "adm_command idc idn (admin_cmd 0x01 sq 0x1F0001 0x10001) (ad, mem) = (ad\<lparr>ad_iosq := Some (1, sq, 32, 1)\<rparr>, mem)"
  by (simp_all add: adm_command_def Let_def admin_cmd_fields le_simps)

context nvme_device
begin

lemma CreateIOQueues_dev:
  assumes db: "doorbells_ok base d" and v: "view (nc_hw d) = (ad, mem)" and sy: "adm_sync ad d"
    and mm: "Allocate (nc_mm d) 2048 = (sq, mm1)" "Allocate mm1 512 = (cq, mm2)"
  defines "d' \<equiv> (adm_advance (adm_advance d))\<lparr>nc_io_sq := sq, nc_mm := mm2, nc_io_cq := cq\<rparr>"
  shows "\<exists>h' ad' mem'. CreateIOQueues hw d = Some (d'\<lparr>nc_hw := h'\<rparr>) \<and> view h' = (ad', mem') \<and> adm_sync ad' d' \<and>
    ad_iocq ad' = Some (1, cq, 32) \<and> ad_iosq ad' = Some (1, sq, 32, 1)"
proof -
  define e where "e = d\<lparr>nc_io_sq := sq, nc_mm := mm2, nc_io_cq := cq\<rparr>"
  have e: "doorbells_ok base (e\<lparr>nc_hw := h\<rparr>)" "adm_sync ad (e\<lparr>nc_hw := h\<rparr>)" "nc_hw e = nc_hw d" for h
    using db sy by (simp_all add: e_def doorbells_ok_def)
  obtain h1 where h1: "shared_clear hw sq 2048 e = e\<lparr>nc_hw := h1\<rparr>" "fst (view h1) = ad"
    using shared_clear_dev [of 2048 sq e] e(3) v by auto
  obtain h2 where h2: "shared_clear hw cq 512 (e\<lparr>nc_hw := h1\<rparr>) = e\<lparr>nc_hw := h2\<rparr>" "fst (view h2) = ad"
    using shared_clear_dev [of 512 cq "e\<lparr>nc_hw := h1\<rparr>"] h1(2) by auto
  let ?c1 = "admin_cmd 0x05 cq 0x1F0001 1" and ?c2 = "admin_cmd 0x01 sq 0x1F0001 0x10001"
  obtain mem1 where v2: "view h2 = (ad, mem1)" using h2(2) by (cases "view h2") auto
  obtain h3 mem2 where h3: "SendAdminCommand hw ?c1 (e\<lparr>nc_hw := h2\<rparr>) = Some ((adm_advance e)\<lparr>nc_hw := h3\<rparr>)"
    "view h3 = adm_complete ?c1 (ad\<lparr>ad_iocq := Some (1, cq, 32)\<rparr>, mem2)"
    using SendAdminCommand_dev [OF e(1) _ e(2) admin_cmd_fields(1) [of "0x05" cq "0x1F0001" 1], of h2 mem1] v2 by (auto simp: create_commands)
  obtain ad3 mem3 where v3: "view h3 = (ad3, mem3)" by fastforce
  note s3 = adm_complete_sync [OF e(2) create_commands(1) h3(2) [symmetric, unfolded v3]]
  have f: "doorbells_ok base ((adm_advance e)\<lparr>nc_hw := h\<rparr>)" "adm_sync ad3 ((adm_advance e)\<lparr>nc_hw := h\<rparr>)" for h
    using e(1) [of h2] s3(1) by (simp_all add: doorbells_ok_def)
  obtain h4 mem4 where h4: "SendAdminCommand hw ?c2 ((adm_advance e)\<lparr>nc_hw := h3\<rparr>) = Some ((adm_advance (adm_advance e))\<lparr>nc_hw := h4\<rparr>)"
    "view h4 = adm_complete ?c2 (ad3\<lparr>ad_iosq := Some (1, sq, 32, 1)\<rparr>, mem4)"
    using SendAdminCommand_dev [OF f(1) _ f(2) admin_cmd_fields(1) [of "0x01" sq "0x1F0001" "0x10001"], of h3 mem3] v3 by (auto simp: create_commands)
  obtain ad5 mem5 where v5: "view h4 = (ad5, mem5)" by fastforce
  note s5 = adm_complete_sync [OF f(2) create_commands(2) h4(2) [symmetric, unfolded v5]]
  have "CreateIOQueues hw d = Some ((adm_advance (adm_advance e))\<lparr>nc_hw := h4\<rparr>)"
    unfolding CreateIOQueues_def Let_def nc_alloc_def nvme_depth_def
    using mm h1(1) h2(1) h3(1) h4(1) by (simp add: e_def [symmetric])
  moreover have "(adm_advance (adm_advance e))\<lparr>nc_hw := h4\<rparr> = d'\<lparr>nc_hw := h4\<rparr>"
    unfolding e_def d'_def by simp
  moreover have "adm_sync ad5 d'" using s5(1) by (simp add: e_def d'_def)
  moreover have "ad_iocq ad5 = Some (1, cq, 32)" using s5(2) s3(2) by simp
  moreover have "ad_iosq ad5 = Some (1, sq, 32, 1)" using s5(3) by simp
  ultimately show ?thesis using v5 by metis
qed

end

text \<open>Blocks of the allocator are apart.\<close>

lemma fresh_apart:
  assumes "mm_inv mm" "Allocate mm sz = (p, mm')" "p \<noteq> 0" "Allocate mm' sz' = (q, mm'')" "q \<noteq> 0"
    "admissible sz" "admissible sz'" "frames_of sz = 1" "frames_of sz' = 1" "unat sz \<le> 4096" "unat sz' \<le> 4096"
  shows "apart q (unat sz') p (unat sz) \<and> mm_inv mm' \<and> mm_inv mm''"
proof -
  obtain i where i: "p = of_nat (i * kFrameSize)" "0 < i" "i < total_frames mm" "used_frames mm' = used_frames mm \<union> {i..<i + 1}" "total_frames mm' = total_frames mm" "mm_inv mm'"
    using Allocate_result [OF assms(1,6)] assms(2,3,8) by (auto simp: alloc_result_def)
  obtain j where j: "q = of_nat (j * kFrameSize)" "0 < j" "j < total_frames mm" "run_free mm' 1 j" "mm_inv mm''"
    using Allocate_result [OF i(6) assms(7)] assms(4,5,9) i(5) by (auto simp: alloc_result_def)
  have ne: "i \<noteq> j" using i(4) j(4) by (auto simp: run_free_def)
  have lt: "i < 2 ^ 52" "j < 2 ^ 52" using i(3) j(3) total_frames_less [of mm] by simp_all
  then have "unat p = i * 4096" "unat q = j * 4096"
    using i(1) j(1) frame_address [of i] frame_address [of j] by (simp_all add: kFrameSize_def)
  then show ?thesis
    using ne lt assms(10,11) i(6) j(5) by (cases "i < j") (auto simp: apart_def)
qed

lemma one_frame: "admissible 4096" "admissible 2048" "admissible 512" "frames_of 4096 = 1" "frames_of 2048 = 1" "frames_of 512 = 1"
  by (simp_all add: admissible_def frames_of_def kFrameSize_def)

text \<open>
  C5: Bringing up a conforming controller. From any state of the controller, \<open>Initialize\<close>,
  \<open>IdentifyController\<close> and \<open>CreateIOQueues\<close> of a new driver return. Afterwards the driver and the
  controller agree on tails, heads and phase of the admin queues, the controller has one I/O completion
  queue and one submission queue of 32 entries with identifier 1 at the addresses the driver uses,
  the sector size is the power of two that the active format of namespace 1 names, the model and the
  serial number printed are those of the controller, and of the allocations exactly the four queues are left.
\<close>

theorem nvme_bring_up:
  assumes dev: "nvme_device hw base view idc idn" and mm: "mm_inv mm"
    and alloc: "Allocate mm 2048 = (asq, mm1)" "Allocate mm1 512 = (acq, mm2)" "Allocate mm2 4096 = (p, mm3)"
      "Allocate mm2 2048 = (isq, mm4)" "Allocate mm4 512 = (icq, mm5)"
    and found: "asq \<noteq> 0" "acq \<noteq> 0" "p \<noteq> 0"
  shows "\<exists>d ad mem. bring_up hw (NvmeCtl_new base mm h) = Some ((take 40 (drop 24 idc), take 20 (drop 4 idc)), d) \<and>
    view (nc_hw d) = (ad, mem) \<and> adm_sync ad d \<and> admin_sq d = asq \<and> admin_cq d = acq \<and> sq_tail d = 4 \<and>
    ad_iocq ad = Some (1, nc_io_cq d, 32) \<and> ad_iosq ad = Some (1, nc_io_sq d, 32, 1) \<and>
    nc_io_sq d = isq \<and> nc_io_cq d = icq \<and> nc_lba_size d = push_bit (unat (ns_shift (idn 1))) 1 \<and> nc_mm d = mm5"
proof -
  let ?d = "NvmeCtl_new base mm h"
  obtain h1 ad1 mem1 where i: "Nvme_Initialize hw ?d = Some (?d\<lparr>admin_sq := asq, admin_cq := acq, nc_mm := mm2, nc_hw := h1\<rparr>)"
    "view h1 = (ad1, mem1)" "adm_sync ad1 (?d\<lparr>admin_sq := asq, admin_cq := acq, nc_mm := mm2, nc_hw := h1\<rparr>)"
    using nvme_device.Initialize_dev [OF dev, of ?d asq mm1 acq mm2] alloc found by (auto simp: NvmeCtl_new_def Let_def)
  define e where "e = ?d\<lparr>admin_sq := asq, admin_cq := acq, nc_mm := mm2, nc_hw := h1\<rparr>"
  have e: "doorbells_ok base e" "view (nc_hw e) = (ad1, mem1)" "adm_sync ad1 e" "nc_mm e = mm2" "admin_cq e = acq" "nc_namespace_id e = 1"
    using i by (simp_all add: e_def doorbells_ok_def NvmeCtl_new_def)
  have m: "mm_inv mm1" "mm_inv mm2" using fresh_apart [OF mm alloc(1) found(1) alloc(2) found(2)] one_frame by simp_all
  have ap: "apart p 4096 acq 512"
    using fresh_apart [OF m(1) alloc(2) found(2) alloc(3) found(3)] one_frame by simp
  define f where "f = (adm_advance (adm_advance e))\<lparr>nc_lba_size := push_bit (unat (ns_shift (idn 1))) 1\<rparr>"
  obtain h2 ad2 mem2 where j: "IdentifyController hw e = Some ((take 40 (drop 24 idc), take 20 (drop 4 idc)), f\<lparr>nc_hw := h2\<rparr>)"
    "view h2 = (ad2, mem2)" "adm_sync ad2 f"
    using nvme_device.IdentifyController_dev [OF dev e(1,2,3), of p mm3] m(2) alloc(3) found(3) ap e(4,5,6) by (auto simp: f_def)
  have f: "doorbells_ok base (f\<lparr>nc_hw := h2\<rparr>)" "nc_mm f = mm2" using e by (simp_all add: f_def doorbells_ok_def)
  obtain h3 ad3 mem3 where k: "CreateIOQueues hw (f\<lparr>nc_hw := h2\<rparr>) =
      Some ((adm_advance (adm_advance f))\<lparr>nc_io_sq := isq, nc_mm := mm5, nc_io_cq := icq, nc_hw := h3\<rparr>)"
    "view h3 = (ad3, mem3)" "adm_sync ad3 (adm_advance (adm_advance f))" "ad_iocq ad3 = Some (1, icq, 32)" "ad_iosq ad3 = Some (1, isq, 32, 1)"
    using nvme_device.CreateIOQueues_dev [OF dev f(1), of ad2 mem2 isq mm4 icq mm5] alloc(4,5) j(2,3) f(2) by auto
  have "sq_tail (adm_advance (adm_advance f)) = 4" "admin_sq f = asq" "admin_cq f = acq"
    by (simp_all add: f_def e_def NvmeCtl_new_def adm_advance_def nvme_depth_def word_le_nat_alt)
  moreover have "nc_lba_size (adm_advance (adm_advance f)) = push_bit (unat (ns_shift (idn 1))) 1" by (simp add: adm_advance_def f_def)
  moreover have "bring_up hw ?d = Some ((take 40 (drop 24 idc), take 20 (drop 4 idc)),
      (adm_advance (adm_advance f))\<lparr>nc_io_sq := isq, nc_mm := mm5, nc_io_cq := icq, nc_hw := h3\<rparr>)"
    using i(1) j(1) k(1) by (simp add: bring_up_def e_def [symmetric])
  ultimately show ?thesis using k by (auto simp: adm_sync_def)
qed

text \<open>A machine with a conforming controller at address 0xFE000000 and nothing else.\<close>

definition nvme_machine :: "bytes \<Rightarrow> bytes \<Rightarrow> (adm \<times> pmem) machine" where
  "nvme_machine idc idn = \<lparr>port_in8 = (\<lambda>_ h. (0, h)), port_out8 = (\<lambda>_ _ h. h), port_in32 = (\<lambda>_ h. (0, h)), port_out32 = (\<lambda>_ _ h. h),
     mmio_read32 = (\<lambda>a h. (adm_read (a - 0xFE000000) (fst h), h)),
     mmio_write32 = (\<lambda>a v h. adm_write idc (\<lambda>_. idn) (a - 0xFE000000) v h),
     dma_load = (\<lambda>a n h. (mem_load (snd h) a n, h)), dma_store = (\<lambda>a bs h. (fst h, mem_store (snd h) a bs))\<rparr>"

definition sample_idc :: bytes where
  "sample_idc = replicate 4096 0x20"

definition sample_idn :: bytes where
  "sample_idn = (replicate 4096 0)[130 := 9]"

interpretation sample_nvme: nvme_device "nvme_machine sample_idc sample_idn" "0xFE000000" "\<lambda>h. h" sample_idc "\<lambda>_. sample_idn"
  by unfold_locales (auto simp: nvme_machine_def sample_idc_def sample_idn_def)

definition sample_adm :: adm where
  "sample_adm = \<lparr>ad_cc = 1, ad_aqa = 0, ad_asq = 0, ad_acq = 0, ad_head = 0, ad_cq_tail = 0, ad_phase = 0, ad_iocq = None, ad_iosq = None\<rparr>"

lemma sample_allocs:
  "Allocate sample_mm 2048 = (0x4000, sample_mm\<lparr>mm_bitmap := \<lparr>bm_buffer = [0x1F, 0xF0], bm_size = 2\<rparr>\<rparr>)"
  "Allocate (sample_mm\<lparr>mm_bitmap := \<lparr>bm_buffer = [0x1F, 0xF0], bm_size = 2\<rparr>\<rparr>) 512 = (0x5000, sample_mm\<lparr>mm_bitmap := \<lparr>bm_buffer = [0x3F, 0xF0], bm_size = 2\<rparr>\<rparr>)"
  "Allocate (sample_mm\<lparr>mm_bitmap := \<lparr>bm_buffer = [0x3F, 0xF0], bm_size = 2\<rparr>\<rparr>) 4096 = (0x6000, sample_mm\<lparr>mm_bitmap := \<lparr>bm_buffer = [0x7F, 0xF0], bm_size = 2\<rparr>\<rparr>)"
  "Allocate (sample_mm\<lparr>mm_bitmap := \<lparr>bm_buffer = [0x3F, 0xF0], bm_size = 2\<rparr>\<rparr>) 2048 = (0x6000, sample_mm\<lparr>mm_bitmap := \<lparr>bm_buffer = [0x7F, 0xF0], bm_size = 2\<rparr>\<rparr>)"
  "Allocate (sample_mm\<lparr>mm_bitmap := \<lparr>bm_buffer = [0x7F, 0xF0], bm_size = 2\<rparr>\<rparr>) 512 = (0x7000, sample_mm\<lparr>mm_bitmap := \<lparr>bm_buffer = [0xFF, 0xF0], bm_size = 2\<rparr>\<rparr>)"
  by (simp_all add: Allocate_def AllocateFrame_def frames_of_def sample_mm_def bitmap_eval)

theorem nvme_bring_up_witness:
  "\<exists>d ad mem. bring_up (nvme_machine sample_idc sample_idn) (NvmeCtl_new 0xFE000000 sample_mm (sample_adm, \<lambda>_. 0)) =
     Some ((replicate 40 0x20, replicate 20 0x20), d) \<and> nc_hw d = (ad, mem) \<and> ad_iosq ad = Some (1, 0x6000, 32, 1) \<and> nc_lba_size d = 512"
proof -
  have ds: "ns_shift sample_idn = 9" by (simp add: ns_shift_def sample_idn_def)
  have names: "take 40 (drop 24 sample_idc) = replicate 40 0x20" "take 20 (drop 4 sample_idc) = replicate 20 0x20"
    by (simp_all add: sample_idc_def)
  show ?thesis
    using nvme_bring_up [OF sample_nvme.nvme_device_axioms sample_mm_inv sample_allocs, of "(sample_adm, \<lambda>_. 0)"]
    unfolding names ds by auto
qed

theorem EnableController_returns_witness:
  "\<exists>d. EnableController (nvme_machine sample_idc sample_idn) (NvmeCtl_new 0xFE000000 sample_mm (sample_adm, \<lambda>_. 0)) = Some d"
proof -
  let ?hw = "nvme_machine sample_idc sample_idn" and ?d = "NvmeCtl_new 0xFE000000 sample_mm (sample_adm, \<lambda>_. 0)"
  have r: "mmio_read32 ?hw (nc_regs ?d + 0x14) (nc_hw ?d) = (1, (sample_adm, \<lambda>_. 0))"
    by (simp add: nvme_machine_def NvmeCtl_new_def adm_read_def sample_adm_def)
  have "ready_at ?hw (nc_regs ?d + 0x1C) (mmio_write32 ?hw (nc_regs ?d + 0x14) (1 OR 1 OR push_bit 20 4 OR push_bit 16 6) (sample_adm, \<lambda>_. 0)) 0"
    by (simp add: ready_at_def nth_read_def nvme_machine_def NvmeCtl_new_def adm_read_def adm_write_def sample_adm_def)
  then show ?thesis
    using EnableController_returns [OF r refl] by (metis zero_less_numeral)
qed

end
