(* ===== verification/Boot.thy ===== *)
theory Boot
  imports Idle UsbInit NvmeInit FatNvme DiskFormat
begin

text \<open>
  The start of the kernel: the search for devices (\<open>SetupPCI\<close> of kernel/pci/pci.cpp), the core
  (kernel/sys/init/init.cpp), and \<open>KernelMain\<close> (kernel/main.cpp) up to the state in which the
  first interrupt of the timer is awaited; and the test tasks (kernel/task/test_task.cpp). A result
  \<open>None\<close> is a start that does not get there: a wait without end, a stop of the processor, a driver
  constructed at the null pointer, or a log entry without a logger. Log lines are left out.
\<close>

section \<open>What the linker and the machine provide\<close>

text \<open>
  Addresses of tables, handlers and entry points; what memory holds before it is first written;
  the reaction \<open>pf_ctl\<close> of the NVMe controller to its I/O doorbell with its state after the queues
  are created, the memory and the transfer buffer the driver then works on (theory \<open>NvmeIO\<close>); and the
  mass storage driver as a block device.
\<close>

record ('c, 'e, 'h) Platform =
  gdt_address :: u64
  tss_address :: u64
  idt_address :: u64
  handler_address :: "handler \<Rightarrow> u64"
  syscall_entry :: u64
  idle_entry :: u64
  sym_kernel_start :: u64
  sym_kernel_end :: u64
  desc_address :: u64
  fresh_memory :: "nat \<Rightarrow> bytes"
  fresh_frame :: frame
  pf_ctl :: "'c nvme_ctl"
  pf_state :: "'h NvmeCtl \<Rightarrow> 'c"
  pf_mem :: pmem
  pf_buf :: u64
  pf_stick :: "MassStorage \<Rightarrow> 'e BlockDevice \<times> 'e"

section \<open>Devices on the PCI bus\<close>

text \<open>\<open>ph_xhci\<close> is whether \<open>g_xhci\<close> is set, \<open>ph_nvme\<close> is \<open>g_nvme\<close>. Of several controllers of a kind the last one stays.\<close>

record 'h PciHost =
  ph_usb :: "'h UsbHost"
  ph_xhci :: bool
  ph_nvme :: "'h NvmeCtl option"

text \<open>Sizes of the driver objects under the x86-64 ABI.\<close>

definition sizeof_Controller :: u64 where "sizeof_Controller = 106600"
definition sizeof_NvmeDriver :: u64 where "sizeof_NvmeDriver = 112"
definition sizeof_FAT32Driver :: u64 where "sizeof_FAT32Driver = 56"

definition ph_conf :: "'h machine \<Rightarrow> Device \<Rightarrow> u8 \<Rightarrow> 'h PciHost \<Rightarrow> u32 \<times> 'h PciHost" where
  "ph_conf hw d r ph = (let (v, h) = ReadConfReg hw d r (x_hw (uh_x (ph_usb ph))) in (v, ph\<lparr>ph_usb := on_x (\<lambda>x. x\<lparr>x_hw := h\<rparr>) (ph_usb ph)\<rparr>))"

definition found_xhci :: "'h machine \<Rightarrow> u64 \<Rightarrow> bytes \<Rightarrow> Device \<Rightarrow> 'h PciHost \<Rightarrow> 'h PciHost option" where
  "found_xhci hw desc junk d ph =
     (let (p, u) = uh_new sizeof_Controller (ph_usb ph)
      in if p = 0 then None
         else do {
           u \<leftarrow> Xhci_Initialize hw desc junk (on_x (Controller_new d) u);
           Some (ph\<lparr>ph_usb := u, ph_xhci := True\<rparr>) })"

definition found_nvme :: "'h machine \<Rightarrow> Device \<Rightarrow> 'h PciHost \<Rightarrow> 'h PciHost option" where
  "found_nvme hw d ph =
     (let (bar0, h) = ReadBar0 hw d (x_hw (uh_x (ph_usb ph)));
          u = on_x (\<lambda>x. x\<lparr>x_hw := h\<rparr>) (ph_usb ph);
          (p, u) = uh_new sizeof_NvmeDriver u
      in if p = 0 then None
         else do {
           (_, c) \<leftarrow> bring_up hw (NvmeCtl_new bar0 (x_mm (uh_x u)) (x_hw (uh_x u)));
           Some (ph\<lparr>ph_usb := on_x (\<lambda>x. x\<lparr>x_mm := nc_mm c, x_hw := nc_hw c\<rparr>) u, ph_nvme := Some c\<rparr>) })"

definition pci_function :: "'h machine \<Rightarrow> u64 \<Rightarrow> bytes \<Rightarrow> Device \<Rightarrow> 'h PciHost \<Rightarrow> 'h PciHost option" where
  "pci_function hw desc junk d ph =
     (let (reg0, ph) = ph_conf hw d 0x00 ph; vendor = reg0 AND 0xFFFF
      in if vendor = 0xFFFF then Some ph
         else
           let (reg8, ph) = ph_conf hw d 0x08 ph;
               base = drop_bit 24 reg8 AND 0xFF; sub = drop_bit 16 reg8 AND 0xFF; prog = drop_bit 8 reg8 AND 0xFF
           in do {
             ph \<leftarrow> (if base = 0x0C \<and> sub = 0x03 \<and> prog = 0x30 then found_xhci hw desc junk d ph else Some ph);
             if base = 0x01 \<and> sub = 0x08 then found_nvme hw d ph else Some ph })"

fun pci_loop :: "'h machine \<Rightarrow> u64 \<Rightarrow> bytes \<Rightarrow> (u8 \<times> u8 \<times> u8) list \<Rightarrow> 'h PciHost \<Rightarrow> 'h PciHost option" where
  "pci_loop hw desc junk [] ph = Some ph"
| "pci_loop hw desc junk ((b, d, f) # rest) ph =
     Option.bind (pci_function hw desc junk (pci_dev b d f) ph) (pci_loop hw desc junk rest)"

definition SetupPCI :: "'h machine \<Rightarrow> u64 \<Rightarrow> bytes \<Rightarrow> 'h PciHost \<Rightarrow> 'h PciHost option" where
  "SetupPCI hw desc junk ph = pci_loop hw desc junk all_functions ph"

section \<open>The core\<close>

definition InitializeCore :: "'h machine \<Rightarrow> ('c, 'e, 'h) Platform \<Rightarrow> MemoryDescriptor list \<Rightarrow> ('d, 'h) OS \<Rightarrow> ('d, 'h) OS option" where
  "InitializeCore hw pf memmap os = do {
     let cpu = SetupSegments (gdt_address pf) (tss_address pf) (os_cpu os);
     let cpu = SetupInterrupts (handler_address pf) (idt_address pf) cpu;
     let s = on_hw (DisablePIC hw) (os_sys os);
     let cpu = EnableSSE cpu;
     mm \<leftarrow> Initialize_mm (mm_range_end (kmem (y_k s))) (sym_kernel_start pf) (sym_kernel_end pf) memmap;
     let (kernel_stack, mm) = Allocate mm (1024 * 16);
     let kernel_stack_end = kernel_stack + 1024 * 16;
     let cpu = SetKernelStack kernel_stack_end cpu;
     let s = s\<lparr>y_k := set_mem (y_k s) mm\<rparr>;
     pg \<leftarrow> Initialize_pages (k_pg (y_k s));
     let s = s\<lparr>y_k := (y_k s)\<lparr>k_pg := pg\<rparr>\<rparr>;
     let s = InitializeSyscall (syscall_entry pf) s;
     Some (os\<lparr>os_sys := s, os_cpu := cpu\<rparr>) }"

section \<open>The disk\<close>

text \<open>The NVMe driver after its start, as the I/O path sees it: empty queues, and the numbers the start has found.\<close>

definition io_driver :: "('c, 'e, 'h) Platform \<Rightarrow> 'h NvmeCtl \<Rightarrow> MemoryManager \<Rightarrow> 'c NvmeDriver" where
  "io_driver pf d mm =
     \<lparr>nv_ctrl = pf_state pf d, io_sq = (\<lambda>_. sqe_zero),
      io_cq = (\<lambda>_. \<lparr>cqe_dw0 = 0, cqe_dw1 = 0, cqe_sq_head = 0, cqe_sq_id = 0, cqe_command_id = 0, cqe_status = 0\<rparr>),
      io_sq_tail = nc_io_sq_tail d, io_cq_head = nc_io_cq_head d, io_phase = nc_io_phase d,
      io_sq_doorbell = 0, io_cq_doorbell = 0, namespace_id = nc_namespace_id d, lba_size = nc_lba_size d,
      nv_mem = pf_mem pf, nv_mm = mm, nv_buf = pf_buf pf\<rparr>"

text \<open>
  The file system part of \<open>KernelMain\<close> for a controller that was found: the partition is formatted
  unless its first sector has the signature, then mounted, and the installer runs.
\<close>

definition setup_disk :: "('c, 'e, 'h) Platform \<Rightarrow> 'h NvmeCtl \<Rightarrow> MassStorage option \<Rightarrow> kheap \<Rightarrow>
    (kheap \<times> 'c NvmeDriver option FAT32Driver) option" where
  "setup_disk pf c stick h = do {
     let ops = Nvme_ops (pf_ctl pf);
     let (check_buf, mm) = Allocate (kmm h) 512;
     let g_nvme = Some (io_driver pf c mm);
     let (_, buf, g_nvme) = bd_Read ops g_nvme 2048 (fresh_memory pf 512) 1;
     let already_installed = (le16_get (buf_get 510 2 buf) = 0xAA55);
     let disk_size = (1048576 :: u64);
     let g_nvme = (if already_installed then g_nvme
                   else FormatPartitionFAT32 ops (FormatDiskGPT ops g_nvme disk_size) (disk_size - 2048));
     let h = h\<lparr>kmm := Free mm check_buf 512\<rparr>;
     let (p, h) = operator_new h sizeof_FAT32Driver;
     if p = 0 then None
     else do {
       let disk_fs = Fat_Initialize (FAT32Driver_new ops g_nvme 2048 (fresh_memory pf));
       (mm, disk_fs, _) \<leftarrow> RunInstaller (kmm h) disk_fs (map_option (pf_stick pf) stick) (fresh_memory pf) already_installed;
       if dev disk_fs = None then None else Some (h\<lparr>kmm := mm\<rparr>, disk_fs) } }"

section \<open>KernelMain\<close>

definition log_info :: "string \<Rightarrow> ('d, 'u) Sys \<Rightarrow> ('d, 'u) Sys option" where
  "log_info msg s = map_option (\<lambda>lg. s\<lparr>y_logger := Some (Info lg TKernel (str msg))\<rparr>) (y_logger s)"

definition kDesktopBG :: u32 where
  "kDesktopBG = 0xFF181818"

text \<open>Steps 1 to 4: screen, core, standard I/O, devices.\<close>

definition boot_devices :: "'h machine \<Rightarrow> ('c, 'e, 'h) Platform \<Rightarrow> FrameBufferConfig \<Rightarrow> MemoryDescriptor list \<Rightarrow>
    ('d, 'h) OS \<Rightarrow> (('d, 'h) OS \<times> 'h PciHost) option" where
  "boot_devices hw pf config memmap os = do {
     let fb = FillRectangle config 0 0 (uint (HorizontalResolution config)) (uint (VerticalResolution config)) kDesktopBG (fresh_frame pf);
     let os = on_sys (\<lambda>s. s\<lparr>y_con := Some (Console_new config 0xFFFFFFFF kDesktopBG (replicate 32 0), fb)\<rparr>) os;
     os \<leftarrow> InitializeCore hw pf memmap os;
     let s = InitializeIO (fresh_memory pf kKeyboardBufferSize) (\<lambda>_. fresh_memory pf 128) (os_sys os);
     let u = \<lparr>uh_x = (snd (y_usb s))\<lparr>x_mm := kmem (y_k s)\<rparr>, uh_kb = None, uh_ms = None, uh_cells = y_cells s\<rparr>;
     ph \<leftarrow> SetupPCI hw (desc_address pf) (fresh_memory pf 8) \<lparr>ph_usb = u, ph_xhci = False, ph_nvme = None\<rparr>;
     let u = ph_usb ph;
     let s = s\<lparr>y_k := set_mem (y_k s) (x_mm (uh_x u)), y_cells := uh_cells u, y_usb := (map_option snd (uh_kb u), uh_x u)\<rparr>;
     Some (os\<lparr>os_sys := s, g_xhci := ph_xhci ph\<rparr>, ph) }"

text \<open>Step 5, the file system.\<close>

definition boot_disk :: "('c, 'e, 'h) Platform \<Rightarrow> 'h PciHost \<Rightarrow> ('c NvmeDriver option, 'h) OS \<Rightarrow> ('c NvmeDriver option, 'h) OS option" where
  "boot_disk pf ph os =
     (case ph_nvme ph of
        None \<Rightarrow> Some os
      | Some c \<Rightarrow> do {
          (h, disk_fs) \<leftarrow> setup_disk pf c (uh_ms (ph_usb ph)) (heap_of (os_sys os));
          Some (on_sys (\<lambda>s. (set_heap s h)\<lparr>y_fs := Some disk_fs\<rparr>) os) })"

text \<open>Steps 6 and 7: interrupt controllers, tasks, scheduler and timer.\<close>

definition boot_tasks :: "'h machine \<Rightarrow> ('c, 'e, 'h) Platform \<Rightarrow> ('d, 'h) Running \<Rightarrow> ('d, 'h) Running option" where
  "boot_tasks hw pf r = do {
     let os = (r_os r)\<lparr>g_lapic := True\<rparr>;
     let s = on_hw (LAPIC_Enable hw) (os_sys os);
     s \<leftarrow> log_info ''Local APIC enabled.'' s;
     let (apic_id, s) = with_hw (LAPIC_GetID hw) s;
     let s = on_hw (IOAPIC_Enable hw 1 0x40 apic_id) s;
     let s = s\<lparr>y_k := (y_k s)\<lparr>k_tm := TaskManager_Initialize (k_tm (y_k s))\<rparr>, y_sched := Scheduler_Initialize (y_sched s)\<rparr>;
     let r = InitializeIdleTask (idle_entry pf) (r\<lparr>r_os := os\<lparr>os_sys := s\<rparr>\<rparr>);
     let s = os_sys (r_os r);
     let s = s\<lparr>y_sched := Scheduler_Enable (y_sched s)\<rparr>;
     let s = on_hw (StartTimer hw 10 0x20) s;
     Some (r\<lparr>r_os := (r_os r)\<lparr>os_sys := s\<rparr>\<rparr>) }"

definition KernelMain :: "'h machine \<Rightarrow> ('c, 'e, 'h) Platform \<Rightarrow> FrameBufferConfig \<Rightarrow> MemoryDescriptor list \<Rightarrow>
    ('c NvmeDriver option, 'h) Running \<Rightarrow> ('c NvmeDriver option, 'h) Running option" where
  "KernelMain hw pf config memmap r = do {
     (os, ph) \<leftarrow> boot_devices hw pf config memmap (r_os r);
     os \<leftarrow> boot_disk pf ph os;
     boot_tasks hw pf (r\<lparr>r_os := os\<rparr>) }"

section \<open>Test tasks\<close>

text \<open>One pass of the loop of a test task: its counter and a line of output on every hundredth.\<close>

definition test_pass :: "string \<Rightarrow> u64 \<Rightarrow> ('d, 'h) usb_sys \<Rightarrow> (u64 \<times> ('d, 'h) usb_sys) option" where
  "test_pass fmt counter s = do {
     let counter = counter + 1;
     con \<leftarrow> (if counter mod 100 = 0 then Interrupts.say fmt [counter] (y_con s) else Some (y_con s));
     Some (counter, with_sched Yield (s\<lparr>y_con := con\<rparr>)) }"

definition TestTaskA :: "u64 \<Rightarrow> ('d, 'h) usb_sys \<Rightarrow> (u64 \<times> ('d, 'h) usb_sys) option" where
  "TestTaskA g_task_a_counter s = test_pass ''[A:%lu] '' g_task_a_counter s"

definition TestTaskB :: "u64 \<Rightarrow> ('d, 'h) usb_sys \<Rightarrow> (u64 \<times> ('d, 'h) usb_sys) option" where
  "TestTaskB g_task_b_counter s = test_pass ''[B:%lu] '' g_task_b_counter s"

definition TestTaskC :: "u64 \<Rightarrow> ('d, 'h) usb_sys \<Rightarrow> (u64 \<times> ('d, 'h) usb_sys) option" where
  "TestTaskC g_task_c_counter s = test_pass ''[C:%lu] '' g_task_c_counter s"

definition create_ready :: "u64 \<Rightarrow> Kernel \<Rightarrow> Kernel" where
  "create_ready e k = (let (t, k) = CreateTask k e in if t \<noteq> 0 then k\<lparr>k_tm := AddToReadyQueue (k_tm k) t\<rparr> else k)"

definition InitializeTestTasks :: "u64 \<Rightarrow> u64 \<Rightarrow> u64 \<Rightarrow> Kernel \<Rightarrow> Kernel" where
  "InitializeTestTasks entry_a entry_b entry_c k = create_ready entry_c (create_ready entry_b (create_ready entry_a k))"

section \<open>What the start leaves\<close>

text \<open>The parts of the state that the start sets once.\<close>

lemma InitializeSyscall_frame:
  "y_fds (InitializeSyscall e s) = y_fds s" "k_tm (y_k (InitializeSyscall e s)) = k_tm (y_k s)" "y_usb (InitializeSyscall e s) = y_usb s"
  by (simp_all add: InitializeSyscall_def Let_def set_heap_def set_mem_def split: prod.split)

lemma on_hw_logger [simp]: "y_logger (on_hw f s) = y_logger s"
  using on_hw_frame(2) [of f s] by (simp add: kept_def)

lemma on_hw_y_k: "y_k (on_hw f s) = y_k s" "y_sched (on_hw f s) = y_sched s"
  by (simp_all add: on_hw_def split: prod.split)

lemma InitializeCore_frame:
  assumes "InitializeCore hw pf memmap os = Some os'"
  shows "y_fds (os_sys os') = y_fds (os_sys os)" "k_tm (y_k (os_sys os')) = k_tm (y_k (os_sys os))"
  using assms by (auto simp: InitializeCore_def InitializeSyscall_frame on_hw_y_k set_mem_def Let_def split: bind_splits prod.splits)

lemma InitializeIO_frame:
  "k_tm (y_k (InitializeIO mem lmem s)) = k_tm (y_k s)" "y_logger (InitializeIO mem lmem s) \<in> {None, Some (EventLogger_new lmem)}"
  by (simp_all add: InitializeIO_def set_heap_def set_mem_def split: prod.split)

text \<open>The frames that the start takes: a stack, 66 page tables, the context of the system calls and their stack.\<close>

definition take_frame :: "MemoryManager \<Rightarrow> MemoryManager" where
  "take_frame mm = snd (AllocateFrame mm)"

definition core_memory :: "MemoryManager \<Rightarrow> MemoryManager" where
  "core_memory mm = snd (Allocate (snd (Allocate ((take_frame ^^ 66) (snd (Allocate mm 16384))) 32)) 16384)"

lemma new_mm: "kmm (snd (operator_new h sz)) = snd (Allocate (kmm h) (sz + kHeaderSize))"
  by (simp add: operator_new_def Let_def split: prod.split)

lemma AllocateTable_mm: "pg_mm (snd (AllocateTable pm)) = take_frame (pg_mm pm)"
  by (simp add: take_frame_def AllocateTable_def zero_frame_def Let_def split: prod.split)

lemma init_pd_mm: "pg_mm (fold (init_pd d) is pm) = (take_frame ^^ length is) (pg_mm pm)"
proof (induction "is" arbitrary: pm)
  case (Cons i "is")
  have "pg_mm (init_pd d i pm) = take_frame (pg_mm pm)"
    using AllocateTable_mm [of pm] by (cases "AllocateTable pm") (simp add: init_pd_def set_entry_def)
  then show ?case using Cons by (simp add: funpow_swap1)
qed simp

lemma Initialize_pages_mm:
  assumes "Initialize_pages pm = Some pm'"
  shows "pg_mm pm' = (take_frame ^^ 66) (pg_mm pm)"
proof -
  obtain r pm1 where r: "AllocateTable pm = (r, pm1)" by fastforce
  obtain d pm2 where d: "AllocateTable (pm1\<lparr>pml4_table := r\<rparr>) = (d, pm2)" by fastforce
  have "pg_mm pm' = (take_frame ^^ 64) (pg_mm pm2)"
    using assms init_pd_mm [of d "[0..<64]"]
    by (auto simp: Initialize_pages_def r d LoadCR3_def set_entry_def simp del: upt_rec_numeral funpow.simps fold_simps split: if_splits)
  moreover have "pg_mm pm2 = (take_frame ^^ 2) (pg_mm pm)"
    using AllocateTable_mm [of pm] AllocateTable_mm [of "pm1\<lparr>pml4_table := r\<rparr>"] r d by (simp add: numeral_2_eq_2)
  ultimately show ?thesis using funpow_add [of 64 2 take_frame] by simp
qed

lemma InitializeCore_memory:
  assumes "InitializeCore hw pf memmap os = Some os'"
  obtains mm where "Initialize_mm (mm_range_end (kmem (y_k (os_sys os)))) (sym_kernel_start pf) (sym_kernel_end pf) memmap = Some mm"
    "kmem (y_k (os_sys os')) = core_memory mm"
proof -
  obtain mm pg where i: "Initialize_mm (mm_range_end (kmem (y_k (os_sys os)))) (sym_kernel_start pf) (sym_kernel_end pf) memmap = Some mm"
    and pg: "Initialize_pages ((k_pg (y_k (os_sys os)))\<lparr>pg_mm := snd (Allocate mm 16384)\<rparr>) = Some pg"
    and s: "kmem (y_k (os_sys os')) = snd (Allocate (kmm (snd (operator_new \<lparr>kmm = pg_mm pg, cells = y_cells (os_sys os)\<rparr> 16))) 16384)"
    using assms
    by (auto simp: InitializeCore_def InitializeSyscall_def heap_of_def set_heap_def on_hw_y_k on_hw_def set_mem_def kmem_def Let_def split_beta
        split: bind_splits)
  have "kmem (y_k (os_sys os')) = core_memory mm"
    using Initialize_pages_mm [OF pg] by (simp add: s core_memory_def new_mm kHeaderSize_def)
  then show thesis using that i by blast
qed

lemma alloc_result_inv: "alloc_result mm n p mm' \<Longrightarrow> mm_inv mm \<Longrightarrow> mm_inv mm'"
  by (auto simp: alloc_result_def split: if_splits)

lemma core_memory_inv: "mm_inv mm \<Longrightarrow> mm_inv (core_memory mm)"
proof -
  have f: "mm_inv mm \<Longrightarrow> mm_inv ((take_frame ^^ n) mm)" for n mm
    by (induction n) (auto simp: take_frame_def intro: alloc_result_inv [OF AllocateFrame_result])
  have "admissible 16384" "admissible 32" by (simp_all add: admissible_def)
  then show "mm_inv mm \<Longrightarrow> mm_inv (core_memory mm)"
    unfolding core_memory_def by (intro alloc_result_inv [OF Allocate_result] f)
qed

lemma bind_eq_SomeE: "Option.bind x f = Some y \<Longrightarrow> (\<And>z. x = Some z \<Longrightarrow> f z = Some y \<Longrightarrow> P) \<Longrightarrow> P"
  by (cases x) simp_all

lemma boot_devices_frame:
  assumes "boot_devices hw pf config memmap os = Some (os', ph)"
  shows "y_fds (os_sys os) = replicate 16 None \<Longrightarrow> length (fresh_memory pf kKeyboardBufferSize) = kKeyboardBufferSize \<Longrightarrow>
      y_logger (os_sys os') \<noteq> None \<Longrightarrow> fds_ok (y_fds (os_sys os'))"
    "y_logger (os_sys os') \<in> {None, Some (EventLogger_new (\<lambda>_. fresh_memory pf 128))}" "k_tm (y_k (os_sys os')) = k_tm (y_k (os_sys os))"
proof -
  obtain c os1 s where c: "InitializeCore hw pf memmap (on_sys (\<lambda>s. s\<lparr>y_con := c\<rparr>) os) = Some os1"
    and s: "s = InitializeIO (fresh_memory pf kKeyboardBufferSize) (\<lambda>_. fresh_memory pf 128) (os_sys os1)"
      "y_fds (os_sys os') = y_fds s" "y_logger (os_sys os') = y_logger s" "k_tm (y_k (os_sys os')) = k_tm (y_k s)"
    using assms unfolding boot_devices_def Let_def by (elim bind_eq_SomeE) (force simp: set_mem_def)
  note f = InitializeCore_frame [OF c]
  have m: "mm_inv (kmem (y_k (os_sys os1)))"
    using InitializeCore_memory [OF c] core_memory_inv Initialize_mm_inv by metis
  show "fds_ok (y_fds (os_sys os'))" if "y_fds (os_sys os) = replicate 16 None"
    "length (fresh_memory pf kKeyboardBufferSize) = kKeyboardBufferSize" "y_logger (os_sys os') \<noteq> None"
    using InitializeIO_but [OF that(2) _ m, of "\<lambda>_. fresh_memory pf 128"] f(1) that(1,3) s(1-3)
    by (auto simp: on_sys_def fds_ok_but)
  show "y_logger (os_sys os') \<in> {None, Some (EventLogger_new (\<lambda>_. fresh_memory pf 128))}" "k_tm (y_k (os_sys os')) = k_tm (y_k (os_sys os))"
    using s f(2) InitializeIO_frame [of "fresh_memory pf kKeyboardBufferSize" "\<lambda>_. fresh_memory pf 128" "os_sys os1"]
    by (simp_all add: on_sys_def)
qed

lemma boot_disk_frame:
  "boot_disk pf ph os = Some os' \<Longrightarrow> y_fds (os_sys os') = y_fds (os_sys os) \<and> y_logger (os_sys os') = y_logger (os_sys os) \<and>
     k_tm (y_k (os_sys os')) = k_tm (y_k (os_sys os))"
  by (auto simp: boot_disk_def on_sys_def set_heap_def set_mem_def split: option.splits bind_splits)


lemma with_hw_frame2: "with_hw f s = (v, s') \<Longrightarrow> y_k s' = y_k s \<and> y_sched s' = y_sched s"
  by (auto simp: with_hw_def split: prod.splits)

text \<open>The last part of the start, as far as descriptors, logger and tasks are concerned.\<close>

lemma boot_tasks_result:
  assumes "boot_tasks hw pf r = Some r'"
  obtains lg k0 where "y_logger (os_sys (r_os r)) = Some lg"
    "y_logger (os_sys (r_os r')) = Some (Info lg TKernel (str ''Local APIC enabled.''))"
    "y_fds (os_sys (r_os r')) = y_fds (os_sys (r_os r))" "r_processes r' = r_processes r" "os_cpu (r_os r') = os_cpu (r_os r)"
    "g_lapic (r_os r')" "k_tm k0 = TaskManager_Initialize (k_tm (y_k (os_sys (r_os r))))" "k_pg k0 = k_pg (y_k (os_sys (r_os r)))"
    "g_idle_task r' = fst (CreateTask k0 (idle_entry pf))" "sch_enabled (y_sched (os_sys (r_os r')))"
    "y_k (os_sys (r_os r')) = create_ready (idle_entry pf) k0"
proof -
  define s where "s = on_hw (LAPIC_Enable hw) (os_sys (r_os r))"
  obtain lg where lg: "y_logger s = Some lg" using assms by (auto simp: boot_tasks_def log_info_def s_def Let_def split: bind_splits)
  define s1 where "s1 = s\<lparr>y_logger := Some (Info lg TKernel (str ''Local APIC enabled.''))\<rparr>"
  obtain apic s2 where w: "with_hw (LAPIC_GetID hw) s1 = (apic, s2)" by fastforce
  define s3 where "s3 = on_hw (IOAPIC_Enable hw 1 0x40 apic) s2"
  define k0 where "k0 = (y_k s3)\<lparr>k_tm := TaskManager_Initialize (k_tm (y_k s3))\<rparr>"
  define s4 where "s4 = s3\<lparr>y_k := k0, y_sched := Scheduler_Initialize (y_sched s3)\<rparr>"
  define r4 where "r4 = InitializeIdleTask (idle_entry pf) (r\<lparr>r_os := (r_os r)\<lparr>g_lapic := True, os_sys := s4\<rparr>\<rparr>)"
  have r': "r' = r4\<lparr>r_os := (r_os r4)\<lparr>os_sys := on_hw (StartTimer hw 10 0x20) ((os_sys (r_os r4))\<lparr>y_sched := Scheduler_Enable (y_sched (os_sys (r_os r4)))\<rparr>)\<rparr>\<rparr>"
    using assms lg w by (simp add: boot_tasks_def log_info_def s_def s1_def s3_def s4_def k0_def r4_def Let_def)
  have r4: "g_idle_task r4 = fst (CreateTask k0 (idle_entry pf))" "y_k (os_sys (r_os r4)) = create_ready (idle_entry pf) k0"
    "y_fds (os_sys (r_os r4)) = y_fds s3" "y_logger (os_sys (r_os r4)) = y_logger s3" "r_processes r4 = r_processes r"
    "os_cpu (r_os r4) = os_cpu (r_os r)" "g_lapic (r_os r4)"
    by (simp_all add: r4_def InitializeIdleTask_def on_sys_def s4_def create_ready_def Let_def split: prod.split)
  note f = with_hw_frame [OF w] with_hw_frame2 [OF w]
  show thesis
  proof (rule that)
    show "y_logger (os_sys (r_os r)) = Some lg" using lg by (simp add: s_def)
    show "y_logger (os_sys (r_os r')) = Some (Info lg TKernel (str ''Local APIC enabled.''))"
      using f by (simp add: r' r4 s3_def s1_def kept_def)
    show "y_fds (os_sys (r_os r')) = y_fds (os_sys (r_os r))" using f by (simp add: r' r4 s3_def s1_def s_def)
    show "k_tm k0 = TaskManager_Initialize (k_tm (y_k (os_sys (r_os r))))" "k_pg k0 = k_pg (y_k (os_sys (r_os r)))"
      using f by (simp_all add: k0_def s3_def s1_def s_def on_hw_y_k)
  qed (simp_all add: r' r4 on_hw_y_k Scheduler_Enable_def)
qed

text \<open>
  The descriptor tables of the processor and the pointer to the local APIC stay as they are in the running system.
  Of the task state segment only the stack for interrupts from user mode changes, with the entry of an
  application, which sets it and the stack of the system calls to the same address.
\<close>

definition tables_kept :: "Cpu \<Rightarrow> Cpu \<Rightarrow> bool" where
  "tables_kept c c' \<longleftrightarrow> gdt c' = gdt c \<and> idt c' = idt c \<and> gdtr c' = gdtr c \<and> idtr c' = idtr c \<and> reg_tr c' = reg_tr c \<and>
     (tss c')\<lparr>rsp0 := 0\<rparr> = (tss c)\<lparr>rsp0 := 0\<rparr>"

definition entry_stacks :: "('d, 'h) Running \<Rightarrow> u64 \<times> u64" where
  "entry_stacks r = (rsp0 (tss (os_cpu (r_os r))), kernel_stack_ptr (y_env (os_sys (r_os r))))"

definition frame_kept :: "('d, 'h) Running \<Rightarrow> ('d, 'h) Running \<Rightarrow> bool" where
  "frame_kept r r' \<longleftrightarrow> tables_kept (os_cpu (r_os r)) (os_cpu (r_os r')) \<and> g_lapic (r_os r') = g_lapic (r_os r) \<and>
     (entry_stacks r' = entry_stacks r \<or> fst (entry_stacks r') = snd (entry_stacks r'))"

lemma frame_kept_trans: "frame_kept r r1 \<Longrightarrow> frame_kept r1 r2 \<Longrightarrow> frame_kept r r2"
  by (force simp: frame_kept_def tables_kept_def)

lemma frame_kept_same:
  "os_cpu (r_os r') = os_cpu (r_os r) \<Longrightarrow> g_lapic (r_os r') = g_lapic (r_os r) \<Longrightarrow>
   kernel_stack_ptr (y_env (os_sys (r_os r'))) = kernel_stack_ptr (y_env (os_sys (r_os r))) \<Longrightarrow> frame_kept r r'"
  by (simp add: frame_kept_def tables_kept_def entry_stacks_def)

lemma start_processes_frame:
  "start_processes ldr app_entry is r = Some r' \<Longrightarrow> frame_kept r r'"
proof (induction "is" arbitrary: r)
  case (Cons i "is")
  have "start_process ldr app_entry i r = Some r1 \<Longrightarrow> frame_kept r r1" for r1
    by (rule frame_kept_same) (auto simp: start_process_def Let_def split: bind_splits if_splits)
  then show ?case using Cons frame_kept_trans by (auto split: bind_splits)
qed (auto intro: frame_kept_same)

lemma os_step_frame: "os_step hw ldr app_entry r r' \<Longrightarrow> running_ok r \<Longrightarrow> frame_kept r r'"
proof (induction rule: os_step.induct)
  case (step_syscall r number arg1 arg2 arg3 v s)
  then show ?case using SyscallHandler_kept [OF sys_call_result [OF step_syscall(1)]] by (intro frame_kept_same) (simp_all add: kept_def)
next
  case (step_app r os)
  then show ?case
    by (auto simp: app_task_entry_def AppTaskEntry_def SetKernelStack_def WriteMSR_def frame_kept_def tables_kept_def entry_stacks_def Let_def
        split: bind_splits if_splits)
next
  case (step_timer r)
  then show ?case using TimerHandler_ok [of "r_os r" hw]
    by (intro frame_kept_same) (auto simp: TimerHandler_def running_ok_def kept_def Let_def)
next
  case (step_usb r os)
  then show ?case using UsbInterruptHandler_ok [of hw "r_os r" os]
    by (intro frame_kept_same) (auto simp: UsbInterruptHandler_def running_ok_def kept_def Let_def split: bind_splits)
next
  case (step_idle r r')
  obtain r1 s where r: "CheckAndStartProcesses ldr app_entry r = Some r1" "poll_serial_input hw (os_sys (r_os r1)) = Some s"
    "r' = r1\<lparr>r_os := (r_os r1)\<lparr>os_sys := s\<rparr>\<rparr>"
    using step_idle(1) by (auto simp: idle_pass_def split: bind_splits)
  have "running_ok r1" using start_processes_ok r(1) step_idle(2) by (simp add: CheckAndStartProcesses_def)
  then have "frame_kept r1 r'"
    using poll_serial_input_ok [OF r(2)] by (intro frame_kept_same) (simp_all add: r(3) running_ok_def kept_def)
  then show ?case using start_processes_frame r(1) frame_kept_trans unfolding CheckAndStartProcesses_def by blast
next
  case (step_idle_start r)
  then show ?case by (intro frame_kept_same) (simp_all add: IdleTaskEntry_def EssentialProcesses_Initialize_def)
qed

lemma os_run_frame: "os_run hw ldr app_entry r r' \<Longrightarrow> running_ok r \<Longrightarrow> frame_kept r r'"
proof (induction rule: os_run.induct)
  case run_refl
  then show ?case by (simp add: frame_kept_same)
next
  case (run_step r1 r2)
  then show ?case using os_step_frame os_run_ok frame_kept_trans by blast
qed

lemma KernelMain_result:
  assumes "KernelMain hw pf config memmap r0 = Some r1"
  obtains os ph r where "boot_devices hw pf config memmap (r_os r0) = Some (os, ph)" "boot_tasks hw pf r = Some r1"
    "y_fds (os_sys (r_os r)) = y_fds (os_sys os)" "y_logger (os_sys (r_os r)) = y_logger (os_sys os)"
    "k_tm (y_k (os_sys (r_os r))) = k_tm (y_k (os_sys os))" "r_processes r = r_processes r0"
  using assms boot_disk_frame unfolding KernelMain_def by (elim bind_eq_SomeE) (fastforce split: prod.splits elim: bind_eq_SomeE)


section \<open>The first tick\<close>

definition unlinked :: "TaskManager \<Rightarrow> bool" where
  "unlinked tm \<longleftrightarrow> (\<forall>t. task_next (tasks tm t) = 0 \<and> task_prev (tasks tm t) = 0)"

lemma CreateTask_first:
  assumes "CreateTask k e = (t, k')" "t \<noteq> 0" "unlinked (k_tm k)"
  shows "unlinked (k_tm k')" "current_task (k_tm k') = current_task (k_tm k)" "ready_queue_head (k_tm k') = ready_queue_head (k_tm k)"
    "ready_queue_tail (k_tm k') = ready_queue_tail (k_tm k)" "cr3 (k_pg k') = cr3 (k_pg k)"
    "k_stack k' (ctx_gpr (task_context (tasks (k_tm k') t)) RSP) = e" "bit (ctx_rflags (task_context (tasks (k_tm k') t))) 9"
    "ctx_cr3 (task_context (tasks (k_tm k') t)) = cr3 (k_pg k)"
  using assms by (auto simp: CreateTask_def Let_def set_mem_def unlinked_def zero_task_def split: prod.splits if_splits)

lemma CreateTask_none:
  assumes "CreateTask k e = (0, k')" "unlinked (k_tm k)"
  shows "current_task (k_tm k') = current_task (k_tm k)" "ready_queue_head (k_tm k') = ready_queue_head (k_tm k)"
  using assms by (auto simp: CreateTask_def Let_def set_mem_def split: prod.splits if_splits)

text \<open>A timer interrupt is a call of the scheduler for the tasks of the kernel.\<close>

definition tick_sched :: "('d, 'h) OS \<Rightarrow> Sched" where
  "tick_sched os = (y_sched (os_sys os))\<lparr>sch_tm := k_tm (y_k (os_sys os)),
     sch_cpu := (sch_cpu (y_sched (os_sys os)))\<lparr>ctx_cr3 := y_cr3 (os_sys os)\<rparr>\<rparr>"

lemma keyboard_update_frame:
  "y_k (keyboard_update poll s) = y_k s" "y_sched (keyboard_update poll s) = y_sched s"
  by (simp_all add: keyboard_update_def Let_def set_fd_def split: prod.split option.split FD.split)

lemma TimerHandler_sched:
  fixes hw :: "'h machine" and os :: "('d, 'h) OS"
  defines "sc \<equiv> Schedule (tick_sched os) False" and "s \<equiv> os_sys (TimerHandler hw os)"
  shows "y_sched s = sc" "k_tm (y_k s) = sch_tm sc" "y_cr3 s = ctx_cr3 (sch_cpu sc)" "k_stack (y_k s) = k_stack (y_k (os_sys os))"
proof -
  obtain s0 where s0: "s = with_sched (\<lambda>sc. Schedule sc False) s0" "y_k s0 = y_k (os_sys os)" "y_sched s0 = y_sched (os_sys os)"
    unfolding s_def by (simp add: TimerHandler_def Let_def keyboard_update_frame on_hw_y_k split: option.split)
  then show "y_sched s = sc" "k_tm (y_k s) = sch_tm sc" "y_cr3 s = ctx_cr3 (sch_cpu sc)" "k_stack (y_k s) = k_stack (y_k (os_sys os))"
    by (simp_all add: with_sched_def Let_def y_cr3_def tick_sched_def sc_def)
qed

lemma Schedule_first:
  assumes "sch_enabled s" "current_task (sch_tm s) = 0" "queue (sch_tm s) [t]"
  shows "current_task (sch_tm (Schedule s False)) = t" "queue (sch_tm (Schedule s False)) []"
    "sch_cpu (Schedule s False) = restore_context (sch_cpu s) (task_context (tasks (sch_tm s) t))"
proof -
  have t: "t \<noteq> 0" "GetNextTask (sch_tm s) = t" using assms(3) GetNext_queue [OF assms(3)] by (auto simp: queue_def)
  have "queue (RemoveFromReadyQueue (sch_tm s) t) []" using Remove_queue [of "sch_tm s" "[]" t "[]"] assms(3) by simp
  then have "queue (upd_task (RemoveFromReadyQueue (sch_tm s) t) t (\<lambda>k. k\<lparr>task_state := RUNNING\<rparr>)\<lparr>current_task := t\<rparr>) []"
    using queue_cong [of "upd_task (RemoveFromReadyQueue (sch_tm s) t) t (\<lambda>k. k\<lparr>task_state := RUNNING\<rparr>)\<lparr>current_task := t\<rparr>"
      "RemoveFromReadyQueue (sch_tm s) t" "[]"] by simp
  then show "current_task (sch_tm (Schedule s False)) = t" "queue (sch_tm (Schedule s False)) []"
    "sch_cpu (Schedule s False) = restore_context (sch_cpu s) (task_context (tasks (sch_tm s) t))"
    using assms t by (simp_all add: Schedule_def SwitchTo_def SetCurrentTask_def Let_def Remove_frame)
qed

text \<open>
  C25: the first interrupt of the timer starts the idle task. After \<open>KernelMain\<close> no task runs. If
  the idle task could be created, the first interrupt makes it the current task, with an empty ready
  queue behind it, on its own kernel stack whose top holds the address of \<open>IdleTaskEntry\<close>, with interrupts
  enabled and the page table of the kernel; if there was no memory for it, no task runs after the interrupt either.
\<close>

theorem first_tick_runs_idle:
  assumes "KernelMain hw pf config memmap r0 = Some r1" "unlinked (k_tm (y_k (os_sys (r_os r0))))"
    and "s1 = os_sys (r_os r1)" "s2 = os_sys (TimerHandler hw (r_os r1))" "cpu = sch_cpu (y_sched s2)"
  shows "current_task (k_tm (y_k s1)) = 0 \<and> current_task (k_tm (y_k s2)) = g_idle_task r1 \<and>
    (g_idle_task r1 \<noteq> 0 \<longrightarrow> queue (k_tm (y_k s2)) [] \<and> k_stack (y_k s2) (ctx_gpr cpu RSP) = idle_entry pf \<and>
       bit (ctx_rflags cpu) 9 \<and> y_cr3 s2 = y_cr3 s1)"
proof -
  obtain os ph r where b: "boot_devices hw pf config memmap (r_os r0) = Some (os, ph)" "boot_tasks hw pf r = Some r1"
    "k_tm (y_k (os_sys (r_os r))) = k_tm (y_k (os_sys os))"
    using KernelMain_result [OF assms(1)] by metis
  obtain k0 where k: "k_tm k0 = TaskManager_Initialize (k_tm (y_k (os_sys (r_os r))))"
    "g_idle_task r1 = fst (CreateTask k0 (idle_entry pf))" "sch_enabled (y_sched s1)" "y_k s1 = create_ready (idle_entry pf) k0"
    using boot_tasks_result [OF b(2)] assms(3) by metis
  have u: "unlinked (k_tm k0)" "current_task (k_tm k0) = 0" "ready_queue_head (k_tm k0) = 0" "ready_queue_tail (k_tm k0) = 0"
    using assms(2) boot_devices_frame(3) [OF b(1)] by (simp_all add: k(1) b(3) TaskManager_Initialize_def unlinked_def)
  obtain t k1 where c: "CreateTask k0 (idle_entry pf) = (t, k1)" by fastforce
  let ?sc = "tick_sched (r_os r1)"
  note T = TimerHandler_sched [of hw "r_os r1", folded assms(3,4)]
  have sc: "sch_enabled ?sc" "sch_tm ?sc = k_tm (y_k s1)" using k(3) assms(3) by (simp_all add: tick_sched_def)
  show ?thesis
  proof (cases "t = 0")
    case True
    then have "y_k s1 = k1" "g_idle_task r1 = 0" using k(2,4) c by (simp_all add: create_ready_def)
    moreover have "current_task (k_tm k1) = 0" "ready_queue_head (k_tm k1) = 0"
      using CreateTask_none [of k0 "idle_entry pf" k1] c True u by simp_all
    ultimately show ?thesis using T(2) sc by (simp add: Schedule_def GetNextTask_def Let_def)
  next
    case False
    note F = CreateTask_first [OF c False u(1)]
    have "queue (k_tm k1) []" using F(1,3,4) u(3,4) by (simp add: queue_def unlinked_def)
    then have q: "queue (AddToReadyQueue (k_tm k1) t) [t]" using Add_queue [of "k_tm k1" "[]" t] False by simp
    have y: "y_k s1 = k1\<lparr>k_tm := AddToReadyQueue (k_tm k1) t\<rparr>" "g_idle_task r1 = t" using k(2,4) c False by (simp_all add: create_ready_def)
    have cur: "current_task (k_tm (y_k s1)) = 0" using F(2) u(2) by (simp add: y Add_frame)
    note S = Schedule_first [OF sc(1), unfolded sc(2), OF cur, of t]
    have q1: "queue (k_tm (y_k s1)) [t]" using q by (simp add: y)
    have cpu: "cpu = restore_context (sch_cpu ?sc) (task_context (tasks (k_tm k1) t))"
      using S(3) [OF q1] T(1) assms(5) by (simp add: y Add_frame)
    have "y_cr3 s2 = cr3 (k_pg k0)" using T(1,3) cpu assms(5) F(8) by (simp add: restore_context_def)
    moreover have "y_cr3 s1 = cr3 (k_pg k0)" using F(5) by (simp add: y_cr3_def y)
    ultimately show ?thesis
      using S(1,2) [OF q1] T(2,4) cur F(6,7) cpu by (simp add: y restore_context_def)
  qed
qed


section \<open>Witnesses\<close>

text \<open>A machine without PCI devices, one region of 256 pages from 0x1000 on, and a screen of 16 by 16 pixels.\<close>

definition sample_platform :: "(ram_ctrl, unit, bytes) Platform" where
  "sample_platform = \<lparr>gdt_address = 0x1000, tss_address = 0x2000, idt_address = 0x3000, handler_address = (\<lambda>_. 0x4000),
     syscall_entry = 0x5000, idle_entry = 0x6000, sym_kernel_start = 0x1000, sym_kernel_end = 0x3000, desc_address = 0x7000,
     fresh_memory = (\<lambda>n. replicate n 0), fresh_frame = (\<lambda>_. 0), pf_ctl = ram_ctl,
     pf_state = (\<lambda>_. \<lparr>rc_head = 0, rc_tail = 0, rc_phase = True, rc_media = (\<lambda>_. replicate 512 0)\<rparr>), pf_mem = (\<lambda>_. 0), pf_buf = 0x200000,
     pf_stick = (\<lambda>_. (\<lparr>bd_Read = (\<lambda>d _ buf _. (False, buf, d)), bd_Write = (\<lambda>d _ _ _. (False, d)), bd_GetBlockSize = (\<lambda>_. 512)\<rparr>, ()))\<rparr>"

definition sample_map :: "MemoryDescriptor list" where
  "sample_map = [\<lparr>md_type = 7, physical_start = 0x1000, number_of_pages = 256\<rparr>]"

definition sample_mode :: FrameBufferConfig where
  "sample_mode = \<lparr>FrameBufferBase = 0, FrameBufferSize = 1024, HorizontalResolution = 16, VerticalResolution = 16, PixelsPerScanLine = 16\<rparr>"

definition sample_start :: "(ram_ctrl NvmeDriver option, bytes) Running" where
  "sample_start =
     (let s = (sample_sys None :: (unit, unit) Sys)
      in \<lparr>r_os = \<lparr>os_sys = \<lparr>y_k = sample_k\<lparr>k_pg := (k_pg sample_k)\<lparr>pg_mm := \<lparr>mm_bitmap = \<lparr>bm_buffer = [], bm_size = 0\<rparr>, mm_range_end = 0\<rparr>\<rparr>\<rparr>,
             y_sched = y_sched s, y_env = y_env s, y_cells = (\<lambda>_. 0), y_fds = replicate 16 None,
             y_fs = None, y_con = None, y_space = (\<lambda>_ _. 0), y_listed = [], y_logger = None, y_usb = (None, serial_x [])\<rparr>,
           os_cpu = sample_cpu, g_xhci = False, g_lapic = False\<rparr>,
         r_processes = processes, r_warned = replicate 16 False, r_initialized = False, g_idle_task = 0\<rparr>)"

lemma sample_start_fields:
  "y_fds (os_sys (r_os sample_start)) = replicate 16 None" "r_processes sample_start = processes"
  "unlinked (k_tm (y_k (os_sys (r_os sample_start))))" "mm_range_end (kmem (y_k (os_sys (r_os sample_start)))) = 0"
  by (simp_all add: sample_start_def Let_def unlinked_def sample_k_def zero_task_def kmem_def)

lemma no_pci_devices: "SetupPCI serial_machine desc junk ph = Some ph"
proof -
  have "ph_conf serial_machine d r ph = (0xFFFFFFFF, ph)" for d r
    by (simp add: ph_conf_def ReadConfReg_def IoIn32_def IoOut32_def serial_machine_def on_x_def)
  then have "pci_function serial_machine desc junk d ph = Some ph" for d by (simp add: pci_function_def)
  then have "pci_loop serial_machine desc junk fs ph = Some ph" for fs by (induction fs) auto
  then show ?thesis by (simp add: SetupPCI_def)
qed

text \<open>Memory in which the frames from \<open>lo\<close> to \<open>hi\<close> are free and no others: every allocation takes the lowest of them.\<close>

definition free_above :: "nat \<Rightarrow> nat \<Rightarrow> MemoryManager \<Rightarrow> bool" where
  "free_above lo hi mm \<longleftrightarrow> mm_inv mm \<and> used_frames mm = - {lo..<hi}"

lemma free_above_alloc:
  assumes "free_above lo hi mm" "alloc_result mm n p mm'" "0 < n" "lo + n \<le> hi"
  shows "p \<noteq> 0 \<and> p = of_nat (lo * kFrameSize) \<and> free_above (lo + n) hi mm'"
proof -
  have run: "run_free mm n i \<longleftrightarrow> lo \<le> i \<and> i + n \<le> hi" for i
  proof -
    have "run_free mm n i \<longleftrightarrow> {i..<i + n} \<subseteq> {lo..<hi}" using assms(1) by (simp add: run_free_def free_above_def disjoint_eq_subset_Compl)
    then show ?thesis using assms(3) by (simp add: atLeastLessThan_subset_iff)
  qed
  have p: "p \<noteq> 0" using assms(2,4) run [of lo] by (auto simp: alloc_result_def split: if_splits)
  obtain i where i: "p = of_nat (i * kFrameSize)" "run_free mm n i" "\<forall>s<i. \<not> run_free mm n s"
    "used_frames mm' = used_frames mm \<union> {i..<i + n}" "mm_inv mm'"
    using assms(2) p by (auto simp: alloc_result_def)
  have "i = lo" using i(2,3) run assms(4) by (metis antisym_conv2 le_refl linorder_not_less)
  then show ?thesis using i p assms(1,4) by (auto simp: free_above_def)
qed

lemma free_above_Allocate:
  assumes "free_above lo hi mm" "admissible sz" "lo + frames_of sz \<le> hi"
  shows "fst (Allocate mm sz) \<noteq> 0" "fst (Allocate mm sz) = of_nat (lo * kFrameSize)"
    "free_above (lo + frames_of sz) hi (snd (Allocate mm sz))"
proof -
  have "mm_inv mm" using assms(1) by (simp add: free_above_def)
  from free_above_alloc [OF assms(1) Allocate_result [OF this assms(2)] frames_of_pos [OF assms(2)] assms(3)]
  show "fst (Allocate mm sz) \<noteq> 0" "fst (Allocate mm sz) = of_nat (lo * kFrameSize)"
    "free_above (lo + frames_of sz) hi (snd (Allocate mm sz))" by blast+
qed

lemma free_above_take:
  assumes "free_above lo hi mm" "lo < hi"
  shows "fst (AllocateFrame mm) \<noteq> 0" "free_above (Suc lo) hi (take_frame mm)"
proof -
  have "mm_inv mm" using assms(1) by (simp add: free_above_def)
  from free_above_alloc [OF assms(1) AllocateFrame_result [OF this]] assms(2)
  show "fst (AllocateFrame mm) \<noteq> 0" "free_above (Suc lo) hi (take_frame mm)" by (auto simp: take_frame_def simp del: of_nat_mult)
qed

lemma free_above_frames:
  assumes "free_above lo hi mm" "lo + n \<le> hi"
  shows "free_above (lo + n) hi ((take_frame ^^ n) mm)"
  using assms(2)
proof (induction n)
  case (Suc n)
  then have "free_above (lo + n) hi ((take_frame ^^ n) mm)" by simp
  then show ?case using free_above_take(2) Suc.prems by simp
qed (use assms in simp)

lemma free_above_new:
  assumes "free_above lo hi (kmm h)" "admissible (sz + kHeaderSize)" "lo + frames_of (sz + kHeaderSize) \<le> hi"
  shows "fst (operator_new h sz) \<noteq> 0" "free_above (lo + frames_of (sz + kHeaderSize)) hi (kmm (snd (operator_new h sz)))"
proof -
  note a = free_above_Allocate [OF assms]
  show "free_above (lo + frames_of (sz + kHeaderSize)) hi (kmm (snd (operator_new h sz)))" using a(3) by (simp add: new_mm)
  then have ne: "kmm (snd (operator_new h sz)) \<noteq> kmm h"
    using assms(1,3) frames_of_pos [OF assms(2)] by (force simp: free_above_def atLeastLessThan_eq_iff)
  show "fst (operator_new h sz) \<noteq> 0"
    using new_result(2) [of h sz _ "snd (operator_new h sz)"] assms(1,2) ne by (metis free_above_def prod.collapse)
qed

lemma sample_map_memory:
  "\<exists>mm. Initialize_mm 0 0x1000 0x3000 sample_map = Some mm \<and> free_above 3 257 mm"
proof -
  have e: "find_range_end sample_map 0 = 0x101000" by (simp add: sample_map_def)
  obtain mm where mm: "Initialize_mm 0 0x1000 0x3000 sample_map = Some mm"
    by (simp add: Initialize_mm_def sample_map_def kEfiConventionalMemory_def kFrameSize_def Let_def)
  have "conventional_frames sample_map = {1..<257}"
    by (simp add: conventional_frames_def sample_map_def kEfiConventionalMemory_def kFrameSize_def region_end_def)
  moreover have "bitmap_frames 0 sample_map = {1}" "kernel_frames 0x1000 0x3000 = {1, 2}"
    by (auto simp: bitmap_frames_def kernel_frames_def sample_map_def kEfiConventionalMemory_def kFrameSize_def Let_def)
  ultimately have "used_frames mm = - {3..<257}" using Initialize_mm_used(1) [OF mm] by auto
  then show ?thesis using mm Initialize_mm_inv [OF mm] by (auto simp: free_above_def)
qed

lemma boot_sizes:
  "admissible 16384" "admissible 32" "frames_of 16384 = 4" "frames_of 32 = 1" "admissible (1048 + kHeaderSize)" "admissible (8 + kHeaderSize)"
  "admissible (38928 + kHeaderSize)" "frames_of (1048 + kHeaderSize) = 1" "frames_of (8 + kHeaderSize) = 1" "frames_of (38928 + kHeaderSize) = 10"
  by (simp_all add: admissible_def frames_of_def kFrameSize_def kHeaderSize_def)

lemma core_memory_free: "free_above 3 257 mm \<Longrightarrow> free_above 78 257 (core_memory mm)"
proof -
  assume m: "free_above 3 257 mm"
  have "free_above 7 257 (snd (Allocate mm 16384))" using free_above_Allocate(3) [OF m boot_sizes(1)] boot_sizes(3) by simp
  from free_above_frames [OF this, of 66] have "free_above 73 257 ((take_frame ^^ 66) (snd (Allocate mm 16384)))" by simp
  from free_above_Allocate(3) [OF this boot_sizes(2)]
  have "free_above 74 257 (snd (Allocate ((take_frame ^^ 66) (snd (Allocate mm 16384))) 32))" using boot_sizes(4) by simp
  from free_above_Allocate(3) [OF this boot_sizes(1)] show ?thesis using boot_sizes(3) by (simp add: core_memory_def)
qed

lemma InitializeIO_free:
  assumes "free_above 78 257 (kmem (y_k s))"
  shows "y_logger (InitializeIO mem lmem s) \<noteq> None" "free_above 91 257 (kmem (y_k (InitializeIO mem lmem s)))"
proof -
  obtain p0 h0 where n0: "operator_new (heap_of s) 1048 = (p0, h0)" by fastforce
  obtain p1 h1 where n1: "operator_new h0 8 = (p1, h1)" by fastforce
  obtain p2 h2 where n2: "operator_new h1 8 = (p2, h2)" by fastforce
  obtain lg h3 where n3: "operator_new h2 38928 = (lg, h3)" by fastforce
  have "free_above 79 257 (kmm h0)"
    using free_above_new(2) [of 78 257 "heap_of s" 1048] assms n0 boot_sizes(5,8) by (simp add: heap_of_def)
  then have "free_above 80 257 (kmm h1)" using free_above_new(2) [of 79 257 h0 8] n1 boot_sizes(6,9) by simp
  then have "free_above 81 257 (kmm h2)" using free_above_new(2) [of 80 257 h1 8] n2 boot_sizes(6,9) by simp
  then have "lg \<noteq> 0" "free_above 91 257 (kmm h3)" using free_above_new [of 81 257 h2 38928] n3 boot_sizes(7,10) by simp_all
  then show "y_logger (InitializeIO mem lmem s) \<noteq> None" "free_above 91 257 (kmem (y_k (InitializeIO mem lmem s)))"
    by (simp_all add: InitializeIO_def n0 n1 n2 n3 set_heap_def set_mem_def kmem_def)
qed

lemma CreateTask_free:
  assumes "free_above lo hi (kmem k)" "lo + 17 \<le> hi"
  shows "fst (CreateTask k e) \<noteq> 0"
proof -
  obtain t mm where a: "Allocate (kmem k) sizeof_Task = (t, mm)" by fastforce
  obtain st mm1 where b: "Allocate mm kKernelStackSize = (st, mm1)" by fastforce
  have s: "admissible sizeof_Task" "admissible kKernelStackSize" "frames_of sizeof_Task \<le> 1" "frames_of kKernelStackSize \<le> 16"
    by (simp_all add: admissible_def frames_of_def sizeof_Task_def kKernelStackSize_def kFrameSize_def)
  note A = free_above_Allocate [OF assms(1) s(1)]
  have "t \<noteq> 0" "free_above (lo + frames_of sizeof_Task) hi mm" using A(1,3) s(3) assms(2) a by simp_all
  moreover from free_above_Allocate(1) [OF this(2) s(2)] have "st \<noteq> 0" using b s(3,4) assms(2) by simp
  ultimately show ?thesis using a b by (simp add: CreateTask_def set_mem_def kmem_def Let_def)
qed

lemma sample_boot:
  "\<exists>r1. KernelMain serial_machine sample_platform sample_mode sample_map sample_start = Some r1 \<and> g_idle_task r1 \<noteq> 0"
proof -
  define con where "con = Some (Console_new sample_mode 0xFFFFFFFF kDesktopBG (replicate 32 0),
    FillRectangle sample_mode 0 0 (uint (HorizontalResolution sample_mode)) (uint (VerticalResolution sample_mode)) kDesktopBG (fresh_frame sample_platform))"
  define os0 where "os0 = on_sys (\<lambda>s. s\<lparr>y_con := con\<rparr>) (r_os sample_start)"
  have e0: "mm_range_end (kmem (y_k (os_sys os0))) = 0" by (simp add: os0_def on_sys_def sample_start_fields(4))
  obtain mm where mm: "Initialize_mm 0 0x1000 0x3000 sample_map = Some mm" "free_above 3 257 mm" using sample_map_memory by blast
  have pages: "Initialize_pages pm \<noteq> None" if "pg_mm pm = snd (Allocate mm 16384)" for pm
  proof -
    have "free_above 7 257 (snd (Allocate mm 16384))" using free_above_Allocate(3) [OF mm(2) boot_sizes(1)] boot_sizes(3) by simp
    then have "fst (AllocateFrame (pg_mm pm)) \<noteq> 0"
      using free_above_take(1) [of 7 257 "pg_mm pm"] that by simp
    then show ?thesis by (auto simp: Initialize_pages_def AllocateTable_def Let_def split: prod.split)
  qed
  have "InitializeCore serial_machine sample_platform sample_map os0 \<noteq> None"
    using e0 mm(1) pages [of "(k_pg (y_k (os_sys os0)))\<lparr>pg_mm := snd (Allocate mm 16384)\<rparr>"]
    by (auto simp: InitializeCore_def Let_def on_hw_y_k sample_platform_def set_mem_def split: prod.splits)
  then obtain os1 where os1: "InitializeCore serial_machine sample_platform sample_map os0 = Some os1" by blast
  have "kmem (y_k (os_sys os1)) = core_memory mm"
    using InitializeCore_memory [OF os1] e0 mm(1) by (auto simp: sample_platform_def)
  then have io: "y_logger (InitializeIO m l (os_sys os1)) \<noteq> None" "free_above 91 257 (kmem (y_k (InitializeIO m l (os_sys os1))))" for m l
    using InitializeIO_free [of "os_sys os1"] core_memory_free [OF mm(2)] by simp_all
  obtain os ph where d: "boot_devices serial_machine sample_platform sample_mode sample_map (r_os sample_start) = Some (os, ph)"
    "ph_nvme ph = None" "y_logger (os_sys os) \<noteq> None" "free_above 91 257 (kmem (y_k (os_sys os)))"
    using io os1 by (simp add: boot_devices_def Let_def con_def [symmetric] os0_def [symmetric] no_pci_devices set_mem_def kmem_def)
  have "boot_tasks serial_machine sample_platform (sample_start\<lparr>r_os := os\<rparr>) \<noteq> None"
    using d(3) by (auto simp: boot_tasks_def log_info_def Let_def split: prod.splits)
  then obtain r1 where r1: "boot_tasks serial_machine sample_platform (sample_start\<lparr>r_os := os\<rparr>) = Some r1" by blast
  obtain k0 where "k_pg k0 = k_pg (y_k (os_sys os))" "g_idle_task r1 = fst (CreateTask k0 (idle_entry sample_platform))"
    using boot_tasks_result [OF r1] by auto
  moreover have "fst (CreateTask k0 e) \<noteq> 0" if "k_pg k0 = k_pg (y_k (os_sys os))" for k0 e
    by (rule CreateTask_free [of 91 257]) (use d(4) that in \<open>simp_all add: kmem_def\<close>)
  ultimately show ?thesis using r1 d(1,2) by (auto simp: KernelMain_def boot_disk_def)
qed


theorem first_tick_runs_idle_witness:
  "\<exists>r1 s2. KernelMain serial_machine sample_platform sample_mode sample_map sample_start = Some r1 \<and>
     s2 = os_sys (TimerHandler serial_machine (r_os r1)) \<and>
     g_idle_task r1 \<noteq> 0 \<and> current_task (k_tm (y_k s2)) = g_idle_task r1 \<and>
     k_stack (y_k s2) (ctx_gpr (sch_cpu (y_sched s2)) RSP) = 0x6000 \<and> bit (ctx_rflags (sch_cpu (y_sched s2))) 9"
proof -
  obtain r1 where r: "KernelMain serial_machine sample_platform sample_mode sample_map sample_start = Some r1" "g_idle_task r1 \<noteq> 0"
    using sample_boot by blast
  have "idle_entry sample_platform = 0x6000" by (simp add: sample_platform_def)
  with first_tick_runs_idle [OF r(1) sample_start_fields(3) refl refl refl] r show ?thesis by metis
qed

end
