(* ===== verification/UserApps.thy ===== *)
theory UserApps
  imports Shell
begin

text \<open>
  The programs in user mode (apps/shell/main.cpp, apps/stdio/main.cpp, apps/test/main.cpp) and the
  wrappers of the system calls they use (apps/_header/syscall.hpp), on top of the system calls of the
  kernel. The memory of a program is the memory of its address space: before a call the bytes it passes
  are stored at their addresses, which the compiler chooses. A result \<open>None\<close> is an execution outside the
  promises of the language, such as the overrun of a local array, or a call that does not return.
\<close>

section \<open>System call wrappers\<close>

text \<open>The program: parameters of the kernel, and where it keeps literals, its line, the file buffer, the path and \<open>argv\<close>.\<close>

record 'u Prog =
  pr_ldr :: elf_loader
  pr_entry :: u64
  pr_poll :: "'u \<Rightarrow> bytes \<times> 'u"
  pr_lit :: "bytes \<Rightarrow> u64"
  pr_line :: u64
  pr_buf :: u64
  pr_path :: u64
  pr_argv :: u64

definition Syscall3 :: "'u Prog \<Rightarrow> u64 \<Rightarrow> u64 \<Rightarrow> u64 \<Rightarrow> u64 \<Rightarrow> ('d, 'u) Sys \<Rightarrow> (u64 \<times> ('d, 'u) Sys) option" where
  "Syscall3 P number arg1 arg2 arg3 s = do {
     (v, s) \<leftarrow> SyscallHandler (pr_ldr P) (pr_entry P) (pr_poll P) s number arg1 arg2 arg3;
     ret \<leftarrow> v;
     Some (ret, s) }"

definition Syscall1 :: "'u Prog \<Rightarrow> u64 \<Rightarrow> u64 \<Rightarrow> ('d, 'u) Sys \<Rightarrow> (u64 \<times> ('d, 'u) Sys) option" where
  "Syscall1 P number arg1 s = Syscall3 P number arg1 0 0 s"

definition u_int :: "u64 \<Rightarrow> int" where
  "u_int v = sint (ucast v :: u32)"

definition u_PutChar :: "'u Prog \<Rightarrow> u8 \<Rightarrow> ('d, 'u) Sys \<Rightarrow> ('d, 'u) Sys option" where
  "u_PutChar P c s = map_option snd (Syscall1 P 1 (scast c) s)"

text \<open>\<open>Exit\<close> does not return: the state in which the kernel goes on.\<close>

definition u_Exit :: "'u Prog \<Rightarrow> ('d, 'u) Sys \<Rightarrow> ('d, 'u) Sys option" where
  "u_Exit P s = map_option snd (SyscallHandler (pr_ldr P) (pr_entry P) (pr_poll P) s 2 0 0 0)"

definition u_Read :: "'u Prog \<Rightarrow> int \<Rightarrow> u64 \<Rightarrow> int \<Rightarrow> ('d, 'u) Sys \<Rightarrow> (int \<times> ('d, 'u) Sys) option" where
  "u_Read P fd buf len s = map_option (apfst u_int) (Syscall3 P 5 (of_int fd) buf (of_int len) s)"

definition u_Write :: "'u Prog \<Rightarrow> int \<Rightarrow> u64 \<Rightarrow> int \<Rightarrow> ('d, 'u) Sys \<Rightarrow> (int \<times> ('d, 'u) Sys) option" where
  "u_Write P fd buf len s = map_option (apfst u_int) (Syscall3 P 6 (of_int fd) buf (of_int len) s)"

text \<open>\<open>Print\<close> of the string at an address, and of a literal.\<close>

definition Print_at :: "'u Prog \<Rightarrow> u64 \<Rightarrow> ('d, 'u) Sys \<Rightarrow> ('d, 'u) Sys option" where
  "Print_at P a s = do { bs \<leftarrow> str_at (umem s) a; map_option snd (u_Write P 1 a (int (length bs)) s) }"

definition u_Print :: "'u Prog \<Rightarrow> bytes \<Rightarrow> ('d, 'u) Sys \<Rightarrow> ('d, 'u) Sys option" where
  "u_Print P lit s = Print_at P (pr_lit P lit) (copy_out s (pr_lit P lit) (lit @ [0]))"

definition u_ListDirectory :: "'u Prog \<Rightarrow> u32 \<Rightarrow> ('d, 'u) Sys \<Rightarrow> ('d, 'u) Sys option" where
  "u_ListDirectory P cluster s = map_option snd (Syscall1 P 3 (ucast cluster) s)"

definition u_ReadFile :: "'u Prog \<Rightarrow> u64 \<Rightarrow> u64 \<Rightarrow> int \<Rightarrow> ('d, 'u) Sys \<Rightarrow> (int \<times> ('d, 'u) Sys) option" where
  "u_ReadFile P name buf len s = map_option (apfst u_int) (Syscall3 P 4 name buf (of_int len) s)"

definition u_Spawn :: "'u Prog \<Rightarrow> u64 \<Rightarrow> int \<Rightarrow> u64 \<Rightarrow> ('d, 'u) Sys \<Rightarrow> (u64 \<times> ('d, 'u) Sys) option" where
  "u_Spawn P name argc argv s = Syscall3 P 20 name (of_int argc) argv s"

definition u_Open :: "'u Prog \<Rightarrow> u64 \<Rightarrow> int \<Rightarrow> ('d, 'u) Sys \<Rightarrow> (int \<times> ('d, 'u) Sys) option" where
  "u_Open P name flags s = map_option (apfst u_int) (Syscall3 P 21 name (of_int flags) 0 s)"

definition u_Close :: "'u Prog \<Rightarrow> int \<Rightarrow> ('d, 'u) Sys \<Rightarrow> (int \<times> ('d, 'u) Sys) option" where
  "u_Close P fd s = map_option (apfst u_int) (Syscall1 P 22 (of_int fd) s)"

definition u_DeleteFile :: "'u Prog \<Rightarrow> u64 \<Rightarrow> ('d, 'u) Sys \<Rightarrow> (int \<times> ('d, 'u) Sys) option" where
  "u_DeleteFile P name s = map_option (apfst u_int) (Syscall1 P 23 name s)"

definition u_Yield :: "'u Prog \<Rightarrow> ('d, 'u) Sys \<Rightarrow> ('d, 'u) Sys option" where
  "u_Yield P s = map_option snd (Syscall3 P 10 0 0 0 s)"

section \<open>The shell in user mode\<close>

record UShell =
  us_buffer :: bytes
  us_cursor :: nat
  prompt_shown :: bool

definition us_kMaxCommandLen :: nat where
  "us_kMaxCommandLen = 256"

definition UShell_new :: UShell where
  "UShell_new = \<lparr>us_buffer = replicate us_kMaxCommandLen 0, us_cursor = 0, prompt_shown = False\<rparr>"

definition us_PrintPrompt :: "'u Prog \<Rightarrow> UShell \<Rightarrow> ('d, 'u) Sys \<Rightarrow> (UShell \<times> ('d, 'u) Sys) option" where
  "us_PrintPrompt P sh s = do { s \<leftarrow> u_Print P (str ''Sylphia:/$ '') s; Some (sh\<lparr>prompt_shown := True\<rparr>, s) }"

fun print_all :: "'u Prog \<Rightarrow> bytes list \<Rightarrow> ('d, 'u) Sys \<Rightarrow> ('d, 'u) Sys option" where
  "print_all P [] s = Some s"
| "print_all P (b # bs) s = Option.bind (u_Print P b s) (print_all P bs)"

text \<open>The commands; \<open>args\<close> are the offsets of the words in the buffer. The first result is whether the program ended.\<close>

definition us_cat :: "'u Prog \<Rightarrow> nat list \<Rightarrow> ('d, 'u) Sys \<Rightarrow> ('d, 'u) Sys option" where
  "us_cat P args s =
     (if length args > 1 then do {
        (n, s) \<leftarrow> u_ReadFile P (pr_line P + of_nat (args ! 1)) (pr_buf P) 4095 (copy_out s (pr_buf P) (replicate 4096 0));
        if n > 0 then do {
          s \<leftarrow> Print_at P (pr_buf P) (copy_out s (pr_buf P + of_int n) [0]);
          u_Print P NL s }
        else u_Print P (str ''Error: File not found or empty.'' @ NL) s }
      else u_Print P (str ''Usage: cat <filename>'' @ NL) s)"

definition us_rm :: "'u Prog \<Rightarrow> nat list \<Rightarrow> ('d, 'u) Sys \<Rightarrow> ('d, 'u) Sys option" where
  "us_rm P args s =
     (if length args > 1 then do {
        let name = pr_line P + of_nat (args ! 1);
        (r, s) \<leftarrow> u_DeleteFile P name s;
        s \<leftarrow> u_Print P (if r = 0 then str ''Deleted '' else str ''Could not delete '') s;
        s \<leftarrow> Print_at P name s;
        u_Print P NL s }
      else u_Print P (str ''Usage: rm <filename>'' @ NL) s)"

definition us_external :: "'u Prog \<Rightarrow> bytes \<Rightarrow> nat list \<Rightarrow> UShell \<Rightarrow> ('d, 'u) Sys \<Rightarrow> (UShell \<times> ('d, 'u) Sys) option" where
  "us_external P cmd args sh s =
     (let file = c_strcat (c_strcpy (str ''/sys/bin/'')) cmd
      in if length file > 64 then None
         else do {
           let s = copy_out s (pr_path P) file;
           let s = copy_out s (pr_argv P) (concat (map (\<lambda>i. le64_put (pr_line P + of_nat i)) args));
           (task_id, s) \<leftarrow> u_Spawn P (pr_path P) (int (length args)) (pr_argv P) s;
           if task_id = 0 then do {
             s \<leftarrow> u_Print P (str ''Unknown command: '') s;
             s \<leftarrow> Print_at P (pr_line P + of_nat (args ! 0)) s;
             s \<leftarrow> u_Print P NL s;
             Some (sh, s) }
           else Some (sh\<lparr>prompt_shown := False\<rparr>, s) })"

definition us_ExecuteCommand :: "'u Prog \<Rightarrow> UShell \<Rightarrow> ('d, 'u) Sys \<Rightarrow> (bool \<times> UShell \<times> ('d, 'u) Sys) option" where
  "us_ExecuteCommand P sh s =
     (if us_cursor sh = 0 then Some (False, sh, s)
      else
        let (args, buf) = split_args (us_buffer sh) 0 [];
            sh = sh\<lparr>us_buffer := buf\<rparr>;
            s = copy_out s (pr_line P) buf;
            go = map_option (\<lambda>s. (False, sh, s))
        in if args = [] then Some (False, sh, s)
           else
             let cmd = arg_string buf (args ! 0)
             in if c_strcmp cmd (str ''clear'') = 0 then go (print_all P (replicate 30 NL) s)
                else if c_strcmp cmd (str ''echo'') = 0 then
                  go (if length args > 1 then do { s \<leftarrow> Print_at P (pr_line P + of_nat (args ! 1)) s; u_Print P NL s } else Some s)
                else if c_strcmp cmd (str ''ls'') = 0 then go (u_ListDirectory P 0 s)
                else if c_strcmp cmd (str ''cat'') = 0 then go (us_cat P args s)
                else if c_strcmp cmd (str ''rm'') = 0 then go (us_rm P args s)
                else if c_strcmp cmd (str ''sys'') = 0 then
                  go (print_all P [str ''=============== Sylphia-OS ZERO ==============='' @ NL, str ''Shell running in user mode!'' @ NL,
                    str ''Rust'' @ NL, str ''==============================================='' @ NL] s)
                else if c_strcmp cmd (str ''exit'') = 0 then
                  do { s \<leftarrow> u_Print P (str ''Exiting shell...'' @ NL) s; s \<leftarrow> u_Exit P s; Some (True, sh, s) }
                else map_option (Pair False) (us_external P cmd args sh s))"

definition us_OnKey :: "'u Prog \<Rightarrow> u8 \<Rightarrow> UShell \<Rightarrow> ('d, 'u) Sys \<Rightarrow> (bool \<times> UShell \<times> ('d, 'u) Sys) option" where
  "us_OnKey P c sh s =
     (if c = 0 then Some (False, sh, s)
      else do {
        (sh, s) \<leftarrow> (if \<not> prompt_shown sh then us_PrintPrompt P sh s else Some (sh, s));
        if c = 0x0A then do {
          s \<leftarrow> u_Print P NL s;
          (ended, sh, s) \<leftarrow> us_ExecuteCommand P sh s;
          if ended then Some (True, sh, s)
          else do {
            let sh = sh\<lparr>us_cursor := 0, us_buffer := replicate us_kMaxCommandLen 0\<rparr>;
            (sh, s) \<leftarrow> (if prompt_shown sh then us_PrintPrompt P sh s else Some (sh, s));
            Some (False, sh, s) } }
        else if c = 0x08 then
          (if us_cursor sh > 0
           then do {
             let sh = sh\<lparr>us_cursor := us_cursor sh - 1, us_buffer := (us_buffer sh)[us_cursor sh - 1 := 0]\<rparr>;
             s \<leftarrow> u_Print P [0x08] s;
             Some (False, sh, s) }
           else Some (False, sh, s))
        else if us_cursor sh < us_kMaxCommandLen - 1
        then do {
          let sh = sh\<lparr>us_buffer := (us_buffer sh)[us_cursor sh := c], us_cursor := us_cursor sh + 1\<rparr>;
          s \<leftarrow> u_Print P [c] s;
          Some (False, sh, s) }
        else Some (False, sh, s) })"

fun us_keys :: "'u Prog \<Rightarrow> bytes \<Rightarrow> UShell \<Rightarrow> ('d, 'u) Sys \<Rightarrow> (bool \<times> UShell \<times> ('d, 'u) Sys) option" where
  "us_keys P [] sh s = Some (False, sh, s)"
| "us_keys P (c # cs) sh s = do {
     (ended, sh, s) \<leftarrow> us_OnKey P c sh s;
     if ended then Some (True, sh, s) else us_keys P cs sh s }"

text \<open>
  \<open>Run\<close>: the start, and one pass of the loop up to the call of \<open>Yield\<close>, after which other tasks run until the
  scheduler comes back to the shell.
\<close>

definition us_start :: "'u Prog \<Rightarrow> UShell \<Rightarrow> ('d, 'u) Sys \<Rightarrow> (UShell \<times> ('d, 'u) Sys) option" where
  "us_start P sh s = do { s \<leftarrow> u_Print P (NL @ str ''Welcome to Sylphia-OS Shell!'' @ NL) s; us_PrintPrompt P sh s }"

definition us_pass :: "'u Prog \<Rightarrow> UShell \<Rightarrow> ('d, 'u) Sys \<Rightarrow> (bool \<times> UShell \<times> ('d, 'u) Sys) option" where
  "us_pass P sh s = do {
     (len, s) \<leftarrow> u_Read P 0 (pr_buf P) 16 s;
     (ended, sh, s) \<leftarrow> us_keys P (mem_load (umem s) (pr_buf P) (nat len)) sh s;
     if ended then Some (True, sh, s) else do { s \<leftarrow> u_Yield P s; Some (False, sh, s) } }"

section \<open>The two test programs\<close>

text \<open>\<open>stdio\<close>: echo until a block of input starts with q. The loop may run for ever: \<open>None\<close>.\<close>

partial_function (option) stdio_loop :: "'u Prog \<Rightarrow> ('d, 'u) Sys \<Rightarrow> ('d, 'u) Sys option" where
  "stdio_loop P s =
     Option.bind (u_Read P 0 (pr_buf P) 128 s) (\<lambda>(read_len, s).
     Option.bind (if read_len > 0 then map_option snd (u_Write P 1 (pr_buf P) read_len s) else Some s) (\<lambda>s.
       if read_len > 0 \<and> umem s (pr_buf P) = 0x71 then Some s else stdio_loop P s))"

definition stdio_main :: "'u Prog \<Rightarrow> ('d, 'u) Sys \<Rightarrow> ('d, 'u) Sys option" where
  "stdio_main P s = do {
     s \<leftarrow> u_Print P (str ''Standard I/O Test App'' @ NL @ str ''Type something and press Enter (or just type):'' @ NL) s;
     s \<leftarrow> stdio_loop P s;
     s \<leftarrow> u_Print P (NL @ str ''Exiting...'' @ NL) s;
     u_Exit P s }"

fun put_chars :: "'u Prog \<Rightarrow> bytes \<Rightarrow> ('d, 'u) Sys \<Rightarrow> ('d, 'u) Sys option" where
  "put_chars P [] s = Some s"
| "put_chars P (c # cs) s = Option.bind (u_PutChar P c s) (put_chars P cs)"

text \<open>
  The helpers of the test program that its \<open>main\<close> does not call: decimal and hexadecimal output. The
  negation of the least number overflows: \<open>None\<close>.
\<close>

function print_int :: "'u Prog \<Rightarrow> int \<Rightarrow> ('d, 'u) Sys \<Rightarrow> ('d, 'u) Sys option" where
  "print_int P n s =
     (if n \<le> - (2 ^ 31) then None
      else do {
        s \<leftarrow> (if n < 0 then u_PutChar P 0x2D s else Some s);
        let n = (if n < 0 then - n else n);
        s \<leftarrow> (if n div 10 \<noteq> 0 then print_int P (n div 10) s else Some s);
        u_PutChar P (of_int (n mod 10) + 0x30) s })"
  by pat_completeness auto
termination
  by (relation "measure (\<lambda>(P, n, s). nat (abs n))") auto

declare print_int.simps [simp del]

definition nibble_char :: "u64 \<Rightarrow> u8" where
  "nibble_char nibble = (if nibble < 10 then ucast nibble + 0x30 else ucast nibble - 10 + 0x41)"

definition print_hex :: "'u Prog \<Rightarrow> u64 \<Rightarrow> ('d, 'u) Sys \<Rightarrow> ('d, 'u) Sys option" where
  "print_hex P n s =
     put_chars P (str ''0x'' @ map (\<lambda>i. nibble_char (drop_bit (i * 4) n AND 0xF)) (rev [0..<16])) s"

definition test_main :: "'u Prog \<Rightarrow> ('d, 'u) Sys \<Rightarrow> ('d, 'u) Sys option" where
  "test_main P s = do { s \<leftarrow> put_chars P (str ''Hi!'' @ NL) s; u_Exit P s }"


section \<open>Output of a program\<close>

lemma copy_out_frame [simp]:
  "y_con (copy_out s a bs) = y_con s" "umem (copy_out s a bs) = mem_write a bs (umem s)" "umem (s\<lparr>y_con := c\<rparr>) = umem s"
  by (simp_all add: copy_out_def umem_def y_cr3_def)

lemma fds_ok_stdout:
  assumes "fds_ok (y_fds s)"
  obtains p where "fd_at s 1 = Some (p, ConsoleObj)"
proof -
  have "slot_ok 1 (y_fds s ! 1)" using assms by (simp add: fds_ok_def)
  then show thesis using that by (auto simp: slot_ok_def fd_at_def)
qed

text \<open>A string of at most 255 characters is shown in full; a longer one makes the kernel read past its buffer.\<close>

lemma Print_at_shows:
  assumes "fds_ok (y_fds s)" "mem_load (umem s) a n = bs" "umem s (a + of_nat n) = 0" "0 \<notin> set bs" "n \<le> 255"
  shows "Print_at P a s = Some (s\<lparr>y_con := shown (y_con s) bs\<rparr>)"
proof -
  obtain p where p: "fd_at s 1 = Some (p, ConsoleObj)" using fds_ok_stdout [OF assms(1)] .
  have l: "length bs = n" using assms(2) by auto
  have st: "str_at (umem s) a = Some bs" using str_at_load [of "umem s" a n] assms(2-4) by simp
  have i: "fd_index 1 = 1" using fd_index_of_nat [of 1] by simp
  have u: "unat (of_int (int n) :: u64) = n" using assms(5) by (simp add: unat_of_nat)
  have w: "SysWrite s 1 a (of_int (int n)) = Some (of_int (int (fst (ConsoleFD_Write (y_con s) bs))), s\<lparr>y_con := shown (y_con s) bs\<rparr>)"
    using p assms(2,5) console_shown [OF assms(4), of "y_con s"] l
    by (simp only: SysWrite_def i u Let_def) (simp add: fd_Write_def min_absorb1 split_beta)
  show ?thesis using st w l by (simp add: Print_at_def u_Write_def Syscall3_def SyscallHandler_def)
qed

lemma Print_at_long:
  assumes "fds_ok (y_fds s)" "str_at (umem s) a = Some bs" "256 < length bs" "length bs < 2 ^ 31"
  shows "Print_at P a s = None"
proof -
  obtain p where p: "fd_at s 1 = Some (p, ConsoleObj)" using fds_ok_stdout [OF assms(1)] .
  have i: "fd_index 1 = 1" using fd_index_of_nat [of 1] by simp
  have u: "unat (of_int (int (length bs)) :: u64) = length bs" using assms(4) by (simp add: unat_of_nat)
  have "SysWrite s 1 a (of_int (int (length bs))) = None"
    using p assms(3) by (simp only: SysWrite_def i u Let_def) simp
  then show ?thesis using assms(2) by (simp add: Print_at_def u_Write_def Syscall3_def SyscallHandler_def)
qed

lemma u_Print_shows:
  assumes "fds_ok (y_fds s)" "0 \<notin> set lit" "length lit \<le> 255" "unat (pr_lit P lit) + 256 \<le> 2 ^ 64"
  shows "\<exists>s'. u_Print P lit s = Some s' \<and> y_fds s' = y_fds s \<and> y_con s' = shown (y_con s) lit"
proof -
  let ?a = "pr_lit P lit" and ?s = "copy_out s (pr_lit P lit) (lit @ [0])"
  have l: "mem_load (umem ?s) ?a (length (lit @ [0])) = lit @ [0]"
    using mem_load_write [of ?a "lit @ [0]"] assms(3,4) by simp
  have "mem_load (umem ?s) ?a (length lit) = take (length lit) (mem_load (umem ?s) ?a (length (lit @ [0])))"
    by (rule nth_equalityI) simp_all
  then have m: "mem_load (umem ?s) ?a (length lit) = lit" unfolding l by simp
  have "umem ?s (?a + of_nat (length lit)) = mem_load (umem ?s) ?a (length (lit @ [0])) ! length lit" by simp
  then have z: "umem ?s (?a + of_nat (length lit)) = 0" unfolding l by simp
  show ?thesis
    using Print_at_shows [of ?s ?a "length lit" lit P] assms(1-3) m z by (simp add: u_Print_def)
qed


section \<open>A typed command\<close>

definition key :: "u8 \<Rightarrow> bool" where
  "key c \<longleftrightarrow> c \<noteq> 0 \<and> c \<noteq> 0x0A \<and> c \<noteq> 0x08"

definition padded :: "bytes \<Rightarrow> bytes" where
  "padded line = line @ replicate (us_kMaxCommandLen - length line) 0"

definition typed_shell :: "bytes \<Rightarrow> UShell" where
  "typed_shell line = \<lparr>us_buffer = padded line, us_cursor = length line, prompt_shown = True\<rparr>"

lemma padded_next: "length line < 255 \<Longrightarrow> (padded line)[length line := c] = padded (line @ [c])"
proof -
  assume l: "length line < 255"
  then have "256 - length line = Suc (255 - length line)" by arith
  then have "replicate (256 - length line) 0 = (0 :: u8) # replicate (255 - length line) 0" by (simp only: replicate_Suc)
  then show ?thesis by (simp add: padded_def us_kMaxCommandLen_def)
qed

lemma us_keys_line:
  assumes "\<And>c. unat (pr_lit P [c]) + 256 \<le> 2 ^ 64" "fds_ok (y_fds s)" "\<forall>c\<in>set line. key c" "length typed + length line \<le> 255"
  shows "\<exists>s'. us_keys P (line @ rest) (typed_shell typed) s = us_keys P rest (typed_shell (typed @ line)) s' \<and>
    y_fds s' = y_fds s \<and> y_con s' = shown (y_con s) line"
  using assms(2-4)
proof (induction line arbitrary: typed s)
  case Nil
  then show ?case by auto
next
  case (Cons c line)
  have k: "c \<noteq> 0" "c \<noteq> 0x0A" "c \<noteq> 0x08" using Cons.prems(2) by (auto simp: key_def)
  obtain s1 where s1: "u_Print P [c] s = Some s1" "y_fds s1 = y_fds s" "y_con s1 = shown (y_con s) [c]"
    using u_Print_shows [OF Cons.prems(1), of "[c]" P] k(1) assms(1) [of c] by auto
  have "us_OnKey P c (typed_shell typed) s = Some (False, typed_shell (typed @ [c]), s1)"
    using k s1(1) Cons.prems(3) padded_next [of typed c] by (simp add: us_OnKey_def typed_shell_def us_kMaxCommandLen_def)
  moreover obtain s2 where "us_keys P (line @ rest) (typed_shell (typed @ [c])) s1 = us_keys P rest (typed_shell ((typed @ [c]) @ line)) s2"
    "y_fds s2 = y_fds s1" "y_con s2 = shown (y_con s1) line"
    using Cons.IH [of s1 "typed @ [c]"] Cons.prems s1(2) by auto
  ultimately show ?case using s1 shown_shown [of "[c]" "y_con s" line] k(1) by auto
qed

text \<open>A word of the line as the kernel finds it in the memory of the program.\<close>

lemma word_in_memory:
  assumes "arg_string buf off = w" "off < length buf" "buf \<noteq> []" "last buf = 0" "unat a + length buf \<le> 2 ^ 64" "m' = mem_write a buf m"
  shows "mem_load m' (a + of_nat off) (length w) = w" "m' (a + of_nat off + of_nat (length w)) = 0" "0 \<notin> set w" "off + length w < length buf"
proof -
  have w: "w = takeWhile (\<lambda>b. b \<noteq> 0) (drop off buf)" using assms(1) by (simp add: arg_string_def cstr_def)
  have "last (drop off buf) = 0" "drop off buf \<noteq> []" using assms(2,4) by (simp_all add: last_drop)
  then have "\<exists>b \<in> set (drop off buf). \<not> b \<noteq> 0" using last_in_set by metis
  then have "dropWhile (\<lambda>b. b \<noteq> 0) (drop off buf) \<noteq> []" by (auto simp: dropWhile_eq_Nil_conv)
  then have lt: "length w < length (drop off buf)"
    using arg_cong [OF takeWhile_dropWhile_id [of "\<lambda>b. b \<noteq> 0" "drop off buf"], of length] unfolding w [symmetric]
    by (metis length_append length_greater_0_conv less_add_same_cancel1)
  then show len: "off + length w < length buf" by simp
  have l: "mem_load m' a (length buf) = buf" using mem_load_write [OF assms(5), of m] assms(6) by simp
  have at: "m' (a + of_nat i) = buf ! i" if "i < length buf" for i using nth_mem_load [OF that, of m' a] l by simp
  show "0 \<notin> set w" unfolding w by (auto dest: set_takeWhileD)
  have wi: "w ! i = buf ! (off + i)" if "i < length w" for i
    using that takeWhile_nth [of i "\<lambda>b. b \<noteq> 0" "drop off buf"] lt unfolding w [symmetric] by simp
  show "mem_load m' (a + of_nat off) (length w) = w"
  proof (rule nth_equalityI)
    fix i assume "i < length (mem_load m' (a + of_nat off) (length w))"
    then have i: "i < length w" by simp
    have "m' (a + of_nat off + of_nat i) = m' (a + of_nat (off + i))" by (simp add: add.assoc)
    then show "mem_load m' (a + of_nat off) (length w) ! i = w ! i" using i wi [OF i] at [of "off + i"] len by simp
  qed simp
  have "drop off buf ! length w = 0" using lt nth_length_takeWhile [of "\<lambda>b. b \<noteq> 0" "drop off buf"] unfolding w [symmetric] by simp
  then have "buf ! (off + length w) = 0" using len by simp
  moreover have "m' (a + of_nat off + of_nat (length w)) = m' (a + of_nat (off + length w))" by (simp add: add.assoc)
  ultimately show "m' (a + of_nat off + of_nat (length w)) = 0" using at [OF len] by simp
qed


lemma split_args_below:
  "split_args buf p argv = (argv', buf') \<Longrightarrow> \<forall>i\<in>set argv. i < length buf \<Longrightarrow> (\<forall>i\<in>set argv'. i < length buf) \<and> length buf' = length buf"
proof (induction buf p argv arbitrary: argv' buf' rule: split_args.induct)
  case (1 buf p argv)
  obtain buf1 p1 where s: "skip_spaces buf p = (buf1, p1)" by fastforce
  have l: "length buf1 = length buf" using skip_spaces_grows [OF s] by simp
  show ?case
  proof (cases "p < length buf \<and> buf ! p \<noteq> 0 \<and> p1 < length buf1 \<and> buf1 ! p1 \<noteq> 0 \<and> \<not> length (argv @ [p1]) \<ge> 32")
    case True
    then have "split_args buf1 (skip_word buf1 p1) (argv @ [p1]) = (argv', buf')"
      using "1.prems"(1) s by (subst (asm) split_args.simps) simp
    then show ?thesis using "1.IH" [OF _ s [symmetric] refl _ refl] True "1.prems"(2) l by auto
  next
    case False
    then show ?thesis
      using "1.prems" s l by (subst (asm) (1) split_args.simps) (auto split: if_splits)
  qed
qed

text \<open>
  C19: a command typed in the shell. When the words of a typed line of at most 255 characters are \<open>echo\<close>, a word w
  and at most 29 more, then typing it with the Enter key on an empty line shows the line as it is typed, a new line,
  w, a new line and the prompt, and leaves the shell with an empty line and the descriptors as they are; further words
  are not shown.
\<close>

theorem user_shell_echo:
  assumes "\<And>lit. unat (pr_lit P lit) + 256 \<le> 2 ^ 64" "unat (pr_line P) + 256 \<le> 2 ^ 64"
    and "fds_ok (y_fds s)" "\<forall>c\<in>set line. key c" "length line \<le> 255"
    and "words line = str ''echo'' # w # ws" "length (words line) < 32"
  shows "\<exists>s'. us_keys P (line @ [0x0A]) (typed_shell []) s = Some (False, typed_shell [], s') \<and> y_fds s' = y_fds s \<and>
    y_con s' = shown (y_con s) (line @ NL @ w @ NL @ str ''Sylphia:/$ '')"
proof -
  have nl: "0 \<notin> set NL" "length NL \<le> 255" "0 \<notin> set (str ''Sylphia:/$ '')" "length (str ''Sylphia:/$ '') \<le> 255"
    by (simp_all add: str_def chr_def)
  have z: "0 \<notin> set line" using assms(4) by (auto simp: key_def)
  obtain s1 where s1: "us_keys P (line @ [0x0A]) (typed_shell []) s = us_keys P [0x0A] (typed_shell line) s1"
    "y_fds s1 = y_fds s" "y_con s1 = shown (y_con s) line"
    using us_keys_line [of P s line "[]" "[0x0A]"] assms(1,3-5) by auto
  obtain s2 where s2: "u_Print P NL s1 = Some s2" "y_fds s2 = y_fds s" "y_con s2 = shown (y_con s1) NL"
    using u_Print_shows [of s1 NL P] assms(1,3) nl(1,2) s1(2) by auto
  have "padded line = [] @ line @ 0 # replicate (255 - length line) 0"
    using assms(5) by (simp add: padded_def us_kMaxCommandLen_def Suc_diff_le flip: replicate_Suc)
  then obtain offs buf where o: "split_args (padded line) 0 [] = (offs, buf)" "map (arg_string buf) offs = words line"
    "buf = cut_spaces line @ 0 # replicate (255 - length line) 0"
    using split_args_spec [OF z, of "[]" "[]" "replicate (255 - length line) 0"] assms(7) by auto
  have buf: "buf \<noteq> []" "last buf = 0" "length buf = 256" using assms(5) o(3) by (auto simp: cut_spaces_def last_append)
  obtain i j os where offs: "offs = i # j # os" "arg_string buf i = str ''echo''" "arg_string buf j = w"
    using o(2) assms(6) by (auto simp: map_eq_Cons_conv)
  have "j < length (padded line)" using split_args_below [OF o(1)] offs(1) by simp
  then have j: "j < length buf" using buf(3) assms(5) by (simp add: padded_def us_kMaxCommandLen_def)
  let ?s = "copy_out s2 (pr_line P) buf"
  note W = word_in_memory [OF offs(3) j buf(1,2), of "pr_line P" "umem ?s" "umem s2", unfolded buf(3)]
  have "Print_at P (pr_line P + of_nat j) ?s = Some (?s\<lparr>y_con := shown (y_con ?s) w\<rparr>)"
    by (rule Print_at_shows) (use W assms(2,3) s2(2) j buf(3) in auto)
  moreover obtain s3 where s3: "u_Print P NL (?s\<lparr>y_con := shown (y_con ?s) w\<rparr>) = Some s3" "y_fds s3 = y_fds s" "y_con s3 = shown (shown (y_con s2) w) NL"
    using u_Print_shows [of "?s\<lparr>y_con := shown (y_con ?s) w\<rparr>" NL P] assms(1,3) nl(1,2) s2(2) by auto
  moreover have "line \<noteq> []" using assms(6) by (auto simp: words_simps)
  ultimately have ex: "us_ExecuteCommand P (typed_shell line) s2 = Some (False, (typed_shell line)\<lparr>us_buffer := buf\<rparr>, s3)"
    using o(1) offs by (simp add: us_ExecuteCommand_def typed_shell_def c_strcmp_eq) (simp add: str_def chr_def cstr_def)
  obtain s4 where s4: "u_Print P (str ''Sylphia:/$ '') s3 = Some s4" "y_fds s4 = y_fds s" "y_con s4 = shown (y_con s3) (str ''Sylphia:/$ '')"
    using u_Print_shows [of s3 "str ''Sylphia:/$ ''" P] assms(1,3) nl(3,4) s3(2) by auto
  have "us_keys P [0x0A] (typed_shell line) s1 = Some (False, typed_shell [], s4)"
    using s2(1) ex s4(1) by (simp add: us_OnKey_def us_PrintPrompt_def typed_shell_def padded_def)
  moreover have "0 \<notin> set w" using W(3) assms(2) by simp
  ultimately show ?thesis using s1 s2(3) s3(3) s4(2,3) z nl by (auto simp: shown_shown)
qed


text \<open>
  \<open>cat\<close> hands the whole file to one \<open>Print\<close>: for more than 256 characters the kernel reads past the end of its
  buffer of 256 bytes.
\<close>

theorem cat_long_file:
  assumes "1 < length args" "u_ReadFile P (pr_line P + of_nat (args ! 1)) (pr_buf P) 4095 (copy_out s (pr_buf P) (replicate 4096 0)) = Some (n, s1)"
    and "0 < n" "fds_ok (y_fds s1)" "str_at (umem (copy_out s1 (pr_buf P + of_int n) [0])) (pr_buf P) = Some bs" "256 < length bs" "length bs < 4096"
  shows "us_cat P args s = None"
  using Print_at_long [of "copy_out s1 (pr_buf P + of_int n) [0]" "pr_buf P" bs P] assms by (simp add: us_cat_def)

text \<open>A command name of 55 or more characters overruns the array for the path.\<close>

theorem long_command_overruns:
  assumes "55 \<le> length (cstr cmd)"
  shows "us_external P cmd args sh s = None"
proof -
  have "length (c_strcat (c_strcpy (str ''/sys/bin/'')) cmd) = 10 + length (cstr cmd)"
    unfolding c_strcat_cstr c_strcpy_cstr by (simp add: str_def chr_def cstr_def)
  then show ?thesis using assms by (simp add: us_external_def Let_def)
qed

section \<open>Witnesses\<close>

definition sample_prog :: "unit Prog" where
  "sample_prog = \<lparr>pr_ldr = Rust, pr_entry = 0, pr_poll = (\<lambda>u. ([], u)), pr_lit = (\<lambda>_. 0x9000), pr_line = 0xA000, pr_buf = 0xB000,
     pr_path = 0xC000, pr_argv = 0xD000\<rparr>"

definition sample_user_sys :: "(unit, unit) Sys" where
  "sample_user_sys = (sample_sys None)\<lparr>y_con := Some (Console_new \<lparr>FrameBufferBase = 0, FrameBufferSize = 1024 * 1024,
     HorizontalResolution = 640, VerticalResolution = 400, PixelsPerScanLine = 640\<rparr> 0xFFFFFFFF 0 (replicate 32 0), \<lambda>_. 0)\<rparr>"

theorem user_shell_echo_witness:
  "\<exists>s'. us_keys sample_prog (str ''echo hi'' @ [0x0A]) (typed_shell []) sample_user_sys = Some (False, typed_shell [], s') \<and>
    y_con s' = shown (y_con sample_user_sys) (str ''echo hi'' @ NL @ str ''hi'' @ NL @ str ''Sylphia:/$ '')"
proof -
  let ?l = "str ''echo hi''"
  have "?l = str ''echo'' @ 0x20 # str ''hi''" by (simp add: str_def chr_def)
  moreover have "\<forall>c\<in>set (str ''echo''). c \<noteq> 0x20" "\<forall>c\<in>set (str ''hi''). c \<noteq> 0x20" "str ''echo'' \<noteq> []" "str ''hi'' \<noteq> []"
    by (simp_all add: str_def chr_def)
  ultimately have w: "words ?l = [str ''echo'', str ''hi'']" using words_word(1) [of "str ''echo''" "str ''hi''"] words_word(2) [of "str ''hi''"] by simp
  have k: "\<forall>c\<in>set ?l. key c" "length ?l \<le> 255" by (simp_all add: str_def chr_def key_def)
  have p: "unat (pr_lit sample_prog lit) + 256 \<le> 2 ^ 64" "unat (pr_line sample_prog) + 256 \<le> 2 ^ 64" for lit by (simp_all add: sample_prog_def)
  have "fds_ok (y_fds sample_user_sys)" "length (words ?l) < 32"
    using sample_sys_fds by (simp_all add: sample_user_sys_def w)
  then show ?thesis
    using user_shell_echo [where P = sample_prog and s = sample_user_sys, OF p _ k w] by auto
qed

end
