(* ===== verification/Bootloader.thy ===== *)
theory Bootloader
  imports AppLoad Graphics "HOL-Library.Monad_Syntax"
begin

text \<open>
  The boot loader (bootloader/main.c): it takes the graphics mode and the memory map from the
  firmware, loads the segments of kernel.elf to their addresses and calls the entry point of the kernel.
  The firmware is a parameter, one function for each service that uefi/uefi.h declares and the loader calls.
  Buffers that the firmware allocates are lists of bytes; they are apart from the kernel, whose pages the
  firmware has allocated too. A result \<open>None\<close> is one of the loops that stop the processor after an error
  message, a loop that does not end, or an access outside the bytes that were read. Messages are left out.
\<close>

section \<open>The firmware\<close>

text \<open>What \<open>GetMemoryMap\<close> returns: the size it needs or has used, and the map.\<close>

record MapInfo =
  mi_size :: u64
  mi_map :: "MemoryDescriptor list"
  mi_key :: u64
  mi_descriptor_size :: u64
  mi_version :: u32

text \<open>
  The services; the first component of a result is the status, 0 for success. \<open>fw_gop\<close> is
  \<open>LocateProtocol\<close> with the mode of the graphics protocol, \<open>fw_image\<close> and \<open>fw_filesystem\<close> are \<open>HandleProtocol\<close> for the
  loaded image and its volume, \<open>fw_open\<close>, \<open>fw_read\<close>, \<open>fw_seek\<close> and \<open>fw_size\<close> work on kernel.elf.
\<close>

record 'f Firmware =
  fw_gop :: "'f \<Rightarrow> FrameBufferConfig option \<times> 'f"
  fw_map :: "u64 \<Rightarrow> 'f \<Rightarrow> u64 \<times> MapInfo \<times> 'f"
  fw_pool :: "u64 \<Rightarrow> 'f \<Rightarrow> u64 \<times> u64 \<times> 'f"
  fw_free :: "u64 \<Rightarrow> 'f \<Rightarrow> 'f"
  fw_pages :: "u64 \<Rightarrow> u64 \<Rightarrow> 'f \<Rightarrow> u64 \<times> 'f"
  fw_image :: "'f \<Rightarrow> u64 \<times> 'f"
  fw_filesystem :: "'f \<Rightarrow> u64 \<times> 'f"
  fw_volume :: "'f \<Rightarrow> u64 \<times> 'f"
  fw_open :: "'f \<Rightarrow> u64 \<times> 'f"
  fw_read :: "u64 \<Rightarrow> 'f \<Rightarrow> u64 \<times> bytes \<times> 'f"
  fw_seek :: "u64 \<Rightarrow> 'f \<Rightarrow> 'f"
  fw_size :: "'f \<Rightarrow> u64 \<times> 'f"
  fw_exit :: "u64 \<Rightarrow> 'f \<Rightarrow> u64 \<times> 'f"

section \<open>The loader\<close>

text \<open>A call that must succeed.\<close>

definition must :: "u64 \<times> 'a \<Rightarrow> 'a option" where
  "must r = (if fst r = 0 then Some (snd r) else None)"

text \<open>The first memory map: the size grows by a page until it fits. The status tested is 0x80000005.\<close>

partial_function (option) first_map :: "'f Firmware \<Rightarrow> u64 \<Rightarrow> 'f \<Rightarrow> (u64 \<times> 'f) option" where
  "first_map fw size0 f =
     (let size1 = size0 + 4096; (status, p, f) = fw_pool fw size1 f
      in if status \<noteq> 0 then None
         else
           let (status, mi, f) = fw_map fw size1 f
           in if status = 0 then Some (p, f)
              else if status = 0x80000005 then first_map fw (mi_size mi) (fw_free fw p f)
              else None)"

text \<open>The map that the kernel gets.\<close>

partial_function (option) final_map :: "'f Firmware \<Rightarrow> u64 \<Rightarrow> 'f \<Rightarrow> (u64 \<times> u64 \<times> MapInfo \<times> 'f) option" where
  "final_map fw size0 f =
     (let size1 = size0 + 4096; (status, p, f) = fw_pool fw size1 f
      in if status \<noteq> 0 then None
         else
           let (status, mi, f) = fw_map fw size1 f
           in if status = 0 then Some (p, size1, mi, f) else final_map fw size1 (fw_free fw p f))"

text \<open>The address range of the kernel; a header outside the bytes read is \<open>None\<close>.\<close>

fun kernel_range :: "Elf64_Phdr option list \<Rightarrow> u64 \<times> u64 \<Rightarrow> (u64 \<times> u64) option" where
  "kernel_range [] r = Some r"
| "kernel_range (None # hs) r = None"
| "kernel_range (Some ph # hs) (KernelFirst, KernelLast) =
     (if p_type ph = 1 then
        let KernelFirst = (if p_vaddr ph < KernelFirst then p_vaddr ph else KernelFirst);
            EndAddr = p_vaddr ph + p_memsz ph;
            KernelLast = (if EndAddr > KernelLast then EndAddr else KernelLast)
        in kernel_range hs (KernelFirst, KernelLast)
      else kernel_range hs (KernelFirst, KernelLast))"

definition boot_segment :: "bytes \<Rightarrow> Elf64_Phdr \<Rightarrow> vmem \<Rightarrow> vmem option" where
  "boot_segment buf ph m =
     (if unat (p_offset ph) + unat (p_filesz ph) > length buf then None
      else
        let m = mem_write (p_vaddr ph) (buf_get (unat (p_offset ph)) (unat (p_filesz ph)) buf) m;
            RemainBytes = p_memsz ph - p_filesz ph
        in Some (if RemainBytes > 0 then mem_set (p_vaddr ph + p_filesz ph) 0 (unat RemainBytes) m else m))"

fun boot_segments :: "bytes \<Rightarrow> Elf64_Phdr option list \<Rightarrow> vmem \<Rightarrow> vmem option" where
  "boot_segments buf [] m = Some m"
| "boot_segments buf (None # hs) m = None"
| "boot_segments buf (Some ph # hs) m =
     (if p_type ph = 1 then Option.bind (boot_segment buf ph m) (boot_segments buf hs) else boot_segments buf hs m)"

definition fill_screen :: "FrameBufferConfig \<Rightarrow> frame \<Rightarrow> frame" where
  "fill_screen config fb =
     (\<lambda>i. if i < VerticalResolution config * HorizontalResolution config then 0xFFFF8000 else fb i)"

text \<open>The part of \<open>EfiMain\<close> that opens kernel.elf and allocates the pages of the kernel.\<close>

definition open_kernel :: "'f Firmware \<Rightarrow> 'f \<Rightarrow> 'f option" where
  "open_kernel fw f = do {
     f \<leftarrow> must (fw_image fw f);
     f \<leftarrow> must (fw_filesystem fw f);
     let (_, f) = fw_volume fw f;
     f \<leftarrow> must (fw_open fw f);
     let (_, HeaderBuffer, f) = fw_pool fw 4096 f;
     let (_, hdr, f) = fw_read fw 4096 f;
     if length hdr < sizeof_Ehdr \<or> take 4 hdr \<noteq> [0x7F, 0x45, 0x4C, 0x46] then None
     else do {
       (KernelFirst, KernelLast) \<leftarrow> kernel_range (cpp_headers hdr) (0xFFFFFFFFFFFFFFFF, 0);
       let NumPages = (KernelLast - KernelFirst + 0xFFF) div 0x1000;
       f \<leftarrow> must (fw_pages fw NumPages KernelFirst f);
       Some (fw_free fw HeaderBuffer f) } }"

text \<open>The part that reads the file and copies the segments.\<close>

definition load_kernel :: "'f Firmware \<Rightarrow> vmem \<Rightarrow> 'f \<Rightarrow> (bytes \<times> vmem \<times> 'f) option" where
  "load_kernel fw m f = do {
     let (FileSize, f) = fw_size fw f;
     (_, f) \<leftarrow> must (fw_pool fw FileSize f);
     let f = fw_seek fw 0 f;
     (buf, f) \<leftarrow> must (fw_read fw FileSize f);
     _ \<leftarrow> (if length buf < sizeof_Ehdr then None else Some ());
     m \<leftarrow> boot_segments buf (cpp_headers buf) m;
     Some (buf, m, f) }"

text \<open>The part that takes the last memory map and leaves the boot services, with one more attempt.\<close>

definition leave_firmware :: "'f Firmware \<Rightarrow> u64 \<Rightarrow> 'f \<Rightarrow> (MapInfo \<times> 'f) option" where
  "leave_firmware fw MemoryMap f = do {
     let f = (if MemoryMap \<noteq> 0 then fw_free fw MemoryMap f else f);
     let (_, mi, f) = fw_map fw 0 f;
     (_, BufferSize, mi, f) \<leftarrow> final_map fw (mi_size mi + 4096) f;
     let (status, f) = fw_exit fw (mi_key mi) f;
     if status = 0 then Some (mi, f)
     else do {
       (mi, f) \<leftarrow> must (fw_map fw BufferSize f);
       let (_, f) = fw_exit fw (mi_key mi) f;
       Some (mi, f) } }"

text \<open>What the kernel is called with.\<close>

record KernelArgs =
  ka_entry :: u64
  ka_config :: FrameBufferConfig
  ka_map :: MapInfo

definition EfiMain :: "'f Firmware \<Rightarrow> frame \<Rightarrow> vmem \<Rightarrow> 'f \<Rightarrow> (KernelArgs \<times> frame \<times> vmem \<times> 'f) option" where
  "EfiMain fw fb m f = do {
     let (gop, f) = fw_gop fw f;
     config \<leftarrow> gop;
     let fb = fill_screen config fb;
     let (_, mi, f) = fw_map fw 0 f;
     (MemoryMap, f) \<leftarrow> first_map fw (mi_size mi) f;
     f \<leftarrow> open_kernel fw f;
     (buf, m, f) \<leftarrow> load_kernel fw m f;
     (mi, f) \<leftarrow> leave_firmware fw MemoryMap f;
     Some (\<lparr>ka_entry = e_entry buf, ka_config = config, ka_map = mi\<rparr>, fb, m, f) }"

section \<open>The kernel in memory\<close>

lemma boot_segment_image:
  assumes "seg_fits buf ph" "p_filesz ph \<le> p_memsz ph"
  shows "boot_segment buf ph m = Some (mem_write (p_vaddr ph) (seg_image buf ph) m)"
proof -
  have d: "unat (p_memsz ph - p_filesz ph) = unat (p_memsz ph) - unat (p_filesz ph)" by (rule unat_sub [OF assms(2)])
  have "p_memsz ph - p_filesz ph > 0 \<longleftrightarrow> p_memsz ph > p_filesz ph"
    unfolding word_less_nat_alt d unat_0 by (rule zero_less_diff)
  moreover have "length (buf_get (unat (p_offset ph)) (unat (p_filesz ph)) buf) = unat (p_filesz ph)"
    using assms(1) by (simp add: seg_fits_def buf_simps)
  ultimately show ?thesis
    using assms d by (auto simp: boot_segment_def seg_fits_def seg_image_def mem_write_append mem_set_def Let_def not_less)
qed

lemma boot_segments_image:
  assumes "boot_segments buf hs m = Some m'" "\<forall>ph\<in>set (loads hs). seg_fits buf ph \<and> p_filesz ph \<le> p_memsz ph"
    and "sorted_wrt seg_disjoint (loads hs)"
  shows "(\<forall>ph\<in>set (loads hs). mem_load m' (p_vaddr ph) (seg_len ph) = seg_image buf ph) \<and>
    (\<forall>x. (\<forall>ph\<in>set (loads hs). unat x \<notin> span (p_vaddr ph) (seg_len ph)) \<longrightarrow> m' x = m x)"
  using assms
proof (induction buf hs m rule: boot_segments.induct)
  case (3 buf ph hs m)
  show ?case
  proof (cases "p_type ph = 1")
    case False
    then have "boot_segments buf hs m = Some m'" using 3(3) by simp
    from 3(2) [OF False this] show ?thesis using 3(4,5) False by simp
  next
    case True
    have fits: "seg_fits buf ph" "p_filesz ph \<le> p_memsz ph" using 3(4) True by simp_all
    define m1 where "m1 = mem_write (p_vaddr ph) (seg_image buf ph) m"
    have seg: "boot_segment buf ph m = Some m1" using boot_segment_image [OF fits] by (simp add: m1_def)
    have rest: "boot_segments buf hs m1 = Some m'" using 3(3) True seg by simp
    have IH: "\<forall>ph\<in>set (loads hs). mem_load m' (p_vaddr ph) (seg_len ph) = seg_image buf ph"
      "\<And>x. \<forall>ph\<in>set (loads hs). unat x \<notin> span (p_vaddr ph) (seg_len ph) \<Longrightarrow> m' x = m1 x"
      using 3(1) [OF True seg rest] 3(4,5) True by auto
    have len: "length (seg_image buf ph) = seg_len ph" by (rule length_seg_image [OF fits(1)])
    have bound: "unat (p_vaddr ph) + seg_len ph \<le> 2 ^ 64" using fits by (simp add: seg_fits_def)
    have "mem_load m' (p_vaddr ph) (seg_len ph) = mem_load m1 (p_vaddr ph) (seg_len ph)"
      by (rule mem_load_frame [OF IH(2) bound]) (use 3(5) True in \<open>auto simp: seg_disjoint_def\<close>)
    also have "\<dots> = seg_image buf ph"
      using mem_load_write [of "p_vaddr ph" "seg_image buf ph" m] bound len by (simp add: m1_def)
    finally have own: "mem_load m' (p_vaddr ph) (seg_len ph) = seg_image buf ph" .
    have "m1 x = m x" if "unat x \<notin> span (p_vaddr ph) (seg_len ph)" for x
      using that bound len by (simp add: m1_def mem_write_at)
    then show ?thesis using IH own True by auto
  qed
qed simp_all


text \<open>The pages asked for reach from the lowest to the highest address of a segment.\<close>

lemma kernel_range_covers:
  "kernel_range hs (a, b) = Some (a', b') \<Longrightarrow> a' \<le> a \<and> b \<le> b' \<and> (\<forall>ph\<in>set (loads hs). a' \<le> p_vaddr ph \<and> p_vaddr ph + p_memsz ph \<le> b')"
proof (induction hs "(a, b)" arbitrary: a b rule: kernel_range.induct)
  case (3 ph hs KernelFirst KernelLast)
  show ?case
  proof (cases "p_type ph = 1")
    case True
    let ?a = "if p_vaddr ph < KernelFirst then p_vaddr ph else KernelFirst"
      and ?b = "if p_vaddr ph + p_memsz ph > KernelLast then p_vaddr ph + p_memsz ph else KernelLast"
    have "kernel_range hs (?a, ?b) = Some (a', b')" using 3(3) True by (simp add: Let_def)
    then have "a' \<le> ?a \<and> ?b \<le> b' \<and> (\<forall>ph\<in>set (loads hs). a' \<le> p_vaddr ph \<and> p_vaddr ph + p_memsz ph \<le> b')"
      using 3(1) [OF True refl refl refl] by blast
    then show ?thesis using True by (auto split: if_splits)
  next
    case False
    then show ?thesis using 3 by simp
  qed
qed simp_all

lemma EfiMain_result:
  assumes "EfiMain fw fb m f = Some (ka, fb', m', f')"
  obtains buf f1 f2 where "load_kernel fw m f1 = Some (buf, m', f2)" "ka_entry ka = e_entry buf"
  using assms by (auto simp: EfiMain_def Let_def split: bind_splits prod.splits)

text \<open>
  C10: the boot loader starts the kernel it was given. If the firmware delivers kernel.elf as the file it is, and the
  loadable segments lie inside the file, are no longer in the file than in memory, do not wrap around and do not
  overlap, then whenever the boot loader gets as far as calling the kernel, the call goes to the entry point of
  that file, each segment is in memory at its address as its bytes of the file followed by zeros, and no other
  memory has changed.
\<close>

theorem boot_kernel_image:
  assumes "EfiMain fw fb m f = Some (ka, fb', m', f')"
    and "\<And>g. fst (fw_size fw g) = of_nat (length file)" "length file < 2 ^ 64"
    and "\<And>n g bs g'. fw_read fw n (fw_seek fw 0 g) = (0, bs, g') \<Longrightarrow> bs = take (unat n) file"
    and "segs = loads (cpp_headers file)" "\<forall>ph\<in>set segs. seg_fits file ph \<and> p_filesz ph \<le> p_memsz ph" "sorted_wrt seg_disjoint segs"
  shows "ka_entry ka = e_entry file \<and> (\<forall>ph\<in>set segs. mem_load m' (p_vaddr ph) (seg_len ph) = seg_image file ph) \<and>
    (\<forall>x. (\<forall>ph\<in>set segs. unat x \<notin> span (p_vaddr ph) (seg_len ph)) \<longrightarrow> m' x = m x)"
proof -
  obtain buf f1 f2 where l: "load_kernel fw m f1 = Some (buf, m', f2)" "ka_entry ka = e_entry buf"
    using EfiMain_result [OF assms(1)] .
  obtain n f3 where n: "fw_size fw f1 = (n, f3)" by fastforce
  obtain f4 where "fw_read fw n (fw_seek fw 0 f4) = (0, buf, f2)" and s: "boot_segments buf (cpp_headers buf) m = Some m'"
    using l(1) n by (auto simp: load_kernel_def must_def Let_def split: bind_splits if_splits prod.splits) (metis prod.collapse)
  moreover have "unat n = length file" using assms(2) [of f1] n assms(3) by (simp add: unat_of_nat take_bit_nat_eq_self)
  ultimately have "buf = file" using assms(4) by fastforce
  then show ?thesis using boot_segments_image [OF s] l(2) assms(5-7) by auto
qed


section \<open>Witness\<close>

text \<open>A firmware that holds the sample program of theory \<open>AppLoad\<close> as kernel.elf; its state is the position in the file.\<close>

definition sample_firmware :: "nat Firmware" where
  "sample_firmware =
     (let mi = \<lparr>mi_size = 48, mi_map = [\<lparr>md_type = 7, physical_start = 0x1000, number_of_pages = 15\<rparr>], mi_key = 1, mi_descriptor_size = 48, mi_version = 1\<rparr>
      in \<lparr>fw_gop = (\<lambda>f. (Some \<lparr>FrameBufferBase = 0, FrameBufferSize = 1024, HorizontalResolution = 16, VerticalResolution = 16, PixelsPerScanLine = 16\<rparr>, f)),
          fw_map = (\<lambda>n f. (if n < 48 then 0x8000000000000005 else 0, mi, f)), fw_pool = (\<lambda>n f. (0, 0x8000, f)), fw_free = (\<lambda>p f. f),
          fw_pages = (\<lambda>n a f. (0, f)), fw_image = (\<lambda>f. (0, f)), fw_filesystem = (\<lambda>f. (0, f)), fw_volume = (\<lambda>f. (0, f)), fw_open = (\<lambda>f. (0, 0)),
          fw_read = (\<lambda>n f. (0, take (unat n) (drop f sample_elf), f + unat n)), fw_seek = (\<lambda>n f. unat n),
          fw_size = (\<lambda>f. (124, f)), fw_exit = (\<lambda>k f. (0, f))\<rparr>)"

lemma sample_elf_cpp: "cpp_headers sample_elf = [Some sample_phdr]" "take 4 sample_elf = [0x7F, 0x45, 0x4C, 0x46]"
  by code_simp+

lemma sample_firmware_simps:
  "fw_pool sample_firmware n f = (0, 0x8000, f)" "fw_free sample_firmware p f = f" "fst (fw_map sample_firmware n f) = (if n < 48 then 0x8000000000000005 else 0)"
  "fw_exit sample_firmware k f = (0, f)" "fst (fw_size sample_firmware f) = 124" "fw_seek sample_firmware 0 f = 0"
  "fw_read sample_firmware n f = (0, take (unat n) (drop f sample_elf), f + unat n)"
  "mi_size (fst (snd (fw_map sample_firmware n f))) = 48"
  by (simp_all add: sample_firmware_def Let_def)

lemma sample_boots: "\<exists>ka fb' m' f'. EfiMain sample_firmware fb m f = Some (ka, fb', m', f')"
proof -
  obtain mi f0 where mp: "fw_map sample_firmware n g = (if n < 48 then 0x8000000000000005 else 0, mi, g)" "mi_size mi = 48" for n g
    by (simp add: sample_firmware_def Let_def)
  have a: "first_map sample_firmware 48 g = Some (0x8000, g)" for g
    by (subst first_map.simps) (simp add: sample_firmware_simps mp)
  have b: "final_map sample_firmware (48 + 4096) g = Some (0x8000, 8240, mi, g)" for g
    by (subst final_map.simps) (simp add: sample_firmware_simps mp)
  have o: "\<exists>g'. open_kernel sample_firmware g = Some g'" for g
    by (simp add: open_kernel_def must_def sample_firmware_def Let_def sample_elf_headers sample_elf_cpp sizeof_Ehdr_def sample_phdr_def)
  have "boot_segment sample_elf sample_phdr m = Some (mem_write 0x400000 (seg_image sample_elf sample_phdr) m)" for m
    using boot_segment_image [of sample_elf sample_phdr m]
    by (simp add: sample_phdr_def seg_fits_def seg_len_def sample_elf_headers)
  then have l: "\<exists>buf m' g'. load_kernel sample_firmware m g = Some (buf, m', g')" for g
    by (simp add: load_kernel_def must_def sample_firmware_def Let_def sample_elf_headers sample_elf_cpp sizeof_Ehdr_def)
  have e: "\<exists>g'. leave_firmware sample_firmware p g = Some (mi, g')" for p g
    using b by (simp add: leave_firmware_def Let_def sample_firmware_simps mp)
  obtain c where c: "fw_gop sample_firmware f = (Some c, f)" by (simp add: sample_firmware_def Let_def)
  obtain g1 where g1: "open_kernel sample_firmware f = Some g1" using o by blast
  obtain buf m' g2 where g2: "load_kernel sample_firmware m g1 = Some (buf, m', g2)" using l by blast
  obtain g3 where g3: "leave_firmware sample_firmware 0x8000 g2 = Some (mi, g3)" using e by blast
  show ?thesis by (simp add: EfiMain_def Let_def mp c a g1 g2 g3)
qed

theorem boot_kernel_image_witness:
  "\<exists>ka fb' m' f'. EfiMain sample_firmware (\<lambda>_. 0) (\<lambda>_. 7) 0 = Some (ka, fb', m', f') \<and> ka_entry ka = 0x400000 \<and>
     mem_load m' 0x400000 16 = [0xF4, 0xEB, 0xFD, 0x90] @ replicate 12 0 \<and> m' 0x400010 = 7"
proof -
  obtain ka fb' m' f' where r: "EfiMain sample_firmware (\<lambda>_. 0) (\<lambda>_. 7) 0 = Some (ka, fb', m', f')" using sample_boots by blast
  have im: "seg_image sample_elf sample_phdr = [0xF4, 0xEB, 0xFD, 0x90] @ replicate 12 0" by code_simp
  have "seg_fits sample_elf sample_phdr \<and> p_filesz sample_phdr \<le> p_memsz sample_phdr"
    by (simp add: sample_phdr_def seg_fits_def seg_len_def sample_elf_headers)
  moreover have "\<And>n g bs g'. fw_read sample_firmware n (fw_seek sample_firmware 0 g) = (0, bs, g') \<Longrightarrow> bs = take (unat n) sample_elf"
    by (simp add: sample_firmware_simps)
  ultimately have "ka_entry ka = e_entry sample_elf \<and> mem_load m' (p_vaddr sample_phdr) (seg_len sample_phdr) = seg_image sample_elf sample_phdr \<and>
      (\<forall>x. unat x \<notin> span (p_vaddr sample_phdr) (seg_len sample_phdr) \<longrightarrow> m' x = 7)"
    using boot_kernel_image [OF r, of sample_elf "loads (cpp_headers sample_elf)"]
    by (simp add: sample_firmware_simps sample_elf_headers sample_elf_cpp) (simp add: sample_phdr_def)
  then have "ka_entry ka = 0x400000 \<and> mem_load m' 0x400000 16 = [0xF4, 0xEB, 0xFD, 0x90] @ replicate 12 0 \<and> m' 0x400010 = 7"
    unfolding im by (simp add: sample_elf_headers sample_phdr_def seg_len_def span_def)
  then show ?thesis using r by blast
qed

end
