(* ===== verification/Spec2Isabelle.thy ===== *)
theory Spec2Isabelle
  imports MemoryMgr ReadyQueue FatNvme PageInit TaskLife FileDesc Logger Printk DiskFormat AppLoad Shell Usb Boot UserApps Bootloader
begin

text \<open>
  Verification of Sylphia-OS, an operating system kernel for x86-64 in C++ with its UEFI boot loader
  and its programs in user mode.

  \<^bold>\<open>The program.\<close> The boot loader (bootloader/main.c) puts kernel.elf into memory, leaves the
  firmware and calls \<open>KernelMain\<close> (kernel/main.cpp). The kernel sets up its console, the frame
  allocator, its page tables, the descriptor tables of the processor and the interrupt controllers, looks
  for devices on the PCI bus, starts the NVMe controller and the xHCI controller with a keyboard or a
  mass storage device behind it, opens the FAT32 volume on the NVMe disk, and starts the scheduler with
  the idle task. From then on the timer switches tasks, the USB interrupt feeds the keyboard descriptor,
  the idle task starts the shell program and passes on serial input, and programs act through system
  calls on descriptors, files, pipes and the console.

  \<^bold>\<open>Shared vocabulary.\<close>
  \<^item> \<open>Prelude\<close>: the integer types of the code as words of their width, byte buffers with in-place
    writes, little-endian encodings, lists and options; the rule sets \<open>buf_simps\<close> and \<open>le_simps\<close>.
  \<^item> \<open>PhysMem\<close>: memory by bytes, shared by the kernel and its devices. \<open>UserMem\<close>: the
    contents of an address space, the functions of std/string.cpp and kernel/cxx.cpp and the
    argument vector on a user stack.
  \<^item> \<open>Machine\<close>: ports, device registers and shared memory, as a parameter of the drivers; each access
    may change the state of the machine.

  \<^bold>\<open>Memory and tasks.\<close>
  \<^item> \<open>MemoryMgr\<close> (kernel/memory/memory_manager.cpp, kernel/new.cpp): the frame bitmap,
    first fit allocation, release, and operator new and delete. The contract \<open>frame_allocator\<close> gives
    that blocks in circulation never overlap; the allocator is shown to keep it.
  \<^item> \<open>Paging\<close>, \<open>PageWalk\<close>, \<open>PageMaps\<close>, \<open>PageProc\<close>, \<open>PageInit\<close>
    (kernel/paging.cpp, paging.hpp): \<open>PageManager\<close> over a store of tables. \<open>walk\<close> is the translation the
    processor makes; under a tree of tables \<open>MapPage\<close> maps its range and nothing else, \<open>Initialize\<close>
    gives the identity on 64 GB, and process tables never change what the kernel sees.
  \<^item> \<open>ReadyQueue\<close>, \<open>TaskLife\<close> (kernel/task): control blocks linked by \<open>next\<close> and \<open>prev\<close>, the
    doubly linked ready queue, the scheduler with the saved registers, creation and end of tasks. The
    contract \<open>ready_list\<close> shows the queue as a list; the scheduler refines round robin on that list
    and is fair; a task that yields gets its registers back, with interrupts enabled; ending a task
    undoes its creation.

  \<^bold>\<open>Disks and files.\<close>
  \<^item> \<open>BlockDev\<close> (kernel/block_device.hpp): the virtual methods as a record and their contracts
    \<open>block_reader\<close> and \<open>block_device\<close>, against which the file system is proved.
  \<^item> \<open>NvmeIO\<close> (I/O path of kernel/driver/nvme/nvme_driver.cpp): queue entries, region pages, doorbells,
    phase bits. For every controller in \<open>nvme_controller\<close> the driver keeps \<open>block_device\<close>, by a
    \<open>sublocale\<close>. \<open>NvmeInit\<close> (the same file): reset, admin queue, identification and creation of the queues,
    on every device in \<open>nvme_device\<close>.
  \<^item> \<open>Fat32\<close> (kernel/fs/fat32/fat32_driver.cpp): the driver, operation by operation;
    \<open>FatNames\<close>: short names; \<open>FatDisk\<close>: the volume as tables of links and clusters, with frame laws;
    \<open>FatOps\<close>, \<open>FatFiles\<close>: the driver refines these tables; \<open>FatNvme\<close>: what this gives for files
    on the NVMe driver - contents written are contents read, other files stay, deletion releases
    exactly the clusters of the file, and the chain loops end.
  \<^item> \<open>DiskFormat\<close> (kernel/fs/fat32/fat32.cpp, kernel/fs/gpt.cpp, installer.cpp): the partition table
    with its checksums and the empty volume, and that the driver can use what the installer writes.

  \<^bold>\<open>Output, descriptors and calls.\<close>
  \<^item> \<open>Graphics\<close>, \<open>Font\<close>, \<open>Console\<close>, \<open>Printk\<close> (kernel/graphics.cpp, font.cpp,
    console.cpp, printk.cpp): the pixels on the screen are those of a terminal of character cells,
    and \<open>kprintf\<close> prints the text its format denotes.
  \<^item> \<open>FileDesc\<close> (kernel/sys/std/file_descriptor.cpp): keyboard and pipe rings, both instances of
    \<open>byte_fifo\<close>, and open files as streams. \<open>Logger\<close> (kernel/sys/logger/logger.cpp): the latest 256
    entries and the log file.
  \<^item> \<open>AppLoad\<close> (kernel/app/elf, kernel/rust/src/elf): both ELF loaders and the start of a program. What each page table shows is
    followed through the page manager: fresh frames are zero, a store is seen wherever its physical byte is mapped.
    In the table of the kernel the loader builds the image of the program; that it works on that table also
    after \<open>CreateProcess\<close> has switched to another, and that a segment clears the pages it shares, is shown too.
  \<^item> \<open>Syscall\<close> (kernel/sys/syscall.cpp, std I/O of kernel/sys/init): the state \<open>Sys\<close> in which the
    components above meet, every system call on it, the type invariant of the descriptor table. \<open>sys_call\<close> is the handler
    without the calls that store to the kernel's own memory through the unchecked pointer of their caller.
    After a failed \<open>new\<close> in \<open>InitializeIO\<close> a standard descriptor or the logger is null.
  \<^item> \<open>Shell\<close> (kernel/shell/shell.cpp, kernel/sys/sys.cpp): line editor, splitting, pipes, commands.

  \<^bold>\<open>Devices and interrupts.\<close>
  \<^item> \<open>Pci\<close> (kernel/pci/pci.cpp): the configuration space on every \<open>pci_host\<close>.
  \<^item> \<open>Xhci\<close>, \<open>XhciRing\<close>, \<open>UsbInit\<close> (kernel/driver/usb/xhci.cpp): commands, transfers, events and
    start of the controller; the rings are queues on every \<open>dma_machine\<close>. \<open>Usb\<close> (keyboard and
    mass_storage): the drivers of the devices, the path of a key to the program that reads it.
  \<^item> \<open>Cpu\<close> (kernel/segmentation.cpp, x86_descriptor.hpp, apic.cpp, ioapic.cpp, pic.cpp, tables of
    interrupt.cpp, EnableSSE of asmfunc.asm): segments, gates, interrupt controllers (\<open>ioapic_host\<close>).
    \<open>Interrupts\<close> (handlers of interrupt.cpp): reports of exceptions, timer and USB handlers on the
    system state.
  \<^item> \<open>Idle\<close> (kernel/task/idle_task.cpp): the passes of the idle task on every \<open>serial_port\<close>, and the
    step relation \<open>os_step\<close> of the running system: system calls, entry of an application task, timer
    interrupt, USB interrupt, idle pass, in any order.
  \<^item> \<open>Boot\<close> (kernel/main.cpp, kernel/sys/init/init.cpp, \<open>SetupPCI\<close>, kernel/task/test_task.cpp): the
    start of the kernel up to the first timer interrupt; the invariant of all states reached from there,
    and that the first tick runs the idle task.

  \<^bold>\<open>Outside the kernel.\<close>
  \<^item> \<open>UserApps\<close> (apps/_header/syscall.hpp, apps/shell, apps/stdio, apps/test): the wrappers of
    the system calls and the programs on top of the calls of \<open>Syscall\<close>.
  \<^item> \<open>Bootloader\<close> (bootloader/main.c, uefi/uefi.h): \<open>EfiMain\<close> over the firmware as a parameter.

  \<^bold>\<open>Parameters.\<close> What is not in the repository is an argument: the machine, controllers and
  disks, the firmware, addresses that the linker or the compiler chooses, contents of memory before its
  first write, and where several ELF loaders exist, the one linked in. What the code relies on is
  stated as the laws of a contract, from the specification of the device, and every contract is
  interpreted on a concrete instance that also serves the witnesses.

  \<^bold>\<open>Loops and bounds.\<close> Loops with a counter in the code (time-outs of 1000000 and 10000000 polls, scans of
  a table) carry that counter. Loops that may not end are \<open>partial_function (option)\<close>: the value
  \<open>None\<close> means that the loop does not return. \<open>None\<close> also stands for a stop of the processor
  and for executions outside the language (an access past the end of an array); each theory says which.
  That an operation returns is therefore part of a statement of the form \<open>f s = Some s'\<close>; no bound
  on executions is introduced by the model itself.

  \<^bold>\<open>Not modelled.\<close>
  \<^item> Log lines of the kernel to console and serial port where they have no other effect.
  \<^item> \<open>SyscallEntry\<close> and \<open>ExitApp\<close> in assembly: registers and stack of a call are taken as
    handed over; \<open>SwitchContext\<close> is modelled by the registers it saves and loads.
  \<^item> Buffers of system calls are followed in the memory of the caller's address space alone: that a program
    overwrites the kernel through them, or reads the bytes through another mapping, is outside the model.
    So is a system call that reads an unmapped address, where the processor would raise a page fault.
  \<^item> The contents of control blocks, page tables and kernel stacks are records of their own and not bytes of
    an address space; an object at the address 0 after a failed \<open>new\<close> is not followed.
  \<^item> Interrupts in the middle of a system call, of the idle pass or of the start of the kernel: these are one
    step each. Only the last of several xHCI controllers is kept, as the code has one global pointer.
  \<^item> The controller state of the USB driver carries the allocator of its start; the allocator that system
    calls use is the one of \<open>Sys\<close>.
  \<^item> The guards of static variables, the modules of the Rust crate that only declare or forward,
    kernel/boot_info.hpp, which nothing uses, and build scripts and linker scripts.
\<close>

end
